(* ===== verification/NW_Prelude.thy ===== *)
theory NW_Prelude
  imports Main "HOL-Library.Word"
begin

text \<open>
  Shared ground of the development: the machine types of the x86-64 target the sources are
  written for, the faults a C statement can end in, array reads and writes that fault outside the
  array, and the generic list, option and word lemmas that the component theories use.
\<close>

unbundle bit_operations_syntax

section \<open>Machine types\<close>

type_synonym uint32 = "32 word"
type_synonym uint64 = "64 word"
type_synonym ptr = "64 word"

abbreviation (input) NULL :: ptr where
  "NULL \<equiv> 0"

text \<open>
  A C \<open>int\<close> is an \<^typ>\<open>int\<close>; \<open>i32\<close> is the two's complement wrap-around of a 32-bit result,
  written at the operations whose result may leave the range.
\<close>

definition i32 :: "int \<Rightarrow> int" where
  "i32 x = (x + 2 ^ 31) mod 2 ^ 32 - 2 ^ 31"

text \<open>
  Shifts of an \<open>unsigned long\<close> by a variable amount: the x86-64 instructions use the low six
  bits of the count (C leaves a count of 64 or more undefined).
\<close>

definition shl64 :: "uint64 \<Rightarrow> nat \<Rightarrow> uint64" where
  "shl64 x n = push_bit (n mod 64) x"

definition shr64 :: "uint64 \<Rightarrow> nat \<Rightarrow> uint64" where
  "shr64 x n = drop_bit (n mod 64) x"

section \<open>Faults\<close>

text \<open>
  What a statement can end in instead of completing: a read or write outside an array, a
  dereference of \<open>NULL\<close>, a read of an uninitialised variable, a failed \<open>assert\<close>, an integer
  division by zero (SIGFPE), a spin lock taken by the thread that already holds it (\<open>Deadlock\<close>), an
  access that treats memory as an object it is not (\<open>Corrupt\<close>), a call of \<open>exit\<close>, and the C++ exception
  \<open>bad_alloc\<close>. \<open>OutOfFuel\<close> is not an outcome of the program: a loop of the model ran out of its bound.
\<close>

datatype fault =
    OutOfBounds | NullDeref | Uninit | AssertFail | DivByZero | Deadlock | Corrupt | ProcessExit | BadAlloc | OutOfFuel

type_synonym 'a res = "fault + 'a"

definition rbind :: "'a res \<Rightarrow> ('a \<Rightarrow> 'b res) \<Rightarrow> 'b res" where
  "rbind r f = (case r of Inl e \<Rightarrow> Inl e | Inr x \<Rightarrow> f x)"

lemma rbind_Inl [simp]: "rbind (Inl e) f = Inl e"
  by (simp add: rbind_def)

lemma rbind_Inr [simp]: "rbind (Inr x) f = f x"
  by (simp add: rbind_def)

lemma rbind_eq_Inr: "rbind r f = Inr y \<longleftrightarrow> (\<exists>x. r = Inr x \<and> f x = Inr y)"
  by (cases r) auto

lemma rbind_cong [fundef_cong]:
  "r = r' \<Longrightarrow> (\<And>x. r' = Inr x \<Longrightarrow> f x = g x) \<Longrightarrow> rbind r f = rbind r' g"
  by (cases r') auto

section \<open>Arrays\<close>

definition rd :: "'a list \<Rightarrow> int \<Rightarrow> 'a res" where
  "rd xs i = (if 0 \<le> i \<and> i < int (length xs) then Inr (xs ! nat i) else Inl OutOfBounds)"

definition wr :: "'a list \<Rightarrow> int \<Rightarrow> 'a \<Rightarrow> 'a list res" where
  "wr xs i v = (if 0 \<le> i \<and> i < int (length xs) then Inr (xs[nat i := v]) else Inl OutOfBounds)"

lemma rd_ok [simp]: "0 \<le> i \<Longrightarrow> i < int (length xs) \<Longrightarrow> rd xs i = Inr (xs ! nat i)"
  by (simp add: rd_def)

lemma wr_ok [simp]: "0 \<le> i \<Longrightarrow> i < int (length xs) \<Longrightarrow> wr xs i v = Inr (xs[nat i := v])"
  by (simp add: wr_def)

section \<open>Generic lemmas\<close>

text \<open>Integers that stay in the range of \<open>int\<close> do not wrap.\<close>

lemma rd_uint [simp]:
  fixes w :: uint64
  shows "unat w < length xs \<Longrightarrow> rd xs (uint w) = Inr (xs ! unat w)"
  using rd_ok[of "uint w" xs] by (simp add: uint_nat del: of_nat_unat)

lemma wr_uint [simp]:
  fixes w :: uint64
  shows "unat w < length xs \<Longrightarrow> wr xs (uint w) v = Inr (xs[unat w := v])"
  using wr_ok[of "uint w" xs v] by (simp add: uint_nat del: of_nat_unat)

lemma i32_id [simp]: "- (2 ^ 31) \<le> x \<Longrightarrow> x < 2 ^ 31 \<Longrightarrow> i32 x = x"
  by (simp add: i32_def)

lemma i32_range: "- (2 ^ 31) \<le> i32 x \<and> i32 x < 2 ^ 31"
  by (simp add: i32_def)

lemma find_Some_least:
  "List.find P [a..<b] = Some i \<longleftrightarrow> a \<le> i \<and> i < b \<and> P i \<and> (\<forall>j. a \<le> j \<and> j < i \<longrightarrow> \<not> P j)"
proof (induction "b - a" arbitrary: a)
  case 0
  then show ?case by simp
next
  case (Suc k)
  then have ab: "a < b" by simp
  have IH: "List.find P [Suc a..<b] = Some i \<longleftrightarrow>
      Suc a \<le> i \<and> i < b \<and> P i \<and> (\<forall>j. Suc a \<le> j \<and> j < i \<longrightarrow> \<not> P j)"
    using Suc by simp
  show ?case
  proof (cases "P a")
    case True
    then have "List.find P [a..<b] = Some i \<longleftrightarrow> i = a"
      using ab by (auto simp: upt_conv_Cons)
    moreover have "i \<noteq> a \<Longrightarrow> a \<le> i \<Longrightarrow> \<exists>j. a \<le> j \<and> j < i \<and> P j"
      using True by (intro exI[of _ a]) simp
    ultimately show ?thesis using True ab by (cases "i = a") auto
  next
    case False
    have "a \<le> j \<longleftrightarrow> j = a \<or> Suc a \<le> j" for j by auto
    then show ?thesis using IH False ab by (simp add: upt_conv_Cons) blast
  qed
qed

lemma find_None_upt: "List.find P [a..<b] = None \<longleftrightarrow> (\<forall>j. a \<le> j \<and> j < b \<longrightarrow> \<not> P j)"
  by (auto simp: find_None_iff)

text \<open>A 64-bit word is zero when none of its 64 bits is set.\<close>

lemma word64_zero_iff: "(w :: uint64) = 0 \<longleftrightarrow> (\<forall>j < 64. \<not> bit w j)"
  by (simp add: bit_eq_iff)

lemma word64_least_bit:
  assumes "(w :: uint64) \<noteq> 0"
  obtains j where "bit w j" "j < 64" "\<And>k. k < j \<Longrightarrow> \<not> bit w k"
proof -
  from assms obtain i where i: "bit w i" "i < 64" by (auto simp: word64_zero_iff)
  show thesis
  proof (rule that)
    show "bit w (LEAST j. bit w j)" using i(1) by (rule LeastI)
    show "(LEAST j. bit w j) < 64" using Least_le[of "bit w", OF i(1)] i(2) by simp
    show "\<not> bit w k" if "k < (LEAST j. bit w j)" for k using that by (rule not_less_Least)
  qed
qed

lemma word64_greatest_bit:
  assumes "(w :: uint64) \<noteq> 0"
  obtains j where "bit w j" "j < 64" "\<And>k. j < k \<Longrightarrow> \<not> bit w k"
proof -
  from assms obtain i where i: "bit w i" by (auto simp: word64_zero_iff)
  have bound: "\<And>k. bit w k \<Longrightarrow> k \<le> 63"
    using bit_imp_le_length[of w] by fastforce
  show thesis
  proof (rule that)
    show g: "bit w (GREATEST j. bit w j)" using i bound by (rule GreatestI_nat)
    show "(GREATEST j. bit w j) < 64" using bound[OF g] by simp
    show "\<not> bit w k" if "(GREATEST j. bit w j) < k" for k
      using that Greatest_le_nat[of "bit w" k 63] bound by force
  qed
qed

lemma remove1_eq_filter: "distinct xs \<Longrightarrow> remove1 x xs = filter (\<lambda>y. y \<noteq> x) xs"
  by (auto simp: distinct_remove1_removeAll removeAll_filter_not_eq intro: filter_cong)

lemma distinct_set_singleton: "distinct xs \<Longrightarrow> set xs = {e} \<Longrightarrow> xs = [e]"
  by (cases xs; cases "tl xs") auto

lemma map_of_remove1:
  assumes "inj_on f (set ps)" and "distinct ps" and "p \<in> set ps"
  shows "map_of (map (\<lambda>q. (f q, g q)) (remove1 p ps)) =
    (map_of (map (\<lambda>q. (f q, g q)) ps))(f p := None)"
  using assms
proof (induction ps)
  case Nil
  then show ?case by simp
next
  case (Cons q ps)
  show ?case
  proof (cases "q = p")
    case True
    have "map_of (map (\<lambda>q. (f q, g q)) ps) (f p) = None"
      using Cons.prems True by (auto simp: map_of_eq_None_iff image_image)
    then show ?thesis using True by (auto simp: fun_upd_idem)
  next
    case False
    then have "f q \<noteq> f p" using Cons.prems by (auto simp: inj_on_def)
    then show ?thesis using Cons False by (auto simp: fun_eq_iff)
  qed
qed

text \<open>Clearing the low bits rounds down to a multiple of the block size.\<close>

lemma and_not_mask:
  fixes x :: "'a :: ring_bit_operations"
  shows "x AND NOT (mask k) = x - take_bit k x"
proof -
  have "x - take_bit k x = x AND NOT (take_bit k x)"
    by (rule disjunctive_diff_eq_and_not) (auto simp: bit_eq_iff bit_simps)
  also have "\<dots> = x AND NOT (mask k)"
    by (rule bit_eqI) (auto simp: bit_and_iff bit_not_iff bit_take_bit_iff bit_mask_iff)
  finally show ?thesis by simp
qed

end
