(* ===== verification/NW_Memory.thy ===== *)
theory NW_Memory
  imports NW_Prelude
begin

text \<open>
  The allocator interface of \<open>allocator.h\<close> as the sources use it: \<open>internal_malloc\<close> and
  \<open>internal_free\<close>. The allocator itself (the modified tcmalloc) is a parameter: the record holds
  the sequence of addresses it will return and the words that precede an allocation, which the
  code reads in one place. \<open>malloc_cnt\<close> counts the allocations made, \<open>released\<close> lists the
  addresses given back. The sources do not check the result of these calls; the model has them
  succeed.
\<close>

record heap_state =
  malloc_seq :: "nat \<Rightarrow> ptr"
  malloc_below :: "ptr \<Rightarrow> uint64"
  malloc_cnt :: nat
  released :: "ptr list"

definition internal_malloc :: "'a heap_state_scheme \<Rightarrow> ptr \<times> 'a heap_state_scheme" where
  "internal_malloc s = (malloc_seq s (malloc_cnt s), s\<lparr>malloc_cnt := malloc_cnt s + 1\<rparr>)"

definition internal_free :: "ptr \<Rightarrow> 'a heap_state_scheme \<Rightarrow> 'a heap_state_scheme" where
  "internal_free p s = s\<lparr>released := p # released s\<rparr>"

abbreviation next_malloc :: "'a heap_state_scheme \<Rightarrow> ptr" where
  "next_malloc s \<equiv> malloc_seq s (malloc_cnt s)"

end
