(* ===== verification/Utl_HashMap.thy ===== *)
theory Utl_HashMap
  imports NW_Memory
begin

text \<open>
  The chained hash map of \<open>utl_hash_map.c\<close> (serial version). A map is an array of buckets; every
  member is on the chain of its bucket (\<open>crash\<close>) and on the list of all members (\<open>p\<close>), and
  freed members go to a free list shared by all maps. Chains and lists are lists of member
  addresses (\<open>Utl_List\<close> justifies reading the intrusive lists so); the contents of a member are
  in the store \<open>mm_cell\<close>.
\<close>

section \<open>Data\<close>

record map_member =
  mm_key :: uint64
  mm_val :: ptr

record hmap_entry =
  he_n :: int
  he_entry :: "ptr list"

record hash_map =
  hm_self :: ptr
  hm_map :: "hmap_entry list"
  hm_addr :: ptr
  hm_size :: int
  hm_fill :: int
  hm_key_len :: nat
  hm_key_mask :: uint64
  hm_members :: "ptr list"

record hm_state = heap_state +
  free_member :: "ptr list"
  mm_cell :: "ptr \<Rightarrow> map_member"

definition HT_INIT_SIZE :: int where
  "HT_INIT_SIZE = 1024"

definition HT_INIT_KEY_LEN :: nat where
  "HT_INIT_KEY_LEN = 10"

section \<open>Slots\<close>

definition get_key_mask :: "nat \<Rightarrow> uint64" where
  "get_key_mask key_len = NOT (shl64 (shl64 1 key_len - 1) ((64 - key_len) div 2))"

definition get_map_slot :: "uint64 \<Rightarrow> uint64 \<Rightarrow> nat \<Rightarrow> uint64" where
  "get_map_slot key msk key_len =
     (let h = key + shr64 key key_len + shr64 key (key_len * 2) + shr64 key (key_len * 4);
          h = h * h
      in shr64 (h AND NOT msk) ((64 - key_len) div 2))"

section \<open>Members\<close>

definition map_member_alloc :: "'a hm_state_scheme \<Rightarrow> ptr \<times> 'a hm_state_scheme" where
  "map_member_alloc s =
     (case free_member s of
        [] \<Rightarrow> internal_malloc s
      | p # ps \<Rightarrow> (p, s\<lparr>free_member := ps\<rparr>))"

text \<open>\<open>map_member_free\<close> unlinks the member from the list of all members and pushes it.\<close>

definition map_member_free ::
    "ptr \<Rightarrow> hash_map \<Rightarrow> 'a hm_state_scheme \<Rightarrow> hash_map \<times> 'a hm_state_scheme" where
  "map_member_free p hm s =
     (hm\<lparr>hm_members := remove1 p (hm_members hm)\<rparr>, s\<lparr>free_member := p # free_member s\<rparr>)"

section \<open>Maps\<close>

definition empty_entry :: hmap_entry where
  "empty_entry = \<lparr>he_n = 0, he_entry = []\<rparr>"

definition new_hash_map :: "'a hm_state_scheme \<Rightarrow> hash_map \<times> 'a hm_state_scheme" where
  "new_hash_map s =
     (let (hmap, s) = internal_malloc s;
          (arr, s) = internal_malloc s
      in (\<lparr>hm_self = hmap, hm_map = replicate (nat HT_INIT_SIZE) empty_entry, hm_addr = arr,
           hm_size = HT_INIT_SIZE, hm_fill = 0, hm_key_len = HT_INIT_KEY_LEN,
           hm_key_mask = get_key_mask HT_INIT_KEY_LEN, hm_members = []\<rparr>, s))"

text \<open>\<open>delete_hash_map\<close> hands the members to the free list one by one, then frees the array.\<close>

fun free_members :: "ptr list \<Rightarrow> 'a hm_state_scheme \<Rightarrow> 'a hm_state_scheme" where
  "free_members [] s = s"
| "free_members (p # ps) s = free_members ps (s\<lparr>free_member := p # free_member s\<rparr>)"

definition delete_hash_map :: "hash_map \<Rightarrow> 'a hm_state_scheme \<Rightarrow> 'a hm_state_scheme" where
  "delete_hash_map hm s =
     internal_free (hm_self hm) (internal_free (hm_addr hm) (free_members (hm_members hm) s))"

definition get_map_entry :: "hash_map \<Rightarrow> uint64 \<Rightarrow> int" where
  "get_map_entry hm key = uint (get_map_slot key (hm_key_mask hm) (hm_key_len hm))"

definition map_member_exist :: "'a hm_state_scheme \<Rightarrow> hmap_entry \<Rightarrow> uint64 \<Rightarrow> bool" where
  "map_member_exist s e key \<longleftrightarrow>
     he_n e \<noteq> 0 \<and> (\<exists>p \<in> set (he_entry e). mm_key (mm_cell s p) = key)"

text \<open>
  \<open>get_map_member\<close> runs along the chain and then looks at \<open>member_iter->key\<close> once more. When no
  member matched, \<open>member_iter\<close> is the bucket head read as a member, whose \<open>key\<close> is the word in
  front of the bucket: the \<open>prev\<close> link of the bucket before it (a bucket has 24 bytes, its links
  start at byte 8, those of a member's chain at byte 16), or, for the first bucket, the word in
  front of the array. If that word happens to be the key, the bucket head itself is returned.
\<close>

definition guard_word :: "'a hm_state_scheme \<Rightarrow> hash_map \<Rightarrow> int \<Rightarrow> uint64" where
  "guard_word s hm slot =
     (if slot = 0 then malloc_below s (hm_addr hm)
      else
        let before = hm_map hm ! nat (slot - 1)
        in if he_entry before = [] then hm_addr hm + 24 * word_of_int (slot - 1) + 8
           else last (he_entry before) + 16)"

datatype member_ref = NoMember | Member ptr | HeadAlias

definition get_map_member ::
    "'a hm_state_scheme \<Rightarrow> hash_map \<Rightarrow> int \<Rightarrow> uint64 \<Rightarrow> member_ref res" where
  "get_map_member s hm slot key =
     rbind (rd (hm_map hm) slot) (\<lambda>e.
       Inr (if he_n e = 0 then NoMember
            else case List.find (\<lambda>p. mm_key (mm_cell s p) = key) (he_entry e) of
                   Some p \<Rightarrow> Member p
                 | None \<Rightarrow> if guard_word s hm slot \<noteq> key then NoMember else HeadAlias))"

definition hash_map_full :: "hash_map \<Rightarrow> bool" where
  "hash_map_full hm \<longleftrightarrow> hm_size hm div 2 < hm_fill hm"

text \<open>
  The bucket a chain operation works on: read it, change it, write it back; a slot outside the
  array is a fault.
\<close>

definition upd_entry :: "int \<Rightarrow> (hmap_entry \<Rightarrow> hmap_entry) \<Rightarrow> hash_map \<Rightarrow> hash_map res" where
  "upd_entry slot f hm =
     rbind (rd (hm_map hm) slot) (\<lambda>e.
     rbind (wr (hm_map hm) slot (f e)) (\<lambda>es. Inr (hm\<lparr>hm_map := es\<rparr>)))"

definition push_entry :: "ptr \<Rightarrow> hmap_entry \<Rightarrow> hmap_entry" where
  "push_entry p e = e\<lparr>he_n := he_n e + 1, he_entry := p # he_entry e\<rparr>"

definition drop_entry :: "ptr \<Rightarrow> hmap_entry \<Rightarrow> hmap_entry" where
  "drop_entry p e = e\<lparr>he_n := he_n e - 1, he_entry := remove1 p (he_entry e)\<rparr>"

fun relink_members :: "'a hm_state_scheme \<Rightarrow> ptr list \<Rightarrow> hash_map \<Rightarrow> hash_map res" where
  "relink_members s [] hm = Inr hm"
| "relink_members s (p # ps) hm =
     rbind (upd_entry (get_map_entry hm (mm_key (mm_cell s p))) (push_entry p) hm) (\<lambda>hm'.
       relink_members s ps hm')"

text \<open>
  \<open>hash_map_rebuild\<close> doubles the array and relinks every member. The byte count of the new array
  is an \<open>int\<close>; a negative one becomes a \<open>size_t\<close> that no allocator grants, and the
  \<open>assert\<close> on the result fails.
\<close>

definition hash_map_rebuild ::
    "hash_map \<Rightarrow> 'a hm_state_scheme \<Rightarrow> (int \<times> hash_map \<times> 'a hm_state_scheme) res" where
  "hash_map_rebuild hm s =
     (if hm_members hm = [] then Inr (0, hm, s)
      else
        let new_size = i32 (hm_size hm * 2);
            bytes = i32 (new_size * 24);
            (arr, s) = internal_malloc s
        in if bytes < 0 then Inl AssertFail
           else
             let key_len = hm_key_len hm + 1;
                 hm' = hm\<lparr>hm_map := replicate (nat new_size) empty_entry, hm_addr := arr,
                          hm_size := new_size, hm_key_len := key_len,
                          hm_key_mask := get_key_mask key_len\<rparr>
             in rbind (relink_members s (hm_members hm) hm') (\<lambda>hm''.
                  Inr (0, hm'', internal_free (hm_addr hm) s)))"

definition hash_map_add_member ::
    "hash_map \<Rightarrow> uint64 \<Rightarrow> ptr \<Rightarrow> 'a hm_state_scheme \<Rightarrow> (int \<times> hash_map \<times> 'a hm_state_scheme) res" where
  "hash_map_add_member hm key val s =
     rbind (if hash_map_full hm then hash_map_rebuild hm s else Inr (0, hm, s)) (\<lambda>(ret, hm, s).
       let slot = get_map_entry hm key;
           (member, s) = map_member_alloc s;
           s = s\<lparr>mm_cell := (mm_cell s)(member := \<lparr>mm_key = key, mm_val = val\<rparr>)\<rparr>
       in rbind (upd_entry slot (push_entry member) hm) (\<lambda>hm.
            Inr (ret, hm\<lparr>hm_members := member # hm_members hm, hm_fill := hm_fill hm + 1\<rparr>, s)))"

definition hash_map_delete_member ::
    "hash_map \<Rightarrow> uint64 \<Rightarrow> 'a hm_state_scheme \<Rightarrow> (hash_map \<times> 'a hm_state_scheme) res" where
  "hash_map_delete_member hm key s =
     (let slot = get_map_entry hm key
      in rbind (get_map_member s hm slot key) (\<lambda>m.
        case m of
          NoMember \<Rightarrow> Inr (hm, s)
        | HeadAlias \<Rightarrow> Inl Corrupt
        | Member p \<Rightarrow>
            rbind (upd_entry slot (drop_entry p) hm) (\<lambda>hm.
              let (hm, s) = map_member_free p hm s
              in Inr (hm\<lparr>hm_fill := hm_fill hm - 1\<rparr>, s))))"

definition hash_map_find_member :: "hash_map \<Rightarrow> uint64 \<Rightarrow> 'a hm_state_scheme \<Rightarrow> ptr res" where
  "hash_map_find_member hm key s =
     (let slot = get_map_entry hm key
      in rbind (get_map_member s hm slot key) (\<lambda>m.
        case m of
          NoMember \<Rightarrow> Inr NULL
        | HeadAlias \<Rightarrow> Inr (word_of_int (he_n (hm_map hm ! nat slot)))
        | Member p \<Rightarrow> Inr (mm_val (mm_cell s p))))"

definition key_crash_in_hash_map :: "hash_map \<Rightarrow> uint64 \<Rightarrow> bool res" where
  "key_crash_in_hash_map hm key =
     rbind (rd (hm_map hm) (get_map_entry hm key)) (\<lambda>e. Inr (\<not> he_n e \<le> 1))"

definition hash_map_init :: "'a hm_state_scheme \<Rightarrow> int \<times> 'a hm_state_scheme" where
  "hash_map_init s = (0, s\<lparr>free_member := []\<rparr>)"

fun release_all :: "ptr list \<Rightarrow> 'a heap_state_scheme \<Rightarrow> 'a heap_state_scheme" where
  "release_all [] s = s"
| "release_all (p # ps) s = release_all ps (internal_free p s)"

definition hash_map_destroy :: "'a hm_state_scheme \<Rightarrow> 'a hm_state_scheme" where
  "hash_map_destroy s = (release_all (free_member s) s)\<lparr>free_member := []\<rparr>"

end
