(* ===== verification/Key_Index.thy ===== *)
theory Key_Index
  imports NW_Prelude
begin

text \<open>
  The contract of an index from 64-bit keys to pointers, as its clients (the event queue, the page
  map and the allocation contexts) rely on it: under the invariant, adding an absent key, deleting
  a present one and looking a key up are the operations on a finite map. \<open>can_add\<close> is what the
  provider asks of the allocator, \<open>miss_ok\<close> what it asks of a key that is absent.
\<close>

locale key_index =
  fixes inv :: "'s \<Rightarrow> 'm \<Rightarrow> bool"
    and index :: "'s \<Rightarrow> 'm \<Rightarrow> uint64 \<rightharpoonup> ptr"
    and can_add :: "'s \<Rightarrow> 'm \<Rightarrow> bool"
    and miss_ok :: "'s \<Rightarrow> 'm \<Rightarrow> uint64 \<Rightarrow> bool"
    and add :: "'m \<Rightarrow> uint64 \<Rightarrow> ptr \<Rightarrow> 's \<Rightarrow> (int \<times> 'm \<times> 's) res"
    and del :: "'m \<Rightarrow> uint64 \<Rightarrow> 's \<Rightarrow> ('m \<times> 's) res"
    and find :: "'m \<Rightarrow> uint64 \<Rightarrow> 's \<Rightarrow> ptr res"
  assumes add_ok: "inv s m \<Longrightarrow> index s m k = None \<Longrightarrow> can_add s m \<Longrightarrow>
      \<exists>m' s'. add m k v s = Inr (0, m', s') \<and> inv s' m' \<and> index s' m' = (index s m)(k \<mapsto> v)"
    and del_ok: "inv s m \<Longrightarrow> k \<in> dom (index s m) \<Longrightarrow>
      \<exists>m' s'. del m k s = Inr (m', s') \<and> inv s' m' \<and> index s' m' = (index s m)(k := None)"
    and find_hit: "inv s m \<Longrightarrow> index s m k = Some v \<Longrightarrow> find m k s = Inr v"
    and find_miss: "inv s m \<Longrightarrow> index s m k = None \<Longrightarrow> miss_ok s m k \<Longrightarrow> find m k s = Inr NULL"
begin

lemma find_after_add:
  assumes "inv s m" and "index s m k = None" and "can_add s m" and "add m k v s = Inr (r, m', s')"
  shows "find m' k s' = Inr v" and "index s m k' = Some w \<Longrightarrow> find m' k' s' = Inr w"
proof -
  have 1: "inv s' m'" "index s' m' = (index s m)(k \<mapsto> v)"
    using add_ok[OF assms(1-3), of v] assms(4) by auto
  show "find m' k s' = Inr v"
    by (rule find_hit) (simp_all add: 1)
  show "find m' k' s' = Inr w" if "index s m k' = Some w"
    by (rule find_hit[OF 1(1)]) (use that assms(2) in \<open>auto simp: 1(2)\<close>)
qed

lemma add_del_roundtrip:
  assumes "inv s m" and "index s m k = None" and "can_add s m"
  shows "\<exists>m1 s1 m2 s2. add m k v s = Inr (0, m1, s1) \<and> del m1 k s1 = Inr (m2, s2) \<and>
    inv s2 m2 \<and> index s2 m2 = index s m"
proof -
  obtain m1 s1 where 1: "add m k v s = Inr (0, m1, s1)" "inv s1 m1" "index s1 m1 = (index s m)(k \<mapsto> v)"
    using add_ok[OF assms, of v] by blast
  obtain m2 s2 where 2: "del m1 k s1 = Inr (m2, s2)" "inv s2 m2" "index s2 m2 = (index s1 m1)(k := None)"
    using del_ok[OF 1(2), of k] 1(3) by auto
  have "index s2 m2 = index s m" using 1(3) 2(3) assms(2) by auto
  then show ?thesis using 1(1) 2(1,2) by blast
qed

lemma find_after_del:
  assumes "inv s m" and "k \<in> dom (index s m)" and "del m k s = Inr (m', s')"
  shows "miss_ok s' m' k \<Longrightarrow> find m' k s' = Inr NULL"
    and "k' \<noteq> k \<Longrightarrow> index s m k' = Some w \<Longrightarrow> find m' k' s' = Inr w"
proof -
  have 1: "inv s' m'" "index s' m' = (index s m)(k := None)"
    using del_ok[OF assms(1,2)] assms(3) by auto
  show "find m' k s' = Inr NULL" if "miss_ok s' m' k"
    using that by (intro find_miss[OF 1(1)]) (simp_all add: 1(2))
  show "find m' k' s' = Inr w" if "k' \<noteq> k" "index s m k' = Some w"
    by (rule find_hit[OF 1(1)]) (use that in \<open>simp add: 1(2)\<close>)
qed

end

end
