(* ===== verification/HashMap_Correct.thy ===== *)
theory HashMap_Correct
  imports Utl_HashMap Key_Index
begin

text \<open>
  Correctness of the hash map: slots stay inside the array, the invariant ties chains, member
  list and counters together, and each operation is the operation on the finite map from keys to
  values that the members stand for.
\<close>

section \<open>Slots\<close>

lemma get_map_slot_bound:
  assumes "1 \<le> k" and "k \<le> 62"
  shows "unat (get_map_slot key (get_key_mask k) k) < 2 ^ k"
proof -
  define h where "h = (key + shr64 key k + shr64 key (k * 2) + shr64 key (k * 4)) *
    (key + shr64 key k + shr64 key (k * 2) + shr64 key (k * 4))"
  define sft where "sft = (64 - k) div 2"
  have "get_map_slot key (get_key_mask k) k = drop_bit sft (h AND push_bit sft (mask k))"
    using assms by (simp add: get_map_slot_def get_key_mask_def h_def sft_def shl64_def shr64_def
        mask_eq_exp_minus_1 Let_def)
  also have "\<dots> = take_bit k (drop_bit sft (h AND push_bit sft (mask k)))"
    by (rule bit_word_eqI) (auto simp: bit_simps)
  finally show ?thesis
    by (metis take_bit_nat_less_exp unsigned_take_bit_eq)
qed

section \<open>The invariant and the map it stands for\<close>

definition slot_of :: "'a hm_state_scheme \<Rightarrow> nat \<Rightarrow> ptr \<Rightarrow> int" where
  "slot_of s k p = uint (get_map_slot (mm_key (mm_cell s p)) (get_key_mask k) k)"

definition buckets_ok :: "'a hm_state_scheme \<Rightarrow> ptr list \<Rightarrow> hash_map \<Rightarrow> bool" where
  "buckets_ok s ps hm \<longleftrightarrow>
     (\<forall>i < length (hm_map hm).
        let e = hm_map hm ! i
        in he_n e = int (length (he_entry e)) \<and> distinct (he_entry e) \<and>
           set (he_entry e) = {p \<in> set ps. slot_of s (hm_key_len hm) p = int i})"

definition shape_ok :: "hash_map \<Rightarrow> bool" where
  "shape_ok hm \<longleftrightarrow>
     10 \<le> hm_key_len hm \<and> hm_key_len hm \<le> 26 \<and> hm_size hm = 2 ^ hm_key_len hm \<and>
     int (length (hm_map hm)) = hm_size hm \<and> hm_key_mask hm = get_key_mask (hm_key_len hm)"

definition hm_inv :: "'a hm_state_scheme \<Rightarrow> hash_map \<Rightarrow> bool" where
  "hm_inv s hm \<longleftrightarrow>
     shape_ok hm \<and> buckets_ok s (hm_members hm) hm \<and>
     hm_fill hm = int (length (hm_members hm)) \<and>
     distinct (hm_members hm) \<and> inj_on (\<lambda>p. mm_key (mm_cell s p)) (set (hm_members hm)) \<and>
     set (hm_members hm) \<inter> set (free_member s) = {} \<and> distinct (free_member s)"

definition hm_abs :: "'a hm_state_scheme \<Rightarrow> hash_map \<Rightarrow> uint64 \<rightharpoonup> ptr" where
  "hm_abs s hm = map_of (map (\<lambda>p. (mm_key (mm_cell s p), mm_val (mm_cell s p))) (hm_members hm))"

lemma slot_of_bound: "10 \<le> k \<Longrightarrow> k \<le> 26 \<Longrightarrow> 0 \<le> slot_of s k p \<and> slot_of s k p < 2 ^ k"
  using get_map_slot_bound[of k "mm_key (mm_cell s p)"]
  by (simp add: slot_of_def) (metis of_nat_less_iff of_nat_numeral of_nat_power uint_nat)

lemma get_map_entry_bound:
  "shape_ok hm \<Longrightarrow> 0 \<le> get_map_entry hm key \<and> get_map_entry hm key < int (length (hm_map hm))"
  using get_map_slot_bound[of "hm_key_len hm" key]
  by (simp add: shape_ok_def get_map_entry_def)
     (metis of_nat_less_iff of_nat_numeral of_nat_power uint_nat)

lemma get_map_entry_slot_of:
  "shape_ok hm \<Longrightarrow> get_map_entry hm (mm_key (mm_cell s p)) = slot_of s (hm_key_len hm) p"
  by (simp add: shape_ok_def get_map_entry_def slot_of_def)

lemma upd_entry_ok:
  "0 \<le> i \<Longrightarrow> i < int (length (hm_map hm)) \<Longrightarrow>
   upd_entry i f hm = Inr (hm\<lparr>hm_map := (hm_map hm)[nat i := f (hm_map hm ! nat i)]\<rparr>)"
  by (simp add: upd_entry_def)

text \<open>Pushing a member on the chain of its slot adds it to the members the buckets hold.\<close>

lemma buckets_ok_push:
  assumes b: "buckets_ok s ps hm" and sh: "shape_ok hm" and p: "p \<notin> set ps"
    and i: "i = slot_of s (hm_key_len hm) p"
  shows "buckets_ok s (p # ps) (hm\<lparr>hm_map := (hm_map hm)[nat i := push_entry p (hm_map hm ! nat i)]\<rparr>)"
proof -
  have i': "0 \<le> i" "nat i < length (hm_map hm)"
    using sh slot_of_bound[of "hm_key_len hm" s p] i by (auto simp: shape_ok_def)
  show ?thesis
    unfolding buckets_ok_def
  proof (intro allI impI)
    fix j
    assume "j < length (hm_map (hm\<lparr>hm_map := (hm_map hm)[nat i := push_entry p (hm_map hm ! nat i)]\<rparr>))"
    then have j: "j < length (hm_map hm)" by simp
    note bj = b[unfolded buckets_ok_def Let_def, rule_format, OF j]
    show "let e = hm_map (hm\<lparr>hm_map := (hm_map hm)[nat i := push_entry p (hm_map hm ! nat i)]\<rparr>) ! j
       in he_n e = int (length (he_entry e)) \<and> distinct (he_entry e) \<and>
          set (he_entry e) = {q \<in> set (p # ps).
            slot_of s (hm_key_len (hm\<lparr>hm_map := (hm_map hm)[nat i := push_entry p (hm_map hm ! nat i)]\<rparr>)) q = int j}"
    proof (cases "j = nat i")
      case True
      then show ?thesis using bj i' p i j by (auto simp: push_entry_def)
    next
      case False
      then show ?thesis using bj i' i by auto
    qed
  qed
qed

lemma buckets_ok_set: "set ps = set qs \<Longrightarrow> buckets_ok s ps hm \<longleftrightarrow> buckets_ok s qs hm"
  by (simp add: buckets_ok_def)

lemma buckets_ok_empty: "buckets_ok s [] (hm\<lparr>hm_map := replicate n empty_entry\<rparr>)"
  by (simp add: buckets_ok_def empty_entry_def)

lemma shape_ok_upd: "shape_ok (hm\<lparr>hm_map := es\<rparr>) \<longleftrightarrow> shape_ok (hm\<lparr>hm_map := es'\<rparr>)" if "length es = length es'"
  using that by (simp add: shape_ok_def)

lemma relink_members_ok:
  assumes "shape_ok hm" and "buckets_ok s qs hm" and "distinct ps" and "set ps \<inter> set qs = {}"
  shows "\<exists>es. relink_members s ps hm = Inr (hm\<lparr>hm_map := es\<rparr>) \<and> length es = length (hm_map hm) \<and>
    buckets_ok s (ps @ qs) (hm\<lparr>hm_map := es\<rparr>)"
  using assms
proof (induction ps arbitrary: hm qs)
  case Nil
  then show ?case by (intro exI[of _ "hm_map hm"]) simp
next
  case (Cons p ps)
  let ?i = "get_map_entry hm (mm_key (mm_cell s p))"
  let ?es = "(hm_map hm)[nat ?i := push_entry p (hm_map hm ! nat ?i)]"
  have upd: "upd_entry ?i (push_entry p) hm = Inr (hm\<lparr>hm_map := ?es\<rparr>)"
    using get_map_entry_bound[OF Cons.prems(1)] by (simp add: upd_entry_ok)
  have "buckets_ok s (p # qs) (hm\<lparr>hm_map := ?es\<rparr>)"
    by (rule buckets_ok_push[OF Cons.prems(2,1)])
       (use Cons.prems get_map_entry_slot_of in auto)
  then obtain es where es: "relink_members s ps (hm\<lparr>hm_map := ?es\<rparr>) = Inr (hm\<lparr>hm_map := es\<rparr>)"
      "length es = length (hm_map hm)" "buckets_ok s (ps @ p # qs) (hm\<lparr>hm_map := es\<rparr>)"
    using Cons.IH[of "hm\<lparr>hm_map := ?es\<rparr>" "p # qs"] Cons.prems by (auto simp: shape_ok_def)
  moreover have "buckets_ok s ((p # ps) @ qs) (hm\<lparr>hm_map := es\<rparr>)"
    using es(3) by (subst buckets_ok_set[of _ "ps @ p # qs"]) auto
  ultimately show ?case using upd by auto
qed

section \<open>Rebuilding\<close>

lemma rebuild_sizes:
  assumes "shape_ok hm" and "hm_key_len hm < 26"
  shows "i32 (hm_size hm * 2) = 2 ^ (hm_key_len hm + 1)"
    and "0 \<le> i32 (i32 (hm_size hm * 2) * 24)"
proof -
  have "(2 :: int) ^ (hm_key_len hm + 1) \<le> 2 ^ 26"
    using assms(2) by (intro power_increasing) auto
  then have "(2 :: int) ^ hm_key_len hm * 2 \<le> 2 ^ 26" by simp
  then show "i32 (hm_size hm * 2) = 2 ^ (hm_key_len hm + 1)"
    using assms(1) by (simp add: shape_ok_def)
  then have eq: "i32 (hm_size hm * 2) * 24 = 48 * 2 ^ hm_key_len hm" by simp
  have "i32 (48 * 2 ^ hm_key_len hm) = 48 * 2 ^ hm_key_len hm"
    using \<open>(2 :: int) ^ hm_key_len hm * 2 \<le> 2 ^ 26\<close>
    by (intro i32_id) (auto intro: order_trans[of _ 0])
  then show "0 \<le> i32 (i32 (hm_size hm * 2) * 24)" by (simp add: eq)
qed

lemma hash_map_rebuild_ok:
  assumes inv: "hm_inv s hm" and k: "hm_key_len hm < 26" and ne: "hm_members hm \<noteq> []"
  shows "\<exists>hm'. hash_map_rebuild hm s =
      Inr (0, hm', s\<lparr>malloc_cnt := malloc_cnt s + 1, released := hm_addr hm # released s\<rparr>) \<and>
    shape_ok hm' \<and> buckets_ok s (hm_members hm) hm' \<and> hm_members hm' = hm_members hm \<and>
    hm_fill hm' = hm_fill hm \<and> hm_key_len hm' = hm_key_len hm + 1 \<and> hm_addr hm' = next_malloc s"
proof -
  let ?n = "2 ^ (hm_key_len hm + 1) :: int"
  let ?hm = "hm\<lparr>hm_map := replicate (nat ?n) empty_entry, hm_addr := next_malloc s, hm_size := ?n,
    hm_key_len := hm_key_len hm + 1, hm_key_mask := get_key_mask (hm_key_len hm + 1)\<rparr>"
  let ?s = "s\<lparr>malloc_cnt := malloc_cnt s + 1\<rparr>"
  have sh: "shape_ok ?hm" using inv k by (simp add: hm_inv_def shape_ok_def)
  have "?hm = ?hm\<lparr>hm_map := replicate (nat ?n) empty_entry\<rparr>" by simp
  then have b: "buckets_ok ?s [] ?hm" by (metis buckets_ok_empty)
  obtain es where es: "relink_members ?s (hm_members hm) ?hm = Inr (?hm\<lparr>hm_map := es\<rparr>)"
      "length es = length (hm_map ?hm)" "buckets_ok ?s (hm_members hm) (?hm\<lparr>hm_map := es\<rparr>)"
    using relink_members_ok[OF sh b, of "hm_members hm"] inv by (auto simp: hm_inv_def)
  have "hash_map_rebuild hm s = Inr (0, ?hm\<lparr>hm_map := es\<rparr>,
      s\<lparr>malloc_cnt := malloc_cnt s + 1, released := hm_addr hm # released s\<rparr>)"
    using ne es(1) rebuild_sizes[of hm] inv k
    by (simp add: hash_map_rebuild_def internal_malloc_def internal_free_def hm_inv_def Let_def)
  moreover have "shape_ok (?hm\<lparr>hm_map := es\<rparr>)"
    using sh es(2) by (simp add: shape_ok_def)
  moreover have "buckets_ok s (hm_members hm) (?hm\<lparr>hm_map := es\<rparr>)"
    using es(3) by (simp add: buckets_ok_def slot_of_def)
  ultimately show ?thesis by (intro exI[of _ "?hm\<lparr>hm_map := es\<rparr>"]) simp
qed

section \<open>Looking up\<close>

lemma hm_abs_Some:
  assumes "hm_inv s hm"
  shows "hm_abs s hm k = Some v \<longleftrightarrow>
    (\<exists>p \<in> set (hm_members hm). mm_key (mm_cell s p) = k \<and> mm_val (mm_cell s p) = v)"
proof -
  have "distinct (map fst (map (\<lambda>p. (mm_key (mm_cell s p), mm_val (mm_cell s p))) (hm_members hm)))"
    using assms by (simp add: hm_inv_def distinct_map comp_def)
  then show ?thesis by (auto simp: hm_abs_def map_of_eq_Some_iff)
qed

lemma hm_abs_dom: "dom (hm_abs s hm) = (\<lambda>p. mm_key (mm_cell s p)) ` set (hm_members hm)"
  by (auto simp: hm_abs_def dom_map_of_conv_image_fst image_image)

lemma hm_abs_None: "hm_abs s hm k = None \<longleftrightarrow> (\<forall>p \<in> set (hm_members hm). mm_key (mm_cell s p) \<noteq> k)"
  by (auto simp: hm_abs_def map_of_eq_None_iff image_image)

lemma hm_inv_chain:
  assumes "hm_inv s hm"
  shows "he_n (hm_map hm ! nat (get_map_entry hm key)) =
      int (length (he_entry (hm_map hm ! nat (get_map_entry hm key))))"
    and "set (he_entry (hm_map hm ! nat (get_map_entry hm key))) =
      {p \<in> set (hm_members hm). slot_of s (hm_key_len hm) p = get_map_entry hm key}"
proof -
  have sh: "shape_ok hm" using assms by (simp add: hm_inv_def)
  have i: "0 \<le> get_map_entry hm key" "nat (get_map_entry hm key) < length (hm_map hm)"
    using get_map_entry_bound[OF sh, of key] by auto
  have "buckets_ok s (hm_members hm) hm" using assms by (simp add: hm_inv_def)
  note bi = this[unfolded buckets_ok_def Let_def, rule_format, OF i(2)]
  show "he_n (hm_map hm ! nat (get_map_entry hm key)) =
      int (length (he_entry (hm_map hm ! nat (get_map_entry hm key))))"
    using bi by simp
  show "set (he_entry (hm_map hm ! nat (get_map_entry hm key))) =
      {p \<in> set (hm_members hm). slot_of s (hm_key_len hm) p = get_map_entry hm key}"
    using bi i(1) by auto
qed

lemma get_map_member_hit:
  assumes inv: "hm_inv s hm" and p: "p \<in> set (hm_members hm)" and k: "mm_key (mm_cell s p) = key"
  shows "get_map_member s hm (get_map_entry hm key) key = Inr (Member p)"
proof -
  let ?e = "hm_map hm ! nat (get_map_entry hm key)"
  have sh: "shape_ok hm" using inv by (simp add: hm_inv_def)
  have mem: "p \<in> set (he_entry ?e)"
    using hm_inv_chain(2)[OF inv, of key] p k get_map_entry_slot_of[OF sh, of s p] by simp
  have uniq: "q = p" if "q \<in> set (he_entry ?e)" "mm_key (mm_cell s q) = key" for q
    using that p k inv hm_inv_chain(2)[OF inv, of key] by (auto simp: hm_inv_def inj_on_def)
  have "List.find (\<lambda>p. mm_key (mm_cell s p) = key) (he_entry ?e) \<noteq> None"
    using mem k by (auto simp: find_None_iff)
  then obtain q where q: "List.find (\<lambda>p. mm_key (mm_cell s p) = key) (he_entry ?e) = Some q" by blast
  then have "q = p" using uniq[of q] by (auto simp: find_Some_iff)
  moreover have "he_n ?e \<noteq> 0" using mem hm_inv_chain(1)[OF inv, of key] by auto
  ultimately show ?thesis
    using q get_map_entry_bound[OF sh, of key] by (simp add: get_map_member_def)
qed

text \<open>
  A miss is reported when the word in front of a non-empty bucket is not the key looked for.
\<close>

definition guard_ok :: "'a hm_state_scheme \<Rightarrow> hash_map \<Rightarrow> uint64 \<Rightarrow> bool" where
  "guard_ok s hm key \<longleftrightarrow>
     (he_entry (hm_map hm ! nat (get_map_entry hm key)) \<noteq> [] \<longrightarrow>
      guard_word s hm (get_map_entry hm key) \<noteq> key)"

lemma guard_ok_slot:
  assumes "hm_inv s hm" and "\<And>k. k \<in> dom (hm_abs s hm) \<Longrightarrow> get_map_entry hm k \<noteq> get_map_entry hm key"
  shows "guard_ok s hm key"
proof -
  have "shape_ok hm" using assms(1) by (simp add: hm_inv_def)
  then have "slot_of s (hm_key_len hm) p \<noteq> get_map_entry hm key" if "p \<in> set (hm_members hm)" for p
    using assms(2)[of "mm_key (mm_cell s p)"] that get_map_entry_slot_of[of hm s p] by (simp add: hm_abs_dom)
  then have "set (he_entry (hm_map hm ! nat (get_map_entry hm key))) = {}"
    using hm_inv_chain(2)[OF assms(1), of key] by auto
  then show ?thesis by (simp add: guard_ok_def)
qed

lemma guard_ok_empty: "hm_inv s hm \<Longrightarrow> hm_members hm = [] \<Longrightarrow> guard_ok s hm key"
  using hm_inv_chain(2)[of s hm key] by (auto simp: guard_ok_def)

lemma get_map_member_miss:
  assumes inv: "hm_inv s hm" and k: "hm_abs s hm key = None"
  shows "get_map_member s hm (get_map_entry hm key) key =
    Inr (if guard_ok s hm key then NoMember else HeadAlias)"
proof -
  let ?e = "hm_map hm ! nat (get_map_entry hm key)"
  have sh: "shape_ok hm" using inv by (simp add: hm_inv_def)
  have "\<forall>q \<in> set (he_entry ?e). mm_key (mm_cell s q) \<noteq> key"
    using k hm_inv_chain(2)[OF inv, of key] by (auto simp: hm_abs_None)
  then have "List.find (\<lambda>p. mm_key (mm_cell s p) = key) (he_entry ?e) = None"
    by (simp add: find_None_iff)
  then show ?thesis
    using hm_inv_chain(1)[OF inv, of key] get_map_entry_bound[OF sh, of key]
    by (auto simp: get_map_member_def guard_ok_def)
qed

lemma hash_map_find_member_hit:
  assumes "hm_inv s hm" and "hm_abs s hm key = Some v"
  shows "hash_map_find_member hm key s = Inr v"
  using assms get_map_member_hit[OF assms(1)]
  by (auto simp: hm_abs_Some hash_map_find_member_def)

lemma hash_map_find_member_miss:
  assumes "hm_inv s hm" and "hm_abs s hm key = None" and "guard_ok s hm key"
  shows "hash_map_find_member hm key s = Inr NULL"
  using get_map_member_miss[OF assms(1,2)] assms(3) by (simp add: hash_map_find_member_def)

section \<open>Adding\<close>

lemma hm_inv_rebuild:
  assumes "hm_inv s hm" and "shape_ok hm'" and "buckets_ok s (hm_members hm) hm'"
    and "hm_members hm' = hm_members hm" and "hm_fill hm' = hm_fill hm"
  shows "hm_inv s hm'"
  using assms by (simp add: hm_inv_def)

text \<open>A member that is on no list takes the new key and value.\<close>

lemma hm_inv_insert:
  assumes inv: "hm_inv s hm" and k: "hm_abs s hm key = None" and p: "p \<notin> set (hm_members hm)"
    and fr: "p \<notin> set fl" "set fl \<subseteq> set (free_member s)" "distinct fl"
    and s': "mm_cell s' = (mm_cell s)(p := \<lparr>mm_key = key, mm_val = v\<rparr>)" "free_member s' = fl"
    and hm': "upd_entry (get_map_entry hm key) (push_entry p) hm = Inr hm1"
      "hm' = hm1\<lparr>hm_members := p # hm_members hm1, hm_fill := hm_fill hm1 + 1\<rparr>"
  shows "hm_inv s' hm' \<and> hm_abs s' hm' = (hm_abs s hm)(key \<mapsto> v)"
proof -
  let ?i = "get_map_entry hm key"
  have sh: "shape_ok hm" using inv by (simp add: hm_inv_def)
  have h1: "hm1 = hm\<lparr>hm_map := (hm_map hm)[nat ?i := push_entry p (hm_map hm ! nat ?i)]\<rparr>"
    using hm'(1) get_map_entry_bound[OF sh, of key] by (simp add: upd_entry_ok)
  have cell: "mm_cell s' q = mm_cell s q" if "q \<in> set (hm_members hm)" for q
    using that p s'(1) by auto
  have "buckets_ok s' (hm_members hm) hm"
    using inv cell by (simp add: hm_inv_def buckets_ok_def slot_of_def cong: conj_cong)
  then have "buckets_ok s' (p # hm_members hm) hm1"
    unfolding h1 by (rule buckets_ok_push[OF _ sh p])
      (use get_map_entry_slot_of[OF sh, of s' p] s'(1) in simp)
  then have "buckets_ok s' (hm_members hm') hm'"
    unfolding hm'(2) h1 by (simp add: buckets_ok_def)
  moreover have "shape_ok hm'" using sh unfolding hm'(2) h1 by (simp add: shape_ok_def)
  moreover have "inj_on (\<lambda>q. mm_key (mm_cell s' q)) (set (p # hm_members hm))"
    using inv k p s'(1) by (auto simp: hm_inv_def hm_abs_None inj_on_def)
  moreover have "set (hm_members hm) \<inter> set fl = {}"
    using inv fr(2) by (auto simp: hm_inv_def)
  ultimately have "hm_inv s' hm'"
    using inv p fr s'(2) unfolding hm_inv_def hm'(2) h1 by simp
  moreover have "mm_cell s' p = \<lparr>mm_key = key, mm_val = v\<rparr>" using s'(1) by simp
  ultimately show ?thesis unfolding hm_abs_def hm'(2) h1 by (simp add: cell cong: map_cong)
qed

text \<open>The pointer an insertion would take, in a state with the given allocation count.\<close>

lemma map_member_alloc_ok:
  assumes inv: "hm_inv s hm" and fresh: "free_member s = [] \<Longrightarrow> next_malloc s \<notin> set (hm_members hm)"
  obtains p s1 where "map_member_alloc s = (p, s1)" "p \<notin> set (hm_members hm)"
    "p \<notin> set (free_member s1)" "set (free_member s1) \<subseteq> set (free_member s)" "distinct (free_member s1)"
    "mm_cell s1 = mm_cell s" "hm_state.more s1 = hm_state.more s"
proof (cases "free_member s")
  case Nil
  show thesis
    by (rule that[of "next_malloc s" "s\<lparr>malloc_cnt := malloc_cnt s + 1\<rparr>"])
       (use Nil fresh in \<open>auto simp: map_member_alloc_def internal_malloc_def\<close>)
next
  case (Cons q qs)
  show thesis
    by (rule that[of q "s\<lparr>free_member := qs\<rparr>"])
       (use Cons inv in \<open>auto simp: map_member_alloc_def hm_inv_def\<close>)
qed

lemma hash_map_add_member_ok:
  assumes inv: "hm_inv s hm" and k: "hm_abs s hm key = None"
    and room: "hash_map_full hm \<Longrightarrow> hm_key_len hm < 26"
    and fresh: "\<And>n. n \<in> {malloc_cnt s, malloc_cnt s + 1} \<Longrightarrow> malloc_seq s n \<notin> set (hm_members hm)"
  shows "\<exists>hm' s'. hash_map_add_member hm key v s = Inr (0, hm', s') \<and> hm_inv s' hm' \<and>
    hm_abs s' hm' = (hm_abs s hm)(key \<mapsto> v) \<and> hm_state.more s' = hm_state.more s"
proof -
  have "\<exists>hm1 s1. (if hash_map_full hm then hash_map_rebuild hm s else Inr (0, hm, s)) = Inr (0, hm1, s1) \<and>
      hm_inv s1 hm1 \<and> hm_members hm1 = hm_members hm \<and> free_member s1 = free_member s \<and>
      mm_cell s1 = mm_cell s \<and> hm_state.more s1 = hm_state.more s \<and>
      next_malloc s1 \<notin> set (hm_members hm)"
  proof (cases "hash_map_full hm")
    case True
    then have "hm_members hm \<noteq> []"
      using inv by (auto simp: hash_map_full_def hm_inv_def shape_ok_def)
    from hash_map_rebuild_ok[OF inv room[OF True] this] obtain hm1 where hm1:
      "hash_map_rebuild hm s =
        Inr (0, hm1, s\<lparr>malloc_cnt := malloc_cnt s + 1, released := hm_addr hm # released s\<rparr>)"
      "shape_ok hm1" "buckets_ok s (hm_members hm) hm1" "hm_members hm1 = hm_members hm"
      "hm_fill hm1 = hm_fill hm" by blast
    have "hm_inv s hm1" using hm_inv_rebuild[OF inv hm1(2-5)] .
    then have "hm_inv (s\<lparr>malloc_cnt := malloc_cnt s + 1, released := hm_addr hm # released s\<rparr>) hm1"
      by (simp add: hm_inv_def buckets_ok_def slot_of_def)
    then show ?thesis using True hm1(1,4) fresh[of "malloc_cnt s + 1"] by auto
  next
    case False
    then show ?thesis using inv fresh[of "malloc_cnt s"] by auto
  qed
  then obtain hm1 s1 where r: "(if hash_map_full hm then hash_map_rebuild hm s else Inr (0, hm, s)) =
      Inr (0, hm1, s1)" "hm_inv s1 hm1" "hm_members hm1 = hm_members hm" "mm_cell s1 = mm_cell s"
      "hm_state.more s1 = hm_state.more s" "next_malloc s1 \<notin> set (hm_members hm)" by blast
  have k1: "hm_abs s1 hm1 = hm_abs s hm" using r(3,4) by (simp add: hm_abs_def)
  obtain p s2 where a: "map_member_alloc s1 = (p, s2)" "p \<notin> set (hm_members hm1)"
    "p \<notin> set (free_member s2)" "set (free_member s2) \<subseteq> set (free_member s1)" "distinct (free_member s2)"
    "mm_cell s2 = mm_cell s1" "hm_state.more s2 = hm_state.more s1"
    using r(3,6) by (rule_tac map_member_alloc_ok[OF r(2)]) auto
  have sh: "shape_ok hm1" using r(2) by (simp add: hm_inv_def)
  obtain hm2 where hm2: "upd_entry (get_map_entry hm1 key) (push_entry p) hm1 = Inr hm2"
    using get_map_entry_bound[OF sh, of key] by (simp add: upd_entry_ok)
  let ?s = "s2\<lparr>mm_cell := (mm_cell s2)(p := \<lparr>mm_key = key, mm_val = v\<rparr>)\<rparr>"
  let ?hm = "hm2\<lparr>hm_members := p # hm_members hm2, hm_fill := hm_fill hm2 + 1\<rparr>"
  have "hm_inv ?s ?hm \<and> hm_abs ?s ?hm = (hm_abs s1 hm1)(key \<mapsto> v)"
    by (rule hm_inv_insert[OF r(2) _ a(2) a(3-5) _ _ hm2 refl]) (use k k1 a(6) in simp_all)
  moreover have "hash_map_add_member hm key v s = Inr (0, ?hm, ?s)"
    unfolding hash_map_add_member_def r(1) using a(1) hm2 by simp
  ultimately show ?thesis using a(7) r(5) k1 by auto
qed

section \<open>Deleting\<close>

lemma hash_map_add_member_key_len:
  "hash_map_add_member hm key v s = Inr (r, hm', s') \<Longrightarrow> \<not> hash_map_full hm \<Longrightarrow> hm_key_len hm' = hm_key_len hm"
  by (auto simp: hash_map_add_member_def upd_entry_def rbind_eq_Inr Let_def split: prod.splits)

lemma buckets_ok_drop:
  assumes b: "buckets_ok s ps hm" and p: "p \<in> set ps" and d: "distinct ps" and i: "i = slot_of s (hm_key_len hm) p"
    and i': "0 \<le> i" "nat i < length (hm_map hm)"
  shows "buckets_ok s (remove1 p ps) (hm\<lparr>hm_map := (hm_map hm)[nat i := drop_entry p (hm_map hm ! nat i)]\<rparr>)"
  unfolding buckets_ok_def
proof (intro allI impI)
  let ?hm = "hm\<lparr>hm_map := (hm_map hm)[nat i := drop_entry p (hm_map hm ! nat i)]\<rparr>"
  fix j assume "j < length (hm_map ?hm)"
  then have j: "j < length (hm_map hm)" by simp
  note bj = b[unfolded buckets_ok_def Let_def, rule_format, OF j]
  show "let e = hm_map ?hm ! j
     in he_n e = int (length (he_entry e)) \<and> distinct (he_entry e) \<and>
        set (he_entry e) = {q \<in> set (remove1 p ps). slot_of s (hm_key_len ?hm) q = int j}"
  proof (cases "j = nat i")
    case True
    then have "p \<in> set (he_entry (hm_map hm ! j))" using bj p i i' by auto
    moreover have "length (he_entry (hm_map hm ! j)) \<ge> 1" using calculation by (cases "he_entry (hm_map hm ! j)") auto
    ultimately show ?thesis using bj True j d by (auto simp: drop_entry_def length_remove1)
  next
    case False
    then show ?thesis using bj i' i d by auto
  qed
qed

lemma hash_map_delete_member_ok:
  assumes inv: "hm_inv s hm" and k: "key \<in> dom (hm_abs s hm)"
  shows "\<exists>hm' s' p. hash_map_delete_member hm key s = Inr (hm', s') \<and> hm_inv s' hm' \<and>
    hm_abs s' hm' = (hm_abs s hm)(key := None) \<and>
    p \<in> set (hm_members hm) \<and> hm_members hm' = remove1 p (hm_members hm) \<and>
    s' = s\<lparr>free_member := p # free_member s\<rparr>"
proof -
  from k obtain p where p: "p \<in> set (hm_members hm)" "mm_key (mm_cell s p) = key"
    by (auto simp: hm_abs_dom)
  let ?i = "get_map_entry hm key"
  have sh: "shape_ok hm" using inv by (simp add: hm_inv_def)
  have i: "0 \<le> ?i" "nat ?i < length (hm_map hm)" "?i = slot_of s (hm_key_len hm) p"
    using get_map_entry_bound[OF sh, of key] get_map_entry_slot_of[OF sh, of s p] p(2) by auto
  let ?hm1 = "hm\<lparr>hm_map := (hm_map hm)[nat ?i := drop_entry p (hm_map hm ! nat ?i)]\<rparr>"
  let ?hm = "?hm1\<lparr>hm_members := remove1 p (hm_members hm), hm_fill := hm_fill hm - 1\<rparr>"
  let ?s = "s\<lparr>free_member := p # free_member s\<rparr>"
  have eq: "hash_map_delete_member hm key s = Inr (?hm, ?s)"
    using get_map_member_hit[OF inv p] i
    by (simp add: hash_map_delete_member_def upd_entry_ok map_member_free_def Let_def)
  have "buckets_ok s (remove1 p (hm_members hm)) ?hm1"
    by (rule buckets_ok_drop) (use inv p i in \<open>auto simp: hm_inv_def\<close>)
  then have "buckets_ok ?s (hm_members ?hm) ?hm"
    by (simp add: buckets_ok_def slot_of_def)
  moreover have "length (remove1 p (hm_members hm)) = length (hm_members hm) - 1"
    using p by (simp add: length_remove1)
  moreover have "1 \<le> length (hm_members hm)" using p(1) by (cases "hm_members hm") auto
  ultimately have inv': "hm_inv ?s ?hm"
    using inv p sh by (auto simp: hm_inv_def shape_ok_def of_nat_diff inj_on_def)
  have "hm_abs ?s ?hm = (hm_abs s hm)(key := None)"
    using map_of_remove1[of "\<lambda>p. mm_key (mm_cell s p)" "hm_members hm" p] inv p
    by (simp add: hm_abs_def hm_inv_def)
  then show ?thesis using eq inv' p(1) by (intro exI[of _ ?hm] exI[of _ ?s] exI[of _ p]) simp
qed

text \<open>Deleting an absent key changes nothing (the serial version reports it and returns).\<close>

lemma hash_map_delete_member_absent:
  assumes "hm_inv s hm" and "hm_abs s hm key = None" and "guard_ok s hm key"
  shows "hash_map_delete_member hm key s = Inr (hm, s)"
  using get_map_member_miss[OF assms(1,2)] assms(3) by (simp add: hash_map_delete_member_def)

section \<open>A new map, and the end of one\<close>

lemma new_hash_map_ok:
  assumes "distinct (free_member s)"
  shows "hm_inv (snd (new_hash_map s)) (fst (new_hash_map s)) \<and>
    hm_abs (snd (new_hash_map s)) (fst (new_hash_map s)) = Map.empty"
  using assms
  by (simp add: new_hash_map_def internal_malloc_def HT_INIT_SIZE_def HT_INIT_KEY_LEN_def hm_inv_def
      shape_ok_def buckets_ok_def empty_entry_def hm_abs_def)

lemma free_members_eq: "free_members ps s = s\<lparr>free_member := rev ps @ free_member s\<rparr>"
  by (induction ps s rule: free_members.induct) auto

lemma delete_hash_map_eq:
  "delete_hash_map hm s = s\<lparr>free_member := rev (hm_members hm) @ free_member s,
     released := hm_self hm # hm_addr hm # released s\<rparr>"
  by (simp add: delete_hash_map_def free_members_eq internal_free_def)

lemma release_all_released: "released (release_all ps s) = rev ps @ released s"
  by (induction ps s rule: release_all.induct) (auto simp: internal_free_def)

section \<open>The hash map is an index\<close>

definition can_add :: "'a hm_state_scheme \<Rightarrow> hash_map \<Rightarrow> bool" where
  "can_add s hm \<longleftrightarrow> (hash_map_full hm \<longrightarrow> hm_key_len hm < 26) \<and>
     malloc_seq s (malloc_cnt s) \<notin> set (hm_members hm) \<and>
     malloc_seq s (malloc_cnt s + 1) \<notin> set (hm_members hm)"

interpretation hm: key_index hm_inv hm_abs can_add guard_ok
  hash_map_add_member hash_map_delete_member hash_map_find_member
proof unfold_locales
  fix s :: "'a hm_state_scheme" and m k v
  assume "hm_inv s m" "hm_abs s m k = None" "can_add s m"
  then show "\<exists>m' s'. hash_map_add_member m k v s = Inr (0, m', s') \<and> hm_inv s' m' \<and>
      hm_abs s' m' = (hm_abs s m)(k \<mapsto> v)"
    using hash_map_add_member_ok[of s m k v] by (auto simp: can_add_def)
next
  fix s :: "'a hm_state_scheme" and m k
  assume "hm_inv s m" "k \<in> dom (hm_abs s m)"
  then show "\<exists>m' s'. hash_map_delete_member m k s = Inr (m', s') \<and> hm_inv s' m' \<and>
      hm_abs s' m' = (hm_abs s m)(k := None)"
    using hash_map_delete_member_ok[of s m k] by blast
qed (use hash_map_find_member_hit hash_map_find_member_miss in blast)+

section \<open>Properties\<close>

text \<open>C14: Insertion. Adding an absent key, with the doubling of the table when it is more than half
  full, keeps the invariant (shape of the table, every member on exactly the chain of its slot and
  on the member list, the counters exact, the free list disjoint) and is the update of the finite
  map the table stands for; a lookup of the key then finds the value and every other key still
  finds its own. \<open>can_add\<close> asks that a table that must grow has a key length below 26 and that the
  allocator does not return a member that is in use.\<close>

theorem hash_map_add_refines:
  assumes "hm_inv s hm" and "hm_abs s hm key = None" and "can_add s hm"
  shows "\<exists>hm' s'. hash_map_add_member hm key v s = Inr (0, hm', s') \<and> hm_inv s' hm' \<and>
    hm_abs s' hm' = (hm_abs s hm)(key \<mapsto> v) \<and> hash_map_find_member hm' key s' = Inr v \<and>
    (\<forall>k w. hm_abs s hm k = Some w \<longrightarrow> hash_map_find_member hm' k s' = Inr w)"
proof -
  obtain hm' s' where r: "hash_map_add_member hm key v s = Inr (0, hm', s')" "hm_inv s' hm'"
    "hm_abs s' hm' = (hm_abs s hm)(key \<mapsto> v)"
    using hm.add_ok[OF assms] by blast
  then show ?thesis using hm.find_after_add[OF assms r(1)] by blast
qed

text \<open>A state whose allocator hands out multiples of 64, and the empty map made in it.\<close>

definition fresh_st :: hm_state where
  "fresh_st = \<lparr>malloc_seq = \<lambda>n. word_of_nat (64 * (n + 1)), malloc_below = \<lambda>_. 1, malloc_cnt = 0,
     released = [], free_member = [], mm_cell = \<lambda>_. \<lparr>mm_key = 0, mm_val = 0\<rparr>\<rparr>"

abbreviation "fresh_hm \<equiv> fst (new_hash_map fresh_st)"
abbreviation "fresh_hm_st \<equiv> snd (new_hash_map fresh_st)"

lemma fresh_hm_ok: "hm_inv fresh_hm_st fresh_hm" "hm_abs fresh_hm_st fresh_hm = Map.empty"
  using new_hash_map_ok[of fresh_st] by (simp_all add: fresh_st_def)

lemma fresh_can_add: "can_add fresh_hm_st fresh_hm"
  by (simp add: can_add_def new_hash_map_def internal_malloc_def hash_map_full_def HT_INIT_SIZE_def)

theorem hash_map_add_refines_witness:
  "\<exists>hm' s'. hash_map_add_member fresh_hm 7 42 fresh_hm_st = Inr (0, hm', s') \<and> hm_inv s' hm' \<and>
     hash_map_find_member hm' 7 s' = Inr 42"
  using hash_map_add_refines[OF fresh_hm_ok(1) _ fresh_can_add, of 7 42] fresh_hm_ok(2) by auto

text \<open>C17: Deletion. Deleting a present key keeps the invariant, removes exactly that key from the
  map, and puts the member on the free list; adding a key and deleting it again gives back the map.\<close>

theorem hash_map_delete_refines:
  assumes "hm_inv s hm" and "hm_abs s hm key = Some v"
  shows "\<exists>hm' s' p. hash_map_delete_member hm key s = Inr (hm', s') \<and> hm_inv s' hm' \<and>
    hm_abs s' hm' = (hm_abs s hm)(key := None) \<and> hm_fill hm' = hm_fill hm - 1 \<and>
    p \<in> set (hm_members hm) \<and> free_member s' = p # free_member s"
proof -
  have "key \<in> dom (hm_abs s hm)" using assms(2) by auto
  from hash_map_delete_member_ok[OF assms(1) this]
  obtain hm' s' p where r: "hash_map_delete_member hm key s = Inr (hm', s')" "hm_inv s' hm'"
    "hm_abs s' hm' = (hm_abs s hm)(key := None)" "p \<in> set (hm_members hm)"
    "hm_members hm' = remove1 p (hm_members hm)" "s' = s\<lparr>free_member := p # free_member s\<rparr>"
    by blast
  have "length (remove1 p (hm_members hm)) + 1 = length (hm_members hm)"
    using r(4) by (metis One_nat_def Suc_eq_plus1 Suc_pred length_pos_if_in_set length_remove1)
  then have "hm_fill hm' = hm_fill hm - 1"
    using assms(1) r(2,5) by (simp add: hm_inv_def)
  then show ?thesis using r by auto
qed

theorem hash_map_delete_refines_witness:
  "\<exists>hm s hm' s'. hash_map_add_member fresh_hm 7 42 fresh_hm_st = Inr (0, hm, s) \<and>
     hash_map_delete_member hm 7 s = Inr (hm', s') \<and> hm_abs s' hm' = Map.empty"
proof -
  obtain hm s where 1: "hash_map_add_member fresh_hm 7 42 fresh_hm_st = Inr (0, hm, s)" "hm_inv s hm"
    "hm_abs s hm = [7 \<mapsto> 42]"
    using hm.add_ok[OF fresh_hm_ok(1) _ fresh_can_add, of 7 42] fresh_hm_ok(2) by auto
  with hash_map_delete_refines[OF 1(2), of 7 42] show ?thesis by auto
qed

text \<open>Lookup, on every branch. Under the invariant a lookup never faults; a present key gives
  its value. For an absent key the result is NULL unless the word in front of the (non-empty)
  bucket equals the key: then the code reads the bucket head as a member and returns its counter.\<close>

theorem hash_map_find_member_total:
  assumes "hm_inv s hm"
  shows "hash_map_find_member hm key s = Inr (case hm_abs s hm key of
      Some v \<Rightarrow> v
    | None \<Rightarrow> if guard_ok s hm key then NULL
              else word_of_int (he_n (hm_map hm ! nat (get_map_entry hm key))))"
proof (cases "hm_abs s hm key")
  case None
  then show ?thesis
    using get_map_member_miss[OF assms None] by (simp add: hash_map_find_member_def)
next
  case (Some v)
  then show ?thesis using hash_map_find_member_hit[OF assms] by simp
qed

theorem hash_map_find_member_total_witness: "hash_map_find_member fresh_hm 5 fresh_hm_st = Inr NULL"
proof -
  have "guard_ok fresh_hm_st fresh_hm 5"
    by (rule guard_ok_empty[OF fresh_hm_ok(1)]) (simp add: new_hash_map_def internal_malloc_def)
  then show ?thesis using hash_map_find_member_total[OF fresh_hm_ok(1), of 5] fresh_hm_ok(2) by simp
qed

text \<open>Growing. \<open>hash_map_rebuild\<close> of a non-empty table with a key length below 26 succeeds,
  doubles the table, keeps the invariant and the map, and gives the old array back to the
  allocator.\<close>

theorem hash_map_rebuild_keeps_map:
  assumes "hm_inv s hm" and "hm_members hm \<noteq> []" and "hm_key_len hm < 26"
  shows "\<exists>hm' s'. hash_map_rebuild hm s = Inr (0, hm', s') \<and> hm_inv s' hm' \<and>
    hm_abs s' hm' = hm_abs s hm \<and> hm_size hm' = 2 * hm_size hm \<and> hm_key_len hm' = hm_key_len hm + 1 \<and>
    released s' = hm_addr hm # released s"
proof -
  let ?s = "s\<lparr>malloc_cnt := malloc_cnt s + 1, released := hm_addr hm # released s\<rparr>"
  obtain hm' where r: "hash_map_rebuild hm s = Inr (0, hm', ?s)" "shape_ok hm'"
    "buckets_ok s (hm_members hm) hm'" "hm_members hm' = hm_members hm" "hm_fill hm' = hm_fill hm"
    "hm_key_len hm' = hm_key_len hm + 1"
    using hash_map_rebuild_ok[OF assms(1,3,2)] by blast
  have "hm_inv s hm'" by (rule hm_inv_rebuild[OF assms(1) r(2-5)])
  then have "hm_inv ?s hm'" by (simp add: hm_inv_def buckets_ok_def slot_of_def)
  moreover have "hm_size hm' = 2 * hm_size hm"
    using r(2,6) assms(1) by (simp add: hm_inv_def shape_ok_def)
  ultimately show ?thesis using r(1,4,6) by (auto simp: hm_abs_def)
qed

theorem hash_map_rebuild_keeps_map_witness:
  "\<exists>hm s hm' s'. hash_map_add_member fresh_hm 7 42 fresh_hm_st = Inr (0, hm, s) \<and>
     hash_map_rebuild hm s = Inr (0, hm', s') \<and> hm_abs s' hm' = [7 \<mapsto> 42] \<and> hm_size hm' = 2048"
proof -
  obtain hm s where 1: "hash_map_add_member fresh_hm 7 42 fresh_hm_st = Inr (0, hm, s)" "hm_inv s hm"
    "hm_abs s hm = [7 \<mapsto> 42]"
    using hm.add_ok[OF fresh_hm_ok(1) _ fresh_can_add, of 7 42] fresh_hm_ok(2) by auto
  have "hm_members hm \<noteq> []" using hm_abs_dom[of s hm] 1(3) by auto
  moreover have len: "hm_key_len hm = 10"
    using hash_map_add_member_key_len[OF 1(1)]
    by (simp add: new_hash_map_def internal_malloc_def hash_map_full_def HT_INIT_SIZE_def HT_INIT_KEY_LEN_def)
  ultimately obtain hm' s' where 2: "hash_map_rebuild hm s = Inr (0, hm', s')" "hm_abs s' hm' = hm_abs s hm"
    "hm_size hm' = 2 * hm_size hm"
    using hash_map_rebuild_keeps_map[OF 1(2)] by auto
  moreover have "hm_size hm = 1024" using 1(2) len by (simp add: hm_inv_def shape_ok_def)
  ultimately show ?thesis using 1(1,3) by auto
qed

end
