(* ===== verification/Utl_HashMap_MT.thy ===== *)
theory Utl_HashMap_MT
  imports HashMap_Correct
begin

text \<open>
  The hash map of the parallel version (\<open>utl_hash_map.c\<close>): 64 spin locks, one for the slots of
  each residue, taken around every chain operation, and all of them around a rebuild; the free
  list of members is thread-local and initialised on first use. A lock is a flag; taking a lock
  that is already held by the only running thread is a deadlock fault, so a theorem that an
  operation succeeds says that it takes no lock twice, and the lock array it returns says which
  locks it leaves taken. Each operation run on its own is shown to be the serial one.
  The interleaving of threads is in \<open>HashMap_Threads\<close>.
\<close>

section \<open>Spin locks\<close>

definition utl_spin_lock :: "nat \<Rightarrow> bool list \<Rightarrow> bool list res" where
  "utl_spin_lock i ls =
     (if length ls \<le> i then Inl OutOfBounds else if ls ! i then Inl Deadlock else Inr (ls[i := True]))"

definition utl_spin_unlock :: "nat \<Rightarrow> bool list \<Rightarrow> bool list res" where
  "utl_spin_unlock i ls = (if length ls \<le> i then Inl OutOfBounds else Inr (ls[i := False]))"

fun spin_lock_all :: "nat list \<Rightarrow> bool list \<Rightarrow> bool list res" where
  "spin_lock_all [] ls = Inr ls"
| "spin_lock_all (i # is) ls = rbind (utl_spin_lock i ls) (\<lambda>ls. spin_lock_all is ls)"

fun spin_unlock_all :: "nat list \<Rightarrow> bool list \<Rightarrow> bool list res" where
  "spin_unlock_all [] ls = Inr ls"
| "spin_unlock_all (i # is) ls = rbind (utl_spin_unlock i ls) (\<lambda>ls. spin_unlock_all is ls)"

section \<open>Data\<close>

definition N_LOCK :: nat where
  "N_LOCK = 64"

record hash_map_mt =
  mt_hm :: hash_map
  mt_lock :: "bool list"

record hm_mt_state = hm_state +
  fm_init :: bool

definition get_lock_idx :: "int \<Rightarrow> nat" where
  "get_lock_idx slot = nat (slot mod int N_LOCK)"

text \<open>The thread-local free list: a head with a null link is set up as an empty list first.\<close>

definition ensure_free_member :: "'a hm_mt_state_scheme \<Rightarrow> 'a hm_mt_state_scheme" where
  "ensure_free_member s = (if fm_init s then s else s\<lparr>fm_init := True, free_member := []\<rparr>)"

definition map_member_alloc_mt :: "'a hm_mt_state_scheme \<Rightarrow> ptr \<times> 'a hm_mt_state_scheme" where
  "map_member_alloc_mt s =
     (let s = ensure_free_member s
      in case free_member s of
           [] \<Rightarrow> internal_malloc s
         | p # ps \<Rightarrow> (p, s\<lparr>free_member := ps\<rparr>))"

definition map_member_free_mt ::
    "ptr \<Rightarrow> hash_map \<Rightarrow> 'a hm_mt_state_scheme \<Rightarrow> hash_map \<times> 'a hm_mt_state_scheme" where
  "map_member_free_mt p hm s =
     (let s = ensure_free_member s
      in (hm\<lparr>hm_members := remove1 p (hm_members hm)\<rparr>, s\<lparr>free_member := p # free_member s\<rparr>))"

definition new_hash_map_mt :: "'a hm_mt_state_scheme \<Rightarrow> hash_map_mt \<times> 'a hm_mt_state_scheme" where
  "new_hash_map_mt s =
     (let (hmap, s) = internal_malloc s;
          (arr, s) = internal_malloc s
      in (\<lparr>mt_hm = \<lparr>hm_self = hmap, hm_map = replicate (nat HT_INIT_SIZE) empty_entry, hm_addr = arr,
             hm_size = HT_INIT_SIZE, hm_fill = 0, hm_key_len = HT_INIT_KEY_LEN,
             hm_key_mask = get_key_mask HT_INIT_KEY_LEN, hm_members = []\<rparr>,
           mt_lock = replicate N_LOCK False\<rparr>, s))"

fun free_members_mt :: "ptr list \<Rightarrow> 'a hm_mt_state_scheme \<Rightarrow> 'a hm_mt_state_scheme" where
  "free_members_mt [] s = s"
| "free_members_mt (p # ps) s =
     (let s = ensure_free_member s
      in free_members_mt ps (s\<lparr>free_member := p # free_member s\<rparr>))"

definition delete_hash_map_mt :: "hash_map_mt \<Rightarrow> 'a hm_mt_state_scheme \<Rightarrow> 'a hm_mt_state_scheme" where
  "delete_hash_map_mt h s =
     internal_free (hm_self (mt_hm h))
       (internal_free (hm_addr (mt_hm h)) (free_members_mt (hm_members (mt_hm h)) s))"

section \<open>Operations\<close>

text \<open>
  The loop that locks the slot of a key: it retries when \<open>key_len\<close> has changed between the
  computation of the slot and the lock. With no other thread running it is left in the first
  round.
\<close>

definition lock_slot :: "uint64 \<Rightarrow> hash_map_mt \<Rightarrow> (int \<times> nat \<times> hash_map_mt) res" where
  "lock_slot key h =
     (let key_len = hm_key_len (mt_hm h);
          slot = uint (get_map_slot key (hm_key_mask (mt_hm h)) key_len);
          lock_idx = get_lock_idx slot
      in rbind (utl_spin_lock lock_idx (mt_lock h)) (\<lambda>ls.
           Inr (slot, lock_idx, h\<lparr>mt_lock := ls\<rparr>)))"

fun relink_members_mt :: "'a hm_state_scheme \<Rightarrow> ptr list \<Rightarrow> hash_map \<Rightarrow> hash_map res" where
  "relink_members_mt s [] hm = Inr hm"
| "relink_members_mt s (p # ps) hm =
     (let slot = uint (get_map_slot (mm_key (mm_cell s p)) (hm_key_mask hm) (hm_key_len hm))
      in rbind (upd_entry slot (push_entry p) hm) (\<lambda>hm'. relink_members_mt s ps hm'))"

definition hash_map_rebuild_mt ::
    "hash_map_mt \<Rightarrow> 'a hm_mt_state_scheme \<Rightarrow> (int \<times> hash_map_mt \<times> 'a hm_mt_state_scheme) res" where
  "hash_map_rebuild_mt h s =
     rbind (utl_spin_lock 0 (mt_lock h)) (\<lambda>ls.
       if \<not> hash_map_full (mt_hm h)
       then rbind (utl_spin_unlock 0 ls) (\<lambda>ls. Inr (0, h\<lparr>mt_lock := ls\<rparr>, s))
       else
         rbind (spin_lock_all [1..<N_LOCK] ls) (\<lambda>ls.
         rbind
           (if hm_members (mt_hm h) = [] then Inr (mt_hm h, s)
            else
              let hm = mt_hm h;
                  new_size = i32 (hm_size hm * 2);
                  bytes = i32 (new_size * 24);
                  (arr, s) = internal_malloc s
              in if bytes < 0 then Inl AssertFail
                 else
                   let key_len = hm_key_len hm + 1;
                       hm' = hm\<lparr>hm_map := replicate (nat new_size) empty_entry, hm_addr := arr,
                                hm_size := new_size, hm_key_len := key_len,
                                hm_key_mask := get_key_mask key_len\<rparr>
                   in rbind (relink_members_mt s (hm_members hm) hm') (\<lambda>hm''.
                        Inr (hm'', internal_free (hm_addr hm) s)))
           (\<lambda>(hm, s).
         rbind (spin_unlock_all [0..<N_LOCK] ls) (\<lambda>ls.
         Inr (0, \<lparr>mt_hm = hm, mt_lock = ls\<rparr>, s)))))"

definition hash_map_add_member_mt ::
    "hash_map_mt \<Rightarrow> uint64 \<Rightarrow> ptr \<Rightarrow> 'a hm_mt_state_scheme \<Rightarrow>
     (int \<times> hash_map_mt \<times> 'a hm_mt_state_scheme) res" where
  "hash_map_add_member_mt h key val s =
     rbind (if hash_map_full (mt_hm h) then hash_map_rebuild_mt h s else Inr (0, h, s)) (\<lambda>(ret, h, s).
     rbind (lock_slot key h) (\<lambda>(slot, lock_idx, h).
       let (member, s) = map_member_alloc_mt s;
           s = s\<lparr>mm_cell := (mm_cell s)(member := \<lparr>mm_key = key, mm_val = val\<rparr>)\<rparr>
       in rbind (upd_entry slot (push_entry member) (mt_hm h)) (\<lambda>hm.
          rbind (utl_spin_unlock lock_idx (mt_lock h)) (\<lambda>ls.
            Inr (ret, \<lparr>mt_hm = hm\<lparr>hm_members := member # hm_members hm, hm_fill := hm_fill hm + 1\<rparr>,
                      mt_lock = ls\<rparr>, s)))))"

text \<open>The parallel version does not check that the member exists before it unlinks it.\<close>

definition hash_map_delete_member_mt ::
    "hash_map_mt \<Rightarrow> uint64 \<Rightarrow> 'a hm_mt_state_scheme \<Rightarrow> (hash_map_mt \<times> 'a hm_mt_state_scheme) res" where
  "hash_map_delete_member_mt h key s =
     rbind (lock_slot key h) (\<lambda>(slot, lock_idx, h).
     rbind (get_map_member s (mt_hm h) slot key) (\<lambda>m.
       case m of
         NoMember \<Rightarrow> Inl NullDeref
       | HeadAlias \<Rightarrow> Inl Corrupt
       | Member p \<Rightarrow>
           rbind (upd_entry slot (drop_entry p) (mt_hm h)) (\<lambda>hm.
             let (hm, s) = map_member_free_mt p hm s
             in rbind (utl_spin_unlock lock_idx (mt_lock h)) (\<lambda>ls.
                  Inr (\<lparr>mt_hm = hm\<lparr>hm_fill := hm_fill hm - 1\<rparr>, mt_lock = ls\<rparr>, s)))))"

definition hash_map_find_member_mt ::
    "hash_map_mt \<Rightarrow> uint64 \<Rightarrow> 'a hm_mt_state_scheme \<Rightarrow> (ptr \<times> hash_map_mt) res" where
  "hash_map_find_member_mt h key s =
     rbind (lock_slot key h) (\<lambda>(slot, lock_idx, h).
     rbind (get_map_member s (mt_hm h) slot key) (\<lambda>m.
     rbind (utl_spin_unlock lock_idx (mt_lock h)) (\<lambda>ls.
       Inr (case m of
              NoMember \<Rightarrow> NULL
            | HeadAlias \<Rightarrow> word_of_int (he_n (hm_map (mt_hm h) ! nat slot))
            | Member p \<Rightarrow> mm_val (mm_cell s p), h\<lparr>mt_lock := ls\<rparr>))))"

definition key_crash_in_hash_map_mt :: "hash_map_mt \<Rightarrow> uint64 \<Rightarrow> (bool \<times> hash_map_mt) res" where
  "key_crash_in_hash_map_mt h key =
     rbind (lock_slot key h) (\<lambda>(slot, lock_idx, h).
     rbind (rd (hm_map (mt_hm h)) slot) (\<lambda>e.
     rbind (utl_spin_unlock lock_idx (mt_lock h)) (\<lambda>ls.
       Inr (\<not> he_n e \<le> 1, h\<lparr>mt_lock := ls\<rparr>))))"

definition hash_map_init_mt :: int where
  "hash_map_init_mt = 0"

definition hash_map_destroy_mt :: "'a hm_mt_state_scheme \<Rightarrow> 'a hm_mt_state_scheme" where
  "hash_map_destroy_mt s =
     (let s = ensure_free_member s in (release_all (free_member s) s)\<lparr>free_member := []\<rparr>)"

section \<open>Run on its own, each operation is the serial one\<close>

definition locks_free :: "hash_map_mt \<Rightarrow> bool" where
  "locks_free h \<longleftrightarrow> mt_lock h = replicate N_LOCK False"

lemma get_lock_idx_bound [simp]: "get_lock_idx slot < N_LOCK"
  by (simp add: get_lock_idx_def N_LOCK_def nat_less_iff)

lemma lock_slot_free:
  assumes "locks_free h"
  shows "lock_slot key h =
    Inr (get_map_entry (mt_hm h) key, get_lock_idx (get_map_entry (mt_hm h) key),
         h\<lparr>mt_lock := (replicate N_LOCK False)[get_lock_idx (get_map_entry (mt_hm h) key) := True]\<rparr>)"
  using assms
  by (simp add: lock_slot_def utl_spin_lock_def locks_free_def get_map_entry_def Let_def not_le)

lemma unlock_slot:
  "utl_spin_unlock (get_lock_idx i) ((replicate N_LOCK False)[get_lock_idx i := True]) =
   Inr (replicate N_LOCK False)"
proof -
  have "(replicate N_LOCK False)[get_lock_idx i := False] = replicate N_LOCK False"
    by (metis get_lock_idx_bound list_update_id nth_replicate)
  then show ?thesis by (simp add: utl_spin_unlock_def not_le)
qed

lemma relink_members_mt_eq: "relink_members_mt s ps hm = relink_members s ps hm"
  by (induction ps arbitrary: hm) (simp_all add: get_map_entry_def Let_def cong: rbind_cong)

lemma spin_lock_all_rest:
  "spin_lock_all [1..<N_LOCK] ((replicate N_LOCK False)[0 := True]) = Inr (replicate N_LOCK True)"
  unfolding N_LOCK_def by code_simp

lemma spin_unlock_all_locks:
  "spin_unlock_all [0..<N_LOCK] (replicate N_LOCK True) = Inr (replicate N_LOCK False)"
  unfolding N_LOCK_def by code_simp

text \<open>A serial result, with every lock released.\<close>

definition with_free_locks :: "(int \<times> hash_map \<times> 's) res \<Rightarrow> (int \<times> hash_map_mt \<times> 's) res" where
  "with_free_locks r =
     rbind r (\<lambda>(ret, hm, s). Inr (ret, \<lparr>mt_hm = hm, mt_lock = replicate N_LOCK False\<rparr>, s))"

lemma hash_map_rebuild_mt_eq:
  assumes "locks_free h" and "hash_map_full (mt_hm h)"
  shows "hash_map_rebuild_mt h s = with_free_locks (hash_map_rebuild (mt_hm h) s)"
proof -
  have "utl_spin_lock 0 (mt_lock h) = Inr ((replicate N_LOCK False)[0 := True])"
    using assms(1) by (simp add: locks_free_def utl_spin_lock_def N_LOCK_def)
  then show ?thesis
    using assms(2) spin_lock_all_rest spin_unlock_all_locks
    by (simp add: hash_map_rebuild_mt_def hash_map_rebuild_def with_free_locks_def internal_malloc_def
        relink_members_mt_eq Let_def rbind_def split: sum.split)
qed

lemma ensure_free_member_init [simp]: "fm_init s \<Longrightarrow> ensure_free_member s = s"
  by (simp add: ensure_free_member_def)

lemma map_member_alloc_mt_eq: "fm_init s \<Longrightarrow> map_member_alloc_mt s = map_member_alloc s"
  by (simp add: map_member_alloc_mt_def map_member_alloc_def Let_def)

lemma hash_map_rebuild_fm_init: "hash_map_rebuild hm s = Inr (r, hm', s') \<Longrightarrow> fm_init s' = fm_init s"
  by (auto simp: hash_map_rebuild_def internal_malloc_def internal_free_def Let_def rbind_eq_Inr
      split: if_splits)

lemma hash_map_add_member_mt_eq:
  assumes l: "locks_free h" and f: "fm_init s"
  shows "hash_map_add_member_mt h key v s = with_free_locks (hash_map_add_member (mt_hm h) key v s)"
proof -
  let ?cont = "\<lambda>(ret, h, s). rbind (lock_slot key h) (\<lambda>(slot, lock_idx, h).
       let (member, s) = map_member_alloc_mt s;
           s = s\<lparr>mm_cell := (mm_cell s)(member := \<lparr>mm_key = key, mm_val = v\<rparr>)\<rparr>
       in rbind (upd_entry slot (push_entry member) (mt_hm h)) (\<lambda>hm.
          rbind (utl_spin_unlock lock_idx (mt_lock h)) (\<lambda>ls.
            Inr (ret, \<lparr>mt_hm = hm\<lparr>hm_members := member # hm_members hm, hm_fill := hm_fill hm + 1\<rparr>,
                      mt_lock = ls\<rparr>, s))))"
  let ?scont = "\<lambda>(ret, hm, s).
       let slot = get_map_entry hm key;
           (member, s) = map_member_alloc s;
           s = s\<lparr>mm_cell := (mm_cell s)(member := \<lparr>mm_key = key, mm_val = v\<rparr>)\<rparr>
       in rbind (upd_entry slot (push_entry member) hm) (\<lambda>hm.
            Inr (ret, hm\<lparr>hm_members := member # hm_members hm, hm_fill := hm_fill hm + 1\<rparr>, s))"
  have step: "?cont (r, h', t) = with_free_locks (?scont (r, mt_hm h', t))"
    if "locks_free h'" "fm_init t" for r h' and t :: "'a hm_mt_state_scheme"
    using that lock_slot_free[OF that(1), of key] unlock_slot
    by (auto simp: map_member_alloc_mt_eq with_free_locks_def rbind_def Let_def split: prod.split sum.split)
  show ?thesis
  proof (cases "hash_map_full (mt_hm h)")
    case False
    then show ?thesis using step[OF l f, of 0]
      by (simp add: hash_map_add_member_mt_def hash_map_add_member_def)
  next
    case True
    note rb = hash_map_rebuild_mt_eq[OF l True, of s]
    show ?thesis
    proof (cases "hash_map_rebuild (mt_hm h) s")
      case (Inl e)
      then show ?thesis using True rb
        by (simp add: hash_map_add_member_mt_def hash_map_add_member_def with_free_locks_def)
    next
      case (Inr x)
      obtain r hm' t where x: "x = (r, hm', t)" by (cases x)
      let ?h = "\<lparr>mt_hm = hm', mt_lock = replicate N_LOCK False\<rparr>"
      have "hash_map_rebuild_mt h s = Inr (r, ?h, t)"
        using rb Inr x by (simp add: with_free_locks_def)
      moreover have "fm_init t" using Inr x f hash_map_rebuild_fm_init by blast
      ultimately show ?thesis using True Inr x step[of ?h t r]
        by (simp add: hash_map_add_member_mt_def hash_map_add_member_def locks_free_def)
    qed
  qed
qed

lemma hash_map_find_member_mt_eq:
  assumes "locks_free h"
  shows "hash_map_find_member_mt h key s =
    rbind (hash_map_find_member (mt_hm h) key s) (\<lambda>v. Inr (v, h))"
  using assms lock_slot_free[OF assms, of key] unlock_slot
  by (auto simp: hash_map_find_member_mt_def hash_map_find_member_def rbind_def locks_free_def Let_def
      split: sum.split member_ref.split)

lemma hash_map_delete_member_mt_eq:
  assumes "locks_free h" and "fm_init s"
    and "get_map_member s (mt_hm h) (get_map_entry (mt_hm h) key) key \<noteq> Inr NoMember"
  shows "hash_map_delete_member_mt h key s =
    rbind (hash_map_delete_member (mt_hm h) key s) (\<lambda>(hm, s).
      Inr (\<lparr>mt_hm = hm, mt_lock = replicate N_LOCK False\<rparr>, s))"
  using assms lock_slot_free[OF assms(1), of key] unlock_slot
  by (auto simp: hash_map_delete_member_mt_def hash_map_delete_member_def map_member_free_mt_def
      map_member_free_def rbind_def Let_def split: sum.split member_ref.split)

text \<open>
  Deleting a key that is not in the map: the serial version returns, the parallel one unlinks
  through the null pointer.
\<close>

lemma hash_map_delete_member_mt_absent:
  assumes "locks_free h" and "hm_inv s (mt_hm h)" and "hm_abs s (mt_hm h) key = None"
    and "guard_ok s (mt_hm h) key"
  shows "hash_map_delete_member_mt h key s = Inl NullDeref \<and>
    hash_map_delete_member (mt_hm h) key s = Inr (mt_hm h, s)"
  using assms lock_slot_free[OF assms(1), of key] get_map_member_miss[OF assms(2,3)]
  by (simp add: hash_map_delete_member_mt_def hash_map_delete_member_def)

section \<open>The parallel map is an index as well\<close>

definition mt_inv :: "'a hm_mt_state_scheme \<Rightarrow> hash_map_mt \<Rightarrow> bool" where
  "mt_inv s h \<longleftrightarrow> locks_free h \<and> fm_init s \<and> hm_inv s (mt_hm h)"

definition mt_find :: "hash_map_mt \<Rightarrow> uint64 \<Rightarrow> 'a hm_mt_state_scheme \<Rightarrow> ptr res" where
  "mt_find h key s = rbind (hash_map_find_member_mt h key s) (\<lambda>(v, _). Inr v)"

lemma hash_map_add_member_fm_init:
  "hash_map_add_member hm key v s = Inr (r, hm', s') \<Longrightarrow> fm_init s' = fm_init s"
  by (auto simp: hash_map_add_member_def rbind_eq_Inr Let_def map_member_alloc_def internal_malloc_def
      dest: hash_map_rebuild_fm_init split: if_splits prod.splits list.splits)

interpretation mt: key_index mt_inv "\<lambda>s h. hm_abs s (mt_hm h)" "\<lambda>s h. can_add s (mt_hm h)"
  "\<lambda>s h. guard_ok s (mt_hm h)" hash_map_add_member_mt hash_map_delete_member_mt mt_find
proof unfold_locales
  fix s :: "'a hm_mt_state_scheme" and h k v
  assume *: "mt_inv s h" "hm_abs s (mt_hm h) k = None" "can_add s (mt_hm h)"
  then obtain hm' s' where r: "hash_map_add_member (mt_hm h) k v s = Inr (0, hm', s')" "hm_inv s' hm'"
    "hm_abs s' hm' = (hm_abs s (mt_hm h))(k \<mapsto> v)"
    using hm.add_ok[of s "mt_hm h" k v] by (auto simp: mt_inv_def)
  then show "\<exists>h' s'. hash_map_add_member_mt h k v s = Inr (0, h', s') \<and> mt_inv s' h' \<and>
      hm_abs s' (mt_hm h') = (hm_abs s (mt_hm h))(k \<mapsto> v)"
    using * hash_map_add_member_mt_eq[of h s k v] hash_map_add_member_fm_init[OF r(1)]
    by (auto simp: mt_inv_def with_free_locks_def locks_free_def)
next
  fix s :: "'a hm_mt_state_scheme" and h k
  assume *: "mt_inv s h" "k \<in> dom (hm_abs s (mt_hm h))"
  then obtain hm' s' p where r: "hash_map_delete_member (mt_hm h) k s = Inr (hm', s')" "hm_inv s' hm'"
    "hm_abs s' hm' = (hm_abs s (mt_hm h))(k := None)" "s' = s\<lparr>free_member := p # free_member s\<rparr>"
    using hash_map_delete_member_ok[of s "mt_hm h" k] by (auto simp: mt_inv_def)
  obtain q where "q \<in> set (hm_members (mt_hm h))" "mm_key (mm_cell s q) = k"
    using *(2) by (auto simp: hm_abs_dom)
  then have "get_map_member s (mt_hm h) (get_map_entry (mt_hm h) k) k \<noteq> Inr NoMember"
    using get_map_member_hit[of s "mt_hm h" q k] *(1) by (simp add: mt_inv_def)
  then show "\<exists>h' s'. hash_map_delete_member_mt h k s = Inr (h', s') \<and> mt_inv s' h' \<and>
      hm_abs s' (mt_hm h') = (hm_abs s (mt_hm h))(k := None)"
    using * hash_map_delete_member_mt_eq[of h s k] r by (auto simp: mt_inv_def locks_free_def)
qed (auto simp: mt_inv_def mt_find_def hash_map_find_member_mt_eq hash_map_find_member_hit
      hash_map_find_member_miss)

section \<open>Properties\<close>

text \<open>C21: Run with no other thread in the map, the operations of the parallel hash map compute what
  the serial ones compute: insertion, with its two-stage locking and its rebuild under all 64
  locks, and lookup return the serial results, end with every lock released and never wait.\<close>

theorem hash_map_mt_equals_serial:
  assumes "locks_free h" and "fm_init s"
  shows "hash_map_add_member_mt h key v s =
      rbind (hash_map_add_member (mt_hm h) key v s) (\<lambda>(ret, hm, s).
        Inr (ret, \<lparr>mt_hm = hm, mt_lock = replicate N_LOCK False\<rparr>, s)) \<and>
    hash_map_find_member_mt h key s = rbind (hash_map_find_member (mt_hm h) key s) (\<lambda>v. Inr (v, h))"
  using hash_map_add_member_mt_eq[OF assms, of key v] hash_map_find_member_mt_eq[OF assms(1)]
  by (simp add: with_free_locks_def)

text \<open>The empty parallel map of a state whose allocator hands out multiples of 64.\<close>

definition fresh_st_mt :: hm_mt_state where
  "fresh_st_mt = \<lparr>malloc_seq = \<lambda>n. word_of_nat (64 * (n + 1)), malloc_below = \<lambda>_. 1, malloc_cnt = 0,
     released = [], free_member = [], mm_cell = \<lambda>_. \<lparr>mm_key = 0, mm_val = 0\<rparr>, fm_init = True\<rparr>"

abbreviation "fresh_mt \<equiv> fst (new_hash_map_mt fresh_st_mt)"
abbreviation "fresh_mt_st \<equiv> snd (new_hash_map_mt fresh_st_mt)"

lemma fresh_mt_ok: "mt_inv fresh_mt_st fresh_mt" "hm_abs fresh_mt_st (mt_hm fresh_mt) = Map.empty"
  "can_add fresh_mt_st (mt_hm fresh_mt)" "hm_members (mt_hm fresh_mt) = []"
  using new_hash_map_ok[of fresh_st_mt]
  by (simp_all add: new_hash_map_mt_def new_hash_map_def mt_inv_def locks_free_def fresh_st_mt_def
      internal_malloc_def can_add_def hash_map_full_def HT_INIT_SIZE_def Let_def)

theorem hash_map_mt_equals_serial_witness:
  "hash_map_find_member_mt fresh_mt 5 fresh_mt_st = Inr (NULL, fresh_mt)"
proof -
  have "guard_ok fresh_mt_st (mt_hm fresh_mt) 5"
    using guard_ok_empty fresh_mt_ok by (metis mt_inv_def)
  then have "hash_map_find_member (mt_hm fresh_mt) 5 fresh_mt_st = Inr NULL"
    using hash_map_find_member_miss fresh_mt_ok by (metis mt_inv_def)
  then show ?thesis
    using hash_map_mt_equals_serial[of fresh_mt fresh_mt_st 5] fresh_mt_ok(1) by (simp add: mt_inv_def)
qed

text \<open>The parallel deletion lost a check. Deleting a key that is not in the map is a no-op in the
  serial version; the parallel version, in the same situation, dereferences the null pointer that
  the search returned.\<close>

theorem hash_map_delete_absent_diverges:
  assumes "locks_free h" and "hm_inv s (mt_hm h)" and "hm_abs s (mt_hm h) key = None"
    and "guard_ok s (mt_hm h) key"
  shows "hash_map_delete_member (mt_hm h) key s = Inr (mt_hm h, s) \<and>
    hash_map_delete_member_mt h key s = Inl NullDeref"
  using hash_map_delete_member_mt_absent[OF assms] by simp

theorem hash_map_delete_absent_diverges_witness:
  "hash_map_delete_member_mt fresh_mt 5 fresh_mt_st = Inl NullDeref"
  using hash_map_delete_absent_diverges[of fresh_mt fresh_mt_st 5] fresh_mt_ok
    guard_ok_empty[of fresh_mt_st "mt_hm fresh_mt" 5]
  by (simp add: mt_inv_def)

end
