(* ===== verification/HashMap_Threads.thy ===== *)
theory HashMap_Threads
  imports Utl_HashMap_MT
begin

text \<open>
  Threads on one parallel hash map. A step is one access to the shared structure: reading
  \<open>key_len\<close>, reading \<open>key_mask\<close>, taking or releasing a spin lock, comparing \<open>key_len\<close> again, and
  the separate assignments of a rebuild. \<open>thread_step\<close> interleaves the lookup loop that
  \<open>hash_map_find_member\<close>, \<open>hash_map_delete_member\<close>, \<open>hash_map_add_member\<close> and
  \<open>key_crash_in_hash_map\<close> share with \<open>hash_map_rebuild\<close>. What a thread does to the chain inside
  the locked section is not part of the relation; the state is the map, the owner of each lock
  and the place of each thread.
\<close>

datatype tpc =
    Idle
  | Start uint64
  | ReadLen uint64 nat
  | GotSlot uint64 nat int
  | HasLock uint64 nat int
  | InSection uint64 int
  | RbLocks nat
  | RbGrown
  | RbLen
  | RbMask
  | RbUnlock nat

record conc =
  c_hm :: hash_map
  c_st :: hm_state
  c_lock :: "nat \<Rightarrow> nat option"
  c_pc :: "nat \<Rightarrow> tpc"

definition rb_locked :: "tpc \<Rightarrow> nat set" where
  "rb_locked pc =
     (case pc of
        RbLocks n \<Rightarrow> {..<n}
      | RbGrown \<Rightarrow> {..<N_LOCK}
      | RbLen \<Rightarrow> {..<N_LOCK}
      | RbMask \<Rightarrow> {..<N_LOCK}
      | RbUnlock n \<Rightarrow> {n..<N_LOCK}
      | HasLock key len slot \<Rightarrow> {get_lock_idx slot}
      | InSection key slot \<Rightarrow> {get_lock_idx slot}
      | _ \<Rightarrow> {})"

inductive thread_step :: "conc \<Rightarrow> conc \<Rightarrow> bool" where
  call: "c_pc c t = Idle \<Longrightarrow> thread_step c (c\<lparr>c_pc := (c_pc c)(t := Start key)\<rparr>)"
| read_len: "c_pc c t = Start key \<Longrightarrow>
    thread_step c (c\<lparr>c_pc := (c_pc c)(t := ReadLen key (hm_key_len (c_hm c)))\<rparr>)"
| read_mask: "c_pc c t = ReadLen key len \<Longrightarrow>
    thread_step c (c\<lparr>c_pc := (c_pc c)
      (t := GotSlot key len (uint (get_map_slot key (hm_key_mask (c_hm c)) len)))\<rparr>)"
| lock: "c_pc c t = GotSlot key len slot \<Longrightarrow> c_lock c (get_lock_idx slot) = None \<Longrightarrow>
    thread_step c (c\<lparr>c_lock := (c_lock c)(get_lock_idx slot := Some t),
                    c_pc := (c_pc c)(t := HasLock key len slot)\<rparr>)"
| same_len: "c_pc c t = HasLock key len slot \<Longrightarrow> len = hm_key_len (c_hm c) \<Longrightarrow>
    thread_step c (c\<lparr>c_pc := (c_pc c)(t := InSection key slot)\<rparr>)"
| retry: "c_pc c t = HasLock key len slot \<Longrightarrow> len \<noteq> hm_key_len (c_hm c) \<Longrightarrow>
    thread_step c (c\<lparr>c_lock := (c_lock c)(get_lock_idx slot := None),
                    c_pc := (c_pc c)(t := Start key)\<rparr>)"
| leave: "c_pc c t = InSection key slot \<Longrightarrow>
    thread_step c (c\<lparr>c_lock := (c_lock c)(get_lock_idx slot := None),
                    c_pc := (c_pc c)(t := Idle)\<rparr>)"
| rb_lock: "(c_pc c t = Idle \<and> n = 0) \<or> c_pc c t = RbLocks n \<Longrightarrow> n < N_LOCK \<Longrightarrow>
    n = 1 \<longrightarrow> hash_map_full (c_hm c) \<Longrightarrow> c_lock c n = None \<Longrightarrow>
    thread_step c (c\<lparr>c_lock := (c_lock c)(n := Some t), c_pc := (c_pc c)(t := RbLocks (n + 1))\<rparr>)"
| rb_not_full: "c_pc c t = RbLocks 1 \<Longrightarrow> \<not> hash_map_full (c_hm c) \<Longrightarrow>
    thread_step c (c\<lparr>c_lock := (c_lock c)(0 := None), c_pc := (c_pc c)(t := Idle)\<rparr>)"
| rb_empty: "c_pc c t = RbLocks N_LOCK \<Longrightarrow> hm_members (c_hm c) = [] \<Longrightarrow>
    thread_step c (c\<lparr>c_pc := (c_pc c)(t := RbUnlock 0)\<rparr>)"
| rb_grow: "c_pc c t = RbLocks N_LOCK \<Longrightarrow> hm_members (c_hm c) \<noteq> [] \<Longrightarrow> hm_key_len (c_hm c) < 26 \<Longrightarrow>
    thread_step c (c\<lparr>c_hm := (c_hm c)\<lparr>hm_size := i32 (hm_size (c_hm c) * 2),
        hm_map := replicate (nat (i32 (hm_size (c_hm c) * 2))) empty_entry\<rparr>,
      c_pc := (c_pc c)(t := RbGrown)\<rparr>)"
| rb_len: "c_pc c t = RbGrown \<Longrightarrow>
    thread_step c (c\<lparr>c_hm := (c_hm c)\<lparr>hm_key_len := hm_key_len (c_hm c) + 1\<rparr>,
      c_pc := (c_pc c)(t := RbLen)\<rparr>)"
| rb_mask: "c_pc c t = RbLen \<Longrightarrow>
    thread_step c (c\<lparr>c_hm := (c_hm c)\<lparr>hm_key_mask := get_key_mask (hm_key_len (c_hm c))\<rparr>,
      c_pc := (c_pc c)(t := RbMask)\<rparr>)"
| rb_link: "c_pc c t = RbMask \<Longrightarrow>
    relink_members_mt (c_st c) (hm_members (c_hm c)) (c_hm c) = Inr hm' \<Longrightarrow>
    thread_step c (c\<lparr>c_hm := hm', c_pc := (c_pc c)(t := RbUnlock 0)\<rparr>)"
| rb_unlock: "c_pc c t = RbUnlock n \<Longrightarrow> n < N_LOCK \<Longrightarrow>
    thread_step c (c\<lparr>c_lock := (c_lock c)(n := None), c_pc := (c_pc c)(t := RbUnlock (n + 1))\<rparr>)"
| rb_done: "c_pc c t = RbUnlock N_LOCK \<Longrightarrow> thread_step c (c\<lparr>c_pc := (c_pc c)(t := Idle)\<rparr>)"

definition conc_init :: "hash_map \<Rightarrow> hm_state \<Rightarrow> conc" where
  "conc_init hm s = \<lparr>c_hm = hm, c_st = s, c_lock = (\<lambda>_. None), c_pc = (\<lambda>_. Idle)\<rparr>"

inductive reachable :: "hash_map \<Rightarrow> hm_state \<Rightarrow> conc \<Rightarrow> bool" for hm s where
  init: "reachable hm s (conc_init hm s)"
| step: "reachable hm s c \<Longrightarrow> thread_step c c' \<Longrightarrow> reachable hm s c'"

section \<open>Mutual exclusion\<close>

text \<open>A thread owns exactly the locks its place in the code says it has taken.\<close>

definition lock_inv :: "conc \<Rightarrow> bool" where
  "lock_inv c \<longleftrightarrow> (\<forall>t i. c_lock c i = Some t \<longleftrightarrow> i \<in> rb_locked (c_pc c t))"

lemma lock_inv_pc:
  assumes "lock_inv c" and "rb_locked pc = rb_locked (c_pc c t)"
  shows "lock_inv (c\<lparr>c_pc := (c_pc c)(t := pc)\<rparr>)"
  using assms by (simp add: lock_inv_def)

lemma lock_inv_take:
  assumes "lock_inv c" and "c_lock c n = None" and "rb_locked pc = insert n (rb_locked (c_pc c t))"
  shows "lock_inv (c\<lparr>c_lock := (c_lock c)(n := Some t), c_pc := (c_pc c)(t := pc)\<rparr>)"
proof -
  have "n \<notin> rb_locked (c_pc c u)" for u
    using assms(1,2) by (metis lock_inv_def option.distinct(1))
  then show ?thesis using assms by (auto simp: lock_inv_def)
qed

lemma lock_inv_drop:
  assumes "lock_inv c" and "n \<in> rb_locked (c_pc c t)" and "rb_locked pc = rb_locked (c_pc c t) - {n}"
  shows "lock_inv (c\<lparr>c_lock := (c_lock c)(n := None), c_pc := (c_pc c)(t := pc)\<rparr>)"
  using assms by (auto simp: lock_inv_def) (metis option.inject)+

lemma lock_inv_hm: "lock_inv (c\<lparr>c_hm := hm\<rparr>) = lock_inv c"
  by (simp add: lock_inv_def)

lemma thread_step_lock_inv: "thread_step c c' \<Longrightarrow> lock_inv c \<Longrightarrow> lock_inv c'"
proof (induction rule: thread_step.induct)
  case (rb_lock c t n)
  then show ?case by (intro lock_inv_take) (auto simp: rb_locked_def)
next
  case (rb_grow c t)
  then show ?case
    using lock_inv_pc[of c RbGrown t] by (simp add: rb_locked_def lock_inv_def)
next
  case (rb_len c t)
  then show ?case
    using lock_inv_pc[of c RbLen t] by (simp add: rb_locked_def lock_inv_def)
next
  case (rb_mask c t)
  then show ?case
    using lock_inv_pc[of c RbMask t] by (simp add: rb_locked_def lock_inv_def)
next
  case (rb_link c t hm')
  then show ?case
    using lock_inv_pc[of c "RbUnlock 0" t] by (simp add: rb_locked_def lock_inv_def)
next
  case (rb_unlock c t n)
  then show ?case by (intro lock_inv_drop) (auto simp: rb_locked_def)
next
  case (lock c t key len slot)
  then show ?case by (intro lock_inv_take) (auto simp: rb_locked_def)
next
  case (retry c t key len slot)
  then show ?case by (intro lock_inv_drop) (auto simp: rb_locked_def)
next
  case (leave c t key slot)
  then show ?case by (intro lock_inv_drop) (auto simp: rb_locked_def)
next
  case (rb_not_full c t)
  then show ?case by (intro lock_inv_drop) (auto simp: rb_locked_def)
qed (rule lock_inv_pc; auto simp: rb_locked_def)+

lemma reachable_lock_inv: "reachable hm s c \<Longrightarrow> lock_inv c"
proof (induction rule: reachable.induct)
  case init
  show ?case by (simp add: lock_inv_def conc_init_def rb_locked_def)
next
  case (step c c')
  then show ?case by (blast intro: thread_step_lock_inv)
qed

lemma lock_owner_unique:
  "lock_inv c \<Longrightarrow> i \<in> rb_locked (c_pc c t) \<Longrightarrow> i \<in> rb_locked (c_pc c u) \<Longrightarrow> t = u"
  by (metis lock_inv_def option.inject)

text \<open>
  Inside the section the chain belongs to one thread, and no rebuild has begun to change the map.
\<close>

lemma no_rebuild_in_section:
  assumes "lock_inv c" and "c_pc c t = InSection key slot" and "{..<N_LOCK} \<subseteq> rb_locked (c_pc c u)"
  shows False
proof -
  have "get_lock_idx slot \<in> rb_locked (c_pc c t)" using assms(2) by (simp add: rb_locked_def)
  moreover have "get_lock_idx slot \<in> rb_locked (c_pc c u)" using assms(3) by auto
  ultimately have "t = u" using assms(1) lock_owner_unique by blast
  then have "{..<N_LOCK} \<subseteq> {get_lock_idx slot}" using assms(2,3) by (simp add: rb_locked_def)
  moreover have "0 \<in> {..<N_LOCK}" "1 \<in> {..<N_LOCK}" by (simp_all add: N_LOCK_def)
  ultimately have "0 = get_lock_idx slot" "1 = get_lock_idx slot" by blast+
  then show False by simp
qed

section \<open>Which slots a thread can work on\<close>

text \<open>
  A thread reads \<open>key_len\<close> and \<open>key_mask\<close> separately. The comparison after the lock catches a
  \<open>key_len\<close> that has changed, but not a mask that was read between the two assignments of a
  rebuild: the slot is then computed from the new length and the old mask.
\<close>

definition slot_at :: "uint64 \<Rightarrow> nat \<Rightarrow> nat \<Rightarrow> int" where
  "slot_at key mask_len len = uint (get_map_slot key (get_key_mask mask_len) len)"

definition slot_from :: "uint64 \<Rightarrow> nat \<Rightarrow> int \<Rightarrow> bool" where
  "slot_from key len slot \<longleftrightarrow> slot = slot_at key len len \<or> (10 < len \<and> slot = slot_at key (len - 1) len)"

definition place_ok :: "nat \<Rightarrow> tpc \<Rightarrow> bool" where
  "place_ok len pc =
     (case pc of
        ReadLen key l \<Rightarrow> 10 \<le> l \<and> l \<le> len
      | GotSlot key l sl \<Rightarrow> 10 \<le> l \<and> l \<le> len \<and> (l = len \<longrightarrow> slot_from key l sl)
      | HasLock key l sl \<Rightarrow> 10 \<le> l \<and> l \<le> len \<and> (l = len \<longrightarrow> slot_from key l sl)
      | InSection key sl \<Rightarrow> slot_from key len sl
      | RbGrown \<Rightarrow> len < 26
      | _ \<Rightarrow> True)"

definition mask_inv :: "conc \<Rightarrow> bool" where
  "mask_inv c \<longleftrightarrow>
     (let len = hm_key_len (c_hm c)
      in 10 \<le> len \<and> len \<le> 26 \<and> (\<forall>t. place_ok len (c_pc c t)) \<and>
         (if \<exists>t. c_pc c t = RbLen then 10 < len \<and> hm_key_mask (c_hm c) = get_key_mask (len - 1)
          else hm_key_mask (c_hm c) = get_key_mask len))"

lemma mask_inv_place: "mask_inv c \<Longrightarrow> place_ok (hm_key_len (c_hm c)) (c_pc c t)"
  by (simp add: mask_inv_def Let_def)

lemma mask_inv_pc:
  assumes "mask_inv c" and "c_pc c t \<noteq> RbLen" and "pc \<noteq> RbLen" and "place_ok (hm_key_len (c_hm c)) pc"
    and "hm_key_len (c_hm c') = hm_key_len (c_hm c)" and "hm_key_mask (c_hm c') = hm_key_mask (c_hm c)"
    and "c_pc c' = (c_pc c)(t := pc)"
  shows "mask_inv c'"
proof -
  have "(\<exists>u. c_pc c' u = RbLen) \<longleftrightarrow> (\<exists>u. c_pc c u = RbLen)"
    using assms(2,3,7) by (metis fun_upd_apply)
  then show ?thesis using assms by (simp add: mask_inv_def Let_def)
qed

text \<open>Growing the map leaves every place good: a length read earlier is now smaller.\<close>

lemma place_ok_grow:
  "place_ok len pc \<Longrightarrow> (\<And>key sl. pc \<noteq> InSection key sl) \<Longrightarrow> pc \<noteq> RbGrown \<Longrightarrow> place_ok (len + 1) pc"
  by (cases pc) (auto simp: place_ok_def)

lemma relink_members_mt_fields:
  "relink_members_mt s ps hm = Inr hm' \<Longrightarrow> \<exists>es. hm' = hm\<lparr>hm_map := es\<rparr>"
proof (induction ps arbitrary: hm)
  case Nil
  then show ?case by (intro exI[of _ "hm_map hm"]) simp
next
  case (Cons p ps)
  then obtain es where "relink_members_mt s ps (hm\<lparr>hm_map := es\<rparr>) = Inr hm'"
    by (auto simp: rbind_eq_Inr upd_entry_def Let_def)
  from Cons.IH[OF this] show ?case by auto
qed

lemma rebuilder_unique:
  assumes "lock_inv c" and "c_pc c t \<in> {RbGrown, RbLen, RbMask}" and "c_pc c u \<in> {RbGrown, RbLen, RbMask}"
  shows "t = u"
  by (rule lock_owner_unique[OF assms(1), of 0]) (use assms(2,3) in \<open>auto simp: rb_locked_def N_LOCK_def\<close>)

lemma rb_len_mask_inv:
  assumes inv: "lock_inv c" "mask_inv c" and t: "c_pc c t = RbGrown"
  shows "mask_inv (c\<lparr>c_hm := (c_hm c)\<lparr>hm_key_len := hm_key_len (c_hm c) + 1\<rparr>, c_pc := (c_pc c)(t := RbLen)\<rparr>)"
proof -
  let ?len = "hm_key_len (c_hm c)"
  have lt: "?len < 26" using mask_inv_place[OF inv(2), of t] t by (simp add: place_ok_def)
  have others: "c_pc c u \<noteq> RbGrown" "c_pc c u \<noteq> RbLen" if "u \<noteq> t" for u
    using rebuilder_unique[OF inv(1), of t u] t that by auto
  have sec: "c_pc c u \<noteq> InSection key sl" for u key sl
    using no_rebuild_in_section[OF inv(1), of u key sl t] t by (auto simp: rb_locked_def)
  have "place_ok (?len + 1) (((c_pc c)(t := RbLen)) u)" for u
    using place_ok_grow[OF mask_inv_place[OF inv(2)], of u] others[of u] sec[of u]
    by (auto simp: place_ok_def[of _ RbLen])
  moreover have "c_pc c u \<noteq> RbLen" for u using others(2)[of u] t by (cases "u = t") auto
  then have "hm_key_mask (c_hm c) = get_key_mask ?len"
    using inv(2) by (simp add: mask_inv_def Let_def)
  ultimately show ?thesis using lt inv(2) by (auto simp: mask_inv_def Let_def)
qed

lemma rb_mask_mask_inv:
  assumes inv: "lock_inv c" "mask_inv c" and t: "c_pc c t = RbLen"
  shows "mask_inv (c\<lparr>c_hm := (c_hm c)\<lparr>hm_key_mask := get_key_mask (hm_key_len (c_hm c))\<rparr>,
    c_pc := (c_pc c)(t := RbMask)\<rparr>)"
proof -
  have "c_pc c u \<noteq> RbLen" if "u \<noteq> t" for u
    using rebuilder_unique[OF inv(1), of t u] t that by auto
  then have "\<not> (\<exists>u. ((c_pc c)(t := RbMask)) u = RbLen)" by auto
  moreover have "place_ok (hm_key_len (c_hm c)) (((c_pc c)(t := RbMask)) u)" for u
    using mask_inv_place[OF inv(2), of u] by (simp add: place_ok_def)
  ultimately show ?thesis using inv(2) by (simp add: mask_inv_def Let_def)
qed

lemma thread_step_mask_inv:
  assumes "thread_step c c'" and "lock_inv c" and "mask_inv c"
  shows "mask_inv c'"
  using assms
proof (induction rule: thread_step.induct)
  case (rb_len c t)
  then show ?case by (intro rb_len_mask_inv)
next
  case (rb_mask c t)
  then show ?case by (intro rb_mask_mask_inv)
next
  case (rb_link c t hm')
  then obtain es where "hm' = (c_hm c)\<lparr>hm_map := es\<rparr>"
    using relink_members_mt_fields by blast
  then have hm: "hm_key_len hm' = hm_key_len (c_hm c)" "hm_key_mask hm' = hm_key_mask (c_hm c)" by simp_all
  show ?case
    by (rule mask_inv_pc[of c t "RbUnlock 0"]) (use rb_link hm in \<open>simp_all add: place_ok_def\<close>)
next
  case (rb_grow c t)
  show ?case
    by (rule mask_inv_pc[of c t RbGrown]) (use rb_grow in \<open>simp_all add: place_ok_def\<close>)
next
  case (read_len c t key)
  show ?case
    by (rule mask_inv_pc[of c t "ReadLen key (hm_key_len (c_hm c))"])
       (use read_len in \<open>simp_all add: place_ok_def mask_inv_def Let_def\<close>)
next
  case (read_mask c t key len)
  have p: "place_ok (hm_key_len (c_hm c)) (ReadLen key len)"
    using mask_inv_place[OF read_mask(3), of t] read_mask(1) by simp
  have m: "hm_key_mask (c_hm c) = get_key_mask (hm_key_len (c_hm c)) \<or>
      (10 < hm_key_len (c_hm c) \<and> hm_key_mask (c_hm c) = get_key_mask (hm_key_len (c_hm c) - 1))"
    using read_mask(3) by (auto simp: mask_inv_def Let_def split: if_splits)
  show ?case
    by (rule mask_inv_pc[of c t "GotSlot key len (uint (get_map_slot key (hm_key_mask (c_hm c)) len))"])
       (use read_mask p m in \<open>auto simp: place_ok_def slot_from_def slot_at_def\<close>)
next
  case (lock c t key len slot)
  show ?case
    by (rule mask_inv_pc[of c t "HasLock key len slot"])
       (use lock mask_inv_place[OF lock(4), of t] in \<open>simp_all add: place_ok_def\<close>)
next
  case (same_len c t key len slot)
  show ?case
    by (rule mask_inv_pc[of c t "InSection key slot"])
       (use same_len mask_inv_place[OF same_len(4), of t] in \<open>simp_all add: place_ok_def\<close>)
next
  case (call c t key)
  show ?case by (rule mask_inv_pc[of c t "Start key"]) (use call in \<open>simp_all add: place_ok_def\<close>)
next
  case (retry c t key len slot)
  show ?case by (rule mask_inv_pc[of c t "Start key"]) (use retry in \<open>simp_all add: place_ok_def\<close>)
next
  case (rb_lock c t n)
  show ?case by (rule mask_inv_pc[of c t "RbLocks (n + 1)"]) (use rb_lock in \<open>auto simp: place_ok_def\<close>)
next
  case (rb_unlock c t n)
  show ?case by (rule mask_inv_pc[of c t "RbUnlock (n + 1)"]) (use rb_unlock in \<open>simp_all add: place_ok_def\<close>)
next
  case (rb_empty c t)
  show ?case by (rule mask_inv_pc[of c t "RbUnlock 0"]) (use rb_empty in \<open>simp_all add: place_ok_def\<close>)
next
  case (leave c t key slot)
  show ?case by (rule mask_inv_pc[of c t Idle]) (use leave in \<open>simp_all add: place_ok_def\<close>)
next
  case (rb_not_full c t)
  show ?case by (rule mask_inv_pc[of c t Idle]) (use rb_not_full in \<open>simp_all add: place_ok_def\<close>)
next
  case (rb_done c t)
  show ?case by (rule mask_inv_pc[of c t Idle]) (use rb_done in \<open>simp_all add: place_ok_def\<close>)
qed

lemma reachable_mask_inv:
  assumes "reachable hm s c" and "shape_ok hm"
  shows "mask_inv c"
  using assms
proof (induction rule: reachable.induct)
  case init
  then show ?case by (simp add: mask_inv_def conc_init_def place_ok_def shape_ok_def)
next
  case (step c c')
  then show ?case using thread_step_mask_inv reachable_lock_inv by blast
qed

text \<open>Even a slot computed with the old mask lies inside the grown array.\<close>

lemma drop_masked_bound:
  fixes h :: uint64
  assumes "b + m \<le> a + len"
  shows "drop_bit a (h AND push_bit b (mask m)) = take_bit len (drop_bit a (h AND push_bit b (mask m)))"
  by (rule bit_word_eqI) (use assms in \<open>auto simp: bit_simps\<close>)

lemma slot_at_bound:
  assumes "10 \<le> len" and "len \<le> 26" and "m = len \<or> (10 < len \<and> m = len - 1)"
  shows "0 \<le> slot_at key m len \<and> slot_at key m len < 2 ^ len"
proof -
  define h where "h = (key + shr64 key len + shr64 key (len * 2) + shr64 key (len * 4)) *
    (key + shr64 key len + shr64 key (len * 2) + shr64 key (len * 4))"
  have "m mod 64 = m" using assms by auto
  then have eq: "get_map_slot key (get_key_mask m) len =
      drop_bit ((64 - len) div 2) (h AND push_bit ((64 - m) div 2) (mask m))"
    using assms by (simp add: get_map_slot_def get_key_mask_def h_def shl64_def shr64_def
        mask_eq_exp_minus_1 Let_def)
  have "(64 - m) div 2 + m \<le> (64 - len) div 2 + len" using assms by linarith
  note bound = drop_masked_bound[OF this, of h]
  have "unat (get_map_slot key (get_key_mask m) len) < 2 ^ len"
    unfolding eq by (subst bound) (simp only: unsigned_take_bit_eq take_bit_nat_less_exp)
  then have "int (unat (get_map_slot key (get_key_mask m) len)) < int (2 ^ len)"
    by (simp only: of_nat_less_iff)
  then show ?thesis by (simp add: slot_at_def)
qed

section \<open>What the lock order guarantees\<close>

lemma section_exclusive:
  assumes "reachable hm s c" and "c_pc c t = InSection key slot" and "c_pc c u = InSection key' slot'"
    and "get_lock_idx slot = get_lock_idx slot'"
  shows "t = u"
  by (rule lock_owner_unique[OF reachable_lock_inv[OF assms(1)], of "get_lock_idx slot"])
     (use assms in \<open>simp_all add: rb_locked_def\<close>)

lemma section_excludes_rebuild:
  assumes "reachable hm s c" and "c_pc c t = InSection key slot"
  shows "c_pc c u \<notin> {RbLocks N_LOCK, RbGrown, RbLen, RbMask, RbUnlock 0}"
  using no_rebuild_in_section[OF reachable_lock_inv[OF assms(1)] assms(2), of u]
  by (auto simp: rb_locked_def lessThan_atLeast0)

text \<open>A slot of a thread that passed the check is in bounds, and is the right one or the stale one.\<close>

lemma section_slot:
  assumes "reachable hm s c" and "shape_ok hm" and "c_pc c t = InSection key slot"
  shows "slot_from key (hm_key_len (c_hm c)) slot \<and> 0 \<le> slot \<and> slot < 2 ^ hm_key_len (c_hm c)"
proof -
  have inv: "mask_inv c" using reachable_mask_inv[OF assms(1,2)] .
  have "slot_from key (hm_key_len (c_hm c)) slot"
    using mask_inv_place[OF inv, of t] assms(3) by (simp add: place_ok_def)
  then show ?thesis using inv slot_at_bound
    by (auto simp: mask_inv_def Let_def slot_from_def)
qed

section \<open>The stale mask is reachable\<close>

text \<open>Thread 0 takes the locks of a full map one by one, and drops them after the rebuild.\<close>

definition held :: "nat \<Rightarrow> nat \<Rightarrow> nat \<Rightarrow> nat option" where
  "held lo hi i = (if lo \<le> i \<and> i < hi then Some 0 else None)"

lemma held_take: "(held 0 n)(n := Some 0) = held 0 (n + 1)"
  by (auto simp: held_def fun_eq_iff)

lemma held_drop: "n < hi \<Longrightarrow> (held n hi)(n := None) = held (n + 1) hi"
  by (auto simp: held_def fun_eq_iff)

lemma held_none: "held n n = (\<lambda>_. None)"
  by (auto simp: held_def fun_eq_iff)

lemma reach_locks:
  assumes "hash_map_full hm" and "1 \<le> n" and "n \<le> N_LOCK"
  shows "reachable hm s \<lparr>c_hm = hm, c_st = s, c_lock = held 0 n, c_pc = (\<lambda>_. Idle)(0 := RbLocks n)\<rparr>"
  using assms(2,3)
proof (induction n rule: nat_induct_at_least)
  case base
  have "thread_step (conc_init hm s)
      ((conc_init hm s)\<lparr>c_lock := (c_lock (conc_init hm s))(0 := Some 0),
        c_pc := (c_pc (conc_init hm s))(0 := RbLocks (0 + 1))\<rparr>)"
    by (rule thread_step.rb_lock) (simp_all add: conc_init_def N_LOCK_def)
  from reachable.step[OF reachable.init this] show ?case
    using held_take[of 0] by (simp add: conc_init_def held_none fun_upd_def)
next
  case (Suc n)
  let ?c = "\<lparr>c_hm = hm, c_st = s, c_lock = held 0 n, c_pc = (\<lambda>_. Idle)(0 := RbLocks n)\<rparr>"
  have "thread_step ?c (?c\<lparr>c_lock := (c_lock ?c)(n := Some 0), c_pc := (c_pc ?c)(0 := RbLocks (n + 1))\<rparr>)"
    by (rule thread_step.rb_lock) (use Suc assms(1) in \<open>simp_all add: held_def\<close>)
  from reachable.step[OF Suc.IH this]
  have "reachable hm s \<lparr>c_hm = hm, c_st = s, c_lock = held 0 (Suc n), c_pc = (\<lambda>_. Idle)(0 := RbLocks (Suc n))\<rparr>"
    using Suc.prems held_take[of n] by simp
  then show ?case .
qed

lemma reach_unlocks:
  assumes "reachable hm s \<lparr>c_hm = hm', c_st = s, c_lock = held 0 N_LOCK, c_pc = pcs(0 := RbUnlock 0)\<rparr>"
    and "n \<le> N_LOCK"
  shows "reachable hm s \<lparr>c_hm = hm', c_st = s, c_lock = held n N_LOCK, c_pc = pcs(0 := RbUnlock n)\<rparr>"
  using assms(2)
proof (induction n)
  case 0
  show ?case using assms(1) .
next
  case (Suc n)
  let ?c = "\<lparr>c_hm = hm', c_st = s, c_lock = held n N_LOCK, c_pc = pcs(0 := RbUnlock n)\<rparr>"
  have "thread_step ?c (?c\<lparr>c_lock := (c_lock ?c)(n := None), c_pc := (c_pc ?c)(0 := RbUnlock (n + 1))\<rparr>)"
    by (rule thread_step.rb_unlock) (use Suc in simp_all)
  from reachable.step[OF Suc.IH this]
  have "reachable hm s \<lparr>c_hm = hm', c_st = s, c_lock = held (Suc n) N_LOCK, c_pc = pcs(0 := RbUnlock (Suc n))\<rparr>"
    using Suc.prems held_drop[of n N_LOCK] by simp
  then show ?case .
qed

definition grown :: "hash_map \<Rightarrow> hash_map" where
  "grown hm = hm\<lparr>hm_size := i32 (hm_size hm * 2),
     hm_map := replicate (nat (i32 (hm_size hm * 2))) empty_entry, hm_key_len := hm_key_len hm + 1\<rparr>"

text \<open>Thread 1 reads the new length and the old mask between the two assignments.\<close>

lemma reach_stale_read:
  assumes "hash_map_full hm" and "hm_members hm \<noteq> []" and "hm_key_len hm < 26"
  shows "reachable hm s \<lparr>c_hm = grown hm, c_st = s, c_lock = held 0 N_LOCK,
    c_pc = (\<lambda>_. Idle)(0 := RbLen, 1 := GotSlot key (hm_key_len hm + 1)
      (uint (get_map_slot key (hm_key_mask hm) (hm_key_len hm + 1))))\<rparr>"
proof -
  let ?len = "hm_key_len hm + 1"
  let ?c = "\<lambda>pcs. \<lparr>c_hm = grown hm, c_st = s, c_lock = held 0 N_LOCK, c_pc = pcs\<rparr>"
  have "reachable hm s \<lparr>c_hm = hm, c_st = s, c_lock = held 0 N_LOCK, c_pc = (\<lambda>_. Idle)(0 := RbLocks N_LOCK)\<rparr>"
    by (rule reach_locks) (use assms in \<open>simp_all add: N_LOCK_def\<close>)
  from reachable.step[OF this thread_step.rb_grow[where t = 0]]
  have "reachable hm s \<lparr>c_hm = (grown hm)\<lparr>hm_key_len := hm_key_len hm\<rparr>, c_st = s, c_lock = held 0 N_LOCK,
      c_pc = (\<lambda>_. Idle)(0 := RbGrown)\<rparr>"
    using assms by (simp add: grown_def)
  from reachable.step[OF this thread_step.rb_len[where t = 0]]
  have "reachable hm s (?c ((\<lambda>_. Idle)(0 := RbLen)))" by (simp add: grown_def)
  from reachable.step[OF this thread_step.call[where t = 1 and key = key]]
  have "reachable hm s (?c ((\<lambda>_. Idle)(0 := RbLen, 1 := Start key)))" by simp
  from reachable.step[OF this thread_step.read_len[where t = 1 and key = key]]
  have "reachable hm s (?c ((\<lambda>_. Idle)(0 := RbLen, 1 := ReadLen key ?len)))" by (simp add: grown_def)
  from reachable.step[OF this thread_step.read_mask[where t = 1 and key = key and len = ?len]]
  show ?thesis by (simp add: grown_def)
qed

lemma reach_stale_section:
  assumes "hash_map_full hm" and "hm_members hm \<noteq> []" and "hm_key_len hm < 26"
    and link: "relink_members_mt s (hm_members hm)
      ((grown hm)\<lparr>hm_key_mask := get_key_mask (hm_key_len hm + 1)\<rparr>) = Inr hm'"
  shows "\<exists>c. reachable hm s c \<and> c_hm c = hm' \<and> c_pc c 0 = Idle \<and>
    c_pc c 1 = InSection key (uint (get_map_slot key (hm_key_mask hm) (hm_key_len hm + 1)))"
proof -
  let ?len = "hm_key_len hm + 1"
  let ?slot = "uint (get_map_slot key (hm_key_mask hm) ?len)"
  let ?pcs = "(\<lambda>_. Idle)(1 := GotSlot key ?len ?slot)"
  have pcs: "((\<lambda>_::nat. Idle)(0 := pc, 1 := GotSlot key ?len ?slot)) = ?pcs(0 := pc)" for pc :: tpc
    by (rule fun_upd_twist) simp
  have len: "hm_key_len hm' = ?len"
    using relink_members_mt_fields[OF link] by (auto simp: grown_def)
  have "reachable hm s \<lparr>c_hm = grown hm, c_st = s, c_lock = held 0 N_LOCK, c_pc = ?pcs(0 := RbLen)\<rparr>"
    using reach_stale_read[OF assms(1-3), of s key] by (simp only: pcs)
  from reachable.step[OF this thread_step.rb_mask[where t = 0]]
  have "reachable hm s \<lparr>c_hm = (grown hm)\<lparr>hm_key_mask := get_key_mask ?len\<rparr>, c_st = s,
      c_lock = held 0 N_LOCK, c_pc = ?pcs(0 := RbMask)\<rparr>" by (simp add: grown_def)
  from reachable.step[OF this thread_step.rb_link[where t = 0 and hm' = hm']]
  have "reachable hm s \<lparr>c_hm = hm', c_st = s, c_lock = held 0 N_LOCK, c_pc = ?pcs(0 := RbUnlock 0)\<rparr>"
    using link by (simp add: grown_def)
  from reach_unlocks[OF this order.refl]
  have "reachable hm s \<lparr>c_hm = hm', c_st = s, c_lock = \<lambda>_. None, c_pc = ?pcs(0 := RbUnlock N_LOCK)\<rparr>"
    by (simp add: held_none)
  from reachable.step[OF this thread_step.rb_done[where t = 0]]
  have "reachable hm s \<lparr>c_hm = hm', c_st = s, c_lock = \<lambda>_. None, c_pc = ?pcs(0 := Idle)\<rparr>" by simp
  from reachable.step[OF this thread_step.lock[where t = 1 and key = key and len = ?len and slot = ?slot]]
  have "reachable hm s \<lparr>c_hm = hm', c_st = s, c_lock = (\<lambda>_. None)(get_lock_idx ?slot := Some 1),
      c_pc = ?pcs(0 := Idle, 1 := HasLock key ?len ?slot)\<rparr>" by simp
  from reachable.step[OF this thread_step.same_len[where t = 1 and key = key and len = ?len and slot = ?slot]]
  have "reachable hm s \<lparr>c_hm = hm', c_st = s, c_lock = (\<lambda>_. None)(get_lock_idx ?slot := Some 1),
      c_pc = ?pcs(0 := Idle, 1 := InSection key ?slot)\<rparr>" using len by simp
  then show ?thesis by - (rule exI, erule conjI, simp)
qed

lemma full_map_relinks:
  assumes "hm_inv s hm" and "hm_key_len hm < 26"
  shows "\<exists>hm'. relink_members_mt s (hm_members hm)
      ((grown hm)\<lparr>hm_key_mask := get_key_mask (hm_key_len hm + 1)\<rparr>) = Inr hm' \<and>
    shape_ok hm' \<and> hm_key_len hm' = hm_key_len hm + 1"
proof -
  let ?g = "(grown hm)\<lparr>hm_key_mask := get_key_mask (hm_key_len hm + 1)\<rparr>"
  have sh: "shape_ok hm" using assms(1) by (simp add: hm_inv_def)
  have g: "shape_ok ?g" using sh assms(2) rebuild_sizes(1)[OF sh assms(2)]
    by (simp add: shape_ok_def grown_def)
  have "buckets_ok s [] ?g" by (simp add: buckets_ok_def grown_def empty_entry_def)
  from relink_members_ok[OF g this, of "hm_members hm"]
  obtain es where "relink_members s (hm_members hm) ?g = Inr (?g\<lparr>hm_map := es\<rparr>)"
      "length es = length (hm_map ?g)"
    using assms(1) by (auto simp: hm_inv_def)
  then show ?thesis using g by (auto simp: relink_members_mt_eq shape_ok_def grown_def)
qed

text \<open>A map with any number of members, one per key.\<close>

lemma filled_map:
  "n \<le> 1024 \<Longrightarrow> \<exists>(s :: hm_state) hm. hm_inv s hm \<and> hm_key_len hm = 10 \<and> hm_fill hm = int n \<and>
    free_member s = [] \<and> (\<forall>p \<in> set (hm_members hm). mm_key (mm_cell s p) = p \<and> unat p < n)"
proof (induction n)
  case 0
  let ?s = "\<lparr>malloc_seq = \<lambda>_. 0, malloc_below = \<lambda>_. 0, malloc_cnt = 0, released = [], free_member = [],
    mm_cell = \<lambda>_. \<lparr>mm_key = 0, mm_val = 0\<rparr>\<rparr> :: hm_state"
  show ?case using new_hash_map_ok[of ?s]
    by (intro exI[of _ "snd (new_hash_map ?s)"] exI[of _ "fst (new_hash_map ?s)"])
       (simp add: new_hash_map_def internal_malloc_def HT_INIT_KEY_LEN_def)
next
  case (Suc n)
  then obtain s :: hm_state and hm where m: "hm_inv s hm" "hm_key_len hm = 10" "hm_fill hm = int n"
    "free_member s = []" "\<forall>p \<in> set (hm_members hm). mm_key (mm_cell s p) = p \<and> unat p < n"
    by auto
  let ?p = "word_of_nat n :: ptr"
  let ?s = "s\<lparr>mm_cell := (mm_cell s)(?p := \<lparr>mm_key = ?p, mm_val = 0\<rparr>)\<rparr>"
  have n: "unat ?p = n" using Suc.prems by (simp add: unat_of_nat take_bit_nat_eq_self)
  have new: "?p \<notin> set (hm_members hm)" "hm_abs s hm ?p = None"
    using m(5) n by (auto simp: hm_abs_None)
  obtain es where es: "upd_entry (get_map_entry hm ?p) (push_entry ?p) hm = Inr (hm\<lparr>hm_map := es\<rparr>)"
    using upd_entry_ok get_map_entry_bound m(1) by (metis hm_inv_def)
  let ?hm = "hm\<lparr>hm_map := es, hm_members := ?p # hm_members hm, hm_fill := hm_fill hm + 1\<rparr>"
  have "hm_inv ?s ?hm"
    using hm_inv_insert[OF m(1) new(2,1), of "[]" ?s 0 "hm\<lparr>hm_map := es\<rparr>" ?hm] es m(4) by simp
  then show ?case using m n new(1) by (intro exI[of _ ?s] exI[of _ ?hm]) auto
qed

section \<open>The array is as long as the length says\<close>

lemma relink_members_mt_length:
  "relink_members_mt s ps hm = Inr hm' \<Longrightarrow> length (hm_map hm') = length (hm_map hm)"
proof (induction ps arbitrary: hm)
  case (Cons p ps)
  then obtain es where "relink_members_mt s ps (hm\<lparr>hm_map := es\<rparr>) = Inr hm'" "length es = length (hm_map hm)"
    by (auto simp: rbind_eq_Inr upd_entry_def wr_def Let_def split: if_splits)
  from Cons.IH[OF this(1)] this(2) show ?case by simp
qed simp

definition size_inv :: "conc \<Rightarrow> bool" where
  "size_inv c \<longleftrightarrow>
     (let len = (if \<exists>t. c_pc c t = RbGrown then hm_key_len (c_hm c) + 1 else hm_key_len (c_hm c))
      in hm_size (c_hm c) = 2 ^ len \<and> int (length (hm_map (c_hm c))) = 2 ^ len)"

lemma size_inv_pc:
  assumes "size_inv c" and "c_pc c t \<noteq> RbGrown" and "pc \<noteq> RbGrown" and "c_pc c' = (c_pc c)(t := pc)"
    and "hm_key_len (c_hm c') = hm_key_len (c_hm c)" and "hm_size (c_hm c') = hm_size (c_hm c)"
    and "length (hm_map (c_hm c')) = length (hm_map (c_hm c))"
  shows "size_inv c'"
proof -
  have "(\<exists>u. c_pc c' u = RbGrown) \<longleftrightarrow> (\<exists>u. c_pc c u = RbGrown)"
    using assms(2-4) by (metis fun_upd_apply)
  then show ?thesis using assms(1,5-7) by (simp add: size_inv_def Let_def)
qed

lemma rb_grow_size_inv:
  assumes "lock_inv c" and "size_inv c" and "c_pc c t = RbLocks N_LOCK" and "hm_key_len (c_hm c) < 26"
  shows "size_inv (c\<lparr>c_hm := (c_hm c)\<lparr>hm_size := i32 (hm_size (c_hm c) * 2),
      hm_map := replicate (nat (i32 (hm_size (c_hm c) * 2))) empty_entry\<rparr>, c_pc := (c_pc c)(t := RbGrown)\<rparr>)"
proof -
  have "\<not> (\<exists>u. c_pc c u = RbGrown)"
  proof
    assume "\<exists>u. c_pc c u = RbGrown"
    then obtain u where u: "c_pc c u = RbGrown" ..
    have "u = t" by (rule lock_owner_unique[OF assms(1), of 0]) (use u assms(3) in \<open>auto simp: rb_locked_def N_LOCK_def\<close>)
    with u assms(3) show False by simp
  qed
  then have sz: "hm_size (c_hm c) = 2 ^ hm_key_len (c_hm c)" using assms(2) by (simp add: size_inv_def Let_def)
  have "(2 :: int) ^ hm_key_len (c_hm c) \<le> 2 ^ 26" using assms(4) by (intro power_increasing) auto
  then have "i32 (hm_size (c_hm c) * 2) = 2 * 2 ^ hm_key_len (c_hm c)"
    unfolding sz by (subst i32_id) (auto intro: order_trans[of _ 0])
  then show ?thesis by (auto simp: size_inv_def Let_def)
qed

lemma rb_len_size_inv:
  assumes "lock_inv c" and "size_inv c" and "c_pc c t = RbGrown"
  shows "size_inv (c\<lparr>c_hm := (c_hm c)\<lparr>hm_key_len := hm_key_len (c_hm c) + 1\<rparr>, c_pc := (c_pc c)(t := RbLen)\<rparr>)"
proof -
  have "((c_pc c)(t := RbLen)) u \<noteq> RbGrown" for u
    using rebuilder_unique[OF assms(1), of t u] assms(3) by auto
  moreover have "\<exists>u. c_pc c u = RbGrown" using assms(3) by blast
  ultimately show ?thesis using assms(2) by (simp add: size_inv_def Let_def)
qed

lemma thread_step_size_inv:
  assumes "thread_step c c'" and "lock_inv c" and "size_inv c"
  shows "size_inv c'"
  using assms
proof (induction rule: thread_step.induct)
  case (rb_grow c t)
  then show ?case by (intro rb_grow_size_inv)
next
  case (rb_len c t)
  then show ?case by (intro rb_len_size_inv)
next
  case (rb_link c t hm')
  note f = relink_members_mt_fields[OF rb_link(2)] relink_members_mt_length[OF rb_link(2)]
  show ?case by (rule size_inv_pc[of c t "RbUnlock 0"]) (use rb_link f in auto)
next
  case (rb_lock c t n)
  show ?case by (rule size_inv_pc[of c t "RbLocks (n + 1)"]) (use rb_lock in auto)
qed (rule size_inv_pc; simp; fail)+

lemma reachable_size_inv: "reachable hm s c \<Longrightarrow> shape_ok hm \<Longrightarrow> size_inv c"
proof (induction rule: reachable.induct)
  case init
  then show ?case by (simp add: size_inv_def conc_init_def shape_ok_def)
next
  case (step c c')
  then show ?case using thread_step_size_inv reachable_lock_inv by blast
qed

lemma section_array:
  assumes "reachable hm s c" and "shape_ok hm" and "c_pc c t = InSection key slot"
  shows "int (length (hm_map (c_hm c))) = 2 ^ hm_key_len (c_hm c)"
proof -
  have "\<not> (\<exists>u. c_pc c u = RbGrown)" using section_excludes_rebuild[OF assms(1,3)] by blast
  then show ?thesis using reachable_size_inv[OF assms(1,2)] by (simp add: size_inv_def Let_def)
qed

text \<open>With nobody else in the map a thread gets into its section.\<close>

lemma reach_section:
  "\<exists>c. reachable hm s c \<and> c_pc c 0 = InSection key (get_map_entry hm key)"
proof -
  let ?len = "hm_key_len hm" and ?slot = "get_map_entry hm key"
  let ?c = "\<lambda>l pc. \<lparr>c_hm = hm, c_st = s, c_lock = l, c_pc = (\<lambda>_. Idle)(0 := pc)\<rparr>"
  let ?l = "(\<lambda>_. None)(get_lock_idx ?slot := Some 0)"
  from reachable.step[OF reachable.init thread_step.call[where t = 0 and key = key]]
  have "reachable hm s (?c (\<lambda>_. None) (Start key))" by (simp add: conc_init_def)
  from reachable.step[OF this thread_step.read_len[where t = 0 and key = key]]
  have "reachable hm s (?c (\<lambda>_. None) (ReadLen key ?len))" by simp
  from reachable.step[OF this thread_step.read_mask[where t = 0 and key = key and len = ?len]]
  have "reachable hm s (?c (\<lambda>_. None) (GotSlot key ?len ?slot))" by (simp add: get_map_entry_def)
  from reachable.step[OF this thread_step.lock[where t = 0 and key = key and len = ?len and slot = ?slot]]
  have "reachable hm s (?c ?l (HasLock key ?len ?slot))" by simp
  from reachable.step[OF this thread_step.same_len[where t = 0 and key = key and len = ?len and slot = ?slot]]
  have "reachable hm s (?c ?l (InSection key ?slot))" by simp
  then show ?thesis by - (rule exI, erule conjI, simp)
qed

section \<open>Properties\<close>

text \<open>C22: Mutual exclusion in the parallel hash map. In every reachable interleaving, a thread that
  works on the chain of a slot is the only one working on a chain guarded by the same lock (in
  particular on that slot), and no rebuild is between taking its last lock and releasing its first:
  the table does not change under the thread.\<close>

theorem chain_mutual_exclusion:
  assumes "reachable hm s c" and "c_pc c t = InSection key slot"
  shows "(\<forall>u key' slot'. c_pc c u = InSection key' slot' \<and> get_lock_idx slot' = get_lock_idx slot \<longrightarrow> u = t) \<and>
    (\<forall>u. c_pc c u \<notin> {RbLocks N_LOCK, RbGrown, RbLen, RbMask, RbUnlock 0})"
  using section_exclusive[OF assms(1)] section_excludes_rebuild[OF assms] assms(2) by metis

theorem chain_mutual_exclusion_witness:
  "\<exists>c. reachable fresh_hm fresh_hm_st c \<and> c_pc c 0 = InSection 7 (get_map_entry fresh_hm 7) \<and>
     (\<forall>u. c_pc c u \<noteq> RbGrown)"
proof -
  obtain c where c: "reachable fresh_hm fresh_hm_st c" "c_pc c 0 = InSection 7 (get_map_entry fresh_hm 7)"
    using reach_section by blast
  from chain_mutual_exclusion[OF c] c show ?thesis by auto
qed

text \<open>No out-of-bounds access. Whatever rebuilds run concurrently, a thread that passed the
  \<open>key_len\<close> check works on a slot inside the bucket array; the slot is the one the current length
  and mask give or the one computed from the current length and the mask of the length before.\<close>

theorem concurrent_slot_in_bounds:
  assumes "reachable hm s c" and "shape_ok hm" and "c_pc c t = InSection key slot"
  shows "0 \<le> slot \<and> nat slot < length (hm_map (c_hm c)) \<and>
    (slot = slot_at key (hm_key_len (c_hm c)) (hm_key_len (c_hm c)) \<or>
     slot = slot_at key (hm_key_len (c_hm c) - 1) (hm_key_len (c_hm c)))"
  using section_slot[OF assms] section_array[OF assms] by (auto simp: slot_from_def nat_less_iff)

theorem concurrent_slot_in_bounds_witness:
  "\<exists>c slot. reachable fresh_hm fresh_hm_st c \<and> c_pc c 0 = InSection 7 slot \<and> nat slot < length (hm_map (c_hm c))"
proof -
  obtain c where c: "reachable fresh_hm fresh_hm_st c" "c_pc c 0 = InSection 7 (get_map_entry fresh_hm 7)"
    using reach_section by blast
  have "shape_ok fresh_hm" using fresh_hm_ok(1) by (simp add: hm_inv_def)
  from concurrent_slot_in_bounds[OF c(1) this c(2)] c show ?thesis by blast
qed

text \<open>The double check misses one interleaving. On a full table of the initial size, a thread
  that computes its slot between the two assignments of a rebuild (\<open>key_len\<close>, then \<open>key_mask\<close>) passes
  the check after the rebuild has ended and holds the lock of a wrong chain: key 8192 belongs to slot
  1 of the grown table, the thread works on slot 0.\<close>

theorem stale_slot_reachable:
  assumes "hm_inv s hm" and "hash_map_full hm" and "hm_key_len hm = 10"
  shows "\<exists>c. reachable hm s c \<and> c_pc c 0 = Idle \<and> c_pc c 1 = InSection 8192 0 \<and>
    get_map_entry (c_hm c) 8192 = 1"
proof -
  have sh: "shape_ok hm" using assms(1) by (simp add: hm_inv_def)
  have "hm_members hm \<noteq> []" using assms(1,2) sh by (auto simp: hm_inv_def hash_map_full_def shape_ok_def)
  moreover obtain hm' where hm': "relink_members_mt s (hm_members hm)
      ((grown hm)\<lparr>hm_key_mask := get_key_mask (hm_key_len hm + 1)\<rparr>) = Inr hm'" "shape_ok hm'"
      "hm_key_len hm' = 11"
    using full_map_relinks[OF assms(1)] assms(3) by auto
  ultimately obtain c where c: "reachable hm s c" "c_hm c = hm'" "c_pc c 0 = Idle"
    "c_pc c 1 = InSection 8192 (uint (get_map_slot 8192 (hm_key_mask hm) (hm_key_len hm + 1)))"
    using reach_stale_section[OF assms(2) _ _ hm'(1), of 8192] assms(3) by auto
  have "get_map_slot 8192 (get_key_mask 10) 11 = 0" "get_map_slot 8192 (get_key_mask 11) 11 = 1"
    by code_simp+
  then have "c_pc c 1 = InSection 8192 0" "get_map_entry (c_hm c) 8192 = 1"
    using c(2,4) sh hm'(2,3) assms(3) by (simp_all add: shape_ok_def get_map_entry_def)
  with c(1,3) show ?thesis by blast
qed

theorem stale_slot_reachable_witness:
  "\<exists>(s :: hm_state) hm c. reachable hm s c \<and> c_pc c 1 = InSection 8192 0 \<and> get_map_entry (c_hm c) 8192 = 1"
proof -
  obtain s :: hm_state and hm where m: "hm_inv s hm" "hm_key_len hm = 10" "hm_fill hm = 513"
    using filled_map[of 513] by auto
  have "hash_map_full hm" using m by (simp add: hash_map_full_def hm_inv_def shape_ok_def)
  from stale_slot_reachable[OF m(1) this m(2)] show ?thesis by blast
qed

end
