(* ===== verification/Utl_List.thy ===== *)
theory Utl_List
  imports NW_Prelude
begin

text \<open>
  The intrusive circular lists of \<open>utl_list.h\<close> on an explicit store of link fields: a
  \<open>list_head\<close> is an address, and the store gives its \<open>next\<close> and \<open>prev\<close>. The abstraction
  \<open>dll h head xs\<close> says that the list headed by \<open>head\<close> runs through the nodes \<open>xs\<close>; each
  operation is shown to be the list operation the components use in its place, and to leave
  every list that shares no node with it untouched.
\<close>

record links =
  nxt :: "ptr \<Rightarrow> ptr"
  prv :: "ptr \<Rightarrow> ptr"

definition list_init :: "ptr \<Rightarrow> links \<Rightarrow> links" where
  "list_init head h =
     (let h = h\<lparr>nxt := (nxt h)(head := head)\<rparr>
      in h\<lparr>prv := (prv h)(head := head)\<rparr>)"

definition list_need_init :: "ptr \<Rightarrow> links \<Rightarrow> bool" where
  "list_need_init head h \<longleftrightarrow> nxt h head = NULL \<or> prv h head = NULL"

definition list_empty :: "ptr \<Rightarrow> links \<Rightarrow> bool" where
  "list_empty head h \<longleftrightarrow> nxt h head = head"

definition list_add :: "ptr \<Rightarrow> ptr \<Rightarrow> links \<Rightarrow> links" where
  "list_add entry head h =
     (let h = h\<lparr>nxt := (nxt h)(entry := nxt h head)\<rparr>;
          h = h\<lparr>prv := (prv h)(entry := head)\<rparr>;
          h = h\<lparr>nxt := (nxt h)(prv h entry := entry)\<rparr>
      in h\<lparr>prv := (prv h)(nxt h entry := entry)\<rparr>)"

definition list_del :: "ptr \<Rightarrow> links \<Rightarrow> links" where
  "list_del entry h =
     (let h = h\<lparr>prv := (prv h)(nxt h entry := prv h entry)\<rparr>;
          h = h\<lparr>nxt := (nxt h)(prv h entry := nxt h entry)\<rparr>;
          h = h\<lparr>prv := (prv h)(entry := entry)\<rparr>
      in h\<lparr>nxt := (nxt h)(entry := entry)\<rparr>)"

text \<open>
  \<open>list_for_each_entry\<close>: the nodes the loop visits, with fuel; \<open>None\<close> when the fuel runs out
  before the loop is back at the head. One unit more than the length of the list is enough
  (\<open>list_for_each_dll\<close>).
\<close>

fun for_each_from :: "nat \<Rightarrow> ptr \<Rightarrow> ptr \<Rightarrow> links \<Rightarrow> ptr list option" where
  "for_each_from 0 pos head h = None"
| "for_each_from (Suc fuel) pos head h =
     (if pos = head then Some []
      else map_option (\<lambda>ps. pos # ps) (for_each_from fuel (nxt h pos) head h))"

definition list_for_each :: "nat \<Rightarrow> ptr \<Rightarrow> links \<Rightarrow> ptr list option" where
  "list_for_each fuel head h = for_each_from fuel (nxt h head) head h"

section \<open>Lists on the store\<close>

fun seg :: "links \<Rightarrow> ptr \<Rightarrow> ptr list \<Rightarrow> ptr \<Rightarrow> bool" where
  "seg h a [] b \<longleftrightarrow> nxt h a = b \<and> prv h b = a"
| "seg h a (x # xs) b \<longleftrightarrow> nxt h a = x \<and> prv h x = a \<and> seg h x xs b"

definition dll :: "links \<Rightarrow> ptr \<Rightarrow> ptr list \<Rightarrow> bool" where
  "dll h head xs \<longleftrightarrow> seg h head xs head \<and> distinct (head # xs)"

lemma seg_append: "seg h a (xs @ y # ys) b \<longleftrightarrow> seg h a xs y \<and> seg h y ys b"
  by (induction xs arbitrary: a) auto

text \<open>A segment depends on the \<open>next\<close> of all but its last node and the \<open>prev\<close> of all but its first.\<close>

lemma seg_cong:
  assumes "\<And>z. z \<in> insert a (set xs) \<Longrightarrow> nxt h' z = nxt h z"
    and "\<And>z. z \<in> insert b (set xs) \<Longrightarrow> prv h' z = prv h z"
  shows "seg h' a xs b \<longleftrightarrow> seg h a xs b"
  using assms by (induction xs arbitrary: a) auto

lemma seg_nxt: "seg h a xs b \<Longrightarrow> nxt h a = hd (xs @ [b])"
  by (cases xs) auto

lemma seg_prv: "seg h a xs b \<Longrightarrow> prv h b = last (a # xs)"
  by (induction xs arbitrary: a) auto

lemma dll_empty_iff: "dll h head xs \<Longrightarrow> list_empty head h \<longleftrightarrow> xs = []"
  by (cases xs) (auto simp: dll_def list_empty_def)

lemma list_init_dll: "dll (list_init head h) head []"
  by (simp add: dll_def list_init_def Let_def)

text \<open>The addresses an operation writes.\<close>

lemma list_add_nxt: "entry \<noteq> a \<Longrightarrow> nxt (list_add entry a h) = (nxt h)(entry := nxt h a, a := entry)"
  and list_add_prv: "entry \<noteq> a \<Longrightarrow>
    prv (list_add entry a h) = (prv h)(entry := a, nxt h a := entry)"
  by (auto simp: list_add_def Let_def)

lemma list_del_nxt: "prv h e \<noteq> e \<Longrightarrow> nxt h e \<noteq> e \<Longrightarrow>
    nxt (list_del e h) = (nxt h)(prv h e := nxt h e, e := e)"
  and list_del_prv: "prv h e \<noteq> e \<Longrightarrow> nxt h e \<noteq> e \<Longrightarrow>
    prv (list_del e h) = (prv h)(nxt h e := prv h e, e := e)"
  by (auto simp: list_del_def Let_def)

lemmas links_upd = list_add_nxt list_add_prv list_del_nxt list_del_prv

text \<open>Inserting after the first node of a segment, and unlinking the node after it.\<close>

lemma seg_list_add_first:
  assumes "seg h a xs b" and "entry \<notin> insert a (insert b (set xs))"
    and "distinct xs" and "a \<notin> set xs" and "b \<notin> set xs"
  shows "seg (list_add entry a h) a (entry # xs) b"
proof (cases xs)
  case Nil
  then show ?thesis using assms by (auto simp: links_upd)
next
  case (Cons x ys)
  have "seg (list_add entry a h) x ys b \<longleftrightarrow> seg h x ys b"
    by (rule seg_cong) (use assms Cons in \<open>auto simp: links_upd\<close>)
  then show ?thesis using assms Cons by (auto simp: links_upd)
qed

lemma seg_list_del_first:
  assumes "seg h a (e # xs) b" and "e \<notin> insert a (insert b (set xs))"
    and "distinct xs" and "a \<notin> set xs" and "b \<notin> set xs"
  shows "seg (list_del e h) a xs b"
proof (cases xs)
  case Nil
  then show ?thesis using assms by (auto simp: links_upd)
next
  case (Cons x ys)
  have "seg (list_del e h) x ys b \<longleftrightarrow> seg h x ys b"
    by (rule seg_cong) (use assms Cons in \<open>auto simp: links_upd\<close>)
  then show ?thesis using assms Cons by (auto simp: links_upd)
qed

text \<open>
  \<open>list_add\<close> after any node of the list (after the head: at the front) inserts the entry
  there; \<open>list_del\<close> removes the entry wherever it is and leaves it linked to itself.
\<close>

lemma list_add_dll:
  assumes d: "dll h head (xs @ ys)" and a: "a = last (head # xs)"
    and e: "entry \<notin> set (head # xs @ ys)"
  shows "dll (list_add entry a h) head (xs @ entry # ys)"
proof (cases xs rule: rev_cases)
  case Nil
  then show ?thesis
    using assms seg_list_add_first[of h head ys head entry] by (auto simp: dll_def)
next
  case (snoc us u)
  then have s: "seg h head us u" "seg h u ys head"
    using d seg_append[of h head us u ys] by (simp_all add: dll_def)
  have "seg (list_add entry u h) u (entry # ys) head"
    by (rule seg_list_add_first[OF s(2)]) (use d e snoc in \<open>auto simp: dll_def\<close>)
  moreover have "seg (list_add entry u h) head us u"
  proof (subst seg_cong[of head us "list_add entry u h" h u])
    show "seg h head us u" by (rule s(1))
  qed (use d e snoc seg_nxt[OF s(2)] in \<open>(cases ys; auto simp: dll_def links_upd)+\<close>)
  ultimately show ?thesis
    using d e a snoc seg_append[of "list_add entry u h" head us u "entry # ys"] by (auto simp: dll_def)
qed

lemma list_del_dll:
  assumes d: "dll h head (xs @ e # ys)"
  shows "dll (list_del e h) head (xs @ ys)" and "dll (list_del e h) e []"
proof -
  have n: "nxt h e = hd (ys @ [head])" "prv h e = last (head # xs)"
    using d seg_append[of h head xs e ys] seg_nxt[of h e ys head] seg_prv[of h head xs e]
    by (auto simp: dll_def)
  then have ne: "nxt h e \<noteq> e" "prv h e \<noteq> e"
    using d last_in_set[of "head # xs"] by (cases ys; auto simp: dll_def split: if_splits)+
  show "dll (list_del e h) e []"
    using ne by (simp add: dll_def links_upd)
  show "dll (list_del e h) head (xs @ ys)"
  proof (cases xs rule: rev_cases)
    case Nil
    then show ?thesis
      using d seg_list_del_first[of h head e ys head] by (auto simp: dll_def)
  next
    case (snoc us u)
    then have s: "seg h head us u" "seg h u (e # ys) head"
      using d seg_append[of h head us u "e # ys"] by (simp_all add: dll_def)
    have "seg (list_del e h) u ys head"
      by (rule seg_list_del_first[OF s(2)]) (use d snoc in \<open>auto simp: dll_def\<close>)
    moreover have "seg (list_del e h) head us u"
    proof (subst seg_cong[of head us "list_del e h" h u])
      show "seg h head us u" by (rule s(1))
    qed (use d snoc n ne in \<open>(cases ys; auto simp: dll_def links_upd)+\<close>)
    ultimately show ?thesis
      using d snoc seg_append[of "list_del e h" head us u ys] by (auto simp: dll_def)
  qed
qed

text \<open>Lists that share no node with the one operated on keep their nodes.\<close>

lemma dll_frame:
  assumes "dll h k zs" and "\<And>z. z \<in> set (k # zs) \<Longrightarrow> nxt h' z = nxt h z \<and> prv h' z = prv h z"
  shows "dll h' k zs"
  using assms seg_cong[of k zs h' h k] by (auto simp: dll_def)

lemma list_add_frame:
  assumes d: "dll h head (xs @ ys)" and a: "a = last (head # xs)" and k: "dll h k zs"
    and disj: "set (k # zs) \<inter> set (head # xs @ ys) = {}" and e: "entry \<notin> set (k # zs)" "entry \<noteq> a"
  shows "dll (list_add entry a h) k zs"
proof (rule dll_frame[OF k])
  have "seg h a ys head"
    using d a by (cases xs rule: rev_cases) (auto simp: dll_def seg_append)
  then have "nxt h a \<in> set (head # ys)" using seg_nxt[of h a ys head] by (cases ys) auto
  moreover have "a \<in> set (head # xs)" using a last_in_set[of "head # xs"] by simp
  ultimately show "nxt (list_add entry a h) z = nxt h z \<and> prv (list_add entry a h) z = prv h z"
    if "z \<in> set (k # zs)" for z
    using that disj e by (auto simp: links_upd)
qed

lemma list_del_frame:
  assumes d: "dll h head (xs @ e # ys)" and k: "dll h k zs"
    and disj: "set (k # zs) \<inter> set (head # xs @ e # ys) = {}"
  shows "dll (list_del e h) k zs"
proof (rule dll_frame[OF k])
  have "seg h head xs e" "seg h e ys head"
    using d by (simp_all add: dll_def seg_append)
  then have mem: "nxt h e \<in> set (head # ys)" "prv h e \<in> set (head # xs)"
    using seg_nxt[of h e ys head] seg_prv[of h head xs e] last_in_set[of "head # xs"] by (cases ys; auto)+
  then have ne: "nxt h e \<noteq> e" "prv h e \<noteq> e" using d by (auto simp: dll_def)
  fix z assume z: "z \<in> set (k # zs)"
  have "z \<notin> set (head # xs @ e # ys)" using z disj by blast
  moreover have "{nxt h e, prv h e, e} \<subseteq> set (head # xs @ e # ys)" using mem by auto
  ultimately have "z \<noteq> nxt h e \<and> z \<noteq> prv h e \<and> z \<noteq> e" by blast
  then show "nxt (list_del e h) z = nxt h z \<and> prv (list_del e h) z = prv h z"
    by (simp add: list_del_nxt[OF ne(2,1)] list_del_prv[OF ne(2,1)])
qed

text \<open>The loop visits the nodes of the list in order and ends.\<close>

lemma for_each_seg:
  "seg h a xs head \<Longrightarrow> head \<notin> set xs \<Longrightarrow> length xs < fuel \<Longrightarrow>
   for_each_from fuel (nxt h a) head h = Some xs"
proof (induction xs arbitrary: a fuel)
  case Nil
  then show ?case by (cases fuel) auto
next
  case (Cons x xs)
  then show ?case by (cases fuel) auto
qed

lemma list_for_each_dll:
  "dll h head xs \<Longrightarrow> length xs < fuel \<Longrightarrow> list_for_each fuel head h = Some xs"
  by (simp add: dll_def list_for_each_def for_each_seg)

section \<open>Property\<close>

text \<open>Linking and unlinking. \<open>list_add\<close> behind the last node of \<open>xs\<close> (behind the head when
  \<open>xs\<close> is empty) makes the circular list read \<open>xs, entry, ys\<close>; the iteration macro then visits
  exactly these nodes and stops; \<open>list_del\<close> of that entry gives back the list as it was and leaves
  the entry self-linked; and a list that shares no node with this one is untouched by both.\<close>

theorem list_add_del_dll:
  assumes "dll h head (xs @ ys)" and "a = last (head # xs)" and "entry \<notin> set (head # xs @ ys)"
    and "dll h k zs" and "set (k # zs) \<inter> set (head # entry # xs @ ys) = {}"
    and "Suc (length (xs @ ys)) < fuel"
  shows "list_for_each fuel head (list_add entry a h) = Some (xs @ entry # ys) \<and>
    dll (list_add entry a h) head (xs @ entry # ys) \<and>
    dll (list_del entry (list_add entry a h)) head (xs @ ys) \<and>
    list_empty entry (list_del entry (list_add entry a h)) \<and>
    dll (list_add entry a h) k zs \<and> dll (list_del entry (list_add entry a h)) k zs"
proof (intro conjI)
  let ?h = "list_add entry a h"
  show add: "dll ?h head (xs @ entry # ys)" by (rule list_add_dll[OF assms(1-3)])
  show "list_for_each fuel head ?h = Some (xs @ entry # ys)"
    by (rule list_for_each_dll[OF add]) (use assms(6) in simp)
  show "dll (list_del entry ?h) head (xs @ ys)" by (rule list_del_dll(1)[OF add])
  show "list_empty entry (list_del entry ?h)"
    using list_del_dll(2)[OF add] by (simp add: dll_empty_iff)
  have "entry \<noteq> a" using assms(2,3) last_in_set[of "head # xs"] by auto
  then show k: "dll ?h k zs" by (intro list_add_frame[OF assms(1,2,4)]) (use assms(5) in auto)
  show "dll (list_del entry ?h) k zs" by (rule list_del_frame[OF add k]) (use assms(5) in auto)
qed

theorem list_add_del_dll_witness:
  "list_for_each 3 1 (list_add 2 1 (list_init 1 (list_init 9 \<lparr>nxt = \<lambda>_. 0, prv = \<lambda>_. 0\<rparr>))) = Some [2]"
proof -
  let ?h = "list_init 1 (list_init 9 \<lparr>nxt = \<lambda>_. 0, prv = \<lambda>_. 0\<rparr>)"
  have "dll ?h 1 ([] @ [])" "dll ?h 9 []" by (simp_all add: dll_def list_init_def)
  then show ?thesis using list_add_del_dll[of ?h 1 "[]" "[]" 1 2 9 "[]" 3] by simp
qed

end
