(* ===== verification/Utl_Bitmap.thy ===== *)
theory Utl_Bitmap
  imports NW_Prelude
begin

text \<open>
  The bitmap of \<open>utl_bitmap.c\<close> over the bit-scan macros of \<open>utl_builtin.h\<close>. The array of
  \<open>unsigned long\<close> blocks is a list of 64-bit words that faults outside its bounds; the bitmap
  stands for the set of the indices whose bit is set (\<open>bits\<close>), and every operation is shown to
  be the set operation its name says, with no access outside the array.
\<close>

section \<open>Bit scans\<close>

text \<open>
  \<open>ffsl\<close> is one plus the index of the least significant set bit, 0 for 0. \<open>clzl\<close> counts
  the leading zero bits; the compiler leaves it undefined at 0, where the model returns 64.
  \<open>bsfl\<close> is the macro over it.
\<close>

definition ffsl :: "uint64 \<Rightarrow> int" where
  "ffsl w = (case List.find (bit w) [0..<64] of None \<Rightarrow> 0 | Some i \<Rightarrow> int i + 1)"

definition clzl :: "uint64 \<Rightarrow> int" where
  "clzl w = (case List.find (\<lambda>i. bit w (63 - i)) [0..<64] of None \<Rightarrow> 64 | Some i \<Rightarrow> int i)"

definition bsfl :: "uint64 \<Rightarrow> int" where
  "bsfl w = 64 - clzl w - 1"

section \<open>The bitmap\<close>

definition MAP_BLK_SZ :: int where
  "MAP_BLK_SZ = 64"

record bitmap =
  bm_map :: "uint64 list"
  bm_size :: int
  bm_nr_blk :: int

definition out_of_range :: "bitmap \<Rightarrow> int \<Rightarrow> bool" where
  "out_of_range m n \<longleftrightarrow> n < 0 \<or> n \<ge> bm_size m"

definition new_bitmap :: "int \<Rightarrow> int \<Rightarrow> bitmap option res" where
  "new_bitmap sz init_val =
     (if sz \<le> 0 then Inr None
      else
        let nr_blk = i32 ((sz + (MAP_BLK_SZ - 1)) div MAP_BLK_SZ);
            nr_bytes = i32 (nr_blk * 8)
        in if init_val = 0
           then Inr (Some \<lparr>bm_map = replicate (nat nr_blk) 0, bm_size = sz, bm_nr_blk = nr_blk\<rparr>)
           else
             let map = replicate (nat nr_blk) (- 1)
             in rbind (rd map (nr_blk - 1)) (\<lambda>last_blk.
                rbind (wr map (nr_blk - 1)
                        (shr64 last_blk (nat (i32 (i32 (nr_bytes * 8) - sz))))) (\<lambda>map'.
                Inr (Some \<lparr>bm_map = map', bm_size = sz, bm_nr_blk = nr_blk\<rparr>))))"

definition bit_test :: "bitmap \<Rightarrow> int \<Rightarrow> bool res" where
  "bit_test m n =
     (if out_of_range m n then Inr False
      else
        let blk_idx = n div MAP_BLK_SZ; offset = n - blk_idx * MAP_BLK_SZ
        in rbind (rd (bm_map m) blk_idx) (\<lambda>blk. Inr (blk AND shl64 1 (nat offset) \<noteq> 0)))"

definition set_bit_bm :: "bitmap \<Rightarrow> int \<Rightarrow> bitmap res" where
  "set_bit_bm m n =
     (if out_of_range m n then Inr m
      else
        let blk_idx = n div MAP_BLK_SZ; offset = n - blk_idx * MAP_BLK_SZ
        in rbind (rd (bm_map m) blk_idx) (\<lambda>blk.
           rbind (wr (bm_map m) blk_idx (blk OR shl64 1 (nat offset))) (\<lambda>map.
           Inr (m\<lparr>bm_map := map\<rparr>))))"

definition clr_bit :: "bitmap \<Rightarrow> int \<Rightarrow> bitmap res" where
  "clr_bit m n =
     (if out_of_range m n then Inr m
      else
        let blk_idx = n div MAP_BLK_SZ; offset = n - blk_idx * MAP_BLK_SZ
        in rbind (rd (bm_map m) blk_idx) (\<lambda>blk.
           rbind (wr (bm_map m) blk_idx (blk AND NOT (shl64 1 (nat offset)))) (\<lambda>map.
           Inr (m\<lparr>bm_map := map\<rparr>))))"

text \<open>
  The \<open>do\<close>-\<open>while\<close> loops. They stop because \<open>blk_idx\<close> moves one block at a time and a read
  outside the array is a fault.
\<close>

function upward_scan :: "bitmap \<Rightarrow> int \<Rightarrow> int \<Rightarrow> int \<Rightarrow> int res" where
  "upward_scan m blk_idx offset p =
     rbind (rd (bm_map m) blk_idx) (\<lambda>w.
       let blk = shr64 w (nat offset)
       in if blk = 0
          then let p' = i32 (p + (MAP_BLK_SZ - offset))
               in if p' < bm_size m then upward_scan m (blk_idx + 1) 0 p' else Inr p'
          else Inr (p + (ffsl blk - 1)))"
  by pat_completeness auto
termination
  by (relation "measure (\<lambda>(m, b, _, _). nat (int (length (bm_map m)) - b))")
     (auto simp: rd_def split: if_splits)

definition upward_bit_test :: "bitmap \<Rightarrow> int \<Rightarrow> int res" where
  "upward_bit_test m n =
     (if out_of_range m n then Inr (- 1)
      else
        let blk_idx = n div MAP_BLK_SZ; offset = n - blk_idx * MAP_BLK_SZ
        in rbind (upward_scan m blk_idx offset n) (\<lambda>p.
           Inr (if out_of_range m p then - 1 else p)))"

function downward_scan :: "bitmap \<Rightarrow> int \<Rightarrow> int \<Rightarrow> int \<Rightarrow> int res" where
  "downward_scan m blk_idx offset p =
     rbind (rd (bm_map m) blk_idx) (\<lambda>w.
       let blk = (if offset = MAP_BLK_SZ - 1 then w
                  else w AND (shl64 1 (nat (offset + 1)) - 1))
       in if blk = 0
          then let p' = p - MAP_BLK_SZ
               in if p' \<ge> 0 then downward_scan m (blk_idx - 1) (MAP_BLK_SZ - 1) p' else Inr p'
          else Inr (p - (MAP_BLK_SZ - 1 - bsfl blk)))"
  by pat_completeness auto
termination
  by (relation "measure (\<lambda>(m, b, _, _). nat (b + 1))") (auto simp: rd_def split: if_splits)

definition downward_bit_test :: "bitmap \<Rightarrow> int \<Rightarrow> int res" where
  "downward_bit_test m n =
     (if out_of_range m n then Inr (- 1)
      else
        let blk_idx = n div MAP_BLK_SZ; offset = n - blk_idx * MAP_BLK_SZ;
            p = i32 (((n + MAP_BLK_SZ) AND NOT (MAP_BLK_SZ - 1)) - 1)
        in rbind (downward_scan m blk_idx offset p) (\<lambda>p.
           Inr (if out_of_range m p then - 1 else p)))"

declare upward_scan.simps [simp del] downward_scan.simps [simp del]

section \<open>What a bitmap stands for\<close>

definition wf_bitmap :: "bitmap \<Rightarrow> bool" where
  "wf_bitmap m \<longleftrightarrow> 0 < bm_size m \<and> bm_size m \<le> 2 ^ 31 - 64 \<and>
     bm_nr_blk m = (bm_size m + 63) div 64 \<and> int (length (bm_map m)) = bm_nr_blk m"

definition blk_bit :: "bitmap \<Rightarrow> int \<Rightarrow> bool" where
  "blk_bit m n \<longleftrightarrow> bit (bm_map m ! nat (n div 64)) (nat (n mod 64))"

definition bits :: "bitmap \<Rightarrow> int set" where
  "bits m = {n. \<not> out_of_range m n \<and> blk_bit m n}"

lemma wf_blk_bound: "wf_bitmap m \<Longrightarrow> 0 \<le> n \<Longrightarrow> n < bm_size m \<Longrightarrow> n div 64 < int (length (bm_map m))"
  by (simp add: wf_bitmap_def)

lemma ffsl_eq:
  assumes "bit w i" and "i < 64" and "\<And>j. j < i \<Longrightarrow> \<not> bit w j"
  shows "ffsl w = int i + 1"
proof -
  have "List.find (bit w) [0..<64] = Some i"
    using assms by (simp add: find_Some_least)
  then show ?thesis by (simp add: ffsl_def)
qed

lemma bsfl_eq:
  assumes "bit w i" and "i < 64" and "\<And>j. i < j \<Longrightarrow> j < 64 \<Longrightarrow> \<not> bit w j"
  shows "bsfl w = int i"
proof -
  have "List.find (\<lambda>i. bit w (63 - i)) [0..<64] = Some (63 - i)"
    using assms by (auto simp: find_Some_least)
  then show ?thesis using assms(2) by (simp add: bsfl_def clzl_def)
qed

lemma blk_mask: "(n :: int) AND - 64 = n - n mod 64"
  using and_not_mask[of n 6] by (simp add: mask_eq_exp_minus_1 take_bit_eq_mod)

lemma blk_idx_offset: "(n :: int) - n div 64 * 64 = n mod 64"
  by (simp add: minus_div_mult_eq_mod)

lemma nat_mod64 [simp]: "nat (n mod 64) < 64" and nat_mod64_mod [simp]: "nat (n mod 64) mod 64 = nat (n mod 64)"
  by (auto simp: nat_less_iff)

lemma bit_shl64_1: "o' < 64 \<Longrightarrow> bit (shl64 1 o') i \<longleftrightarrow> i = o'"
  by (auto simp: shl64_def bit_exp_iff)

lemma and_shl64_1: "o' < 64 \<Longrightarrow> (w AND shl64 1 o' \<noteq> 0) = bit w o'"
  by (auto simp: word64_zero_iff bit_and_iff bit_shl64_1)

lemma bit_test_value:
  assumes "wf_bitmap m"
  shows "bit_test m n = Inr (n \<in> bits m)"
  using assms wf_blk_bound[OF assms, of n]
  by (auto simp: bit_test_def bits_def blk_bit_def MAP_BLK_SZ_def blk_idx_offset and_shl64_1
      out_of_range_def Let_def)

lemma blk_div_mod:
  assumes "(64 :: int) * b \<le> q" and "q < 64 * b + 64"
  shows "q div 64 = b \<and> q mod 64 = q - 64 * b"
proof -
  have "q div 64 = b" using assms by auto
  then show ?thesis using minus_mult_div_eq_mod[of q 64] by simp
qed

lemma blk_bit_in_blk:
  "64 * b \<le> q \<Longrightarrow> q < 64 * b + 64 \<Longrightarrow> blk_bit m q \<longleftrightarrow> bit (bm_map m ! nat b) (nat (q - 64 * b))"
  using blk_div_mod[of b q] by (simp add: blk_bit_def)

text \<open>One block of the upward loop, shifted by the offset of the start.\<close>

lemma bit_upward_blk:
  assumes "0 \<le> offset" and "offset < 64" and "64 * b + offset \<le> q" and "q < 64 * b + 64"
  shows "bit (shr64 (bm_map m ! nat b) (nat offset)) (nat (q - (64 * b + offset))) \<longleftrightarrow> blk_bit m q"
proof -
  have "nat offset + nat (q - (64 * b + offset)) = nat (q - 64 * b)"
    using assms by (simp add: nat_add_distrib[symmetric])
  then show ?thesis
    using assms blk_bit_in_blk[of b q m] by (simp add: shr64_def bit_drop_bit_eq nat_less_iff)
qed

lemma upward_blk_clear:
  assumes "0 \<le> offset" and "offset < 64" and "shr64 (bm_map m ! nat b) (nat offset) = 0"
    and "64 * b + offset \<le> q" and "q < 64 * b + 64"
  shows "\<not> blk_bit m q"
  using bit_upward_blk[OF assms(1,2,4,5), of m] assms(3) by simp

lemma upward_blk_found:
  assumes o: "0 \<le> offset" "offset < 64" and nz: "shr64 (bm_map m ! nat b) (nat offset) \<noteq> 0"
    and p: "p = 64 * b + offset" and r: "r = p + (ffsl (shr64 (bm_map m ! nat b) (nat offset)) - 1)"
  shows "p \<le> r \<and> blk_bit m r \<and> (\<forall>q. p \<le> q \<and> q < r \<longrightarrow> \<not> blk_bit m q)"
proof -
  let ?blk = "shr64 (bm_map m ! nat b) (nat offset)"
  from nz obtain j where j: "bit ?blk j" "j < 64" and least: "\<And>k. k < j \<Longrightarrow> \<not> bit ?blk k"
    by (rule word64_least_bit) blast
  have "nat offset + j < 64"
    using j(1) o bit_imp_le_length[of "bm_map m ! nat b" "nat offset + j"]
    by (simp add: shr64_def bit_drop_bit_eq nat_less_iff)
  then have lt: "p + int j < 64 * b + 64" using o p by linarith
  have req: "r = p + int j" using r ffsl_eq[OF j least] by simp
  have "blk_bit m r"
    using bit_upward_blk[OF o, of b r m] lt j(1) p req by simp
  moreover have "\<not> blk_bit m q" if "p \<le> q" "q < r" for q
    using bit_upward_blk[OF o, of b q m] that lt p req least[of "nat (q - p)"]
    by (simp add: nat_less_iff)
  ultimately show ?thesis using req by auto
qed

text \<open>
  The upward loop stops at the first set bit at or above its start, or past the end; it never
  reads outside the array.
\<close>

lemma upward_scan_spec:
  assumes "wf_bitmap m" and "p = 64 * b + offset" and "0 \<le> b" and "0 \<le> offset" and "offset < 64"
    and "p < bm_size m"
  shows "\<exists>r. upward_scan m b offset p = Inr r \<and> p \<le> r \<and> (\<forall>q. p \<le> q \<and> q < r \<longrightarrow> \<not> blk_bit m q) \<and>
    (r < bm_size m \<longrightarrow> blk_bit m r)"
  using assms
proof (induction m b offset p rule: upward_scan.induct)
  case (1 m b offset p)
  let ?blk = "shr64 (bm_map m ! nat b) (nat offset)"
  have b: "b < int (length (bm_map m))"
    using 1(2-7) wf_blk_bound[of m p] by simp
  have p': "i32 (p + (64 - offset)) = 64 * b + 64"
    using 1(2-7) by (simp add: wf_bitmap_def)
  have unf: "upward_scan m b offset p =
      (if ?blk = 0
       then if 64 * b + 64 < bm_size m then upward_scan m (b + 1) 0 (64 * b + 64) else Inr (64 * b + 64)
       else Inr (p + (ffsl ?blk - 1)))"
    using 1(4) b p' by (subst upward_scan.simps) (simp add: MAP_BLK_SZ_def Let_def)
  show ?case
  proof (cases "?blk = 0")
    case True
    note clear = upward_blk_clear[OF 1(5,6) True, folded 1(3)]
    show ?thesis
    proof (cases "64 * b + 64 < bm_size m")
      case next_blk: True
      have "\<exists>r. upward_scan m (b + 1) 0 (64 * b + 64) = Inr r \<and> 64 * b + 64 \<le> r \<and>
          (\<forall>q. 64 * b + 64 \<le> q \<and> q < r \<longrightarrow> \<not> blk_bit m q) \<and> (r < bm_size m \<longrightarrow> blk_bit m r)"
        by (rule 1(1)[of "bm_map m ! nat b" ?blk "64 * b + 64"])
           (use 1(2,4) b True p' next_blk in \<open>simp_all add: MAP_BLK_SZ_def\<close>)
      then obtain r where r: "upward_scan m (b + 1) 0 (64 * b + 64) = Inr r" "64 * b + 64 \<le> r"
        "\<forall>q. 64 * b + 64 \<le> q \<and> q < r \<longrightarrow> \<not> blk_bit m q" "r < bm_size m \<longrightarrow> blk_bit m r"
        by blast
      moreover have "\<not> blk_bit m q" if "p \<le> q" "q < r" for q
        using that clear r(3) by (cases "q < 64 * b + 64") auto
      ultimately show ?thesis using unf True next_blk 1(3,6) by auto
    next
      case False
      then show ?thesis using unf True clear 1(3,6) by auto
    qed
  next
    case False
    then show ?thesis
      using unf upward_blk_found[OF 1(5,6) False 1(3) refl] by simp
  qed
qed

text \<open>One block of the downward loop, masked above the offset of the start.\<close>

abbreviation downward_blk :: "uint64 \<Rightarrow> int \<Rightarrow> uint64" where
  "downward_blk w offset \<equiv>
     (if offset = MAP_BLK_SZ - 1 then w else w AND (shl64 1 (nat (offset + 1)) - 1))"

lemma bit_downward_blk:
  assumes "0 \<le> offset" and "offset < 64"
  shows "bit (downward_blk w offset) j \<longleftrightarrow> bit w j \<and> j \<le> nat offset"
proof (cases "offset = 63")
  case True
  then show ?thesis using bit_imp_le_length[of w j] by (auto simp: MAP_BLK_SZ_def)
next
  case False
  then have "nat (offset + 1) < 64" using assms by simp
  then have "shl64 1 (nat (offset + 1)) - 1 = (mask (nat (offset + 1)) :: uint64)"
    by (simp add: shl64_def mask_eq_exp_minus_1)
  then show ?thesis using False assms bit_imp_le_length[of w j]
    by (auto simp: MAP_BLK_SZ_def bit_and_iff bit_mask_iff)
qed

lemma bit_downward_blk':
  assumes "0 \<le> offset" and "offset < 64" and "64 * b \<le> q" and "q \<le> 64 * b + offset"
  shows "bit (downward_blk (bm_map m ! nat b) offset) (nat (q - 64 * b)) \<longleftrightarrow> blk_bit m q"
proof -
  have "nat (q - 64 * b) \<le> nat offset" using assms by simp
  then show ?thesis
    using bit_downward_blk[OF assms(1,2)] blk_bit_in_blk[of b q m] assms by simp
qed

lemma downward_blk_found:
  assumes o: "0 \<le> offset" "offset < 64" and nz: "downward_blk (bm_map m ! nat b) offset \<noteq> 0"
    and r: "r = 64 * b + 63 - (63 - bsfl (downward_blk (bm_map m ! nat b) offset))" and b: "0 \<le> b"
  shows "0 \<le> r \<and> r \<le> 64 * b + offset \<and> blk_bit m r \<and>
    (\<forall>q. r < q \<and> q \<le> 64 * b + offset \<longrightarrow> \<not> blk_bit m q)"
proof -
  let ?blk = "downward_blk (bm_map m ! nat b) offset"
  from nz obtain j where j: "bit ?blk j" "j < 64" and greatest: "\<And>k. j < k \<Longrightarrow> \<not> bit ?blk k"
    by (rule word64_greatest_bit) blast
  have req: "r = 64 * b + int j" using r bsfl_eq[OF j greatest] by simp
  have jo: "j \<le> nat offset" using j(1) bit_downward_blk[OF o] by blast
  have "blk_bit m r"
    using bit_downward_blk'[OF o, of b r m] j(1) jo o req by simp
  moreover have "\<not> blk_bit m q" if "r < q" "q \<le> 64 * b + offset" for q
    using bit_downward_blk'[OF o, of b q m] that req greatest[of "nat (q - 64 * b)"] by simp
  ultimately show ?thesis using req jo o b by auto
qed

lemma downward_scan_spec:
  assumes "wf_bitmap m" and "p = 64 * b + 63" and "0 \<le> b" and "0 \<le> offset" and "offset < 64"
    and "64 * b + offset < bm_size m"
  shows "\<exists>r. downward_scan m b offset p = Inr r \<and> r \<le> 64 * b + offset \<and>
    (\<forall>q. 0 \<le> q \<and> r < q \<and> q \<le> 64 * b + offset \<longrightarrow> \<not> blk_bit m q) \<and> (0 \<le> r \<longrightarrow> blk_bit m r)"
  using assms
proof (induction m b offset p rule: downward_scan.induct)
  case (1 m b offset p)
  let ?blk = "downward_blk (bm_map m ! nat b) offset"
  have b: "b < int (length (bm_map m))"
    using 1(2-7) wf_blk_bound[of m "64 * b + offset"] by simp
  have unf: "downward_scan m b offset p =
      (if ?blk = 0 then if 0 \<le> p - 64 then downward_scan m (b - 1) 63 (p - 64) else Inr (p - 64)
       else Inr (p - (63 - bsfl ?blk)))"
    using 1(4) b by (subst downward_scan.simps) (simp add: MAP_BLK_SZ_def Let_def)
  show ?case
  proof (cases "?blk = 0")
    case True
    then have clear: "\<not> blk_bit m q" if "64 * b \<le> q" "q \<le> 64 * b + offset" for q
      using that bit_downward_blk'[OF 1(5,6), of b q m] by simp
    show ?thesis
    proof (cases "0 \<le> p - 64")
      case next_blk: True
      have "\<exists>r. downward_scan m (b - 1) (MAP_BLK_SZ - 1) (p - 64) = Inr r \<and>
        r \<le> 64 * (b - 1) + (MAP_BLK_SZ - 1) \<and>
        (\<forall>q. 0 \<le> q \<and> r < q \<and> q \<le> 64 * (b - 1) + (MAP_BLK_SZ - 1) \<longrightarrow> \<not> blk_bit m q) \<and>
        (0 \<le> r \<longrightarrow> blk_bit m r)"
        by (rule 1(1)[of "bm_map m ! nat b" ?blk "p - 64"])
           (use 1(2-7) b True next_blk in \<open>simp_all add: MAP_BLK_SZ_def\<close>)
      then have "\<exists>r. downward_scan m (b - 1) 63 (p - 64) = Inr r \<and> r \<le> 64 * (b - 1) + 63 \<and>
        (\<forall>q. 0 \<le> q \<and> r < q \<and> q \<le> 64 * (b - 1) + 63 \<longrightarrow> \<not> blk_bit m q) \<and> (0 \<le> r \<longrightarrow> blk_bit m r)"
        by (simp add: MAP_BLK_SZ_def)
      then obtain r where r: "downward_scan m (b - 1) 63 (p - 64) = Inr r" "r \<le> 64 * (b - 1) + 63"
        "\<forall>q. 0 \<le> q \<and> r < q \<and> q \<le> 64 * (b - 1) + 63 \<longrightarrow> \<not> blk_bit m q" "0 \<le> r \<longrightarrow> blk_bit m r"
        by blast
      moreover have "\<not> blk_bit m q" if "0 \<le> q" "r < q" "q \<le> 64 * b + offset" for q
        using that clear r(3) by (cases "64 * b \<le> q") auto
      ultimately show ?thesis using unf True next_blk 1(5) by auto
    next
      case False
      then show ?thesis using unf True clear 1(3,4,5) by auto
    qed
  next
    case False
    then show ?thesis
      using unf downward_blk_found[OF 1(5,6) False _ 1(4)] 1(3) by simp
  qed
qed

section \<open>The operations on the set of bits\<close>

lemma finite_bits: "finite (bits m)"
  by (rule finite_subset[of _ "{0..<bm_size m}"]) (auto simp: bits_def out_of_range_def)

lemma upward_bit_test_spec:
  assumes wf: "wf_bitmap m"
  shows "upward_bit_test m n =
    Inr (if out_of_range m n \<or> {q \<in> bits m. n \<le> q} = {} then - 1 else Min {q \<in> bits m. n \<le> q})"
proof (cases "out_of_range m n")
  case True
  then show ?thesis by (simp add: upward_bit_test_def)
next
  case False
  then have n: "0 \<le> n" "n < bm_size m" by (auto simp: out_of_range_def)
  have "n = 64 * (n div 64) + n mod 64" by simp
  then obtain r where r: "upward_scan m (n div 64) (n mod 64) n = Inr r" "n \<le> r"
      "\<forall>q. n \<le> q \<and> q < r \<longrightarrow> \<not> blk_bit m q" "r < bm_size m \<longrightarrow> blk_bit m r"
    using upward_scan_spec[OF wf, of n "n div 64" "n mod 64"] n pos_imp_zdiv_nonneg_iff[of 64 n]
    by auto
  have eq: "upward_bit_test m n = Inr (if out_of_range m r then - 1 else r)"
    using False r(1) by (simp add: upward_bit_test_def MAP_BLK_SZ_def blk_idx_offset Let_def)
  show ?thesis
  proof (cases "r < bm_size m")
    case True
    then have "r \<in> {q \<in> bits m. n \<le> q}"
      using r(2,4) n by (simp add: bits_def out_of_range_def)
    moreover have "r \<le> q" if "q \<in> {q \<in> bits m. n \<le> q}" for q
      using that r(3) by (force simp: bits_def)
    ultimately have "Min {q \<in> bits m. n \<le> q} = r"
      by (intro Min_eqI) (simp_all add: finite_bits)
    then show ?thesis using eq \<open>r \<in> _\<close> False True r(2) n by (auto simp: out_of_range_def)
  next
    case beyond: False
    then have "{q \<in> bits m. n \<le> q} = {}"
      using r(3) by (force simp: bits_def out_of_range_def)
    then show ?thesis using eq beyond by (auto simp: out_of_range_def)
  qed
qed

lemma downward_bit_test_spec:
  assumes wf: "wf_bitmap m"
  shows "downward_bit_test m n =
    Inr (if out_of_range m n \<or> {q \<in> bits m. q \<le> n} = {} then - 1 else Max {q \<in> bits m. q \<le> n})"
proof (cases "out_of_range m n")
  case True
  then show ?thesis by (simp add: downward_bit_test_def)
next
  case False
  then have n: "0 \<le> n" "n < bm_size m" by (auto simp: out_of_range_def)
  have p: "i32 (((n + 64) AND NOT 63) - 1) = 64 * (n div 64) + 63"
  proof -
    have "(n + 64) - (n + 64) mod 64 - 1 = 64 * (n div 64) + 63"
      using minus_mod_eq_mult_div[of n 64] by simp
    moreover have "64 * (n div 64) \<le> n" "0 \<le> n div 64" using n by auto
    ultimately show ?thesis using n wf by (simp add: blk_mask wf_bitmap_def)
  qed
  have "n = 64 * (n div 64) + n mod 64" by simp
  then obtain r where r: "downward_scan m (n div 64) (n mod 64) (64 * (n div 64) + 63) = Inr r" "r \<le> n"
      "\<forall>q. 0 \<le> q \<and> r < q \<and> q \<le> n \<longrightarrow> \<not> blk_bit m q" "0 \<le> r \<longrightarrow> blk_bit m r"
    using downward_scan_spec[OF wf refl, of "n div 64" "n mod 64"] n pos_imp_zdiv_nonneg_iff[of 64 n]
    by auto
  have eq: "downward_bit_test m n = Inr (if out_of_range m r then - 1 else r)"
    using False r(1) p by (simp add: downward_bit_test_def MAP_BLK_SZ_def blk_idx_offset Let_def)
  show ?thesis
  proof (cases "0 \<le> r")
    case True
    then have "r \<in> {q \<in> bits m. q \<le> n}"
      using r(2,4) n by (simp add: bits_def out_of_range_def)
    moreover have "q \<le> r" if "q \<in> {q \<in> bits m. q \<le> n}" for q
      using that spec[OF r(3), of q] by (auto simp: bits_def out_of_range_def not_less)
    ultimately have "Max {q \<in> bits m. q \<le> n} = r"
      by (intro Max_eqI) (simp_all add: finite_bits)
    then show ?thesis using eq \<open>r \<in> _\<close> False True r(2) n by (auto simp: out_of_range_def)
  next
    case below: False
    then have "{q \<in> bits m. q \<le> n} = {}"
      using r(3) by (force simp: bits_def out_of_range_def)
    then show ?thesis using eq below by (auto simp: out_of_range_def)
  qed
qed

text \<open>Writing one block changes one index.\<close>

lemma blk_bit_update:
  assumes wf: "wf_bitmap m" and n: "\<not> out_of_range m n" and q: "0 \<le> q"
    and w: "\<And>j. j < 64 \<Longrightarrow> bit w' j \<longleftrightarrow> (if j = nat (n mod 64) then v else bit (bm_map m ! nat (n div 64)) j)"
  shows "blk_bit (m\<lparr>bm_map := (bm_map m)[nat (n div 64) := w']\<rparr>) q \<longleftrightarrow> (if q = n then v else blk_bit m q)"
proof -
  have n0: "0 \<le> n" "nat (n div 64) < length (bm_map m)"
    using n wf_blk_bound[OF wf, of n] by (auto simp: out_of_range_def)
  show ?thesis
  proof (cases "nat (q div 64) = nat (n div 64)")
    case True
    then have d: "q div 64 = n div 64" using q n0(1) by (simp add: pos_imp_zdiv_nonneg_iff)
    then have "q = n \<longleftrightarrow> q mod 64 = n mod 64" 
      using mult_div_mod_eq[of 64 q] mult_div_mod_eq[of 64 n] by auto
    then have qn: "q = n \<longleftrightarrow> nat (q mod 64) = nat (n mod 64)" by (simp add: eq_nat_nat_iff)
    have "blk_bit (m\<lparr>bm_map := (bm_map m)[nat (n div 64) := w']\<rparr>) q \<longleftrightarrow> bit w' (nat (q mod 64))"
      using n0 d by (simp add: blk_bit_def)
    moreover have "blk_bit m q \<longleftrightarrow> bit (bm_map m ! nat (n div 64)) (nat (q mod 64))"
      using d by (simp add: blk_bit_def)
    ultimately show ?thesis by (simp only: w[OF nat_mod64] qn)
  next
    case False
    then show ?thesis by (auto simp: blk_bit_def)
  qed
qed

lemma set_bit_bm_spec:
  assumes wf: "wf_bitmap m"
  shows "\<exists>m'. set_bit_bm m n = Inr m' \<and> wf_bitmap m' \<and>
    bits m' = (if out_of_range m n then bits m else insert n (bits m))"
proof (cases "out_of_range m n")
  case True
  then show ?thesis using wf by (simp add: set_bit_bm_def)
next
  case False
  let ?w = "bm_map m ! nat (n div 64) OR shl64 1 (nat (n mod 64))"
  let ?m' = "m\<lparr>bm_map := (bm_map m)[nat (n div 64) := ?w]\<rparr>"
  have n: "0 \<le> n" "n < bm_size m" using False by (auto simp: out_of_range_def)
  have eq: "set_bit_bm m n = Inr ?m'"
    using False n wf_blk_bound[OF wf n]
    by (simp add: set_bit_bm_def MAP_BLK_SZ_def blk_idx_offset pos_imp_zdiv_nonneg_iff Let_def)
  have "blk_bit ?m' q \<longleftrightarrow> (if q = n then True else blk_bit m q)" if "0 \<le> q" for q
    using wf False that by (rule blk_bit_update) (simp add: bit_or_iff bit_shl64_1)
  then have "bits ?m' = insert n (bits m)"
    using False by (auto simp: bits_def out_of_range_def)
  then show ?thesis using False wf eq by (simp add: wf_bitmap_def)
qed

lemma clr_bit_spec:
  assumes wf: "wf_bitmap m"
  shows "\<exists>m'. clr_bit m n = Inr m' \<and> wf_bitmap m' \<and> bits m' = bits m - {n}"
proof (cases "out_of_range m n")
  case True
  then show ?thesis using wf by (auto simp: clr_bit_def bits_def)
next
  case False
  let ?w = "bm_map m ! nat (n div 64) AND NOT (shl64 1 (nat (n mod 64)))"
  let ?m' = "m\<lparr>bm_map := (bm_map m)[nat (n div 64) := ?w]\<rparr>"
  have n: "0 \<le> n" "n < bm_size m" using False by (auto simp: out_of_range_def)
  have eq: "clr_bit m n = Inr ?m'"
    using False n wf_blk_bound[OF wf n]
    by (simp add: clr_bit_def MAP_BLK_SZ_def blk_idx_offset pos_imp_zdiv_nonneg_iff Let_def)
  have "blk_bit ?m' q \<longleftrightarrow> (if q = n then False else blk_bit m q)" if "0 \<le> q" for q
    using wf False that by (rule blk_bit_update) (simp add: bit_and_iff bit_not_iff bit_shl64_1)
  then have "bits ?m' = bits m - {n}"
    by (auto simp: bits_def out_of_range_def split: if_splits)
  then show ?thesis using wf eq by (simp add: wf_bitmap_def)
qed

text \<open>A new bitmap holds no index or every index below its size.\<close>

lemma new_bitmap_nonpos: "sz \<le> 0 \<Longrightarrow> new_bitmap sz v = Inr None"
  by (simp add: new_bitmap_def)

lemma new_bitmap_spec:
  assumes sz: "0 < sz" "sz \<le> 2 ^ 31 - 64"
  shows "\<exists>m. new_bitmap sz v = Inr (Some m) \<and> wf_bitmap m \<and> bm_size m = sz \<and>
    bits m = (if v = 0 then {} else {0..<sz})"
proof -
  define nb where "nb = (sz + 63) div 64"
  have nb: "0 < nb" "sz \<le> 64 * nb" "64 * nb < sz + 64"
    using sz by (auto simp: nb_def)
  have i: "i32 nb = nb" "i32 (nb * 8) = nb * 8" "i32 (i32 (nb * 8 * 8) - sz) = 64 * nb - sz"
    using nb sz by (simp_all add: mult.commute)
  have idx: "0 \<le> q \<Longrightarrow> q < sz \<Longrightarrow> nat (q div 64) < nat nb" for q
    using nb by auto
  show ?thesis
  proof (cases "v = 0")
    case True
    then show ?thesis
      using sz nb i idx by (auto simp: new_bitmap_def MAP_BLK_SZ_def nb_def[symmetric] wf_bitmap_def
          bits_def blk_bit_def out_of_range_def Let_def)
  next
    case False
    let ?c = "nat (64 * nb - sz)"
    let ?m = "\<lparr>bm_map = (replicate (nat nb) (- 1))[nat (nb - 1) := shr64 (- 1) ?c],
               bm_size = sz, bm_nr_blk = nb\<rparr>"
    have eq: "new_bitmap sz v = Inr (Some ?m)"
      using False sz nb i by (simp add: new_bitmap_def MAP_BLK_SZ_def nb_def[symmetric] Let_def)
    have c: "?c < 64" using nb by simp
    have "blk_bit ?m q" if q: "0 \<le> q" "q < sz" for q
    proof (cases "nat (q div 64) = nat (nb - 1)")
      case True
      then have "q div 64 = nb - 1" using q nb by (simp add: pos_imp_zdiv_nonneg_iff)
      then have "q mod 64 = q - 64 * (nb - 1)" by (simp add: minus_mult_div_eq_mod[symmetric])
      moreover have "0 \<le> q mod 64" by simp
      moreover have "?c + nat (q mod 64) = nat (64 * nb - sz + q mod 64)"
        using nb by (simp add: nat_add_distrib)
      ultimately have "?c + nat (q mod 64) < 64" using q nb by simp
      then show ?thesis using True idx[OF q] c by (simp add: blk_bit_def shr64_def bit_drop_bit_eq bit_mask_iff less_diff_conv add.commute)
    next
      case other: False
      then show ?thesis using idx[OF q] by (simp add: blk_bit_def)
    qed
    then have "bits ?m = {0..<sz}" by (auto simp: bits_def out_of_range_def)
    then show ?thesis using eq False sz nb by (simp add: wf_bitmap_def nb_def)
  qed
qed

section \<open>The bitmap as a set\<close>

text \<open>
  A client's run of updates on one bitmap, and the same run on a set of indices: an index outside
  the bitmap is ignored.
\<close>

datatype bm_op = SetBit int | ClrBit int

fun bm_step :: "bm_op \<Rightarrow> bitmap \<Rightarrow> bitmap res" where
  "bm_step (SetBit n) m = set_bit_bm m n"
| "bm_step (ClrBit n) m = clr_bit m n"

fun bm_run :: "bm_op list \<Rightarrow> bitmap \<Rightarrow> bitmap res" where
  "bm_run [] m = Inr m"
| "bm_run (q # qs) m = rbind (bm_step q m) (bm_run qs)"

fun set_step :: "int \<Rightarrow> bm_op \<Rightarrow> int set \<Rightarrow> int set" where
  "set_step sz (SetBit n) A = (if 0 \<le> n \<and> n < sz then insert n A else A)"
| "set_step sz (ClrBit n) A = A - {n}"

lemma set_bit_bm_size: "set_bit_bm m n = Inr m' \<Longrightarrow> bm_size m' = bm_size m"
  by (auto simp: set_bit_bm_def rbind_eq_Inr Let_def split: if_splits)

lemma clr_bit_size: "clr_bit m n = Inr m' \<Longrightarrow> bm_size m' = bm_size m"
  by (auto simp: clr_bit_def rbind_eq_Inr Let_def split: if_splits)

lemma bm_step_refines:
  assumes "wf_bitmap m"
  shows "\<exists>m'. bm_step q m = Inr m' \<and> wf_bitmap m' \<and> bm_size m' = bm_size m \<and>
    bits m' = set_step (bm_size m) q (bits m)"
proof (cases q)
  case (SetBit n)
  with set_bit_bm_spec[OF assms, of n] set_bit_bm_size[of m n] show ?thesis
    by (auto simp: out_of_range_def)
next
  case (ClrBit n)
  with clr_bit_spec[OF assms, of n] clr_bit_size[of m n] show ?thesis by auto
qed

lemma bm_run_refines:
  "wf_bitmap m \<Longrightarrow> \<exists>m'. bm_run qs m = Inr m' \<and> wf_bitmap m' \<and> bm_size m' = bm_size m \<and>
     bits m' = fold (set_step (bm_size m)) qs (bits m)"
proof (induction qs arbitrary: m)
  case (Cons q qs)
  then obtain m1 where 1: "bm_step q m = Inr m1" "wf_bitmap m1" "bm_size m1 = bm_size m"
    "bits m1 = set_step (bm_size m) q (bits m)"
    using bm_step_refines by blast
  with Cons.IH[OF 1(2)] show ?case by auto
qed simp

section \<open>Properties\<close>

text \<open>C30: A bitmap is a set of indices. A bitmap of any size up to \<open>2^31 - 64\<close> that
  \<open>new_bitmap\<close> returns, after any sequence of \<open>set_bit\<close> and \<open>clr_bit\<close> calls (out-of-range
  indices included), answers \<open>bit_test\<close> for every index exactly as the set of integers obtained by
  the same insertions and deletions, and no call reads or writes outside the block array.\<close>

theorem bitmap_refines_set:
  assumes "0 < sz" and "sz \<le> 2 ^ 31 - 64"
  shows "\<exists>m m'. new_bitmap sz v = Inr (Some m) \<and> bm_run qs m = Inr m' \<and> wf_bitmap m' \<and>
    (\<forall>n. bit_test m' n = Inr (n \<in> fold (set_step sz) qs (if v = 0 then {} else {0..<sz})))"
proof -
  obtain m where m: "new_bitmap sz v = Inr (Some m)" "wf_bitmap m" "bm_size m = sz"
    "bits m = (if v = 0 then {} else {0..<sz})"
    using new_bitmap_spec[OF assms] by blast
  obtain m' where m': "bm_run qs m = Inr m'" "wf_bitmap m'" "bits m' = fold (set_step sz) qs (bits m)"
    using bm_run_refines[OF m(2), of qs] m(3) by auto
  have "bit_test m' n = Inr (n \<in> fold (set_step sz) qs (if v = 0 then {} else {0..<sz}))" for n
    by (simp only: bit_test_value[OF m'(2)] m'(3) m(4))
  with m(1) m'(1,2) show ?thesis by blast
qed

theorem bitmap_refines_set_witness:
  "\<exists>m m'. new_bitmap 100 0 = Inr (Some m) \<and> bm_run [SetBit 99, SetBit 100, SetBit 3, ClrBit 99] m = Inr m' \<and>
     wf_bitmap m' \<and> bit_test m' 3 = Inr True \<and> bit_test m' 99 = Inr False"
proof -
  let ?qs = "[SetBit 99, SetBit 100, SetBit 3, ClrBit 99]"
  let ?A = "fold (set_step 100) ?qs (if (0 :: int) = 0 then {} else {0..<100})"
  have "\<exists>m m'. new_bitmap 100 0 = Inr (Some m) \<and> bm_run ?qs m = Inr m' \<and> wf_bitmap m' \<and>
      (\<forall>n. bit_test m' n = Inr (n \<in> ?A))"
    by (rule bitmap_refines_set) simp_all
  then obtain m m' where m: "new_bitmap 100 0 = Inr (Some m) \<and> bm_run ?qs m = Inr m' \<and> wf_bitmap m'"
    "\<forall>n. bit_test m' n = Inr (n \<in> ?A)" by (elim exE conjE) (rule that, intro conjI)
  have "(3 \<in> ?A) = True" "(99 \<in> ?A) = False" by simp_all
  then have "bit_test m' 3 = Inr True" "bit_test m' 99 = Inr False" by (simp_all only: m(2))
  with m(1) show ?thesis by blast
qed

text \<open>The upward search. On a well-formed bitmap \<open>upward_bit_test\<close> terminates without a
  memory fault and returns the least set index at or above \<open>n\<close>, and -1 exactly when \<open>n\<close> is out of
  range or no such index is set.\<close>

theorem upward_bit_test_least:
  assumes "wf_bitmap m"
  shows "upward_bit_test m n =
    Inr (if out_of_range m n \<or> {q \<in> bits m. n \<le> q} = {} then - 1 else Min {q \<in> bits m. n \<le> q})"
  using assms by (rule upward_bit_test_spec)

theorem upward_bit_test_least_witness:
  "Min {q \<in> bits \<lparr>bm_map = [0, 4], bm_size = 100, bm_nr_blk = 2\<rparr>. 5 \<le> q} = 66"
proof -
  let ?m = "\<lparr>bm_map = [0, 4], bm_size = 100, bm_nr_blk = 2\<rparr>"
  have "upward_bit_test ?m 5 = Inr (if out_of_range ?m 5 \<or> {q \<in> bits ?m. 5 \<le> q} = {} then - 1
      else Min {q \<in> bits ?m. 5 \<le> q})"
    by (rule upward_bit_test_least) (simp add: wf_bitmap_def)
  moreover have "upward_bit_test ?m 5 = Inr 66" by code_simp
  ultimately show ?thesis by (simp split: if_splits)
qed

text \<open>The downward search. On a well-formed bitmap \<open>downward_bit_test\<close> terminates without a
  memory fault and returns the greatest set index at or below \<open>n\<close>, and -1 exactly when \<open>n\<close> is out
  of range or no such index is set.\<close>

theorem downward_bit_test_greatest:
  assumes "wf_bitmap m"
  shows "downward_bit_test m n =
    Inr (if out_of_range m n \<or> {q \<in> bits m. q \<le> n} = {} then - 1 else Max {q \<in> bits m. q \<le> n})"
  using assms by (rule downward_bit_test_spec)

theorem downward_bit_test_greatest_witness:
  "Max {q \<in> bits \<lparr>bm_map = [8, 0], bm_size = 100, bm_nr_blk = 2\<rparr>. q \<le> 99} = 3"
proof -
  let ?m = "\<lparr>bm_map = [8, 0], bm_size = 100, bm_nr_blk = 2\<rparr>"
  have "downward_bit_test ?m 99 = Inr (if out_of_range ?m 99 \<or> {q \<in> bits ?m. q \<le> 99} = {} then - 1
      else Max {q \<in> bits ?m. q \<le> 99})"
    by (rule downward_bit_test_greatest) (simp add: wf_bitmap_def)
  moreover have "downward_bit_test ?m 99 = Inr 3" by code_simp
  ultimately show ?thesis by (simp split: if_splits)
qed

end
