(* ===== verification/Event_Time.thy ===== *)
theory Event_Time
  imports NW_Prelude
begin

text \<open>
  The \<open>timeval\<close> arithmetic of \<open>utl_event_queue.h\<close> (the serial \<open>event_queue.h\<close> has the same
  text). The fields are \<open>long\<close>s, modelled as integers; times stay far below the width. A
  \<open>timeval\<close> stands for its number of microseconds (\<open>usecs\<close>), and on normalised values the
  functions are the arithmetic and the order of those numbers.
\<close>

record timeval =
  tv_sec :: int
  tv_usec :: int

definition usec2tv :: "uint64 \<Rightarrow> timeval" where
  "usec2tv usec = \<lparr>tv_sec = uint (usec div 1000000), tv_usec = uint (usec mod 1000000)\<rparr>"

definition tv2usec :: "timeval \<Rightarrow> uint64" where
  "tv2usec t = word_of_int (tv_sec t * 1000000 + tv_usec t)"

definition tv_cmp :: "timeval \<Rightarrow> timeval \<Rightarrow> int" where
  "tv_cmp t0 t1 =
     (if tv_sec t0 > tv_sec t1 then 1
      else if tv_sec t0 < tv_sec t1 then - 1
      else if tv_usec t0 > tv_usec t1 then 1
      else if tv_usec t0 < tv_usec t1 then - 1 else 0)"

definition tv_add :: "timeval \<Rightarrow> timeval \<Rightarrow> timeval" where
  "tv_add t0 t1 =
     (let usec = tv_usec t0 + tv_usec t1;
          sec = tv_sec t0 + tv_sec t1
      in if usec \<ge> 1000000 then \<lparr>tv_sec = sec + usec div 1000000, tv_usec = usec mod 1000000\<rparr>
         else \<lparr>tv_sec = sec, tv_usec = usec\<rparr>)"

definition tv_sub :: "timeval \<Rightarrow> timeval \<Rightarrow> timeval" where
  "tv_sub t0 t1 =
     (if tv_usec t0 < tv_usec t1
      then \<lparr>tv_sec = tv_sec t0 - (tv_sec t1 + 1), tv_usec = tv_usec t0 + (1000000 - tv_usec t1)\<rparr>
      else \<lparr>tv_sec = tv_sec t0 - tv_sec t1, tv_usec = tv_usec t0 - tv_usec t1\<rparr>)"

section \<open>Microseconds\<close>

definition usecs :: "timeval \<Rightarrow> int" where
  "usecs t = tv_sec t * 1000000 + tv_usec t"

definition tv_norm :: "timeval \<Rightarrow> bool" where
  "tv_norm t \<longleftrightarrow> 0 \<le> tv_usec t \<and> tv_usec t < 1000000"

lemma usec2tv_usecs [simp]: "usecs (usec2tv u) = uint u" "tv_norm (usec2tv u)"
proof -
  have "uint (u div 1000000) * 1000000 + uint (u mod 1000000) = uint u"
    by (simp add: uint_div uint_mod)
  then show "usecs (usec2tv u) = uint u" by (simp add: usecs_def usec2tv_def)
  show "tv_norm (usec2tv u)" by (simp add: tv_norm_def usec2tv_def uint_mod)
qed

lemma tv_add_norm [simp]: "tv_norm a \<Longrightarrow> tv_norm b \<Longrightarrow> tv_norm (tv_add a b)"
  by (auto simp: tv_norm_def tv_add_def Let_def)

lemma tv_add_usecs [simp]: "usecs (tv_add a b) = usecs a + usecs b"
proof -
  have "(tv_usec a + tv_usec b) div 1000000 * 1000000 + (tv_usec a + tv_usec b) mod 1000000 =
      tv_usec a + tv_usec b" by simp
  then show ?thesis by (simp add: usecs_def tv_add_def Let_def algebra_simps)
qed

lemma tv_sub_norm [simp]: "tv_norm a \<Longrightarrow> tv_norm b \<Longrightarrow> tv_norm (tv_sub a b)"
  by (auto simp: tv_norm_def tv_sub_def)

lemma tv_sub_usecs [simp]: "usecs (tv_sub a b) = usecs a - usecs b"
  by (simp add: usecs_def tv_sub_def algebra_simps)

lemma tv_cmp_less: "tv_norm a \<Longrightarrow> tv_norm b \<Longrightarrow> tv_cmp a b = - 1 \<longleftrightarrow> usecs a < usecs b"
  by (auto simp: tv_norm_def tv_cmp_def usecs_def)

lemma tv_cmp_sgn: "tv_norm a \<Longrightarrow> tv_norm b \<Longrightarrow> tv_cmp a b = sgn (usecs a - usecs b)"
  by (auto simp: tv_norm_def tv_cmp_def usecs_def sgn_if)

lemma tv_norm_eqI: "tv_norm a \<Longrightarrow> tv_norm b \<Longrightarrow> usecs a = usecs b \<Longrightarrow> a = b"
  using tv_cmp_sgn[of a b] by (auto simp: tv_cmp_def sgn_if split: if_splits)

lemma tv2usec_usecs: "0 \<le> usecs t \<Longrightarrow> usecs t < 2 ^ 64 \<Longrightarrow> uint (tv2usec t) = usecs t"
proof -
  assume "0 \<le> usecs t" "usecs t < 2 ^ 64"
  then have "take_bit 64 (usecs t) = usecs t" by (simp only: take_bit_int_eq_self)
  then show "uint (tv2usec t) = usecs t"
    unfolding tv2usec_def usecs_def by (simp only: uint_word_of_int_eq) simp
qed

section \<open>Property\<close>

text \<open>The \<open>timeval\<close> functions are arithmetic on microseconds. On normalised values \<open>tv_cmp\<close> is the
  sign of the difference, \<open>tv_add\<close> and \<open>tv_sub\<close> add and subtract and give normalised values, and
  the conversion from microseconds and back is the identity on every 64-bit count.\<close>

theorem timeval_is_microseconds:
  assumes "tv_norm a" and "tv_norm b"
  shows "tv_cmp a b = sgn (usecs a - usecs b) \<and>
    usecs (tv_add a b) = usecs a + usecs b \<and> tv_norm (tv_add a b) \<and>
    usecs (tv_sub a b) = usecs a - usecs b \<and> tv_norm (tv_sub a b) \<and>
    tv2usec (usec2tv u) = u \<and> tv_norm (usec2tv u)"
proof -
  have "uint (tv2usec (usec2tv u)) = uint u"
    using uint_bounded[of u] tv2usec_usecs[of "usec2tv u"] by simp
  then have "tv2usec (usec2tv u) = u" by (simp only: word_uint_eq_iff)
  then show ?thesis using assms by (simp add: tv_cmp_sgn)
qed

theorem timeval_is_microseconds_witness:
  "usecs (tv_add \<lparr>tv_sec = 1, tv_usec = 999999\<rparr> \<lparr>tv_sec = 0, tv_usec = 2\<rparr>) = 2000001 \<and>
   tv_norm (tv_add \<lparr>tv_sec = 1, tv_usec = 999999\<rparr> \<lparr>tv_sec = 0, tv_usec = 2\<rparr>)"
  using timeval_is_microseconds[of "\<lparr>tv_sec = 1, tv_usec = 999999\<rparr>" "\<lparr>tv_sec = 0, tv_usec = 2\<rparr>"]
  by (simp add: tv_norm_def usecs_def)

end
