(* ===== verification/Event_Queue.thy ===== *)
theory Event_Queue
  imports Event_Time Utl_HashMap_MT
begin

text \<open>
  The time event queue: \<open>event_queue.c\<close> of the serial version and \<open>utl_event_queue.c\<close> of the
  parallel one. The two files share the text of the internal functions and differ in the hash map
  they are linked with and in \<open>queue_lock\<close>, so the internal functions take the map module and the
  handlers they call as a record \<open>queue_env\<close>; the interface functions of each version are
  separate. Handlers are stored as data and called through \<open>q_call\<close>. The loop that triggers
  events runs until the first event is in the future; handlers may add events, so it takes fuel,
  and \<open>OutOfFuel\<close> is the outcome of the model when the fuel is too small.
\<close>

section \<open>Data\<close>

datatype qstatus = EVENT_QUEUE_EMPTY | EVENT_QUEUE_PENDING | EVENT_QUEUE_ACTIVE

datatype handler = NullHandler | BurstSkipHandler | ReviveSampleHandler

record event =
  ev_handler :: handler
  ev_private :: ptr
  ev_start_time :: timeval
  ev_trigger_time :: timeval

text \<open>
  The globals of the queue, on top of those of the hash map. \<open>clock\<close> gives the results of
  successive calls of \<open>gettimeofday\<close>, \<open>sigaction_ret\<close> the result of installing the handler.
  The serial version does not use \<open>queue_lock\<close>.
\<close>

record 'm eq_state = hm_mt_state +
  eq_status :: qstatus
  nr_event :: int
  events :: "ptr list"
  free_event :: "ptr list"
  ev_cell :: "ptr \<Rightarrow> event"
  itv_interval :: timeval
  itv_value :: timeval
  timer_resolution :: timeval
  private2event_map :: 'm
  queue_lock :: bool
  clock :: "nat \<Rightarrow> timeval"
  clock_cnt :: nat
  sigaction_ret :: int
  sigalrm_installed :: bool

record ('m, 's) queue_env =
  q_add :: "'m \<Rightarrow> uint64 \<Rightarrow> ptr \<Rightarrow> 's \<Rightarrow> (int \<times> 'm \<times> 's) res"
  q_del :: "'m \<Rightarrow> uint64 \<Rightarrow> 's \<Rightarrow> ('m \<times> 's) res"
  q_find :: "'m \<Rightarrow> uint64 \<Rightarrow> 's \<Rightarrow> (ptr \<times> 'm) res"
  q_call :: "handler \<Rightarrow> ptr \<Rightarrow> timeval \<Rightarrow> 's \<Rightarrow> 's res"

type_synonym ('m, 'x) qstate = "('m, 'x) eq_state_scheme"
type_synonym ('m, 'x) qenv = "('m, ('m, 'x) eq_state_scheme) queue_env"

definition TIMER_RESOLUTION :: uint64 where
  "TIMER_RESOLUTION = 50"

definition gettimeofday :: "('m, 'x) qstate \<Rightarrow> timeval \<times> ('m, 'x) qstate" where
  "gettimeofday s = (clock s (clock_cnt s), s\<lparr>clock_cnt := clock_cnt s + 1\<rparr>)"

section \<open>Events and the timer\<close>

definition time_event_alloc :: "('m, 'x) qstate \<Rightarrow> ptr \<times> ('m, 'x) qstate" where
  "time_event_alloc s =
     (case free_event s of
        [] \<Rightarrow> internal_malloc s
      | e # es \<Rightarrow> (e, s\<lparr>free_event := es\<rparr>))"

definition time_event_del :: "ptr \<Rightarrow> ('m, 'x) qstate \<Rightarrow> ('m, 'x) qstate" where
  "time_event_del e s = s\<lparr>events := remove1 e (events s), free_event := remove1 e (free_event s)\<rparr>"

definition time_event_free :: "ptr \<Rightarrow> ('m, 'x) qstate \<Rightarrow> ('m, 'x) qstate" where
  "time_event_free e s =
     (let s = s\<lparr>events := remove1 e (events s), free_event := remove1 e (free_event s)\<rparr>
      in s\<lparr>free_event := e # free_event s\<rparr>)"

definition set_timer :: "timeval \<Rightarrow> ('m, 'x) qstate \<Rightarrow> ('m, 'x) qstate" where
  "set_timer t s = s\<lparr>itv_value := t\<rparr>"

section \<open>The internal functions\<close>

fun trigger_loop :: "nat \<Rightarrow> ('m, 'x) qenv \<Rightarrow> timeval \<Rightarrow> ('m, 'x) qstate \<Rightarrow> ('m, 'x) qstate res" where
  "trigger_loop 0 env now s = Inl OutOfFuel"
| "trigger_loop (Suc fuel) env now s =
     (case events s of
        [] \<Rightarrow> Inr s
      | triggered # _ \<Rightarrow>
          if tv_cmp now (ev_trigger_time (ev_cell s triggered)) \<noteq> - 1
          then
            rbind (q_del env (private2event_map s) (ev_private (ev_cell s triggered)) s) (\<lambda>(m, s).
              let s = time_event_del triggered (s\<lparr>private2event_map := m\<rparr>);
                  e = ev_cell s triggered
              in rbind (if ev_handler e \<noteq> NullHandler then q_call env (ev_handler e) (ev_private e) now s
                        else Inr s) (\<lambda>s.
                 trigger_loop fuel env now (time_event_free triggered s)))
          else Inr s)"

definition do_trigger_time_event ::
    "nat \<Rightarrow> ('m, 'x) qenv \<Rightarrow> timeval \<Rightarrow> ('m, 'x) qstate \<Rightarrow> ('m, 'x) qstate res" where
  "do_trigger_time_event fuel env now s = trigger_loop fuel env (tv_add now (timer_resolution s)) s"

definition do_pend_event_queue :: "('m, 'x) qstate \<Rightarrow> qstatus \<times> ('m, 'x) qstate" where
  "do_pend_event_queue s =
     (let state = eq_status s;
          s = s\<lparr>eq_status := EVENT_QUEUE_PENDING\<rparr>
      in if state = EVENT_QUEUE_PENDING then (state, s)
         else (state, set_timer \<lparr>tv_sec = 0, tv_usec = 0\<rparr> s))"

definition do_resume_event_queue ::
    "nat \<Rightarrow> ('m, 'x) qenv \<Rightarrow> timeval option \<Rightarrow> ('m, 'x) qstate \<Rightarrow> ('m, 'x) qstate res" where
  "do_resume_event_queue fuel env now s =
     (let state = eq_status s;
          s = s\<lparr>eq_status := EVENT_QUEUE_ACTIVE\<rparr>
      in if state = EVENT_QUEUE_ACTIVE then Inr s
         else
           let (tv0, s) = (case now of None \<Rightarrow> gettimeofday s | Some t \<Rightarrow> (t, s))
           in rbind (do_trigger_time_event fuel env tv0 s) (\<lambda>s.
                case events s of
                  [] \<Rightarrow> Inr s
                | e # _ \<Rightarrow> Inr (set_timer (tv_sub (ev_trigger_time (ev_cell s e)) tv0) s)))"

text \<open>
  The new event goes in front of the first event that is strictly later, behind those of the same
  time.
\<close>

definition insert_event :: "ptr \<Rightarrow> timeval \<Rightarrow> ('m, 'x) qstate \<Rightarrow> ptr list" where
  "insert_event e trigger_tv s =
     (let earlier = (\<lambda>q. tv_cmp trigger_tv (ev_trigger_time (ev_cell s q)) \<noteq> - 1)
      in takeWhile earlier (events s) @ e # dropWhile earlier (events s))"

text \<open>\<open>do_add_time_event\<close> up to the point where the event is linked in, and the whole function.\<close>

definition place_event ::
    "('m, 'x) qenv \<Rightarrow> timeval \<Rightarrow> handler \<Rightarrow> ptr \<Rightarrow> ('m, 'x) qstate \<Rightarrow>
     (qstatus \<times> timeval \<times> ('m, 'x) qstate) res" where
  "place_event env tv handler priv s =
     (let (state, s) = do_pend_event_queue s;
          (now, s) = gettimeofday s;
          trigger_tv = tv_add now tv;
          (event, s) = time_event_alloc s;
          s = s\<lparr>ev_cell := (ev_cell s)(event :=
                 \<lparr>ev_handler = handler, ev_private = priv, ev_start_time = now,
                  ev_trigger_time = trigger_tv\<rparr>)\<rparr>;
          pos = insert_event event trigger_tv s
      in rbind (q_add env (private2event_map s) priv event s) (\<lambda>(ret, m, s).
           Inr (state, now, s\<lparr>private2event_map := m, events := pos\<rparr>)))"

definition do_add_time_event ::
    "nat \<Rightarrow> ('m, 'x) qenv \<Rightarrow> timeval \<Rightarrow> handler \<Rightarrow> ptr \<Rightarrow> ('m, 'x) qstate \<Rightarrow> ('m, 'x) qstate res" where
  "do_add_time_event fuel env tv handler priv s =
     rbind (place_event env tv handler priv s) (\<lambda>(state, now, s).
     rbind (do_trigger_time_event fuel env now s) (\<lambda>s.
       if state = EVENT_QUEUE_ACTIVE \<or> state = EVENT_QUEUE_EMPTY
       then do_resume_event_queue fuel env (Some now) s
       else Inr s))"

definition do_remove_time_event ::
    "nat \<Rightarrow> ('m, 'x) qenv \<Rightarrow> ptr \<Rightarrow> ('m, 'x) qstate \<Rightarrow> ('m, 'x) qstate res" where
  "do_remove_time_event fuel env priv s =
     (let (_, s) = do_pend_event_queue s
      in rbind (q_find env (private2event_map s) priv s) (\<lambda>(event, m).
           let s = s\<lparr>private2event_map := m\<rparr>
           in if event = NULL then Inr s
              else
                let s = time_event_free event s
                in rbind (q_del env (private2event_map s) priv s) (\<lambda>(m, s).
                     let s = s\<lparr>private2event_map := m\<rparr>
                     in if events s = [] then Inr (s\<lparr>eq_status := EVENT_QUEUE_EMPTY\<rparr>)
                        else do_resume_event_queue fuel env None s)))"

text \<open>The part of the signal handler after the queue has been pended.\<close>

definition trigger_pended ::
    "nat \<Rightarrow> ('m, 'x) qenv \<Rightarrow> ('m, 'x) qstate \<Rightarrow> ('m, 'x) qstate res" where
  "trigger_pended fuel env s =
     (let (now, s) = gettimeofday s
      in rbind (do_trigger_time_event fuel env now s) (\<lambda>s.
           if events s = [] then Inr (s\<lparr>eq_status := EVENT_QUEUE_EMPTY\<rparr>)
           else do_resume_event_queue fuel env (Some (tv_sub now (timer_resolution s))) s))"

text \<open>Both lists are emptied and their events released.\<close>

definition release_events :: "('m, 'x) qstate \<Rightarrow> ('m, 'x) qstate" where
  "release_events s =
     (let s = (release_all (events s) s)\<lparr>events := []\<rparr>
      in (release_all (free_event s) s)\<lparr>free_event := []\<rparr>)"

section \<open>The serial version\<close>

definition serial_env ::
    "(handler \<Rightarrow> ptr \<Rightarrow> timeval \<Rightarrow> (hash_map, 'x) qstate \<Rightarrow> (hash_map, 'x) qstate res) \<Rightarrow> (hash_map, 'x) qenv" where
  "serial_env call =
     \<lparr>q_add = hash_map_add_member, q_del = hash_map_delete_member,
      q_find = (\<lambda>m k s. rbind (hash_map_find_member m k s) (\<lambda>v. Inr (v, m))), q_call = call\<rparr>"

definition add_time_event ::
    "nat \<Rightarrow> (hash_map, 'x) qenv \<Rightarrow> timeval \<Rightarrow> handler \<Rightarrow> ptr \<Rightarrow> (hash_map, 'x) qstate \<Rightarrow>
     (hash_map, 'x) qstate res" where
  "add_time_event fuel env tv handler priv s = do_add_time_event fuel env tv handler priv s"

definition remove_time_event ::
    "nat \<Rightarrow> (hash_map, 'x) qenv \<Rightarrow> ptr \<Rightarrow> (hash_map, 'x) qstate \<Rightarrow> (hash_map, 'x) qstate res" where
  "remove_time_event fuel env priv s = do_remove_time_event fuel env priv s"

definition trigger_time_event ::
    "nat \<Rightarrow> (hash_map, 'x) qenv \<Rightarrow> (hash_map, 'x) qstate \<Rightarrow> (hash_map, 'x) qstate res" where
  "trigger_time_event fuel env s =
     (let (state, s) = do_pend_event_queue s
      in if state = EVENT_QUEUE_PENDING then Inr s else trigger_pended fuel env s)"

definition pend_time_event_queue :: "(hash_map, 'x) qstate \<Rightarrow> (hash_map, 'x) qstate" where
  "pend_time_event_queue s = snd (do_pend_event_queue s)"

definition resume_time_event_queue ::
    "nat \<Rightarrow> (hash_map, 'x) qenv \<Rightarrow> (hash_map, 'x) qstate \<Rightarrow> (hash_map, 'x) qstate res" where
  "resume_time_event_queue fuel env s = do_resume_event_queue fuel env None s"

definition time_event_queue_init :: "(hash_map, 'x) qstate \<Rightarrow> int \<times> (hash_map, 'x) qstate" where
  "time_event_queue_init s =
     (let s = s\<lparr>eq_status := EVENT_QUEUE_EMPTY, nr_event := 0, events := [], free_event := [],
                itv_interval := \<lparr>tv_sec = 0, tv_usec = 0\<rparr>,
                timer_resolution := usec2tv TIMER_RESOLUTION\<rparr>;
          ret = sigaction_ret s;
          s = s\<lparr>sigalrm_installed := (ret = 0)\<rparr>;
          (m, s) = new_hash_map s
      in (ret, s\<lparr>private2event_map := m\<rparr>))"

definition time_event_queue_destroy :: "(hash_map, 'x) qstate \<Rightarrow> (hash_map, 'x) qstate" where
  "time_event_queue_destroy s =
     (let (_, s) = do_pend_event_queue s;
          s = release_events s
      in delete_hash_map (private2event_map s) s)"

section \<open>The parallel version\<close>

text \<open>
  \<open>queue_lock\<close> is a flag, as the locks of the hash map: a thread that takes a lock it holds
  spins for ever, which is the fault \<open>Deadlock\<close>.
\<close>

definition take_queue_lock :: "('m, 'x) qstate \<Rightarrow> ('m, 'x) qstate res" where
  "take_queue_lock s = (if queue_lock s then Inl Deadlock else Inr (s\<lparr>queue_lock := True\<rparr>))"

definition drop_queue_lock :: "('m, 'x) qstate \<Rightarrow> ('m, 'x) qstate" where
  "drop_queue_lock s = s\<lparr>queue_lock := False\<rparr>"

definition mt_env ::
    "(handler \<Rightarrow> ptr \<Rightarrow> timeval \<Rightarrow> (hash_map_mt, 'x) qstate \<Rightarrow> (hash_map_mt, 'x) qstate res) \<Rightarrow>
     (hash_map_mt, 'x) qenv" where
  "mt_env call =
     \<lparr>q_add = hash_map_add_member_mt, q_del = hash_map_delete_member_mt,
      q_find = hash_map_find_member_mt, q_call = call\<rparr>"

definition add_time_event_when_pending_mt ::
    "nat \<Rightarrow> (hash_map_mt, 'x) qenv \<Rightarrow> timeval \<Rightarrow> handler \<Rightarrow> ptr \<Rightarrow> (hash_map_mt, 'x) qstate \<Rightarrow>
     (hash_map_mt, 'x) qstate res" where
  "add_time_event_when_pending_mt fuel env tv handler priv s =
     do_add_time_event fuel env tv handler priv s"

definition add_time_event_mt ::
    "nat \<Rightarrow> (hash_map_mt, 'x) qenv \<Rightarrow> timeval \<Rightarrow> handler \<Rightarrow> ptr \<Rightarrow> (hash_map_mt, 'x) qstate \<Rightarrow>
     (hash_map_mt, 'x) qstate res" where
  "add_time_event_mt fuel env tv handler priv s =
     rbind (take_queue_lock s) (\<lambda>s.
     rbind (do_add_time_event fuel env tv handler priv s) (\<lambda>s. Inr (drop_queue_lock s)))"

definition remove_time_event_mt ::
    "nat \<Rightarrow> (hash_map_mt, 'x) qenv \<Rightarrow> ptr \<Rightarrow> (hash_map_mt, 'x) qstate \<Rightarrow> (hash_map_mt, 'x) qstate res" where
  "remove_time_event_mt fuel env priv s =
     rbind (take_queue_lock s) (\<lambda>s.
     rbind (do_remove_time_event fuel env priv s) (\<lambda>s. Inr (drop_queue_lock s)))"

definition remove_time_event_when_pending_mt ::
    "nat \<Rightarrow> (hash_map_mt, 'x) qenv \<Rightarrow> ptr \<Rightarrow> (hash_map_mt, 'x) qstate \<Rightarrow> (hash_map_mt, 'x) qstate res" where
  "remove_time_event_when_pending_mt fuel env priv s = do_remove_time_event fuel env priv s"

definition trigger_time_event_mt ::
    "nat \<Rightarrow> (hash_map_mt, 'x) qenv \<Rightarrow> (hash_map_mt, 'x) qstate \<Rightarrow> (hash_map_mt, 'x) qstate res" where
  "trigger_time_event_mt fuel env s =
     (if queue_lock s then Inr s
      else
        let s = s\<lparr>queue_lock := True\<rparr>;
            (state, s) = do_pend_event_queue s
        in if state = EVENT_QUEUE_PENDING then Inr (drop_queue_lock s)
           else rbind (trigger_pended fuel env s) (\<lambda>s. Inr (drop_queue_lock s)))"

definition pend_time_event_queue_mt :: "(hash_map_mt, 'x) qstate \<Rightarrow> (hash_map_mt, 'x) qstate res" where
  "pend_time_event_queue_mt s =
     rbind (take_queue_lock s) (\<lambda>s. Inr (snd (do_pend_event_queue s)))"

definition resume_time_event_queue_mt ::
    "nat \<Rightarrow> (hash_map_mt, 'x) qenv \<Rightarrow> (hash_map_mt, 'x) qstate \<Rightarrow> (hash_map_mt, 'x) qstate res" where
  "resume_time_event_queue_mt fuel env s =
     rbind (do_resume_event_queue fuel env None s) (\<lambda>s. Inr (drop_queue_lock s))"

definition time_event_queue_init_mt ::
    "(hash_map_mt, 'x) qstate \<Rightarrow> int \<times> (hash_map_mt, 'x) qstate" where
  "time_event_queue_init_mt s =
     (let s = s\<lparr>eq_status := EVENT_QUEUE_EMPTY, nr_event := 0, events := [], free_event := [],
                itv_interval := \<lparr>tv_sec = 0, tv_usec = 0\<rparr>,
                timer_resolution := usec2tv TIMER_RESOLUTION\<rparr>;
          ret = sigaction_ret s;
          s = s\<lparr>sigalrm_installed := (ret = 0)\<rparr>;
          (m, s) = new_hash_map_mt s
      in (ret, s\<lparr>private2event_map := m, queue_lock := False\<rparr>))"

definition time_event_queue_destroy_mt :: "(hash_map_mt, 'x) qstate \<Rightarrow> (hash_map_mt, 'x) qstate" where
  "time_event_queue_destroy_mt s =
     (let (_, s) = do_pend_event_queue s;
          s = release_events s
      in delete_hash_map_mt (private2event_map s) s)"

end
