(* ===== verification/Event_Queue_Correct.thy ===== *)
theory Event_Queue_Correct
  imports Event_Queue
begin

text \<open>
  Correctness of the event queue over any map that keeps the contract \<open>key_index\<close>, and for the
  maps of both versions by interpretation. The invariant \<open>eq_inv\<close> says that the events are sorted
  by their time, that the map leads from the private pointer of every queued event to the event
  and from nothing else, and that the queue and the free list share no event.
\<close>

section \<open>The invariant\<close>

definition priv :: "('m, 'x) qstate \<Rightarrow> ptr \<Rightarrow> uint64" where
  "priv s e = ev_private (ev_cell s e)"

definition trig :: "('m, 'x) qstate \<Rightarrow> ptr \<Rightarrow> int" where
  "trig s e = usecs (ev_trigger_time (ev_cell s e))"

lemma priv_upd [simp]:
  "priv (s\<lparr>events := es\<rparr>) = priv s" "priv (s\<lparr>free_event := es\<rparr>) = priv s"
  "priv (s\<lparr>private2event_map := m\<rparr>) = priv s" "priv (s\<lparr>eq_status := q\<rparr>) = priv s"
  "priv (s\<lparr>itv_value := tv\<rparr>) = priv s" "priv (s\<lparr>clock_cnt := n\<rparr>) = priv s"
  by (simp_all add: priv_def fun_eq_iff)

lemma trig_upd [simp]:
  "trig (s\<lparr>events := es\<rparr>) = trig s" "trig (s\<lparr>free_event := es\<rparr>) = trig s"
  "trig (s\<lparr>private2event_map := m\<rparr>) = trig s" "trig (s\<lparr>eq_status := q\<rparr>) = trig s"
  "trig (s\<lparr>itv_value := tv\<rparr>) = trig s" "trig (s\<lparr>clock_cnt := n\<rparr>) = trig s"
  by (simp_all add: trig_def fun_eq_iff)

text \<open>An address in use, which the allocator does not hand out again.\<close>

definition live :: "'a heap_state_scheme \<Rightarrow> ptr \<Rightarrow> bool" where
  "live s p \<longleftrightarrow> p \<noteq> NULL \<and> (\<forall>n \<ge> malloc_cnt s. malloc_seq s n \<noteq> p)"

definition malloc_fresh :: "'a heap_state_scheme \<Rightarrow> bool" where
  "malloc_fresh s \<longleftrightarrow> next_malloc s \<noteq> NULL \<and> (\<forall>n > malloc_cnt s. malloc_seq s n \<noteq> next_malloc s)"

definition lists_ok :: "('m, 'x) qstate \<Rightarrow> bool" where
  "lists_ok s \<longleftrightarrow>
     distinct (map (priv s) (events s)) \<and> distinct (free_event s) \<and>
     set (events s) \<inter> set (free_event s) = {} \<and>
     (\<forall>e \<in> set (events s) \<union> set (free_event s). live s e) \<and>
     (\<forall>e \<in> set (events s). tv_norm (ev_trigger_time (ev_cell s e))) \<and>
     sorted (map (trig s) (events s)) \<and> timer_resolution s = usec2tv TIMER_RESOLUTION"

definition eq_inv ::
    "(('m, 'x) qstate \<Rightarrow> 'm \<Rightarrow> bool) \<Rightarrow> (('m, 'x) qstate \<Rightarrow> 'm \<Rightarrow> uint64 \<rightharpoonup> ptr) \<Rightarrow> ('m, 'x) qstate \<Rightarrow> bool" where
  "eq_inv minv index s \<longleftrightarrow>
     minv s (private2event_map s) \<and>
     index s (private2event_map s) = map_of (map (\<lambda>e. (priv s e, e)) (events s)) \<and> lists_ok s"

definition due :: "timeval \<Rightarrow> ('m, 'x) qstate \<Rightarrow> nat" where
  "due now s = length (filter (\<lambda>e. trig s e \<le> usecs now) (events s))"

text \<open>Events that are neither queued nor free stay so.\<close>

definition keeps :: "('m, 'x) qstate \<Rightarrow> ('m, 'x) qstate \<Rightarrow> bool" where
  "keeps s s' \<longleftrightarrow>
     (\<forall>e. live s e \<longrightarrow> e \<notin> set (events s) \<union> set (free_event s) \<longrightarrow>
        live s' e \<and> e \<notin> set (events s') \<union> set (free_event s'))"

lemma keepsI:
  "malloc_seq s' = malloc_seq s \<Longrightarrow> malloc_cnt s \<le> malloc_cnt s' \<Longrightarrow>
   set (events s') \<union> set (free_event s') \<subseteq> set (events s) \<union> set (free_event s) \<Longrightarrow> keeps s s'"
  by (auto simp: keeps_def live_def)

lemma keeps_trans: "keeps s t \<Longrightarrow> keeps t u \<Longrightarrow> keeps s u"
  by (auto simp: keeps_def)

text \<open>
  What a handler keeps: the invariant, the state of the queue, the events that are neither queued
  nor free, and it adds no event that is due. This is a contract on callbacks, for every handler and argument; the
  handlers of the monitor meet it only as long as their chunk is live and no chunk completes inside
  the signal, so the properties of the monitor do not rest on it but on the locale \<open>queue_client\<close>.
\<close>

definition handler_ok ::
    "(('m, 'x) qstate \<Rightarrow> bool) \<Rightarrow> (handler \<Rightarrow> ptr \<Rightarrow> timeval \<Rightarrow> ('m, 'x) qstate \<Rightarrow> ('m, 'x) qstate res) \<Rightarrow>
     timeval \<Rightarrow> bool" where
  "handler_ok I call now \<longleftrightarrow>
     (\<forall>h p s. I s \<longrightarrow>
        (\<exists>s'. call h p now s = Inr s' \<and> I s' \<and> due now s' \<le> due now s \<and> eq_status s' = eq_status s \<and>
           keeps s s'))"

lemma handler_okD:
  "handler_ok J call now \<Longrightarrow> J s \<Longrightarrow> \<exists>s'. call h p now s = Inr s' \<and> J s' \<and> due now s' \<le> due now s \<and>
     eq_status s' = eq_status s \<and> keeps s s'"
  by (simp add: handler_ok_def)

lemma keeps_refl [simp]: "keeps s s"
  by (simp add: keeps_def)

lemma lists_ok_distinct: "lists_ok s \<Longrightarrow> distinct (events s)"
  by (auto simp: lists_ok_def distinct_map)

text \<open>A head that is not due is behind every event.\<close>

lemma due_zero_head:
  assumes "lists_ok s" and "events s = e # es" and "usecs now < trig s e"
  shows "due now s = 0"
  using assms by (auto simp: lists_ok_def due_def filter_empty_conv)

lemma due_zero: "due now s = 0 \<longleftrightarrow> (\<forall>e \<in> set (events s). usecs now < trig s e)"
  by (auto simp: due_def filter_empty_conv)

lemma lists_ok_cong:
  assumes "ev_cell t = ev_cell s" and "malloc_seq t = malloc_seq s" and "malloc_cnt s \<le> malloc_cnt t"
    and "timer_resolution t = timer_resolution s" and "events t = events s" and "free_event t = free_event s"
    and "lists_ok s"
  shows "lists_ok t"
proof -
  have 1: "priv t = priv s" "trig t = trig s" using assms(1) by (auto simp: priv_def trig_def fun_eq_iff)
  have 2: "live s e \<Longrightarrow> live t e" for e using assms(2,3) by (auto simp: live_def)
  show ?thesis using assms 2 unfolding lists_ok_def by (auto simp: 1)
qed

text \<open>Taking the head off the queue, and putting an event that is on no list on the free list.\<close>

lemma lists_ok_tl: "lists_ok s \<Longrightarrow> events s = e # es \<Longrightarrow> lists_ok (s\<lparr>events := es\<rparr>)"
  by (auto simp: lists_ok_def live_def)

lemma lists_ok_free:
  "lists_ok s \<Longrightarrow> live s e \<Longrightarrow> e \<notin> set (events s) \<union> set (free_event s) \<Longrightarrow>
   lists_ok (s\<lparr>free_event := e # free_event s\<rparr>)"
  by (auto simp: lists_ok_def live_def)

lemma lists_ok_unfree: "lists_ok s \<Longrightarrow> free_event s = e # es \<Longrightarrow> lists_ok (s\<lparr>free_event := es\<rparr>)"
  by (auto simp: lists_ok_def live_def)

text \<open>The place of a new event keeps the queue sorted.\<close>

lemma sorted_insert_time:
  fixes f g :: "'a \<Rightarrow> int"
  assumes "sorted (map f xs)" and "\<And>x. x \<in> set xs \<Longrightarrow> g x = f x" and "g e = t"
  shows "sorted (map g (takeWhile (\<lambda>q. f q \<le> t) xs @ e # dropWhile (\<lambda>q. f q \<le> t) xs))"
  using assms
proof (induction xs)
  case (Cons x xs)
  have "map g xs = map f xs" using Cons.prems(2) by simp
  then show ?case using Cons by (cases "f x \<le> t") (auto dest: set_takeWhileD set_dropWhileD simp del: map_eq_conv)
qed simp

lemma insert_event_eq:
  assumes "lists_ok s" and "tv_norm t" and "e \<notin> set (events s)"
  shows "insert_event e t (s\<lparr>ev_cell := (ev_cell s)(e := v)\<rparr>) =
    takeWhile (\<lambda>q. trig s q \<le> usecs t) (events s) @ e # dropWhile (\<lambda>q. trig s q \<le> usecs t) (events s)"
proof -
  have *: "(tv_cmp t (ev_trigger_time (((ev_cell s)(e := v)) q)) \<noteq> - 1) = (trig s q \<le> usecs t)" if "q \<in> set (events s)" for q
    using that assms tv_cmp_less[OF assms(2)] by (auto simp: lists_ok_def trig_def)
  show ?thesis
    unfolding insert_event_def Let_def
    by (intro arg_cong2[of _ _ _ _ "(@)"] arg_cong2[of _ _ _ _ "(#)"] takeWhile_cong dropWhile_cong refl)
       (simp_all add: * del: fun_upd_apply)
qed

lemma set_insert_event: "set (insert_event e t s) = insert e (set (events s))"
proof -
  have "set (takeWhile P xs) \<union> set (dropWhile P xs) = set xs" for P and xs :: "ptr list"
    by (metis set_append takeWhile_dropWhile_id)
  then show ?thesis by (simp add: insert_event_def Let_def)
qed

lemma enqueue_lists_ok:
  assumes L: "lists_ok s" and e: "e \<notin> set (events s) \<union> set (free_event s)" "live s e"
    and v: "ev_private v \<notin> priv s ` set (events s)" "tv_norm (ev_trigger_time v)"
  shows "lists_ok (s\<lparr>ev_cell := (ev_cell s)(e := v),
    events := insert_event e (ev_trigger_time v) (s\<lparr>ev_cell := (ev_cell s)(e := v)\<rparr>)\<rparr>)"
proof -
  let ?s = "s\<lparr>ev_cell := (ev_cell s)(e := v)\<rparr>" and ?t = "usecs (ev_trigger_time v)"
  define pre post where "pre = takeWhile (\<lambda>q. trig s q \<le> ?t) (events s)"
    and "post = dropWhile (\<lambda>q. trig s q \<le> ?t) (events s)"
  have ev: "events s = pre @ post" by (simp add: pre_def post_def)
  have pos: "insert_event e (ev_trigger_time v) ?s = pre @ e # post"
    using insert_event_eq[OF L v(2)] e(1) by (simp add: pre_def post_def)
  have same: "priv ?s q = priv s q" "trig ?s q = trig s q" if "q \<in> set (events s)" for q
    using that e(1) by (auto simp: priv_def trig_def)
  have new: "priv ?s e = ev_private v" "trig ?s e = ?t" by (simp_all add: priv_def trig_def)
  have "sorted (map (trig ?s) (pre @ e # post))"
    unfolding pre_def post_def
    by (rule sorted_insert_time) (use L same new in \<open>auto simp: lists_ok_def\<close>)
  moreover have eq: "map (priv ?s) pre = map (priv s) pre" "map (priv ?s) post = map (priv s) post"
    using same ev by auto
  then have "priv ?s ` set pre = priv s ` set pre" "priv ?s ` set post = priv s ` set post"
    by (metis list.set_map)+
  then have "distinct (map (priv ?s) (pre @ e # post))"
    using L v(1) new eq unfolding lists_ok_def ev by (auto simp: image_Un simp del: map_eq_conv)
  ultimately show ?thesis
    using L e v(2) by (auto simp: lists_ok_def pos ev priv_def trig_def live_def)
qed

lemma clock_status_swap:
  "s\<lparr>clock_cnt := n, eq_status := q\<rparr> = s\<lparr>eq_status := q, clock_cnt := n\<rparr>"
  by simp

text \<open>Moving a queued event to the free list.\<close>

lemma lists_ok_move:
  assumes L: "lists_ok s" and e: "e \<in> set (events s)"
  shows "lists_ok (s\<lparr>events := filter (\<lambda>x. x \<noteq> e) (events s), free_event := e # free_event s\<rparr>)"
proof -
  have "distinct (map (priv s) (filter (\<lambda>x. x \<noteq> e) (events s)))"
    using L by (simp add: lists_ok_def distinct_map_filter)
  moreover have "sorted (map (trig s) (filter (\<lambda>x. x \<noteq> e) (events s)))"
    using L by (simp add: lists_ok_def sorted_filter)
  moreover have "e \<notin> set (free_event s)" using L e by (auto simp: lists_ok_def)
  ultimately show ?thesis using L e unfolding lists_ok_def by (simp add: live_def) blast
qed

section \<open>The contract of the map\<close>

locale queue_map =
  key_index inv index can_add miss_ok add del find_in
  for inv :: "('m, 'x) qstate \<Rightarrow> 'm \<Rightarrow> bool"
    and index :: "('m, 'x) qstate \<Rightarrow> 'm \<Rightarrow> uint64 \<rightharpoonup> ptr"
    and can_add :: "('m, 'x) qstate \<Rightarrow> 'm \<Rightarrow> bool"
    and miss_ok :: "('m, 'x) qstate \<Rightarrow> 'm \<Rightarrow> uint64 \<Rightarrow> bool"
    and add :: "'m \<Rightarrow> uint64 \<Rightarrow> ptr \<Rightarrow> ('m, 'x) qstate \<Rightarrow> (int \<times> 'm \<times> ('m, 'x) qstate) res"
    and del :: "'m \<Rightarrow> uint64 \<Rightarrow> ('m, 'x) qstate \<Rightarrow> ('m \<times> ('m, 'x) qstate) res"
    and find_in :: "'m \<Rightarrow> uint64 \<Rightarrow> ('m, 'x) qstate \<Rightarrow> ptr res" +
  fixes qfind :: "'m \<Rightarrow> uint64 \<Rightarrow> ('m, 'x) qstate \<Rightarrow> (ptr \<times> 'm) res"
    and env :: "(handler \<Rightarrow> ptr \<Rightarrow> timeval \<Rightarrow> ('m, 'x) qstate \<Rightarrow> ('m, 'x) qstate res) \<Rightarrow> ('m, 'x) qenv"
  assumes env_def: "env call = \<lparr>q_add = add, q_del = del, q_find = qfind, q_call = call\<rparr>"
    and qfind_eq: "inv s m \<Longrightarrow> qfind m k s = rbind (find_in m k s) (\<lambda>v. Inr (v, m))"
    and add_frame: "inv s m \<Longrightarrow> add m k v s = Inr (r, m', s') \<Longrightarrow>
      hm_mt_state.more s' = hm_mt_state.more s \<and> malloc_seq s' = malloc_seq s \<and> malloc_cnt s \<le> malloc_cnt s'"
    and del_frame: "inv s m \<Longrightarrow> del m k s = Inr (m', s') \<Longrightarrow>
      hm_mt_state.more s' = hm_mt_state.more s \<and> malloc_seq s' = malloc_seq s \<and> malloc_cnt s \<le> malloc_cnt s'"
    and miss_cong: "hm_mt_state.truncate s = hm_mt_state.truncate t \<Longrightarrow> miss_ok s m k = miss_ok t m k"
    and inv_cong: "free_member s = free_member t \<Longrightarrow> mm_cell s = mm_cell t \<Longrightarrow> fm_init s = fm_init t \<Longrightarrow>
      inv s m = inv t m"
    and index_cong: "mm_cell s = mm_cell t \<Longrightarrow> index s m = index t m"
begin

abbreviation I :: "('m, 'x) qstate \<Rightarrow> bool" where
  "I \<equiv> eq_inv inv index"

lemma more_fields:
  fixes s t :: "('m, 'x) qstate"
  assumes "hm_mt_state.more s = hm_mt_state.more t"
  shows "events s = events t" "free_event s = free_event t" "ev_cell s = ev_cell t"
    "timer_resolution s = timer_resolution t" "eq_status s = eq_status t" "itv_value s = itv_value t"
    "private2event_map s = private2event_map t"
  using assms by (cases s; cases t; simp)+

lemma fire_head:
  assumes I: "I s" and ev: "events s = e # es"
  shows "\<exists>m s1. del (private2event_map s) (ev_private (ev_cell s e)) s = Inr (m, s1) \<and>
    ev_cell s1 = ev_cell s \<and> eq_status s1 = eq_status s \<and>
    (let s2 = time_event_del e (s1\<lparr>private2event_map := m\<rparr>)
     in I s2 \<and> events s2 = es \<and> free_event s2 = free_event s \<and> live s2 e \<and> ev_cell s2 = ev_cell s \<and>
        eq_status s2 = eq_status s \<and> e \<notin> set es \<union> set (free_event s) \<and>
        malloc_seq s2 = malloc_seq s \<and> malloc_cnt s \<le> malloc_cnt s2)"
proof -
  have inv: "inv s (private2event_map s)" and L: "lists_ok s"
    and ix: "index s (private2event_map s) = map_of (map (\<lambda>e. (priv s e, e)) (events s))"
    using I by (simp_all add: eq_inv_def)
  have "priv s e \<in> dom (index s (private2event_map s))" using ix ev by simp
  from del_ok[OF inv this] obtain m s1 where
    d: "del (private2event_map s) (priv s e) s = Inr (m, s1)" "inv s1 m"
       "index s1 m = (index s (private2event_map s))(priv s e := None)" by blast
  note fr = del_frame[OF inv d(1)] and fl = more_fields[of s1 s]
  let ?s2 = "time_event_del e (s1\<lparr>private2event_map := m\<rparr>)"
  have ne: "e \<notin> set es \<union> set (free_event s)" "priv s e \<notin> priv s ` set es" "live s e"
    using L ev lists_ok_distinct[OF L] by (auto simp: lists_ok_def)
  have s2: "?s2 = s1\<lparr>private2event_map := m, events := es\<rparr>"
    using fl fr ev ne by (simp add: time_event_del_def remove1_idem)
  have "lists_ok s1" by (rule lists_ok_cong[OF _ _ _ _ _ _ L]) (use fl fr in auto)
  then have "lists_ok (s1\<lparr>events := es\<rparr>)" by (rule lists_ok_tl) (use fl fr ev in simp)
  then have L2: "lists_ok ?s2"
    unfolding s2 by (rule lists_ok_cong[rotated -1]) auto
  have "inv ?s2 m" using d(2) inv_cong[of s1 ?s2 m] by (simp add: s2)
  moreover have "index ?s2 m = map_of (map (\<lambda>x. (priv ?s2 x, x)) es)"
  proof -
    have "index ?s2 m = index s1 m" by (rule index_cong) (simp add: s2)
    also have "\<dots> = (map_of (map (\<lambda>e. (priv s e, e)) (e # es)))(priv s e := None)"
      using d(3) ix ev by simp
    also have "\<dots> = map_of (map (\<lambda>e. (priv s e, e)) es)"
      using ne(2) map_of_eq_None_iff[of "map (\<lambda>e. (priv s e, e)) es" "priv s e"]
      by (auto simp: fun_eq_iff image_image)
    finally show ?thesis using fl fr by (simp add: s2 priv_def)
  qed
  ultimately have "I ?s2" using L2 by (simp add: eq_inv_def s2)
  then show ?thesis using d(1) fl fr ne
    by (intro exI[of _ m] exI[of _ s1]) (auto simp: s2 priv_def live_def Let_def)
qed

lemma I_upd [simp]:
  "I (s\<lparr>eq_status := q\<rparr>) = I s" "I (s\<lparr>itv_value := tv\<rparr>) = I s" "I (s\<lparr>clock_cnt := n\<rparr>) = I s"
proof -
  have 1: "inv (s\<lparr>eq_status := q\<rparr>) m = inv s m" "inv (s\<lparr>itv_value := tv\<rparr>) m = inv s m"
    "inv (s\<lparr>clock_cnt := n\<rparr>) m = inv s m" for m by (rule inv_cong; simp)+
  have 2: "index (s\<lparr>eq_status := q\<rparr>) m = index s m" "index (s\<lparr>itv_value := tv\<rparr>) m = index s m"
    "index (s\<lparr>clock_cnt := n\<rparr>) m = index s m" for m by (rule index_cong; simp)+
  show "I (s\<lparr>eq_status := q\<rparr>) = I s" "I (s\<lparr>itv_value := tv\<rparr>) = I s" "I (s\<lparr>clock_cnt := n\<rparr>) = I s"
    by (simp_all add: eq_inv_def 1 2 lists_ok_def live_def)
qed

lemma I_free:
  assumes "I s" and "live s e" and "e \<notin> set (events s) \<union> set (free_event s)"
  shows "I (time_event_free e s)" and "events (time_event_free e s) = events s"
    and "ev_cell (time_event_free e s) = ev_cell s" and "eq_status (time_event_free e s) = eq_status s"
    and "free_event (time_event_free e s) = e # free_event s"
proof -
  have *: "time_event_free e s = s\<lparr>free_event := e # free_event s\<rparr>"
    using assms(3) by (simp add: time_event_free_def remove1_idem)
  have "inv (s\<lparr>free_event := e # free_event s\<rparr>) m = inv s m" for m by (rule inv_cong) simp_all
  moreover have "index (s\<lparr>free_event := e # free_event s\<rparr>) m = index s m" for m by (rule index_cong) simp
  moreover have "lists_ok (s\<lparr>free_event := e # free_event s\<rparr>)"
    using lists_ok_free[of s e] assms by (simp add: eq_inv_def)
  ultimately show "I (time_event_free e s)" using assms(1) by (simp add: eq_inv_def *)
qed (use assms(3) in \<open>simp_all add: time_event_free_def remove1_idem\<close>)

lemma trigger_loop_ok:
  assumes "I s" and now: "tv_norm now" and call: "handler_ok I call now" and "due now s < fuel"
  shows "\<exists>s'. trigger_loop fuel (env call) now s = Inr s' \<and> I s' \<and> due now s' = 0 \<and>
    eq_status s' = eq_status s \<and> keeps s s' \<and> (due now s = 0 \<longrightarrow> s' = s)"
  using assms(1,4)
proof (induction fuel arbitrary: s)
  case (Suc fuel)
  have L: "lists_ok s" using Suc.prems(1) by (simp add: eq_inv_def)
  show ?case
  proof (cases "events s")
    case Nil
    then show ?thesis using Suc.prems by (auto simp: due_def)
  next
    case (Cons e es)
    have nrm: "tv_norm (ev_trigger_time (ev_cell s e))" using L Cons by (simp add: lists_ok_def)
    show ?thesis
    proof (cases "usecs now < trig s e")
      case True
      then have "tv_cmp now (ev_trigger_time (ev_cell s e)) = - 1"
        using tv_cmp_less[OF now nrm] by (simp add: trig_def)
      then show ?thesis using Cons Suc.prems due_zero_head[OF L Cons True] by auto
    next
      case False
      then have cmp: "tv_cmp now (ev_trigger_time (ev_cell s e)) \<noteq> - 1"
        using tv_cmp_less[OF now nrm] by (simp add: trig_def)
      obtain m s1 where d: "del (private2event_map s) (ev_private (ev_cell s e)) s = Inr (m, s1)"
        and f: "let s2 = time_event_del e (s1\<lparr>private2event_map := m\<rparr>)
         in I s2 \<and> events s2 = es \<and> free_event s2 = free_event s \<and> live s2 e \<and> ev_cell s2 = ev_cell s \<and>
            eq_status s2 = eq_status s \<and> e \<notin> set es \<union> set (free_event s) \<and>
            malloc_seq s2 = malloc_seq s \<and> malloc_cnt s \<le> malloc_cnt s2"
        using fire_head[OF Suc.prems(1) Cons] by blast
      define s2 where "s2 = time_event_del e (s1\<lparr>private2event_map := m\<rparr>)"
      note f2 = f[folded s2_def, unfolded Let_def]
      have k2: "keeps s s2" by (rule keepsI) (use f2 Cons in auto)
      have due2: "due now s2 = due now s - 1" "due now s \<noteq> 0"
        using f2 Cons False by (simp_all add: due_def trig_def)
      let ?h = "ev_handler (ev_cell s2 e)" and ?p = "ev_private (ev_cell s2 e)"
      have "\<exists>s3. (if ?h \<noteq> NullHandler then call ?h ?p now s2 else Inr s2) = Inr s3 \<and> I s3 \<and>
          due now s3 \<le> due now s2 \<and> eq_status s3 = eq_status s2 \<and> keeps s2 s3"
        using handler_okD[OF call, of s2 ?h ?p] f2 by (cases "?h = NullHandler") simp_all
      then obtain s3 where s3: "(if ?h \<noteq> NullHandler then call ?h ?p now s2 else Inr s2) = Inr s3" "I s3"
          "due now s3 \<le> due now s2" "eq_status s3 = eq_status s2" "keeps s2 s3" by blast
      have e3: "live s3 e" "e \<notin> set (events s3) \<union> set (free_event s3)"
        using s3(5) f2 by (auto simp: keeps_def)
      let ?s4 = "time_event_free e s3"
      note s4 = I_free[OF s3(2) e3]
      have k4: "keeps s ?s4"
        using keeps_trans[OF k2 s3(5)] Cons s4(2,5) by (auto simp: keeps_def time_event_free_def live_def Let_def)
      have "due now ?s4 = due now s3" using s4(2,3) by (simp add: due_def trig_def)
      then have "due now ?s4 < fuel" using Suc.prems(2) s3(3) due2 by linarith
      from Suc.IH[OF s4(1) this] obtain s' where
        s': "trigger_loop fuel (env call) now ?s4 = Inr s'" "I s'" "due now s' = 0"
            "eq_status s' = eq_status ?s4" "keeps ?s4 s'" by blast
      have "trigger_loop (Suc fuel) (env call) now s = Inr s'"
        using Cons cmp d s3(1) s'(1)
        by (cases "?h = NullHandler") (simp_all add: env_def s2_def[symmetric] Let_def)
      then show ?thesis using s' s4(4) s3(4) f2 due2(2) keeps_trans[OF k4 s'(5)] by auto
    qed
  qed
qed simp

lemma enqueue_ok:
  assumes I: "I s" and p: "ev_private v \<notin> priv s ` set (events s)" and t: "tv_norm (ev_trigger_time v)"
    and al: "time_event_alloc s = (e, s1)" and fresh: "free_event s = [] \<Longrightarrow> malloc_fresh s"
    and s2: "s2 = s1\<lparr>ev_cell := (ev_cell s1)(e := v)\<rparr>" and room: "can_add s2 (private2event_map s2)"
  shows "\<exists>r m s3. add (private2event_map s2) (ev_private v) e s2 = Inr (r, m, s3) \<and>
    (let s4 = s3\<lparr>private2event_map := m, events := insert_event e (ev_trigger_time v) s2\<rparr>
     in I s4 \<and> set (events s4) = insert e (set (events s)) \<and> e \<notin> set (events s) \<and>
        ev_cell s4 = (ev_cell s)(e := v) \<and> eq_status s4 = eq_status s \<and> itv_value s4 = itv_value s)"
proof -
  have inv: "inv s (private2event_map s)" and L: "lists_ok s"
    and ix: "index s (private2event_map s) = map_of (map (\<lambda>e. (priv s e, e)) (events s))"
    using I by (simp_all add: eq_inv_def)
  have s1: "ev_cell s1 = ev_cell s" "events s1 = events s" "private2event_map s1 = private2event_map s"
    "free_member s1 = free_member s" "mm_cell s1 = mm_cell s" "fm_init s1 = fm_init s" "eq_status s1 = eq_status s"
    "itv_value s1 = itv_value s" "malloc_seq s1 = malloc_seq s" "malloc_cnt s \<le> malloc_cnt s1"
    using al by (auto simp: time_event_alloc_def internal_malloc_def split: list.splits)
  have L1: "lists_ok s1"
  proof (cases "free_event s")
    case Nil
    then show ?thesis using al
      by (intro lists_ok_cong[OF _ _ _ _ _ _ L]) (auto simp: time_event_alloc_def internal_malloc_def)
  next
    case (Cons e' es)
    then show ?thesis using al lists_ok_unfree[OF L Cons] by (simp add: time_event_alloc_def)
  qed
  have e: "e \<notin> set (events s1) \<union> set (free_event s1)" "live s1 e"
    using L al fresh
    by (auto simp: time_event_alloc_def internal_malloc_def lists_ok_def live_def malloc_fresh_def
        Suc_le_eq split: list.splits)
  have inv2: "inv s2 (private2event_map s2)" using inv inv_cong[of s2 s] s1 s2 by simp
  have ix2: "index s2 (private2event_map s2) = map_of (map (\<lambda>e. (priv s e, e)) (events s))"
    using ix index_cong[of s2 s] s1 s2 by simp
  then have "index s2 (private2event_map s2) (ev_private v) = None"
    using p by (auto simp: map_of_eq_None_iff image_image)
  from add_ok[OF inv2 this room, of e] obtain m s3 where
    a: "add (private2event_map s2) (ev_private v) e s2 = Inr (0, m, s3)" "inv s3 m"
       "index s3 m = (index s2 (private2event_map s2))(ev_private v \<mapsto> e)" by blast
  note fr = add_frame[OF inv2 a(1)] and fl = more_fields[of s3 s2]
  let ?pos = "insert_event e (ev_trigger_time v) s2"
  let ?s4 = "s3\<lparr>private2event_map := m, events := ?pos\<rparr>"
  have p1: "ev_private v \<notin> priv s1 ` set (events s1)" using p s1 by (simp add: priv_def[abs_def])
  have "lists_ok (s2\<lparr>events := ?pos\<rparr>)"
    using enqueue_lists_ok[OF L1 e p1 t] by (simp add: s2)
  then have L4: "lists_ok ?s4" by (rule lists_ok_cong[rotated -1]) (use fr fl in auto)
  have set: "set ?pos = insert e (set (events s))"
    using s1 s2 by (simp add: set_insert_event)
  have "index ?s4 m = map_of (map (\<lambda>x. (priv ?s4 x, x)) ?pos)"
  proof -
    have pr: "priv s3 x = (if x = e then ev_private v else priv s x)" for x
      using fl fr s1 s2 by (simp add: priv_def)
    have "index ?s4 m = index s3 m" by (rule index_cong) simp
    also have "\<dots> = map_of ((ev_private v, e) # map (\<lambda>e. (priv s e, e)) (events s))"
      using a(3) ix2 by simp
    also have "\<dots> = map_of (map (\<lambda>x. (priv ?s4 x, x)) ?pos)"
    proof (subst map_of_inject_set)
      show "distinct (map fst ((ev_private v, e) # map (\<lambda>e. (priv s e, e)) (events s)))"
        using p L by (simp add: lists_ok_def comp_def image_image)
      show "distinct (map fst (map (\<lambda>x. (priv ?s4 x, x)) ?pos))"
        using L4 by (simp add: lists_ok_def comp_def)
      show "set ((ev_private v, e) # map (\<lambda>e. (priv s e, e)) (events s)) =
          set (map (\<lambda>x. (priv ?s4 x, x)) ?pos)"
        using e(1) s1(2) by (auto simp: set pr)
    qed
    finally show ?thesis .
  qed
  moreover have "inv ?s4 m" using a(2) inv_cong[of ?s4 s3 m] by simp
  ultimately have "I ?s4" using L4 by (simp add: eq_inv_def)
  then show ?thesis using a(1) set e(1) s1 s2 fl fr by (intro exI[of _ 0] exI[of _ m] exI[of _ s3]) (simp add: Let_def)
qed

lemma resume_ok:
  assumes "I s" and st: "eq_status s \<noteq> EVENT_QUEUE_ACTIVE" and now: "tv_norm now"
    and call: "handler_ok I call (tv_add now (usec2tv TIMER_RESOLUTION))"
    and fuel: "due (tv_add now (usec2tv TIMER_RESOLUTION)) s < fuel"
  shows "\<exists>s'. do_resume_event_queue fuel (env call) (Some now) s = Inr s' \<and> I s' \<and>
    eq_status s' = EVENT_QUEUE_ACTIVE \<and> keeps s s' \<and>
    (\<forall>e \<in> set (events s'). usecs now + 50 < trig s' e) \<and>
    (events s' \<noteq> [] \<longrightarrow> usecs (itv_value s') = trig s' (hd (events s')) - usecs now) \<and>
    (due (tv_add now (usec2tv TIMER_RESOLUTION)) s = 0 \<longrightarrow> events s' = events s \<and> ev_cell s' = ev_cell s)"
proof -
  let ?now = "tv_add now (usec2tv TIMER_RESOLUTION)"
  let ?s = "s\<lparr>eq_status := EVENT_QUEUE_ACTIVE\<rparr>"
  have R: "timer_resolution ?s = usec2tv TIMER_RESOLUTION" using assms(1) by (simp add: eq_inv_def lists_ok_def)
  have "I ?s" "tv_norm ?now" "due ?now ?s < fuel" using assms by (simp_all add: due_def)
  from trigger_loop_ok[OF this(1,2) call this(3)] obtain s1 where
    s1: "trigger_loop fuel (env call) ?now ?s = Inr s1" "I s1" "due ?now s1 = 0"
        "eq_status s1 = eq_status ?s" "keeps ?s s1" "due ?now ?s = 0 \<longrightarrow> s1 = ?s"
    by (elim exE conjE) (rule that)
  have same: "due ?now s = 0 \<longrightarrow> events s1 = events s \<and> ev_cell s1 = ev_cell s"
  proof
    assume "due ?now s = 0"
    then have "s1 = ?s" using s1(6) by (simp add: due_def)
    then show "events s1 = events s \<and> ev_cell s1 = ev_cell s" by simp
  qed
  have late: "\<forall>e \<in> set (events s1). usecs now + 50 < trig s1 e"
    using s1(3) by (auto simp: due_zero TIMER_RESOLUTION_def)
  have k: "keeps s s1" using s1(5) by (simp add: keeps_def live_def)
  show ?thesis
  proof (cases "events s1")
    case Nil
    then show ?thesis using s1(1-4) same k st R
      by (intro exI[of _ s1]) (simp add: do_resume_event_queue_def do_trigger_time_event_def Let_def)
  next
    case (Cons e es)
    let ?s2 = "set_timer (tv_sub (ev_trigger_time (ev_cell s1 e)) now) s1"
    have "do_resume_event_queue fuel (env call) (Some now) s = Inr ?s2"
      using s1(1) st R Cons by (simp add: do_resume_event_queue_def do_trigger_time_event_def Let_def)
    moreover have "I ?s2" using s1(2) by (simp add: set_timer_def)
    moreover have "keeps s ?s2" using k by (simp add: set_timer_def keeps_def live_def)
    ultimately show ?thesis using Cons late s1(4) same by (intro exI[of _ ?s2]) (simp add: set_timer_def trig_def)
  qed
qed

lemma pend_simps:
  "eq_status (snd (do_pend_event_queue s)) = EVENT_QUEUE_PENDING" "fst (do_pend_event_queue s) = eq_status s"
  "I (snd (do_pend_event_queue s)) = I s" "due now (snd (do_pend_event_queue s)) = due now s"
  "events (snd (do_pend_event_queue s)) = events s" "priv (snd (do_pend_event_queue s)) = priv s"
  "clock (snd (do_pend_event_queue s)) = clock s" "clock_cnt (snd (do_pend_event_queue s)) = clock_cnt s"
  "free_event (snd (do_pend_event_queue s)) = free_event s" "ev_cell (snd (do_pend_event_queue s)) = ev_cell s"
  "private2event_map (snd (do_pend_event_queue s)) = private2event_map s"
  "hm_mt_state.truncate (snd (do_pend_event_queue s)) = hm_mt_state.truncate s"
  by (simp_all add: do_pend_event_queue_def set_timer_def due_def hm_mt_state.defs Let_def)

lemma place_event_ok:
  assumes I: "I s" and p: "p \<notin> priv s ` set (events s)" and tv: "tv_norm tv" "tv_norm (clock s (clock_cnt s))"
    and fresh: "free_event s = [] \<Longrightarrow> malloc_fresh s"
    and room: "\<And>t. free_member t = free_member s \<Longrightarrow> mm_cell t = mm_cell s \<Longrightarrow> fm_init t = fm_init s \<Longrightarrow>
      malloc_seq t = malloc_seq s \<Longrightarrow> malloc_cnt t \<in> {malloc_cnt s, malloc_cnt s + 1} \<Longrightarrow>
      can_add t (private2event_map s)"
  shows "\<exists>e s'. place_event (env call) tv h p s = Inr (eq_status s, clock s (clock_cnt s), s') \<and> I s' \<and>
    eq_status s' = EVENT_QUEUE_PENDING \<and> set (events s') = insert e (set (events s)) \<and> e \<notin> set (events s) \<and>
    (eq_status s = EVENT_QUEUE_PENDING \<longrightarrow> itv_value s' = itv_value s) \<and>
    ev_cell s' = (ev_cell s)(e := \<lparr>ev_handler = h, ev_private = p, ev_start_time = clock s (clock_cnt s),
      ev_trigger_time = tv_add (clock s (clock_cnt s)) tv\<rparr>)"
proof -
  let ?now = "clock s (clock_cnt s)"
  define s0 where "s0 = (snd (do_pend_event_queue s))\<lparr>clock_cnt := clock_cnt s + 1\<rparr>"
  let ?v = "\<lparr>ev_handler = h, ev_private = p, ev_start_time = ?now, ev_trigger_time = tv_add ?now tv\<rparr>"
  obtain e s1 where al: "time_event_alloc s0 = (e, s1)" by fastforce
  define s2 where "s2 = s1\<lparr>ev_cell := (ev_cell s1)(e := ?v)\<rparr>"
  have s0: "I s0" "ev_private ?v \<notin> priv s0 ` set (events s0)" "eq_status s0 = EVENT_QUEUE_PENDING"
    "events s0 = events s" "ev_cell s0 = ev_cell s" "free_event s0 = free_event s"
    using I p by (simp_all add: s0_def pend_simps)
  have it: "eq_status s = EVENT_QUEUE_PENDING \<longrightarrow> itv_value s0 = itv_value s"
    by (simp add: s0_def do_pend_event_queue_def Let_def)
  have hm: "free_member s0 = free_member s" "mm_cell s0 = mm_cell s" "fm_init s0 = fm_init s"
    "malloc_seq s0 = malloc_seq s" "malloc_cnt s0 = malloc_cnt s" "private2event_map s0 = private2event_map s"
    by (simp_all add: s0_def do_pend_event_queue_def set_timer_def Let_def)
  have al': "free_member s2 = free_member s" "mm_cell s2 = mm_cell s" "fm_init s2 = fm_init s"
    "malloc_seq s2 = malloc_seq s" "malloc_cnt s2 \<in> {malloc_cnt s, malloc_cnt s + 1}"
    "private2event_map s2 = private2event_map s"
    using al hm by (auto simp: s2_def time_event_alloc_def internal_malloc_def split: list.splits)
  have "\<exists>r m s3. add (private2event_map s2) (ev_private ?v) e s2 = Inr (r, m, s3) \<and>
    (let s4 = s3\<lparr>private2event_map := m, events := insert_event e (ev_trigger_time ?v) s2\<rparr>
     in I s4 \<and> set (events s4) = insert e (set (events s0)) \<and> e \<notin> set (events s0) \<and>
        ev_cell s4 = (ev_cell s0)(e := ?v) \<and> eq_status s4 = eq_status s0 \<and> itv_value s4 = itv_value s0)"
    by (rule enqueue_ok[OF s0(1,2) _ al _ s2_def])
       (use tv fresh hm s0(6) al' room in \<open>auto simp: malloc_fresh_def\<close>)
  then obtain r m s3 where ad: "add (private2event_map s2) p e s2 = Inr (r, m, s3)"
    and f: "let s4 = s3\<lparr>private2event_map := m, events := insert_event e (tv_add ?now tv) s2\<rparr>
     in I s4 \<and> set (events s4) = insert e (set (events s0)) \<and> e \<notin> set (events s0) \<and>
        ev_cell s4 = (ev_cell s0)(e := ?v) \<and> eq_status s4 = eq_status s0 \<and> itv_value s4 = itv_value s0"
    by auto
  have pd: "do_pend_event_queue s = (eq_status s, snd (do_pend_event_queue s))"
    by (metis pend_simps(2) prod.collapse)
  have "place_event (env call) tv h p s =
      Inr (eq_status s, ?now, s3\<lparr>private2event_map := m, events := insert_event e (tv_add ?now tv) s2\<rparr>)"
    unfolding place_event_def
    by (subst pd) (use al[unfolded s0_def] ad[unfolded s2_def] in \<open>simp add: gettimeofday_def pend_simps env_def s2_def Let_def\<close>)
  then show ?thesis using f s0 it by (auto simp: Let_def)
qed

lemma add_event_ok:
  assumes I: "I s" and p: "p \<notin> priv s ` set (events s)" and tv: "tv_norm tv" "50 < usecs tv"
    and now: "now = clock s (clock_cnt s)" "tv_norm now" and fresh: "free_event s = [] \<Longrightarrow> malloc_fresh s"
    and room: "\<And>t. free_member t = free_member s \<Longrightarrow> mm_cell t = mm_cell s \<Longrightarrow> fm_init t = fm_init s \<Longrightarrow>
      malloc_seq t = malloc_seq s \<Longrightarrow> malloc_cnt t \<in> {malloc_cnt s, malloc_cnt s + 1} \<Longrightarrow>
      can_add t (private2event_map s)"
    and call: "handler_ok I call (tv_add now (usec2tv TIMER_RESOLUTION))"
    and fuel: "due (tv_add now (usec2tv TIMER_RESOLUTION)) s < fuel"
  shows "\<exists>s'. do_add_time_event fuel (env call) tv h p s = Inr s' \<and> I s' \<and>
    (\<forall>e \<in> set (events s'). usecs now + 50 < trig s' e) \<and>
    (if eq_status s = EVENT_QUEUE_PENDING then eq_status s' = EVENT_QUEUE_PENDING
     else eq_status s' = EVENT_QUEUE_ACTIVE \<and>
       (events s' \<noteq> [] \<longrightarrow> usecs (itv_value s') = trig s' (hd (events s')) - usecs now)) \<and>
    (due (tv_add now (usec2tv TIMER_RESOLUTION)) s = 0 \<longrightarrow>
     (\<exists>e. set (events s') = insert e (set (events s)) \<and> priv s' e = p \<and>
        trig s' e = usecs now + usecs tv \<and> ev_handler (ev_cell s' e) = h) \<and>
     (eq_status s = EVENT_QUEUE_PENDING \<longrightarrow> itv_value s' = itv_value s))"
proof -
  let ?n = "tv_add now (usec2tv TIMER_RESOLUTION)"
  let ?v = "\<lparr>ev_handler = h, ev_private = p, ev_start_time = now, ev_trigger_time = tv_add now tv\<rparr>"
  obtain e s4 where pl: "place_event (env call) tv h p s = Inr (eq_status s, now, s4)"
    and f4: "I s4" "eq_status s4 = EVENT_QUEUE_PENDING" "set (events s4) = insert e (set (events s))"
      "e \<notin> set (events s)" "ev_cell s4 = (ev_cell s)(e := ?v)"
    and it: "eq_status s = EVENT_QUEUE_PENDING \<longrightarrow> itv_value s4 = itv_value s"
    using place_event_ok[OF I p tv(1) now(2)[unfolded now(1)] fresh room, of call h] unfolding now(1) by blast
  have new4: "priv s4 e = p" "trig s4 e = usecs now + usecs tv" "ev_handler (ev_cell s4 e) = h"
    using f4(5) by (simp_all add: priv_def trig_def)
  have due4: "due ?n s4 = due ?n s"
  proof -
    have d: "distinct (events s)" "distinct (events s4)"
      using I f4(1) lists_ok_distinct[of s] lists_ok_distinct[of s4] by (simp_all add: eq_inv_def)
    have "{q \<in> set (events s4). trig s4 q \<le> usecs ?n} = {q \<in> set (events s). trig s q \<le> usecs ?n}"
      using f4(3-5) tv(2) by (auto simp: trig_def TIMER_RESOLUTION_def split: if_splits)
    then show ?thesis by (simp add: due_def flip: distinct_card[OF distinct_filter[OF d(1)]]
        distinct_card[OF distinct_filter[OF d(2)]])
  qed
  have n: "tv_norm ?n" using now(2) by simp
  obtain s5 where s5: "trigger_loop fuel (env call) ?n s4 = Inr s5" "I s5" "due ?n s5 = 0"
      "eq_status s5 = EVENT_QUEUE_PENDING" "due ?n s4 = 0 \<longrightarrow> s5 = s4"
    using trigger_loop_ok[OF f4(1) n call, of fuel] f4(2) due4 fuel by auto
  have "timer_resolution s4 = usec2tv TIMER_RESOLUTION" using f4(1) by (simp add: eq_inv_def lists_ok_def)
  then have run: "do_add_time_event fuel (env call) tv h p s = (if eq_status s = EVENT_QUEUE_PENDING then Inr s5
      else do_resume_event_queue fuel (env call) (Some now) s5)"
    using pl s5(1) by (cases "eq_status s") (simp_all add: do_add_time_event_def do_trigger_time_event_def)
  have late: "\<forall>e \<in> set (events s5). usecs now + 50 < trig s5 e"
    using s5(3) by (auto simp: due_zero TIMER_RESOLUTION_def)
  show ?thesis
  proof (cases "eq_status s = EVENT_QUEUE_PENDING")
    case True
    then show ?thesis using run s5 late due4 f4(3) new4 it by (intro exI[of _ s5]) auto
  next
    case False
    have 5: "eq_status s5 \<noteq> EVENT_QUEUE_ACTIVE" "due ?n s5 < fuel" using s5(3,4) fuel by auto
    from resume_ok[OF s5(2) 5(1) now(2) call 5(2)] obtain s6 where
      s6: "do_resume_event_queue fuel (env call) (Some now) s5 = Inr s6" "I s6"
        "eq_status s6 = EVENT_QUEUE_ACTIVE" "\<forall>e \<in> set (events s6). usecs now + 50 < trig s6 e"
        "events s6 \<noteq> [] \<longrightarrow> usecs (itv_value s6) = trig s6 (hd (events s6)) - usecs now"
        "events s6 = events s5" "ev_cell s6 = ev_cell s5" using s5(3) by blast
    show ?thesis using False run s6 s5(5) due4 f4(3) new4
      by (intro exI[of _ s6]) (auto simp: priv_def trig_def)
  qed
qed

text \<open>The handler of the timer signal, on a queue that is not pended.\<close>

lemma trigger_pended_ok:
  assumes "I s" and st: "eq_status s = EVENT_QUEUE_PENDING" and now: "tv_norm (clock s (clock_cnt s))"
    and call: "handler_ok I call (tv_add (clock s (clock_cnt s)) (usec2tv TIMER_RESOLUTION))"
      "handler_ok I call (clock s (clock_cnt s))"
    and fuel: "due (tv_add (clock s (clock_cnt s)) (usec2tv TIMER_RESOLUTION)) s < fuel"
  shows "\<exists>s'. trigger_pended fuel (env call) s = Inr s' \<and> I s' \<and>
    (events s' = [] \<and> eq_status s' = EVENT_QUEUE_EMPTY \<or>
     eq_status s' = EVENT_QUEUE_ACTIVE \<and> (events s' \<noteq> [] \<longrightarrow> 0 < usecs (itv_value s') \<and>
       usecs (itv_value s') = trig s' (hd (events s')) - usecs (clock s (clock_cnt s)) + 50)) \<and>
    (\<forall>e \<in> set (events s'). usecs (clock s (clock_cnt s)) < trig s' e)"
proof -
  let ?t = "clock s (clock_cnt s)"
  let ?now = "tv_add ?t (usec2tv TIMER_RESOLUTION)" and ?early = "tv_sub ?t (usec2tv TIMER_RESOLUTION)"
  let ?s = "s\<lparr>clock_cnt := clock_cnt s + 1\<rparr>"
  have R: "I u \<Longrightarrow> timer_resolution u = usec2tv TIMER_RESOLUTION" for u by (simp add: eq_inv_def lists_ok_def)
  have "I ?s" "tv_norm ?now" "due ?now ?s < fuel" using assms by (simp_all add: due_def)
  from trigger_loop_ok[OF this(1,2) call(1) this(3)] obtain s1 where
    s1: "trigger_loop fuel (env call) ?now ?s = Inr s1" "I s1" "due ?now s1 = 0"
        "eq_status s1 = eq_status ?s" by blast
  have t1: "do_trigger_time_event fuel (env call) ?t ?s = Inr s1"
    using s1(1) R[OF \<open>I ?s\<close>] by (simp add: do_trigger_time_event_def)
  show ?thesis
  proof (cases "events s1 = []")
    case True
    then show ?thesis using t1 s1(2)
      by (intro exI[of _ "s1\<lparr>eq_status := EVENT_QUEUE_EMPTY\<rparr>"]) (simp add: trigger_pended_def gettimeofday_def)
  next
    case False
    have 1: "eq_status s1 \<noteq> EVENT_QUEUE_ACTIVE" "tv_norm ?early" using s1(4) st now by simp_all
    have eq: "tv_add ?early (usec2tv TIMER_RESOLUTION) = ?t" by (rule tv_norm_eqI) (use now in simp_all)
    have "\<forall>e \<in> set (events s1). usecs ?t < trig s1 e"
      using s1(3) by (auto simp: due_zero TIMER_RESOLUTION_def)
    then have "due (tv_add ?early (usec2tv TIMER_RESOLUTION)) s1 < fuel"
      using fuel by (subst due_zero[THEN iffD2]) (auto simp: eq)
    from resume_ok[OF s1(2) 1 _ this] call(2) obtain s2 where
      s2: "do_resume_event_queue fuel (env call) (Some ?early) s1 = Inr s2" "I s2"
          "eq_status s2 = EVENT_QUEUE_ACTIVE" "\<forall>e \<in> set (events s2). usecs ?early + 50 < trig s2 e"
          "events s2 \<noteq> [] \<longrightarrow> usecs (itv_value s2) = trig s2 (hd (events s2)) - usecs ?early"
      unfolding eq by blast
    have "trigger_pended fuel (env call) s = Inr s2"
      using t1 False s2(1) R[OF s1(2)] by (simp add: trigger_pended_def gettimeofday_def)
    moreover have late: "\<forall>e \<in> set (events s2). usecs ?t < trig s2 e"
      using s2(4) by (simp add: TIMER_RESOLUTION_def)
    moreover have "0 < usecs (itv_value s2) \<and>
        usecs (itv_value s2) = trig s2 (hd (events s2)) - usecs ?t + 50" if "events s2 \<noteq> []"
      using s2(5) bspec[OF late hd_in_set[OF that]] that by (simp add: TIMER_RESOLUTION_def)
    ultimately show ?thesis using s2(2,3) by blast
  qed
qed

lemma unqueue_ok:
  assumes I: "I s" and e: "e \<in> set (events s)"
  shows "\<exists>m s1. del (private2event_map (time_event_free e s)) (priv s e) (time_event_free e s) = Inr (m, s1) \<and>
    I (s1\<lparr>private2event_map := m\<rparr>) \<and> events s1 = remove1 e (events s) \<and> ev_cell s1 = ev_cell s \<and>
    eq_status s1 = eq_status s \<and> free_event s1 = e # free_event s \<and> clock s1 = clock s \<and> clock_cnt s1 = clock_cnt s"
proof -
  have inv: "inv s (private2event_map s)" and L: "lists_ok s"
    and ix: "index s (private2event_map s) = map_of (map (\<lambda>e. (priv s e, e)) (events s))"
    using I by (simp_all add: eq_inv_def)
  let ?f = "time_event_free e s" and ?es = "filter (\<lambda>x. x \<noteq> e) (events s)"
  have d: "distinct (events s)" using L by (rule lists_ok_distinct)
  then have rm: "remove1 e (events s) = ?es" by (rule remove1_eq_filter)
  have f: "?f = s\<lparr>events := ?es, free_event := e # free_event s\<rparr>"
  proof -
    have "e \<notin> set (free_event s)" using L e by (auto simp: lists_ok_def)
    then have "remove1 e (free_event s) = free_event s" by (rule remove1_idem)
    then show ?thesis using rm by (simp add: time_event_free_def)
  qed
  have Lf: "lists_ok ?f"
    unfolding f using L e by (rule lists_ok_move)
  have inv': "inv ?f (private2event_map ?f)" using inv inv_cong[of ?f s] by (simp add: f)
  have ix': "index ?f (private2event_map ?f) = map_of (map (\<lambda>e. (priv s e, e)) (events s))"
    using ix index_cong[of ?f s] by (simp add: f)
  have "priv s e \<in> dom (index ?f (private2event_map ?f))"
    unfolding ix' using e by (simp add: dom_map_of_conv_image_fst image_image)
  from del_ok[OF inv' this] obtain m s1 where
    r: "del (private2event_map ?f) (priv s e) ?f = Inr (m, s1)" "inv s1 m"
       "index s1 m = (index ?f (private2event_map ?f))(priv s e := None)" by blast
  note fr = del_frame[OF inv' r(1)] and fl = more_fields[of s1 ?f]
  let ?s2 = "s1\<lparr>private2event_map := m\<rparr>"
  have "lists_ok ?s2" by (rule lists_ok_cong[OF _ _ _ _ _ _ Lf]) (use fr fl in auto)
  moreover have "inv ?s2 m" using r(2) inv_cong[of ?s2 s1] by simp
  moreover have "index ?s2 m = map_of (map (\<lambda>x. (priv ?s2 x, x)) (events ?s2))"
  proof -
    have pr: "priv s1 = priv s" using fl fr by (simp add: priv_def[abs_def] f)
    have "index ?s2 m = index s1 m" by (rule index_cong) simp
    also have "\<dots> = (map_of (map (\<lambda>e. (priv s e, e)) (events s)))(priv s e := None)" using r(3) ix' by simp
    also have "\<dots> = map_of (map (\<lambda>x. (priv s x, x)) ?es)"
      using map_of_remove1[of "priv s" "events s" e "\<lambda>x. x"] L d e rm by (simp add: lists_ok_def distinct_map)
    finally show ?thesis using fl fr pr by (simp add: f)
  qed
  ultimately have "I ?s2" by (simp add: eq_inv_def)
  moreover have "clock s1 = clock ?f" "clock_cnt s1 = clock_cnt ?f"
    using fr by (cases s1; cases ?f; simp)+
  ultimately show ?thesis using r(1) fl fr rm by (intro exI[of _ m] exI[of _ s1]) (simp add: f)
qed

lemma remove_event_ok:
  assumes I: "I s" and e: "e \<in> set (events s)" and now: "now = clock s (clock_cnt s)" "tv_norm now"
    and call: "handler_ok I call (tv_add now (usec2tv TIMER_RESOLUTION))"
    and quiet: "due (tv_add now (usec2tv TIMER_RESOLUTION)) s = 0" and fuel: "0 < fuel"
  shows "\<exists>s'. do_remove_time_event fuel (env call) (priv s e) s = Inr s' \<and> I s' \<and>
    events s' = remove1 e (events s) \<and> ev_cell s' = ev_cell s \<and>
    (if events s' = [] then eq_status s' = EVENT_QUEUE_EMPTY
     else eq_status s' = EVENT_QUEUE_ACTIVE \<and> usecs (itv_value s') = trig s' (hd (events s')) - usecs now)"
proof -
  define s0 where "s0 = snd (do_pend_event_queue s)"
  have s0: "I s0" "events s0 = events s" "priv s0 = priv s" "ev_cell s0 = ev_cell s"
    "eq_status s0 = EVENT_QUEUE_PENDING" "clock s0 = clock s" "clock_cnt s0 = clock_cnt s"
    using I by (simp_all add: s0_def pend_simps)
  have pd: "do_pend_event_queue s = (eq_status s, s0)" unfolding s0_def by (metis pend_simps(2) prod.collapse)
  have inv: "inv s0 (private2event_map s0)" and ix: "index s0 (private2event_map s0) (priv s e) = Some e"
    using s0 e I by (auto simp: eq_inv_def lists_ok_def map_of_eq_Some_iff comp_def)
  have fd: "qfind (private2event_map s0) (priv s e) s0 = Inr (e, private2event_map s0)"
    using qfind_eq[OF inv] find_hit[OF inv ix] by simp
  have "e \<noteq> NULL" using I e by (auto simp: eq_inv_def lists_ok_def live_def)
  obtain m s1 where u: "del (private2event_map (time_event_free e s0)) (priv s e) (time_event_free e s0) = Inr (m, s1)"
      "I (s1\<lparr>private2event_map := m\<rparr>)" "events s1 = remove1 e (events s)" "ev_cell s1 = ev_cell s"
      "eq_status s1 = EVENT_QUEUE_PENDING" "clock s1 = clock s" "clock_cnt s1 = clock_cnt s"
    using unqueue_ok[OF s0(1), of e] e s0 by auto
  let ?s2 = "s1\<lparr>private2event_map := m\<rparr>"
  have run: "do_remove_time_event fuel (env call) (priv s e) s =
      (if events s1 = [] then Inr (?s2\<lparr>eq_status := EVENT_QUEUE_EMPTY\<rparr>)
       else do_resume_event_queue fuel (env call) None ?s2)"
    using fd u(1) \<open>e \<noteq> NULL\<close> by (simp add: do_remove_time_event_def pd env_def Let_def)
  show ?thesis
  proof (cases "events s1 = []")
    case True
    then show ?thesis using run u by (intro exI[of _ "?s2\<lparr>eq_status := EVENT_QUEUE_EMPTY\<rparr>"]) simp
  next
    case False
    let ?s3 = "?s2\<lparr>clock_cnt := clock_cnt s + 1\<rparr>"
    have r: "do_resume_event_queue fuel (env call) None ?s2 = do_resume_event_queue fuel (env call) (Some now) ?s3"
      using now u by (simp add: do_resume_event_queue_def gettimeofday_def clock_status_swap Let_def)
    have d3: "due (tv_add now (usec2tv TIMER_RESOLUTION)) ?s3 = 0"
      using quiet u by (auto simp: due_zero trig_def dest: notin_set_remove1)
    have 3: "I ?s3" "eq_status ?s3 \<noteq> EVENT_QUEUE_ACTIVE" using u by simp_all
    have "due (tv_add now (usec2tv TIMER_RESOLUTION)) ?s3 < fuel" using d3 fuel by simp
    from resume_ok[OF 3 now(2) call this] obtain s4 where
      s4: "do_resume_event_queue fuel (env call) (Some now) ?s3 = Inr s4" "I s4"
        "eq_status s4 = EVENT_QUEUE_ACTIVE"
        "events s4 \<noteq> [] \<longrightarrow> usecs (itv_value s4) = trig s4 (hd (events s4)) - usecs now"
        "events s4 = events ?s3" "ev_cell s4 = ev_cell ?s3" using d3 by blast
    then show ?thesis using False run r u by (intro exI[of _ s4]) simp
  qed
qed

text \<open>Removing what is not queued leaves the queue pended and the timer off.\<close>

lemma remove_absent:
  assumes I: "I s" and p: "p \<notin> priv s ` set (events s)" and m: "miss_ok s (private2event_map s) p"
  shows "do_remove_time_event fuel (env call) p s = Inr (snd (do_pend_event_queue s))"
proof -
  define s0 where "s0 = snd (do_pend_event_queue s)"
  have s0: "I s0" "events s0 = events s" "priv s0 = priv s" "private2event_map s0 = private2event_map s"
    using I by (simp_all add: s0_def pend_simps)
  have pd: "do_pend_event_queue s = (eq_status s, s0)" unfolding s0_def by (metis pend_simps(2) prod.collapse)
  have inv: "inv s0 (private2event_map s0)" and ix: "index s0 (private2event_map s0) p = None"
    using s0 p by (auto simp: eq_inv_def map_of_eq_None_iff image_image)
  have "miss_ok s0 (private2event_map s0) p"
    using m miss_cong[of s0 s] by (simp add: s0 pend_simps s0_def)
  then have "qfind (private2event_map s0) p s0 = Inr (NULL, private2event_map s0)"
    using qfind_eq[OF inv] find_miss[OF inv ix] by simp
  then show ?thesis by (simp add: do_remove_time_event_def pd env_def Let_def flip: s0_def)
qed

end

section \<open>The maps of both versions\<close>

text \<open>The map operations change the state of the hash map only.\<close>

lemma hash_map_rebuild_frame:
  fixes s :: "('m, 'x) qstate"
  assumes "hash_map_rebuild hm s = Inr (r, hm', s')"
  shows "hm_mt_state.more s' = hm_mt_state.more s \<and> malloc_seq s' = malloc_seq s \<and> malloc_cnt s \<le> malloc_cnt s'"
  using assms
  by (auto simp: hash_map_rebuild_def internal_malloc_def internal_free_def Let_def rbind_eq_Inr split: if_splits)

lemma map_member_alloc_frame:
  fixes s :: "('m, 'x) qstate"
  assumes "map_member_alloc s = (p, s')"
  shows "hm_mt_state.more s' = hm_mt_state.more s \<and> malloc_seq s' = malloc_seq s \<and> malloc_cnt s \<le> malloc_cnt s'"
  using assms by (auto simp: map_member_alloc_def internal_malloc_def split: list.splits)

lemma hash_map_add_member_frame:
  fixes s :: "('m, 'x) qstate"
  assumes "hash_map_add_member hm k v s = Inr (r, hm', s')"
  shows "hm_mt_state.more s' = hm_mt_state.more s \<and> malloc_seq s' = malloc_seq s \<and> malloc_cnt s \<le> malloc_cnt s'"
proof -
  obtain r1 hm1 s1 p s2 where
    1: "(if hash_map_full hm then hash_map_rebuild hm s else Inr (0, hm, s)) = Inr (r1, hm1, s1)"
    and 2: "map_member_alloc s1 = (p, s2)" and 3: "s' = s2\<lparr>mm_cell := (mm_cell s2)(p := \<lparr>mm_key = k, mm_val = v\<rparr>)\<rparr>"
    using assms by (auto simp: hash_map_add_member_def rbind_def Let_def split: prod.splits sum.splits)
  have "hm_mt_state.more s1 = hm_mt_state.more s \<and> malloc_seq s1 = malloc_seq s \<and> malloc_cnt s \<le> malloc_cnt s1"
    using 1 hash_map_rebuild_frame[of hm s] by (auto split: if_splits)
  then show ?thesis using map_member_alloc_frame[OF 2] 3 by auto
qed

lemma hash_map_delete_member_frame:
  fixes s :: "('m, 'x) qstate"
  assumes "hash_map_delete_member hm k s = Inr (hm', s')"
  shows "hm_mt_state.more s' = hm_mt_state.more s \<and> malloc_seq s' = malloc_seq s \<and> malloc_cnt s \<le> malloc_cnt s'"
  using assms
  by (auto simp: hash_map_delete_member_def map_member_free_def rbind_def Let_def
      split: member_ref.splits sum.splits)

lemma hm_inv_cong:
  "free_member s = free_member t \<Longrightarrow> mm_cell s = mm_cell t \<Longrightarrow> hm_inv s hm = hm_inv t hm"
  by (simp add: hm_inv_def buckets_ok_def slot_of_def)

lemma hm_abs_cong: "mm_cell s = mm_cell t \<Longrightarrow> hm_abs s hm = hm_abs t hm"
  by (simp add: hm_abs_def)

lemma guard_ok_cong:
  fixes s t :: "'a hm_mt_state_scheme"
  assumes "hm_mt_state.truncate s = hm_mt_state.truncate t"
  shows "guard_ok s hm k = guard_ok t hm k"
  using assms by (simp add: guard_ok_def guard_word_def hm_mt_state.defs)

interpretation sq: queue_map hm_inv hm_abs can_add guard_ok
  hash_map_add_member hash_map_delete_member hash_map_find_member
  "\<lambda>m k s. rbind (hash_map_find_member m k s) (\<lambda>v. Inr (v, m))" serial_env
proof unfold_locales
  fix s :: "(hash_map, 'x) qstate" and m k
  show "hm_inv s m \<Longrightarrow> rbind (hash_map_find_member m k s) (\<lambda>v. Inr (v, m)) =
    rbind (hash_map_find_member m k s) (\<lambda>v. Inr (v, m))" ..
next
  fix s t :: "(hash_map, 'x) qstate" and m k
  assume "hm_mt_state.truncate s = hm_mt_state.truncate t"
  then show "guard_ok s m k = guard_ok t m k" by (rule guard_ok_cong)
qed (auto simp: serial_env_def dest: hash_map_add_member_frame hash_map_delete_member_frame hm_inv_cong hm_abs_cong)

lemma hash_map_add_member_mt_frame:
  fixes s :: "('m, 'x) qstate"
  assumes "mt_inv s h" and "hash_map_add_member_mt h k v s = Inr (r, h', s')"
  shows "hm_mt_state.more s' = hm_mt_state.more s \<and> malloc_seq s' = malloc_seq s \<and> malloc_cnt s \<le> malloc_cnt s'"
  using assms hash_map_add_member_mt_eq[of h s k v]
  by (auto simp: mt_inv_def with_free_locks_def rbind_eq_Inr dest: hash_map_add_member_frame)

lemma hash_map_delete_member_mt_frame:
  fixes s :: "('m, 'x) qstate"
  assumes "mt_inv s h" and "hash_map_delete_member_mt h k s = Inr (h', s')"
  shows "hm_mt_state.more s' = hm_mt_state.more s \<and> malloc_seq s' = malloc_seq s \<and> malloc_cnt s \<le> malloc_cnt s'"
  using assms
  by (auto simp: mt_inv_def hash_map_delete_member_mt_def map_member_free_mt_def rbind_def Let_def
      split: member_ref.splits sum.splits prod.splits)

lemma mt_inv_cong:
  "free_member s = free_member t \<Longrightarrow> mm_cell s = mm_cell t \<Longrightarrow> fm_init s = fm_init t \<Longrightarrow> mt_inv s h = mt_inv t h"
  by (simp add: mt_inv_def hm_inv_cong[of s t])

interpretation mq: queue_map mt_inv "\<lambda>s h. hm_abs s (mt_hm h)" "\<lambda>s h. can_add s (mt_hm h)"
  "\<lambda>s h. guard_ok s (mt_hm h)" hash_map_add_member_mt hash_map_delete_member_mt mt_find
  hash_map_find_member_mt mt_env
proof unfold_locales
  fix s :: "(hash_map_mt, 'x) qstate" and m k
  assume "mt_inv s m"
  then have l: "locks_free m" by (simp add: mt_inv_def)
  show "hash_map_find_member_mt m k s = rbind (mt_find m k s) (\<lambda>v. Inr (v, m))"
    by (simp add: mt_find_def hash_map_find_member_mt_eq[OF l] rbind_def split: sum.split)
next
  fix s t :: "(hash_map_mt, 'x) qstate" and m k
  assume "hm_mt_state.truncate s = hm_mt_state.truncate t"
  then show "guard_ok s (mt_hm m) k = guard_ok t (mt_hm m) k" by (rule guard_ok_cong)
qed (rule mt_env_def | erule (1) hash_map_add_member_mt_frame | erule (1) hash_map_delete_member_mt_frame |
     erule (2) mt_inv_cong | erule hm_abs_cong)+

section \<open>The interface of each version\<close>

text \<open>Setting the queue up establishes the invariant.\<close>

lemma time_event_queue_init_ok:
  assumes "distinct (free_member s)"
  shows "eq_inv hm_inv hm_abs (snd (time_event_queue_init s))" and "fst (time_event_queue_init s) = sigaction_ret s"
proof -
  let ?s = "s\<lparr>eq_status := EVENT_QUEUE_EMPTY, nr_event := 0, events := [], free_event := [],
    itv_interval := \<lparr>tv_sec = 0, tv_usec = 0\<rparr>, timer_resolution := usec2tv TIMER_RESOLUTION,
    sigalrm_installed := (sigaction_ret s = 0)\<rparr>"
  have n: "hm_inv (snd (new_hash_map ?s)) (fst (new_hash_map ?s)) \<and>
      hm_abs (snd (new_hash_map ?s)) (fst (new_hash_map ?s)) = Map.empty"
    by (rule new_hash_map_ok) (use assms in simp)
  have i: "snd (time_event_queue_init s) = (snd (new_hash_map ?s))\<lparr>private2event_map := fst (new_hash_map ?s)\<rparr>"
    by (simp add: time_event_queue_init_def new_hash_map_def internal_malloc_def Let_def)
  have f: "events (snd (new_hash_map ?s)) = []" "free_event (snd (new_hash_map ?s)) = []"
    "timer_resolution (snd (new_hash_map ?s)) = usec2tv TIMER_RESOLUTION"
    by (simp_all add: new_hash_map_def internal_malloc_def)
  show "eq_inv hm_inv hm_abs (snd (time_event_queue_init s))"
    using n f hm_inv_cong[of "snd (time_event_queue_init s)" "snd (new_hash_map ?s)"]
      hm_abs_cong[of "snd (time_event_queue_init s)" "snd (new_hash_map ?s)"]
    by (simp add: eq_inv_def lists_ok_def i)
  show "fst (time_event_queue_init s) = sigaction_ret s"
    by (simp add: time_event_queue_init_def new_hash_map_def internal_malloc_def Let_def)
qed

text \<open>
  A handler that adds an event through the locking interface while the signal handler holds
  \<open>queue_lock\<close> waits for itself.
\<close>

lemma add_time_event_mt_deadlock: "queue_lock s \<Longrightarrow> add_time_event_mt fuel env tv h p s = Inl Deadlock"
  by (simp add: add_time_event_mt_def take_queue_lock_def)

lemma trigger_loop_call_fault:
  assumes "events s = e # es" and "tv_cmp now (ev_trigger_time (ev_cell s e)) \<noteq> - 1"
    and "q_del env (private2event_map s) (ev_private (ev_cell s e)) s = Inr (m, s1)"
    and "ev_cell s1 = ev_cell s" and "ev_handler (ev_cell s e) \<noteq> NullHandler"
    and "q_call env (ev_handler (ev_cell s e)) (ev_private (ev_cell s e)) now
      (time_event_del e (s1\<lparr>private2event_map := m\<rparr>)) = Inl x"
  shows "trigger_loop (Suc fuel) env now s = Inl x"
  using assms by (simp add: time_event_del_def)

text \<open>The signal handler does nothing on a queue that is pended.\<close>

lemma trigger_pending_idle:
  "eq_status s = EVENT_QUEUE_PENDING \<Longrightarrow> trigger_time_event fuel env s = Inr s"
  by (simp add: trigger_time_event_def do_pend_event_queue_def Let_def)

end
