(* ===== verification/Event_Queue_Props.thy ===== *)
theory Event_Queue_Props
  imports Event_Queue_Correct
begin

text \<open>
  What the clients of the time event queue rely on, stated for the interface functions of the two
  versions, and the state of the queue in the corner cases of the code.
\<close>

section \<open>Which handlers run\<close>

text \<open>
  A handler that only records its call, in the part of the state the queue does not know; the
  record shows which handlers the queue ran, and in which order.
\<close>

type_synonym call_log = "(handler \<times> ptr) list"

definition log_call ::
    "handler \<Rightarrow> ptr \<Rightarrow> timeval \<Rightarrow> (hash_map, call_log) qstate \<Rightarrow> (hash_map, call_log) qstate res" where
  "log_call h p now s = Inr (eq_state.more_update (\<lambda>l. l @ [(h, p)]) s)"

definition call_of :: "('m, 'x) qstate \<Rightarrow> ptr \<Rightarrow> handler \<times> ptr" where
  "call_of s e = (ev_handler (ev_cell s e), ev_private (ev_cell s e))"

lemma eq_inv_more:
  fixes s :: "(hash_map, 'x) qstate"
  shows "eq_inv hm_inv hm_abs (eq_state.more_update f s) = eq_inv hm_inv hm_abs s"
proof -
  have "hm_inv (eq_state.more_update f s) m = hm_inv s m" for m by (rule hm_inv_cong) simp_all
  moreover have "hm_abs (eq_state.more_update f s) m = hm_abs s m" for m by (rule hm_abs_cong) simp
  ultimately show ?thesis by (simp add: eq_inv_def lists_ok_def live_def priv_def trig_def cong: map_cong)
qed

lemma delete_member_log:
  fixes s :: "(hash_map, 'x) qstate"
  assumes "hash_map_delete_member m k s = Inr (m', s1)"
  shows "eq_state.more s1 = eq_state.more s"
  using hash_map_delete_member_frame[OF assms] by (cases s; cases s1) simp

text \<open>One round of the loop on an event that is due.\<close>

lemma log_round:
  fixes s :: "(hash_map, call_log) qstate"
  assumes I: "eq_inv hm_inv hm_abs s" and ev: "events s = e # es" and h: "ev_handler (ev_cell s e) \<noteq> NullHandler"
    and due: "tv_cmp now (ev_trigger_time (ev_cell s e)) \<noteq> - 1"
  shows "\<exists>s'. trigger_loop (Suc fuel) (serial_env log_call) now s = trigger_loop fuel (serial_env log_call) now s' \<and>
    eq_inv hm_inv hm_abs s' \<and> events s' = es \<and> ev_cell s' = ev_cell s \<and>
    eq_state.more s' = eq_state.more s @ [call_of s e]"
proof -
  obtain m s1 where d: "hash_map_delete_member (private2event_map s) (ev_private (ev_cell s e)) s = Inr (m, s1)"
    and f: "let s2 = time_event_del e (s1\<lparr>private2event_map := m\<rparr>)
       in eq_inv hm_inv hm_abs s2 \<and> events s2 = es \<and> free_event s2 = free_event s \<and> live s2 e \<and>
          ev_cell s2 = ev_cell s \<and> e \<notin> set es \<union> set (free_event s)"
    using sq.fire_head[OF I ev] by (auto simp: Let_def)
  define s2 where "s2 = time_event_del e (s1\<lparr>private2event_map := m\<rparr>)"
  define s3 where "s3 = eq_state.more_update (\<lambda>l. l @ [call_of s e]) s2"
  note f2 = f[folded s2_def, unfolded Let_def]
  have I3: "eq_inv hm_inv hm_abs s3" and l3: "live s3 e" "e \<notin> set (events s3) \<union> set (free_event s3)"
    using f2 by (simp_all add: s3_def eq_inv_more live_def)
  note s4 = sq.I_free[OF I3 l3]
  have "eq_state.more s2 = eq_state.more s"
    using delete_member_log[OF d] by (simp add: s2_def time_event_del_def)
  then have "eq_state.more (time_event_free e s3) = eq_state.more s @ [call_of s e]"
    by (simp add: s3_def time_event_free_def Let_def)
  moreover have "trigger_loop (Suc fuel) (serial_env log_call) now s =
      trigger_loop fuel (serial_env log_call) now (time_event_free e s3)"
    using ev h due d f2 by (simp add: serial_env_def log_call_def s2_def[symmetric] s3_def call_of_def Let_def)
  ultimately show ?thesis using s4 f2 by (intro exI[of _ "time_event_free e s3"]) (simp add: s3_def)
qed

lemma trigger_logs:
  fixes s :: "(hash_map, call_log) qstate"
  assumes "eq_inv hm_inv hm_abs s" and now: "tv_norm now"
    and "\<forall>e \<in> set (events s). ev_handler (ev_cell s e) \<noteq> NullHandler" and "due now s < fuel"
  shows "\<exists>s'. trigger_loop fuel (serial_env log_call) now s = Inr s' \<and> eq_inv hm_inv hm_abs s' \<and>
    events s' = dropWhile (\<lambda>e. trig s e \<le> usecs now) (events s) \<and>
    eq_state.more s' = eq_state.more s @ map (call_of s) (takeWhile (\<lambda>e. trig s e \<le> usecs now) (events s))"
  using assms(1,3,4)
proof (induction fuel arbitrary: s)
  case (Suc fuel)
  show ?case
  proof (cases "events s")
    case Nil
    then show ?thesis using Suc.prems(1) by simp
  next
    case (Cons e es)
    then have "tv_norm (ev_trigger_time (ev_cell s e))"
      using Suc.prems(1) by (simp add: eq_inv_def lists_ok_def)
    note cmp = tv_cmp_less[OF now this]
    show ?thesis
    proof (cases "usecs now < trig s e")
      case True
      then show ?thesis using Cons Suc.prems(1) cmp by (simp add: trig_def)
    next
      case False
      then have "tv_cmp now (ev_trigger_time (ev_cell s e)) \<noteq> - 1" using cmp by (simp add: trig_def)
      moreover have "ev_handler (ev_cell s e) \<noteq> NullHandler" using Suc.prems(2) Cons by simp
      ultimately obtain s1 where s1: "trigger_loop (Suc fuel) (serial_env log_call) now s =
          trigger_loop fuel (serial_env log_call) now s1" "eq_inv hm_inv hm_abs s1" "events s1 = es"
          "ev_cell s1 = ev_cell s" "eq_state.more s1 = eq_state.more s @ [call_of s e]"
        using log_round[OF Suc.prems(1) Cons] by blast
      have same: "trig s1 = trig s" "call_of s1 = call_of s"
        using s1(4) by (auto simp: trig_def call_of_def fun_eq_iff)
      have "due now s1 < fuel" using Suc.prems(3) Cons False s1(3) same by (simp add: due_def)
      moreover have "\<forall>e \<in> set (events s1). ev_handler (ev_cell s1 e) \<noteq> NullHandler"
        using Suc.prems(2) Cons s1(3,4) by simp
      ultimately show ?thesis using Suc.IH[OF s1(2)] s1 Cons False same by auto
    qed
  qed
qed simp

lemma take_due:
  fixes f :: "'a \<Rightarrow> int"
  shows "sorted (map f xs) \<Longrightarrow> takeWhile (\<lambda>x. f x \<le> t) xs = filter (\<lambda>x. f x \<le> t) xs"
proof (induction xs)
  case (Cons x xs)
  have "filter (\<lambda>x. f x \<le> t) xs = []" if "\<not> f x \<le> t"
    using that Cons.prems by (auto simp: filter_empty_conv)
  then show ?case using Cons by auto
qed simp

lemma drop_due:
  fixes f :: "'a \<Rightarrow> int"
  shows "sorted (map f xs) \<Longrightarrow> dropWhile (\<lambda>x. f x \<le> t) xs = filter (\<lambda>x. t < f x) xs"
proof (induction xs)
  case (Cons x xs)
  have "filter (\<lambda>x. t < f x) xs = xs" if "t < f x"
    using that Cons.prems by (intro filter_True) auto
  then show ?case using Cons by auto
qed simp

text \<open>The recording handler keeps the invariant, so the contracts below apply to it.\<close>

lemma log_call_ok: "handler_ok (eq_inv hm_inv hm_abs) log_call now"
  by (auto simp: handler_ok_def log_call_def eq_inv_more due_def trig_def keeps_def live_def)

text \<open>C15: Triggering runs the right handlers. With handlers that only record their call, triggering
  the queue at a time runs, in the order of their trigger times and exactly once, the handlers of the
  events whose time is not later than that time plus the timer resolution of 50 microseconds,
  and removes exactly these events from the queue; the loop ends.\<close>

theorem trigger_runs_due_events_in_order:
  fixes s :: "(hash_map, call_log) qstate"
  assumes "eq_inv hm_inv hm_abs s" and "tv_norm now"
    and "\<forall>e \<in> set (events s). ev_handler (ev_cell s e) \<noteq> NullHandler" and "length (events s) < fuel"
  shows "\<exists>s'. do_trigger_time_event fuel (serial_env log_call) now s = Inr s' \<and> eq_inv hm_inv hm_abs s' \<and>
    events s' = filter (\<lambda>e. usecs now + 50 < trig s e) (events s) \<and>
    eq_state.more s' =
      eq_state.more s @ map (call_of s) (filter (\<lambda>e. trig s e \<le> usecs now + 50) (events s)) \<and>
    sorted (map (trig s) (events s))"
proof -
  have srt: "sorted (map (trig s) (events s))" using assms(1) by (simp add: eq_inv_def lists_ok_def)
  have "timer_resolution s = usec2tv 50"
    using assms(1) by (simp add: eq_inv_def lists_ok_def TIMER_RESOLUTION_def)
  moreover have "due (tv_add now (usec2tv 50)) s < fuel"
    using assms(4) le_less_trans[OF length_filter_le] by (auto simp: due_def)
  ultimately show ?thesis
    using trigger_logs[OF assms(1) _ assms(3), of "tv_add now (usec2tv 50)" fuel] assms(2) srt
    by (simp add: do_trigger_time_event_def take_due[OF srt] drop_due[OF srt])
qed

section \<open>Adding\<close>

text \<open>C18: \<open>add_time_event\<close> of the serial version. For a private pointer that has no event queued
  and a delay above the timer resolution, with handlers that keep the invariant, the call returns;
  the invariant holds (the queue is sorted, the index leads from each private pointer to its event);
  no event that is due is left; a queue that was not pended is active with the timer set to the time
  left to its first event, a pended one stays pended; and when nothing was due, the queue is the
  old one with exactly one more event, with the handler, pointer and time asked for.\<close>

theorem add_time_event_queues:
  fixes s :: "(hash_map, 'x) qstate"
  assumes "eq_inv hm_inv hm_abs s" and "p \<notin> priv s ` set (events s)" and "tv_norm tv" and "50 < usecs tv"
    and "now = clock s (clock_cnt s)" and "tv_norm now"
    and "free_event s = [] \<longrightarrow> malloc_fresh s"
    and "hash_map_full (private2event_map s) \<longrightarrow> hm_key_len (private2event_map s) < 26"
    and "\<forall>n \<in> {malloc_cnt s..malloc_cnt s + 2}. malloc_seq s n \<notin> set (hm_members (private2event_map s))"
    and "handler_ok (eq_inv hm_inv hm_abs) call (tv_add now (usec2tv TIMER_RESOLUTION))"
    and "length (events s) < fuel"
  shows "\<exists>s'. add_time_event fuel (serial_env call) tv h p s = Inr s' \<and> eq_inv hm_inv hm_abs s' \<and>
    (\<forall>e \<in> set (events s'). usecs now + 50 < trig s' e) \<and>
    (if eq_status s = EVENT_QUEUE_PENDING then eq_status s' = EVENT_QUEUE_PENDING
     else eq_status s' = EVENT_QUEUE_ACTIVE \<and>
       (events s' \<noteq> [] \<longrightarrow> usecs (itv_value s') = trig s' (hd (events s')) - usecs now)) \<and>
    ((\<forall>e \<in> set (events s). usecs now + 50 < trig s e) \<longrightarrow>
     (\<exists>e. set (events s') = insert e (set (events s)) \<and> priv s' e = p \<and>
        trig s' e = usecs now + usecs tv \<and> ev_handler (ev_cell s' e) = h))"
proof -
  have due: "due (tv_add now (usec2tv TIMER_RESOLUTION)) s < fuel"
    using assms(11) le_less_trans[OF length_filter_le] by (auto simp: due_def)
  have room: "can_add t (private2event_map s)"
    if "malloc_seq t = malloc_seq s" "malloc_cnt t \<in> {malloc_cnt s, malloc_cnt s + 1}" for t :: "(hash_map, 'x) qstate"
    using that assms(8,9) by (auto simp: can_add_def)
  show ?thesis
    using sq.add_event_ok[OF assms(1-6) _ _ assms(10) due, of h] assms(7) room
    by (simp add: add_time_event_def due_zero TIMER_RESOLUTION_def split del: if_split) blast
qed

text \<open>A queue just set up: a clock that advances one second per reading.\<close>

definition boot_st :: "(hash_map, call_log) qstate" where
  "boot_st = \<lparr>malloc_seq = (\<lambda>_. 0)(0 := 64, 1 := 128, 2 := 192, 3 := 256, 4 := 320, 5 := 384), malloc_below = \<lambda>_. 1, malloc_cnt = 0,
     released = [], free_member = [], mm_cell = \<lambda>_. \<lparr>mm_key = 0, mm_val = 0\<rparr>, fm_init = True,
     eq_status = EVENT_QUEUE_EMPTY, nr_event = 0, events = [], free_event = [],
     ev_cell = \<lambda>_. \<lparr>ev_handler = NullHandler, ev_private = 0, ev_start_time = \<lparr>tv_sec = 0, tv_usec = 0\<rparr>,
       ev_trigger_time = \<lparr>tv_sec = 0, tv_usec = 0\<rparr>\<rparr>,
     itv_interval = \<lparr>tv_sec = 0, tv_usec = 0\<rparr>, itv_value = \<lparr>tv_sec = 0, tv_usec = 0\<rparr>,
     timer_resolution = \<lparr>tv_sec = 0, tv_usec = 0\<rparr>, private2event_map = fresh_hm, queue_lock = False,
     clock = \<lambda>n. \<lparr>tv_sec = int n, tv_usec = 0\<rparr>, clock_cnt = 0, sigaction_ret = 0,
     sigalrm_installed = False, \<dots> = []\<rparr>"

abbreviation "boot_q \<equiv> snd (time_event_queue_init boot_st)"

lemma boot_q_inv: "eq_inv hm_inv hm_abs boot_q"
  by (rule time_event_queue_init_ok) (simp add: boot_st_def)

lemma boot_q_fields:
  "events boot_q = []" "free_event boot_q = []" "clock boot_q 0 = \<lparr>tv_sec = 0, tv_usec = 0\<rparr>" "clock_cnt boot_q = 0"
  "eq_status boot_q = EVENT_QUEUE_EMPTY" "eq_state.more boot_q = []" "malloc_cnt boot_q = 2"
  "malloc_seq boot_q = (\<lambda>_. 0)(0 := 64, 1 := 128, 2 := 192, 3 := 256, 4 := 320, 5 := 384)" "hm_members (private2event_map boot_q) = []"
  "\<not> hash_map_full (private2event_map boot_q)" "hm_key_len (private2event_map boot_q) = 10"
  by (simp_all add: time_event_queue_init_def boot_st_def new_hash_map_def internal_malloc_def
      hash_map_full_def HT_INIT_SIZE_def HT_INIT_KEY_LEN_def Let_def)

lemma boot_malloc_fresh: "malloc_fresh boot_q"
  by (auto simp: malloc_fresh_def boot_q_fields)

text \<open>A queue with one event, due at one second, and its clock at one second.\<close>

lemma one_event:
  "\<exists>s. eq_inv hm_inv hm_abs s \<and> events s = [192] \<and> call_of s 192 = (h, 7) \<and> trig s 192 = 1000000 \<and>
     eq_status s = EVENT_QUEUE_ACTIVE \<and> eq_state.more s = ([] :: call_log) \<and>
     clock s (clock_cnt s) = \<lparr>tv_sec = 1, tv_usec = 0\<rparr> \<and> hm_abs s (private2event_map s) = [7 \<mapsto> 192] \<and>
     hm_key_len (private2event_map s) = 10"
proof -
  have "can_add boot_q (private2event_map boot_q)" by (simp add: can_add_def boot_q_fields)
  moreover have "hm_inv boot_q (private2event_map boot_q)" "hm_abs boot_q (private2event_map boot_q) = Map.empty"
    using boot_q_inv by (simp_all add: eq_inv_def boot_q_fields)
  ultimately obtain m s where m: "hash_map_add_member (private2event_map boot_q) 7 192 boot_q = Inr (0, m, s)"
    "hm_inv s m" "hm_abs s m = [7 \<mapsto> 192]"
    using hm.add_ok[of boot_q "private2event_map boot_q" 7 192] by auto
  have more: "hm_mt_state.more s = hm_mt_state.more boot_q" "malloc_seq s = malloc_seq boot_q"
    using hash_map_add_member_frame[OF m(1)] by simp_all
  let ?v = "\<lparr>ev_handler = h, ev_private = 7, ev_start_time = \<lparr>tv_sec = 0, tv_usec = 0\<rparr>,
    ev_trigger_time = \<lparr>tv_sec = 1, tv_usec = 0\<rparr>\<rparr>"
  let ?s = "s\<lparr>malloc_cnt := 6, private2event_map := m, events := [192], ev_cell := (ev_cell s)(192 := ?v),
    eq_status := EVENT_QUEUE_ACTIVE, clock_cnt := 1\<rparr>"
  have f: "free_event s = []" "timer_resolution s = usec2tv TIMER_RESOLUTION" "eq_state.more s = []"
    "clock s 1 = \<lparr>tv_sec = 1, tv_usec = 0\<rparr>"
  proof -
    have "clock boot_q 1 = \<lparr>tv_sec = 1, tv_usec = 0\<rparr>" "timer_resolution boot_q = usec2tv TIMER_RESOLUTION"
      by (simp_all add: time_event_queue_init_def boot_st_def new_hash_map_def internal_malloc_def Let_def)
    then show "free_event s = []" "timer_resolution s = usec2tv TIMER_RESOLUTION" "eq_state.more s = []"
      "clock s 1 = \<lparr>tv_sec = 1, tv_usec = 0\<rparr>"
      using more(1) boot_q_fields(2,6) by (cases s; cases boot_q; simp)+
  qed
  have "hm_inv ?s m" "hm_abs ?s m = [7 \<mapsto> 192]"
    using m(2,3) hm_inv_cong[of ?s s m] hm_abs_cong[of ?s s m] by simp_all
  moreover have "lists_ok ?s"
    using f by (simp add: lists_ok_def live_def more(2) boot_q_fields tv_norm_def)
  ultimately have "eq_inv hm_inv hm_abs ?s" by (simp add: eq_inv_def priv_def)
  moreover have "hm_abs ?s m = [7 \<mapsto> 192]" by fact
  moreover have "hm_key_len m = 10"
    using hash_map_add_member_key_len[OF m(1)] boot_q_fields(10,11) by simp
  ultimately show ?thesis using f by (intro exI[of _ ?s]) (simp add: call_of_def trig_def usecs_def)
qed

theorem trigger_runs_due_events_in_order_witness:
  "\<exists>s s'. events s = [192] \<and> do_trigger_time_event 2 (serial_env log_call) \<lparr>tv_sec = 1, tv_usec = 0\<rparr> s = Inr s' \<and>
     events s' = [] \<and> eq_state.more s' = [(BurstSkipHandler, 7)]"
proof -
  obtain s :: "(hash_map, call_log) qstate" where s: "eq_inv hm_inv hm_abs s" "events s = [192]" "call_of s 192 = (BurstSkipHandler, 7)"
    "trig s 192 = 1000000" "eq_state.more s = ([] :: call_log)"
    using one_event[of BurstSkipHandler] by blast
  then have "\<forall>e \<in> set (events s). ev_handler (ev_cell s e) \<noteq> NullHandler" by (simp add: call_of_def)
  from trigger_runs_due_events_in_order[OF s(1) _ this, of "\<lparr>tv_sec = 1, tv_usec = 0\<rparr>" 2] s show ?thesis
    by (auto simp: tv_norm_def usecs_def)
qed

theorem add_time_event_queues_witness:
  "\<exists>s' e. add_time_event 1 (serial_env log_call) \<lparr>tv_sec = 1, tv_usec = 0\<rparr> BurstSkipHandler 7 boot_q = Inr s' \<and>
     events s' = [e] \<and> call_of s' e = (BurstSkipHandler, 7) \<and> trig s' e = 1000000"
proof -
  have "\<exists>s'. add_time_event 1 (serial_env log_call) \<lparr>tv_sec = 1, tv_usec = 0\<rparr> BurstSkipHandler 7 boot_q = Inr s' \<and>
    eq_inv hm_inv hm_abs s' \<and> (\<forall>e \<in> set (events s'). usecs \<lparr>tv_sec = 0, tv_usec = 0\<rparr> + 50 < trig s' e) \<and>
    (if eq_status boot_q = EVENT_QUEUE_PENDING then eq_status s' = EVENT_QUEUE_PENDING
     else eq_status s' = EVENT_QUEUE_ACTIVE \<and>
       (events s' \<noteq> [] \<longrightarrow> usecs (itv_value s') = trig s' (hd (events s')) - usecs \<lparr>tv_sec = 0, tv_usec = 0\<rparr>)) \<and>
    ((\<forall>e \<in> set (events boot_q). usecs \<lparr>tv_sec = 0, tv_usec = 0\<rparr> + 50 < trig boot_q e) \<longrightarrow>
     (\<exists>e. set (events s') = insert e (set (events boot_q)) \<and> priv s' e = 7 \<and>
        trig s' e = usecs \<lparr>tv_sec = 0, tv_usec = 0\<rparr> + usecs \<lparr>tv_sec = 1, tv_usec = 0\<rparr> \<and>
        ev_handler (ev_cell s' e) = BurstSkipHandler))"
    by (rule add_time_event_queues)
       (simp_all add: boot_q_inv boot_q_fields boot_malloc_fresh log_call_ok tv_norm_def usecs_def)
  then obtain s' e where s': "add_time_event 1 (serial_env log_call) \<lparr>tv_sec = 1, tv_usec = 0\<rparr> BurstSkipHandler 7 boot_q = Inr s'"
    "eq_inv hm_inv hm_abs s'" "set (events s') = {e}" "priv s' e = 7" "trig s' e = 1000000"
    "ev_handler (ev_cell s' e) = BurstSkipHandler"
    by (auto simp: boot_q_fields usecs_def)
  have "distinct (events s')" using s'(2) lists_ok_distinct[of s'] by (simp add: eq_inv_def)
  from distinct_set_singleton[OF this s'(3)] have "events s' = [e]" .
  then show ?thesis using s' by (auto simp: call_of_def priv_def)
qed

section \<open>Removing\<close>

text \<open>\<open>remove_time_event\<close> of the serial version, for a queued event while nothing is due: exactly
  that event leaves the queue, the invariant holds, and the queue is empty or active with the timer
  set to the time left to the first of the other events.\<close>

theorem remove_time_event_unqueues:
  fixes s :: "(hash_map, 'x) qstate"
  assumes "eq_inv hm_inv hm_abs s" and "e \<in> set (events s)" and "now = clock s (clock_cnt s)" and "tv_norm now"
    and "handler_ok (eq_inv hm_inv hm_abs) call (tv_add now (usec2tv TIMER_RESOLUTION))"
    and "\<forall>q \<in> set (events s). usecs now + 50 < trig s q" and "0 < fuel"
  shows "\<exists>s'. remove_time_event fuel (serial_env call) (priv s e) s = Inr s' \<and> eq_inv hm_inv hm_abs s' \<and>
    events s' = remove1 e (events s) \<and>
    (if events s' = [] then eq_status s' = EVENT_QUEUE_EMPTY
     else eq_status s' = EVENT_QUEUE_ACTIVE \<and> usecs (itv_value s') = trig s' (hd (events s')) - usecs now)"
proof -
  have "due (tv_add now (usec2tv TIMER_RESOLUTION)) s = 0"
    using assms(6) by (simp add: due_zero TIMER_RESOLUTION_def)
  from sq.remove_event_ok[OF assms(1-5) this assms(7)] show ?thesis
    unfolding remove_time_event_def by blast
qed

theorem remove_time_event_unqueues_witness:
  "\<exists>s s'. events s = [192] \<and> remove_time_event 1 (serial_env log_call) 7 s = Inr s' \<and> events s' = [] \<and>
     eq_status s' = EVENT_QUEUE_EMPTY"
proof -
  obtain s :: "(hash_map, call_log) qstate" where s: "eq_inv hm_inv hm_abs s" "events s = [192]" "call_of s 192 = (BurstSkipHandler, 7)"
    "trig s 192 = 1000000"
    using one_event[of BurstSkipHandler] by blast
  let ?s = "s\<lparr>clock := \<lambda>_. \<lparr>tv_sec = 0, tv_usec = 0\<rparr>\<rparr>"
  have "eq_inv hm_inv hm_abs ?s"
    using s(1) hm_inv_cong[of ?s s] hm_abs_cong[of ?s s]
    by (simp add: eq_inv_def lists_ok_def live_def priv_def trig_def cong: map_cong)
  moreover have "\<forall>q \<in> set (events ?s). usecs \<lparr>tv_sec = 0, tv_usec = 0\<rparr> + 50 < trig ?s q"
    using s(2,4) by (simp add: trig_def usecs_def)
  moreover have "priv ?s 192 = 7" using s(3) by (simp add: priv_def call_of_def)
  moreover have "192 \<in> set (events ?s)" using s(2) by simp
  ultimately have "\<exists>s'. remove_time_event 1 (serial_env log_call) 7 ?s = Inr s' \<and> events s' = [] \<and>
      eq_status s' = EVENT_QUEUE_EMPTY"
    using remove_time_event_unqueues[of ?s 192 "\<lparr>tv_sec = 0, tv_usec = 0\<rparr>" log_call 1] s(2) log_call_ok
    by (auto simp: tv_norm_def)
  moreover have "events ?s = [192]" using s(2) by simp
  ultimately show ?thesis by blast
qed

text \<open>Removing an event that is not queued stops the queue: the call returns with the queue pended
  and the timer switched off, although the queued events are all still there, and the signal
  handler of a pended queue does nothing.\<close>

theorem remove_absent_event_stalls_queue:
  fixes s :: "(hash_map, 'x) qstate"
  assumes "eq_inv hm_inv hm_abs s" and "p \<notin> priv s ` set (events s)" and "guard_ok s (private2event_map s) p"
    and "eq_status s = EVENT_QUEUE_ACTIVE"
  shows "\<exists>s'. remove_time_event fuel (serial_env call) p s = Inr s' \<and> eq_status s' = EVENT_QUEUE_PENDING \<and>
    itv_value s' = \<lparr>tv_sec = 0, tv_usec = 0\<rparr> \<and> events s' = events s \<and>
    trigger_time_event fuel' env s' = Inr s'"
  using sq.remove_absent[OF assms(1-3), of fuel call] assms(4) trigger_pending_idle[of "snd (do_pend_event_queue s)"]
  by (simp add: remove_time_event_def do_pend_event_queue_def set_timer_def Let_def)

theorem remove_absent_event_stalls_queue_witness:
  "\<exists>s s'. events s = [192] \<and> remove_time_event 1 (serial_env log_call) 65536 s = Inr s' \<and> events s' = [192] \<and>
     eq_status s' = EVENT_QUEUE_PENDING"
proof -
  obtain s :: "(hash_map, call_log) qstate" where s: "eq_inv hm_inv hm_abs s" "events s = [192]"
    "call_of s 192 = (BurstSkipHandler, 7)" "eq_status s = EVENT_QUEUE_ACTIVE"
    "hm_abs s (private2event_map s) = [7 \<mapsto> 192]" "hm_key_len (private2event_map s) = 10"
    using one_event[of BurstSkipHandler] by blast
  have inv: "hm_inv s (private2event_map s)" using s(1) by (simp add: eq_inv_def)
  have "get_map_slot 7 (get_key_mask 10) 10 = 0" "get_map_slot 65536 (get_key_mask 10) 10 = 32" by code_simp+
  then have "guard_ok s (private2event_map s) 65536"
    by (intro guard_ok_slot[OF inv]) (use s(5,6) inv in \<open>auto simp: get_map_entry_def hm_inv_def shape_ok_def\<close>)
  moreover have "65536 \<notin> priv s ` set (events s)" using s(2,3) by (simp add: priv_def call_of_def)
  ultimately show ?thesis
    using remove_absent_event_stalls_queue[OF s(1) _ _ s(4), of 65536 1 log_call] s(2) by metis
qed

section \<open>The signal handler\<close>

text \<open>The signal handler of the serial version, on a queue that is not pended and with handlers
  that keep the invariant: it returns, the invariant holds, every event that was due is gone, and
  the queue is empty or active with the timer set to a positive time, at most the time left to the
  first event plus the timer resolution.\<close>

theorem trigger_time_event_rearms:
  fixes s :: "(hash_map, 'x) qstate"
  assumes "eq_inv hm_inv hm_abs s" and "eq_status s \<noteq> EVENT_QUEUE_PENDING" and "now = clock s (clock_cnt s)"
    and "tv_norm now" and "\<forall>t. handler_ok (eq_inv hm_inv hm_abs) call t" and "length (events s) < fuel"
  shows "\<exists>s'. trigger_time_event fuel (serial_env call) s = Inr s' \<and> eq_inv hm_inv hm_abs s' \<and>
    (\<forall>e \<in> set (events s'). usecs now < trig s' e) \<and>
    (events s' = [] \<and> eq_status s' = EVENT_QUEUE_EMPTY \<or>
     eq_status s' = EVENT_QUEUE_ACTIVE \<and> (events s' \<noteq> [] \<longrightarrow> 0 < usecs (itv_value s') \<and>
       usecs (itv_value s') = trig s' (hd (events s')) - usecs now + 50))"
proof -
  let ?s = "snd (do_pend_event_queue s)"
  have "due (tv_add now (usec2tv TIMER_RESOLUTION)) s < fuel"
    using assms(6) le_less_trans[OF length_filter_le] by (auto simp: due_def)
  then have "\<exists>s'. trigger_pended fuel (serial_env call) ?s = Inr s' \<and> eq_inv hm_inv hm_abs s' \<and>
    (events s' = [] \<and> eq_status s' = EVENT_QUEUE_EMPTY \<or>
     eq_status s' = EVENT_QUEUE_ACTIVE \<and> (events s' \<noteq> [] \<longrightarrow> 0 < usecs (itv_value s') \<and>
       usecs (itv_value s') = trig s' (hd (events s')) - usecs (clock ?s (clock_cnt ?s)) + 50)) \<and>
    (\<forall>e \<in> set (events s'). usecs (clock ?s (clock_cnt ?s)) < trig s' e)"
    using assms by (intro sq.trigger_pended_ok) (simp_all add: sq.pend_simps)
  moreover have "trigger_time_event fuel (serial_env call) s = trigger_pended fuel (serial_env call) ?s"
    using assms(2) by (simp add: trigger_time_event_def do_pend_event_queue_def Let_def split: prod.split)
  ultimately show ?thesis using assms(3) by (auto simp: sq.pend_simps)
qed

theorem trigger_time_event_rearms_witness:
  "\<exists>s s'. events s = [192] \<and> trigger_time_event 2 (serial_env log_call) s = Inr s' \<and> eq_inv hm_inv hm_abs s' \<and>
     (\<forall>e \<in> set (events s'). 1000000 < trig s' e)"
proof -
  obtain s :: "(hash_map, call_log) qstate" where s: "eq_inv hm_inv hm_abs s" "events s = [192]" "eq_status s = EVENT_QUEUE_ACTIVE"
    "clock s (clock_cnt s) = \<lparr>tv_sec = 1, tv_usec = 0\<rparr>"
    using one_event[of BurstSkipHandler] by blast
  from trigger_time_event_rearms[OF s(1) _ s(4)[symmetric], of log_call 2] s show ?thesis
    by (auto simp: log_call_ok tv_norm_def usecs_def)
qed

section \<open>Setting up\<close>

lemma new_hash_map_mt_ok:
  fixes s :: "'a hm_mt_state_scheme"
  assumes "distinct (free_member s)" and "fm_init s"
  shows "mt_inv (snd (new_hash_map_mt s)) (fst (new_hash_map_mt s)) \<and>
    hm_abs (snd (new_hash_map_mt s)) (mt_hm (fst (new_hash_map_mt s))) = Map.empty"
  using new_hash_map_ok[OF assms(1)] assms(2)
  by (simp add: new_hash_map_mt_def new_hash_map_def internal_malloc_def mt_inv_def locks_free_def Let_def)

lemma time_event_queue_init_mt_ok:
  assumes "distinct (free_member s)" and "fm_init s"
  shows "eq_inv mt_inv (\<lambda>s h. hm_abs s (mt_hm h)) (snd (time_event_queue_init_mt s))"
proof -
  let ?s = "s\<lparr>eq_status := EVENT_QUEUE_EMPTY, nr_event := 0, events := [], free_event := [],
    itv_interval := \<lparr>tv_sec = 0, tv_usec = 0\<rparr>, timer_resolution := usec2tv TIMER_RESOLUTION,
    sigalrm_installed := (sigaction_ret s = 0)\<rparr>"
  let ?q = "snd (new_hash_map_mt ?s)" and ?h = "fst (new_hash_map_mt ?s)"
  have n: "mt_inv ?q ?h \<and> hm_abs ?q (mt_hm ?h) = Map.empty"
    by (rule new_hash_map_mt_ok) (use assms in simp_all)
  have i: "snd (time_event_queue_init_mt s) = ?q\<lparr>private2event_map := ?h, queue_lock := False\<rparr>"
    by (simp add: time_event_queue_init_mt_def new_hash_map_mt_def internal_malloc_def Let_def)
  have f: "events ?q = []" "free_event ?q = []" "timer_resolution ?q = usec2tv TIMER_RESOLUTION"
    by (simp_all add: new_hash_map_mt_def internal_malloc_def)
  show ?thesis
    using n f mt_inv_cong[of "snd (time_event_queue_init_mt s)" ?q] hm_abs_cong[of "snd (time_event_queue_init_mt s)" ?q]
    by (simp add: eq_inv_def lists_ok_def i)
qed

definition boot_st_mt :: "(hash_map_mt, unit) qstate" where
  "boot_st_mt = \<lparr>malloc_seq = (\<lambda>_. 0)(0 := 64, 1 := 128, 2 := 192, 3 := 256), malloc_below = \<lambda>_. 1, malloc_cnt = 0,
     released = [], free_member = [], mm_cell = \<lambda>_. \<lparr>mm_key = 0, mm_val = 0\<rparr>, fm_init = True,
     eq_status = EVENT_QUEUE_EMPTY, nr_event = 0, events = [], free_event = [],
     ev_cell = \<lambda>_. \<lparr>ev_handler = NullHandler, ev_private = 0, ev_start_time = \<lparr>tv_sec = 0, tv_usec = 0\<rparr>,
       ev_trigger_time = \<lparr>tv_sec = 0, tv_usec = 0\<rparr>\<rparr>,
     itv_interval = \<lparr>tv_sec = 0, tv_usec = 0\<rparr>, itv_value = \<lparr>tv_sec = 0, tv_usec = 0\<rparr>,
     timer_resolution = \<lparr>tv_sec = 0, tv_usec = 0\<rparr>, private2event_map = fresh_mt, queue_lock = False,
     clock = \<lambda>n. \<lparr>tv_sec = int n, tv_usec = 0\<rparr>, clock_cnt = 0, sigaction_ret = 0, sigalrm_installed = False\<rparr>"

text \<open>Setting the queue up, in both versions, returns the result of installing the signal
  handler and gives an empty queue that satisfies the invariant, with a fresh index and, in the
  parallel version, the queue lock released.\<close>

theorem time_event_queue_init_establishes:
  fixes s :: "(hash_map, 'x) qstate" and t :: "(hash_map_mt, 'y) qstate"
  assumes "distinct (free_member s)" and "distinct (free_member t)" and "fm_init t"
  shows "fst (time_event_queue_init s) = sigaction_ret s \<and> eq_inv hm_inv hm_abs (snd (time_event_queue_init s)) \<and>
    events (snd (time_event_queue_init s)) = [] \<and>
    fst (time_event_queue_init_mt t) = sigaction_ret t \<and>
    eq_inv mt_inv (\<lambda>s h. hm_abs s (mt_hm h)) (snd (time_event_queue_init_mt t)) \<and>
    events (snd (time_event_queue_init_mt t)) = [] \<and> \<not> queue_lock (snd (time_event_queue_init_mt t))"
  using time_event_queue_init_ok[OF assms(1)] time_event_queue_init_mt_ok[OF assms(2,3)]
  by (simp add: time_event_queue_init_def new_hash_map_def time_event_queue_init_mt_def new_hash_map_mt_def
      internal_malloc_def Let_def)

theorem time_event_queue_init_establishes_witness:
  "fst (time_event_queue_init boot_st) = 0 \<and> events (snd (time_event_queue_init_mt boot_st_mt)) = []"
  using time_event_queue_init_establishes[of boot_st boot_st_mt] by (simp add: boot_st_def boot_st_mt_def)

end
