(* ===== verification/NW_Config.thy ===== *)
theory NW_Config
  imports NW_Prelude
begin

text \<open>
  The constants of \<open>config.h\<close>, the page arithmetic, and the cache sizes of \<open>nightwatch.c\<close>. The
  two versions differ in the size of the last-level cache.
\<close>

definition CACHE_LINE_SHIFT :: nat where "CACHE_LINE_SHIFT = 6"
definition L3_SZ_IN_LINE :: int where "L3_SZ_IN_LINE = 163840"
definition L3_SZ_IN_LINE_mt :: int where "L3_SZ_IN_LINE_mt = 131072"
definition PREFETCH_BATCH :: uint64 where "PREFETCH_BATCH = 1"

definition PAGE_SIZE :: uint64 where "PAGE_SIZE = 4096"
definition PAGE_SHIFT :: nat where "PAGE_SHIFT = 12"
definition PAGE_MASK :: uint64 where "PAGE_MASK = NOT (shl64 1 PAGE_SHIFT - 1)"

definition UPPER_PAGE_ALIGN :: "uint64 \<Rightarrow> uint64" where
  "UPPER_PAGE_ALIGN addr = (addr + PAGE_SIZE - 1) AND PAGE_MASK"

definition LOWER_PAGE_ALIGN :: "uint64 \<Rightarrow> uint64" where
  "LOWER_PAGE_ALIGN addr = addr AND PAGE_MASK"

definition INNER_CALL_STACK_DEPTH :: nat where "INNER_CALL_STACK_DEPTH = 2"
definition TOTAL_CALL_STACK_DEPTH :: nat where "TOTAL_CALL_STACK_DEPTH = 8 + INNER_CALL_STACK_DEPTH"

definition S2T_MAP_SIZE :: uint64 where "S2T_MAP_SIZE = 65536"
definition S2T_MAP_UPDATE_INTERVAL_MAX :: int where "S2T_MAP_UPDATE_INTERVAL_MAX = 1024"
definition SMALL_MEMORY_CHUNK :: uint64 where "SMALL_MEMORY_CHUNK = 8192"
definition LARGE_MEMORY_CHUNK :: uint64 where "LARGE_MEMORY_CHUNK = 1048576"
definition SAMPLE_INTERVAL :: uint64 where "SAMPLE_INTERVAL = 5000000"

definition RESTRICT_MAPPING :: int where "RESTRICT_MAPPING = 0"
definition OPEN_MAPPING :: int where "OPEN_MAPPING = 1"
definition UNKNOWN_MAPPING :: int where "UNKNOWN_MAPPING = 2"

definition cache_line_under_restrict_mapping :: "int \<Rightarrow> int" where
  "cache_line_under_restrict_mapping l3 = l3 div 8"

definition cache_line_under_open_mapping :: "int \<Rightarrow> int" where
  "cache_line_under_open_mapping l3 = l3"

definition cache_size_under_restrict_mapping :: "int \<Rightarrow> int" where
  "cache_size_under_restrict_mapping l3 = i32 (l3 div 8 * 2 ^ CACHE_LINE_SHIFT)"

definition cache_size_under_open_mapping :: "int \<Rightarrow> int" where
  "cache_size_under_open_mapping l3 = i32 (l3 * 2 ^ CACHE_LINE_SHIFT)"

lemmas mapping_defs = RESTRICT_MAPPING_def OPEN_MAPPING_def UNKNOWN_MAPPING_def

text \<open>The remainder of C: the sign of the dividend.\<close>

definition c_rem :: "int \<Rightarrow> int \<Rightarrow> int" where
  "c_rem a b = sgn a * (\<bar>a\<bar> mod \<bar>b\<bar>)"

lemma c_rem_pos: "0 \<le> a \<Longrightarrow> 0 < b \<Longrightarrow> c_rem a b = a mod b"
  by (auto simp: c_rem_def sgn_if)

section \<open>Page arithmetic\<close>

lemma PAGE_MASK_eq: "PAGE_MASK = NOT (mask 12)"
  by (simp add: PAGE_MASK_def PAGE_SHIFT_def shl64_def mask_eq_exp_minus_1)

lemma uint_and_not_mask:
  fixes x :: uint64
  shows "uint (x AND NOT (mask k)) = uint x - uint x mod 2 ^ k"
proof -
  have t: "uint (take_bit k x) = uint x mod 2 ^ k" by (simp only: unsigned_take_bit_eq take_bit_eq_mod[of k "uint x"])
  then have "uint (take_bit k x) \<le> uint x" by (simp add: zmod_le_nonneg_dividend)
  then have "uint (x - take_bit k x) = uint x - uint (take_bit k x)" by (rule uint_sub_lem[THEN iffD1])
  then show ?thesis using t by (simp only: and_not_mask)
qed

lemma and_page_mask: "uint (x AND PAGE_MASK) = uint x - uint x mod 4096"
  using uint_and_not_mask[of x 12] by (simp add: PAGE_MASK_eq)

lemma UPPER_PAGE_ALIGN_uint:
  assumes "uint a + 4095 < 2 ^ 64"
  shows "uint (UPPER_PAGE_ALIGN a) = (uint a + 4095) div 4096 * 4096"
proof -
  have "uint (a + 4095) = uint a + 4095"
    using assms uint_add_lem[of a 4095] by simp
  moreover have "UPPER_PAGE_ALIGN a = (a + 4095) AND PAGE_MASK" by (simp add: UPPER_PAGE_ALIGN_def PAGE_SIZE_def add.commute)
  ultimately show ?thesis by (simp add: and_page_mask minus_mod_eq_div_mult)
qed

lemma LOWER_PAGE_ALIGN_uint: "uint (LOWER_PAGE_ALIGN a) = uint a div 4096 * 4096"
  by (simp add: LOWER_PAGE_ALIGN_def and_page_mask minus_mod_eq_div_mult)

end
