(* ===== verification/Float32.thy ===== *)
theory Float32
  imports NW_Prelude "HOL-Library.Log_Nat"
begin

text \<open>
  The C type \<open>float\<close> as the sources use it: quotients of 32-bit counters and differences of such
  quotients, compared with \<open>double\<close> constants. A float is the rational number it stands for, and
  \<open>fl32\<close> rounds to 24 significant bits, to nearest with ties to even. The values that occur are
  zero or between \<open>2 ^ - 56\<close> and \<open>2 ^ 32\<close> in size, so neither overflow nor the subnormal range
  is reached. A comparison with a \<open>double\<close> is exact; the constants are the exact values of the
  nearest doubles.
\<close>

definition rhe :: "rat \<Rightarrow> int" where
  "rhe x =
     (let f = \<lfloor>x\<rfloor>; r = x - of_int f
      in if r < 1 / 2 then f else if r > 1 / 2 then f + 1 else if even f then f else f + 1)"

definition pow2 :: "int \<Rightarrow> rat" where
  "pow2 k = (if 0 \<le> k then 2 ^ nat k else 1 / 2 ^ nat (- k))"

definition bin_exp :: "rat \<Rightarrow> int" where
  "bin_exp x =
     (let (n, d) = quotient_of x; e = bitlen n - bitlen d
      in if pow2 e \<le> x then e else e - 1)"

definition fl32 :: "rat \<Rightarrow> rat" where
  "fl32 x =
     (if x = 0 then 0
      else
        let u = pow2 (bin_exp \<bar>x\<bar> - 23)
        in sgn x * of_int (rhe (\<bar>x\<bar> / u)) * u)"

section \<open>Operations and constants\<close>

definition f_of_uint :: "uint32 \<Rightarrow> rat" where
  "f_of_uint w = fl32 (of_int (uint w))"

definition f_of_int :: "int \<Rightarrow> rat" where
  "f_of_int i = fl32 (of_int i)"

definition f_div :: "rat \<Rightarrow> rat \<Rightarrow> rat" where
  "f_div x y = fl32 (x / y)"

definition f_sub :: "rat \<Rightarrow> rat \<Rightarrow> rat" where
  "f_sub x y = fl32 (x - y)"

text \<open>The doubles nearest to 0.9, 0.05 and 0.1.\<close>

definition D0_9 :: rat where
  "D0_9 = 8106479329266893 / 2 ^ 53"

definition D0_05 :: rat where
  "D0_05 = 3602879701896397 / 2 ^ 56"

definition D0_1 :: rat where
  "D0_1 = 3602879701896397 / 2 ^ 55"

section \<open>Rounding\<close>

lemma pow2_pos [simp]: "0 < pow2 k"
  by (simp add: pow2_def)

lemma pow2_powi: "pow2 k = 2 powi k"
  by (simp add: pow2_def power_int_def field_simps)

lemma pow2_mono: "j \<le> k \<Longrightarrow> pow2 j \<le> pow2 k"
  by (simp add: pow2_powi power_int_increasing)

lemma pow2_add: "pow2 (j + k) = pow2 j * pow2 k"
  by (simp add: pow2_powi power_int_add)

lemma bitlen_pow2:
  assumes "0 < n"
  shows "pow2 (bitlen n - 1) \<le> of_int n" and "of_int n < pow2 (bitlen n)"
proof -
  have b: "2 ^ nat (bitlen n - 1) \<le> n" "n < 2 ^ nat (bitlen n)" "0 < bitlen n"
    using bitlen_bounds[OF assms] bitlen_eq_zero_iff[of n] bitlen_nonneg[of n] assms by auto
  have "of_int (2 ^ nat (bitlen n - 1)) \<le> (of_int n :: rat)" using b(1) by (simp only: of_int_le_iff)
  then show "pow2 (bitlen n - 1) \<le> of_int n" using b(3) by (simp add: pow2_def)
  have "(of_int n :: rat) < of_int (2 ^ nat (bitlen n))" using b(2) by (simp only: of_int_less_iff)
  then show "of_int n < pow2 (bitlen n)" using b(3) by (simp add: pow2_def)
qed

lemma bin_exp_bounds:
  assumes "0 < x"
  shows "pow2 (bin_exp x) \<le> x" and "x < pow2 (bin_exp x + 1)"
proof -
  obtain n d where q: "quotient_of x = (n, d)" by fastforce
  have d: "0 < d" using q quotient_of_denom_pos by blast
  have x: "x = of_int n / of_int d" using quotient_of_div[OF q] .
  have n: "0 < n" using assms x d by (simp add: zero_less_divide_iff)
  define e where "e = bitlen n - bitlen d"
  note bn = bitlen_pow2[OF n] and bd = bitlen_pow2[OF d]
  have "x < pow2 (bitlen n) / pow2 (bitlen d - 1)"
    unfolding x by (rule frac_less) (use n bn bd in auto)
  also have "\<dots> = pow2 (e + 1)" by (simp add: e_def pow2_powi power_int_diff power_int_add)
  finally have up: "x < pow2 (e + 1)" .
  have "pow2 (bitlen n - 1) / pow2 (bitlen d) < x"
    unfolding x by (rule frac_less2) (use n d bn bd in auto)
  then have lo: "pow2 (e - 1) \<le> x" by (simp add: e_def pow2_powi power_int_diff)
  have b: "bin_exp x = (if pow2 e \<le> x then e else e - 1)" by (simp add: bin_exp_def q e_def)
  show "pow2 (bin_exp x) \<le> x" "x < pow2 (bin_exp x + 1)"
    using up lo by (auto simp: b)
qed

lemma bin_exp_eqI:
  assumes "pow2 e \<le> x" and "x < pow2 (e + 1)"
  shows "bin_exp x = e"
proof (rule ccontr)
  assume ne: "bin_exp x \<noteq> e"
  have "0 < x" using assms(1) pow2_pos[of e] by linarith
  note b = bin_exp_bounds[OF this]
  show False
  proof (cases "bin_exp x < e")
    case True
    then have "pow2 (bin_exp x + 1) \<le> pow2 e" by (intro pow2_mono) simp
    then show False using b(2) assms(1) by linarith
  next
    case False
    then have "pow2 (e + 1) \<le> pow2 (bin_exp x)" using ne by (intro pow2_mono) simp
    then show False using b(1) assms(2) by linarith
  qed
qed

text \<open>Between one half and one the unit of rounding is \<open>2 ^ - 24\<close>; one is a float.\<close>

lemma fl32_half:
  assumes "1 / 2 \<le> x" and "x < 1"
  shows "fl32 x = of_int (rhe (x * 2 ^ 24)) / 2 ^ 24"
proof -
  have "bin_exp x = - 1" by (rule bin_exp_eqI) (use assms in \<open>simp_all add: pow2_def\<close>)
  then show ?thesis using assms by (simp add: fl32_def pow2_def abs_of_nonneg)
qed

lemma fl32_small:
  assumes "0 \<le> x" and "x < 1 / 2"
  shows "0 \<le> fl32 x \<and> fl32 x \<le> 1 / 2"
proof (cases "x = 0")
  case False
  define u where "u = pow2 (bin_exp x - 23)"
  have x: "0 < x" using assms False by simp
  have "bin_exp x \<le> - 2"
  proof (rule ccontr)
    assume "\<not> bin_exp x \<le> - 2"
    then have "pow2 (- 1) \<le> pow2 (bin_exp x)" by (intro pow2_mono) simp
    then show False using bin_exp_bounds(1)[OF x] assms(2) by (simp add: pow2_def)
  qed
  then have le: "pow2 (bin_exp x + 1) \<le> 1 / 2" using pow2_mono[of "bin_exp x + 1" "- 1"] by (simp add: pow2_def)
  have u: "0 < u" "pow2 (bin_exp x + 1) = u * 2 ^ 24"
    using pow2_add[of "bin_exp x - 23" 24] by (simp_all add: u_def pow2_def[of 24] add.commute)
  have "x / u < 2 ^ 24" using bin_exp_bounds(2)[OF x] u by (simp add: field_simps)
  then have "\<lfloor>x / u\<rfloor> < 2 ^ 24" by (simp add: floor_less_iff)
  then have "rhe (x / u) \<le> 2 ^ 24" by (simp add: rhe_def Let_def)
  then have "of_int (rhe (x / u)) \<le> (of_int (2 ^ 24) :: rat)" by (simp only: of_int_le_iff)
  then have "of_int (rhe (x / u)) * u \<le> 2 ^ 24 * u" using u(1) by (intro mult_right_mono) simp_all
  then have "of_int (rhe (x / u)) * u \<le> 1 / 2" using u(2) le by (simp add: mult.commute)
  moreover have "0 \<le> \<lfloor>x / u\<rfloor>" using x u(1) by simp
  then have "0 \<le> rhe (x / u)" by (simp add: rhe_def Let_def)
  ultimately show ?thesis using x u le
    by (simp add: fl32_def Let_def u_def[symmetric] abs_of_pos)
qed (simp add: fl32_def)

lemma rhe_of_int [simp]: "rhe (of_int n) = n"
  by (simp add: rhe_def)

lemma fl32_one [simp]: "fl32 1 = 1"
proof -
  have "bin_exp 1 = 0" by (rule bin_exp_eqI) (simp_all add: pow2_def)
  then show ?thesis using rhe_of_int[of "2 ^ 23"] by (simp add: fl32_def pow2_def)
qed

text \<open>
  The quotient of two counters below \<open>2 ^ 24\<close> against the threshold 0.9. The nearest double lies
  above 0.9 and the nearest float below it: a quotient of exactly nine tenths is not over the
  threshold, every larger one is.
\<close>

lemma f_of_small_int:
  assumes "0 \<le> i" and "i < 2 ^ 24"
  shows "f_of_int i = of_int i"
proof (cases "i = 0")
  case False
  then have i: "0 < (of_int i :: rat)" using assms by simp
  define e where "e = bin_exp (of_int i)"
  note b = bin_exp_bounds[OF i, folded e_def]
  have "e < 24"
  proof (rule ccontr)
    assume "\<not> e < 24"
    then have "pow2 24 \<le> pow2 e" by (intro pow2_mono) simp
    then have "(2 ^ 24 :: rat) \<le> of_int i" using b(1) by (simp add: pow2_def)
    then show False using assms(2) by (metis not_less of_int_le_iff of_int_numeral of_int_power)
  qed
  then have k: "e - 23 = - int (nat (23 - e))" by simp
  define k where "k = nat (23 - e)"
  have u: "pow2 (e - 23) = 1 / 2 ^ k" by (subst k) (simp add: k_def pow2_def)
  have "rhe (of_int i / pow2 (e - 23)) = i * 2 ^ k"
    using rhe_of_int[of "i * 2 ^ k"] by (simp add: u)
  then show ?thesis using i by (simp add: f_of_int_def fl32_def e_def[symmetric] u)
qed (simp add: f_of_int_def fl32_def)

lemma rhe_ge_iff:
  assumes "even m"
  shows "m + 1 \<le> rhe x \<longleftrightarrow> of_int m + 1 / 2 < x"
proof -
  have f: "of_int \<lfloor>x\<rfloor> \<le> x" "x < of_int \<lfloor>x\<rfloor> + 1" by linarith+
  consider "\<lfloor>x\<rfloor> < m" | "\<lfloor>x\<rfloor> = m" | "m < \<lfloor>x\<rfloor>" by linarith
  then show ?thesis
  proof cases
    case 1
    then have "of_int \<lfloor>x\<rfloor> + 1 \<le> (of_int m :: rat)" by (metis int_one_le_iff_zero_less of_int_1 of_int_add of_int_le_iff zless_add1_eq zless_imp_add1_zle)
    then show ?thesis using f 1 by (auto simp: rhe_def Let_def)
  next
    case 2
    then show ?thesis using f assms by (auto simp: rhe_def Let_def)
  next
    case 3
    then have "of_int m + 1 \<le> (of_int \<lfloor>x\<rfloor> :: rat)" by (metis of_int_1 of_int_add of_int_le_iff zless_imp_add1_zle)
    then have "of_int m + 1 / 2 < x" using f(1) by linarith
    then show ?thesis using 3 by (auto simp: rhe_def Let_def)
  qed
qed

lemma threshold_0_9:
  fixes p t :: int
  assumes "0 \<le> p" and "p \<le> t" and "0 < t" and "t < 2 ^ 24"
  shows "D0_9 \<le> fl32 (of_int p / of_int t) \<longleftrightarrow> 9 * t < 10 * p"
proof -
  let ?x = "of_int p / of_int t :: rat"
  have t: "0 < (of_int t :: rat)" using assms(3) by simp
  have "?x < 1" if "p \<noteq> t" using that assms(2) t by simp
  then consider "?x < 1 / 2" | "1 / 2 \<le> ?x" "?x < 1" | "p = t" by linarith
  then show ?thesis
  proof cases
    case 1
    then have "2 * p < t" using t by (simp add: field_simps)
    moreover have "fl32 ?x \<le> 1 / 2" using fl32_small[of ?x] 1 assms by simp
    ultimately show ?thesis using assms by (simp add: D0_9_def)
  next
    case 2
    define m where "m = rhe (?x * 2 ^ 24)"
    have "D0_9 \<le> fl32 ?x \<longleftrightarrow> 8106479329266893 \<le> (of_int (m * 536870912) :: rat)"
      unfolding fl32_half[OF 2] m_def[symmetric] D0_9_def by (simp add: field_simps)
    also have "\<dots> \<longleftrightarrow> 8106479329266893 \<le> m * 536870912"
      by (metis of_int_le_iff of_int_numeral)
    also have "\<dots> \<longleftrightarrow> (15099494 :: int) + 1 \<le> m" by auto
    also have "\<dots> \<longleftrightarrow> 15099494 + 1 / 2 < ?x * 2 ^ 24"
      unfolding m_def using rhe_ge_iff[of 15099494 "?x * 2 ^ 24"] by simp
    also have "\<dots> \<longleftrightarrow> 30198989 * (of_int t :: rat) < of_int p * 33554432"
      using t by (simp add: field_simps)
    also have "\<dots> \<longleftrightarrow> 30198989 * t < p * 33554432"
      by (metis of_int_less_iff of_int_mult of_int_numeral)
    also have "\<dots> \<longleftrightarrow> 9 * t < 10 * p" using assms by auto
    finally show ?thesis .
  next
    case 3
    then show ?thesis using assms t by (simp add: D0_9_def)
  qed
qed

section \<open>Order and scaling\<close>

lemma rhe_mono: "x \<le> y \<Longrightarrow> rhe x \<le> rhe y"
proof (cases "\<lfloor>x\<rfloor> = \<lfloor>y\<rfloor>")
  case True
  then show "x \<le> y \<Longrightarrow> rhe x \<le> rhe y" by (auto simp: rhe_def Let_def)
next
  case False
  moreover assume "x \<le> y"
  ultimately have "\<lfloor>x\<rfloor> + 1 \<le> \<lfloor>y\<rfloor>" using floor_mono[of x y] by linarith
  moreover have "rhe x \<le> \<lfloor>x\<rfloor> + 1" "\<lfloor>y\<rfloor> \<le> rhe y" by (simp_all add: rhe_def Let_def)
  ultimately show "rhe x \<le> rhe y" by linarith
qed

lemma fl32_pos:
  assumes "0 < x"
  shows "fl32 x = of_int (rhe (x / pow2 (bin_exp x - 23))) * pow2 (bin_exp x - 23)"
  using assms by (simp add: fl32_def Let_def)

text \<open>Rounding stays within the binade, its upper end included.\<close>

lemma fl32_binade:
  assumes "0 < x"
  shows "pow2 (bin_exp x) \<le> fl32 x" and "fl32 x \<le> pow2 (bin_exp x + 1)"
proof -
  define u where "u = pow2 (bin_exp x - 23)"
  have u: "0 < u" "pow2 (bin_exp x) = 2 ^ 23 * u" "pow2 (bin_exp x + 1) = 2 ^ 24 * u"
    using pow2_add[of 23 "bin_exp x - 23"] pow2_add[of 24 "bin_exp x - 23"]
    by (simp_all add: u_def pow2_def[of 23] pow2_def[of 24] add.commute)
  have "2 ^ 23 \<le> x / u" "x / u \<le> 2 ^ 24"
    using bin_exp_bounds[OF assms] u by (simp_all add: field_simps)
  then have "rhe (2 ^ 23) \<le> rhe (x / u)" "rhe (x / u) \<le> rhe (2 ^ 24)" by (auto intro: rhe_mono)
  then have "2 ^ 23 \<le> rhe (x / u)" "rhe (x / u) \<le> 2 ^ 24"
    using rhe_of_int[of "2 ^ 23"] rhe_of_int[of "2 ^ 24"] by simp_all
  then have "of_int (2 ^ 23) \<le> (of_int (rhe (x / u)) :: rat)" "of_int (rhe (x / u)) \<le> (of_int (2 ^ 24) :: rat)"
    by (simp_all only: of_int_le_iff)
  then have "2 ^ 23 * u \<le> of_int (rhe (x / u)) * u" "of_int (rhe (x / u)) * u \<le> 2 ^ 24 * u"
    using u(1) by (auto intro: mult_right_mono)
  then show "pow2 (bin_exp x) \<le> fl32 x" "fl32 x \<le> pow2 (bin_exp x + 1)"
    using fl32_pos[OF assms] u by (simp_all add: u_def)
qed

lemma fl32_mono:
  assumes "0 < x" and "x \<le> y"
  shows "fl32 x \<le> fl32 y"
proof -
  have y: "0 < y" using assms by linarith
  have "\<not> bin_exp y < bin_exp x"
  proof
    assume "bin_exp y < bin_exp x"
    then have "pow2 (bin_exp y + 1) \<le> pow2 (bin_exp x)" by (intro pow2_mono) simp
    then show False using bin_exp_bounds[OF y] bin_exp_bounds[OF assms(1)] assms(2) by linarith
  qed
  then consider "bin_exp x = bin_exp y" | "bin_exp x + 1 \<le> bin_exp y" by linarith
  then show ?thesis
  proof cases
    case 1
    have "rhe (x / pow2 (bin_exp y - 23)) \<le> rhe (y / pow2 (bin_exp y - 23))"
      using assms(2) by (intro rhe_mono divide_right_mono) (simp_all add: less_imp_le)
    then show ?thesis using 1 fl32_pos[OF assms(1)] fl32_pos[OF y] pow2_pos[of "bin_exp y - 23"]
      by (simp add: mult_right_mono less_imp_le)
  next
    case 2
    then have "pow2 (bin_exp x + 1) \<le> pow2 (bin_exp y)" by (intro pow2_mono)
    then show ?thesis using fl32_binade[OF assms(1)] fl32_binade[OF y] by linarith
  qed
qed

lemma fl32_scale:
  assumes "0 < x"
  shows "fl32 (x * pow2 k) = fl32 x * pow2 k"
proof -
  have "bin_exp (x * pow2 k) = bin_exp x + k"
    by (rule bin_exp_eqI)
       (use bin_exp_bounds[OF assms] pow2_add[of "bin_exp x" k] pow2_add[of "bin_exp x + 1" k] in
         \<open>simp_all add: mult_right_mono mult_strict_right_mono less_imp_le algebra_simps\<close>)
  moreover have "pow2 (bin_exp x + k - 23) = pow2 (bin_exp x - 23) * pow2 k"
    using pow2_add[of "bin_exp x - 23" k] by (simp add: algebra_simps)
  moreover have "pow2 k \<noteq> 0" using pow2_pos[of k] by linarith
  ultimately show ?thesis using assms by (simp add: fl32_pos)
qed

text \<open>Integers of at most 24 bits times a power of two are floats.\<close>

lemma fl32_exact:
  assumes "0 < i" and "i < 2 ^ 24"
  shows "fl32 (of_int i * pow2 k) = of_int i * pow2 k"
  using assms fl32_scale[of "of_int i" k] f_of_small_int[of i] by (simp add: f_of_int_def)

text \<open>
  Ratios of counters up to 64 against the thresholds 0.1 and 10. The nearest double to 0.1 lies
  below the nearest float, so a quotient of exactly one tenth is not below the threshold.
\<close>

lemma fl32_tenth: "D0_1 < fl32 (1 / 10)"
proof -
  have "bin_exp (1 / 10) = - 4" by (rule bin_exp_eqI) (simp_all add: pow2_def)
  moreover have "\<lfloor>67108864 / 5 :: rat\<rfloor> = 13421772" by (rule floor_unique) simp_all
  then have "rhe (67108864 / 5) = 13421773" by (simp add: rhe_def)
  ultimately show ?thesis by (simp add: fl32_pos pow2_def D0_1_def)
qed

lemma ratio_below_tenth:
  fixes a b :: int
  assumes "0 < a" and "0 < b" and "b \<le> 64"
  shows "fl32 (of_int a / of_int b) < D0_1 \<longleftrightarrow> 10 * a < b"
proof -
  let ?x = "of_int a / of_int b :: rat"
  have b: "0 < (of_int b :: rat)" and x: "0 < ?x" using assms by simp_all
  show ?thesis
  proof (cases "10 * a < b")
    case True
    then have "640 * a \<le> 63 * b" using assms by linarith
    then have "640 * of_int a \<le> (63 * of_int b :: rat)" by (metis of_int_le_iff of_int_mult of_int_numeral)
    then have "?x \<le> of_int 51 * pow2 (- 9)" using b by (simp add: pow2_def field_simps)
    from fl32_mono[OF x this] have "fl32 ?x \<le> 51 / 512" using fl32_exact[of 51 "- 9"] by (simp add: pow2_def)
    then show ?thesis using True by (simp add: D0_1_def)
  next
    case False
    then have "of_int b \<le> (10 * of_int a :: rat)" by (metis not_less of_int_le_iff of_int_mult of_int_numeral)
    then have "1 / 10 \<le> ?x" using b by (simp add: field_simps)
    then have "fl32 (1 / 10) \<le> fl32 ?x" by (intro fl32_mono) simp_all
    then show ?thesis using False fl32_tenth by linarith
  qed
qed

lemma ratio_up_to_ten:
  fixes a b :: int
  assumes "0 < a" and "0 < b" and "b \<le> 64"
  shows "fl32 (of_int a / of_int b) \<le> 10 \<longleftrightarrow> a \<le> 10 * b"
proof -
  let ?x = "of_int a / of_int b :: rat"
  have b: "0 < (of_int b :: rat)" and x: "0 < ?x" using assms by simp_all
  show ?thesis
  proof (cases "a \<le> 10 * b")
    case True
    then have "of_int a \<le> (10 * of_int b :: rat)" by (metis of_int_le_iff of_int_mult of_int_numeral)
    then have "?x \<le> of_int 10 * pow2 0" using b by (simp add: pow2_def field_simps)
    from fl32_mono[OF x this] show ?thesis using True fl32_exact[of 10 0] by (simp add: pow2_def)
  next
    case False
    then have "641 * b \<le> 64 * a" using assms by linarith
    then have "641 * of_int b \<le> (64 * of_int a :: rat)" by (metis of_int_le_iff of_int_mult of_int_numeral)
    then have "of_int 641 * pow2 (- 6) \<le> ?x" using b by (simp add: pow2_def field_simps)
    then have "fl32 (of_int 641 * pow2 (- 6)) \<le> fl32 ?x" by (intro fl32_mono) (simp_all add: pow2_def)
    then show ?thesis using False fl32_exact[of 641 "- 6"] by (simp add: pow2_def)
  qed
qed

end
