(* ===== verification/Locality_Profile.thy ===== *)
theory Locality_Profile
  imports NW_Config Float32 Event_Queue
begin

text \<open>
  Allocation contexts, chunks and the table from sizes to mapping types: \<open>locality_profile.c\<close>,
  \<open>locality_profile.h\<close> and \<open>context_key.h\<close> of both versions. The parallel functions have the
  suffix \<open>_mt\<close>; they run here in one thread, with the spin locks as flags and the thread-local
  variables as those of that thread. What a union holds is two words, read as the code reads them.
\<close>

section \<open>Data\<close>

record memory_chunk =
  ck_mapping_type :: int
  ck_addr :: uint64
  ck_size :: uint64
  ck_idx :: uint64
  ck_state :: int
  ck_victim_ref :: uint32
  ck_pollutor_ref :: uint32
  ck_total_ref :: uint32
  ck_mr :: rat
  ck_i_victim_ref :: uint32
  ck_i_pollutor_ref :: uint32
  ck_i_total_ref :: uint32
  ck_base_sample_cycle :: int
  ck_sample_cycle :: int
  ck_sample_state :: int
  ck_nr_sample :: int
  ck_lock :: bool
  ck_context :: ptr
  ck_sample :: "ptr list"

definition MAP_ONLY_CONTEXT :: uint64 where "MAP_ONLY_CONTEXT = 0"

text \<open>
  \<open>ac_word0\<close> is \<open>context_key\<close>, \<open>map_only_context_flag\<close> or \<open>ctx\<close>; \<open>ac_word1\<close> is \<open>idx\<close> or
  \<open>map_type\<close>.
\<close>

record alloc_context =
  ac_word0 :: uint64
  ac_word1 :: uint64
  ac_lock :: bool
  predict_type0 :: int
  predict_type1 :: int
  predict_mr0 :: rat
  predict_mr1 :: rat
  sample_skip :: int
  skip_interval :: int
  last_chunk_sz :: uint64
  ctx_chunks :: "ptr list"

record size2mtype_entry =
  check_interval :: int
  to_check :: int
  se_mapping_type :: int
  se_valid :: int
  n_open :: int
  n_restrict :: int
  se_lock :: bool

text \<open>
  The globals. \<open>random_seq\<close> gives the results of \<open>random\<close>, \<open>backtraces\<close> those of
  \<open>backtrace\<close>. \<open>fc_init\<close> and \<open>fk_init\<close> say whether the thread-local heads of the free lists of
  contexts and chunks have been set up; the serial version has the lists of active objects.
\<close>

record 'm lp_state = "'m eq_state" +
  lp_chunk_idx :: uint64
  context_hash_map :: 'm
  s2t_map :: "size2mtype_entry list"
  s2t_addr :: ptr
  lp_context_idx :: uint64
  lp_contexts :: "ptr list"
  free_context :: "ptr list"
  fc_init :: bool
  active_context :: "ptr list"
  free_chunk :: "ptr list"
  fk_init :: bool
  active_chunk :: "ptr list"
  ctx_cell :: "ptr \<Rightarrow> alloc_context"
  ck_cell :: "ptr \<Rightarrow> memory_chunk"
  map_only_ctx :: alloc_context
  ctx_snapshot :: alloc_context
  random_seq :: "nat \<Rightarrow> int"
  random_cnt :: nat
  backtraces :: "nat \<Rightarrow> uint64 list"
  backtrace_cnt :: nat

type_synonym ('m, 'x) lstate = "('m, 'x) lp_state_scheme"

definition upd_ctx :: "ptr \<Rightarrow> (alloc_context \<Rightarrow> alloc_context) \<Rightarrow> ('m, 'x) lstate \<Rightarrow> ('m, 'x) lstate" where
  "upd_ctx c f s = s\<lparr>ctx_cell := (ctx_cell s)(c := f (ctx_cell s c))\<rparr>"

definition upd_ck :: "ptr \<Rightarrow> (memory_chunk \<Rightarrow> memory_chunk) \<Rightarrow> ('m, 'x) lstate \<Rightarrow> ('m, 'x) lstate" where
  "upd_ck c f s = s\<lparr>ck_cell := (ck_cell s)(c := f (ck_cell s c))\<rparr>"

definition c_random :: "('m, 'x) lstate \<Rightarrow> int \<times> ('m, 'x) lstate" where
  "c_random s = (random_seq s (random_cnt s), s\<lparr>random_cnt := random_cnt s + 1\<rparr>)"

section \<open>The key of a call stack\<close>

fun context_key_loop :: "nat \<Rightarrow> uint64 list \<Rightarrow> uint64 \<Rightarrow> uint64" where
  "context_key_loop offset [] key = key"
| "context_key_loop offset (f # fs) key =
     context_key_loop ((offset + 16) mod 64) fs (key XOR (shl64 f offset OR shr64 f (64 - offset)))"

definition get_context_key :: "('m, 'x) lstate \<Rightarrow> uint64 \<times> ('m, 'x) lstate" where
  "get_context_key s =
     (let call_stack = take TOTAL_CALL_STACK_DEPTH (backtraces s (backtrace_cnt s))
      in (context_key_loop 0 (drop INNER_CALL_STACK_DEPTH call_stack) 0,
          s\<lparr>backtrace_cnt := backtrace_cnt s + 1\<rparr>))"

section \<open>The table from sizes to mapping types\<close>

definition S2MT_ENTRY_DECAY_INTERVAL :: int where "S2MT_ENTRY_DECAY_INTERVAL = 64"

definition empty_s2t :: size2mtype_entry where
  "empty_s2t = \<lparr>check_interval = 0, to_check = 0, se_mapping_type = 0, se_valid = 0, n_open = 0,
     n_restrict = 0, se_lock = False\<rparr>"

text \<open>A division by a zero \<open>check_interval << 1\<close> is a fault.\<close>

definition update_s2t_skip_interval ::
    "size2mtype_entry \<Rightarrow> ('m, 'x) lstate \<Rightarrow> (size2mtype_entry \<times> ('m, 'x) lstate) res" where
  "update_s2t_skip_interval e s =
     (if se_valid e = 0 then Inr (e\<lparr>check_interval := 1, to_check := 1\<rparr>, s)
      else if to_check e = 0
      then
        let (r, s) = c_random s
        in if check_interval e < S2T_MAP_UPDATE_INTERVAL_MAX
           then
             if check_interval e * 2 = 0 then Inl DivByZero
             else
               let ci = check_interval e + c_rem r (check_interval e * 2)
               in Inr (e\<lparr>check_interval := ci, to_check := ci\<rparr>, s)
           else
             let ci = S2T_MAP_UPDATE_INTERVAL_MAX * 2 + c_rem r S2T_MAP_UPDATE_INTERVAL_MAX
             in Inr (e\<lparr>check_interval := ci, to_check := ci\<rparr>, s)
      else Inr (e, s))"

definition s2t_count :: "int \<Rightarrow> size2mtype_entry \<Rightarrow> size2mtype_entry" where
  "s2t_count mapping e =
     (if mapping = OPEN_MAPPING then e\<lparr>n_open := n_open e + 1\<rparr>
      else if mapping = RESTRICT_MAPPING then e\<lparr>n_restrict := n_restrict e + 1\<rparr>
      else e)"

definition s2t_decide :: "size2mtype_entry \<Rightarrow> size2mtype_entry" where
  "s2t_decide e =
     (if n_restrict e = 0 then e\<lparr>se_mapping_type := OPEN_MAPPING, se_valid := 1\<rparr>
      else if n_open e = 0 then e\<lparr>se_mapping_type := RESTRICT_MAPPING, se_valid := 1\<rparr>
      else
        let r = f_div (f_of_int (n_open e)) (f_of_int (n_restrict e))
        in if r < D0_1 then e\<lparr>se_valid := 1, se_mapping_type := RESTRICT_MAPPING\<rparr>
           else if r \<le> 10 then e\<lparr>se_valid := 0, se_mapping_type := OPEN_MAPPING\<rparr>
           else e\<lparr>se_valid := 1, se_mapping_type := OPEN_MAPPING\<rparr>)"

definition s2t_decay :: "size2mtype_entry \<Rightarrow> size2mtype_entry" where
  "s2t_decay e =
     (if n_open e + n_restrict e \<ge> S2MT_ENTRY_DECAY_INTERVAL
      then e\<lparr>n_open := n_open e div 2, n_restrict := n_restrict e div 2\<rparr> else e)"

definition update_s2t_entry :: "int \<Rightarrow> size2mtype_entry \<Rightarrow> size2mtype_entry" where
  "update_s2t_entry mapping e = s2t_decay (s2t_decide (s2t_count mapping e))"

definition update_s2c_map :: "uint64 \<Rightarrow> int \<Rightarrow> ('m, 'x) lstate \<Rightarrow> ('m, 'x) lstate res" where
  "update_s2c_map sz mapping s =
     rbind (rd (s2t_map s) (uint sz)) (\<lambda>e.
     rbind (wr (s2t_map s) (uint sz) (update_s2t_entry mapping e)) (\<lambda>es.
     Inr (s\<lparr>s2t_map := es\<rparr>)))"

text \<open>The parallel version takes the lock of the entry.\<close>

definition lock_entry :: "uint64 \<Rightarrow> ('m, 'x) lstate \<Rightarrow> (size2mtype_entry \<times> ('m, 'x) lstate) res" where
  "lock_entry sz s =
     rbind (rd (s2t_map s) (uint sz)) (\<lambda>e.
       if se_lock e then Inl Deadlock
       else rbind (wr (s2t_map s) (uint sz) (e\<lparr>se_lock := True\<rparr>)) (\<lambda>es.
              Inr (e\<lparr>se_lock := True\<rparr>, s\<lparr>s2t_map := es\<rparr>)))"

definition unlock_entry :: "uint64 \<Rightarrow> size2mtype_entry \<Rightarrow> ('m, 'x) lstate \<Rightarrow> ('m, 'x) lstate res" where
  "unlock_entry sz e s =
     rbind (wr (s2t_map s) (uint sz) (e\<lparr>se_lock := False\<rparr>)) (\<lambda>es. Inr (s\<lparr>s2t_map := es\<rparr>))"

definition update_s2t_map_mt :: "uint64 \<Rightarrow> int \<Rightarrow> ('m, 'x) lstate \<Rightarrow> ('m, 'x) lstate res" where
  "update_s2t_map_mt sz mapping s =
     rbind (lock_entry sz s) (\<lambda>(e, s). unlock_entry sz (update_s2t_entry mapping e) s)"

section \<open>Contexts and chunks, serial version\<close>

definition context_free :: "ptr \<Rightarrow> ('m, 'x) lstate \<Rightarrow> ('m, 'x) lstate" where
  "context_free c s =
     (let s = s\<lparr>active_context := remove1 c (active_context s), free_context := remove1 c (free_context s),
                lp_contexts := remove1 c (lp_contexts s)\<rparr>;
          s = upd_ctx c (\<lambda>x. x\<lparr>ctx_chunks := []\<rparr>) s
      in s\<lparr>free_context := c # free_context s\<rparr>)"

definition context_alloc :: "('m, 'x) lstate \<Rightarrow> ptr \<times> ('m, 'x) lstate" where
  "context_alloc s =
     (let (c, s) = (case free_context s of
                      [] \<Rightarrow> internal_malloc s
                    | c # cs \<Rightarrow> (c, s\<lparr>free_context := cs\<rparr>));
          s = s\<lparr>active_context := c # active_context s\<rparr>
      in (c, upd_ctx c (\<lambda>x. x\<lparr>ctx_chunks := []\<rparr>) s))"

definition clear_chunk :: "memory_chunk \<Rightarrow> memory_chunk" where
  "clear_chunk x = x\<lparr>ck_victim_ref := 0, ck_pollutor_ref := 0, ck_total_ref := 0, ck_i_victim_ref := 0,
     ck_i_pollutor_ref := 0, ck_i_total_ref := 0, ck_sample_cycle := 0, ck_nr_sample := 0, ck_sample := []\<rparr>"

definition chunk_free :: "ptr \<Rightarrow> ('m, 'x) lstate \<Rightarrow> ('m, 'x) lstate" where
  "chunk_free k s =
     (let s = s\<lparr>active_chunk := remove1 k (active_chunk s), free_chunk := remove1 k (free_chunk s)\<rparr>;
          s = s\<lparr>ctx_cell := \<lambda>c. (ctx_cell s c)\<lparr>ctx_chunks := remove1 k (ctx_chunks (ctx_cell s c))\<rparr>\<rparr>
      in s\<lparr>free_chunk := k # free_chunk s\<rparr>)"

definition chunk_alloc :: "('m, 'x) lstate \<Rightarrow> ptr \<times> ('m, 'x) lstate" where
  "chunk_alloc s =
     (let (k, s) = (case free_chunk s of
                      [] \<Rightarrow> internal_malloc s
                    | k # ks \<Rightarrow> (k, s\<lparr>free_chunk := ks\<rparr>));
          s = upd_ck k clear_chunk s
      in (k, s\<lparr>active_chunk := k # active_chunk s\<rparr>))"

definition locality_profile_init :: "(hash_map, 'x) lstate \<Rightarrow> int \<times> (hash_map, 'x) lstate" where
  "locality_profile_init s =
     (let (m, s) = new_hash_map s;
          (arr, s) = internal_malloc s
      in (0, s\<lparr>context_hash_map := m, s2t_addr := arr,
               s2t_map := replicate (nat (uint S2T_MAP_SIZE) + 1) empty_s2t, lp_contexts := [],
               lp_context_idx := 1, lp_chunk_idx := 0, free_context := [], active_context := [],
               free_chunk := [], active_chunk := []\<rparr>))"

definition init_context :: "uint64 \<Rightarrow> ptr \<Rightarrow> (hash_map, 'x) lstate \<Rightarrow> (hash_map, 'x) lstate res" where
  "init_context key c s =
     (let s = upd_ctx c (\<lambda>x. x\<lparr>ac_word0 := key, predict_type0 := UNKNOWN_MAPPING,
                predict_type1 := UNKNOWN_MAPPING, predict_mr0 := - 1, predict_mr1 := - 1,
                sample_skip := 0, skip_interval := 0, ac_word1 := lp_context_idx s\<rparr>) s;
          s = s\<lparr>lp_context_idx := lp_context_idx s + 1\<rparr>
      in rbind (hash_map_add_member (context_hash_map s) key c s) (\<lambda>(ret, m, s).
           Inr (s\<lparr>context_hash_map := m, lp_contexts := c # lp_contexts s\<rparr>)))"

text \<open>What the allocator gets: the thread's map-only context, its snapshot, or a context.\<close>

datatype ctx_ref = MapOnlyCtx | CtxSnapshot | Ctx ptr

definition deref_ctx :: "ctx_ref \<Rightarrow> ('m, 'x) lstate \<Rightarrow> alloc_context" where
  "deref_ctx r s = (case r of MapOnlyCtx \<Rightarrow> map_only_ctx s | CtxSnapshot \<Rightarrow> ctx_snapshot s | Ctx c \<Rightarrow> ctx_cell s c)"

definition use_map_only :: "int \<Rightarrow> ('m, 'x) lstate \<Rightarrow> ('m, 'x) lstate" where
  "use_map_only mapping s =
     s\<lparr>map_only_ctx := (map_only_ctx s)\<lparr>ac_word0 := MAP_ONLY_CONTEXT, ac_word1 := word_of_int mapping\<rparr>\<rparr>"

definition find_or_new_context :: "(hash_map, 'x) lstate \<Rightarrow> (ptr \<times> (hash_map, 'x) lstate) res" where
  "find_or_new_context s =
     (let (key, s) = get_context_key s
      in rbind (hash_map_find_member (context_hash_map s) key s) (\<lambda>c.
           if c \<noteq> NULL then Inr (c, s)
           else let (c, s) = context_alloc s
                in rbind (init_context key c s) (\<lambda>s. Inr (c, s))))"

definition NightWatch_get_alloc_context ::
    "uint64 \<Rightarrow> (hash_map, 'x) lstate \<Rightarrow> (ctx_ref \<times> (hash_map, 'x) lstate) res" where
  "NightWatch_get_alloc_context sz s =
     (if sz > S2T_MAP_SIZE
      then rbind (find_or_new_context s) (\<lambda>(c, s). Inr (Ctx c, s))
      else
        rbind (rd (s2t_map s) (uint sz)) (\<lambda>e.
          if se_valid e \<noteq> 0 \<and> to_check e > 0
          then rbind (wr (s2t_map s) (uint sz) (e\<lparr>to_check := to_check e - 1\<rparr>)) (\<lambda>es.
                 Inr (MapOnlyCtx, use_map_only (se_mapping_type e) (s\<lparr>s2t_map := es\<rparr>)))
          else
            rbind (find_or_new_context s) (\<lambda>(c, s).
            rbind (rd (s2t_map s) (uint sz)) (\<lambda>e.
            rbind (update_s2t_skip_interval e s) (\<lambda>(e, s).
            rbind (wr (s2t_map s) (uint sz) e) (\<lambda>es. Inr (Ctx c, s\<lparr>s2t_map := es\<rparr>)))))))"

definition attach_chunk_to_context ::
    "ptr \<Rightarrow> uint64 \<Rightarrow> ptr \<Rightarrow> ('m, 'x) lstate \<Rightarrow> ptr \<times> ('m, 'x) lstate" where
  "attach_chunk_to_context p sz c s =
     (let (k, s) = chunk_alloc s;
          s = upd_ck k (\<lambda>x. x\<lparr>ck_addr := p, ck_size := sz, ck_idx := lp_chunk_idx s, ck_context := c\<rparr>) s;
          s = s\<lparr>lp_chunk_idx := lp_chunk_idx s + 1\<rparr>
      in (k, upd_ctx c (\<lambda>x. x\<lparr>ctx_chunks := k # ctx_chunks x\<rparr>) s))"

definition detach_chunk_from_context :: "ptr \<Rightarrow> ('m, 'x) lstate \<Rightarrow> ('m, 'x) lstate" where
  "detach_chunk_from_context k s = chunk_free k (upd_ck k (\<lambda>x. x\<lparr>ck_context := NULL\<rparr>) s)"

fun for_chunks :: "ptr list \<Rightarrow> (ptr \<Rightarrow> 's \<Rightarrow> 's res) \<Rightarrow> 's \<Rightarrow> 's res" where
  "for_chunks [] func s = Inr s"
| "for_chunks (k # ks) func s = rbind (func k s) (\<lambda>s. for_chunks ks func s)"

definition process_active_chunk ::
    "(ptr \<Rightarrow> ('m, 'x) lstate \<Rightarrow> ('m, 'x) lstate res) \<Rightarrow> ('m, 'x) lstate \<Rightarrow> ('m, 'x) lstate res" where
  "process_active_chunk func s = for_chunks (active_chunk s) func s"

section \<open>Contexts and chunks, parallel version\<close>

definition ensure_free_context :: "('m, 'x) lstate \<Rightarrow> ('m, 'x) lstate" where
  "ensure_free_context s = (if fc_init s then s else s\<lparr>fc_init := True, free_context := []\<rparr>)"

definition ensure_free_chunk :: "('m, 'x) lstate \<Rightarrow> ('m, 'x) lstate" where
  "ensure_free_chunk s = (if fk_init s then s else s\<lparr>fk_init := True, free_chunk := []\<rparr>)"

definition context_free_mt :: "ptr \<Rightarrow> ('m, 'x) lstate \<Rightarrow> ('m, 'x) lstate" where
  "context_free_mt c s =
     (let s = ensure_free_context s;
          s = s\<lparr>free_context := remove1 c (free_context s)\<rparr>;
          s = upd_ctx c (\<lambda>x. x\<lparr>ctx_chunks := []\<rparr>) s
      in s\<lparr>free_context := c # free_context s\<rparr>)"

definition context_alloc_mt :: "('m, 'x) lstate \<Rightarrow> ptr \<times> ('m, 'x) lstate" where
  "context_alloc_mt s =
     (let s = ensure_free_context s;
          (c, s) = (case free_context s of
                      [] \<Rightarrow> internal_malloc s
                    | c # cs \<Rightarrow> (c, s\<lparr>free_context := cs\<rparr>))
      in (c, upd_ctx c (\<lambda>x. x\<lparr>ctx_chunks := []\<rparr>) s))"

text \<open>
  The guard tests and sets up \<open>free_context\<close>; \<open>list_add\<close> to a \<open>free_chunk\<close> head that was never
  set up follows its null link.
\<close>

definition chunk_free_mt :: "ptr \<Rightarrow> ('m, 'x) lstate \<Rightarrow> ('m, 'x) lstate res" where
  "chunk_free_mt k s =
     (let s = ensure_free_context s
      in if \<not> fk_init s then Inl NullDeref else Inr (s\<lparr>free_chunk := k # free_chunk s\<rparr>))"

definition chunk_alloc_mt :: "('m, 'x) lstate \<Rightarrow> ptr \<times> ('m, 'x) lstate" where
  "chunk_alloc_mt s =
     (let s = ensure_free_chunk s;
          (k, s) = (case free_chunk s of
                      [] \<Rightarrow> internal_malloc s
                    | k # ks \<Rightarrow> (k, s\<lparr>free_chunk := ks\<rparr>))
      in (k, upd_ck k clear_chunk s))"

definition locality_profile_init_mt :: "(hash_map_mt, 'x) lstate \<Rightarrow> int \<times> (hash_map_mt, 'x) lstate" where
  "locality_profile_init_mt s =
     (let (m, s) = new_hash_map_mt s;
          (arr, s) = internal_malloc s
      in (0, s\<lparr>context_hash_map := m, s2t_addr := arr,
               s2t_map := replicate (nat (uint S2T_MAP_SIZE) + 1) empty_s2t,
               lp_context_idx := 1, lp_chunk_idx := 0\<rparr>))"

definition locality_profile_destroy_mt :: "(hash_map_mt, 'x) lstate \<Rightarrow> (hash_map_mt, 'x) lstate" where
  "locality_profile_destroy_mt s =
     internal_free (s2t_addr s) (delete_hash_map_mt (context_hash_map s) s)"

definition copy_context_mt :: "ptr \<Rightarrow> ('m, 'x) lstate \<Rightarrow> ('m, 'x) lstate" where
  "copy_context_mt src s =
     s\<lparr>ctx_snapshot := (ctx_snapshot s)\<lparr>last_chunk_sz := last_chunk_sz (ctx_cell s src),
        sample_skip := sample_skip (ctx_cell s src), ac_word0 := src\<rparr>\<rparr>"

definition init_context_mt :: "uint64 \<Rightarrow> ptr \<Rightarrow> (hash_map_mt, 'x) lstate \<Rightarrow> (hash_map_mt, 'x) lstate res" where
  "init_context_mt key c s =
     (let s = upd_ctx c (\<lambda>x. x\<lparr>ac_word0 := key, predict_type0 := UNKNOWN_MAPPING,
                predict_type1 := UNKNOWN_MAPPING, predict_mr0 := - 1, predict_mr1 := - 1,
                sample_skip := 0, skip_interval := 0, ac_word1 := lp_context_idx s, ac_lock := False\<rparr>) s;
          s = s\<lparr>lp_context_idx := lp_context_idx s + 1\<rparr>
      in rbind (hash_map_add_member_mt (context_hash_map s) key c s) (\<lambda>(ret, m, s).
           Inr (s\<lparr>context_hash_map := m\<rparr>)))"

definition lock_ctx :: "ptr \<Rightarrow> ('m, 'x) lstate \<Rightarrow> ('m, 'x) lstate res" where
  "lock_ctx c s = (if ac_lock (ctx_cell s c) then Inl Deadlock else Inr (upd_ctx c (\<lambda>x. x\<lparr>ac_lock := True\<rparr>) s))"

definition unlock_ctx :: "ptr \<Rightarrow> ('m, 'x) lstate \<Rightarrow> ('m, 'x) lstate" where
  "unlock_ctx c s = upd_ctx c (\<lambda>x. x\<lparr>ac_lock := False\<rparr>) s"

definition find_or_new_context_mt :: "(hash_map_mt, 'x) lstate \<Rightarrow> (ptr \<times> (hash_map_mt, 'x) lstate) res" where
  "find_or_new_context_mt s =
     (let (key, s) = get_context_key s
      in rbind (hash_map_find_member_mt (context_hash_map s) key s) (\<lambda>(c, m).
           let s = s\<lparr>context_hash_map := m\<rparr>
           in if c \<noteq> NULL then Inr (c, s)
              else let (c, s) = context_alloc_mt s
                   in rbind (init_context_mt key c s) (\<lambda>s. Inr (c, s))))"

definition snapshot_context_mt :: "ptr \<Rightarrow> ('m, 'x) lstate \<Rightarrow> (ctx_ref \<times> ('m, 'x) lstate) res" where
  "snapshot_context_mt c s =
     rbind (lock_ctx c s) (\<lambda>s. Inr (CtxSnapshot, unlock_ctx c (copy_context_mt c s)))"

definition NightWatch_get_alloc_context_mt ::
    "uint64 \<Rightarrow> (hash_map_mt, 'x) lstate \<Rightarrow> (ctx_ref \<times> (hash_map_mt, 'x) lstate) res" where
  "NightWatch_get_alloc_context_mt sz s =
     (if sz > S2T_MAP_SIZE
      then rbind (find_or_new_context_mt s) (\<lambda>(c, s). snapshot_context_mt c s)
      else
        rbind (lock_entry sz s) (\<lambda>(e, s).
          if se_valid e \<noteq> 0 \<and> to_check e > 0
          then rbind (unlock_entry sz (e\<lparr>to_check := to_check e - 1\<rparr>) s) (\<lambda>s.
                 Inr (MapOnlyCtx, use_map_only (se_mapping_type e) s))
          else
            rbind (unlock_entry sz e s) (\<lambda>s.
            rbind (find_or_new_context_mt s) (\<lambda>(c, s).
            rbind (lock_entry sz s) (\<lambda>(e, s).
            rbind (update_s2t_skip_interval e s) (\<lambda>(e, s).
            rbind (unlock_entry sz e s) (\<lambda>s. snapshot_context_mt c s)))))))"

definition alloc_and_init_chunk_mt ::
    "ptr \<Rightarrow> uint64 \<Rightarrow> int \<Rightarrow> ptr \<Rightarrow> ('m, 'x) lstate \<Rightarrow> ptr \<times> ('m, 'x) lstate" where
  "alloc_and_init_chunk_mt p sz type c s =
     (let (k, s) = chunk_alloc_mt s;
          s = upd_ck k (\<lambda>x. x\<lparr>ck_addr := p, ck_size := sz, ck_idx := lp_chunk_idx s, ck_context := c,
                ck_mapping_type := type, ck_lock := False\<rparr>) s
      in (k, s\<lparr>lp_chunk_idx := lp_chunk_idx s + 1\<rparr>))"

definition detach_chunk_from_context_mt :: "ptr \<Rightarrow> ('m, 'x) lstate \<Rightarrow> ('m, 'x) lstate res" where
  "detach_chunk_from_context_mt k s = chunk_free_mt k (upd_ck k (\<lambda>x. x\<lparr>ck_context := NULL\<rparr>) s)"

end
