(* ===== verification/Page_Sample_Map.thy ===== *)
theory Page_Sample_Map
  imports Locality_Profile
begin

text \<open>
  The map from page addresses to samples (\<open>page_sample_map.c\<close>, both versions): a hash map of
  blocks of 4096 pages, the last block used being kept in \<open>hot_page_block\<close>. The parallel version
  keeps the hot block and the free list of samples per thread and guards the list of blocks with a
  lock.
\<close>

section \<open>Data\<close>

record page_sample =
  ps_addr :: uint64
  ps_miss :: uint64
  ps_access :: uint64
  ps_victim_ref :: uint32
  ps_pollutor_ref :: uint32
  ps_total_ref :: uint32
  ps_state :: int
  ps_wait_timer :: int
  ps_wait_page_fault :: int
  ps_lock :: bool
  ps_chunk :: ptr

record page_block =
  pb_addr :: uint64
  pb_page_sample :: "ptr list"

record 'm pm_state = "'m lp_state" +
  page_block_list :: "ptr list"
  page_block_map :: 'm
  hot_page_block :: ptr
  free_page_sample :: "ptr list"
  fp_init :: bool
  active_page_sample :: "ptr list"
  pb_cell :: "ptr \<Rightarrow> page_block"
  ps_cell :: "ptr \<Rightarrow> page_sample"
  pm_lock :: bool

type_synonym ('m, 'x) pstate = "('m, 'x) pm_state_scheme"

definition PAGE_BLOCK_SIZE :: nat where "PAGE_BLOCK_SIZE = 4096"
definition PAGE_BLOCK_SHIFT :: nat where "PAGE_BLOCK_SHIFT = 12 + PAGE_SHIFT"
definition PAGE_BLOCK_MASK :: uint64 where "PAGE_BLOCK_MASK = NOT (shl64 1 PAGE_BLOCK_SHIFT - 1)"

definition upd_ps :: "ptr \<Rightarrow> (page_sample \<Rightarrow> page_sample) \<Rightarrow> ('m, 'x) pstate \<Rightarrow> ('m, 'x) pstate" where
  "upd_ps p f s = s\<lparr>ps_cell := (ps_cell s)(p := f (ps_cell s p))\<rparr>"

definition sample_idx :: "uint64 \<Rightarrow> int" where
  "sample_idx addr = uint (shr64 (addr AND NOT PAGE_BLOCK_MASK) PAGE_SHIFT)"

definition blk_align :: "uint64 \<Rightarrow> uint64" where
  "blk_align addr = addr AND PAGE_BLOCK_MASK"

text \<open>\<open>block->page_sample[i]\<close>, read and written.\<close>

definition rd_sample :: "ptr \<Rightarrow> int \<Rightarrow> ('m, 'x) pstate \<Rightarrow> ptr res" where
  "rd_sample b i s = rd (pb_page_sample (pb_cell s b)) i"

definition wr_sample :: "ptr \<Rightarrow> int \<Rightarrow> ptr \<Rightarrow> ('m, 'x) pstate \<Rightarrow> ('m, 'x) pstate res" where
  "wr_sample b i p s =
     rbind (wr (pb_page_sample (pb_cell s b)) i p) (\<lambda>ps.
       Inr (s\<lparr>pb_cell := (pb_cell s)(b := (pb_cell s b)\<lparr>pb_page_sample := ps\<rparr>)\<rparr>))"

definition new_block :: "uint64 \<Rightarrow> ('m, 'x) pstate \<Rightarrow> ptr \<times> ('m, 'x) pstate" where
  "new_block addr_blk_align s =
     (let (b, s) = internal_malloc s
      in (b, s\<lparr>pb_cell := (pb_cell s)(b :=
            \<lparr>pb_addr = addr_blk_align, pb_page_sample = replicate PAGE_BLOCK_SIZE NULL\<rparr>)\<rparr>))"

section \<open>The serial version\<close>

definition get_page_block :: "uint64 \<Rightarrow> (hash_map, 'x) pstate \<Rightarrow> (ptr \<times> (hash_map, 'x) pstate) res" where
  "get_page_block addr_blk_align s =
     (if hot_page_block s \<noteq> NULL \<and> pb_addr (pb_cell s (hot_page_block s)) = addr_blk_align
      then Inr (hot_page_block s, s)
      else rbind (hash_map_find_member (page_block_map s) addr_blk_align s) (\<lambda>b.
             Inr (b, s\<lparr>hot_page_block := b\<rparr>)))"

definition init_page_block :: "uint64 \<Rightarrow> (hash_map, 'x) pstate \<Rightarrow> (ptr \<times> (hash_map, 'x) pstate) res" where
  "init_page_block addr s =
     (let (b, s) = new_block (blk_align addr) s
      in rbind (hash_map_add_member (page_block_map s) (blk_align addr) b s) (\<lambda>(ret, m, s).
           Inr (b, s\<lparr>page_block_map := m, page_block_list := b # page_block_list s, hot_page_block := b\<rparr>)))"

definition page_sample_free :: "ptr \<Rightarrow> ('m, 'x) pstate \<Rightarrow> ('m, 'x) pstate" where
  "page_sample_free p s =
     (let s = s\<lparr>active_page_sample := remove1 p (active_page_sample s),
                free_page_sample := remove1 p (free_page_sample s)\<rparr>
      in s\<lparr>free_page_sample := p # free_page_sample s\<rparr>)"

definition page_sample_alloc :: "('m, 'x) pstate \<Rightarrow> ptr \<times> ('m, 'x) pstate" where
  "page_sample_alloc s =
     (let (p, s) = (case free_page_sample s of
                      [] \<Rightarrow> internal_malloc s
                    | p # ps \<Rightarrow> (p, s\<lparr>free_page_sample := ps\<rparr>))
      in (p, s\<lparr>active_page_sample := p # active_page_sample s\<rparr>))"

definition attach_page_sample :: "uint64 \<Rightarrow> (hash_map, 'x) pstate \<Rightarrow> (ptr \<times> (hash_map, 'x) pstate) res" where
  "attach_page_sample addr s =
     rbind (get_page_block (blk_align addr) s) (\<lambda>(b, s).
     rbind (if b = NULL then init_page_block addr s else Inr (b, s)) (\<lambda>(b, s).
     rbind (rd_sample b (sample_idx addr) s) (\<lambda>p.
       let s = (if p \<noteq> NULL then page_sample_free p s else s);
           (p, s) = page_sample_alloc s
       in rbind (wr_sample b (sample_idx addr) p s) (\<lambda>s. Inr (p, s)))))"

definition detach_page_sample :: "ptr \<Rightarrow> (hash_map, 'x) pstate \<Rightarrow> (hash_map, 'x) pstate res" where
  "detach_page_sample p s =
     (let addr = ps_addr (ps_cell s p)
      in rbind (get_page_block (blk_align addr) s) (\<lambda>(b, s).
           if b = NULL then Inr s
           else
             rbind (rd_sample b (sample_idx addr) s) (\<lambda>p.
               let s = (if p \<noteq> NULL then page_sample_free p s else s)
               in wr_sample b (sample_idx addr) NULL s)))"

definition get_page_sample :: "uint64 \<Rightarrow> (hash_map, 'x) pstate \<Rightarrow> (ptr \<times> (hash_map, 'x) pstate) res" where
  "get_page_sample addr s =
     rbind (get_page_block (blk_align addr) s) (\<lambda>(b, s).
       if b = NULL then Inr (NULL, s)
       else rbind (rd_sample b (sample_idx addr) s) (\<lambda>p. Inr (p, s)))"

definition page_sample_map_init :: "(hash_map, 'x) pstate \<Rightarrow> int \<times> (hash_map, 'x) pstate" where
  "page_sample_map_init s =
     (let s = s\<lparr>free_page_sample := [], active_page_sample := [], page_block_list := [], hot_page_block := NULL\<rparr>;
          (m, s) = new_hash_map s
      in (0, s\<lparr>page_block_map := m\<rparr>))"

definition page_sample_map_destroy :: "(hash_map, 'x) pstate \<Rightarrow> (hash_map, 'x) pstate" where
  "page_sample_map_destroy s =
     (let s = delete_hash_map (page_block_map s) s;
          s = (release_all (page_block_list s) s)\<lparr>page_block_list := []\<rparr>;
          s = (release_all (active_page_sample s) s)\<lparr>active_page_sample := []\<rparr>
      in (release_all (free_page_sample s) s)\<lparr>free_page_sample := []\<rparr>)"

definition get_active_page_number :: "('m, 'x) pstate \<Rightarrow> uint64" where
  "get_active_page_number s = word_of_nat (length (active_page_sample s))"

section \<open>The parallel version\<close>

definition get_page_block_mt ::
    "uint64 \<Rightarrow> (hash_map_mt, 'x) pstate \<Rightarrow> (ptr \<times> (hash_map_mt, 'x) pstate) res" where
  "get_page_block_mt addr_blk_align s =
     (if hot_page_block s \<noteq> NULL \<and> pb_addr (pb_cell s (hot_page_block s)) = addr_blk_align
      then Inr (hot_page_block s, s)
      else rbind (hash_map_find_member_mt (page_block_map s) addr_blk_align s) (\<lambda>(b, m).
             Inr (b, s\<lparr>page_block_map := m, hot_page_block := b\<rparr>)))"

definition init_page_block_mt ::
    "uint64 \<Rightarrow> (hash_map_mt, 'x) pstate \<Rightarrow> (ptr \<times> (hash_map_mt, 'x) pstate) res" where
  "init_page_block_mt addr s =
     (let (b, s) = new_block (blk_align addr) s
      in rbind (hash_map_add_member_mt (page_block_map s) (blk_align addr) b s) (\<lambda>(ret, m, s).
           let s = s\<lparr>page_block_map := m\<rparr>
           in if pm_lock s then Inl Deadlock
              else Inr (b, s\<lparr>page_block_list := b # page_block_list s, hot_page_block := b\<rparr>)))"

text \<open>The head of the free list is not set up here: on a thread that never allocated a sample it is null.\<close>

definition page_sample_free_mt :: "ptr \<Rightarrow> ('m, 'x) pstate \<Rightarrow> ('m, 'x) pstate res" where
  "page_sample_free_mt p s =
     (if \<not> fp_init s then Inl NullDeref else Inr (s\<lparr>free_page_sample := p # free_page_sample s\<rparr>))"

definition page_sample_alloc_mt :: "('m, 'x) pstate \<Rightarrow> ptr \<times> ('m, 'x) pstate" where
  "page_sample_alloc_mt s =
     (let s = (if fp_init s then s else s\<lparr>fp_init := True, free_page_sample := []\<rparr>)
      in case free_page_sample s of
           [] \<Rightarrow> internal_malloc s
         | p # ps \<Rightarrow> (p, s\<lparr>free_page_sample := ps\<rparr>))"

definition attach_page_sample_mt ::
    "uint64 \<Rightarrow> (hash_map_mt, 'x) pstate \<Rightarrow> (ptr \<times> (hash_map_mt, 'x) pstate) res" where
  "attach_page_sample_mt addr s =
     rbind (get_page_block_mt (blk_align addr) s) (\<lambda>(b, s).
     rbind (if b = NULL then init_page_block_mt addr s else Inr (b, s)) (\<lambda>(b, s).
     rbind (rd_sample b (sample_idx addr) s) (\<lambda>p.
     rbind (if p \<noteq> NULL then page_sample_free_mt p s else Inr s) (\<lambda>s.
       let (p, s) = page_sample_alloc_mt s
       in rbind (wr_sample b (sample_idx addr) p s) (\<lambda>s. Inr (p, s))))))"

definition detach_page_sample_mt :: "ptr \<Rightarrow> (hash_map_mt, 'x) pstate \<Rightarrow> (hash_map_mt, 'x) pstate res" where
  "detach_page_sample_mt p s =
     (let addr = ps_addr (ps_cell s p)
      in rbind (get_page_block_mt (blk_align addr) s) (\<lambda>(b, s).
           if b = NULL then Inr s
           else
             rbind (rd_sample b (sample_idx addr) s) (\<lambda>p.
             rbind (if p \<noteq> NULL then page_sample_free_mt p s else Inr s) (\<lambda>s.
               wr_sample b (sample_idx addr) NULL s))))"

definition get_page_sample_mt ::
    "uint64 \<Rightarrow> (hash_map_mt, 'x) pstate \<Rightarrow> (ptr \<times> (hash_map_mt, 'x) pstate) res" where
  "get_page_sample_mt addr s =
     rbind (get_page_block_mt (blk_align addr) s) (\<lambda>(b, s).
       if b = NULL then Inr (NULL, s)
       else rbind (rd_sample b (sample_idx addr) s) (\<lambda>p. Inr (p, s)))"

definition page_sample_map_init_mt :: "(hash_map_mt, 'x) pstate \<Rightarrow> int \<times> (hash_map_mt, 'x) pstate" where
  "page_sample_map_init_mt s =
     (let s = s\<lparr>free_page_sample := [], fp_init := True, page_block_list := []\<rparr>;
          (m, s) = new_hash_map_mt s
      in (0, s\<lparr>page_block_map := m, pm_lock := False\<rparr>))"

definition page_sample_map_destroy_mt :: "(hash_map_mt, 'x) pstate \<Rightarrow> (hash_map_mt, 'x) pstate res" where
  "page_sample_map_destroy_mt s =
     (let s = delete_hash_map_mt (page_block_map s) s;
          s = (release_all (page_block_list s) s)\<lparr>page_block_list := []\<rparr>
      in if \<not> fp_init s then Inl NullDeref
         else Inr ((release_all (free_page_sample s) s)\<lparr>free_page_sample := []\<rparr>))"

end
