(* ===== verification/LLC_Event_Cntr.thy ===== *)
theory LLC_Event_Cntr
  imports Page_Sample_Map
begin

text \<open>
  The counters of the last-level cache: \<open>llc_event_cntr.c\<close> in its two builds, over PAPI
  (\<open>USE_PAPI\<close>, the configured one) and over the perf system calls (\<open>USE_PERF_EVENT\<close>), and
  \<open>perf_event.c\<close>. The PAPI library and the system calls are parameters: the results of successive
  calls are part of the state. The \<open>assert\<close>s of the PAPI build are unconditional.
\<close>

section \<open>The PAPI build\<close>

definition PAPI_OK :: int where "PAPI_OK = 0"
definition PAPI_VER_CURRENT :: int where "PAPI_VER_CURRENT = 0x05030000"

record 'm llc_state = "'m pm_state" +
  papi_ret :: "nat \<Rightarrow> int"
  papi_calls :: nat
  papi_running :: bool
  papi_reads :: "nat \<Rightarrow> int \<times> int \<times> int"
  papi_read_cnt :: nat
  llc_miss_buf :: uint64
  llc_access_buf :: uint64

type_synonym ('m, 'x) llcstate = "('m, 'x) llc_state_scheme"

definition papi_call :: "('m, 'x) llcstate \<Rightarrow> int \<times> ('m, 'x) llcstate" where
  "papi_call s = (papi_ret s (papi_calls s), s\<lparr>papi_calls := papi_calls s + 1\<rparr>)"

text \<open>A call whose result is asserted.\<close>

definition papi_assert :: "int \<Rightarrow> ('m, 'x) llcstate \<Rightarrow> ('m, 'x) llcstate res" where
  "papi_assert expected s = (let (ret, s) = papi_call s in if ret = expected then Inr s else Inl AssertFail)"

fun papi_asserts :: "int list \<Rightarrow> ('m, 'x) llcstate \<Rightarrow> ('m, 'x) llcstate res" where
  "papi_asserts [] s = Inr s"
| "papi_asserts (e # es) s = rbind (papi_assert e s) (\<lambda>s. papi_asserts es s)"

text \<open>
  \<open>PAPI_library_init\<close>, \<open>PAPI_create_eventset\<close>, and for each of the three events
  \<open>PAPI_event_name_to_code\<close> and \<open>PAPI_add_event\<close>.
\<close>

definition llc_event_cntr_init :: "('m, 'x) llcstate \<Rightarrow> (int \<times> ('m, 'x) llcstate) res" where
  "llc_event_cntr_init s =
     rbind (papi_asserts [PAPI_VER_CURRENT, PAPI_OK, PAPI_OK, PAPI_OK, PAPI_OK, PAPI_OK, PAPI_OK, PAPI_OK] s) (\<lambda>s.
       Inr (0, s))"

definition llc_event_cntr_destroy :: "('m, 'x) llcstate \<Rightarrow> (int \<times> ('m, 'x) llcstate) res" where
  "llc_event_cntr_destroy s = rbind (papi_asserts [PAPI_OK, PAPI_OK] s) (\<lambda>s. Inr (0, s))"

text \<open>The counters are L2 lines in, LLC misses and LLC accesses, as signed 64-bit values.\<close>

definition llc_event_cntr_read :: "('m, 'x) llcstate \<Rightarrow> int \<times> ('m, 'x) llcstate" where
  "llc_event_cntr_read s =
     (let (l2_lines_in, llc_miss, llc_access) = papi_reads s (papi_read_cnt s);
          s = s\<lparr>papi_read_cnt := papi_read_cnt s + 1\<rparr>;
          s = s\<lparr>llc_miss_buf := word_of_int llc_miss, llc_access_buf := word_of_int llc_access\<rparr>
      in (0, if l2_lines_in > llc_access
             then s\<lparr>llc_miss_buf := llc_miss_buf s + word_of_int (l2_lines_in - llc_access)\<rparr>
             else s))"

definition llc_event_cntr_start :: "('m, 'x) llcstate \<Rightarrow> (int \<times> ('m, 'x) llcstate) res" where
  "llc_event_cntr_start s = rbind (papi_assert PAPI_OK s) (\<lambda>s. Inr (0, s\<lparr>papi_running := True\<rparr>))"

definition llc_event_cntr_stop :: "('m, 'x) llcstate \<Rightarrow> (int \<times> ('m, 'x) llcstate) res" where
  "llc_event_cntr_stop s = rbind (papi_assert PAPI_OK s) (\<lambda>s. Inr (0, s\<lparr>papi_running := False\<rparr>))"

section \<open>The perf build\<close>

datatype event_id = PERF_EVENT_L1_DCM | PERF_EVENT_L2_TCM | PERF_EVENT_L3_TCM | PERF_EVENT_L3_TCA

text \<open>The values of the \<open>enum\<close>, and the identifier an \<open>int\<close> stands for.\<close>

definition PERF_EVENT_MAX :: int where "PERF_EVENT_MAX = 4"

definition event_of :: "int \<Rightarrow> event_id" where
  "event_of i =
     (if i = 0 then PERF_EVENT_L1_DCM else if i = 1 then PERF_EVENT_L2_TCM
      else if i = 2 then PERF_EVENT_L3_TCM else PERF_EVENT_L3_TCA)"

definition PERF_TYPE_RAW :: uint32 where "PERF_TYPE_RAW = 4"
definition PERF_FORMAT_GROUP :: uint64 where "PERF_FORMAT_GROUP = 8"

definition PERF_ATTR_DISABLED :: uint64 where "PERF_ATTR_DISABLED = 0x1"
definition PERF_ATTR_INHERIT :: uint64 where "PERF_ATTR_INHERIT = 0x2"
definition PERF_ATTR_PINNED :: uint64 where "PERF_ATTR_PINNED = 0x4"
definition PERF_ATTR_EXCLUSIVE :: uint64 where "PERF_ATTR_EXCLUSIVE = 0x8"
definition PERF_ATTR_EXCL_USER :: uint64 where "PERF_ATTR_EXCL_USER = 0x10"
definition PERF_ATTR_EXCL_KERL :: uint64 where "PERF_ATTR_EXCL_KERL = 0x20"
definition PERF_ATTR_EXCL_HV :: uint64 where "PERF_ATTR_EXCL_HV = 0x40"
definition PERF_ATTR_EXCL_IDLE :: uint64 where "PERF_ATTR_EXCL_IDLE = 0x80"

lemmas perf_attr_defs = PERF_ATTR_DISABLED_def PERF_ATTR_INHERIT_def PERF_ATTR_PINNED_def
  PERF_ATTR_EXCLUSIVE_def PERF_ATTR_EXCL_USER_def PERF_ATTR_EXCL_KERL_def PERF_ATTR_EXCL_HV_def
  PERF_ATTR_EXCL_IDLE_def

record perf_event_attr =
  pa_type :: uint32
  pa_config :: uint64
  pa_read_format :: uint64
  pa_disabled :: bool
  pa_inherit :: bool
  pa_pinned :: bool
  pa_exclusive :: bool
  pa_exclude_user :: bool
  pa_exclude_kernel :: bool
  pa_exclude_hv :: bool
  pa_exclude_idle :: bool

definition zero_attr :: perf_event_attr where
  "zero_attr = \<lparr>pa_type = 0, pa_config = 0, pa_read_format = 0, pa_disabled = False, pa_inherit = False,
     pa_pinned = False, pa_exclusive = False, pa_exclude_user = False, pa_exclude_kernel = False,
     pa_exclude_hv = False, pa_exclude_idle = False\<rparr>"

definition EINVAL :: int where "EINVAL = 22"

definition perf_event_attr_setup ::
    "perf_event_attr \<Rightarrow> int \<Rightarrow> uint64 \<Rightarrow> uint64 \<Rightarrow> int \<times> perf_event_attr" where
  "perf_event_attr_setup attr event_id flag read_format =
     (if event_id < 0 \<or> event_id \<ge> PERF_EVENT_MAX then (- EINVAL, attr)
      else
        let attr = zero_attr\<lparr>pa_type := PERF_TYPE_RAW\<rparr>;
            attr = (case event_of event_id of
                      PERF_EVENT_L1_DCM \<Rightarrow> attr\<lparr>pa_config := 0x530f45\<rparr>
                    | PERF_EVENT_L2_TCM \<Rightarrow> attr\<lparr>pa_config := 0x53f024\<rparr>
                    | PERF_EVENT_L3_TCM \<Rightarrow> attr\<lparr>pa_config := 0x53412e\<rparr>
                    | PERF_EVENT_L3_TCA \<Rightarrow> attr\<lparr>pa_config := 0x534f2e\<rparr>)
        in (0, attr\<lparr>pa_disabled := (flag AND PERF_ATTR_DISABLED \<noteq> 0),
                    pa_inherit := (flag AND PERF_ATTR_INHERIT \<noteq> 0),
                    pa_pinned := (flag AND PERF_ATTR_PINNED \<noteq> 0),
                    pa_exclusive := (flag AND PERF_ATTR_EXCLUSIVE \<noteq> 0),
                    pa_exclude_user := (flag AND PERF_ATTR_EXCL_USER \<noteq> 0),
                    pa_exclude_kernel := (flag AND PERF_ATTR_EXCL_KERL \<noteq> 0),
                    pa_exclude_hv := (flag AND PERF_ATTR_EXCL_HV \<noteq> 0),
                    pa_exclude_idle := (flag AND PERF_ATTR_EXCL_HV \<noteq> 0),
                    pa_read_format := read_format\<rparr>))"

text \<open>
  The state of the perf build: the descriptors (0 for none), the descriptors closed, the result of
  each \<open>perf_event_open\<close> and \<open>ioctl\<close>, and what each \<open>read\<close> of the group delivers.
\<close>

record perf_state =
  event_fd :: "int list"
  fd_closed :: "int list"
  open_ret :: "nat \<Rightarrow> int"
  open_cnt :: nat
  ioctl_ret :: "nat \<Rightarrow> int"
  ioctl_log :: "(int \<times> bool) list"
  group_reads :: "nat \<Rightarrow> uint64 \<times> uint64"
  group_read_cnt :: nat
  last_llc_miss :: uint64
  last_llc_access :: uint64
  pbuf_miss :: uint64
  pbuf_access :: uint64

definition sys_perf_event_open :: "perf_event_attr \<Rightarrow> int \<Rightarrow> perf_state \<Rightarrow> int \<times> perf_state" where
  "sys_perf_event_open attr group_fd s = (open_ret s (open_cnt s), s\<lparr>open_cnt := open_cnt s + 1\<rparr>)"

definition close_fds :: "perf_state \<Rightarrow> perf_state" where
  "close_fds s = s\<lparr>fd_closed := rev (filter (\<lambda>fd. fd \<noteq> 0) (event_fd s)) @ fd_closed s,
     event_fd := map (\<lambda>_. 0) (event_fd s)\<rparr>"

definition perf_cntr_init :: "perf_state \<Rightarrow> int \<times> perf_state" where
  "perf_cntr_init s =
     (let s = s\<lparr>event_fd := [0, 0]\<rparr>;
          flag = PERF_ATTR_DISABLED OR PERF_ATTR_PINNED OR PERF_ATTR_EXCL_KERL OR PERF_ATTR_EXCL_HV;
          (_, attr) = perf_event_attr_setup zero_attr 2 flag PERF_FORMAT_GROUP;
          (fd, s) = sys_perf_event_open attr (- 1) s
      in if fd < 0 then (fd, close_fds s)
         else
           let s = s\<lparr>event_fd := (event_fd s)[0 := fd]\<rparr>;
               flag = PERF_ATTR_EXCL_KERL OR PERF_ATTR_EXCL_HV;
               (_, attr) = perf_event_attr_setup attr 3 flag 0;
               (fd, s) = sys_perf_event_open attr (event_fd s ! 0) s
           in if fd < 0 then (fd, close_fds s)
              else (0, s\<lparr>event_fd := (event_fd s)[1 := fd]\<rparr>))"

definition perf_cntr_destroy :: "perf_state \<Rightarrow> int \<times> perf_state" where
  "perf_cntr_destroy s = (0, close_fds s)"

text \<open>A reading that is more than \<open>2 ^ 32\<close> away from the first one is replaced by the first one.\<close>

definition perf_cntr_read :: "perf_state \<Rightarrow> int \<times> perf_state" where
  "perf_cntr_read s =
     (let (miss, access) = group_reads s (group_read_cnt s);
          s = s\<lparr>group_read_cnt := group_read_cnt s + 1\<rparr>
      in if last_llc_access s = 0
         then (0, s\<lparr>last_llc_miss := miss, last_llc_access := access, pbuf_miss := miss, pbuf_access := access\<rparr>)
         else (0, s\<lparr>pbuf_miss := (if shr64 (miss - last_llc_miss s) 32 \<noteq> 0 then last_llc_miss s else miss),
                    pbuf_access := (if shr64 (access - last_llc_access s) 32 \<noteq> 0 then last_llc_access s
                                    else access)\<rparr>))"

text \<open>The \<open>ioctl\<close>s that enable and disable; a result other than 0 ends the loop.\<close>

fun perf_ioctls :: "bool \<Rightarrow> int list \<Rightarrow> perf_state \<Rightarrow> int \<times> perf_state" where
  "perf_ioctls enable [] s = (0, s)"
| "perf_ioctls enable (fd # fds) s =
     (if fd = 0 then perf_ioctls enable fds s
      else
        let ret = ioctl_ret s (length (ioctl_log s));
            s = s\<lparr>ioctl_log := (fd, enable) # ioctl_log s\<rparr>
        in if ret \<noteq> 0 then (ret, s) else perf_ioctls enable fds s)"

definition perf_cntr_start :: "perf_state \<Rightarrow> int \<times> perf_state" where
  "perf_cntr_start s = perf_ioctls True (event_fd s) s"

definition perf_cntr_stop :: "perf_state \<Rightarrow> int \<times> perf_state" where
  "perf_cntr_stop s = perf_ioctls False (event_fd s) s"

end
