(* ===== verification/Chunk_Head.thy ===== *)
theory Chunk_Head
  imports LLC_Event_Cntr
begin

text \<open>
  The part of the modified \<open>tcmalloc.cc\<close> that NightWatch is built on: the head of 16 bytes in front
  of every user block, with its mark, the heap type in the low byte of the mark, the distance to the
  start of the block and the pointer NightWatch keeps there; the depth of nested sections in which
  allocations are not sampled; and \<open>switch_heap_type\<close>. Memory is seen as heads, one for each
  address; what the user or the free lists of the allocator write to a block is not modelled, so the
  head of a block that is handed out may hold anything. The remapping of pages is logged in
  \<open>mmap_calls\<close>. A depth is an \<open>int\<close> of the thread; no program nests \<open>2 ^ 31\<close> sections, and the
  model does not wrap it.
\<close>

section \<open>Data\<close>

record chunk_head =
  ch_offset :: uint32
  ch_mark :: uint32
  ch_extend_info :: ptr

record 'm tc_state = "'m llc_state" +
  chk_cell :: "uint64 \<Rightarrow> chunk_head"
  mmap_calls :: "(uint64 \<times> uint64 \<times> int) list"
  in_cache_manage :: int
  cache_manager_private :: "ctx_ref option"

type_synonym ('m, 'x) tstate = "('m, 'x) tc_state_scheme"

definition CHUNK_HEAD_MARK :: uint32 where "CHUNK_HEAD_MARK = 0x5fb05f00"
definition HEAP_TYPE_MASK :: uint32 where "HEAP_TYPE_MASK = NOT (2 ^ 8 - 1)"
definition NR_HEAP_TYPE :: int where "NR_HEAP_TYPE = 2"
definition DEFAULT_HEAP_TYPE :: int where "DEFAULT_HEAP_TYPE = OPEN_MAPPING"
definition CHUNK_HEAD_SZ :: uint64 where "CHUNK_HEAD_SZ = 16"

definition heap_type2mmap_type :: "int \<Rightarrow> int" where
  "heap_type2mmap_type type = type + 2"

definition upd_head :: "uint64 \<Rightarrow> (chunk_head \<Rightarrow> chunk_head) \<Rightarrow> ('m, 'x) tstate \<Rightarrow> ('m, 'x) tstate" where
  "upd_head a f s = s\<lparr>chk_cell := (chk_cell s)(a := f (chk_cell s a))\<rparr>"

section \<open>Operations on a head\<close>

definition set_chunk_head_mark :: "chunk_head \<Rightarrow> chunk_head" where
  "set_chunk_head_mark h = h\<lparr>ch_mark := (ch_mark h AND NOT HEAP_TYPE_MASK) OR CHUNK_HEAD_MARK\<rparr>"

definition get_chunk_head_mark :: "chunk_head \<Rightarrow> uint32" where
  "get_chunk_head_mark h = ch_mark h AND HEAP_TYPE_MASK"

definition set_heap_type :: "int \<Rightarrow> chunk_head \<Rightarrow> chunk_head" where
  "set_heap_type type h =
     h\<lparr>ch_mark := (ch_mark h AND HEAP_TYPE_MASK) OR (word_of_int type AND NOT HEAP_TYPE_MASK)\<rparr>"

definition chunk_head_size :: "uint64 \<Rightarrow> uint64" where
  "chunk_head_size align = (if align > CHUNK_HEAD_SZ then align else CHUNK_HEAD_SZ)"

definition usr_ptr2chk_head :: "ptr \<Rightarrow> uint64" where
  "usr_ptr2chk_head usr_ptr = usr_ptr - CHUNK_HEAD_SZ"

definition chk_head2usr_ptr :: "uint64 \<Rightarrow> ptr" where
  "chk_head2usr_ptr chk_head = chk_head + CHUNK_HEAD_SZ"

definition chk_head2malloc_ptr :: "uint64 \<Rightarrow> ('m, 'x) tstate \<Rightarrow> ptr" where
  "chk_head2malloc_ptr chk_head s = chk_head + CHUNK_HEAD_SZ - ucast (ch_offset (chk_cell s chk_head))"

definition usr_ptr2malloc_ptr :: "ptr \<Rightarrow> ('m, 'x) tstate \<Rightarrow> ptr" where
  "usr_ptr2malloc_ptr usr_ptr s = chk_head2malloc_ptr (usr_ptr2chk_head usr_ptr) s"

definition using_chunk_head :: "ptr \<Rightarrow> ('m, 'x) tstate \<Rightarrow> bool" where
  "using_chunk_head usr_ptr s \<longleftrightarrow>
     usr_ptr \<noteq> NULL \<and> get_chunk_head_mark (chk_cell s (usr_ptr2chk_head usr_ptr)) = CHUNK_HEAD_MARK"

text \<open>The offset is a \<open>uint32_t\<close>, the distance it is set from a \<open>size_t\<close>.\<close>

definition init_chunk_head :: "uint64 \<Rightarrow> chunk_head \<Rightarrow> chunk_head" where
  "init_chunk_head offset h = (set_chunk_head_mark h)\<lparr>ch_offset := ucast offset\<rparr>"

definition cpy_chunk_head :: "uint64 \<Rightarrow> uint64 \<Rightarrow> ('m, 'x) tstate \<Rightarrow> ('m, 'x) tstate" where
  "cpy_chunk_head dst src s =
     (let h = chk_cell s src
      in upd_head dst (\<lambda>x. x\<lparr>ch_extend_info := ch_extend_info h, ch_mark := ch_mark h, ch_offset := ch_offset h\<rparr>) s)"

definition get_usr_size :: "uint64 \<Rightarrow> ptr \<Rightarrow> ('m, 'x) tstate \<Rightarrow> uint64" where
  "get_usr_size malloc_sz usr_ptr s =
     (if usr_ptr = NULL \<or> \<not> using_chunk_head usr_ptr s then malloc_sz
      else
        let head_sz = ucast (ch_offset (chk_cell s (usr_ptr2chk_head usr_ptr)))
        in if head_sz \<ge> malloc_sz then malloc_sz else malloc_sz - head_sz)"

definition get_ex_size :: "uint64 \<Rightarrow> uint64 \<Rightarrow> uint64" where
  "get_ex_size usr_sz align = usr_sz + chunk_head_size align"

definition get_heap_type :: "ptr \<Rightarrow> ('m, 'x) tstate \<Rightarrow> int" where
  "get_heap_type p s = uint (ch_mark (chk_cell s (usr_ptr2chk_head p)) AND NOT HEAP_TYPE_MASK)"

text \<open>Writing the head of a block that was not allocated is an access through the null pointer.\<close>

definition extend_malloc_and_get_usr_ptr :: "ptr \<Rightarrow> uint64 \<Rightarrow> ('m, 'x) tstate \<Rightarrow> (ptr \<times> ('m, 'x) tstate) res" where
  "extend_malloc_and_get_usr_ptr result align s =
     (if result = NULL then Inl NullDeref
      else
        let usr_ptr = result + chunk_head_size align;
            s = upd_head result (init_chunk_head (chunk_head_size align)) s;
            s = (if align > CHUNK_HEAD_SZ then cpy_chunk_head (usr_ptr2chk_head usr_ptr) result s else s)
        in Inr (usr_ptr, s))"

section \<open>The interface for NightWatch\<close>

definition set_extend_info :: "ptr \<Rightarrow> ptr \<Rightarrow> ('m, 'x) tstate \<Rightarrow> ('m, 'x) tstate" where
  "set_extend_info p info s =
     (if using_chunk_head p s then upd_head (usr_ptr2chk_head p) (\<lambda>x. x\<lparr>ch_extend_info := info\<rparr>) s else s)"

definition get_extend_info :: "ptr \<Rightarrow> ('m, 'x) tstate \<Rightarrow> ptr" where
  "get_extend_info p s =
     (if using_chunk_head p s then ch_extend_info (chk_cell s (usr_ptr2chk_head p)) else NULL)"

definition switch_heap_type :: "ptr \<Rightarrow> uint64 \<Rightarrow> int \<Rightarrow> ('m, 'x) tstate \<Rightarrow> ('m, 'x) tstate" where
  "switch_heap_type p sz target_type s =
     (if p = NULL \<or> \<not> using_chunk_head p s \<or> sz < shl64 PAGE_SIZE 1 then s
      else
        let s = upd_head (usr_ptr2chk_head p) (set_heap_type target_type) s;
            start = UPPER_PAGE_ALIGN p;
            stop = LOWER_PAGE_ALIGN (p + sz)
        in s\<lparr>mmap_calls := (start, stop - start, heap_type2mmap_type target_type) # mmap_calls s\<rparr>)"

definition enter_cache_management :: "('m, 'x) tstate \<Rightarrow> ('m, 'x) tstate" where
  "enter_cache_management s = s\<lparr>in_cache_manage := in_cache_manage s + 1\<rparr>"

definition leave_cache_management :: "('m, 'x) tstate \<Rightarrow> ('m, 'x) tstate" where
  "leave_cache_management s = s\<lparr>in_cache_manage := in_cache_manage s - 1\<rparr>"

definition in_cache_management :: "('m, 'x) tstate \<Rightarrow> bool" where
  "in_cache_management s \<longleftrightarrow> in_cache_manage s \<noteq> 0"

section \<open>What the operations leave alone\<close>

lemma set_heap_type_keeps [simp]:
  "get_chunk_head_mark (set_heap_type t h) = get_chunk_head_mark h" "ch_offset (set_heap_type t h) = ch_offset h"
  "ch_extend_info (set_heap_type t h) = ch_extend_info h"
proof -
  have "(a AND m OR b AND NOT m) AND m = a AND m" for a b m :: uint32
    by (rule bit_word_eqI) (auto simp: bit_simps)
  then show "get_chunk_head_mark (set_heap_type t h) = get_chunk_head_mark h"
    by (simp add: get_chunk_head_mark_def set_heap_type_def)
qed (simp_all add: set_heap_type_def)

lemma upd_head_frame [simp]:
  "queue_lock (upd_head a f s) = queue_lock s"
  "eq_status (upd_head a f s) = eq_status s"
  "events (upd_head a f s) = events s"
  "ev_cell (upd_head a f s) = ev_cell s"
  "ck_cell (upd_head a f s) = ck_cell s"
  "ctx_cell (upd_head a f s) = ctx_cell s"
  "ps_cell (upd_head a f s) = ps_cell s"
  "free_chunk (upd_head a f s) = free_chunk s"
  "active_chunk (upd_head a f s) = active_chunk s"
  "in_cache_manage (upd_head a f s) = in_cache_manage s"
  "cache_manager_private (upd_head a f s) = cache_manager_private s"
  by (simp_all add: upd_head_def)

lemma set_extend_info_frame [simp]:
  "queue_lock (set_extend_info p i s) = queue_lock s"
  "eq_status (set_extend_info p i s) = eq_status s"
  "events (set_extend_info p i s) = events s"
  "ev_cell (set_extend_info p i s) = ev_cell s"
  "ck_cell (set_extend_info p i s) = ck_cell s"
  "ctx_cell (set_extend_info p i s) = ctx_cell s"
  "ps_cell (set_extend_info p i s) = ps_cell s"
  "free_chunk (set_extend_info p i s) = free_chunk s"
  "active_chunk (set_extend_info p i s) = active_chunk s"
  "in_cache_manage (set_extend_info p i s) = in_cache_manage s"
  "cache_manager_private (set_extend_info p i s) = cache_manager_private s"
  by (simp_all add: set_extend_info_def)

lemma switch_heap_type_frame [simp]:
  "queue_lock (switch_heap_type p z t s) = queue_lock s"
  "eq_status (switch_heap_type p z t s) = eq_status s"
  "events (switch_heap_type p z t s) = events s"
  "ev_cell (switch_heap_type p z t s) = ev_cell s"
  "ck_cell (switch_heap_type p z t s) = ck_cell s"
  "ctx_cell (switch_heap_type p z t s) = ctx_cell s"
  "ps_cell (switch_heap_type p z t s) = ps_cell s"
  "free_chunk (switch_heap_type p z t s) = free_chunk s"
  "active_chunk (switch_heap_type p z t s) = active_chunk s"
  "in_cache_manage (switch_heap_type p z t s) = in_cache_manage s"
  "cache_manager_private (switch_heap_type p z t s) = cache_manager_private s"
  by (simp_all add: switch_heap_type_def Let_def)

end
