(* ===== verification/Chunk_Predictor.thy ===== *)
theory Chunk_Predictor
  imports Locality_Profile
begin

text \<open>
  The predictor of \<open>chunk_predictor.c\<close> (both versions): what a context predicts, and how the result
  of monitoring a chunk updates its context and the table from sizes to mapping types. The two
  functions that start and stop the monitoring of a chunk are with the monitor.
\<close>

definition get_predict_mr :: "alloc_context \<Rightarrow> rat" where
  "get_predict_mr c =
     (if predict_mr0 c = - 1 then predict_mr1 c
      else if predict_mr0 c < predict_mr1 c then predict_mr0 c else predict_mr1 c)"

definition NightWatch_size_demand :: "uint64 \<Rightarrow> ctx_ref option \<Rightarrow> ('m, 'x) lstate \<Rightarrow> uint64" where
  "NightWatch_size_demand sz ctx s =
     (case ctx of
        None \<Rightarrow> sz
      | Some r \<Rightarrow>
          if ac_word0 (deref_ctx r s) = MAP_ONLY_CONTEXT then sz
          else if sample_skip (deref_ctx r s) = 0 \<and> sz < SMALL_MEMORY_CHUNK then SMALL_MEMORY_CHUNK
          else sz)"

definition NightWatch_heap_type_hint :: "ctx_ref \<Rightarrow> ('m, 'x) lstate \<Rightarrow> int" where
  "NightWatch_heap_type_hint r s =
     (let c = deref_ctx r s
      in if ac_word0 c = MAP_ONLY_CONTEXT then i32 (uint (ac_word1 c))
         else if predict_type0 c \<noteq> RESTRICT_MAPPING \<or> predict_type1 c \<noteq> RESTRICT_MAPPING then OPEN_MAPPING
         else RESTRICT_MAPPING)"

text \<open>The miss ratio of a chunk, and the mapping it calls for.\<close>

definition chunk_mr :: "memory_chunk \<Rightarrow> rat" where
  "chunk_mr k =
     (if ck_total_ref k = 0 then 0
      else f_div (f_of_uint (ck_pollutor_ref k)) (f_of_uint (ck_total_ref k)))"

definition chunk_mapping :: "memory_chunk \<Rightarrow> int" where
  "chunk_mapping k = (if chunk_mr k \<ge> D0_9 then RESTRICT_MAPPING else OPEN_MAPPING)"

text \<open>The new prediction of a context; \<open>skip_interval << 1\<close> wraps at 32 bits.\<close>

definition predict_update :: "memory_chunk \<Rightarrow> alloc_context \<Rightarrow> alloc_context" where
  "predict_update k c =
     (let mapping = chunk_mapping k;
          c = c\<lparr>predict_type0 := predict_type1 c, predict_type1 := mapping,
                predict_mr0 := predict_mr1 c, predict_mr1 := chunk_mr k\<rparr>
      in if ck_size k < LARGE_MEMORY_CHUNK
         then
           let c = (if mapping \<noteq> ck_mapping_type k then c\<lparr>skip_interval := 0\<rparr>
                    else c\<lparr>skip_interval := (if skip_interval c = 0 then 1 else i32 (skip_interval c * 2))\<rparr>)
           in c\<lparr>sample_skip := skip_interval c\<rparr>
         else c)"

definition update_context_mapping_type :: "ptr \<Rightarrow> ('m, 'x) lstate \<Rightarrow> (int \<times> ('m, 'x) lstate) res" where
  "update_context_mapping_type k s =
     (let ck = ck_cell s k;
          s = upd_ctx (ck_context ck) (predict_update ck) s
      in rbind (if ck_size ck \<le> S2T_MAP_SIZE then update_s2c_map (ck_size ck) (chunk_mapping ck) s else Inr s) (\<lambda>s.
           Inr (chunk_mapping ck, s)))"

definition update_context_mapping_type_mt :: "ptr \<Rightarrow> ('m, 'x) lstate \<Rightarrow> (int \<times> ('m, 'x) lstate) res" where
  "update_context_mapping_type_mt k s =
     (let ck = ck_cell s k
      in rbind (lock_ctx (ck_context ck) s) (\<lambda>s.
           let s = unlock_ctx (ck_context ck) (upd_ctx (ck_context ck) (predict_update ck) s)
           in rbind (if ck_size ck \<le> S2T_MAP_SIZE
                     then update_s2t_map_mt (ck_size ck) (chunk_mapping ck) s else Inr s) (\<lambda>s.
                Inr (chunk_mapping ck, s))))"

text \<open>The part of \<open>NightWatch_sampling\<close> that decides whether a chunk is skipped.\<close>

definition skip_chunk :: "uint64 \<Rightarrow> alloc_context \<Rightarrow> bool" where
  "skip_chunk sz c \<longleftrightarrow>
     sample_skip c > 0 \<and>
     (sz < SMALL_MEMORY_CHUNK \<or> (last_chunk_sz c = sz \<and> sz < LARGE_MEMORY_CHUNK))"

text \<open>
  What happens to the context when a chunk of the given size is to be monitored. The serial version
  rearms \<open>sample_skip\<close> when it is 0, the parallel one when it is 0 or less.
\<close>

definition sampled_context :: "(int \<Rightarrow> bool) \<Rightarrow> uint64 \<Rightarrow> alloc_context \<Rightarrow> alloc_context" where
  "sampled_context used_up sz c =
     (let c = (if last_chunk_sz c \<noteq> sz
               then c\<lparr>skip_interval := 0, predict_type0 := UNKNOWN_MAPPING, predict_mr0 := - 1\<rparr> else c);
          c = (if used_up (sample_skip c) \<and> sz < LARGE_MEMORY_CHUNK then c\<lparr>sample_skip := skip_interval c\<rparr> else c)
      in c\<lparr>last_chunk_sz := sz\<rparr>)"

end
