(* ===== verification/Chunk_Monitor.thy ===== *)
theory Chunk_Monitor
  imports Chunk_Head Chunk_Predictor
begin

text \<open>
  The chunk monitor (\<open>chunk_monitor.c\<close>, parallel version). The pages of a chunk that are sampled
  are protected; the fault handler takes a sample and schedules the next one on the event queue.
  The page protection is the set \<open>page_prot\<close> of protected pages; \<open>rand\<close> and the truncated value of
  \<open>pow (x, SAMPLE_DENSITY)\<close> are parameters in the state. The handlers of time events call the
  queue, which calls handlers, so every function that may reach the queue takes fuel and the
  environment through which the queue calls back; \<open>run_handler_mt\<close> ties the knot.
\<close>

section \<open>Data\<close>

definition MONITOR_ACTIVE :: int where "MONITOR_ACTIVE = 1"
definition MONITOR_DESTROYED :: int where "MONITOR_DESTROYED = 2"

definition CHUNK_NO_MONIT :: int where "CHUNK_NO_MONIT = 0"
definition CHUNK_UNDER_MONIT :: int where "CHUNK_UNDER_MONIT = 2"
definition CHUNK_MONIT_FINISH :: int where "CHUNK_MONIT_FINISH = 3"

definition SAMPLE_UNINIT :: int where "SAMPLE_UNINIT = 0"
definition WAIT_FIRST_ACCESS :: int where "WAIT_FIRST_ACCESS = 1"
definition WAIT_SUCCESSIVE_ACCESS :: int where "WAIT_SUCCESSIVE_ACCESS = 2"
definition BURST_ACCESS_SKIP :: int where "BURST_ACCESS_SKIP = 3"

definition START_SAMPLE :: int where "START_SAMPLE = 0"
definition FIRST_ROUND :: int where "FIRST_ROUND = 1"
definition SECOND_ROUND :: int where "SECOND_ROUND = 2"
definition LAST_ROUND :: int where "LAST_ROUND = 3"

definition SAMPLE_COMPLETE :: int where "SAMPLE_COMPLETE = 1"
definition WAIT_NEXT_SAMPLE :: int where "WAIT_NEXT_SAMPLE = 2"

lemmas chunk_state_defs = CHUNK_NO_MONIT_def CHUNK_UNDER_MONIT_def CHUNK_MONIT_FINISH_def
lemmas sample_state_defs = SAMPLE_UNINIT_def WAIT_FIRST_ACCESS_def WAIT_SUCCESSIVE_ACCESS_def BURST_ACCESS_SKIP_def
lemmas round_defs = START_SAMPLE_def FIRST_ROUND_def SECOND_ROUND_def LAST_ROUND_def

definition DEFAULT_BURST_LEN :: uint64 where "DEFAULT_BURST_LEN = 500"
definition BURST_SKIP_UPDATE_INTERVAL :: uint64 where "BURST_SKIP_UPDATE_INTERVAL = 100000"
definition SAMPLE_FREQUENCY :: uint64 where "SAMPLE_FREQUENCY = 100000"
definition MIN_SAMPLE_CYCLE :: int where "MIN_SAMPLE_CYCLE = 2"
definition MAX_SAMPLE_CYCLE :: int where "MAX_SAMPLE_CYCLE = 8"

record 'm cm_state = "'m tc_state" +
  llc_sz_in_line :: int
  llc_sz :: int
  cache_region_sz_in_line :: int
  cache_region_sz :: int
  monitor_state :: int
  burst_skip_len :: uint64
  llc_acc_at_skip_update :: uint64
  tv_at_skip_update :: timeval
  nr_skip_update_attempt :: int
  page_prot :: "uint64 set"
  pow_density :: "uint64 \<Rightarrow> int"
  rand_seq :: "nat \<Rightarrow> int"
  rand_cnt :: nat
  sigsegv_ret :: int

type_synonym 'x cstate = "(hash_map_mt, 'x) cm_state_scheme"
type_synonym 'x cenv = "(hash_map_mt, 'x cstate) queue_env"

definition c_rand :: "('m, 'x) cm_state_scheme \<Rightarrow> int \<times> ('m, 'x) cm_state_scheme" where
  "c_rand s = (rand_seq s (rand_cnt s), s\<lparr>rand_cnt := rand_cnt s + 1\<rparr>)"

text \<open>An \<open>int\<close> in an expression with an \<open>unsigned long\<close>.\<close>

abbreviation to_u64 :: "int \<Rightarrow> uint64" where
  "to_u64 i \<equiv> word_of_int i"

section \<open>Burst skip\<close>

definition init_burst_skip :: "('m, 'x) cm_state_scheme \<Rightarrow> int \<times> ('m, 'x) cm_state_scheme" where
  "init_burst_skip s =
     (let (now, s) = gettimeofday s;
          s = s\<lparr>tv_at_skip_update := now\<rparr>;
          (_, s) = llc_event_cntr_read s
      in (0, s\<lparr>llc_acc_at_skip_update := llc_access_buf s, burst_skip_len := DEFAULT_BURST_LEN,
               nr_skip_update_attempt := 0\<rparr>))"

definition burst_skip_update :: "('m, 'x) cm_state_scheme \<Rightarrow> ('m, 'x) cm_state_scheme res" where
  "burst_skip_update s =
     (let llc_acc = llc_access_buf s
      in if llc_acc < llc_acc_at_skip_update s then Inr s
         else
           let llc_acc_occur = llc_acc - llc_acc_at_skip_update s
           in if llc_acc_occur < to_u64 (cache_region_sz_in_line s) then Inr s
              else
                let (now, s) = gettimeofday s;
                    usec_passed = to_u64 ((tv_sec now - tv_sec (tv_at_skip_update s)) * 1000000 +
                                          tv_usec now - tv_usec (tv_at_skip_update s))
                in if usec_passed < BURST_SKIP_UPDATE_INTERVAL then Inr s
                   else if llc_acc_occur = 0 then Inl DivByZero
                   else
                     let skip_len = usec_passed * to_u64 (cache_region_sz_in_line s) div llc_acc_occur;
                         skip_len = (if skip_len < DEFAULT_BURST_LEN then DEFAULT_BURST_LEN else skip_len)
                     in Inr (s\<lparr>burst_skip_len := skip_len, tv_at_skip_update := now,
                               llc_acc_at_skip_update := llc_acc\<rparr>))"

section \<open>Page samples\<close>

definition fresh_sample :: "uint64 \<Rightarrow> ptr \<Rightarrow> page_sample \<Rightarrow> page_sample" where
  "fresh_sample addr chunk x = x\<lparr>ps_miss := 0, ps_access := 0, ps_victim_ref := 0, ps_pollutor_ref := 0,
     ps_total_ref := 0, ps_addr := addr AND PAGE_MASK, ps_chunk := chunk, ps_state := WAIT_FIRST_ACCESS,
     ps_wait_timer := 0, ps_wait_page_fault := 0, ps_lock := False\<rparr>"

definition init_page_sample_mt :: "ptr \<Rightarrow> ptr \<Rightarrow> uint64 \<Rightarrow> ('m, 'x) pstate \<Rightarrow> ('m, 'x) pstate" where
  "init_page_sample_mt sample chunk addr s = upd_ps sample (fresh_sample addr chunk) s"

definition enable_page_sample :: "ptr \<Rightarrow> ('m, 'x) cm_state_scheme \<Rightarrow> ('m, 'x) cm_state_scheme" where
  "enable_page_sample sample s = s\<lparr>page_prot := insert (ps_addr (ps_cell s sample)) (page_prot s)\<rparr>"

definition disable_page_sample :: "ptr \<Rightarrow> ('m, 'x) cm_state_scheme \<Rightarrow> ('m, 'x) cm_state_scheme" where
  "disable_page_sample sample s = s\<lparr>page_prot := page_prot s - {ps_addr (ps_cell s sample)}\<rparr>"

text \<open>\<open>list_del (&sample->sibling)\<close> takes the sample off the list of whatever chunk it is on.\<close>

definition unlink_sample :: "ptr \<Rightarrow> ('m, 'x) lstate \<Rightarrow> ('m, 'x) lstate" where
  "unlink_sample sample s =
     s\<lparr>ck_cell := \<lambda>k. (ck_cell s k)\<lparr>ck_sample := remove1 sample (ck_sample (ck_cell s k))\<rparr>\<rparr>"

definition remove_page_sample_mt :: "nat \<Rightarrow> 'x cenv \<Rightarrow> ptr \<Rightarrow> 'x cstate \<Rightarrow> 'x cstate res" where
  "remove_page_sample_mt fuel env sample s =
     rbind (if ps_wait_timer (ps_cell s sample) \<noteq> 0
            then rbind (remove_time_event_when_pending_mt fuel env sample s) (\<lambda>s.
                   Inr (upd_ps sample (\<lambda>x. x\<lparr>ps_wait_timer := 0\<rparr>) s))
            else Inr s) (\<lambda>s.
       let s = disable_page_sample sample s;
           s = upd_ps sample (\<lambda>x. x\<lparr>ps_wait_page_fault := 0\<rparr>) s;
           s = unlink_sample sample s
       in rbind (detach_page_sample_mt sample s) (\<lambda>s.
            Inr (upd_ps sample (\<lambda>x. x\<lparr>ps_chunk := NULL, ps_state := SAMPLE_UNINIT\<rparr>) s)))"

fun remove_samples_loop :: "nat \<Rightarrow> nat \<Rightarrow> 'x cenv \<Rightarrow> ptr \<Rightarrow> 'x cstate \<Rightarrow> 'x cstate res" where
  "remove_samples_loop 0 fuel env chunk s = Inl OutOfFuel"
| "remove_samples_loop (Suc n) fuel env chunk s =
     (case ck_sample (ck_cell s chunk) of
        [] \<Rightarrow> Inr s
      | sample # _ \<Rightarrow> rbind (remove_page_sample_mt fuel env sample s) (\<lambda>s. remove_samples_loop n fuel env chunk s))"

definition remove_chunk_samples_mt :: "nat \<Rightarrow> 'x cenv \<Rightarrow> ptr \<Rightarrow> 'x cstate \<Rightarrow> 'x cstate res" where
  "remove_chunk_samples_mt fuel env chunk s =
     rbind (remove_samples_loop (length (ck_sample (ck_cell s chunk)) + 1) fuel env chunk s) (\<lambda>s.
       Inr (upd_ck chunk (\<lambda>x. x\<lparr>ck_nr_sample := 0\<rparr>) s))"

section \<open>Sample collection\<close>

definition is_burst_access_sample :: "uint64 \<Rightarrow> ('m, 'x) cm_state_scheme \<Rightarrow> bool" where
  "is_burst_access_sample delta_n s \<longleftrightarrow> delta_n < to_u64 (cache_region_sz_in_line s)"

definition is_victim_sample :: "uint64 \<Rightarrow> ('m, 'x) cm_state_scheme \<Rightarrow> bool" where
  "is_victim_sample delta_m s \<longleftrightarrow> delta_m * PREFETCH_BATCH < to_u64 (llc_sz_in_line s)"

definition adjust_mapping :: "int \<Rightarrow> ptr \<Rightarrow> ('m, 'x) cm_state_scheme \<Rightarrow> ('m, 'x) cm_state_scheme" where
  "adjust_mapping target_mapping chunk s =
     (let k = ck_cell s chunk
      in if ck_mapping_type k = target_mapping then s
         else upd_ck chunk (\<lambda>x. x\<lparr>ck_mapping_type := target_mapping\<rparr>)
                (switch_heap_type (ck_addr k) (ck_size k) target_mapping s))"

definition lock_chunk :: "ptr \<Rightarrow> ('m, 'x) lstate \<Rightarrow> ('m, 'x) lstate res" where
  "lock_chunk k s = (if ck_lock (ck_cell s k) then Inl Deadlock else Inr (upd_ck k (\<lambda>x. x\<lparr>ck_lock := True\<rparr>) s))"

definition unlock_chunk :: "ptr \<Rightarrow> ('m, 'x) lstate \<Rightarrow> ('m, 'x) lstate" where
  "unlock_chunk k s = upd_ck k (\<lambda>x. x\<lparr>ck_lock := False\<rparr>) s"

text \<open>
  The end of a sampling cycle, when every sample of the chunk has been taken once: the miss ratio
  with and without the cycle decides whether monitoring has converged. A quotient by zero is not a
  number in C and compares as false.
\<close>

definition cycle_converged :: "memory_chunk \<Rightarrow> bool" where
  "cycle_converged k =
     (let mr0 = chunk_mr k;
          total = ck_total_ref k + ck_i_total_ref k;
          mr1 = f_div (f_of_uint (ck_pollutor_ref k + ck_i_pollutor_ref k)) (f_of_uint total);
          eps = (if mr0 > mr1 then f_sub mr0 mr1 else f_sub mr1 mr0)
      in total \<noteq> 0 \<and> eps < D0_05)"

definition finish_cycle :: "memory_chunk \<Rightarrow> int \<times> memory_chunk" where
  "finish_cycle k =
     (if ck_i_total_ref k = word_of_int (ck_nr_sample k)
      then
        let done = \<not> ck_sample_cycle k < ck_base_sample_cycle k - 1 \<and> cycle_converged k;
            k = (if done then k\<lparr>ck_state := CHUNK_MONIT_FINISH\<rparr> else k)
        in (if done then WAIT_NEXT_SAMPLE else 0,
            k\<lparr>ck_victim_ref := ck_victim_ref k + ck_i_victim_ref k,
              ck_pollutor_ref := ck_pollutor_ref k + ck_i_pollutor_ref k,
              ck_total_ref := ck_total_ref k + ck_i_total_ref k,
              ck_i_victim_ref := 0, ck_i_pollutor_ref := 0, ck_i_total_ref := 0,
              ck_sample_cycle := ck_sample_cycle k + 1\<rparr>)
      else (0, k))"

definition next_round :: "memory_chunk \<Rightarrow> memory_chunk" where
  "next_round k =
     (if ck_sample_state k = START_SAMPLE then k\<lparr>ck_sample_state := FIRST_ROUND\<rparr>
      else if ck_sample_state k = FIRST_ROUND then k\<lparr>ck_sample_state := SECOND_ROUND\<rparr>
      else k)"

definition page_sample_complete_mt :: "nat \<Rightarrow> 'x cenv \<Rightarrow> ptr \<Rightarrow> 'x cstate \<Rightarrow> (int \<times> 'x cstate) res" where
  "page_sample_complete_mt fuel env sample s =
     (let chunk = ps_chunk (ps_cell s sample)
      in if chunk = NULL then Inl NullDeref
         else if ck_state (ck_cell s chunk) = CHUNK_MONIT_FINISH then Inr (SAMPLE_COMPLETE, s)
         else
           rbind (lock_chunk chunk s) (\<lambda>s.
             let (ret, k) = finish_cycle (ck_cell s chunk);
                 s = upd_ck chunk (\<lambda>_. k) s
             in if ck_state k \<noteq> CHUNK_MONIT_FINISH then Inr (ret, unlock_chunk chunk s)
                else
                  rbind (update_context_mapping_type_mt chunk (upd_ck chunk next_round s)) (\<lambda>(target_mapping, s).
                    let s = (if ck_sample_state (ck_cell s chunk) = SECOND_ROUND
                             then adjust_mapping target_mapping chunk s else s)
                    in rbind (if target_mapping = RESTRICT_MAPPING
                              then add_time_event_mt fuel env (usec2tv SAMPLE_INTERVAL) ReviveSampleHandler chunk s
                              else Inr s) (\<lambda>s.
                       Inr (ret, unlock_chunk chunk s)))))"

definition update_chunk_sample_mt :: "ptr \<Rightarrow> 'x cstate \<Rightarrow> (int \<times> 'x cstate) res" where
  "update_chunk_sample_mt sample s =
     (let chunk = ps_chunk (ps_cell s sample);
          delta_n = llc_access_buf s - ps_access (ps_cell s sample)
      in if is_burst_access_sample delta_n s then Inr (1, s)
         else
           let delta_m = llc_miss_buf s - ps_miss (ps_cell s sample)
           in rbind (lock_chunk chunk s) (\<lambda>s.
                let s = (if is_victim_sample delta_m s
                         then upd_ck chunk (\<lambda>x. x\<lparr>ck_i_victim_ref := ck_i_victim_ref x + 1\<rparr>)
                                (upd_ps sample (\<lambda>x. x\<lparr>ps_victim_ref := ps_victim_ref x + 1\<rparr>) s)
                         else upd_ck chunk (\<lambda>x. x\<lparr>ck_i_pollutor_ref := ck_i_pollutor_ref x + 1\<rparr>)
                                (upd_ps sample (\<lambda>x. x\<lparr>ps_pollutor_ref := ps_pollutor_ref x + 1\<rparr>) s));
                    s = upd_ps sample (\<lambda>x. x\<lparr>ps_total_ref := ps_total_ref x + 1\<rparr>) s;
                    s = upd_ck chunk (\<lambda>x. x\<lparr>ck_i_total_ref := ck_i_total_ref x + 1\<rparr>) s
                in Inr (0, unlock_chunk chunk s)))"

fun last_sample_loop :: "ptr list \<Rightarrow> ptr \<Rightarrow> ('m, 'x) cm_state_scheme \<Rightarrow> ('m, 'x) cm_state_scheme" where
  "last_sample_loop [] chunk s = s"
| "last_sample_loop (sample # samples) chunk s =
     last_sample_loop samples chunk
       (if ps_miss (ps_cell s sample) = 0 then s
        else
          let delta_m = llc_miss_buf s - ps_miss (ps_cell s sample)
          in if ck_size (ck_cell s chunk) \<ge> to_u64 (llc_sz s) \<or> \<not> is_victim_sample delta_m s
             then upd_ck chunk (\<lambda>x. x\<lparr>ck_pollutor_ref := ck_pollutor_ref x + 1, ck_total_ref := ck_total_ref x + 1\<rparr>)
                    (upd_ps sample (\<lambda>x. x\<lparr>ps_pollutor_ref := ps_pollutor_ref x + 1, ps_total_ref := ps_total_ref x + 1\<rparr>) s)
             else s)"

definition last_chunk_sample_update :: "ptr \<Rightarrow> ('m, 'x) cm_state_scheme \<Rightarrow> ('m, 'x) cm_state_scheme" where
  "last_chunk_sample_update chunk s =
     (let s = upd_ck chunk (\<lambda>x. x\<lparr>ck_victim_ref := ck_victim_ref x + ck_i_victim_ref x,
                ck_pollutor_ref := ck_pollutor_ref x + ck_i_pollutor_ref x,
                ck_total_ref := ck_total_ref x + ck_i_total_ref x\<rparr>) s
      in if ck_state (ck_cell s chunk) = CHUNK_MONIT_FINISH then s
         else last_sample_loop (ck_sample (ck_cell s chunk)) chunk s)"

text \<open>
  The delay for the next event is set on two of the states only; using it in another state is a
  read of an uninitialised variable.
\<close>

definition take_sample_mt :: "ptr \<Rightarrow> 'x cstate \<Rightarrow> (timeval option \<times> 'x cstate) res" where
  "take_sample_mt sample s =
     (if ps_state (ps_cell s sample) = WAIT_FIRST_ACCESS
      then Inr (Some (usec2tv (burst_skip_len s)),
                upd_ps sample (\<lambda>x. x\<lparr>ps_state := BURST_ACCESS_SKIP, ps_miss := llc_miss_buf s,
                  ps_access := llc_access_buf s\<rparr>) s)
      else if ps_state (ps_cell s sample) = WAIT_SUCCESSIVE_ACCESS
      then
        rbind (update_chunk_sample_mt sample s) (\<lambda>(ret, s).
          if ret = 0
          then Inr (Some (usec2tv SAMPLE_FREQUENCY), upd_ps sample (\<lambda>x. x\<lparr>ps_state := WAIT_FIRST_ACCESS\<rparr>) s)
          else Inr (Some (usec2tv (burst_skip_len s)), upd_ps sample (\<lambda>x. x\<lparr>ps_state := BURST_ACCESS_SKIP\<rparr>) s))
      else Inr (None, s))"

definition collect_page_sample_mt :: "nat \<Rightarrow> 'x cenv \<Rightarrow> ptr \<Rightarrow> 'x cstate \<Rightarrow> 'x cstate res" where
  "collect_page_sample_mt fuel env sample s =
     (let (_, s) = llc_event_cntr_read s
      in rbind (burst_skip_update s) (\<lambda>s.
         rbind (take_sample_mt sample s) (\<lambda>(tv, s).
         rbind (page_sample_complete_mt fuel env sample s) (\<lambda>(ret, s).
           if ret = SAMPLE_COMPLETE \<or> ret = WAIT_NEXT_SAMPLE
           then Inr (upd_ps sample (\<lambda>x. x\<lparr>ps_state := SAMPLE_UNINIT\<rparr>) s)
           else
             case tv of
               None \<Rightarrow> Inl Uninit
             | Some tv \<Rightarrow>
                 rbind (add_time_event_mt fuel env tv BurstSkipHandler sample s) (\<lambda>s.
                   Inr (upd_ps sample (\<lambda>x. x\<lparr>ps_wait_timer := 1\<rparr>) s))))))"

end
