(* ===== verification/Chunk_Monitor_API.thy ===== *)
theory Chunk_Monitor_API
  imports Chunk_Monitor
begin

text \<open>
  The second half of \<open>chunk_monitor.c\<close> (parallel version): the handlers of timer events and page
  faults, the placing of samples, and the interface of the monitor; and the functions of
  \<open>chunk_predictor.c\<close> that start and stop monitoring.
\<close>

section \<open>Handlers\<close>

definition burst_skip_handler_mt :: "nat \<Rightarrow> 'x cenv \<Rightarrow> ptr \<Rightarrow> timeval \<Rightarrow> 'x cstate \<Rightarrow> 'x cstate res" where
  "burst_skip_handler_mt fuel env sample tv s =
     (let s = upd_ps sample (\<lambda>x. x\<lparr>ps_wait_timer := 0\<rparr>) s
      in rbind (page_sample_complete_mt fuel env sample s) (\<lambda>(ret, s).
           if ret \<noteq> 0 \<or> ck_state (ck_cell s (ps_chunk (ps_cell s sample))) = CHUNK_MONIT_FINISH
           then Inr (upd_ps sample (\<lambda>x. x\<lparr>ps_state := SAMPLE_UNINIT\<rparr>) s)
           else
             let s = (if ps_state (ps_cell s sample) = BURST_ACCESS_SKIP
                      then upd_ps sample (\<lambda>x. x\<lparr>ps_state := WAIT_SUCCESSIVE_ACCESS\<rparr>) s else s);
                 s = enable_page_sample sample s
             in Inr (upd_ps sample (\<lambda>x. x\<lparr>ps_wait_page_fault := 1\<rparr>) s)))"

fun revive_samples_mt :: "ptr list \<Rightarrow> ptr \<Rightarrow> 'x cstate \<Rightarrow> 'x cstate" where
  "revive_samples_mt [] chunk s = s"
| "revive_samples_mt (sample # samples) chunk s =
     revive_samples_mt samples chunk
       (if ps_state (ps_cell s sample) = SAMPLE_UNINIT
        then
          let s = init_page_sample_mt sample chunk (ps_addr (ps_cell s sample)) s;
              s = enable_page_sample sample s
          in upd_ps sample (\<lambda>x. x\<lparr>ps_wait_page_fault := 1\<rparr>) s
        else s)"

definition revive_sample_handler_mt :: "ptr \<Rightarrow> timeval \<Rightarrow> 'x cstate \<Rightarrow> 'x cstate res" where
  "revive_sample_handler_mt chunk tv s =
     (let s = upd_ck chunk (\<lambda>x. x\<lparr>ck_victim_ref := 0, ck_pollutor_ref := 0, ck_total_ref := 0,
                ck_i_victim_ref := 0, ck_i_pollutor_ref := 0, ck_i_total_ref := 0, ck_sample_cycle := 0\<rparr>) s;
          s = revive_samples_mt (ck_sample (ck_cell s chunk)) chunk s
      in Inr (upd_ck chunk (\<lambda>x. x\<lparr>ck_state := CHUNK_UNDER_MONIT\<rparr>) s))"

text \<open>The handler an event calls; each nested call uses up one unit of fuel.\<close>

fun run_handler_mt :: "nat \<Rightarrow> handler \<Rightarrow> ptr \<Rightarrow> timeval \<Rightarrow> 'x cstate \<Rightarrow> 'x cstate res" where
  "run_handler_mt 0 h p tv s = Inl OutOfFuel"
| "run_handler_mt (Suc n) h p tv s =
     (case h of
        NullHandler \<Rightarrow> Inr s
      | BurstSkipHandler \<Rightarrow> burst_skip_handler_mt n (mt_env (run_handler_mt n)) p tv s
      | ReviveSampleHandler \<Rightarrow> revive_sample_handler_mt p tv s)"

abbreviation env_mt :: "nat \<Rightarrow> 'x cenv" where
  "env_mt n \<equiv> mt_env (run_handler_mt n)"

definition page_fault_handler_mt :: "nat \<Rightarrow> uint64 \<Rightarrow> 'x cstate \<Rightarrow> 'x cstate res" where
  "page_fault_handler_mt fuel addr s =
     rbind (get_page_sample_mt addr s) (\<lambda>(sample, s).
       if sample = NULL then Inl NullDeref
       else if ps_lock (ps_cell s sample) then Inr s
       else
         let s = upd_ps sample (\<lambda>x. x\<lparr>ps_lock := True, ps_wait_page_fault := 0\<rparr>) s
         in rbind (page_sample_complete_mt fuel (env_mt fuel) sample s) (\<lambda>(ret, s).
              rbind (if ret \<noteq> 0 \<or> ck_state (ck_cell s (ps_chunk (ps_cell s sample))) = CHUNK_MONIT_FINISH
                     then Inr (upd_ps sample (\<lambda>x. x\<lparr>ps_state := SAMPLE_UNINIT\<rparr>) (disable_page_sample sample s))
                     else collect_page_sample_mt fuel (env_mt fuel) sample (disable_page_sample sample s)) (\<lambda>s.
                Inr (upd_ps sample (\<lambda>x. x\<lparr>ps_lock := False\<rparr>) s))))"

definition regist_page_fault_handler :: "('m, 'x) cm_state_scheme \<Rightarrow> int" where
  "regist_page_fault_handler s = sigsegv_ret s"

section \<open>Where samples are placed\<close>

definition get_nr_sample :: "(uint64 \<Rightarrow> int) \<Rightarrow> uint64 \<Rightarrow> int" where
  "get_nr_sample pw rng =
     (let n = pw (shr64 rng PAGE_SHIFT)
      in if to_u64 n < shr64 rng PAGE_SHIFT then n + 1 else n)"

text \<open>\<open>r\<close> is the \<open>int\<close> product of two results of \<open>rand\<close>.\<close>

definition sample_addr :: "uint64 \<Rightarrow> uint64 \<Rightarrow> uint64 \<Rightarrow> int \<Rightarrow> int \<Rightarrow> int \<Rightarrow> uint64 res" where
  "sample_addr start stop rng i n r =
     (if to_u64 n = 0 then Inl DivByZero
      else
        let per_sample_range = rng div to_u64 n
        in if per_sample_range = 0 then Inl DivByZero
           else
             let offset = (to_u64 r mod per_sample_range + to_u64 i * per_sample_range) AND PAGE_MASK;
                 bound = (to_u64 (i + 1) * per_sample_range) AND PAGE_MASK;
                 offset = (if offset \<ge> bound then bound - PAGE_SIZE else offset);
                 addr = start + offset
             in Inr (if addr \<ge> stop then stop - PAGE_SIZE else addr))"

definition get_sample_addr ::
    "uint64 \<Rightarrow> uint64 \<Rightarrow> uint64 \<Rightarrow> int \<Rightarrow> int \<Rightarrow> ('m, 'x) cm_state_scheme \<Rightarrow> (uint64 \<times> ('m, 'x) cm_state_scheme) res" where
  "get_sample_addr start stop rng i n s =
     (let (r0, s) = c_rand s; (r1, s) = c_rand s
      in rbind (sample_addr start stop rng i n (i32 (r0 * r1))) (\<lambda>addr. Inr (addr, s)))"

fun base_cycle_loop :: "nat \<Rightarrow> int \<Rightarrow> uint64 \<Rightarrow> int" where
  "base_cycle_loop 0 cycle rng = cycle"
| "base_cycle_loop (Suc n) cycle rng =
     (if rng = 0 then cycle else base_cycle_loop n (cycle + 1) (shr64 rng 1))"

definition get_base_sample_cycle :: "uint64 \<Rightarrow> int" where
  "get_base_sample_cycle rng =
     base_cycle_loop (nat (MAX_SAMPLE_CYCLE - MIN_SAMPLE_CYCLE)) MIN_SAMPLE_CYCLE (shr64 rng 14)"

section \<open>The interface of the monitor\<close>

text \<open>The loop that places sample \<open>i\<close> to \<open>n - 1\<close>; \<open>m\<close> is the number of samples left.\<close>

fun place_samples_mt ::
    "nat \<Rightarrow> uint64 \<Rightarrow> uint64 \<Rightarrow> uint64 \<Rightarrow> int \<Rightarrow> int \<Rightarrow> ptr \<Rightarrow> 'x cstate \<Rightarrow> 'x cstate res" where
  "place_samples_mt 0 start stop rng i n chunk s = Inr s"
| "place_samples_mt (Suc m) start stop rng i n chunk s =
     rbind (get_sample_addr start stop rng i n s) (\<lambda>(addr, s).
     rbind (attach_page_sample_mt addr s) (\<lambda>(sample, s).
       let s = init_page_sample_mt sample chunk addr s;
           s = upd_ck chunk (\<lambda>x. x\<lparr>ck_sample := sample # ck_sample x\<rparr>) s;
           s = enable_page_sample sample s;
           s = upd_ps sample (\<lambda>x. x\<lparr>ps_wait_page_fault := 1\<rparr>) s
       in place_samples_mt m start stop rng (i + 1) n chunk s))"

definition monit_chunk_mt :: "nat \<Rightarrow> ptr \<Rightarrow> 'x cstate \<Rightarrow> (int \<times> 'x cstate) res" where
  "monit_chunk_mt fuel chunk s =
     (if ck_state (ck_cell s chunk) = CHUNK_UNDER_MONIT then Inr (0, s)
      else
        rbind (pend_time_event_queue_mt s) (\<lambda>s.
          let k = ck_cell s chunk;
              start = ck_addr k;
              sz = (if ck_size k > SMALL_MEMORY_CHUNK then ck_size k else SMALL_MEMORY_CHUNK);
              start_align = UPPER_PAGE_ALIGN start;
              end_align = LOWER_PAGE_ALIGN (start + sz);
              total_range = end_align - start_align;
              nr_sample = get_nr_sample (pow_density s) total_range;
              s = upd_ck chunk (\<lambda>x. x\<lparr>ck_nr_sample := nr_sample, ck_sample_state := START_SAMPLE,
                    ck_base_sample_cycle := get_base_sample_cycle total_range, ck_sample := []\<rparr>) s
          in rbind (place_samples_mt (nat nr_sample) start_align end_align total_range 0 nr_sample chunk s) (\<lambda>s.
             rbind (resume_time_event_queue_mt fuel (env_mt fuel)
                      (upd_ck chunk (\<lambda>x. x\<lparr>ck_state := CHUNK_UNDER_MONIT\<rparr>) s)) (\<lambda>s. Inr (0, s)))))"

definition stop_monit_chunk_mt :: "nat \<Rightarrow> ptr \<Rightarrow> 'x cstate \<Rightarrow> (int \<times> 'x cstate) res" where
  "stop_monit_chunk_mt fuel chunk s =
     rbind (pend_time_event_queue_mt s) (\<lambda>s.
     rbind (if ck_state (ck_cell s chunk) \<noteq> CHUNK_MONIT_FINISH
            then
              let (_, s) = llc_event_cntr_read s;
                  s = last_chunk_sample_update chunk s;
                  s = upd_ck chunk (\<lambda>x. x\<lparr>ck_sample_state := LAST_ROUND\<rparr>) s
              in rbind (update_context_mapping_type_mt chunk s) (\<lambda>(_, s). Inr s)
            else Inr s) (\<lambda>s.
     rbind (remove_time_event_when_pending_mt fuel (env_mt fuel) chunk s) (\<lambda>s.
       let s = upd_ck chunk (\<lambda>x. x\<lparr>ck_state := CHUNK_MONIT_FINISH\<rparr>) s
       in rbind (remove_chunk_samples_mt fuel (env_mt fuel) chunk s) (\<lambda>s.
          rbind (resume_time_event_queue_mt fuel (env_mt fuel) s) (\<lambda>s. Inr (0, s))))))"

definition chunk_monitor_init_mt :: "'x cstate \<Rightarrow> (int \<times> 'x cstate) res" where
  "chunk_monitor_init_mt s =
     (let (ret, s) = time_event_queue_init_mt s
      in if ret \<noteq> 0 then Inr (ret, s)
         else if regist_page_fault_handler s \<noteq> 0 then Inr (regist_page_fault_handler s, s)
         else
           let (ret, s) = page_sample_map_init_mt s
           in if ret \<noteq> 0 then Inr (ret, s)
              else
                rbind (llc_event_cntr_init s) (\<lambda>(ret, s).
                  if ret \<noteq> 0 then Inr (ret, s)
                  else
                    rbind (llc_event_cntr_start s) (\<lambda>(ret, s).
                      if ret \<noteq> 0 then Inr (ret, s)
                      else
                        let (ret, s) = init_burst_skip s
                        in if ret \<noteq> 0 then Inr (ret, s)
                           else Inr (ret, s\<lparr>
                             cache_region_sz_in_line := cache_line_under_restrict_mapping L3_SZ_IN_LINE_mt,
                             llc_sz_in_line := cache_line_under_open_mapping L3_SZ_IN_LINE_mt,
                             cache_region_sz := cache_size_under_restrict_mapping L3_SZ_IN_LINE_mt,
                             llc_sz := cache_size_under_open_mapping L3_SZ_IN_LINE_mt,
                             monitor_state := MONITOR_ACTIVE\<rparr>))))"

definition chunk_monitor_destroy_mt :: "'x cstate \<Rightarrow> 'x cstate res" where
  "chunk_monitor_destroy_mt s =
     rbind (llc_event_cntr_stop s) (\<lambda>(_, s).
     rbind (llc_event_cntr_destroy s) (\<lambda>(_, s).
     rbind (page_sample_map_destroy_mt s) (\<lambda>s.
       Inr ((time_event_queue_destroy_mt s)\<lparr>monitor_state := MONITOR_DESTROYED\<rparr>))))"

definition tst_monit_complete :: "ptr \<Rightarrow> ('m, 'x) lstate \<Rightarrow> int" where
  "tst_monit_complete chunk s = 1"

definition get_victim_samples :: "ptr \<Rightarrow> ('m, 'x) lstate \<Rightarrow> uint32" where
  "get_victim_samples chunk s = ck_victim_ref (ck_cell s chunk)"

definition get_pollutor_samples :: "ptr \<Rightarrow> ('m, 'x) lstate \<Rightarrow> uint32" where
  "get_pollutor_samples chunk s = ck_pollutor_ref (ck_cell s chunk)"

definition chunk_under_monit :: "ptr \<Rightarrow> ('m, 'x) lstate \<Rightarrow> bool" where
  "chunk_under_monit chunk s \<longleftrightarrow> ck_state (ck_cell s chunk) \<noteq> CHUNK_NO_MONIT"

text \<open>The addresses the loop of \<open>remove_sample_range\<close> visits.\<close>

fun range_addrs :: "nat \<Rightarrow> uint64 \<Rightarrow> uint64 \<Rightarrow> uint64 list res" where
  "range_addrs 0 addr stop = Inl OutOfFuel"
| "range_addrs (Suc fuel) addr stop =
     (if addr \<le> stop then rbind (range_addrs fuel (addr + PAGE_SIZE) stop) (\<lambda>as. Inr (addr # as)) else Inr [])"

fun remove_samples_at :: "uint64 list \<Rightarrow> nat \<Rightarrow> 'x cstate \<Rightarrow> 'x cstate res" where
  "remove_samples_at [] fuel s = Inr s"
| "remove_samples_at (addr # addrs) fuel s =
     rbind (get_page_sample_mt addr s) (\<lambda>(sample, s).
     rbind (if sample \<noteq> NULL then remove_page_sample_mt fuel (env_mt fuel) sample s else Inr s) (\<lambda>s.
       remove_samples_at addrs fuel s))"

definition remove_sample_range_mt :: "nat \<Rightarrow> uint64 \<Rightarrow> uint64 \<Rightarrow> 'x cstate \<Rightarrow> 'x cstate res" where
  "remove_sample_range_mt fuel start len s =
     rbind (pend_time_event_queue_mt s) (\<lambda>s.
     rbind (range_addrs fuel start (start + len)) (\<lambda>addrs.
     rbind (remove_samples_at addrs fuel s) (\<lambda>s.
       resume_time_event_queue_mt fuel (env_mt fuel) s)))"

section \<open>Sampling of allocations\<close>

definition NightWatch_sampling_mt :: "nat \<Rightarrow> ptr \<Rightarrow> uint64 \<Rightarrow> int \<Rightarrow> ctx_ref \<Rightarrow> 'x cstate \<Rightarrow> 'x cstate res" where
  "NightWatch_sampling_mt fuel p sz type r s =
     (let snap = deref_ctx r s
      in if ac_word0 snap = MAP_ONLY_CONTEXT then Inr s
         else
           let context = ac_word0 snap
           in if skip_chunk sz snap
              then Inr (set_extend_info p NULL (upd_ctx context (\<lambda>x. x\<lparr>sample_skip := i32 (sample_skip x - 1)\<rparr>) s))
              else
                let (chunk, s) = alloc_and_init_chunk_mt p sz type context s;
                    s = set_extend_info p chunk s
                in rbind (lock_ctx context s) (\<lambda>s.
                     let s = upd_ctx context (\<lambda>x. x\<lparr>ctx_chunks := chunk # ctx_chunks x\<rparr>) s;
                         s = upd_ck chunk (\<lambda>x. x\<lparr>ck_mr := get_predict_mr (ctx_cell s context)\<rparr>) s;
                         s = upd_ctx context (sampled_context (\<lambda>n. n \<le> 0) sz) s;
                         s = unlock_ctx context s
                     in rbind (monit_chunk_mt fuel chunk s) (\<lambda>(_, s). Inr s)))"

definition NightWatch_collect_sample_mt :: "nat \<Rightarrow> ptr \<Rightarrow> 'x cstate \<Rightarrow> 'x cstate res" where
  "NightWatch_collect_sample_mt fuel p s =
     (let chunk = get_extend_info p s
      in if chunk = NULL then Inr s
         else
           rbind (if chunk_under_monit chunk s then rbind (stop_monit_chunk_mt fuel chunk s) (\<lambda>(_, s). Inr s)
                  else Inr s) (\<lambda>s.
             detach_chunk_from_context_mt chunk s))"

end
