(* ===== verification/NightWatch.thy ===== *)
theory NightWatch
  imports Chunk_Monitor_API
begin

text \<open>
  \<open>nightwatch.c\<close> and \<open>stdlib_hook.c\<close> (parallel version) and \<open>utl_cpuaffi.c\<close>: starting and stopping
  the library, the wrappers of the C library calls that pass a buffer to the kernel, and the
  processor affinity. The wrapped functions are parameters: a call is logged, its result is given
  by \<open>libc_ret\<close>.
\<close>

section \<open>Data\<close>

datatype libc_call =
    LibcRead int uint64 uint64
  | LibcWrite int uint64 uint64
  | LibcFopen ptr ptr
  | LibcFclose ptr
  | LibcFread uint64 uint64 uint64 ptr
  | LibcFwrite uint64 uint64 uint64 ptr
  | LibcMemmove uint64 uint64 uint64
  | DisableCacheManagement
  | EnableCacheManagement

record 'm nw_state = "'m cm_state" +
  nightwatch_state :: int
  hooked :: int
  libc_ret :: "nat \<Rightarrow> int"
  libc_log :: "libc_call list"

type_synonym 'x nstate = "(hash_map_mt, 'x) nw_state_scheme"

definition NightWatch_ACTIVE :: int where "NightWatch_ACTIVE = 1"
definition NightWatch_DESTROYED :: int where "NightWatch_DESTROYED = 2"

section \<open>The library\<close>

definition set_nightwatch_active :: "('m, 'x) nw_state_scheme \<Rightarrow> ('m, 'x) nw_state_scheme" where
  "set_nightwatch_active s = s\<lparr>nightwatch_state := nightwatch_state s OR NightWatch_ACTIVE\<rparr>"

definition NightWatch_active :: "('m, 'x) nw_state_scheme \<Rightarrow> bool" where
  "NightWatch_active s \<longleftrightarrow> nightwatch_state s AND NightWatch_ACTIVE \<noteq> 0"

definition install_stdlibapi_hook_mt :: "'x nstate \<Rightarrow> int \<times> 'x nstate" where
  "install_stdlibapi_hook_mt s =
     (if hooked s = 1 then (0, s)
      else (0, (leave_cache_management (enter_cache_management s))\<lparr>hooked := 1\<rparr>))"

definition init_components_mt :: "'x nstate \<Rightarrow> (int \<times> 'x nstate) res" where
  "init_components_mt s =
     (let ret = hash_map_init_mt
      in if ret \<noteq> 0 then Inr (ret, s)
         else
           let (ret, s) = install_stdlibapi_hook_mt s
           in if ret \<noteq> 0 then Inr (ret, s)
              else
                rbind (chunk_monitor_init_mt s) (\<lambda>(ret, s).
                  if ret \<noteq> 0 then Inr (ret, s)
                  else Inr (locality_profile_init_mt s)))"

definition NightWatch_init_mt :: "'x nstate \<Rightarrow> (int \<times> 'x nstate) res" where
  "NightWatch_init_mt s =
     (let s = enter_cache_management s
      in rbind (if NightWatch_active s then Inr (0, s) else init_components_mt (set_nightwatch_active s)) (\<lambda>(ret, s).
           Inr (ret, leave_cache_management s)))"

definition NightWatch_destroy_mt :: "'x nstate \<Rightarrow> 'x nstate res" where
  "NightWatch_destroy_mt s =
     (if nightwatch_state s = NightWatch_DESTROYED then Inr s
      else
        let s = locality_profile_destroy_mt s
        in rbind (chunk_monitor_destroy_mt s) (\<lambda>s.
             Inr ((hash_map_destroy_mt s)\<lparr>nightwatch_state := NightWatch_DESTROYED\<rparr>)))"

section \<open>Hooks of the C library\<close>

text \<open>
  \<open>pre_walk\<close> reads one byte every page; reading a protected page enters the fault handler.
\<close>

fun pre_walk_mt :: "nat \<Rightarrow> uint64 \<Rightarrow> uint64 \<Rightarrow> nat \<Rightarrow> 'x nstate \<Rightarrow> 'x nstate res" where
  "pre_walk_mt 0 p stop fuel s = Inl OutOfFuel"
| "pre_walk_mt (Suc n) p stop fuel s =
     (if p < stop
      then rbind (if p AND PAGE_MASK \<in> page_prot s then page_fault_handler_mt fuel p s else Inr s) (\<lambda>s.
             pre_walk_mt n (p + PAGE_SIZE) stop fuel s)
      else Inr s)"

definition unprotect_buffer_mt :: "nat \<Rightarrow> uint64 \<Rightarrow> uint64 \<Rightarrow> 'x nstate \<Rightarrow> 'x nstate res" where
  "unprotect_buffer_mt fuel start len s =
     (if NightWatch_active s \<and> \<not> in_cache_management s
      then rbind (pre_walk_mt fuel start (start + len) fuel s) (\<lambda>s. remove_sample_range_mt fuel start len s)
      else Inr s)"

definition call_libc_mt :: "libc_call \<Rightarrow> 'x nstate \<Rightarrow> int \<times> 'x nstate" where
  "call_libc_mt c s =
     (let s = enter_cache_management s;
          ret = libc_ret s (length (libc_log s));
          s = s\<lparr>libc_log := c # libc_log s\<rparr>
      in (ret, leave_cache_management s))"

definition read_hook_mt :: "nat \<Rightarrow> int \<Rightarrow> uint64 \<Rightarrow> uint64 \<Rightarrow> 'x nstate \<Rightarrow> (int \<times> 'x nstate) res" where
  "read_hook_mt fuel fd buf count s =
     (let (_, s) = install_stdlibapi_hook_mt s
      in rbind (unprotect_buffer_mt fuel buf count s) (\<lambda>s. Inr (call_libc_mt (LibcRead fd buf count) s)))"

definition write_hook_mt :: "nat \<Rightarrow> int \<Rightarrow> uint64 \<Rightarrow> uint64 \<Rightarrow> 'x nstate \<Rightarrow> (int \<times> 'x nstate) res" where
  "write_hook_mt fuel fd buf count s =
     (let (_, s) = install_stdlibapi_hook_mt s
      in rbind (unprotect_buffer_mt fuel buf count s) (\<lambda>s. Inr (call_libc_mt (LibcWrite fd buf count) s)))"

definition fopen_hook_mt :: "ptr \<Rightarrow> ptr \<Rightarrow> 'x nstate \<Rightarrow> int \<times> 'x nstate" where
  "fopen_hook_mt path mode s = (let (_, s) = install_stdlibapi_hook_mt s in call_libc_mt (LibcFopen path mode) s)"

definition fclose_hook_mt :: "ptr \<Rightarrow> 'x nstate \<Rightarrow> int \<times> 'x nstate" where
  "fclose_hook_mt fp s = (let (_, s) = install_stdlibapi_hook_mt s in call_libc_mt (LibcFclose fp) s)"

definition fread_hook_mt :: "nat \<Rightarrow> uint64 \<Rightarrow> uint64 \<Rightarrow> uint64 \<Rightarrow> ptr \<Rightarrow> 'x nstate \<Rightarrow> (int \<times> 'x nstate) res" where
  "fread_hook_mt fuel p sz nmemb stream s =
     (let (_, s) = install_stdlibapi_hook_mt s
      in rbind (unprotect_buffer_mt fuel p (sz * nmemb) s) (\<lambda>s. Inr (call_libc_mt (LibcFread p sz nmemb stream) s)))"

definition fwrite_hook_mt :: "nat \<Rightarrow> uint64 \<Rightarrow> uint64 \<Rightarrow> uint64 \<Rightarrow> ptr \<Rightarrow> 'x nstate \<Rightarrow> (int \<times> 'x nstate) res" where
  "fwrite_hook_mt fuel p sz nmemb stream s =
     (let (_, s) = install_stdlibapi_hook_mt s
      in rbind (unprotect_buffer_mt fuel p (sz * nmemb) s) (\<lambda>s. Inr (call_libc_mt (LibcFwrite p sz nmemb stream) s)))"

section \<open>Processor affinity\<close>

text \<open>
  The affinity mask is a set of processor numbers; the number of processors and the results of
  the scheduler calls are parameters.
\<close>

definition set_cpu_affinity :: "int \<Rightarrow> int \<Rightarrow> int \<Rightarrow> (int \<times> int set) res" where
  "set_cpu_affinity total_num setaffinity_ret cpu =
     (if 0 \<le> cpu \<and> cpu < total_num then Inr (setaffinity_ret, {cpu}) else Inl AssertFail)"

definition get_cpu_affinity :: "int \<Rightarrow> int \<Rightarrow> int set \<Rightarrow> int" where
  "get_cpu_affinity total_num getaffinity_ret msk =
     (if getaffinity_ret = - 1 then - 1
      else case List.find (\<lambda>i. i \<in> msk) [0..total_num - 1] of None \<Rightarrow> - 1 | Some i \<Rightarrow> i)"

end
