(* ===== verification/Boot_State.thy ===== *)
theory Boot_State
  imports NightWatch Event_Queue_Props
begin

text \<open>
  The state of the parallel library in a process that has just been loaded: every global is zero,
  the thread-local lists are set up, the maps are new ones. It is the input at which the properties
  of the monitor, the profile and the hooks are applied. The allocator hands out 64, 128, ... and
  then fails; the clock advances one second per reading; every call of a library succeeds.
\<close>

definition zero_chunk :: memory_chunk where
  "zero_chunk = \<lparr>ck_mapping_type = 0, ck_addr = 0, ck_size = 0, ck_idx = 0, ck_state = 0, ck_victim_ref = 0,
     ck_pollutor_ref = 0, ck_total_ref = 0, ck_mr = 0, ck_i_victim_ref = 0, ck_i_pollutor_ref = 0,
     ck_i_total_ref = 0, ck_base_sample_cycle = 0, ck_sample_cycle = 0, ck_sample_state = 0, ck_nr_sample = 0,
     ck_lock = False, ck_context = 0, ck_sample = []\<rparr>"

definition zero_context :: alloc_context where
  "zero_context = \<lparr>ac_word0 = 0, ac_word1 = 0, ac_lock = False, predict_type0 = 0, predict_type1 = 0,
     predict_mr0 = 0, predict_mr1 = 0, sample_skip = 0, skip_interval = 0, last_chunk_sz = 0, ctx_chunks = []\<rparr>"

definition zero_sample :: page_sample where
  "zero_sample = \<lparr>ps_addr = 0, ps_miss = 0, ps_access = 0, ps_victim_ref = 0, ps_pollutor_ref = 0,
     ps_total_ref = 0, ps_state = 0, ps_wait_timer = 0, ps_wait_page_fault = 0, ps_lock = False, ps_chunk = 0\<rparr>"

definition zero_block :: page_block where
  "zero_block = \<lparr>pb_addr = 0, pb_page_sample = []\<rparr>"

definition zero_event :: event where
  "zero_event = \<lparr>ev_handler = NullHandler, ev_private = 0, ev_start_time = \<lparr>tv_sec = 0, tv_usec = 0\<rparr>,
     ev_trigger_time = \<lparr>tv_sec = 0, tv_usec = 0\<rparr>\<rparr>"

definition boot :: "hash_map_mt nw_state" where
  "boot = \<lparr>malloc_seq = (\<lambda>_. 0)(2 := 64, 3 := 128, 4 := 192, 5 := 256), malloc_below = \<lambda>_. 1, malloc_cnt = 2,
     released = [], free_member = [], mm_cell = \<lambda>_. \<lparr>mm_key = 0, mm_val = 0\<rparr>, fm_init = True,
     eq_status = EVENT_QUEUE_EMPTY, nr_event = 0, events = [], free_event = [], ev_cell = \<lambda>_. zero_event,
     itv_interval = \<lparr>tv_sec = 0, tv_usec = 0\<rparr>, itv_value = \<lparr>tv_sec = 0, tv_usec = 0\<rparr>,
     timer_resolution = usec2tv TIMER_RESOLUTION, private2event_map = fresh_mt, queue_lock = False,
     clock = \<lambda>n. \<lparr>tv_sec = int n, tv_usec = 0\<rparr>, clock_cnt = 0, sigaction_ret = 0, sigalrm_installed = False,
     lp_chunk_idx = 0, context_hash_map = fresh_mt, s2t_map = replicate 65537 empty_s2t, s2t_addr = 0,
     lp_context_idx = 1, lp_contexts = [], free_context = [], fc_init = True, active_context = [],
     free_chunk = [], fk_init = True, active_chunk = [], ctx_cell = \<lambda>_. zero_context, ck_cell = \<lambda>_. zero_chunk,
     map_only_ctx = zero_context, ctx_snapshot = zero_context, random_seq = \<lambda>_. 5, random_cnt = 0,
     backtraces = \<lambda>_. [1, 2, 3, 4], backtrace_cnt = 0,
     page_block_list = [], page_block_map = fresh_mt, hot_page_block = 0, free_page_sample = [], fp_init = True,
     active_page_sample = [], pb_cell = \<lambda>_. zero_block, ps_cell = \<lambda>_. zero_sample, pm_lock = False,
     papi_ret = \<lambda>_. 0, papi_calls = 0, papi_running = True, papi_reads = \<lambda>_. (0, 0, 0), papi_read_cnt = 0,
     llc_miss_buf = 0, llc_access_buf = 0,
     chk_cell = \<lambda>_. \<lparr>ch_offset = 0, ch_mark = 0, ch_extend_info = 0\<rparr>, mmap_calls = [], in_cache_manage = 0,
     cache_manager_private = None,
     llc_sz_in_line = 131072, llc_sz = 8388608, cache_region_sz_in_line = 16384, cache_region_sz = 1048576,
     monitor_state = MONITOR_ACTIVE, burst_skip_len = 500, llc_acc_at_skip_update = 0,
     tv_at_skip_update = \<lparr>tv_sec = 0, tv_usec = 0\<rparr>, nr_skip_update_attempt = 0, page_prot = {},
     pow_density = uint, rand_seq = \<lambda>_. 3, rand_cnt = 0,
     sigsegv_ret = 0, nightwatch_state = 0, hooked = 0, libc_ret = \<lambda>_. 0, libc_log = []\<rparr>"

lemma fresh_members: "hm_members (mt_hm fresh_mt) = []" "\<not> hash_map_full (mt_hm fresh_mt)"
  by (simp_all add: new_hash_map_mt_def internal_malloc_def hash_map_full_def HT_INIT_SIZE_def)

lemma fresh_map_in:
  fixes s :: "'a hm_mt_state_scheme"
  assumes "free_member s = []" and "fm_init s"
  shows "mt_inv s fresh_mt" and "hm_abs s (mt_hm fresh_mt) = Map.empty"
    and "guard_ok s (mt_hm fresh_mt) k" and "can_add s (mt_hm fresh_mt)"
proof -
  note m = fresh_members(1) and f = fresh_members(2)
  have h: "hm_inv s (mt_hm fresh_mt)"
    using fresh_mt_ok(1) assms(1) m by (simp add: mt_inv_def hm_inv_def buckets_ok_def)
  then show "mt_inv s fresh_mt" using fresh_mt_ok(1) assms(2) by (simp add: mt_inv_def)
  show "guard_ok s (mt_hm fresh_mt) k" using h m by (rule guard_ok_empty)
  show "hm_abs s (mt_hm fresh_mt) = Map.empty" "can_add s (mt_hm fresh_mt)"
    using m f by (simp_all add: hm_abs_def can_add_def)
qed

lemma boot_maps:
  "mt_inv boot fresh_mt" "hm_abs boot (mt_hm fresh_mt) = Map.empty" "guard_ok boot (mt_hm fresh_mt) k"
  by (rule fresh_map_in; simp add: boot_def)+

end
