(* ===== verification/Page_Map_Correct.thy ===== *)
theory Page_Map_Correct
  imports Boot_State
begin

text \<open>
  The page sample map of the parallel version is a map from pages to samples: \<open>pm_lookup\<close> reads it
  off the blocks, and attaching, detaching and looking up are the operations on that map. The
  invariant \<open>pm_inv\<close> says that every block found through the index carries the address it is
  indexed by and has 4096 places, and that the hot block, if any, is an indexed one.
\<close>

section \<open>Blocks and pages\<close>

lemma PAGE_BLOCK_MASK_eq: "PAGE_BLOCK_MASK = NOT (mask 24)"
  by (simp add: PAGE_BLOCK_MASK_def PAGE_BLOCK_SHIFT_def PAGE_SHIFT_def shl64_def mask_eq_exp_minus_1)

lemma sample_idx_eq: "sample_idx addr = uint addr mod 2 ^ 24 div 2 ^ 12"
proof -
  have "uint (addr AND mask 24) = uint addr mod 2 ^ 24"
    by (simp only: take_bit_eq_mask[symmetric] unsigned_take_bit_eq) (simp only: take_bit_eq_mod)
  then show ?thesis
    by (simp add: sample_idx_def PAGE_BLOCK_MASK_eq shr64_def PAGE_SHIFT_def drop_bit_eq_div uint_div)
qed

lemma sample_idx_bound: "0 \<le> sample_idx addr \<and> sample_idx addr < 4096"
proof -
  have "uint addr mod 2 ^ 24 < 2 ^ 24" "0 \<le> uint addr mod 2 ^ 24" by simp_all
  then show ?thesis by (simp add: sample_idx_eq) linarith
qed

lemma blk_align_uint: "uint (blk_align addr) = uint addr - uint addr mod 2 ^ 24"
  by (simp only: blk_align_def PAGE_BLOCK_MASK_eq uint_and_not_mask)

definition same_page :: "uint64 \<Rightarrow> uint64 \<Rightarrow> bool" where
  "same_page a b \<longleftrightarrow> a AND PAGE_MASK = b AND PAGE_MASK"

text \<open>A page is a block and a place in it.\<close>

lemma same_page_iff: "same_page a b \<longleftrightarrow> blk_align a = blk_align b \<and> sample_idx a = sample_idx b"
proof -
  have p: "uint x - uint x mod 4096 = uint (blk_align x) + 4096 * sample_idx x" for x :: uint64
  proof -
    have "uint x mod 2 ^ 24 mod 2 ^ 12 = uint x mod 2 ^ 12" by (rule mod_mod_cancel) simp
    then have "uint x mod 2 ^ 24 = 4096 * sample_idx x + uint x mod 4096"
      using mult_div_mod_eq[of "2 ^ 12" "uint x mod 2 ^ 24"] by (simp add: sample_idx_eq)
    then show ?thesis by (simp add: blk_align_uint)
  qed
  have q: "uint (blk_align x) = 16777216 * (uint x div 16777216)" for x
    using minus_mod_eq_mult_div[of "uint x" 16777216] by (simp add: blk_align_uint)
  have split: "16777216 * A + 4096 * i = 16777216 * B + 4096 * j \<longleftrightarrow> A = B \<and> i = j"
    if "0 \<le> i \<and> i < 4096" "0 \<le> j \<and> j < 4096" for A B i j :: int
  proof (cases A B rule: linorder_cases)
    case less
    then have "A + 1 \<le> B" by simp
    then show ?thesis using that by linarith
  next
    case greater
    then have "B + 1 \<le> A" by simp
    then show ?thesis using that by linarith
  qed simp
  have "same_page a b \<longleftrightarrow> uint (blk_align a) + 4096 * sample_idx a = uint (blk_align b) + 4096 * sample_idx b"
    unfolding same_page_def word_uint_eq_iff by (simp only: and_page_mask p)
  also have "\<dots> \<longleftrightarrow> uint (blk_align a) = uint (blk_align b) \<and> sample_idx a = sample_idx b"
    unfolding q using split[OF sample_idx_bound[of a] sample_idx_bound[of b]] by auto
  finally show ?thesis by (simp add: word_uint_eq_iff)
qed

section \<open>The invariant and the map it stands for\<close>

abbreviation blocks :: "(hash_map_mt, 'x) pstate \<Rightarrow> uint64 \<rightharpoonup> ptr" where
  "blocks s \<equiv> hm_abs s (mt_hm (page_block_map s))"

definition blocks_ok :: "(hash_map_mt, 'x) pstate \<Rightarrow> bool" where
  "blocks_ok s \<longleftrightarrow> (\<forall>k b. blocks s k = Some b \<longrightarrow>
     b \<noteq> NULL \<and> pb_addr (pb_cell s b) = k \<and> length (pb_page_sample (pb_cell s b)) = PAGE_BLOCK_SIZE)"

definition hot_ok :: "(hash_map_mt, 'x) pstate \<Rightarrow> bool" where
  "hot_ok s \<longleftrightarrow> (hot_page_block s \<noteq> NULL \<longrightarrow> blocks s (pb_addr (pb_cell s (hot_page_block s))) = Some (hot_page_block s))"

definition pm_index :: "(hash_map_mt, 'x) pstate \<Rightarrow> bool" where
  "pm_index s \<longleftrightarrow> mt_inv s (page_block_map s) \<and> blocks_ok s \<and> hot_ok s"

definition pm_inv :: "(hash_map_mt, 'x) pstate \<Rightarrow> bool" where
  "pm_inv s \<longleftrightarrow> pm_index s \<and> \<not> pm_lock s \<and> fp_init s"

definition pm_lookup :: "(hash_map_mt, 'x) pstate \<Rightarrow> uint64 \<Rightarrow> ptr" where
  "pm_lookup s addr =
     (case blocks s (blk_align addr) of
        None \<Rightarrow> NULL | Some b \<Rightarrow> pb_page_sample (pb_cell s b) ! nat (sample_idx addr))"

text \<open>The word in front of an empty place of the index is not the address looked for.\<close>

definition block_guard :: "(hash_map_mt, 'x) pstate \<Rightarrow> uint64 \<Rightarrow> bool" where
  "block_guard s addr \<longleftrightarrow>
     (blocks s (blk_align addr) = None \<longrightarrow> guard_ok s (mt_hm (page_block_map s)) (blk_align addr))"

lemma guard_frame: "malloc_below t = malloc_below s \<Longrightarrow> guard_ok t = guard_ok s"
  by (simp add: fun_eq_iff guard_ok_def guard_word_def)

lemma pm_lookup_page: "same_page x a \<Longrightarrow> pm_lookup s x = pm_lookup s a"
  by (simp add: pm_lookup_def same_page_iff split: option.split)

lemma pm_inv_parts:
  assumes "pm_inv s"
  shows "mt_inv s (page_block_map s)" "blocks_ok s" "hot_ok s" "\<not> pm_lock s" "fp_init s"
  using assms by (simp_all add: pm_inv_def pm_index_def)

text \<open>A change of the hot block, or of anything the map does not depend on.\<close>

lemma pm_frame:
  fixes s t :: "(hash_map_mt, 'x) pstate"
  assumes "free_member t = free_member s" and "mm_cell t = mm_cell s" and "fm_init t = fm_init s"
    and "page_block_map t = page_block_map s" and "pb_cell t = pb_cell s"
  shows "mt_inv t (page_block_map t) = mt_inv s (page_block_map s)" "blocks t = blocks s"
    "blocks_ok t = blocks_ok s" "pm_lookup t = pm_lookup s"
proof -
  show 1: "mt_inv t (page_block_map t) = mt_inv s (page_block_map s)" using assms mt_inv_cong[of t s] by simp
  show 2: "blocks t = blocks s" using assms hm_abs_cong[of t s] by simp
  show "blocks_ok t = blocks_ok s" by (simp add: blocks_ok_def 2 assms(5))
  show "pm_lookup t = pm_lookup s" by (auto simp: pm_lookup_def 2 assms(5) fun_eq_iff split: option.split)
qed

lemma get_page_block_index:
  fixes s :: "(hash_map_mt, 'x) pstate"
  assumes inv: "pm_index s" and g: "blocks s k = None \<longrightarrow> guard_ok s (mt_hm (page_block_map s)) k"
  shows "\<exists>h. get_page_block_mt k s = Inr (case blocks s k of None \<Rightarrow> NULL | Some b \<Rightarrow> b, s\<lparr>hot_page_block := h\<rparr>) \<and>
    pm_index (s\<lparr>hot_page_block := h\<rparr>)"
proof (cases "hot_page_block s \<noteq> NULL \<and> pb_addr (pb_cell s (hot_page_block s)) = k")
  case True
  then have "blocks s k = Some (hot_page_block s)" using inv by (auto simp: pm_index_def hot_ok_def)
  then show ?thesis using True inv by (intro exI[of _ "hot_page_block s"]) (simp add: get_page_block_mt_def)
next
  case False
  let ?m = "page_block_map s"
  define b where "b = (case blocks s k of None \<Rightarrow> NULL | Some b \<Rightarrow> b)"
  have l: "locks_free ?m" and h: "hm_inv s (mt_hm ?m)" using inv by (simp_all add: pm_index_def mt_inv_def)
  have "hash_map_find_member (mt_hm ?m) k s = Inr b"
    using hash_map_find_member_hit[OF h] hash_map_find_member_miss[OF h] g by (simp add: b_def split: option.split)
  then have "get_page_block_mt k s = Inr (b, s\<lparr>hot_page_block := b\<rparr>)"
    using False hash_map_find_member_mt_eq[OF l, of k s] by (auto simp: get_page_block_mt_def)
  moreover have "pm_index (s\<lparr>hot_page_block := b\<rparr>)"
    using inv pm_frame[of "s\<lparr>hot_page_block := b\<rparr>" s]
    by (auto simp: pm_index_def hot_ok_def blocks_ok_def b_def split: option.splits)
  ultimately show ?thesis unfolding b_def by blast
qed

lemma get_page_block_ok:
  fixes s :: "(hash_map_mt, 'x) pstate"
  assumes inv: "pm_inv s" and g: "blocks s k = None \<longrightarrow> guard_ok s (mt_hm (page_block_map s)) k"
  shows "\<exists>h. get_page_block_mt k s = Inr (case blocks s k of None \<Rightarrow> NULL | Some b \<Rightarrow> b, s\<lparr>hot_page_block := h\<rparr>) \<and>
    pm_inv (s\<lparr>hot_page_block := h\<rparr>)"
  using get_page_block_index[OF _ g] inv by (auto simp: pm_inv_def)

section \<open>A new block\<close>

lemma more_pm_fields:
  fixes s t :: "('m, 'x) pstate"
  assumes "hm_mt_state.more s = hm_mt_state.more t"
  shows "pb_cell s = pb_cell t" "ps_cell s = ps_cell t" "free_page_sample s = free_page_sample t"
    "fp_init s = fp_init t" "pm_lock s = pm_lock t"
  using assms by (cases s; cases t; simp)+

text \<open>What the allocator must not do: hand out NULL, a block or a member that is in use.\<close>

definition block_room :: "(hash_map_mt, 'x) pstate \<Rightarrow> bool" where
  "block_room s \<longleftrightarrow> next_malloc s \<noteq> NULL \<and> next_malloc s \<notin> ran (blocks s) \<and>
     (hash_map_full (mt_hm (page_block_map s)) \<longrightarrow> hm_key_len (mt_hm (page_block_map s)) < 26) \<and>
     (\<forall>n \<in> {malloc_cnt s..malloc_cnt s + 2}. malloc_seq s n \<notin> set (hm_members (mt_hm (page_block_map s))))"

lemma init_page_block_ok:
  fixes s :: "(hash_map_mt, 'x) pstate"
  assumes inv: "pm_inv s" and none: "blocks s (blk_align addr) = None" and room: "block_room s"
  shows "\<exists>s'. init_page_block_mt addr s = Inr (next_malloc s, s') \<and> pm_inv s' \<and>
    blocks s' = (blocks s)(blk_align addr \<mapsto> next_malloc s) \<and> pm_lookup s' = pm_lookup s \<and>
    free_page_sample s' = free_page_sample s"
proof -
  let ?k = "blk_align addr" and ?b = "next_malloc s" and ?m = "page_block_map s"
  let ?B = "\<lparr>pb_addr = ?k, pb_page_sample = replicate PAGE_BLOCK_SIZE NULL\<rparr>"
  define u where "u = s\<lparr>malloc_cnt := malloc_cnt s + 1, pb_cell := (pb_cell s)(?b := ?B)\<rparr>"
  have nb: "new_block ?k s = (?b, u)" by (simp add: new_block_def internal_malloc_def u_def)
  have iu: "mt_inv u ?m" using pm_inv_parts(1)[OF inv] mt_inv_cong[of u s] by (simp add: u_def)
  have au: "hm_abs u (mt_hm ?m) = blocks s" using hm_abs_cong[of u s] by (simp add: u_def)
  have "can_add u (mt_hm ?m)" using room by (auto simp: block_room_def can_add_def u_def)
  then obtain m v where a: "hash_map_add_member_mt ?m ?k ?b u = Inr (0, m, v)" "mt_inv v m"
    "hm_abs v (mt_hm m) = (blocks s)(?k \<mapsto> ?b)"
    using mt.add_ok[OF iu, of ?k ?b] none au by auto
  note f = more_pm_fields[OF conjunct1[OF hash_map_add_member_mt_frame[OF iu a(1)]]]
  define t where "t = v\<lparr>page_block_map := m, page_block_list := ?b # page_block_list v, hot_page_block := ?b\<rparr>"
  have r: "init_page_block_mt addr s = Inr (?b, t)"
    using nb a(1) f(5) pm_inv_parts(4)[OF inv] by (simp add: init_page_block_mt_def t_def u_def Let_def)
  have bt: "blocks t = (blocks s)(?k \<mapsto> ?b)" using a(3) hm_abs_cong[of t v] by (simp add: t_def)
  have ct: "pb_cell t = (pb_cell s)(?b := ?B)" using f(1) by (simp add: t_def u_def)
  have other: "b \<noteq> ?b" if "blocks s k = Some b" for k b
    using that room by (auto simp: block_room_def ran_def)
  have "blocks_ok t"
    using pm_inv_parts(2)[OF inv] room other by (auto simp: blocks_ok_def bt ct block_room_def)
  moreover have "hot_page_block t = ?b" by (simp add: t_def)
  then have "hot_ok t" by (simp add: hot_ok_def bt ct)
  moreover have "mt_inv t (page_block_map t)" using a(2) mt_inv_cong[of t v] by (simp add: t_def)
  ultimately have "pm_inv t" using f(4,5) pm_inv_parts(4,5)[OF inv] by (simp add: pm_inv_def pm_index_def t_def u_def)
  moreover have "pm_lookup t x = pm_lookup s x" for x
  proof (cases "blk_align x = ?k")
    case True
    then show ?thesis
      using none sample_idx_bound[of x] by (simp add: pm_lookup_def bt ct PAGE_BLOCK_SIZE_def nat_less_iff)
  next
    case False
    then show ?thesis using other by (auto simp: pm_lookup_def bt ct split: option.split)
  qed
  ultimately show ?thesis using r bt f(3) by (intro exI[of _ t]) (simp add: fun_eq_iff t_def u_def)
qed

section \<open>Writing a place\<close>

lemma wr_sample_ok:
  fixes s :: "(hash_map_mt, 'x) pstate"
  assumes inv: "pm_inv s" and b: "blocks s (blk_align addr) = Some b"
  shows "\<exists>s'. wr_sample b (sample_idx addr) p s = Inr s' \<and> pm_inv s' \<and>
    pm_lookup s' = (\<lambda>a. if same_page a addr then p else pm_lookup s a) \<and> blocks s' = blocks s \<and>
    rd_sample b (sample_idx addr) s = Inr (pm_lookup s addr)"
proof -
  let ?ps = "pb_page_sample (pb_cell s b)" and ?i = "sample_idx addr"
  have len: "length ?ps = 4096" and addr: "pb_addr (pb_cell s b) = blk_align addr" and "b \<noteq> NULL"
    using b pm_inv_parts(2)[OF inv] by (auto simp: blocks_ok_def PAGE_BLOCK_SIZE_def)
  have i: "0 \<le> ?i" "?i < int (length ?ps)" using sample_idx_bound[of addr] len by simp_all
  define t where "t = s\<lparr>pb_cell := (pb_cell s)(b := (pb_cell s b)\<lparr>pb_page_sample := ?ps[nat ?i := p]\<rparr>)\<rparr>"
  have w: "wr_sample b ?i p s = Inr t" using i by (simp add: wr_sample_def t_def)
  have r: "rd_sample b ?i s = Inr (pm_lookup s addr)" using i b by (simp add: rd_sample_def pm_lookup_def)
  have bt: "blocks t = blocks s" using hm_abs_cong[of t s] by (simp add: t_def)
  have ct: "pb_cell t = (pb_cell s)(b := (pb_cell s b)\<lparr>pb_page_sample := ?ps[nat ?i := p]\<rparr>)"
    by (simp add: t_def)
  have "mt_inv t (page_block_map t)" using pm_inv_parts(1)[OF inv] mt_inv_cong[of t s] by (simp add: t_def)
  moreover have "blocks_ok t" using pm_inv_parts(2)[OF inv] unfolding blocks_ok_def bt by (auto simp: t_def)
  moreover have "hot_ok t" using pm_inv_parts(3)[OF inv] unfolding hot_ok_def bt by (auto simp: t_def)
  ultimately have it: "pm_inv t" using pm_inv_parts(4,5)[OF inv] by (simp add: pm_inv_def pm_index_def t_def)
  have "pm_lookup t x = (if same_page x addr then p else pm_lookup s x)" for x
  proof (cases "blk_align x = blk_align addr")
    case True
    have "nat (sample_idx x) < 4096" using sample_idx_bound[of x] by (simp add: nat_less_iff)
    moreover have "(nat (sample_idx x) = nat ?i) = (sample_idx x = ?i)"
      using sample_idx_bound[of x] sample_idx_bound[of addr] by auto
    ultimately show ?thesis
      unfolding pm_lookup_def bt same_page_iff using True b len
      by (cases "sample_idx x = ?i") (simp_all add: ct)
  next
    case False
    moreover have "c \<noteq> b" if "blocks s (blk_align x) = Some c" for c
      using that False addr pm_inv_parts(2)[OF inv] by (auto simp: blocks_ok_def)
    ultimately show ?thesis unfolding pm_lookup_def bt same_page_iff by (auto simp: ct split: option.split)
  qed
  then show ?thesis using w r it bt by (intro exI[of _ t]) auto
qed

section \<open>Samples\<close>

text \<open>Taking and returning a sample changes only the free list and the allocator.\<close>

lemma sample_change:
  fixes s t :: "(hash_map_mt, 'x) pstate"
  assumes "\<exists>n f. t = s\<lparr>malloc_cnt := n, free_page_sample := f\<rparr>"
  shows "pm_inv t = pm_inv s" "pm_lookup t = pm_lookup s" "blocks t = blocks s"
proof -
  have "free_member t = free_member s" "mm_cell t = mm_cell s" "fm_init t = fm_init s"
    "page_block_map t = page_block_map s" "pb_cell t = pb_cell s" "hot_page_block t = hot_page_block s"
    "pm_lock t = pm_lock s" "fp_init t = fp_init s"
    using assms by auto
  note e = this and f = pm_frame[OF this(1-5)]
  show "pm_lookup t = pm_lookup s" "blocks t = blocks s" by (rule f)+
  show "pm_inv t = pm_inv s" unfolding pm_inv_def pm_index_def hot_ok_def f(1,2,3) unfolding e by simp
qed

lemma sample_refl:
  fixes s :: "('m, 'x) pstate"
  shows "\<exists>f. s\<lparr>malloc_cnt := n\<rparr> = s\<lparr>malloc_cnt := n, free_page_sample := f\<rparr>"
    and "s\<lparr>free_page_sample := f\<rparr> = s\<lparr>malloc_cnt := malloc_cnt s, free_page_sample := f\<rparr>"
    and "\<exists>n f. s = s\<lparr>malloc_cnt := n, free_page_sample := f\<rparr>"
proof -
  have 1: "t = t\<lparr>free_page_sample := free_page_sample t\<rparr>" "t = t\<lparr>malloc_cnt := malloc_cnt t\<rparr>"
    for t :: "('m, 'x) pstate" by (cases t; simp)+
  show "\<exists>f. s\<lparr>malloc_cnt := n\<rparr> = s\<lparr>malloc_cnt := n, free_page_sample := f\<rparr>" using 1(1) by metis
  show "s\<lparr>free_page_sample := f\<rparr> = s\<lparr>malloc_cnt := malloc_cnt s, free_page_sample := f\<rparr>" using 1(2) by metis
  show "\<exists>n f. s = s\<lparr>malloc_cnt := n, free_page_sample := f\<rparr>" using 1 by metis
qed

lemma page_sample_alloc_mt_eq:
  assumes "fp_init s"
  shows "\<exists>n f. page_sample_alloc_mt s = (fst (page_sample_alloc_mt s), s\<lparr>malloc_cnt := n, free_page_sample := f\<rparr>)"
proof (cases "free_page_sample s")
  case Nil
  obtain f where "s\<lparr>malloc_cnt := Suc (malloc_cnt s)\<rparr> = s\<lparr>malloc_cnt := Suc (malloc_cnt s), free_page_sample := f\<rparr>"
    using sample_refl(1) by blast
  then show ?thesis
    using Nil assms by (intro exI[of _ "Suc (malloc_cnt s)"] exI[of _ f]) (simp add: page_sample_alloc_mt_def internal_malloc_def)
next
  case (Cons p ps)
  then show ?thesis
    using assms sample_refl(2)[of ps s]
    by (intro exI[of _ "malloc_cnt s"] exI[of _ ps]) (simp add: page_sample_alloc_mt_def)
qed

text \<open>Freeing a sample and allocating one gives the same sample back and leaves the state alone.\<close>

lemma free_then_alloc:
  assumes "fp_init s"
  shows "\<exists>t. page_sample_free_mt p s = Inr t \<and> page_sample_alloc_mt t = (p, s)"
  using assms by (cases s) (simp add: page_sample_free_mt_def page_sample_alloc_mt_def)

section \<open>Looking up, attaching and detaching\<close>

lemma get_page_sample_ok:
  fixes s :: "(hash_map_mt, 'x) pstate"
  assumes inv: "pm_inv s" and g: "block_guard s addr"
  shows "\<exists>s'. get_page_sample_mt addr s = Inr (pm_lookup s addr, s') \<and> pm_inv s' \<and>
    pm_lookup s' = pm_lookup s \<and> blocks s' = blocks s"
proof -
  obtain h where h: "get_page_block_mt (blk_align addr) s =
      Inr (case blocks s (blk_align addr) of None \<Rightarrow> NULL | Some b \<Rightarrow> b, s\<lparr>hot_page_block := h\<rparr>)"
    and inv': "pm_inv (s\<lparr>hot_page_block := h\<rparr>)"
    using get_page_block_ok[OF inv g[unfolded block_guard_def]] by blast
  let ?t = "s\<lparr>hot_page_block := h\<rparr>"
  have f: "blocks ?t = blocks s" "pm_lookup ?t = pm_lookup s" using pm_frame[of ?t s] by simp_all
  have "get_page_sample_mt addr s = Inr (pm_lookup s addr, ?t)"
  proof (cases "blocks s (blk_align addr)")
    case None
    then show ?thesis using h by (simp add: get_page_sample_mt_def pm_lookup_def)
  next
    case (Some b)
    then have "b \<noteq> NULL" using pm_inv_parts(2)[OF inv] by (auto simp: blocks_ok_def)
    moreover have "rd_sample b (sample_idx addr) ?t = Inr (pm_lookup ?t addr)"
      using wr_sample_ok[OF inv', of addr b] Some f(1) by metis
    ultimately show ?thesis using h Some f(2) by (simp add: get_page_sample_mt_def)
  qed
  then show ?thesis using inv' f by blast
qed

definition attached :: "uint64 \<Rightarrow> ptr \<Rightarrow> (uint64 \<Rightarrow> ptr) \<Rightarrow> uint64 \<Rightarrow> ptr" where
  "attached addr p m = (\<lambda>a. if same_page a addr then p else m a)"

lemma attach_in_block:
  fixes s :: "(hash_map_mt, 'x) pstate"
  assumes inv: "pm_inv s" and b: "blocks s (blk_align addr) = Some b"
  shows "\<exists>p s'. rbind (rd_sample b (sample_idx addr) s) (\<lambda>p.
       rbind (if p \<noteq> NULL then page_sample_free_mt p s else Inr s) (\<lambda>s.
         let (p, s) = page_sample_alloc_mt s
         in rbind (wr_sample b (sample_idx addr) p s) (\<lambda>s. Inr (p, s)))) = Inr (p, s') \<and>
     pm_inv s' \<and> pm_lookup s' = attached addr p (pm_lookup s) \<and> blocks s' = blocks s \<and>
     p = (if pm_lookup s addr \<noteq> NULL then pm_lookup s addr else fst (page_sample_alloc_mt s))"
proof -
  let ?q = "pm_lookup s addr"
  let ?p = "if ?q \<noteq> NULL then ?q else fst (page_sample_alloc_mt s)"
  have r: "rd_sample b (sample_idx addr) s = Inr ?q" using wr_sample_ok[OF inv b] by blast
  note fp = pm_inv_parts(5)[OF inv]
  have "\<exists>t u. (if ?q \<noteq> NULL then page_sample_free_mt ?q s else Inr s) = Inr t \<and>
      page_sample_alloc_mt t = (?p, u) \<and> (\<exists>n f. u = s\<lparr>malloc_cnt := n, free_page_sample := f\<rparr>)"
  proof (cases "?q = NULL")
    case True
    then show ?thesis using page_sample_alloc_mt_eq[OF fp] by auto
  next
    case False
    obtain t where "page_sample_free_mt ?q s = Inr t" "page_sample_alloc_mt t = (?q, s)"
      using free_then_alloc[OF fp] by blast
    then show ?thesis using False sample_refl(3)[of s] by (intro exI[of _ t] exI[of _ s]) simp
  qed
  then obtain t u where t: "(if ?q \<noteq> NULL then page_sample_free_mt ?q s else Inr s) = Inr t"
    and u: "page_sample_alloc_mt t = (?p, u)" and c: "\<exists>n f. u = s\<lparr>malloc_cnt := n, free_page_sample := f\<rparr>"
    by blast
  note k = sample_change[OF c]
  have "pm_inv u" "blocks u (blk_align addr) = Some b" using inv b by (simp_all only: k)
  then obtain s' where w: "wr_sample b (sample_idx addr) ?p u = Inr s'" "pm_inv s'" "blocks s' = blocks s"
    "pm_lookup s' = attached addr ?p (pm_lookup s)"
    using wr_sample_ok[of u addr b ?p] unfolding attached_def k by blast
  then show ?thesis unfolding r rbind_Inr t u Let_def prod.case w(1) by blast
qed

lemma attach_page_sample_ok:
  fixes s :: "(hash_map_mt, 'x) pstate"
  assumes inv: "pm_inv s" and g: "block_guard s addr"
    and room: "blocks s (blk_align addr) = None \<longrightarrow> block_room s"
  shows "\<exists>p s'. attach_page_sample_mt addr s = Inr (p, s') \<and> pm_inv s' \<and>
    pm_lookup s' = attached addr p (pm_lookup s) \<and>
    (pm_lookup s addr \<noteq> NULL \<longrightarrow> p = pm_lookup s addr) \<and> blocks s' (blk_align addr) \<noteq> None"
proof -
  let ?k = "blk_align addr"
  obtain h where h: "get_page_block_mt ?k s = Inr (case blocks s ?k of None \<Rightarrow> NULL | Some b \<Rightarrow> b, s\<lparr>hot_page_block := h\<rparr>)"
    and inv': "pm_inv (s\<lparr>hot_page_block := h\<rparr>)"
    using get_page_block_ok[OF inv g[unfolded block_guard_def]] by blast
  let ?t = "s\<lparr>hot_page_block := h\<rparr>"
  have f: "blocks ?t = blocks s" "pm_lookup ?t = pm_lookup s" using pm_frame[of ?t s] by simp_all
  have "\<exists>b u. (if (case blocks s ?k of None \<Rightarrow> NULL | Some b \<Rightarrow> b) = NULL then init_page_block_mt addr ?t
      else Inr (case blocks s ?k of None \<Rightarrow> NULL | Some b \<Rightarrow> b, ?t)) = Inr (b, u) \<and> pm_inv u \<and>
      blocks u ?k = Some b \<and> pm_lookup u = pm_lookup s"
  proof (cases "blocks s ?k")
    case None
    moreover have "block_room ?t" using room None f(1) by (simp add: block_room_def)
    ultimately show ?thesis using init_page_block_ok[OF inv', of addr] f by auto
  next
    case (Some b)
    then have "b \<noteq> NULL" using pm_inv_parts(2)[OF inv] by (auto simp: blocks_ok_def)
    then show ?thesis using Some inv' f by auto
  qed
  then obtain b u where u: "(if (case blocks s ?k of None \<Rightarrow> NULL | Some b \<Rightarrow> b) = NULL then init_page_block_mt addr ?t
      else Inr (case blocks s ?k of None \<Rightarrow> NULL | Some b \<Rightarrow> b, ?t)) = Inr (b, u)" "pm_inv u"
      "blocks u ?k = Some b" "pm_lookup u = pm_lookup s"
    by blast
  show ?thesis
    using attach_in_block[OF u(2,3)] u(3)
    by (simp only: attach_page_sample_mt_def h rbind_Inr prod.case u(1) u(4)) auto
qed

lemma detach_page_sample_ok:
  fixes s :: "(hash_map_mt, 'x) pstate"
  assumes inv: "pm_inv s" and g: "block_guard s (ps_addr (ps_cell s p))"
  shows "\<exists>s'. detach_page_sample_mt p s = Inr s' \<and> pm_inv s' \<and>
    pm_lookup s' = attached (ps_addr (ps_cell s p)) NULL (pm_lookup s) \<and> block_guard s' (ps_addr (ps_cell s p)) \<and>
    free_page_sample s' =
      (let q = pm_lookup s (ps_addr (ps_cell s p))
       in if q = NULL then free_page_sample s else q # free_page_sample s)"
proof -
  let ?a = "ps_addr (ps_cell s p)"
  let ?k = "blk_align ?a"
  obtain h where h: "get_page_block_mt ?k s = Inr (case blocks s ?k of None \<Rightarrow> NULL | Some b \<Rightarrow> b, s\<lparr>hot_page_block := h\<rparr>)"
    and inv': "pm_inv (s\<lparr>hot_page_block := h\<rparr>)"
    using get_page_block_ok[OF inv g[unfolded block_guard_def]] by blast
  let ?t = "s\<lparr>hot_page_block := h\<rparr>"
  have f: "blocks ?t = blocks s" "pm_lookup ?t = pm_lookup s" using pm_frame[of ?t s] by simp_all
  show ?thesis
  proof (cases "blocks s ?k")
    case None
    then have "pm_lookup s x = NULL" if "same_page x ?a" for x
      using that by (simp add: pm_lookup_def same_page_iff)
    moreover from this have "pm_lookup s ?a = NULL" by (simp add: same_page_def)
    moreover have "block_guard ?t ?a" using g f(1) guard_frame[of ?t s] by (simp add: block_guard_def)
    ultimately show ?thesis using None h inv' f by (auto simp: detach_page_sample_mt_def attached_def)
  next
    case (Some b)
    then have b: "b \<noteq> NULL" using pm_inv_parts(2)[OF inv] by (auto simp: blocks_ok_def)
    let ?q = "pm_lookup s ?a"
    let ?u = "if ?q \<noteq> NULL then ?t\<lparr>free_page_sample := ?q # free_page_sample s\<rparr> else ?t"
    have fr: "(if ?q \<noteq> NULL then page_sample_free_mt ?q ?t else Inr ?t) = Inr ?u"
      using pm_inv_parts(5)[OF inv] by (simp add: page_sample_free_mt_def)
    have rd: "rd_sample b (sample_idx ?a) ?t = Inr ?q" using wr_sample_ok[OF inv', of ?a b] Some f by metis
    have c: "\<exists>n fs. ?u = ?t\<lparr>malloc_cnt := n, free_page_sample := fs\<rparr>"
    proof (cases "?q = NULL")
      case True
      then show ?thesis using sample_refl(3)[of ?t] by simp
    next
      case False
      then show ?thesis using sample_refl(2)[of _ ?t] by (simp only: if_True simp_thms) blast
    qed
    note k = sample_change[OF c]
    have "pm_inv ?u" "blocks ?u ?k = Some b" using inv' Some by (simp_all only: k f)
    then obtain s' where w: "wr_sample b (sample_idx ?a) NULL ?u = Inr s'" "pm_inv s'" "blocks s' = blocks s"
      "pm_lookup s' = attached ?a NULL (pm_lookup s)"
      using wr_sample_ok[of ?u ?a b NULL] unfolding attached_def k f by blast
    moreover have "free_page_sample s' = free_page_sample ?u"
      using w(1) by (auto simp: wr_sample_def rbind_eq_Inr)
    moreover have "free_page_sample ?u = (if ?q = NULL then free_page_sample s else ?q # free_page_sample s)" by simp
    moreover have "detach_page_sample_mt p s = wr_sample b (sample_idx ?a) NULL ?u"
      by (simp only: detach_page_sample_mt_def Let_def h Some option.case rbind_Inr prod.case b if_False rd fr)
    moreover have "block_guard s' ?a" using w(3) Some by (simp add: block_guard_def)
    ultimately show ?thesis by (simp add: Let_def)
  qed
qed

section \<open>The interface the monitor uses\<close>

text \<open>
  \<open>page_store\<close> is what the chunk monitor relies on: a lookup function on addresses, and the three
  operations as updates of it. \<open>ready\<close> and \<open>room\<close> are the conditions under which a lookup and an
  insertion do not run into the memory around the index.
\<close>

locale page_store =
  fixes inv :: "'s \<Rightarrow> bool" and lookup :: "'s \<Rightarrow> uint64 \<Rightarrow> ptr" and ready :: "'s \<Rightarrow> uint64 \<Rightarrow> bool"
    and room :: "'s \<Rightarrow> uint64 \<Rightarrow> bool" and page_of :: "'s \<Rightarrow> ptr \<Rightarrow> uint64"
    and set_page :: "ptr \<Rightarrow> uint64 \<Rightarrow> 's \<Rightarrow> 's"
    and get :: "uint64 \<Rightarrow> 's \<Rightarrow> (ptr \<times> 's) res" and attach :: "uint64 \<Rightarrow> 's \<Rightarrow> (ptr \<times> 's) res"
    and detach :: "ptr \<Rightarrow> 's \<Rightarrow> 's res"
  assumes get_ok: "inv s \<Longrightarrow> ready s a \<Longrightarrow>
      \<exists>s'. get a s = Inr (lookup s a, s') \<and> inv s' \<and> lookup s' = lookup s"
    and attach_ok: "inv s \<Longrightarrow> ready s a \<Longrightarrow> room s a \<Longrightarrow>
      \<exists>p s'. attach a s = Inr (p, s') \<and> inv s' \<and> lookup s' = attached a p (lookup s) \<and> ready s' a"
    and detach_ok: "inv s \<Longrightarrow> ready s (page_of s p) \<Longrightarrow>
      \<exists>s'. detach p s = Inr s' \<and> inv s' \<and> lookup s' = attached (page_of s p) NULL (lookup s) \<and>
        ready s' (page_of s p)"
    and ready_page: "same_page a b \<Longrightarrow> ready s a \<Longrightarrow> ready s b"
    and set_page: "inv (set_page p a s) = inv s" "lookup (set_page p a s) = lookup s"
      "ready (set_page p a s) = ready s" "page_of (set_page p a s) p = a"
begin

lemma get_attached:
  assumes "inv s" and "ready s a" and "lookup s = attached a p m" and "same_page b a"
  shows "\<exists>s'. get b s = Inr (p, s') \<and> inv s' \<and> lookup s' = lookup s"
proof -
  have "same_page a b" using assms(4) by (simp add: same_page_def)
  then have "ready s b" using assms(2) by (rule ready_page)
  moreover have "lookup s b = p" using assms(3,4) by (simp add: attached_def)
  ultimately show ?thesis using get_ok[OF assms(1)] by metis
qed

lemma attach_detach:
  assumes "inv s" and "ready s a" and "room s a"
  shows "\<exists>p s1 s2. attach a s = Inr (p, s1) \<and> inv s1 \<and> lookup s1 = attached a p (lookup s) \<and>
    (\<forall>b. same_page b a \<longrightarrow> (\<exists>t. get b s1 = Inr (p, t) \<and> inv t \<and> lookup t = lookup s1)) \<and>
    detach p (set_page p a s1) = Inr s2 \<and> inv s2 \<and> lookup s2 = attached a NULL (lookup s) \<and>
    (\<forall>b. same_page b a \<longrightarrow> (\<exists>t. get b s2 = Inr (NULL, t) \<and> inv t \<and> lookup t = lookup s2))"
proof -
  obtain p s1 where 1: "attach a s = Inr (p, s1)" "inv s1" "lookup s1 = attached a p (lookup s)" "ready s1 a"
    using attach_ok[OF assms] by blast
  have "inv (set_page p a s1)" "ready (set_page p a s1) (page_of (set_page p a s1) p)"
    using 1(2,4) by (simp_all add: set_page)
  then obtain s2 where 2: "detach p (set_page p a s1) = Inr s2" "inv s2" "lookup s2 = attached a NULL (lookup s1)"
      "ready s2 a"
    using detach_ok[of "set_page p a s1" p] unfolding set_page by blast
  have 3: "lookup s2 = attached a NULL (lookup s)" using 2(3) 1(3) by (auto simp: attached_def fun_eq_iff)
  show ?thesis using 1 2 3 get_attached[OF 1(2,4,3)] get_attached[OF 2(2,4) 3] by blast
qed

end

definition set_page_addr :: "ptr \<Rightarrow> uint64 \<Rightarrow> ('m, 'x) pstate \<Rightarrow> ('m, 'x) pstate" where
  "set_page_addr p a s = upd_ps p (\<lambda>x. x\<lparr>ps_addr := a\<rparr>) s"

lemma set_page_addr_frame:
  fixes s :: "(hash_map_mt, 'x) pstate"
  shows "pm_inv (set_page_addr p a s) = pm_inv s" "pm_lookup (set_page_addr p a s) = pm_lookup s"
    "block_guard (set_page_addr p a s) = block_guard s" "ps_addr (ps_cell (set_page_addr p a s) p) = a"
    "blocks (set_page_addr p a s) = blocks s"
proof -
  let ?t = "set_page_addr p a s"
  have e: "free_member ?t = free_member s" "mm_cell ?t = mm_cell s" "fm_init ?t = fm_init s"
    "page_block_map ?t = page_block_map s" "pb_cell ?t = pb_cell s" "hot_page_block ?t = hot_page_block s"
    "pm_lock ?t = pm_lock s" "fp_init ?t = fp_init s"
    by (simp_all add: set_page_addr_def upd_ps_def)
  note f = pm_frame[OF e(1-5)]
  show "pm_lookup ?t = pm_lookup s" "blocks ?t = blocks s" by (rule f)+
  show "pm_inv ?t = pm_inv s" unfolding pm_inv_def pm_index_def hot_ok_def f(1,2,3) unfolding e by simp
  show "block_guard ?t = block_guard s"
    using guard_frame[of ?t s] unfolding block_guard_def[abs_def] f(2) unfolding e(4)
    by (simp add: set_page_addr_def upd_ps_def)
  show "ps_addr (ps_cell ?t p) = a" by (simp add: set_page_addr_def upd_ps_def)
qed

definition attach_room :: "(hash_map_mt, 'x) pstate \<Rightarrow> uint64 \<Rightarrow> bool" where
  "attach_room s a \<longleftrightarrow> (blocks s (blk_align a) = None \<longrightarrow> block_room s)"

interpretation pm: page_store pm_inv pm_lookup block_guard attach_room "\<lambda>s p. ps_addr (ps_cell s p)"
  set_page_addr get_page_sample_mt attach_page_sample_mt detach_page_sample_mt
proof (unfold_locales, goal_cases)
  case (1 s a)
  then show ?case using get_page_sample_ok by blast
next
  case (2 s a)
  then obtain p s' where "attach_page_sample_mt a s = Inr (p, s')" "pm_inv s'"
    "pm_lookup s' = attached a p (pm_lookup s)" "blocks s' (blk_align a) \<noteq> None"
    using attach_page_sample_ok[of s a] by (auto simp: attach_room_def)
  then show ?case by (auto simp: block_guard_def)
next
  case (3 s p)
  then show ?case using detach_page_sample_ok by blast
next
  case (4 a b s)
  then show ?case by (simp add: block_guard_def same_page_iff)
qed (rule set_page_addr_frame)+

section \<open>Properties\<close>

text \<open>C16: the page sample map keeps what it is given. Attaching a sample to an address records it for
  every address of that page and for no other page; a lookup anywhere in the page finds it; once the
  caller has written the address into the sample, detaching the sample empties that page again, a
  lookup then finds nothing, and every other page is as it was before the attachment.
\<close>

theorem page_sample_round_trip:
  fixes s :: "(hash_map_mt, 'x) pstate"
  assumes "pm_inv s" and "block_guard s addr" and "attach_room s addr"
  shows "\<exists>p s1 s2. attach_page_sample_mt addr s = Inr (p, s1) \<and> pm_inv s1 \<and>
    pm_lookup s1 = (\<lambda>a. if same_page a addr then p else pm_lookup s a) \<and>
    (\<forall>b. same_page b addr \<longrightarrow> (\<exists>t. get_page_sample_mt b s1 = Inr (p, t) \<and> pm_inv t \<and> pm_lookup t = pm_lookup s1)) \<and>
    detach_page_sample_mt p (set_page_addr p addr s1) = Inr s2 \<and> pm_inv s2 \<and>
    pm_lookup s2 = (\<lambda>a. if same_page a addr then NULL else pm_lookup s a) \<and>
    (\<forall>b. same_page b addr \<longrightarrow> (\<exists>t. get_page_sample_mt b s2 = Inr (NULL, t) \<and> pm_inv t \<and> pm_lookup t = pm_lookup s2))"
  using pm.attach_detach[OF assms] unfolding attached_def .

lemma boot_pm_inv: "pm_inv boot" "block_guard boot a" "attach_room boot a" "pm_lookup boot = (\<lambda>_. NULL)"
proof -
  have m: "page_block_map boot = fresh_mt" "hot_page_block boot = NULL" "\<not> pm_lock boot" "fp_init boot"
    by (simp_all add: boot_def)
  show "pm_inv boot" using boot_maps by (simp add: pm_inv_def pm_index_def m blocks_ok_def hot_ok_def)
  show "block_guard boot a" using boot_maps by (simp add: block_guard_def m)
  have "next_malloc boot \<noteq> NULL" by (simp add: boot_def)
  then show "attach_room boot a"
    using boot_maps(2) fresh_members by (simp add: attach_room_def block_room_def m)
  show "pm_lookup boot = (\<lambda>_. NULL)" using boot_maps(2) by (simp add: pm_lookup_def[abs_def] m)
qed

theorem page_sample_round_trip_witness:
  "pm_inv boot \<and> block_guard boot 0x12345678 \<and> attach_room boot 0x12345678 \<and>
   (\<exists>p s1 s2. attach_page_sample_mt 0x12345678 boot = Inr (p, s1) \<and>
      (\<exists>t. get_page_sample_mt 0x12345000 s1 = Inr (p, t)) \<and>
      detach_page_sample_mt p (set_page_addr p 0x12345678 s1) = Inr s2 \<and>
      (\<exists>t. get_page_sample_mt 0x12345000 s2 = Inr (NULL, t)))"
proof -
  have "same_page 0x12345000 0x12345678" by (simp add: same_page_def word_uint_eq_iff and_page_mask)
  then show ?thesis using page_sample_round_trip[OF boot_pm_inv(1-3), of "0x12345678"] boot_pm_inv(1-3) by blast
qed

text \<open>Attaching a sample to a page that already has one hands out the sample that is there, not a new
  one; detaching puts the sample found for the page at the head of the thread's free list, and does
  nothing to that list when the page has none.
\<close>

theorem page_sample_reuse:
  fixes s :: "(hash_map_mt, 'x) pstate"
  assumes "pm_inv s" and "block_guard s (ps_addr (ps_cell s p))" and "attach_room s (ps_addr (ps_cell s p))"
    and "pm_lookup s (ps_addr (ps_cell s p)) = q"
  shows "(q \<noteq> NULL \<longrightarrow> (\<exists>s1. attach_page_sample_mt (ps_addr (ps_cell s p)) s = Inr (q, s1) \<and> pm_lookup s1 = pm_lookup s)) \<and>
    (\<exists>s2. detach_page_sample_mt p s = Inr s2 \<and>
       free_page_sample s2 = (if q = NULL then free_page_sample s else q # free_page_sample s))"
proof (intro conjI impI)
  let ?a = "ps_addr (ps_cell s p)"
  assume "q \<noteq> NULL"
  then obtain s1 where s1: "attach_page_sample_mt ?a s = Inr (q, s1)" "pm_lookup s1 = attached ?a q (pm_lookup s)"
    using attach_page_sample_ok[OF assms(1,2)] assms(3,4) unfolding attach_room_def by blast
  moreover have "attached ?a q (pm_lookup s) x = pm_lookup s x" for x
    using assms(4) pm_lookup_page[of x ?a s] by (simp add: attached_def)
  ultimately show "\<exists>s1. attach_page_sample_mt ?a s = Inr (q, s1) \<and> pm_lookup s1 = pm_lookup s" by auto
next
  show "\<exists>s2. detach_page_sample_mt p s = Inr s2 \<and>
     free_page_sample s2 = (if q = NULL then free_page_sample s else q # free_page_sample s)"
    using detach_page_sample_ok[OF assms(1,2)] assms(4) by (auto simp: Let_def)
qed

theorem page_sample_reuse_witness:
  "pm_inv boot \<and> pm_lookup boot (ps_addr (ps_cell boot 64)) = NULL \<and>
   (\<exists>s2. detach_page_sample_mt 64 boot = Inr s2 \<and> free_page_sample s2 = [])"
proof -
  have "free_page_sample boot = []" by (simp add: boot_def)
  then show ?thesis using page_sample_reuse[OF boot_pm_inv(1-3) refl, of 64] boot_pm_inv(1,4) by simp
qed

text \<open>A thread that has never allocated a sample cannot give one back. The parallel
  \<open>page_sample_free\<close> does not set up the thread's free list, so detaching a sample that another
  thread attached, or attaching over it, dereferences the null head of that list.
\<close>

theorem sample_free_on_a_new_thread:
  fixes s :: "(hash_map_mt, 'x) pstate"
  assumes "pm_index s" and "\<not> fp_init s" and "pm_lookup s (ps_addr (ps_cell s p)) \<noteq> NULL"
  shows "detach_page_sample_mt p s = Inl NullDeref \<and>
    attach_page_sample_mt (ps_addr (ps_cell s p)) s = Inl NullDeref"
proof -
  let ?a = "ps_addr (ps_cell s p)"
  obtain b where b: "blocks s (blk_align ?a) = Some b" using assms(3) by (auto simp: pm_lookup_def split: option.splits)
  then have nb: "b \<noteq> NULL" and len: "length (pb_page_sample (pb_cell s b)) = 4096"
    using assms(1) by (auto simp: pm_index_def blocks_ok_def PAGE_BLOCK_SIZE_def)
  obtain h where h: "get_page_block_mt (blk_align ?a) s = Inr (b, s\<lparr>hot_page_block := h\<rparr>)"
    using get_page_block_index[OF assms(1), of "blk_align ?a"] b by auto
  have "rd_sample b (sample_idx ?a) (s\<lparr>hot_page_block := h\<rparr>) = Inr (pm_lookup s ?a)"
    using sample_idx_bound[of ?a] len b by (simp add: rd_sample_def pm_lookup_def)
  then show ?thesis
    using h nb assms(2,3) by (simp add: detach_page_sample_mt_def attach_page_sample_mt_def page_sample_free_mt_def)
qed

lemma other_thread:
  fixes s :: "(hash_map_mt, 'x) pstate"
  assumes "pm_inv s"
  shows "pm_index (s\<lparr>fp_init := False\<rparr>)" "pm_lookup (s\<lparr>fp_init := False\<rparr>) = pm_lookup s"
proof -
  note f = pm_frame[of "s\<lparr>fp_init := False\<rparr>" s, simplified]
  show "pm_lookup (s\<lparr>fp_init := False\<rparr>) = pm_lookup s" by (rule f)
  show "pm_index (s\<lparr>fp_init := False\<rparr>)"
    using assms unfolding pm_inv_def pm_index_def hot_ok_def by (simp add: f)
qed

theorem sample_free_on_a_new_thread_witness:
  "\<exists>s1 s2. init_page_block_mt 0x5000 boot = Inr (64, s1) \<and> wr_sample 64 (sample_idx 0x5000) 128 s1 = Inr s2 \<and>
     (let s = (set_page_addr 128 0x5000 s2)\<lparr>fp_init := False\<rparr>
      in pm_index s \<and> \<not> fp_init s \<and> pm_lookup s (ps_addr (ps_cell s 128)) = 128 \<and>
         detach_page_sample_mt 128 s = Inl NullDeref \<and>
         attach_page_sample_mt (ps_addr (ps_cell s 128)) s = Inl NullDeref)"
proof -
  have none: "blocks boot (blk_align 0x5000) = None" using boot_maps(2) by (simp add: boot_def)
  moreover have "block_room boot" using boot_pm_inv(3)[of "0x5000"] none by (simp add: attach_room_def)
  moreover have "next_malloc boot = 64" by (simp add: boot_def)
  ultimately obtain s1 where 1: "init_page_block_mt 0x5000 boot = Inr (64, s1)" "pm_inv s1"
    "blocks s1 = (blocks boot)(blk_align 0x5000 \<mapsto> 64)"
    using init_page_block_ok[OF boot_pm_inv(1)] by metis
  then obtain s2 where 2: "wr_sample 64 (sample_idx 0x5000) 128 s1 = Inr s2" "pm_inv s2"
    "pm_lookup s2 = (\<lambda>a. if same_page a 0x5000 then 128 else pm_lookup s1 a)"
    using wr_sample_ok[of s1 "0x5000" 64 128] by auto
  define s where "s = (set_page_addr 128 0x5000 s2)\<lparr>fp_init := False\<rparr>"
  have "pm_inv (set_page_addr 128 0x5000 s2)" using 2(2) by (simp only: set_page_addr_frame)
  note o = other_thread[OF this, folded s_def]
  have a: "ps_addr (ps_cell s 128) = 0x5000" using set_page_addr_frame(4)[of 128 "0x5000" s2] by (simp add: s_def)
  have l: "pm_lookup s (ps_addr (ps_cell s 128)) = 128"
    unfolding a o(2) set_page_addr_frame(2) 2(3) by (simp add: same_page_def)
  have n: "\<not> fp_init s" by (simp add: s_def)
  have "pm_lookup s (ps_addr (ps_cell s 128)) \<noteq> NULL" by (simp add: l)
  from sample_free_on_a_new_thread[OF o(1) n this] show ?thesis
    using 1(1) 2(1) o(1) n l unfolding s_def Let_def by blast
qed

end
