(* ===== verification/Queue_Client.thy ===== *)
theory Queue_Client
  imports Boot_State
begin

text \<open>
  What a client of the event queue may rely on when the handlers it registers are called from within
  the queue: a predicate that does not look at the fields of the queue, that the index keeps and that
  every handler keeps, is kept by every operation of the queue, whatever handlers it triggers on the
  way. \<open>res_all\<close> says that a predicate holds of the result if there is one; its rules follow the
  structure of a definition.
\<close>

section \<open>Results that satisfy a predicate\<close>

definition res_all :: "('a \<Rightarrow> bool) \<Rightarrow> 'a res \<Rightarrow> bool" where
  "res_all P r \<longleftrightarrow> (\<forall>x. r = Inr x \<longrightarrow> P x)"

lemma res_all_Inl [simp]: "res_all P (Inl e)"
  by (simp add: res_all_def)

lemma res_all_Inr [simp]: "res_all P (Inr x) = P x"
  by (simp add: res_all_def)

lemma res_all_D: "res_all P r \<Longrightarrow> r = Inr x \<Longrightarrow> P x"
  by (simp add: res_all_def)

lemma res_all_bind: "res_all P r \<Longrightarrow> (\<And>x. P x \<Longrightarrow> res_all Q (f x)) \<Longrightarrow> res_all Q (rbind r f)"
  by (auto simp: res_all_def rbind_eq_Inr)

lemma res_all_bind_pair:
  "res_all (\<lambda>(a, b). P a b) r \<Longrightarrow> (\<And>a b. P a b \<Longrightarrow> res_all Q (f (a, b))) \<Longrightarrow> res_all Q (rbind r f)"
  by (auto simp: res_all_def rbind_eq_Inr)

lemma res_all_bind_any: "(\<And>x. res_all Q (f x)) \<Longrightarrow> res_all Q (rbind r f)"
  by (auto simp: res_all_def rbind_eq_Inr)

lemma res_all_if: "(b \<Longrightarrow> res_all P x) \<Longrightarrow> (\<not> b \<Longrightarrow> res_all P y) \<Longrightarrow> res_all P (if b then x else y)"
  by simp

lemma res_all_weaken: "res_all P r \<Longrightarrow> (\<And>x. P x \<Longrightarrow> Q x) \<Longrightarrow> res_all Q r"
  by (auto simp: res_all_def)

section \<open>Clients of the queue\<close>

locale queue_client =
  fixes env :: "('m, 'x) qenv" and P :: "('m, 'x) qstate \<Rightarrow> bool"
  assumes only_more: "eq_state.more s = eq_state.more t \<Longrightarrow> P s = P t"
    and add_keeps: "P s \<Longrightarrow> res_all (\<lambda>(ret, m', s'). P s') (q_add env m k v s)"
    and del_keeps: "P s \<Longrightarrow> res_all (\<lambda>(m', s'). P s') (q_del env m k s)"
    and call_keeps: "P s \<Longrightarrow> res_all P (q_call env h p now s)"
begin

lemma P_fields [simp]:
  "P (s\<lparr>eq_status := a\<rparr>) = P s" "P (s\<lparr>events := b\<rparr>) = P s" "P (s\<lparr>free_event := c\<rparr>) = P s"
  "P (s\<lparr>private2event_map := d\<rparr>) = P s" "P (s\<lparr>itv_value := e\<rparr>) = P s" "P (s\<lparr>ev_cell := f\<rparr>) = P s"
  "P (s\<lparr>clock_cnt := g\<rparr>) = P s" "P (s\<lparr>queue_lock := h\<rparr>) = P s" "P (s\<lparr>malloc_cnt := i\<rparr>) = P s"
  by (rule only_more; simp)+

lemma queue_parts [simp]:
  "P (time_event_del ev s) = P s" "P (time_event_free ev s) = P s" "P (set_timer tv s) = P s"
  "P (snd (gettimeofday s)) = P s" "P (snd (do_pend_event_queue s)) = P s" "P (snd (time_event_alloc s)) = P s"
  by (simp_all add: time_event_del_def time_event_free_def set_timer_def gettimeofday_def
      do_pend_event_queue_def time_event_alloc_def internal_malloc_def Let_def split: list.split)

lemma queue_parts_D:
  "gettimeofday s = (now, t) \<Longrightarrow> P t = P s" "do_pend_event_queue s = (st, t) \<Longrightarrow> P t = P s"
  "time_event_alloc s = (ev, t) \<Longrightarrow> P t = P s"
  using queue_parts(4-6)[of s] by simp_all

lemma trigger_loop_keeps: "P s \<Longrightarrow> res_all P (trigger_loop fuel env now s)"
proof (induction fuel arbitrary: s)
  case (Suc fuel)
  show ?case
  proof (cases "events s")
    case (Cons e es)
    have body: "res_all P (rbind (if ev_handler c \<noteq> NullHandler then q_call env (ev_handler c) (ev_private c) now t else Inr t)
        (\<lambda>s. trigger_loop fuel env now (time_event_free e s)))" if "P t" for c t
      by (rule res_all_bind[where P = P]) (use that call_keeps Suc.IH in \<open>auto intro!: res_all_if\<close>)
    show ?thesis
      unfolding trigger_loop.simps Cons list.case Let_def
      by (intro res_all_if res_all_bind_pair[OF del_keeps]) (use Suc.prems in \<open>simp_all only: prod.case res_all_Inr\<close>,
        rule body, simp)
  qed (use Suc.prems in simp)
qed simp

lemma do_trigger_keeps: "P s \<Longrightarrow> res_all P (do_trigger_time_event fuel env now s)"
  by (simp add: do_trigger_time_event_def trigger_loop_keeps)

lemma do_resume_keeps:
  assumes "P s"
  shows "res_all P (do_resume_event_queue fuel env now s)"
proof -
  have "res_all P (rbind (do_trigger_time_event fuel env tv t) (\<lambda>s.
      case events s of [] \<Rightarrow> Inr s | e # _ \<Rightarrow> Inr (set_timer (tv_sub (ev_trigger_time (ev_cell s e)) tv) s)))"
    if "P t" for tv t
    by (rule res_all_bind[OF do_trigger_keeps[OF that]]) (simp split: list.split)
  then show ?thesis
    using assms by (simp add: do_resume_event_queue_def gettimeofday_def Let_def split: option.split)
qed

lemma place_event_keeps: "P s \<Longrightarrow> res_all (\<lambda>(_, _, s'). P s') (place_event env tv hnd pr s)"
  by (auto simp: place_event_def Let_def split: prod.split intro!: res_all_bind[OF add_keeps]
      dest!: queue_parts_D)

lemma do_add_keeps: "P s \<Longrightarrow> res_all P (do_add_time_event fuel env tv hnd pr s)"
  unfolding do_add_time_event_def
  by (rule res_all_bind[OF place_event_keeps])
    (auto intro!: res_all_bind[OF do_trigger_keeps] res_all_if do_resume_keeps)

lemma trigger_pended_keeps: "P s \<Longrightarrow> res_all P (trigger_pended fuel env s)"
  by (auto simp: trigger_pended_def gettimeofday_def Let_def
      intro!: res_all_bind[OF do_trigger_keeps] res_all_if do_resume_keeps)

text \<open>Removal looks the event up first; the lookup does not change the state.\<close>

lemma do_remove_keeps: "P s \<Longrightarrow> res_all P (do_remove_time_event fuel env pr s)"
  by (auto simp: do_remove_time_event_def Let_def split: prod.split dest!: queue_parts_D
      intro!: res_all_bind[where P = "\<lambda>_. True"] res_all_bind[OF del_keeps] res_all_if do_resume_keeps)
    (simp add: res_all_def)

end

section \<open>The parallel index keeps what it does not own\<close>

lemma spin_result_more:
  "hash_map_rebuild_mt h s = Inr (r, h', s') \<Longrightarrow> hm_mt_state.more s' = hm_mt_state.more s"
  by (auto simp: hash_map_rebuild_mt_def internal_malloc_def internal_free_def Let_def rbind_eq_Inr split: if_splits)

lemma add_member_mt_more:
  "res_all (\<lambda>(r, h', s'). hm_mt_state.more s' = hm_mt_state.more s) (hash_map_add_member_mt h key v s)"
  unfolding hash_map_add_member_mt_def
proof (rule res_all_bind[where P = "\<lambda>(r, h', s'). hm_mt_state.more s' = hm_mt_state.more s"], goal_cases)
  case 1
  then show ?case by (auto simp: res_all_def dest: spin_result_more)
next
  case (2 x)
  have "hm_mt_state.more (snd (map_member_alloc_mt t)) = hm_mt_state.more t" for t :: "'a hm_mt_state_scheme"
    by (simp add: map_member_alloc_mt_def ensure_free_member_def internal_malloc_def Let_def split: list.split)
  then show ?case using 2 by (auto simp: res_all_def rbind_eq_Inr Let_def case_prod_unfold)
qed

lemma delete_member_mt_more:
  "hash_map_delete_member_mt h key s = Inr (h', s') \<Longrightarrow> hm_mt_state.more s' = hm_mt_state.more s"
  by (auto simp: hash_map_delete_member_mt_def map_member_free_mt_def ensure_free_member_def Let_def
      rbind_def split: sum.splits member_ref.splits prod.splits)

lemma eq_more:
  fixes s t :: "('m, 'x) qstate"
  shows "hm_mt_state.more s = hm_mt_state.more t \<Longrightarrow> eq_state.more s = eq_state.more t"
  by (cases s; cases t; simp)

lemma mt_client:
  assumes "\<And>s t :: (hash_map_mt, 'x) qstate. eq_state.more s = eq_state.more t \<Longrightarrow> P s = P t"
    and "\<And>h p now s. P s \<Longrightarrow> res_all P (call h p now s)"
  shows "queue_client (mt_env call) P"
proof (unfold_locales, goal_cases)
  case (1 s t)
  then show ?case by (rule assms(1))
next
  case (2 s m k v)
  have "P s'" if "hash_map_add_member_mt m k v s = Inr (r, m', s')" for r m' s'
    using assms(1)[OF eq_more, of s' s] res_all_D[OF add_member_mt_more that] 2 by simp
  then show ?case by (auto simp: res_all_def mt_env_def)
next
  case (3 s m k)
  have "P s'" if "hash_map_delete_member_mt m k s = Inr (m', s')" for m' s'
    using assms(1)[OF eq_more[OF delete_member_mt_more[OF that]]] 3 by simp
  then show ?case by (auto simp: res_all_def mt_env_def)
next
  case (4 s h p now)
  then show ?case using assms(2) by (simp add: mt_env_def)
qed

text \<open>The interface of the parallel queue, with its lock.\<close>

lemma parallel_queue_keeps:
  assumes "queue_client (env :: (hash_map_mt, 'x) qenv) P" and "P s"
  shows "res_all P (add_time_event_mt fuel env tv hnd pr s)"
    and "res_all P (remove_time_event_mt fuel env pr s)"
    and "res_all P (remove_time_event_when_pending_mt fuel env pr s)"
    and "res_all P (trigger_time_event_mt fuel env s)"
    and "res_all P (pend_time_event_queue_mt s)"
    and "res_all P (resume_time_event_queue_mt fuel env s)"
proof -
  note K = queue_client.P_fields[OF assms(1)] queue_client.queue_parts[OF assms(1)]
  note pend = queue_client.queue_parts(5)[OF assms(1)]
  have lock: "res_all P (take_queue_lock s)" using assms(2) by (simp add: take_queue_lock_def K)
  show "res_all P (add_time_event_mt fuel env tv hnd pr s)" "res_all P (remove_time_event_mt fuel env pr s)"
    using queue_client.do_add_keeps[OF assms(1)] queue_client.do_remove_keeps[OF assms(1)]
    by (auto simp: add_time_event_mt_def remove_time_event_mt_def drop_queue_lock_def K
        intro!: res_all_bind[OF lock] res_all_bind[where P = P])
  show "res_all P (remove_time_event_when_pending_mt fuel env pr s)"
    using queue_client.do_remove_keeps[OF assms] by (simp add: remove_time_event_when_pending_mt_def)
  show "res_all P (pend_time_event_queue_mt s)"
    by (auto simp: pend_time_event_queue_mt_def K intro!: res_all_bind[OF lock])
  show "res_all P (resume_time_event_queue_mt fuel env s)"
    unfolding resume_time_event_queue_mt_def
    by (rule res_all_bind[OF queue_client.do_resume_keeps[OF assms]]) (simp add: drop_queue_lock_def K)
  show "res_all P (trigger_time_event_mt fuel env s)"
    using assms(2)
    by (auto simp: trigger_time_event_mt_def drop_queue_lock_def K Let_def split: prod.split
        intro!: res_all_bind[where P = P] queue_client.trigger_pended_keeps[OF assms(1)]
        dest!: queue_client.queue_parts_D(2)[OF assms(1)])
qed

end
