(* ===== verification/Monitor_Invariant.thy ===== *)
theory Monitor_Invariant
  imports Queue_Client
begin

text \<open>
  An invariant of the chunk monitor of the parallel version and the proof that every entry into the
  library keeps it: page faults, timer signals, the calls of the allocator and the wrappers of the C
  library. The handlers run inside the queue and call the queue again; the interface \<open>queue_client\<close>
  carries the invariant through these nested calls.
\<close>

section \<open>The invariant\<close>

definition page_aligned :: "uint64 \<Rightarrow> bool" where
  "page_aligned a \<longleftrightarrow> a AND PAGE_MASK = a"

definition chunk_ok :: "memory_chunk \<Rightarrow> bool" where
  "chunk_ok k \<longleftrightarrow>
     ck_total_ref k = ck_victim_ref k + ck_pollutor_ref k \<and>
     ck_i_total_ref k = ck_i_victim_ref k + ck_i_pollutor_ref k \<and>
     ck_state k \<in> {CHUNK_NO_MONIT, CHUNK_UNDER_MONIT, CHUNK_MONIT_FINISH} \<and>
     ck_sample_state k \<in> {START_SAMPLE, FIRST_ROUND, SECOND_ROUND, LAST_ROUND}"

definition sample_ok :: "page_sample \<Rightarrow> bool" where
  "sample_ok p \<longleftrightarrow>
     ps_total_ref p = ps_victim_ref p + ps_pollutor_ref p \<and> page_aligned (ps_addr p) \<and>
     ps_state p \<in> {SAMPLE_UNINIT, WAIT_FIRST_ACCESS, WAIT_SUCCESSIVE_ACCESS, BURST_ACCESS_SKIP}"

definition mon_ok :: "('m, 'x) cm_state_scheme \<Rightarrow> bool" where
  "mon_ok s \<longleftrightarrow>
     (\<forall>k. chunk_ok (ck_cell s k)) \<and> (\<forall>p. sample_ok (ps_cell s p)) \<and>
     DEFAULT_BURST_LEN \<le> burst_skip_len s \<and> (\<forall>a \<in> page_prot s. page_aligned a)"

text \<open>
  What the monitor never changes: the depth and the context of the thread in the allocator, where a
  block begins and whether it has a head, and the state of the components that call the monitor.
  \<open>mon_at F\<close> is the invariant at a fixed frame \<open>F\<close>.
\<close>

definition tc_frame :: "('m, 'x) cm_state_scheme \<Rightarrow>
    int \<times> ctx_ref option \<times> (uint64 \<Rightarrow> uint32) \<times> (uint64 \<Rightarrow> uint32) \<times> 'x" where
  "tc_frame s = (in_cache_manage s, cache_manager_private s, \<lambda>a. ch_offset (chk_cell s a),
     \<lambda>a. get_chunk_head_mark (chk_cell s a), cm_state.more s)"

definition mon_at where
  "mon_at F s \<longleftrightarrow> mon_ok s \<and> tc_frame s = F"

lemmas mon_at_defs = mon_at_def mon_ok_def tc_frame_def

text \<open>The fields that \<open>mon_at\<close> reads.\<close>

definition mon_view where
  "mon_view s = (ck_cell s, ps_cell s, burst_skip_len s, page_prot s, tc_frame s)"

lemma mon_ok_view: "mon_view s = mon_view t \<Longrightarrow> mon_at F s = mon_at F t"
  by (simp add: mon_at_def mon_ok_def mon_view_def)

lemma mon_view_more:
  fixes s t :: "('m, 'x) cm_state_scheme"
  assumes "eq_state.more s = eq_state.more t"
  shows "mon_view s = mon_view t"
  using assms by (cases s; cases t; simp add: mon_view_def tc_frame_def)

lemma mon_ok_more:
  fixes s t :: "('m, 'x) cm_state_scheme"
  shows "eq_state.more s = eq_state.more t \<Longrightarrow> mon_at F s = mon_at F t"
  by (rule mon_ok_view[OF mon_view_more])

text \<open>A result whose state has the same view.\<close>

abbreviation same_view :: "('m, 'x) cm_state_scheme \<Rightarrow> ('m, 'x) cm_state_scheme \<Rightarrow> bool" where
  "same_view s t \<equiv> mon_view t = mon_view s"

lemma page_aligned_mask [simp]: "page_aligned (a AND PAGE_MASK)"
  by (simp add: page_aligned_def and.assoc)

section \<open>Changes of single cells\<close>

lemma upd_ck_ok:
  fixes s :: "('m, 'x) cm_state_scheme"
  shows "mon_at F s \<Longrightarrow> (chunk_ok (ck_cell s k) \<Longrightarrow> chunk_ok (f (ck_cell s k))) \<Longrightarrow> mon_at F (upd_ck k f s)"
  by (simp add: mon_at_defs upd_ck_def)

lemma upd_ps_ok:
  fixes s :: "('m, 'x) cm_state_scheme"
  shows "mon_at F s \<Longrightarrow> (sample_ok (ps_cell s p) \<Longrightarrow> sample_ok (f (ps_cell s p))) \<Longrightarrow> mon_at F (upd_ps p f s)"
  by (simp add: mon_at_defs upd_ps_def)

lemma upd_sel [simp]:
  "ps_cell (upd_ck k f s) = ps_cell s" "ck_cell (upd_ps p g t) = ck_cell t"
  "ck_cell (upd_ck k f s) k = f (ck_cell s k)" "ps_cell (upd_ps p g t) p = g (ps_cell t p)"
  by (simp_all add: upd_ck_def upd_ps_def)

lemma protect_ok:
  "mon_at F s \<Longrightarrow> mon_at F (enable_page_sample p s)" "mon_at F s \<Longrightarrow> mon_at F (disable_page_sample p s)"
  by (simp_all add: mon_at_defs enable_page_sample_def disable_page_sample_def sample_ok_def)

lemma unlink_ok: "mon_at F s \<Longrightarrow> mon_at F (unlink_sample p s)"
  by (simp add: mon_at_defs unlink_sample_def chunk_ok_def)

lemma fresh_sample_ok [simp]: "sample_ok (fresh_sample a k x)"
  by (simp add: sample_ok_def fresh_sample_def)

lemma sample_ok_fields [simp]:
  "sample_ok (x\<lparr>ps_wait_timer := a\<rparr>) = sample_ok x" "sample_ok (x\<lparr>ps_wait_page_fault := a\<rparr>) = sample_ok x"
  "sample_ok (x\<lparr>ps_lock := b\<rparr>) = sample_ok x" "sample_ok (x\<lparr>ps_chunk := c\<rparr>) = sample_ok x"
  "sample_ok (x\<lparr>ps_miss := m\<rparr>) = sample_ok x" "sample_ok (x\<lparr>ps_access := m\<rparr>) = sample_ok x"
  by (simp_all add: sample_ok_def)

lemma sample_ok_state [simp]:
  assumes "sample_ok x"
  shows "sample_ok (x\<lparr>ps_state := SAMPLE_UNINIT\<rparr>)" "sample_ok (x\<lparr>ps_state := WAIT_FIRST_ACCESS\<rparr>)"
    "sample_ok (x\<lparr>ps_state := WAIT_SUCCESSIVE_ACCESS\<rparr>)" "sample_ok (x\<lparr>ps_state := BURST_ACCESS_SKIP\<rparr>)"
  using assms by (simp_all add: sample_ok_def)

lemma chunk_ok_fields [simp]:
  "chunk_ok (x\<lparr>ck_lock := b\<rparr>) = chunk_ok x" "chunk_ok (x\<lparr>ck_mapping_type := t\<rparr>) = chunk_ok x"
  "chunk_ok (x\<lparr>ck_sample := l\<rparr>) = chunk_ok x" "chunk_ok (x\<lparr>ck_nr_sample := n\<rparr>) = chunk_ok x"
  "chunk_ok (x\<lparr>ck_base_sample_cycle := n\<rparr>) = chunk_ok x" "chunk_ok (x\<lparr>ck_sample_cycle := n\<rparr>) = chunk_ok x"
  "chunk_ok (x\<lparr>ck_mr := r\<rparr>) = chunk_ok x" "chunk_ok (x\<lparr>ck_context := c\<rparr>) = chunk_ok x"
  "chunk_ok (x\<lparr>ck_addr := u\<rparr>) = chunk_ok x" "chunk_ok (x\<lparr>ck_size := u\<rparr>) = chunk_ok x"
  "chunk_ok (x\<lparr>ck_idx := u\<rparr>) = chunk_ok x"
  by (simp_all add: chunk_ok_def)

lemma chunk_ok_states:
  "chunk_ok x \<Longrightarrow> st \<in> {CHUNK_NO_MONIT, CHUNK_UNDER_MONIT, CHUNK_MONIT_FINISH} \<Longrightarrow> chunk_ok (x\<lparr>ck_state := st\<rparr>)"
  "chunk_ok x \<Longrightarrow> rn \<in> {START_SAMPLE, FIRST_ROUND, SECOND_ROUND, LAST_ROUND} \<Longrightarrow> chunk_ok (x\<lparr>ck_sample_state := rn\<rparr>)"
  by (simp_all add: chunk_ok_def)

lemma finish_cycle_ok: "chunk_ok k \<Longrightarrow> chunk_ok (snd (finish_cycle k))"
  by (auto simp: chunk_ok_def finish_cycle_def Let_def)

lemma next_round_ok: "chunk_ok k \<Longrightarrow> chunk_ok (next_round k)"
  by (simp add: next_round_def chunk_ok_states)

lemma lock_chunk_ok: "mon_at F (s :: ('m, 'x) cm_state_scheme) \<Longrightarrow> res_all (mon_at F) (lock_chunk k s)"
  by (simp add: lock_chunk_def upd_ck_ok)

lemma unlock_chunk_ok: "mon_at F (s :: ('m, 'x) cm_state_scheme) \<Longrightarrow> mon_at F (unlock_chunk k s)"
  by (simp add: unlock_chunk_def upd_ck_ok)

section \<open>Operations that leave the view alone\<close>

lemma view_upd_ctx [simp]: "mon_view (upd_ctx c f (s :: ('m, 'x) cm_state_scheme)) = mon_view s"
  by (simp add: upd_ctx_def mon_view_def tc_frame_def)

lemma frame_heads:
  "ch_offset (chk_cell (switch_heap_type p z m s) a) = ch_offset (chk_cell s a)"
  "get_chunk_head_mark (chk_cell (switch_heap_type p z m s) a) = get_chunk_head_mark (chk_cell s a)"
  "ch_offset (chk_cell (set_extend_info p e s) a) = ch_offset (chk_cell s a)"
  "get_chunk_head_mark (chk_cell (set_extend_info p e s) a) = get_chunk_head_mark (chk_cell s a)"
  by (simp_all add: switch_heap_type_def set_extend_info_def upd_head_def Let_def)
    (simp add: get_chunk_head_mark_def)

lemma view_fields [simp]:
  fixes s :: "('m, 'x) cm_state_scheme"
  shows "mon_view (s\<lparr>s2t_map := a\<rparr>) = mon_view s" "mon_view (switch_heap_type p z m s) = mon_view s"
    "mon_view (s\<lparr>rand_cnt := n\<rparr>) = mon_view s" "mon_view (set_extend_info p e s) = mon_view s"
    "mon_view (s\<lparr>hot_page_block := h\<rparr>) = mon_view s" "mon_view (s\<lparr>page_block_map := pm\<rparr>) = mon_view s"
    "mon_view (s\<lparr>pb_cell := pb\<rparr>) = mon_view s" "mon_view (s\<lparr>free_page_sample := fs\<rparr>) = mon_view s"
    "mon_view (s\<lparr>page_block_list := bl\<rparr>) = mon_view s" "mon_view (s\<lparr>fp_init := t\<rparr>) = mon_view s"
    "mon_view (s\<lparr>malloc_cnt := n\<rparr>) = mon_view s" "mon_view (s\<lparr>clock_cnt := n\<rparr>) = mon_view s"
    "mon_view (s\<lparr>fk_init := t\<rparr>) = mon_view s" "mon_view (s\<lparr>free_chunk := fs\<rparr>) = mon_view s"
    "mon_view (s\<lparr>fc_init := t\<rparr>) = mon_view s" "mon_view (s\<lparr>free_context := fs\<rparr>) = mon_view s"
    "mon_view (s\<lparr>lp_chunk_idx := u\<rparr>) = mon_view s" "mon_view (s\<lparr>lp_context_idx := u\<rparr>) = mon_view s"
    "mon_view (s\<lparr>context_hash_map := pm\<rparr>) = mon_view s" "mon_view (s\<lparr>backtrace_cnt := n\<rparr>) = mon_view s"
    "mon_view (s\<lparr>random_cnt := n\<rparr>) = mon_view s" "mon_view (s\<lparr>map_only_ctx := ac\<rparr>) = mon_view s"
    "mon_view (s\<lparr>ctx_snapshot := ac\<rparr>) = mon_view s"
  by (simp_all add: mon_view_def tc_frame_def frame_heads)
    (simp_all add: switch_heap_type_def set_extend_info_def upd_head_def Let_def)

lemma view_llc_read [simp]: "mon_view (snd (llc_event_cntr_read s)) = mon_view s"
  by (simp add: llc_event_cntr_read_def mon_view_def tc_frame_def Let_def split: prod.split)

lemma view_s2t: "res_all (same_view s) (update_s2t_map_mt sz mp (s :: 'x cstate))"
  by (auto simp: update_s2t_map_mt_def lock_entry_def unlock_entry_def res_all_def rbind_eq_Inr split: if_splits)

lemma view_update_context: "res_all (\<lambda>(_, t). same_view s t) (update_context_mapping_type_mt k (s :: 'x cstate))"
proof -
  have "res_all (same_view s) (lock_ctx c s)" for c by (simp add: lock_ctx_def)
  then show ?thesis
    unfolding update_context_mapping_type_mt_def Let_def
    by (rule res_all_bind) (auto simp: unlock_ctx_def intro!: res_all_bind[where P = "same_view s"] res_all_if
        res_all_weaken[OF view_s2t])
qed

lemma view_page_block:
  fixes s :: "'x cstate"
  shows "res_all (\<lambda>(_, t). same_view s t) (get_page_block_mt k s)"
    and "res_all (\<lambda>(_, t). same_view s t) (init_page_block_mt a s)"
proof -
  show "res_all (\<lambda>(_, t). same_view s t) (get_page_block_mt k s)"
    by (auto simp: get_page_block_mt_def res_all_def rbind_eq_Inr)
  have m: "mon_view t = mon_view u" if "hm_mt_state.more t = hm_mt_state.more u" for t u :: "'x cstate"
    using mon_view_more[OF eq_more[OF that]] .
  show "res_all (\<lambda>(_, t). same_view s t) (init_page_block_mt a s)"
    by (auto simp: init_page_block_mt_def new_block_def internal_malloc_def Let_def
        intro!: res_all_bind[OF add_member_mt_more] dest!: m)
qed

lemma view_sample_cells:
  fixes s :: "'x cstate"
  shows "res_all (same_view s) (wr_sample b i p s)" "res_all (same_view s) (page_sample_free_mt p s)"
    "mon_view (snd (page_sample_alloc_mt s)) = mon_view s"
  by (auto simp: wr_sample_def page_sample_free_mt_def page_sample_alloc_mt_def internal_malloc_def Let_def
      res_all_def rbind_eq_Inr split: list.split)

lemma view_attach:
  fixes s :: "'x cstate"
  shows "res_all (\<lambda>(_, t). same_view s t) (attach_page_sample_mt a s)"
proof -
  have alloc: "page_sample_alloc_mt t = (p, u) \<Longrightarrow> mon_view u = mon_view t" for p and t u :: "'x cstate"
    using view_sample_cells(3)[of t] by simp
  have block: "res_all (\<lambda>(_, t). same_view s t) (if b = NULL then init_page_block_mt a t else Inr (b, t))"
    if "same_view s t" for b and t :: "'x cstate"
    using view_page_block(2)[of t] that by auto
  have "res_all (\<lambda>(_, t). same_view s t) (rbind (rd_sample b i t) (\<lambda>p.
       rbind (if p \<noteq> NULL then page_sample_free_mt p t else Inr t) (\<lambda>t.
         let (p, t) = page_sample_alloc_mt t in rbind (wr_sample b i p t) (\<lambda>t. Inr (p, t)))))"
    if "same_view s t" for b i and t :: "'x cstate"
  proof -
    have w: "res_all (\<lambda>(_, t). same_view s t) (let (p, t) = page_sample_alloc_mt t in rbind (wr_sample b i p t) (\<lambda>t. Inr (p, t)))"
      if "same_view s t" for t :: "'x cstate"
      using that by (auto simp: Let_def split: prod.split dest!: alloc intro!: res_all_bind[OF view_sample_cells(1)])
    have "res_all (same_view s) (if p \<noteq> NULL then page_sample_free_mt p t else Inr t)" for p
      using view_sample_cells(2)[of t p] that by simp
    then show ?thesis by (rule res_all_bind_any[OF res_all_bind[OF _ w]])
  qed
  note rest = this
  show ?thesis
    unfolding attach_page_sample_mt_def
  proof (rule res_all_bind_pair[OF view_page_block(1)], unfold prod.case)
    fix b and t :: "'x cstate"
    assume "same_view s t"
    show "res_all (\<lambda>(_, t). same_view s t) (rbind (if b = NULL then init_page_block_mt a t else Inr (b, t)) (\<lambda>(b, s).
       rbind (rd_sample b (sample_idx a) s) (\<lambda>p. rbind (if p \<noteq> NULL then page_sample_free_mt p s else Inr s) (\<lambda>s.
         let (p, s) = page_sample_alloc_mt s in rbind (wr_sample b (sample_idx a) p s) (\<lambda>s. Inr (p, s))))))"
      by (rule res_all_bind_pair[OF block[OF \<open>same_view s t\<close>]], unfold prod.case) (rule rest)
  qed
qed

text \<open>Looking a sample up and detaching it.\<close>

lemma view_get: "res_all (\<lambda>(_, t). same_view s t) (get_page_sample_mt a (s :: 'x cstate))"
  unfolding get_page_sample_mt_def
  by (rule res_all_bind_pair[OF view_page_block(1)]) (auto intro!: res_all_bind_any)

lemma view_detach: "res_all (same_view s) (detach_page_sample_mt p (s :: 'x cstate))"
  unfolding detach_page_sample_mt_def Let_def
proof (rule res_all_bind_pair[OF view_page_block(1)], unfold prod.case)
  fix b a and t :: "'x cstate"
  assume t: "same_view s t"
  have "res_all (same_view s) (if q \<noteq> NULL then page_sample_free_mt q t else Inr t)" for q
    using view_sample_cells(2)[of t q] t by simp
  then have "res_all (same_view s) (rbind (if q \<noteq> NULL then page_sample_free_mt q t else Inr t) (\<lambda>s. wr_sample b i NULL s))" for q i
    by (rule res_all_bind) (rule res_all_weaken[OF view_sample_cells(1)], simp)
  then show "res_all (same_view s) (if b = NULL then Inr t
      else rbind (rd_sample b (sample_idx (ps_addr (ps_cell s p))) t) (\<lambda>q.
             rbind (if q \<noteq> NULL then page_sample_free_mt q t else Inr t) (\<lambda>t.
               wr_sample b (sample_idx (ps_addr (ps_cell s p))) NULL t)))"
    using t by (auto intro: res_all_bind_any)
qed

section \<open>Completion of a sample\<close>

lemma ok_weaken: "mon_at F s \<Longrightarrow> res_all (same_view s) r \<Longrightarrow> res_all (mon_at F) r"
  by (auto simp: res_all_def dest: mon_ok_view)

lemma ok_weaken_pair: "mon_at F s \<Longrightarrow> res_all (\<lambda>(_, t). same_view s t) r \<Longrightarrow> res_all (\<lambda>(_, t). mon_at F t) r"
  by (auto simp: res_all_def dest: mon_ok_view)

lemma adjust_mapping_ok: "mon_at F s \<Longrightarrow> mon_at F (adjust_mapping t k s)"
  using mon_ok_view[of "switch_heap_type p z m s" s F for p z m]
  by (auto simp: adjust_mapping_def Let_def intro!: upd_ck_ok)

lemma page_sample_complete_ok:
  assumes q: "queue_client env (mon_at F)" and s: "mon_at F s"
  shows "res_all (\<lambda>(_, t). mon_at F t) (page_sample_complete_mt fuel env p s)"
proof -
  let ?k = "ps_chunk (ps_cell s p)"
  define tail where "tail = (\<lambda>ret (target_mapping :: int, t).
      rbind (if target_mapping = RESTRICT_MAPPING
             then add_time_event_mt fuel env (usec2tv SAMPLE_INTERVAL) ReviveSampleHandler ?k
                    (if ck_sample_state (ck_cell t ?k) = SECOND_ROUND then adjust_mapping target_mapping ?k t else t)
             else Inr (if ck_sample_state (ck_cell t ?k) = SECOND_ROUND then adjust_mapping target_mapping ?k t else t)) (\<lambda>t.
        Inr (ret :: int, unlock_chunk ?k t)))"
  have tail: "res_all (\<lambda>(_, t). mon_at F t) (tail ret (m, t))" if "mon_at F t" for ret m t
  proof -
    have a: "mon_at F (if ck_sample_state (ck_cell t ?k) = SECOND_ROUND then adjust_mapping m ?k t else t)"
      using that by (simp add: adjust_mapping_ok)
    have "res_all (mon_at F) (if m = RESTRICT_MAPPING then add_time_event_mt fuel env (usec2tv SAMPLE_INTERVAL) ReviveSampleHandler ?k u else Inr u)"
      if "mon_at F u" for u
      using parallel_queue_keeps(1)[OF q that] that by simp
    from this[OF a] show ?thesis unfolding tail_def prod.case by (rule res_all_bind) (simp add: unlock_chunk_ok)
  qed
  have finish: "res_all (\<lambda>(_, t). mon_at F t)
      (let (ret, k) = finish_cycle (ck_cell t ?k); t = upd_ck ?k (\<lambda>_. k) t
       in if ck_state k \<noteq> CHUNK_MONIT_FINISH then Inr (ret, unlock_chunk ?k t)
          else rbind (update_context_mapping_type_mt ?k (upd_ck ?k next_round t)) (tail ret))" if t: "mon_at F t" for t
  proof -
    obtain ret k where fc: "finish_cycle (ck_cell t ?k) = (ret, k)" by fastforce
    have "chunk_ok k" using t finish_cycle_ok[of "ck_cell t ?k"] by (simp add: fc mon_at_defs)
    then have u: "mon_at F (upd_ck ?k (\<lambda>_. k) t)" using t by (simp add: upd_ck_ok)
    then have "mon_at F (upd_ck ?k next_round (upd_ck ?k (\<lambda>_. k) t))" by (rule upd_ck_ok) (rule next_round_ok)
    then have "res_all (\<lambda>(_, t). mon_at F t) (update_context_mapping_type_mt ?k (upd_ck ?k next_round (upd_ck ?k (\<lambda>_. k) t)))"
      using view_update_context by (rule ok_weaken_pair)
    then have "res_all (\<lambda>(_, t). mon_at F t) (rbind (update_context_mapping_type_mt ?k (upd_ck ?k next_round (upd_ck ?k (\<lambda>_. k) t))) (tail ret))"
      by (rule res_all_bind_pair) (rule tail)
    then show ?thesis using u by (simp add: fc unlock_chunk_ok Let_def)
  qed
  have "res_all (\<lambda>(_, t). mon_at F t) (rbind (lock_chunk ?k s) (\<lambda>t.
      let (ret, k) = finish_cycle (ck_cell t ?k); t = upd_ck ?k (\<lambda>_. k) t
       in if ck_state k \<noteq> CHUNK_MONIT_FINISH then Inr (ret, unlock_chunk ?k t)
          else rbind (update_context_mapping_type_mt ?k (upd_ck ?k next_round t)) (tail ret)))"
    using lock_chunk_ok[OF s] finish by (rule res_all_bind)
  then show ?thesis using s unfolding page_sample_complete_mt_def tail_def Let_def by simp
qed

section \<open>The handlers of time events\<close>

lemma burst_skip_handler_ok:
  assumes q: "queue_client env (mon_at F)" and s: "mon_at F s"
  shows "res_all (mon_at F) (burst_skip_handler_mt fuel env p tv s)"
proof -
  have "mon_at F (upd_ps p (\<lambda>x. x\<lparr>ps_wait_timer := 0\<rparr>) s)" using s by (rule upd_ps_ok) simp
  note c = page_sample_complete_ok[OF q this]
  show ?thesis
    unfolding burst_skip_handler_mt_def Let_def
    by (rule res_all_bind_pair[OF c])
      (auto intro!: res_all_if upd_ps_ok protect_ok)
qed

lemma revive_samples_ok: "mon_at F s \<Longrightarrow> mon_at F (revive_samples_mt ps k s)"
proof (induction ps arbitrary: s)
  case (Cons p ps)
  have "mon_at F (upd_ps p (\<lambda>x. x\<lparr>ps_wait_page_fault := 1\<rparr>) (enable_page_sample p (init_page_sample_mt p k a s)))" for a
    using Cons.prems by (auto simp: init_page_sample_mt_def intro!: upd_ps_ok protect_ok)
  then show ?case using Cons by (simp add: Let_def)
qed simp

lemma revive_sample_handler_ok: "mon_at F s \<Longrightarrow> res_all (mon_at F) (revive_sample_handler_mt k tv s)"
  by (auto simp: revive_sample_handler_mt_def Let_def chunk_ok_def intro!: upd_ck_ok revive_samples_ok)

lemma env_mt_client: "queue_client (env_mt n) (mon_at F)"
proof (induction n)
  case 0
  show ?case by (rule mt_client[OF mon_ok_more]) simp_all
next
  case (Suc n)
  have "res_all (mon_at F) (run_handler_mt (Suc n) h p now s)" if "mon_at F s" for h p now and s :: "'a cstate"
    using that burst_skip_handler_ok[OF Suc] revive_sample_handler_ok by (cases h) simp_all
  then show ?case by (intro mt_client[OF mon_ok_more])
qed

interpretation mc: queue_client "env_mt n" "mon_at F" for n F
  by (rule env_mt_client)

lemmas queue_keeps_ok = parallel_queue_keeps[OF env_mt_client]

section \<open>Page faults\<close>

lemma burst_skip_update_ok: "mon_at F s \<Longrightarrow> res_all (mon_at F) (burst_skip_update s)"
  by (auto simp: burst_skip_update_def gettimeofday_def Let_def mon_at_defs)

lemma update_chunk_sample_ok:
  assumes s: "mon_at F s"
  shows "res_all (\<lambda>(_, t). mon_at F t) (update_chunk_sample_mt p s)"
proof -
  let ?k = "ps_chunk (ps_cell s p)"
  have cnt: "mon_at F (upd_ck ?k (\<lambda>x. x\<lparr>ck_i_total_ref := ck_i_total_ref x + 1\<rparr>)
      (upd_ps p (\<lambda>x. x\<lparr>ps_total_ref := ps_total_ref x + 1\<rparr>)
        (if b then upd_ck ?k (\<lambda>x. x\<lparr>ck_i_victim_ref := ck_i_victim_ref x + 1\<rparr>)
                     (upd_ps p (\<lambda>x. x\<lparr>ps_victim_ref := ps_victim_ref x + 1\<rparr>) t)
         else upd_ck ?k (\<lambda>x. x\<lparr>ck_i_pollutor_ref := ck_i_pollutor_ref x + 1\<rparr>)
                (upd_ps p (\<lambda>x. x\<lparr>ps_pollutor_ref := ps_pollutor_ref x + 1\<rparr>) t))))" if "mon_at F t" for b t
    using that by (auto simp: mon_at_defs upd_ck_def upd_ps_def chunk_ok_def sample_ok_def)
  show ?thesis
    unfolding update_chunk_sample_mt_def Let_def
    by (rule res_all_if, use s in simp, rule res_all_bind[OF lock_chunk_ok[OF s]], unfold res_all_Inr prod.case)
      (rule unlock_chunk_ok[OF cnt])
qed

lemma take_sample_ok: "mon_at F s \<Longrightarrow> res_all (\<lambda>(_, t). mon_at F t) (take_sample_mt p s)"
  unfolding take_sample_mt_def
  by (intro res_all_if res_all_bind_pair[OF update_chunk_sample_ok]) (auto intro!: upd_ps_ok res_all_if)

lemma collect_page_sample_ok:
  assumes q: "queue_client env (mon_at F)" and s: "mon_at F s"
  shows "res_all (mon_at F) (collect_page_sample_mt fuel env p s)"
proof -
  have tail: "res_all (mon_at F) (if ret = SAMPLE_COMPLETE \<or> ret = WAIT_NEXT_SAMPLE
      then Inr (upd_ps p (\<lambda>x. x\<lparr>ps_state := SAMPLE_UNINIT\<rparr>) t)
      else case tv of None \<Rightarrow> Inl Uninit
           | Some tv \<Rightarrow> rbind (add_time_event_mt fuel env tv BurstSkipHandler p t) (\<lambda>t.
               Inr (upd_ps p (\<lambda>x. x\<lparr>ps_wait_timer := 1\<rparr>) t)))" if "mon_at F t" for ret tv t
    using that by (auto intro!: res_all_if upd_ps_ok res_all_bind[OF parallel_queue_keeps(1)[OF q]] split: option.split)
  obtain r t where rd: "llc_event_cntr_read s = (r, t)" by fastforce
  then have t: "mon_at F t" using s mon_ok_view[OF view_llc_read[of s]] by simp
  show ?thesis
    unfolding collect_page_sample_mt_def Let_def rd prod.case
    by (rule res_all_bind[OF burst_skip_update_ok[OF t]], rule res_all_bind_pair[OF take_sample_ok], assumption, unfold prod.case,
        rule res_all_bind_pair[OF page_sample_complete_ok[OF q]], assumption, unfold prod.case) (rule tail)
qed

lemma page_fault_handler_ok:
  assumes s: "mon_at F s"
  shows "res_all (mon_at F) (page_fault_handler_mt fuel a s)"
proof -
  have release: "res_all (mon_at F) (rbind r (\<lambda>t. Inr (upd_ps p (\<lambda>x. x\<lparr>ps_lock := False\<rparr>) t)))" if "res_all (mon_at F) r" for r p
    using that by (rule res_all_bind) (auto intro: upd_ps_ok)
  have "res_all (mon_at F) (if b then Inr (upd_ps p (\<lambda>x. x\<lparr>ps_state := SAMPLE_UNINIT\<rparr>) (disable_page_sample p t))
      else collect_page_sample_mt fuel (env_mt fuel) p (disable_page_sample p t))" if "mon_at F t" for b p t
    using that by (auto intro!: res_all_if upd_ps_ok protect_ok collect_page_sample_ok[OF env_mt_client])
  note body = release[OF this]
  have locked: "mon_at F (upd_ps p (\<lambda>x. x\<lparr>ps_lock := True, ps_wait_page_fault := 0\<rparr>) t)" if "mon_at F t" for p t
    using that by (rule upd_ps_ok) simp
  have rest: "res_all (mon_at F) (if p = NULL then Inl NullDeref else if ps_lock (ps_cell t p) then Inr t
       else rbind (page_sample_complete_mt fuel (env_mt fuel) p (upd_ps p (\<lambda>x. x\<lparr>ps_lock := True, ps_wait_page_fault := 0\<rparr>) t)) (\<lambda>(ret, t).
         rbind (if ret \<noteq> 0 \<or> ck_state (ck_cell t (ps_chunk (ps_cell t p))) = CHUNK_MONIT_FINISH
                then Inr (upd_ps p (\<lambda>x. x\<lparr>ps_state := SAMPLE_UNINIT\<rparr>) (disable_page_sample p t))
                else collect_page_sample_mt fuel (env_mt fuel) p (disable_page_sample p t)) (\<lambda>t.
           Inr (upd_ps p (\<lambda>x. x\<lparr>ps_lock := False\<rparr>) t))))" if "mon_at F t" for p t
    by (rule res_all_if, simp, rule res_all_if, use that in simp,
        rule res_all_bind_pair[OF page_sample_complete_ok[OF env_mt_client locked[OF that]]], unfold prod.case)
      (rule body)
  show ?thesis
    unfolding page_fault_handler_mt_def Let_def
    by (rule res_all_bind_pair[OF ok_weaken_pair[OF s view_get]], unfold prod.case) (rule rest)
qed

section \<open>Placing and removing samples\<close>

lemma remove_page_sample_ok:
  assumes q: "queue_client env (mon_at F)" and s: "mon_at F s"
  shows "res_all (mon_at F) (remove_page_sample_mt fuel env p s)"
proof -
  have "res_all (mon_at F) (if ps_wait_timer (ps_cell s p) \<noteq> 0
      then rbind (remove_time_event_when_pending_mt fuel env p s) (\<lambda>s. Inr (upd_ps p (\<lambda>x. x\<lparr>ps_wait_timer := 0\<rparr>) s))
      else Inr s)"
    using s by (auto intro!: res_all_if res_all_bind[OF parallel_queue_keeps(3)[OF q s]] upd_ps_ok)
  moreover have "res_all (mon_at F) (rbind (detach_page_sample_mt p (unlink_sample p
        (upd_ps p (\<lambda>x. x\<lparr>ps_wait_page_fault := 0\<rparr>) (disable_page_sample p t)))) (\<lambda>s.
      Inr (upd_ps p (\<lambda>x. x\<lparr>ps_chunk := NULL, ps_state := SAMPLE_UNINIT\<rparr>) s)))" if "mon_at F t" for t
  proof -
    have "mon_at F (unlink_sample p (upd_ps p (\<lambda>x. x\<lparr>ps_wait_page_fault := 0\<rparr>) (disable_page_sample p t)))"
      using that by (auto intro!: unlink_ok upd_ps_ok protect_ok)
    from ok_weaken[OF this view_detach] show ?thesis by (rule res_all_bind) (auto intro: upd_ps_ok)
  qed
  ultimately show ?thesis unfolding remove_page_sample_mt_def Let_def by (rule res_all_bind)
qed

lemma remove_samples_loop_ok:
  assumes q: "queue_client env (mon_at F)"
  shows "mon_at F s \<Longrightarrow> res_all (mon_at F) (remove_samples_loop n fuel env k s)"
proof (induction n arbitrary: s)
  case (Suc n)
  then show ?case by (auto split: list.split intro!: res_all_bind[OF remove_page_sample_ok[OF q]])
qed simp

lemma remove_chunk_samples_ok:
  assumes "queue_client env (mon_at F)" and "mon_at F s"
  shows "res_all (mon_at F) (remove_chunk_samples_mt fuel env k s)"
  unfolding remove_chunk_samples_mt_def
  by (rule res_all_bind[OF remove_samples_loop_ok[OF assms]]) (auto intro: upd_ck_ok)

lemma view_sample_addr: "res_all (\<lambda>(_, t). same_view s t) (get_sample_addr a b c i n (s :: 'x cstate))"
  by (auto simp: get_sample_addr_def c_rand_def Let_def intro!: res_all_bind_any)

lemma place_samples_ok: "mon_at F s \<Longrightarrow> res_all (mon_at F) (place_samples_mt m a b c i n k s)"
proof (induction m arbitrary: i s)
  case (Suc m)
  let ?put = "\<lambda>p addr t. upd_ps p (\<lambda>x. x\<lparr>ps_wait_page_fault := 1\<rparr>) (enable_page_sample p
    (upd_ck k (\<lambda>x. x\<lparr>ck_sample := p # ck_sample x\<rparr>) (init_page_sample_mt p k addr t)))"
  have "mon_at F (?put p addr t)" if "mon_at F t" for p addr t
    using that by (auto simp: init_page_sample_mt_def intro!: upd_ps_ok upd_ck_ok protect_ok)
  note put = Suc.IH[OF this]
  show ?case
    unfolding place_samples_mt.simps Let_def
    by (rule res_all_bind_pair[OF ok_weaken_pair[OF Suc.prems view_sample_addr]], unfold prod.case,
        rule res_all_bind_pair[OF ok_weaken_pair[OF _ view_attach]], assumption, unfold prod.case) (rule put)
qed simp

lemma monit_chunk_ok:
  assumes s: "mon_at F s"
  shows "res_all (\<lambda>(_, t). mon_at F t) (monit_chunk_mt fuel k s)"
proof -
  have start: "mon_at F (upd_ck k (\<lambda>x. x\<lparr>ck_nr_sample := n, ck_sample_state := START_SAMPLE, ck_base_sample_cycle := c,
      ck_sample := []\<rparr>) t)" if "mon_at F t" for n c t
    using that by (rule upd_ck_ok) (simp add: chunk_ok_def)
  have fin: "mon_at F (upd_ck k (\<lambda>x. x\<lparr>ck_state := CHUNK_UNDER_MONIT\<rparr>) t)" if "mon_at F t" for t
    using that by (rule upd_ck_ok) (simp add: chunk_ok_states)
  have tail: "res_all (\<lambda>(_, t). mon_at F t) (rbind (place_samples_mt m a b c 0 nr k (upd_ck k (\<lambda>x. x\<lparr>ck_nr_sample := nr,
      ck_sample_state := START_SAMPLE, ck_base_sample_cycle := cy, ck_sample := []\<rparr>) t)) (\<lambda>s.
      rbind (resume_time_event_queue_mt fuel (env_mt fuel) (upd_ck k (\<lambda>x. x\<lparr>ck_state := CHUNK_UNDER_MONIT\<rparr>) s)) (\<lambda>s. Inr (0, s))))"
    if "mon_at F t" for m a b c nr cy t
    by (rule res_all_bind[OF place_samples_ok[OF start[OF that]]], rule res_all_bind[OF queue_keeps_ok(6)[OF fin]]) simp_all
  show ?thesis
    unfolding monit_chunk_mt_def Let_def
    by (rule res_all_if, use s in simp, rule res_all_bind[OF queue_keeps_ok(5)[OF s]]) (rule tail)
qed

lemma last_sample_loop_ok: "mon_at F s \<Longrightarrow> mon_at F (last_sample_loop ps k s)"
proof (induction ps arbitrary: s)
  case (Cons p ps)
  have "mon_at F (upd_ck k (\<lambda>x. x\<lparr>ck_pollutor_ref := ck_pollutor_ref x + 1, ck_total_ref := ck_total_ref x + 1\<rparr>)
      (upd_ps p (\<lambda>x. x\<lparr>ps_pollutor_ref := ps_pollutor_ref x + 1, ps_total_ref := ps_total_ref x + 1\<rparr>) s))"
    using Cons.prems by (auto simp: chunk_ok_def sample_ok_def intro!: upd_ck_ok upd_ps_ok)
  then show ?case using Cons by (simp add: Let_def)
qed simp

lemma last_chunk_sample_update_ok: "mon_at F s \<Longrightarrow> mon_at F (last_chunk_sample_update k s)"
  by (auto simp: last_chunk_sample_update_def Let_def chunk_ok_def intro!: last_sample_loop_ok upd_ck_ok)

lemma stop_monit_chunk_ok:
  assumes s: "mon_at F s"
  shows "res_all (\<lambda>(_, t). mon_at F t) (stop_monit_chunk_mt fuel k (s :: 'x cstate))"
proof -
  have last: "res_all (mon_at F) (if ck_state (ck_cell t k) \<noteq> CHUNK_MONIT_FINISH
      then let (_, s) = llc_event_cntr_read t;
               s = last_chunk_sample_update k s;
               s = upd_ck k (\<lambda>x. x\<lparr>ck_sample_state := LAST_ROUND\<rparr>) s
           in rbind (update_context_mapping_type_mt k s) (\<lambda>(_, s). Inr s)
      else Inr t)" if t: "mon_at F t" for t :: "'x cstate"
  proof -
    obtain r u where rd: "llc_event_cntr_read t = (r, u)" by fastforce
    then have "mon_at F u" using t mon_ok_view[OF view_llc_read[of t]] by simp
    then have "mon_at F (upd_ck k (\<lambda>x. x\<lparr>ck_sample_state := LAST_ROUND\<rparr>) (last_chunk_sample_update k u))"
      by (auto intro!: upd_ck_ok last_chunk_sample_update_ok simp: chunk_ok_states)
    note ctx = ok_weaken_pair[OF this view_update_context]
    show ?thesis
      unfolding Let_def rd prod.case
      by (rule res_all_if, rule res_all_bind_pair[OF ctx]) (use t in simp_all)
  qed
  have fin: "mon_at F (upd_ck k (\<lambda>x. x\<lparr>ck_state := CHUNK_MONIT_FINISH\<rparr>) t)" if "mon_at F t" for t
    using that by (rule upd_ck_ok) (simp add: chunk_ok_states)
  show ?thesis
    unfolding stop_monit_chunk_mt_def Let_def
    by (rule res_all_bind[OF queue_keeps_ok(5)[OF s]], rule res_all_bind[OF last[unfolded Let_def]], assumption,
        rule res_all_bind[OF queue_keeps_ok(3)], assumption,
        rule res_all_bind[OF remove_chunk_samples_ok[OF env_mt_client fin]], assumption,
        rule res_all_bind[OF queue_keeps_ok(6)]) simp_all
qed

lemma remove_samples_at_ok: "mon_at F s \<Longrightarrow> res_all (mon_at F) (remove_samples_at as fuel s)"
proof (induction as arbitrary: s)
  case (Cons a as)
  have r: "res_all (mon_at F) (if p \<noteq> NULL then remove_page_sample_mt fuel (env_mt fuel) p t else Inr t)" if "mon_at F t" for p t
    using that remove_page_sample_ok[OF env_mt_client that] by simp
  show ?case
    unfolding remove_samples_at.simps
    by (rule res_all_bind_pair[OF ok_weaken_pair[OF Cons.prems view_get]], unfold prod.case,
        rule res_all_bind[OF r], assumption) (rule Cons.IH)
qed simp

lemma remove_sample_range_ok:
  assumes "mon_at F s"
  shows "res_all (mon_at F) (remove_sample_range_mt fuel a n s)"
  unfolding remove_sample_range_mt_def
  by (rule res_all_bind[OF queue_keeps_ok(5)[OF assms]], rule res_all_bind_any,
      rule res_all_bind[OF remove_samples_at_ok], assumption) (rule queue_keeps_ok(6))

section \<open>Calls of the allocator\<close>

lemma find_or_new_context_view:
  "res_all (\<lambda>(_, t). same_view s t) (find_or_new_context_mt (s :: 'x cstate))"
proof -
  have m: "mon_view t = mon_view u" if "hm_mt_state.more t = hm_mt_state.more u" for t u :: "'x cstate"
    using mon_view_more[OF eq_more[OF that]] .
  have alloc: "same_view t u" if "context_alloc_mt t = (c, u)" for c and t u :: "'x cstate"
    using that by (auto simp: context_alloc_mt_def ensure_free_context_def internal_malloc_def Let_def split: if_splits list.splits)
  have init: "res_all (same_view t) (init_context_mt key c t)" for key c and t :: "'x cstate"
    by (auto simp: init_context_mt_def Let_def intro!: res_all_bind[OF add_member_mt_more] dest!: m)
  have new: "res_all (\<lambda>(_, u). same_view s u) (let (c, u) = context_alloc_mt t in rbind (init_context_mt key c u) (\<lambda>u. Inr (c, u)))"
    if "same_view s t" for key and t :: "'x cstate"
    using that by (auto simp: Let_def split: prod.split intro!: res_all_bind[OF init] dest!: alloc)
  show ?thesis
    unfolding find_or_new_context_mt_def get_context_key_def Let_def prod.case
    by (auto intro!: res_all_bind_any res_all_if new[unfolded Let_def])
qed

lemma get_alloc_context_ok:
  assumes s: "mon_at F s"
  shows "res_all (\<lambda>(_, t). mon_at F t) (NightWatch_get_alloc_context_mt sz (s :: 'x cstate))"
proof -
  have snap: "res_all (\<lambda>(_, t). same_view s t) (snapshot_context_mt c t)" if "same_view s t" for c and t :: "'x cstate"
    using that by (auto simp: snapshot_context_mt_def lock_ctx_def unlock_ctx_def copy_context_mt_def)
  have find: "res_all (\<lambda>(_, t). same_view s t) (find_or_new_context_mt t)" if "same_view s t" for t :: "'x cstate"
    using res_all_weaken[OF find_or_new_context_view[of t], of "\<lambda>(_, t). same_view s t"] that by auto
  have lock: "res_all (\<lambda>(_, t). same_view s t) (lock_entry sz t)" if "same_view s t" for t :: "'x cstate"
    using that by (auto simp: lock_entry_def res_all_def rbind_eq_Inr split: if_splits)
  have unlock: "res_all (same_view s) (unlock_entry sz e t)" if "same_view s t" for e and t :: "'x cstate"
    using that by (auto simp: unlock_entry_def intro!: res_all_bind_any)
  have skip: "res_all (\<lambda>(_, t). same_view s t) (update_s2t_skip_interval e t)" if "same_view s t" for e and t :: "'x cstate"
    using that by (auto simp: update_s2t_skip_interval_def c_random_def Let_def)
  have long: "res_all (\<lambda>(_, t). same_view s t) (rbind (find_or_new_context_mt t) (\<lambda>(c, t).
      rbind (lock_entry sz t) (\<lambda>(e, t). rbind (update_s2t_skip_interval e t) (\<lambda>(e, t).
      rbind (unlock_entry sz e t) (\<lambda>t. snapshot_context_mt c t)))))" if "same_view s t" for t :: "'x cstate"
    by (rule res_all_bind_pair[OF find[OF that]], unfold prod.case, rule res_all_bind_pair[OF lock], assumption,
        unfold prod.case, rule res_all_bind_pair[OF skip], assumption, unfold prod.case,
        rule res_all_bind[OF unlock], assumption) (rule snap)
  have "res_all (\<lambda>(_, t). same_view s t) (NightWatch_get_alloc_context_mt sz s)"
    unfolding NightWatch_get_alloc_context_mt_def
    by (rule res_all_if, rule res_all_bind_pair[OF find[OF refl]], unfold prod.case, rule snap, assumption,
        rule res_all_bind_pair[OF lock[OF refl]], unfold prod.case, rule res_all_if,
        rule res_all_bind[OF unlock], assumption, simp add: use_map_only_def,
        rule res_all_bind[OF unlock], assumption) (rule long)
  then show ?thesis by (rule ok_weaken_pair[OF s])
qed

lemma alloc_chunk_ok:
  assumes s: "mon_at F s"
  shows "mon_at F (snd (alloc_and_init_chunk_mt p sz ty c (s :: 'x cstate)))"
proof -
  have v: "mon_at F (t :: 'x cstate)" if "mon_view t = mon_view s" for t using mon_ok_view[OF that] s by simp
  have clear: "mon_at F (upd_ck k clear_chunk t)" if "mon_at F t" for k and t :: "'x cstate"
    using that by (rule upd_ck_ok) (simp add: clear_chunk_def chunk_ok_def)
  have "mon_at F (snd (chunk_alloc_mt s))"
    by (auto simp: chunk_alloc_mt_def ensure_free_chunk_def internal_malloc_def Let_def
        intro!: clear intro: v split: list.split)
  then obtain k t where "chunk_alloc_mt s = (k, t)" and t: "mon_at F t" by (cases "chunk_alloc_mt s") simp
  moreover have "mon_at F (upd_ck k (\<lambda>x. x\<lparr>ck_addr := p, ck_size := sz, ck_idx := n, ck_context := c,
      ck_mapping_type := ty, ck_lock := False\<rparr>) t)" for n
    using t by (rule upd_ck_ok) simp
  moreover have "mon_at F (u\<lparr>lp_chunk_idx := n\<rparr>) = mon_at F u" for n and u :: "'x cstate" by (rule mon_ok_view) simp
  ultimately show ?thesis by (simp add: alloc_and_init_chunk_mt_def Let_def)
qed

lemma sampling_ok:
  assumes s: "mon_at F s"
  shows "res_all (mon_at F) (NightWatch_sampling_mt fuel p sz ty r (s :: 'x cstate))"
proof -
  have v: "mon_at F t" if "mon_view t = mon_view u" "mon_at F u" for t u :: "'x cstate" using mon_ok_view[OF that(1)] that(2) by simp
  obtain k t where kt: "alloc_and_init_chunk_mt p sz ty (ac_word0 (deref_ctx r s)) s = (k, t)" by fastforce
  then have t: "mon_at F t" using alloc_chunk_ok[OF s] by (metis snd_conv)
  have lock: "res_all (mon_at F) (lock_ctx c u)" if "mon_at F u" for c and u :: "'x cstate"
    using that by (auto simp: lock_ctx_def intro: v)
  have body: "res_all (mon_at F) (rbind (monit_chunk_mt fuel k (unlock_ctx c (upd_ctx c f (upd_ck k (\<lambda>x. x\<lparr>ck_mr := mr\<rparr>)
      (upd_ctx c g u))))) (\<lambda>(_, s). Inr s))" if "mon_at F u" for c f g mr and u :: "'x cstate"
  proof -
    have "mon_at F (upd_ctx c g u)" by (rule v[OF _ that]) simp
    then have "mon_at F (upd_ck k (\<lambda>x. x\<lparr>ck_mr := mr\<rparr>) (upd_ctx c g u))" by (rule upd_ck_ok) simp
    then have "mon_at F (unlock_ctx c (upd_ctx c f (upd_ck k (\<lambda>x. x\<lparr>ck_mr := mr\<rparr>) (upd_ctx c g u))))"
      by (rule v[rotated]) (simp add: unlock_ctx_def)
    from monit_chunk_ok[OF this] show ?thesis by (rule res_all_bind_pair) simp
  qed
  have skipped: "mon_at F (set_extend_info p e (upd_ctx c f s))" for c f e using v[OF _ s] by simp
  have ext: "mon_at F (set_extend_info p e t)" for e using v[OF _ t] by simp
  show ?thesis
    unfolding NightWatch_sampling_mt_def Let_def kt prod.case
    by (rule res_all_if, use s in simp, rule res_all_if, simp add: skipped,
        rule res_all_bind[OF lock[OF ext]]) (rule body)
qed

lemma collect_sample_ok:
  assumes s: "mon_at F s"
  shows "res_all (mon_at F) (NightWatch_collect_sample_mt fuel p (s :: 'x cstate))"
proof -
  have v: "mon_at F t" if "mon_view t = mon_view u" "mon_at F u" for t u :: "'x cstate" using mon_ok_view[OF that(1)] that(2) by simp
  have det: "res_all (mon_at F) (detach_chunk_from_context_mt k t)" if "mon_at F t" for k and t :: "'x cstate"
  proof -
    have "mon_at F (upd_ck k (\<lambda>x. x\<lparr>ck_context := NULL\<rparr>) t)" using that by (rule upd_ck_ok) simp
    then show ?thesis
      by (auto simp: detach_chunk_from_context_mt_def chunk_free_mt_def ensure_free_context_def Let_def intro: v)
  qed
  have "res_all (mon_at F) (if b then rbind (stop_monit_chunk_mt fuel k s) (\<lambda>(_, s). Inr s) else Inr s)" for b k
    using s by (auto intro!: res_all_if res_all_bind_pair[OF stop_monit_chunk_ok])
  from res_all_bind[OF this det] show ?thesis
    unfolding NightWatch_collect_sample_mt_def Let_def by (intro res_all_if) (use s in simp_all)
qed

section \<open>The wrappers of the C library\<close>

lemma pre_walk_ok: "mon_at F s \<Longrightarrow> res_all (mon_at F) (pre_walk_mt n p stop fuel (s :: 'x nstate))"
proof (induction n arbitrary: p s)
  case (Suc n)
  have "res_all (mon_at F) (if b then page_fault_handler_mt fuel p s else Inr s)" for b
    using Suc.prems page_fault_handler_ok[OF Suc.prems] by simp
  from res_all_bind[OF this Suc.IH] show ?case
    unfolding pre_walk_mt.simps by (intro res_all_if) (use Suc.prems in simp_all)
qed simp

lemma unprotect_buffer_ok:
  assumes "mon_at F s"
  shows "res_all (mon_at F) (unprotect_buffer_mt fuel a n (s :: 'x nstate))"
  unfolding unprotect_buffer_mt_def
  by (rule res_all_if, rule res_all_bind[OF pre_walk_ok[OF assms]]) (use assms in \<open>simp_all add: remove_sample_range_ok\<close>)

section \<open>The library as a state machine\<close>

text \<open>
  One step is one entry into the library that returns: an access to a protected page, a timer signal,
  a call of the allocator (the context of an allocation, an allocation, a release), or a wrapped call
  of the C library.
\<close>

inductive nw_step :: "nat \<Rightarrow> 'x nstate \<Rightarrow> 'x nstate \<Rightarrow> bool" for fuel where
  fault: "a AND PAGE_MASK \<in> page_prot s \<Longrightarrow> page_fault_handler_mt fuel a s = Inr t \<Longrightarrow> nw_step fuel s t"
| alarm: "trigger_time_event_mt fuel (env_mt fuel) s = Inr t \<Longrightarrow> nw_step fuel s t"
| get_context: "NightWatch_get_alloc_context_mt sz s = Inr (r, t) \<Longrightarrow> nw_step fuel s t"
| sampling: "NightWatch_sampling_mt fuel p sz ty r s = Inr t \<Longrightarrow> nw_step fuel s t"
| collect: "NightWatch_collect_sample_mt fuel p s = Inr t \<Longrightarrow> nw_step fuel s t"
| c_read: "read_hook_mt fuel fd buf count s = Inr (ret, t) \<Longrightarrow> nw_step fuel s t"
| c_write: "write_hook_mt fuel fd buf count s = Inr (ret, t) \<Longrightarrow> nw_step fuel s t"
| c_fread: "fread_hook_mt fuel p sz n f s = Inr (ret, t) \<Longrightarrow> nw_step fuel s t"
| c_fwrite: "fwrite_hook_mt fuel p sz n f s = Inr (ret, t) \<Longrightarrow> nw_step fuel s t"
| c_fopen: "fopen_hook_mt path mode s = (ret, t) \<Longrightarrow> nw_step fuel s t"
| c_fclose: "fclose_hook_mt f s = (ret, t) \<Longrightarrow> nw_step fuel s t"

lemma hook_parts_ok:
  fixes s :: "'x nstate"
  shows "mon_ok (snd (install_stdlibapi_hook_mt s)) = mon_ok s" "mon_ok (snd (call_libc_mt c s)) = mon_ok s"
  by (simp_all add: install_stdlibapi_hook_mt_def call_libc_mt_def enter_cache_management_def leave_cache_management_def
      mon_ok_def Let_def)

lemma mon_at_self: "mon_ok s = mon_at (tc_frame s) s"
  by (simp add: mon_at_def)

lemma mon_at_ok: "res_all (mon_at F) r \<Longrightarrow> r = Inr t \<Longrightarrow> mon_ok t" "res_all (\<lambda>(_, u). mon_at F u) q \<Longrightarrow> q = Inr (a, t) \<Longrightarrow> mon_ok t"
  by (auto simp: res_all_def mon_at_def)

lemma hook_ok:
  fixes s :: "'x nstate"
  assumes "mon_ok s" and "rbind (unprotect_buffer_mt fuel a n (snd (install_stdlibapi_hook_mt s))) (\<lambda>s. Inr (call_libc_mt c s)) = Inr (ret, t)"
  shows "mon_ok t"
proof -
  have "mon_ok (snd (install_stdlibapi_hook_mt s))" using assms(1) by (simp add: hook_parts_ok)
  note u = unprotect_buffer_ok[OF this[unfolded mon_at_self], of fuel a n]
  obtain v where "unprotect_buffer_mt fuel a n (snd (install_stdlibapi_hook_mt s)) = Inr v" "call_libc_mt c v = (ret, t)"
    using assms(2) by (auto simp: rbind_eq_Inr)
  then show ?thesis using mon_at_ok(1)[OF u] hook_parts_ok(2)[of c v] by simp
qed

lemma nw_step_ok: "nw_step fuel s t \<Longrightarrow> mon_ok s \<Longrightarrow> mon_ok t"
proof (induction rule: nw_step.induct)
  case (fault a s t)
  show ?case by (rule mon_at_ok(1)[OF page_fault_handler_ok[OF fault.prems[unfolded mon_at_self]] fault.hyps(2)])
next
  case (alarm s t)
  show ?case by (rule mon_at_ok(1)[OF queue_keeps_ok(4)[OF alarm.prems[unfolded mon_at_self]] alarm.hyps])
next
  case (get_context sz s r t)
  show ?case by (rule mon_at_ok(2)[OF get_alloc_context_ok[OF get_context.prems[unfolded mon_at_self]] get_context.hyps])
next
  case (sampling p sz ty r s t)
  show ?case by (rule mon_at_ok(1)[OF sampling_ok[OF sampling.prems[unfolded mon_at_self]] sampling.hyps])
next
  case (collect p s t)
  show ?case by (rule mon_at_ok(1)[OF collect_sample_ok[OF collect.prems[unfolded mon_at_self]] collect.hyps])
next
  case (c_read fd buf count s ret t)
  show ?case by (rule hook_ok[OF c_read.prems]) (use c_read.hyps in \<open>simp add: read_hook_mt_def case_prod_unfold\<close>)
next
  case (c_write fd buf count s ret t)
  show ?case by (rule hook_ok[OF c_write.prems]) (use c_write.hyps in \<open>simp add: write_hook_mt_def case_prod_unfold\<close>)
next
  case (c_fread p sz n f s ret t)
  show ?case by (rule hook_ok[OF c_fread.prems]) (use c_fread.hyps in \<open>simp add: fread_hook_mt_def case_prod_unfold\<close>)
next
  case (c_fwrite p sz n f s ret t)
  show ?case by (rule hook_ok[OF c_fwrite.prems]) (use c_fwrite.hyps in \<open>simp add: fwrite_hook_mt_def case_prod_unfold\<close>)
next
  case (c_fopen path mode s ret t)
  have "mon_ok (snd (fopen_hook_mt path mode s)) = mon_ok s" by (simp add: fopen_hook_mt_def case_prod_unfold hook_parts_ok)
  then show ?case using c_fopen by simp
next
  case (c_fclose f s ret t)
  have "mon_ok (snd (fclose_hook_mt f s)) = mon_ok s" by (simp add: fclose_hook_mt_def case_prod_unfold hook_parts_ok)
  then show ?case using c_fclose by simp
qed

text \<open>C1: the counters of the monitor stay consistent, whatever happens. In every state reachable from a
  good one by page faults, timer signals, allocations, releases and wrapped library calls, in any
  order and with any number of nested handler calls, every chunk and every sample has counted as many
  references as victims and pollutors together, is in one of its states, a sample's address and every
  protected page are page addresses, and the burst skip is at least its default.\<close>

theorem monitor_invariant:
  assumes "(nw_step fuel)\<^sup>*\<^sup>* s t" and "mon_ok s"
  shows "mon_ok t"
  using assms by (induction rule: rtranclp_induct) (auto intro: nw_step_ok)

lemma boot_mon_ok: "mon_ok boot"
  by (simp add: mon_ok_def boot_def chunk_ok_def sample_ok_def zero_chunk_def zero_sample_def page_aligned_def
      chunk_state_defs sample_state_defs round_defs DEFAULT_BURST_LEN_def)

text \<open>From the initial state: a timer signal, then \<open>fopen\<close>.\<close>

theorem monitor_invariant_witness:
  "\<exists>s1 s2. trigger_time_event_mt 3 (env_mt 3) boot = Inr s1 \<and> fopen_hook_mt 64 128 s1 = (0, s2) \<and>
     (nw_step 3)\<^sup>*\<^sup>* boot s2 \<and> mon_ok boot \<and> mon_ok s2"
proof -
  have "\<exists>s1. trigger_time_event_mt 3 (env_mt 3) boot = Inr s1 \<and> fst (fopen_hook_mt 64 128 s1) = 0"
    by (simp add: trigger_time_event_mt_def do_pend_event_queue_def trigger_pended_def do_trigger_time_event_def
        gettimeofday_def set_timer_def drop_queue_lock_def fopen_hook_mt_def install_stdlibapi_hook_mt_def call_libc_mt_def
        enter_cache_management_def leave_cache_management_def numeral_3_eq_3 boot_def)
  then obtain s1 s2 where s: "trigger_time_event_mt 3 (env_mt 3) boot = Inr s1" "fopen_hook_mt 64 128 s1 = (0, s2)"
    by (metis prod.collapse)
  then have "(nw_step 3)\<^sup>*\<^sup>* boot s2" by (meson alarm c_fopen rtranclp.rtrancl_into_rtrancl rtranclp.rtrancl_refl)
  then show ?thesis using s boot_mon_ok monitor_invariant[OF _ boot_mon_ok] by blast
qed

end
