(* ===== verification/Locality_Correct.thy ===== *)
theory Locality_Correct
  imports Boot_State
begin

text \<open>
  Correctness of the locality profile: the table from sizes to mapping types, the key of a call
  stack, and the contexts that the calls of one stack share.
\<close>

section \<open>The table from sizes to mapping types\<close>

definition s2t_ok :: "size2mtype_entry \<Rightarrow> bool" where
  "s2t_ok e \<longleftrightarrow> 0 \<le> n_open e \<and> 0 \<le> n_restrict e \<and> n_open e + n_restrict e < 64 \<and>
     se_valid e \<in> {0, 1} \<and> se_mapping_type e \<in> {OPEN_MAPPING, RESTRICT_MAPPING}"

definition table_ok :: "('m, 'x) lstate \<Rightarrow> bool" where
  "table_ok s \<longleftrightarrow> length (s2t_map s) = 65537 \<and> (\<forall>e \<in> set (s2t_map s). s2t_ok e \<and> \<not> se_lock e)"

text \<open>The decision in integers: the float comparisons lose nothing on counters this small.\<close>

definition s2t_rule :: "int \<Rightarrow> int \<Rightarrow> int \<times> int" where
  "s2t_rule n_op n_re =
     (if n_re = 0 then (OPEN_MAPPING, 1)
      else if 10 * n_op < n_re then (RESTRICT_MAPPING, 1)
      else if n_op \<le> 10 * n_re then (OPEN_MAPPING, 0)
      else (OPEN_MAPPING, 1))"

lemma s2t_decide_rule:
  assumes "0 \<le> n_open e" and "0 \<le> n_restrict e" and "n_open e + n_restrict e \<le> 64"
  shows "s2t_decide e = e\<lparr>se_mapping_type := fst (s2t_rule (n_open e) (n_restrict e)),
    se_valid := snd (s2t_rule (n_open e) (n_restrict e))\<rparr>"
proof (cases "n_restrict e = 0 \<or> n_open e = 0")
  case True
  then show ?thesis using assms by (auto simp: s2t_decide_def s2t_rule_def)
next
  case False
  then have p: "0 < n_open e" "0 < n_restrict e" "n_restrict e \<le> 64" "n_open e < 2 ^ 24" "n_restrict e < 2 ^ 24"
    using assms by auto
  have "f_div (f_of_int (n_open e)) (f_of_int (n_restrict e)) = fl32 (of_int (n_open e) / of_int (n_restrict e))"
    using p f_of_small_int by (simp add: f_div_def)
  then show ?thesis
    using False ratio_below_tenth[OF p(1-3)] ratio_up_to_ten[OF p(1-3)]
    by (simp add: s2t_decide_def s2t_rule_def Let_def)
qed

lemma s2t_count_bounds:
  assumes "s2t_ok e"
  shows "0 \<le> n_open (s2t_count mapping e)" "0 \<le> n_restrict (s2t_count mapping e)"
    "n_open (s2t_count mapping e) + n_restrict (s2t_count mapping e) \<le> 64"
  using assms by (auto simp: s2t_ok_def s2t_count_def)

lemma s2t_rule_range: "fst (s2t_rule a b) \<in> {OPEN_MAPPING, RESTRICT_MAPPING}" "snd (s2t_rule a b) \<in> {0, 1}"
  by (auto simp: s2t_rule_def)

lemma update_s2t_entry_ok:
  assumes "s2t_ok e"
  shows "s2t_ok (update_s2t_entry mapping e)" "se_lock (update_s2t_entry mapping e) = se_lock e"
proof -
  let ?c = "s2t_count mapping e"
  note b = s2t_count_bounds[OF assms, of mapping] and d = s2t_decide_rule[OF b]
  have "s2t_ok (s2t_decay (s2t_decide ?c))"
    using b s2t_rule_range[of "n_open ?c" "n_restrict ?c"]
    by (auto simp: d s2t_ok_def s2t_decay_def S2MT_ENTRY_DECAY_INTERVAL_def)
  then show "s2t_ok (update_s2t_entry mapping e)" by (simp add: update_s2t_entry_def)
  show "se_lock (update_s2t_entry mapping e) = se_lock e"
    by (simp add: update_s2t_entry_def s2t_decide_def s2t_decay_def s2t_count_def Let_def)
qed

text \<open>Locking an entry, changing it, and unlocking it.\<close>

lemma table_entry:
  assumes "table_ok s" and "sz \<le> S2T_MAP_SIZE"
  shows "unat sz < length (s2t_map s)" "s2t_ok (s2t_map s ! unat sz)" "\<not> se_lock (s2t_map s ! unat sz)"
proof -
  have "unat sz \<le> 65536" using assms(2) by (simp add: S2T_MAP_SIZE_def word_le_nat_alt)
  then show "unat sz < length (s2t_map s)" using assms(1) by (simp add: table_ok_def)
  then show "s2t_ok (s2t_map s ! unat sz)" "\<not> se_lock (s2t_map s ! unat sz)"
    using assms(1) nth_mem by (auto simp: table_ok_def)
qed

lemma lock_entry_free:
  assumes "table_ok s" and "sz \<le> S2T_MAP_SIZE"
  shows "lock_entry sz s = Inr ((s2t_map s ! unat sz)\<lparr>se_lock := True\<rparr>,
    s\<lparr>s2t_map := (s2t_map s)[unat sz := (s2t_map s ! unat sz)\<lparr>se_lock := True\<rparr>]\<rparr>)"
  using table_entry[OF assms] by (simp add: lock_entry_def)

lemma table_ok_write:
  assumes "table_ok s" and "s2t_ok e"
  shows "table_ok (s\<lparr>s2t_map := (s2t_map s)[i := e\<lparr>se_lock := False\<rparr>]\<rparr>)"
  using assms set_update_subset_insert[of "s2t_map s" i "e\<lparr>se_lock := False\<rparr>"]
  by (auto simp: table_ok_def s2t_ok_def)

lemma update_s2t_map_mt_eq:
  assumes "table_ok s" and "sz \<le> S2T_MAP_SIZE"
  shows "update_s2t_map_mt sz mapping s = Inr (s\<lparr>s2t_map := (s2t_map s)[unat sz :=
      (update_s2t_entry mapping ((s2t_map s ! unat sz)\<lparr>se_lock := True\<rparr>))\<lparr>se_lock := False\<rparr>]\<rparr>)"
  using table_entry[OF assms] by (simp add: update_s2t_map_mt_def lock_entry_free[OF assms] unlock_entry_def)

text \<open>C25: Updating the table from sizes to mapping types. On a well-formed table (65537 entries, each
  with two counters that are not negative and add up to less than 64, a validity of 0 or 1, a
  mapping type of OPEN or RESTRICT, its lock free) an update for any size up to \<open>S2T_MAP_SIZE\<close> and any
  mapping returns, keeps the table well-formed and changes no other entry.\<close>

theorem update_s2t_map_keeps_table:
  assumes "table_ok s" and "sz \<le> S2T_MAP_SIZE"
  shows "\<exists>s'. update_s2t_map_mt sz mapping s = Inr s' \<and> table_ok s' \<and>
    (\<forall>i. i \<noteq> unat sz \<longrightarrow> s2t_map s' ! i = s2t_map s ! i)"
proof -
  have "s2t_ok ((s2t_map s ! unat sz)\<lparr>se_lock := True\<rparr>)"
    using table_entry(2)[OF assms] by (simp add: s2t_ok_def)
  from table_ok_write[OF assms(1) update_s2t_entry_ok(1)[OF this]] show ?thesis
    using update_s2t_map_mt_eq[OF assms] by auto
qed

lemma boot_table: "table_ok boot"
  by (auto simp: table_ok_def boot_def s2t_ok_def empty_s2t_def mapping_defs)

theorem update_s2t_map_keeps_table_witness:
  "\<exists>s'. update_s2t_map_mt 64 OPEN_MAPPING boot = Inr s' \<and> table_ok s'"
  using update_s2t_map_keeps_table[OF boot_table, of 64] by (auto simp: S2T_MAP_SIZE_def)

text \<open>The decision on a size, in integers. With \<open>o\<close> open and \<open>r\<close> restricted verdicts counted (at
  most 64), the float comparisons with the double 0.1 and with 10 decide exactly: restricted when
  \<open>10 o < r\<close>, open when there is no restricted verdict or \<open>o > 10 r\<close>, and undecided (the entry
  invalid) in between, the exact ratios one tenth and ten included.\<close>

theorem s2t_decision_exact:
  assumes "0 \<le> n_open e" and "0 \<le> n_restrict e" and "n_open e + n_restrict e \<le> 64"
  shows "(se_mapping_type (s2t_decide e), se_valid (s2t_decide e)) =
      (if n_restrict e = 0 then (OPEN_MAPPING, 1)
       else if 10 * n_open e < n_restrict e then (RESTRICT_MAPPING, 1)
       else if n_open e \<le> 10 * n_restrict e then (OPEN_MAPPING, 0)
       else (OPEN_MAPPING, 1)) \<and>
    n_open (s2t_decide e) = n_open e \<and> n_restrict (s2t_decide e) = n_restrict e"
  using s2t_decide_rule[OF assms] by (auto simp: s2t_rule_def)

theorem s2t_decision_exact_witness:
  "se_valid (s2t_decide (empty_s2t\<lparr>n_open := 1, n_restrict := 10\<rparr>)) = 0"
  using s2t_decision_exact[of "empty_s2t\<lparr>n_open := 1, n_restrict := 10\<rparr>"] by (simp add: mapping_defs)

text \<open>The check interval of a size. \<open>update_s2t_skip_interval\<close> divides by zero exactly for a valid entry
  that is due with a check interval of 0; from an interval between 1 and 3071, with \<open>random\<close>
  not negative, it never faults and gives an interval in the same range, and a valid entry that was
  due is next checked after that many allocations.\<close>

theorem s2t_interval_bounds:
  assumes "0 \<le> random_seq s (random_cnt s)"
  shows "(update_s2t_skip_interval e s = Inl DivByZero \<longleftrightarrow>
      se_valid e \<noteq> 0 \<and> to_check e = 0 \<and> check_interval e = 0) \<and>
    (1 \<le> check_interval e \<and> check_interval e < 3072 \<longrightarrow>
     (\<exists>e' s'. update_s2t_skip_interval e s = Inr (e', s') \<and> 1 \<le> check_interval e' \<and> check_interval e' < 3072 \<and>
        (se_valid e \<noteq> 0 \<and> to_check e = 0 \<longrightarrow> to_check e' = check_interval e')))"
proof (cases "se_valid e \<noteq> 0 \<and> to_check e = 0 \<and> 1 \<le> check_interval e \<and> check_interval e < 1024")
  case True
  define r where "r = random_seq s (random_cnt s)"
  define m where "m = c_rem r (check_interval e * 2)"
  have "m = r mod (check_interval e * 2)" using True assms c_rem_pos[of r] by (simp add: m_def r_def)
  then have "0 \<le> m" "m < check_interval e * 2" using True by simp_all
  then show ?thesis
    using True
    by (auto simp: update_s2t_skip_interval_def c_random_def S2T_MAP_UPDATE_INTERVAL_MAX_def Let_def r_def[symmetric] m_def[symmetric])
next
  case False
  define r where "r = random_seq s (random_cnt s)"
  have "0 \<le> r mod 1024" "r mod 1024 < 1024" by simp_all
  then show ?thesis
    using False assms c_rem_pos[of r 1024]
    by (auto simp: update_s2t_skip_interval_def c_random_def S2T_MAP_UPDATE_INTERVAL_MAX_def Let_def r_def[symmetric])
qed

theorem s2t_interval_bounds_witness:
  "update_s2t_skip_interval (empty_s2t\<lparr>se_valid := 1\<rparr>) boot = Inl DivByZero"
  using s2t_interval_bounds[of boot "empty_s2t\<lparr>se_valid := 1\<rparr>"] by (simp add: boot_def empty_s2t_def)

section \<open>The key of a call stack\<close>

lemma rotate_shifts:
  fixes f :: uint64
  assumes "n < 64"
  shows "shl64 f n OR shr64 f (64 - n) = word_rotl n f"
proof (rule bit_word_eqI)
  fix i assume "i < LENGTH(64)"
  then have i: "i < 64" by simp
  show "bit (shl64 f n OR shr64 f (64 - n)) i = bit (word_rotl n f) i"
  proof (cases "n = 0")
    case True
    then show ?thesis using i by (simp add: shl64_def shr64_def bit_or_iff bit_word_rotl_iff)
  next
    case False
    have rot: "bit (word_rotl n f) i = bit f ((i + (64 - n)) mod 64)"
      using i assms by (simp add: bit_word_rotl_iff)
    have sft: "bit (shl64 f n OR shr64 f (64 - n)) i \<longleftrightarrow> n \<le> i \<and> bit f (i - n) \<or> bit f (64 - n + i)"
      using i assms False by (auto simp: shl64_def shr64_def bit_or_iff bit_push_bit_iff bit_drop_bit_eq)
    show ?thesis
    proof (cases "i < n")
      case True
      then have "(i + (64 - n)) mod 64 = 64 - n + i" using assms by (intro trans[OF mod_less]) simp_all
      then show ?thesis using True by (simp only: rot sft) simp
    next
      case ge: False
      then have "i + (64 - n) = i - n + 64" using assms by simp
      then have "(i + (64 - n)) mod 64 = i - n" using i by (simp only: mod_add_self2) simp
      moreover have "\<not> bit f (64 - n + i)" using ge by (simp add: impossible_bit)
      ultimately show ?thesis using ge by (simp only: rot sft) simp
    qed
  qed
qed

lemma word_rotl_mod: "word_rotl (n mod 64) (f :: uint64) = word_rotl n f"
  by (rule bit_word_eqI) (simp add: bit_word_rotl_iff)

text \<open>The XOR of the frames, the frame at place \<open>j\<close> rotated left by \<open>16 j\<close> bits.\<close>

fun xor_rotated :: "nat \<Rightarrow> uint64 list \<Rightarrow> uint64" where
  "xor_rotated j [] = 0"
| "xor_rotated j (f # fs) = word_rotl (16 * j) f XOR xor_rotated (Suc j) fs"

lemma context_key_loop_xor:
  "context_key_loop (16 * j mod 64) fs key = key XOR xor_rotated j fs"
proof (induction fs arbitrary: j key)
  case (Cons f fs)
  have "shl64 f (16 * j mod 64) OR shr64 f (64 - 16 * j mod 64) = word_rotl (16 * j) f"
    using rotate_shifts[of "16 * j mod 64" f] word_rotl_mod[of "16 * j" f] by simp
  moreover have "(16 * j mod 64 + 16) mod 64 = 16 * Suc j mod 64" by (simp add: mod_simps add.commute)
  ultimately show ?case using Cons.IH[of "Suc j"] by (simp add: xor.assoc)
qed simp

definition stack_key :: "('m, 'x) lstate \<Rightarrow> uint64" where
  "stack_key s = xor_rotated 0 (drop 2 (take 10 (backtraces s (backtrace_cnt s))))"

lemma get_context_key_xor: "get_context_key s = (stack_key s, s\<lparr>backtrace_cnt := backtrace_cnt s + 1\<rparr>)"
  using context_key_loop_xor[of 0]
  by (simp add: stack_key_def get_context_key_def INNER_CALL_STACK_DEPTH_def TOTAL_CALL_STACK_DEPTH_def)

text \<open>The key of an allocation context is the exclusive or of the return addresses at depths 2 to 9
  of the call stack (fewer when the stack is shallower), the address at place \<open>j\<close> rotated left by
  \<open>16 j\<close> bits; the shift by 64 that the code performs for \<open>j = 0\<close> has no effect on the target.\<close>

theorem get_context_key_rotations:
  "fst (get_context_key s) =
     (let frames = drop 2 (take 10 (backtraces s (backtrace_cnt s)))
      in foldr (\<lambda>j key. word_rotl (16 * j) (frames ! j) XOR key) [0..<length frames] 0)"
proof -
  have "xor_rotated k fs = foldr (\<lambda>j key. word_rotl (16 * j) (fs ! (j - k)) XOR key) [k..<k + length fs] 0" for k fs
  proof (induction fs arbitrary: k)
    case (Cons f fs)
    have "foldr (\<lambda>j key. word_rotl (16 * j) ((f # fs) ! (j - k)) XOR key) [Suc k..<Suc k + length fs] 0 =
        foldr (\<lambda>j key. word_rotl (16 * j) (fs ! (j - Suc k)) XOR key) [Suc k..<Suc k + length fs] 0"
      by (rule foldr_cong) (auto simp: nth_Cons')
    then show ?case using Cons.IH[of "Suc k"] upt_conv_Cons[of k "k + length (f # fs)"] by simp
  qed simp
  from this[of 0] show ?thesis by (simp add: get_context_key_xor stack_key_def Let_def)
qed

section \<open>Contexts\<close>

lemma upd_ctx_sel [simp]:
  "lp_context_idx (upd_ctx c f s) = lp_context_idx s" "context_hash_map (upd_ctx c f s) = context_hash_map s"
  "s2t_map (upd_ctx c f s) = s2t_map s" "ctx_snapshot (upd_ctx c f s) = ctx_snapshot s"
  "ck_cell (upd_ctx c f s) = ck_cell s" "ctx_cell (upd_ctx c f s) = (ctx_cell s)(c := f (ctx_cell s c))"
  by (simp_all add: upd_ctx_def)

text \<open>The fields of the profile that an operation of the hash map leaves alone.\<close>

lemma more_lp_fields:
  fixes s t :: "('m, 'x) lstate"
  assumes "hm_mt_state.more s = hm_mt_state.more t"
  shows "ctx_cell s = ctx_cell t" "ctx_snapshot s = ctx_snapshot t" "backtraces s = backtraces t"
    "backtrace_cnt s = backtrace_cnt t" "s2t_map s = s2t_map t" "context_hash_map s = context_hash_map t"
    "map_only_ctx s = map_only_ctx t" "ck_cell s = ck_cell t"
  using assms by (cases s; cases t; simp)+

lemma find_context_hit:
  fixes s :: "(hash_map_mt, 'x) lstate"
  assumes "mt_inv s (context_hash_map s)" and "hm_abs s (mt_hm (context_hash_map s)) (stack_key s) = Some c"
    and "c \<noteq> NULL"
  shows "find_or_new_context_mt s = Inr (c, s\<lparr>backtrace_cnt := backtrace_cnt s + 1\<rparr>)"
proof -
  let ?s = "s\<lparr>backtrace_cnt := backtrace_cnt s + 1\<rparr>" and ?k = "stack_key s"
  note k = get_context_key_xor[of s]
  have "mt_inv ?s (context_hash_map s)" using assms(1) mt_inv_cong[of ?s s] by simp
  moreover have "hm_abs ?s (mt_hm (context_hash_map s)) ?k = Some c"
    using assms(2) hm_abs_cong[of ?s s] by simp
  ultimately have "hash_map_find_member_mt (context_hash_map s) ?k ?s = Inr (c, context_hash_map s)"
    using hash_map_find_member_mt_eq[of "context_hash_map s" ?k ?s] hash_map_find_member_hit[of ?s]
    by (simp add: mt_inv_def)
  then show ?thesis using assms(3) k by (simp add: find_or_new_context_mt_def)
qed

lemma find_context_miss:
  fixes s :: "(hash_map_mt, 'x) lstate"
  assumes inv: "mt_inv s (context_hash_map s)"
    and none: "hm_abs s (mt_hm (context_hash_map s)) (stack_key s) = None"
    and guard: "guard_ok s (mt_hm (context_hash_map s)) (stack_key s)"
    and al: "context_alloc_mt (s\<lparr>backtrace_cnt := backtrace_cnt s + 1\<rparr>) = (c, t)"
    and room: "\<And>u. malloc_seq u = malloc_seq s \<Longrightarrow> malloc_cnt u \<in> {malloc_cnt s, malloc_cnt s + 1} \<Longrightarrow>
      can_add (u :: (hash_map_mt, 'x) lstate) (mt_hm (context_hash_map s))"
  shows "\<exists>s'. find_or_new_context_mt s = Inr (c, s') \<and> mt_inv s' (context_hash_map s') \<and>
    hm_abs s' (mt_hm (context_hash_map s')) = (hm_abs s (mt_hm (context_hash_map s)))(stack_key s \<mapsto> c) \<and>
    predict_type0 (ctx_cell s' c) = UNKNOWN_MAPPING \<and> predict_type1 (ctx_cell s' c) = UNKNOWN_MAPPING \<and>
    sample_skip (ctx_cell s' c) = 0 \<and> backtraces s' = backtraces s \<and> ctx_snapshot s' = ctx_snapshot s \<and>
    ac_lock (ctx_cell s' c) = False"
proof -
  let ?m = "context_hash_map s" and ?k = "stack_key s"
  let ?s = "s\<lparr>backtrace_cnt := backtrace_cnt s + 1\<rparr>"
  note k = get_context_key_xor[of s]
  have "mt_inv ?s ?m" "hm_abs ?s (mt_hm ?m) ?k = None" "guard_ok ?s (mt_hm ?m) ?k"
    using inv none guard mt_inv_cong[of ?s s] hm_abs_cong[of ?s s] guard_ok_cong[of ?s s "mt_hm ?m" ?k]
    by (simp_all add: hm_mt_state.defs)
  then have miss: "hash_map_find_member_mt ?m ?k ?s = Inr (NULL, ?m)"
    using hash_map_find_member_mt_eq[of ?m ?k ?s] hash_map_find_member_miss[of ?s "mt_hm ?m" ?k]
    by (simp add: mt_inv_def)
  define u where "u = (upd_ctx c (\<lambda>x. x\<lparr>ac_word0 := ?k, predict_type0 := UNKNOWN_MAPPING,
      predict_type1 := UNKNOWN_MAPPING, predict_mr0 := - 1, predict_mr1 := - 1, sample_skip := 0,
      skip_interval := 0, ac_word1 := lp_context_idx t, ac_lock := False\<rparr>) t)\<lparr>lp_context_idx := lp_context_idx t + 1\<rparr>"
  have t: "free_member t = free_member s" "mm_cell t = mm_cell s" "fm_init t = fm_init s" "malloc_seq t = malloc_seq s"
    "malloc_cnt t \<in> {malloc_cnt s, malloc_cnt s + 1}" "context_hash_map t = ?m" "backtraces t = backtraces s"
    "ctx_snapshot t = ctx_snapshot s"
    using al k by (auto simp: context_alloc_mt_def ensure_free_context_def internal_malloc_def upd_ctx_def Let_def
        split: list.splits if_splits)
  have u: "free_member u = free_member s" "mm_cell u = mm_cell s" "fm_init u = fm_init s" "malloc_seq u = malloc_seq s"
    "malloc_cnt u \<in> {malloc_cnt s, malloc_cnt s + 1}" "context_hash_map u = ?m" "backtraces u = backtraces s"
    "ctx_snapshot u = ctx_snapshot s" "predict_type0 (ctx_cell u c) = UNKNOWN_MAPPING"
    "predict_type1 (ctx_cell u c) = UNKNOWN_MAPPING" "sample_skip (ctx_cell u c) = 0" "\<not> ac_lock (ctx_cell u c)"
    using t by (simp_all add: u_def upd_ctx_def)
  have iu: "mt_inv u ?m" "hm_abs u (mt_hm ?m) = hm_abs s (mt_hm ?m)" "can_add u (mt_hm ?m)"
    using inv u mt_inv_cong[of u s] hm_abs_cong[of u s] room by simp_all
  obtain m' s' where a: "hash_map_add_member_mt ?m ?k c u = Inr (0, m', s')" "mt_inv s' m'"
    "hm_abs s' (mt_hm m') = (hm_abs u (mt_hm ?m))(?k \<mapsto> c)"
    using mt.add_ok[OF iu(1) _ iu(3), of ?k c] none iu(2) by auto
  note f = more_lp_fields[OF conjunct1[OF hash_map_add_member_mt_frame[OF iu(1) a(1)]]]
  let ?t = "s'\<lparr>context_hash_map := m'\<rparr>"
  have "find_or_new_context_mt s = Inr (c, ?t)"
    using k miss al a(1) t(6) by (simp add: find_or_new_context_mt_def init_context_mt_def u_def[symmetric] Let_def)
  moreover have "mt_inv ?t m'" "hm_abs ?t (mt_hm m') = (hm_abs s (mt_hm ?m))(?k \<mapsto> c)"
    using a(2,3) iu(2) mt_inv_cong[of ?t s'] hm_abs_cong[of ?t s'] by simp_all
  ultimately show ?thesis using f u by (intro exI[of _ ?t]) simp
qed

lemma alloc_not_null:
  assumes "context_alloc_mt s = (c, t)" and "next_malloc s \<noteq> NULL" and "\<forall>c \<in> set (free_context s). c \<noteq> NULL"
  shows "c \<noteq> NULL"
  using assms by (auto simp: context_alloc_mt_def ensure_free_context_def internal_malloc_def Let_def
      split: list.splits if_splits)

text \<open>One context per call stack. Looking up the context of the current call stack returns a context
  that is not NULL, the one the map holds for the key of the stack or a new one that is added for
  it; the map is otherwise unchanged and its invariant kept; and every later lookup with a stack
  of the same frames returns the same context and changes nothing.\<close>

theorem context_of_stack_is_stable:
  fixes s :: "(hash_map_mt, 'x) lstate"
  defines "m \<equiv> mt_hm (context_hash_map s)"
  assumes "mt_inv s (context_hash_map s)" and "hm_abs s m (stack_key s) \<noteq> Some NULL"
    and "hm_abs s m (stack_key s) = None \<longrightarrow> guard_ok s m (stack_key s)"
    and "hash_map_full m \<longrightarrow> hm_key_len m < 26"
    and "\<forall>n \<in> {malloc_cnt s..malloc_cnt s + 2}. malloc_seq s n \<notin> set (hm_members m)"
    and "next_malloc s \<noteq> NULL" and "\<forall>c \<in> set (free_context s). c \<noteq> NULL"
  shows "\<exists>c s'. find_or_new_context_mt s = Inr (c, s') \<and> c \<noteq> NULL \<and> mt_inv s' (context_hash_map s') \<and>
    hm_abs s' (mt_hm (context_hash_map s')) = (hm_abs s m)(stack_key s \<mapsto> c) \<and>
    (\<forall>n. backtraces s' n = backtraces s (backtrace_cnt s) \<longrightarrow>
       find_or_new_context_mt (s'\<lparr>backtrace_cnt := n\<rparr>) = Inr (c, s'\<lparr>backtrace_cnt := n + 1\<rparr>))"
proof -
  have "\<exists>c s'. find_or_new_context_mt s = Inr (c, s') \<and> c \<noteq> NULL \<and> mt_inv s' (context_hash_map s') \<and>
    hm_abs s' (mt_hm (context_hash_map s')) = (hm_abs s m)(stack_key s \<mapsto> c)"
  proof (cases "hm_abs s m (stack_key s)")
    case (Some c)
    let ?s = "s\<lparr>backtrace_cnt := backtrace_cnt s + 1\<rparr>"
    have "mt_inv ?s (context_hash_map s)" "hm_abs ?s m = hm_abs s m"
      using assms(2) mt_inv_cong[of ?s s] hm_abs_cong[of ?s s] by simp_all
    then show ?thesis using find_context_hit[OF assms(2)] Some assms(3) map_upd_triv[of "hm_abs s m" "stack_key s" c]
      by (auto simp: m_def)
  next
    case None
    obtain c t where al: "context_alloc_mt (s\<lparr>backtrace_cnt := backtrace_cnt s + 1\<rparr>) = (c, t)" by fastforce
    have "can_add u m" if "malloc_seq u = malloc_seq s" "malloc_cnt u \<in> {malloc_cnt s, malloc_cnt s + 1}"
      for u :: "(hash_map_mt, 'x) lstate"
      using that assms(5,6) by (auto simp: can_add_def)
    moreover have "c \<noteq> NULL" by (rule alloc_not_null[OF al]) (use assms(7,8) in simp_all)
    ultimately show ?thesis using find_context_miss[OF assms(2) _ _ al] None assms(4) unfolding m_def by blast
  qed
  then obtain c s' where r: "find_or_new_context_mt s = Inr (c, s')" "c \<noteq> NULL" "mt_inv s' (context_hash_map s')"
    "hm_abs s' (mt_hm (context_hash_map s')) = (hm_abs s m)(stack_key s \<mapsto> c)" by blast
  have "find_or_new_context_mt (s'\<lparr>backtrace_cnt := n\<rparr>) = Inr (c, s'\<lparr>backtrace_cnt := n + 1\<rparr>)"
    if "backtraces s' n = backtraces s (backtrace_cnt s)" for n
  proof -
    let ?t = "s'\<lparr>backtrace_cnt := n\<rparr>"
    have "stack_key ?t = stack_key s" using that by (simp add: stack_key_def)
    then show ?thesis
      using find_context_hit[of ?t c] r(2-4) mt_inv_cong[of ?t s'] hm_abs_cong[of ?t s'] by simp
  qed
  with r show ?thesis by blast
qed

theorem context_of_stack_is_stable_witness:
  "\<exists>c s'. find_or_new_context_mt boot = Inr (c, s') \<and> c \<noteq> NULL \<and>
     hm_abs s' (mt_hm (context_hash_map s')) = [stack_key boot \<mapsto> c]"
proof -
  have b: "context_hash_map boot = fresh_mt" "next_malloc boot \<noteq> NULL" "free_context boot = []"
    by (simp_all add: boot_def)
  show ?thesis using context_of_stack_is_stable[of boot] boot_maps fresh_members b by auto
qed

end
