(* ===== verification/Predictor_Correct.thy ===== *)
theory Predictor_Correct
  imports Locality_Correct
begin

text \<open>
  What the predictor decides: the mapping a chunk calls for, the prediction of a context after its
  last two chunks, the interval between sampled chunks, and the hint the allocator gets.
\<close>

section \<open>The mapping of a chunk\<close>

lemma f_of_small_uint: "uint w < 2 ^ 24 \<Longrightarrow> f_of_uint w = of_int (uint w)"
  using f_of_small_int[of "uint w"] by (simp add: f_of_uint_def f_of_int_def)

text \<open>When a chunk is restricted. With fewer than \<open>2 ^ 24\<close> samples, a chunk is mapped restricted
  exactly when strictly more than nine tenths of its samples are pollutor samples; a chunk with no
  sample is mapped open, and so is one with exactly nine tenths, although the code compares with \<open>>=\<close>.\<close>

theorem chunk_mapping_nine_tenths:
  assumes "ck_pollutor_ref k \<le> ck_total_ref k" and "uint (ck_total_ref k) < 2 ^ 24"
  shows "chunk_mapping k =
    (if 9 * uint (ck_total_ref k) < 10 * uint (ck_pollutor_ref k) then RESTRICT_MAPPING else OPEN_MAPPING)"
proof (cases "ck_total_ref k = 0")
  case True
  then have "uint (ck_pollutor_ref k) = 0" using assms(1) by simp
  then show ?thesis using True by (simp add: chunk_mapping_def chunk_mr_def D0_9_def)
next
  case False
  have p: "uint (ck_pollutor_ref k) \<le> uint (ck_total_ref k)" using assms(1) by (simp add: word_le_def)
  have t: "0 < uint (ck_total_ref k)" using False uint_0_iff[of "ck_total_ref k"] by (simp add: order_less_le)
  have "chunk_mr k = fl32 (of_int (uint (ck_pollutor_ref k)) / of_int (uint (ck_total_ref k)))"
    using False assms(2) p by (simp add: chunk_mr_def f_div_def f_of_small_uint)
  then show ?thesis
    using threshold_0_9[OF _ p t assms(2)] by (simp add: chunk_mapping_def)
qed

theorem chunk_mapping_nine_tenths_witness:
  "chunk_mapping (zero_chunk\<lparr>ck_pollutor_ref := 9, ck_total_ref := 10\<rparr>) = OPEN_MAPPING"
  using chunk_mapping_nine_tenths[of "zero_chunk\<lparr>ck_pollutor_ref := 9, ck_total_ref := 10\<rparr>"] by simp

section \<open>The prediction of a context\<close>

lemma predict_update_types:
  "predict_type0 (predict_update k c) = predict_type1 c" "predict_type1 (predict_update k c) = chunk_mapping k"
  "ac_word0 (predict_update k c) = ac_word0 c"
  by (simp_all add: predict_update_def Let_def)

lemma update_s2c_map_cells:
  "update_s2c_map sz mapping s = Inr s' \<Longrightarrow> ctx_cell s' = ctx_cell s \<and> ck_cell s' = ck_cell s"
  by (auto simp: update_s2c_map_def rbind_eq_Inr)

lemma update_context_mapping_type_cells:
  assumes "update_context_mapping_type k s = Inr (m, s')"
  shows "m = chunk_mapping (ck_cell s k)" "ck_cell s' = ck_cell s"
    "ctx_cell s' = (ctx_cell s)(ck_context (ck_cell s k) := predict_update (ck_cell s k) (ctx_cell s (ck_context (ck_cell s k))))"
  using assms by (auto simp: update_context_mapping_type_def rbind_eq_Inr Let_def dest: update_s2c_map_cells split: if_splits)

text \<open>A context is predicted restricted only after two restricted chunks in a row: when the results of
  monitoring two chunks of one context have been recorded, one after the other, the hint for
  the next allocation of the context is restricted if both chunks were found restricted and open
  otherwise, whatever was recorded before.\<close>

theorem hint_needs_two_restricted_chunks:
  assumes "update_context_mapping_type k1 s = Inr (m1, s1)" and "update_context_mapping_type k2 s1 = Inr (m2, s2)"
    and "ck_context (ck_cell s k1) = c" and "ck_context (ck_cell s k2) = c"
    and "ac_word0 (ctx_cell s c) \<noteq> MAP_ONLY_CONTEXT"
  shows "NightWatch_heap_type_hint (Ctx c) s2 =
    (if m1 = RESTRICT_MAPPING \<and> m2 = RESTRICT_MAPPING then RESTRICT_MAPPING else OPEN_MAPPING)"
  using update_context_mapping_type_cells[OF assms(1)] update_context_mapping_type_cells[OF assms(2)] assms(3-5)
  by (auto simp: NightWatch_heap_type_hint_def deref_ctx_def predict_update_types Let_def)

theorem hint_needs_two_restricted_chunks_witness:
  "\<exists>s1 s2. update_context_mapping_type 8 (boot\<lparr>ctx_cell := \<lambda>_. zero_context\<lparr>ac_word0 := 7\<rparr>,
      ck_cell := \<lambda>_. zero_chunk\<lparr>ck_size := 100000\<rparr>\<rparr>) = Inr (OPEN_MAPPING, s1) \<and>
    update_context_mapping_type 8 s1 = Inr (OPEN_MAPPING, s2) \<and> NightWatch_heap_type_hint (Ctx 0) s2 = OPEN_MAPPING"
proof -
  let ?k = "zero_chunk\<lparr>ck_size := 100000\<rparr>"
  let ?s = "boot\<lparr>ctx_cell := \<lambda>_. zero_context\<lparr>ac_word0 := 7\<rparr>, ck_cell := \<lambda>_. ?k\<rparr>"
  have m: "chunk_mapping ?k = OPEN_MAPPING" by (simp add: chunk_mapping_def chunk_mr_def D0_9_def zero_chunk_def)
  have c: "ck_context ?k = 0" "\<not> ck_size ?k \<le> S2T_MAP_SIZE" by (simp_all add: zero_chunk_def S2T_MAP_SIZE_def)
  define s1 where "s1 = upd_ctx 0 (predict_update ?k) ?s"
  define s2 where "s2 = upd_ctx 0 (predict_update ?k) s1"
  have 1: "update_context_mapping_type 8 ?s = Inr (OPEN_MAPPING, s1)"
    using m c by (simp add: update_context_mapping_type_def s1_def Let_def)
  have "ck_cell s1 = (\<lambda>_. ?k)" by (simp add: s1_def)
  then have 2: "update_context_mapping_type 8 s1 = Inr (OPEN_MAPPING, s2)"
    using m c by (simp add: update_context_mapping_type_def s2_def Let_def)
  from hint_needs_two_restricted_chunks[OF 1 2, of 0] c(1) 1 2 show ?thesis
    by (auto simp: MAP_ONLY_CONTEXT_def mapping_defs)
qed

section \<open>The interval between sampled chunks\<close>

text \<open>The sampling interval of a context, chunk after chunk. While every monitored chunk (smaller than a
  large chunk) confirms its mapping, the interval of a context starts at 1 and doubles; it is
  \<open>2 ^ (n - 1)\<close> after \<open>n\<close> confirmations up to 31, then the 32-bit shift overflows to
  \<open>- 2 ^ 31\<close> and to 0, and the sequence starts again with period 33.\<close>

theorem skip_interval_doubles_and_wraps:
  assumes "skip_interval c = 0" and "ck_size k < LARGE_MEMORY_CHUNK" and "chunk_mapping k = ck_mapping_type k"
  shows "skip_interval ((predict_update k ^^ n) c) =
      (if n mod 33 = 0 then 0 else if n mod 33 = 32 then - (2 ^ 31) else 2 ^ (n mod 33 - 1)) \<and>
    (0 < n \<longrightarrow> sample_skip ((predict_update k ^^ n) c) = skip_interval ((predict_update k ^^ n) c))"
proof -
  let ?f = "\<lambda>n. skip_interval ((predict_update k ^^ n) c)"
  have step: "?f (Suc n) = (if ?f n = 0 then 1 else i32 (?f n * 2))" for n
    using assms(2,3) by (simp add: predict_update_def Let_def)
  have "?f n = (if n mod 33 = 0 then 0 else if n mod 33 = 32 then - (2 ^ 31) else 2 ^ (n mod 33 - 1))"
  proof (induction n)
    case 0
    show ?case using assms(1) by simp
  next
    case (Suc n)
    define j where "j = n mod 33"
    have j: "j < 33" "Suc n mod 33 = (if j = 32 then 0 else Suc j)" by (simp_all add: j_def mod_Suc)
    consider "j = 0" | "j = 32" | "j = 31" | "0 < j" "j < 31" using j(1) by linarith
    then show ?case
    proof cases
      case 4
      then have "(2 :: int) ^ (j - 1) * 2 = 2 ^ j" by (cases j) simp_all
      moreover have "(2 :: int) ^ j \<le> 2 ^ 30" using 4 by (intro power_increasing) simp_all
      then have "i32 (2 ^ j) = 2 ^ j" by (intro i32_id) (simp_all add: order_trans[of _ 0])
      ultimately show ?thesis using 4 j Suc.IH step[of n] by (simp add: j_def[symmetric])
    qed (use j Suc.IH step[of n] in \<open>simp_all add: j_def[symmetric] i32_def\<close>)
  qed
  moreover have "sample_skip ((predict_update k ^^ n) c) = ?f n" if "0 < n"
    using that assms(2) by (cases n) (simp_all add: predict_update_def Let_def)
  ultimately show ?thesis by simp
qed

theorem skip_interval_doubles_and_wraps_witness:
  "skip_interval ((predict_update (zero_chunk\<lparr>ck_mapping_type := OPEN_MAPPING\<rparr>) ^^ 32) zero_context) = - (2 ^ 31)"
proof -
  have "chunk_mapping (zero_chunk\<lparr>ck_mapping_type := OPEN_MAPPING\<rparr>) = OPEN_MAPPING"
    by (simp add: chunk_mapping_def chunk_mr_def D0_9_def zero_chunk_def)
  then show ?thesis
    using skip_interval_doubles_and_wraps[of zero_context "zero_chunk\<lparr>ck_mapping_type := OPEN_MAPPING\<rparr>" 32]
    by (simp add: zero_context_def zero_chunk_def LARGE_MEMORY_CHUNK_def)
qed

section \<open>The hint of the parallel version\<close>

lemma init_context_snapshot:
  fixes t :: "(hash_map_mt, 'x) lstate"
  assumes inv: "mt_inv t (context_hash_map t)" and i: "init_context_mt key c t = Inr s'"
  shows "ctx_snapshot s' = ctx_snapshot t"
proof -
  obtain u ret m v where a: "hash_map_add_member_mt (context_hash_map t) key c u = Inr (ret, m, v)"
      "s' = v\<lparr>context_hash_map := m\<rparr>" "ctx_snapshot u = ctx_snapshot t"
      "free_member u = free_member t" "mm_cell u = mm_cell t" "fm_init u = fm_init t"
    using i by (auto simp: init_context_mt_def rbind_eq_Inr upd_ctx_def Let_def)
  have "mt_inv u (context_hash_map t)" using inv a(4-6) mt_inv_cong[of u t] by simp
  from more_lp_fields(2)[OF conjunct1[OF hash_map_add_member_mt_frame[OF this a(1)]]] show ?thesis
    using a(2,3) by simp
qed

lemma find_or_new_context_snapshot:
  fixes s :: "(hash_map_mt, 'x) lstate"
  assumes "mt_inv s (context_hash_map s)" and "find_or_new_context_mt s = Inr (c, s')"
  shows "ctx_snapshot s' = ctx_snapshot s"
proof -
  let ?m = "context_hash_map s" and ?s = "s\<lparr>backtrace_cnt := backtrace_cnt s + 1\<rparr>"
  have l: "locks_free ?m" using assms(1) by (simp add: mt_inv_def)
  have same: "s\<lparr>backtrace_cnt := n, context_hash_map := context_hash_map s\<rparr> = s\<lparr>backtrace_cnt := n\<rparr>" for n
    by (cases s) simp
  from assms(2) obtain v where
      r: "(if v \<noteq> NULL then Inr (v, ?s)
        else let (d, u) = context_alloc_mt ?s in rbind (init_context_mt (stack_key s) d u) (\<lambda>u. Inr (d, u))) = Inr (c, s')"
    by (auto simp: find_or_new_context_mt_def get_context_key_xor hash_map_find_member_mt_eq[OF l] rbind_eq_Inr Let_def same
        cong: if_cong)
  show ?thesis
  proof (cases "v = NULL")
    case True
    obtain d t where al: "context_alloc_mt ?s = (d, t)" by fastforce
    have t: "free_member t = free_member s" "mm_cell t = mm_cell s" "fm_init t = fm_init s"
      "context_hash_map t = ?m" "ctx_snapshot t = ctx_snapshot s"
      using al by (auto simp: context_alloc_mt_def ensure_free_context_def internal_malloc_def upd_ctx_def Let_def
          split: list.splits if_splits)
    have "mt_inv t ?m" using assms(1) t mt_inv_cong[of t s] by simp
    then show ?thesis using r True al t init_context_snapshot[of t "stack_key s" d s'] by (auto simp: rbind_eq_Inr)
  qed (use r in auto)
qed

text \<open>The prediction does not reach the allocator. In the parallel version \<open>NightWatch_get_alloc_context\<close>
  hands out, for a size above the table, a snapshot that leaves out the predicted types. A thread whose
  snapshot is zero-initialised gets the hint RESTRICT from it always, also for a context whose
  prediction is not restricted and whose own hint is OPEN.\<close>

theorem snapshot_hint_ignores_prediction:
  fixes s :: "(hash_map_mt, 'x) lstate"
  assumes "mt_inv s (context_hash_map s)" and "S2T_MAP_SIZE < sz"
    and "NightWatch_get_alloc_context_mt sz s = Inr (r, s')"
    and "predict_type0 (ctx_snapshot s) = 0" and "predict_type1 (ctx_snapshot s) = 0"
  shows "\<exists>c. r = CtxSnapshot \<and> ac_word0 (deref_ctx r s') = c \<and>
    predict_type0 (ctx_snapshot s') = 0 \<and> predict_type1 (ctx_snapshot s') = 0 \<and>
    (c \<noteq> NULL \<longrightarrow> NightWatch_heap_type_hint r s' = RESTRICT_MAPPING) \<and>
    (ac_word0 (ctx_cell s' c) \<noteq> MAP_ONLY_CONTEXT \<and> predict_type1 (ctx_cell s' c) \<noteq> RESTRICT_MAPPING \<longrightarrow>
     NightWatch_heap_type_hint (Ctx c) s' = OPEN_MAPPING)"
proof -
  obtain c s1 where f: "find_or_new_context_mt s = Inr (c, s1)" "snapshot_context_mt c s1 = Inr (r, s')"
    using assms(2,3) by (auto simp: NightWatch_get_alloc_context_mt_def rbind_eq_Inr)
  have "ctx_snapshot s1 = ctx_snapshot s" using find_or_new_context_snapshot[OF assms(1) f(1)] .
  moreover have "r = CtxSnapshot" "predict_type0 (ctx_snapshot s') = predict_type0 (ctx_snapshot s1)"
    "predict_type1 (ctx_snapshot s') = predict_type1 (ctx_snapshot s1)" "ac_word0 (ctx_snapshot s') = c"
    using f(2) by (auto simp: snapshot_context_mt_def lock_ctx_def unlock_ctx_def copy_context_mt_def upd_ctx_def
        rbind_eq_Inr split: if_splits)
  ultimately show ?thesis using assms(4,5)
    by (auto simp: NightWatch_heap_type_hint_def deref_ctx_def MAP_ONLY_CONTEXT_def RESTRICT_MAPPING_def Let_def)
qed

theorem snapshot_hint_ignores_prediction_witness:
  "\<exists>r s'. NightWatch_get_alloc_context_mt 100000 boot = Inr (r, s') \<and>
     (ac_word0 (deref_ctx r s') \<noteq> NULL \<longrightarrow> NightWatch_heap_type_hint r s' = RESTRICT_MAPPING)"
proof -
  have b: "context_hash_map boot = fresh_mt" "predict_type0 (ctx_snapshot boot) = 0" "predict_type1 (ctx_snapshot boot) = 0"
    by (simp_all add: boot_def zero_context_def)
  obtain c t where al: "context_alloc_mt (boot\<lparr>backtrace_cnt := backtrace_cnt boot + 1\<rparr>) = (c, t)" by fastforce
  have "can_add u (mt_hm fresh_mt)" for u :: "hash_map_mt nw_state" using fresh_members by (simp add: can_add_def)
  then obtain s1 where s1: "find_or_new_context_mt boot = Inr (c, s1)" "\<not> ac_lock (ctx_cell s1 c)"
    using find_context_miss[OF _ _ _ al] b(1) boot_maps by auto
  define s' where "s' = unlock_ctx c (copy_context_mt c (upd_ctx c (\<lambda>x. x\<lparr>ac_lock := True\<rparr>) s1))"
  have g: "NightWatch_get_alloc_context_mt 100000 boot = Inr (CtxSnapshot, s')"
    using s1 by (simp add: NightWatch_get_alloc_context_mt_def S2T_MAP_SIZE_def snapshot_context_mt_def lock_ctx_def s'_def)
  have "mt_inv boot (context_hash_map boot)" "S2T_MAP_SIZE < 100000"
    using b(1) boot_maps by (simp_all add: S2T_MAP_SIZE_def)
  from snapshot_hint_ignores_prediction[OF this g b(2,3)] g show ?thesis by auto
qed

end
