(* ===== verification/Monitor_Correct.thy ===== *)
theory Monitor_Correct
  imports Monitor_Invariant Predictor_Correct
begin

text \<open>
  Properties of the chunk monitor of the parallel version: how many cycles a chunk is sampled, where
  its samples lie, which addresses a buffer is searched at, and what happens when a sampling cycle is
  completed inside a timer handler.
\<close>

section \<open>The number of cycles\<close>

lemma le_div_int:
  fixes a b c :: int
  assumes "0 < c"
  shows "a \<le> b div c \<longleftrightarrow> a * c \<le> b"
proof
  assume "a \<le> b div c"
  then have "a * c \<le> b div c * c" using assms by simp
  also have "\<dots> \<le> b" using div_mult_mod_eq[of b c] pos_mod_sign[OF assms, of b] by linarith
  finally show "a * c \<le> b" .
next
  assume "a * c \<le> b"
  then show "a \<le> b div c" using zdiv_mono1[of "a * c" b c] assms by simp
qed

lemma base_cycle_loop_card: "base_cycle_loop m c r = c + int (card {j. j < m \<and> 2 ^ j \<le> uint r})"
proof (induction m arbitrary: c r)
  case (Suc m)
  show ?case
  proof (cases "r = 0")
    case False
    then have "0 < uint r" by (simp add: word_neq_0_conv word_less_def)
    have "uint (shr64 r 1) = uint r div 2" by (simp add: shr64_def drop_bit_eq_div uint_div)
    moreover have "2 ^ Suc j \<le> uint r \<longleftrightarrow> 2 ^ j \<le> uint r div 2" for j
      by (simp add: le_div_int mult.commute)
    ultimately have "{j. j < Suc m \<and> 2 ^ j \<le> uint r} = insert 0 (Suc ` {j. j < m \<and> 2 ^ j \<le> uint (shr64 r 1)})"
      using \<open>0 < uint r\<close> by (auto simp: image_iff less_Suc_eq_0_disj)
    then have "card {j. j < Suc m \<and> 2 ^ j \<le> uint r} = Suc (card {j. j < m \<and> 2 ^ j \<le> uint (shr64 r 1)})"
      by (simp add: card_insert_if card_image)
    then show ?thesis using False Suc by simp
  qed simp
qed simp

text \<open>The number of sampling cycles a chunk must complete is 2, plus one for each of the sizes
  16 KiB, 32 KiB, ..., 512 KiB that its range reaches; so it lies between 2 and 8 for every range.\<close>

theorem base_sample_cycle_thresholds:
  "get_base_sample_cycle rng = 2 + int (card {j. j < 6 \<and> 2 ^ (14 + j) \<le> uint rng}) \<and>
   2 \<le> get_base_sample_cycle rng \<and> get_base_sample_cycle rng \<le> 8"
proof -
  have "uint (shr64 rng 14) = uint rng div 2 ^ 14" by (simp add: shr64_def drop_bit_eq_div uint_div)
  then have "2 ^ j \<le> uint (shr64 rng 14) \<longleftrightarrow> 2 ^ (14 + j) \<le> uint rng" for j
    by (simp add: le_div_int power_add mult.commute)
  then have "get_base_sample_cycle rng = 2 + int (card {j. j < 6 \<and> 2 ^ (14 + j) \<le> uint rng})"
    by (simp add: get_base_sample_cycle_def base_cycle_loop_card MIN_SAMPLE_CYCLE_def MAX_SAMPLE_CYCLE_def)
  moreover have "card {j :: nat. j < 6 \<and> 2 ^ (14 + j) \<le> uint rng} \<le> card {..<6 :: nat}"
    by (rule card_mono) auto
  ultimately show ?thesis by simp
qed

section \<open>Convergence\<close>

text \<open>A whole cycle: every sample of the chunk has been taken once, as a victim or as a pollutor.\<close>

definition one_cycle :: "uint32 \<Rightarrow> uint32 \<Rightarrow> memory_chunk \<Rightarrow> memory_chunk" where
  "one_cycle v p k = snd (finish_cycle (k\<lparr>ck_i_victim_ref := v, ck_i_pollutor_ref := p, ck_i_total_ref := v + p\<rparr>))"

definition fresh_chunk :: "nat \<Rightarrow> memory_chunk \<Rightarrow> bool" where
  "fresh_chunk n k \<longleftrightarrow> ck_nr_sample k = int n \<and> ck_state k = CHUNK_UNDER_MONIT \<and> ck_sample_cycle k = 0 \<and>
     ck_victim_ref k = 0 \<and> ck_pollutor_ref k = 0 \<and> ck_total_ref k = 0"

lemma f_div_self: "0 < uint w \<Longrightarrow> f_div (f_of_uint w) (f_of_uint w) = 1"
proof -
  assume "0 < uint w"
  then have "0 < (of_int (uint w) :: rat)" by linarith
  from fl32_binade(1)[OF this] have "0 < fl32 (of_int (uint w))" using pow2_pos less_le_trans by blast
  then show ?thesis by (simp add: f_div_def f_of_uint_def)
qed

lemma f_zero [simp]: "f_of_uint 0 = 0" "f_div 0 x = 0" "f_sub x x = 0"
  by (simp_all add: f_of_uint_def f_div_def f_sub_def fl32_def)

lemma one_cycle_eq:
  assumes "v + p = word_of_int (ck_nr_sample k)"
  shows "one_cycle v p k = k\<lparr>
      ck_state := (if \<not> ck_sample_cycle k < ck_base_sample_cycle k - 1 \<and>
          cycle_converged (k\<lparr>ck_i_victim_ref := v, ck_i_pollutor_ref := p, ck_i_total_ref := v + p\<rparr>)
        then CHUNK_MONIT_FINISH else ck_state k),
      ck_victim_ref := ck_victim_ref k + v, ck_pollutor_ref := ck_pollutor_ref k + p,
      ck_total_ref := ck_total_ref k + (v + p), ck_i_victim_ref := 0, ck_i_pollutor_ref := 0, ck_i_total_ref := 0,
      ck_sample_cycle := ck_sample_cycle k + 1\<rparr>"
  using assms by (cases k) (simp add: one_cycle_def finish_cycle_def Let_def)

text \<open>After \<open>i\<close> such cycles, the last one not among them.\<close>

definition after_cycles :: "nat \<Rightarrow> nat \<Rightarrow> uint32 \<Rightarrow> uint32 \<Rightarrow> int \<Rightarrow> memory_chunk \<Rightarrow> bool" where
  "after_cycles i n v p base k \<longleftrightarrow> ck_nr_sample k = int n \<and> ck_base_sample_cycle k = base \<and>
     ck_state k = CHUNK_UNDER_MONIT \<and> ck_sample_cycle k = int i \<and> ck_victim_ref k = of_nat i * v \<and>
     ck_pollutor_ref k = of_nat i * p \<and> ck_total_ref k = of_nat i * of_nat n"

lemma after_cycles_iterate:
  assumes k: "fresh_chunk n k" and i: "int i \<le> ck_base_sample_cycle k - 1" and vp: "v + p = of_nat n"
  shows "after_cycles i n v p (ck_base_sample_cycle k) ((one_cycle v p ^^ i) k)"
  using i
proof (induction i)
  case 0
  then show ?case using k by (simp add: fresh_chunk_def after_cycles_def)
next
  case (Suc i)
  then have a: "after_cycles i n v p (ck_base_sample_cycle k) ((one_cycle v p ^^ i) k)" by simp
  then have "v + p = word_of_int (ck_nr_sample ((one_cycle v p ^^ i) k))" using vp by (simp add: after_cycles_def)
  from one_cycle_eq[OF this] show ?case
    using a Suc.prems vp by (simp add: after_cycles_def distrib_right)
qed

lemma uint32_of_nat: "m < 2 ^ 32 \<Longrightarrow> uint (of_nat m :: uint32) = int m"
  by (simp add: unsigned_of_nat take_bit_nat_eq_self_iff)

lemma after_cycles_converged:
  assumes a: "after_cycles i n v p base k" and i: "0 < i" and n: "0 < n" "Suc i * n < 2 ^ 32"
    and vp: "v = 0 \<and> p = of_nat n \<or> v = of_nat n \<and> p = 0"
  shows "cycle_converged (k\<lparr>ck_i_victim_ref := v, ck_i_pollutor_ref := p, ck_i_total_ref := v + p\<rparr>)"
    and "chunk_mapping (one_cycle v p k) = (if v = 0 then RESTRICT_MAPPING else OPEN_MAPPING)"
proof -
  have lt: "i * n < 2 ^ 32" using n by simp
  define t where "t = (of_nat i * of_nat n :: uint32)"
  define t' where "t' = (of_nat n + of_nat i * of_nat n :: uint32)"
  have ut: "uint t = int (i * n)" using uint32_of_nat[OF lt] by (simp add: t_def)
  have ut': "uint t' = int (Suc i * n)" using uint32_of_nat[OF n(2)] by (simp add: t'_def algebra_simps)
  have "0 < i * n" "0 < Suc i * n" using i n(1) by simp_all
  then have nz: "0 < uint t" "0 < uint t'" unfolding ut ut' by linarith+
  then have z: "t \<noteq> 0" "t' \<noteq> 0" by auto
  have sum: "t + of_nat n = t'" by (simp add: t_def t'_def)
  have tot: "ck_total_ref k = t" and pol: "ck_pollutor_ref k = (if v = 0 then t else 0)"
    using a vp by (auto simp: after_cycles_def t_def)
  have nz': "of_nat n \<noteq> (0 :: uint32)" using n uint32_of_nat[of n] by auto
  have d: "f_div (f_of_uint t) (f_of_uint t) = 1" "f_div (f_of_uint t') (f_of_uint t') = 1"
    using f_div_self nz by blast+
  show "cycle_converged (k\<lparr>ck_i_victim_ref := v, ck_i_pollutor_ref := p, ck_i_total_ref := v + p\<rparr>)"
    using vp nz' z d by (auto simp: cycle_converged_def chunk_mr_def Let_def tot pol sum D0_05_def)
  have "v + p = word_of_int (ck_nr_sample k)" using a vp by (auto simp: after_cycles_def)
  note e = one_cycle_eq[OF this]
  show "chunk_mapping (one_cycle v p k) = (if v = 0 then RESTRICT_MAPPING else OPEN_MAPPING)"
    using vp z nz' d by (auto simp: e chunk_mapping_def chunk_mr_def tot pol sum D0_9_def)
qed

text \<open>C20: monitoring ends. A chunk whose samples all agree, every one a pollutor or every one a victim, is
  monitored for exactly the number of cycles that was set for it: no earlier cycle ends the
  monitoring, the last one does, and the mapping chosen is the restricted one for pollutors and the
  open one for victims.\<close>

theorem agreeing_chunk_converges:
  assumes "fresh_chunk n k" and "0 < n" and "n * nat (ck_base_sample_cycle k) < 2 ^ 32" and "2 \<le> ck_base_sample_cycle k"
    and "v = 0 \<and> p = of_nat n \<or> v = of_nat n \<and> p = 0"
  shows "(\<forall>i < nat (ck_base_sample_cycle k). ck_state ((one_cycle v p ^^ i) k) = CHUNK_UNDER_MONIT) \<and>
    ck_state ((one_cycle v p ^^ nat (ck_base_sample_cycle k)) k) = CHUNK_MONIT_FINISH \<and>
    chunk_mapping ((one_cycle v p ^^ nat (ck_base_sample_cycle k)) k) = (if v = 0 then RESTRICT_MAPPING else OPEN_MAPPING)"
proof -
  define i where "i = nat (ck_base_sample_cycle k) - 1"
  have b: "nat (ck_base_sample_cycle k) = Suc i" "ck_base_sample_cycle k = int i + 1" "0 < i"
    using assms(4) by (auto simp: i_def)
  have vp: "v + p = of_nat n" using assms(5) by auto
  have lt: "Suc i * n < 2 ^ 32" using assms(3) b(1) by (simp add: mult.commute)
  have a: "after_cycles i n v p (ck_base_sample_cycle k) ((one_cycle v p ^^ i) k)"
    by (rule after_cycles_iterate[OF assms(1) _ vp]) (use b in simp)
  note c = after_cycles_converged[OF a b(3) assms(2) lt assms(5)]
  have "v + p = word_of_int (ck_nr_sample ((one_cycle v p ^^ i) k))" using a vp by (simp add: after_cycles_def)
  from one_cycle_eq[OF this] have "ck_state (one_cycle v p ((one_cycle v p ^^ i) k)) = CHUNK_MONIT_FINISH"
    using a b(2) c(1) by (simp add: after_cycles_def)
  moreover have "ck_state ((one_cycle v p ^^ j) k) = CHUNK_UNDER_MONIT" if "j < Suc i" for j
    using after_cycles_iterate[OF assms(1) _ vp, of j] that b(2) by (simp add: after_cycles_def)
  ultimately show ?thesis using c(2) by (simp add: b(1))
qed

theorem agreeing_chunk_converges_witness:
  "let k = zero_chunk\<lparr>ck_nr_sample := 4, ck_state := CHUNK_UNDER_MONIT, ck_base_sample_cycle := 3\<rparr>
   in fresh_chunk 4 k \<and> ck_state ((one_cycle 0 4 ^^ 2) k) = CHUNK_UNDER_MONIT \<and>
      ck_state ((one_cycle 0 4 ^^ 3) k) = CHUNK_MONIT_FINISH \<and> chunk_mapping ((one_cycle 0 4 ^^ 3) k) = RESTRICT_MAPPING"
proof -
  let ?k = "zero_chunk\<lparr>ck_nr_sample := 4, ck_state := CHUNK_UNDER_MONIT, ck_base_sample_cycle := 3\<rparr>"
  have "fresh_chunk 4 ?k" by (simp add: fresh_chunk_def zero_chunk_def)
  from agreeing_chunk_converges[OF this, of 0 4] this show ?thesis by (auto simp: Let_def)
qed

section \<open>Where samples are placed\<close>

text \<open>The window of sample \<open>i\<close> among \<open>n\<close>: from the page of its start to the page of the next one.\<close>

definition window :: "int \<Rightarrow> int \<Rightarrow> int \<Rightarrow> int" where
  "window rng n i = i * (rng div n) div 4096 * 4096"

lemma floor_page: "x - x mod 4096 = x div 4096 * 4096" for x :: int
  by (simp add: minus_mod_eq_div_mult)

lemma window_step:
  assumes "0 < n" and "n * 4096 \<le> rng"
  shows "window rng n i + 4096 \<le> window rng n (i + 1)"
proof -
  have "4096 \<le> rng div n" using assms by (simp add: le_div_int mult.commute)
  then have "i * (rng div n) + 4096 \<le> (i + 1) * (rng div n)" by (simp add: distrib_right)
  then have "(i * (rng div n) + 1 * 4096) div 4096 \<le> (i + 1) * (rng div n) div 4096" by (intro zdiv_mono1) simp_all
  then show ?thesis by (simp add: window_def)
qed

lemma window_mono:
  assumes "0 < n" and "n * 4096 \<le> rng" and "i \<le> j"
  shows "window rng n i \<le> window rng n j"
proof -
  have "0 \<le> rng div n" using assms by (simp add: pos_imp_zdiv_nonneg_iff)
  then show ?thesis using assms(3) by (simp add: window_def zdiv_mono1 mult_right_mono)
qed

lemma window_end:
  assumes "0 < n" and "n * 4096 \<le> rng" and "i \<le> n"
  shows "window rng n i \<le> rng"
proof -
  have "window rng n n \<le> n * (rng div n)" using div_mult_mod_eq[of "n * (rng div n)" 4096] by (simp add: window_def)
  also have "\<dots> \<le> rng" using assms(1) le_div_int[of n "rng div n" rng] by (simp add: mult.commute)
  finally show ?thesis using window_mono[OF assms] by linarith
qed

text \<open>The offset of a sample, before it is added to the start of the chunk.\<close>

lemma offset_in_window:
  fixes w i r :: int
  assumes "4096 \<le> w" and "0 \<le> r" and "r < w" and "0 \<le> i"
  defines "o' \<equiv> (r + i * w) div 4096 * 4096" and "b \<equiv> (i + 1) * w div 4096 * 4096"
  shows "i * w div 4096 * 4096 \<le> (if b \<le> o' then b - 4096 else o')"
    and "(if b \<le> o' then b - 4096 else o') + 4096 \<le> b"
proof -
  have 1: "i * w div 4096 \<le> (r + i * w) div 4096" using assms(2) by (intro zdiv_mono1) simp_all
  have 2: "(i * w + 1 * 4096) div 4096 \<le> (i + 1) * w div 4096" using assms(1) by (intro zdiv_mono1) (simp_all add: distrib_right)
  show "i * w div 4096 * 4096 \<le> (if b \<le> o' then b - 4096 else o')" using 1 2 by (simp add: o'_def b_def)
  show "(if b \<le> o' then b - 4096 else o') + 4096 \<le> b" unfolding o'_def b_def by (simp add: not_le)
qed

lemma sample_addr_in_window:
  fixes start rng :: uint64
  assumes st: "uint start mod 4096 = 0" and no: "uint start + uint rng < 2 ^ 64" and n: "0 < n" "n * 4096 \<le> uint rng"
    and i: "0 \<le> i" "i < n"
  shows "\<exists>a. sample_addr start (start + rng) rng i n r = Inr a \<and> uint a mod 4096 = 0 \<and>
    uint start + window (uint rng) n i \<le> uint a \<and> uint a + 4096 \<le> uint start + window (uint rng) n (i + 1)"
proof -
  define w where "w = uint rng div n"
  let ?w = "rng div to_u64 n"
  have R: "uint rng < 2 ^ 64" using no uint_ge_0[of start] by linarith
  have ns: "uint (to_u64 n) = n" using n R by (simp add: uint_word_of_int)
  have w: "uint ?w = w" by (simp add: uint_div ns w_def)
  have w4: "4096 \<le> w" using n by (simp add: w_def le_div_int mult.commute)
  have nw: "(i + 1) * w \<le> uint rng"
  proof -
    have "(i + 1) * w \<le> n * w" using i w4 by (intro mult_right_mono) simp_all
    also have "\<dots> \<le> uint rng" using n le_div_int[of n w "uint rng"] by (simp add: w_def mult.commute)
    finally show ?thesis .
  qed
  define q where "q = uint (to_u64 r) mod w"
  have q: "0 \<le> q" "q < w" using w4 by (simp_all add: q_def)
  have um: "uint (to_u64 j * ?w) = j * w" if "0 \<le> j" "j \<le> i + 1" for j
  proof -
    have "j * w \<le> (i + 1) * w" using that w4 by (intro mult_right_mono) simp_all
    moreover have "j \<le> j * w" using that w4 mult_left_mono[of 1 w j] by simp
    ultimately have "j * w < 2 ^ 64" "j < 2 ^ 64" using nw R by linarith+
    moreover from this have "uint (to_u64 j) = j" using that by (simp add: uint_word_of_int)
    ultimately show ?thesis using uint_mult_lem[of "to_u64 j" ?w] w by simp
  qed
  have uo: "uint (to_u64 r mod ?w + to_u64 i * ?w) = q + i * w"
  proof -
    have "uint (to_u64 r mod ?w) = q" by (simp add: uint_mod w q_def)
    moreover have "q + i * w < 2 ^ 64" using q nw R by (simp add: distrib_right)
    ultimately show ?thesis using uint_add_lem[of "to_u64 r mod ?w" "to_u64 i * ?w"] um[of i] i by simp
  qed
  let ?o = "(to_u64 r mod ?w + to_u64 i * ?w) AND PAGE_MASK" and ?b = "(to_u64 (i + 1) * ?w) AND PAGE_MASK"
  have o: "uint ?o = (q + i * w) div 4096 * 4096" using uo by (simp only: and_page_mask floor_page)
  have b: "uint ?b = window (uint rng) n (i + 1)" using um[of "i + 1"] i by (simp only: and_page_mask floor_page window_def w_def)
  have wi: "window (uint rng) n i = i * w div 4096 * 4096" "window (uint rng) n (i + 1) = (i + 1) * w div 4096 * 4096"
    by (simp_all add: window_def w_def)
  define off where "off = (if ?b \<le> ?o then ?b - PAGE_SIZE else ?o)"
  have "0 \<le> window (uint rng) n i" using window_mono[OF n, of 0 i] i by (simp add: window_def)
  then have "4096 \<le> uint ?b" using b window_step[OF n, of i] by linarith
  then have "uint (?b - PAGE_SIZE) = uint ?b - 4096" using uint_sub_lem[of PAGE_SIZE ?b] by (simp add: PAGE_SIZE_def)
  then have off: "uint off = (if uint ?b \<le> uint ?o then uint ?b - 4096 else uint ?o)"
    by (simp add: off_def word_le_def)
  have lo: "window (uint rng) n i \<le> uint off" and hi: "uint off + 4096 \<le> window (uint rng) n (i + 1)"
    using offset_in_window[OF w4 q i(1)] unfolding off o b wi by simp_all
  have al: "uint off mod 4096 = 0"
  proof -
    have "(x * 4096 - 4096) mod 4096 = 0" for x :: int
      by (metis left_diff_distrib mod_mult_self2_is_0 mult_1)
    then show ?thesis unfolding off o b wi by simp
  qed
  have top: "window (uint rng) n (i + 1) \<le> uint rng" using window_end[OF n] i by simp
  have ua: "uint (start + off) = uint start + uint off"
    using uint_add_lem[of start off] hi top no by simp
  have us: "uint (start + rng) = uint start + uint rng" using uint_add_lem[of start rng] no by simp
  have "\<not> start + rng \<le> start + off" using ua us hi top by (simp add: word_le_def)
  moreover have "to_u64 n \<noteq> 0" "?w \<noteq> 0" using ns n w w4 by auto
  ultimately have "sample_addr start (start + rng) rng i n r = Inr (start + off)"
    by (simp only: sample_addr_def Let_def off_def[symmetric] if_False simp_thms)
  moreover have "uint (start + off) mod 4096 = 0" using st al by (simp add: ua mod_add_eq[symmetric])
  ultimately show ?thesis using ua lo hi by auto
qed

lemma get_nr_sample_bounds:
  assumes "0 < uint rng div 4096" and "uint rng div 4096 < 2 ^ 31"
    and "0 \<le> pw (shr64 rng PAGE_SHIFT)" and "pw (shr64 rng PAGE_SHIFT) \<le> uint rng div 4096"
  shows "0 < get_nr_sample pw rng" and "get_nr_sample pw rng * 4096 \<le> uint rng"
proof -
  have p: "uint (shr64 rng PAGE_SHIFT) = uint rng div 4096" by (simp add: shr64_def PAGE_SHIFT_def drop_bit_eq_div uint_div)
  let ?n = "pw (shr64 rng PAGE_SHIFT)"
  have "uint (to_u64 ?n) = ?n" using assms by (simp add: uint_word_of_int)
  then have "get_nr_sample pw rng = (if ?n < uint rng div 4096 then ?n + 1 else ?n)"
    by (simp add: get_nr_sample_def Let_def word_less_def p)
  then have "0 < get_nr_sample pw rng \<and> get_nr_sample pw rng \<le> uint rng div 4096" using assms by auto
  then show "0 < get_nr_sample pw rng" "get_nr_sample pw rng * 4096 \<le> uint rng" by (simp_all add: le_div_int)
qed

text \<open>C19: the samples of a chunk lie on distinct pages inside it. For a page-aligned range of at least one
  page, whatever the generator returns, the address computed for sample \<open>i\<close> of the number
  \<open>get_nr_sample\<close> gives is a page of the range; of two samples the later one lies on a later page. So
  no page is given two samples, and the clamp at the end of the range is never needed.\<close>

theorem samples_on_distinct_pages:
  fixes start rng :: uint64
  assumes "uint start mod 4096 = 0" and "uint start + uint rng < 2 ^ 64"
    and "0 < uint rng div 4096" and "uint rng div 4096 < 2 ^ 31"
    and "0 \<le> pw (shr64 rng PAGE_SHIFT)" and "pw (shr64 rng PAGE_SHIFT) \<le> uint rng div 4096"
    and "0 \<le> i" and "i < j" and "j < get_nr_sample pw rng"
  shows "\<exists>a b. sample_addr start (start + rng) rng i (get_nr_sample pw rng) r = Inr a \<and>
    sample_addr start (start + rng) rng j (get_nr_sample pw rng) r' = Inr b \<and>
    uint a mod 4096 = 0 \<and> uint b mod 4096 = 0 \<and>
    uint start \<le> uint a \<and> uint a + 4096 \<le> uint b \<and> uint b + 4096 \<le> uint start + uint rng"
proof -
  let ?n = "get_nr_sample pw rng"
  note n = get_nr_sample_bounds[of rng pw, OF assms(3-6)]
  obtain a where a: "sample_addr start (start + rng) rng i ?n r = Inr a" "uint a mod 4096 = 0"
    "uint start + window (uint rng) ?n i \<le> uint a" "uint a + 4096 \<le> uint start + window (uint rng) ?n (i + 1)"
    using sample_addr_in_window[OF assms(1,2) n, of i r] assms(7-9) by auto
  obtain b where b: "sample_addr start (start + rng) rng j ?n r' = Inr b" "uint b mod 4096 = 0"
    "uint start + window (uint rng) ?n j \<le> uint b" "uint b + 4096 \<le> uint start + window (uint rng) ?n (j + 1)"
    using sample_addr_in_window[OF assms(1,2) n, of j r'] assms(7-9) by auto
  have "0 \<le> window (uint rng) ?n i"
    using window_mono[OF n, of 0 i] assms(7) by (simp add: window_def)
  moreover have "window (uint rng) ?n (i + 1) \<le> window (uint rng) ?n j" using window_mono[OF n] assms(8) by simp
  moreover have "window (uint rng) ?n (j + 1) \<le> uint rng" using window_end[OF n] assms(9) by simp
  ultimately have "uint start \<le> uint a \<and> uint a + 4096 \<le> uint b \<and> uint b + 4096 \<le> uint start + uint rng"
    using a(3,4) b(3,4) by linarith
  then show ?thesis using a(1,2) b(1,2) by (intro exI[of _ a] exI[of _ b]) simp
qed

theorem samples_on_distinct_pages_witness:
  "let pw = (\<lambda>x :: uint64. 3 :: int) in get_nr_sample pw 0x10000 = 4 \<and>
   (\<exists>a b. sample_addr 0x40000 0x50000 0x10000 1 4 77777 = Inr a \<and> sample_addr 0x40000 0x50000 0x10000 2 4 (- 5) = Inr b \<and>
      0x40000 \<le> uint a \<and> uint a + 4096 \<le> uint b \<and> uint b + 4096 \<le> 0x50000)"
proof -
  have g: "get_nr_sample (\<lambda>x. 3) 0x10000 = 4" by (simp add: get_nr_sample_def PAGE_SHIFT_def shr64_def)
  show ?thesis
    using samples_on_distinct_pages[of "0x40000" "0x10000" "\<lambda>x. 3" 1 2 77777 "- 5"] g by (auto simp: Let_def)
qed

section \<open>The search of a buffer for samples\<close>

lemma page_steps_uint:
  fixes start len :: uint64
  assumes "uint start + uint len + 4096 < 2 ^ 64" and "int i * 4096 \<le> uint len + 4096"
  shows "uint (start + of_nat i * 4096) = uint start + int i * 4096"
proof -
  have lt: "int i * 4096 < 2 ^ 64" "int i < 2 ^ 64" using assms uint_ge_0[of start] by linarith+
  then have "uint (of_nat i :: uint64) = int i" by (simp add: unsigned_of_nat take_bit_nat_eq_self_iff)
  then have "uint (of_nat i * 4096 :: uint64) = int i * 4096" using uint_mult_lem[of "of_nat i :: uint64" 4096] lt by simp
  then show ?thesis using uint_add_lem[of start "of_nat i * 4096"] assms by simp
qed

lemma range_addrs_from:
  fixes start len :: uint64
  assumes ov: "uint start + uint len + 4096 < 2 ^ 64" and "i \<le> n + 1" and "n + 2 - i \<le> fuel"
    and n: "int n = uint len div 4096"
  shows "range_addrs fuel (start + of_nat i * 4096) (start + len) = Inr (map (\<lambda>j. start + of_nat j * 4096) [i..<n + 1])"
  using assms(2,3)
proof (induction fuel arbitrary: i)
  case (Suc fuel)
  have "int i * 4096 \<le> (int n + 1) * 4096" using Suc.prems(1) by simp
  also have "\<dots> \<le> uint len + 4096" using n le_div_int[of 4096 "int n" "uint len"] by (simp add: distrib_right)
  finally have u: "uint (start + of_nat i * 4096) = uint start + int i * 4096" by (rule page_steps_uint[OF ov])
  have "uint (start + len) = uint start + uint len" using uint_add_lem[of start len] ov by simp
  then have le: "start + of_nat i * 4096 \<le> start + len \<longleftrightarrow> i \<le> n"
    using u n le_div_int[of 4096 "int i" "uint len"] by (simp add: word_le_def) linarith
  have next_addr: "start + of_nat i * 4096 + PAGE_SIZE = start + of_nat (Suc i) * 4096" by (simp add: PAGE_SIZE_def distrib_right)
  show ?case
  proof (cases "i \<le> n")
    case True
    have "range_addrs fuel (start + of_nat (Suc i) * 4096) (start + len) = Inr (map (\<lambda>j. start + of_nat j * 4096) [Suc i..<n + 1])"
      by (rule Suc.IH) (use Suc.prems(2) True in simp_all)
    moreover have "[i..<n + 1] = i # [Suc i..<n + 1]" using True by (simp add: upt_rec)
    ultimately show ?thesis using True le unfolding range_addrs.simps next_addr by (simp del: upt_Suc of_nat_Suc)
  next
    case False
    then show ?thesis using le by simp
  qed
qed simp

text \<open>At the top of the address space the loop never ends.\<close>

lemma range_addrs_max: "range_addrs fuel addr (- 1) = Inl OutOfFuel"
  by (induction fuel arbitrary: addr) simp_all

text \<open>The search of a buffer ends, and where it looks. Away from the top of the address space the loop
  of \<open>remove_sample_range\<close> visits the addresses \<open>start\<close>, \<open>start + 4096\<close>, ... up to \<open>start + len\<close>;
  the page of the last byte is among the pages visited if and only if the offset of \<open>start\<close> in its
  page and the length do not carry over into one more page. If \<open>start + len\<close> is the last address,
  no amount of steps ends the loop.\<close>

theorem buffer_search_terminates:
  fixes start len :: uint64
  assumes "uint start + uint len + 4096 < 2 ^ 64" and "0 < uint len" and "int n = uint len div 4096" and "n + 2 \<le> fuel"
  shows "(\<exists>as. range_addrs fuel start (start + len) = Inr as \<and>
      as = map (\<lambda>j. start + of_nat j * 4096) [0..<n + 1] \<and>
      ((\<exists>a \<in> set as. uint a div 4096 = (uint start + uint len - 1) div 4096) \<longleftrightarrow>
       (uint start mod 4096 + uint len - 1) div 4096 \<le> uint len div 4096)) \<and>
    range_addrs fuel start (- 1) = Inl OutOfFuel"
proof -
  let ?as = "map (\<lambda>j. start + of_nat j * 4096) [0..<n + 1]"
  have r: "range_addrs fuel start (start + len) = Inr ?as"
    using range_addrs_from[OF assms(1) _ _ assms(3), of 0 fuel] assms(4) by simp
  have u: "uint (start + of_nat j * 4096) = uint start + int j * 4096" if "j < n + 1" for j
  proof (rule page_steps_uint[OF assms(1)])
    have "int j \<le> uint len div 4096" using that assms(3) by linarith
    then show "int j * 4096 \<le> uint len + 4096" by (simp add: le_div_int)
  qed
  define m where "m = (uint start mod 4096 + uint len - 1) div 4096"
  have m: "0 \<le> m" "(uint start + uint len - 1) div 4096 = uint start div 4096 + m"
  proof -
    show "0 \<le> m" using assms(2) by (simp add: m_def)
    have e: "uint start + uint len - 1 = (uint start mod 4096 + uint len - 1) + uint start div 4096 * 4096"
      using div_mult_mod_eq[of "uint start" 4096] by linarith
    show "(uint start + uint len - 1) div 4096 = uint start div 4096 + m"
      unfolding e m_def by (rule div_mult_self1) simp
  qed
  have "(\<exists>a \<in> set ?as. uint a div 4096 = uint start div 4096 + m) \<longleftrightarrow> (\<exists>j < n + 1. int j = m)"
  proof -
    have "uint (start + of_nat j * 4096) div 4096 = uint start div 4096 + int j" if "j < n + 1" for j
      using u[OF that] by simp
    then show ?thesis by (auto simp del: upt_Suc)
  qed
  also have "\<dots> \<longleftrightarrow> m \<le> uint len div 4096"
    using m(1) assms(3) by (metis (full_types) add.commute int_nat_eq less_Suc_eq_le of_nat_le_iff plus_1_eq_Suc)
  finally show ?thesis using r range_addrs_max m(2) by (simp add: m_def del: upt_Suc)
qed

text \<open>A buffer of 32 bytes that begins 16 bytes before a page boundary: only the first page is visited.\<close>

theorem buffer_search_terminates_witness:
  "\<exists>as. range_addrs 2 0x1ff0 (0x1ff0 + 0x20) = Inr as \<and> as = [0x1ff0] \<and>
     \<not> (\<exists>a \<in> set as. uint a div 4096 = 2) \<and> range_addrs 2 0x1ff0 (- 1) = Inl OutOfFuel"
  using buffer_search_terminates[of "0x1ff0" "0x20" 0 2] by simp

section \<open>Completing a cycle inside the queue\<close>

text \<open>The sample is the one whose completion ends the monitoring of its chunk with the restricted mapping.\<close>

definition completing :: "ptr \<Rightarrow> 'x cstate \<Rightarrow> bool" where
  "completing p s \<longleftrightarrow>
     (let c = ps_chunk (ps_cell s p); k = ck_cell s c
      in c \<noteq> NULL \<and> ck_state k \<noteq> CHUNK_MONIT_FINISH \<and> \<not> ck_lock k \<and> \<not> ac_lock (ctx_cell s (ck_context k)) \<and>
         ck_state (snd (finish_cycle k)) = CHUNK_MONIT_FINISH \<and>
         chunk_mapping (snd (finish_cycle k)) = RESTRICT_MAPPING \<and> S2T_MAP_SIZE < ck_size k)"

lemma finish_cycle_locked:
  "finish_cycle (k\<lparr>ck_lock := b\<rparr>) = (fst (finish_cycle k), (snd (finish_cycle k))\<lparr>ck_lock := b\<rparr>)"
  by (cases k) (simp add: finish_cycle_def cycle_converged_def chunk_mr_def Let_def)

lemma finish_cycle_keeps:
  "ck_context (snd (finish_cycle k)) = ck_context k" "ck_size (snd (finish_cycle k)) = ck_size k"
  by (simp_all add: finish_cycle_def Let_def)

lemma next_round_keeps:
  "ck_context (next_round k) = ck_context k" "ck_size (next_round k) = ck_size k"
  "chunk_mapping (next_round k) = chunk_mapping k" "chunk_mapping (k\<lparr>ck_lock := b\<rparr>) = chunk_mapping k"
  by (simp_all add: next_round_def chunk_mapping_def chunk_mr_def)

lemma completion_under_queue_lock:
  assumes c: "completing p s" and q: "queue_lock s"
  shows "page_sample_complete_mt fuel env p s = Inl Deadlock"
proof -
  define c' where "c' = ps_chunk (ps_cell s p)"
  define k where "k = ck_cell s c'"
  define f where "f = (snd (finish_cycle k))\<lparr>ck_lock := True\<rparr>"
  note C = c[unfolded completing_def Let_def, folded c'_def, folded k_def]
  define s1 where "s1 = upd_ck c' next_round (upd_ck c' (\<lambda>_. f) (upd_ck c' (\<lambda>x. x\<lparr>ck_lock := True\<rparr>) s))"
  have k1: "ck_cell s1 c' = next_round f" by (simp add: s1_def)
  have ctx: "ck_context (next_round f) = ck_context k" "ck_size (next_round f) = ck_size k"
    "chunk_mapping (next_round f) = RESTRICT_MAPPING"
    using C by (simp_all add: next_round_keeps f_def finish_cycle_keeps)
  have "\<not> ck_size k \<le> S2T_MAP_SIZE" using C by (simp add: not_le)
  moreover have "\<not> ac_lock (ctx_cell s1 (ck_context k))" "queue_lock s1" using C q by (simp_all add: s1_def upd_ck_def)
  ultimately have "\<exists>s2. update_context_mapping_type_mt c' s1 = Inr (RESTRICT_MAPPING, s2) \<and> queue_lock s2"
    by (simp add: update_context_mapping_type_mt_def k1 ctx lock_ctx_def unlock_ctx_def upd_ctx_def Let_def)
  then obtain s2 where s2: "update_context_mapping_type_mt c' s1 = Inr (RESTRICT_MAPPING, s2)" "queue_lock s2" by blast
  have "queue_lock (if b then adjust_mapping RESTRICT_MAPPING c' s2 else s2)" for b
    using s2(2) by (simp add: adjust_mapping_def upd_ck_def Let_def)
  then have "add_time_event_mt fuel env tv h c' (if b then adjust_mapping RESTRICT_MAPPING c' s2 else s2) = Inl Deadlock" for b tv h
    by (simp add: add_time_event_mt_def take_queue_lock_def)
  moreover have "ck_state f = CHUNK_MONIT_FINISH" using C by (simp add: f_def)
  moreover have "finish_cycle (k\<lparr>ck_lock := True\<rparr>) = (fst (finish_cycle k), f)" by (simp add: finish_cycle_locked f_def)
  ultimately show ?thesis
    using C s2(1) by (simp add: page_sample_complete_mt_def c'_def[symmetric] lock_chunk_def k_def[symmetric] s1_def Let_def)
qed

lemma completing_more:
  fixes s t :: "'x cstate"
  assumes "eq_state.more s = eq_state.more t"
  shows "completing p s = completing p t"
  using assms by (cases s; cases t; simp add: completing_def)

lemma handler_under_queue_lock:
  assumes "completing p s" and "queue_lock s"
  shows "run_handler_mt (Suc n) BurstSkipHandler p now s = Inl Deadlock"
proof -
  let ?s = "upd_ps p (\<lambda>x. x\<lparr>ps_wait_timer := 0\<rparr>) s"
  have "completing p ?s" using assms(1) by (simp add: completing_def upd_ps_def)
  moreover have "queue_lock ?s" using assms(2) by (simp add: upd_ps_def)
  ultimately have "page_sample_complete_mt n (env_mt n) p ?s = Inl Deadlock" by (rule completion_under_queue_lock)
  then show ?thesis by (simp add: burst_skip_handler_mt_def Let_def)
qed

text \<open>C29: the timer signal can block its thread for ever. When the first event due belongs to a sample whose
  completion ends the monitoring of a large chunk with the restricted mapping, the signal handler,
  which holds the lock of the queue while it calls the handler of the event, calls
  \<open>add_time_event\<close> from within it, and that waits for the same lock.\<close>

theorem completion_in_timer_signal_deadlocks:
  fixes s :: "'x cstate"
  assumes "mt_inv s (private2event_map s)" and "p \<in> dom (hm_abs s (mt_hm (private2event_map s)))"
    and "\<not> queue_lock s" and "eq_status s \<noteq> EVENT_QUEUE_PENDING" and "events s = e # es"
    and "ev_handler (ev_cell s e) = BurstSkipHandler" and "ev_private (ev_cell s e) = p"
    and "tv_cmp (tv_add (clock s (clock_cnt s)) (timer_resolution s)) (ev_trigger_time (ev_cell s e)) \<noteq> - 1"
    and "completing p s"
  shows "trigger_time_event_mt (Suc fuel) (env_mt (Suc n)) s = Inl Deadlock"
proof -
  define q where "q = snd (do_pend_event_queue (s\<lparr>queue_lock := True\<rparr>))\<lparr>clock_cnt := clock_cnt s + 1\<rparr>"
  have f: "private2event_map q = private2event_map s" "events q = events s" "ev_cell q = ev_cell s" "queue_lock q"
    "timer_resolution q = timer_resolution s" "free_member q = free_member s" "mm_cell q = mm_cell s" "fm_init q = fm_init s"
    "eq_state.more q = eq_state.more s"
    by (simp_all add: q_def do_pend_event_queue_def set_timer_def Let_def)
  have "mt_inv q (private2event_map q)" "p \<in> dom (hm_abs q (mt_hm (private2event_map q)))"
    using assms(1,2) f mt_inv_cong[of q s] hm_abs_cong[of q s] by simp_all
  from mt.del_ok[OF this] obtain m t where d: "hash_map_delete_member_mt (private2event_map q) p q = Inr (m, t)" by blast
  note mt = delete_member_mt_more[OF d]
  have t: "ev_cell t = ev_cell s" "queue_lock t" using mt f(3,4) by (cases t; cases q; simp)+
  define u where "u = time_event_del e (t\<lparr>private2event_map := m\<rparr>)"
  have "eq_state.more u = eq_state.more s" using eq_more[OF mt] f(9) by (simp add: u_def time_event_del_def)
  then have "completing p u" using assms(9) completing_more by blast
  moreover have "queue_lock u" using t(2) by (simp add: u_def time_event_del_def)
  ultimately have call: "run_handler_mt (Suc n) BurstSkipHandler p now u = Inl Deadlock" for now by (rule handler_under_queue_lock)
  have "ev_cell u = ev_cell s" using t(1) by (simp add: u_def time_event_del_def)
  then have "trigger_loop (Suc fuel) (env_mt (Suc n)) (tv_add (clock s (clock_cnt s)) (timer_resolution s)) q = Inl Deadlock"
    using d call assms(5-8) f(2,3)
    by (simp add: mt_env_def u_def[symmetric] Let_def del: run_handler_mt.simps)
  moreover have "gettimeofday (snd (do_pend_event_queue (s\<lparr>queue_lock := True\<rparr>))) = (clock s (clock_cnt s), q)"
    by (simp add: gettimeofday_def q_def do_pend_event_queue_def set_timer_def Let_def)
  ultimately have "trigger_pended (Suc fuel) (env_mt (Suc n)) (snd (do_pend_event_queue (s\<lparr>queue_lock := True\<rparr>))) = Inl Deadlock"
    using f(5) by (simp add: trigger_pended_def do_trigger_time_event_def del: trigger_loop.simps)
  moreover have "fst (do_pend_event_queue (s\<lparr>queue_lock := True\<rparr>)) = eq_status s"
    by (simp add: do_pend_event_queue_def Let_def)
  ultimately show ?thesis
    using assms(3,4) by (simp add: trigger_time_event_mt_def case_prod_unfold Let_def)
qed

definition full_chunk :: memory_chunk where
  "full_chunk = zero_chunk\<lparr>ck_size := 100000, ck_state := CHUNK_UNDER_MONIT, ck_pollutor_ref := 4, ck_total_ref := 4,
     ck_i_pollutor_ref := 4, ck_i_total_ref := 4, ck_base_sample_cycle := 2, ck_sample_cycle := 1, ck_nr_sample := 4\<rparr>"

lemma full_chunk_finishes:
  "ck_state (snd (finish_cycle full_chunk)) = CHUNK_MONIT_FINISH"
  "chunk_mapping (snd (finish_cycle full_chunk)) = RESTRICT_MAPPING"
proof -
  have "f_div (f_of_uint 4) (f_of_uint 4) = 1" "f_div (f_of_uint 8) (f_of_uint 8) = 1" by (rule f_div_self; simp)+
  then show "ck_state (snd (finish_cycle full_chunk)) = CHUNK_MONIT_FINISH"
    "chunk_mapping (snd (finish_cycle full_chunk)) = RESTRICT_MAPPING"
    by (simp_all add: full_chunk_def zero_chunk_def finish_cycle_def cycle_converged_def chunk_mapping_def chunk_mr_def
        D0_05_def D0_9_def Let_def)
qed

theorem completion_in_timer_signal_deadlocks_witness:
  "\<exists>m t. hash_map_add_member_mt fresh_mt 320 192 boot = Inr (0, m, t) \<and>
     trigger_time_event_mt 1 (env_mt 1) (t\<lparr>private2event_map := m, events := [192],
       ev_cell := \<lambda>_. zero_event\<lparr>ev_handler := BurstSkipHandler, ev_private := 320\<rparr>,
       ps_cell := \<lambda>_. zero_sample\<lparr>ps_chunk := 384\<rparr>, ck_cell := \<lambda>_. full_chunk\<rparr>) = Inl Deadlock"
proof -
  have "can_add boot (mt_hm fresh_mt)" using fresh_members by (simp add: can_add_def)
  then obtain m t where a: "hash_map_add_member_mt fresh_mt 320 192 boot = Inr (0, m, t)" "mt_inv t m"
    "hm_abs t (mt_hm m) = [320 \<mapsto> 192]"
    using mt.add_ok[OF boot_maps(1), of 320 192] boot_maps(2) by auto
  have mr: "hm_mt_state.more t = hm_mt_state.more boot" using res_all_D[OF add_member_mt_more a(1)] by simp
  let ?s = "t\<lparr>private2event_map := m, events := [192], ev_cell := \<lambda>_. zero_event\<lparr>ev_handler := BurstSkipHandler, ev_private := 320\<rparr>,
    ps_cell := \<lambda>_. zero_sample\<lparr>ps_chunk := 384\<rparr>, ck_cell := \<lambda>_. full_chunk\<rparr>"
  have f: "eq_status t = EVENT_QUEUE_EMPTY" "\<not> queue_lock t" "clock t (clock_cnt t) = \<lparr>tv_sec = 0, tv_usec = 0\<rparr>"
    "timer_resolution t = usec2tv TIMER_RESOLUTION" "ctx_cell t = ctx_cell boot"
    using mr by (cases t; simp add: boot_def)+
  have "mt_inv ?s (private2event_map ?s)" "320 \<in> dom (hm_abs ?s (mt_hm (private2event_map ?s)))"
    using a(2,3) mt_inv_cong[of ?s t m] hm_abs_cong[of ?s t "mt_hm m"] by simp_all
  moreover have "tv_cmp (tv_add (clock ?s (clock_cnt ?s)) (timer_resolution ?s)) (ev_trigger_time (ev_cell ?s 192)) \<noteq> - 1"
    using f by (simp add: zero_event_def tv_cmp_def tv_add_def usec2tv_def TIMER_RESOLUTION_def)
  moreover have "completing 320 ?s"
    using full_chunk_finishes f(5)
    by (simp add: completing_def Let_def full_chunk_def zero_chunk_def boot_def zero_context_def chunk_state_defs S2T_MAP_SIZE_def)
  ultimately have "trigger_time_event_mt (Suc 0) (env_mt (Suc 0)) ?s = Inl Deadlock"
    by (intro completion_in_timer_signal_deadlocks[of ?s 320 192 "[]"]) (use f in simp_all)
  then show ?thesis using a(1) by auto
qed

end
