(* ===== verification/Chunk_Monitor_Serial.thy ===== *)
theory Chunk_Monitor_Serial
  imports Chunk_Monitor_API
begin

text \<open>
  The chunk monitor of the serial version (\<open>chunk_monitor.c\<close>), the functions of its
  \<open>chunk_predictor.c\<close> that start and stop monitoring, and \<open>locality_profile_destroy\<close>, which stops the
  monitoring of every chunk. It runs in one thread without locks, over the serial hash map and event
  queue; the fault handler ends the process on a fault outside the samples, and a range of samples is
  removed without pending the queue. What the two versions share word for word is in the theories of
  the parallel monitor.
\<close>

type_synonym 'x sstate = "(hash_map, 'x) cm_state_scheme"
type_synonym 'x senv = "(hash_map, 'x sstate) queue_env"

section \<open>Page samples\<close>

definition init_page_sample :: "ptr \<Rightarrow> ptr \<Rightarrow> uint64 \<Rightarrow> ('m, 'x) pstate \<Rightarrow> ('m, 'x) pstate" where
  "init_page_sample sample chunk addr s =
     upd_ps sample (\<lambda>x. x\<lparr>ps_miss := 0, ps_access := 0, ps_victim_ref := 0, ps_pollutor_ref := 0,
       ps_total_ref := 0, ps_addr := addr AND PAGE_MASK, ps_chunk := chunk, ps_state := WAIT_FIRST_ACCESS,
       ps_wait_timer := 0, ps_wait_page_fault := 0\<rparr>) s"

definition remove_page_sample :: "nat \<Rightarrow> 'x senv \<Rightarrow> ptr \<Rightarrow> 'x sstate \<Rightarrow> 'x sstate res" where
  "remove_page_sample fuel env sample s =
     rbind (if ps_wait_timer (ps_cell s sample) \<noteq> 0
            then rbind (remove_time_event fuel env sample s) (\<lambda>s.
                   Inr (upd_ps sample (\<lambda>x. x\<lparr>ps_wait_timer := 0\<rparr>) s))
            else Inr s) (\<lambda>s.
       let s = disable_page_sample sample s;
           s = upd_ps sample (\<lambda>x. x\<lparr>ps_wait_page_fault := 0\<rparr>) s;
           s = unlink_sample sample s
       in rbind (detach_page_sample sample s) (\<lambda>s.
            Inr (upd_ps sample (\<lambda>x. x\<lparr>ps_chunk := NULL, ps_state := SAMPLE_UNINIT\<rparr>) s)))"

fun remove_samples_loop_st :: "nat \<Rightarrow> nat \<Rightarrow> 'x senv \<Rightarrow> ptr \<Rightarrow> 'x sstate \<Rightarrow> 'x sstate res" where
  "remove_samples_loop_st 0 fuel env chunk s = Inl OutOfFuel"
| "remove_samples_loop_st (Suc n) fuel env chunk s =
     (case ck_sample (ck_cell s chunk) of
        [] \<Rightarrow> Inr s
      | sample # _ \<Rightarrow> rbind (remove_page_sample fuel env sample s) (\<lambda>s. remove_samples_loop_st n fuel env chunk s))"

definition remove_chunk_samples :: "nat \<Rightarrow> 'x senv \<Rightarrow> ptr \<Rightarrow> 'x sstate \<Rightarrow> 'x sstate res" where
  "remove_chunk_samples fuel env chunk s =
     rbind (remove_samples_loop_st (length (ck_sample (ck_cell s chunk)) + 1) fuel env chunk s) (\<lambda>s.
       Inr (upd_ck chunk (\<lambda>x. x\<lparr>ck_nr_sample := 0\<rparr>) s))"

section \<open>Sample collection\<close>

definition page_sample_complete :: "nat \<Rightarrow> 'x senv \<Rightarrow> ptr \<Rightarrow> 'x sstate \<Rightarrow> (int \<times> 'x sstate) res" where
  "page_sample_complete fuel env sample s =
     (let chunk = ps_chunk (ps_cell s sample)
      in if chunk = NULL then Inl NullDeref
         else if ck_state (ck_cell s chunk) = CHUNK_MONIT_FINISH then Inr (SAMPLE_COMPLETE, s)
         else
           let (ret, k) = finish_cycle (ck_cell s chunk);
               s = upd_ck chunk (\<lambda>_. k) s
           in if ck_state k \<noteq> CHUNK_MONIT_FINISH then Inr (ret, s)
              else
                rbind (update_context_mapping_type chunk (upd_ck chunk next_round s)) (\<lambda>(target_mapping, s).
                  let s = (if ck_sample_state (ck_cell s chunk) = SECOND_ROUND
                           then adjust_mapping target_mapping chunk s else s)
                  in rbind (if target_mapping = RESTRICT_MAPPING
                            then add_time_event fuel env (usec2tv SAMPLE_INTERVAL) ReviveSampleHandler chunk s
                            else Inr s) (\<lambda>s.
                     Inr (ret, s))))"

definition update_chunk_sample :: "ptr \<Rightarrow> 'x sstate \<Rightarrow> (int \<times> 'x sstate) res" where
  "update_chunk_sample sample s =
     (let chunk = ps_chunk (ps_cell s sample);
          delta_n = llc_access_buf s - ps_access (ps_cell s sample)
      in if is_burst_access_sample delta_n s then Inr (1, s)
         else if chunk = NULL then Inl NullDeref
         else
           let delta_m = llc_miss_buf s - ps_miss (ps_cell s sample);
               s = (if is_victim_sample delta_m s
                    then upd_ck chunk (\<lambda>x. x\<lparr>ck_i_victim_ref := ck_i_victim_ref x + 1\<rparr>)
                           (upd_ps sample (\<lambda>x. x\<lparr>ps_victim_ref := ps_victim_ref x + 1\<rparr>) s)
                    else upd_ck chunk (\<lambda>x. x\<lparr>ck_i_pollutor_ref := ck_i_pollutor_ref x + 1\<rparr>)
                           (upd_ps sample (\<lambda>x. x\<lparr>ps_pollutor_ref := ps_pollutor_ref x + 1\<rparr>) s));
               s = upd_ps sample (\<lambda>x. x\<lparr>ps_total_ref := ps_total_ref x + 1\<rparr>) s
           in Inr (0, upd_ck chunk (\<lambda>x. x\<lparr>ck_i_total_ref := ck_i_total_ref x + 1\<rparr>) s))"

definition take_sample :: "ptr \<Rightarrow> 'x sstate \<Rightarrow> (timeval option \<times> 'x sstate) res" where
  "take_sample sample s =
     (if ps_state (ps_cell s sample) = WAIT_FIRST_ACCESS
      then Inr (Some (usec2tv (burst_skip_len s)),
                upd_ps sample (\<lambda>x. x\<lparr>ps_state := BURST_ACCESS_SKIP, ps_miss := llc_miss_buf s,
                  ps_access := llc_access_buf s\<rparr>) s)
      else if ps_state (ps_cell s sample) = WAIT_SUCCESSIVE_ACCESS
      then
        rbind (update_chunk_sample sample s) (\<lambda>(ret, s).
          if ret = 0
          then Inr (Some (usec2tv SAMPLE_FREQUENCY), upd_ps sample (\<lambda>x. x\<lparr>ps_state := WAIT_FIRST_ACCESS\<rparr>) s)
          else Inr (Some (usec2tv (burst_skip_len s)), upd_ps sample (\<lambda>x. x\<lparr>ps_state := BURST_ACCESS_SKIP\<rparr>) s))
      else Inr (None, s))"

definition collect_page_sample :: "nat \<Rightarrow> 'x senv \<Rightarrow> ptr \<Rightarrow> 'x sstate \<Rightarrow> 'x sstate res" where
  "collect_page_sample fuel env sample s =
     (let (_, s) = llc_event_cntr_read s
      in rbind (burst_skip_update s) (\<lambda>s.
         rbind (take_sample sample s) (\<lambda>(tv, s).
         rbind (page_sample_complete fuel env sample s) (\<lambda>(ret, s).
           if ret = SAMPLE_COMPLETE \<or> ret = WAIT_NEXT_SAMPLE
           then Inr (upd_ps sample (\<lambda>x. x\<lparr>ps_state := SAMPLE_UNINIT\<rparr>) s)
           else
             case tv of
               None \<Rightarrow> Inl Uninit
             | Some tv \<Rightarrow>
                 rbind (add_time_event fuel env tv BurstSkipHandler sample s) (\<lambda>s.
                   Inr (upd_ps sample (\<lambda>x. x\<lparr>ps_wait_timer := 1\<rparr>) s))))))"

section \<open>Handlers\<close>

definition burst_skip_handler :: "nat \<Rightarrow> 'x senv \<Rightarrow> ptr \<Rightarrow> timeval \<Rightarrow> 'x sstate \<Rightarrow> 'x sstate res" where
  "burst_skip_handler fuel env sample tv s =
     (let s = upd_ps sample (\<lambda>x. x\<lparr>ps_wait_timer := 0\<rparr>) s
      in rbind (page_sample_complete fuel env sample s) (\<lambda>(ret, s).
           if ret \<noteq> 0 \<or> ck_state (ck_cell s (ps_chunk (ps_cell s sample))) = CHUNK_MONIT_FINISH
           then Inr (upd_ps sample (\<lambda>x. x\<lparr>ps_state := SAMPLE_UNINIT\<rparr>) s)
           else
             let s = (if ps_state (ps_cell s sample) = BURST_ACCESS_SKIP
                      then upd_ps sample (\<lambda>x. x\<lparr>ps_state := WAIT_SUCCESSIVE_ACCESS\<rparr>) s else s);
                 s = enable_page_sample sample s
             in Inr (upd_ps sample (\<lambda>x. x\<lparr>ps_wait_page_fault := 1\<rparr>) s)))"

fun revive_samples :: "ptr list \<Rightarrow> ptr \<Rightarrow> 'x sstate \<Rightarrow> 'x sstate" where
  "revive_samples [] chunk s = s"
| "revive_samples (sample # samples) chunk s =
     revive_samples samples chunk
       (if ps_state (ps_cell s sample) = SAMPLE_UNINIT
        then
          let s = init_page_sample sample chunk (ps_addr (ps_cell s sample)) s;
              s = enable_page_sample sample s
          in upd_ps sample (\<lambda>x. x\<lparr>ps_wait_page_fault := 1\<rparr>) s
        else s)"

definition revive_sample_handler :: "ptr \<Rightarrow> timeval \<Rightarrow> 'x sstate \<Rightarrow> 'x sstate res" where
  "revive_sample_handler chunk tv s =
     (let s = upd_ck chunk (\<lambda>x. x\<lparr>ck_victim_ref := 0, ck_pollutor_ref := 0, ck_total_ref := 0,
                ck_i_victim_ref := 0, ck_i_pollutor_ref := 0, ck_i_total_ref := 0, ck_sample_cycle := 0\<rparr>) s;
          s = revive_samples (ck_sample (ck_cell s chunk)) chunk s
      in Inr (upd_ck chunk (\<lambda>x. x\<lparr>ck_state := CHUNK_UNDER_MONIT\<rparr>) s))"

fun run_handler :: "nat \<Rightarrow> handler \<Rightarrow> ptr \<Rightarrow> timeval \<Rightarrow> 'x sstate \<Rightarrow> 'x sstate res" where
  "run_handler 0 h p tv s = Inl OutOfFuel"
| "run_handler (Suc n) h p tv s =
     (case h of
        NullHandler \<Rightarrow> Inr s
      | BurstSkipHandler \<Rightarrow> burst_skip_handler n (serial_env (run_handler n)) p tv s
      | ReviveSampleHandler \<Rightarrow> revive_sample_handler p tv s)"

abbreviation env_st :: "nat \<Rightarrow> 'x senv" where
  "env_st n \<equiv> serial_env (run_handler n)"

text \<open>A fault on a page without a sample, or whose sample has no chunk, ends in \<open>exit (1)\<close>.\<close>

definition page_fault_handler :: "nat \<Rightarrow> uint64 \<Rightarrow> 'x sstate \<Rightarrow> 'x sstate res" where
  "page_fault_handler fuel addr s =
     rbind (get_page_sample addr s) (\<lambda>(sample, s).
       if sample = NULL \<or> ps_chunk (ps_cell s sample) = NULL then Inl ProcessExit
       else
         let s = upd_ps sample (\<lambda>x. x\<lparr>ps_wait_page_fault := 0\<rparr>) s
         in rbind (page_sample_complete fuel (env_st fuel) sample s) (\<lambda>(ret, s).
              if ret \<noteq> 0 \<or> ck_state (ck_cell s (ps_chunk (ps_cell s sample))) = CHUNK_MONIT_FINISH
              then Inr (upd_ps sample (\<lambda>x. x\<lparr>ps_state := SAMPLE_UNINIT\<rparr>) (disable_page_sample sample s))
              else collect_page_sample fuel (env_st fuel) sample (disable_page_sample sample s)))"

section \<open>The interface of the monitor\<close>

fun place_samples ::
    "nat \<Rightarrow> uint64 \<Rightarrow> uint64 \<Rightarrow> uint64 \<Rightarrow> int \<Rightarrow> int \<Rightarrow> ptr \<Rightarrow> 'x sstate \<Rightarrow> 'x sstate res" where
  "place_samples 0 start stop rng i n chunk s = Inr s"
| "place_samples (Suc m) start stop rng i n chunk s =
     rbind (get_sample_addr start stop rng i n s) (\<lambda>(addr, s).
     rbind (attach_page_sample addr s) (\<lambda>(sample, s).
       let s = init_page_sample sample chunk addr s;
           s = upd_ck chunk (\<lambda>x. x\<lparr>ck_sample := sample # ck_sample x\<rparr>) s;
           s = enable_page_sample sample s;
           s = upd_ps sample (\<lambda>x. x\<lparr>ps_wait_page_fault := 1\<rparr>) s
       in place_samples m start stop rng (i + 1) n chunk s))"

definition monit_chunk :: "nat \<Rightarrow> ptr \<Rightarrow> 'x sstate \<Rightarrow> (int \<times> 'x sstate) res" where
  "monit_chunk fuel chunk s =
     (if ck_state (ck_cell s chunk) = CHUNK_UNDER_MONIT then Inr (0, s)
      else
        let s = pend_time_event_queue s;
            k = ck_cell s chunk;
            start = ck_addr k;
            sz = (if ck_size k > SMALL_MEMORY_CHUNK then ck_size k else SMALL_MEMORY_CHUNK);
            start_align = UPPER_PAGE_ALIGN start;
            end_align = LOWER_PAGE_ALIGN (start + sz);
            total_range = end_align - start_align;
            nr_sample = get_nr_sample (pow_density s) total_range;
            s = upd_ck chunk (\<lambda>x. x\<lparr>ck_nr_sample := nr_sample, ck_sample_state := START_SAMPLE,
                  ck_base_sample_cycle := get_base_sample_cycle total_range, ck_sample := []\<rparr>) s
        in rbind (place_samples (nat nr_sample) start_align end_align total_range 0 nr_sample chunk s) (\<lambda>s.
           rbind (resume_time_event_queue fuel (env_st fuel)
                    (upd_ck chunk (\<lambda>x. x\<lparr>ck_state := CHUNK_UNDER_MONIT\<rparr>) s)) (\<lambda>s. Inr (0, s))))"

definition stop_monit_chunk :: "nat \<Rightarrow> ptr \<Rightarrow> 'x sstate \<Rightarrow> (int \<times> 'x sstate) res" where
  "stop_monit_chunk fuel chunk s =
     (let s = pend_time_event_queue s
      in rbind (if ck_state (ck_cell s chunk) \<noteq> CHUNK_MONIT_FINISH
                then
                  let (_, s) = llc_event_cntr_read s;
                      s = last_chunk_sample_update chunk s;
                      s = upd_ck chunk (\<lambda>x. x\<lparr>ck_sample_state := LAST_ROUND\<rparr>) s
                  in rbind (update_context_mapping_type chunk s) (\<lambda>(_, s). Inr s)
                else Inr s) (\<lambda>s.
         rbind (remove_time_event fuel (env_st fuel) chunk s) (\<lambda>s.
           let s = upd_ck chunk (\<lambda>x. x\<lparr>ck_state := CHUNK_MONIT_FINISH\<rparr>) s
           in rbind (remove_chunk_samples fuel (env_st fuel) chunk s) (\<lambda>s.
              rbind (resume_time_event_queue fuel (env_st fuel) s) (\<lambda>s. Inr (0, s))))))"

definition chunk_monitor_init :: "'x sstate \<Rightarrow> (int \<times> 'x sstate) res" where
  "chunk_monitor_init s =
     (let (ret, s) = time_event_queue_init s
      in if ret \<noteq> 0 then Inr (ret, s)
         else if regist_page_fault_handler s \<noteq> 0 then Inr (regist_page_fault_handler s, s)
         else
           let (ret, s) = page_sample_map_init s
           in if ret \<noteq> 0 then Inr (ret, s)
              else
                rbind (llc_event_cntr_init s) (\<lambda>(ret, s).
                  if ret \<noteq> 0 then Inr (ret, s)
                  else
                    rbind (llc_event_cntr_start s) (\<lambda>(ret, s).
                      if ret \<noteq> 0 then Inr (ret, s)
                      else
                        let (ret, s) = init_burst_skip s
                        in if ret \<noteq> 0 then Inr (ret, s)
                           else Inr (ret, s\<lparr>
                             cache_region_sz_in_line := cache_line_under_restrict_mapping L3_SZ_IN_LINE,
                             llc_sz_in_line := cache_line_under_open_mapping L3_SZ_IN_LINE,
                             cache_region_sz := cache_size_under_restrict_mapping L3_SZ_IN_LINE,
                             llc_sz := cache_size_under_open_mapping L3_SZ_IN_LINE,
                             monitor_state := MONITOR_ACTIVE\<rparr>))))"

definition chunk_monitor_destroy :: "'x sstate \<Rightarrow> 'x sstate res" where
  "chunk_monitor_destroy s =
     rbind (llc_event_cntr_stop s) (\<lambda>(_, s).
     rbind (llc_event_cntr_destroy s) (\<lambda>(_, s).
       Inr ((time_event_queue_destroy (page_sample_map_destroy s))\<lparr>monitor_state := MONITOR_DESTROYED\<rparr>)))"

fun remove_samples_at_st :: "uint64 list \<Rightarrow> nat \<Rightarrow> 'x sstate \<Rightarrow> 'x sstate res" where
  "remove_samples_at_st [] fuel s = Inr s"
| "remove_samples_at_st (addr # addrs) fuel s =
     rbind (get_page_sample addr s) (\<lambda>(sample, s).
     rbind (if sample \<noteq> NULL then remove_page_sample fuel (env_st fuel) sample s else Inr s) (\<lambda>s.
       remove_samples_at_st addrs fuel s))"

definition remove_sample_range :: "nat \<Rightarrow> uint64 \<Rightarrow> uint64 \<Rightarrow> 'x sstate \<Rightarrow> 'x sstate res" where
  "remove_sample_range fuel start len s =
     rbind (range_addrs fuel start (start + len)) (\<lambda>addrs. remove_samples_at_st addrs fuel s)"

section \<open>Sampling of allocations\<close>

text \<open>
  The context is used directly, without a copy; the map-only context is recognised by its flag. A
  reference to the map-only context or to the copy with another flag does not arise in this version.
\<close>

definition NightWatch_sampling :: "nat \<Rightarrow> ptr \<Rightarrow> uint64 \<Rightarrow> int \<Rightarrow> ctx_ref \<Rightarrow> 'x sstate \<Rightarrow> 'x sstate res" where
  "NightWatch_sampling fuel p sz type r s =
     (if ac_word0 (deref_ctx r s) = MAP_ONLY_CONTEXT then Inr s
      else
        case r of
          Ctx context \<Rightarrow>
            if skip_chunk sz (ctx_cell s context)
            then Inr (set_extend_info p NULL (upd_ctx context (\<lambda>x. x\<lparr>sample_skip := i32 (sample_skip x - 1)\<rparr>) s))
            else
              let (chunk, s) = attach_chunk_to_context p sz context s;
                  s = upd_ck chunk (\<lambda>x. x\<lparr>ck_mapping_type := type, ck_mr := get_predict_mr (ctx_cell s context)\<rparr>) s;
                  s = set_extend_info p chunk s;
                  s = upd_ctx context (sampled_context (\<lambda>n. n = 0) sz) s
              in rbind (monit_chunk fuel chunk s) (\<lambda>(_, s). Inr s)
        | _ \<Rightarrow> Inl Corrupt)"

definition NightWatch_collect_sample :: "nat \<Rightarrow> ptr \<Rightarrow> 'x sstate \<Rightarrow> 'x sstate res" where
  "NightWatch_collect_sample fuel p s =
     (let chunk = get_extend_info p s
      in if chunk = NULL then Inr s
         else
           rbind (if chunk_under_monit chunk s then rbind (stop_monit_chunk fuel chunk s) (\<lambda>(_, s). Inr s)
                  else Inr s) (\<lambda>s.
             Inr (detach_chunk_from_context chunk s)))"

section \<open>Shutting the locality profile down\<close>

text \<open>
  Stopping a chunk does not change the list of chunks of a context, so the nested loops visit the
  chunks that are on the lists when they are reached.
\<close>

fun stop_context_chunks :: "ptr list \<Rightarrow> nat \<Rightarrow> 'x sstate \<Rightarrow> 'x sstate res" where
  "stop_context_chunks [] fuel s = Inr s"
| "stop_context_chunks (c # cs) fuel s =
     rbind (for_chunks (ctx_chunks (ctx_cell s c)) (\<lambda>k s. rbind (stop_monit_chunk fuel k s) (\<lambda>(_, s). Inr s)) s) (\<lambda>s.
       stop_context_chunks cs fuel s)"

definition locality_profile_destroy :: "nat \<Rightarrow> 'x sstate \<Rightarrow> 'x sstate res" where
  "locality_profile_destroy fuel s =
     rbind (stop_context_chunks (lp_contexts s) fuel s) (\<lambda>s.
       Inr (internal_free (s2t_addr s) (delete_hash_map (context_hash_map s) s)))"

end
