(* ===== verification/NightWatch_Serial.thy ===== *)
theory NightWatch_Serial
  imports NightWatch Chunk_Monitor_Serial
begin

text \<open>
  \<open>nightwatch.c\<close> and \<open>stdlib_hook.c\<close> of the serial version. They switch the cache management of the
  allocator off and on with \<open>disable_cache_management\<close> and \<open>enable_cache_management\<close>, which no
  allocator of the repository defines; their calls are logged with those of the C library. The
  wrappers do not ask whether they run inside the allocator, and there is one for \<open>memmove\<close>.
\<close>

type_synonym 'x nsstate = "(hash_map, 'x) nw_state_scheme"

definition disable_cache_management :: "('m, 'x) nw_state_scheme \<Rightarrow> ('m, 'x) nw_state_scheme" where
  "disable_cache_management s = s\<lparr>libc_log := DisableCacheManagement # libc_log s\<rparr>"

definition enable_cache_management :: "('m, 'x) nw_state_scheme \<Rightarrow> ('m, 'x) nw_state_scheme" where
  "enable_cache_management s = s\<lparr>libc_log := EnableCacheManagement # libc_log s\<rparr>"

section \<open>The library\<close>

definition install_stdlibapi_hook :: "('m, 'x) nw_state_scheme \<Rightarrow> int \<times> ('m, 'x) nw_state_scheme" where
  "install_stdlibapi_hook s =
     (if hooked s = 1 then (0, s)
      else (0, (enable_cache_management (disable_cache_management s))\<lparr>hooked := 1\<rparr>))"

definition init_components :: "'x nsstate \<Rightarrow> (int \<times> 'x nsstate) res" where
  "init_components s =
     (let (ret, s) = hash_map_init s
      in if ret \<noteq> 0 then Inr (ret, s)
         else
           let (ret, s) = install_stdlibapi_hook s
           in if ret \<noteq> 0 then Inr (ret, s)
              else
                rbind (chunk_monitor_init s) (\<lambda>(ret, s).
                  if ret \<noteq> 0 then Inr (ret, s)
                  else Inr (locality_profile_init s)))"

definition NightWatch_init :: "'x nsstate \<Rightarrow> (int \<times> 'x nsstate) res" where
  "NightWatch_init s =
     (let s = disable_cache_management s
      in rbind (if NightWatch_active s then Inr (0, s) else init_components (set_nightwatch_active s)) (\<lambda>(ret, s).
           Inr (ret, enable_cache_management s)))"

definition NightWatch_destroy :: "nat \<Rightarrow> 'x nsstate \<Rightarrow> 'x nsstate res" where
  "NightWatch_destroy fuel s =
     (if nightwatch_state s = NightWatch_DESTROYED then Inr s
      else
        let s = disable_cache_management s
        in rbind (locality_profile_destroy fuel s) (\<lambda>s.
           rbind (chunk_monitor_destroy s) (\<lambda>s.
             Inr ((hash_map_destroy s)\<lparr>nightwatch_state := NightWatch_DESTROYED\<rparr>))))"

section \<open>Hooks of the C library\<close>

fun pre_walk :: "nat \<Rightarrow> uint64 \<Rightarrow> uint64 \<Rightarrow> nat \<Rightarrow> 'x nsstate \<Rightarrow> 'x nsstate res" where
  "pre_walk 0 p stop fuel s = Inl OutOfFuel"
| "pre_walk (Suc n) p stop fuel s =
     (if p < stop
      then rbind (if p AND PAGE_MASK \<in> page_prot s then page_fault_handler fuel p s else Inr s) (\<lambda>s.
             pre_walk n (p + PAGE_SIZE) stop fuel s)
      else Inr s)"

definition unprotect_buffer :: "nat \<Rightarrow> uint64 \<Rightarrow> uint64 \<Rightarrow> 'x nsstate \<Rightarrow> 'x nsstate res" where
  "unprotect_buffer fuel start len s =
     rbind (pre_walk fuel start (start + len) fuel s) (\<lambda>s. remove_sample_range fuel start len s)"

definition call_libc :: "libc_call \<Rightarrow> ('m, 'x) nw_state_scheme \<Rightarrow> int \<times> ('m, 'x) nw_state_scheme" where
  "call_libc c s =
     (let s = disable_cache_management s;
          ret = libc_ret s (length (libc_log s));
          s = s\<lparr>libc_log := c # libc_log s\<rparr>
      in (ret, enable_cache_management s))"

definition buffer_hook :: "nat \<Rightarrow> uint64 \<Rightarrow> uint64 \<Rightarrow> libc_call \<Rightarrow> 'x nsstate \<Rightarrow> (int \<times> 'x nsstate) res" where
  "buffer_hook fuel buf count c s =
     (let (_, s) = install_stdlibapi_hook s
      in rbind (if NightWatch_active s then unprotect_buffer fuel buf count s else Inr s) (\<lambda>s.
           Inr (call_libc c s)))"

definition read_hook :: "nat \<Rightarrow> int \<Rightarrow> uint64 \<Rightarrow> uint64 \<Rightarrow> 'x nsstate \<Rightarrow> (int \<times> 'x nsstate) res" where
  "read_hook fuel fd buf count s = buffer_hook fuel buf count (LibcRead fd buf count) s"

definition write_hook :: "nat \<Rightarrow> int \<Rightarrow> uint64 \<Rightarrow> uint64 \<Rightarrow> 'x nsstate \<Rightarrow> (int \<times> 'x nsstate) res" where
  "write_hook fuel fd buf count s = buffer_hook fuel buf count (LibcWrite fd buf count) s"

definition fopen_hook :: "ptr \<Rightarrow> ptr \<Rightarrow> ('m, 'x) nw_state_scheme \<Rightarrow> int \<times> ('m, 'x) nw_state_scheme" where
  "fopen_hook path mode s = (let (_, s) = install_stdlibapi_hook s in call_libc (LibcFopen path mode) s)"

definition fclose_hook :: "ptr \<Rightarrow> ('m, 'x) nw_state_scheme \<Rightarrow> int \<times> ('m, 'x) nw_state_scheme" where
  "fclose_hook fp s = (let (_, s) = install_stdlibapi_hook s in call_libc (LibcFclose fp) s)"

definition fread_hook :: "nat \<Rightarrow> uint64 \<Rightarrow> uint64 \<Rightarrow> uint64 \<Rightarrow> ptr \<Rightarrow> 'x nsstate \<Rightarrow> (int \<times> 'x nsstate) res" where
  "fread_hook fuel p sz nmemb stream s = buffer_hook fuel p (sz * nmemb) (LibcFread p sz nmemb stream) s"

definition fwrite_hook :: "nat \<Rightarrow> uint64 \<Rightarrow> uint64 \<Rightarrow> uint64 \<Rightarrow> ptr \<Rightarrow> 'x nsstate \<Rightarrow> (int \<times> 'x nsstate) res" where
  "fwrite_hook fuel p sz nmemb stream s = buffer_hook fuel p (sz * nmemb) (LibcFwrite p sz nmemb stream) s"

definition memmove_hook :: "nat \<Rightarrow> uint64 \<Rightarrow> uint64 \<Rightarrow> uint64 \<Rightarrow> 'x nsstate \<Rightarrow> (int \<times> 'x nsstate) res" where
  "memmove_hook fuel dest src n s =
     (let (_, s) = install_stdlibapi_hook s
      in rbind (if NightWatch_active s
                then rbind (unprotect_buffer fuel dest n s) (\<lambda>s. unprotect_buffer fuel src n s)
                else Inr s) (\<lambda>s.
           Inr (call_libc (LibcMemmove dest src n) s)))"

end
