(* ===== verification/Serial_Invariant.thy ===== *)
theory Serial_Invariant
  imports Monitor_Invariant NightWatch_Serial
begin

text \<open>
  The invariant of the chunk monitor for the serial version. The predicate and its elementary lemmas
  are those of the parallel monitor; the queue, the page map and the handlers are the serial ones,
  and the interface \<open>queue_client\<close> is instantiated for the serial index.
\<close>

section \<open>The serial index keeps what it does not own\<close>

lemma hash_map_rebuild_more:
  "hash_map_rebuild h s = Inr (r, h', s') \<Longrightarrow> hm_state.more s' = hm_state.more s"
  by (auto simp: hash_map_rebuild_def internal_malloc_def internal_free_def Let_def rbind_eq_Inr split: if_splits)

lemma add_member_more:
  "res_all (\<lambda>(r, h', s'). hm_state.more s' = hm_state.more s) (hash_map_add_member h key v s)"
  unfolding hash_map_add_member_def
proof (rule res_all_bind[where P = "\<lambda>(r, h', s'). hm_state.more s' = hm_state.more s"], goal_cases)
  case 1
  then show ?case by (auto simp: res_all_def dest: hash_map_rebuild_more)
next
  case (2 x)
  have "hm_state.more (snd (map_member_alloc t)) = hm_state.more t" for t :: "'a hm_state_scheme"
    by (simp add: map_member_alloc_def internal_malloc_def Let_def split: list.split)
  then show ?case using 2 by (auto simp: res_all_def rbind_eq_Inr Let_def case_prod_unfold)
qed

lemma delete_member_more:
  "hash_map_delete_member h key s = Inr (h', s') \<Longrightarrow> hm_state.more s' = hm_state.more s"
  by (auto simp: hash_map_delete_member_def map_member_free_def Let_def
      rbind_def split: sum.splits member_ref.splits prod.splits)

lemma eq_more_st:
  fixes s t :: "('m, 'x) qstate"
  shows "hm_state.more s = hm_state.more t \<Longrightarrow> eq_state.more s = eq_state.more t"
  by (cases s; cases t; simp)

lemma serial_client:
  assumes "\<And>s t :: (hash_map, 'x) qstate. eq_state.more s = eq_state.more t \<Longrightarrow> P s = P t"
    and "\<And>h p now s. P s \<Longrightarrow> res_all P (call h p now s)"
  shows "queue_client (serial_env call) P"
proof (unfold_locales, goal_cases)
  case (1 s t)
  then show ?case by (rule assms(1))
next
  case (2 s m k v)
  have "P s'" if "hash_map_add_member m k v s = Inr (r, m', s')" for r m' s'
    using assms(1)[OF eq_more_st, of s' s] res_all_D[OF add_member_more that] 2 by simp
  then show ?case by (auto simp: res_all_def serial_env_def)
next
  case (3 s m k)
  have "P s'" if "hash_map_delete_member m k s = Inr (m', s')" for m' s'
    using assms(1)[OF eq_more_st[OF delete_member_more[OF that]]] 3 by simp
  then show ?case by (auto simp: res_all_def serial_env_def)
next
  case (4 s h p now)
  then show ?case using assms(2) by (simp add: serial_env_def)
qed

lemma serial_queue_keeps:
  assumes q: "queue_client (env :: (hash_map, 'x) qenv) P" and s: "P s"
  shows "res_all P (add_time_event fuel env tv hnd pr s)"
    and "res_all P (remove_time_event fuel env pr s)"
    and "res_all P (trigger_time_event fuel env s)"
    and "P (pend_time_event_queue s)"
    and "res_all P (resume_time_event_queue fuel env s)"
  using queue_client.do_add_keeps[OF q s] queue_client.do_remove_keeps[OF q s] queue_client.do_resume_keeps[OF q s]
    queue_client.queue_parts(5)[OF q, of s] s queue_client.trigger_pended_keeps[OF q]
  by (auto simp: add_time_event_def remove_time_event_def trigger_time_event_def pend_time_event_queue_def
      resume_time_event_queue_def Let_def split: prod.split dest: queue_client.queue_parts_D(2)[OF q])

section \<open>The page map and the locality profile\<close>

lemma view_more_st: "hm_state.more t = hm_state.more u \<Longrightarrow> mon_view t = mon_view u"
  for t u :: "'x sstate"
  using mon_view_more[OF eq_more_st] .

lemma view_active [simp]:
  fixes s :: "('m, 'x) cm_state_scheme"
  shows "mon_view (s\<lparr>active_page_sample := l\<rparr>) = mon_view s" "mon_view (s\<lparr>active_chunk := l\<rparr>) = mon_view s"
    "mon_view (s\<lparr>active_context := l\<rparr>) = mon_view s" "mon_view (s\<lparr>lp_contexts := l\<rparr>) = mon_view s"
    "mon_view (s\<lparr>ctx_cell := g\<rparr>) = mon_view s"
  by (simp_all add: mon_view_def tc_frame_def)

lemma view_block_st:
  fixes s :: "'x sstate"
  shows "res_all (\<lambda>(_, t). same_view s t) (get_page_block k s)"
    and "res_all (\<lambda>(_, t). same_view s t) (init_page_block a s)"
  by (auto simp: get_page_block_def res_all_def rbind_eq_Inr)
    (auto simp: init_page_block_def new_block_def internal_malloc_def Let_def rbind_eq_Inr
      dest!: res_all_D[OF add_member_more] view_more_st)

lemma view_cells_st:
  fixes s :: "'x sstate"
  shows "res_all (same_view s) (wr_sample b i p s)" "mon_view (page_sample_free p s) = mon_view s"
    "mon_view (snd (page_sample_alloc s)) = mon_view s"
  by (auto simp: wr_sample_def page_sample_free_def page_sample_alloc_def internal_malloc_def Let_def
      res_all_def rbind_eq_Inr split: list.split)

lemma view_attach_st:
  fixes s :: "'x sstate"
  shows "res_all (\<lambda>(_, t). same_view s t) (attach_page_sample a s)"
proof -
  have alloc: "page_sample_alloc t = (p, u) \<Longrightarrow> mon_view u = mon_view t" for p and t u :: "'x sstate"
    using view_cells_st(3)[of t] by simp
  have block: "res_all (\<lambda>(_, t). same_view s t) (if b = NULL then init_page_block a t else Inr (b, t))"
    if "same_view s t" for b and t :: "'x sstate"
    using view_block_st(2)[of t] that by auto
  have w: "res_all (\<lambda>(_, t). same_view s t) (let (p, t) = page_sample_alloc t in rbind (wr_sample b i p t) (\<lambda>t. Inr (p, t)))"
    if "same_view s t" for b i and t :: "'x sstate"
    using that by (auto simp: Let_def split: prod.split dest!: alloc intro!: res_all_bind[OF view_cells_st(1)])
  have rest: "res_all (\<lambda>(_, t). same_view s t) (rbind (rd_sample b i t) (\<lambda>p.
       let t = (if p \<noteq> NULL then page_sample_free p t else t); (p, t) = page_sample_alloc t
       in rbind (wr_sample b i p t) (\<lambda>t. Inr (p, t))))" if "same_view s t" for b i and t :: "'x sstate"
    by (rule res_all_bind_any, unfold Let_def, rule w[unfolded Let_def]) (simp add: that view_cells_st(2))
  show ?thesis
    unfolding attach_page_sample_def
    by (rule res_all_bind_pair[OF view_block_st(1)], unfold prod.case, rule res_all_bind_pair[OF block], assumption,
        unfold prod.case) (rule rest)
qed

lemma view_get_st: "res_all (\<lambda>(_, t). same_view s t) (get_page_sample a (s :: 'x sstate))"
  unfolding get_page_sample_def
  by (rule res_all_bind_pair[OF view_block_st(1)]) (auto intro!: res_all_bind_any)

lemma view_detach_st: "res_all (same_view s) (detach_page_sample p (s :: 'x sstate))"
  unfolding detach_page_sample_def Let_def
proof (rule res_all_bind_pair[OF view_block_st(1)], unfold prod.case)
  fix b and t :: "'x sstate"
  assume t: "same_view s t"
  have "res_all (same_view s) (wr_sample b i NULL (if q \<noteq> NULL then page_sample_free q t else t))" for q i
    by (rule res_all_weaken[OF view_cells_st(1)]) (simp add: t view_cells_st(2))
  then show "res_all (same_view s) (if b = NULL then Inr t
      else rbind (rd_sample b (sample_idx (ps_addr (ps_cell s p))) t) (\<lambda>q.
             wr_sample b (sample_idx (ps_addr (ps_cell s p))) NULL (if q \<noteq> NULL then page_sample_free q t else t)))"
    using t by (auto intro: res_all_bind_any)
qed

lemma view_update_context_st: "res_all (\<lambda>(_, t). same_view s t) (update_context_mapping_type k (s :: 'x sstate))"
  by (auto simp: update_context_mapping_type_def update_s2c_map_def Let_def res_all_def rbind_eq_Inr split: if_splits)

section \<open>Completion of a sample and the handlers\<close>

lemma page_sample_complete_st:
  assumes q: "queue_client env (mon_at F)" and s: "mon_at F s"
  shows "res_all (\<lambda>(_, t). mon_at F t) (page_sample_complete fuel env p s)"
proof -
  let ?k = "ps_chunk (ps_cell s p)"
  define tail where "tail = (\<lambda>ret (target_mapping :: int, t).
      rbind (if target_mapping = RESTRICT_MAPPING
             then add_time_event fuel env (usec2tv SAMPLE_INTERVAL) ReviveSampleHandler ?k
                    (if ck_sample_state (ck_cell t ?k) = SECOND_ROUND then adjust_mapping target_mapping ?k t else t)
             else Inr (if ck_sample_state (ck_cell t ?k) = SECOND_ROUND then adjust_mapping target_mapping ?k t else t)) (\<lambda>t.
        Inr (ret :: int, t)))"
  have tail: "res_all (\<lambda>(_, t). mon_at F t) (tail ret (m, t))" if "mon_at F t" for ret m t
  proof -
    have a: "mon_at F (if ck_sample_state (ck_cell t ?k) = SECOND_ROUND then adjust_mapping m ?k t else t)"
      using that by (simp add: adjust_mapping_ok)
    have "res_all (mon_at F) (if m = RESTRICT_MAPPING then add_time_event fuel env (usec2tv SAMPLE_INTERVAL) ReviveSampleHandler ?k u else Inr u)"
      if "mon_at F u" for u
      using serial_queue_keeps(1)[OF q that] that by simp
    from this[OF a] show ?thesis unfolding tail_def prod.case by (rule res_all_bind) simp
  qed
  obtain ret k where fc: "finish_cycle (ck_cell s ?k) = (ret, k)" by fastforce
  have "chunk_ok k" using s finish_cycle_ok[of "ck_cell s ?k"] by (simp add: fc mon_at_defs)
  then have u: "mon_at F (upd_ck ?k (\<lambda>_. k) s)" using s by (simp add: upd_ck_ok)
  then have "mon_at F (upd_ck ?k next_round (upd_ck ?k (\<lambda>_. k) s))" by (rule upd_ck_ok) (rule next_round_ok)
  then have "res_all (\<lambda>(_, t). mon_at F t) (update_context_mapping_type ?k (upd_ck ?k next_round (upd_ck ?k (\<lambda>_. k) s)))"
    using view_update_context_st by (rule ok_weaken_pair)
  then have "res_all (\<lambda>(_, t). mon_at F t) (rbind (update_context_mapping_type ?k (upd_ck ?k next_round (upd_ck ?k (\<lambda>_. k) s))) (tail ret))"
    by (rule res_all_bind_pair) (rule tail)
  then show ?thesis using s u unfolding page_sample_complete_def tail_def Let_def fc prod.case by simp
qed

lemma init_page_sample_ok: "mon_at F s \<Longrightarrow> mon_at F (init_page_sample p k a s)"
  unfolding init_page_sample_def by (erule upd_ps_ok) (simp add: sample_ok_def)

lemma burst_skip_handler_st:
  assumes q: "queue_client env (mon_at F)" and s: "mon_at F s"
  shows "res_all (mon_at F) (burst_skip_handler fuel env p tv s)"
proof -
  have "mon_at F (upd_ps p (\<lambda>x. x\<lparr>ps_wait_timer := 0\<rparr>) s)" using s by (rule upd_ps_ok) simp
  note c = page_sample_complete_st[OF q this]
  show ?thesis
    unfolding burst_skip_handler_def Let_def
    by (rule res_all_bind_pair[OF c])
      (auto intro!: res_all_if upd_ps_ok protect_ok)
qed

lemma revive_samples_st: "mon_at F s \<Longrightarrow> mon_at F (revive_samples ps k s)"
proof (induction ps arbitrary: s)
  case (Cons p ps)
  have "mon_at F (upd_ps p (\<lambda>x. x\<lparr>ps_wait_page_fault := 1\<rparr>) (enable_page_sample p (init_page_sample p k a s)))" for a
    using Cons.prems by (auto intro!: init_page_sample_ok upd_ps_ok protect_ok)
  then show ?case using Cons by (simp add: Let_def)
qed simp

lemma revive_sample_handler_st: "mon_at F s \<Longrightarrow> res_all (mon_at F) (revive_sample_handler k tv s)"
  by (auto simp: revive_sample_handler_def Let_def chunk_ok_def intro!: upd_ck_ok revive_samples_st)

lemma env_st_client: "queue_client (env_st n) (mon_at F)"
proof (induction n)
  case 0
  show ?case by (rule serial_client[OF mon_ok_more]) simp_all
next
  case (Suc n)
  have "res_all (mon_at F) (run_handler (Suc n) h p now s)" if "mon_at F s" for h p now and s :: "'a sstate"
    using that burst_skip_handler_st[OF Suc] revive_sample_handler_st by (cases h) simp_all
  then show ?case by (intro serial_client[OF mon_ok_more])
qed

interpretation sc: queue_client "env_st n" "mon_at F" for n F
  by (rule env_st_client)

lemmas queue_st_ok = serial_queue_keeps[OF env_st_client]

section \<open>Page faults\<close>

lemma update_chunk_sample_st:
  assumes s: "mon_at F s"
  shows "res_all (\<lambda>(_, t). mon_at F t) (update_chunk_sample p s)"
proof -
  let ?k = "ps_chunk (ps_cell s p)"
  have "mon_at F (upd_ck ?k (\<lambda>x. x\<lparr>ck_i_total_ref := ck_i_total_ref x + 1\<rparr>)
      (upd_ps p (\<lambda>x. x\<lparr>ps_total_ref := ps_total_ref x + 1\<rparr>)
        (if b then upd_ck ?k (\<lambda>x. x\<lparr>ck_i_victim_ref := ck_i_victim_ref x + 1\<rparr>)
                     (upd_ps p (\<lambda>x. x\<lparr>ps_victim_ref := ps_victim_ref x + 1\<rparr>) s)
         else upd_ck ?k (\<lambda>x. x\<lparr>ck_i_pollutor_ref := ck_i_pollutor_ref x + 1\<rparr>)
                (upd_ps p (\<lambda>x. x\<lparr>ps_pollutor_ref := ps_pollutor_ref x + 1\<rparr>) s))))" for b
    using s by (auto simp: mon_at_defs upd_ck_def upd_ps_def chunk_ok_def sample_ok_def)
  then show ?thesis unfolding update_chunk_sample_def Let_def by (intro res_all_if) (use s in simp_all)
qed

lemma take_sample_st: "mon_at F s \<Longrightarrow> res_all (\<lambda>(_, t). mon_at F t) (take_sample p s)"
  unfolding take_sample_def
  by (intro res_all_if res_all_bind_pair[OF update_chunk_sample_st]) (auto intro!: upd_ps_ok res_all_if)

lemma collect_page_sample_st:
  assumes q: "queue_client env (mon_at F)" and s: "mon_at F s"
  shows "res_all (mon_at F) (collect_page_sample fuel env p s)"
proof -
  have tail: "res_all (mon_at F) (if ret = SAMPLE_COMPLETE \<or> ret = WAIT_NEXT_SAMPLE
      then Inr (upd_ps p (\<lambda>x. x\<lparr>ps_state := SAMPLE_UNINIT\<rparr>) t)
      else case tv of None \<Rightarrow> Inl Uninit
           | Some tv \<Rightarrow> rbind (add_time_event fuel env tv BurstSkipHandler p t) (\<lambda>t.
               Inr (upd_ps p (\<lambda>x. x\<lparr>ps_wait_timer := 1\<rparr>) t)))" if "mon_at F t" for ret tv t
    using that by (auto intro!: res_all_if upd_ps_ok res_all_bind[OF serial_queue_keeps(1)[OF q]] split: option.split)
  obtain r t where rd: "llc_event_cntr_read s = (r, t)" by fastforce
  then have t: "mon_at F t" using s mon_ok_view[OF view_llc_read[of s]] by simp
  show ?thesis
    unfolding collect_page_sample_def Let_def rd prod.case
    by (rule res_all_bind[OF burst_skip_update_ok[OF t]], rule res_all_bind_pair[OF take_sample_st], assumption, unfold prod.case,
        rule res_all_bind_pair[OF page_sample_complete_st[OF q]], assumption, unfold prod.case) (rule tail)
qed

lemma page_fault_handler_st:
  assumes s: "mon_at F s"
  shows "res_all (mon_at F) (page_fault_handler fuel a s)"
proof -
  have body: "res_all (mon_at F) (if b then Inr (upd_ps p (\<lambda>x. x\<lparr>ps_state := SAMPLE_UNINIT\<rparr>) (disable_page_sample p t))
      else collect_page_sample fuel (env_st fuel) p (disable_page_sample p t))" if "mon_at F t" for b p t
    using that by (auto intro!: res_all_if upd_ps_ok protect_ok collect_page_sample_st[OF env_st_client])
  have seen: "mon_at F (upd_ps p (\<lambda>x. x\<lparr>ps_wait_page_fault := 0\<rparr>) t)" if "mon_at F t" for p and t :: "'a sstate"
    using that by (rule upd_ps_ok) simp
  have rest: "res_all (mon_at F) (if p = NULL \<or> ps_chunk (ps_cell t p) = NULL then Inl ProcessExit
       else rbind (page_sample_complete fuel (env_st fuel) p (upd_ps p (\<lambda>x. x\<lparr>ps_wait_page_fault := 0\<rparr>) t)) (\<lambda>(ret, t).
         if ret \<noteq> 0 \<or> ck_state (ck_cell t (ps_chunk (ps_cell t p))) = CHUNK_MONIT_FINISH
         then Inr (upd_ps p (\<lambda>x. x\<lparr>ps_state := SAMPLE_UNINIT\<rparr>) (disable_page_sample p t))
         else collect_page_sample fuel (env_st fuel) p (disable_page_sample p t)))" if "mon_at F t" for p t
    by (rule res_all_if, simp, rule res_all_bind_pair[OF page_sample_complete_st[OF env_st_client seen[OF that]]], unfold prod.case)
      (rule body)
  show ?thesis
    unfolding page_fault_handler_def Let_def
    by (rule res_all_bind_pair[OF ok_weaken_pair[OF s view_get_st]], unfold prod.case) (rule rest)
qed

section \<open>Placing and removing samples\<close>

lemma remove_page_sample_st:
  assumes q: "queue_client env (mon_at F)" and s: "mon_at F s"
  shows "res_all (mon_at F) (remove_page_sample fuel env p s)"
proof -
  have "res_all (mon_at F) (if ps_wait_timer (ps_cell s p) \<noteq> 0
      then rbind (remove_time_event fuel env p s) (\<lambda>s. Inr (upd_ps p (\<lambda>x. x\<lparr>ps_wait_timer := 0\<rparr>) s))
      else Inr s)"
    using s by (auto intro!: res_all_if res_all_bind[OF serial_queue_keeps(2)[OF q s]] upd_ps_ok)
  moreover have "res_all (mon_at F) (rbind (detach_page_sample p (unlink_sample p
        (upd_ps p (\<lambda>x. x\<lparr>ps_wait_page_fault := 0\<rparr>) (disable_page_sample p t)))) (\<lambda>s.
      Inr (upd_ps p (\<lambda>x. x\<lparr>ps_chunk := NULL, ps_state := SAMPLE_UNINIT\<rparr>) s)))" if "mon_at F t" for t
  proof -
    have "mon_at F (unlink_sample p (upd_ps p (\<lambda>x. x\<lparr>ps_wait_page_fault := 0\<rparr>) (disable_page_sample p t)))"
      using that by (auto intro!: unlink_ok upd_ps_ok protect_ok)
    from ok_weaken[OF this view_detach_st] show ?thesis by (rule res_all_bind) (auto intro: upd_ps_ok)
  qed
  ultimately show ?thesis unfolding remove_page_sample_def Let_def by (rule res_all_bind)
qed

lemma remove_samples_loop_st_ok:
  assumes q: "queue_client env (mon_at F)"
  shows "mon_at F s \<Longrightarrow> res_all (mon_at F) (remove_samples_loop_st n fuel env k s)"
proof (induction n arbitrary: s)
  case (Suc n)
  then show ?case by (auto split: list.split intro!: res_all_bind[OF remove_page_sample_st[OF q]])
qed simp

lemma remove_chunk_samples_st:
  assumes "queue_client env (mon_at F)" and "mon_at F s"
  shows "res_all (mon_at F) (remove_chunk_samples fuel env k s)"
  unfolding remove_chunk_samples_def
  by (rule res_all_bind[OF remove_samples_loop_st_ok[OF assms]]) (auto intro: upd_ck_ok)

lemma view_sample_addr_st: "res_all (\<lambda>(_, t). same_view s t) (get_sample_addr a b c i n (s :: 'x sstate))"
  by (auto simp: get_sample_addr_def c_rand_def Let_def intro!: res_all_bind_any)

lemma place_samples_st: "mon_at F s \<Longrightarrow> res_all (mon_at F) (place_samples m a b c i n k s)"
proof (induction m arbitrary: i s)
  case (Suc m)
  let ?put = "\<lambda>p addr t. upd_ps p (\<lambda>x. x\<lparr>ps_wait_page_fault := 1\<rparr>) (enable_page_sample p
    (upd_ck k (\<lambda>x. x\<lparr>ck_sample := p # ck_sample x\<rparr>) (init_page_sample p k addr t)))"
  have "mon_at F (?put p addr t)" if "mon_at F t" for p addr t
    using that by (auto intro!: init_page_sample_ok upd_ps_ok upd_ck_ok protect_ok)
  note put = Suc.IH[OF this]
  show ?case
    unfolding place_samples.simps Let_def
    by (rule res_all_bind_pair[OF ok_weaken_pair[OF Suc.prems view_sample_addr_st]], unfold prod.case,
        rule res_all_bind_pair[OF ok_weaken_pair[OF _ view_attach_st]], assumption, unfold prod.case) (rule put)
qed simp

lemma monit_chunk_st:
  assumes s: "mon_at F s"
  shows "res_all (\<lambda>(_, t). mon_at F t) (monit_chunk fuel k s)"
proof -
  have start: "mon_at F (upd_ck k (\<lambda>x. x\<lparr>ck_nr_sample := n, ck_sample_state := START_SAMPLE, ck_base_sample_cycle := c,
      ck_sample := []\<rparr>) t)" if "mon_at F t" for n c and t :: "'a sstate"
    using that by (rule upd_ck_ok) (simp add: chunk_ok_def)
  have fin: "mon_at F (upd_ck k (\<lambda>x. x\<lparr>ck_state := CHUNK_UNDER_MONIT\<rparr>) t)" if "mon_at F t" for t :: "'a sstate"
    using that by (rule upd_ck_ok) (simp add: chunk_ok_states)
  show ?thesis
    unfolding monit_chunk_def Let_def
    by (rule res_all_if, use s in simp, rule res_all_bind[OF place_samples_st[OF start[OF queue_st_ok(4)[OF s]]]],
        rule res_all_bind[OF queue_st_ok(5)[OF fin]]) simp_all
qed

lemma stop_monit_chunk_st:
  assumes s: "mon_at F s"
  shows "res_all (\<lambda>(_, t). mon_at F t) (stop_monit_chunk fuel k (s :: 'x sstate))"
proof -
  have last: "res_all (mon_at F) (if ck_state (ck_cell t k) \<noteq> CHUNK_MONIT_FINISH
      then let (_, s) = llc_event_cntr_read t;
               s = last_chunk_sample_update k s;
               s = upd_ck k (\<lambda>x. x\<lparr>ck_sample_state := LAST_ROUND\<rparr>) s
           in rbind (update_context_mapping_type k s) (\<lambda>(_, s). Inr s)
      else Inr t)" if t: "mon_at F t" for t :: "'x sstate"
  proof -
    obtain r u where rd: "llc_event_cntr_read t = (r, u)" by fastforce
    then have "mon_at F u" using t mon_ok_view[OF view_llc_read[of t]] by simp
    then have "mon_at F (upd_ck k (\<lambda>x. x\<lparr>ck_sample_state := LAST_ROUND\<rparr>) (last_chunk_sample_update k u))"
      by (auto intro!: upd_ck_ok last_chunk_sample_update_ok simp: chunk_ok_states)
    note ctx = ok_weaken_pair[OF this view_update_context_st]
    show ?thesis
      unfolding Let_def rd prod.case
      by (rule res_all_if, rule res_all_bind_pair[OF ctx]) (use t in simp_all)
  qed
  have fin: "mon_at F (upd_ck k (\<lambda>x. x\<lparr>ck_state := CHUNK_MONIT_FINISH\<rparr>) t)" if "mon_at F t" for t :: "'x sstate"
    using that by (rule upd_ck_ok) (simp add: chunk_ok_states)
  show ?thesis
    unfolding stop_monit_chunk_def Let_def
    by (rule res_all_bind[OF last[OF queue_st_ok(4)[OF s], unfolded Let_def]], rule res_all_bind[OF queue_st_ok(2)], assumption,
        rule res_all_bind[OF remove_chunk_samples_st[OF env_st_client fin]], assumption,
        rule res_all_bind[OF queue_st_ok(5)]) simp_all
qed

lemma remove_samples_at_st_ok: "mon_at F s \<Longrightarrow> res_all (mon_at F) (remove_samples_at_st as fuel s)"
proof (induction as arbitrary: s)
  case (Cons a as)
  have r: "res_all (mon_at F) (if p \<noteq> NULL then remove_page_sample fuel (env_st fuel) p t else Inr t)" if "mon_at F t" for p t
    using that remove_page_sample_st[OF env_st_client that] by simp
  show ?case
    unfolding remove_samples_at_st.simps
    by (rule res_all_bind_pair[OF ok_weaken_pair[OF Cons.prems view_get_st]], unfold prod.case,
        rule res_all_bind[OF r], assumption) (rule Cons.IH)
qed simp

lemma remove_sample_range_st: "mon_at F s \<Longrightarrow> res_all (mon_at F) (remove_sample_range fuel a n s)"
  unfolding remove_sample_range_def by (rule res_all_bind_any) (rule remove_samples_at_st_ok)

section \<open>Calls of the allocator\<close>

lemma find_or_new_context_st: "res_all (\<lambda>(_, t). same_view s t) (find_or_new_context (s :: 'x sstate))"
proof -
  have alloc: "same_view t u" if "context_alloc t = (c, u)" for c and t u :: "'x sstate"
    using that by (auto simp: context_alloc_def internal_malloc_def Let_def split: if_splits list.splits)
  have init: "res_all (same_view t) (init_context key c t)" for key c and t :: "'x sstate"
    by (auto simp: init_context_def Let_def rbind_eq_Inr res_all_def dest!: res_all_D[OF add_member_more] view_more_st)
  have new: "res_all (\<lambda>(_, u). same_view s u) (let (c, u) = context_alloc t in rbind (init_context key c u) (\<lambda>u. Inr (c, u)))"
    if "same_view s t" for key and t :: "'x sstate"
    using that by (auto simp: Let_def split: prod.split intro!: res_all_bind[OF init] dest!: alloc)
  show ?thesis
    unfolding find_or_new_context_def get_context_key_def Let_def prod.case
    by (auto intro!: res_all_bind_any res_all_if new[unfolded Let_def])
qed

lemma get_alloc_context_st:
  assumes s: "mon_at F s"
  shows "res_all (\<lambda>(_, t). mon_at F t) (NightWatch_get_alloc_context sz (s :: 'x sstate))"
proof -
  have skip: "res_all (\<lambda>(_, t). same_view s t) (update_s2t_skip_interval e t)" if "same_view s t" for e and t :: "'x sstate"
    using that by (auto simp: update_s2t_skip_interval_def c_random_def Let_def)
  have long: "res_all (\<lambda>(_, t). same_view s t) (rbind (rd (s2t_map t) (uint sz)) (\<lambda>e.
      rbind (update_s2t_skip_interval e t) (\<lambda>(e, t).
      rbind (wr (s2t_map t) (uint sz) e) (\<lambda>es. Inr (Ctx c, t\<lparr>s2t_map := es\<rparr>)))))" if "same_view s t" for c and t :: "'x sstate"
    by (rule res_all_bind_any, rule res_all_bind_pair[OF skip[OF that]], unfold prod.case, rule res_all_bind_any) simp
  have "res_all (\<lambda>(_, t). same_view s t) (NightWatch_get_alloc_context sz s)"
    unfolding NightWatch_get_alloc_context_def
    by (rule res_all_if, rule res_all_bind_pair[OF find_or_new_context_st], simp, rule res_all_bind_any, rule res_all_if,
        rule res_all_bind_any, simp add: use_map_only_def, rule res_all_bind_pair[OF find_or_new_context_st], unfold prod.case)
      (rule long)
  then show ?thesis by (rule ok_weaken_pair[OF s])
qed

lemma attach_chunk_st:
  assumes s: "mon_at F s"
  shows "mon_at F (snd (attach_chunk_to_context p sz c (s :: 'x sstate)))"
proof -
  have v: "mon_at F (t :: 'x sstate)" if "mon_view t = mon_view u" "mon_at F u" for t u using mon_ok_view[OF that(1)] that(2) by simp
  have clear: "mon_at F (upd_ck k clear_chunk t)" if "mon_at F t" for k and t :: "'x sstate"
    using that by (rule upd_ck_ok) (simp add: clear_chunk_def chunk_ok_def)
  have act: "mon_at F (t\<lparr>active_chunk := l\<rparr>) = mon_at F t" for l and t :: "'x sstate" by (rule mon_ok_view) simp
  have "mon_at F (snd (chunk_alloc s))"
    using s by (auto simp: chunk_alloc_def internal_malloc_def Let_def act intro!: clear intro: v split: list.split)
  then obtain k t where "chunk_alloc s = (k, t)" and t: "mon_at F t" by (cases "chunk_alloc s") simp
  moreover have "mon_at F (upd_ck k (\<lambda>x. x\<lparr>ck_addr := p, ck_size := sz, ck_idx := n, ck_context := c\<rparr>) t)" for n
    using t by (rule upd_ck_ok) simp
  moreover have "mon_at F ((upd_ctx c f (u\<lparr>lp_chunk_idx := n\<rparr>)) :: 'x sstate) = mon_at F u" for f n u by (rule mon_ok_view) simp
  ultimately show ?thesis by (simp add: attach_chunk_to_context_def Let_def)
qed

lemma sampling_st:
  assumes s: "mon_at F s"
  shows "res_all (mon_at F) (NightWatch_sampling fuel p sz ty r (s :: 'x sstate))"
proof -
  have v: "mon_at F t" if "mon_view t = mon_view u" "mon_at F u" for t u :: "'x sstate" using mon_ok_view[OF that(1)] that(2) by simp
  have main: "res_all (mon_at F) (if skip_chunk sz (ctx_cell s c)
      then Inr (set_extend_info p NULL (upd_ctx c (\<lambda>x. x\<lparr>sample_skip := i32 (sample_skip x - 1)\<rparr>) s))
      else let (chunk, s) = attach_chunk_to_context p sz c s;
               s = upd_ck chunk (\<lambda>x. x\<lparr>ck_mapping_type := ty, ck_mr := get_predict_mr (ctx_cell s c)\<rparr>) s;
               s = set_extend_info p chunk s;
               s = upd_ctx c (sampled_context (\<lambda>n. n = 0) sz) s
           in rbind (monit_chunk fuel chunk s) (\<lambda>(_, s). Inr s))" for c
  proof -
    obtain k t where kt: "attach_chunk_to_context p sz c s = (k, t)" by fastforce
    then have "mon_at F t" using attach_chunk_st[OF s, of p sz c] by simp
    then have "mon_at F (upd_ck k (\<lambda>x. x\<lparr>ck_mapping_type := ty, ck_mr := mr\<rparr>) t)" for mr by (rule upd_ck_ok) simp
    then have "mon_at F (upd_ctx c f (set_extend_info p k (upd_ck k (\<lambda>x. x\<lparr>ck_mapping_type := ty, ck_mr := mr\<rparr>) t)))" for f mr
      by (rule v[rotated]) simp
    note m = res_all_bind_pair[OF monit_chunk_st[OF this]]
    have skipped: "mon_at F (set_extend_info p NULL (upd_ctx c f s))" for f using v[OF _ s] by simp
    show ?thesis unfolding kt Let_def prod.case by (rule res_all_if, simp add: skipped, rule m) simp
  qed
  have "res_all (mon_at F) (NightWatch_sampling fuel p sz ty r s)" if "r = Ctx c" for c
    unfolding NightWatch_sampling_def that ctx_ref.case by (rule res_all_if, use s in simp, rule main)
  moreover have "res_all (mon_at F) (NightWatch_sampling fuel p sz ty r s)" if "\<nexists>c. r = Ctx c"
    using that s by (cases r) (auto simp: NightWatch_sampling_def)
  ultimately show ?thesis by blast
qed

lemma collect_sample_st:
  assumes s: "mon_at F s"
  shows "res_all (mon_at F) (NightWatch_collect_sample fuel p (s :: 'x sstate))"
proof -
  have v: "mon_at F t" if "mon_view t = mon_view u" "mon_at F u" for t u :: "'x sstate" using mon_ok_view[OF that(1)] that(2) by simp
  have det: "mon_at F (detach_chunk_from_context k t)" if "mon_at F t" for k and t :: "'x sstate"
  proof -
    have "mon_at F (upd_ck k (\<lambda>x. x\<lparr>ck_context := NULL\<rparr>) t)" using that by (rule upd_ck_ok) simp
    then show ?thesis by (rule v[rotated]) (simp add: detach_chunk_from_context_def chunk_free_def Let_def)
  qed
  have "res_all (mon_at F) (if b then rbind (stop_monit_chunk fuel k s) (\<lambda>(_, s). Inr s) else Inr s)" for b k
    using s by (auto intro!: res_all_if res_all_bind_pair[OF stop_monit_chunk_st])
  then have "res_all (mon_at F) (rbind (if b then rbind (stop_monit_chunk fuel k s) (\<lambda>(_, s). Inr s) else Inr s)
      (\<lambda>s. Inr (detach_chunk_from_context k s)))" for b k
    by (rule res_all_bind) (simp add: det)
  then show ?thesis
    unfolding NightWatch_collect_sample_def Let_def by (intro res_all_if) (use s in simp_all)
qed

section \<open>The wrappers of the C library\<close>

lemma pre_walk_st: "mon_at F s \<Longrightarrow> res_all (mon_at F) (pre_walk n p stop fuel (s :: 'x nsstate))"
proof (induction n arbitrary: p s)
  case (Suc n)
  have "res_all (mon_at F) (if b then page_fault_handler fuel p s else Inr s)" for b
    using Suc.prems page_fault_handler_st[OF Suc.prems] by simp
  from res_all_bind[OF this Suc.IH] show ?case
    unfolding pre_walk.simps by (intro res_all_if) (use Suc.prems in simp_all)
qed simp

lemma unprotect_buffer_st: "mon_at F s \<Longrightarrow> res_all (mon_at F) (unprotect_buffer fuel a n (s :: 'x nsstate))"
  unfolding unprotect_buffer_def by (erule res_all_bind[OF pre_walk_st]) (rule remove_sample_range_st)

lemma hook_parts_st:
  fixes s :: "'x nsstate"
  shows "mon_ok (snd (install_stdlibapi_hook s)) = mon_ok s" "mon_ok (snd (call_libc c s)) = mon_ok s"
  by (simp_all add: install_stdlibapi_hook_def call_libc_def enable_cache_management_def disable_cache_management_def
      mon_ok_def Let_def)

lemma wrapped_call_st:
  fixes f :: "'x nsstate \<Rightarrow> 'x nsstate res"
  assumes s: "mon_ok s" and f: "\<And>F t. mon_at F t \<Longrightarrow> res_all (mon_at F) (f t)"
  shows "res_all (\<lambda>(_, t). mon_ok t) (let (_, s) = install_stdlibapi_hook s
      in rbind (if NightWatch_active s then f s else Inr s) (\<lambda>s. Inr (call_libc c s)))"
proof -
  obtain r t where i: "install_stdlibapi_hook s = (r, t)" by fastforce
  then have "mon_at (tc_frame t) t" using s hook_parts_st(1)[of s] by (simp add: mon_at_self)
  then have "res_all mon_ok (if NightWatch_active t then f t else Inr t)"
    using f[of "tc_frame t" t] by (auto simp: res_all_def mon_at_def)
  then show ?thesis unfolding i Let_def prod.case
    by (rule res_all_bind) (simp add: case_prod_unfold hook_parts_st)
qed

lemma hooks_st:
  fixes s :: "'x nsstate"
  assumes "mon_ok s"
  shows "res_all (\<lambda>(_, t). mon_ok t) (buffer_hook fuel a n c s)"
    and "res_all (\<lambda>(_, t). mon_ok t) (memmove_hook fuel dest src n s)"
  unfolding buffer_hook_def memmove_hook_def
  by (rule wrapped_call_st[OF assms unprotect_buffer_st], assumption,
      rule wrapped_call_st[OF assms], erule res_all_bind[OF unprotect_buffer_st], erule unprotect_buffer_st)

section \<open>The serial library as a state machine\<close>

inductive st_step :: "nat \<Rightarrow> 'x nsstate \<Rightarrow> 'x nsstate \<Rightarrow> bool" for fuel where
  st_fault: "a AND PAGE_MASK \<in> page_prot s \<Longrightarrow> page_fault_handler fuel a s = Inr t \<Longrightarrow> st_step fuel s t"
| st_alarm: "trigger_time_event fuel (env_st fuel) s = Inr t \<Longrightarrow> st_step fuel s t"
| st_get_context: "NightWatch_get_alloc_context sz s = Inr (r, t) \<Longrightarrow> st_step fuel s t"
| st_sampling: "NightWatch_sampling fuel p sz ty r s = Inr t \<Longrightarrow> st_step fuel s t"
| st_collect: "NightWatch_collect_sample fuel p s = Inr t \<Longrightarrow> st_step fuel s t"
| st_read: "read_hook fuel fd buf count s = Inr (ret, t) \<Longrightarrow> st_step fuel s t"
| st_write: "write_hook fuel fd buf count s = Inr (ret, t) \<Longrightarrow> st_step fuel s t"
| st_fread: "fread_hook fuel p sz n f s = Inr (ret, t) \<Longrightarrow> st_step fuel s t"
| st_fwrite: "fwrite_hook fuel p sz n f s = Inr (ret, t) \<Longrightarrow> st_step fuel s t"
| st_memmove: "memmove_hook fuel dest src n s = Inr (ret, t) \<Longrightarrow> st_step fuel s t"
| st_fopen: "fopen_hook path mode s = (ret, t) \<Longrightarrow> st_step fuel s t"
| st_fclose: "fclose_hook f s = (ret, t) \<Longrightarrow> st_step fuel s t"

lemma buffer_hooks_st:
  fixes s :: "'x nsstate"
  assumes "mon_ok s"
  shows "read_hook fuel fd a n s = Inr (ret, t) \<Longrightarrow> mon_ok t" "write_hook fuel fd a n s = Inr (ret, t) \<Longrightarrow> mon_ok t"
    and "fread_hook fuel a sz n f s = Inr (ret, t) \<Longrightarrow> mon_ok t" "fwrite_hook fuel a sz n f s = Inr (ret, t) \<Longrightarrow> mon_ok t"
    and "memmove_hook fuel dest src n s = Inr (ret, t) \<Longrightarrow> mon_ok t"
  using hooks_st[OF assms] by (fastforce simp: res_all_def read_hook_def write_hook_def fread_hook_def fwrite_hook_def)+

lemma st_step_ok: "st_step fuel s t \<Longrightarrow> mon_ok s \<Longrightarrow> mon_ok t"
proof (induction rule: st_step.induct)
  case (st_fault a s t)
  show ?case by (rule mon_at_ok(1)[OF page_fault_handler_st[OF st_fault.prems[unfolded mon_at_self]] st_fault.hyps(2)])
next
  case (st_alarm s t)
  show ?case by (rule mon_at_ok(1)[OF queue_st_ok(3)[OF st_alarm.prems[unfolded mon_at_self]] st_alarm.hyps])
next
  case (st_get_context sz s r t)
  show ?case by (rule mon_at_ok(2)[OF get_alloc_context_st[OF st_get_context.prems[unfolded mon_at_self]] st_get_context.hyps])
next
  case (st_sampling p sz ty r s t)
  show ?case by (rule mon_at_ok(1)[OF sampling_st[OF st_sampling.prems[unfolded mon_at_self]] st_sampling.hyps])
next
  case (st_collect p s t)
  show ?case by (rule mon_at_ok(1)[OF collect_sample_st[OF st_collect.prems[unfolded mon_at_self]] st_collect.hyps])
next
  case (st_fopen path mode s ret t)
  have "mon_ok (snd (fopen_hook path mode s)) = mon_ok s" by (simp add: fopen_hook_def case_prod_unfold hook_parts_st)
  then show ?case using st_fopen by simp
next
  case (st_fclose f s ret t)
  have "mon_ok (snd (fclose_hook f s)) = mon_ok s" by (simp add: fclose_hook_def case_prod_unfold hook_parts_st)
  then show ?case using st_fclose by simp
qed (erule buffer_hooks_st[rotated], assumption)+

text \<open>The serial library in a process that has just been loaded: the counterpart of \<open>boot\<close>.\<close>

definition boot_st :: "hash_map nw_state" where
  "boot_st = \<lparr>malloc_seq = (\<lambda>_. 0)(2 := 64, 3 := 128, 4 := 192, 5 := 256), malloc_below = \<lambda>_. 1, malloc_cnt = 2,
     released = [], free_member = [], mm_cell = \<lambda>_. \<lparr>mm_key = 0, mm_val = 0\<rparr>, fm_init = True,
     eq_status = EVENT_QUEUE_EMPTY, nr_event = 0, events = [], free_event = [], ev_cell = \<lambda>_. zero_event,
     itv_interval = \<lparr>tv_sec = 0, tv_usec = 0\<rparr>, itv_value = \<lparr>tv_sec = 0, tv_usec = 0\<rparr>,
     timer_resolution = usec2tv TIMER_RESOLUTION, private2event_map = fresh_hm, queue_lock = False,
     clock = \<lambda>n. \<lparr>tv_sec = int n, tv_usec = 0\<rparr>, clock_cnt = 0, sigaction_ret = 0, sigalrm_installed = False,
     lp_chunk_idx = 0, context_hash_map = fresh_hm, s2t_map = replicate 65537 empty_s2t, s2t_addr = 0,
     lp_context_idx = 1, lp_contexts = [], free_context = [], fc_init = True, active_context = [],
     free_chunk = [], fk_init = True, active_chunk = [], ctx_cell = \<lambda>_. zero_context, ck_cell = \<lambda>_. zero_chunk,
     map_only_ctx = zero_context, ctx_snapshot = zero_context, random_seq = \<lambda>_. 5, random_cnt = 0,
     backtraces = \<lambda>_. [1, 2, 3, 4], backtrace_cnt = 0,
     page_block_list = [], page_block_map = fresh_hm, hot_page_block = 0, free_page_sample = [], fp_init = True,
     active_page_sample = [], pb_cell = \<lambda>_. zero_block, ps_cell = \<lambda>_. zero_sample, pm_lock = False,
     papi_ret = \<lambda>_. 0, papi_calls = 0, papi_running = True, papi_reads = \<lambda>_. (0, 0, 0), papi_read_cnt = 0,
     llc_miss_buf = 0, llc_access_buf = 0,
     chk_cell = \<lambda>_. \<lparr>ch_offset = 0, ch_mark = 0, ch_extend_info = 0\<rparr>, mmap_calls = [], in_cache_manage = 0,
     cache_manager_private = None,
     llc_sz_in_line = 131072, llc_sz = 8388608, cache_region_sz_in_line = 16384, cache_region_sz = 1048576,
     monitor_state = MONITOR_ACTIVE, burst_skip_len = 500, llc_acc_at_skip_update = 0,
     tv_at_skip_update = \<lparr>tv_sec = 0, tv_usec = 0\<rparr>, nr_skip_update_attempt = 0, page_prot = {},
     pow_density = uint, rand_seq = \<lambda>_. 3, rand_cnt = 0,
     sigsegv_ret = 0, nightwatch_state = 0, hooked = 0, libc_ret = \<lambda>_. 0, libc_log = []\<rparr>"

lemma boot_st_mon_ok: "mon_ok boot_st"
  by (simp add: mon_ok_def boot_st_def chunk_ok_def sample_ok_def zero_chunk_def zero_sample_def page_aligned_def
      chunk_state_defs sample_state_defs round_defs DEFAULT_BURST_LEN_def)

text \<open>C23: the counters of the serial monitor stay consistent too. In every state reachable from a good one
  by page faults, timer signals, allocations, releases and the wrapped library calls of the serial
  version, \<open>memmove\<close> included, every chunk and every sample has counted as many references as victims and
  pollutors together, is in one of its states, a sample's address and every protected page are page
  addresses, and the burst skip is at least its default.\<close>

theorem serial_monitor_invariant:
  assumes "(st_step fuel)\<^sup>*\<^sup>* s t" and "mon_ok s"
  shows "mon_ok t"
  using assms by (induction rule: rtranclp_induct) (auto intro: st_step_ok)

text \<open>From the initial state: a timer signal, then \<open>memmove\<close>.\<close>

theorem serial_monitor_invariant_witness:
  "\<exists>s1 s2. trigger_time_event 3 (env_st 3) boot_st = Inr s1 \<and> memmove_hook 3 64 128 8 s1 = Inr (0, s2) \<and>
     (st_step 3)\<^sup>*\<^sup>* boot_st s2 \<and> mon_ok boot_st \<and> mon_ok s2"
proof -
  have "\<exists>s1 s2. trigger_time_event 3 (env_st 3) boot_st = Inr s1 \<and> memmove_hook 3 64 128 8 s1 = Inr (0, s2)"
    by (simp add: trigger_time_event_def do_pend_event_queue_def trigger_pended_def do_trigger_time_event_def
        gettimeofday_def set_timer_def memmove_hook_def install_stdlibapi_hook_def call_libc_def NightWatch_active_def
        enable_cache_management_def disable_cache_management_def numeral_3_eq_3 boot_st_def)
  then obtain s1 s2 where s: "trigger_time_event 3 (env_st 3) boot_st = Inr s1" "memmove_hook 3 64 128 8 s1 = Inr (0, s2)"
    by blast
  then have "(st_step 3)\<^sup>*\<^sup>* boot_st s2" by (meson st_alarm st_memmove rtranclp.rtrancl_into_rtrancl rtranclp.rtrancl_refl)
  then show ?thesis using s boot_st_mon_ok serial_monitor_invariant[OF _ boot_st_mon_ok] by blast
qed

end
