(* ===== verification/TCMalloc_Entry.thy ===== *)
theory TCMalloc_Entry
  imports NightWatch
begin

text \<open>
  The entry points of the modified \<open>tcmalloc.cc\<close>: every allocation asks NightWatch for a context and
  a heap type, puts a head in front of the block and offers the block for sampling; every release
  collects the samples. The thread caches, the central lists and the page heap of gperftools are the
  parameter \<open>tc_heap\<close>: \<open>th_small\<close> is \<open>do_malloc_small\<close> and \<open>th_pages\<close> is \<open>do_malloc_pages\<close> on the
  cache of a heap type, \<open>th_aligned\<close> the part of \<open>do_memalign\<close> that does not fall back to
  \<open>do_malloc\<close>, \<open>th_free\<close> is \<open>do_free_helper\<close>, \<open>th_size\<close> is \<open>GetSizeWithCallback\<close>. They are a parameter
  because a program may call the entry points with any pointer, also one that no heap handed out, while
  the components of the heap (theories \<open>Thread_Cache\<close>, \<open>Central_Freelist\<close>, \<open>Page_Heap\<close>) are verified for objects
  that their clients hold; what is shown here holds of every heap that leaves the data of NightWatch
  alone. Each cache is one of
  an array of two, so another heap type is a fault. \<open>ThreadCache::have_tls\<close> is true, as \<open>thread_cache.h\<close> defines it in
  a build with thread-local storage. The malloc hooks, the content of user blocks and
  \<open>errno\<close> on success are left out.
\<close>

section \<open>Data\<close>

record 'm br_state = "'m nw_state" +
  tc_active :: int
  tc_inited :: bool
  min_size_for_slow_path :: uint64
  tc_new_mode :: int
  tc_errno :: int
  tcmallocguard_refcount :: int

type_synonym 'x bstate = "(hash_map_mt, 'x) br_state_scheme"

record 's tc_heap =
  th_small :: "int \<Rightarrow> uint64 \<Rightarrow> 's \<Rightarrow> ptr \<times> 's"
  th_pages :: "int \<Rightarrow> uint64 \<Rightarrow> 's \<Rightarrow> ptr \<times> 's"
  th_aligned :: "int \<Rightarrow> uint64 \<Rightarrow> uint64 \<Rightarrow> 's \<Rightarrow> ptr \<times> 's"
  th_alignment_for_size :: "uint64 \<Rightarrow> uint64"
  th_free :: "int \<Rightarrow> ptr \<Rightarrow> 's \<Rightarrow> 's"
  th_size :: "ptr \<Rightarrow> 's \<Rightarrow> uint64"
  th_new_handler :: "('s \<Rightarrow> 's res) option"
  th_init_tsd :: "'s \<Rightarrow> 's"
  th_pagesize :: uint64
  th_impl_size :: uint64

type_synonym 'x theap = "'x bstate tc_heap"

definition CACHE_LINE_SZ :: uint64 where "CACHE_LINE_SZ = 64"
definition kMaxSize :: uint64 where "kMaxSize = 256 * 1024"
definition ENOMEM :: int where "ENOMEM = 12"
definition EINVAL :: int where "EINVAL = 22"

definition tiny_chunk :: "uint64 \<Rightarrow> bool" where
  "tiny_chunk sz \<longleftrightarrow> sz \<le> CACHE_LINE_SZ"

definition valid_heap_type :: "int \<Rightarrow> bool" where
  "valid_heap_type type \<longleftrightarrow> 0 \<le> type \<and> type < NR_HEAP_TYPE"

text \<open>A \<open>size_t\<close> cast to \<open>int\<close> and passed on as a \<open>size_t\<close>.\<close>

definition int_cast :: "uint64 \<Rightarrow> uint64" where
  "int_cast sz = scast (ucast sz :: uint32)"

section \<open>Talking to NightWatch\<close>

definition get_heap_type_hint :: "uint64 \<Rightarrow> ('m, 'x) br_state_scheme \<Rightarrow> int" where
  "get_heap_type_hint sz s =
     (if tc_active s \<noteq> 0 \<and> in_cache_manage s = 1
      then case cache_manager_private s of
             Some alloc_context \<Rightarrow> NightWatch_heap_type_hint alloc_context s
           | None \<Rightarrow> DEFAULT_HEAP_TYPE
      else DEFAULT_HEAP_TYPE)"

definition notify_heap_type_manager_before_malloc ::
    "uint64 \<Rightarrow> uint64 \<Rightarrow> 'x bstate \<Rightarrow> (uint64 \<times> 'x bstate) res" where
  "notify_heap_type_manager_before_malloc sz align s =
     (if tc_active s = 0 \<or> tiny_chunk sz \<or> in_cache_management s
      then Inr (get_ex_size sz align, enter_cache_management s)
      else
        rbind (NightWatch_get_alloc_context_mt sz (enter_cache_management s)) (\<lambda>(alloc_context, s).
          let s = s\<lparr>cache_manager_private := Some alloc_context\<rparr>;
              ex_size_1 = NightWatch_size_demand sz (Some alloc_context) s
          in Inr (get_ex_size ex_size_1 align, s)))"

definition notify_heap_type_manager_after_malloc ::
    "nat \<Rightarrow> ptr \<Rightarrow> uint64 \<Rightarrow> 'x bstate \<Rightarrow> 'x bstate res" where
  "notify_heap_type_manager_after_malloc fuel usr_ptr sz s =
     rbind (if usr_ptr \<noteq> NULL \<and> tc_active s \<noteq> 0 \<and> in_cache_manage s = 1
            then
              let heap_type = get_heap_type usr_ptr s
              in case cache_manager_private s of
                   None \<Rightarrow> Inr s
                 | Some alloc_context \<Rightarrow>
                     rbind (NightWatch_sampling_mt fuel usr_ptr sz heap_type alloc_context s) (\<lambda>s.
                       Inr (s\<lparr>cache_manager_private := None\<rparr>))
            else Inr s) (\<lambda>s.
       Inr (leave_cache_management s))"

definition notify_heap_type_manager_before_free :: "nat \<Rightarrow> ptr \<Rightarrow> 'x bstate \<Rightarrow> 'x bstate res" where
  "notify_heap_type_manager_before_free fuel p s =
     rbind (NightWatch_collect_sample_mt fuel p (enter_cache_management s)) (\<lambda>s.
       Inr (leave_cache_management s))"

section \<open>Allocation\<close>

text \<open>
  The heap type is written to the block before anyone asks whether there is a block. The two casts to
  \<open>int\<close> are those of the source.
\<close>

definition do_malloc_internal :: "'x theap \<Rightarrow> uint64 \<Rightarrow> int \<Rightarrow> 'x bstate \<Rightarrow> (ptr \<times> 'x bstate) res" where
  "do_malloc_internal env sz type s =
     (if \<not> valid_heap_type type then Inl OutOfBounds
      else
        let (result, s) =
          (if sz < min_size_for_slow_path s then th_small env type sz s
           else if sz \<le> kMaxSize then th_small env type (int_cast sz) s
           else th_pages env type (int_cast sz) s)
        in if result = NULL then Inl NullDeref
           else Inr (result, upd_head result (set_heap_type type) s))"

definition do_malloc_no_errno :: "'x theap \<Rightarrow> uint64 \<Rightarrow> 'x bstate \<Rightarrow> (ptr \<times> 'x bstate) res" where
  "do_malloc_no_errno env sz s = do_malloc_internal env sz (get_heap_type_hint sz s) s"

definition do_malloc :: "'x theap \<Rightarrow> uint64 \<Rightarrow> 'x bstate \<Rightarrow> (ptr \<times> 'x bstate) res" where
  "do_malloc env sz s =
     rbind (do_malloc_no_errno env sz s) (\<lambda>(ret, s).
       Inr (ret, if ret = NULL then s\<lparr>tc_errno := ENOMEM\<rparr> else s))"

text \<open>
  The loops around the new handler. The handler may return, in which case the allocation is tried
  again, or throw; each turn uses one unit of fuel.
\<close>

fun cpp_alloc :: "nat \<Rightarrow> 'x theap \<Rightarrow> uint64 \<Rightarrow> bool \<Rightarrow> 'x bstate \<Rightarrow> (ptr \<times> 'x bstate) res" where
  "cpp_alloc 0 env sz nothrow s = Inl OutOfFuel"
| "cpp_alloc (Suc n) env sz nothrow s =
     rbind (do_malloc_no_errno env sz s) (\<lambda>(p, s).
       if p \<noteq> NULL then Inr (p, s)
       else
         case th_new_handler env of
           None \<Rightarrow> if nothrow then Inr (NULL, s\<lparr>tc_errno := ENOMEM\<rparr>) else Inl BadAlloc
         | Some nh \<Rightarrow>
             case nh s of
               Inr s \<Rightarrow> cpp_alloc n env sz nothrow s
             | Inl e \<Rightarrow> if e = BadAlloc \<and> nothrow then Inr (NULL, s\<lparr>tc_errno := ENOMEM\<rparr>) else Inl e)"

definition do_malloc_or_cpp_alloc :: "nat \<Rightarrow> 'x theap \<Rightarrow> uint64 \<Rightarrow> 'x bstate \<Rightarrow> (ptr \<times> 'x bstate) res" where
  "do_malloc_or_cpp_alloc fuel env sz s =
     (if tc_new_mode s \<noteq> 0 then cpp_alloc fuel env sz True s else do_malloc env sz s)"

definition do_malloc_no_errno_or_cpp_alloc ::
    "nat \<Rightarrow> 'x theap \<Rightarrow> uint64 \<Rightarrow> 'x bstate \<Rightarrow> (ptr \<times> 'x bstate) res" where
  "do_malloc_no_errno_or_cpp_alloc fuel env sz s =
     (if tc_new_mode s \<noteq> 0 then cpp_alloc fuel env sz True s else do_malloc_no_errno env sz s)"

definition do_memalign :: "'x theap \<Rightarrow> uint64 \<Rightarrow> uint64 \<Rightarrow> 'x bstate \<Rightarrow> (ptr \<times> 'x bstate) res" where
  "do_memalign env align sz s =
     (if sz + align < sz then Inr (NULL, s)
      else if align \<le> th_alignment_for_size env sz then do_malloc env sz s
      else
        let type = get_heap_type_hint sz s
        in if \<not> valid_heap_type type then Inl OutOfBounds
           else Inr (th_aligned env type align (if sz = 0 then 1 else sz) s))"

fun cpp_memalign :: "nat \<Rightarrow> 'x theap \<Rightarrow> uint64 \<Rightarrow> uint64 \<Rightarrow> 'x bstate \<Rightarrow> (ptr \<times> 'x bstate) res" where
  "cpp_memalign 0 env align sz s = Inl OutOfFuel"
| "cpp_memalign (Suc n) env align sz s =
     rbind (do_memalign env align sz s) (\<lambda>(p, s).
       if p \<noteq> NULL then Inr (p, s)
       else
         case th_new_handler env of
           None \<Rightarrow> Inr (NULL, s)
         | Some nh \<Rightarrow>
             case nh s of
               Inr s \<Rightarrow> cpp_memalign n env align sz s
             | Inl e \<Rightarrow> if e = BadAlloc then Inr (p, s) else Inl e)"

definition do_memalign_or_cpp_memalign ::
    "nat \<Rightarrow> 'x theap \<Rightarrow> uint64 \<Rightarrow> uint64 \<Rightarrow> 'x bstate \<Rightarrow> (ptr \<times> 'x bstate) res" where
  "do_memalign_or_cpp_memalign fuel env align sz s =
     (if tc_new_mode s \<noteq> 0 then cpp_memalign fuel env align sz s else do_memalign env align sz s)"

text \<open>The end of an allocation: the head, then the notification.\<close>

definition finish_malloc ::
    "nat \<Rightarrow> ptr \<Rightarrow> uint64 \<Rightarrow> uint64 \<Rightarrow> 'x bstate \<Rightarrow> (ptr \<times> 'x bstate) res" where
  "finish_malloc fuel result sz align s =
     rbind (extend_malloc_and_get_usr_ptr result align s) (\<lambda>(usr_ptr, s).
     rbind (notify_heap_type_manager_after_malloc fuel usr_ptr sz s) (\<lambda>s.
       Inr (usr_ptr, s)))"

definition do_calloc :: "nat \<Rightarrow> 'x theap \<Rightarrow> uint64 \<Rightarrow> 'x bstate \<Rightarrow> (ptr \<times> 'x bstate) res" where
  "do_calloc fuel env sz s =
     rbind (notify_heap_type_manager_before_malloc sz 0 s) (\<lambda>(ex_size, s).
     rbind (do_malloc_no_errno_or_cpp_alloc fuel env ex_size s) (\<lambda>(result, s).
       finish_malloc fuel result sz 0 (if result = NULL then s\<lparr>tc_errno := ENOMEM\<rparr> else s)))"

section \<open>Release\<close>

definition free_block :: "'x theap \<Rightarrow> int \<Rightarrow> ptr \<Rightarrow> 'x bstate \<Rightarrow> 'x bstate res" where
  "free_block env type malloc_ptr s =
     (if \<not> valid_heap_type type then Inl OutOfBounds else Inr (th_free env type malloc_ptr s))"

definition do_free_with_callback :: "nat \<Rightarrow> 'x theap \<Rightarrow> ptr \<Rightarrow> 'x bstate \<Rightarrow> 'x bstate res" where
  "do_free_with_callback fuel env p s =
     (if tc_inited s \<and> using_chunk_head p s
      then
        let malloc_ptr = usr_ptr2malloc_ptr p s;
            type = get_heap_type p s
        in rbind (if tc_active s \<noteq> 0 then notify_heap_type_manager_before_free fuel p s else Inr s) (\<lambda>s.
             free_block env type malloc_ptr s)
      else free_block env DEFAULT_HEAP_TYPE p s)"

definition do_free_with_callback_internal :: "'x theap \<Rightarrow> ptr \<Rightarrow> 'x bstate \<Rightarrow> 'x bstate res" where
  "do_free_with_callback_internal env p s =
     (if tc_inited s \<and> using_chunk_head p s
      then free_block env (get_heap_type p s) (usr_ptr2malloc_ptr p s) s
      else free_block env DEFAULT_HEAP_TYPE p s)"

definition do_free :: "nat \<Rightarrow> 'x theap \<Rightarrow> ptr \<Rightarrow> 'x bstate \<Rightarrow> 'x bstate res" where
  "do_free fuel env p s = do_free_with_callback fuel env p s"

section \<open>Reallocation\<close>

definition do_realloc_with_callback ::
    "nat \<Rightarrow> 'x theap \<Rightarrow> ptr \<Rightarrow> uint64 \<Rightarrow> 'x bstate \<Rightarrow> (ptr \<times> 'x bstate) res" where
  "do_realloc_with_callback fuel env old_ptr new_size s =
     (let old_malloc_ptr = usr_ptr2malloc_ptr old_ptr s;
          old_ex_size = th_size env old_malloc_ptr s;
          old_size = get_usr_size old_ex_size old_ptr s;
          lower_bound_to_grow = old_size + old_size div 4;
          upper_bound_to_shrink = old_size div 2
      in if new_size > old_size \<or> new_size < upper_bound_to_shrink
         then
           rbind (notify_heap_type_manager_before_free fuel old_ptr s) (\<lambda>s.
           rbind (notify_heap_type_manager_before_malloc new_size 0 s) (\<lambda>(new_ex_size, s).
           rbind (if new_ex_size > old_size \<and> new_ex_size < lower_bound_to_grow
                  then do_malloc_no_errno_or_cpp_alloc fuel env lower_bound_to_grow s
                  else Inr (NULL, s)) (\<lambda>(new_ptr, s).
           rbind (if new_ptr = NULL then do_malloc_or_cpp_alloc fuel env new_ex_size s
                  else Inr (new_ptr, s)) (\<lambda>(new_ptr, s).
             if new_ptr = NULL then Inr (NULL, leave_cache_management s)
             else
               rbind (do_free_with_callback_internal env old_ptr s) (\<lambda>s.
                 finish_malloc fuel new_ptr new_size 0 s)))))
         else Inr (old_ptr, s))"

definition do_realloc :: "nat \<Rightarrow> 'x theap \<Rightarrow> ptr \<Rightarrow> uint64 \<Rightarrow> 'x bstate \<Rightarrow> (ptr \<times> 'x bstate) res" where
  "do_realloc fuel env old_ptr new_size s = do_realloc_with_callback fuel env old_ptr new_size s"

section \<open>Exported routines\<close>

definition tc_malloc :: "nat \<Rightarrow> 'x theap \<Rightarrow> uint64 \<Rightarrow> 'x bstate \<Rightarrow> (ptr \<times> 'x bstate) res" where
  "tc_malloc fuel env sz s =
     rbind (notify_heap_type_manager_before_malloc sz 0 s) (\<lambda>(ex_size, s).
     rbind (do_malloc_or_cpp_alloc fuel env ex_size s) (\<lambda>(result, s).
       finish_malloc fuel result sz 0 s))"

definition tc_free :: "nat \<Rightarrow> 'x theap \<Rightarrow> ptr \<Rightarrow> 'x bstate \<Rightarrow> 'x bstate res" where
  "tc_free fuel env p s = (if p = NULL then Inr s else do_free fuel env p s)"

definition tc_calloc :: "nat \<Rightarrow> 'x theap \<Rightarrow> uint64 \<Rightarrow> uint64 \<Rightarrow> 'x bstate \<Rightarrow> (ptr \<times> 'x bstate) res" where
  "tc_calloc fuel env n elem_size s =
     (let sz = n * elem_size
      in if elem_size \<noteq> 0 \<and> sz div elem_size \<noteq> n then Inr (NULL, s) else do_calloc fuel env sz s)"

definition tc_cfree :: "nat \<Rightarrow> 'x theap \<Rightarrow> ptr \<Rightarrow> 'x bstate \<Rightarrow> 'x bstate res" where
  "tc_cfree fuel env p s = do_free fuel env p s"

definition tc_realloc :: "nat \<Rightarrow> 'x theap \<Rightarrow> ptr \<Rightarrow> uint64 \<Rightarrow> 'x bstate \<Rightarrow> (ptr \<times> 'x bstate) res" where
  "tc_realloc fuel env old_ptr new_size s =
     (if old_ptr = NULL then
        rbind (notify_heap_type_manager_before_malloc new_size 0 s) (\<lambda>(ex_size, s).
        rbind (do_malloc_or_cpp_alloc fuel env ex_size s) (\<lambda>(result, s).
          finish_malloc fuel result new_size 0 s))
      else if new_size = 0 then rbind (do_free fuel env old_ptr s) (\<lambda>s. Inr (NULL, s))
      else do_realloc fuel env old_ptr new_size s)"

text \<open>The four forms of \<open>new\<close> have the same body up to \<open>nothrow\<close>.\<close>

definition cpp_new :: "nat \<Rightarrow> 'x theap \<Rightarrow> bool \<Rightarrow> uint64 \<Rightarrow> 'x bstate \<Rightarrow> (ptr \<times> 'x bstate) res" where
  "cpp_new fuel env nothrow sz s =
     rbind (notify_heap_type_manager_before_malloc sz 0 s) (\<lambda>(ex_size, s).
     rbind (cpp_alloc fuel env ex_size nothrow s) (\<lambda>(result, s).
       finish_malloc fuel result sz 0 s))"

definition tc_new :: "nat \<Rightarrow> 'x theap \<Rightarrow> uint64 \<Rightarrow> 'x bstate \<Rightarrow> (ptr \<times> 'x bstate) res" where
  "tc_new fuel env sz s = cpp_new fuel env False sz s"

definition tc_new_nothrow :: "nat \<Rightarrow> 'x theap \<Rightarrow> uint64 \<Rightarrow> 'x bstate \<Rightarrow> (ptr \<times> 'x bstate) res" where
  "tc_new_nothrow fuel env sz s = cpp_new fuel env True sz s"

definition tc_newarray :: "nat \<Rightarrow> 'x theap \<Rightarrow> uint64 \<Rightarrow> 'x bstate \<Rightarrow> (ptr \<times> 'x bstate) res" where
  "tc_newarray fuel env sz s = cpp_new fuel env False sz s"

definition tc_newarray_nothrow :: "nat \<Rightarrow> 'x theap \<Rightarrow> uint64 \<Rightarrow> 'x bstate \<Rightarrow> (ptr \<times> 'x bstate) res" where
  "tc_newarray_nothrow fuel env sz s = cpp_new fuel env True sz s"

definition tc_delete :: "nat \<Rightarrow> 'x theap \<Rightarrow> ptr \<Rightarrow> 'x bstate \<Rightarrow> 'x bstate res" where
  "tc_delete fuel env p s = do_free fuel env p s"

definition tc_delete_nothrow :: "nat \<Rightarrow> 'x theap \<Rightarrow> ptr \<Rightarrow> 'x bstate \<Rightarrow> 'x bstate res" where
  "tc_delete_nothrow fuel env p s = do_free fuel env p s"

definition tc_deletearray :: "nat \<Rightarrow> 'x theap \<Rightarrow> ptr \<Rightarrow> 'x bstate \<Rightarrow> 'x bstate res" where
  "tc_deletearray fuel env p s = do_free fuel env p s"

definition tc_deletearray_nothrow :: "nat \<Rightarrow> 'x theap \<Rightarrow> ptr \<Rightarrow> 'x bstate \<Rightarrow> 'x bstate res" where
  "tc_deletearray_nothrow fuel env p s = do_free fuel env p s"

definition tc_memalign :: "nat \<Rightarrow> 'x theap \<Rightarrow> uint64 \<Rightarrow> uint64 \<Rightarrow> 'x bstate \<Rightarrow> (ptr \<times> 'x bstate) res" where
  "tc_memalign fuel env align sz s =
     rbind (notify_heap_type_manager_before_malloc sz align s) (\<lambda>(ex_size, s).
     rbind (do_memalign_or_cpp_memalign fuel env align ex_size s) (\<lambda>(result, s).
       finish_malloc fuel result sz align s))"

text \<open>The result of \<open>tc_posix_memalign\<close> is its return value and what it stores in \<open>*result_ptr\<close>, if anything.\<close>

definition tc_posix_memalign ::
    "nat \<Rightarrow> 'x theap \<Rightarrow> uint64 \<Rightarrow> uint64 \<Rightarrow> 'x bstate \<Rightarrow> (int \<times> ptr option \<times> 'x bstate) res" where
  "tc_posix_memalign fuel env align sz s =
     (if align mod 8 \<noteq> 0 \<or> align AND (align - 1) \<noteq> 0 \<or> align = 0 then Inr (EINVAL, None, s)
      else
        rbind (notify_heap_type_manager_before_malloc sz align s) (\<lambda>(ex_size, s).
        rbind (do_memalign_or_cpp_memalign fuel env align ex_size s) (\<lambda>(result, s).
          if result = NULL then Inr (ENOMEM, None, s)
          else rbind (finish_malloc fuel result sz align s) (\<lambda>(usr_ptr, s). Inr (0, Some usr_ptr, s)))))"

definition tc_valloc :: "nat \<Rightarrow> 'x theap \<Rightarrow> uint64 \<Rightarrow> 'x bstate \<Rightarrow> (ptr \<times> 'x bstate) res" where
  "tc_valloc fuel env sz s =
     (let pagesize = th_pagesize env
      in rbind (notify_heap_type_manager_before_malloc sz pagesize s) (\<lambda>(ex_size, s).
         rbind (do_memalign_or_cpp_memalign fuel env pagesize ex_size s) (\<lambda>(result, s).
           finish_malloc fuel result sz pagesize s)))"

definition tc_pvalloc :: "nat \<Rightarrow> 'x theap \<Rightarrow> uint64 \<Rightarrow> 'x bstate \<Rightarrow> (ptr \<times> 'x bstate) res" where
  "tc_pvalloc fuel env sz s =
     (let pagesize = th_pagesize env;
          sz = (if sz = 0 then pagesize else sz);
          sz = (sz + pagesize - 1) AND NOT (pagesize - 1)
      in rbind (notify_heap_type_manager_before_malloc sz pagesize s) (\<lambda>(ex_size, s).
         rbind (do_memalign_or_cpp_memalign fuel env pagesize ex_size s) (\<lambda>(result, s).
           finish_malloc fuel result sz pagesize s)))"

definition tc_set_new_mode :: "int \<Rightarrow> ('m, 'x) br_state_scheme \<Rightarrow> int \<times> ('m, 'x) br_state_scheme" where
  "tc_set_new_mode flag s = (tc_new_mode s, s\<lparr>tc_new_mode := flag\<rparr>)"

definition tc_malloc_skip_new_handler :: "'x theap \<Rightarrow> uint64 \<Rightarrow> 'x bstate \<Rightarrow> (ptr \<times> 'x bstate) res" where
  "tc_malloc_skip_new_handler env sz s = do_malloc env sz s"

text \<open>The size of a block is asked for at the pointer of the user, not at the start of the block.\<close>

definition GetAllocatedSize :: "'x theap \<Rightarrow> ptr \<Rightarrow> 'x bstate \<Rightarrow> uint64" where
  "GetAllocatedSize env p s = (if p = NULL then 0 else th_size env p s)"

definition tc_malloc_size :: "'x theap \<Rightarrow> ptr \<Rightarrow> 'x bstate \<Rightarrow> uint64" where
  "tc_malloc_size env p s = GetAllocatedSize env p s"

definition MarkThreadBusy :: "nat \<Rightarrow> 'x theap \<Rightarrow> 'x bstate \<Rightarrow> 'x bstate res" where
  "MarkThreadBusy fuel env s = rbind (do_malloc env 0 s) (\<lambda>(p, s). do_free fuel env p s)"

section \<open>The allocator for NightWatch itself\<close>

definition tc_malloc_internal :: "'x theap \<Rightarrow> uint64 \<Rightarrow> int \<Rightarrow> 'x bstate \<Rightarrow> (ptr \<times> 'x bstate) res" where
  "tc_malloc_internal env sz heap_type s =
     rbind (do_malloc_internal env (get_ex_size sz 0) heap_type s) (\<lambda>(result, s).
       extend_malloc_and_get_usr_ptr result 0 s)"

definition tc_free_internal :: "'x theap \<Rightarrow> ptr \<Rightarrow> 'x bstate \<Rightarrow> 'x bstate res" where
  "tc_free_internal env p s = do_free_with_callback_internal env p s"

section \<open>Loading and unloading\<close>

text \<open>
  The constructor of the guard. The result of \<open>NightWatch_init\<close> is not looked at. Replacing the
  functions of the C library and registering the extension leave this state alone, except that the
  extension object is allocated.
\<close>

definition malloc_and_free_1 :: "nat \<Rightarrow> 'x theap \<Rightarrow> 'x bstate \<Rightarrow> 'x bstate res" where
  "malloc_and_free_1 fuel env s = rbind (tc_malloc fuel env 1 s) (\<lambda>(p, s). tc_free fuel env p s)"

definition TCMallocGuard_init :: "nat \<Rightarrow> 'x theap \<Rightarrow> bool \<Rightarrow> 'x bstate \<Rightarrow> 'x bstate res" where
  "TCMallocGuard_init fuel env valgrind s =
     (let n = tcmallocguard_refcount s;
          s = s\<lparr>tcmallocguard_refcount := n + 1\<rparr>
      in if n \<noteq> 0 then Inr s
         else
           rbind (malloc_and_free_1 fuel env (if tc_active s = 0 then enter_cache_management s else s)) (\<lambda>s.
           rbind (malloc_and_free_1 fuel env (th_init_tsd env s)) (\<lambda>s.
           rbind (if valgrind then Inr s else rbind (tc_new fuel env (th_impl_size env) s) (\<lambda>(_, s). Inr s)) (\<lambda>s.
             if tc_active s \<noteq> 0 then Inr s
             else
               rbind (NightWatch_init_mt s) (\<lambda>(_, s).
                 Inr ((leave_cache_management s)\<lparr>tc_active := 1\<rparr>))))))"

text \<open>The destructor of the guard; printing the statistics is left out.\<close>

definition TCMallocGuard_exit :: "('m, 'x) br_state_scheme \<Rightarrow> ('m, 'x) br_state_scheme" where
  "TCMallocGuard_exit s = s\<lparr>tcmallocguard_refcount := tcmallocguard_refcount s - 1\<rparr>"

end
