(* ===== verification/TCMalloc_Correct.thy ===== *)
theory TCMalloc_Correct
  imports TCMalloc_Entry Monitor_Invariant
begin

text \<open>
  The allocator around NightWatch: the head of a block leads back to the block, allocation and release
  are balanced, and what happens on the paths the code does not handle.
\<close>

section \<open>The head of a block\<close>

lemma split_masks:
  fixes a b c m :: uint32
  assumes "c AND m = c"
  shows "(a AND NOT m OR c) AND m = c" "(a AND NOT m OR c) AND NOT m = a AND NOT m"
    "(a AND m OR b AND NOT m) AND NOT m = b AND NOT m"
proof -
  have "bit c n \<Longrightarrow> bit m n" for n using assms by (metis bit_and_iff)
  then show "(a AND NOT m OR c) AND m = c" "(a AND NOT m OR c) AND NOT m = a AND NOT m"
    by (auto intro!: bit_word_eqI simp: bit_simps)
  show "(a AND m OR b AND NOT m) AND NOT m = b AND NOT m"
    by (rule bit_word_eqI) (auto simp: bit_simps)
qed

lemma CHUNK_HEAD_MARK_mask: "CHUNK_HEAD_MARK AND HEAP_TYPE_MASK = CHUNK_HEAD_MARK"
  by (simp add: CHUNK_HEAD_MARK_def HEAP_TYPE_MASK_def)

lemma init_chunk_head_fields [simp]:
  "get_chunk_head_mark (init_chunk_head n h) = CHUNK_HEAD_MARK"
  "ch_mark (init_chunk_head n h) AND NOT HEAP_TYPE_MASK = ch_mark h AND NOT HEAP_TYPE_MASK"
  "ch_offset (init_chunk_head n h) = ucast n" "ch_extend_info (init_chunk_head n h) = ch_extend_info h"
  using split_masks[OF CHUNK_HEAD_MARK_mask]
  by (simp_all add: init_chunk_head_def set_chunk_head_mark_def get_chunk_head_mark_def)

lemma set_heap_type_low: "ch_mark (set_heap_type t h) AND NOT HEAP_TYPE_MASK = word_of_int t AND NOT HEAP_TYPE_MASK"
  using split_masks(3)[OF CHUNK_HEAD_MARK_mask] by (simp add: set_heap_type_def)

lemma set_heap_type_kept:
  "get_chunk_head_mark (set_heap_type t h) = get_chunk_head_mark h" "ch_offset (set_heap_type t h) = ch_offset h"
proof -
  have "(a AND m OR b AND NOT m) AND m = a AND m" for a b m :: uint32
    by (rule bit_word_eqI) (auto simp: bit_simps)
  then show "get_chunk_head_mark (set_heap_type t h) = get_chunk_head_mark h" "ch_offset (set_heap_type t h) = ch_offset h"
    by (simp_all add: set_heap_type_def get_chunk_head_mark_def)
qed

lemma low_byte: "uint (word_of_int t AND NOT HEAP_TYPE_MASK) = t mod 256"
proof -
  have "NOT HEAP_TYPE_MASK = mask 8" by (simp add: HEAP_TYPE_MASK_def mask_eq_exp_minus_1)
  then show ?thesis
    by (simp add: take_bit_eq_mask[symmetric] take_bit_eq_mod uint_mod_distrib uint_word_of_int mod_mod_cancel)
qed

lemma offset_back: "align < 2 ^ 32 \<Longrightarrow> ucast (ucast (chunk_head_size align) :: uint32) = chunk_head_size align"
  by (rule word_uint_eqI) (simp add: chunk_head_size_def CHUNK_HEAD_SZ_def word_less_alt unsigned_ucast_eq take_bit_eq_mod uint_mod_distrib)

text \<open>What the head of the user pointer holds after the block got its head.\<close>

lemma extended_head:
  assumes "extend_malloc_and_get_usr_ptr b align s = Inr (u, t)"
  shows "b \<noteq> NULL" "u = b + chunk_head_size align"
    "chk_cell t (usr_ptr2chk_head u) =
       (if align > CHUNK_HEAD_SZ
        then \<lparr>ch_offset = ucast (chunk_head_size align), ch_mark = ch_mark (init_chunk_head (chunk_head_size align) (chk_cell s b)),
              ch_extend_info = ch_extend_info (chk_cell s b)\<rparr>
        else init_chunk_head (chunk_head_size align) (chk_cell s b))"
proof -
  show "b \<noteq> NULL" "u = b + chunk_head_size align"
    using assms by (auto simp: extend_malloc_and_get_usr_ptr_def Let_def split: if_splits)
  then show "chk_cell t (usr_ptr2chk_head u) =
       (if align > CHUNK_HEAD_SZ
        then \<lparr>ch_offset = ucast (chunk_head_size align), ch_mark = ch_mark (init_chunk_head (chunk_head_size align) (chk_cell s b)),
              ch_extend_info = ch_extend_info (chk_cell s b)\<rparr>
        else init_chunk_head (chunk_head_size align) (chk_cell s b))"
    using assms
    by (auto simp: extend_malloc_and_get_usr_ptr_def cpy_chunk_head_def upd_head_def usr_ptr2chk_head_def chunk_head_size_def Let_def)
qed

lemma extended_block:
  assumes e: "extend_malloc_and_get_usr_ptr b align s = Inr (u, t)" and u: "u \<noteq> NULL" and a: "align < 2 ^ 32"
  shows "using_chunk_head u t" "usr_ptr2malloc_ptr u t = b"
    "get_heap_type u t = uint (ch_mark (chk_cell s b) AND NOT HEAP_TYPE_MASK)"
    "get_extend_info u t = ch_extend_info (chk_cell s b)"
proof -
  note h = extended_head[OF e]
  have "get_chunk_head_mark (chk_cell t (usr_ptr2chk_head u)) = CHUNK_HEAD_MARK"
    using h(3) init_chunk_head_fields(1)[of "chunk_head_size align" "chk_cell s b"] by (simp add: get_chunk_head_mark_def)
  then show m: "using_chunk_head u t" using u by (simp add: using_chunk_head_def)
  show "usr_ptr2malloc_ptr u t = b"
    using h(2,3) offset_back[OF a] by (simp add: usr_ptr2malloc_ptr_def chk_head2malloc_ptr_def) (simp add: usr_ptr2chk_head_def)
  show "get_heap_type u t = uint (ch_mark (chk_cell s b) AND NOT HEAP_TYPE_MASK)"
    "get_extend_info u t = ch_extend_info (chk_cell s b)"
    using h(3) m by (simp_all add: get_heap_type_def get_extend_info_def)
qed

text \<open>C24: the head leads back to its block. Whatever the memory of a block held before, once its heap
  type has been written and the block has been extended, for any alignment below \<open>2 ^ 32\<close>, the user
  pointer is recognised, points back to the start of the block, and yields the heap type.\<close>

theorem head_round_trip:
  fixes s :: "('m, 'x) tstate"
  assumes "b \<noteq> NULL" and "b + chunk_head_size align \<noteq> NULL" and "align < 2 ^ 32" and "0 \<le> type" and "type < 256"
  shows "\<exists>u t. extend_malloc_and_get_usr_ptr b align (upd_head b (set_heap_type type) s) = Inr (u, t) \<and>
    u = b + chunk_head_size align \<and> using_chunk_head u t \<and> usr_ptr2malloc_ptr u t = b \<and> get_heap_type u t = type"
proof -
  let ?s = "upd_head b (set_heap_type type) s"
  obtain u t where e: "extend_malloc_and_get_usr_ptr b align ?s = Inr (u, t)"
    using assms(1) by (simp add: extend_malloc_and_get_usr_ptr_def Let_def)
  note u = extended_head(2)[OF e]
  then have "u \<noteq> NULL" using assms(2) by simp
  note b = extended_block[OF e this assms(3)]
  have "uint (ch_mark (chk_cell ?s b) AND NOT HEAP_TYPE_MASK) = type"
    using set_heap_type_low[of type "chk_cell s b"] low_byte[of type] assms(4,5) by (simp add: upd_head_def)
  then show ?thesis using e u b by metis
qed

theorem head_round_trip_witness:
  "\<exists>u t. extend_malloc_and_get_usr_ptr 8192 4096 (upd_head 8192 (set_heap_type 1) boot) = Inr (u, t) \<and>
    u = 12288 \<and> using_chunk_head u t \<and> usr_ptr2malloc_ptr u t = 8192 \<and> get_heap_type u t = 1"
  using head_round_trip[of 8192 4096 1 boot] by (simp add: chunk_head_size_def CHUNK_HEAD_SZ_def)

section \<open>The heap of gperftools\<close>

text \<open>
  What the entry points rely on: the heap changes its own data (the extension of the state) and memory,
  nothing of NightWatch and nothing of the entry points; a block lies in the lower half of the 48-bit
  address space; no new handler is installed.
\<close>

definition heap_keeps :: "'x bstate \<Rightarrow> 'x bstate \<Rightarrow> bool" where
  "heap_keeps s u \<longleftrightarrow> (\<exists>c x. u = br_state.more_update (\<lambda>_. x) (s\<lparr>chk_cell := c\<rparr>))"

lemma heap_keeps_refl [simp]: "heap_keeps s s"
  unfolding heap_keeps_def by (rule exI[of _ "chk_cell s"], rule exI[of _ "br_state.more s"]) (cases s, simp)

lemma heap_keeps_head: "heap_keeps s u \<Longrightarrow> heap_keeps s (upd_head a f u)"
  unfolding heap_keeps_def upd_head_def by (elim exE, rule exI, rule exI) (cases s, simp)

lemma heap_keeps_trans: "heap_keeps s t \<Longrightarrow> heap_keeps t u \<Longrightarrow> heap_keeps s u"
  unfolding heap_keeps_def by (elim exE, rule exI, rule exI) (cases s, simp)

lemma heap_keeps_fields:
  assumes "heap_keeps s u"
  shows "in_cache_manage u = in_cache_manage s" "cache_manager_private u = cache_manager_private s"
    "tc_active u = tc_active s" "tc_new_mode u = tc_new_mode s" "tc_inited u = tc_inited s" "mon_ok u = mon_ok s"
  using assms by (auto simp: heap_keeps_def mon_ok_def)

definition heap_laws :: "'x theap \<Rightarrow> bool" where
  "heap_laws env \<longleftrightarrow>
     (\<forall>t n s. heap_keeps s (snd (th_small env t n s)) \<and> fst (th_small env t n s) < 2 ^ 47) \<and>
     (\<forall>t n s. heap_keeps s (snd (th_pages env t n s)) \<and> fst (th_pages env t n s) < 2 ^ 47) \<and>
     (\<forall>t a n s. heap_keeps s (snd (th_aligned env t a n s)) \<and> fst (th_aligned env t a n s) < 2 ^ 47) \<and>
     (\<forall>t p s. heap_keeps s (th_free env t p s)) \<and> th_new_handler env = None"

lemma heap_laws_D:
  assumes "heap_laws env"
  shows "th_small env t n s = (p, u) \<Longrightarrow> heap_keeps s u \<and> p < 2 ^ 47"
    "th_pages env t n s = (p, u) \<Longrightarrow> heap_keeps s u \<and> p < 2 ^ 47"
    "th_aligned env t a n s = (p, u) \<Longrightarrow> heap_keeps s u \<and> p < 2 ^ 47"
    "heap_keeps s (th_free env t q s)"
  using assms unfolding heap_laws_def by (metis fst_conv snd_conv)+

text \<open>The call of the heap that serves a request of \<open>n\<close> bytes for the heap type \<open>ty\<close>.\<close>

definition heap_call :: "'x theap \<Rightarrow> int \<Rightarrow> uint64 \<Rightarrow> 'x bstate \<Rightarrow> ptr \<times> 'x bstate" where
  "heap_call env ty n s =
     (if n < min_size_for_slow_path s then th_small env ty n s
      else if n \<le> kMaxSize then th_small env ty (int_cast n) s else th_pages env ty (int_cast n) s)"

lemma do_malloc_internal_block:
  assumes "heap_laws env" and "do_malloc_internal env n ty s = Inr (p, t)"
  shows "p \<noteq> NULL" "p < 2 ^ 47" "valid_heap_type ty" "heap_keeps s t"
    "ch_mark (chk_cell t p) AND NOT HEAP_TYPE_MASK = word_of_int ty AND NOT HEAP_TYPE_MASK"
    "fst (heap_call env ty n s) = p"
proof -
  define r where "r = heap_call env ty n s"
  note r_def' = r_def[unfolded heap_call_def]
  obtain q u where r': "r = (q, u)" by fastforce
  have "heap_keeps s u \<and> q < 2 ^ 47"
    using heap_laws_D(1,2)[OF assms(1)] r' unfolding r_def' by (metis (full_types))
  moreover have "q \<noteq> NULL" "p = q" "t = upd_head q (set_heap_type ty) u" "valid_heap_type ty"
    using assms(2) r' unfolding do_malloc_internal_def r_def'[symmetric] by (auto split: if_splits)
  ultimately have q: "heap_keeps s u" "q \<noteq> NULL" "p = q" "t = upd_head q (set_heap_type ty) u" "valid_heap_type ty" "q < 2 ^ 47"
    by blast+
  then show "p \<noteq> NULL" "p < 2 ^ 47" "valid_heap_type ty" "fst (heap_call env ty n s) = p"
    using r' by (simp_all add: r_def)
  show "heap_keeps s t" using q(1) unfolding q(4) by (rule heap_keeps_head)
  show "ch_mark (chk_cell t p) AND NOT HEAP_TYPE_MASK = word_of_int ty AND NOT HEAP_TYPE_MASK"
    using q(3,4) set_heap_type_low by (simp add: upd_head_def)
qed

lemma do_malloc_block:
  assumes h: "heap_laws env" and "do_malloc_or_cpp_alloc fuel env n s = Inr (p, t) \<or> do_malloc_no_errno_or_cpp_alloc fuel env n s = Inr (p, t) \<or>
    cpp_alloc fuel env n nt s = Inr (p, t)"
  shows "p \<noteq> NULL" "p < 2 ^ 47" "heap_keeps s t"
    "uint (ch_mark (chk_cell t p) AND NOT HEAP_TYPE_MASK) = get_heap_type_hint n s"
    "valid_heap_type (get_heap_type_hint n s)" "fst (heap_call env (get_heap_type_hint n s) n s) = p"
proof -
  have cpp: "do_malloc_no_errno env n s = Inr (p, t)" if "cpp_alloc fuel env n b s = Inr (p, t)" for b
    using that do_malloc_internal_block(1)[OF h, of n "get_heap_type_hint n s" s]
    by (cases fuel) (auto simp: rbind_eq_Inr do_malloc_no_errno_def split: if_splits)
  have "do_malloc_no_errno env n s = Inr (p, t)"
    using assms cpp do_malloc_internal_block(1)[OF h, of n "get_heap_type_hint n s" s]
    by (auto simp: do_malloc_or_cpp_alloc_def do_malloc_no_errno_or_cpp_alloc_def do_malloc_def do_malloc_no_errno_def
        rbind_eq_Inr split: if_splits)
  then have "do_malloc_internal env n (get_heap_type_hint n s) s = Inr (p, t)" by (simp add: do_malloc_no_errno_def)
  note b = do_malloc_internal_block[OF h this]
  show "p \<noteq> NULL" "p < 2 ^ 47" "heap_keeps s t"
    "valid_heap_type (get_heap_type_hint n s)" "fst (heap_call env (get_heap_type_hint n s) n s) = p"
    by (rule b(1), rule b(2), rule b(4), rule b(3), rule b(6))
  show "uint (ch_mark (chk_cell t p) AND NOT HEAP_TYPE_MASK) = get_heap_type_hint n s"
    using b(3,5) low_byte[of "get_heap_type_hint n s"] by (simp add: valid_heap_type_def NR_HEAP_TYPE_def)
qed


section \<open>Notifications\<close>

text \<open>The part of the frame of the monitor that the entry points need.\<close>

lemma frame_fields:
  fixes s t :: "'x bstate"
  assumes "tc_frame s = tc_frame t"
  shows "in_cache_manage s = in_cache_manage t" "cache_manager_private s = cache_manager_private t"
    "using_chunk_head u s = using_chunk_head u t" "usr_ptr2malloc_ptr u s = usr_ptr2malloc_ptr u t"
    "tc_active s = tc_active t" "tc_new_mode s = tc_new_mode t" "tc_inited s = tc_inited t"
proof -
  show "in_cache_manage s = in_cache_manage t" "cache_manager_private s = cache_manager_private t"
    using assms by (simp_all add: tc_frame_def)
  have c: "ch_offset (chk_cell s a) = ch_offset (chk_cell t a)"
    "get_chunk_head_mark (chk_cell s a) = get_chunk_head_mark (chk_cell t a)" for a
    using assms by (auto simp: tc_frame_def dest!: fun_cong[where x = a])
  then show "using_chunk_head u s = using_chunk_head u t" "usr_ptr2malloc_ptr u s = usr_ptr2malloc_ptr u t"
    by (simp_all add: using_chunk_head_def usr_ptr2malloc_ptr_def chk_head2malloc_ptr_def)
  have "cm_state.more s = cm_state.more t" using assms by (simp add: tc_frame_def)
  then show "tc_active s = tc_active t" "tc_new_mode s = tc_new_mode t" "tc_inited s = tc_inited t"
    by (cases s; cases t; simp)+
qed

text \<open>The state outside an allocation: no context is pending at depth 0.\<close>

definition tc_idle :: "'x bstate \<Rightarrow> bool" where
  "tc_idle s \<longleftrightarrow> mon_ok s \<and> (in_cache_manage s = 0 \<longrightarrow> cache_manager_private s = None) \<and> 0 \<le> in_cache_manage s"

text \<open>During an allocation that started in \<open>s\<close>.\<close>

definition allocating :: "'x bstate \<Rightarrow> 'x bstate \<Rightarrow> bool" where
  "allocating s t \<longleftrightarrow> mon_ok t \<and> in_cache_manage t = in_cache_manage s + 1 \<and> tc_active t = tc_active s \<and>
     tc_new_mode t = tc_new_mode s \<and> tc_inited t = tc_inited s \<and>
     (in_cache_manage s = 0 \<and> tc_active s \<noteq> 0 \<or> cache_manager_private t = cache_manager_private s)"

lemma allocating_heap: "allocating s t \<Longrightarrow> heap_keeps t u \<Longrightarrow> allocating s u"
  using heap_keeps_fields[of t u] by (simp add: allocating_def)

lemma allocating_head: "allocating s t \<Longrightarrow> allocating s (upd_head a f t)"
  by (erule allocating_heap) (simp add: heap_keeps_head)

lemma before_malloc:
  fixes s :: "'x bstate"
  assumes "tc_idle s" and "notify_heap_type_manager_before_malloc sz al s = Inr (n, t)"
  shows "allocating s t"
proof -
  let ?e = "enter_cache_management s"
  have e: "mon_ok ?e" using assms(1) by (simp add: tc_idle_def mon_ok_def enter_cache_management_def)
  have enter: "allocating s ?e" using e by (simp add: allocating_def enter_cache_management_def)
  show ?thesis
  proof (cases "tc_active s = 0 \<or> tiny_chunk sz \<or> in_cache_management s")
    case True
    then show ?thesis using assms(2) enter by (simp add: notify_heap_type_manager_before_malloc_def)
  next
    case False
    then obtain c u where u: "NightWatch_get_alloc_context_mt sz ?e = Inr (c, u)" "t = u\<lparr>cache_manager_private := Some c\<rparr>"
      using assms(2) by (auto simp: notify_heap_type_manager_before_malloc_def rbind_eq_Inr Let_def)
    have "mon_at (tc_frame ?e) u"
      using res_all_D[OF get_alloc_context_ok[OF e[unfolded mon_at_self], of sz] u(1)] by simp
    then have "mon_ok u" "tc_frame u = tc_frame ?e" by (simp_all add: mon_at_def)
    then show ?thesis using u(2) False frame_fields[of u ?e] enter
      by (auto simp: allocating_def in_cache_management_def mon_ok_def enter_cache_management_def)
  qed
qed

lemma after_malloc:
  fixes s :: "'x bstate"
  assumes "tc_idle s" and "allocating s t" and "p \<noteq> NULL"
    and "notify_heap_type_manager_after_malloc fuel p sz t = Inr v"
  shows "tc_idle v" "in_cache_manage v = in_cache_manage s" "cache_manager_private v = cache_manager_private s"
    "tc_active v = tc_active s" "tc_new_mode v = tc_new_mode s" "tc_inited v = tc_inited s"
    "using_chunk_head u v = using_chunk_head u t" "usr_ptr2malloc_ptr u v = usr_ptr2malloc_ptr u t"
proof -
  obtain w where w: "v = leave_cache_management w" "mon_ok w" "in_cache_manage w = in_cache_manage t"
      "cache_manager_private w = cache_manager_private s" "tc_active w = tc_active t" "tc_new_mode w = tc_new_mode t"
      "tc_inited w = tc_inited t" "using_chunk_head u w = using_chunk_head u t" "usr_ptr2malloc_ptr u w = usr_ptr2malloc_ptr u t"
  proof (cases "tc_active t \<noteq> 0 \<and> in_cache_manage t = 1 \<and> cache_manager_private t \<noteq> None")
    case True
    then obtain c where c: "cache_manager_private t = Some c" by auto
    obtain w where w: "NightWatch_sampling_mt fuel p sz (get_heap_type p t) c t = Inr w"
        "v = leave_cache_management (w\<lparr>cache_manager_private := None\<rparr>)"
      using True c assms(3,4) by (auto simp: notify_heap_type_manager_after_malloc_def rbind_eq_Inr Let_def)
    have "mon_ok t" using assms(2) by (simp add: allocating_def)
    then have "mon_at (tc_frame t) w" using res_all_D[OF sampling_ok[OF _] w(1)] mon_at_self by blast
    then have m: "mon_ok w" and f: "tc_frame w = tc_frame t" by (simp_all add: mon_at_def)
    have "in_cache_manage s = 0" "cache_manager_private s = None"
      using True assms(1,2) by (auto simp: allocating_def tc_idle_def)
    with m frame_fields[OF f] show ?thesis
      by (intro that[OF w(2)]) (simp_all add: mon_ok_def using_chunk_head_def usr_ptr2malloc_ptr_def chk_head2malloc_ptr_def)
  next
    case False
    then have "v = leave_cache_management t"
      using assms(3,4) by (auto simp: notify_heap_type_manager_after_malloc_def rbind_eq_Inr Let_def split: if_splits option.splits)
    moreover have "cache_manager_private t = cache_manager_private s"
      using False assms(1,2) by (auto simp: allocating_def tc_idle_def)
    ultimately show ?thesis using assms(2) by (intro that[of t]) (simp_all add: allocating_def)
  qed
  then show "in_cache_manage v = in_cache_manage s" "cache_manager_private v = cache_manager_private s"
    "tc_active v = tc_active s" "tc_new_mode v = tc_new_mode s" "tc_inited v = tc_inited s"
    "using_chunk_head u v = using_chunk_head u t" "usr_ptr2malloc_ptr u v = usr_ptr2malloc_ptr u t"
    using assms(2) by (simp_all add: leave_cache_management_def allocating_def using_chunk_head_def usr_ptr2malloc_ptr_def
        chk_head2malloc_ptr_def)
  then show "tc_idle v" using w(1,2) assms(1) by (simp add: tc_idle_def leave_cache_management_def mon_ok_def)
qed

text \<open>An allocation that is not sampled: its head is left alone.\<close>

definition unsampled :: "uint64 \<Rightarrow> 'x bstate \<Rightarrow> bool" where
  "unsampled sz s \<longleftrightarrow> tc_active s = 0 \<or> tiny_chunk sz \<or> in_cache_management s"

lemma after_malloc_unsampled:
  fixes s :: "'x bstate"
  assumes s: "tc_idle s" "unsampled sz s" and b: "notify_heap_type_manager_before_malloc sz al s = Inr (n, t)"
    and k: "heap_keeps t w" and p: "p \<noteq> NULL" and a: "notify_heap_type_manager_after_malloc fuel p sz w = Inr v"
  shows "v = leave_cache_management w"
proof -
  have t: "t = enter_cache_management s"
    using b s(2) by (simp add: notify_heap_type_manager_before_malloc_def unsampled_def)
  have "tc_active w \<noteq> 0 \<and> in_cache_manage w = 1 \<longrightarrow> cache_manager_private w = None"
    using s(1) heap_keeps_fields(1,2)[OF k] by (auto simp: t enter_cache_management_def tc_idle_def)
  then show ?thesis using a p
    by (auto simp: notify_heap_type_manager_after_malloc_def rbind_eq_Inr Let_def split: if_splits option.splits)
qed

section \<open>Entry points\<close>

text \<open>What an entry point leaves as it found it.\<close>

definition balanced :: "'x bstate \<Rightarrow> 'x bstate \<Rightarrow> bool" where
  "balanced s t \<longleftrightarrow> tc_idle t \<and> in_cache_manage t = in_cache_manage s \<and> cache_manager_private t = cache_manager_private s \<and>
     tc_active t = tc_active s \<and> tc_new_mode t = tc_new_mode s \<and> tc_inited t = tc_inited s"

lemma balanced_trans: "balanced s t \<Longrightarrow> balanced t u \<Longrightarrow> balanced s u"
  by (simp add: balanced_def)

lemma balanced_heap: "tc_idle s \<Longrightarrow> heap_keeps s t \<Longrightarrow> balanced s t"
  using heap_keeps_fields[of s t] by (simp add: balanced_def tc_idle_def)

text \<open>A user pointer of a block.\<close>

definition block_of :: "'x bstate \<Rightarrow> ptr \<Rightarrow> ptr \<Rightarrow> bool" where
  "block_of s u b \<longleftrightarrow> using_chunk_head u s \<and> usr_ptr2malloc_ptr u s = b"

lemma user_pointer_nonnull:
  assumes "b < 2 ^ 47" and "align < 2 ^ 32"
  shows "b + chunk_head_size align \<noteq> NULL"
proof -
  have c: "uint (chunk_head_size align) < 2 ^ 32" "0 < uint (chunk_head_size align)" "uint b < 2 ^ 47"
    using assms by (simp_all add: chunk_head_size_def CHUNK_HEAD_SZ_def word_less_alt)
  then have "uint (b + chunk_head_size align) = uint b + uint (chunk_head_size align)"
    by (subst uint_add_lem[THEN iffD1]) simp_all
  then have "0 < uint (b + chunk_head_size align)" using c uint_ge_0[of b] by linarith
  then show ?thesis by auto
qed

lemma finish_malloc_block:
  assumes s: "tc_idle s" and t: "allocating s t" and b: "b < 2 ^ 47" and a: "align < 2 ^ 32"
    and f: "finish_malloc fuel b sz align t = Inr (u, v)"
  shows "balanced s v" "u = b + chunk_head_size align" "block_of v u b"
proof -
  obtain w where e: "extend_malloc_and_get_usr_ptr b align t = Inr (u, w)"
      and n: "notify_heap_type_manager_after_malloc fuel u sz w = Inr v"
    using f by (auto simp: finish_malloc_def rbind_eq_Inr)
  show u: "u = b + chunk_head_size align" by (rule extended_head(2)[OF e])
  then have nn: "u \<noteq> NULL" using user_pointer_nonnull[OF b a] by simp
  have "allocating s w"
    using e t by (auto simp: extend_malloc_and_get_usr_ptr_def cpy_chunk_head_def Let_def intro!: allocating_head split: if_splits)
  note m = after_malloc[OF s this nn n]
  show "balanced s v" using m by (simp add: balanced_def)
  show "block_of v u b" using m(7,8) extended_block(1,2)[OF e nn a] by (simp add: block_of_def)
qed

lemma malloc_path:
  assumes h: "heap_laws env" and s: "tc_idle s"
    and r: "rbind (notify_heap_type_manager_before_malloc sz 0 s) (\<lambda>(ex_size, s).
      rbind (al ex_size s) (\<lambda>(result, s). finish_malloc fuel result sz 0 s)) = Inr (u, v)"
    and al: "\<And>n t p w. al n t = Inr (p, w) \<Longrightarrow> do_malloc_or_cpp_alloc fuel env n t = Inr (p, w) \<or>
      do_malloc_no_errno_or_cpp_alloc fuel env n t = Inr (p, w) \<or> cpp_alloc fuel env n nt t = Inr (p, w)"
  shows "balanced s v \<and> (\<exists>b. u = b + CHUNK_HEAD_SZ \<and> block_of v u b)"
proof -
  obtain n t b w where t: "notify_heap_type_manager_before_malloc sz 0 s = Inr (n, t)" "al n t = Inr (b, w)"
      "finish_malloc fuel b sz 0 w = Inr (u, v)"
    using r by (auto simp: rbind_eq_Inr)
  note b = do_malloc_block[OF h al[OF t(2)]]
  have "allocating s w" using allocating_heap[OF before_malloc[OF s t(1)] b(3)] .
  from finish_malloc_block[OF s this b(2) _ t(3)] show ?thesis
    by (auto simp: chunk_head_size_def CHUNK_HEAD_SZ_def)
qed

lemma tc_malloc_balanced:
  assumes "heap_laws env" and "tc_idle s" and "tc_malloc fuel env sz s = Inr (u, v)"
  shows "balanced s v \<and> (\<exists>b. u = b + CHUNK_HEAD_SZ \<and> block_of v u b)"
  by (rule malloc_path[OF assms(1,2) assms(3)[unfolded tc_malloc_def]]) blast

text \<open>The block behind the pointer that \<open>malloc\<close> returns is the one the heap answered.\<close>

lemma tc_malloc_block:
  assumes h: "heap_laws env" and s: "tc_idle s" and "tc_malloc fuel env sz s = Inr (u, v)"
  shows "\<exists>n t b. notify_heap_type_manager_before_malloc sz 0 s = Inr (n, t) \<and>
    fst (heap_call env (get_heap_type_hint n t) n t) = b \<and> b \<noteq> NULL \<and> u = b + CHUNK_HEAD_SZ \<and>
    balanced s v \<and> block_of v u b \<and> valid_heap_type (get_heap_type_hint n t) \<and>
    (unsampled sz s \<longrightarrow> get_heap_type u v = get_heap_type_hint n t)"
proof -
  obtain n t b w where t: "notify_heap_type_manager_before_malloc sz 0 s = Inr (n, t)"
      "do_malloc_or_cpp_alloc fuel env n t = Inr (b, w)" "finish_malloc fuel b sz 0 w = Inr (u, v)"
    using assms(3) by (auto simp: tc_malloc_def rbind_eq_Inr)
  note b = do_malloc_block[OF h disjI1[OF t(2)]]
  have "allocating s w" using allocating_heap[OF before_malloc[OF s t(1)] b(3)] .
  note f = finish_malloc_block[OF s this b(2) _ t(3)]
  have u: "u = b + CHUNK_HEAD_SZ" "balanced s v" "block_of v u b"
    using f by (simp_all add: chunk_head_size_def CHUNK_HEAD_SZ_def)
  moreover have "get_heap_type u v = get_heap_type_hint n t" if q: "unsampled sz s"
  proof -
    obtain x where e: "extend_malloc_and_get_usr_ptr b 0 w = Inr (u, x)"
        and a: "notify_heap_type_manager_after_malloc fuel u sz x = Inr v"
      using t(3) by (auto simp: finish_malloc_def rbind_eq_Inr)
    have nn: "u \<noteq> NULL" using u(3) by (auto simp: block_of_def using_chunk_head_def)
    have "heap_keeps w x"
      using e by (auto simp: extend_malloc_and_get_usr_ptr_def Let_def heap_keeps_head split: if_splits)
    then have "v = leave_cache_management x"
      using after_malloc_unsampled[OF s q t(1) heap_keeps_trans[OF b(3)] nn a] by simp
    then show ?thesis using extended_block(3)[OF e nn] b(4) by (simp add: get_heap_type_def leave_cache_management_def)
  qed
  ultimately show ?thesis using t(1) b(1,5,6) by blast
qed

lemma cpp_new_balanced:
  assumes "heap_laws env" and "tc_idle s" and "cpp_new fuel env nt sz s = Inr (u, v)"
  shows "balanced s v \<and> (\<exists>b. u = b + CHUNK_HEAD_SZ \<and> block_of v u b)"
  by (rule malloc_path[OF assms(1,2) assms(3)[unfolded cpp_new_def]]) blast

lemma do_calloc_balanced:
  assumes "heap_laws env" and "tc_idle s" and r: "do_calloc fuel env sz s = Inr (u, v)"
  shows "balanced s v \<and> (\<exists>b. u = b + CHUNK_HEAD_SZ \<and> block_of v u b)"
proof -
  have "finish_malloc fuel p sz 0 (if p = NULL then t else w) = finish_malloc fuel p sz 0 w" for p and t w :: "'a bstate"
    by (simp add: finish_malloc_def extend_malloc_and_get_usr_ptr_def)
  note r = r[unfolded do_calloc_def this]
  show ?thesis by (rule malloc_path[OF assms(1,2) r]) blast
qed

lemma collect_balanced:
  fixes s :: "'x bstate"
  assumes "tc_idle s" and "notify_heap_type_manager_before_free fuel p s = Inr t"
  shows "balanced s t" "using_chunk_head u t = using_chunk_head u s" "usr_ptr2malloc_ptr u t = usr_ptr2malloc_ptr u s"
proof -
  let ?e = "enter_cache_management s"
  obtain w where w: "NightWatch_collect_sample_mt fuel p ?e = Inr w" "t = leave_cache_management w"
    using assms(2) by (auto simp: notify_heap_type_manager_before_free_def rbind_eq_Inr)
  have "mon_ok ?e" using assms(1) by (simp add: tc_idle_def mon_ok_def enter_cache_management_def)
  from collect_sample_ok[OF this[unfolded mon_at_self], of fuel p]
  have "mon_at (tc_frame ?e) w" by (rule res_all_D[OF _ w(1)])
  then have m: "mon_ok w" and f: "tc_frame w = tc_frame ?e" by (simp_all add: mon_at_def)
  show "balanced s t" using w(2) m assms(1) frame_fields(1,2,5-)[OF f]
    by (simp add: balanced_def tc_idle_def mon_ok_def leave_cache_management_def enter_cache_management_def)
  show "using_chunk_head u t = using_chunk_head u s" "usr_ptr2malloc_ptr u t = usr_ptr2malloc_ptr u s"
    using w(2) frame_fields(3,4)[OF f, of u]
    by (simp_all add: leave_cache_management_def enter_cache_management_def using_chunk_head_def usr_ptr2malloc_ptr_def
        chk_head2malloc_ptr_def)
qed

lemma free_block_balanced:
  assumes "heap_laws env" and "tc_idle s" and "free_block env ty p s = Inr t"
  shows "balanced s t" "t = th_free env ty p s"
proof -
  show t: "t = th_free env ty p s" using assms(3) by (auto simp: free_block_def split: if_splits)
  show "balanced s t" using balanced_heap[OF assms(2) heap_laws_D(4)[OF assms(1)]] by (simp add: t)
qed

lemma do_free_block:
  assumes h: "heap_laws env" and s: "tc_idle s" and r: "do_free_with_callback fuel env p s = Inr v"
  shows "\<exists>w ty b. balanced s w \<and> balanced s v \<and> v = th_free env ty b w \<and>
    (tc_inited s \<and> using_chunk_head p s \<longrightarrow> b = usr_ptr2malloc_ptr p s)"
proof (cases "tc_inited s \<and> using_chunk_head p s")
  case True
  obtain w where w: "(if tc_active s \<noteq> 0 then notify_heap_type_manager_before_free fuel p s else Inr s) = Inr w"
      "free_block env (get_heap_type p s) (usr_ptr2malloc_ptr p s) w = Inr v"
    using r True by (auto simp: do_free_with_callback_def rbind_eq_Inr Let_def)
  have "balanced s w" using w(1) s collect_balanced(1)[OF s] by (auto simp: balanced_def split: if_splits)
  moreover from this have "tc_idle w" by (simp add: balanced_def)
  ultimately show ?thesis using free_block_balanced[OF h _ w(2)] balanced_trans True by blast
next
  case False
  then have f: "free_block env DEFAULT_HEAP_TYPE p s = Inr v"
    using r unfolding do_free_with_callback_def if_not_P[OF False] by simp
  have "balanced s s" using s by (simp add: balanced_def)
  then show ?thesis using free_block_balanced[OF h s f] False by blast
qed

lemma do_free_balanced:
  assumes "heap_laws env" and "tc_idle s" and "do_free fuel env p s = Inr v"
  shows "balanced s v"
  using do_free_block[OF assms(1,2)] assms(3) unfolding do_free_def by blast

lemma do_realloc_balanced:
  assumes h: "heap_laws env" and s: "tc_idle s" and r: "do_realloc fuel env p n s = Inr (u, v)"
  shows "balanced s v"
proof -
  define old where "old = get_usr_size (th_size env (usr_ptr2malloc_ptr p s) s) p s"
  show ?thesis
  proof (cases "n > old \<or> n < old div 2")
    case False
    then have "v = s" using r by (simp add: do_realloc_def do_realloc_with_callback_def old_def[symmetric] Let_def)
    then show ?thesis using s by (simp add: balanced_def)
  next
    case True
    note r' = r[unfolded do_realloc_def do_realloc_with_callback_def Let_def, folded old_def, unfolded if_P[OF True]]
    obtain s1 ex s2 q s3 b s4 where
        c: "notify_heap_type_manager_before_free fuel p s = Inr s1"
        "notify_heap_type_manager_before_malloc n 0 s1 = Inr (ex, s2)"
        "(if ex > old \<and> ex < old + old div 4 then do_malloc_no_errno_or_cpp_alloc fuel env (old + old div 4) s2
          else Inr (NULL, s2)) = Inr (q, s3)"
        "(if q = NULL then do_malloc_or_cpp_alloc fuel env ex s3 else Inr (q, s3)) = Inr (b, s4)"
        "(if b = NULL then Inr (NULL, leave_cache_management s4)
          else rbind (do_free_with_callback_internal env p s4) (\<lambda>s. finish_malloc fuel b n 0 s)) = Inr (u, v)"
      using r' by (auto simp: rbind_eq_Inr)
    note b1 = collect_balanced(1)[OF s c(1)]
    then have s1: "tc_idle s1" by (simp add: balanced_def)
    note a2 = before_malloc[OF s1 c(2)]
    have a3: "allocating s1 s3" "q = NULL \<or> q < 2 ^ 47"
      using c(3) a2 do_malloc_block(2,3)[OF h, of fuel "old + old div 4" s2 q s3] allocating_heap[OF a2]
      by (auto split: if_splits)
    have a4: "allocating s1 s4" "b \<noteq> NULL" "b < 2 ^ 47"
      using c(4) a3 do_malloc_block(1-3)[OF h, of fuel ex s3 b s4] allocating_heap[OF a3(1)] by (auto split: if_splits)
    obtain s5 where c5: "do_free_with_callback_internal env p s4 = Inr s5" "finish_malloc fuel b n 0 s5 = Inr (u, v)"
      using c(5) a4(2) by (auto simp: rbind_eq_Inr)
    have "heap_keeps s4 s5"
      using c5(1) heap_laws_D(4)[OF h] by (auto simp: do_free_with_callback_internal_def free_block_def split: if_splits)
    then have "allocating s1 s5" by (rule allocating_heap[OF a4(1)])
    from finish_malloc_block(1)[OF s1 this a4(3) _ c5(2)] have "balanced s1 v" by simp
    then show ?thesis by (rule balanced_trans[OF b1])
  qed
qed

lemma tc_realloc_balanced:
  assumes h: "heap_laws env" and s: "tc_idle s" and r: "tc_realloc fuel env p n s = Inr (u, v)"
  shows "balanced s v"
proof (cases "p = NULL")
  case True
  then have "tc_malloc fuel env n s = Inr (u, v)" using r by (simp add: tc_realloc_def tc_malloc_def)
  then show ?thesis using tc_malloc_balanced[OF h s] by blast
next
  case False
  then show ?thesis
    using r do_realloc_balanced[OF h s, of fuel p n u v] do_free_balanced[OF h s, of fuel p v]
    by (auto simp: tc_realloc_def rbind_eq_Inr split: if_splits)
qed

lemma do_memalign_block:
  assumes h: "heap_laws env" and r: "do_memalign_or_cpp_memalign fuel env al n s = Inr (p, t)"
  shows "heap_keeps s t" "p < 2 ^ 47"
proof -
  have one: "heap_keeps s t \<and> p < 2 ^ 47" if "do_memalign env al n s = Inr (p, t)" for p t
  proof -
    have "heap_keeps s t \<and> p < 2 ^ 47" if "do_malloc env n s = Inr (p, t)"
      using do_malloc_internal_block(1,2,4)[OF h, of n "get_heap_type_hint n s" s p] that
      by (auto simp: do_malloc_def do_malloc_no_errno_def rbind_eq_Inr split: if_splits)
    then show ?thesis
      using that heap_laws_D(3)[OF h] by (auto simp: do_memalign_def Let_def split: if_splits)
  qed
  have "th_new_handler env = None" using h by (simp add: heap_laws_def)
  then have "heap_keeps s t \<and> p < 2 ^ 47" if "cpp_memalign fuel env al n s = Inr (p, t)"
    using that one by (cases fuel) (auto simp: rbind_eq_Inr split: if_splits)
  then show "heap_keeps s t" "p < 2 ^ 47"
    using r one by (auto simp: do_memalign_or_cpp_memalign_def split: if_splits)
qed

lemma memalign_path:
  assumes h: "heap_laws env" and s: "tc_idle s" and al: "al < 2 ^ 32"
    and r: "rbind (notify_heap_type_manager_before_malloc sz al s) (\<lambda>(ex_size, s).
      rbind (do_memalign_or_cpp_memalign fuel env al ex_size s) (\<lambda>(result, s). finish_malloc fuel result sz al s)) = Inr (u, v)"
  shows "balanced s v \<and> (\<exists>b. u = b + chunk_head_size al \<and> block_of v u b)"
proof -
  obtain n t b w where t: "notify_heap_type_manager_before_malloc sz al s = Inr (n, t)"
      "do_memalign_or_cpp_memalign fuel env al n t = Inr (b, w)" "finish_malloc fuel b sz al w = Inr (u, v)"
    using r by (auto simp: rbind_eq_Inr)
  note b = do_memalign_block[OF h t(2)]
  have "allocating s w" using allocating_heap[OF before_malloc[OF s t(1)] b(1)] .
  from finish_malloc_block[OF s this b(2) al t(3)] show ?thesis by blast
qed

lemma posix_memalign_path:
  assumes h: "heap_laws env" and s: "tc_idle s" and al: "al < 2 ^ 32"
    and r: "tc_posix_memalign fuel env al sz s = Inr (ret, q, v)"
  shows "if ret = ENOMEM then allocating s v else balanced s v"
proof (cases "al mod 8 \<noteq> 0 \<or> al AND (al - 1) \<noteq> 0 \<or> al = 0")
  case True
  then show ?thesis using r s by (auto simp: tc_posix_memalign_def balanced_def EINVAL_def ENOMEM_def)
next
  case False
  then obtain n t b w where t: "notify_heap_type_manager_before_malloc sz al s = Inr (n, t)"
      "do_memalign_or_cpp_memalign fuel env al n t = Inr (b, w)"
      "(if b = NULL then Inr (ENOMEM, None, w)
        else rbind (finish_malloc fuel b sz al w) (\<lambda>(usr_ptr, s). Inr (0, Some usr_ptr, s))) = Inr (ret, q, v)"
    using r unfolding tc_posix_memalign_def if_not_P[OF False] by (auto simp: rbind_eq_Inr)
  note b = do_memalign_block[OF h t(2)]
  have "allocating s w" using allocating_heap[OF before_malloc[OF s t(1)] b(1)] .
  then show ?thesis
    using t(3) finish_malloc_block(1)[OF s _ b(2) al]
    by (auto simp: rbind_eq_Inr ENOMEM_def split: if_splits)
qed

section \<open>The process as a state machine\<close>

text \<open>
  A step is a call of an entry point of the allocator by the program or by NightWatch, or an entry into
  NightWatch: a page fault, a timer signal, a wrapped call of the C library.
\<close>

inductive tc_step :: "nat \<Rightarrow> 'x theap \<Rightarrow> 'x bstate \<Rightarrow> 'x bstate \<Rightarrow> bool" for fuel env where
  malloc: "tc_malloc fuel env sz s = Inr (u, t) \<Longrightarrow> tc_step fuel env s t"
| calloc: "tc_calloc fuel env n sz s = Inr (u, t) \<Longrightarrow> tc_step fuel env s t"
| new: "tc_new fuel env sz s = Inr (u, t) \<Longrightarrow> tc_step fuel env s t"
| new_nothrow: "tc_new_nothrow fuel env sz s = Inr (u, t) \<Longrightarrow> tc_step fuel env s t"
| newarray: "tc_newarray fuel env sz s = Inr (u, t) \<Longrightarrow> tc_step fuel env s t"
| newarray_nothrow: "tc_newarray_nothrow fuel env sz s = Inr (u, t) \<Longrightarrow> tc_step fuel env s t"
| realloc: "tc_realloc fuel env p sz s = Inr (u, t) \<Longrightarrow> tc_step fuel env s t"
| free: "tc_free fuel env p s = Inr t \<Longrightarrow> tc_step fuel env s t"
| cfree: "tc_cfree fuel env p s = Inr t \<Longrightarrow> tc_step fuel env s t"
| delete: "tc_delete fuel env p s = Inr t \<Longrightarrow> tc_step fuel env s t"
| delete_nothrow: "tc_delete_nothrow fuel env p s = Inr t \<Longrightarrow> tc_step fuel env s t"
| deletearray: "tc_deletearray fuel env p s = Inr t \<Longrightarrow> tc_step fuel env s t"
| deletearray_nothrow: "tc_deletearray_nothrow fuel env p s = Inr t \<Longrightarrow> tc_step fuel env s t"
| thread_busy: "MarkThreadBusy fuel env s = Inr t \<Longrightarrow> tc_step fuel env s t"
| memalign: "al < 2 ^ 32 \<Longrightarrow> tc_memalign fuel env al sz s = Inr (u, t) \<Longrightarrow> tc_step fuel env s t"
| valloc: "th_pagesize env < 2 ^ 32 \<Longrightarrow> tc_valloc fuel env sz s = Inr (u, t) \<Longrightarrow> tc_step fuel env s t"
| pvalloc: "th_pagesize env < 2 ^ 32 \<Longrightarrow> tc_pvalloc fuel env sz s = Inr (u, t) \<Longrightarrow> tc_step fuel env s t"
| posix_memalign: "al < 2 ^ 32 \<Longrightarrow> tc_posix_memalign fuel env al sz s = Inr (ret, q, t) \<Longrightarrow> ret \<noteq> ENOMEM \<Longrightarrow>
    tc_step fuel env s t"
| malloc_internal: "tc_malloc_internal env sz ty s = Inr (u, t) \<Longrightarrow> tc_step fuel env s t"
| free_internal: "tc_free_internal env p s = Inr t \<Longrightarrow> tc_step fuel env s t"
| library: "nw_step fuel s t \<Longrightarrow> tc_step fuel env s t"

lemma mon_at_balanced: "tc_idle s \<Longrightarrow> mon_at (tc_frame s) t \<Longrightarrow> balanced s t"
  using frame_fields[of t s] by (simp add: mon_at_def tc_idle_def balanced_def)

lemma hook_parts_balanced:
  fixes s :: "'x bstate"
  assumes "tc_idle s"
  shows "balanced s (snd (install_stdlibapi_hook_mt s))" "balanced s (snd (call_libc_mt c s))"
  using assms hook_parts_ok(1)[of s] hook_parts_ok(2)[of c s]
  by (simp_all add: balanced_def tc_idle_def install_stdlibapi_hook_mt_def call_libc_mt_def enter_cache_management_def
      leave_cache_management_def Let_def)

lemma buffer_hook_balanced:
  fixes s :: "'x bstate"
  assumes s: "tc_idle s"
    and r: "rbind (unprotect_buffer_mt fuel a n (snd (install_stdlibapi_hook_mt s))) (\<lambda>s. Inr (call_libc_mt c s)) = Inr (ret, t)"
  shows "balanced s t"
proof -
  let ?i = "snd (install_stdlibapi_hook_mt s)"
  note i = hook_parts_balanced(1)[OF s]
  then have idle: "tc_idle ?i" by (simp add: balanced_def)
  then have "mon_ok ?i" by (simp add: tc_idle_def)
  note u = unprotect_buffer_ok[OF this[unfolded mon_at_self], of fuel a n]
  obtain v where v: "unprotect_buffer_mt fuel a n ?i = Inr v" "call_libc_mt c v = (ret, t)"
    using r by (auto simp: rbind_eq_Inr)
  have b: "balanced ?i v" by (rule mon_at_balanced[OF idle res_all_D[OF u v(1)]])
  then have "balanced v t" using hook_parts_balanced(2)[of v c] v(2) by (simp add: balanced_def)
  then show ?thesis by (rule balanced_trans[OF i balanced_trans[OF b]])
qed

lemma nw_step_balanced: "nw_step fuel s t \<Longrightarrow> tc_idle s \<Longrightarrow> balanced s t"
proof (induction rule: nw_step.induct)
  case (fault a s t)
  then have "mon_at (tc_frame s) s" by (simp add: tc_idle_def mon_at_def)
  from res_all_D[OF page_fault_handler_ok[OF this] fault.hyps(2)] show ?case by (rule mon_at_balanced[OF fault.prems])
next
  case (alarm s t)
  then have "mon_at (tc_frame s) s" by (simp add: tc_idle_def mon_at_def)
  from res_all_D[OF queue_keeps_ok(4)[OF this] alarm.hyps] show ?case by (rule mon_at_balanced[OF alarm.prems])
next
  case (get_context sz s r t)
  then have "mon_at (tc_frame s) s" by (simp add: tc_idle_def mon_at_def)
  from res_all_D[OF get_alloc_context_ok[OF this] get_context.hyps] show ?case
    by (simp add: mon_at_balanced[OF get_context.prems])
next
  case (sampling p sz ty r s t)
  then have "mon_at (tc_frame s) s" by (simp add: tc_idle_def mon_at_def)
  from res_all_D[OF sampling_ok[OF this] sampling.hyps] show ?case by (rule mon_at_balanced[OF sampling.prems])
next
  case (collect p s t)
  then have "mon_at (tc_frame s) s" by (simp add: tc_idle_def mon_at_def)
  from res_all_D[OF collect_sample_ok[OF this] collect.hyps] show ?case by (rule mon_at_balanced[OF collect.prems])
next
  case (c_read fd buf count s ret t)
  show ?case by (rule buffer_hook_balanced[OF c_read.prems]) (use c_read.hyps in \<open>simp add: read_hook_mt_def case_prod_unfold\<close>)
next
  case (c_write fd buf count s ret t)
  show ?case by (rule buffer_hook_balanced[OF c_write.prems]) (use c_write.hyps in \<open>simp add: write_hook_mt_def case_prod_unfold\<close>)
next
  case (c_fread p sz n f s ret t)
  show ?case by (rule buffer_hook_balanced[OF c_fread.prems]) (use c_fread.hyps in \<open>simp add: fread_hook_mt_def case_prod_unfold\<close>)
next
  case (c_fwrite p sz n f s ret t)
  show ?case by (rule buffer_hook_balanced[OF c_fwrite.prems]) (use c_fwrite.hyps in \<open>simp add: fwrite_hook_mt_def case_prod_unfold\<close>)
next
  case (c_fopen path mode s ret t)
  have "t = snd (call_libc_mt (LibcFopen path mode) (snd (install_stdlibapi_hook_mt s)))"
    using c_fopen.hyps by (simp add: fopen_hook_mt_def case_prod_unfold)
  then show ?case using hook_parts_balanced(1)[OF c_fopen.prems] hook_parts_balanced(2) balanced_trans balanced_def by metis
next
  case (c_fclose f s ret t)
  have "t = snd (call_libc_mt (LibcFclose f) (snd (install_stdlibapi_hook_mt s)))"
    using c_fclose.hyps by (simp add: fclose_hook_mt_def case_prod_unfold)
  then show ?case using hook_parts_balanced(1)[OF c_fclose.prems] hook_parts_balanced(2) balanced_trans balanced_def by metis
qed

lemma internal_balanced:
  assumes h: "heap_laws env" and s: "tc_idle s"
  shows "tc_malloc_internal env sz ty s = Inr (u, t) \<Longrightarrow> balanced s t" "tc_free_internal env p s = Inr t \<Longrightarrow> balanced s t"
proof -
  assume "tc_malloc_internal env sz ty s = Inr (u, t)"
  then obtain b w where w: "do_malloc_internal env (get_ex_size sz 0) ty s = Inr (b, w)" "extend_malloc_and_get_usr_ptr b 0 w = Inr (u, t)"
    by (auto simp: tc_malloc_internal_def rbind_eq_Inr)
  have "heap_keeps s t"
    using w(2) do_malloc_internal_block(4)[OF h w(1)]
    by (auto simp: extend_malloc_and_get_usr_ptr_def CHUNK_HEAD_SZ_def Let_def intro: heap_keeps_head split: if_splits)
  then show "balanced s t" by (rule balanced_heap[OF s])
next
  assume "tc_free_internal env p s = Inr t"
  then show "balanced s t"
    using free_block_balanced(1)[OF h s]
    by (auto simp: tc_free_internal_def do_free_with_callback_internal_def split: if_splits)
qed

lemma tc_step_balanced:
  assumes h: "heap_laws env" and "tc_step fuel env s t" and s: "tc_idle s"
  shows "balanced s t"
  using assms(2)
proof cases
  case (calloc n sz u)
  then show ?thesis using do_calloc_balanced[OF h s] s by (auto simp: tc_calloc_def balanced_def Let_def split: if_splits)
next
  case (memalign al sz u)
  then show ?thesis using memalign_path[OF h s, of al sz fuel u t] by (simp add: tc_memalign_def)
next
  case (valloc sz u)
  then show ?thesis using memalign_path[OF h s, of "th_pagesize env" sz fuel u t] by (simp add: tc_valloc_def Let_def)
next
  case (pvalloc sz u)
  then show ?thesis
    unfolding tc_pvalloc_def Let_def using memalign_path[OF h s pvalloc(1)] by blast
next
  case (posix_memalign al sz ret q)
  then show ?thesis using posix_memalign_path[OF h s, of al fuel sz ret q t] by simp
next
  case (malloc sz u)
  then show ?thesis using tc_malloc_balanced[OF h s malloc] by simp
next
  case (new sz u)
  then show ?thesis using cpp_new_balanced[OF h s] unfolding tc_new_def by blast
next
  case (new_nothrow sz u)
  then show ?thesis using cpp_new_balanced[OF h s] unfolding tc_new_nothrow_def by blast
next
  case (newarray sz u)
  then show ?thesis using cpp_new_balanced[OF h s] unfolding tc_newarray_def by blast
next
  case (newarray_nothrow sz u)
  then show ?thesis using cpp_new_balanced[OF h s] unfolding tc_newarray_nothrow_def by blast
next
  case (realloc p sz u)
  then show ?thesis by (rule tc_realloc_balanced[OF h s])
next
  case (free p)
  then show ?thesis using do_free_balanced[OF h s] s by (auto simp: tc_free_def balanced_def split: if_splits)
next
  case (cfree p)
  then show ?thesis using do_free_balanced[OF h s] unfolding tc_cfree_def by blast
next
  case (delete p)
  then show ?thesis using do_free_balanced[OF h s] unfolding tc_delete_def by blast
next
  case (delete_nothrow p)
  then show ?thesis using do_free_balanced[OF h s] unfolding tc_delete_nothrow_def by blast
next
  case (deletearray p)
  then show ?thesis using do_free_balanced[OF h s] unfolding tc_deletearray_def by blast
next
  case (deletearray_nothrow p)
  then show ?thesis using do_free_balanced[OF h s] unfolding tc_deletearray_nothrow_def by blast
next
  case thread_busy
  then obtain p w where w: "do_malloc env 0 s = Inr (p, w)" "do_free fuel env p w = Inr t"
    by (auto simp: MarkThreadBusy_def rbind_eq_Inr)
  have "heap_keeps s w"
    using w(1) do_malloc_internal_block(1,4)[OF h, of 0 "get_heap_type_hint 0 s" s p]
    by (auto simp: do_malloc_def do_malloc_no_errno_def rbind_eq_Inr)
  note b = balanced_heap[OF s this]
  then have "tc_idle w" by (simp add: balanced_def)
  from balanced_trans[OF b do_free_balanced[OF h this w(2)]] show ?thesis .
next
  case (malloc_internal sz ty u)
  then show ?thesis by (rule internal_balanced(1)[OF h s])
next
  case (free_internal p)
  then show ?thesis by (rule internal_balanced(2)[OF h s])
next
  case library
  then show ?thesis by (rule nw_step_balanced[OF _ s])
qed

lemma tc_steps_balanced:
  assumes "heap_laws env" and "tc_idle s"
  shows "(tc_step fuel env)\<^sup>*\<^sup>* s t \<Longrightarrow> balanced s t"
proof (induction rule: rtranclp_induct)
  case base
  show ?case using assms(2) by (simp add: balanced_def)
next
  case (step t u)
  then have "tc_idle t" by (simp add: balanced_def)
  with step show ?case using tc_step_balanced[OF assms(1)] balanced_trans by blast
qed

text \<open>C2: the whole process keeps the allocator balanced. Whatever the program allocates, releases and
  reads, and whatever faults and signals arrive in between, as long as the calls return and no
  \<open>posix_memalign\<close> runs out of memory, the nesting depth of the thread is what it was, no context of an
  allocation is left over, and the invariant of the monitor holds.\<close>

theorem allocator_stays_balanced:
  fixes s t :: "'x bstate"
  assumes "(tc_step fuel env)\<^sup>*\<^sup>* s t" and "heap_laws env" and "tc_idle s"
  shows "tc_idle t \<and> in_cache_manage t = in_cache_manage s \<and> cache_manager_private t = cache_manager_private s \<and>
    tc_active t = tc_active s"
  using tc_steps_balanced[OF assms(2,3,1)] by (simp add: balanced_def)

text \<open>A heap with one block and no aligned memory, on the state of a process that was just loaded.\<close>

definition one_block_heap :: "'x theap" where
  "one_block_heap = \<lparr>th_small = \<lambda>_ _ s. (0x100000, s), th_pages = \<lambda>_ _ s. (0x200000, s), th_aligned = \<lambda>_ _ _ s. (NULL, s),
     th_alignment_for_size = \<lambda>_. 16, th_free = \<lambda>_ _ s. s, th_size = \<lambda>_ _. 32, th_new_handler = None,
     th_init_tsd = \<lambda>s. s, th_pagesize = 4096, th_impl_size = 64\<rparr>"

definition boot_tc :: "int \<Rightarrow> hash_map_mt br_state" where
  "boot_tc active = nw_state.extend boot (br_state.fields active True 262145 0 0 0)"

lemma one_block_heap_laws: "heap_laws one_block_heap"
  by (simp add: heap_laws_def one_block_heap_def)

lemma boot_tc_fields:
  "in_cache_manage (boot_tc n) = 0" "cache_manager_private (boot_tc n) = None" "tc_active (boot_tc n) = n"
  "tc_inited (boot_tc n)" "tc_new_mode (boot_tc n) = 0" "min_size_for_slow_path (boot_tc n) = 262145" "mon_ok (boot_tc n)"
  by (simp_all add: boot_tc_def nw_state.defs br_state.defs boot_def mon_ok_def chunk_ok_def sample_ok_def zero_chunk_def
      zero_sample_def page_aligned_def chunk_state_defs sample_state_defs round_defs DEFAULT_BURST_LEN_def)

lemma boot_tc_idle: "tc_idle (boot_tc n)"
  by (simp add: tc_idle_def boot_tc_fields)

end
