(* ===== verification/NightWatch_Correct.thy ===== *)
theory NightWatch_Correct
  imports Boot_State
begin

text \<open>
  Starting the parallel library: what a failure of one of its parts leaves behind.
\<close>

lemma set_active:
  fixes s :: "'x nstate"
  shows "NightWatch_active (set_nightwatch_active s)"
proof -
  have "bit (nightwatch_state s OR 1) 0" by (simp add: bit_or_iff)
  then have "(nightwatch_state s OR 1) AND 1 \<noteq> 0" by (metis and_one_eq odd_iff_mod_2_eq_one one_neq_zero bit_0)
  then show ?thesis by (simp add: NightWatch_active_def set_nightwatch_active_def NightWatch_ACTIVE_def)
qed

lemma active_fields:
  fixes s t :: "'x nstate"
  shows "nightwatch_state t = nightwatch_state s \<Longrightarrow> NightWatch_active t = NightWatch_active s"
  by (simp add: NightWatch_active_def)

text \<open>The queue is the first part of the monitor to be set up; when its signal handler cannot be installed,
  the set-up stops there.\<close>

lemma chunk_monitor_init_fails:
  fixes s :: "'x nstate"
  assumes "sigaction_ret s \<noteq> 0"
  shows "\<exists>t. chunk_monitor_init_mt s = Inr (sigaction_ret s, t) \<and> nightwatch_state t = nightwatch_state s \<and>
    monitor_state t = monitor_state s \<and> s2t_map t = s2t_map s \<and> in_cache_manage t = in_cache_manage s"
  using assms
  by (simp add: chunk_monitor_init_mt_def time_event_queue_init_mt_def new_hash_map_mt_def internal_malloc_def Let_def)

text \<open>When the handler of the timer signal cannot be installed, \<open>NightWatch_init\<close> returns the error, but it
  has already marked the library active; the monitor and the table of sizes have not been set up, and
  a later call of \<open>NightWatch_init\<close> returns 0 at once.\<close>

lemma failed_init:
  fixes s :: "'x nstate"
  assumes "\<not> NightWatch_active s" and "sigaction_ret s \<noteq> 0"
  shows "\<exists>t u. NightWatch_init_mt s = Inr (sigaction_ret s, t) \<and> NightWatch_active t \<and> in_cache_manage t = in_cache_manage s \<and>
    monitor_state t = monitor_state s \<and> s2t_map t = s2t_map s \<and>
    NightWatch_init_mt t = Inr (0, u) \<and> monitor_state u = monitor_state s \<and> s2t_map u = s2t_map s"
proof -
  define a where "a = set_nightwatch_active (enter_cache_management s)"
  define b where "b = snd (install_stdlibapi_hook_mt a)"
  have f: "sigaction_ret b = sigaction_ret s" "nightwatch_state b = nightwatch_state a" "monitor_state b = monitor_state s"
    "s2t_map b = s2t_map s" "in_cache_manage b = in_cache_manage s + 1"
    by (simp_all add: b_def a_def install_stdlibapi_hook_mt_def set_nightwatch_active_def enter_cache_management_def
        leave_cache_management_def)
  have i: "install_stdlibapi_hook_mt a = (0, b)" by (simp add: b_def install_stdlibapi_hook_mt_def)
  obtain c where c: "chunk_monitor_init_mt b = Inr (sigaction_ret s, c)" "nightwatch_state c = nightwatch_state b"
    "monitor_state c = monitor_state b" "s2t_map c = s2t_map b" "in_cache_manage c = in_cache_manage b"
    using chunk_monitor_init_fails[of b] assms(2) f(1) by auto
  let ?t = "leave_cache_management c" and ?u = "leave_cache_management (enter_cache_management (leave_cache_management c))"
  have "NightWatch_active (enter_cache_management s) = NightWatch_active s"
    by (rule active_fields) (simp add: enter_cache_management_def)
  then have "NightWatch_init_mt s = Inr (sigaction_ret s, ?t)"
    using assms c(1) i by (simp add: NightWatch_init_mt_def init_components_mt_def hash_map_init_mt_def a_def[symmetric] Let_def)
  moreover have "NightWatch_active c" using set_active c(2) f(2) active_fields by (metis a_def)
  then have act: "NightWatch_active ?t" "NightWatch_active (enter_cache_management ?t)"
    by (simp_all add: NightWatch_active_def leave_cache_management_def enter_cache_management_def)
  moreover have "NightWatch_init_mt ?t = Inr (0, ?u)" using act(2) by (simp add: NightWatch_init_mt_def Let_def)
  moreover have "in_cache_manage ?t = in_cache_manage s" "monitor_state ?t = monitor_state s" "s2t_map ?t = s2t_map s" "monitor_state ?u = monitor_state s" "s2t_map ?u = s2t_map s"
    using c f by (simp_all add: leave_cache_management_def enter_cache_management_def)
  ultimately show ?thesis by blast
qed

end
