(* ===== verification/TCMalloc_Props.thy ===== *)
theory TCMalloc_Props
  imports TCMalloc_Correct NightWatch_Correct
begin

text \<open>
  What a program sees of the allocator around NightWatch: a block that was allocated goes back to the
  heap it came from, and the paths on which the entry points do not do what they mean to: memory runs
  out, a size does not fit in an \<open>int\<close>, an aligned block has no heap type, a block that was not sampled
  keeps the pointer of the chunk that used its memory before, and NightWatch could not be started.
\<close>

section \<open>Allocation and release\<close>

text \<open>C3: a block that \<open>malloc\<close> handed out is given back by \<open>free\<close>. The pointer \<open>malloc\<close> returns lies 16
  bytes into the very block that the heap answered to the request, and \<open>free\<close> of that pointer does
  nothing but tell NightWatch (when it is active) and pass that block to the heap whose type its head
  names. For an allocation that NightWatch does not sample, that is the heap the block was taken from; a
  sampled block may have been switched to the other type in between. The thread is then back at the
  depth it started from.\<close>

theorem malloc_free_round_trip:
  fixes s t v :: "'x bstate"
  assumes "heap_laws env" and "tc_idle s" and "tc_inited s"
    and "tc_malloc fuel env sz s = Inr (u, t)"
  shows "\<exists>ex s1 ty b.
    notify_heap_type_manager_before_malloc sz 0 s = Inr (ex, s1) \<and> ty = get_heap_type_hint ex s1 \<and>
    fst (heap_call env ty ex s1) = b \<and> b \<noteq> NULL \<and> u = b + CHUNK_HEAD_SZ \<and>
    (unsampled sz s \<longrightarrow> get_heap_type u t = ty) \<and> valid_heap_type ty \<and>
    (\<forall>fuel. tc_free fuel env u t =
       rbind (if tc_active t \<noteq> 0 then notify_heap_type_manager_before_free fuel u t else Inr t)
         (\<lambda>w. if valid_heap_type (get_heap_type u t) then Inr (th_free env (get_heap_type u t) b w) else Inl OutOfBounds)) \<and>
    (\<forall>fuel v. tc_free fuel env u t = Inr v \<longrightarrow> in_cache_manage v = in_cache_manage s \<and> tc_idle v)"
proof -
  obtain ex s1 b where b: "notify_heap_type_manager_before_malloc sz 0 s = Inr (ex, s1)"
      "fst (heap_call env (get_heap_type_hint ex s1) ex s1) = b" "b \<noteq> NULL" "u = b + CHUNK_HEAD_SZ"
      "balanced s t" "block_of t u b" "unsampled sz s \<longrightarrow> get_heap_type u t = get_heap_type_hint ex s1"
      "valid_heap_type (get_heap_type_hint ex s1)"
    using tc_malloc_block[OF assms(1,2,4)] by blast
  have t: "tc_idle t" "tc_inited t" "using_chunk_head u t" "usr_ptr2malloc_ptr u t = b" "u \<noteq> NULL"
    using assms(3) b(5,6) by (auto simp: balanced_def block_of_def using_chunk_head_def)
  have "tc_free f env u t = rbind (if tc_active t \<noteq> 0 then notify_heap_type_manager_before_free f u t else Inr t)
      (\<lambda>w. if valid_heap_type (get_heap_type u t) then Inr (th_free env (get_heap_type u t) b w) else Inl OutOfBounds)" for f
    using t(2-) by (simp add: tc_free_def do_free_def do_free_with_callback_def Let_def) (simp add: free_block_def[abs_def])
  moreover have "in_cache_manage v = in_cache_manage s \<and> tc_idle v" if "tc_free f env u t = Inr v" for f v
  proof -
    have "balanced t v" using do_free_balanced[OF assms(1) t(1)] that t(5) by (simp add: tc_free_def)
    then show ?thesis using b(5) by (simp add: balanced_def)
  qed
  ultimately show ?thesis using b(1-4,7,8) by blast
qed

text \<open>C26: a block that NightWatch switches to the other mapping is not returned to the heap it was taken
  from. \<open>switch_heap_type\<close> writes the new type into the head of a block of two pages or more and remaps
  its pages, but the span of the block stays with the page heap that made it; the next \<open>free\<close> passes the
  block to the heap of the new type, whatever heap answered the request.\<close>

theorem switched_block_leaves_its_heap:
  fixes s t :: "'x bstate"
  assumes "heap_laws env" and "tc_idle s" and "tc_inited s" and "tc_malloc fuel env sz s = Inr (u, t)"
    and m: "valid_heap_type m" and k: "shl64 PAGE_SIZE 1 \<le> k"
  shows "\<exists>ex s1 b t'.
    notify_heap_type_manager_before_malloc sz 0 s = Inr (ex, s1) \<and> fst (heap_call env (get_heap_type_hint ex s1) ex s1) = b \<and>
    t' = switch_heap_type u k m t \<and>
    (\<forall>fuel. tc_free fuel env u t' =
       rbind (if tc_active t \<noteq> 0 then notify_heap_type_manager_before_free fuel u t' else Inr t') (\<lambda>w. Inr (th_free env m b w)))"
proof -
  obtain ex s1 b where b: "notify_heap_type_manager_before_malloc sz 0 s = Inr (ex, s1)"
      "fst (heap_call env (get_heap_type_hint ex s1) ex s1) = b" "balanced s t" "block_of t u b"
    using tc_malloc_block[OF assms(1,2,4)] by blast
  define t' where "t' = switch_heap_type u k m t"
  have t: "tc_inited t" "using_chunk_head u t" "usr_ptr2malloc_ptr u t = b" "u \<noteq> NULL"
    using assms(3) b(3,4) by (auto simp: balanced_def block_of_def using_chunk_head_def)
  have h: "chk_cell t' (usr_ptr2chk_head u) = set_heap_type m (chk_cell t (usr_ptr2chk_head u))"
      "tc_inited t' = tc_inited t" "tc_active t' = tc_active t"
    using t k by (simp_all add: t'_def switch_heap_type_def upd_head_def Let_def not_less[symmetric])
  have "using_chunk_head u t'" "usr_ptr2malloc_ptr u t' = b"
    using t h(1) set_heap_type_kept[of m] by (auto simp: using_chunk_head_def usr_ptr2malloc_ptr_def chk_head2malloc_ptr_def)
  moreover have "get_heap_type u t' = m"
    using h(1) set_heap_type_low low_byte[of m] m by (simp add: get_heap_type_def valid_heap_type_def NR_HEAP_TYPE_def)
  ultimately have "tc_free f env u t' =
      rbind (if tc_active t \<noteq> 0 then notify_heap_type_manager_before_free f u t' else Inr t') (\<lambda>w. Inr (th_free env m b w))" for f
    using t h m by (simp add: tc_free_def do_free_def do_free_with_callback_def Let_def) (simp add: free_block_def[abs_def])
  then show ?thesis using b(1,2) t'_def by blast
qed

lemma one_block_malloc:
  assumes "tc_active s = 0 \<or> tiny_chunk sz \<or> in_cache_management s" and "in_cache_manage s = 0 \<longrightarrow> cache_manager_private s = None"
    and "tc_new_mode s = 0" and "sz + 16 < min_size_for_slow_path s"
    and small: "th_small env DEFAULT_HEAP_TYPE (sz + 16) (enter_cache_management s) = (b, w)" and "b \<noteq> NULL" "b + 16 \<noteq> NULL"
    and keep: "heap_keeps (enter_cache_management s) w"
  shows "tc_malloc fuel env sz s = Inr (b + 16, leave_cache_management
    (upd_head b (\<lambda>h. init_chunk_head 16 (set_heap_type DEFAULT_HEAP_TYPE h)) w))"
proof -
  let ?e = "enter_cache_management s"
  have hint: "get_heap_type_hint n ?e = DEFAULT_HEAP_TYPE" for n
    using assms(2) by (simp add: get_heap_type_hint_def enter_cache_management_def)
  have ex: "notify_heap_type_manager_before_malloc sz 0 s = Inr (sz + 16, ?e)"
    using assms(1) by (simp add: notify_heap_type_manager_before_malloc_def get_ex_size_def chunk_head_size_def CHUNK_HEAD_SZ_def)
  have al: "do_malloc_or_cpp_alloc fuel env (sz + 16) ?e = Inr (b, upd_head b (set_heap_type DEFAULT_HEAP_TYPE) w)"
  proof -
    have "valid_heap_type DEFAULT_HEAP_TYPE" by (simp add: valid_heap_type_def DEFAULT_HEAP_TYPE_def OPEN_MAPPING_def NR_HEAP_TYPE_def)
    moreover have "tc_new_mode ?e = 0" "sz + 16 < min_size_for_slow_path ?e"
      using assms(3,4) by (simp_all add: enter_cache_management_def)
    ultimately show ?thesis
      using small assms(6) by (simp add: do_malloc_or_cpp_alloc_def do_malloc_def do_malloc_no_errno_def hint do_malloc_internal_def)
  qed
  define t where "t = upd_head b (init_chunk_head 16) (upd_head b (set_heap_type DEFAULT_HEAP_TYPE) w)"
  have ext: "extend_malloc_and_get_usr_ptr b 0 (upd_head b (set_heap_type DEFAULT_HEAP_TYPE) w) = Inr (b + 16, t)"
    using assms(6) by (simp add: extend_malloc_and_get_usr_ptr_def chunk_head_size_def CHUNK_HEAD_SZ_def t_def)
  note k = heap_keeps_fields[OF keep]
  have "cache_manager_private t = None" if "in_cache_manage t = 1"
    using that k(1,2) assms(2) by (simp add: t_def enter_cache_management_def)
  then have "notify_heap_type_manager_after_malloc fuel (b + 16) sz t = Inr (leave_cache_management t)"
    by (simp add: notify_heap_type_manager_after_malloc_def Let_def split: option.split)
  moreover have "t = upd_head b (\<lambda>h. init_chunk_head 16 (set_heap_type DEFAULT_HEAP_TYPE h)) w"
    by (simp add: t_def upd_head_def)
  ultimately show ?thesis by (simp add: tc_malloc_def ex al finish_malloc_def ext)
qed

lemma boot_malloc:
  assumes "sz \<le> 64"
  shows "\<exists>t. tc_malloc fuel one_block_heap sz (boot_tc n) = Inr (0x100010, t) \<and> heap_keeps (boot_tc n) t \<and>
    using_chunk_head 0x100010 t \<and> get_heap_type 0x100010 t = 1"
proof -
  let ?s = "boot_tc n" and ?b = "0x100000 :: ptr"
  let ?t = "leave_cache_management (upd_head ?b (\<lambda>h. init_chunk_head 16 (set_heap_type DEFAULT_HEAP_TYPE h)) (enter_cache_management ?s))"
  have "uint sz \<le> 64" using assms by (simp add: word_le_def)
  then have "uint (sz + 16) = uint sz + 16" using uint_add_lem[of sz 16] by simp
  then have "sz + 16 < 262145" using \<open>uint sz \<le> 64\<close> by (simp add: word_less_alt)
  then have "tc_malloc fuel one_block_heap sz ?s = Inr (?b + 16, ?t)"
    using assms by (intro one_block_malloc) (simp_all add: boot_tc_fields tiny_chunk_def CACHE_LINE_SZ_def one_block_heap_def)
  moreover have "?t = upd_head ?b (\<lambda>h. init_chunk_head 16 (set_heap_type DEFAULT_HEAP_TYPE h)) ?s"
    by (simp add: leave_cache_management_def enter_cache_management_def upd_head_def)
  moreover have "using_chunk_head 0x100010 (upd_head ?b (\<lambda>h. init_chunk_head 16 (set_heap_type DEFAULT_HEAP_TYPE h)) ?s)"
    "get_heap_type 0x100010 (upd_head ?b (\<lambda>h. init_chunk_head 16 (set_heap_type DEFAULT_HEAP_TYPE h)) ?s) = 1"
    using set_heap_type_low low_byte[of 1]
    by (simp_all add: using_chunk_head_def get_heap_type_def usr_ptr2chk_head_def CHUNK_HEAD_SZ_def upd_head_def
        DEFAULT_HEAP_TYPE_def OPEN_MAPPING_def)
  ultimately show ?thesis using heap_keeps_head[OF heap_keeps_refl[of ?s]] by auto
qed

lemma boot_free:
  assumes "heap_keeps (boot_tc 0) t" and "using_chunk_head u t" and "get_heap_type u t = 1"
  shows "tc_free fuel one_block_heap u t = Inr t"
proof -
  note k = heap_keeps_fields[OF assms(1)]
  show ?thesis
    using k(3,5) assms(2,3)
    by (simp add: tc_free_def do_free_def do_free_with_callback_def free_block_def boot_tc_fields valid_heap_type_def
        NR_HEAP_TYPE_def one_block_heap_def Let_def)
qed

lemma boot_request:
  "notify_heap_type_manager_before_malloc 40 0 (boot_tc 0) = Inr (56, enter_cache_management (boot_tc 0))"
  "get_heap_type_hint k (enter_cache_management (boot_tc 0)) = 1"
  "fst (heap_call one_block_heap 1 56 (enter_cache_management (boot_tc 0))) = 0x100000"
  by (simp_all add: notify_heap_type_manager_before_malloc_def boot_tc_fields get_ex_size_def chunk_head_size_def CHUNK_HEAD_SZ_def
      get_heap_type_hint_def enter_cache_management_def DEFAULT_HEAP_TYPE_def OPEN_MAPPING_def heap_call_def one_block_heap_def)

theorem malloc_free_round_trip_witness:
  "\<exists>t s1. tc_malloc 1 one_block_heap 40 (boot_tc 0) = Inr (0x100010, t) \<and>
     notify_heap_type_manager_before_malloc 40 0 (boot_tc 0) = Inr (56, s1) \<and>
     fst (heap_call one_block_heap 1 56 s1) = 0x100000 \<and>
     tc_free 1 one_block_heap 0x100010 t = Inr (th_free one_block_heap 1 0x100000 t) \<and>
     tc_free 1 one_block_heap 0x100010 t = Inr t \<and> in_cache_manage t = 0"
proof -
  obtain t where t: "tc_malloc 1 one_block_heap 40 (boot_tc 0) = Inr (0x100010, t)" "heap_keeps (boot_tc 0) t"
      "using_chunk_head 0x100010 t" "get_heap_type 0x100010 t = 1"
    using boot_malloc[of 40 1 0] by auto
  note f = boot_free[OF t(2-)]
  have "tc_active t = 0" using heap_keeps_fields(3)[OF t(2)] by (simp add: boot_tc_fields)
  then show ?thesis
    using malloc_free_round_trip[OF one_block_heap_laws boot_tc_idle _ t(1)] t(1) f[of 1] boot_request
    by (auto simp: boot_tc_fields CHUNK_HEAD_SZ_def unsampled_def)
qed

theorem switched_block_leaves_its_heap_witness:
  "\<exists>t t' s1. tc_malloc 1 one_block_heap 40 (boot_tc 0) = Inr (0x100010, t) \<and> t' = switch_heap_type 0x100010 8192 0 t \<and>
     notify_heap_type_manager_before_malloc 40 0 (boot_tc 0) = Inr (56, s1) \<and>
     fst (heap_call one_block_heap 1 56 s1) = 0x100000 \<and>
     tc_free 1 one_block_heap 0x100010 t' = Inr (th_free one_block_heap 0 0x100000 t')"
proof -
  obtain t where t: "tc_malloc 1 one_block_heap 40 (boot_tc 0) = Inr (0x100010, t)" "heap_keeps (boot_tc 0) t"
    using boot_malloc[of 40 1 0] by auto
  have a: "tc_active t = 0" using heap_keeps_fields(3)[OF t(2)] by (simp add: boot_tc_fields)
  have "tc_inited (boot_tc 0)" "valid_heap_type 0" "shl64 PAGE_SIZE 1 \<le> 8192"
    by (simp_all add: boot_tc_fields valid_heap_type_def NR_HEAP_TYPE_def shl64_def PAGE_SIZE_def)
  from switched_block_leaves_its_heap[OF one_block_heap_laws boot_tc_idle this(1) t(1) this(2,3)] a t(1) boot_request
  show ?thesis by auto
qed

theorem allocator_stays_balanced_witness:
  "\<exists>t. tc_malloc 1 one_block_heap 40 (boot_tc 1) = Inr (0x100010, t) \<and> (tc_step 1 one_block_heap)\<^sup>*\<^sup>* (boot_tc 1) t \<and>
     tc_idle t \<and> in_cache_manage t = 0 \<and> tc_active t = 1"
proof -
  obtain t where t: "tc_malloc 1 one_block_heap 40 (boot_tc 1) = Inr (0x100010, t)" using boot_malloc[of 40 1 1] by auto
  then have "(tc_step 1 one_block_heap)\<^sup>*\<^sup>* (boot_tc 1) t" by (meson malloc r_into_rtranclp)
  with allocator_stays_balanced[OF this one_block_heap_laws boot_tc_idle] t show ?thesis by (auto simp: boot_tc_fields)
qed

section \<open>Memory runs out\<close>

text \<open>The heap hands out nothing.\<close>

definition out_of_memory :: "'x theap \<Rightarrow> bool" where
  "out_of_memory env \<longleftrightarrow> (\<forall>t n s. fst (th_small env t n s) = NULL \<and> fst (th_pages env t n s) = NULL)"

lemma do_malloc_oom: "out_of_memory env \<Longrightarrow> do_malloc_internal env n ty s = Inl (if valid_heap_type ty then NullDeref else OutOfBounds)"
  by (simp add: do_malloc_internal_def out_of_memory_def case_prod_unfold)

lemma alloc_oom:
  assumes "out_of_memory env"
  shows "\<exists>e. do_malloc_or_cpp_alloc fuel env n s = Inl e" "\<exists>e. do_malloc_no_errno_or_cpp_alloc fuel env n s = Inl e"
    "\<exists>e. cpp_alloc fuel env n nt s = Inl e"
proof -
  show c: "\<exists>e. cpp_alloc fuel env n nt s = Inl e" for nt
    by (cases fuel) (simp_all add: do_malloc_no_errno_def do_malloc_oom[OF assms])
  show "\<exists>e. do_malloc_or_cpp_alloc fuel env n s = Inl e" "\<exists>e. do_malloc_no_errno_or_cpp_alloc fuel env n s = Inl e"
    using c by (simp_all add: do_malloc_or_cpp_alloc_def do_malloc_no_errno_or_cpp_alloc_def do_malloc_def do_malloc_no_errno_def
        do_malloc_oom[OF assms])
qed

text \<open>C28: an allocation that fails does not return. When the heap has no memory left, none of \<open>malloc\<close>,
  \<open>calloc\<close> of a product that fits, \<open>new\<close> (throwing or not) and \<open>realloc\<close> of the null pointer returns,
  with a null pointer or otherwise; an allocation that is not watched stores the heap type through the
  null pointer, whatever new handler there is.\<close>

theorem failed_allocation_faults:
  fixes s :: "'x bstate"
  assumes "out_of_memory env"
  shows "(\<forall>r. tc_malloc fuel env sz s \<noteq> Inr r) \<and> (\<forall>r. do_calloc fuel env sz s \<noteq> Inr r) \<and>
    (\<forall>nt r. cpp_new fuel env nt sz s \<noteq> Inr r) \<and> (\<forall>r. tc_realloc fuel env NULL sz s \<noteq> Inr r) \<and>
    (tc_active s = 0 \<longrightarrow> tc_malloc (Suc fuel) env sz s = Inl NullDeref)"
proof -
  have b: "rbind (notify_heap_type_manager_before_malloc sz 0 s) (\<lambda>(n, s). rbind (al n s) (f :: _ \<Rightarrow> (ptr \<times> 'x bstate) res)) \<noteq> Inr r"
    if "\<And>n s. \<exists>e. al n s = (Inl e :: (ptr \<times> 'x bstate) res)" for al f r
  proof
    assume "rbind (notify_heap_type_manager_before_malloc sz 0 s) (\<lambda>(n, s). rbind (al n s) f) = Inr r"
    then obtain n t where "rbind (al n t) f = Inr r" by (auto simp: rbind_eq_Inr)
    then show False using that[of n t] by auto
  qed
  have m: "tc_malloc fuel env sz s \<noteq> Inr r" for r
    unfolding tc_malloc_def by (rule b) (rule alloc_oom(1)[OF assms])
  moreover have "do_calloc fuel env sz s \<noteq> Inr r" for r
    unfolding do_calloc_def by (rule b) (rule alloc_oom(2)[OF assms])
  moreover have "cpp_new fuel env nt sz s \<noteq> Inr r" for nt r
    unfolding cpp_new_def by (rule b) (rule alloc_oom(3)[OF assms])
  moreover have "tc_realloc fuel env NULL sz s = tc_malloc fuel env sz s" by (simp add: tc_realloc_def tc_malloc_def)
  moreover have "tc_malloc (Suc fuel) env sz s = Inl NullDeref" if "tc_active s = 0"
  proof -
    have "get_heap_type_hint n (enter_cache_management s) = OPEN_MAPPING" for n
      using that by (simp add: get_heap_type_hint_def enter_cache_management_def DEFAULT_HEAP_TYPE_def)
    moreover have "valid_heap_type OPEN_MAPPING" by (simp add: valid_heap_type_def OPEN_MAPPING_def NR_HEAP_TYPE_def)
    ultimately show ?thesis
      using that by (simp add: tc_malloc_def notify_heap_type_manager_before_malloc_def do_malloc_or_cpp_alloc_def do_malloc_def
          do_malloc_no_errno_def do_malloc_oom[OF assms])
  qed
  ultimately show ?thesis by simp
qed

theorem failed_allocation_faults_witness:
  "out_of_memory (one_block_heap\<lparr>th_small := \<lambda>_ _ s. (NULL, s), th_pages := \<lambda>_ _ s. (NULL, s)\<rparr> :: unit theap) \<and>
   tc_malloc 1 (one_block_heap\<lparr>th_small := \<lambda>_ _ s. (NULL, s), th_pages := \<lambda>_ _ s. (NULL, s)\<rparr>) 100 (boot_tc 0) = Inl NullDeref"
proof -
  let ?h = "one_block_heap\<lparr>th_small := \<lambda>_ _ s. (NULL, s), th_pages := \<lambda>_ _ s. (NULL, s)\<rparr> :: unit theap"
  have o: "out_of_memory ?h" by (simp add: out_of_memory_def)
  with failed_allocation_faults[OF o, of 0 100 "boot_tc 0"] show ?thesis by (simp add: boot_tc_fields)
qed

text \<open>\<open>posix_memalign\<close> that runs out of memory turns the sampling of its thread off. It returns
  \<open>ENOMEM\<close> one level deeper than it was called; whatever the thread does afterwards, it stays inside the
  cache management, and no allocation asks for a context again.\<close>

theorem posix_memalign_leaks_depth:
  fixes s t u :: "'x bstate"
  assumes "heap_laws env" and "tc_idle s" and "al < 2 ^ 32"
    and "tc_posix_memalign fuel env al sz s = Inr (ENOMEM, q, t)" and "(tc_step fuel env)\<^sup>*\<^sup>* t u"
  shows "in_cache_manage t = in_cache_manage s + 1 \<and> in_cache_management u \<and>
    notify_heap_type_manager_before_malloc n a u = Inr (get_ex_size n a, enter_cache_management u)"
proof -
  have t: "allocating s t" using posix_memalign_path[OF assms(1-4)] by simp
  then have "in_cache_manage t = in_cache_manage s + 1" "tc_idle t"
    using assms(2) by (simp_all add: allocating_def tc_idle_def)
  moreover from this(2) have "balanced t u" by (rule tc_steps_balanced[OF assms(1) _ assms(5)])
  ultimately have d: "in_cache_manage t = in_cache_manage s + 1" "in_cache_manage u \<noteq> 0"
    using assms(2) by (simp_all add: balanced_def tc_idle_def)
  then show ?thesis by (simp add: in_cache_management_def notify_heap_type_manager_before_malloc_def)
qed

theorem posix_memalign_leaks_depth_witness:
  "\<exists>t. tc_posix_memalign 1 one_block_heap 4096 40 (boot_tc 1) = Inr (ENOMEM, None, t) \<and> in_cache_manage t = 1 \<and>
     notify_heap_type_manager_before_malloc 8192 0 t = Inr (8208, enter_cache_management t)"
proof -
  have "tc_posix_memalign 1 one_block_heap 4096 40 (boot_tc 1) = Inr (ENOMEM, None, enter_cache_management (boot_tc 1))"
    by (simp add: tc_posix_memalign_def notify_heap_type_manager_before_malloc_def tiny_chunk_def CACHE_LINE_SZ_def get_ex_size_def
        chunk_head_size_def CHUNK_HEAD_SZ_def do_memalign_or_cpp_memalign_def do_memalign_def one_block_heap_def boot_tc_fields
        enter_cache_management_def get_heap_type_hint_def valid_heap_type_def DEFAULT_HEAP_TYPE_def OPEN_MAPPING_def
        NR_HEAP_TYPE_def Let_def)
  from posix_memalign_leaks_depth[OF one_block_heap_laws boot_tc_idle _ this, of _ 8192 0] this show ?thesis
    by (auto simp: boot_tc_fields get_ex_size_def chunk_head_size_def CHUNK_HEAD_SZ_def)
qed

section \<open>Sizes\<close>

lemma int_cast_mod: "m mod 2 ^ 32 = n mod 2 ^ 32 \<Longrightarrow> int_cast m = int_cast n"
proof -
  assume "m mod 2 ^ 32 = n mod 2 ^ 32"
  from arg_cong[OF this, of uint] have "uint m mod 2 ^ 32 = uint n mod 2 ^ 32" by (simp add: uint_mod_distrib)
  then have "(ucast m :: uint32) = ucast n" by (intro word_uint_eqI) (simp add: unsigned_ucast_eq take_bit_eq_mod)
  then show ?thesis by (simp add: int_cast_def)
qed

lemma no_errno_nonnull: "do_malloc_no_errno env n s = Inr (p, t) \<Longrightarrow> p \<noteq> NULL"
  by (auto simp: do_malloc_no_errno_def do_malloc_internal_def Let_def split: prod.splits if_splits)

lemma alloc_by_no_errno:
  assumes "do_malloc_no_errno env m s = do_malloc_no_errno env n s"
  shows "do_malloc_or_cpp_alloc fuel env m s = do_malloc_or_cpp_alloc fuel env n s"
proof -
  have "cpp_alloc fuel env m True s = cpp_alloc fuel env n True s"
  proof (cases fuel)
    case (Suc f)
    show ?thesis
      using assms no_errno_nonnull[of env n s] by (cases "do_malloc_no_errno env n s") (auto simp: Suc)
  qed simp
  then show ?thesis using assms by (simp add: do_malloc_or_cpp_alloc_def do_malloc_def)
qed

text \<open>A large request is cut to 32 bits. Two requests above the largest small size that agree in their
  low 32 bits are the same request to the heap: outside NightWatch, \<open>malloc\<close> of 4 GiB and a bit returns
  the block that \<open>malloc\<close> of the bit returns.\<close>

theorem large_request_is_truncated:
  fixes s :: "'x bstate"
  assumes "kMaxSize \<le> m" and "m < 2 ^ 63" and "kMaxSize \<le> n" and "n < 2 ^ 63" and "m mod 2 ^ 32 = n mod 2 ^ 32"
    and "tc_active s = 0" and "min_size_for_slow_path s \<le> kMaxSize + 1" and "heap_laws env"
  shows "tc_malloc fuel env m s = tc_malloc fuel env n s"
proof -
  let ?e = "enter_cache_management s"
  have big: "uint (k + 16) = uint k + 16" "kMaxSize < k + 16" if "kMaxSize \<le> k" "k < 2 ^ 63" for k
  proof -
    have u: "uint kMaxSize \<le> uint k" "uint k < 2 ^ 63" using that by (simp_all add: word_le_def word_less_alt)
    then show s: "uint (k + 16) = uint k + 16" using uint_add_lem[of k 16] by simp
    show "kMaxSize < k + 16" using u s by (simp add: word_less_alt)
  qed
  have slow: "\<not> k + 16 < min_size_for_slow_path ?e" "\<not> k + 16 \<le> kMaxSize" if "kMaxSize \<le> k" "k < 2 ^ 63" for k
    using big[OF that] assms(7) by (auto simp: enter_cache_management_def kMaxSize_def word_less_alt word_le_def)
  have "(m + 16) mod 2 ^ 32 = (n + 16) mod 2 ^ 32"
  proof (rule word_uint_eqI)
    have "uint m mod 2 ^ 32 = uint n mod 2 ^ 32" using arg_cong[OF assms(5), of uint] by (simp add: uint_mod_distrib)
    then have "(uint m + 16) mod 2 ^ 32 = (uint n + 16) mod 2 ^ 32" by (rule mod_add_cong) simp
    then show "uint ((m + 16) mod 2 ^ 32) = uint ((n + 16) mod 2 ^ 32)"
      using big(1)[OF assms(1,2)] big(1)[OF assms(3,4)] by (simp add: uint_mod_distrib)
  qed
  then have "int_cast (m + 16) = int_cast (n + 16)" by (rule int_cast_mod)
  moreover have "get_heap_type_hint k ?e = OPEN_MAPPING" for k
    using assms(6) by (simp add: get_heap_type_hint_def enter_cache_management_def DEFAULT_HEAP_TYPE_def)
  ultimately have "do_malloc_no_errno env (m + 16) ?e = do_malloc_no_errno env (n + 16) ?e"
    using slow[OF assms(1,2)] slow[OF assms(3,4)] by (simp add: do_malloc_no_errno_def do_malloc_internal_def)
  note al = alloc_by_no_errno[OF this, of fuel]
  have before: "notify_heap_type_manager_before_malloc k 0 s = Inr (k + 16, ?e)" for k
    using assms(6) by (simp add: notify_heap_type_manager_before_malloc_def get_ex_size_def chunk_head_size_def CHUNK_HEAD_SZ_def)
  have fin: "finish_malloc fuel b m 0 t = finish_malloc fuel b n 0 t" if "tc_active t = 0" for b and t :: "'x bstate"
  proof -
    have "tc_active v = 0" if "extend_malloc_and_get_usr_ptr b 0 t = Inr (u, v)" for u v
      using that \<open>tc_active t = 0\<close> by (auto simp: extend_malloc_and_get_usr_ptr_def CHUNK_HEAD_SZ_def upd_head_def Let_def split: if_splits)
    then show ?thesis
      by (cases "extend_malloc_and_get_usr_ptr b 0 t") (auto simp: finish_malloc_def notify_heap_type_manager_after_malloc_def)
  qed
  show ?thesis
  proof (cases "do_malloc_or_cpp_alloc fuel env (n + 16) ?e")
    case (Inr r)
    obtain b t where r: "r = (b, t)" by fastforce
    have "heap_keeps ?e t" using do_malloc_block(3)[OF assms(8), of fuel "n + 16" ?e b t] Inr r by simp
    then have "tc_active t = 0" using heap_keeps_fields(3)[of ?e t] assms(6) by (simp add: enter_cache_management_def)
    then show ?thesis using Inr r by (simp add: tc_malloc_def before al fin)
  qed (simp add: tc_malloc_def before al)
qed

theorem large_request_is_truncated_witness:
  "tc_malloc 1 one_block_heap (2 ^ 32 + 300000) (boot_tc 0) = tc_malloc 1 one_block_heap 300000 (boot_tc 0) \<and>
   (\<exists>t. tc_malloc 1 one_block_heap 300000 (boot_tc 0) = Inr (0x200010, t))"
proof
  show "tc_malloc 1 one_block_heap (2 ^ 32 + 300000) (boot_tc 0) = tc_malloc 1 one_block_heap 300000 (boot_tc 0)"
    by (rule large_request_is_truncated) (simp_all add: kMaxSize_def boot_tc_fields one_block_heap_laws)
  show "\<exists>t. tc_malloc 1 one_block_heap 300000 (boot_tc 0) = Inr (0x200010, t)"
    by (simp add: tc_malloc_def notify_heap_type_manager_before_malloc_def do_malloc_or_cpp_alloc_def do_malloc_def do_malloc_no_errno_def
        do_malloc_internal_def get_heap_type_hint_def enter_cache_management_def boot_tc_fields get_ex_size_def chunk_head_size_def
        CHUNK_HEAD_SZ_def valid_heap_type_def DEFAULT_HEAP_TYPE_def OPEN_MAPPING_def NR_HEAP_TYPE_def kMaxSize_def one_block_heap_def
        finish_malloc_def extend_malloc_and_get_usr_ptr_def notify_heap_type_manager_after_malloc_def upd_head_def)
qed

text \<open>The size of the head is added without a check. A request for one of the last 16 sizes is a
  request for fewer than 16 bytes to the heap; if the heap serves it, \<open>malloc\<close> succeeds with a user
  pointer behind the end of the block.\<close>

theorem huge_request_wraps:
  fixes s :: "'x bstate"
  assumes "k < 16" and "tc_active s = 0" and "in_cache_manage s = 0 \<longrightarrow> cache_manager_private s = None" and "tc_new_mode s = 0"
    and "k < min_size_for_slow_path s" and "th_small env OPEN_MAPPING k (enter_cache_management s) = (b, w)"
    and "b \<noteq> NULL" and "b < 2 ^ 47" and "heap_keeps (enter_cache_management s) w"
  shows "\<exists>t. tc_malloc fuel env (k - 16) s = Inr (b + 16, t) \<and> b + k < b + 16 \<and> uint (k - 16) = 2 ^ 64 - 16 + uint k"
proof -
  have nn: "b + 16 \<noteq> NULL" using user_pointer_nonnull[OF assms(8), of 0] by (simp add: chunk_head_size_def CHUNK_HEAD_SZ_def)
  have k: "uint k < 16" "uint b < 2 ^ 47" using assms(1,8) by (simp_all add: word_less_alt)
  then have add: "uint (b + k) = uint b + uint k" "uint (b + 16) = uint b + 16"
    using uint_add_lem[of b k] uint_add_lem[of b 16] by simp_all
  have "(k - 16) + 16 = k" by simp
  then have "\<exists>t. tc_malloc fuel env (k - 16) s = Inr (b + 16, t)"
    using one_block_malloc[of s "k - 16" env b w fuel] assms nn by (simp add: DEFAULT_HEAP_TYPE_def)
  moreover have "b + k < b + 16" using add k by (simp add: word_less_alt)
  moreover have "uint (k - 16) = 2 ^ 64 - 16 + uint k"
  proof -
    have "uint (k - 16) = (uint k - 16) mod 2 ^ 64" by (simp add: uint_word_ariths)
    also have "\<dots> = (uint k - 16 + 2 ^ 64) mod 2 ^ 64" by (simp only: mod_add_self2)
    also have "\<dots> = uint k - 16 + 2 ^ 64" using k(1) by (intro mod_pos_pos_trivial) simp_all
    finally show ?thesis by simp
  qed
  ultimately show ?thesis by blast
qed

theorem huge_request_wraps_witness:
  "\<exists>t. tc_malloc 1 one_block_heap (- 1) (boot_tc 0) = Inr (0x100010, t) \<and> (0x100000 :: ptr) + 15 < 0x100010"
  using huge_request_wraps[of 15 "boot_tc 0" one_block_heap "0x100000" "enter_cache_management (boot_tc 0)" 1]
  by (simp add: boot_tc_fields one_block_heap_def)

section \<open>Aligned blocks\<close>

text \<open>An aligned block has no heap type of its own. When the heap serves an alignment that \<open>malloc\<close>
  would not give, \<open>memalign\<close> succeeds and the heap type of the block is the low byte of what the memory
  held at its start; when that byte is not a heap type, releasing the block reads past the array of
  thread caches.\<close>

theorem memalign_takes_type_from_memory:
  fixes s :: "'x bstate"
  assumes "tc_active s = 0" and "tc_new_mode s = 0" and "al < 2 ^ 32" and "\<not> sz + chunk_head_size al + al < sz + chunk_head_size al"
    and "th_alignment_for_size env (sz + chunk_head_size al) < al" and "sz + chunk_head_size al \<noteq> 0"
    and "th_aligned env OPEN_MAPPING al (sz + chunk_head_size al) (enter_cache_management s) = (b, w)"
    and "b \<noteq> NULL" and "b < 2 ^ 47" and "heap_keeps (enter_cache_management s) w"
  shows "\<exists>u t. tc_memalign fuel env al sz s = Inr (u, t) \<and> u = b + chunk_head_size al \<and>
    get_heap_type u t = uint (ch_mark (chk_cell w b)) mod 256 \<and>
    (tc_inited s \<and> uint (ch_mark (chk_cell w b)) mod 256 \<ge> 2 \<longrightarrow> tc_free fuel env u t = Inl OutOfBounds)"
proof -
  let ?e = "enter_cache_management s" and ?n = "sz + chunk_head_size al"
  have before: "notify_heap_type_manager_before_malloc sz al s = Inr (?n, ?e)"
    using assms(1) by (simp add: notify_heap_type_manager_before_malloc_def get_ex_size_def)
  have "get_heap_type_hint ?n ?e = OPEN_MAPPING"
    using assms(1) by (simp add: get_heap_type_hint_def enter_cache_management_def DEFAULT_HEAP_TYPE_def)
  moreover have "valid_heap_type OPEN_MAPPING" by (simp add: valid_heap_type_def OPEN_MAPPING_def NR_HEAP_TYPE_def)
  moreover have "\<not> al \<le> th_alignment_for_size env ?n" "tc_new_mode ?e = 0"
    using assms(2,5) by (simp_all add: enter_cache_management_def)
  ultimately have al: "do_memalign_or_cpp_memalign fuel env al ?n ?e = Inr (b, w)"
    using assms(4,6,7) by (simp add: do_memalign_or_cpp_memalign_def do_memalign_def Let_def)
  note k = heap_keeps_fields[OF assms(10)]
  obtain u t where e: "extend_malloc_and_get_usr_ptr b al w = Inr (u, t)"
    using assms(8) by (simp add: extend_malloc_and_get_usr_ptr_def Let_def)
  note u = extended_head(2)[OF e]
  then have nn: "u \<noteq> NULL" using user_pointer_nonnull[OF assms(9,3)] by simp
  note x = extended_block[OF e nn assms(3)]
  have wt: "heap_keeps w t"
    using e by (auto simp: extend_malloc_and_get_usr_ptr_def cpy_chunk_head_def Let_def intro!: heap_keeps_head split: if_splits)
  have act: "tc_active t = 0" "tc_inited t = tc_inited s"
    using k(3,5) heap_keeps_fields(3,5)[OF wt] assms(1) by (simp_all add: enter_cache_management_def)
  let ?v = "leave_cache_management t"
  have "notify_heap_type_manager_after_malloc fuel u sz t = Inr ?v"
    using act by (simp add: notify_heap_type_manager_after_malloc_def)
  then have m: "tc_memalign fuel env al sz s = Inr (u, ?v)" by (simp add: tc_memalign_def before al finish_malloc_def e)
  have "NOT HEAP_TYPE_MASK = mask 8" by (simp add: HEAP_TYPE_MASK_def mask_eq_exp_minus_1)
  then have ty: "get_heap_type u ?v = uint (ch_mark (chk_cell w b)) mod 256"
    using x(3) by (simp add: get_heap_type_def leave_cache_management_def take_bit_eq_mask[symmetric] take_bit_eq_mod uint_mod_distrib)
  have "tc_free fuel env u ?v = Inl OutOfBounds" if "tc_inited s" "uint (ch_mark (chk_cell w b)) mod 256 \<ge> 2"
  proof -
    have "using_chunk_head u ?v" "tc_inited ?v" "tc_active ?v = 0"
      using x(1) act that(1) by (simp_all add: leave_cache_management_def using_chunk_head_def)
    moreover have "\<not> valid_heap_type (get_heap_type u ?v)" using that(2) ty by (simp add: valid_heap_type_def NR_HEAP_TYPE_def)
    ultimately show ?thesis using nn by (simp add: tc_free_def do_free_def do_free_with_callback_def free_block_def Let_def)
  qed
  then show ?thesis using m u ty by blast
qed

theorem memalign_takes_type_from_memory_witness:
  "\<exists>t. tc_memalign 1 (one_block_heap\<lparr>th_aligned := \<lambda>_ _ _ s. (0x100000, upd_head 0x100000 (\<lambda>h. h\<lparr>ch_mark := 0x1234\<rparr>) s)\<rparr>)
       4096 100 (boot_tc 0) = Inr (0x101000, t) \<and> get_heap_type 0x101000 t = 0x34 \<and>
     tc_free 1 (one_block_heap\<lparr>th_aligned := \<lambda>_ _ _ s. (0x100000, upd_head 0x100000 (\<lambda>h. h\<lparr>ch_mark := 0x1234\<rparr>) s)\<rparr>)
       0x101000 t = Inl OutOfBounds"
proof -
  let ?h = "one_block_heap\<lparr>th_aligned := \<lambda>_ _ _ s. (0x100000, upd_head 0x100000 (\<lambda>h. h\<lparr>ch_mark := 0x1234\<rparr>) s)\<rparr> :: unit theap"
  let ?w = "upd_head 0x100000 (\<lambda>h. h\<lparr>ch_mark := 0x1234\<rparr>) (enter_cache_management (boot_tc 0))"
  have "heap_keeps (enter_cache_management (boot_tc 0)) ?w" by (simp add: heap_keeps_head)
  from memalign_takes_type_from_memory[of "boot_tc 0" 4096 100 ?h "0x100000" ?w 1, OF _ _ _ _ _ _ _ _ _ this] show ?thesis
    by (simp add: boot_tc_fields chunk_head_size_def CHUNK_HEAD_SZ_def one_block_heap_def upd_head_def)
qed

section \<open>Blocks that are not sampled\<close>

text \<open>Stopping a chunk that is finished, has no samples and no event, while the queue is idle.\<close>

lemma stop_idle_chunk:
  fixes s :: "'x cstate"
  assumes "\<not> queue_lock s" and "events s = []" and "ck_state (ck_cell s k) = CHUNK_MONIT_FINISH" and "ck_sample (ck_cell s k) = []"
    and "\<And>s' :: 'x cstate. hash_map_find_member_mt (private2event_map s) k s' = Inr (NULL, m)"
  shows "\<exists>u. stop_monit_chunk_mt (Suc fuel) k s = Inr (0, u) \<and> free_chunk u = free_chunk s \<and> fk_init u = fk_init s"
  using assms
  by (auto simp: stop_monit_chunk_mt_def pend_time_event_queue_mt_def take_queue_lock_def do_pend_event_queue_def
      remove_time_event_when_pending_mt_def do_remove_time_event_def mt_env_def upd_ck_def remove_chunk_samples_mt_def
      resume_time_event_queue_mt_def do_resume_event_queue_def gettimeofday_def do_trigger_time_event_def drop_queue_lock_def
      set_timer_def Let_def)

lemma collect_idle_chunk:
  fixes s :: "'x cstate"
  assumes "\<not> queue_lock s" and "events s = []" and "ck_state (ck_cell s k) = CHUNK_MONIT_FINISH" and "ck_sample (ck_cell s k) = []"
    and "\<And>s' :: 'x cstate. hash_map_find_member_mt (private2event_map s) k s' = Inr (NULL, m)"
    and "get_extend_info p s = k" and "k \<noteq> NULL" and "fk_init s"
  shows "\<exists>u. NightWatch_collect_sample_mt (Suc fuel) p s = Inr u \<and> free_chunk u = k # free_chunk s \<and> fk_init u"
proof -
  obtain u where u: "stop_monit_chunk_mt (Suc fuel) k s = Inr (0, u)" "free_chunk u = free_chunk s" "fk_init u"
    using stop_idle_chunk[OF assms(1-5)] assms(8) by blast
  have "chunk_under_monit k s" using assms(3) by (simp add: chunk_under_monit_def chunk_state_defs)
  then show ?thesis
    using u assms(6,7)
    by (simp add: NightWatch_collect_sample_mt_def detach_chunk_from_context_mt_def chunk_free_mt_def ensure_free_context_def
        upd_ck_def Let_def)
qed

text \<open>C27: a block that is not sampled inherits the chunk of whoever used its memory before. The head of a
  small block is made without clearing the pointer for NightWatch; if the memory still holds the pointer
  to a chunk that was put on the free list, \<open>malloc\<close> and \<open>free\<close> of the small block put the chunk on the
  free list a second time, and the next two chunks that are monitored are one and the same.\<close>

theorem stale_chunk_is_freed_twice:
  fixes s :: "'x bstate"
  assumes sz: "sz \<le> 64" and idle: "tc_active s \<noteq> 0" "tc_inited s" "in_cache_manage s = 0" "cache_manager_private s = None"
      "tc_new_mode s = 0" "sz + 16 < min_size_for_slow_path s"
    and heap: "heap_laws env" "th_small env OPEN_MAPPING (sz + 16) (enter_cache_management s) = (b, w)" "b \<noteq> NULL"
    and stale: "ch_extend_info (chk_cell w b) = k" "k \<noteq> NULL" "free_chunk s = k # ks" "fk_init s"
      "ck_state (ck_cell s k) = CHUNK_MONIT_FINISH" "ck_sample (ck_cell s k) = []"
    and queue: "\<not> queue_lock s" "events s = []"
      "\<And>s' :: 'x bstate. hash_map_find_member_mt (private2event_map s) k s' = Inr (NULL, m)"
  shows "\<exists>t v. tc_malloc fuel env sz s = Inr (b + 16, t) \<and> tc_free (Suc fuel) env (b + 16) t = Inr v \<and>
    free_chunk v = k # k # ks \<and> fst (chunk_alloc_mt v) = k \<and> fst (chunk_alloc_mt (snd (chunk_alloc_mt v))) = k"
proof -
  let ?e = "enter_cache_management s"
  have hk: "heap_keeps ?e w" "b < 2 ^ 47" using heap_laws_D(1)[OF heap(1,2)] by simp_all
  have nn: "b + 16 \<noteq> NULL" using user_pointer_nonnull[OF hk(2), of 0] by (simp add: chunk_head_size_def CHUNK_HEAD_SZ_def)
  define h where "h = init_chunk_head 16 (set_heap_type DEFAULT_HEAP_TYPE (chk_cell w b))"
  define t where "t = leave_cache_management (upd_head b (\<lambda>h. init_chunk_head 16 (set_heap_type DEFAULT_HEAP_TYPE h)) w)"
  have m: "tc_malloc fuel env sz s = Inr (b + 16, t)"
    unfolding t_def using sz idle heap(2,3) nn hk(1)
    by (intro one_block_malloc) (simp_all add: tiny_chunk_def CACHE_LINE_SZ_def DEFAULT_HEAP_TYPE_def)
  obtain c x where w: "w = br_state.more_update (\<lambda>_. x) (?e\<lparr>chk_cell := c\<rparr>)" using hk(1) by (auto simp: heap_keeps_def)
  have cell: "chk_cell t (usr_ptr2chk_head (b + 16)) = h"
    by (simp add: t_def h_def leave_cache_management_def upd_head_def usr_ptr2chk_head_def CHUNK_HEAD_SZ_def)
  have u: "using_chunk_head (b + 16) t" using nn cell by (simp add: using_chunk_head_def h_def)
  have ty: "get_heap_type (b + 16) t = 1"
    using set_heap_type_low low_byte[of 1] by (simp add: get_heap_type_def cell h_def DEFAULT_HEAP_TYPE_def OPEN_MAPPING_def)
  let ?t = "enter_cache_management t"
  have f: "\<not> queue_lock ?t" "events ?t = []" "ck_cell ?t = ck_cell s" "private2event_map ?t = private2event_map s" "fk_init ?t"
    "free_chunk ?t = free_chunk s" "tc_active t \<noteq> 0" "tc_inited t"
    using w queue stale(4) idle by (simp_all add: t_def enter_cache_management_def leave_cache_management_def upd_head_def)
  have info: "get_extend_info (b + 16) ?t = k"
    using u cell stale(1) by (simp add: get_extend_info_def using_chunk_head_def enter_cache_management_def h_def)
  have "ck_state (ck_cell ?t k) = CHUNK_MONIT_FINISH" "ck_sample (ck_cell ?t k) = []" using f(3) stale(5,6) by simp_all
  from collect_idle_chunk[OF f(1,2) this _ info stale(2) f(5), of m fuel] queue(3) f(4)
  obtain v where v: "NightWatch_collect_sample_mt (Suc fuel) (b + 16) ?t = Inr v" "free_chunk v = k # free_chunk s" "fk_init v"
    using f(6) by auto
  let ?v = "th_free env 1 (usr_ptr2malloc_ptr (b + 16) t) (leave_cache_management v)"
  have free: "tc_free (Suc fuel) env (b + 16) t = Inr ?v"
    using f(7,8) u ty v(1) nn
    by (simp add: tc_free_def do_free_def do_free_with_callback_def notify_heap_type_manager_before_free_def free_block_def
        valid_heap_type_def NR_HEAP_TYPE_def Let_def)
  have "heap_keeps (leave_cache_management v) ?v" by (rule heap_laws_D(4)[OF heap(1)])
  then have list: "free_chunk ?v = k # k # ks" "fk_init ?v"
    using v(2,3) stale(3) by (auto simp: heap_keeps_def leave_cache_management_def)
  then have "fst (chunk_alloc_mt ?v) = k" "fst (chunk_alloc_mt (snd (chunk_alloc_mt ?v))) = k"
    by (simp_all add: chunk_alloc_mt_def ensure_free_chunk_def upd_ck_def Let_def)
  with m free list(1) show ?thesis by blast
qed

lemma fresh_find:
  fixes s :: "'a hm_mt_state_scheme"
  shows "hash_map_find_member_mt fresh_mt key s = Inr (NULL, fresh_mt)"
proof -
  let ?s = "s\<lparr>free_member := [], fm_init := True\<rparr>"
  have f: "mt_inv ?s fresh_mt" "hm_abs ?s (mt_hm fresh_mt) = Map.empty" "guard_ok ?s (mt_hm fresh_mt) key"
    by (rule fresh_map_in; simp)+
  then have "hash_map_find_member (mt_hm fresh_mt) key ?s = Inr NULL"
    using hash_map_find_member_miss[of ?s "mt_hm fresh_mt" key] by (simp add: mt_inv_def)
  moreover have "hash_map_find_member (mt_hm fresh_mt) key ?s = hash_map_find_member (mt_hm fresh_mt) key s"
    by (simp add: hash_map_find_member_def get_map_member_def guard_word_def
        cong: member_ref.case_cong option.case_cong if_cong)
  ultimately show ?thesis using f(1) by (simp add: hash_map_find_member_mt_eq mt_inv_def)
qed

theorem stale_chunk_is_freed_twice_witness:
  "\<exists>s t v. s = (boot_tc 1)\<lparr>free_chunk := [64], ck_cell := \<lambda>_. zero_chunk\<lparr>ck_state := CHUNK_MONIT_FINISH\<rparr>,
       chk_cell := \<lambda>_. \<lparr>ch_offset = 0, ch_mark = 0, ch_extend_info = 64\<rparr>\<rparr> \<and>
     tc_malloc 0 one_block_heap 40 s = Inr (0x100010, t) \<and> tc_free 1 one_block_heap 0x100010 t = Inr v \<and>
     free_chunk v = [64, 64] \<and> fst (chunk_alloc_mt v) = 64 \<and> fst (chunk_alloc_mt (snd (chunk_alloc_mt v))) = 64"
proof -
  define s where "s = (boot_tc 1)\<lparr>free_chunk := [64], ck_cell := \<lambda>_. zero_chunk\<lparr>ck_state := CHUNK_MONIT_FINISH\<rparr>,
       chk_cell := \<lambda>_. \<lparr>ch_offset = 0, ch_mark = 0, ch_extend_info = 64\<rparr>\<rparr>"
  have s: "private2event_map s = fresh_mt" "events s = []" "\<not> queue_lock s" "fk_init s"
    by (simp_all add: s_def boot_tc_def nw_state.defs br_state.defs boot_def)
  have "\<exists>t v. tc_malloc 0 one_block_heap 40 s = Inr (0x100000 + 16, t) \<and> tc_free (Suc 0) one_block_heap (0x100000 + 16) t = Inr v \<and>
      free_chunk v = 64 # 64 # [] \<and> fst (chunk_alloc_mt v) = 64 \<and> fst (chunk_alloc_mt (snd (chunk_alloc_mt v))) = 64"
    by (rule stale_chunk_is_freed_twice[OF _ _ _ _ _ _ _ one_block_heap_laws, where w = "enter_cache_management s" and m = fresh_mt])
      (simp_all add: s fresh_find, simp_all add: s_def boot_tc_fields one_block_heap_def enter_cache_management_def zero_chunk_def)
  then show ?thesis using s_def by auto
qed

section \<open>NightWatch could not be started\<close>

lemma heap_keeps_depth: "heap_keeps (enter_cache_management s) t \<Longrightarrow> heap_keeps s (leave_cache_management t)"
  unfolding heap_keeps_def
  by (elim exE, rule exI, rule exI) (cases s, simp add: enter_cache_management_def leave_cache_management_def)

lemma extend_keeps: "extend_malloc_and_get_usr_ptr b al s = Inr (u, t) \<Longrightarrow> heap_keeps s t"
  by (auto simp: extend_malloc_and_get_usr_ptr_def cpy_chunk_head_def Let_def intro!: heap_keeps_head split: if_splits)

text \<open>Before NightWatch is active, an allocation and a release change the heap and nothing else.\<close>

lemma inactive_path:
  fixes s :: "'x bstate"
  assumes h: "heap_laws env" and a: "tc_active s = 0"
    and r: "rbind (notify_heap_type_manager_before_malloc sz 0 s) (\<lambda>(ex_size, s).
      rbind (al ex_size s) (\<lambda>(result, s). finish_malloc fuel result sz 0 s)) = Inr (u, v)"
    and al: "\<And>n t p w. al n t = Inr (p, w) \<Longrightarrow> do_malloc_or_cpp_alloc fuel env n t = Inr (p, w) \<or>
      do_malloc_no_errno_or_cpp_alloc fuel env n t = Inr (p, w) \<or> cpp_alloc fuel env n nt t = Inr (p, w)"
  shows "heap_keeps s v"
proof -
  let ?e = "enter_cache_management s"
  obtain b w where w: "al (get_ex_size sz 0) ?e = Inr (b, w)" "finish_malloc fuel b sz 0 w = Inr (u, v)"
    using r a by (auto simp: notify_heap_type_manager_before_malloc_def rbind_eq_Inr)
  obtain t where t: "extend_malloc_and_get_usr_ptr b 0 w = Inr (u, t)" "notify_heap_type_manager_after_malloc fuel u sz t = Inr v"
    using w(2) by (auto simp: finish_malloc_def rbind_eq_Inr)
  have k: "heap_keeps ?e t"
    by (rule heap_keeps_trans[OF do_malloc_block(3)[OF h al[OF w(1)]] extend_keeps[OF t(1)]])
  then have "tc_active t = 0" using heap_keeps_fields(3)[OF k] a by (simp add: enter_cache_management_def)
  then have "v = leave_cache_management t" using t(2) by (simp add: notify_heap_type_manager_after_malloc_def)
  then show ?thesis using heap_keeps_depth[OF k] by simp
qed

lemma inactive_malloc_free:
  fixes s :: "'x bstate"
  assumes h: "heap_laws env" and a: "tc_active s = 0"
  shows "cpp_new fuel env nt sz s = Inr (u, t) \<Longrightarrow> heap_keeps s t" "malloc_and_free_1 fuel env s = Inr v \<Longrightarrow> heap_keeps s v"
proof -
  show "cpp_new fuel env nt sz s = Inr (u, t) \<Longrightarrow> heap_keeps s t"
    unfolding cpp_new_def by (erule inactive_path[OF h a]) blast
next
  assume "malloc_and_free_1 fuel env s = Inr v"
  then obtain p w where w: "tc_malloc fuel env 1 s = Inr (p, w)" "tc_free fuel env p w = Inr v"
    by (auto simp: malloc_and_free_1_def rbind_eq_Inr)
  have k: "heap_keeps s w" using w(1) unfolding tc_malloc_def by (rule inactive_path[OF h a]) blast
  then have "tc_active w = 0" using heap_keeps_fields(3)[OF k] a by simp
  then have "heap_keeps w v"
    using w(2) heap_laws_D(4)[OF h]
    by (auto simp: tc_free_def do_free_def do_free_with_callback_def free_block_def Let_def split: if_splits)
  then show "heap_keeps s v" by (rule heap_keeps_trans[OF k])
qed

text \<open>A failed start of NightWatch breaks the program. When the handler of the timer signal cannot be
  installed, the constructor of the allocator, which does not look at the result of \<open>NightWatch_init\<close>,
  goes on with NightWatch marked active on both sides; the first allocation of 65 to 65536 bytes reads
  the table of sizes, which was never allocated.\<close>

theorem failed_start_breaks_malloc:
  fixes s t :: "'x bstate"
  assumes h: "heap_laws env" "\<And>u :: 'x bstate. heap_keeps u (th_init_tsd env u)"
    and s: "tcmallocguard_refcount s = 0" "tc_active s = 0" "in_cache_manage s = 0" "\<not> NightWatch_active s"
      "sigaction_ret s \<noteq> 0" "s2t_map s = []"
    and r: "TCMallocGuard_init fuel env valgrind s = Inr t" and sz: "64 < sz" "sz \<le> 65536"
  shows "tc_active t = 1 \<and> NightWatch_active t \<and> tc_malloc fuel env sz t = Inl OutOfBounds"
proof -
  define s1 where "s1 = enter_cache_management (s\<lparr>tcmallocguard_refcount := 1\<rparr>)"
  have s1: "tc_active s1 = 0" "in_cache_manage s1 = 1" "nightwatch_state s1 = nightwatch_state s" "sigaction_ret s1 = sigaction_ret s"
    "s2t_map s1 = []" using s by (simp_all add: s1_def enter_cache_management_def)
  obtain s2 s3 s4 where c: "malloc_and_free_1 fuel env s1 = Inr s2" "malloc_and_free_1 fuel env (th_init_tsd env s2) = Inr s3"
      "(if valgrind then Inr s3 else rbind (tc_new fuel env (th_impl_size env) s3) (\<lambda>(_, s). Inr s)) = Inr s4"
      "(if tc_active s4 \<noteq> 0 then Inr s4 else rbind (NightWatch_init_mt s4) (\<lambda>(_, s).
         Inr ((leave_cache_management s)\<lparr>tc_active := 1\<rparr>))) = Inr t"
    using r s(1,2) by (auto simp: TCMallocGuard_init_def rbind_eq_Inr Let_def s1_def)
  have k2: "heap_keeps s1 s2" by (rule inactive_malloc_free(2)[OF h(1) s1(1) c(1)])
  note k2' = heap_keeps_trans[OF k2 h(2)]
  have "tc_active (th_init_tsd env s2) = 0" using heap_keeps_fields(3)[OF k2'] s1(1) by simp
  from heap_keeps_trans[OF k2' inactive_malloc_free(2)[OF h(1) this c(2)]] have k3: "heap_keeps s1 s3" .
  then have "tc_active s3 = 0" using heap_keeps_fields(3)[OF k3] s1(1) by simp
  then have "heap_keeps s3 s4" using c(3) inactive_malloc_free(1)[OF h(1)] by (auto simp: rbind_eq_Inr tc_new_def split: if_splits)
  from heap_keeps_trans[OF k3 this] have k4: "heap_keeps s1 s4" .
  then have s4: "tc_active s4 = 0" "in_cache_manage s4 = 1" "nightwatch_state s4 = nightwatch_state s" "sigaction_ret s4 \<noteq> 0"
    "s2t_map s4 = []" using s1 s(5) by (auto simp: heap_keeps_def)
  then have "\<not> NightWatch_active s4" using s(4) by (simp add: NightWatch_active_def)
  then obtain u where u: "NightWatch_init_mt s4 = Inr (sigaction_ret s4, u)" "NightWatch_active u" "in_cache_manage u = 1" "s2t_map u = []"
    using failed_init[of s4] s4 by auto
  then have t: "t = (leave_cache_management u)\<lparr>tc_active := 1\<rparr>" using c(4) s4(1) by simp
  let ?t = "enter_cache_management t"
  have "\<not> S2T_MAP_SIZE < sz" using sz(2) by (simp add: S2T_MAP_SIZE_def)
  then have "NightWatch_get_alloc_context_mt sz ?t = Inl OutOfBounds"
    using u(4) t by (simp add: NightWatch_get_alloc_context_mt_def lock_entry_def enter_cache_management_def leave_cache_management_def rd_def)
  moreover have "\<not> tiny_chunk sz" using sz(1) by (simp add: tiny_chunk_def CACHE_LINE_SZ_def)
  ultimately have "tc_malloc fuel env sz t = Inl OutOfBounds"
    using t u(3)
    by (simp add: tc_malloc_def notify_heap_type_manager_before_malloc_def in_cache_management_def leave_cache_management_def)
  then show ?thesis using t u(2) by (simp add: NightWatch_active_def leave_cache_management_def)
qed

theorem failed_start_breaks_malloc_witness:
  "\<exists>s t. s = (boot_tc 0)\<lparr>sigaction_ret := - 1, s2t_map := []\<rparr> \<and> TCMallocGuard_init 1 one_block_heap True s = Inr t \<and>
     tc_active t = 1 \<and> tc_malloc 1 one_block_heap 100 t = Inl OutOfBounds"
proof -
  define s where "s = (boot_tc 0)\<lparr>sigaction_ret := - 1, s2t_map := []\<rparr>"
  have s: "tcmallocguard_refcount s = 0" "tc_active s = 0" "in_cache_manage s = 0" "\<not> NightWatch_active s"
      "sigaction_ret s \<noteq> 0" "s2t_map s = []" "tc_inited s" "tc_new_mode s = 0" "min_size_for_slow_path s = 262145"
    by (simp_all add: s_def boot_tc_def nw_state.defs br_state.defs boot_def NightWatch_active_def)
  define s1 where "s1 = enter_cache_management (s\<lparr>tcmallocguard_refcount := 1\<rparr>)"
  have run: "\<exists>v. malloc_and_free_1 1 one_block_heap u = Inr v \<and> heap_keeps u v" if k: "heap_keeps s1 u" for u
  proof -
    have f: "tc_active u = 0" "in_cache_manage u = 1" "tc_inited u" "tc_new_mode u = 0" "min_size_for_slow_path u = 262145"
      using k s by (auto simp: heap_keeps_def s1_def enter_cache_management_def)
    let ?h = "\<lambda>h. init_chunk_head 16 (set_heap_type DEFAULT_HEAP_TYPE h)"
    let ?t = "leave_cache_management (upd_head 0x100000 ?h (enter_cache_management u))"
    have m: "tc_malloc 1 one_block_heap 1 u = Inr (0x100000 + 16, ?t)"
      by (rule one_block_malloc) (simp_all add: f one_block_heap_def)
    have t: "?t = upd_head 0x100000 ?h u" by (simp add: leave_cache_management_def enter_cache_management_def upd_head_def)
    have "get_heap_type 0x100010 ?t = 1"
      unfolding t using set_heap_type_low low_byte[of 1]
      by (simp add: get_heap_type_def usr_ptr2chk_head_def CHUNK_HEAD_SZ_def upd_head_def DEFAULT_HEAP_TYPE_def OPEN_MAPPING_def)
    then have "tc_free 1 one_block_heap 0x100010 ?t = Inr ?t"
      unfolding t using f by (simp add: tc_free_def do_free_def do_free_with_callback_def free_block_def valid_heap_type_def NR_HEAP_TYPE_def
          one_block_heap_def upd_head_def using_chunk_head_def usr_ptr2chk_head_def CHUNK_HEAD_SZ_def Let_def)
    then show ?thesis using m heap_keeps_head[OF heap_keeps_refl[of u], of "0x100000" ?h] t by (simp add: malloc_and_free_1_def)
  qed
  have tsd: "heap_keeps u (th_init_tsd one_block_heap u)" for u :: "hash_map_mt br_state" by (simp add: one_block_heap_def)
  obtain s2 where s2: "malloc_and_free_1 1 one_block_heap s1 = Inr s2" "heap_keeps s1 s2" using run[OF heap_keeps_refl] by blast
  obtain s3 where s3: "malloc_and_free_1 1 one_block_heap s2 = Inr s3" "heap_keeps s1 s3"
    using run[OF s2(2)] heap_keeps_trans[OF s2(2)] by blast
  then have f3: "tc_active s3 = 0" "\<not> NightWatch_active s3" "sigaction_ret s3 \<noteq> 0"
    using s by (auto simp: heap_keeps_def s1_def enter_cache_management_def NightWatch_active_def)
  then obtain u where "NightWatch_init_mt s3 = Inr (sigaction_ret s3, u)" using failed_init[of s3] by auto
  then have "TCMallocGuard_init 1 one_block_heap True s = Inr ((leave_cache_management u)\<lparr>tc_active := 1\<rparr>)"
    using s(1,2) s2(1) s3(1) f3(1) by (simp add: TCMallocGuard_init_def s1_def one_block_heap_def Let_def)
  from this failed_start_breaks_malloc[OF one_block_heap_laws tsd s(1-6) this, of 100] s_def show ?thesis by auto
qed

end
