(* ===== verification/System_Alloc.thy ===== *)
theory System_Alloc
  imports Chunk_Head
begin

text \<open>
  The system allocators of tcmalloc (\<open>system-alloc.cc\<close>) and the allocator of its own data
  (\<open>MetaDataAlloc\<close> of \<open>common.cc\<close>). The kernel is a parameter: \<open>k_mmap\<close>, \<open>k_sbrk\<close> and \<open>k_madvise\<close>
  give the answer to the n-th system call, and the calls are logged. The out-parameter \<open>actual_size\<close>
  is passed in and returned next to the pointer. The allocator for \<open>/dev/mem\<close> is never installed
  and left out. The spin locks around the calls are taken and released within one operation.
\<close>

section \<open>State\<close>

text \<open>The outcome of \<open>madvise\<close>: success, \<open>-1\<close> with \<open>EAGAIN\<close>, \<open>-1\<close> with another error.\<close>

datatype madvise_result = Madv_ok | Madv_again | Madv_error

text \<open>The two children of the default allocator.\<close>

datatype sys_child = MmapSysAllocator | SbrkSysAllocator

record sys_state =
  k_mmap :: "nat \<Rightarrow> uint64 \<Rightarrow> int \<Rightarrow> ptr"
  k_sbrk :: "nat \<Rightarrow> uint64 \<Rightarrow> ptr"
  k_madvise :: "nat \<Rightarrow> uint64 \<Rightarrow> uint64 \<Rightarrow> madvise_result"
  k_calls :: nat
  mmaps :: "(ptr \<times> uint64 \<times> int) list"
  munmaps :: "(ptr \<times> uint64) list"
  FLAGS_malloc_skip_sbrk :: bool
  FLAGS_malloc_skip_mmap :: bool
  FLAGS_malloc_devmem_start :: int
  FLAGS_malloc_disable_memory_release :: bool
  sys_failed :: "bool list"
  sys_allocs :: "sys_child option list"
  system_alloc_inited :: bool
  SystemTaken :: uint64
  metadata_chunk_alloc :: ptr
  metadata_chunk_avail :: uint64
  metadata_system_bytes :: uint64

definition MAP_FAILED :: ptr where "MAP_FAILED = - 1"
definition pagesize :: uint64 where "pagesize = 4096"
definition kMaxAllocators :: nat where "kMaxAllocators = 2"
definition kAddressBits :: nat where "kAddressBits = 48"
definition sizeof_MemoryAligner :: uint64 where "sizeof_MemoryAligner = 64"
definition kMetadataAllocChunkSize :: uint64 where "kMetadataAllocChunkSize = 8 * 1024 * 1024"
definition kMetadataAllignment :: uint64 where "kMetadataAllignment = 8"

text \<open>The constants of \<open>cacheex.h\<close> for the kernel.\<close>

definition MMAP_OPEN_MAPPING :: int where "MMAP_OPEN_MAPPING = 2"
definition MMAP_RESTRICT_MAPPING :: int where "MMAP_RESTRICT_MAPPING = 3"

section \<open>System calls\<close>

definition sys_mmap :: "uint64 \<Rightarrow> int \<Rightarrow> sys_state \<Rightarrow> ptr \<times> sys_state" where
  "sys_mmap len off s =
     (let r = k_mmap s (k_calls s) len off
      in (r, s\<lparr>k_calls := k_calls s + 1, mmaps := (r, len, off) # mmaps s\<rparr>))"

definition sys_munmap :: "ptr \<Rightarrow> uint64 \<Rightarrow> sys_state \<Rightarrow> sys_state" where
  "sys_munmap p len s = s\<lparr>munmaps := (p, len) # munmaps s\<rparr>"

definition sys_sbrk :: "uint64 \<Rightarrow> sys_state \<Rightarrow> ptr \<times> sys_state" where
  "sys_sbrk inc s = (k_sbrk s (k_calls s) inc, s\<lparr>k_calls := k_calls s + 1\<rparr>)"

section \<open>The allocators\<close>

definition align_up :: "uint64 \<Rightarrow> uint64 \<Rightarrow> uint64" where
  "align_up sz alignment = (sz + alignment - 1) div alignment * alignment"

text \<open>What is missing to the next aligned address.\<close>

definition adjust_of :: "ptr \<Rightarrow> uint64 \<Rightarrow> uint64" where
  "adjust_of p alignment = (if p AND (alignment - 1) \<noteq> 0 then alignment - (p AND (alignment - 1)) else 0)"

definition Sbrk_Alloc :: "uint64 \<Rightarrow> uint64 \<Rightarrow> uint64 \<Rightarrow> int \<Rightarrow> sys_state \<Rightarrow> (ptr \<times> uint64) \<times> sys_state" where
  "Sbrk_Alloc sz actual_size alignment type s =
     (if FLAGS_malloc_skip_sbrk s then ((NULL, actual_size), s)
      else if sz + alignment <s 0 then ((NULL, actual_size), s)
      else
        let sz = align_up sz alignment;
            actual_size = sz;
            (brk, s) = sys_sbrk 0 s
        in if brk + sz < sz then ((NULL, actual_size), s)
           else
             let (result, s) = sys_sbrk sz s
             in if result = - 1 then ((NULL, actual_size), s)
                else if result AND (alignment - 1) = 0 then ((result, actual_size), s)
                else
                  let extra = alignment - (result AND (alignment - 1));
                      (r2, s) = sys_sbrk extra s
                  in if r2 = result + sz then ((result + extra, actual_size), s)
                     else
                       let (result, s) = sys_sbrk (sz + alignment - 1) s
                       in if result = - 1 then ((NULL, actual_size), s)
                          else ((result + adjust_of result alignment, actual_size), s))"

definition Mmap_Alloc :: "uint64 \<Rightarrow> uint64 \<Rightarrow> uint64 \<Rightarrow> int \<Rightarrow> sys_state \<Rightarrow> (ptr \<times> uint64) \<times> sys_state" where
  "Mmap_Alloc sz actual_size alignment type s =
     (if FLAGS_malloc_skip_mmap s then ((NULL, actual_size), s)
      else
        let alignment = (if alignment < pagesize then pagesize else alignment);
            aligned_size = align_up sz alignment
        in if aligned_size < sz then ((NULL, actual_size), s)
           else
             let sz = aligned_size;
                 actual_size = sz;
                 extra = (if alignment > pagesize then alignment - pagesize else 0);
                 (result, s) = sys_mmap (sz + extra) (heap_type2mmap_type type) s
             in if result = MAP_FAILED then ((NULL, actual_size), s)
                else
                  let adjust = adjust_of result alignment;
                      s = (if adjust > 0 then sys_munmap result adjust s else s);
                      s = (if adjust < extra then sys_munmap (result + adjust + sz) (extra - adjust) s else s)
                  in ((result + adjust, actual_size), s))"

definition child_Alloc :: "sys_child \<Rightarrow> uint64 \<Rightarrow> uint64 \<Rightarrow> uint64 \<Rightarrow> int \<Rightarrow> sys_state \<Rightarrow> (ptr \<times> uint64) \<times> sys_state" where
  "child_Alloc c sz actual_size alignment flags s =
     (case c of
        MmapSysAllocator \<Rightarrow> Mmap_Alloc sz actual_size alignment flags s
      | SbrkSysAllocator \<Rightarrow> Sbrk_Alloc sz actual_size alignment flags s)"

text \<open>
  \<open>DefaultSysAllocator::Alloc\<close> does not pass its \<open>type\<close> on to the child: the parameter \<open>flags\<close> of the
  virtual method has the default 0.
\<close>

function Default_loop :: "nat \<Rightarrow> uint64 \<Rightarrow> uint64 \<Rightarrow> uint64 \<Rightarrow> sys_state \<Rightarrow> (ptr \<times> uint64) \<times> sys_state" where
  "Default_loop i sz actual_size alignment s =
     (if i < kMaxAllocators
      then
        case sys_allocs s ! i of
          None \<Rightarrow> Default_loop (i + 1) sz actual_size alignment s
        | Some c \<Rightarrow>
            if sys_failed s ! i then Default_loop (i + 1) sz actual_size alignment s
            else
              let ((result, actual_size), s) = child_Alloc c sz actual_size alignment 0 s
              in if result \<noteq> NULL then ((result, actual_size), s)
                 else Default_loop (i + 1) sz actual_size alignment (s\<lparr>sys_failed := (sys_failed s)[i := True]\<rparr>)
      else ((NULL, actual_size), s\<lparr>sys_failed := replicate kMaxAllocators False\<rparr>))"
  by auto
termination
  by (relation "measure (\<lambda>(i, _). kMaxAllocators - i)") auto

declare Default_loop.simps [simp del]

definition Default_Alloc :: "uint64 \<Rightarrow> uint64 \<Rightarrow> uint64 \<Rightarrow> int \<Rightarrow> sys_state \<Rightarrow> (ptr \<times> uint64) \<times> sys_state" where
  "Default_Alloc sz actual_size alignment type s = Default_loop 0 sz actual_size alignment s"

definition SetChildAllocator :: "sys_child \<Rightarrow> nat \<Rightarrow> sys_state \<Rightarrow> sys_state" where
  "SetChildAllocator alloc index s =
     (if index < kMaxAllocators
      then s\<lparr>sys_allocs := (sys_allocs s)[index := Some alloc], sys_failed := (sys_failed s)[index := False]\<rparr>
      else s)"

definition InitSystemAllocators :: "sys_state \<Rightarrow> sys_state" where
  "InitSystemAllocators s =
     (let s = s\<lparr>sys_failed := replicate kMaxAllocators True, sys_allocs := replicate kMaxAllocators None\<rparr>
      in SetChildAllocator SbrkSysAllocator 1 (SetChildAllocator MmapSysAllocator 0 s))"

definition CheckAddressBits :: "uint64 \<Rightarrow> bool" where
  "CheckAddressBits p \<longleftrightarrow> drop_bit kAddressBits p = 0"

definition TCMalloc_SystemAlloc ::
    "uint64 \<Rightarrow> uint64 \<Rightarrow> uint64 \<Rightarrow> int \<Rightarrow> sys_state \<Rightarrow> ((ptr \<times> uint64) \<times> sys_state) res" where
  "TCMalloc_SystemAlloc sz actual_size alignment type s =
     (if sz + alignment < sz then Inr ((NULL, actual_size), s)
      else
        let s = (if system_alloc_inited s then s else (InitSystemAllocators s)\<lparr>system_alloc_inited := True\<rparr>);
            alignment = (if alignment < sizeof_MemoryAligner then sizeof_MemoryAligner else alignment);
            ((result, actual_size), s) = Default_Alloc sz actual_size alignment type s
        in if result \<noteq> NULL
           then
             if CheckAddressBits (result + actual_size - 1)
             then Inr ((result, actual_size), s\<lparr>SystemTaken := SystemTaken s + actual_size\<rparr>)
             else Inl AssertFail
           else Inr ((result, actual_size), s))"

section \<open>Release\<close>

text \<open>The loop over \<open>EAGAIN\<close> runs as long as the kernel answers so: fuel.\<close>

primrec madvise_loop :: "nat \<Rightarrow> uint64 \<Rightarrow> uint64 \<Rightarrow> sys_state \<Rightarrow> (bool \<times> sys_state) res" where
  "madvise_loop 0 start len s = Inl OutOfFuel"
| "madvise_loop (Suc fuel) start len s =
     (case k_madvise s (k_calls s) start len of
        Madv_ok \<Rightarrow> Inr (True, s\<lparr>k_calls := k_calls s + 1\<rparr>)
      | Madv_error \<Rightarrow> Inr (False, s\<lparr>k_calls := k_calls s + 1\<rparr>)
      | Madv_again \<Rightarrow> madvise_loop fuel start len (s\<lparr>k_calls := k_calls s + 1\<rparr>))"

definition TCMalloc_SystemRelease :: "nat \<Rightarrow> uint64 \<Rightarrow> uint64 \<Rightarrow> sys_state \<Rightarrow> (bool \<times> sys_state) res" where
  "TCMalloc_SystemRelease fuel start len s =
     (if FLAGS_malloc_devmem_start s \<noteq> 0 then Inr (False, s)
      else if FLAGS_malloc_disable_memory_release s then Inr (False, s)
      else
        let pagemask = pagesize - 1;
            new_start = (start + pagesize - 1) AND NOT pagemask;
            new_end = (start + len) AND NOT pagemask
        in if new_end > new_start then madvise_loop fuel new_start (new_end - new_start) s
           else Inr (False, s))"

section \<open>Metadata\<close>

definition MetaDataAlloc :: "uint64 \<Rightarrow> sys_state \<Rightarrow> (ptr \<times> sys_state) res" where
  "MetaDataAlloc bytes s =
     (if bytes \<ge> kMetadataAllocChunkSize
      then
        rbind (TCMalloc_SystemAlloc bytes 0 kMetadataAllignment DEFAULT_HEAP_TYPE s) (\<lambda>((rv, _), s).
          Inr (rv, if rv \<noteq> NULL then s\<lparr>metadata_system_bytes := metadata_system_bytes s + bytes\<rparr> else s))
      else
        let alignment = (- metadata_chunk_alloc s) AND (kMetadataAllignment - 1);
            take = (\<lambda>alignment s.
              let rv = metadata_chunk_alloc s + alignment;
                  bytes = bytes + alignment
              in Inr (rv, s\<lparr>metadata_chunk_alloc := metadata_chunk_alloc s + bytes,
                           metadata_chunk_avail := metadata_chunk_avail s - bytes,
                           metadata_system_bytes := metadata_system_bytes s + bytes\<rparr>))
        in if metadata_chunk_avail s < bytes + alignment
           then
             rbind (TCMalloc_SystemAlloc kMetadataAllocChunkSize 0 kMetadataAllignment DEFAULT_HEAP_TYPE s) (\<lambda>((ptr, real_size), s).
               if ptr = NULL then Inr (NULL, s)
               else take 0 (s\<lparr>metadata_chunk_alloc := ptr, metadata_chunk_avail := real_size\<rparr>))
           else take alignment s)"

end
