(* ===== verification/System_Alloc_Correct.thy ===== *)
theory System_Alloc_Correct
  imports System_Alloc
begin

text \<open>
  What the system allocators return: aligned regions, the bytes that stay mapped are the bytes that
  are handed out, and the metadata blocks do not overlap. The heap type of a request does not reach
  the kernel.
\<close>

section \<open>Alignment\<close>

lemma and_mask_mod: "unat (p AND (2 ^ a - 1) :: uint64) = unat p mod 2 ^ a"
proof -
  have "p AND (2 ^ a - 1) = take_bit a p" by (simp add: take_bit_eq_mask mask_eq_exp_minus_1)
  then have "unat (p AND (2 ^ a - 1)) = take_bit a (unat p)" by (simp only: unsigned_take_bit_eq)
  then show ?thesis by (simp only: take_bit_eq_mod)
qed

lemma pow2_unat: "a < 64 \<Longrightarrow> unat (2 ^ a :: uint64) = 2 ^ a"
  using unat_of_nat[where 'a=64, of "2 ^ a"] power_strict_increasing[of a 64 "2 :: nat"] by simp

lemma adjust_of_unat:
  assumes "a < 64"
  shows "unat (adjust_of p (2 ^ a)) = (2 ^ a - unat p mod 2 ^ a) mod 2 ^ a"
proof (cases "p AND (2 ^ a - 1) = 0")
  case True
  then have "unat p mod 2 ^ a = 0" by (metis and_mask_mod unat_0)
  then show ?thesis using True by (simp add: adjust_of_def)
next
  case False
  then have m: "0 < unat p mod 2 ^ a" by (metis and_mask_mod gr0I unat_eq_zero)
  have "p AND (2 ^ a - 1) \<le> 2 ^ a"
    using assms by (simp add: word_le_nat_alt and_mask_mod pow2_unat)
  then have "unat (2 ^ a - (p AND (2 ^ a - 1))) = 2 ^ a - unat p mod 2 ^ a"
    using assms by (simp add: unat_sub and_mask_mod pow2_unat)
  then show ?thesis using False m by (simp add: adjust_of_def)
qed

lemma adjust_lt: "a < 64 \<Longrightarrow> unat (adjust_of p (2 ^ a)) < 2 ^ a"
  by (simp add: adjust_of_unat)

lemma adjusted_dvd: "2 ^ a dvd n + (2 ^ a - n mod 2 ^ a) mod (2 ^ a :: nat)"
proof (cases "n mod 2 ^ a = 0")
  case True
  then show ?thesis by (simp add: mod_eq_0_iff_dvd)
next
  case False
  have "n + (2 ^ a - n mod 2 ^ a) = (n div 2 ^ a + 1) * 2 ^ a"
    using div_mult_mod_eq[of n "2 ^ a"] mod_less_divisor[of "2 ^ a" n] by simp
  moreover have "(2 ^ a - n mod 2 ^ a) mod 2 ^ a = 2 ^ a - n mod 2 ^ a" using False by simp
  ultimately show ?thesis by (simp del: add_diff_assoc)
qed

text \<open>An aligned address, also when the addition wraps.\<close>

lemma adjusted_aligned:
  assumes "a < 64"
  shows "unat (p + adjust_of p (2 ^ a)) mod 2 ^ a = 0"
proof -
  have "(2 :: nat) ^ a dvd 2 ^ 64" using assms by (intro le_imp_power_dvd) simp
  then have "unat (p + adjust_of p (2 ^ a)) mod 2 ^ a = (unat p + unat (adjust_of p (2 ^ a))) mod 2 ^ a"
    by (simp add: unat_word_ariths mod_mod_cancel)
  then show ?thesis using adjusted_dvd[of a "unat p"] by (simp add: adjust_of_unat[OF assms] mod_eq_0_iff_dvd)
qed

lemma unat_last_byte: "unat (sz + 2 ^ a - 1 :: uint64) = (unat sz + 2 ^ a - 1) mod 2 ^ 64"
proof -
  let ?n = "unat sz + 2 ^ a - 1"
  have "1 \<le> unat sz + 2 ^ a" by (simp add: Suc_leI)
  then have "(word_of_nat ?n :: uint64) = word_of_nat (unat sz + 2 ^ a) - word_of_nat 1" by (rule of_nat_diff)
  then have "sz + 2 ^ a - 1 = word_of_nat ?n" by simp
  then show ?thesis by (simp add: unat_of_nat)
qed

lemma align_up_raw:
  assumes "a < 64"
  shows "unat (align_up sz (2 ^ a)) = (unat sz + 2 ^ a - 1) mod 2 ^ 64 div 2 ^ a * 2 ^ a"
proof -
  let ?n = "unat sz + 2 ^ a - 1"
  note u = unat_last_byte[of sz a]
  have q: "unat ((sz + 2 ^ a - 1) div 2 ^ a) = ?n mod 2 ^ 64 div 2 ^ a"
    using assms by (simp add: unat_div u pow2_unat)
  have "?n mod 2 ^ 64 div 2 ^ a * 2 ^ a < 2 ^ 64" by (intro le_less_trans[OF div_times_less_eq_dividend]) simp
  then show ?thesis unfolding align_up_def unat_word_ariths(2) q pow2_unat[OF assms] by simp
qed

lemma align_up_unat:
  assumes "a < 64" and "align_up sz (2 ^ a) \<ge> sz"
  shows "unat (align_up sz (2 ^ a)) = (unat sz + 2 ^ a - 1) div 2 ^ a * 2 ^ a"
    and "unat (align_up sz (2 ^ a)) + 2 ^ a \<le> 2 ^ 64"
proof -
  let ?n = "unat sz + 2 ^ a - 1"
  note v = align_up_raw[OF assms(1), of sz]
  have e: "(2 :: nat) ^ 64 = 2 ^ a * 2 ^ (64 - a)" using assms(1) by (simp add: power_add[symmetric])
  have "?n < 2 ^ 64"
  proof (rule ccontr)
    assume "\<not> ?n < 2 ^ 64"
    moreover have "unat sz < 2 ^ 64" using unsigned_less[of sz] by simp
    moreover have "(2 :: nat) ^ a \<le> 2 ^ 64" using assms(1) by (intro power_increasing) auto
    ultimately have "?n mod 2 ^ 64 = ?n - 2 ^ 64" "?n - 2 ^ 64 < 2 ^ a" "0 < unat sz"
      by (simp_all add: mod_if)
    then have "unat (align_up sz (2 ^ a)) = 0" using v by simp
    then show False using assms(2) \<open>0 < unat sz\<close> by (simp add: word_le_nat_alt)
  qed
  then show "unat (align_up sz (2 ^ a)) = ?n div 2 ^ a * 2 ^ a" using v by simp
  have "?n mod 2 ^ 64 div 2 ^ a < 2 ^ (64 - a)"
    using e by (intro less_mult_imp_div_less) (simp add: mult.commute)
  then have "(?n mod 2 ^ 64 div 2 ^ a + 1) * 2 ^ a \<le> 2 ^ (64 - a) * 2 ^ a" by (intro mult_le_mono1) simp
  then show "unat (align_up sz (2 ^ a)) + 2 ^ a \<le> 2 ^ 64" using v e by (simp add: mult.commute)
qed

lemma round_up_ge: "n \<le> (n + 2 ^ a - 1) div 2 ^ a * (2 ^ a :: nat)"
  using div_mult_mod_eq[of "n + 2 ^ a - 1" "2 ^ a"] mod_less_divisor[of "2 ^ a" "n + 2 ^ a - 1"]
  by (simp del: mod_less_divisor)

lemma round_up_lt: "(n + 2 ^ a - 1) div 2 ^ a * 2 ^ a < n + (2 ^ a :: nat)"
  using div_times_less_eq_dividend[of "n + 2 ^ a - 1" "2 ^ a"] by (metis Nat.add_diff_assoc One_nat_def Suc_leI
    Suc_le_eq diff_Suc_less le_less_trans not_gr_zero one_le_numeral one_le_power add_gr_0 less_le_trans zero_less_one)

section \<open>Regions\<close>

definition bytes_of :: "ptr \<Rightarrow> uint64 \<Rightarrow> nat set" where
  "bytes_of p len = {unat p..<unat p + unat len}"

text \<open>What \<open>mmap\<close> promises: a region that starts on a page and ends below the top of the user's half.\<close>

definition mmap_contract :: "sys_state \<Rightarrow> bool" where
  "mmap_contract s \<longleftrightarrow>
     (\<forall>k len off. k_mmap s k len off \<noteq> MAP_FAILED \<longrightarrow>
        0 < unat (k_mmap s k len off) \<and> unat (k_mmap s k len off) mod 4096 = 0 \<and>
        unat (k_mmap s k len off) + unat len \<le> 2 ^ 47)"

lemma page_alignment: "a < 64 \<Longrightarrow> (if (2 :: uint64) ^ a < pagesize then pagesize else 2 ^ a) = 2 ^ max a 12"
  using power_strict_increasing_iff[of "2 :: nat" a 12] power_strict_increasing_iff[of "2 :: nat" 12 a]
  by (auto simp: pagesize_def word_less_nat_alt pow2_unat max_def not_less le_less)

text \<open>The tail that is unmapped starts where the aligned region ends.\<close>

lemma mmap_trim:
  fixes r sz ex ad :: nat
  assumes "ad \<le> ex"
  shows "{r..<r + (sz + ex)} - {r..<r + ad} - {r + ad + sz..<r + ad + sz + (ex - ad)} = {r + ad..<r + ad + sz}"
  using assms by auto

lemma mmap_alloc_regions:
  assumes a: "a < 48" and c: "mmap_contract s" and r: "Mmap_Alloc sz act (2 ^ a) type s = ((p, act'), s')" and p: "p \<noteq> NULL"
  obtains r ex ad where "unat act' = (unat sz + 2 ^ max a 12 - 1) div 2 ^ max a 12 * 2 ^ max a 12"
    "unat p mod 2 ^ max a 12 = 0" "ad \<le> ex" "unat p = unat r + unat ad"
    "unat (act' + ex) = unat act' + unat ex" "unat r + unat act' + unat ex \<le> 2 ^ 47"
    "mmaps s' = (r, act' + ex, heap_type2mmap_type type) # mmaps s"
    "munmaps s' = (if ad < ex then [(p + act', ex - ad)] else []) @ (if 0 < ad then [(r, ad)] else []) @ munmaps s"
proof -
  let ?a = "max a 12" and ?A = "(2 :: uint64) ^ max a 12"
  have a64: "a < 64" "?a < 64" "12 \<le> ?a" using a by simp_all
  define n where "n = align_up sz ?A"
  define ex where "ex = (if ?A > pagesize then ?A - pagesize else 0)"
  define r where "r = k_mmap s (k_calls s) (n + ex) (heap_type2mmap_type type)"
  define ad where "ad = adjust_of r ?A"
  note d = r[unfolded Mmap_Alloc_def page_alignment[OF a64(1)] Let_def, folded n_def]
  have ns: "\<not> FLAGS_malloc_skip_mmap s" "\<not> n < sz" using d p by (auto split: if_splits)
  note d2 = d[unfolded if_not_P[OF ns(1)] if_not_P[OF ns(2)], folded ex_def, unfolded sys_mmap_def Let_def prod.case, folded r_def]
  have rf: "r \<noteq> MAP_FAILED" using d2 p by (auto split: if_splits)
  note d3 = d2[unfolded if_not_P[OF rf], folded ad_def]
  have pv: "p = r + ad" "act' = n" using d3 by simp_all
  have nv: "unat n = (unat sz + 2 ^ ?a - 1) div 2 ^ ?a * 2 ^ ?a" "unat n + 2 ^ ?a \<le> 2 ^ 64"
    using align_up_unat[OF a64(2), of sz] ns(2) by (simp_all add: n_def not_less)
  have "(2 :: nat) ^ 12 \<le> 2 ^ ?a" using a64(3) by (intro power_increasing) auto
  then have exv: "unat ex = 2 ^ ?a - 4096"
    using a64(2) by (auto simp: ex_def pagesize_def unat_sub word_le_nat_alt word_less_nat_alt pow2_unat)
  have sum: "unat (n + ex) = unat n + unat ex"
    using nv(2) exv \<open>2 ^ 12 \<le> 2 ^ ?a\<close> by (intro unat_add_lem[THEN iffD1]) simp
  have con: "unat r mod 4096 = 0" "unat r + unat (n + ex) \<le> 2 ^ 47"
    using c rf by (auto simp: mmap_contract_def r_def)
  have adv: "unat ad = (2 ^ ?a - unat r mod 2 ^ ?a) mod 2 ^ ?a" using a64(2) by (simp add: ad_def adjust_of_unat)
  have dv: "(4096 :: nat) dvd 2 ^ ?a" using le_imp_power_dvd[OF a64(3), of "2 :: nat"] by simp
  have "unat ad \<le> unat ex"
  proof (cases "unat r mod 2 ^ ?a = 0")
    case False
    have "4096 dvd unat r mod 2 ^ ?a" using con(1) dv by (simp add: dvd_mod mod_eq_0_iff_dvd)
    then have "4096 \<le> unat r mod 2 ^ ?a" using False by (intro dvd_imp_le) auto
    then show ?thesis unfolding exv using adv False by (simp add: diff_le_mono2)
  qed (use adv in simp)
  then have le: "ad \<le> ex" by (simp add: word_le_nat_alt)
  have pu: "unat p = unat r + unat ad"
    unfolding pv(1) using con(2) sum le by (intro unat_add_lem[THEN iffD1]) (simp add: word_le_nat_alt)
  show thesis
  proof (rule that[of ad ex r])
    show "unat p mod 2 ^ ?a = 0" unfolding pv(1) ad_def by (rule adjusted_aligned[OF a64(2)])
    show "unat act' = (unat sz + 2 ^ max a 12 - 1) div 2 ^ max a 12 * 2 ^ max a 12" using nv(1) pv(2) by simp
    show "mmaps s' = (r, act' + ex, heap_type2mmap_type type) # mmaps s"
      using d3 pv(2) by (auto simp: sys_munmap_def split: if_splits)
    show "munmaps s' = (if ad < ex then [(p + act', ex - ad)] else []) @ (if 0 < ad then [(r, ad)] else []) @ munmaps s"
      using d3 pv by (auto simp: sys_munmap_def split: if_splits)
  qed (use le pu pv(2) sum con(2) in simp_all)
qed

text \<open>C34: \<open>MmapSysAllocator::Alloc\<close> hands out what it keeps mapped. For an alignment that is a power of two
  and a kernel that keeps the contract of \<open>mmap\<close>, the returned address is aligned (at least to 4096),
  the reported size is the least multiple of the alignment that holds the request, and the bytes of the
  new mapping that are not unmapped again are exactly the bytes returned.\<close>

theorem mmap_alloc_exact:
  assumes "a < 48" and "mmap_contract s" and "Mmap_Alloc sz act (2 ^ a) type s = ((p, act'), s')" and "p \<noteq> NULL"
  shows "unat p mod 2 ^ max a 12 = 0 \<and> unat act' mod 2 ^ max a 12 = 0 \<and>
    unat sz \<le> unat act' \<and> unat act' < unat sz + 2 ^ max a 12 \<and>
    (\<exists>r len new. mmaps s' = (r, len, heap_type2mmap_type type) # mmaps s \<and> munmaps s' = new @ munmaps s \<and>
      bytes_of r len - (\<Union>(q, l) \<in> set new. bytes_of q l) = bytes_of p act')"
proof -
  from assms obtain r ex ad where h:
    "unat act' = (unat sz + 2 ^ max a 12 - 1) div 2 ^ max a 12 * 2 ^ max a 12"
    "unat p mod 2 ^ max a 12 = 0" "ad \<le> ex" "unat p = unat r + unat ad"
    "unat (act' + ex) = unat act' + unat ex" "unat r + unat act' + unat ex \<le> 2 ^ 47"
    "mmaps s' = (r, act' + ex, heap_type2mmap_type type) # mmaps s"
    "munmaps s' = (if ad < ex then [(p + act', ex - ad)] else []) @ (if 0 < ad then [(r, ad)] else []) @ munmaps s"
    by (rule mmap_alloc_regions)
  let ?new = "(if ad < ex then [(p + act', ex - ad)] else []) @ (if 0 < ad then [(r, ad)] else [])"
  have le: "unat ad \<le> unat ex" using h(3) by (simp add: word_le_nat_alt)
  have e: "unat (p + act') = unat r + unat ad + unat act'" "unat (ex - ad) = unat ex - unat ad"
    using h(3,4,6) le unat_add_lem[of p act'] by (simp_all add: unat_sub)
  have "(\<Union>(q, l) \<in> set ?new. bytes_of q l) =
      {unat r..<unat r + unat ad} \<union> {unat r + unat ad + unat act'..<unat r + unat ad + unat act' + (unat ex - unat ad)}"
    using e le by (auto simp: bytes_of_def word_less_nat_alt word_gt_0 unat_gt_0)
  then have "bytes_of r (act' + ex) - (\<Union>(q, l) \<in> set ?new. bytes_of q l) = bytes_of p act'"
    using mmap_trim[OF le, of "unat r" "unat act'"] h(4,5) unfolding bytes_of_def by (simp add: Diff_eq Int_assoc)
  moreover have "munmaps s' = ?new @ munmaps s" using h(8) by simp
  ultimately have "\<exists>r len new. mmaps s' = (r, len, heap_type2mmap_type type) # mmaps s \<and> munmaps s' = new @ munmaps s \<and>
      bytes_of r len - (\<Union>(q, l) \<in> set new. bytes_of q l) = bytes_of p act'"
    using h(7) by (intro exI conjI)
  then show ?thesis
    unfolding h(1) using h(2) round_up_ge round_up_lt by (intro conjI) (assumption | simp)+
qed

section \<open>The heap type of a request\<close>

definition mmaps_as :: "int \<Rightarrow> sys_state \<Rightarrow> sys_state \<Rightarrow> bool" where
  "mmaps_as off s s' \<longleftrightarrow> (\<exists>new. mmaps s' = new @ mmaps s \<and> (\<forall>m \<in> set new. snd (snd m) = off))"

lemma mmaps_as_refl: "mmaps s' = mmaps s \<Longrightarrow> mmaps_as off s s'"
  by (simp add: mmaps_as_def)

lemma mmaps_as_trans: "mmaps_as off s s' \<Longrightarrow> mmaps_as off s' s'' \<Longrightarrow> mmaps_as off s s''"
  by (fastforce simp: mmaps_as_def)

definition loop_keeps :: "int \<Rightarrow> sys_state \<Rightarrow> sys_state \<Rightarrow> bool" where
  "loop_keeps off s s' \<longleftrightarrow> mmaps_as off s s' \<and> SystemTaken s' = SystemTaken s"

lemma loop_keeps_trans: "loop_keeps off s s' \<Longrightarrow> loop_keeps off s' s'' \<Longrightarrow> loop_keeps off s s''"
  by (auto simp: loop_keeps_def intro: mmaps_as_trans)

lemma child_mmaps: "mmaps_as (heap_type2mmap_type type) s (snd (child_Alloc c sz act al type s))"
proof (cases c)
  case MmapSysAllocator
  have "mmaps (snd (Mmap_Alloc sz act al type s)) = mmaps s \<or>
      (\<exists>r len. mmaps (snd (Mmap_Alloc sz act al type s)) = (r, len, heap_type2mmap_type type) # mmaps s)"
    by (simp add: Mmap_Alloc_def sys_mmap_def sys_munmap_def Let_def)
  then show ?thesis using MmapSysAllocator by (auto simp: mmaps_as_def child_Alloc_def)
next
  case SbrkSysAllocator
  then show ?thesis by (intro mmaps_as_refl) (simp add: child_Alloc_def Sbrk_Alloc_def sys_sbrk_def Let_def)
qed

lemma child_keeps: "loop_keeps (heap_type2mmap_type type) s (snd (child_Alloc c sz act al type s))"
  using child_mmaps[of type s c sz act al] unfolding loop_keeps_def
  by (cases c) (simp_all add: child_Alloc_def Mmap_Alloc_def Sbrk_Alloc_def sys_sbrk_def sys_mmap_def sys_munmap_def Let_def)

lemma Default_loop_mmaps: "loop_keeps (heap_type2mmap_type 0) s (snd (Default_loop i sz act al s))"
proof (induction i sz act al s rule: Default_loop.induct)
  case (1 i sz act al s)
  show ?case
  proof (cases "i < kMaxAllocators \<and> \<not> sys_failed s ! i \<and> sys_allocs s ! i \<noteq> None")
    case False
    then show ?thesis
      using 1(1,2) by (subst Default_loop.simps) (auto simp: loop_keeps_def mmaps_as_refl split: option.split)
  next
    case True
    then obtain c where c: "sys_allocs s ! i = Some c" by auto
    obtain r act2 s2 where r: "child_Alloc c sz act al 0 s = ((r, act2), s2)" by (metis surj_pair)
    have m: "loop_keeps (heap_type2mmap_type 0) s s2" using child_keeps[of 0 s c sz act al] r by simp
    show ?thesis
    proof (cases "r = NULL")
      case False
      then show ?thesis using True c r m by (subst Default_loop.simps) simp
    next
      case Z: True
      let ?s = "s2\<lparr>sys_failed := (sys_failed s2)[i := True]\<rparr>"
      have "loop_keeps (heap_type2mmap_type 0) ?s (snd (Default_loop (i + 1) sz act2 al ?s))"
        using 1(3)[OF _ c _ r[symmetric] refl] True Z by auto
      then have "loop_keeps (heap_type2mmap_type 0) s2 (snd (Default_loop (i + 1) sz act2 al ?s))" by (simp add: loop_keeps_def mmaps_as_def)
      then have "loop_keeps (heap_type2mmap_type 0) s (snd (Default_loop (i + 1) sz act2 al ?s))" by (rule loop_keeps_trans[OF m])
      then show ?thesis using True c r Z by (subst Default_loop.simps) simp
    qed
  qed
qed

lemma init_mmaps: "mmaps (InitSystemAllocators s) = mmaps s"
  by (simp add: InitSystemAllocators_def SetChildAllocator_def Let_def)

text \<open>C37: the heap type of a request is lost in the system allocator. Whatever type the page heap asks for,
  \<open>TCMalloc_SystemAlloc\<close> returns the same region and leaves the same state, and every mapping it makes
  carries the kernel type 2 (\<open>MMAP_OPEN_MAPPING\<close>), which \<open>heap_type2mmap_type\<close> computes from the default 0 of
  the omitted argument.\<close>

theorem system_alloc_drops_heap_type:
  "TCMalloc_SystemAlloc sz act al type s = TCMalloc_SystemAlloc sz act al DEFAULT_HEAP_TYPE s \<and>
   (case TCMalloc_SystemAlloc sz act al type s of
      Inl _ \<Rightarrow> True
    | Inr (_, s') \<Rightarrow> mmaps_as MMAP_OPEN_MAPPING s s')"
proof -
  let ?s = "if system_alloc_inited s then s else (InitSystemAllocators s)\<lparr>system_alloc_inited := True\<rparr>"
  have h: "heap_type2mmap_type 0 = MMAP_OPEN_MAPPING" by (simp add: heap_type2mmap_type_def MMAP_OPEN_MAPPING_def)
  have "mmaps ?s = mmaps s" by (simp add: init_mmaps)
  then have "mmaps_as MMAP_OPEN_MAPPING s (snd (Default_Alloc sz act al' type ?s))" for al' type
    using Default_loop_mmaps[of ?s 0 sz act al'] unfolding h Default_Alloc_def loop_keeps_def mmaps_as_def by simp
  then show ?thesis unfolding TCMalloc_SystemAlloc_def Let_def case_prod_unfold
    by (simp add: Default_Alloc_def mmaps_as_def)
qed

section \<open>The regions of the system allocator\<close>

text \<open>What \<open>sbrk\<close> promises: the region between the old and the new break is below the top of the user's half.\<close>

definition sbrk_contract :: "sys_state \<Rightarrow> bool" where
  "sbrk_contract s \<longleftrightarrow> (\<forall>k inc. k_sbrk s k inc \<noteq> - 1 \<longrightarrow> unat (k_sbrk s k inc) + unat inc \<le> 2 ^ 47)"

definition same_kernel :: "sys_state \<Rightarrow> sys_state \<Rightarrow> bool" where
  "same_kernel s s' \<longleftrightarrow> k_mmap s' = k_mmap s \<and> k_sbrk s' = k_sbrk s"

lemma same_kernel_contracts: "same_kernel s s' \<Longrightarrow> mmap_contract s' = mmap_contract s \<and> sbrk_contract s' = sbrk_contract s"
  by (simp add: same_kernel_def mmap_contract_def sbrk_contract_def)

definition region_ok :: "nat \<Rightarrow> uint64 \<Rightarrow> ptr \<Rightarrow> uint64 \<Rightarrow> bool" where
  "region_ok a sz p n \<longleftrightarrow> unat p mod 2 ^ a = 0 \<and> unat sz \<le> unat n \<and> unat p + unat n \<le> 2 ^ 47"

lemma dvd_mod_less: "a \<le> b \<Longrightarrow> n mod 2 ^ b = 0 \<Longrightarrow> n mod (2 :: nat) ^ a = 0"
  using le_imp_power_dvd[of a b "2 :: nat"] by (auto simp: mod_eq_0_iff_dvd intro: dvd_trans)

lemma mmap_region:
  assumes "a < 48" and "mmap_contract s" and "Mmap_Alloc sz act (2 ^ a) type s = ((p, n), s')" and "p \<noteq> NULL"
  shows "region_ok a sz p n"
proof -
  from assms obtain r ex ad where h: "unat n = (unat sz + 2 ^ max a 12 - 1) div 2 ^ max a 12 * 2 ^ max a 12"
    "unat p mod 2 ^ max a 12 = 0" "ad \<le> ex" "unat p = unat r + unat ad"
    "unat (n + ex) = unat n + unat ex" "unat r + unat n + unat ex \<le> 2 ^ 47"
    "mmaps s' = (r, n + ex, heap_type2mmap_type type) # mmaps s"
    "munmaps s' = (if ad < ex then [(p + n, ex - ad)] else []) @ (if 0 < ad then [(r, ad)] else []) @ munmaps s"
    by (rule mmap_alloc_regions)
  have "unat p mod 2 ^ a = 0" using h(2) by (rule dvd_mod_less[rotated]) simp
  moreover have "unat sz \<le> unat n" unfolding h(1) by (rule round_up_ge)
  ultimately show ?thesis using h(3,4,6) by (simp add: region_ok_def word_le_nat_alt)
qed

lemma sbrk_room:
  assumes "a < 48" and "\<not> sz + 2 ^ a < sz"
  shows "align_up sz (2 ^ a) \<ge> sz"
proof -
  have "unat sz + 2 ^ a < 2 ^ 64"
  proof (rule ccontr)
    assume "\<not> unat sz + 2 ^ a < 2 ^ 64"
    moreover have "unat sz < 2 ^ 64" using unsigned_less[of sz] by simp
    moreover have "(2 :: nat) ^ a < 2 ^ 64" using assms(1) by (intro power_strict_increasing) auto
    ultimately have "(unat sz + 2 ^ a) mod 2 ^ 64 = unat sz + 2 ^ a - 2 ^ 64" "unat sz + 2 ^ a - 2 ^ 64 < unat sz"
      by (simp_all add: mod_if)
    then have "unat (sz + 2 ^ a) < unat sz" using assms(1) by (simp add: unat_word_ariths(1) pow2_unat)
    then show False using assms(2) by (simp add: word_less_nat_alt)
  qed
  then have "(unat sz + 2 ^ a - 1) mod 2 ^ 64 = unat sz + 2 ^ a - 1" by simp
  then show ?thesis
    using assms(1) align_up_raw[of a sz] round_up_ge[of "unat sz" a] by (simp add: word_le_nat_alt del: One_nat_def)
qed

lemma sbrk_region:
  assumes a: "a < 48" and o: "\<not> sz + 2 ^ a < sz" and c: "sbrk_contract s"
    and r: "Sbrk_Alloc sz act (2 ^ a) type s = ((p, n), s')" and p: "p \<noteq> NULL"
  shows "region_ok a sz p n"
proof -
  have a64: "a < 64" using a by simp
  let ?n = "align_up sz (2 ^ a)"
  have ge: "?n \<ge> sz" using a o by (rule sbrk_room)
  have top: "unat ?n + 2 ^ a \<le> 2 ^ 64" by (rule align_up_unat(2)[OF a64 ge])
  define r1 where "r1 = k_sbrk s (k_calls s + 1) ?n"
  define ex where "ex = adjust_of r1 (2 ^ a)"
  define r2 where "r2 = k_sbrk s (k_calls s + 2) ex"
  define r3 where "r3 = k_sbrk s (k_calls s + 3) (?n + 2 ^ a - 1)"
  have con: "k_sbrk s k inc \<noteq> - 1 \<Longrightarrow> unat (k_sbrk s k inc) + unat inc \<le> 2 ^ 47" for k inc
    using c by (simp add: sbrk_contract_def)
  have c1: "r1 \<noteq> - 1 \<Longrightarrow> unat r1 + unat ?n \<le> 2 ^ 47" and c2: "r2 \<noteq> - 1 \<Longrightarrow> unat r2 + unat ex \<le> 2 ^ 47"
    and c3: "r3 \<noteq> - 1 \<Longrightarrow> unat r3 + unat (?n + 2 ^ a - 1) \<le> 2 ^ 47"
    unfolding r1_def r2_def r3_def by (rule con, assumption)+
  consider (1) "r1 AND (2 ^ a - 1) = 0" "r1 \<noteq> - 1" "p = r1" | (2) "r1 \<noteq> - 1" "r2 = r1 + ?n" "p = r1 + ex"
    | (3) "r3 \<noteq> - 1" "p = r3 + adjust_of r3 (2 ^ a)"
    using r p unfolding Sbrk_Alloc_def sys_sbrk_def Let_def prod.case
    by (auto simp: r1_def ex_def r2_def r3_def adjust_of_def numeral_2_eq_2 numeral_3_eq_3 split: if_splits)
  then have "unat p mod 2 ^ a = 0 \<and> unat p + unat ?n \<le> 2 ^ 47"
  proof cases
    case 1
    then show ?thesis using c1 and_mask_mod[of r1 a] by simp
  next
    case 2
    have b1: "unat r1 + unat ?n \<le> 2 ^ 47" using 2(1) by (rule c1)
    then have u2: "unat r2 = unat r1 + unat ?n" unfolding 2(2) by (intro unat_add_lem[THEN iffD1]) simp
    moreover have "unat (- 1 :: uint64) = 2 ^ 64 - 1" by (simp add: unsigned_minus_1_eq_mask mask_eq_exp_minus_1)
    ultimately have "r2 \<noteq> - 1" using b1 by auto
    then have b2: "unat r2 + unat ex \<le> 2 ^ 47" by (rule c2)
    have "unat p = unat r1 + unat ex" unfolding 2(3) using b2 u2 by (intro unat_add_lem[THEN iffD1]) simp
    then show ?thesis using adjusted_aligned[OF a64, of r1] b2 u2 by (simp add: 2(3) ex_def)
  next
    case 3
    have "1 \<le> unat ?n + 2 ^ a" by (simp add: Suc_leI)
    then have "unat (?n + 2 ^ a - 1) = unat ?n + 2 ^ a - 1" using top unat_last_byte[of ?n a] by simp
    then have b3: "unat r3 + unat ?n + 2 ^ a \<le> 2 ^ 47 + 1"
      using c3[OF 3(1)] by simp
    have ad: "unat (adjust_of r3 (2 ^ a)) < 2 ^ a" by (rule adjust_lt[OF a64])
    have "unat p = unat r3 + unat (adjust_of r3 (2 ^ a))" unfolding 3(2) using b3 ad by (intro unat_add_lem[THEN iffD1]) simp
    then show ?thesis using adjusted_aligned[OF a64, of r3] b3 ad by (simp add: 3(2))
  qed
  moreover have "n = ?n" using r p unfolding Sbrk_Alloc_def sys_sbrk_def Let_def prod.case by (auto split: if_splits)
  ultimately show ?thesis using ge by (simp add: region_ok_def word_le_nat_alt)
qed

lemma child_kernel: "same_kernel s (snd (child_Alloc c sz act al type s))"
  by (cases c)
    (simp_all add: same_kernel_def child_Alloc_def Mmap_Alloc_def Sbrk_Alloc_def sys_sbrk_def sys_mmap_def sys_munmap_def Let_def)

lemma child_region:
  assumes "a < 48" and "\<not> sz + 2 ^ a < sz" and "mmap_contract s" and "sbrk_contract s"
    and "child_Alloc c sz act (2 ^ a) type s = ((p, n), s')" and "p \<noteq> NULL"
  shows "region_ok a sz p n"
  using assms mmap_region[of a s sz act type p n s'] sbrk_region[of a sz s act type p n s']
  by (simp add: child_Alloc_def split: sys_child.splits)

lemma Default_loop_region:
  assumes "a < 48" and "\<not> sz + 2 ^ a < sz" and "mmap_contract s" and "sbrk_contract s"
    and "Default_loop i sz act (2 ^ a) s = ((p, n), s')" and "p \<noteq> NULL"
  shows "region_ok a sz p n"
  using assms
proof (induction i sz act "2 ^ a :: uint64" s rule: Default_loop.induct)
  case (1 i sz act s)
  note d = 1(8)[unfolded Default_loop.simps[of i]]
  have i: "i < kMaxAllocators" using d 1(9) by (auto split: if_splits)
  show ?case
  proof (cases "sys_allocs s ! i")
    case None
    then show ?thesis using 1(1)[OF i None 1(4-7) _ 1(9)] d i by simp
  next
    case (Some c)
    show ?thesis
    proof (cases "sys_failed s ! i")
      case True
      then show ?thesis using 1(2)[OF i Some True 1(4-7) _ 1(9)] d i Some by simp
    next
      case False
      obtain q m s2 where q: "child_Alloc c sz act (2 ^ a) 0 s = ((q, m), s2)" by (metis surj_pair)
      have k: "same_kernel s s2" using child_kernel[of s c sz act "2 ^ a" 0] q by simp
      let ?s = "s2\<lparr>sys_failed := (sys_failed s2)[i := True]\<rparr>"
      have k2: "mmap_contract ?s" "sbrk_contract ?s"
        using same_kernel_contracts[of s ?s] k 1(6,7) by (simp_all add: same_kernel_def)
      show ?thesis
      proof (cases "q = NULL")
        case Z: True
        then have "Default_loop (i + 1) sz m (2 ^ a) ?s = ((p, n), s')" using d i Some False q by simp
        then show ?thesis using 1(3)[OF i Some False q[symmetric] refl refl _ 1(4,5) k2 _ 1(9)] Z by simp
      next
        case N: False
        then have "q = p" "m = n" using d i Some False q by simp_all
        then show ?thesis using child_region[OF 1(4-7)] q N by simp
      qed
    qed
  qed
qed

lemma min_alignment: "a < 48 \<Longrightarrow> (if (2 :: uint64) ^ a < sizeof_MemoryAligner then sizeof_MemoryAligner else 2 ^ a) = 2 ^ max a 6"
  using power_strict_increasing_iff[of "2 :: nat" a 6]
  by (auto simp: sizeof_MemoryAligner_def word_less_nat_alt pow2_unat max_def not_less le_less)

lemma region_from_system:
  assumes "a < 48" and "mmap_contract s" and "sbrk_contract s" and "unat sz + 64 \<le> 2 ^ 63"
    and "TCMalloc_SystemAlloc sz act (2 ^ a) type s = Inr ((p, n), s')" and "p \<noteq> NULL"
  shows "region_ok (max a 6) sz p n \<and> SystemTaken s' = SystemTaken s + n"
proof -
  let ?s = "if system_alloc_inited s then s else (InitSystemAllocators s)\<lparr>system_alloc_inited := True\<rparr>"
  obtain q m s2 where q: "Default_Alloc sz act (2 ^ max a 6) type ?s = ((q, m), s2)" by (metis surj_pair)
  have k: "same_kernel s ?s" by (simp add: same_kernel_def InitSystemAllocators_def SetChildAllocator_def Let_def)
  have o: "\<not> sz + 2 ^ a < sz" using assms(5,6) by (auto simp: TCMalloc_SystemAlloc_def)
  have e: "q = p" "m = n" "s' = s2\<lparr>SystemTaken := SystemTaken s2 + n\<rparr>"
    using assms(5,6) o q unfolding TCMalloc_SystemAlloc_def Let_def min_alignment[OF assms(1)]
    by (auto split: if_splits)
  have "\<not> sz + 2 ^ max a 6 < sz"
  proof (cases "6 \<le> a")
    case False
    then have "unat (sz + 2 ^ max a 6) = unat sz + 2 ^ max a 6"
      using assms(4) by (intro unat_add_lem[THEN iffD1, THEN trans]) (simp_all add: max_def)
    then show ?thesis by (simp add: word_less_nat_alt)
  qed (use o in \<open>simp add: max_def\<close>)
  then have "region_ok (max a 6) sz p n"
    using Default_loop_region[of "max a 6" sz ?s 0 act p n s2] assms(1-3,6) same_kernel_contracts[OF k] q e(1,2)
    by (simp add: Default_Alloc_def del: same_kernel_contracts)
  moreover have "SystemTaken ?s = SystemTaken s" by (simp add: InitSystemAllocators_def SetChildAllocator_def Let_def)
  then have "SystemTaken s2 = SystemTaken s"
    using Default_loop_mmaps[of ?s 0 sz act "2 ^ max a 6"] q by (simp add: Default_Alloc_def loop_keeps_def)
  ultimately show ?thesis using e(3) by simp
qed

text \<open>C35: a region that \<open>TCMalloc_SystemAlloc\<close> returns, from either allocator, has the requested alignment (at
  least 64), holds the requested bytes, lies below the top of the user's half of the address space, and its size
  is added to \<open>TCMalloc_SystemTaken\<close>. The kernel keeps the contracts of \<open>mmap\<close> and \<open>sbrk\<close>, and the request
  does not come within 64 bytes of the top of the address space.\<close>

theorem system_alloc_region:
  assumes "a < 48" and "mmap_contract s" and "sbrk_contract s" and "unat sz + 64 \<le> 2 ^ 63"
    and "TCMalloc_SystemAlloc sz act (2 ^ a) type s = Inr ((p, n), s')" and "p \<noteq> NULL"
  shows "region_ok (max a 6) sz p n \<and> SystemTaken s' = SystemTaken s + n"
  using assms by (rule region_from_system)

section \<open>Metadata\<close>

abbreviation chunk_bytes :: "sys_state \<Rightarrow> nat set" where
  "chunk_bytes s \<equiv> bytes_of (metadata_chunk_alloc s) (metadata_chunk_avail s)"

definition chunk_ok :: "sys_state \<Rightarrow> bool" where
  "chunk_ok s \<longleftrightarrow> unat (metadata_chunk_alloc s) + unat (metadata_chunk_avail s) \<le> 2 ^ 47"

text \<open>The negated address, masked, is what is missing to a multiple of eight.\<close>

lemma neg_and_7: "unat ((- p) AND 7 :: uint64) = (8 - unat p mod 8) mod 8"
proof -
  have "unat p < 2 ^ 64" using unsigned_less[of p] by simp
  then have "unat p \<le> 2 ^ 64" by (rule less_imp_le)
  then have "(word_of_nat (2 ^ 64 - unat p) :: uint64) = word_of_nat (2 ^ 64) - word_of_nat (unat p)" by (rule of_nat_diff)
  then have "- p = word_of_nat (2 ^ 64 - unat p)" by simp
  then have "unat (- p) = (2 ^ 64 - unat p) mod 2 ^ 64" by (simp only: unat_of_nat len_bit0 len_num1) simp
  then have "unat (- p) mod 8 = (2 ^ 64 - unat p) mod 8" by (simp add: mod_mod_cancel)
  moreover have "(8 * k - n) mod 8 = (8 - n mod 8) mod (8 :: nat)" if "n \<le> 8 * k" for n k
  proof -
    obtain j where "n + (8 - n mod 8) mod 8 = 8 * j" using adjusted_dvd[of 3 n] by (auto elim: dvdE)
    then have "8 * k - n + 8 * j = 8 * k + (8 - n mod 8) mod 8" using that by simp
    then have "(8 * k - n + 8 * j) mod 8 = (8 * k + (8 - n mod 8) mod 8) mod 8" by (rule arg_cong)
    then show ?thesis by simp
  qed
  from this[of "unat p" "2 ^ 61"] have "(2 ^ 64 - unat p) mod 8 = (8 - unat p mod 8) mod 8" using \<open>unat p \<le> 2 ^ 64\<close> by simp
  ultimately have "unat (- p) mod 8 = (8 - unat p mod 8) mod 8" by simp
  then show ?thesis using and_mask_mod[of "- p" 3] by simp
qed

text \<open>Cutting \<open>al + bytes\<close> off the front of a region.\<close>

lemma cut_front:
  fixes p n al bytes :: uint64
  assumes "unat p + unat n \<le> 2 ^ 47" and "unat al + unat bytes \<le> unat n"
  shows "bytes_of (p + al) bytes \<subseteq> bytes_of p n \<and> bytes_of (p + (bytes + al)) (n - (bytes + al)) \<subseteq> bytes_of p n \<and>
    bytes_of (p + al) bytes \<inter> bytes_of (p + (bytes + al)) (n - (bytes + al)) = {} \<and>
    unat (p + (bytes + al)) + unat (n - (bytes + al)) \<le> 2 ^ 47"
proof -
  have 1: "unat (bytes + al) = unat bytes + unat al" using assms by (intro unat_add_lem[THEN iffD1]) simp
  have 2: "unat (p + al) = unat p + unat al" using assms by (intro unat_add_lem[THEN iffD1]) simp
  have 3: "unat (p + (bytes + al)) = unat p + (unat bytes + unat al)"
    using assms 1 unat_add_lem[of p "bytes + al"] by simp
  have 4: "unat (n - (bytes + al)) = unat n - (unat bytes + unat al)"
    using assms 1 by (simp add: unat_sub word_le_nat_alt)
  show ?thesis using assms by (auto simp: bytes_of_def 2 3 4)
qed

definition block_taken :: "nat set \<Rightarrow> ptr \<Rightarrow> uint64 \<Rightarrow> sys_state \<Rightarrow> bool" where
  "block_taken R rv bytes s' \<longleftrightarrow> unat rv mod 8 = 0 \<and> chunk_ok s' \<and>
     bytes_of rv bytes \<subseteq> R \<and> chunk_bytes s' \<subseteq> R \<and> bytes_of rv bytes \<inter> chunk_bytes s' = {}"

lemma chunk_room:
  assumes "chunk_ok s" and "bytes < kMetadataAllocChunkSize"
    and "\<not> metadata_chunk_avail s < bytes + ((- metadata_chunk_alloc s) AND 7)"
  shows "unat ((- metadata_chunk_alloc s) AND 7) + unat bytes \<le> unat (metadata_chunk_avail s)"
proof -
  have "unat ((- metadata_chunk_alloc s) AND 7) < 8" by (simp add: neg_and_7)
  moreover have "unat bytes < 8388608" using assms(2) by (simp add: kMetadataAllocChunkSize_def word_less_nat_alt)
  ultimately have "unat (bytes + ((- metadata_chunk_alloc s) AND 7)) = unat bytes + unat ((- metadata_chunk_alloc s) AND 7)"
    by (intro unat_add_lem[THEN iffD1]) simp
  then show ?thesis using assms(3) by (simp add: word_less_nat_alt)
qed

text \<open>The blocks of \<open>MetaDataAlloc\<close> do not overlap. A block that it returns for less than 8 MiB is a multiple of
  eight, lies within the current chunk, or within the region just obtained from the system when the chunk was too
  small, and what is left of the chunk does not meet the block.\<close>

theorem metadata_block_taken:
  assumes "chunk_ok s" and "mmap_contract s" and "sbrk_contract s" and "bytes < kMetadataAllocChunkSize"
    and "MetaDataAlloc bytes s = Inr (rv, s')" and "rv \<noteq> NULL"
  shows "if metadata_chunk_avail s < bytes + ((- metadata_chunk_alloc s) AND 7)
    then \<exists>q n s1. TCMalloc_SystemAlloc kMetadataAllocChunkSize 0 kMetadataAllignment DEFAULT_HEAP_TYPE s = Inr ((q, n), s1) \<and>
      block_taken (bytes_of q n) rv bytes s'
    else block_taken (chunk_bytes s) rv bytes s'"
proof -
  let ?al = "(- metadata_chunk_alloc s) AND 7"
  have b: "\<not> kMetadataAllocChunkSize \<le> bytes" using assms(4) by simp
  have k: "kMetadataAllignment - 1 = 7" by (simp add: kMetadataAllignment_def)
  note d = assms(5)[unfolded MetaDataAlloc_def if_not_P[OF b] Let_def k]
  show ?thesis
  proof (cases "metadata_chunk_avail s < bytes + ?al")
    case False
    have rv: "rv = metadata_chunk_alloc s + ?al" and s': "s' = s\<lparr>metadata_chunk_alloc := metadata_chunk_alloc s + (bytes + ?al),
        metadata_chunk_avail := metadata_chunk_avail s - (bytes + ?al), metadata_system_bytes := metadata_system_bytes s + (bytes + ?al)\<rparr>"
      using d False by simp_all
    have c: "unat (metadata_chunk_alloc s) + unat (metadata_chunk_avail s) \<le> 2 ^ 47" using assms(1) by (simp add: chunk_ok_def)
    note r = chunk_room[OF assms(1,4) False]
    have "unat rv = unat (metadata_chunk_alloc s) + unat ?al" unfolding rv using c r by (intro unat_add_lem[THEN iffD1]) simp
    then have "unat rv mod 8 = 0" using adjusted_dvd[of 3 "unat (metadata_chunk_alloc s)"] by (simp add: neg_and_7 mod_eq_0_iff_dvd)
    then show ?thesis using False cut_front[OF c r] unfolding block_taken_def rv s' chunk_ok_def by simp
  next
    case True
    obtain q n s1 where q: "TCMalloc_SystemAlloc kMetadataAllocChunkSize 0 kMetadataAllignment DEFAULT_HEAP_TYPE s = Inr ((q, n), s1)"
      using d True by (cases "TCMalloc_SystemAlloc kMetadataAllocChunkSize 0 kMetadataAllignment DEFAULT_HEAP_TYPE s") auto
    have n: "q \<noteq> NULL" using d True q assms(6) by (auto split: if_splits)
    have rv: "rv = q" and s': "s' = s1\<lparr>metadata_chunk_alloc := q + bytes,
        metadata_chunk_avail := n - bytes, metadata_system_bytes := metadata_system_bytes s1 + bytes\<rparr>"
      using d True q n by auto
    have "region_ok 6 kMetadataAllocChunkSize q n"
      using region_from_system[of 3 s kMetadataAllocChunkSize 0 DEFAULT_HEAP_TYPE q n s1] assms(2,3) q n
      by (simp add: kMetadataAllocChunkSize_def kMetadataAllignment_def)
    then have c: "unat q + unat n \<le> 2 ^ 47" and r: "unat (0 :: uint64) + unat bytes \<le> unat n" and m: "unat q mod 8 = 0"
      using b dvd_mod_less[of 3 6 "unat q"] by (simp_all add: region_ok_def word_le_nat_alt)
    have "block_taken (bytes_of q n) rv bytes s'"
      using m cut_front[OF c r] unfolding block_taken_def rv s' chunk_ok_def by simp
    then show ?thesis using True q by auto
  qed
qed

section \<open>A concrete kernel\<close>

text \<open>A kernel that maps every request of up to a terabyte at \<open>0x100001000\<close> and has no break.\<close>

definition kernel0 :: sys_state where
  "kernel0 = \<lparr>k_mmap = (\<lambda>k len off. if len \<le> 2 ^ 40 then 4294971392 else MAP_FAILED), k_sbrk = (\<lambda>k inc. - 1),
     k_madvise = (\<lambda>k start len. Madv_ok), k_calls = 0, mmaps = [], munmaps = [], FLAGS_malloc_skip_sbrk = False,
     FLAGS_malloc_skip_mmap = False, FLAGS_malloc_devmem_start = 0, FLAGS_malloc_disable_memory_release = False,
     sys_failed = [], sys_allocs = [], system_alloc_inited = False, SystemTaken = 0, metadata_chunk_alloc = 0,
     metadata_chunk_avail = 0, metadata_system_bytes = 0\<rparr>"

lemma kernel0_contracts: "mmap_contract kernel0" "sbrk_contract kernel0" "chunk_ok kernel0"
  by (auto simp: kernel0_def mmap_contract_def sbrk_contract_def chunk_ok_def MAP_FAILED_def word_le_nat_alt)

theorem mmap_alloc_exact_witness:
  "let r = Mmap_Alloc 10000 0 (2 ^ 13) 1 kernel0
   in fst (fst r) = 4294975488 \<and> unat (fst (fst r)) mod 2 ^ 13 = 0 \<and> unat (snd (fst r)) mod 2 ^ 13 = 0 \<and>
     munmaps (snd r) = [(4294971392, 4096)]"
proof -
  let ?r = "Mmap_Alloc 10000 0 (2 ^ 13) 1 kernel0"
  have r: "fst (fst ?r) = 4294975488" "munmaps (snd ?r) = [(4294971392, 4096)]" by code_simp+
  obtain p n s' where e: "?r = ((p, n), s')" by (metis surj_pair)
  have "p \<noteq> NULL" using r e by simp
  from mmap_alloc_exact[OF _ kernel0_contracts(1) e this] show ?thesis using r e by (simp add: Let_def)
qed

abbreviation (input) run_alloc :: "uint64 \<Rightarrow> uint64 \<Rightarrow> int \<Rightarrow> (ptr \<times> uint64) \<times> sys_state" where
  "run_alloc sz al type \<equiv> projr (TCMalloc_SystemAlloc sz 0 al type kernel0)"

theorem system_alloc_region_witness:
  "let r = run_alloc 1048576 (2 ^ 13) 0
   in fst (fst r) = 4294975488 \<and> region_ok 13 1048576 (fst (fst r)) (snd (fst r)) \<and> SystemTaken (snd r) = 1048576"
proof -
  let ?r = "run_alloc 1048576 (2 ^ 13) 0"
  have r: "fst (fst ?r) = 4294975488" "snd (fst ?r) = 1048576" "isl (TCMalloc_SystemAlloc 1048576 0 (2 ^ 13) 0 kernel0) = False"
    by code_simp+
  then obtain p n s' where e: "TCMalloc_SystemAlloc 1048576 0 (2 ^ 13) 0 kernel0 = Inr ((p, n), s')"
    by (cases "TCMalloc_SystemAlloc 1048576 0 (2 ^ 13) 0 kernel0") auto
  have "p \<noteq> NULL" using r e by simp
  from system_alloc_region[OF _ kernel0_contracts(1,2) _ e this] show ?thesis using r e by (simp add: Let_def kernel0_def)
qed

theorem metadata_block_taken_witness:
  "let r = projr (MetaDataAlloc 131072 kernel0)
   in fst r = 4294971392 \<and> unat (fst r) mod 8 = 0 \<and> bytes_of (fst r) 131072 \<inter> chunk_bytes (snd r) = {}"
proof -
  let ?m = "MetaDataAlloc 131072 kernel0"
  have r: "fst (projr ?m) = 4294971392" "isl ?m = False" by code_simp+
  then obtain rv s' where e: "?m = Inr (rv, s')" by (cases ?m) auto
  have "rv \<noteq> NULL" using r e by simp
  have "(131072 :: uint64) < kMetadataAllocChunkSize" by (simp add: kMetadataAllocChunkSize_def)
  from metadata_block_taken[OF kernel0_contracts(3,1,2) this e \<open>rv \<noteq> NULL\<close>] show ?thesis
    using r e by (auto simp: Let_def block_taken_def split: if_splits)
qed

end
