(* ===== verification/Page_Map3.thy ===== *)
theory Page_Map3
  imports NW_Prelude
begin

text \<open>
  The map from page numbers to spans (\<open>pagemap.h\<close>): a radix tree of three levels over 35-bit page
  numbers, as the 64-bit build uses it, and the cache of size classes in front of it
  (\<open>packed-cache-inl.h\<close>). A node is a function to optional subtrees; a node that was not allocated is
  \<open>None\<close>. The allocator of the nodes is the sequence \<open>pm_alloc\<close> of its successes. Page numbers are natural
  numbers, which stay below \<open>2 ^ 51\<close>. The tree is shown to implement a partial function with a search for the
  next entry, and the cache to return only what was stored last.
\<close>

section \<open>The radix tree\<close>

definition BITS :: nat where "BITS = 35"
definition INTERIOR_BITS :: nat where "INTERIOR_BITS = 12"
definition LEAF_BITS :: nat where "LEAF_BITS = 11"

lemmas radix_consts = BITS_def INTERIOR_BITS_def LEAF_BITS_def

type_synonym leaf = "nat \<Rightarrow> ptr"
type_synonym node = "nat \<Rightarrow> leaf option"

record page_map3 =
  pm_root :: "nat \<Rightarrow> node option"
  pm_alloc :: "nat \<Rightarrow> bool"
  pm_allocs :: nat

text \<open>The three indexes of a key.\<close>

definition pm_i1 :: "nat \<Rightarrow> nat" where "pm_i1 k = k div 2 ^ (LEAF_BITS + INTERIOR_BITS)"
definition pm_i2 :: "nat \<Rightarrow> nat" where "pm_i2 k = k div 2 ^ LEAF_BITS mod 2 ^ INTERIOR_BITS"
definition pm_i3 :: "nat \<Rightarrow> nat" where "pm_i3 k = k mod 2 ^ LEAF_BITS"

definition pm_get :: "page_map3 \<Rightarrow> nat \<Rightarrow> ptr" where
  "pm_get t k =
     (if k div 2 ^ BITS > 0 then NULL
      else case pm_root t (pm_i1 k) of
             None \<Rightarrow> NULL
           | Some n \<Rightarrow> (case n (pm_i2 k) of None \<Rightarrow> NULL | Some leaf \<Rightarrow> leaf (pm_i3 k)))"

definition pm_set :: "nat \<Rightarrow> ptr \<Rightarrow> page_map3 \<Rightarrow> page_map3 res" where
  "pm_set k v t =
     (if k div 2 ^ BITS > 0 then Inl OutOfBounds
      else case pm_root t (pm_i1 k) of
             None \<Rightarrow> Inl NullDeref
           | Some n \<Rightarrow>
               (case n (pm_i2 k) of
                  None \<Rightarrow> Inl NullDeref
                | Some leaf \<Rightarrow> Inr (t\<lparr>pm_root := (pm_root t)(pm_i1 k := Some (n(pm_i2 k := Some (leaf(pm_i3 k := v)))))\<rparr>)))"

definition pm_alloc_node :: "page_map3 \<Rightarrow> bool \<times> page_map3" where
  "pm_alloc_node t = (pm_alloc t (pm_allocs t), t\<lparr>pm_allocs := pm_allocs t + 1\<rparr>)"

text \<open>One turn of the loop of \<open>Ensure\<close>: the node and the leaf of a key.\<close>

definition ensure_node :: "nat \<Rightarrow> page_map3 \<Rightarrow> bool \<times> page_map3" where
  "ensure_node k t =
     (case pm_root t (pm_i1 k) of
        Some _ \<Rightarrow> (True, t)
      | None \<Rightarrow>
          let (ok, t) = pm_alloc_node t
          in if ok then (True, t\<lparr>pm_root := (pm_root t)(pm_i1 k := Some (\<lambda>_. None))\<rparr>) else (False, t))"

definition ensure_leaf :: "nat \<Rightarrow> page_map3 \<Rightarrow> bool \<times> page_map3" where
  "ensure_leaf k t =
     (case pm_root t (pm_i1 k) of
        None \<Rightarrow> (False, t)
      | Some n \<Rightarrow>
          (case n (pm_i2 k) of
             Some _ \<Rightarrow> (True, t)
           | None \<Rightarrow>
               let (ok, t) = pm_alloc_node t
               in if ok then (True, t\<lparr>pm_root := (pm_root t)(pm_i1 k := Some (n(pm_i2 k := Some (\<lambda>_. NULL))))\<rparr>)
                  else (False, t)))"

definition next_leaf :: "nat \<Rightarrow> nat" where
  "next_leaf k = (k div 2 ^ LEAF_BITS + 1) * 2 ^ LEAF_BITS"

lemma next_leaf_gt: "k < next_leaf k"
  using dividend_less_div_times[of "2 ^ LEAF_BITS" k] by (simp add: next_leaf_def)

text \<open>The loop runs while \<open>key <= start + n - 1\<close>, computed in 64 bits; \<open>final\<close> is that bound.\<close>

function ensure_loop :: "nat \<Rightarrow> nat \<Rightarrow> page_map3 \<Rightarrow> bool \<times> page_map3" where
  "ensure_loop key final t =
     (if key \<le> final
      then
        if pm_i1 key \<ge> 2 ^ INTERIOR_BITS \<or> pm_i2 key \<ge> 2 ^ INTERIOR_BITS then (False, t)
        else
          let (ok, t) = ensure_node key t
          in if \<not> ok then (False, t)
             else
               let (ok, t) = ensure_leaf key t
               in if \<not> ok then (False, t) else ensure_loop (next_leaf key) final t
      else (True, t))"
  by auto
termination
  by (relation "measure (\<lambda>(key, final, t). Suc final - key)") (use next_leaf_gt in \<open>auto intro: diff_less_mono2\<close>)

declare ensure_loop.simps [simp del]

definition pm_Ensure :: "nat \<Rightarrow> nat \<Rightarrow> page_map3 \<Rightarrow> bool \<times> page_map3" where
  "pm_Ensure start n t = ensure_loop start ((start + n + 2 ^ 64 - 1) mod 2 ^ 64) t"

definition next_top :: "nat \<Rightarrow> nat" where
  "next_top k = (pm_i1 k + 1) * 2 ^ (LEAF_BITS + INTERIOR_BITS)"

lemma next_top_gt: "k < next_top k"
  using dividend_less_div_times[of "2 ^ (LEAF_BITS + INTERIOR_BITS)" k] by (simp add: next_top_def pm_i1_def)

function pm_Next :: "page_map3 \<Rightarrow> nat \<Rightarrow> ptr" where
  "pm_Next t k =
     (if k < 2 ^ BITS
      then
        case pm_root t (pm_i1 k) of
          None \<Rightarrow> pm_Next t (next_top k)
        | Some n \<Rightarrow>
            (case n (pm_i2 k) of
               None \<Rightarrow> pm_Next t (next_leaf k)
             | Some leaf \<Rightarrow>
                 (case List.find (\<lambda>i3. leaf i3 \<noteq> NULL) [pm_i3 k..<2 ^ LEAF_BITS] of
                    Some i3 \<Rightarrow> leaf i3
                  | None \<Rightarrow> pm_Next t (next_leaf k)))
      else NULL)"
  by auto
termination
  by (relation "measure (\<lambda>(t, k). 2 ^ BITS - k)") (use next_leaf_gt next_top_gt in \<open>auto intro: diff_less_mono2\<close>)

declare pm_Next.simps [simp del]

section \<open>The cache of size classes\<close>

text \<open>
  Keys of 35 bits and values of 7 fit into 64 bits, so the entries hold whole keys
  (\<open>kUseWholeKeys\<close>). The array is a function of the low 16 bits of the key.
\<close>

definition kHashbits :: nat where "kHashbits = 16"
definition kValuebits :: nat where "kValuebits = 7"

type_synonym packed_cache = "nat \<Rightarrow> uint64"

definition pc_Hash :: "nat \<Rightarrow> nat" where "pc_Hash key = key mod 2 ^ kHashbits"
definition KeyToUpper :: "nat \<Rightarrow> uint64" where "KeyToUpper k = push_bit kValuebits (word_of_nat k)"
definition EntryToValue :: "uint64 \<Rightarrow> nat" where "EntryToValue e = unat (take_bit kValuebits e)"
definition KeyMatch :: "uint64 \<Rightarrow> nat \<Rightarrow> bool" where "KeyMatch e key \<longleftrightarrow> drop_bit kValuebits e = word_of_nat key"

definition pc_Clear :: "nat \<Rightarrow> packed_cache" where
  "pc_Clear v = (\<lambda>i. word_of_nat v OR KeyToUpper i)"

definition pc_Put :: "nat \<Rightarrow> nat \<Rightarrow> packed_cache \<Rightarrow> packed_cache" where
  "pc_Put key v c = c(pc_Hash key := KeyToUpper key OR word_of_nat v)"

definition pc_Has :: "nat \<Rightarrow> packed_cache \<Rightarrow> bool" where
  "pc_Has key c \<longleftrightarrow> KeyMatch (c (pc_Hash key)) key"

definition pc_GetOrDefault :: "nat \<Rightarrow> nat \<Rightarrow> packed_cache \<Rightarrow> nat" where
  "pc_GetOrDefault key d c = (let entry = c (pc_Hash key) in if KeyMatch entry key then EntryToValue entry else d)"

section \<open>The tree implements a map\<close>

text \<open>A key has been ensured when its leaf exists.\<close>

definition ensured :: "page_map3 \<Rightarrow> nat \<Rightarrow> bool" where
  "ensured t k \<longleftrightarrow> k < 2 ^ BITS \<and> (\<exists>n leaf. pm_root t (pm_i1 k) = Some n \<and> n (pm_i2 k) = Some leaf)"

lemma pm_i1_leaf: "pm_i1 k = k div 2 ^ LEAF_BITS div 2 ^ INTERIOR_BITS"
  by (simp add: pm_i1_def power_add div_mult2_eq)

lemma leaf_of_indexes: "k div 2 ^ LEAF_BITS = pm_i1 k * 2 ^ INTERIOR_BITS + pm_i2 k"
  unfolding pm_i1_leaf pm_i2_def by (rule div_mult_mod_eq[symmetric])

lemma indexes_inject: "pm_i1 k = pm_i1 j \<Longrightarrow> pm_i2 k = pm_i2 j \<Longrightarrow> pm_i3 k = pm_i3 j \<Longrightarrow> k = j"
  using leaf_of_indexes[of k] leaf_of_indexes[of j] div_mult_mod_eq[of k "2 ^ LEAF_BITS"] div_mult_mod_eq[of j "2 ^ LEAF_BITS"]
  by (simp add: pm_i3_def)

lemma same_leaf: "pm_i1 k = pm_i1 j \<and> pm_i2 k = pm_i2 j \<longleftrightarrow> k div 2 ^ LEAF_BITS = j div 2 ^ LEAF_BITS"
  using leaf_of_indexes by (metis pm_i1_leaf pm_i2_def)

lemma pm_set_ok:
  assumes "ensured t k"
  obtains t' where "pm_set k v t = Inr t'" "\<And>j. pm_get t' j = (if j = k then v else pm_get t j)" "\<And>j. ensured t' j = ensured t j"
proof -
  obtain n leaf where n: "k < 2 ^ BITS" "pm_root t (pm_i1 k) = Some n" "n (pm_i2 k) = Some leaf"
    using assms by (auto simp: ensured_def)
  let ?t = "t\<lparr>pm_root := (pm_root t)(pm_i1 k := Some (n(pm_i2 k := Some (leaf(pm_i3 k := v)))))\<rparr>"
  have "pm_set k v t = Inr ?t" using n by (simp add: pm_set_def)
  moreover have "pm_get ?t j = (if j = k then v else pm_get t j)" for j
    using n indexes_inject[of j k] by (auto simp: pm_get_def)
  moreover have "ensured ?t j = ensured t j" for j using n by (auto simp: ensured_def)
  ultimately show thesis by (rule that)
qed

lemma ensure_node_ok:
  assumes "ensure_node k t = (b, t')"
  shows "pm_get t' j = pm_get t j" "ensured t j \<Longrightarrow> ensured t' j" "b \<Longrightarrow> pm_root t' (pm_i1 k) \<noteq> None"
  using assms
  by (auto simp: ensure_node_def pm_alloc_node_def pm_get_def ensured_def Let_def split: option.splits if_splits)

lemma ensure_leaf_ok:
  assumes "ensure_leaf k t = (b, t')"
  shows "pm_get t' j = pm_get t j" "ensured t j \<Longrightarrow> ensured t' j" "b \<Longrightarrow> k < 2 ^ BITS \<Longrightarrow> ensured t' k"
proof -
  show "pm_get t' j = pm_get t j" "ensured t j \<Longrightarrow> ensured t' j"
    using assms
    by (auto simp: ensure_leaf_def pm_alloc_node_def pm_get_def ensured_def Let_def split: option.splits if_splits)
  show "ensured t' k" if "b" "k < 2 ^ BITS"
    using assms that
    by (auto simp: ensure_leaf_def pm_alloc_node_def ensured_def Let_def split: option.splits if_splits)
qed

lemma next_leaf_between:
  assumes "k \<le> j" and "j < next_leaf k"
  shows "j div 2 ^ LEAF_BITS = k div 2 ^ LEAF_BITS"
proof -
  have "k div 2 ^ LEAF_BITS \<le> j div 2 ^ LEAF_BITS" using assms(1) by (rule div_le_mono)
  moreover have "j div 2 ^ LEAF_BITS < k div 2 ^ LEAF_BITS + 1"
    using assms(2) by (intro less_mult_imp_div_less) (simp add: next_leaf_def)
  ultimately show ?thesis by simp
qed

lemma ensured_same_leaf:
  assumes "ensured t k" and "j div 2 ^ LEAF_BITS = k div 2 ^ LEAF_BITS"
  shows "ensured t j"
proof -
  have i: "pm_i1 j = pm_i1 k" "pm_i2 j = pm_i2 k" using assms(2) same_leaf by blast+
  have "j div 2 ^ BITS = 0"
  proof -
    have "x div 2 ^ BITS = x div 2 ^ LEAF_BITS div 2 ^ 24" for x :: nat by (simp add: div_mult2_eq[symmetric] radix_consts)
    then have "j div 2 ^ BITS = k div 2 ^ BITS" using assms(2) by simp
    then show ?thesis using assms(1) by (simp add: ensured_def)
  qed
  then have "j < 2 ^ BITS" by (simp add: div_eq_0_iff)
  then show ?thesis using assms(1) i by (simp add: ensured_def)
qed

lemma ensure_loop_ok:
  assumes "ensure_loop key final t = (b, t')" and "final < 2 ^ BITS"
  shows "(\<forall>j. pm_get t' j = pm_get t j) \<and> (\<forall>j. ensured t j \<longrightarrow> ensured t' j) \<and>
    (b \<longrightarrow> (\<forall>j. key \<le> j \<and> j \<le> final \<longrightarrow> ensured t' j))"
  using assms
proof (induction key final t arbitrary: b t' rule: ensure_loop.induct)
  case (1 key final t)
  show ?case
  proof (cases "key \<le> final \<and> \<not> (pm_i1 key \<ge> 2 ^ INTERIOR_BITS \<or> pm_i2 key \<ge> 2 ^ INTERIOR_BITS)")
    case False
    then show ?thesis using 1(2) by (subst (asm) ensure_loop.simps) (auto split: if_splits)
  next
    case True
    obtain b1 t1 where n: "ensure_node key t = (b1, t1)" by fastforce
    obtain b2 t2 where l: "ensure_leaf key t1 = (b2, t2)" by fastforce
    have r: "(if b1 then if b2 then ensure_loop (next_leaf key) final t2 else (False, t2) else (False, t1)) = (b, t')"
      using 1(2) True n l by (subst (asm) ensure_loop.simps) (auto simp: Let_def split: if_splits)
    note nn = ensure_node_ok[OF n] and ll = ensure_leaf_ok[OF l]
    show ?thesis
    proof (cases "b1 \<and> b2")
      case False
      then show ?thesis using r nn(1,2) ll(1,2) by (auto split: if_splits)
    next
      case T: True
      then have e: "ensure_loop (next_leaf key) final t2 = (b, t')" using r by simp
      have IH: "(\<forall>j. pm_get t' j = pm_get t2 j) \<and> (\<forall>j. ensured t2 j \<longrightarrow> ensured t' j) \<and>
          (b \<longrightarrow> (\<forall>j. next_leaf key \<le> j \<and> j \<le> final \<longrightarrow> ensured t' j))"
        using 1(1)[OF _ _ n[symmetric] refl _ l[symmetric] refl _ e 1(3)] True T by auto
      have "ensured t2 j" if "key \<le> j" "j < next_leaf key" for j
        using ensured_same_leaf[OF ll(3)] next_leaf_between[OF that] T True 1(3) by simp
      then have "b \<longrightarrow> (\<forall>j. key \<le> j \<and> j \<le> final \<longrightarrow> ensured t' j)" using IH by (metis not_le)
      then show ?thesis using IH nn(1,2) ll(1,2) by auto
    qed
  qed
qed

lemma Ensure_last: "0 < n \<Longrightarrow> start + n \<le> 2 ^ BITS \<Longrightarrow> pm_Ensure start n t = ensure_loop start (start + n - 1) t"
  by (cases n) (simp_all add: pm_Ensure_def BITS_def)

lemma Ensure_ok:
  assumes "pm_Ensure start n t = (b, t')" and "0 < n" and "start + n \<le> 2 ^ BITS"
  shows "(\<forall>j. pm_get t' j = pm_get t j) \<and> (\<forall>j. ensured t j \<longrightarrow> ensured t' j) \<and>
    (b \<longrightarrow> (\<forall>j. start \<le> j \<and> j < start + n \<longrightarrow> ensured t' j))"
proof -
  have "start + n - 1 < 2 ^ BITS" using assms(2,3) by simp
  from ensure_loop_ok[OF assms(1)[unfolded Ensure_last[OF assms(2,3)]] this] show ?thesis using assms(2) by auto
qed

text \<open>The search for the next entry.\<close>

lemma no_entry_in_leaf:
  assumes "k \<le> j" and "j < next_leaf k" and "k < 2 ^ BITS"
    and "pm_root t (pm_i1 k) = None \<or> (\<exists>n. pm_root t (pm_i1 k) = Some n \<and>
      (n (pm_i2 k) = None \<or> (\<exists>leaf. n (pm_i2 k) = Some leaf \<and> List.find (\<lambda>i. leaf i \<noteq> NULL) [pm_i3 k..<2 ^ LEAF_BITS] = None)))"
  shows "pm_get t j = NULL"
proof -
  have d: "j div 2 ^ LEAF_BITS = k div 2 ^ LEAF_BITS" by (rule next_leaf_between[OF assms(1,2)])
  then have i: "pm_i1 j = pm_i1 k" "pm_i2 j = pm_i2 k" using same_leaf by blast+
  have "pm_i3 k \<le> pm_i3 j"
    using d assms(1) div_mult_mod_eq[of k "2 ^ LEAF_BITS"] div_mult_mod_eq[of j "2 ^ LEAF_BITS"] by (simp add: pm_i3_def)
  moreover have "pm_i3 j < 2 ^ LEAF_BITS" by (simp add: pm_i3_def)
  ultimately show ?thesis using assms(4) i by (auto simp: pm_get_def find_None_upt)
qed

lemma pm_Next_spec:
  "(\<exists>j. k \<le> j \<and> pm_get t j \<noteq> NULL \<and> pm_Next t k = pm_get t j \<and> (\<forall>i. k \<le> i \<and> i < j \<longrightarrow> pm_get t i = NULL)) \<or>
   pm_Next t k = NULL \<and> (\<forall>j. k \<le> j \<longrightarrow> pm_get t j = NULL)"
proof (induction t k rule: pm_Next.induct)
  case (1 t k)
  have skip: ?case if "pm_Next t k = pm_Next t k'" "k \<le> k'" "\<And>j. k \<le> j \<Longrightarrow> j < k' \<Longrightarrow> pm_get t j = NULL"
      "(\<exists>j. k' \<le> j \<and> pm_get t j \<noteq> NULL \<and> pm_Next t k' = pm_get t j \<and> (\<forall>i. k' \<le> i \<and> i < j \<longrightarrow> pm_get t i = NULL)) \<or>
        pm_Next t k' = NULL \<and> (\<forall>j. k' \<le> j \<longrightarrow> pm_get t j = NULL)" for k'
  proof -
    have "pm_get t i = NULL" if "k \<le> i" "\<not> k' \<le> i" for i using that \<open>\<And>j. k \<le> j \<Longrightarrow> j < k' \<Longrightarrow> pm_get t j = NULL\<close> by simp
    then show ?thesis using that(1,2,4) by (metis order_trans)
  qed
  show ?case
  proof (cases "k < 2 ^ BITS")
    case False
    then have "pm_Next t k = NULL" by (subst pm_Next.simps) simp
    moreover have "pm_get t j = NULL" if "k \<le> j" for j using that False by (simp add: pm_get_def div_greater_zero_iff)
    ultimately show ?thesis by simp
  next
    case k: True
    show ?thesis
    proof (cases "pm_root t (pm_i1 k)")
      case None
      have "pm_get t j = NULL" if "k \<le> j" "j < next_top k" for j
      proof -
        have "pm_i1 k \<le> pm_i1 j" unfolding pm_i1_def using that(1) by (rule div_le_mono)
        moreover have "pm_i1 j < pm_i1 k + 1"
          unfolding pm_i1_def[of j] using that(2) by (intro less_mult_imp_div_less) (simp add: next_top_def)
        ultimately have "pm_i1 j = pm_i1 k" by simp
        then show ?thesis using None by (simp add: pm_get_def)
      qed
      then show ?thesis
        using None k "1.IH"(1)[OF k None] next_top_gt[of k]
        by (intro skip[of "next_top k"]) (subst pm_Next.simps, simp_all)
    next
      case (Some n)
      show ?thesis
      proof (cases "n (pm_i2 k)")
        case None
        then have "pm_get t j = NULL" if "k \<le> j" "j < next_leaf k" for j
          using no_entry_in_leaf[OF that k] Some by simp
        then show ?thesis
          using None Some k "1.IH"(2)[OF k Some None] next_leaf_gt[of k]
          by (intro skip[of "next_leaf k"]) (subst pm_Next.simps, simp_all)
      next
        case leaf: (Some leaf)
        show ?thesis
        proof (cases "List.find (\<lambda>i3. leaf i3 \<noteq> NULL) [pm_i3 k..<2 ^ LEAF_BITS]")
          case None
          then have "pm_get t j = NULL" if "k \<le> j" "j < next_leaf k" for j
            using no_entry_in_leaf[OF that k] Some leaf by simp
          then show ?thesis
            using None Some leaf k "1.IH"(3)[OF k Some leaf None] next_leaf_gt[of k]
            by (intro skip[of "next_leaf k"]) (subst pm_Next.simps, simp_all)
        next
          case (Some i3)
          then have i3: "pm_i3 k \<le> i3" "i3 < 2 ^ LEAF_BITS" "leaf i3 \<noteq> NULL" "\<And>i. pm_i3 k \<le> i \<Longrightarrow> i < i3 \<Longrightarrow> leaf i = NULL"
            by (auto simp: find_Some_least)
          define j where "j = k div 2 ^ LEAF_BITS * 2 ^ LEAF_BITS + i3"
          have j: "j div 2 ^ LEAF_BITS = k div 2 ^ LEAF_BITS" "pm_i3 j = i3" using i3(2) by (simp_all add: j_def pm_i3_def)
          have le: "k \<le> j" using i3(1) div_mult_mod_eq[of k "2 ^ LEAF_BITS"] by (simp add: j_def pm_i3_def)
          have get: "pm_get t i = leaf (pm_i3 i)" if "i div 2 ^ LEAF_BITS = k div 2 ^ LEAF_BITS" for i
          proof -
            have "ensured t k" using k \<open>pm_root t (pm_i1 k) = Some n\<close> leaf by (simp add: ensured_def)
            from ensured_same_leaf[OF this that] have "i < 2 ^ BITS" by (simp add: ensured_def)
            then show ?thesis using that same_leaf[of i k] \<open>pm_root t (pm_i1 k) = Some n\<close> leaf by (simp add: pm_get_def)
          qed
          have "pm_get t i = NULL" if i: "k \<le> i" "i < j" for i
          proof -
            have d: "i div 2 ^ LEAF_BITS = k div 2 ^ LEAF_BITS"
              using div_le_mono[OF i(1), of "2 ^ LEAF_BITS"] div_le_mono[of i j "2 ^ LEAF_BITS"] i(2) j(1) by simp
            have "pm_i3 k \<le> pm_i3 i" "pm_i3 i < i3"
              using d i div_mult_mod_eq[of k "2 ^ LEAF_BITS"] div_mult_mod_eq[of i "2 ^ LEAF_BITS"] by (simp_all add: pm_i3_def j_def)
            then show ?thesis using get[OF d] i3(4) by simp
          qed
          moreover have "pm_Next t k = leaf i3"
            using k \<open>pm_root t (pm_i1 k) = Some n\<close> leaf Some by (subst pm_Next.simps) simp
          ultimately show ?thesis using get[OF j(1)] j(2) le i3(3) by auto
        qed
      qed
    qed
  qed
qed

text \<open>C32: the radix tree is a map. When \<open>Ensure\<close> succeeds on a range of page numbers it has changed no entry
  and every page of the range can be stored to; a store changes the entry of its key and no other; and
  \<open>Next\<close> returns the first entry at or after its argument, or null when there is none.\<close>

theorem page_map_radix_correct:
  assumes "pm_Ensure start n t = (True, t')" and "start + n \<le> 2 ^ BITS" and "start \<le> k" and "k < start + n"
  shows "\<exists>u. pm_set k v t' = Inr u \<and> (\<forall>j. pm_get u j = (if j = k then v else pm_get t j)) \<and>
    (\<forall>i. (\<exists>j. i \<le> j \<and> pm_get u j \<noteq> NULL \<and> pm_Next u i = pm_get u j \<and> (\<forall>l. i \<le> l \<and> l < j \<longrightarrow> pm_get u l = NULL)) \<or>
         pm_Next u i = NULL \<and> (\<forall>j. i \<le> j \<longrightarrow> pm_get u j = NULL))"
proof -
  have "0 < n" using assms(3,4) by simp
  note e = Ensure_ok[OF assms(1) this assms(2)]
  then have "ensured t' k" using assms(3,4) by blast
  from pm_set_ok[OF this, of v] obtain u where
    "pm_set k v t' = Inr u" "\<And>j. pm_get u j = (if j = k then v else pm_get t' j)" by metis
  then show ?thesis using e pm_Next_spec by auto
qed

definition empty_pagemap :: page_map3 where
  "empty_pagemap = \<lparr>pm_root = \<lambda>_. None, pm_alloc = \<lambda>_. True, pm_allocs = 0\<rparr>"

theorem page_map_radix_correct_witness:
  "\<exists>t' u. pm_Ensure 2047 2 empty_pagemap = (True, t') \<and> pm_set 2048 64 t' = Inr u \<and>
     (\<forall>j. pm_get u j = (if j = 2048 then 64 else pm_get empty_pagemap j)) \<and> pm_get u 2048 = 64"
proof -
  have i: "pm_i1 2047 = 0" "pm_i2 2047 = 0" "pm_i1 2048 = 0" "pm_i2 2048 = 1" "next_leaf 2047 = 2048" "next_leaf 2048 = 4096"
    by (simp_all add: pm_i1_def pm_i2_def next_leaf_def radix_consts)
  have "\<exists>t'. pm_Ensure 2047 2 empty_pagemap = (True, t')"
    by (simp add: pm_Ensure_def ensure_loop.simps[of 2047] ensure_loop.simps[of 2048] ensure_loop.simps[of 4096] i ensure_node_def
        ensure_leaf_def pm_alloc_node_def empty_pagemap_def INTERIOR_BITS_def)
  then obtain t' where t': "pm_Ensure 2047 2 empty_pagemap = (True, t')" by blast
  have b: "(2047 :: nat) + 2 \<le> 2 ^ BITS" by (simp add: BITS_def)
  obtain u where "pm_set 2048 64 t' = Inr u" "\<forall>j. pm_get u j = (if j = 2048 then 64 else pm_get empty_pagemap j)"
    using page_map_radix_correct[OF t' b, of 2048 64] by auto
  then show ?thesis using t' by auto
qed

section \<open>The cache returns what was stored\<close>

lemma entry_nat:
  assumes "v < 2 ^ kValuebits"
  shows "KeyToUpper k OR word_of_nat v = (word_of_nat (k * 2 ^ kValuebits + v) :: uint64)"
proof -
  have "\<not> bit v n" if "kValuebits \<le> n" for n
    using assms that bit_take_bit_iff[of kValuebits v n] by (simp add: take_bit_nat_eq_self)
  then have "push_bit kValuebits k AND v = 0" by (intro bit_eqI) (auto simp: bit_simps not_less)
  then have "push_bit kValuebits k OR v = k * 2 ^ kValuebits + v"
    using disjunctive_add_eq_or[of "push_bit kValuebits k" v] by (simp add: push_bit_eq_mult)
  then have "(word_of_nat (push_bit kValuebits k OR v) :: uint64) = word_of_nat (k * 2 ^ kValuebits + v)" by simp
  then show ?thesis by (simp add: of_nat_or_eq KeyToUpper_def push_bit_of_nat)
qed

lemma entry_parts:
  assumes "k < 2 ^ BITS" and "v < 2 ^ kValuebits"
  shows "drop_bit kValuebits (KeyToUpper k OR word_of_nat v) = word_of_nat k"
    and "EntryToValue (KeyToUpper k OR word_of_nat v) = v"
proof -
  have u: "unat (word_of_nat (k * 128 + v) :: uint64) = k * 128 + v"
    by (subst unat_of_nat) (use assms in \<open>simp add: kValuebits_def BITS_def\<close>)
  have k: "unat (word_of_nat k :: uint64) = k" using assms(1) by (simp add: unat_of_nat BITS_def)
  have "unat (drop_bit kValuebits (word_of_nat (k * 128 + v) :: uint64)) = unat (word_of_nat k :: uint64)"
    unfolding unat_drop_bit_eq u k using assms(2) by (simp add: kValuebits_def drop_bit_eq_div)
  then show "drop_bit kValuebits (KeyToUpper k OR word_of_nat v) = word_of_nat k"
    unfolding entry_nat[OF assms(2)] by (simp add: kValuebits_def word_unat_eq_iff)
  show "EntryToValue (KeyToUpper k OR word_of_nat v) = v"
    unfolding entry_nat[OF assms(2)] EntryToValue_def
    unfolding unsigned_take_bit_eq using u assms(2) by (simp add: kValuebits_def take_bit_eq_mod)
qed

lemma KeyMatch_iff:
  assumes "k < 2 ^ BITS" and "j < 2 ^ BITS" and "v < 2 ^ kValuebits"
  shows "KeyMatch (KeyToUpper k OR word_of_nat v) j \<longleftrightarrow> j = k"
proof -
  have "unat (word_of_nat k :: uint64) = k" "unat (word_of_nat j :: uint64) = j"
    using assms(1,2) by (simp_all add: unat_of_nat BITS_def)
  then show ?thesis using entry_parts(1)[OF assms(1,3)] by (metis KeyMatch_def)
qed

text \<open>C33: the cache of size classes never lies. After a value has been stored for a page, a lookup of the page
  returns it; a lookup of another page returns what it returned before, or the default when the two pages
  share the slot.\<close>

theorem packed_cache_correct:
  assumes "k < 2 ^ BITS" and "j < 2 ^ BITS" and "v < 2 ^ kValuebits"
  shows "pc_GetOrDefault j d (pc_Put k v c) =
    (if j = k then v else if pc_Hash j = pc_Hash k then d else pc_GetOrDefault j d c)"
  using KeyMatch_iff[OF assms] entry_parts(2)[OF assms(1,3)]
  by (auto simp: pc_GetOrDefault_def pc_Put_def Let_def)

theorem packed_cache_correct_witness:
  "pc_GetOrDefault 70000 0 (pc_Put 70000 33 (pc_Clear 0)) = 33 \<and> pc_GetOrDefault 4464 9 (pc_Put 70000 33 (pc_Clear 0)) = 9"
  using packed_cache_correct[of 70000 70000 33 0 "pc_Clear 0"] packed_cache_correct[of 70000 4464 33 9 "pc_Clear 0"]
  by (simp add: BITS_def kValuebits_def pc_Hash_def kHashbits_def)

end
