(* ===== verification/Size_Map.thy ===== *)
theory Size_Map
  imports NW_Prelude
begin

text \<open>
  The size classes of tcmalloc (\<open>common.h\<close>, \<open>common.cc\<close>): how a request is rounded to a class, and the
  construction of the tables. Sizes are integers far below \<open>2 ^ 31\<close>; \<open>ClassIndex\<close> computes in
  \<open>uint32_t\<close>. The environment variable that limits the transfers is the argument \<open>transfer_num\<close>
  (32768 when it is not set). \<open>CHECK_CONDITION\<close> and \<open>Log(kCrash)\<close> end the process: \<open>AssertFail\<close>. The
  build has 8 KiB pages and a minimal alignment of 16.
\<close>

section \<open>Constants\<close>

definition kMinAlign :: int where "kMinAlign = 16"
definition kPageShift :: nat where "kPageShift = 13"
definition kNumClasses :: int where "kNumClasses = 88"
definition kPageSize :: int where "kPageSize = 8192"
definition kMaxSizeInt :: int where "kMaxSizeInt = 262144"
definition kAlignment :: int where "kAlignment = 8"
definition kMaxSmallSize :: int where "kMaxSmallSize = 1024"
definition kClassArraySize :: int where "kClassArraySize = (kMaxSizeInt + 127 + 15360) div 128 + 1"
definition kDefaultTransferNumObjecs :: int where "kDefaultTransferNumObjecs = 32768"

lemmas size_consts = kMinAlign_def kPageShift_def kNumClasses_def kPageSize_def kMaxSizeInt_def kAlignment_def
  kMaxSmallSize_def kClassArraySize_def kDefaultTransferNumObjecs_def

text \<open>Bytes to pages, rounding up.\<close>

definition pages :: "int \<Rightarrow> int" where
  "pages bytes = bytes div kPageSize + (if bytes mod kPageSize > 0 then 1 else 0)"

section \<open>Alignment\<close>

text \<open>The loop of \<open>LgFloor\<close> for \<open>i = 4, ..., 0\<close>.\<close>

primrec lg_loop :: "nat \<Rightarrow> int \<Rightarrow> int \<Rightarrow> int" where
  "lg_loop 0 n log = log"
| "lg_loop (Suc i) n log =
     (let shift = 2 ^ i;
          x = n div 2 ^ shift
      in if x \<noteq> 0 then lg_loop i x (log + int shift) else lg_loop i n log)"

definition LgFloor :: "int \<Rightarrow> int" where
  "LgFloor n = lg_loop 5 n 0"

definition AlignmentForSize :: "int \<Rightarrow> int res" where
  "AlignmentForSize sz =
     (let alignment =
        (if sz > kMaxSizeInt then kPageSize
         else if sz \<ge> 128 then 2 ^ nat (LgFloor sz) div 8
         else if sz \<ge> kMinAlign then kMinAlign
         else kAlignment);
          alignment = (if alignment > kPageSize then kPageSize else alignment)
      in if (sz < kMinAlign \<or> alignment \<ge> kMinAlign) \<and> alignment AND (alignment - 1) = 0
         then Inr alignment else Inl AssertFail)"

text \<open>The quotient is computed in double precision and truncated, which is exact for these sizes.\<close>

definition NumMoveSize :: "int \<Rightarrow> int \<Rightarrow> int" where
  "NumMoveSize transfer_num sz =
     (if sz = 0 then 0
      else
        let num = 65536 div sz;
            num = (if num < 2 then 2 else num)
        in if num > transfer_num then transfer_num else num)"

section \<open>Construction of the tables\<close>

record size_map =
  class_array :: "int list"
  class_to_size :: "int list"
  class_to_pages :: "int list"
  num_objects_to_move :: "int list"

definition ClassIndex :: "int \<Rightarrow> int" where
  "ClassIndex s =
     (if s \<le> kMaxSmallSize then (s mod 2 ^ 32 + 7) mod 2 ^ 32 div 8
      else (s mod 2 ^ 32 + 127 + 15360) mod 2 ^ 32 div 128)"

definition SizeClass :: "size_map \<Rightarrow> int \<Rightarrow> int res" where
  "SizeClass m sz = rd (class_array m) (ClassIndex sz)"

text \<open>The loops that choose the pages of a span: leftover below an eighth, and enough objects.\<close>

function pad_pages :: "int \<Rightarrow> int \<Rightarrow> int" where
  "pad_pages sz psize =
     (if 0 < sz \<and> 0 \<le> psize \<and> psize mod sz > psize div 8 then pad_pages sz (psize + kPageSize) else psize)"
  by auto
termination
proof (relation "measure (\<lambda>(sz, psize). nat (8 * sz - psize))", simp, goal_cases)
  case (1 sz psize)
  have "psize mod sz < sz" using 1 by simp
  then have "psize div 8 < sz" using 1 by linarith
  then have "psize < 8 * sz" by linarith
  then show ?case by (simp add: kPageSize_def)
qed

declare pad_pages.simps [simp del]

function span_bytes :: "int \<Rightarrow> int \<Rightarrow> int \<Rightarrow> int" where
  "span_bytes sz blocks psize =
     (let psize' = pad_pages sz (psize + kPageSize)
      in if 0 < sz \<and> 0 \<le> psize \<and> psize' div sz < blocks then span_bytes sz blocks psize' else psize')"
  by auto

lemma pad_pages_ge: "psize \<le> pad_pages sz psize"
proof (induction sz psize rule: pad_pages.induct)
  case (1 sz psize)
  then show ?case by (subst pad_pages.simps) (auto simp: kPageSize_def)
qed

termination span_bytes
proof (relation "measure (\<lambda>(sz, blocks, psize). nat (blocks * sz - psize))", simp, goal_cases)
  case (1 sz blocks psize x)
  have "psize + kPageSize \<le> x" using 1(1) pad_pages_ge by simp
  moreover have "x < blocks * sz"
  proof (rule ccontr)
    assume "\<not> x < blocks * sz"
    then have "blocks * sz div sz \<le> x div sz" using 1(2) by (intro zdiv_mono1) auto
    then show False using 1(2) by simp
  qed
  ultimately show ?case by (simp add: kPageSize_def)
qed

declare span_bytes.simps [simp del]

lemma AlignmentForSize_pos: "AlignmentForSize sz = Inr a \<Longrightarrow> 0 < a"
  by (auto simp: AlignmentForSize_def size_consts Let_def split: if_splits)

text \<open>
  The first loop of \<open>Init\<close>: \<open>sc\<close> is the next class, \<open>szs\<close> and \<open>pgs\<close> are the arrays \<open>class_to_size_\<close> and
  \<open>class_to_pages_\<close>. A class is merged with the one before it when both have as many objects in as many
  pages. \<open>blocks_to_move\<close> is an \<open>int\<close> that is compared with a \<open>size_t\<close>: a negative one, from a negative
  limit of the transfers, stands for more than \<open>2 ^ 63\<close> objects, which no 64-bit number of bytes holds, so
  the loop over the pages does not end (\<open>OutOfFuel\<close>).
\<close>

definition quarter :: "int \<Rightarrow> int" where
  "quarter n = (if n < 0 then - (- n div 4) else n div 4)"

function build_classes :: "int \<Rightarrow> int \<Rightarrow> int \<Rightarrow> int list \<Rightarrow> int list \<Rightarrow> (int \<times> int list \<times> int list) res" where
  "build_classes transfer_num sz sc szs pgs =
     (if sz \<le> kMaxSizeInt
      then
        rbind (AlignmentForSize sz) (\<lambda>alignment.
          if sz mod alignment \<noteq> 0 then Inl AssertFail
          else
            let blocks_to_move = quarter (NumMoveSize transfer_num sz);
                my_pages = span_bytes sz blocks_to_move 0 div kPageSize
            in if blocks_to_move < 0 then Inl OutOfFuel
               else rbind (if sc > 1 then rd pgs (sc - 1) else Inr 0) (\<lambda>prev_pages.
               rbind (if sc > 1 then rd szs (sc - 1) else Inr 1) (\<lambda>prev_size.
                 if sc > 1 \<and> my_pages = prev_pages \<and> my_pages * kPageSize div sz = prev_pages * kPageSize div prev_size
                 then rbind (wr szs (sc - 1) sz) (\<lambda>szs. build_classes transfer_num (sz + alignment) sc szs pgs)
                 else
                   rbind (wr pgs sc my_pages) (\<lambda>pgs.
                   rbind (wr szs sc sz) (\<lambda>szs.
                     build_classes transfer_num (sz + alignment) (sc + 1) szs pgs)))))
      else Inr (sc, szs, pgs))"
  by auto
termination
  by (relation "measure (\<lambda>(_, sz, _). nat (kMaxSizeInt + 1 - sz))") (auto dest: AlignmentForSize_pos)

declare build_classes.simps [simp del]

text \<open>The loops that fill \<open>class_array_\<close>.\<close>

function fill_class :: "int \<Rightarrow> int \<Rightarrow> int \<Rightarrow> int list \<Rightarrow> int list res" where
  "fill_class c max_size s arr =
     (if s \<le> max_size then rbind (wr arr (ClassIndex s) c) (\<lambda>arr. fill_class c max_size (s + kAlignment) arr)
      else Inr arr)"
  by auto
termination
  by (relation "measure (\<lambda>(_, max_size, s, _). nat (max_size + 1 - s))") (auto simp: kAlignment_def)

declare fill_class.simps [simp del]

primrec fill_classes :: "int list \<Rightarrow> int \<Rightarrow> int \<Rightarrow> int list \<Rightarrow> int list res" where
  "fill_classes [] c next_size arr = Inr arr"
| "fill_classes (max_size # szs) c next_size arr =
     rbind (fill_class c max_size next_size arr) (\<lambda>arr. fill_classes szs (c + 1) (max_size + kAlignment) arr)"

text \<open>The second pass over the sizes, which checks the tables.\<close>

function check_sizes :: "size_map \<Rightarrow> int \<Rightarrow> unit res" where
  "check_sizes m sz =
     (if sz \<le> kMaxSizeInt
      then
        rbind (SizeClass m sz) (\<lambda>sc.
          if sc \<le> 0 \<or> sc \<ge> kNumClasses then Inl AssertFail
          else
            rbind (rd (class_to_size m) (sc - 1)) (\<lambda>below.
            rbind (rd (class_to_size m) sc) (\<lambda>s.
              if sc > 1 \<and> sz \<le> below then Inl AssertFail
              else if sz > s \<or> s = 0 then Inl AssertFail
              else check_sizes m (if sz \<le> kMaxSmallSize then sz + 8 else sz + 128))))
      else Inr ())"
  by auto
termination
  by (relation "measure (\<lambda>(_, sz). nat (kMaxSizeInt + 1 - sz))") auto

declare check_sizes.simps [simp del]

definition SizeMap_Init :: "int \<Rightarrow> size_map res" where
  "SizeMap_Init transfer_num =
     (if ClassIndex 0 \<noteq> 0 \<or> ClassIndex kMaxSizeInt \<ge> kClassArraySize then Inl AssertFail
      else
        rbind (build_classes transfer_num kAlignment 1 (replicate (nat kNumClasses) 0) (replicate (nat kNumClasses) 0))
          (\<lambda>(sc, szs, pgs).
            if sc \<noteq> kNumClasses then Inl AssertFail
            else
              rbind (fill_classes (tl szs) 1 0 (replicate (nat kClassArraySize) 0)) (\<lambda>arr.
                let m = \<lparr>class_array = arr, class_to_size = szs, class_to_pages = pgs,
                         num_objects_to_move = replicate (nat kNumClasses) 0\<rparr>
                in rbind (check_sizes m 0) (\<lambda>_.
                     Inr (m\<lparr>num_objects_to_move := 0 # map (NumMoveSize transfer_num) (tl szs)\<rparr>)))))"

end
