(* ===== verification/Object_Allocator.thy ===== *)
theory Object_Allocator
  imports NW_Prelude
begin

text \<open>
  The allocator of tcmalloc's own objects (\<open>PageHeapAllocator<T>\<close> of \<open>page_heap_allocator.h\<close>): objects of one size
  are carved from blocks of \<open>kAllocIncrement\<close> bytes, released ones are kept in a free list. The blocks come from
  \<open>MetaDataAlloc\<close>: \<open>pa_meta\<close> is the sequence of its answers. The link that a released object holds in its
  first word is the list \<open>pa_free\<close>. The locale states what the page heap relies on.
\<close>

section \<open>Model\<close>

definition kAllocIncrement :: nat where "kAllocIncrement = 131072"
definition sizeof_Span :: nat where "sizeof_Span = 48"

record object_allocator =
  pa_meta :: "nat \<Rightarrow> ptr"
  pa_cnt :: nat
  pa_area :: ptr
  pa_avail :: nat
  pa_free :: "ptr list"
  pa_inuse :: int

definition pa_New :: "nat \<Rightarrow> object_allocator \<Rightarrow> (ptr \<times> object_allocator) res" where
  "pa_New sz a =
     (case pa_free a of
        result # rest \<Rightarrow> Inr (result, a\<lparr>pa_free := rest, pa_inuse := pa_inuse a + 1\<rparr>)
      | [] \<Rightarrow>
          rbind (if pa_avail a < sz
                 then
                   let area = pa_meta a (pa_cnt a)
                   in if area = NULL then Inl AssertFail
                      else Inr (a\<lparr>pa_cnt := pa_cnt a + 1, pa_area := area, pa_avail := kAllocIncrement\<rparr>)
                 else Inr a)
            (\<lambda>a. Inr (pa_area a, a\<lparr>pa_area := pa_area a + word_of_nat sz, pa_avail := pa_avail a - sz,
                                     pa_inuse := pa_inuse a + 1\<rparr>)))"

definition pa_Delete :: "ptr \<Rightarrow> object_allocator \<Rightarrow> object_allocator" where
  "pa_Delete p a = a\<lparr>pa_free := p # pa_free a, pa_inuse := pa_inuse a - 1\<rparr>"

definition pa_Init :: "nat \<Rightarrow> object_allocator \<Rightarrow> object_allocator res" where
  "pa_Init sz a =
     rbind (pa_New sz (a\<lparr>pa_inuse := 0, pa_area := NULL, pa_avail := 0, pa_free := []\<rparr>)) (\<lambda>(p, a). Inr (pa_Delete p a))"

section \<open>The interface\<close>

text \<open>
  \<open>ok L a\<close>: in state \<open>a\<close> the objects of \<open>L\<close> are allocated. A new object is not null and not yet
  allocated, and its bytes meet those of no allocated object; when there is no memory, the process ends.
\<close>

locale object_source =
  fixes new :: "'a \<Rightarrow> (ptr \<times> 'a) res"
    and del :: "ptr \<Rightarrow> 'a \<Rightarrow> 'a"
    and ok :: "ptr set \<Rightarrow> 'a \<Rightarrow> bool"
    and extent :: "ptr \<Rightarrow> nat set"
  assumes new_fresh: "ok L a \<Longrightarrow> new a = Inr (p, a') \<Longrightarrow> p \<noteq> NULL \<and> p \<notin> L \<and> ok (insert p L) a' \<and>
      (\<forall>q \<in> L. extent p \<inter> extent q = {})"
    and new_fault: "ok L a \<Longrightarrow> new a = Inl f \<Longrightarrow> f = AssertFail"
    and del_ok: "ok L a \<Longrightarrow> p \<in> L \<Longrightarrow> ok (L - {p}) (del p a)"
begin

lemma new_cases:
  assumes "ok L a"
  obtains (crash) "new a = Inl AssertFail"
    | (fresh) p a' where "new a = Inr (p, a')" "p \<noteq> NULL" "p \<notin> L" "ok (insert p L) a'"
  using new_fresh[OF assms] new_fault[OF assms] by (cases "new a") auto

text \<open>A client that allocates \<open>n\<close> objects and keeps them.\<close>

fun news :: "nat \<Rightarrow> 'a \<Rightarrow> (ptr list \<times> 'a) res" where
  "news 0 a = Inr ([], a)"
| "news (Suc n) a = rbind (new a) (\<lambda>(p, a). rbind (news n a) (\<lambda>(ps, a). Inr (p # ps, a)))"

lemma news_distinct:
  assumes "ok L a" and "news n a = Inr (ps, a')"
  shows "length ps = n \<and> distinct ps \<and> set ps \<inter> L = {} \<and> ok (L \<union> set ps) a'"
  using assms
proof (induction n arbitrary: L a ps)
  case (Suc n)
  obtain p a1 qs where p: "new a = Inr (p, a1)" "news n a1 = Inr (qs, a')" "ps = p # qs"
    using Suc.prems(2) by (auto simp: rbind_eq_Inr)
  have f: "p \<notin> L" "ok (insert p L) a1" using new_fresh[OF Suc.prems(1) p(1)] by simp_all
  show ?case using Suc.IH[OF f(2) p(2)] f(1) p(3) by auto
qed simp

end

section \<open>The allocator keeps it\<close>

definition obj_extent :: "nat \<Rightarrow> ptr \<Rightarrow> nat set" where
  "obj_extent sz p = {unat p..<unat p + sz}"

definition block_extent :: "object_allocator \<Rightarrow> nat \<Rightarrow> nat set" where
  "block_extent a k = {unat (pa_meta a k)..<unat (pa_meta a k) + kAllocIncrement}"

text \<open>What \<open>MetaDataAlloc\<close> promises: blocks that do not wrap, and do not overlap unless they are null.\<close>

definition meta_contract :: "object_allocator \<Rightarrow> bool" where
  "meta_contract a \<longleftrightarrow> (\<forall>k. unat (pa_meta a k) + kAllocIncrement \<le> 2 ^ 47) \<and>
     (\<forall>j k. j \<noteq> k \<and> pa_meta a j \<noteq> NULL \<and> pa_meta a k \<noteq> NULL \<longrightarrow> block_extent a j \<inter> block_extent a k = {})"

definition area_extent :: "object_allocator \<Rightarrow> nat set" where
  "area_extent a = {unat (pa_area a)..<unat (pa_area a) + pa_avail a}"

definition used_extent :: "object_allocator \<Rightarrow> nat set" where
  "used_extent a = (\<Union>k \<in> {..<pa_cnt a}. block_extent a k)"

definition pa_ok :: "nat \<Rightarrow> ptr set \<Rightarrow> object_allocator \<Rightarrow> bool" where
  "pa_ok sz L a \<longleftrightarrow> meta_contract a \<and> (\<forall>k < pa_cnt a. pa_meta a k \<noteq> NULL) \<and> distinct (pa_free a) \<and> set (pa_free a) \<inter> L = {} \<and>
     (\<forall>p \<in> L \<union> set (pa_free a). p \<noteq> NULL \<and> obj_extent sz p \<subseteq> used_extent a \<and> obj_extent sz p \<inter> area_extent a = {}) \<and>
     (\<forall>p \<in> L \<union> set (pa_free a). \<forall>q \<in> L \<union> set (pa_free a). p \<noteq> q \<longrightarrow> obj_extent sz p \<inter> obj_extent sz q = {}) \<and>
     (0 < pa_avail a \<longrightarrow> pa_area a \<noteq> NULL \<and> unat (pa_area a) + pa_avail a \<le> 2 ^ 47) \<and> area_extent a \<subseteq> used_extent a"

lemma pa_ok_carve:
  assumes ok: "pa_ok sz L a" and e: "pa_free a = []" and sz: "0 < sz" "sz \<le> pa_avail a"
  defines "a' \<equiv> a\<lparr>pa_area := pa_area a + word_of_nat sz, pa_avail := pa_avail a - sz, pa_inuse := pa_inuse a + 1\<rparr>"
  shows "pa_area a \<noteq> NULL \<and> pa_area a \<notin> L \<and> pa_ok sz (insert (pa_area a) L) a' \<and>
    (\<forall>q \<in> L. obj_extent sz (pa_area a) \<inter> obj_extent sz q = {})"
proof -
  have b: "pa_area a \<noteq> NULL" "unat (pa_area a) + pa_avail a \<le> 2 ^ 47" using ok sz by (auto simp: pa_ok_def)
  have "unat (word_of_nat sz :: ptr) = sz" using b(2) sz(2) by (simp add: unat_of_nat)
  then have u: "unat (pa_area a + word_of_nat sz) = unat (pa_area a) + sz"
    using b(2) sz(2) unat_add_lem[of "pa_area a" "word_of_nat sz"] by simp
  have ext: "obj_extent sz (pa_area a) \<subseteq> area_extent a" using sz(2) by (auto simp: obj_extent_def area_extent_def)
  have area: "area_extent a' \<subseteq> area_extent a" "obj_extent sz (pa_area a) \<inter> area_extent a' = {}"
    using sz(2) by (auto simp: a'_def area_extent_def obj_extent_def u)
  have used: "used_extent a' = used_extent a" by (simp add: a'_def used_extent_def block_extent_def)
  have disj: "obj_extent sz (pa_area a) \<inter> obj_extent sz q = {}" if "q \<in> L" for q
  proof -
    have "obj_extent sz q \<inter> area_extent a = {}" using ok that by (simp add: pa_ok_def)
    then show ?thesis using ext by blast
  qed
  have "pa_area a \<notin> L"
    using disj[of "pa_area a"] sz(1) by (auto simp: obj_extent_def)
  moreover have "meta_contract a'" "\<forall>k < pa_cnt a'. pa_meta a' k \<noteq> NULL"
    using ok by (simp_all add: a'_def pa_ok_def meta_contract_def block_extent_def)
  moreover have "unat (pa_area a') + pa_avail a' \<le> 2 ^ 47" "0 < pa_avail a' \<longrightarrow> pa_area a' \<noteq> NULL"
    using b u sz by (auto simp: a'_def unat_eq_zero[symmetric] simp del: unat_eq_zero)
  moreover have "pa_free a' = []" using e by (simp add: a'_def)
  moreover have "\<forall>q \<in> L. q \<noteq> NULL \<and> obj_extent sz q \<subseteq> used_extent a \<and> obj_extent sz q \<inter> area_extent a' = {}"
  proof
    fix q
    assume "q \<in> L"
    then have "q \<noteq> NULL" "obj_extent sz q \<subseteq> used_extent a" "obj_extent sz q \<inter> area_extent a = {}" using ok by (simp_all add: pa_ok_def)
    then show "q \<noteq> NULL \<and> obj_extent sz q \<subseteq> used_extent a \<and> obj_extent sz q \<inter> area_extent a' = {}" using area(1) by blast
  qed
  moreover have "area_extent a \<subseteq> used_extent a" using ok by (simp add: pa_ok_def)
  moreover have "\<forall>p \<in> L. \<forall>q \<in> L. p \<noteq> q \<longrightarrow> obj_extent sz p \<inter> obj_extent sz q = {}" using ok by (simp add: pa_ok_def)
  ultimately show ?thesis using b(1) disj ext area used
    unfolding pa_ok_def by (auto simp: Int_commute)
qed

lemma pa_ok_refill:
  assumes ok: "pa_ok sz L a" and e: "pa_free a = []" and n: "pa_meta a (pa_cnt a) \<noteq> NULL"
  shows "pa_ok sz L (a\<lparr>pa_cnt := pa_cnt a + 1, pa_area := pa_meta a (pa_cnt a), pa_avail := kAllocIncrement\<rparr>)"
proof -
  let ?a = "a\<lparr>pa_cnt := pa_cnt a + 1, pa_area := pa_meta a (pa_cnt a), pa_avail := kAllocIncrement\<rparr>"
  have mc: "meta_contract a" using ok by (simp add: pa_ok_def)
  have area: "area_extent ?a = block_extent a (pa_cnt a)" by (simp add: area_extent_def block_extent_def)
  have used: "used_extent ?a = used_extent a \<union> block_extent a (pa_cnt a)"
    by (auto simp: used_extent_def block_extent_def lessThan_Suc)
  have "used_extent a \<inter> block_extent a (pa_cnt a) = {}"
  proof -
    have "\<forall>k < pa_cnt a. pa_meta a k \<noteq> NULL" using ok by (simp add: pa_ok_def)
    then have "block_extent a k \<inter> block_extent a (pa_cnt a) = {}" if "k < pa_cnt a" for k
      using mc n that unfolding meta_contract_def by (metis less_irrefl)
    then show ?thesis by (auto simp: used_extent_def)
  qed
  then have "\<forall>p \<in> L. obj_extent sz p \<subseteq> used_extent ?a \<and> obj_extent sz p \<inter> area_extent ?a = {}"
    using ok unfolding pa_ok_def area used by blast
  moreover have "meta_contract ?a" using mc by (simp add: meta_contract_def block_extent_def)
  ultimately show ?thesis
    using ok e mc n area used unfolding pa_ok_def by (auto simp: meta_contract_def less_Suc_eq)
qed

lemma pa_New_ok:
  assumes sz: "0 < sz" "sz \<le> kAllocIncrement" and ok: "pa_ok sz L a" and r: "pa_New sz a = Inr (p, a')"
  shows "p \<noteq> NULL \<and> p \<notin> L \<and> pa_ok sz (insert p L) a' \<and> (\<forall>q \<in> L. obj_extent sz p \<inter> obj_extent sz q = {})"
proof (cases "pa_free a")
  case (Cons q rest)
  let ?a = "a\<lparr>pa_free := rest, pa_inuse := pa_inuse a + 1\<rparr>"
  have "pa_ok sz (insert q L) ?a"
    using ok Cons unfolding pa_ok_def meta_contract_def block_extent_def used_extent_def area_extent_def by auto
  moreover have "q \<noteq> NULL" "q \<notin> L" using ok Cons by (auto simp: pa_ok_def)
  moreover have "\<forall>r \<in> L. obj_extent sz q \<inter> obj_extent sz r = {}" using ok Cons by (auto simp: pa_ok_def)
  ultimately show ?thesis using Cons r by (auto simp: pa_New_def)
next
  case Nil
  show ?thesis
  proof (cases "pa_avail a < sz")
    case False
    then show ?thesis using pa_ok_carve[OF ok Nil sz(1)] Nil r by (auto simp: pa_New_def)
  next
    case True
    have n: "pa_meta a (pa_cnt a) \<noteq> NULL" using r Nil True by (auto simp: pa_New_def Let_def)
    then show ?thesis using pa_ok_carve[OF pa_ok_refill[OF ok Nil n] _ sz(1)] Nil sz(2) True r by (auto simp: pa_New_def Let_def)
  qed
qed

lemma pa_New_fault: "pa_New sz a = Inl f \<Longrightarrow> f = AssertFail"
  by (auto simp: pa_New_def Let_def split: list.splits if_splits)

lemma pa_Delete_ok:
  assumes "pa_ok sz L a" and "p \<in> L"
  shows "pa_ok sz (L - {p}) (pa_Delete p a)"
proof -
  have "L - {p} \<union> set (p # pa_free a) = L \<union> set (pa_free a)" using assms(2) by auto
  moreover have "block_extent (pa_Delete p a) = block_extent a" "used_extent (pa_Delete p a) = used_extent a"
      "area_extent (pa_Delete p a) = area_extent a" "pa_meta (pa_Delete p a) = pa_meta a" "pa_cnt (pa_Delete p a) = pa_cnt a"
      "pa_free (pa_Delete p a) = p # pa_free a" "pa_area (pa_Delete p a) = pa_area a" "pa_avail (pa_Delete p a) = pa_avail a"
    by (auto simp: pa_Delete_def block_extent_def used_extent_def area_extent_def)
  moreover have "distinct (p # pa_free a)" "set (p # pa_free a) \<inter> (L - {p}) = {}" using assms by (auto simp: pa_ok_def)
  ultimately show ?thesis using assms(1) unfolding pa_ok_def meta_contract_def by (simp only: simp_thms) (elim conjE, intro conjI; assumption)
qed

interpretation span_source: object_source "pa_New sizeof_Span" pa_Delete "pa_ok sizeof_Span" "obj_extent sizeof_Span"
proof unfold_locales
  show "p \<noteq> NULL \<and> p \<notin> L \<and> pa_ok sizeof_Span (insert p L) a' \<and> (\<forall>q \<in> L. obj_extent sizeof_Span p \<inter> obj_extent sizeof_Span q = {})"
    if "pa_ok sizeof_Span L a" "pa_New sizeof_Span a = Inr (p, a')" for L a p a'
    using that by (intro pa_New_ok[of sizeof_Span L a]) (simp_all add: sizeof_Span_def kAllocIncrement_def)
qed (rule pa_New_fault pa_Delete_ok; assumption)+

text \<open>Objects that are allocated at the same time do not overlap, and a released object is the only one that
  becomes available again.\<close>

lemma objects_distinct:
  assumes "pa_ok sizeof_Span L a" and "pa_New sizeof_Span a = Inr (p, a1)" and "pa_New sizeof_Span a1 = Inr (q, a2)" and "r \<in> L"
  shows "obj_extent sizeof_Span p \<inter> obj_extent sizeof_Span q = {} \<and> obj_extent sizeof_Span p \<inter> obj_extent sizeof_Span r = {} \<and>
    p \<noteq> NULL \<and> pa_ok sizeof_Span (insert q (insert p L)) a2 \<and>
    pa_ok sizeof_Span (insert q (insert p L) - {r}) (pa_Delete r a2)"
proof -
  note f = span_source.new_fresh[OF assms(1,2)]
  then have "pa_ok sizeof_Span (insert p L) a1" by simp
  note g = span_source.new_fresh[OF this assms(3)]
  then have o: "pa_ok sizeof_Span (insert q (insert p L)) a2" by simp
  have "pa_ok sizeof_Span (insert q (insert p L) - {r}) (pa_Delete r a2)"
    using assms(4) by (intro span_source.del_ok[OF o]) simp
  then show ?thesis using f g o assms(4) by (auto simp: Int_commute)
qed

definition object_allocator0 :: object_allocator where
  "object_allocator0 = \<lparr>pa_meta = (\<lambda>k. if k < 4 then 4294967296 + 131072 * word_of_nat k else 0),
     pa_cnt = 0, pa_area = NULL, pa_avail = 0, pa_free = [], pa_inuse = 0\<rparr>"

lemma object_allocator0_meta: "meta_contract object_allocator0"
proof -
  have u: "unat (4294967296 + 131072 * word_of_nat k :: ptr) = 4294967296 + 131072 * k" if "k < 4" for k :: nat
  proof -
    have "(4294967296 + 131072 * word_of_nat k :: ptr) = word_of_nat (4294967296 + 131072 * k)" by simp
    then show ?thesis using that by (simp only: unat_of_nat len_bit0 len_num1) simp
  qed
  have z: "(4294967296 + 131072 * word_of_nat k :: ptr) \<noteq> 0" if "k < 4" for k :: nat
    using u[OF that] by (metis add_eq_0_iff_both_eq_0 unat_0 zero_neq_numeral)
  show ?thesis
    unfolding meta_contract_def block_extent_def object_allocator0_def
    by (auto simp: u kAllocIncrement_def split: if_splits)
qed

lemma object_allocator0_ok: "pa_ok sz {} object_allocator0"
  using object_allocator0_meta by (simp add: pa_ok_def area_extent_def object_allocator0_def)

end
