(* ===== verification/Page_Heap.thy ===== *)
theory Page_Heap
  imports Page_Map3 Size_Map Object_Allocator Complex_Main
begin

text \<open>
  The page heaps of tcmalloc (\<open>span.h\<close>, \<open>span.cc\<close>, \<open>page_heap.h\<close>, \<open>page_heap.cc\<close>), one per heap type over one page map and one
  allocator of span descriptors. A span descriptor is a record at its address. A circular list of spans with its
  header is the list of its members; the two link fields of a span are \<open>sp_link\<close>, the list that it is in,
  so a removal of a span that is in no list dereferences null and an insertion of one that is in a list
  corrupts it. \<open>free_[n]\<close> and \<open>large_\<close> of a heap are the lists \<open>Freelist h n returned\<close> with \<open>n = kMaxPages\<close> for
  \<open>large_\<close>. A descriptor that was deleted and a use of it are \<open>Corrupt\<close>. Page numbers and lengths are natural
  numbers; byte counts of the statistics are 64-bit words. Parameters: \<open>sys_alloc\<close> is the answer of
  \<open>TCMalloc_SystemAlloc\<close> to the n-th call for a size and a heap type, \<open>sys_release\<close> that of the n-th
  \<open>TCMalloc_SystemRelease\<close>, \<open>meta_taken\<close> the part of \<open>TCMalloc_SystemTaken\<close> that the metadata has, as
  a function of the blocks taken by the span allocator and the page map. \<open>TCMalloc_SystemCommit\<close> does nothing.
  The \<open>ASSERT\<close>s are not compiled in (the library is built with \<open>NDEBUG\<close>). The release rate is a rational number; with the
  default rate 1 the computation in \<open>double\<close> is exact. Stack traces of the growth are not recorded, only the sizes.
\<close>

section \<open>Data\<close>

datatype span_location = IN_USE | ON_NORMAL_FREELIST | ON_RETURNED_FREELIST

text \<open>The lists a span can be in: the free lists of a heap, the two lists of a central free list, the sampled objects.\<close>

datatype list_id = Freelist int nat bool | Empty_spans int nat | Nonempty_spans int nat | Sampled_objects

record span =
  sp_start :: nat
  sp_length :: nat
  sp_link :: "list_id option"
  sp_objects :: "ptr list"
  sp_refcount :: nat
  sp_sizeclass :: nat
  sp_location :: span_location
  sp_sample :: bool
  sp_heaptype :: int

record page_heap =
  system_bytes :: uint64
  free_bytes :: uint64
  unmapped_bytes :: uint64
  committed_bytes :: uint64
  scavenge_counter :: int
  release_index :: nat
  aggressive_decommit :: bool

record page_world =
  spans :: "ptr \<Rightarrow> span option"
  span_lists :: "list_id \<Rightarrow> ptr list"
  pagemap :: page_map3
  pagemap_cache :: packed_cache
  page_heaps :: "int \<Rightarrow> page_heap"
  span_allocator :: object_allocator
  sys_alloc :: "nat \<Rightarrow> nat \<Rightarrow> int \<Rightarrow> (ptr \<times> nat) option"
  sys_allocs_done :: nat
  sys_release :: "nat \<Rightarrow> bool"
  sys_releases_done :: nat
  heap_taken :: uint64
  meta_taken :: "nat \<Rightarrow> nat \<Rightarrow> uint64"
  heap_limit_mb :: int
  release_rate :: rat
  growth_stacks :: "nat list"

definition kMaxPages :: nat where "kMaxPages = 128"
definition kMinSystemAlloc :: nat where "kMinSystemAlloc = kMaxPages"
definition kMaxValidPages :: nat where "kMaxValidPages = 2 ^ 51 - 1"
definition kMaxReleaseDelay :: int where "kMaxReleaseDelay = 2 ^ 20"
definition kDefaultReleaseDelay :: int where "kDefaultReleaseDelay = 2 ^ 18"
definition kForcedCoalesceInterval :: uint64 where "kForcedCoalesceInterval = 128 * 1024 * 1024"

text \<open>\<open>n << kPageShift\<close> and a decrement of an unsigned number.\<close>

definition bytes64 :: "nat \<Rightarrow> uint64" where "bytes64 n = push_bit kPageShift (word_of_nat n)"
definition dec64 :: "nat \<Rightarrow> nat" where "dec64 n = (n + 2 ^ 64 - 1) mod 2 ^ 64"

definition SystemTaken_pages :: "page_world \<Rightarrow> uint64" where
  "SystemTaken_pages s =
     drop_bit kPageShift (heap_taken s + meta_taken s (pa_cnt (span_allocator s)) (pm_allocs (pagemap s)))"

section \<open>Spans and lists of spans\<close>

definition get_span :: "ptr \<Rightarrow> page_world \<Rightarrow> span res" where
  "get_span p s = (if p = NULL then Inl NullDeref else case spans s p of None \<Rightarrow> Inl Corrupt | Some x \<Rightarrow> Inr x)"

definition put_span :: "ptr \<Rightarrow> span \<Rightarrow> page_world \<Rightarrow> page_world" where
  "put_span p x s = s\<lparr>spans := (spans s)(p := Some x)\<rparr>"

definition upd_span :: "ptr \<Rightarrow> (span \<Rightarrow> span) \<Rightarrow> page_world \<Rightarrow> page_world res" where
  "upd_span p f s = rbind (get_span p s) (\<lambda>x. Inr (put_span p (f x) s))"

definition upd_heap :: "int \<Rightarrow> (page_heap \<Rightarrow> page_heap) \<Rightarrow> page_world \<Rightarrow> page_world" where
  "upd_heap h f s = s\<lparr>page_heaps := (page_heaps s)(h := f (page_heaps s h))\<rparr>"

definition new_span :: "nat \<Rightarrow> nat \<Rightarrow> span" where
  "new_span p len = \<lparr>sp_start = p, sp_length = len, sp_link = None, sp_objects = [], sp_refcount = 0, sp_sizeclass = 0,
     sp_location = IN_USE, sp_sample = False, sp_heaptype = 0\<rparr>"

definition NewSpan :: "nat \<Rightarrow> nat \<Rightarrow> page_world \<Rightarrow> (ptr \<times> page_world) res" where
  "NewSpan p len s =
     rbind (pa_New sizeof_Span (span_allocator s)) (\<lambda>(result, a).
       Inr (result, put_span result (new_span p len) (s\<lparr>span_allocator := a\<rparr>)))"

definition DeleteSpan :: "ptr \<Rightarrow> page_world \<Rightarrow> page_world" where
  "DeleteSpan p s = s\<lparr>spans := (spans s)(p := None), span_allocator := pa_Delete p (span_allocator s)\<rparr>"

definition DLL_IsEmpty :: "list_id \<Rightarrow> page_world \<Rightarrow> bool" where
  "DLL_IsEmpty l s \<longleftrightarrow> span_lists s l = []"

definition DLL_Length :: "list_id \<Rightarrow> page_world \<Rightarrow> int" where
  "DLL_Length l s = int (length (span_lists s l))"

definition DLL_Remove :: "ptr \<Rightarrow> page_world \<Rightarrow> page_world res" where
  "DLL_Remove p s =
     rbind (get_span p s) (\<lambda>x.
       case sp_link x of
         None \<Rightarrow> Inl NullDeref
       | Some l \<Rightarrow> Inr (put_span p (x\<lparr>sp_link := None\<rparr>) (s\<lparr>span_lists := (span_lists s)(l := remove1 p (span_lists s l))\<rparr>)))"

definition DLL_Prepend :: "list_id \<Rightarrow> ptr \<Rightarrow> page_world \<Rightarrow> page_world res" where
  "DLL_Prepend l p s =
     rbind (get_span p s) (\<lambda>x.
       if sp_link x \<noteq> None then Inl Corrupt
       else Inr (put_span p (x\<lparr>sp_link := Some l\<rparr>) (s\<lparr>span_lists := (span_lists s)(l := p # span_lists s l)\<rparr>)))"

section \<open>The page map\<close>

definition GetDescriptor :: "nat \<Rightarrow> page_world \<Rightarrow> ptr" where
  "GetDescriptor p s = pm_get (pagemap s) p"

definition map_set :: "nat \<Rightarrow> ptr \<Rightarrow> page_world \<Rightarrow> page_world res" where
  "map_set k v s = rbind (pm_set k v (pagemap s)) (\<lambda>t. Inr (s\<lparr>pagemap := t\<rparr>))"

definition RecordSpan :: "ptr \<Rightarrow> page_world \<Rightarrow> page_world res" where
  "RecordSpan p s =
     rbind (get_span p s) (\<lambda>x.
       rbind (map_set (sp_start x) p s) (\<lambda>s.
         if sp_length x > 1 then map_set (sp_start x + sp_length x - 1) p s else Inr s))"

definition GetSizeClassIfCached :: "nat \<Rightarrow> page_world \<Rightarrow> nat" where
  "GetSizeClassIfCached p s = pc_GetOrDefault p 0 (pagemap_cache s)"

definition CacheSizeClass :: "nat \<Rightarrow> nat \<Rightarrow> page_world \<Rightarrow> page_world" where
  "CacheSizeClass p cl s = s\<lparr>pagemap_cache := pc_Put p cl (pagemap_cache s)\<rparr>"

section \<open>Free lists\<close>

definition list_index :: "nat \<Rightarrow> nat" where
  "list_index len = (if len < kMaxPages then len else kMaxPages)"

definition PrependToFreeList :: "int \<Rightarrow> ptr \<Rightarrow> page_world \<Rightarrow> page_world res" where
  "PrependToFreeList h p s =
     rbind (get_span p s) (\<lambda>x.
       if sp_location x = ON_NORMAL_FREELIST
       then DLL_Prepend (Freelist h (list_index (sp_length x)) False) p
              (upd_heap h (\<lambda>a. a\<lparr>free_bytes := free_bytes a + bytes64 (sp_length x)\<rparr>) s)
       else DLL_Prepend (Freelist h (list_index (sp_length x)) True) p
              (upd_heap h (\<lambda>a. a\<lparr>unmapped_bytes := unmapped_bytes a + bytes64 (sp_length x)\<rparr>) s))"

definition RemoveFromFreeList :: "int \<Rightarrow> ptr \<Rightarrow> page_world \<Rightarrow> page_world res" where
  "RemoveFromFreeList h p s =
     rbind (get_span p s) (\<lambda>x.
       DLL_Remove p
         (if sp_location x = ON_NORMAL_FREELIST
          then upd_heap h (\<lambda>a. a\<lparr>free_bytes := free_bytes a - bytes64 (sp_length x)\<rparr>) s
          else upd_heap h (\<lambda>a. a\<lparr>unmapped_bytes := unmapped_bytes a - bytes64 (sp_length x)\<rparr>) s))"

definition CommitSpan :: "int \<Rightarrow> ptr \<Rightarrow> page_world \<Rightarrow> page_world res" where
  "CommitSpan h p s =
     rbind (get_span p s) (\<lambda>x. Inr (upd_heap h (\<lambda>a. a\<lparr>committed_bytes := committed_bytes a + bytes64 (sp_length x)\<rparr>) s))"

definition DecommitSpan :: "int \<Rightarrow> ptr \<Rightarrow> page_world \<Rightarrow> (bool \<times> page_world) res" where
  "DecommitSpan h p s =
     rbind (get_span p s) (\<lambda>x.
       let rv = sys_release s (sys_releases_done s);
           s = s\<lparr>sys_releases_done := sys_releases_done s + 1\<rparr>
       in Inr (rv, if rv then upd_heap h (\<lambda>a. a\<lparr>committed_bytes := committed_bytes a - bytes64 (sp_length x)\<rparr>) s else s))"

definition MayMergeSpans :: "int \<Rightarrow> span \<Rightarrow> span \<Rightarrow> page_world \<Rightarrow> bool" where
  "MayMergeSpans h x y s \<longleftrightarrow>
     sp_heaptype x = sp_heaptype y \<and>
     (if aggressive_decommit (page_heaps s h) then sp_location y \<noteq> IN_USE else sp_location x = sp_location y)"

text \<open>The two halves of \<open>MergeIntoFreeList\<close>: the span before and the span after. They return \<open>temp_committed\<close>.\<close>

definition temp_bytes :: "int \<Rightarrow> span \<Rightarrow> page_world \<Rightarrow> uint64" where
  "temp_bytes h y s =
     (if aggressive_decommit (page_heaps s h) \<and> sp_location y = ON_RETURNED_FREELIST then bytes64 (sp_length y) else 0)"

definition merge_prev :: "int \<Rightarrow> ptr \<Rightarrow> page_world \<Rightarrow> (uint64 \<times> page_world) res" where
  "merge_prev h p s =
     rbind (get_span p s) (\<lambda>x.
       let prev = GetDescriptor (dec64 (sp_start x)) s
       in if prev = NULL then Inr (0, s)
          else
            rbind (get_span prev s) (\<lambda>y.
              if MayMergeSpans h x y s
              then
                rbind (RemoveFromFreeList h prev s) (\<lambda>s1.
                  rbind (upd_span p (\<lambda>x. x\<lparr>sp_start := sp_start x - sp_length y, sp_length := sp_length x + sp_length y\<rparr>)
                           (DeleteSpan prev s1)) (\<lambda>s2.
                    rbind (map_set (sp_start x - sp_length y) p s2) (\<lambda>s3. Inr (temp_bytes h y s, s3))))
              else Inr (0, s)))"

definition merge_next :: "int \<Rightarrow> ptr \<Rightarrow> nat \<Rightarrow> page_world \<Rightarrow> (uint64 \<times> page_world) res" where
  "merge_next h p after s =
     rbind (get_span p s) (\<lambda>x.
       let nxt = GetDescriptor after s
       in if nxt = NULL then Inr (0, s)
          else
            rbind (get_span nxt s) (\<lambda>y.
              if MayMergeSpans h x y s
              then
                rbind (RemoveFromFreeList h nxt s) (\<lambda>s1.
                  rbind (upd_span p (\<lambda>x. x\<lparr>sp_length := sp_length x + sp_length y\<rparr>) (DeleteSpan nxt s1)) (\<lambda>s2.
                    rbind (map_set (sp_start x + (sp_length x + sp_length y) - 1) p s2) (\<lambda>s3. Inr (temp_bytes h y s, s3))))
              else Inr (0, s)))"

definition MergeIntoFreeList :: "int \<Rightarrow> ptr \<Rightarrow> page_world \<Rightarrow> page_world res" where
  "MergeIntoFreeList h p s =
     rbind (get_span p s) (\<lambda>x.
       rbind (merge_prev h p s) (\<lambda>(temp1, s).
         rbind (merge_next h p (sp_start x + sp_length x) s) (\<lambda>(temp2, s).
           rbind (if aggressive_decommit (page_heaps s h)
                  then
                    rbind (DecommitSpan h p s) (\<lambda>(rv, s).
                      if rv
                      then
                        rbind (upd_span p (\<lambda>x. x\<lparr>sp_location := ON_RETURNED_FREELIST\<rparr>) s) (\<lambda>s.
                          Inr (upd_heap h (\<lambda>a. a\<lparr>committed_bytes := committed_bytes a + (temp1 + temp2)\<rparr>) s))
                      else Inr s)
                  else Inr s) (\<lambda>s.
             rbind (upd_span p (\<lambda>y. y\<lparr>sp_heaptype := sp_heaptype x\<rparr>) s) (PrependToFreeList h p)))))"

section \<open>Release\<close>

definition ReleaseLastNormalSpan :: "int \<Rightarrow> nat \<Rightarrow> page_world \<Rightarrow> (nat \<times> page_world) res" where
  "ReleaseLastNormalSpan h i s =
     (let p = last (span_lists s (Freelist h i False))
      in rbind (DecommitSpan h p s) (\<lambda>(rv, s).
           if rv
           then
             rbind (RemoveFromFreeList h p s) (\<lambda>s.
               rbind (get_span p s) (\<lambda>x.
                 rbind (upd_span p (\<lambda>x. x\<lparr>sp_location := ON_RETURNED_FREELIST\<rparr>) s) (\<lambda>s.
                   rbind (MergeIntoFreeList h p s) (\<lambda>s. Inr (sp_length x, s)))))
           else Inr (0, s)))"

text \<open>The inner loop over the lists; the flag says that the function returned from within it.\<close>

primrec release_pass :: "nat \<Rightarrow> int \<Rightarrow> nat \<Rightarrow> nat \<Rightarrow> page_world \<Rightarrow> ((bool \<times> nat) \<times> page_world) res" where
  "release_pass 0 h num_pages released s = Inr ((False, released), s)"
| "release_pass (Suc i) h num_pages released s =
     (if released < num_pages
      then
        let s = (if release_index (page_heaps s h) > kMaxPages then upd_heap h (\<lambda>a. a\<lparr>release_index := 0\<rparr>) s else s);
            ri = release_index (page_heaps s h);
            next = upd_heap h (\<lambda>a. a\<lparr>release_index := release_index a + 1\<rparr>)
        in if DLL_IsEmpty (Freelist h ri False) s then release_pass i h num_pages released (next s)
           else
             rbind (ReleaseLastNormalSpan h ri s) (\<lambda>(released_len, s).
               if released_len = 0 then Inr ((True, released), s)
               else release_pass i h num_pages (released + released_len) (next s))
      else Inr ((False, released), s))"

text \<open>The outer loop runs while free bytes are left: fuel.\<close>

primrec release_loop :: "nat \<Rightarrow> int \<Rightarrow> nat \<Rightarrow> nat \<Rightarrow> page_world \<Rightarrow> (nat \<times> page_world) res" where
  "release_loop 0 h num_pages released s = Inl OutOfFuel"
| "release_loop (Suc fuel) h num_pages released s =
     (if released < num_pages \<and> free_bytes (page_heaps s h) > 0
      then
        rbind (release_pass (kMaxPages + 1) h num_pages released s) (\<lambda>((ret, released), s).
          if ret then Inr (released, s) else release_loop fuel h num_pages released s)
      else Inr (released, s))"

definition ReleaseAtLeastNPages :: "nat \<Rightarrow> int \<Rightarrow> nat \<Rightarrow> page_world \<Rightarrow> (nat \<times> page_world) res" where
  "ReleaseAtLeastNPages fuel h num_pages s = release_loop fuel h num_pages 0 s"

definition scavenge_wait :: "rat \<Rightarrow> nat \<Rightarrow> int" where
  "scavenge_wait rate released_pages =
     (let mult = 1000 / rate;
          wait = mult * of_nat released_pages
      in if wait > of_int kMaxReleaseDelay then kMaxReleaseDelay else floor wait)"

definition set_scavenge_counter :: "int \<Rightarrow> int \<Rightarrow> page_world \<Rightarrow> page_world" where
  "set_scavenge_counter h c s = upd_heap h (\<lambda>a. a\<lparr>scavenge_counter := c\<rparr>) s"

definition IncrementalScavenge :: "nat \<Rightarrow> int \<Rightarrow> nat \<Rightarrow> page_world \<Rightarrow> page_world res" where
  "IncrementalScavenge fuel h n s =
     (let s = set_scavenge_counter h (scavenge_counter (page_heaps s h) - int n) s
      in if scavenge_counter (page_heaps s h) \<ge> 0 then Inr s
         else if release_rate s \<le> 1 / 1000000 then Inr (set_scavenge_counter h kDefaultReleaseDelay s)
         else
           rbind (ReleaseAtLeastNPages fuel h 1 s) (\<lambda>(released_pages, s).
             Inr (set_scavenge_counter h
               (if released_pages = 0 then kDefaultReleaseDelay else scavenge_wait (release_rate s) released_pages) s)))"

definition limit_pages :: "page_world \<Rightarrow> uint64" where
  "limit_pages s = word_of_int (heap_limit_mb s * 1024 * 1024 div 2 ^ kPageShift)"

definition EnsureLimit :: "nat \<Rightarrow> int \<Rightarrow> nat \<Rightarrow> bool \<Rightarrow> page_world \<Rightarrow> (bool \<times> page_world) res" where
  "EnsureLimit fuel h n withRelease s =
     (let limit = limit_pages s
      in if limit = 0 then Inr (True, s)
         else
           let takenPages = SystemTaken_pages s - drop_bit kPageShift (unmapped_bytes (page_heaps s h))
           in if takenPages + word_of_nat n > limit \<and> withRelease
              then
                rbind (ReleaseAtLeastNPages fuel h (unat (takenPages + word_of_nat n - limit)) s) (\<lambda>(released, s).
                  Inr (takenPages - word_of_nat released + word_of_nat n \<le> limit, s))
              else Inr (takenPages + word_of_nat n \<le> limit, s))"

section \<open>Allocation\<close>

definition Split :: "int \<Rightarrow> ptr \<Rightarrow> nat \<Rightarrow> page_world \<Rightarrow> (ptr \<times> page_world) res" where
  "Split h p n s =
     rbind (get_span p s) (\<lambda>x.
       let extra = i32 (int (sp_length x) - int n)
       in rbind (NewSpan (sp_start x + n) (nat (extra mod 2 ^ 64)) s) (\<lambda>(leftover, s).
            rbind (upd_span leftover (\<lambda>y. y\<lparr>sp_heaptype := h\<rparr>) s) (\<lambda>s.
              rbind (RecordSpan leftover s) (\<lambda>s.
                rbind (map_set (sp_start x + n - 1) p s) (\<lambda>s.
                  rbind (upd_span p (\<lambda>x. x\<lparr>sp_length := n\<rparr>) s) (\<lambda>s. Inr (leftover, s)))))))"

definition Carve :: "int \<Rightarrow> ptr \<Rightarrow> nat \<Rightarrow> page_world \<Rightarrow> (ptr \<times> page_world) res" where
  "Carve h p n s =
     rbind (get_span p s) (\<lambda>x.
       rbind (RemoveFromFreeList h p s) (\<lambda>s.
         rbind (upd_span p (\<lambda>x. x\<lparr>sp_location := IN_USE\<rparr>) s) (\<lambda>s.
           let extra = i32 (int (sp_length x) - int n)
           in rbind (if extra > 0
                     then
                       rbind (NewSpan (sp_start x + n) (nat extra) s) (\<lambda>(leftover, s).
                         rbind (upd_span leftover (\<lambda>y. y\<lparr>sp_location := sp_location x, sp_heaptype := h\<rparr>) s) (\<lambda>s.
                           rbind (RecordSpan leftover s) (\<lambda>s.
                             rbind (PrependToFreeList h leftover s) (\<lambda>s.
                               rbind (upd_span p (\<lambda>x. x\<lparr>sp_length := n\<rparr>) s) (\<lambda>s.
                                 map_set (sp_start x + n - 1) p s)))))
                     else Inr s) (\<lambda>s.
                rbind (if sp_location x = ON_RETURNED_FREELIST then CommitSpan h p s else Inr s) (\<lambda>s. Inr (p, s))))))"

definition better_fit :: "nat \<Rightarrow> (ptr \<times> span) option \<Rightarrow> span \<Rightarrow> bool" where
  "better_fit n best x \<longleftrightarrow>
     sp_length x \<ge> n \<and>
     (case best of
        None \<Rightarrow> True
      | Some (_, b) \<Rightarrow> sp_length x < sp_length b \<or> sp_length x = sp_length b \<and> sp_start x < sp_start b)"

primrec best_fit :: "nat \<Rightarrow> page_world \<Rightarrow> ptr list \<Rightarrow> (ptr \<times> span) option \<Rightarrow> (ptr \<times> span) option res" where
  "best_fit n s [] best = Inr best"
| "best_fit n s (p # ps) best =
     rbind (get_span p s) (\<lambda>x. best_fit n s ps (if better_fit n best x then Some (p, x) else best))"

text \<open>\<open>AllocLarge\<close> calls itself after a release: fuel.\<close>

primrec AllocLarge :: "nat \<Rightarrow> nat \<Rightarrow> int \<Rightarrow> nat \<Rightarrow> page_world \<Rightarrow> (ptr \<times> page_world) res" where
  "AllocLarge 0 rfuel h n s = Inl OutOfFuel"
| "AllocLarge (Suc fuel) rfuel h n s =
     rbind (best_fit n s (span_lists s (Freelist h kMaxPages False)) None) (\<lambda>bestNormal.
       rbind (best_fit n s (span_lists s (Freelist h kMaxPages True)) bestNormal) (\<lambda>best.
         if map_option fst best = map_option fst bestNormal
         then (case best of None \<Rightarrow> Inr (NULL, s) | Some (p, _) \<Rightarrow> Carve h p n s)
         else
           rbind (EnsureLimit rfuel h n False s) (\<lambda>(ok, s).
             if ok then (case best of None \<Rightarrow> Inl NullDeref | Some (p, _) \<Rightarrow> Carve h p n s)
             else
               rbind (EnsureLimit rfuel h n True s) (\<lambda>(ok, s).
                 if ok then AllocLarge fuel rfuel h n s else Inr (NULL, s)))))"

text \<open>The loop over the exact lists, for \<open>i\<close> more sizes.\<close>

primrec search_lists :: "nat \<Rightarrow> nat \<Rightarrow> int \<Rightarrow> nat \<Rightarrow> page_world \<Rightarrow> (ptr \<times> page_world) res" where
  "search_lists 0 fuel h n s = AllocLarge fuel fuel h n s"
| "search_lists (Suc i) fuel h n s =
     (let sz = kMaxPages - Suc i
      in case span_lists s (Freelist h sz False) of
           p # _ \<Rightarrow> Carve h p n s
         | [] \<Rightarrow>
             if DLL_IsEmpty (Freelist h sz True) s then search_lists i fuel h n s
             else
               rbind (EnsureLimit fuel h n True s) (\<lambda>(ok, s).
                 if ok
                 then
                   case span_lists s (Freelist h sz True) of
                     p # _ \<Rightarrow> Carve h p n s
                   | [] \<Rightarrow> search_lists i fuel h n s
                 else search_lists i fuel h n s))"

definition SearchFreeAndLargeLists :: "nat \<Rightarrow> int \<Rightarrow> nat \<Rightarrow> page_world \<Rightarrow> (ptr \<times> page_world) res" where
  "SearchFreeAndLargeLists fuel h n s = search_lists (kMaxPages - n) fuel h n s"

definition Delete :: "nat \<Rightarrow> int \<Rightarrow> ptr \<Rightarrow> page_world \<Rightarrow> page_world res" where
  "Delete fuel h p s =
     rbind (get_span p s) (\<lambda>x.
       rbind (upd_span p (\<lambda>x. x\<lparr>sp_sizeclass := 0, sp_sample := False, sp_location := ON_NORMAL_FREELIST\<rparr>) s) (\<lambda>s.
         rbind (MergeIntoFreeList h p s) (IncrementalScavenge fuel h (sp_length x))))"

definition SystemAlloc_call :: "nat \<Rightarrow> int \<Rightarrow> page_world \<Rightarrow> (ptr \<times> nat) option \<times> page_world" where
  "SystemAlloc_call sz h s =
     (let r = sys_alloc s (sys_allocs_done s) sz h;
          s = s\<lparr>sys_allocs_done := sys_allocs_done s + 1\<rparr>
      in (r, case r of None \<Rightarrow> s | Some (_, actual) \<Rightarrow> s\<lparr>heap_taken := heap_taken s + word_of_nat actual\<rparr>))"

definition RecordGrowth :: "nat \<Rightarrow> page_world \<Rightarrow> page_world" where
  "RecordGrowth growth s = s\<lparr>growth_stacks := growth # growth_stacks s\<rparr>"

definition grow_ask :: "nat \<Rightarrow> int \<Rightarrow> nat \<Rightarrow> page_world \<Rightarrow> ((ptr \<times> nat) option \<times> page_world) res" where
  "grow_ask fuel h ask s =
     rbind (EnsureLimit fuel h ask True s) (\<lambda>(ok, s).
       if ok then Inr (SystemAlloc_call (ask * 2 ^ kPageShift) h s) else Inr (None, s))"

text \<open>The second half of \<open>GrowHeap\<close>: the new pages become a span that is deleted.\<close>

definition grow_region :: "nat \<Rightarrow> int \<Rightarrow> ptr \<Rightarrow> nat \<Rightarrow> page_world \<Rightarrow> (bool \<times> page_world) res" where
  "grow_region fuel h ptr actual_size s =
     (let ask = actual_size div 2 ^ kPageShift;
          s = RecordGrowth (ask * 2 ^ kPageShift) s;
          s = upd_heap h (\<lambda>a. a\<lparr>system_bytes := system_bytes a + bytes64 ask, committed_bytes := committed_bytes a + bytes64 ask\<rparr>) s;
          p = unat ptr div 2 ^ kPageShift;
          (ok, t) = pm_Ensure (dec64 p) (ask + 2) (pagemap s);
          s = s\<lparr>pagemap := t\<rparr>
      in if ok
         then
           rbind (NewSpan p ask s) (\<lambda>(q, s).
             rbind (upd_span q (\<lambda>x. x\<lparr>sp_heaptype := h\<rparr>) s) (\<lambda>s.
               rbind (RecordSpan q s) (\<lambda>s.
                 rbind (Delete fuel h q s) (\<lambda>s. Inr (True, s)))))
         else Inr (False, s))"

definition GrowHeap :: "nat \<Rightarrow> int \<Rightarrow> nat \<Rightarrow> page_world \<Rightarrow> (bool \<times> page_world) res" where
  "GrowHeap fuel h n s =
     (if n > kMaxValidPages then Inr (False, s)
      else
        let ask = (if n > kMinSystemAlloc then n else kMinSystemAlloc)
        in rbind (grow_ask fuel h ask s) (\<lambda>(r, s).
           rbind (if r = None \<and> n < ask then grow_ask fuel h n s else Inr (r, s)) (\<lambda>(r, s).
             case r of
               None \<Rightarrow> Inr (False, s)
             | Some (ptr, actual_size) \<Rightarrow> grow_region fuel h ptr actual_size s)))"

definition force_coalesce :: "int \<Rightarrow> nat \<Rightarrow> page_world \<Rightarrow> bool" where
  "force_coalesce h n s \<longleftrightarrow>
     (let a = page_heaps s h
      in free_bytes a \<noteq> 0 \<and> unmapped_bytes a \<noteq> 0 \<and> free_bytes a + unmapped_bytes a \<ge> system_bytes a div 4 \<and>
         system_bytes a div kForcedCoalesceInterval \<noteq> (system_bytes a + bytes64 n) div kForcedCoalesceInterval)"

definition New :: "nat \<Rightarrow> int \<Rightarrow> nat \<Rightarrow> page_world \<Rightarrow> (ptr \<times> page_world) res" where
  "New fuel h n s =
     rbind (SearchFreeAndLargeLists fuel h n s) (\<lambda>(result, s).
       if result \<noteq> NULL then Inr (result, s)
       else
         rbind (if force_coalesce h n s
                then rbind (ReleaseAtLeastNPages fuel h 2147483647 s) (\<lambda>(_, s). SearchFreeAndLargeLists fuel h n s)
                else Inr (NULL, s)) (\<lambda>(result, s).
           if result \<noteq> NULL then Inr (result, s)
           else
             rbind (GrowHeap fuel h n s) (\<lambda>(ok, s).
               if ok then SearchFreeAndLargeLists fuel h n s else Inr (NULL, s))))"

section \<open>Size classes of spans\<close>

primrec set_range :: "nat list \<Rightarrow> ptr \<Rightarrow> page_world \<Rightarrow> page_world res" where
  "set_range [] p s = Inr s"
| "set_range (k # ks) p s = rbind (map_set k p s) (set_range ks p)"

definition RegisterSizeClass :: "ptr \<Rightarrow> nat \<Rightarrow> page_world \<Rightarrow> page_world res" where
  "RegisterSizeClass p sc s =
     rbind (upd_span p (\<lambda>x. x\<lparr>sp_sizeclass := sc mod 256\<rparr>) s) (\<lambda>s.
       rbind (get_span p s) (\<lambda>x. set_range (map (\<lambda>i. sp_start x + i) [1..<dec64 (sp_length x)]) p s))"

section \<open>Statistics and checks\<close>

definition GetSmallSpanStats :: "int \<Rightarrow> page_world \<Rightarrow> int list \<times> int list" where
  "GetSmallSpanStats h s =
     (map (\<lambda>i. DLL_Length (Freelist h i False) s) [0..<kMaxPages], map (\<lambda>i. DLL_Length (Freelist h i True) s) [0..<kMaxPages])"

primrec sum_pages :: "page_world \<Rightarrow> ptr list \<Rightarrow> nat res" where
  "sum_pages s [] = Inr 0"
| "sum_pages s (p # ps) = rbind (get_span p s) (\<lambda>x. rbind (sum_pages s ps) (\<lambda>n. Inr (sp_length x + n)))"

definition GetLargeSpanStats :: "int \<Rightarrow> page_world \<Rightarrow> (nat \<times> nat \<times> nat) res" where
  "GetLargeSpanStats h s =
     (let ns = span_lists s (Freelist h kMaxPages False); rs = span_lists s (Freelist h kMaxPages True)
      in rbind (sum_pages s ns) (\<lambda>normal_pages.
           rbind (sum_pages s rs) (\<lambda>returned_pages. Inr (length ns + length rs, normal_pages, returned_pages))))"

datatype range_type = INUSE | FREE | UNMAPPED

definition GetNextRange :: "size_map \<Rightarrow> nat \<Rightarrow> page_world \<Rightarrow> (nat \<times> nat \<times> rat \<times> range_type) option res" where
  "GetNextRange sizemap start s =
     (let p = pm_Next (pagemap s) start
      in if p = NULL then Inr None
         else
           rbind (get_span p s) (\<lambda>x.
             let address = sp_start x * 2 ^ kPageShift;
                 len = sp_length x * 2 ^ kPageShift
             in case sp_location x of
                  IN_USE \<Rightarrow>
                    if sp_sizeclass x > 0
                    then
                      rbind (rd (class_to_size sizemap) (int (sp_sizeclass x))) (\<lambda>osize.
                        Inr (Some (address, len, of_int osize * of_nat (sp_refcount x) / of_nat len, INUSE)))
                    else Inr (Some (address, len, 1, INUSE))
                | ON_NORMAL_FREELIST \<Rightarrow> Inr (Some (address, len, 0, FREE))
                | ON_RETURNED_FREELIST \<Rightarrow> Inr (Some (address, len, 0, UNMAPPED))))"

primrec CheckList :: "page_world \<Rightarrow> nat \<Rightarrow> nat \<Rightarrow> span_location \<Rightarrow> ptr list \<Rightarrow> bool res" where
  "CheckList s min_pages max_pages freelist [] = Inr True"
| "CheckList s min_pages max_pages freelist (p # ps) =
     rbind (get_span p s) (\<lambda>x.
       if sp_location x = freelist \<and> min_pages \<le> sp_length x \<and> sp_length x \<le> max_pages \<and>
          GetDescriptor (sp_start x) s = p \<and> GetDescriptor (sp_start x + sp_length x - 1) s = p
       then CheckList s min_pages max_pages freelist ps
       else Inl AssertFail)"

primrec check_exact :: "nat list \<Rightarrow> int \<Rightarrow> page_world \<Rightarrow> bool res" where
  "check_exact [] h s = Inr True"
| "check_exact (n # ns) h s =
     rbind (CheckList s n n ON_NORMAL_FREELIST (span_lists s (Freelist h n False))) (\<lambda>_.
       rbind (CheckList s n n ON_RETURNED_FREELIST (span_lists s (Freelist h n True))) (\<lambda>_. check_exact ns h s))"

definition CheckExpensive :: "int \<Rightarrow> page_world \<Rightarrow> bool res" where
  "CheckExpensive h s =
     rbind (CheckList s kMaxPages 1000000000 ON_NORMAL_FREELIST (span_lists s (Freelist h kMaxPages False))) (\<lambda>_.
       rbind (CheckList s kMaxPages 1000000000 ON_RETURNED_FREELIST (span_lists s (Freelist h kMaxPages True))) (\<lambda>_.
         check_exact [1..<kMaxPages] h s))"

section \<open>Initial state\<close>

definition page_heap_init :: "bool \<Rightarrow> page_heap" where
  "page_heap_init aggressive =
     \<lparr>system_bytes = 0, free_bytes = 0, unmapped_bytes = 0, committed_bytes = 0, scavenge_counter = 0,
      release_index = kMaxPages, aggressive_decommit = aggressive\<rparr>"

end
