(* ===== verification/Page_Heap_Invariant.thy ===== *)
theory Page_Heap_Invariant
  imports Page_Heap
begin

text \<open>
  The invariant of the page heaps and how the elementary steps keep it. The spans partition the pages that were
  obtained from the system; the page map finds a span at its first and last page, and at every page when it has a size class,
  which only spans in use have; every free span is in the list that
  its length, its location and its heap type determine; the byte counts of a heap are the lengths of its lists; no
  two neighbours that may be merged are both free. A set \<open>U\<close> holds the spans that an operation has
  taken off its list and is working on.
\<close>

section \<open>Invariant\<close>

definition rng :: "span \<Rightarrow> nat set" where
  "rng x = {sp_start x..<sp_start x + sp_length x}"

definition covered :: "(ptr \<Rightarrow> span option) \<Rightarrow> nat set" where
  "covered m = {k. \<exists>p x. m p = Some x \<and> k \<in> rng x}"

text \<open>A span with a size class is in use and every page of it leads to it.\<close>

definition classed :: "page_map3 \<Rightarrow> ptr \<Rightarrow> span \<Rightarrow> bool" where
  "classed t p x \<longleftrightarrow> (sp_sizeclass x \<noteq> 0 \<longrightarrow> sp_location x = IN_USE \<and> (\<forall>k \<in> rng x. pm_get t k = p))"

lemma classed_0 [simp]: "sp_sizeclass x = 0 \<Longrightarrow> classed t p x"
  by (simp add: classed_def)

lemma classed_mono: "classed t p x \<Longrightarrow> (\<And>j. pm_get t' j = pm_get t j \<or> pm_get t' j = p) \<Longrightarrow> classed t' p x"
  unfolding classed_def by metis

definition span_ok :: "page_map3 \<Rightarrow> ptr \<Rightarrow> span \<Rightarrow> bool" where
  "span_ok t p x \<longleftrightarrow> p \<noteq> NULL \<and> 0 < sp_start x \<and> 0 < sp_length x \<and> sp_start x + sp_length x < 2 ^ BITS \<and>
     pm_get t (sp_start x) = p \<and> pm_get t (sp_start x + sp_length x - 1) = p \<and>
     (\<forall>k. sp_start x \<le> k + 1 \<and> k \<le> sp_start x + sp_length x \<longrightarrow> ensured t k) \<and>
     classed t p x"

definition layout :: "(ptr \<Rightarrow> span option) \<Rightarrow> page_map3 \<Rightarrow> bool" where
  "layout m t \<longleftrightarrow> finite (dom m) \<and> card (covered m) < 2 ^ 31 \<and>
     (\<forall>p x. m p = Some x \<longrightarrow> span_ok t p x) \<and>
     (\<forall>p x q y. m p = Some x \<and> m q = Some y \<and> p \<noteq> q \<longrightarrow> rng x \<inter> rng y = {}) \<and>
     (\<forall>k. pm_get t k \<noteq> NULL \<longrightarrow> k \<in> covered m)"

definition alloc_ok :: "(ptr \<Rightarrow> span option) \<Rightarrow> object_allocator \<Rightarrow> bool" where
  "alloc_ok m a \<longleftrightarrow> (\<exists>L. dom m \<subseteq> L \<and> pa_ok sizeof_Span L a)"

definition link_of :: "(ptr \<Rightarrow> span option) \<Rightarrow> ptr \<Rightarrow> list_id option" where
  "link_of m p = (case m p of None \<Rightarrow> None | Some x \<Rightarrow> sp_link x)"

definition links :: "(ptr \<Rightarrow> span option) \<Rightarrow> (list_id \<Rightarrow> ptr list) \<Rightarrow> bool" where
  "links m L \<longleftrightarrow> (\<forall>l. distinct (L l) \<and> (\<forall>p. p \<in> set (L l) \<longleftrightarrow> link_of m p = Some l))"

definition home :: "span \<Rightarrow> list_id" where
  "home x = Freelist (sp_heaptype x) (list_index (sp_length x)) (sp_location x = ON_RETURNED_FREELIST)"

definition filed_span :: "ptr set \<Rightarrow> ptr \<Rightarrow> span \<Rightarrow> bool" where
  "filed_span U p x \<longleftrightarrow>
     (if p \<notin> U \<and> sp_location x \<noteq> IN_USE then sp_link x = Some (home x) else \<forall>h i r. sp_link x \<noteq> Some (Freelist h i r))"

definition filed :: "ptr set \<Rightarrow> (ptr \<Rightarrow> span option) \<Rightarrow> bool" where
  "filed U m \<longleftrightarrow> (\<forall>p x. m p = Some x \<longrightarrow> filed_span U p x)"

text \<open>The pages that a span contributes to the lists of a heap, and their sum.\<close>

definition contrib :: "int \<Rightarrow> bool \<Rightarrow> span option \<Rightarrow> nat" where
  "contrib h r v = (case v of None \<Rightarrow> 0 | Some x \<Rightarrow>
     (case sp_link x of Some (Freelist h' i r') \<Rightarrow> if h' = h \<and> r' = r then sp_length x else 0 | _ \<Rightarrow> 0))"

definition pages_on :: "(ptr \<Rightarrow> span option) \<Rightarrow> int \<Rightarrow> bool \<Rightarrow> nat" where
  "pages_on m h r = (\<Sum>p \<in> dom m. contrib h r (m p))"

definition stats_ok :: "(ptr \<Rightarrow> span option) \<Rightarrow> (int \<Rightarrow> page_heap) \<Rightarrow> bool" where
  "stats_ok m H \<longleftrightarrow> (\<forall>h. free_bytes (H h) = bytes64 (pages_on m h False) \<and> unmapped_bytes (H h) = bytes64 (pages_on m h True))"

definition mergeable :: "(int \<Rightarrow> page_heap) \<Rightarrow> span \<Rightarrow> span \<Rightarrow> bool" where
  "mergeable H x y \<longleftrightarrow> sp_heaptype x = sp_heaptype y \<and> sp_location x \<noteq> IN_USE \<and> sp_location y \<noteq> IN_USE \<and>
     (aggressive_decommit (H (sp_heaptype x)) \<or> sp_location x = sp_location y)"

definition coal :: "ptr set \<Rightarrow> (ptr \<Rightarrow> span option) \<Rightarrow> (int \<Rightarrow> page_heap) \<Rightarrow> bool" where
  "coal U m H \<longleftrightarrow> (\<forall>p x q y. m p = Some x \<and> m q = Some y \<and> p \<notin> U \<and> q \<notin> U \<and> sp_start x + sp_length x = sp_start y \<longrightarrow>
     \<not> mergeable H x y)"

definition ph_ok :: "ptr set \<Rightarrow> page_world \<Rightarrow> bool" where
  "ph_ok U s \<longleftrightarrow> layout (spans s) (pagemap s) \<and> alloc_ok (spans s) (span_allocator s) \<and> links (spans s) (span_lists s) \<and>
     filed U (spans s) \<and> stats_ok (spans s) (page_heaps s) \<and> coal U (spans s) (page_heaps s)"

section \<open>Lengths and byte counts\<close>

lemma bytes64_add: "bytes64 (m + n) = bytes64 m + bytes64 n"
  by (simp add: bytes64_def push_bit_eq_mult algebra_simps)

lemma bytes64_0 [simp]: "bytes64 0 = 0"
  by (simp add: bytes64_def)

lemma contrib_None [simp]: "contrib h r None = 0"
  by (simp add: contrib_def)

lemma pages_on_superset: "finite A \<Longrightarrow> dom m \<subseteq> A \<Longrightarrow> pages_on m h r = (\<Sum>p \<in> A. contrib h r (m p))"
  unfolding pages_on_def by (rule sum.mono_neutral_left) (auto simp: domIff contrib_def)

lemma pages_on_upd:
  assumes "finite (dom m)"
  shows "pages_on (m(p := v)) h r + contrib h r (m p) = pages_on m h r + contrib h r v"
proof -
  let ?A = "insert p (dom m)"
  have f: "finite ?A" "finite (?A - {p})" using assms by auto
  have "pages_on (m(p := v)) h r = contrib h r v + (\<Sum>q \<in> ?A - {p}. contrib h r ((m(p := v)) q))"
    using f by (subst pages_on_superset[of ?A]) (auto simp: sum.remove[of ?A p])
  moreover have "pages_on m h r = contrib h r (m p) + (\<Sum>q \<in> ?A - {p}. contrib h r (m q))"
    using f by (subst pages_on_superset[of ?A]) (auto simp: sum.remove[of ?A p])
  moreover have "(\<Sum>q \<in> ?A - {p}. contrib h r ((m(p := v)) q)) = (\<Sum>q \<in> ?A - {p}. contrib h r (m q))"
    by (rule sum.cong) auto
  ultimately show ?thesis by simp
qed

lemma covered_finite: "layout m t \<Longrightarrow> finite (covered m)"
proof (rule finite_subset)
  show "covered m \<subseteq> {..<2 ^ BITS}" if "layout m t"
    using that by (auto simp: covered_def layout_def span_ok_def rng_def intro: less_trans)
qed simp

lemma rng_covered: "m p = Some x \<Longrightarrow> rng x \<subseteq> covered m"
  by (auto simp: covered_def)

lemma span_length_bound:
  assumes "layout m t" and "m p = Some x"
  shows "sp_length x < 2 ^ 31"
proof -
  have "card (rng x) \<le> card (covered m)" using assms by (intro card_mono covered_finite rng_covered)
  then show ?thesis using assms(1) by (simp add: rng_def layout_def)
qed

text \<open>The pages covered when one span is put or removed.\<close>

definition extent_of :: "span option \<Rightarrow> nat set" where
  "extent_of v = (case v of None \<Rightarrow> {} | Some x \<Rightarrow> rng x)"

lemma extent_of_simps [simp]: "extent_of None = {}" "extent_of (Some x) = rng x"
  by (simp_all add: extent_of_def)

lemma covered_put: "covered (m(p := v)) = extent_of v \<union> covered (m(p := None))"
proof (cases v)
  case (Some x)
  have "k \<in> covered (m(p := v)) \<longleftrightarrow> k \<in> rng x \<or> k \<in> covered (m(p := None))" for k
  proof
    assume "k \<in> covered (m(p := v))"
    then show "k \<in> rng x \<or> k \<in> covered (m(p := None))" using Some by (auto simp: covered_def split: if_splits)
  next
    assume "k \<in> rng x \<or> k \<in> covered (m(p := None))"
    then show "k \<in> covered (m(p := v))"
    proof
      assume "k \<in> rng x"
      then have "(m(p := v)) p = Some x \<and> k \<in> rng x" using Some by simp
      then show ?thesis unfolding covered_def by blast
    next
      assume "k \<in> covered (m(p := None))"
      then obtain q y where "(m(p := None)) q = Some y" "k \<in> rng y" by (auto simp: covered_def)
      then have "(m(p := v)) q = Some y \<and> k \<in> rng y" by (auto split: if_splits)
      then show ?thesis unfolding covered_def by blast
    qed
  qed
  then show ?thesis using Some by auto
qed simp

lemma covered_take: "covered m = extent_of (m p) \<union> covered (m(p := None))"
  using covered_put[of m p "m p"] by simp

lemma covered_new: "m q = None \<Longrightarrow> covered (m(q \<mapsto> y)) = covered m \<union> rng y"
  using covered_put[of m q "Some y"] covered_take[of m q] by auto

section \<open>Changing the layout in one region\<close>

lemma layout_patch:
  assumes L: "layout m t" and P: "finite P"
    and agree: "\<And>z. z \<notin> P \<Longrightarrow> m' z = m z"
    and out: "\<And>z x. z \<notin> P \<Longrightarrow> m z = Some x \<Longrightarrow> rng x \<inter> R = {}"
    and old: "\<And>z x. z \<in> P \<Longrightarrow> m z = Some x \<Longrightarrow> rng x \<subseteq> R"
    and ok: "\<And>z x. z \<in> P \<Longrightarrow> m' z = Some x \<Longrightarrow> span_ok t' z x \<and> rng x \<subseteq> R"
    and dj: "\<And>z w x y. z \<in> P \<Longrightarrow> w \<in> P \<Longrightarrow> z \<noteq> w \<Longrightarrow> m' z = Some x \<Longrightarrow> m' w = Some y \<Longrightarrow> rng x \<inter> rng y = {}"
    and cov: "\<And>j. j \<in> R \<Longrightarrow> pm_get t' j \<noteq> NULL \<Longrightarrow> j \<in> covered m'"
    and get: "\<And>j. j \<notin> R \<Longrightarrow> pm_get t' j = pm_get t j"
    and ens: "\<And>j. ensured t j \<Longrightarrow> ensured t' j"
    and card: "card (covered m') < 2 ^ 31"
  shows "layout m' t'"
proof -
  have keep: "span_ok t' z x" if "z \<notin> P" "m z = Some x" for z x
  proof -
    have o: "span_ok t z x" using L that by (simp add: layout_def)
    then have "sp_start x \<in> rng x" "sp_start x + sp_length x - 1 \<in> rng x" by (auto simp: rng_def span_ok_def)
    then have "sp_start x \<notin> R" "sp_start x + sp_length x - 1 \<notin> R" using out[OF that] by auto
    moreover have "pm_get t' k = pm_get t k" if "k \<in> rng x" for k using that out[OF \<open>z \<notin> P\<close> \<open>m z = Some x\<close>] by (intro get) auto
    then have "classed t' z x" using o by (simp add: span_ok_def classed_def)
    ultimately show ?thesis using o get ens by (simp add: span_ok_def)
  qed
  have "dom m' \<subseteq> dom m \<union> P" using agree by (metis Un_iff domIff subsetI)
  then have "finite (dom m')" using L P by (auto simp: layout_def intro: finite_subset)
  moreover have "span_ok t' z x" if "m' z = Some x" for z x
    using that agree keep ok by (cases "z \<in> P") auto
  moreover have "rng x \<inter> rng y = {}" if "m' z = Some x" "m' w = Some y" "z \<noteq> w" for z w x y
  proof -
    have far: "rng x \<inter> rng y = {}" if "z \<in> P" "w \<notin> P" "m' z = Some x" "m' w = Some y" for z w x y
      using out[of w y] ok[of z x] agree[of w] that by auto
    show ?thesis
    proof (cases "z \<in> P"; cases "w \<in> P")
      show ?thesis if "z \<notin> P" "w \<notin> P" using that agree L \<open>m' z = Some x\<close> \<open>m' w = Some y\<close> \<open>z \<noteq> w\<close> by (auto simp: layout_def)
      show ?thesis if "z \<in> P" "w \<in> P" using dj[OF that \<open>z \<noteq> w\<close>] \<open>m' z = Some x\<close> \<open>m' w = Some y\<close> by simp
      show ?thesis if "z \<in> P" "w \<notin> P" using far[OF that] \<open>m' z = Some x\<close> \<open>m' w = Some y\<close> by simp
      show ?thesis if "z \<notin> P" "w \<in> P" using far[OF that(2,1)] \<open>m' z = Some x\<close> \<open>m' w = Some y\<close> by auto
    qed
  qed
  moreover have "j \<in> covered m'" if "pm_get t' j \<noteq> NULL" for j
  proof (cases "j \<in> R")
    case False
    then have "j \<in> covered m" using that get L by (auto simp: layout_def)
    then obtain z x where z: "m z = Some x" "j \<in> rng x" by (auto simp: covered_def)
    then have "z \<notin> P" using old[of z x] False by auto
    then have "m' z = Some x" using z agree by simp
    then show ?thesis using z(2) rng_covered[of m' z x] by blast
  qed (use cov that in simp)
  ultimately show ?thesis using card unfolding layout_def by blast
qed

text \<open>A field other than the extent changes.\<close>

lemma covered_relabel:
  assumes "m p = Some x" and "sp_start y = sp_start x" and "sp_length y = sp_length x"
  shows "covered (m(p \<mapsto> y)) = covered m"
proof -
  have "rng y = rng x" using assms(2,3) by (simp add: rng_def)
  then show ?thesis using assms(1) covered_put[of m p "Some y"] covered_take[of m p] by simp
qed

lemma classed_relabel:
  assumes "layout m t" and "m p = Some x" and "sp_start y = sp_start x" and "sp_length y = sp_length x"
    and "sp_sizeclass y \<noteq> 0 \<Longrightarrow> sp_sizeclass x \<noteq> 0 \<and> sp_location y = IN_USE"
  shows "classed t p y"
  using assms by (auto simp: layout_def span_ok_def classed_def rng_def)

lemma layout_relabel:
  assumes "layout m t" and "m p = Some x" and "sp_start y = sp_start x" and "sp_length y = sp_length x" and "classed t p y"
  shows "layout (m(p \<mapsto> y)) t"
proof -
  have r: "rng y = rng x" using assms(3,4) by (simp add: rng_def)
  have ox: "span_ok t p x" using assms(1,2) by (simp add: layout_def)
  then have ok: "span_ok t p y" using assms(3-5) by (simp add: span_ok_def)
  have c: "covered (m(p \<mapsto> y)) = covered m" using assms(2-4) by (rule covered_relabel)
  show ?thesis
  proof (rule layout_patch[OF assms(1), of "{p}" _ "rng x"])
    show "rng z \<inter> rng x = {}" if "w \<notin> {p}" "m w = Some z" for w z
      using assms(1,2) that unfolding layout_def by (metis insertCI)
    show "card (covered (m(p \<mapsto> y))) < 2 ^ 31" using c assms(1) by (simp add: layout_def)
    show "j \<in> covered (m(p \<mapsto> y))" if "j \<in> rng x" for j using that c rng_covered[of m p x] assms(2) by auto
  qed (use r ok assms(2) in \<open>auto split: if_splits\<close>)
qed

text \<open>Two neighbours become one.\<close>

lemma layout_absorb:
  assumes L: "layout m t" and p: "m p = Some x" and q: "m q = Some y" and pq: "p \<noteq> q"
    and x': "rng x' = rng x \<union> rng y" "0 < sp_length x'" "sp_start x' + sp_length x' < 2 ^ BITS"
      "0 < sp_start x'" "sp_sizeclass x' = 0"
    and get: "\<And>j. pm_get t' j = pm_get t j \<or> j \<in> rng x'" "pm_get t' (sp_start x') = p" "pm_get t' (sp_start x' + sp_length x' - 1) = p"
    and ens: "\<And>j. ensured t j \<Longrightarrow> ensured t' j" "\<And>k. sp_start x' \<le> k + 1 \<Longrightarrow> k \<le> sp_start x' + sp_length x' \<Longrightarrow> ensured t k"
  shows "layout (m(q := None, p \<mapsto> x')) t' \<and> covered (m(q := None, p \<mapsto> x')) = covered m"
proof -
  let ?m = "m(q := None, p \<mapsto> x')"
  have c: "covered ?m = covered m"
    using covered_put[of "m(q := None)" p "Some x'"] covered_take[of "m(q := None)" p] covered_take[of m q] p q pq x'(1) by auto
  have "layout ?m t'"
  proof (rule layout_patch[OF L, of "{p, q}" _ "rng x'"])
    show "rng z \<inter> rng x' = {}" if "w \<notin> {p, q}" "m w = Some z" for w z
      using L that p q unfolding layout_def x'(1) by (metis Int_Un_distrib insertCI sup_bot.right_neutral)
    show "span_ok t' z w \<and> rng w \<subseteq> rng x'" if "z \<in> {p, q}" "?m z = Some w" for z w
    proof -
      have "z = p" "w = x'" using that pq by (auto split: if_splits)
      moreover have "p \<noteq> NULL" using L p by (simp add: layout_def span_ok_def)
      ultimately show ?thesis using x' get(2,3) ens by (simp add: span_ok_def)
    qed
    show "pm_get t' j = pm_get t j" if "j \<notin> rng x'" for j using get(1) that by blast
    show "card (covered ?m) < 2 ^ 31" using c L by (simp add: layout_def)
    show "j \<in> covered ?m" if "j \<in> rng x'" for j using that rng_covered[of ?m p x'] by auto
  qed (use x'(1) p q pq ens(1) in \<open>auto split: if_splits\<close>)
  then show ?thesis using c by simp
qed

text \<open>One span becomes two.\<close>

lemma layout_split:
  assumes L: "layout m t" and p: "m p = Some x" and q: "m q = None" "q \<noteq> NULL"
    and ext: "sp_start x' = sp_start x" "sp_length x' = n" "sp_start y = sp_start x + n" "sp_length y = sp_length x - n"
      "0 < n" "n < sp_length x" "sp_sizeclass x' = 0" "sp_sizeclass y = 0"
    and get: "\<And>j. pm_get t' j = (if j = sp_start y \<or> j = sp_start y + sp_length y - 1 then q
                 else if j = sp_start x + n - 1 then p else pm_get t j)"
    and ens: "\<And>j. ensured t j \<Longrightarrow> ensured t' j"
  shows "layout (m(q \<mapsto> y, p \<mapsto> x')) t' \<and> covered (m(q \<mapsto> y, p \<mapsto> x')) = covered m"
proof -
  let ?m = "m(q \<mapsto> y, p \<mapsto> x')"
  have pq: "p \<noteq> q" using p q by auto
  have ox: "span_ok t p x" using L p by (simp add: layout_def)
  have r: "rng x = rng x' \<union> rng y" "rng x' \<inter> rng y = {}" using ext by (auto simp: rng_def)
  have c: "covered ?m = covered m"
    using covered_put[of "m(q \<mapsto> y)" p "Some x'"] covered_new[of "m(p := None)" q y] covered_take[of m p] p q pq r(1)
    by (auto simp: fun_upd_twist)
  have "layout ?m t'"
  proof (rule layout_patch[OF L, of "{p, q}" _ "rng x"])
    show "rng z \<inter> rng x = {}" if "w \<notin> {p, q}" "m w = Some z" for w z
      using L that p unfolding layout_def by (metis insertCI)
    show "span_ok t' z w \<and> rng w \<subseteq> rng x" if "z \<in> {p, q}" "?m z = Some w" for z w
    proof -
      have "span_ok t' p x'" using ox ext get ens by (auto simp: span_ok_def)
      moreover have "span_ok t' q y" using ox ext get ens q(2) by (auto simp: span_ok_def)
      ultimately show ?thesis using that pq r(1) by (auto split: if_splits)
    qed
    show "pm_get t' j = pm_get t j" if "j \<notin> rng x" for j
      using that get[of j] ext by (auto simp: rng_def)
    show "card (covered ?m) < 2 ^ 31" using c L by (simp add: layout_def)
    show "j \<in> covered ?m" if "j \<in> rng x" for j using that c rng_covered[of m p x] p by auto
  qed (use p q pq r ens in \<open>auto split: if_splits\<close>)
  then show ?thesis using c by simp
qed

text \<open>A span over new pages.\<close>

lemma layout_grow:
  assumes L: "layout m t" and q: "m q = None" and ok: "span_ok t' q y" and fresh: "rng y \<inter> covered m = {}"
    and card: "card (covered m \<union> rng y) < 2 ^ 31"
    and get: "\<And>j. j \<notin> rng y \<Longrightarrow> pm_get t' j = pm_get t j"
    and ens: "\<And>j. ensured t j \<Longrightarrow> ensured t' j"
  shows "layout (m(q \<mapsto> y)) t' \<and> covered (m(q \<mapsto> y)) = covered m \<union> rng y"
proof -
  have c: "covered (m(q \<mapsto> y)) = covered m \<union> rng y" using q by (rule covered_new)
  have "layout (m(q \<mapsto> y)) t'"
  proof (rule layout_patch[OF L, of "{q}" _ "rng y"])
    show "rng x \<inter> rng y = {}" if "m w = Some x" for w x using fresh rng_covered[of m w x] that by auto
    show "card (covered (m(q \<mapsto> y))) < 2 ^ 31" using c card by simp
  qed (use q ok get ens c in \<open>auto split: if_splits\<close>)
  then show ?thesis using c by simp
qed

section \<open>Neighbours\<close>

lemma span_before:
  assumes "layout m t" and "m q = Some y" and "sp_start y + sp_length y = k + 1"
  shows "pm_get t k = q"
proof -
  have "span_ok t q y" using assms(1,2) by (simp add: layout_def)
  then show ?thesis using assms(3) by (simp add: span_ok_def)
qed

lemma span_after:
  assumes "layout m t" and "m q = Some y"
  shows "pm_get t (sp_start y) = q"
  using assms by (simp add: layout_def span_ok_def)

lemma neighbour_before:
  assumes L: "layout m t" and p: "m p = Some x" and q: "pm_get t (sp_start x - 1) \<noteq> NULL"
  obtains y where "m (pm_get t (sp_start x - 1)) = Some y" "sp_start y + sp_length y = sp_start x" "pm_get t (sp_start x - 1) \<noteq> p"
proof -
  have ox: "span_ok t p x" using L p by (simp add: layout_def)
  have "sp_start x - 1 \<in> covered m" using L q by (auto simp: layout_def)
  then obtain z y where z: "m z = Some y" "sp_start x - 1 \<in> rng y" by (auto simp: covered_def)
  have "sp_start x - 1 \<notin> rng x" using ox by (auto simp: rng_def span_ok_def)
  then have zp: "z \<noteq> p" using z p by auto
  then have "rng y \<inter> rng x = {}" using L z(1) p by (auto simp: layout_def)
  moreover have "sp_start x \<in> rng x" using ox by (simp add: rng_def span_ok_def)
  ultimately have "sp_start x \<notin> rng y" by auto
  then have e: "sp_start y + sp_length y = sp_start x" using z(2) ox by (auto simp: rng_def span_ok_def)
  have "pm_get t (sp_start x - 1) = z" using ox by (intro span_before[of m t z y]) (simp_all add: L z e span_ok_def)
  then show thesis using that z(1) zp e by simp
qed

lemma neighbour_after:
  assumes L: "layout m t" and p: "m p = Some x" and q: "pm_get t (sp_start x + sp_length x) \<noteq> NULL"
  obtains y where "m (pm_get t (sp_start x + sp_length x)) = Some y" "sp_start y = sp_start x + sp_length x"
    "pm_get t (sp_start x + sp_length x) \<noteq> p"
proof -
  have ox: "span_ok t p x" using L p by (simp add: layout_def)
  have "sp_start x + sp_length x \<in> covered m" using L q by (auto simp: layout_def)
  then obtain z y where z: "m z = Some y" "sp_start x + sp_length x \<in> rng y" by (auto simp: covered_def)
  have "sp_start x + sp_length x \<notin> rng x" by (auto simp: rng_def)
  then have zp: "z \<noteq> p" using z p by auto
  then have "rng y \<inter> rng x = {}" using L z(1) p by (auto simp: layout_def)
  moreover have "sp_start x + sp_length x - 1 \<in> rng x" using ox by (auto simp: rng_def span_ok_def)
  ultimately have "sp_start x + sp_length x - 1 \<notin> rng y" by auto
  then have e: "sp_start y = sp_start x + sp_length x" using z(2) ox by (auto simp: rng_def span_ok_def)
  have "pm_get t (sp_start x + sp_length x) = z" using span_after[of m t z y] L z(1) e by simp
  then show thesis using that z(1) zp e by simp
qed

section \<open>Changing one span\<close>

lemma link_of_put: "link_of (m(p := v)) q = (if q = p then (case v of None \<Rightarrow> None | Some x \<Rightarrow> sp_link x) else link_of m q)"
  by (simp add: link_of_def)

lemma links_put: "links m L \<Longrightarrow> link_of (m(p := v)) p = link_of m p \<Longrightarrow> links (m(p := v)) L"
  unfolding links_def by (metis link_of_put)

lemma filed_put:
  assumes "filed U m" and "\<And>q. q \<noteq> p \<Longrightarrow> q \<in> U' \<longleftrightarrow> q \<in> U" and "\<And>x. v = Some x \<Longrightarrow> filed_span U' p x"
  shows "filed U' (m(p := v))"
  using assms by (auto simp: filed_def filed_span_def)

lemma stats_put:
  assumes "stats_ok m H" and "finite (dom m)"
    and "\<And>h. free_bytes (H' h) + bytes64 (contrib h False (m p)) = free_bytes (H h) + bytes64 (contrib h False v)"
    and "\<And>h. unmapped_bytes (H' h) + bytes64 (contrib h True (m p)) = unmapped_bytes (H h) + bytes64 (contrib h True v)"
  shows "stats_ok (m(p := v)) H'"
proof -
  have e: "bytes64 (pages_on (m(p := v)) h r) + bytes64 (contrib h r (m p)) = bytes64 (pages_on m h r) + bytes64 (contrib h r v)" for h r
    using pages_on_upd[OF assms(2), of p v h r] by (metis bytes64_add)
  show ?thesis unfolding stats_ok_def
  proof (intro allI conjI)
    fix h
    show "free_bytes (H' h) = bytes64 (pages_on (m(p := v)) h False)"
      using assms(1) assms(3)[of h] e[of h False] unfolding stats_ok_def by (metis add_right_cancel)
    show "unmapped_bytes (H' h) = bytes64 (pages_on (m(p := v)) h True)"
      using assms(1) assms(4)[of h] e[of h True] unfolding stats_ok_def by (metis add_right_cancel)
  qed
qed

lemma stats_same: "stats_ok m H \<Longrightarrow> finite (dom m) \<Longrightarrow> (\<And>h r. contrib h r v = contrib h r (m p)) \<Longrightarrow> stats_ok (m(p := v)) H"
  by (rule stats_put) simp_all

definition same_mode :: "(int \<Rightarrow> page_heap) \<Rightarrow> (int \<Rightarrow> page_heap) \<Rightarrow> bool" where
  "same_mode H H' \<longleftrightarrow> (\<forall>h. aggressive_decommit (H' h) = aggressive_decommit (H h))"

lemma mergeable_mode: "same_mode H H' \<Longrightarrow> mergeable H' x y = mergeable H x y"
  by (simp add: same_mode_def mergeable_def)

lemma coal_put:
  assumes "coal U m H" and "same_mode H H'" and "p \<in> U'" and "U \<subseteq> U'"
  shows "coal U' (m(p := v)) H'"
  using assms unfolding coal_def mergeable_mode[OF assms(2)] by (metis fun_upd_other subsetD)

text \<open>A span that has no free neighbour of its kind goes back to its list.\<close>

definition alone :: "ptr set \<Rightarrow> ptr \<Rightarrow> span \<Rightarrow> (ptr \<Rightarrow> span option) \<Rightarrow> (int \<Rightarrow> page_heap) \<Rightarrow> bool" where
  "alone U p x m H \<longleftrightarrow> (\<forall>q y. m q = Some y \<and> q \<noteq> p \<and> q \<notin> U \<longrightarrow>
     (sp_start x + sp_length x = sp_start y \<longrightarrow> \<not> mergeable H x y) \<and>
     (sp_start y + sp_length y = sp_start x \<longrightarrow> \<not> mergeable H y x))"

lemma coal_file:
  assumes "coal U m H" and "same_mode H H'" and "alone U p x m H" and "0 < sp_length x" and "U - {p} \<subseteq> U'"
  shows "coal U' (m(p \<mapsto> x)) H'"
  unfolding coal_def
proof (intro allI impI)
  fix a xa b xb
  assume h: "(m(p \<mapsto> x)) a = Some xa \<and> (m(p \<mapsto> x)) b = Some xb \<and> a \<notin> U' \<and> b \<notin> U' \<and> sp_start xa + sp_length xa = sp_start xb"
  have u: "a \<noteq> p \<Longrightarrow> a \<notin> U" "b \<noteq> p \<Longrightarrow> b \<notin> U" using h assms(5) by auto
  have "\<not> mergeable H xa xb"
  proof (cases "a = p"; cases "b = p")
    show ?thesis if "a = p" "b = p" using h that assms(4) by auto
    show ?thesis if "a = p" "b \<noteq> p" using h that u(2) assms(3) by (auto simp: alone_def)
    show ?thesis if "a \<noteq> p" "b = p" using h that u(1) assms(3) by (auto simp: alone_def)
    show ?thesis if "a \<noteq> p" "b \<noteq> p" using h that u assms(1) by (auto simp: coal_def)
  qed
  then show "\<not> mergeable H' xa xb" by (simp add: mergeable_mode[OF assms(2)])
qed

lemma alloc_ok_relabel:
  assumes "alloc_ok m a" and "m p = Some x"
  shows "alloc_ok (m(p \<mapsto> y)) a"
proof -
  have "dom (m(p \<mapsto> y)) = dom m" using assms(2) by auto
  then show ?thesis using assms(1) by (simp add: alloc_ok_def)
qed

lemma alloc_ok_delete:
  assumes "alloc_ok m a" and "m p = Some x"
  shows "alloc_ok (m(p := None)) (pa_Delete p a)"
proof -
  obtain L where L: "dom m \<subseteq> L" "pa_ok sizeof_Span L a" using assms(1) by (auto simp: alloc_ok_def)
  have "p \<in> L" using L(1) assms(2) by auto
  then have "pa_ok sizeof_Span (L - {p}) (pa_Delete p a)" by (rule span_source.del_ok[OF L(2)])
  moreover have "dom (m(p := None)) \<subseteq> L - {p}" using L(1) by auto
  ultimately show ?thesis unfolding alloc_ok_def by blast
qed

lemma alloc_ok_new:
  assumes "alloc_ok m a" and "pa_New sizeof_Span a = Inr (q, a')"
  shows "q \<noteq> NULL \<and> m q = None \<and> alloc_ok (m(q \<mapsto> y)) a'"
proof -
  obtain L where L: "dom m \<subseteq> L" "pa_ok sizeof_Span L a" using assms(1) by (auto simp: alloc_ok_def)
  note f = span_source.new_fresh[OF L(2) assms(2)]
  then have "q \<notin> dom m" using L(1) by auto
  moreover have "dom (m(q \<mapsto> y)) \<subseteq> insert q L" using L(1) by auto
  ultimately show ?thesis using f unfolding alloc_ok_def by (auto simp: domIff)
qed

end
