(* ===== verification/Page_Heap_Steps.thy ===== *)
theory Page_Heap_Steps
  imports Page_Heap_Invariant
begin

text \<open>
  The elementary operations of the page heap keep the invariant: taking a span off its list and putting it back,
  merging it with a neighbour, splitting it, adding new pages.
\<close>

text \<open>What no operation on the lists changes.\<close>

definition same_env :: "page_world \<Rightarrow> page_world \<Rightarrow> bool" where
  "same_env s s' \<longleftrightarrow> same_mode (page_heaps s) (page_heaps s') \<and> heap_limit_mb s' = heap_limit_mb s \<and>
     release_rate s' = release_rate s \<and> sys_alloc s' = sys_alloc s \<and> sys_allocs_done s' = sys_allocs_done s \<and>
     sys_release s' = sys_release s \<and> pm_alloc (pagemap s') = pm_alloc (pagemap s) \<and> pm_allocs (pagemap s') = pm_allocs (pagemap s)"

lemma same_mode_refl [simp]: "same_mode H H"
  by (simp add: same_mode_def)

lemma same_env_refl [simp]: "same_env s s"
  by (simp add: same_env_def same_mode_def)

lemma same_env_trans: "same_env s s' \<Longrightarrow> same_env s' s'' \<Longrightarrow> same_env s s''"
  by (simp add: same_env_def same_mode_def)

lemma pm_set_alloc: "pm_set k v t = Inr t' \<Longrightarrow> pm_alloc t' = pm_alloc t \<and> pm_allocs t' = pm_allocs t"
  by (auto simp: pm_set_def split: if_splits option.splits)

lemma get_span_ok: "layout (spans s) t \<Longrightarrow> spans s p = Some x \<Longrightarrow> get_span p s = Inr x"
  by (simp add: get_span_def layout_def span_ok_def)

lemmas world_simps = put_span_def upd_heap_def upd_span_def

lemma wf_layout: "ph_ok U s \<Longrightarrow> layout (spans s) (pagemap s)"
  by (simp add: ph_ok_def)

lemma free_no_class: "layout m t \<Longrightarrow> m p = Some x \<Longrightarrow> sp_location x \<noteq> IN_USE \<Longrightarrow> sp_sizeclass x = 0"
  by (auto simp: layout_def span_ok_def classed_def)

lemma class_in_use: "layout m t \<Longrightarrow> m p = Some x \<Longrightarrow> sp_sizeclass x \<noteq> 0 \<Longrightarrow> sp_location x = IN_USE"
  by (auto simp: layout_def span_ok_def classed_def)

lemma wf_finite: "ph_ok U s \<Longrightarrow> finite (dom (spans s))"
  by (simp add: ph_ok_def layout_def)

section \<open>Off the list and back\<close>

lemma contrib_home: "sp_link x = Some (home x) \<Longrightarrow>
  contrib h r (Some x) = (if h = sp_heaptype x \<and> r = (sp_location x = ON_RETURNED_FREELIST) then sp_length x else 0)"
  by (auto simp: contrib_def home_def)

lemma contrib_unlinked: "\<forall>h i r. sp_link x \<noteq> Some (Freelist h i r) \<Longrightarrow> contrib h r (Some x) = 0"
  by (auto simp: contrib_def split: option.splits list_id.splits)

lemma contrib_same: "sp_link y = sp_link x \<Longrightarrow> sp_length y = sp_length x \<Longrightarrow> contrib h r (Some y) = contrib h r (Some x)"
  by (auto simp: contrib_def split: option.split list_id.split)

lemma links_remove:
  assumes "links m L" and "m p = Some x" and "sp_link x = Some l"
  shows "links (m(p \<mapsto> x\<lparr>sp_link := None\<rparr>)) (L(l := remove1 p (L l)))"
  using assms unfolding links_def link_of_put by (auto simp: link_of_def)

lemma links_prepend:
  assumes "links m L" and "m p = Some x" and "sp_link x = None"
  shows "links (m(p \<mapsto> x\<lparr>sp_link := Some l\<rparr>)) (L(l := p # L l))"
  using assms unfolding links_def link_of_put by (auto simp: link_of_def)

definition take_off :: "int \<Rightarrow> ptr \<Rightarrow> span \<Rightarrow> page_world \<Rightarrow> page_world" where
  "take_off h p x s = s\<lparr>spans := (spans s)(p \<mapsto> x\<lparr>sp_link := None\<rparr>),
     span_lists := (span_lists s)(home x := remove1 p (span_lists s (home x))),
     page_heaps := (page_heaps s)(h :=
       (if sp_location x = ON_NORMAL_FREELIST
        then (page_heaps s h)\<lparr>free_bytes := free_bytes (page_heaps s h) - bytes64 (sp_length x)\<rparr>
        else (page_heaps s h)\<lparr>unmapped_bytes := unmapped_bytes (page_heaps s h) - bytes64 (sp_length x)\<rparr>))\<rparr>"

lemma take_off_fields [simp]:
  "spans (take_off h p x s) = (spans s)(p \<mapsto> x\<lparr>sp_link := None\<rparr>)" "pagemap (take_off h p x s) = pagemap s"
  "span_allocator (take_off h p x s) = span_allocator s" "same_env s (take_off h p x s)"
  "sys_releases_done (take_off h p x s) = sys_releases_done s" "sys_release (take_off h p x s) = sys_release s"
  by (simp_all add: take_off_def same_env_def same_mode_def)

lemma take_off_step:
  assumes wf: "ph_ok U s" and p: "spans s p = Some x" "p \<notin> U" and x: "sp_location x \<noteq> IN_USE" "sp_heaptype x = h"
  shows "RemoveFromFreeList h p s = Inr (take_off h p x s) \<and> ph_ok (insert p U) (take_off h p x s)"
proof -
  have g: "get_span p s' = Inr x" if "spans s' = spans s" for s'
    using get_span_ok[of s' "pagemap s" p x] wf p(1) that by (simp add: ph_ok_def)
  have l: "sp_link x = Some (home x)" using wf p x(1) by (auto simp: ph_ok_def filed_def filed_span_def)
  have 1: "RemoveFromFreeList h p s = Inr (take_off h p x s)"
    by (simp add: RemoveFromFreeList_def DLL_Remove_def g l take_off_def world_simps)
  let ?s = "take_off h p x s"
  have "layout (spans ?s) (pagemap ?s)" unfolding take_off_fields(1,2)
    by (rule layout_relabel[OF wf_layout[OF wf] p(1)], simp, simp, rule classed_relabel[OF wf_layout[OF wf] p(1)])
      (use class_in_use[OF wf_layout[OF wf] p(1)] in auto)
  moreover have "alloc_ok (spans ?s) (span_allocator ?s)" using wf p(1) by (simp add: ph_ok_def alloc_ok_relabel)
  moreover have "links (spans ?s) (span_lists ?s)" using wf p(1) l by (simp add: ph_ok_def links_remove take_off_def)
  moreover have "filed (insert p U) (spans ?s)"
  proof -
    have "filed U (spans s)" using wf by (simp add: ph_ok_def)
    then show ?thesis unfolding take_off_fields(1) by (rule filed_put) (auto simp: filed_span_def)
  qed
  moreover have "stats_ok (spans ?s) (page_heaps ?s)"
  proof -
    have c: "contrib h' r (Some (x\<lparr>sp_link := None\<rparr>)) = 0" for h' r by (simp add: contrib_def)
    have "stats_ok (spans s) (page_heaps s)" using wf by (simp add: ph_ok_def)
    then have "stats_ok ((spans s)(p \<mapsto> x\<lparr>sp_link := None\<rparr>)) (page_heaps ?s)"
      using x by (intro stats_put[of _ "page_heaps s"] wf_finite[OF wf])
        (cases "sp_location x"; auto simp: c p(1) contrib_home[OF l] take_off_def)+
    then show ?thesis by simp
  qed
  moreover have "coal (insert p U) (spans ?s) (page_heaps ?s)"
  proof -
    have "coal U (spans s) (page_heaps s)" "same_mode (page_heaps s) (page_heaps ?s)"
      using wf take_off_fields(4)[of s h p x] by (simp_all add: ph_ok_def same_env_def)
    then show ?thesis by (simp add: coal_put[of U] subset_insertI)
  qed
  ultimately show ?thesis using 1 by (simp add: ph_ok_def)
qed

definition put_back :: "int \<Rightarrow> ptr \<Rightarrow> span \<Rightarrow> page_world \<Rightarrow> page_world" where
  "put_back h p x s = s\<lparr>spans := (spans s)(p \<mapsto> x\<lparr>sp_link := Some (home x)\<rparr>),
     span_lists := (span_lists s)(home x := p # span_lists s (home x)),
     page_heaps := (page_heaps s)(h :=
       (if sp_location x = ON_NORMAL_FREELIST
        then (page_heaps s h)\<lparr>free_bytes := free_bytes (page_heaps s h) + bytes64 (sp_length x)\<rparr>
        else (page_heaps s h)\<lparr>unmapped_bytes := unmapped_bytes (page_heaps s h) + bytes64 (sp_length x)\<rparr>))\<rparr>"

lemma put_back_fields [simp]:
  "spans (put_back h p x s) = (spans s)(p \<mapsto> x\<lparr>sp_link := Some (home x)\<rparr>)" "pagemap (put_back h p x s) = pagemap s"
  "span_allocator (put_back h p x s) = span_allocator s" "same_env s (put_back h p x s)"
  "sys_releases_done (put_back h p x s) = sys_releases_done s" "sys_release (put_back h p x s) = sys_release s"
  by (simp_all add: put_back_def same_env_def same_mode_def)

lemma put_back_step:
  assumes wf: "ph_ok U s" and p: "spans s p = Some x" "p \<in> U" and x: "sp_location x \<noteq> IN_USE" "sp_heaptype x = h" "sp_link x = None"
    and al: "alone U p x (spans s) (page_heaps s)"
  shows "PrependToFreeList h p s = Inr (put_back h p x s) \<and> ph_ok (U - {p}) (put_back h p x s)"
proof -
  have g: "get_span p s' = Inr x" if "spans s' = spans s" for s'
    using get_span_ok[of s' "pagemap s" p x] wf p(1) that by (simp add: ph_ok_def)
  have 1: "PrependToFreeList h p s = Inr (put_back h p x s)"
    using x by (cases "sp_location x") (simp_all add: PrependToFreeList_def DLL_Prepend_def g home_def put_back_def world_simps)
  let ?s = "put_back h p x s" and ?x = "x\<lparr>sp_link := Some (home x)\<rparr>"
  have hm: "home ?x = home x" by (simp add: home_def)
  have "layout (spans ?s) (pagemap ?s)" unfolding put_back_fields(1,2)
    by (rule layout_relabel[OF wf_layout[OF wf] p(1)], simp, simp, rule classed_relabel[OF wf_layout[OF wf] p(1)])
      (use class_in_use[OF wf_layout[OF wf] p(1)] in auto)
  moreover have "alloc_ok (spans ?s) (span_allocator ?s)" using wf p(1) by (simp add: ph_ok_def alloc_ok_relabel)
  moreover have "links (spans ?s) (span_lists ?s)" using wf p(1) x(3) by (simp add: ph_ok_def links_prepend put_back_def)
  moreover have "filed (U - {p}) (spans ?s)"
  proof -
    have "filed U (spans s)" using wf by (simp add: ph_ok_def)
    then show ?thesis unfolding put_back_fields(1) using x(1) by (intro filed_put[of U]) (auto simp: filed_span_def hm)
  qed
  moreover have "stats_ok (spans ?s) (page_heaps ?s)"
  proof -
    have c: "contrib h' r (Some x) = 0" for h' r by (rule contrib_unlinked) (simp add: x(3))
    have d: "contrib h' r (Some ?x) = (if h' = h \<and> r = (sp_location x = ON_RETURNED_FREELIST) then sp_length x else 0)" for h' r
      using contrib_home[of ?x h' r] hm x(2) by simp
    have "stats_ok (spans s) (page_heaps s)" using wf by (simp add: ph_ok_def)
    then have "stats_ok ((spans s)(p \<mapsto> ?x)) (page_heaps ?s)"
      using x(1) by (intro stats_put[of _ "page_heaps s"] wf_finite[OF wf])
        (cases "sp_location x"; auto simp: c p(1) d put_back_def)+
    then show ?thesis by simp
  qed
  moreover have "coal (U - {p}) (spans ?s) (page_heaps ?s)"
  proof -
    have "coal U (spans s) (page_heaps s)" "same_mode (page_heaps s) (page_heaps ?s)"
      using wf put_back_fields(4)[of s h p x] by (simp_all add: ph_ok_def same_env_def)
    moreover have "alone U p ?x (spans s) (page_heaps s)" using al by (simp add: alone_def mergeable_def)
    moreover have "0 < sp_length ?x" using wf p(1) by (simp add: ph_ok_def layout_def span_ok_def)
    ultimately show ?thesis by (simp add: coal_file[of U])
  qed
  ultimately show ?thesis using 1 by (simp add: ph_ok_def)
qed

section \<open>Fields of a span that is being worked on\<close>

lemma wf_put_classed:
  assumes wf: "ph_ok U s" and p: "spans s p = Some x" "p \<in> U"
    and y: "sp_start y = sp_start x" "sp_length y = sp_length x" "sp_link y = sp_link x"
      "classed (pagemap s) p y"
  shows "ph_ok U (put_span p y s)"
proof -
  let ?m = "(spans s)(p \<mapsto> y)"
  have "layout ?m (pagemap s)" by (rule layout_relabel[OF wf_layout[OF wf] p(1) y(1,2,4)])
  moreover have "alloc_ok ?m (span_allocator s)" using wf p(1) by (simp add: ph_ok_def alloc_ok_relabel)
  moreover have "links ?m (span_lists s)"
  proof (rule links_put)
    show "link_of ?m p = link_of (spans s) p" using p(1) y(3) by (simp add: link_of_def)
  qed (use wf in \<open>simp add: ph_ok_def\<close>)
  moreover have "filed U ?m"
  proof (rule filed_put)
    have "filed_span U p x" using wf p(1) by (simp add: ph_ok_def filed_def)
    then show "filed_span U p z" if "Some y = Some z" for z using that p(2) y(3) by (simp add: filed_span_def)
  qed (use wf in \<open>simp_all add: ph_ok_def\<close>)
  moreover have "stats_ok ?m (page_heaps s)"
    using wf p(1) contrib_same[OF y(3,2)] wf_finite[OF wf] by (intro stats_same) (simp_all add: ph_ok_def)
  moreover have "coal U ?m (page_heaps s)"
    using wf p(2) by (intro coal_put[of U _ "page_heaps s"]) (simp_all add: ph_ok_def)
  ultimately show ?thesis by (simp add: ph_ok_def put_span_def)
qed

lemma wf_put:
  assumes wf: "ph_ok U s" and p: "spans s p = Some x" "p \<in> U"
    and y: "sp_start y = sp_start x" "sp_length y = sp_length x" "sp_link y = sp_link x"
      "sp_sizeclass y \<noteq> 0 \<Longrightarrow> sp_sizeclass x \<noteq> 0 \<and> sp_location y = IN_USE"
  shows "ph_ok U (put_span p y s)"
  by (rule wf_put_classed[OF wf p y(1-3) classed_relabel[OF wf_layout[OF wf] p(1) y(1,2,4)]])

lemma wf_in_use:
  assumes "ph_ok U s" and "spans s p = Some x" and "sp_location x = IN_USE"
  shows "ph_ok (U - {p}) s" "ph_ok (insert p U) s"
proof -
  have "filed (U - {p}) (spans s)" "filed (insert p U) (spans s)"
    using assms by (auto simp: ph_ok_def filed_def filed_span_def)
  moreover have "coal (U - {p}) (spans s) (page_heaps s)" "coal (insert p U) (spans s) (page_heaps s)"
    using assms unfolding ph_ok_def coal_def by (auto simp: mergeable_def)
  ultimately show "ph_ok (U - {p}) s" "ph_ok (insert p U) s" using assms(1) by (simp_all add: ph_ok_def)
qed

lemma wf_heap:
  assumes "ph_ok U s" and "\<And>a. free_bytes (f a) = free_bytes a \<and> unmapped_bytes (f a) = unmapped_bytes a \<and>
    aggressive_decommit (f a) = aggressive_decommit a"
  shows "ph_ok U (upd_heap h f s)" "same_env s (upd_heap h f s)"
proof -
  have "stats_ok (spans s) (page_heaps (upd_heap h f s))" using assms by (simp add: ph_ok_def stats_ok_def upd_heap_def)
  moreover have m: "same_mode (page_heaps s) (page_heaps (upd_heap h f s))" using assms(2) by (simp add: same_mode_def upd_heap_def)
  then have "coal U (spans s) (page_heaps (upd_heap h f s))" using assms(1) unfolding ph_ok_def coal_def mergeable_mode[OF m] by blast
  ultimately show "ph_ok U (upd_heap h f s)" using assms(1) by (simp add: ph_ok_def upd_heap_def)
  show "same_env s (upd_heap h f s)" using m by (simp add: same_env_def upd_heap_def)
qed

lemma wf_releases: "ph_ok U (s\<lparr>sys_releases_done := n\<rparr>) = ph_ok U s"
  by (simp add: ph_ok_def)

section \<open>Merging with a neighbour\<close>

lemma absorb_step:
  assumes wf: "ph_ok U s" and p: "spans s p = Some x" "p \<in> U" and q: "spans s q = Some y" "q \<in> U" "p \<noteq> q"
    and l: "sp_link x = None" "sp_link y = None" and f: "sp_link (f x) = None" "sp_sizeclass (f x) = 0"
    and ext: "sp_start x + sp_length x = sp_start y \<and> sp_start (f x) = sp_start x \<and> k = sp_start y + sp_length y - 1 \<or>
      sp_start y + sp_length y = sp_start x \<and> sp_start (f x) = sp_start y \<and> k = sp_start y"
      "sp_length (f x) = sp_length x + sp_length y"
  obtains s' where "rbind (upd_span p f (DeleteSpan q s)) (map_set k p) = Inr s'" "ph_ok (U - {q}) s'"
    "spans s' = (spans s)(q := None, p \<mapsto> f x)" "covered (spans s') = covered (spans s)" "page_heaps s' = page_heaps s" "same_env s s'"
proof -
  have L: "layout (spans s) (pagemap s)" using wf by (rule wf_layout)
  have ox: "span_ok (pagemap s) p x" and oy: "span_ok (pagemap s) q y" using L p(1) q(1) by (simp_all add: layout_def)
  have "ensured (pagemap s) k" using oy ext(1) by (auto simp: span_ok_def)
  then obtain t where t: "pm_set k p (pagemap s) = Inr t" "\<And>j. pm_get t j = (if j = k then p else pm_get (pagemap s) j)"
      "\<And>j. ensured t j = ensured (pagemap s) j"
    by (rule pm_set_ok[where v = p]) metis
  let ?m = "(spans s)(q := None, p \<mapsto> f x)"
  define s' where "s' = s\<lparr>spans := ?m, span_allocator := pa_Delete q (span_allocator s), pagemap := t\<rparr>"
  have g: "get_span p (DeleteSpan q s) = Inr x"
    using ox p(1) q(3) by (simp add: get_span_def DeleteSpan_def span_ok_def)
  have 1: "rbind (upd_span p f (DeleteSpan q s)) (map_set k p) = Inr s'"
    unfolding upd_span_def g rbind_Inr using t(1) by (simp add: map_set_def put_span_def DeleteSpan_def s'_def)
  have "layout ?m t \<and> covered ?m = covered (spans s)"
  proof (rule layout_absorb[OF L p(1) q(1,3)])
    show "rng (f x) = rng x \<union> rng y" using ext ox oy by (auto simp: rng_def span_ok_def)
    show "pm_get t j = pm_get (pagemap s) j \<or> j \<in> rng (f x)" for j using t(2) ext oy by (auto simp: rng_def span_ok_def)
    show "pm_get t (sp_start (f x)) = p" "pm_get t (sp_start (f x) + sp_length (f x) - 1) = p"
      using t(2) ext ox oy by (auto simp: span_ok_def add.assoc[symmetric] add.commute[of "sp_length x"])
    show "ensured (pagemap s) j" if "sp_start (f x) \<le> j + 1" "j \<le> sp_start (f x) + sp_length (f x)" for j
      using ext ox oy that unfolding span_ok_def by (cases "sp_start y \<le> j + 1 \<and> j \<le> sp_start y + sp_length y") auto
    show "0 < sp_length (f x)" "0 < sp_start (f x)" "sp_start (f x) + sp_length (f x) < 2 ^ BITS"
      using ext ox oy by (auto simp: span_ok_def)
    show "sp_sizeclass (f x) = 0" by (rule f(2))
  qed (use t(3) in simp)
  moreover have "alloc_ok ?m (pa_Delete q (span_allocator s))"
    using wf p(1) q(1,3) alloc_ok_relabel[OF alloc_ok_delete, of "spans s" "span_allocator s" q y p x "f x"] by (simp add: ph_ok_def)
  moreover have "links ?m (span_lists s)"
  proof (rule links_put[OF links_put])
    show "link_of ((spans s)(q := None)) q = link_of (spans s) q" using q(1) l(2) by (simp add: link_of_def)
    show "link_of ?m p = link_of ((spans s)(q := None)) p" using p(1) q(3) l(1) f by (simp add: link_of_def)
  qed (use wf in \<open>simp add: ph_ok_def\<close>)
  moreover have "filed (U - {q}) ?m"
  proof (rule filed_put[OF filed_put])
    show "filed U (spans s)" using wf by (simp add: ph_ok_def)
    show "z \<in> U - {q} \<longleftrightarrow> z \<in> U" if "z \<noteq> q" for z using that by simp
    show "filed_span (U - {q}) p z" if "Some (f x) = Some z" for z using that f p(2) q(3) by (auto simp: filed_span_def)
  qed simp_all
  moreover have "stats_ok ?m (page_heaps s)"
  proof (rule stats_same[OF stats_same])
    show "contrib h r None = contrib h r (spans s q)" for h r using q(1) l(2) by (simp add: contrib_unlinked)
    show "contrib h r (Some (f x)) = contrib h r (((spans s)(q := None)) p)" for h r
      using p(1) q(3) l(1) f by (simp add: contrib_unlinked)
  qed (use wf wf_finite[OF wf] in \<open>simp_all add: ph_ok_def\<close>)
  moreover have "coal (U - {q}) ?m (page_heaps s)"
  proof -
    have "coal U (spans s) (page_heaps s)" using wf by (simp add: ph_ok_def)
    then have "coal U ((spans s)(q := None)) (page_heaps s)" using q(2) by (intro coal_put[of U _ "page_heaps s"]) simp_all
    then have "coal (U - {q}) ((spans s)(q := None)) (page_heaps s)" unfolding coal_def by (auto split: if_splits)
    then show ?thesis using p(2) q(3) by (intro coal_put[of "U - {q}" "(spans s)(q := None)" "page_heaps s" "page_heaps s" p]) simp_all
  qed
  ultimately have "ph_ok (U - {q}) s'" "covered (spans s') = covered (spans s)" by (simp_all add: ph_ok_def s'_def)
  then show thesis using that[of s'] 1 pm_set_alloc[OF t(1)] by (simp add: s'_def same_env_def same_mode_def)
qed

text \<open>What the two halves of a merge do to the other spans: those that disappear were free spans of the same heap, now
  part of the merged span.\<close>

definition merged :: "int \<Rightarrow> ptr \<Rightarrow> span \<Rightarrow> page_world \<Rightarrow> page_world \<Rightarrow> bool" where
  "merged h p x' s s' \<longleftrightarrow> same_env s s' \<and> covered (spans s') = covered (spans s) \<and>
     (\<forall>q y. q \<noteq> p \<and> spans s' q = Some y \<longrightarrow> spans s q = Some y) \<and>
     (\<forall>q y. q \<noteq> p \<and> spans s q = Some y \<and> spans s' q \<noteq> Some y \<longrightarrow>
        sp_location y \<noteq> IN_USE \<and> sp_heaptype y = h \<and> rng y \<subseteq> rng x')"

lemma merged_refl: "merged h p x s s"
  by (simp add: merged_def)

lemma merged_trans: "merged h p x1 s s1 \<Longrightarrow> merged h p x2 s1 s2 \<Longrightarrow> rng x1 \<subseteq> rng x2 \<Longrightarrow> merged h p x2 s s2"
  unfolding merged_def by (blast intro: same_env_trans)

definition free_left :: "ptr \<Rightarrow> span \<Rightarrow> page_world \<Rightarrow> bool" where
  "free_left p x s \<longleftrightarrow> (\<forall>q y. q \<noteq> p \<and> spans s q = Some y \<and> sp_start y + sp_length y = sp_start x \<longrightarrow> \<not> mergeable (page_heaps s) y x)"

definition free_right :: "ptr \<Rightarrow> span \<Rightarrow> page_world \<Rightarrow> bool" where
  "free_right p x s \<longleftrightarrow> (\<forall>q y. q \<noteq> p \<and> spans s q = Some y \<and> sp_start x + sp_length x = sp_start y \<longrightarrow> \<not> mergeable (page_heaps s) x y)"

lemma mergeable_sym: "mergeable H x y = mergeable H y x"
  by (auto simp: mergeable_def)

lemma mergeable_trans: "mergeable H x y \<Longrightarrow> mergeable H w x \<Longrightarrow> mergeable H w y"
  by (auto simp: mergeable_def)

lemma mergeable_fields:
  "sp_location x' = sp_location x \<Longrightarrow> sp_heaptype x' = sp_heaptype x \<Longrightarrow> mergeable H x' y = mergeable H x y"
  by (simp add: mergeable_def)

lemma MayMerge_mergeable: "sp_location x \<noteq> IN_USE \<Longrightarrow> sp_heaptype x = h \<Longrightarrow> MayMergeSpans h x y s = mergeable (page_heaps s) x y"
  by (auto simp: MayMergeSpans_def mergeable_def)

lemma dec64_pos: "0 < n \<Longrightarrow> n < 2 ^ 64 \<Longrightarrow> dec64 n = n - 1"
  by (cases n) (simp_all add: dec64_def)

lemma rbind_assoc: "rbind (rbind r f) g = rbind r (\<lambda>x. rbind (f x) g)"
  by (cases r) simp_all

text \<open>Taking a free neighbour off its list and absorbing it.\<close>

lemma absorb_free:
  assumes wf: "ph_ok {p} s" and p: "spans s p = Some x" "sp_link x = None" and q: "spans s q = Some y" "q \<noteq> p"
    and m: "mergeable (page_heaps s) x y" "sp_heaptype x = h" and f: "sp_link (f x) = None"
      "sp_location (f x) = sp_location x" "sp_heaptype (f x) = sp_heaptype x" "sp_sizeclass (f x) = sp_sizeclass x"
    and ext: "sp_start x + sp_length x = sp_start y \<and> sp_start (f x) = sp_start x \<and> k = sp_start y + sp_length y - 1 \<or>
      sp_start y + sp_length y = sp_start x \<and> sp_start (f x) = sp_start y \<and> k = sp_start y"
      "sp_length (f x) = sp_length x + sp_length y"
  obtains s' where "rbind (RemoveFromFreeList h q s) (\<lambda>s1. rbind (upd_span p f (DeleteSpan q s1)) (map_set k p)) = Inr s'"
    "ph_ok {p} s'" "spans s' p = Some (f x)" "merged h p (f x) s s'" "spans s' q = None" "rng x \<subseteq> rng (f x)"
proof -
  have y: "sp_location y \<noteq> IN_USE" "sp_heaptype y = h" using m by (simp_all add: mergeable_def)
  have "sp_location x \<noteq> IN_USE" using m by (simp add: mergeable_def)
  then have c: "sp_sizeclass (f x) = 0" using free_no_class[OF wf_layout[OF wf] p(1)] f(4) by simp
  let ?s1 = "take_off h q y s"
  have 1: "RemoveFromFreeList h q s = Inr ?s1" "ph_ok {q, p} ?s1" using take_off_step[OF wf q(1) _ y] q(2) by simp_all
  have sp: "spans ?s1 p = Some x" "spans ?s1 q = Some (y\<lparr>sp_link := None\<rparr>)" using p(1) q by simp_all
  obtain s' where s': "rbind (upd_span p f (DeleteSpan q ?s1)) (map_set k p) = Inr s'" "ph_ok ({q, p} - {q}) s'"
      "spans s' = (spans ?s1)(q := None, p \<mapsto> f x)" "covered (spans s') = covered (spans ?s1)" "same_env ?s1 s'"
    using absorb_step[of "{q, p}" ?s1 p x q "y\<lparr>sp_link := None\<rparr>" f k] 1(2) sp p(2) f(1) c q(2) ext by auto
  have r: "rng (f x) = rng x \<union> rng y" using ext by (auto simp: rng_def)
  have "{q, p} - {q} = {p}" using q(2) by auto
  moreover have "covered (spans ?s1) = covered (spans s)" unfolding take_off_fields(1) using q(1) by (intro covered_relabel) simp_all
  then have "merged h p (f x) s s'"
    using s'(3-5) q y r same_env_trans[OF take_off_fields(4)] by (auto simp: merged_def)
  ultimately show thesis using that[of s'] s' 1(1) r q(2) by simp
qed

lemma merge_prev_step:
  assumes wf: "ph_ok {p} s" and p: "spans s p = Some x" and x: "sp_location x \<noteq> IN_USE" "sp_heaptype x = h" "sp_link x = None"
  obtains temp s' x' where "merge_prev h p s = Inr (temp, s')" "ph_ok {p} s'" "spans s' p = Some x'" "merged h p x' s s'"
    "sp_location x' = sp_location x" "sp_heaptype x' = h" "sp_link x' = None" "rng x \<subseteq> rng x'"
    "sp_start x' + sp_length x' = sp_start x + sp_length x" "free_left p x' s'"
proof -
  note result = that
  have L: "layout (spans s) (pagemap s)" using wf by (rule wf_layout)
  have ox: "span_ok (pagemap s) p x" using L p by (simp add: layout_def)
  then have dec: "dec64 (sp_start x) = sp_start x - 1" by (intro dec64_pos) (simp_all add: span_ok_def BITS_def)
  define q where "q = pm_get (pagemap s) (sp_start x - 1)"
  have gp: "get_span p s = Inr x" by (rule get_span_ok[OF L p])
  have none: thesis if "merge_prev h p s = Inr (0, s)" "free_left p x s"
    using that(2) by (intro result[OF that(1) wf p merged_refl]) (simp_all add: x)
  have at: "z = q" if "spans s z = Some y" "sp_start y + sp_length y = sp_start x" for z y
    unfolding q_def using ox that by (intro span_before[OF L, symmetric]) (simp_all add: span_ok_def)
  show thesis
  proof (cases "q = NULL")
    case True
    have "free_left p x s"
      using at L True unfolding free_left_def by (metis layout_def span_ok_def)
    moreover have "merge_prev h p s = Inr (0, s)" using True by (simp add: merge_prev_def gp GetDescriptor_def dec q_def)
    ultimately show thesis by (rule none[rotated])
  next
    case False
    then obtain y where y: "spans s q = Some y" "sp_start y + sp_length y = sp_start x" "q \<noteq> p"
      unfolding q_def by (rule neighbour_before[OF L p])
    have gq: "get_span q s = Inr y" by (rule get_span_ok[OF L y(1)])
    let ?f = "\<lambda>x. x\<lparr>sp_start := sp_start x - sp_length y, sp_length := sp_length x + sp_length y\<rparr>"
    have d: "merge_prev h p s =
        (if MayMergeSpans h x y s
         then rbind (RemoveFromFreeList h q s) (\<lambda>s1. rbind (upd_span p ?f (DeleteSpan q s1)) (\<lambda>s2.
           rbind (map_set (sp_start x - sp_length y) p s2) (\<lambda>s3. Inr (temp_bytes h y s, s3))))
         else Inr (0, s))"
      unfolding merge_prev_def gp rbind_Inr GetDescriptor_def dec q_def[symmetric] Let_def if_not_P[OF False] gq by (rule refl)
    show thesis
    proof (cases "mergeable (page_heaps s) x y")
      case F: False
      have "free_left p x s" using at y(1) F unfolding free_left_def by (metis mergeable_sym option.inject)
      moreover have "merge_prev h p s = Inr (0, s)" using d F by (simp add: MayMerge_mergeable[OF x(1,2)])
      ultimately show thesis by (rule none[rotated])
    next
      case T: True
      have e: "sp_start y + sp_length y = sp_start x \<and> sp_start (?f x) = sp_start y \<and> sp_start x - sp_length y = sp_start y"
        using y(2) by auto
      obtain s' where s': "rbind (RemoveFromFreeList h q s) (\<lambda>s1. rbind (upd_span p ?f (DeleteSpan q s1)) (map_set (sp_start x - sp_length y) p)) = Inr s'"
          "ph_ok {p} s'" "spans s' p = Some (?f x)" "merged h p (?f x) s s'" "spans s' q = None" "rng x \<subseteq> rng (?f x)"
        using e x by (auto intro: absorb_free[OF wf p x(3) y(1,3) T x(2), of ?f "sp_start x - sp_length y"])
      have r: "merge_prev h p s = Inr (temp_bytes h y s, s')"
        using d T arg_cong[OF s'(1), of "\<lambda>r. rbind r (\<lambda>s3. Inr (temp_bytes h y s, s3))"]
        by (simp add: MayMerge_mergeable[OF x(1,2)] rbind_assoc)
      have "free_left p (?f x) s'"
        unfolding free_left_def
      proof (intro allI impI)
        fix z w
        assume z: "z \<noteq> p \<and> spans s' z = Some w \<and> sp_start w + sp_length w = sp_start (?f x)"
        have m: "same_mode (page_heaps s) (page_heaps s')" using s'(4) by (simp add: merged_def same_env_def)
        have zs: "spans s z = Some w" using z s'(4) by (simp add: merged_def)
        have "coal {p} (spans s) (page_heaps s)" using wf by (simp add: ph_ok_def)
        then have "\<not> mergeable (page_heaps s) w y" using z zs y(1,3) e unfolding coal_def by auto
        then have "\<not> mergeable (page_heaps s) w x" using mergeable_trans T by blast
        then show "\<not> mergeable (page_heaps s') w (?f x)"
          unfolding mergeable_mode[OF m] by (subst mergeable_sym, subst mergeable_fields[where x = x]) (simp_all add: mergeable_sym)
      qed
      then show thesis using that[OF r s'(2,3,4)] s'(6) x y(2) by simp
    qed
  qed
qed

lemma merge_next_step:
  assumes wf: "ph_ok {p} s" and p: "spans s p = Some x" and x: "sp_location x \<noteq> IN_USE" "sp_heaptype x = h" "sp_link x = None"
    and left: "free_left p x s"
  obtains temp s' x' where "merge_next h p (sp_start x + sp_length x) s = Inr (temp, s')" "ph_ok {p} s'" "spans s' p = Some x'"
    "merged h p x' s s'" "sp_location x' = sp_location x" "sp_heaptype x' = h" "sp_link x' = None" "rng x \<subseteq> rng x'"
    "free_left p x' s'" "free_right p x' s'"
proof -
  note result = that
  have L: "layout (spans s) (pagemap s)" using wf by (rule wf_layout)
  define q where "q = pm_get (pagemap s) (sp_start x + sp_length x)"
  have gp: "get_span p s = Inr x" by (rule get_span_ok[OF L p])
  have none: thesis if "merge_next h p (sp_start x + sp_length x) s = Inr (0, s)" "free_right p x s"
    using that(2) left by (intro result[OF that(1) wf p merged_refl]) (simp_all add: x)
  have at: "z = q" if "spans s z = Some y" "sp_start x + sp_length x = sp_start y" for z y
    unfolding q_def that(2) using span_after[OF L that(1)] by simp
  show thesis
  proof (cases "q = NULL")
    case True
    have "free_right p x s"
      using at L True unfolding free_right_def by (metis layout_def span_ok_def)
    moreover have "merge_next h p (sp_start x + sp_length x) s = Inr (0, s)"
      using True by (simp add: merge_next_def gp GetDescriptor_def q_def)
    ultimately show thesis by (rule none[rotated])
  next
    case False
    then obtain y where y: "spans s q = Some y" "sp_start y = sp_start x + sp_length x" "q \<noteq> p"
      unfolding q_def by (rule neighbour_after[OF L p])
    have gq: "get_span q s = Inr y" by (rule get_span_ok[OF L y(1)])
    let ?f = "\<lambda>x. x\<lparr>sp_length := sp_length x + sp_length y\<rparr>"
    let ?k = "sp_start x + (sp_length x + sp_length y) - 1"
    have d: "merge_next h p (sp_start x + sp_length x) s =
        (if MayMergeSpans h x y s
         then rbind (RemoveFromFreeList h q s) (\<lambda>s1. rbind (upd_span p ?f (DeleteSpan q s1)) (\<lambda>s2.
           rbind (map_set ?k p s2) (\<lambda>s3. Inr (temp_bytes h y s, s3))))
         else Inr (0, s))"
      unfolding merge_next_def gp rbind_Inr GetDescriptor_def q_def[symmetric] Let_def if_not_P[OF False] gq by (rule refl)
    show thesis
    proof (cases "mergeable (page_heaps s) x y")
      case F: False
      have "free_right p x s" using at y(1) F unfolding free_right_def by (metis option.inject)
      moreover have "merge_next h p (sp_start x + sp_length x) s = Inr (0, s)" using d F by (simp add: MayMerge_mergeable[OF x(1,2)])
      ultimately show thesis by (rule none[rotated])
    next
      case T: True
      obtain s' where s': "rbind (RemoveFromFreeList h q s) (\<lambda>s1. rbind (upd_span p ?f (DeleteSpan q s1)) (map_set ?k p)) = Inr s'"
          "ph_ok {p} s'" "spans s' p = Some (?f x)" "merged h p (?f x) s s'" "spans s' q = None" "rng x \<subseteq> rng (?f x)"
        using x y(2) by (auto intro: absorb_free[OF wf p x(3) y(1,3) T x(2), of ?f ?k])
      have r: "merge_next h p (sp_start x + sp_length x) s = Inr (temp_bytes h y s, s')"
        using d T arg_cong[OF s'(1), of "\<lambda>r. rbind r (\<lambda>s3. Inr (temp_bytes h y s, s3))"]
        by (simp add: MayMerge_mergeable[OF x(1,2)] rbind_assoc)
      have m: "same_mode (page_heaps s) (page_heaps s')" using s'(4) by (simp add: merged_def same_env_def)
      have fx: "mergeable H (?f x) w = mergeable H x w" "mergeable H w (?f x) = mergeable H w x" for H w
        by (simp_all add: mergeable_def)
      have "free_right p (?f x) s'"
        unfolding free_right_def
      proof (intro allI impI)
        fix z w
        assume z: "z \<noteq> p \<and> spans s' z = Some w \<and> sp_start (?f x) + sp_length (?f x) = sp_start w"
        have zs: "spans s z = Some w" using z s'(4) by (simp add: merged_def)
        have "coal {p} (spans s) (page_heaps s)" using wf by (simp add: ph_ok_def)
        then have "\<not> mergeable (page_heaps s) y w" using z zs y unfolding coal_def by auto
        then have "\<not> mergeable (page_heaps s) x w" using mergeable_trans[OF T] mergeable_sym by blast
        then show "\<not> mergeable (page_heaps s') (?f x) w" unfolding mergeable_mode[OF m] fx .
      qed
      moreover have "free_left p (?f x) s'"
        using left s'(4) unfolding free_left_def mergeable_mode[OF m] fx merged_def by simp blast
      ultimately show thesis using result[OF r s'(2,3,4)] s'(6) x by simp
    qed
  qed
qed

section \<open>Merging into the free list\<close>

lemma decommit_step:
  assumes wf: "ph_ok U s" and p: "spans s p = Some x"
  obtains s' where "DecommitSpan h p s = Inr (sys_release s (sys_releases_done s), s')" "ph_ok U s'" "spans s' = spans s" "same_env s s'"
proof -
  have g: "get_span p s = Inr x" by (rule get_span_ok[OF wf_layout[OF wf] p])
  let ?s = "s\<lparr>sys_releases_done := sys_releases_done s + 1\<rparr>"
  let ?s' = "upd_heap h (\<lambda>a. a\<lparr>committed_bytes := committed_bytes a - bytes64 (sp_length x)\<rparr>) ?s"
  have w: "ph_ok U ?s" using wf by (simp add: wf_releases)
  have "ph_ok U ?s'" "same_env ?s ?s'" by (rule wf_heap[OF w]; simp)+
  moreover have "same_env s ?s" by (simp add: same_env_def)
  ultimately have "ph_ok U ?s'" "same_env s ?s'" "spans ?s' = spans s" by (auto intro: same_env_trans simp: upd_heap_def)
  then show thesis using w \<open>same_env s ?s\<close> that by (cases "sys_release s (sys_releases_done s)") (simp_all add: DecommitSpan_def g Let_def)
qed

lemma merge_into_step:
  assumes wf: "ph_ok {p} s" and p: "spans s p = Some x" and x: "sp_location x \<noteq> IN_USE" "sp_heaptype x = h" "sp_link x = None"
  obtains s' x' where "MergeIntoFreeList h p s = Inr s'" "ph_ok {} s'" "spans s' p = Some x'" "merged h p x' s s'"
    "sp_location x' = sp_location x \<or> sp_location x' = ON_RETURNED_FREELIST" "sp_heaptype x' = h" "rng x \<subseteq> rng x'"
proof -
  note result = that
  have g: "get_span p s = Inr x" by (rule get_span_ok[OF wf_layout[OF wf] p])
  obtain t1 s1 x1 where 1: "merge_prev h p s = Inr (t1, s1)" "ph_ok {p} s1" "spans s1 p = Some x1" "merged h p x1 s s1"
      "sp_location x1 = sp_location x" "sp_heaptype x1 = h" "sp_link x1 = None" "rng x \<subseteq> rng x1"
      "sp_start x1 + sp_length x1 = sp_start x + sp_length x" "free_left p x1 s1"
    by (rule merge_prev_step[OF assms])
  have l1: "sp_location x1 \<noteq> IN_USE" using 1(5) x(1) by simp
  obtain t2 s2 x2 where 2: "merge_next h p (sp_start x + sp_length x) s1 = Inr (t2, s2)" "ph_ok {p} s2" "spans s2 p = Some x2"
      "merged h p x2 s1 s2" "sp_location x2 = sp_location x1" "sp_heaptype x2 = h" "sp_link x2 = None" "rng x1 \<subseteq> rng x2"
      "free_left p x2 s2" "free_right p x2 s2"
    by (rule merge_next_step[OF 1(2,3) l1 1(6,7,10), unfolded 1(9)])
  have m2: "merged h p x2 s s2" by (rule merged_trans[OF 1(4) 2(4,8)])
  have al: "alone {p} p x' (spans s2) (page_heaps s2)"
    if "sp_start x' = sp_start x2" "sp_length x' = sp_length x2" "sp_heaptype x' = h"
      "sp_location x' = sp_location x2 \<or> aggressive_decommit (page_heaps s2 h)" for x'
  proof -
    have "mergeable (page_heaps s2) x2 y" if "mergeable (page_heaps s2) x' y" for y
      using that \<open>sp_heaptype x' = h\<close> \<open>sp_location x' = sp_location x2 \<or> aggressive_decommit (page_heaps s2 h)\<close> 2(5,6) l1
      by (auto simp: mergeable_def)
    then show ?thesis using 2(9,10) that(1,2) unfolding alone_def free_left_def free_right_def by (metis mergeable_sym)
  qed
  have final: thesis
    if s3: "ph_ok {p} s3" "spans s3 p = Some x3" "spans s3 = (spans s2)(p \<mapsto> x3)" "same_env s2 s3" "sp_link x3 = None"
      "sp_start x3 = sp_start x2" "sp_length x3 = sp_length x2" "sp_heaptype x3 = h"
      "sp_location x3 = sp_location x2 \<or> aggressive_decommit (page_heaps s2 h) \<and> sp_location x3 = ON_RETURNED_FREELIST"
      and r: "MergeIntoFreeList h p s = rbind (upd_span p (\<lambda>y. y\<lparr>sp_heaptype := sp_heaptype x\<rparr>) s3) (PrependToFreeList h p)" for s3 x3
  proof -
    have g3: "get_span p s3 = Inr x3" by (rule get_span_ok[OF wf_layout[OF s3(1)] s3(2)])
    have "x3\<lparr>sp_heaptype := sp_heaptype x\<rparr> = x3" using s3(8) x(2) by (cases x3) simp
    then have "put_span p (x3\<lparr>sp_heaptype := sp_heaptype x\<rparr>) s3 = s3" using s3(2) by (simp add: put_span_def fun_upd_idem)
    then have u: "upd_span p (\<lambda>y. y\<lparr>sp_heaptype := sp_heaptype x\<rparr>) s3 = Inr s3" by (simp add: upd_span_def g3)
    have "alone {p} p x3 (spans s2) (page_heaps s2)" using al[of x3] s3(6-9) by auto
    then have "alone {p} p x3 (spans s3) (page_heaps s3)"
      using s3(3,4) mergeable_mode[of "page_heaps s2" "page_heaps s3"] by (auto simp: alone_def same_env_def)
    moreover have l3: "sp_location x3 \<noteq> IN_USE" using s3(9) 2(5) l1 by auto
    ultimately have pb: "PrependToFreeList h p s3 = Inr (put_back h p x3 s3)" "ph_ok {} (put_back h p x3 s3)"
      using put_back_step[OF s3(1,2) _ l3 s3(8,5)] by simp_all
    have c: "covered (spans (put_back h p x3 s3)) = covered (spans s2)"
      using 2(3) s3(6,7) unfolding put_back_fields(1) s3(3) fun_upd_upd by (intro covered_relabel) simp_all
    have "rng x3 = rng x2" using s3(6,7) by (simp add: rng_def)
    moreover have "same_env s (put_back h p x3 s3)"
      using m2 s3(4) put_back_fields(4)[of s3 h p x3] by (auto simp: merged_def intro: same_env_trans)
    ultimately have "merged h p (x3\<lparr>sp_link := Some (home x3)\<rparr>) s (put_back h p x3 s3)"
      using m2 c s3(3) by (auto simp: merged_def rng_def)
    then show thesis
      using r u pb s3(8,9) 1(5,8) 2(5,8) \<open>rng x3 = rng x2\<close>
      by (intro result[of "put_back h p x3 s3" "x3\<lparr>sp_link := Some (home x3)\<rparr>"]) (auto simp: rng_def)
  qed
  show thesis
  proof (cases "aggressive_decommit (page_heaps s2 h)")
    case False
    have "spans s2 = (spans s2)(p \<mapsto> x2)" using 2(3) by (simp add: fun_upd_idem)
    then show thesis using False 2 by (intro final[of s2 x2]) (simp_all add: MergeIntoFreeList_def g 1(1))
  next
    case True
    obtain s3 where 3: "DecommitSpan h p s2 = Inr (sys_release s2 (sys_releases_done s2), s3)" "ph_ok {p} s3" "spans s3 = spans s2" "same_env s2 s3"
      by (rule decommit_step[OF 2(2,3)])
    show thesis
    proof (cases "sys_release s2 (sys_releases_done s2)")
      case F: False
      have "spans s3 = (spans s2)(p \<mapsto> x2)" using 2(3) 3(3) by (simp add: fun_upd_idem)
      then show thesis using True F 2 3 by (intro final[of s3 x2]) (simp_all add: MergeIntoFreeList_def g 1(1))
    next
      case T: True
      let ?x = "x2\<lparr>sp_location := ON_RETURNED_FREELIST\<rparr>"
      let ?s4 = "upd_heap h (\<lambda>a. a\<lparr>committed_bytes := committed_bytes a + (t1 + t2)\<rparr>) (put_span p ?x s3)"
      have p3: "spans s3 p = Some x2" using 2(3) 3(3) by simp
      have g3: "get_span p s3 = Inr x2" by (rule get_span_ok[OF wf_layout[OF 3(2)] p3])
      have w: "ph_ok {p} (put_span p ?x s3)" by (rule wf_put[OF 3(2) p3]) (use free_no_class[OF wf_layout[OF 2(2)] 2(3)] 2(5) l1 in simp_all)
      have w4: "ph_ok {p} ?s4" "same_env (put_span p ?x s3) ?s4" by (rule wf_heap[OF w]; simp)+
      have e: "same_env s2 ?s4" using 3(4) w4(2) by (auto simp: same_env_def same_mode_def put_span_def)
      show thesis using T True 2 3(1,3) w4(1) e
        by (intro final[of ?s4 ?x]) (simp_all add: MergeIntoFreeList_def g 1(1) upd_span_def g3 put_span_def upd_heap_def)
    qed
  qed
qed

end
