(* ===== verification/Page_Heap_Release.thy ===== *)
theory Page_Heap_Release
  imports Page_Heap_Steps
begin

text \<open>
  Giving memory back: the loops of \<open>ReleaseAtLeastNPages\<close> keep the invariant and end, and \<open>Delete\<close>, which
  merges a span into the free lists and may scavenge, keeps the invariant.
\<close>

section \<open>What a release changes\<close>

definition releases :: "int \<Rightarrow> page_world \<Rightarrow> page_world \<Rightarrow> bool" where
  "releases h s s' \<longleftrightarrow> same_env s s' \<and> covered (spans s') = covered (spans s) \<and>
     (\<forall>q y. spans s q = Some y \<and> (sp_location y = IN_USE \<or> sp_heaptype y \<noteq> h) \<longrightarrow> spans s' q = Some y) \<and>
     (\<forall>q y. spans s' q = Some y \<and> sp_location y = IN_USE \<longrightarrow> spans s q = Some y) \<and>
     (\<forall>q y. spans s q = Some y \<and> sp_location y \<noteq> IN_USE \<and> sp_heaptype y = h \<longrightarrow>
        (\<exists>q' y'. spans s' q' = Some y' \<and> sp_location y' \<noteq> IN_USE \<and> sp_heaptype y' = h \<and> rng y \<subseteq> rng y')) \<and>
     dom (spans s') \<subseteq> dom (spans s)"

lemma releases_refl: "releases h s s"
  by (auto simp: releases_def)

lemma releasesD:
  assumes "releases h s s'"
  shows "same_env s s'" "covered (spans s') = covered (spans s)" "dom (spans s') \<subseteq> dom (spans s)"
    and "spans s q = Some y \<Longrightarrow> sp_location y = IN_USE \<or> sp_heaptype y \<noteq> h \<Longrightarrow> spans s' q = Some y"
    and "spans s' q = Some y \<Longrightarrow> sp_location y = IN_USE \<Longrightarrow> spans s q = Some y"
    and "spans s q = Some y \<Longrightarrow> sp_location y \<noteq> IN_USE \<Longrightarrow> sp_heaptype y = h \<Longrightarrow>
      \<exists>q' y'. spans s' q' = Some y' \<and> sp_location y' \<noteq> IN_USE \<and> sp_heaptype y' = h \<and> rng y \<subseteq> rng y'"
  using assms unfolding releases_def by blast+

lemma releases_trans:
  assumes a: "releases h s s1" and b: "releases h s1 s2"
  shows "releases h s s2"
proof -
  have "\<exists>q' y'. spans s2 q' = Some y' \<and> sp_location y' \<noteq> IN_USE \<and> sp_heaptype y' = h \<and> rng y \<subseteq> rng y'"
    if y: "spans s q = Some y" "sp_location y \<noteq> IN_USE" "sp_heaptype y = h" for q y
  proof -
    from releasesD(6)[OF a y] obtain q1 y1
      where 1: "spans s1 q1 = Some y1" "sp_location y1 \<noteq> IN_USE" "sp_heaptype y1 = h" "rng y \<subseteq> rng y1" by blast
    from releasesD(6)[OF b 1(1-3)] show ?thesis using 1(4) by blast
  qed
  moreover have "same_env s s2" using releasesD(1)[OF a] releasesD(1)[OF b] by (rule same_env_trans)
  moreover have "covered (spans s2) = covered (spans s)" using releasesD(2)[OF a] releasesD(2)[OF b] by (rule trans[rotated])
  moreover have "dom (spans s2) \<subseteq> dom (spans s)" using releasesD(3)[OF b] releasesD(3)[OF a] by (rule subset_trans)
  ultimately show ?thesis unfolding releases_def using releasesD(4,5)[OF a] releasesD(4,5)[OF b] by blast
qed

lemma releases_heap_only: "spans s' = spans s \<Longrightarrow> same_env s s' \<Longrightarrow> releases h s s'"
  by (auto simp: releases_def)

definition normals :: "page_world \<Rightarrow> int \<Rightarrow> ptr set" where
  "normals s h = {p. \<exists>x. spans s p = Some x \<and> sp_location x = ON_NORMAL_FREELIST \<and> sp_heaptype x = h}"

lemma normals_finite: "ph_ok U s \<Longrightarrow> finite (normals s h)"
  using wf_finite[of U s] by (rule rev_finite_subset) (auto simp: normals_def)

section \<open>One span\<close>

lemma list_member:
  assumes wf: "ph_ok {} s" and p: "p \<in> set (span_lists s (Freelist h i r))"
  obtains x where "spans s p = Some x" "sp_location x = (if r then ON_RETURNED_FREELIST else ON_NORMAL_FREELIST)" "sp_heaptype x = h"
    "i = list_index (sp_length x)"
proof -
  have "link_of (spans s) p = Some (Freelist h i r)" using wf p by (simp add: ph_ok_def links_def)
  then obtain x where x: "spans s p = Some x" "sp_link x = Some (Freelist h i r)" by (auto simp: link_of_def split: option.splits)
  moreover have "filed_span {} p x" using wf x(1) by (simp add: ph_ok_def filed_def)
  ultimately show thesis
    using that by (cases "sp_location x") (auto simp: filed_span_def home_def)
qed

lemma merged_releases:
  assumes m: "merged h p x' s1 s'" and p: "spans s p = Some x" "spans s' p = Some x'"
    and x: "sp_location x \<noteq> IN_USE" "sp_heaptype x = h" "sp_location x' \<noteq> IN_USE" "sp_heaptype x' = h" "rng x \<subseteq> rng x'"
    and s1: "spans s1 = (spans s)(p \<mapsto> x1)" "covered (spans s1) = covered (spans s)" "same_env s s1"
  shows "releases h s s'"
  unfolding releases_def
proof (intro conjI allI impI)
  show "same_env s s'" using m s1(3) by (auto simp: merged_def intro: same_env_trans)
  show "covered (spans s') = covered (spans s)" using m s1(2) by (simp add: merged_def)
  show "spans s' q = Some y" if "spans s q = Some y \<and> (sp_location y = IN_USE \<or> sp_heaptype y \<noteq> h)" for q y
    using m that p x s1(1) unfolding merged_def by (metis fun_upd_other option.inject)
  show "spans s q = Some y" if "spans s' q = Some y \<and> sp_location y = IN_USE" for q y
    using m that p(2) x(3) s1(1) unfolding merged_def by (metis fun_upd_other option.inject)
  show "\<exists>q' y'. spans s' q' = Some y' \<and> sp_location y' \<noteq> IN_USE \<and> sp_heaptype y' = h \<and> rng y \<subseteq> rng y'"
    if y: "spans s q = Some y \<and> sp_location y \<noteq> IN_USE \<and> sp_heaptype y = h" for q y
  proof (cases "spans s' q = Some y")
    case True
    then show ?thesis using y by blast
  next
    case False
    have "rng y \<subseteq> rng x'"
    proof (cases "q = p")
      case False
      then show ?thesis using m y \<open>spans s' q \<noteq> Some y\<close> s1(1) unfolding merged_def by (metis fun_upd_other)
    qed (use y p(1) x(5) in simp)
    then show ?thesis using p(2) x(3,4) by blast
  qed
  show "dom (spans s') \<subseteq> dom (spans s)"
  proof
    fix q
    assume "q \<in> dom (spans s')"
    then show "q \<in> dom (spans s)" using m p(1) s1(1) by (cases "q = p") (auto simp: merged_def)
  qed
qed

lemma release_last_step:
  assumes wf: "ph_ok {} s" and ne: "span_lists s (Freelist h i False) \<noteq> []"
  obtains (refused) s' where "ReleaseLastNormalSpan h i s = Inr (0, s')" "ph_ok {} s'" "releases h s s'" "normals s' h = normals s h"
      "\<not> sys_release s (sys_releases_done s)"
    | (released) n s' where "ReleaseLastNormalSpan h i s = Inr (n, s')" "0 < n" "ph_ok {} s'" "releases h s s'" "normals s' h \<subset> normals s h"
proof -
  define p where "p = last (span_lists s (Freelist h i False))"
  have "p \<in> set (span_lists s (Freelist h i False))" using ne by (simp add: p_def)
  then obtain x where x: "spans s p = Some x" "sp_location x = ON_NORMAL_FREELIST" "sp_heaptype x = h"
    by (rule list_member[OF wf]) simp
  obtain s1 where 1: "DecommitSpan h p s = Inr (sys_release s (sys_releases_done s), s1)" "ph_ok {} s1" "spans s1 = spans s" "same_env s s1"
    by (rule decommit_step[OF wf x(1)])
  have n0: "0 < sp_length x" using wf x(1) by (simp add: ph_ok_def layout_def span_ok_def)
  show thesis
  proof (cases "sys_release s (sys_releases_done s)")
    case False
    have "releases h s s1" using 1(3,4) by (rule releases_heap_only)
    moreover have "normals s1 h = normals s h" using 1(3) by (simp add: normals_def)
    ultimately show thesis
      using False 1 by (intro refused[of s1]) (simp_all add: ReleaseLastNormalSpan_def p_def[symmetric])
  next
    case True
    have x1: "spans s1 p = Some x" using x(1) 1(3) by simp
    let ?s2 = "take_off h p x s1" and ?x = "x\<lparr>sp_link := None\<rparr>"
    have 2: "RemoveFromFreeList h p s1 = Inr ?s2" "ph_ok {p} ?s2" using take_off_step[OF 1(2) x1] x(2,3) by simp_all
    have p2: "spans ?s2 p = Some ?x" by simp
    have g2: "get_span p ?s2 = Inr ?x" by (rule get_span_ok[OF wf_layout[OF 2(2)] p2])
    let ?y = "?x\<lparr>sp_location := ON_RETURNED_FREELIST\<rparr>" and ?s3 = "put_span p (?x\<lparr>sp_location := ON_RETURNED_FREELIST\<rparr>) ?s2"
    have "sp_sizeclass x = 0" using free_no_class[OF wf_layout[OF wf] x(1)] x(2) by simp
    then have 3: "ph_ok {p} ?s3" by (intro wf_put[OF 2(2) p2]) simp_all
    have p3: "spans ?s3 p = Some ?y" by (simp add: put_span_def)
    obtain s' x' where 4: "MergeIntoFreeList h p ?s3 = Inr s'" "ph_ok {} s'" "spans s' p = Some x'" "merged h p x' ?s3 s'"
        "sp_location x' = sp_location ?y \<or> sp_location x' = ON_RETURNED_FREELIST" "sp_heaptype x' = h" "rng ?y \<subseteq> rng x'"
      by (rule merge_into_step[OF 3 p3, where h = h]) (simp_all add: x(3))
    have sp3: "spans ?s3 = (spans s)(p \<mapsto> ?y)" using 1(3) by (simp add: put_span_def)
    have "covered (spans ?s3) = covered (spans s)" unfolding sp3 using x(1) by (intro covered_relabel) simp_all
    moreover have "same_env s ?s3" using 1(4) take_off_fields(4)[of s1 h p x] by (auto simp: same_env_def same_mode_def put_span_def)
    ultimately have rel: "releases h s s'"
      using 4(3,5-7) x sp3 by (intro merged_releases[OF 4(4) x(1)]) (auto simp: rng_def)
    have "normals s' h \<subseteq> normals s h - {p}"
    proof
      fix q
      assume "q \<in> normals s' h"
      then obtain y where y: "spans s' q = Some y" "sp_location y = ON_NORMAL_FREELIST" "sp_heaptype y = h" by (auto simp: normals_def)
      have "q \<noteq> p" using y 4(3,5) by auto
      then have "spans s q = Some y" using y(1) 4(4) sp3 by (simp add: merged_def)
      then show "q \<in> normals s h - {p}" using y \<open>q \<noteq> p\<close> by (simp add: normals_def)
    qed
    moreover have "p \<in> normals s h" using x by (simp add: normals_def)
    ultimately have "normals s' h \<subset> normals s h" by blast
    moreover have "ReleaseLastNormalSpan h i s = Inr (sp_length x, s')"
      using True 1(1) 2(1) g2 4(1) by (simp add: ReleaseLastNormalSpan_def p_def[symmetric] upd_span_def)
    ultimately show thesis using n0 4(2) rel by (intro released) simp_all
  qed
qed

section \<open>The loops\<close>

definition index_of :: "page_world \<Rightarrow> int \<Rightarrow> nat" where
  "index_of s h = (if release_index (page_heaps s h) > kMaxPages then 0 else release_index (page_heaps s h))"

lemma release_pass_step:
  assumes "ph_ok {} s"
  shows "\<exists>ret r' s'. release_pass i h num r s = Inr ((ret, r'), s') \<and> ph_ok {} s' \<and> releases h s s' \<and> r \<le> r' \<and>
    normals s' h \<subseteq> normals s h \<and> (r < r' \<longrightarrow> normals s' h \<subset> normals s h) \<and> (ret \<longrightarrow> (\<exists>k. \<not> sys_release s k)) \<and>
    (\<not> ret \<and> r' = r \<and> r < num \<longrightarrow> (\<forall>k < i. span_lists s (Freelist h ((index_of s h + k) mod (kMaxPages + 1)) False) = []))"
  using assms
proof (induction i arbitrary: r s)
  case 0
  then show ?case by (auto simp: releases_refl)
next
  case (Suc i)
  define s1 where "s1 = (if release_index (page_heaps s h) > kMaxPages then upd_heap h (\<lambda>a. a\<lparr>release_index := 0\<rparr>) s else s)"
  define s2 where "s2 = upd_heap h (\<lambda>a. a\<lparr>release_index := release_index a + 1\<rparr>) s1"
  have w1: "ph_ok {} s1" "same_env s s1" "spans s1 = spans s" "span_lists s1 = span_lists s"
    using wf_heap[OF Suc.prems, of "\<lambda>a. a\<lparr>release_index := 0\<rparr>" h] Suc.prems by (auto simp: s1_def upd_heap_def)
  have ri: "release_index (page_heaps s1 h) = index_of s h" by (simp add: s1_def index_of_def upd_heap_def)
  have bump: "ph_ok {} (upd_heap h (\<lambda>a. a\<lparr>release_index := release_index a + 1\<rparr>) t)"
      "same_env t (upd_heap h (\<lambda>a. a\<lparr>release_index := release_index a + 1\<rparr>) t)" if "ph_ok {} t" for t
    by (rule wf_heap[OF that]; simp)+
  let ?l = "Freelist h (index_of s h) False"
  have d: "release_pass (Suc i) h num r s =
      (if r < num
       then if span_lists s ?l = [] then release_pass i h num r s2
            else rbind (ReleaseLastNormalSpan h (index_of s h) s1) (\<lambda>(released_len, s).
              if released_len = 0 then Inr ((True, r), s)
              else release_pass i h num (r + released_len) (upd_heap h (\<lambda>a. a\<lparr>release_index := release_index a + 1\<rparr>) s))
       else Inr ((False, r), s))"
    unfolding release_pass.simps Let_def s1_def[symmetric] ri DLL_IsEmpty_def w1(4) s2_def by (rule refl)
  show ?case
  proof (cases "r < num")
    case False
    then show ?thesis using Suc.prems d by (auto simp: releases_refl)
  next
    case lt: True
    show ?thesis
    proof (cases "span_lists s ?l = []")
      case True
      have w2: "ph_ok {} s2" "same_env s1 s2" using bump[OF w1(1)] by (simp_all add: s2_def)
      have sp2: "spans s2 = spans s" "span_lists s2 = span_lists s" using w1(3,4) by (simp_all add: s2_def upd_heap_def)
      have rel: "releases h s s2" using sp2(1) same_env_trans[OF w1(2) w2(2)] by (rule releases_heap_only)
      have i2: "index_of s2 h = (index_of s h + 1) mod (kMaxPages + 1)"
      proof -
        have "index_of s2 h = (if index_of s h + 1 > kMaxPages then 0 else index_of s h + 1)"
        proof -
          have "release_index (page_heaps s2 h) = index_of s h + 1" using ri by (simp add: s2_def upd_heap_def)
          then show ?thesis by (simp add: index_of_def[of s2])
        qed
        moreover have "index_of s h \<le> kMaxPages" by (simp add: index_of_def)
        ultimately show ?thesis by (cases "index_of s h = kMaxPages") simp_all
      qed
      obtain ret r' s' where IH: "release_pass i h num r s2 = Inr ((ret, r'), s')" "ph_ok {} s'" "releases h s2 s'" "r \<le> r'"
          "normals s' h \<subseteq> normals s2 h" "r < r' \<longrightarrow> normals s' h \<subset> normals s2 h" "ret \<longrightarrow> (\<exists>k. \<not> sys_release s2 k)"
          "\<not> ret \<and> r' = r \<and> r < num \<longrightarrow> (\<forall>k < i. span_lists s2 (Freelist h ((index_of s2 h + k) mod (kMaxPages + 1)) False) = [])"
        using Suc.IH[OF w2(1), of r] by metis
      have n2: "normals s2 h = normals s h" using sp2(1) by (simp add: normals_def)
      have "sys_release s2 = sys_release s" using rel by (simp add: releases_def same_env_def)
      moreover have "\<forall>k < Suc i. span_lists s (Freelist h ((index_of s h + k) mod (kMaxPages + 1)) False) = []"
        if "\<not> ret \<and> r' = r \<and> r < num"
      proof (intro allI impI)
        fix k
        assume k: "k < Suc i"
        show "span_lists s (Freelist h ((index_of s h + k) mod (kMaxPages + 1)) False) = []"
        proof (cases k)
          case 0
          have "index_of s h mod (kMaxPages + 1) = index_of s h" by (simp add: index_of_def)
          then show ?thesis using 0 True by simp
        next
          case (Suc j)
          then have "span_lists s2 (Freelist h ((index_of s2 h + j) mod (kMaxPages + 1)) False) = []" using IH(8) that k by simp
          then show ?thesis unfolding i2 sp2(2) Suc by (simp add: mod_simps del: mod_Suc)
        qed
      qed
      ultimately show ?thesis
        using IH(1-7) releases_trans[OF rel IH(3)] d lt True n2 by auto
    next
      case ne: False
      then have ne1: "span_lists s1 (Freelist h (index_of s h) False) \<noteq> []" using w1(4) by simp
      have rel1: "releases h s s1" using w1(3,2) by (rule releases_heap_only)
      have n1: "normals s1 h = normals s h" using w1(3) by (simp add: normals_def)
      have sr: "sys_release s1 = sys_release s" using w1(2) by (simp add: same_env_def)
      from w1(1) ne1 show ?thesis
      proof (cases rule: release_last_step)
        case (refused s')
        then show ?thesis using d lt ne releases_trans[OF rel1 refused(3)] n1 sr by auto
      next
        case (released n s')
        let ?s' = "upd_heap h (\<lambda>a. a\<lparr>release_index := release_index a + 1\<rparr>) s'"
        have w': "ph_ok {} ?s'" "same_env s' ?s'" using bump[OF released(3)] by simp_all
        have rel': "releases h s' ?s'" using w'(2) by (intro releases_heap_only) (simp_all add: upd_heap_def)
        have n': "normals ?s' h = normals s' h" by (simp add: normals_def upd_heap_def)
        have rel: "releases h s ?s'" by (rule releases_trans[OF releases_trans[OF rel1 released(4)] rel'])
        obtain ret r' s'' where IH: "release_pass i h num (r + n) ?s' = Inr ((ret, r'), s'')" "ph_ok {} s''" "releases h ?s' s''" "r + n \<le> r'"
            "normals s'' h \<subseteq> normals ?s' h" "ret \<longrightarrow> (\<exists>k. \<not> sys_release ?s' k)"
          using Suc.IH[OF w'(1), of "r + n"] by metis
        have "sys_release ?s' = sys_release s" using rel by (simp add: releases_def same_env_def)
        then show ?thesis
          using IH d lt ne released(1,2,5) n1 n' releases_trans[OF rel IH(3)] by auto
      qed
    qed
  qed
qed

lemma no_free_bytes:
  assumes wf: "ph_ok {} s" and e: "\<And>i. i \<le> kMaxPages \<Longrightarrow> span_lists s (Freelist h i False) = []"
  shows "free_bytes (page_heaps s h) = 0"
proof -
  have "contrib h False (spans s p) = 0" for p
  proof (rule ccontr)
    assume "contrib h False (spans s p) \<noteq> 0"
    then obtain x i where x: "spans s p = Some x" "sp_link x = Some (Freelist h i False)"
      by (auto simp: contrib_def split: option.splits list_id.splits if_splits)
    then have p: "p \<in> set (span_lists s (Freelist h i False))" using wf by (simp add: ph_ok_def links_def link_of_def)
    then have "i \<le> kMaxPages" by (rule list_member[OF wf]) (simp add: list_index_def)
    then show False using p e by simp
  qed
  then have "pages_on (spans s) h False = 0" by (simp add: pages_on_def)
  then show ?thesis using wf by (simp add: ph_ok_def stats_ok_def)
qed

lemma release_loop_step:
  assumes "ph_ok {} s" and "card (normals s h) < fuel"
  shows "\<exists>r' s'. release_loop fuel h num r s = Inr (r', s') \<and> ph_ok {} s' \<and> releases h s s' \<and>
    (num \<le> r' \<or> free_bytes (page_heaps s' h) = 0 \<or> (\<exists>k. \<not> sys_release s k))"
  using assms
proof (induction fuel arbitrary: r s)
  case (Suc fuel)
  show ?case
  proof (cases "r < num \<and> free_bytes (page_heaps s h) > 0")
    case False
    then show ?thesis using Suc.prems(1) by (auto simp: releases_refl word_gt_0)
  next
    case True
    obtain ret r' s' where P: "release_pass (kMaxPages + 1) h num r s = Inr ((ret, r'), s')" "ph_ok {} s'" "releases h s s'" "r \<le> r'"
        "r < r' \<longrightarrow> normals s' h \<subset> normals s h" "ret \<longrightarrow> (\<exists>k. \<not> sys_release s k)"
        "\<not> ret \<and> r' = r \<and> r < num \<longrightarrow> (\<forall>k < kMaxPages + 1. span_lists s (Freelist h ((index_of s h + k) mod (kMaxPages + 1)) False) = [])"
      using release_pass_step[OF Suc.prems(1), of "kMaxPages + 1" h num r] by metis
    show ?thesis
    proof (cases ret)
      case R: True
      then show ?thesis using P True by auto
    next
      case R: False
      have "r < r'"
      proof (rule ccontr)
        assume "\<not> r < r'"
        then have all: "span_lists s (Freelist h ((index_of s h + k) mod (kMaxPages + 1)) False) = []" if "k < kMaxPages + 1" for k
          using P(4,7) R True that by simp
        have "span_lists s (Freelist h i False) = []" if "i \<le> kMaxPages" for i
        proof -
          let ?k = "(i + (kMaxPages + 1) - index_of s h) mod (kMaxPages + 1)"
          have "index_of s h \<le> kMaxPages" by (simp add: index_of_def)
          then have "index_of s h + (i + (kMaxPages + 1) - index_of s h) = i + (kMaxPages + 1)" by simp
          then have "(index_of s h + ?k) mod (kMaxPages + 1) = i mod (kMaxPages + 1)" by (simp only: mod_add_right_eq mod_add_self2)
          then have "(index_of s h + ?k) mod (kMaxPages + 1) = i" using that by simp
          then show ?thesis using all[of ?k] by simp
        qed
        then have "free_bytes (page_heaps s h) = 0" by (rule no_free_bytes[OF Suc.prems(1)])
        then show False using True by simp
      qed
      then have "card (normals s' h) < card (normals s h)" using P(5) normals_finite[OF Suc.prems(1)] by (simp add: psubset_card_mono)
      then obtain r'' s'' where "release_loop fuel h num r' s' = Inr (r'', s'')" "ph_ok {} s''" "releases h s' s''"
          "num \<le> r'' \<or> free_bytes (page_heaps s'' h) = 0 \<or> (\<exists>k. \<not> sys_release s' k)"
        using Suc.IH[OF P(2), of r'] Suc.prems(2) by auto
      moreover have "sys_release s' = sys_release s" using P(3) by (simp add: releases_def same_env_def)
      ultimately show ?thesis using P(1) R True releases_trans[OF P(3)] by auto
    qed
  qed
qed simp

section \<open>Deleting a span\<close>

lemma scavenge_counter_step:
  assumes "ph_ok U s"
  shows "ph_ok U (set_scavenge_counter h c s)" "releases h s (set_scavenge_counter h c s)" "normals (set_scavenge_counter h c s) k = normals s k"
proof -
  have w: "ph_ok U (set_scavenge_counter h c s)" "same_env s (set_scavenge_counter h c s)"
    unfolding set_scavenge_counter_def by (rule wf_heap[OF assms]; simp)+
  then show "ph_ok U (set_scavenge_counter h c s)" by simp
  show "releases h s (set_scavenge_counter h c s)"
    using w(2) by (intro releases_heap_only) (simp_all add: set_scavenge_counter_def upd_heap_def)
  show "normals (set_scavenge_counter h c s) k = normals s k" by (simp add: normals_def set_scavenge_counter_def upd_heap_def)
qed

lemma scavenge_step:
  assumes wf: "ph_ok {} s" and fuel: "card (normals s h) < fuel"
  shows "\<exists>s'. IncrementalScavenge fuel h n s = Inr s' \<and> ph_ok {} s' \<and> releases h s s'"
proof -
  define s1 where "s1 = set_scavenge_counter h (scavenge_counter (page_heaps s h) - int n) s"
  have 1: "ph_ok {} s1" "releases h s s1" "normals s1 h = normals s h" unfolding s1_def by (rule scavenge_counter_step[OF wf])+
  obtain r s2 where 2: "ReleaseAtLeastNPages fuel h 1 s1 = Inr (r, s2)" "ph_ok {} s2" "releases h s1 s2"
    using release_loop_step[OF 1(1), of h fuel 1 0] fuel 1(3) by (auto simp: ReleaseAtLeastNPages_def)
  have d: "IncrementalScavenge fuel h n s =
      (if scavenge_counter (page_heaps s1 h) \<ge> 0 then Inr s1
       else if release_rate s1 \<le> 1 / 1000000 then Inr (set_scavenge_counter h kDefaultReleaseDelay s1)
       else Inr (set_scavenge_counter h (if r = 0 then kDefaultReleaseDelay else scavenge_wait (release_rate s2) r) s2))"
    unfolding IncrementalScavenge_def Let_def s1_def[symmetric] 2(1) rbind_Inr prod.case by (rule refl)
  show ?thesis unfolding d
    using 1(1,2) scavenge_counter_step[OF 1(1)] scavenge_counter_step[OF 2(2)] releases_trans[OF 1(2)] releases_trans[OF releases_trans[OF 1(2) 2(3)]]
    by auto
qed

lemma normals_dom: "ph_ok U s \<Longrightarrow> card (normals s h) \<le> card (dom (spans s))"
  using wf_finite[of U s] by (intro card_mono) (auto simp: normals_def)

text \<open>What the deletion of a span in use changes: the other spans in use stay, the pages of the span are part of a free one.\<close>

definition deletes :: "int \<Rightarrow> ptr \<Rightarrow> span \<Rightarrow> page_world \<Rightarrow> page_world \<Rightarrow> bool" where
  "deletes h p x s s' \<longleftrightarrow> same_env s s' \<and> covered (spans s') = covered (spans s) \<and> dom (spans s') \<subseteq> dom (spans s) \<and>
     (\<forall>q y. q \<noteq> p \<and> sp_location y = IN_USE \<longrightarrow> (spans s' q = Some y \<longleftrightarrow> spans s q = Some y)) \<and>
     (\<forall>y. spans s' p = Some y \<longrightarrow> sp_location y \<noteq> IN_USE) \<and>
     (\<exists>q y. spans s' q = Some y \<and> sp_location y \<noteq> IN_USE \<and> sp_heaptype y = h \<and> rng x \<subseteq> rng y)"

lemma delete_step:
  assumes wf: "ph_ok {} s" and p: "spans s p = Some x" and x: "sp_location x = IN_USE" "sp_link x = None" "sp_heaptype x = h"
    and fuel: "card (dom (spans s)) < fuel"
  obtains s' where "Delete fuel h p s = Inr s'" "ph_ok {} s'" "deletes h p x s s'"
proof -
  have g: "get_span p s = Inr x" by (rule get_span_ok[OF wf_layout[OF wf] p])
  let ?x = "x\<lparr>sp_sizeclass := 0, sp_sample := False, sp_location := ON_NORMAL_FREELIST\<rparr>"
  let ?s1 = "put_span p ?x s"
  have w: "ph_ok {p} s" using wf_in_use(2)[OF wf p x(1)] by simp
  have 1: "ph_ok {p} ?s1" by (rule wf_put[OF w p]) simp_all
  have p1: "spans ?s1 p = Some ?x" by (simp add: put_span_def)
  obtain s2 x2 where 2: "MergeIntoFreeList h p ?s1 = Inr s2" "ph_ok {} s2" "spans s2 p = Some x2" "merged h p x2 ?s1 s2"
      "sp_location x2 = sp_location ?x \<or> sp_location x2 = ON_RETURNED_FREELIST" "sp_heaptype x2 = h" "rng ?x \<subseteq> rng x2"
    by (rule merge_into_step[OF 1 p1, where h = h]) (simp_all add: x)
  have sp1: "spans ?s1 = (spans s)(p \<mapsto> ?x)" by (simp add: put_span_def)
  have dom2: "dom (spans s2) \<subseteq> dom (spans s)"
  proof
    fix q
    assume "q \<in> dom (spans s2)"
    then show "q \<in> dom (spans s)" using 2(4) p sp1 by (cases "q = p") (auto simp: merged_def)
  qed
  have "card (normals s2 h) < fuel"
    using normals_dom[OF 2(2)] card_mono[OF wf_finite[OF wf] dom2] fuel by (meson le_less_trans le_trans)
  then obtain s3 where 3: "IncrementalScavenge fuel h (sp_length x) s2 = Inr s3" "ph_ok {} s3" "releases h s2 s3"
    using scavenge_step[OF 2(2)] by blast
  have "Delete fuel h p s = Inr s3" by (simp add: Delete_def g upd_span_def 2(1) 3(1))
  moreover have "deletes h p x s s3"
    unfolding deletes_def
  proof (intro conjI allI impI)
    have "same_env s ?s1" by (simp add: same_env_def put_span_def)
    then show "same_env s s3" using 2(4) releasesD(1)[OF 3(3)] unfolding merged_def by (blast intro: same_env_trans)
    have "covered (spans ?s1) = covered (spans s)" unfolding sp1 using p by (intro covered_relabel) simp_all
    then show "covered (spans s3) = covered (spans s)" using 2(4) releasesD(2)[OF 3(3)] by (simp add: merged_def)
    show "dom (spans s3) \<subseteq> dom (spans s)" using releasesD(3)[OF 3(3)] dom2 by (rule subset_trans)
    have l2: "sp_location x2 \<noteq> IN_USE" using 2(5) by auto
    show "sp_location y \<noteq> IN_USE" if "spans s3 p = Some y" for y
      using releasesD(5)[OF 3(3) that] 2(3) l2 by auto
    show "\<exists>q y. spans s3 q = Some y \<and> sp_location y \<noteq> IN_USE \<and> sp_heaptype y = h \<and> rng x \<subseteq> rng y"
      using releasesD(6)[OF 3(3) 2(3) l2 2(6)] 2(7) by (fastforce simp: rng_def)
    fix q and y :: span
    assume q: "q \<noteq> p \<and> sp_location y = IN_USE"
    have "spans s2 q = Some y \<longleftrightarrow> spans s q = Some y"
      using 2(4) q sp1 unfolding merged_def by (metis fun_upd_other)
    then show "spans s3 q = Some y \<longleftrightarrow> spans s q = Some y"
      using releasesD(4,5)[OF 3(3), of q y] q by blast
  qed
  ultimately show thesis using that 3(2) by blast
qed

end
