(* ===== verification/Page_Heap_Alloc.thy ===== *)
theory Page_Heap_Alloc
  imports Page_Heap_Release
begin

text \<open>
  Taking pages: \<open>Carve\<close> and \<open>Split\<close> cut a span in two, the searches find a span that is large enough, \<open>GrowHeap\<close>
  adds a span over new pages and deletes it.
\<close>

section \<open>Cutting a span in two\<close>

lemma map_set_pagemap: "pm_set k v (pagemap s) = Inr t \<Longrightarrow> map_set k v s = Inr (s\<lparr>pagemap := t\<rparr>)"
  by (simp add: map_set_def)

lemma record_span_step:
  assumes "0 < sp_length y" and "ensured T (sp_start y)" and "ensured T (sp_start y + sp_length y - 1)"
  obtains t where "\<And>s. pagemap s = T \<Longrightarrow> get_span q s = Inr y \<Longrightarrow> RecordSpan q s = Inr (s\<lparr>pagemap := t\<rparr>)"
    "\<And>j. pm_get t j = (if j = sp_start y \<or> j = sp_start y + sp_length y - 1 then q else pm_get T j)"
    "\<And>j. ensured t j = ensured T j" "pm_alloc t = pm_alloc T" "pm_allocs t = pm_allocs T"
proof -
  obtain t1 where t1: "pm_set (sp_start y) q T = Inr t1" "\<And>j. pm_get t1 j = (if j = sp_start y then q else pm_get T j)"
      "\<And>j. ensured t1 j = ensured T j"
    using assms(2) by (rule pm_set_ok[where v = q]) metis
  have m1: "map_set (sp_start y) q s = Inr (s\<lparr>pagemap := t1\<rparr>)" if "pagemap s = T" for s
    using t1(1) that by (simp add: map_set_def)
  show thesis
  proof (cases "sp_length y > 1")
    case False
    then have "sp_start y + sp_length y - 1 = sp_start y" using assms(1) by simp
    then show thesis using that[of t1] t1 False m1 pm_set_alloc[OF t1(1)] by (simp add: RecordSpan_def)
  next
    case True
    have "ensured t1 (sp_start y + sp_length y - 1)" using t1(3) assms(3) by simp
    then obtain t2 where t2: "pm_set (sp_start y + sp_length y - 1) q t1 = Inr t2"
        "\<And>j. pm_get t2 j = (if j = sp_start y + sp_length y - 1 then q else pm_get t1 j)" "\<And>j. ensured t2 j = ensured t1 j"
      by (rule pm_set_ok[where v = q]) metis
    have m2: "map_set (sp_start y + sp_length y - 1) q (s\<lparr>pagemap := t1\<rparr>) = Inr (s\<lparr>pagemap := t2\<rparr>)" for s
      using t2(1) by (simp add: map_set_def)
    have "RecordSpan q s = Inr (s\<lparr>pagemap := t2\<rparr>)" if "pagemap s = T" "get_span q s = Inr y" for s
      unfolding RecordSpan_def that(2) rbind_Inr m1[OF that(1)] if_P[OF True] m2 by (rule refl)
    then show thesis using that[of t2] t1 t2 pm_set_alloc[OF t1(1)] pm_set_alloc[OF t2(1)] by simp
  qed
qed

definition split_world :: "ptr \<Rightarrow> span \<Rightarrow> ptr \<Rightarrow> span \<Rightarrow> object_allocator \<Rightarrow> page_map3 \<Rightarrow> page_world \<Rightarrow> page_world" where
  "split_world p x q y a t s = s\<lparr>spans := (spans s)(q \<mapsto> y, p \<mapsto> x), span_allocator := a, pagemap := t\<rparr>"

lemma split_step:
  assumes wf: "ph_ok U s" and p: "spans s p = Some x" "p \<in> U" and n: "0 < n" "n < sp_length x"
    and a: "pa_New sizeof_Span (span_allocator s) = Inr (q, a)"
    and y: "sp_start y = sp_start x + n" "sp_length y = sp_length x - n" "sp_link y = None"
    and x': "x' = x\<lparr>sp_length := n\<rparr>"
    and l: "\<forall>h i r. sp_link x \<noteq> Some (Freelist h i r)" and c: "sp_sizeclass x = 0" "sp_sizeclass y = 0"
  obtains t1 t2 where
    "\<And>s'. pagemap s' = pagemap s \<Longrightarrow> get_span q s' = Inr y \<Longrightarrow> RecordSpan q s' = Inr (s'\<lparr>pagemap := t1\<rparr>)"
    "pm_set (sp_start x + n - 1) p t1 = Inr t2" "q \<noteq> NULL" "spans s q = None" "q \<noteq> p"
    "ph_ok (insert q U) (split_world p x' q y a t2 s)" "covered (spans (split_world p x' q y a t2 s)) = covered (spans s)"
    "same_env s (split_world p x' q y a t2 s)"
proof -
  have L: "layout (spans s) (pagemap s)" using wf by (rule wf_layout)
  have ox: "span_ok (pagemap s) p x" using L p by (simp add: layout_def)
  have q: "q \<noteq> NULL" "spans s q = None" and al: "alloc_ok ((spans s)(q \<mapsto> y)) a"
    using alloc_ok_new[OF _ a, of "spans s" y] wf by (auto simp: ph_ok_def)
  have qp: "q \<noteq> p" using q p by auto
  have e: "ensured (pagemap s) (sp_start y)" "ensured (pagemap s) (sp_start y + sp_length y - 1)"
      "ensured (pagemap s) (sp_start x + n - 1)"
    using ox n y by (auto simp: span_ok_def)
  obtain t1 where rec: "\<And>s'. pagemap s' = pagemap s \<Longrightarrow> get_span q s' = Inr y \<Longrightarrow> RecordSpan q s' = Inr (s'\<lparr>pagemap := t1\<rparr>)"
      and t1: "\<And>j. pm_get t1 j = (if j = sp_start y \<or> j = sp_start y + sp_length y - 1 then q else pm_get (pagemap s) j)"
      "\<And>j. ensured t1 j = ensured (pagemap s) j" "pm_alloc t1 = pm_alloc (pagemap s)" "pm_allocs t1 = pm_allocs (pagemap s)"
    by (rule record_span_step[OF _ e(1,2), where q = q]) (use n y(2) in simp_all)
  have "ensured t1 (sp_start x + n - 1)" using e(3) t1(2) by simp
  then obtain t2 where t2: "pm_set (sp_start x + n - 1) p t1 = Inr t2"
      "\<And>j. pm_get t2 j = (if j = sp_start x + n - 1 then p else pm_get t1 j)" "\<And>j. ensured t2 j = ensured t1 j"
    by (rule pm_set_ok[where v = p]) metis
  let ?m = "(spans s)(q \<mapsto> y, p \<mapsto> x')"
  have lay: "layout ?m t2 \<and> covered ?m = covered (spans s)"
  proof (rule layout_split[OF L p(1) q(2,1)])
    show "pm_get t2 j = (if j = sp_start y \<or> j = sp_start y + sp_length y - 1 then q
        else if j = sp_start x + n - 1 then p else pm_get (pagemap s) j)" for j
      using t1(1) t2(2) y n by auto
  qed (use n y x' c t1(2) t2(3) in simp_all)
  have "alloc_ok ?m a" using alloc_ok_relabel[of "(spans s)(q \<mapsto> y)" a p x x'] al p(1) qp by simp
  moreover have "links ?m (span_lists s)"
  proof (rule links_put[OF links_put])
    show "link_of ((spans s)(q \<mapsto> y)) q = link_of (spans s) q" using q y by (simp add: link_of_def)
    show "link_of ?m p = link_of ((spans s)(q \<mapsto> y)) p" using p(1) qp x' by (simp add: link_of_def)
  qed (use wf in \<open>simp add: ph_ok_def\<close>)
  moreover have "filed (insert q U) ?m"
  proof (rule filed_put[OF filed_put])
    show "filed U (spans s)" using wf by (simp add: ph_ok_def)
    show "filed_span (insert q U) p z" if "Some x' = Some z" for z using that l p(2) x' by (auto simp: filed_span_def)
    show "filed_span (insert q U) q z" if "Some y = Some z" for z using that y(3) by (auto simp: filed_span_def)
  qed simp_all
  moreover have "stats_ok ?m (page_heaps s)"
  proof (rule stats_same[OF stats_same])
    show "contrib h r (Some y) = contrib h r (spans s q)" for h r using q y(3) by (simp add: contrib_unlinked)
    show "contrib h r (Some x') = contrib h r (((spans s)(q \<mapsto> y)) p)" for h r
      using p(1) qp l x' by (simp add: contrib_unlinked)
  qed (use wf wf_finite[OF wf] in \<open>simp_all add: ph_ok_def\<close>)
  moreover have "coal (insert q U) ?m (page_heaps s)"
  proof -
    have "coal U (spans s) (page_heaps s)" using wf by (simp add: ph_ok_def)
    then have "coal (insert q U) ((spans s)(q \<mapsto> y)) (page_heaps s)" by (rule coal_put) auto
    then show ?thesis by (rule coal_put) (use p(2) in auto)
  qed
  ultimately show thesis
    using that[OF rec t2(1)] q qp lay pm_set_alloc[OF t2(1)] t1(3,4) by (simp add: ph_ok_def split_world_def same_env_def)
qed

text \<open>What taking \<open>n\<close> pages changes: the span is in use with exactly these pages, spans in use stay as they are.\<close>

definition takes :: "int \<Rightarrow> nat \<Rightarrow> ptr \<Rightarrow> page_world \<Rightarrow> page_world \<Rightarrow> bool" where
  "takes h n p s s' \<longleftrightarrow> same_env s s' \<and> covered (spans s') = covered (spans s) \<and>
     (\<exists>x. spans s' p = Some x \<and> sp_location x = IN_USE \<and> sp_length x = n \<and> sp_link x = None \<and> sp_heaptype x = h) \<and>
     (\<forall>y. spans s p = Some y \<longrightarrow> sp_location y \<noteq> IN_USE) \<and>
     (\<forall>q y. q \<noteq> p \<and> sp_location y = IN_USE \<longrightarrow> (spans s' q = Some y \<longleftrightarrow> spans s q = Some y))"

lemma commit_step:
  assumes "ph_ok U s" and "spans s p = Some x"
  obtains s' where "(if b then CommitSpan h p s else Inr s) = Inr s'" "ph_ok U s'" "spans s' = spans s" "same_env s s'"
proof -
  have g: "get_span p s = Inr x" by (rule get_span_ok[OF wf_layout[OF assms(1)] assms(2)])
  let ?s' = "upd_heap h (\<lambda>a. a\<lparr>committed_bytes := committed_bytes a + bytes64 (sp_length x)\<rparr>) s"
  have "ph_ok U ?s'" "same_env s ?s'" by (rule wf_heap[OF assms(1)]; simp)+
  then show thesis using that[of ?s'] that[of s] assms(1) by (cases b) (simp_all add: CommitSpan_def g upd_heap_def)
qed

lemma extra_pages: "layout m t \<Longrightarrow> m p = Some x \<Longrightarrow> n \<le> sp_length x \<Longrightarrow> i32 (int (sp_length x) - int n) = int (sp_length x - n)"
  using span_length_bound[of m t p x] by (simp add: of_nat_diff)

lemma carve_alone:
  assumes wf: "ph_ok {} s" and p: "spans s p = Some x" and x: "sp_location x \<noteq> IN_USE"
    and y: "sp_start y + sp_length y = sp_start x + sp_length x" "sp_start y = sp_start x + n" "0 < n" "n < sp_length x"
      "sp_location y = sp_location x" "sp_heaptype y = sp_heaptype x"
    and m: "m q = Some y" "m p = Some x'" "sp_location x' = IN_USE" "\<And>z. z \<noteq> p \<Longrightarrow> z \<noteq> q \<Longrightarrow> m z = spans s z"
  shows "alone {q} q y m (page_heaps s)"
  unfolding alone_def
proof (intro allI impI)
  fix z w
  assume z: "m z = Some w \<and> z \<noteq> q \<and> z \<notin> {q}"
  have L: "layout (spans s) (pagemap s)" using wf by (rule wf_layout)
  show "(sp_start y + sp_length y = sp_start w \<longrightarrow> \<not> mergeable (page_heaps s) y w) \<and>
      (sp_start w + sp_length w = sp_start y \<longrightarrow> \<not> mergeable (page_heaps s) w y)"
  proof (cases "z = p")
    case True
    then show ?thesis using z m(2,3) by (simp add: mergeable_def)
  next
    case False
    then have zs: "spans s z = Some w" using z m(4) by auto
    have "\<not> mergeable (page_heaps s) x w" if "sp_start x + sp_length x = sp_start w"
      using wf p zs that unfolding ph_ok_def coal_def by blast
    moreover have "sp_start w + sp_length w \<noteq> sp_start y"
    proof
      assume e: "sp_start w + sp_length w = sp_start y"
      have "0 < sp_length w" using L zs by (simp add: layout_def span_ok_def)
      then have "sp_start y - 1 \<in> rng w" "sp_start y - 1 \<in> rng x" using e y(2-4) by (auto simp: rng_def)
      then show False using L zs p False unfolding layout_def by blast
    qed
    ultimately show ?thesis using y(1,5,6) by (simp add: mergeable_def)
  qed
qed

text \<open>The statements of \<open>Carve\<close> that cut the span, run in the order of the code.\<close>

lemma prepend_run:
  assumes "get_span p s = Inr x" and "sp_location x \<noteq> IN_USE" and "sp_heaptype x = h" and "sp_link x = None"
  shows "PrependToFreeList h p s = Inr (put_back h p x s)"
proof -
  have g: "get_span p s' = Inr x" if "spans s' = spans s" for s' using assms(1) that by (auto simp: get_span_def split: if_splits)
  show ?thesis using assms(2-4)
    by (cases "sp_location x") (simp_all add: PrependToFreeList_def DLL_Prepend_def g home_def put_back_def world_simps)
qed

lemma carve_run:
  assumes a: "pa_New sizeof_Span (span_allocator s) = Inr (q, a)"
    and rec: "\<And>s'. pagemap s' = pagemap s \<Longrightarrow> get_span q s' = Inr y \<Longrightarrow> RecordSpan q s' = Inr (s'\<lparr>pagemap := t1\<rparr>)"
    and t2: "pm_set k p t1 = Inr t2" and q: "q \<noteq> NULL" "q \<noteq> p" and p: "spans s p = Some x" "p \<noteq> NULL"
    and y: "y = (new_span st len)\<lparr>sp_location := loc, sp_heaptype := h\<rparr>" "loc \<noteq> IN_USE" and x': "x' = x\<lparr>sp_length := n\<rparr>"
  shows "rbind (NewSpan st len s) (\<lambda>(leftover, s).
           rbind (upd_span leftover (\<lambda>y. y\<lparr>sp_location := loc, sp_heaptype := h\<rparr>) s) (\<lambda>s.
             rbind (RecordSpan leftover s) (\<lambda>s.
               rbind (PrependToFreeList h leftover s) (\<lambda>s.
                 rbind (upd_span p (\<lambda>x. x\<lparr>sp_length := n\<rparr>) s) (\<lambda>s. map_set k p s))))) =
    Inr (put_back h q y (split_world p x' q y a t2 s))"
proof -
  define A1 where "A1 = put_span q (new_span st len) (s\<lparr>span_allocator := a\<rparr>)"
  define A2 where "A2 = s\<lparr>span_allocator := a, spans := (spans s)(q \<mapsto> y)\<rparr>"
  define A3 where "A3 = A2\<lparr>pagemap := t1\<rparr>"
  define A4 where "A4 = put_back h q y A3"
  have 1: "NewSpan st len s = Inr (q, A1)" by (simp add: NewSpan_def a A1_def)
  have 2: "upd_span q (\<lambda>y. y\<lparr>sp_location := loc, sp_heaptype := h\<rparr>) A1 = Inr A2"
    using q(1) by (simp add: upd_span_def get_span_def A1_def A2_def put_span_def y(1))
  have 3: "RecordSpan q A2 = Inr A3"
    unfolding A3_def using q(1) by (intro rec) (simp_all add: A2_def get_span_def)
  have g3: "get_span q A3 = Inr y" using q(1) by (simp add: A3_def A2_def get_span_def)
  have 4: "PrependToFreeList h q A3 = Inr A4" unfolding A4_def using y g3 by (intro prepend_run) (simp_all add: new_span_def)
  have 5: "upd_span p (\<lambda>x. x\<lparr>sp_length := n\<rparr>) A4 = Inr (put_span p x' A4)"
    using p q(2) by (simp add: upd_span_def get_span_def A4_def A3_def A2_def x')
  have 6: "map_set k p (put_span p x' A4) = Inr ((put_span p x' A4)\<lparr>pagemap := t2\<rparr>)"
    using t2 by (simp add: map_set_def put_span_def A4_def A3_def)
  have "(put_span p x' A4)\<lparr>pagemap := t2\<rparr> = put_back h q y (split_world p x' q y a t2 s)"
    using q(2) by (simp add: put_span_def put_back_def split_world_def A4_def A3_def A2_def fun_upd_twist)
  then show ?thesis using 6 unfolding 1 rbind_Inr prod.case 2 3 4 5 by simp
qed

lemma carve_step:
  assumes wf: "ph_ok {} s" and p: "spans s p = Some x" and x: "sp_location x \<noteq> IN_USE" "sp_heaptype x = h"
    and n: "0 < n" "n \<le> sp_length x"
  shows "Carve h p n s = Inl AssertFail \<or> (\<exists>s'. Carve h p n s = Inr (p, s') \<and> ph_ok {} s' \<and> takes h n p s s')"
proof -
  have L: "layout (spans s) (pagemap s)" using wf by (rule wf_layout)
  have g: "get_span p s = Inr x" by (rule get_span_ok[OF L p])
  have ex: "i32 (int (sp_length x) - int n) = int (sp_length x - n)" by (rule extra_pages[OF L p n(2)])
  have p0: "p \<noteq> NULL" using L p by (simp add: layout_def span_ok_def)
  let ?s1 = "take_off h p x s" and ?x1 = "x\<lparr>sp_link := None\<rparr>"
  have 1: "RemoveFromFreeList h p s = Inr ?s1" "ph_ok {p} ?s1" using take_off_step[OF wf p _ x] by simp_all
  have p1: "spans ?s1 p = Some ?x1" by simp
  have g1: "get_span p ?s1 = Inr ?x1" by (rule get_span_ok[OF wf_layout[OF 1(2)] p1])
  define x2 where "x2 = ?x1\<lparr>sp_location := IN_USE\<rparr>"
  define s2 where "s2 = put_span p x2 ?s1"
  have c0: "sp_sizeclass x = 0" by (rule free_no_class[OF L p x(1)])
  have 2: "ph_ok {p} s2" unfolding s2_def x2_def by (rule wf_put[OF 1(2) p1]) (simp_all add: c0)
  have sp2: "spans s2 = (spans s)(p \<mapsto> x2)" by (simp add: s2_def put_span_def)
  have e2: "same_env s s2" using take_off_fields(4)[of s h p x] by (simp add: s2_def put_span_def same_env_def)
  have cov2: "covered (spans s2) = covered (spans s)" unfolding sp2 using p by (intro covered_relabel) (simp_all add: x2_def)
  have u1: "upd_span p (\<lambda>x. x\<lparr>sp_location := IN_USE\<rparr>) ?s1 = Inr s2" by (simp add: upd_span_def g1 s2_def x2_def)
  have p2: "spans s2 p = Some x2" by (simp add: sp2)
  have d: "Carve h p n s = rbind (if 0 < sp_length x - n
                     then
                       rbind (NewSpan (sp_start x + n) (sp_length x - n) s2) (\<lambda>(leftover, s).
                         rbind (upd_span leftover (\<lambda>y. y\<lparr>sp_location := sp_location x, sp_heaptype := h\<rparr>) s) (\<lambda>s.
                           rbind (RecordSpan leftover s) (\<lambda>s.
                             rbind (PrependToFreeList h leftover s) (\<lambda>s.
                               rbind (upd_span p (\<lambda>x. x\<lparr>sp_length := n\<rparr>) s) (\<lambda>s.
                                 map_set (sp_start x + n - 1) p s)))))
                     else Inr s2) (\<lambda>s.
                rbind (if sp_location x = ON_RETURNED_FREELIST then CommitSpan h p s else Inr s) (\<lambda>s. Inr (p, s)))"
    unfolding Carve_def g rbind_Inr 1(1) u1 ex Let_def nat_int of_nat_0_less_iff by (rule refl)
  show ?thesis
  proof (cases "n = sp_length x")
    case True
    have w: "ph_ok {} s2" using wf_in_use(1)[OF 2 p2] by (simp add: x2_def)
    obtain s' where s': "(if sp_location x = ON_RETURNED_FREELIST then CommitSpan h p s2 else Inr s2) = Inr s'" "ph_ok {} s'"
        "spans s' = spans s2" "same_env s2 s'"
      by (rule commit_step[OF w p2])
    have "takes h n p s s'"
      unfolding takes_def s'(3) using same_env_trans[OF e2 s'(4)] cov2 sp2 p x True by (auto simp: x2_def)
    then show ?thesis using d True s' by simp
  next
    case False
    then have lt: "n < sp_length x" using n(2) by simp
    show ?thesis
    proof (cases "pa_New sizeof_Span (span_allocator s2)")
      case (Inl f)
      then have "f = AssertFail" by (rule pa_New_fault)
      then show ?thesis using d lt Inl by (simp add: NewSpan_def)
    next
      case (Inr r)
      obtain q a where r: "r = (q, a)" by fastforce
      note a = Inr[unfolded r]
      define y where "y = (new_span (sp_start x + n) (sp_length x - n))\<lparr>sp_location := sp_location x, sp_heaptype := h\<rparr>"
      have yf: "sp_start y = sp_start x2 + n" "sp_length y = sp_length x2 - n" "sp_link y = None" by (simp_all add: y_def x2_def new_span_def)
      have yc: "sp_sizeclass x2 = 0" "sp_sizeclass y = 0" using c0 by (simp_all add: y_def x2_def new_span_def)
      have ln: "\<forall>h i r. sp_link x2 \<noteq> Some (Freelist h i r)" by (simp add: x2_def)
      define x3 where "x3 = x2\<lparr>sp_length := n\<rparr>"
      have n2: "n < sp_length x2" using lt by (simp add: x2_def)
      obtain t1 t2 where t: "\<And>s'. pagemap s' = pagemap s2 \<Longrightarrow> get_span q s' = Inr y \<Longrightarrow> RecordSpan q s' = Inr (s'\<lparr>pagemap := t1\<rparr>)"
          "pm_set (sp_start x2 + n - 1) p t1 = Inr t2" "q \<noteq> NULL" "spans s2 q = None" "q \<noteq> p"
          "ph_ok (insert q {p}) (split_world p x3 q y a t2 s2)" "covered (spans (split_world p x3 q y a t2 s2)) = covered (spans s2)"
          "same_env s2 (split_world p x3 q y a t2 s2)"
        using split_step[OF 2 p2 _ n(1) n2 a yf x3_def ln yc] by blast
      let ?s3 = "split_world p x3 q y a t2 s2"
      have sp3: "spans ?s3 = (spans s2)(q \<mapsto> y, p \<mapsto> x3)" by (simp add: split_world_def)
      have p3: "spans ?s3 p = Some x3" by (simp add: sp3)
      have l3: "sp_location x3 = IN_USE" by (simp add: x3_def x2_def)
      have "ph_ok ({q, p} - {p}) ?s3" by (rule wf_in_use(1)[OF t(6) p3 l3])
      moreover have "{q, p} - {p} = {q}" using t(5) by auto
      ultimately have 3: "ph_ok {q} ?s3" by simp
      have q3: "spans ?s3 q = Some y" using t(5) by (simp add: sp3)
      have "same_mode (page_heaps s) (page_heaps ?s3)" using e2 by (simp add: same_env_def split_world_def)
      moreover have "alone {q} q y (spans ?s3) (page_heaps s)"
      proof (rule carve_alone[OF wf p x(1) _ _ n(1) lt _ _ q3 p3 l3])
        show "sp_start y + sp_length y = sp_start x + sp_length x" "sp_start y = sp_start x + n" "sp_location y = sp_location x"
            "sp_heaptype y = sp_heaptype x"
          using lt x(2) by (simp_all add: y_def new_span_def)
        show "spans ?s3 z = spans s z" if "z \<noteq> p" "z \<noteq> q" for z using that by (simp add: sp3 sp2)
      qed
      ultimately have "alone {q} q y (spans ?s3) (page_heaps ?s3)" unfolding alone_def by (simp add: mergeable_mode)
      then have pb: "PrependToFreeList h q ?s3 = Inr (put_back h q y ?s3)" "ph_ok {} (put_back h q y ?s3)"
        using put_back_step[OF 3 q3] x(1) yf(3) by (simp_all add: y_def)
      have run: "rbind (NewSpan (sp_start x + n) (sp_length x - n) s2) (\<lambda>(leftover, s).
                         rbind (upd_span leftover (\<lambda>y. y\<lparr>sp_location := sp_location x, sp_heaptype := h\<rparr>) s) (\<lambda>s.
                           rbind (RecordSpan leftover s) (\<lambda>s.
                             rbind (PrependToFreeList h leftover s) (\<lambda>s.
                               rbind (upd_span p (\<lambda>x. x\<lparr>sp_length := n\<rparr>) s) (\<lambda>s.
                                 map_set (sp_start x + n - 1) p s))))) = Inr (put_back h q y ?s3)"
        using t(2,3,5) x(1) p0 by (intro carve_run[OF a t(1) _ _ _ p2]) (simp_all add: y_def x2_def x3_def new_span_def)
      have p3: "spans (put_back h q y ?s3) p = Some x3" using t(5) by (simp add: sp3)
      obtain s' where s': "(if sp_location x = ON_RETURNED_FREELIST then CommitSpan h p (put_back h q y ?s3) else Inr (put_back h q y ?s3)) = Inr s'"
          "ph_ok {} s'" "spans s' = spans (put_back h q y ?s3)" "same_env (put_back h q y ?s3) s'"
        by (rule commit_step[OF pb(2) p3])
      have "same_env s s'" using t(8) e2 put_back_fields(4) s'(4) by (blast intro: same_env_trans)
      moreover have "covered (spans (put_back h q y ?s3)) = covered (spans ?s3)"
        unfolding put_back_fields(1) using q3 by (intro covered_relabel) simp_all
      moreover have "spans s' p = Some x3" "sp_heaptype x3 = h" "sp_length x3 = n" "sp_location x3 = IN_USE" "sp_link x3 = None"
        using p3 s'(3) x(2) by (simp_all add: x3_def x2_def)
      moreover have "spans s' z = Some w \<longleftrightarrow> spans s z = Some w" if "z \<noteq> p" "sp_location w = IN_USE" for z w
        using that s'(3) sp3 sp2 x(1) t(4,5) by (auto simp: y_def)
      ultimately have "takes h n p s s'" unfolding takes_def using cov2 t(7) s'(3) p x(1) by auto
      then show ?thesis using d lt run s' by simp
    qed
  qed
qed

section \<open>Searching\<close>

text \<open>The order of the fit: shorter first, then lower address.\<close>

definition fit_le :: "span \<Rightarrow> span \<Rightarrow> bool" where
  "fit_le b x \<longleftrightarrow> sp_length b < sp_length x \<or> sp_length b = sp_length x \<and> sp_start b \<le> sp_start x"

text \<open>The best candidate of a list, given the best so far.\<close>

definition best_of :: "nat \<Rightarrow> page_world \<Rightarrow> ptr set \<Rightarrow> (ptr \<times> span) option \<Rightarrow> bool" where
  "best_of n s A b \<longleftrightarrow>
     (case b of
        None \<Rightarrow> \<forall>p \<in> A. \<forall>x. spans s p = Some x \<longrightarrow> sp_length x < n
      | Some (p, x) \<Rightarrow> p \<in> A \<and> spans s p = Some x \<and> n \<le> sp_length x \<and>
          (\<forall>q \<in> A. \<forall>y. spans s q = Some y \<and> n \<le> sp_length y \<longrightarrow> fit_le x y))"

lemma best_fit_step:
  assumes "layout (spans s) t" and "\<And>p. p \<in> set ps \<Longrightarrow> spans s p \<noteq> None" and "best_of n s A b"
  shows "\<exists>b'. best_fit n s ps b = Inr b' \<and> best_of n s (A \<union> set ps) b'"
  using assms(2,3)
proof (induction ps arbitrary: A b)
  case (Cons p ps)
  obtain x where x: "spans s p = Some x" using Cons.prems(1)[of p] by auto
  have g: "get_span p s = Inr x" by (rule get_span_ok[OF assms(1) x])
  let ?b = "if better_fit n b x then Some (p, x) else b"
  have "best_of n s (insert p A) ?b"
  proof (cases b)
    case None
    then show ?thesis using Cons.prems(2) x by (auto simp: best_of_def better_fit_def fit_le_def dest: leD)
  next
    case (Some c)
    obtain q z where c: "c = (q, z)" by fastforce
    have z: "q \<in> A" "spans s q = Some z" "n \<le> sp_length z" "\<And>r y. r \<in> A \<Longrightarrow> spans s r = Some y \<Longrightarrow> n \<le> sp_length y \<Longrightarrow> fit_le z y"
      using Cons.prems(2) Some c by (auto simp: best_of_def)
    show ?thesis
    proof (cases "better_fit n b x")
      case True
      have "fit_le x y" if "r \<in> A" "spans s r = Some y" "n \<le> sp_length y" for r y
        using z(4)[OF that] True Some c by (auto simp: fit_le_def better_fit_def)
      then show ?thesis using True Some c x by (auto simp: best_of_def better_fit_def fit_le_def)
    next
      case False
      then have "n \<le> sp_length x \<Longrightarrow> fit_le z x" using Some c by (auto simp: fit_le_def better_fit_def)
      then show ?thesis using False Some c x z by (auto simp: best_of_def)
    qed
  qed
  then show ?case using Cons.IH[of "insert p A" ?b] Cons.prems(1) by (simp add: g)
qed simp

lemma no_limit: "heap_limit_mb s = 0 \<Longrightarrow> EnsureLimit fuel h n b s = Inr (True, s)"
  by (simp add: EnsureLimit_def limit_pages_def)

lemma list_spans: "ph_ok {} s \<Longrightarrow> p \<in> set (span_lists s (Freelist h i r)) \<Longrightarrow> spans s p \<noteq> None"
  by (rule list_member) auto

text \<open>The outcome of a search without a heap limit: a span, or the end of the process when there is no memory for a
  descriptor, or null when there is no free span of \<open>n\<close> pages.\<close>

definition found :: "int \<Rightarrow> nat \<Rightarrow> page_world \<Rightarrow> (ptr \<times> page_world) res \<Rightarrow> bool" where
  "found h n s r \<longleftrightarrow> r = Inl AssertFail \<or> (\<exists>p s'. r = Inr (p, s') \<and> ph_ok {} s' \<and> p \<noteq> NULL \<and> takes h n p s s') \<or>
     r = Inr (NULL, s) \<and> (\<forall>q y. spans s q = Some y \<and> sp_location y \<noteq> IN_USE \<and> sp_heaptype y = h \<longrightarrow> sp_length y < n)"

lemma carve_found:
  assumes "ph_ok {} s" and "spans s p = Some x" and "sp_location x \<noteq> IN_USE" "sp_heaptype x = h" "0 < n" "n \<le> sp_length x"
  shows "found h n s (Carve h p n s)"
proof -
  have "p \<noteq> NULL" using wf_layout[OF assms(1)] assms(2) by (simp add: layout_def span_ok_def)
  then show ?thesis using carve_step[OF assms] by (auto simp: found_def)
qed

lemma large_lists:
  assumes wf: "ph_ok {} s" and q: "spans s q = Some y" "sp_location y \<noteq> IN_USE" "sp_heaptype y = h"
  shows "\<exists>r. q \<in> set (span_lists s (Freelist h (list_index (sp_length y)) r))"
proof -
  have "sp_link y = Some (home y)" using wf q by (auto simp: ph_ok_def filed_def filed_span_def)
  then have "q \<in> set (span_lists s (home y))" using wf q(1) by (simp add: ph_ok_def links_def link_of_def)
  then show ?thesis using q(3) by (auto simp: home_def)
qed

text \<open>The span that \<open>AllocLarge\<close> takes is the best fit of all the large spans of the heap.\<close>

lemma alloc_large_step:
  assumes wf: "ph_ok {} s" and lim: "heap_limit_mb s = 0" and n: "0 < n"
    and small: "\<And>q y. spans s q = Some y \<Longrightarrow> sp_location y \<noteq> IN_USE \<Longrightarrow> sp_heaptype y = h \<Longrightarrow> sp_length y < kMaxPages \<Longrightarrow> sp_length y < n"
  shows "found h n s (AllocLarge (Suc fuel) rfuel h n s) \<and>
    (\<exists>b. best_of n s (set (span_lists s (Freelist h kMaxPages False)) \<union> set (span_lists s (Freelist h kMaxPages True))) b \<and>
      AllocLarge (Suc fuel) rfuel h n s = (case b of None \<Rightarrow> Inr (NULL, s) | Some (p, _) \<Rightarrow> Carve h p n s))"
proof -
  let ?N = "span_lists s (Freelist h kMaxPages False)" and ?R = "span_lists s (Freelist h kMaxPages True)"
  have L: "layout (spans s) (pagemap s)" using wf by (rule wf_layout)
  have "best_of n s {} None" by (simp add: best_of_def)
  then obtain b1 where b1: "best_fit n s ?N None = Inr b1" "best_of n s (set ?N) b1"
    using best_fit_step[OF L, of ?N n "{}" None] list_spans[OF wf, of _ h kMaxPages False] by auto
  then obtain b where b: "best_fit n s ?R b1 = Inr b" "best_of n s (set ?N \<union> set ?R) b"
    using best_fit_step[OF L, of ?R n "set ?N" b1] list_spans[OF wf, of _ h kMaxPages True] by auto
  have e: "AllocLarge (Suc fuel) rfuel h n s = (case b of None \<Rightarrow> Inr (NULL, s) | Some (p, _) \<Rightarrow> Carve h p n s)"
  proof (cases "map_option fst b = map_option fst b1")
    case False
    have "b \<noteq> None"
    proof
      assume "b = None"
      then obtain p x where "b1 = Some (p, x)" using False by (cases b1) auto
      then have "p \<in> set ?N" "spans s p = Some x" "n \<le> sp_length x" using b1(2) by (auto simp: best_of_def)
      then show False using b(2) \<open>b = None\<close> by (auto simp: best_of_def dest: leD)
    qed
    then show ?thesis using False by (auto simp: b1(1) b(1) no_limit[OF lim])
  qed (simp add: b1(1) b(1))
  have "found h n s (case b of None \<Rightarrow> Inr (NULL, s) | Some (p, _) \<Rightarrow> Carve h p n s)"
  proof (cases b)
    case None
    have "sp_length y < n" if q: "spans s q = Some y" "sp_location y \<noteq> IN_USE" "sp_heaptype y = h" for q y
    proof (cases "sp_length y < kMaxPages")
      case False
      then have "q \<in> set ?N \<union> set ?R" using large_lists[OF wf q] by (auto simp: list_index_def) (metis (full_types))
      then show ?thesis using b(2) None q(1) by (auto simp: best_of_def)
    qed (use small q in blast)
    then show ?thesis using None unfolding found_def by auto
  next
    case (Some c)
    obtain p x where c: "c = (p, x)" by fastforce
    have p: "p \<in> set ?N \<union> set ?R" "spans s p = Some x" "n \<le> sp_length x" using b(2) Some c by (auto simp: best_of_def)
    have "sp_location x \<noteq> IN_USE" "sp_heaptype x = h"
      using p(1,2) by (auto elim!: list_member[OF wf])
    then show ?thesis using Some c carve_found[OF wf p(2) _ _ n p(3)] by simp
  qed
  then show ?thesis using b(2) e by auto
qed

lemma search_step:
  assumes wf: "ph_ok {} s" and lim: "heap_limit_mb s = 0" and n: "0 < n" and i: "i \<le> kMaxPages - n" and fuel: "0 < fuel"
    and small: "\<And>q y. spans s q = Some y \<Longrightarrow> sp_location y \<noteq> IN_USE \<Longrightarrow> sp_heaptype y = h \<Longrightarrow> sp_length y < kMaxPages - i \<Longrightarrow> sp_length y < n"
  shows "found h n s (search_lists i fuel h n s)"
  using i small
proof (induction i)
  case 0
  obtain k where "fuel = Suc k" using fuel by (cases fuel) auto
  then show ?case using alloc_large_step[OF wf lim n, of h k fuel] 0(2) by simp
next
  case (Suc i)
  let ?sz = "kMaxPages - Suc i"
  have sz: "n \<le> ?sz" "?sz < kMaxPages" using Suc.prems(1) n by auto
  have member: "found h n s (Carve h p n s)" if p: "p \<in> set (span_lists s (Freelist h ?sz r))" for p r
  proof -
    obtain x where x: "spans s p = Some x" "sp_location x = (if r then ON_RETURNED_FREELIST else ON_NORMAL_FREELIST)" "sp_heaptype x = h"
        "?sz = list_index (sp_length x)"
      by (rule list_member[OF wf p])
    have "n \<le> sp_length x" using x(4) sz by (auto simp: list_index_def split: if_splits)
    then show ?thesis using x by (intro carve_found[OF wf x(1)]) (auto simp: n)
  qed
  show ?case
  proof (cases "span_lists s (Freelist h ?sz False)")
    case (Cons p ps)
    then show ?thesis using member[of p False] by (simp add: Let_def)
  next
    case N: Nil
    show ?thesis
    proof (cases "span_lists s (Freelist h ?sz True)")
      case (Cons p ps)
      then show ?thesis using N member[of p True] by (simp add: Let_def DLL_IsEmpty_def no_limit[OF lim])
    next
      case R: Nil
      have "sp_length y < n" if q: "spans s q = Some y" "sp_location y \<noteq> IN_USE" "sp_heaptype y = h" "sp_length y < kMaxPages - i" for q y
      proof (cases "sp_length y = ?sz")
        case True
        then have "list_index (sp_length y) = ?sz" using sz(2) by (simp add: list_index_def)
        then obtain r where "q \<in> set (span_lists s (Freelist h ?sz r))" using large_lists[OF wf q(1-3)] by auto
        then show ?thesis using N R by (cases r) auto
      next
        case False
        then show ?thesis using Suc.prems(2)[OF q(1-3)] q(4) by simp
      qed
      then have "found h n s (search_lists i fuel h n s)" using Suc.IH Suc.prems(1) by simp
      then show ?thesis using N R by (simp add: Let_def DLL_IsEmpty_def)
    qed
  qed
qed

lemma search_all_step:
  assumes "ph_ok {} s" and "heap_limit_mb s = 0" and "0 < n" and "0 < fuel"
  shows "found h n s (SearchFreeAndLargeLists fuel h n s)"
  unfolding SearchFreeAndLargeLists_def
  using assms by (intro search_step) auto

section \<open>Growing\<close>

text \<open>
  What \<open>TCMalloc_SystemAlloc\<close> promises for the calls to come: whole pages at a page boundary, at least as many as were asked
  for, within the address range of the page map, new to the heap, and in all fewer than \<open>2 ^ 31\<close> pages. Theory \<open>System_Pages\<close> derives
  all but the last two from the model of \<open>system-alloc.cc\<close>.
\<close>

definition region :: "ptr \<Rightarrow> nat \<Rightarrow> nat set" where
  "region p sz = {unat p div 8192..<unat p div 8192 + sz div 8192}"

definition sys_contract :: "page_world \<Rightarrow> bool" where
  "sys_contract s \<longleftrightarrow> (\<forall>k sz h p actual. sys_allocs_done s \<le> k \<and> sys_alloc s k sz h = Some (p, actual) \<longrightarrow>
     sz \<le> actual \<and> 8192 \<le> unat p \<and> unat p div 8192 + actual div 8192 < 2 ^ BITS \<and> region p actual \<inter> covered (spans s) = {} \<and>
     card (covered (spans s) \<union> region p actual) < 2 ^ 31)"

lemma grow_step:
  assumes wf: "ph_ok {} s" and y: "rng y \<inter> covered (spans s) = {}" "card (covered (spans s) \<union> rng y) < 2 ^ 31"
      "0 < sp_start y" "0 < sp_length y" "sp_start y + sp_length y < 2 ^ BITS" "sp_link y = None" "sp_location y = IN_USE"
      "sp_sizeclass y = 0"
    and ens: "\<And>k. sp_start y \<le> k + 1 \<Longrightarrow> k \<le> sp_start y + sp_length y \<Longrightarrow> ensured (pagemap s) k"
    and a: "pa_New sizeof_Span (span_allocator s) = Inr (q, a)"
  obtains t where
    "\<And>s'. pagemap s' = pagemap s \<Longrightarrow> get_span q s' = Inr y \<Longrightarrow> RecordSpan q s' = Inr (s'\<lparr>pagemap := t\<rparr>)"
    "q \<noteq> NULL" "spans s q = None" "ph_ok {} (s\<lparr>spans := (spans s)(q \<mapsto> y), span_allocator := a, pagemap := t\<rparr>)"
    "covered ((spans s)(q \<mapsto> y)) = covered (spans s) \<union> rng y"
proof -
  have L: "layout (spans s) (pagemap s)" using wf by (rule wf_layout)
  have q: "q \<noteq> NULL" "spans s q = None" and al: "alloc_ok ((spans s)(q \<mapsto> y)) a"
    using alloc_ok_new[OF _ a, of "spans s" y] wf by (auto simp: ph_ok_def)
  have e: "ensured (pagemap s) (sp_start y)" "ensured (pagemap s) (sp_start y + sp_length y - 1)" using ens y(4) by auto
  obtain t where rec: "\<And>s'. pagemap s' = pagemap s \<Longrightarrow> get_span q s' = Inr y \<Longrightarrow> RecordSpan q s' = Inr (s'\<lparr>pagemap := t\<rparr>)"
      and t: "\<And>j. pm_get t j = (if j = sp_start y \<or> j = sp_start y + sp_length y - 1 then q else pm_get (pagemap s) j)"
      "\<And>j. ensured t j = ensured (pagemap s) j"
    by (rule record_span_step[OF _ e, where q = q]) (use y(4) in simp_all)
  let ?m = "(spans s)(q \<mapsto> y)"
  have lay: "layout ?m t \<and> covered ?m = covered (spans s) \<union> rng y"
  proof (rule layout_grow[OF L q(2) _ y(1,2)])
    show "span_ok t q y" using q(1) y(3-5,8) t ens by (simp add: span_ok_def)
    show "pm_get t j = pm_get (pagemap s) j" if "j \<notin> rng y" for j using t(1) that y(4) by (auto simp: rng_def)
  qed (use t(2) in simp)
  have "links ?m (span_lists s)"
    using wf q(2) y(6) by (intro links_put) (simp_all add: ph_ok_def link_of_def)
  moreover have "filed {} ?m"
    using wf y(6,7) by (intro filed_put[of "{}"]) (auto simp: ph_ok_def filed_span_def)
  moreover have "stats_ok ?m (page_heaps s)"
    using wf q(2) y(6) wf_finite[OF wf] by (intro stats_same) (simp_all add: ph_ok_def contrib_unlinked)
  moreover have "coal {} ?m (page_heaps s)"
    using wf y(4,7) by (intro coal_file[of "{}" _ "page_heaps s"]) (auto simp: ph_ok_def alone_def mergeable_def)
  ultimately show thesis using that[OF rec q] lay al by (simp add: ph_ok_def)
qed

end
