(* ===== verification/System_Pages.thy ===== *)
theory System_Pages
  imports System_Alloc_Correct Page_Heap_Alloc
begin

text \<open>
  The system allocator under the page heap. The page heap takes the answers of \<open>TCMalloc_SystemAlloc\<close> as a parameter; here they
  are those of the model of \<open>system-alloc.cc\<close>, and the promise that the page heap relies on is derived from the
  contracts of the kernel: the layout of a region is proved, what is left to the kernel is that a region is new and that the
  process has fewer than \<open>2 ^ 31\<close> pages.
\<close>

text \<open>The answer to a request of \<open>sz\<close> bytes at a page boundary; null is a refusal, as is a request near the end of the address space.\<close>

definition system_answer :: "sys_state \<Rightarrow> nat \<Rightarrow> int \<Rightarrow> (ptr \<times> nat) option" where
  "system_answer st sz h =
     (if 2 ^ 63 < sz + 64 then None
      else case TCMalloc_SystemAlloc (word_of_nat sz) 0 (2 ^ 13) h st of
             Inl _ \<Rightarrow> None
           | Inr ((p, n), _) \<Rightarrow> if p = NULL then None else Some (p, unat n))"

lemma system_answer_layout:
  assumes k: "mmap_contract st" "sbrk_contract st" and a: "system_answer st sz h = Some (p, n)"
  shows "sz \<le> n" "8192 \<le> unat p" "unat p div 8192 + n div 8192 < 2 ^ BITS"
proof -
  obtain m st' where r: "TCMalloc_SystemAlloc (word_of_nat sz) 0 (2 ^ 13) h st = Inr ((p, m), st')" "p \<noteq> NULL" "n = unat m" "sz + 64 \<le> 2 ^ 63"
    using a by (auto simp: system_answer_def split: if_splits sum.splits)
  have sz: "unat (word_of_nat sz :: uint64) = sz" using r(4) by (simp add: unat_of_nat take_bit_eq_mod)
  have ok: "region_ok 13 (word_of_nat sz) p m"
    using region_from_system[OF _ k _ r(1,2)] r(4) by (simp add: sz)
  then have "8192 dvd unat p" "unat p + n \<le> 2 ^ 47" "sz \<le> n" using r(3) by (auto simp: region_ok_def sz)
  moreover have "0 < unat p" using r(2) by (simp add: unat_gt_0)
  ultimately show "sz \<le> n" "8192 \<le> unat p" by (auto dest: dvd_imp_le)
  have "unat p div 8192 + n div 8192 \<le> (unat p + n) div 8192" using div_add1_eq[of "unat p" n 8192] by linarith
  also have "\<dots> \<le> 2 ^ 34" using div_le_mono[OF \<open>unat p + n \<le> 2 ^ 47\<close>, of 8192] by simp
  finally show "unat p div 8192 + n div 8192 < 2 ^ BITS" by (simp add: BITS_def)
qed

lemma system_answers_keep_contract:
  assumes "\<And>k. mmap_contract (st k)" and "\<And>k. sbrk_contract (st k)"
    and fresh: "\<And>k sz h p n. sys_allocs_done s \<le> k \<Longrightarrow> system_answer (st k) sz h = Some (p, n) \<Longrightarrow>
      region p n \<inter> covered (spans s) = {} \<and> card (covered (spans s) \<union> region p n) < 2 ^ 31"
  shows "sys_contract (s\<lparr>sys_alloc := \<lambda>k. system_answer (st k)\<rparr>)"
  unfolding sys_contract_def
proof (intro allI impI)
  fix k sz h p n
  assume "sys_allocs_done (s\<lparr>sys_alloc := \<lambda>k. system_answer (st k)\<rparr>) \<le> k \<and>
    sys_alloc (s\<lparr>sys_alloc := \<lambda>k. system_answer (st k)\<rparr>) k sz h = Some (p, n)"
  then have a: "sys_allocs_done s \<le> k" "system_answer (st k) sz h = Some (p, n)" by simp_all
  show "sz \<le> n \<and> 8192 \<le> unat p \<and> unat p div 8192 + n div 8192 < 2 ^ BITS \<and>
      region p n \<inter> covered (spans (s\<lparr>sys_alloc := \<lambda>k. system_answer (st k)\<rparr>)) = {} \<and>
      card (covered (spans (s\<lparr>sys_alloc := \<lambda>k. system_answer (st k)\<rparr>)) \<union> region p n) < 2 ^ 31"
    using system_answer_layout[OF assms(1,2) a(2)] fresh[OF a] by simp
qed

end
