(* ===== verification/Linked_List.thy ===== *)
theory Linked_List
  imports NW_Prelude
begin

text \<open>
  The singly linked lists of tcmalloc (\<open>linked_list.h\<close>). An object that is free holds the pointer to the next one in its first
  word: the store \<open>nxt\<close> gives that word. Following the null pointer is the error \<open>NullDeref\<close>. The lists of objects of the other
  theories are what these chains represent.
\<close>

section \<open>Operations\<close>

type_synonym store = "ptr \<Rightarrow> ptr"

definition SLL_Next :: "ptr \<Rightarrow> store \<Rightarrow> ptr res" where
  "SLL_Next t nxt = (if t = NULL then Inl NullDeref else Inr (nxt t))"

definition SLL_SetNext :: "ptr \<Rightarrow> ptr \<Rightarrow> store \<Rightarrow> store res" where
  "SLL_SetNext t n nxt = (if t = NULL then Inl NullDeref else Inr (nxt(t := n)))"

text \<open>\<open>*list\<close> is passed and returned.\<close>

definition SLL_Push :: "ptr \<Rightarrow> ptr \<Rightarrow> store \<Rightarrow> (ptr \<times> store) res" where
  "SLL_Push list element nxt = rbind (SLL_SetNext element list nxt) (\<lambda>nxt. Inr (element, nxt))"

definition SLL_Pop :: "ptr \<Rightarrow> store \<Rightarrow> (ptr \<times> ptr) res" where
  "SLL_Pop list nxt = rbind (SLL_Next list nxt) (\<lambda>n. Inr (list, n))"

primrec sll_walk :: "nat \<Rightarrow> ptr \<Rightarrow> store \<Rightarrow> ptr res" where
  "sll_walk 0 t nxt = Inr t"
| "sll_walk (Suc n) t nxt = rbind (SLL_Next t nxt) (\<lambda>t. sll_walk n t nxt)"

text \<open>The result is the new head, the first and the last node of the range.\<close>

definition SLL_PopRange :: "ptr \<Rightarrow> int \<Rightarrow> store \<Rightarrow> ((ptr \<times> ptr \<times> ptr) \<times> store) res" where
  "SLL_PopRange head N nxt =
     (if N = 0 then Inr ((head, NULL, NULL), nxt)
      else
        rbind (sll_walk (nat (N - 1)) head nxt) (\<lambda>tmp.
          rbind (SLL_Next tmp nxt) (\<lambda>rest.
            rbind (SLL_SetNext tmp NULL nxt) (\<lambda>nxt. Inr ((rest, head, tmp), nxt)))))"

definition SLL_PushRange :: "ptr \<Rightarrow> ptr \<Rightarrow> ptr \<Rightarrow> store \<Rightarrow> (ptr \<times> store) res" where
  "SLL_PushRange head start end' nxt =
     (if start = NULL then Inr (head, nxt) else rbind (SLL_SetNext end' head nxt) (\<lambda>nxt. Inr (start, nxt)))"

text \<open>The list may be circular: the loop has fuel. \<open>count\<close> is an \<open>int\<close>; it is not wrapped, because a list whose length
  leaves the range has more than \<open>2 ^ 31\<close> objects of at least 8 bytes, and the free lists are bounded by 8192 objects.\<close>

primrec SLL_Size :: "nat \<Rightarrow> ptr \<Rightarrow> store \<Rightarrow> int res" where
  "SLL_Size 0 head nxt = Inl OutOfFuel"
| "SLL_Size (Suc fuel) head nxt = (if head = NULL then Inr 0 else rbind (SLL_Size fuel (nxt head) nxt) (\<lambda>n. Inr (n + 1)))"

section \<open>What a chain represents\<close>

fun chain :: "store \<Rightarrow> ptr \<Rightarrow> ptr list \<Rightarrow> bool" where
  "chain nxt a [] \<longleftrightarrow> a = NULL"
| "chain nxt a (x # xs) \<longleftrightarrow> a = x \<and> x \<noteq> NULL \<and> chain nxt (nxt x) xs"

definition sll :: "store \<Rightarrow> ptr \<Rightarrow> ptr list \<Rightarrow> bool" where
  "sll nxt a xs \<longleftrightarrow> distinct xs \<and> chain nxt a xs"

lemma chain_other: "x \<notin> set xs \<Longrightarrow> chain (nxt(x := n)) a xs = chain nxt a xs"
  by (induction xs arbitrary: a) auto

lemma chain_null: "chain nxt a xs \<Longrightarrow> NULL \<notin> set xs"
  by (induction xs arbitrary: a) auto

lemma chain_head: "chain nxt a xs \<Longrightarrow> a = (if xs = [] then NULL else hd xs)"
  by (cases xs) auto

lemma sll_walk_chain: "chain nxt a xs \<Longrightarrow> n < length xs \<Longrightarrow> sll_walk n a nxt = Inr (xs ! n)"
  by (induction n arbitrary: a xs) (case_tac xs; auto simp: SLL_Next_def)+

lemma chain_nth_next: "chain nxt a xs \<Longrightarrow> n < length xs \<Longrightarrow> chain nxt (nxt (xs ! n)) (drop (Suc n) xs)"
  by (induction n arbitrary: a xs) (case_tac xs; auto)+

lemma chain_cut: "chain nxt a xs \<Longrightarrow> distinct xs \<Longrightarrow> n < length xs \<Longrightarrow> chain (nxt(xs ! n := NULL)) a (take (Suc n) xs)"
proof (induction n arbitrary: a xs)
  case 0
  then show ?case by (cases xs) auto
next
  case (Suc n)
  then obtain y ys where xs: "xs = y # ys" by (cases xs) auto
  have "chain (nxt(ys ! n := NULL)) (nxt y) (take (Suc n) ys)" using Suc.prems xs by (intro Suc.IH) auto
  moreover have "ys ! n \<noteq> y" using Suc.prems xs by auto
  ultimately show ?case using Suc.prems xs by (simp add: fun_upd_def)
qed

lemma chain_join: "chain nxt a xs \<Longrightarrow> distinct xs \<Longrightarrow> xs \<noteq> [] \<Longrightarrow> chain nxt b ys \<Longrightarrow> last xs \<notin> set ys \<Longrightarrow> chain (nxt(last xs := b)) a (xs @ ys)"
proof (induction xs arbitrary: a)
  case (Cons x xs)
  show ?case
  proof (cases "xs = []")
    case True
    then have "chain (nxt(x := b)) b ys" using Cons.prems chain_other[of x ys nxt b b] by simp
    then show ?thesis using True Cons.prems by (simp add: fun_upd_def)
  next
    case False
    have "x \<noteq> last xs" using False Cons.prems(2) by (metis distinct.simps(2) last_in_set)
    then show ?thesis using False Cons by simp
  qed
qed simp

section \<open>The operations implement operations on lists\<close>

lemma sll_push: "sll nxt a xs \<Longrightarrow> x \<noteq> NULL \<Longrightarrow> x \<notin> set xs \<Longrightarrow> \<exists>nxt'. SLL_Push a x nxt = Inr (x, nxt') \<and> sll nxt' x (x # xs)"
  by (simp add: SLL_Push_def SLL_SetNext_def sll_def chain_other)

lemma sll_pop: "sll nxt a (x # xs) \<Longrightarrow> \<exists>b. SLL_Pop a nxt = Inr (x, b) \<and> sll nxt b xs"
  by (auto simp: SLL_Pop_def SLL_Next_def sll_def)

lemma sll_pop_range:
  assumes "sll nxt a xs" and "0 \<le> N" and "N \<le> int (length xs)"
  shows "\<exists>b start end' nxt'. SLL_PopRange a N nxt = Inr ((b, start, end'), nxt') \<and> sll nxt' b (drop (nat N) xs) \<and>
    sll nxt' start (take (nat N) xs) \<and> end' = (if N = 0 then NULL else last (take (nat N) xs))"
proof (cases "N = 0")
  case True
  then show ?thesis using assms(1) by (simp add: SLL_PopRange_def sll_def)
next
  case False
  define n where "n = nat (N - 1)"
  have n: "nat N = Suc n" "n < length xs" using False assms(2,3) by (auto simp: n_def)
  have x: "distinct xs" "chain nxt a xs" using assms(1) by (simp_all add: sll_def)
  have nn: "xs ! n \<noteq> NULL" using chain_null[OF x(2)] nth_mem[OF n(2)] by metis
  have w: "sll_walk n a nxt = Inr (xs ! n)" by (rule sll_walk_chain[OF x(2) n(2)])
  have "SLL_PopRange a N nxt = Inr ((nxt (xs ! n), a, xs ! n), nxt(xs ! n := NULL))"
    using False w nn by (simp add: SLL_PopRange_def n_def[symmetric] SLL_Next_def SLL_SetNext_def)
  moreover have "xs ! n \<notin> set (drop (Suc n) xs)" using x(1) n(2) by (metis distinct.simps(2) id_take_nth_drop distinct_append)
  then have "chain (nxt(xs ! n := NULL)) (nxt (xs ! n)) (drop (Suc n) xs)" using chain_nth_next[OF x(2) n(2)] by (simp add: chain_other)
  moreover have "last (take (Suc n) xs) = xs ! n" using n(2) by (simp add: take_Suc_conv_app_nth)
  ultimately show ?thesis using chain_cut[OF x(2,1) n(2)] x(1) False by (simp add: sll_def n(1))
qed

lemma sll_push_range:
  assumes "sll nxt a xs" and "sll nxt start ys" and "set xs \<inter> set ys = {}" and "ys \<noteq> [] \<longrightarrow> end' = last ys"
  shows "\<exists>b nxt'. SLL_PushRange a start end' nxt = Inr (b, nxt') \<and> sll nxt' b (ys @ xs)"
proof (cases "ys = []")
  case True
  then show ?thesis using assms(1,2) by (simp add: SLL_PushRange_def sll_def)
next
  case False
  have y: "distinct ys" "chain nxt start ys" and x: "distinct xs" "chain nxt a xs" using assms(1,2) by (simp_all add: sll_def)
  have l: "last ys \<in> set ys" using False by simp
  then have "last ys \<noteq> NULL" "last ys \<notin> set xs" using chain_null[OF y(2)] assms(3) by auto
  moreover have "start \<noteq> NULL" using chain_head[OF y(2)] chain_null[OF y(2)] False by (metis hd_in_set)
  ultimately show ?thesis
    using chain_join[OF y(2,1) False x(2)] y(1) x(1) assms(3,4) False by (auto simp: SLL_PushRange_def SLL_SetNext_def sll_def)
qed

lemma sll_size: "chain nxt a xs \<Longrightarrow> length xs < fuel \<Longrightarrow> SLL_Size fuel a nxt = Inr (int (length xs))"
proof (induction xs arbitrary: a fuel)
  case Nil
  then show ?case by (cases fuel) auto
next
  case (Cons x xs)
  then show ?case by (cases fuel) auto
qed

text \<open>C38: the list operations of \<open>linked_list.h\<close>. On a chain that represents a list without repetition, \<open>SLL_Push\<close> of
  a new object, \<open>SLL_Pop\<close>, \<open>SLL_PopRange\<close> of at most the whole list, \<open>SLL_PushRange\<close> of a
  disjoint chain and \<open>SLL_Size\<close> do what cons, head and tail, take and drop, append and length do. \<open>SLL_PopRange\<close> ends
  the range it takes off with a null pointer.\<close>

theorem sll_refines_lists:
  assumes "sll nxt a xs"
  shows "(\<forall>x. x \<noteq> NULL \<and> x \<notin> set xs \<longrightarrow> (\<exists>nxt'. SLL_Push a x nxt = Inr (x, nxt') \<and> sll nxt' x (x # xs))) \<and>
    (xs \<noteq> [] \<longrightarrow> (\<exists>b. SLL_Pop a nxt = Inr (hd xs, b) \<and> sll nxt b (tl xs))) \<and>
    (\<forall>N. 0 \<le> N \<and> N \<le> int (length xs) \<longrightarrow> (\<exists>b start end' nxt'. SLL_PopRange a N nxt = Inr ((b, start, end'), nxt') \<and>
       sll nxt' b (drop (nat N) xs) \<and> sll nxt' start (take (nat N) xs) \<and> end' = (if N = 0 then NULL else last (take (nat N) xs)))) \<and>
    (\<forall>start ys. sll nxt start ys \<and> set xs \<inter> set ys = {} \<and> ys \<noteq> [] \<longrightarrow>
       (\<exists>b nxt'. SLL_PushRange a start (last ys) nxt = Inr (b, nxt') \<and> sll nxt' b (ys @ xs))) \<and>
    SLL_Size (length xs + 1) a nxt = Inr (int (length xs))"
proof (intro conjI allI impI)
  show "\<exists>nxt'. SLL_Push a x nxt = Inr (x, nxt') \<and> sll nxt' x (x # xs)" if "x \<noteq> NULL \<and> x \<notin> set xs" for x
    using sll_push[OF assms] that by blast
  show "\<exists>b. SLL_Pop a nxt = Inr (hd xs, b) \<and> sll nxt b (tl xs)" if "xs \<noteq> []"
    using sll_pop[of nxt a "hd xs" "tl xs"] assms that by simp
  show "\<exists>b start end' nxt'. SLL_PopRange a N nxt = Inr ((b, start, end'), nxt') \<and> sll nxt' b (drop (nat N) xs) \<and>
      sll nxt' start (take (nat N) xs) \<and> end' = (if N = 0 then NULL else last (take (nat N) xs))" if "0 \<le> N \<and> N \<le> int (length xs)" for N
    using sll_pop_range[OF assms] that by blast
  show "\<exists>b nxt'. SLL_PushRange a start (last ys) nxt = Inr (b, nxt') \<and> sll nxt' b (ys @ xs)"
    if "sll nxt start ys \<and> set xs \<inter> set ys = {} \<and> ys \<noteq> []" for start ys
    using sll_push_range[OF assms] that by blast
  show "SLL_Size (length xs + 1) a nxt = Inr (int (length xs))" using assms by (intro sll_size) (simp_all add: sll_def)
qed

theorem sll_refines_lists_witness:
  "\<exists>b start end' nxt'. SLL_PopRange 8 2 (\<lambda>a. if a = 8 then 16 else if a = 16 then 24 else 0) = Inr ((b, start, end'), nxt') \<and>
    sll nxt' b [24] \<and> sll nxt' start [8, 16]"
proof -
  have s: "sll (\<lambda>a. if a = 8 then 16 else if a = 16 then 24 else 0) 8 [8, 16, 24]" by (simp add: sll_def)
  have n: "0 \<le> (2 :: int) \<and> (2 :: int) \<le> int (length [8, 16, 24 :: ptr])" by simp
  from sll_refines_lists[OF s, THEN conjunct2, THEN conjunct2, THEN conjunct1, rule_format, OF n]
  show ?thesis by auto
qed

end
