(* ===== verification/Central_Freelist.thy ===== *)
theory Central_Freelist
  imports Page_Heap Chunk_Head
begin

text \<open>
  The central free lists of tcmalloc (\<open>central_freelist.h\<close>, \<open>central_freelist.cc\<close>), one for each heap type and size class,
  over the page heaps. The chain of objects that is linked through the first words of the objects is the list of the objects, with its
  head and tail; \<open>Linked_List\<close> shows for the operations of \<open>linked_list.h\<close> that they implement the
  list operations used here. The lists \<open>empty_\<close> and \<open>nonempty_\<close> are the lists \<open>Empty_spans t c\<close> and \<open>Nonempty_spans t c\<close>
  of the page heap model. Heap type and class of a list are the arguments \<open>t\<close> and \<open>c\<close>. The spin lock of a list is its
  field \<open>cfl_lock\<close>: a thread that takes a lock it already holds waits for ever. \<open>pageheap_lock\<close> is taken and
  released around single calls of the page heap and left out. The build has a transfer cache of at most 64 chains
  (not \<open>TCMALLOC_SMALL_BUT_SLOW\<close>).
\<close>

section \<open>State\<close>

record central_list =
  cfl_lock :: bool
  cfl_num_spans :: uint64
  cfl_counter :: uint64
  tc_slots :: "ptr list list"
  used_slots :: int
  cache_size :: int
  max_cache_size :: int

record central_world =
  ph :: page_world
  sizemap :: size_map
  central :: "int \<Rightarrow> nat \<Rightarrow> central_list"
  race_counter :: int

definition kMaxNumTransferEntries :: nat where "kMaxNumTransferEntries = 64"

definition upd_central :: "int \<Rightarrow> nat \<Rightarrow> (central_list \<Rightarrow> central_list) \<Rightarrow> central_world \<Rightarrow> central_world" where
  "upd_central t c f s = s\<lparr>central := (central s)(t := (central s t)(c := f (central s t c)))\<rparr>"

definition on_ph :: "(page_world \<Rightarrow> page_world res) \<Rightarrow> central_world \<Rightarrow> central_world res" where
  "on_ph f s = rbind (f (ph s)) (\<lambda>w. Inr (s\<lparr>ph := w\<rparr>))"

definition lock_central :: "int \<Rightarrow> nat \<Rightarrow> central_world \<Rightarrow> central_world res" where
  "lock_central t c s =
     (if cfl_lock (central s t c) then Inl Deadlock else Inr (upd_central t c (\<lambda>l. l\<lparr>cfl_lock := True\<rparr>) s))"

definition unlock_central :: "int \<Rightarrow> nat \<Rightarrow> central_world \<Rightarrow> central_world" where
  "unlock_central t c s = upd_central t c (\<lambda>l. l\<lparr>cfl_lock := False\<rparr>) s"

section \<open>Initialisation\<close>

definition CentralFreeList_Init :: "size_map \<Rightarrow> nat \<Rightarrow> central_list res" where
  "CentralFreeList_Init m cl =
     (let l = \<lparr>cfl_lock = False, cfl_num_spans = 0, cfl_counter = 0, tc_slots = replicate kMaxNumTransferEntries [],
               used_slots = 0, cache_size = 16, max_cache_size = int kMaxNumTransferEntries\<rparr>
      in if cl > 0
         then
           rbind (rd (class_to_size m) (int cl)) (\<lambda>bytes.
             rbind (rd (num_objects_to_move m) (int cl)) (\<lambda>objs_to_move.
               if bytes * objs_to_move = 0 then Inl DivByZero
               else
                 let max_size = min (max_cache_size l) (max 1 (1024 * 1024 div (bytes * objs_to_move)))
                 in Inr (l\<lparr>max_cache_size := max_size, cache_size := min (cache_size l) max_size\<rparr>)))
         else Inr l)"

section \<open>Objects go back to their spans\<close>

definition MapObjectToSpan :: "ptr \<Rightarrow> central_world \<Rightarrow> ptr" where
  "MapObjectToSpan obj s = GetDescriptor (unat obj div 2 ^ kPageShift) (ph s)"

text \<open>\<open>span->refcount\<close> has 16 bits.\<close>

definition ReleaseToSpans :: "nat \<Rightarrow> int \<Rightarrow> nat \<Rightarrow> ptr \<Rightarrow> central_world \<Rightarrow> central_world res" where
  "ReleaseToSpans fuel t c obj s =
     (let span = MapObjectToSpan obj s
      in rbind (get_span span (ph s)) (\<lambda>x.
           rbind (if sp_objects x = []
                  then on_ph (\<lambda>w. rbind (DLL_Remove span w) (DLL_Prepend (Nonempty_spans t c) span)) s
                  else Inr s) (\<lambda>s.
             let s = upd_central t c (\<lambda>l. l\<lparr>cfl_counter := cfl_counter l + 1\<rparr>) s;
                 refs = (sp_refcount x + 65535) mod 65536
             in rbind (on_ph (upd_span span (\<lambda>x. x\<lparr>sp_refcount := refs\<rparr>)) s) (\<lambda>s.
                  if refs = 0
                  then
                    rbind (rd (class_to_size (sizemap s)) (int (sp_sizeclass x))) (\<lambda>sz.
                      if sz = 0 then Inl DivByZero
                      else
                        let n = int (sp_length x * 2 ^ kPageShift) div sz;
                            s = upd_central t c (\<lambda>l. l\<lparr>cfl_counter := cfl_counter l - word_of_int n\<rparr>) s
                        in rbind (on_ph (DLL_Remove span) s) (\<lambda>s.
                             let s = upd_central t c (\<lambda>l. l\<lparr>cfl_num_spans := cfl_num_spans l - 1\<rparr>) s;
                                 s = unlock_central t c s
                             in rbind (on_ph (Delete fuel DEFAULT_HEAP_TYPE span) s) (lock_central t c)))
                  else on_ph (upd_span span (\<lambda>x. x\<lparr>sp_objects := obj # sp_objects x\<rparr>)) s))))"

primrec ReleaseListToSpans :: "nat \<Rightarrow> int \<Rightarrow> nat \<Rightarrow> ptr list \<Rightarrow> central_world \<Rightarrow> central_world res" where
  "ReleaseListToSpans fuel t c [] s = Inr s"
| "ReleaseListToSpans fuel t c (obj # objs) s = rbind (ReleaseToSpans fuel t c obj s) (ReleaseListToSpans fuel t c objs)"

section \<open>The transfer cache\<close>

text \<open>
  \<open>ShrinkCache\<close> of the list \<open>(t, c)\<close>. Its \<open>LockInverter\<close> gives up the lock of the class \<open>locked\<close> of the default heap type, takes
  the lock of this list, and undoes both when the function returns.
\<close>

definition ShrinkCache :: "nat \<Rightarrow> int \<Rightarrow> nat \<Rightarrow> nat \<Rightarrow> bool \<Rightarrow> central_world \<Rightarrow> (bool \<times> central_world) res" where
  "ShrinkCache fuel t c locked force s =
     (let l = central s t c
      in if cache_size l = 0 then Inr (False, s)
         else if \<not> force \<and> used_slots l = cache_size l then Inr (False, s)
         else
           rbind (lock_central t c (unlock_central DEFAULT_HEAP_TYPE locked s)) (\<lambda>s.
             rbind (if cache_size (central s t c) = 0 then Inr (False, s)
                    else if used_slots (central s t c) = cache_size (central s t c)
                    then
                      if \<not> force then Inr (False, s)
                      else
                        let s = upd_central t c (\<lambda>l. l\<lparr>cache_size := cache_size l - 1, used_slots := used_slots l - 1\<rparr>) s
                        in rbind (rd (tc_slots (central s t c)) (used_slots (central s t c))) (\<lambda>chain.
                             rbind (ReleaseListToSpans fuel t c chain s) (\<lambda>s. Inr (True, s)))
                    else Inr (True, upd_central t c (\<lambda>l. l\<lparr>cache_size := cache_size l - 1\<rparr>) s)) (\<lambda>(r, s).
               rbind (lock_central DEFAULT_HEAP_TYPE locked (unlock_central t c s)) (\<lambda>s. Inr (r, s)))))"

definition EvictRandomSizeClass :: "nat \<Rightarrow> nat \<Rightarrow> bool \<Rightarrow> central_world \<Rightarrow> (bool \<times> central_world) res" where
  "EvictRandomSizeClass fuel locked force s =
     (let t = race_counter s;
          s = s\<lparr>race_counter := t + 1\<rparr>;
          (t, s) = (if t \<ge> kNumClasses then (t mod kNumClasses, s\<lparr>race_counter := t mod kNumClasses\<rparr>) else (t, s))
      in if t = int locked then Inr (False, s)
         else ShrinkCache fuel DEFAULT_HEAP_TYPE (nat t) locked force s)"

definition MakeCacheSpace :: "nat \<Rightarrow> int \<Rightarrow> nat \<Rightarrow> central_world \<Rightarrow> (bool \<times> central_world) res" where
  "MakeCacheSpace fuel t c s =
     (if used_slots (central s t c) < cache_size (central s t c) then Inr (True, s)
      else if cache_size (central s t c) = max_cache_size (central s t c) then Inr (False, s)
      else
        rbind (EvictRandomSizeClass fuel c False s) (\<lambda>(done1, s).
          rbind (if done1 then Inr (True, s) else EvictRandomSizeClass fuel c True s) (\<lambda>(done2, s).
            if done2 \<and> cache_size (central s t c) < max_cache_size (central s t c)
            then Inr (True, upd_central t c (\<lambda>l. l\<lparr>cache_size := cache_size l + 1\<rparr>) s)
            else Inr (False, s))))"

definition InsertRange :: "nat \<Rightarrow> int \<Rightarrow> nat \<Rightarrow> ptr list \<Rightarrow> int \<Rightarrow> central_world \<Rightarrow> central_world res" where
  "InsertRange fuel t c chain N s =
     rbind (lock_central t c s) (\<lambda>s.
       rbind (rd (num_objects_to_move (sizemap s)) (int c)) (\<lambda>num.
         rbind (if N = num then MakeCacheSpace fuel t c s else Inr (False, s)) (\<lambda>(room, s).
           if room
           then
             rbind (wr (tc_slots (central s t c)) (used_slots (central s t c)) chain) (\<lambda>slots.
               Inr (unlock_central t c (upd_central t c (\<lambda>l. l\<lparr>tc_slots := slots, used_slots := used_slots l + 1\<rparr>) s)))
           else rbind (ReleaseListToSpans fuel t c chain s) (\<lambda>s. Inr (unlock_central t c s)))))"

section \<open>Objects are taken from spans\<close>

text \<open>The loop takes one object at least, whatever \<open>N\<close> is; a span without an object in this list is a null pointer that is followed.\<close>

definition FetchFromOneSpans :: "int \<Rightarrow> nat \<Rightarrow> int \<Rightarrow> central_world \<Rightarrow> (ptr list \<times> central_world) res" where
  "FetchFromOneSpans t c N s =
     (if DLL_IsEmpty (Nonempty_spans t c) (ph s) then Inr ([], s)
      else
        let span = hd (span_lists (ph s) (Nonempty_spans t c))
        in rbind (get_span span (ph s)) (\<lambda>x.
             if sp_objects x = [] then Inl NullDeref
             else
               let taken = take (max 1 (nat N)) (sp_objects x);
                   rest = drop (max 1 (nat N)) (sp_objects x)
               in rbind (if rest = []
                         then on_ph (\<lambda>w. rbind (DLL_Remove span w) (DLL_Prepend (Empty_spans t c) span)) s
                         else Inr s) (\<lambda>s.
                    rbind (on_ph (upd_span span (\<lambda>x. x\<lparr>sp_objects := rest,
                                                     sp_refcount := (sp_refcount x + length taken) mod 65536\<rparr>)) s) (\<lambda>s.
                      Inr (taken, upd_central t c (\<lambda>l. l\<lparr>cfl_counter := cfl_counter l - word_of_nat (length taken)\<rparr>) s)))))"

text \<open>The objects of a span: addresses from \<open>p\<close> in steps of the size, as long as they fit below \<open>limit\<close>.\<close>

function carve_objects :: "nat \<Rightarrow> nat \<Rightarrow> nat \<Rightarrow> nat list" where
  "carve_objects p sz limit = (if 0 < sz \<and> p + sz \<le> limit then p # carve_objects (p + sz) sz limit else [])"
  by auto
termination
  by (relation "measure (\<lambda>(p, sz, limit). limit - p)") auto

declare carve_objects.simps [simp del]

text \<open>
  \<open>init_span\<close> is the part of \<open>Populate\<close> after the span has its class. With a class of size 0, which no caller passes, its
  loop does not end.
\<close>

definition init_span :: "int \<Rightarrow> nat \<Rightarrow> ptr \<Rightarrow> nat \<Rightarrow> span \<Rightarrow> page_world \<Rightarrow> central_world \<Rightarrow> central_world res" where
  "init_span t c p npages x w s =
     (let w = fold (\<lambda>i. CacheSizeClass (sp_start x + i) c) [0..<npages] w;
          start = sp_start x * 2 ^ kPageShift;
          limit = start + npages * 2 ^ kPageShift
      in rbind (rd (class_to_size (sizemap s)) (int c)) (\<lambda>sz.
           if sz \<le> 0 then Inl OutOfFuel
           else
             let objs = map word_of_nat (carve_objects start (nat sz) limit)
             in rbind (upd_span p (\<lambda>x. x\<lparr>sp_objects := objs, sp_refcount := 0\<rparr>) w) (\<lambda>w.
                  rbind (lock_central t c (s\<lparr>ph := w\<rparr>)) (\<lambda>s.
                    rbind (on_ph (DLL_Prepend (Nonempty_spans t c) p) s) (\<lambda>s.
                      Inr (upd_central t c (\<lambda>l. l\<lparr>cfl_num_spans := cfl_num_spans l + 1,
                                                cfl_counter := cfl_counter l + word_of_nat (length objs)\<rparr>) s))))))"

definition Populate :: "nat \<Rightarrow> int \<Rightarrow> nat \<Rightarrow> central_world \<Rightarrow> central_world res" where
  "Populate fuel t c s =
     (let s = unlock_central t c s
      in rbind (rd (class_to_pages (sizemap s)) (int c)) (\<lambda>npages.
           rbind (New fuel t (nat npages) (ph s)) (\<lambda>(p, w).
             if p = NULL then lock_central t c (s\<lparr>ph := w\<rparr>)
             else
               rbind (RegisterSizeClass p c w) (\<lambda>w.
                 rbind (upd_span p (\<lambda>x. x\<lparr>sp_heaptype := t\<rparr>) w) (\<lambda>w.
                   rbind (get_span p w) (\<lambda>x. init_span t c p (nat npages) x w s))))))"

definition FetchFromOneSpansSafe :: "nat \<Rightarrow> int \<Rightarrow> nat \<Rightarrow> int \<Rightarrow> central_world \<Rightarrow> (ptr list \<times> central_world) res" where
  "FetchFromOneSpansSafe fuel t c N s =
     rbind (FetchFromOneSpans t c N s) (\<lambda>(objs, s).
       if objs = [] then rbind (Populate fuel t c s) (FetchFromOneSpans t c N) else Inr (objs, s))"

text \<open>The loop of \<open>RemoveRange\<close>; \<open>k\<close> objects are still missing.\<close>

function fetch_loop :: "int \<Rightarrow> nat \<Rightarrow> nat \<Rightarrow> ptr list \<Rightarrow> central_world \<Rightarrow> (ptr list \<times> central_world) res" where
  "fetch_loop t c k objs s =
     (if k = 0 then Inr (objs, s)
      else
        rbind (FetchFromOneSpans t c (int k) s) (\<lambda>r.
          if fst r = [] then Inr (objs, snd r)
          else fetch_loop t c (k - length (fst r)) (fst r @ objs) (snd r)))"
  by auto
termination
  by (relation "measure (\<lambda>(t, c, k, objs, s). k)") auto

declare fetch_loop.simps [simp del]

definition RemoveRange :: "nat \<Rightarrow> int \<Rightarrow> nat \<Rightarrow> int \<Rightarrow> central_world \<Rightarrow> ((int \<times> ptr list) \<times> central_world) res" where
  "RemoveRange fuel t c N s =
     rbind (lock_central t c s) (\<lambda>s.
       rbind (rd (num_objects_to_move (sizemap s)) (int c)) (\<lambda>num.
         if N = num \<and> used_slots (central s t c) > 0
         then
           rbind (rd (tc_slots (central s t c)) (used_slots (central s t c) - 1)) (\<lambda>chain.
             Inr ((N, chain), unlock_central t c (upd_central t c (\<lambda>l. l\<lparr>used_slots := used_slots l - 1\<rparr>) s)))
         else
           rbind (FetchFromOneSpansSafe fuel t c N s) (\<lambda>(objs, s).
             rbind (if objs = [] then Inr ([], s) else fetch_loop t c (nat (N - int (length objs))) objs s) (\<lambda>(objs, s).
               Inr ((int (length objs), objs), unlock_central t c s)))))"

section \<open>Statistics\<close>

definition tc_length :: "int \<Rightarrow> nat \<Rightarrow> central_world \<Rightarrow> int res" where
  "tc_length t c s =
     rbind (lock_central t c s) (\<lambda>s.
       rbind (rd (num_objects_to_move (sizemap s)) (int c)) (\<lambda>num. Inr (used_slots (central s t c) * num)))"

definition OverheadBytes :: "int \<Rightarrow> nat \<Rightarrow> central_world \<Rightarrow> uint64 res" where
  "OverheadBytes t c s =
     rbind (lock_central t c s) (\<lambda>s.
       if c = 0 then Inr 0
       else
         rbind (rd (class_to_pages (sizemap s)) (int c)) (\<lambda>pages_per_span.
           rbind (rd (class_to_size (sizemap s)) (int c)) (\<lambda>object_size.
             if object_size = 0 then Inl DivByZero
             else Inr (cfl_num_spans (central s t c) * word_of_int (pages_per_span * kPageSize mod object_size)))))"

end
