(* ===== verification/Thread_Cache.thy ===== *)
theory Thread_Cache
  imports Central_Freelist Float32
begin

text \<open>
  The thread caches of tcmalloc (\<open>thread_cache.h\<close>, \<open>thread_cache.cc\<close>): each thread has one cache for each heap
  type. A cache is a record, the caches of the process are a map from addresses; \<open>thread_heaps_\<close> with its \<open>next_\<close> and \<open>prev_\<close>
  links is the list \<open>thread_heaps\<close>. The build has thread-local storage (\<open>HAVE_TLS\<close>); the thread-local data and the
  thread-specific value of each thread are maps from thread numbers, and \<open>me\<close> is the running thread. Setting a
  thread-specific value stores it; that the C library may call \<open>malloc\<close> from there is left out. The fields of a free list are 32-bit counters,
  written as numbers modulo \<open>2 ^ 32\<close>; \<open>unclaimed_cache_space_\<close> is a signed 64-bit word. Sampling is off
  (\<open>FLAGS_tcmalloc_sample_parameter\<close> is 0), so the sampler of a cache is left out.
\<close>

section \<open>Free lists\<close>

record free_list =
  fl_list :: "ptr list"
  fl_length :: nat
  fl_lowater :: nat
  fl_max_length :: nat
  fl_overages :: nat

definition FreeList_Init :: free_list where
  "FreeList_Init = \<lparr>fl_list = [], fl_length = 0, fl_lowater = 0, fl_max_length = 1, fl_overages = 0\<rparr>"

definition set_max_length :: "nat \<Rightarrow> free_list \<Rightarrow> free_list" where
  "set_max_length n l = l\<lparr>fl_max_length := n mod 2 ^ 32\<rparr>"

definition set_length_overages :: "nat \<Rightarrow> free_list \<Rightarrow> free_list" where
  "set_length_overages n l = l\<lparr>fl_overages := n mod 2 ^ 32\<rparr>"

definition clear_lowwatermark :: "free_list \<Rightarrow> free_list" where
  "clear_lowwatermark l = l\<lparr>fl_lowater := fl_length l\<rparr>"

definition fl_Push :: "ptr \<Rightarrow> free_list \<Rightarrow> free_list" where
  "fl_Push p l = l\<lparr>fl_list := p # fl_list l, fl_length := (fl_length l + 1) mod 2 ^ 32\<rparr>"

definition shorten :: "nat \<Rightarrow> free_list \<Rightarrow> free_list" where
  "shorten n l =
     (let len = (fl_length l + (2 ^ 32 - n mod 2 ^ 32)) mod 2 ^ 32
      in l\<lparr>fl_length := len, fl_lowater := (if len < fl_lowater l then len else fl_lowater l)\<rparr>)"

definition fl_Pop :: "free_list \<Rightarrow> (ptr \<times> free_list) res" where
  "fl_Pop l = (case fl_list l of [] \<Rightarrow> Inl NullDeref | p # ps \<Rightarrow> Inr (p, shorten 1 (l\<lparr>fl_list := ps\<rparr>)))"

definition fl_PushRange :: "nat \<Rightarrow> ptr list \<Rightarrow> free_list \<Rightarrow> free_list" where
  "fl_PushRange n chain l = l\<lparr>fl_list := chain @ fl_list l, fl_length := (fl_length l + n) mod 2 ^ 32\<rparr>"

definition fl_PopRange :: "nat \<Rightarrow> free_list \<Rightarrow> (ptr list \<times> free_list) res" where
  "fl_PopRange n l =
     (if length (fl_list l) < n then Inl NullDeref
      else Inr (take n (fl_list l), shorten n (l\<lparr>fl_list := drop n (fl_list l)\<rparr>)))"

section \<open>State\<close>

record tcache =
  tc_type :: int
  tc_size :: uint64
  tc_max_size :: uint64
  tc_lists :: "nat \<Rightarrow> free_list"
  tc_tid :: nat
  tc_in_setspecific :: bool

record thread_world =
  cw :: central_world
  caches :: "ptr \<Rightarrow> tcache option"
  thread_heaps :: "ptr list"
  thread_heap_count :: int
  next_memory_steal :: ptr
  unclaimed_cache_space :: uint64
  per_thread_cache_size :: uint64
  overall_thread_cache_size :: uint64
  threadcache_allocator :: object_allocator
  phinited :: bool
  tsd_inited :: bool
  tsd_value :: "nat \<Rightarrow> ptr"
  tls_heap :: "nat \<Rightarrow> int \<Rightarrow> ptr"
  tls_min_size :: "nat \<Rightarrow> uint64"

definition kMaxThreadCacheSize :: uint64 where "kMaxThreadCacheSize = 4194304"
definition kDefaultOverallThreadCacheSize :: uint64 where "kDefaultOverallThreadCacheSize = 8 * kMaxThreadCacheSize"
definition kMinThreadCacheSize :: uint64 where "kMinThreadCacheSize = 524288"
definition kStealAmount :: uint64 where "kStealAmount = 65536"
definition kMaxOverages :: nat where "kMaxOverages = 3"
definition kMaxDynamicFreeListLength :: nat where "kMaxDynamicFreeListLength = 8192"
definition sizeof_ThreadCache :: nat where "sizeof_ThreadCache = 2240"

definition upd_list :: "nat \<Rightarrow> (free_list \<Rightarrow> free_list) \<Rightarrow> tcache \<Rightarrow> tcache" where
  "upd_list cl f h = h\<lparr>tc_lists := (tc_lists h)(cl := f (tc_lists h cl))\<rparr>"

text \<open>A method that works on the cache \<open>p\<close> and the central lists.\<close>

definition on_cache :: "ptr \<Rightarrow> (tcache \<Rightarrow> central_world \<Rightarrow> ('a \<times> tcache \<times> central_world) res) \<Rightarrow> thread_world \<Rightarrow> ('a \<times> thread_world) res" where
  "on_cache p f w =
     (case caches w p of
        None \<Rightarrow> Inl NullDeref
      | Some h \<Rightarrow> rbind (f h (cw w)) (\<lambda>(r, h, s). Inr (r, w\<lparr>caches := (caches w)(p \<mapsto> h), cw := s\<rparr>)))"

section \<open>Objects go to the central lists\<close>

function release_batches :: "nat \<Rightarrow> int \<Rightarrow> nat \<Rightarrow> nat \<Rightarrow> nat \<Rightarrow> free_list \<Rightarrow> central_world \<Rightarrow> (free_list \<times> central_world) res" where
  "release_batches fuel t cl batch n l s =
     (if n > batch \<and> batch = 0 then Inl OutOfFuel
      else if n > batch
      then
        rbind (fl_PopRange batch l) (\<lambda>r.
          rbind (InsertRange fuel t cl (fst r) (int batch) s) (release_batches fuel t cl batch (n - batch) (snd r)))
      else
        rbind (fl_PopRange n l) (\<lambda>r.
          rbind (InsertRange fuel t cl (fst r) (int n) s) (\<lambda>s. Inr (snd r, s))))"
  by auto
termination
  by (relation "measure (\<lambda>(fuel, t, cl, batch, n, l, s). n)") auto

declare release_batches.simps [simp del]

definition ReleaseToCentralCache :: "nat \<Rightarrow> nat \<Rightarrow> nat \<Rightarrow> tcache \<Rightarrow> central_world \<Rightarrow> (unit \<times> tcache \<times> central_world) res" where
  "ReleaseToCentralCache fuel cl n h s =
     (let src = tc_lists h cl;
          n = (if n > fl_length src then fl_length src else n)
      in rbind (rd (class_to_size (sizemap s)) (int cl)) (\<lambda>byte_size.
           rbind (rd (num_objects_to_move (sizemap s)) (int cl)) (\<lambda>batch_size.
             rbind (release_batches fuel (tc_type h) cl (nat batch_size) n src s) (\<lambda>(src, s).
               Inr ((), (upd_list cl (\<lambda>_. src) h)\<lparr>tc_size := tc_size h - word_of_nat n * word_of_int byte_size\<rparr>, s)))))"

definition ListTooLong :: "nat \<Rightarrow> nat \<Rightarrow> tcache \<Rightarrow> central_world \<Rightarrow> (unit \<times> tcache \<times> central_world) res" where
  "ListTooLong fuel cl h s =
     rbind (rd (num_objects_to_move (sizemap s)) (int cl)) (\<lambda>batch_size.
       let batch = nat batch_size
       in rbind (ReleaseToCentralCache fuel cl batch h s) (\<lambda>(_, h, s).
            let l = tc_lists h cl;
                l = (if fl_max_length l < batch then set_max_length (fl_max_length l + 1) l
                     else if fl_max_length l > batch
                     then
                       let l = set_length_overages (fl_overages l + 1) l
                       in if fl_overages l > kMaxOverages
                          then set_length_overages 0 (set_max_length (fl_max_length l - batch) l)
                          else l
                     else l)
            in Inr ((), upd_list cl (\<lambda>_. l) h, s)))"

section \<open>Objects come from the central lists\<close>

text \<open>The class index is one of an array of 88.\<close>

definition FetchFromCentralCache :: "nat \<Rightarrow> nat \<Rightarrow> uint64 \<Rightarrow> tcache \<Rightarrow> central_world \<Rightarrow> (ptr \<times> tcache \<times> central_world) res" where
  "FetchFromCentralCache fuel cl byte_size h s =
     rbind (rd (num_objects_to_move (sizemap s)) (int cl)) (\<lambda>batch_size.
       let batch = nat batch_size;
           num_to_move = min (fl_max_length (tc_lists h cl)) batch
       in rbind (RemoveRange fuel (tc_type h) cl (int num_to_move) s) (\<lambda>((fetch_count, objs), s).
            let fetch_count = fetch_count - 1;
                h = (if fetch_count \<ge> 0
                     then (upd_list cl (fl_PushRange (nat fetch_count) (tl objs)) h)
                            \<lparr>tc_size := tc_size h + byte_size * word_of_int fetch_count\<rparr>
                     else h);
                l = tc_lists h cl
            in if fl_max_length l < batch
               then Inr (if objs = [] then NULL else hd objs, upd_list cl (set_max_length (fl_max_length l + 1)) h, s)
               else if batch = 0 then Inl DivByZero
               else
                 let new_length = min (fl_max_length l + batch) kMaxDynamicFreeListLength;
                     new_length = new_length - new_length mod batch
                 in Inr (if objs = [] then NULL else hd objs, upd_list cl (set_max_length new_length) h, s)))"

definition Allocate :: "nat \<Rightarrow> uint64 \<Rightarrow> nat \<Rightarrow> tcache \<Rightarrow> central_world \<Rightarrow> (ptr \<times> tcache \<times> central_world) res" where
  "Allocate fuel sz cl h s =
     (if \<not> cl < nat kNumClasses then Inl OutOfBounds
      else if fl_list (tc_lists h cl) = [] then FetchFromCentralCache fuel cl sz h s
      else
        rbind (fl_Pop (tc_lists h cl)) (\<lambda>(p, l).
          Inr (p, (upd_list cl (\<lambda>_. l) h)\<lparr>tc_size := tc_size h - sz\<rparr>, s)))"

section \<open>The limits of the caches\<close>

definition next_in :: "ptr \<Rightarrow> ptr list \<Rightarrow> ptr" where
  "next_in p ps = (case dropWhile (\<lambda>q. q \<noteq> p) ps of _ # q # _ \<Rightarrow> q | _ \<Rightarrow> NULL)"

definition add_max_size :: "ptr \<Rightarrow> uint64 \<Rightarrow> thread_world \<Rightarrow> thread_world" where
  "add_max_size p d w = w\<lparr>caches := (caches w)(p := map_option (\<lambda>h. h\<lparr>tc_max_size := tc_max_size h + d\<rparr>) (caches w p))\<rparr>"

primrec steal_loop :: "nat \<Rightarrow> ptr \<Rightarrow> thread_world \<Rightarrow> thread_world res" where
  "steal_loop 0 p w = Inr w"
| "steal_loop (Suc i) p w =
     (let q = (if next_memory_steal w = NULL then (case thread_heaps w of [] \<Rightarrow> NULL | q # _ \<Rightarrow> q) else next_memory_steal w);
          w = w\<lparr>next_memory_steal := q\<rparr>
      in case caches w q of
           None \<Rightarrow> Inl NullDeref
         | Some h \<Rightarrow>
             if q = p \<or> tc_max_size h \<le> kMinThreadCacheSize
             then steal_loop i p (w\<lparr>next_memory_steal := next_in q (thread_heaps w)\<rparr>)
             else Inr ((add_max_size p kStealAmount (add_max_size q (- kStealAmount) w))\<lparr>next_memory_steal := next_in q (thread_heaps w)\<rparr>))"

definition IncreaseCacheLimitLocked :: "ptr \<Rightarrow> thread_world \<Rightarrow> thread_world res" where
  "IncreaseCacheLimitLocked p w =
     (if 0 < sint (unclaimed_cache_space w)
      then Inr (add_max_size p kStealAmount (w\<lparr>unclaimed_cache_space := unclaimed_cache_space w - kStealAmount\<rparr>))
      else steal_loop 10 p w)"

section \<open>Scavenging and deallocation\<close>

definition scavenge_class :: "nat \<Rightarrow> nat \<Rightarrow> tcache \<Rightarrow> central_world \<Rightarrow> (unit \<times> tcache \<times> central_world) res" where
  "scavenge_class fuel cl h s =
     (let lowmark = fl_lowater (tc_lists h cl)
      in rbind (if lowmark > 0
                then
                  rbind (ReleaseToCentralCache fuel cl (if lowmark > 1 then lowmark div 2 else 1) h s) (\<lambda>(_, h, s).
                    rbind (rd (num_objects_to_move (sizemap s)) (int cl)) (\<lambda>batch_size.
                      let batch = nat batch_size; l = tc_lists h cl
                      in Inr ((), if fl_max_length l > batch
                                  then upd_list cl (set_max_length (max (fl_max_length l - batch) batch)) h
                                  else h, s)))
                else Inr ((), h, s)) (\<lambda>(_, h, s).
           Inr ((), upd_list cl clear_lowwatermark h, s)))"

primrec scavenge_classes :: "nat \<Rightarrow> nat list \<Rightarrow> tcache \<Rightarrow> central_world \<Rightarrow> (unit \<times> tcache \<times> central_world) res" where
  "scavenge_classes fuel [] h s = Inr ((), h, s)"
| "scavenge_classes fuel (cl # cls) h s = rbind (scavenge_class fuel cl h s) (\<lambda>(_, h, s). scavenge_classes fuel cls h s)"

definition Scavenge :: "nat \<Rightarrow> ptr \<Rightarrow> thread_world \<Rightarrow> thread_world res" where
  "Scavenge fuel p w =
     rbind (on_cache p (scavenge_classes fuel [0..<nat kNumClasses]) w) (\<lambda>(_, w). IncreaseCacheLimitLocked p w)"

text \<open>The first part of \<open>Deallocate\<close> returns \<open>list_headroom\<close> and \<open>size_headroom\<close>.\<close>

definition dealloc_push :: "ptr \<Rightarrow> nat \<Rightarrow> tcache \<Rightarrow> central_world \<Rightarrow> ((int \<times> int) \<times> tcache \<times> central_world) res" where
  "dealloc_push a cl h s =
     rbind (rd (class_to_size (sizemap s)) (int cl)) (\<lambda>byte_size.
       let sz = tc_size h + word_of_int byte_size;
           size_headroom = sint (tc_max_size h - sz - 1);
           h = (upd_list cl (fl_Push a) h)\<lparr>tc_size := sz\<rparr>;
           list_headroom = int (fl_max_length (tc_lists h cl)) - int (fl_length (tc_lists h cl))
       in Inr ((list_headroom, size_headroom), h, s))"

definition Deallocate :: "nat \<Rightarrow> ptr \<Rightarrow> ptr \<Rightarrow> nat \<Rightarrow> thread_world \<Rightarrow> thread_world res" where
  "Deallocate fuel p a cl w =
     (if \<not> cl < nat kNumClasses then Inl OutOfBounds
      else
        rbind (on_cache p (dealloc_push a cl) w) (\<lambda>((list_headroom, size_headroom), w).
          if list_headroom < 0 \<or> size_headroom < 0
          then
            rbind (if list_headroom < 0 then on_cache p (ListTooLong fuel cl) w else Inr ((), w)) (\<lambda>(_, w).
              case caches w p of
                None \<Rightarrow> Inl NullDeref
              | Some h \<Rightarrow> if tc_size h \<ge> tc_max_size h then Scavenge fuel p w else Inr w)
          else Inr w))"

section \<open>Creation and deletion\<close>

definition tcache_Init :: "nat \<Rightarrow> ptr \<Rightarrow> thread_world \<Rightarrow> thread_world res" where
  "tcache_Init tid p w =
     (let h = \<lparr>tc_type = 0, tc_size = 0, tc_max_size = 0, tc_lists = (\<lambda>_. FreeList_Init), tc_tid = tid, tc_in_setspecific = False\<rparr>
      in rbind (IncreaseCacheLimitLocked p (w\<lparr>caches := (caches w)(p \<mapsto> h)\<rparr>)) (\<lambda>w.
           case caches w p of
             None \<Rightarrow> Inl NullDeref
           | Some h \<Rightarrow>
               if tc_max_size h = 0
               then Inr ((add_max_size p kMinThreadCacheSize w)\<lparr>unclaimed_cache_space := unclaimed_cache_space w - kMinThreadCacheSize\<rparr>)
               else Inr w))"

definition NewHeap :: "nat \<Rightarrow> int \<Rightarrow> thread_world \<Rightarrow> (ptr \<times> thread_world) res" where
  "NewHeap tid type w =
     rbind (pa_New sizeof_ThreadCache (threadcache_allocator w)) (\<lambda>(p, a).
       rbind (tcache_Init tid p (w\<lparr>threadcache_allocator := a\<rparr>)) (\<lambda>w.
         let w = w\<lparr>caches := (caches w)(p := map_option (\<lambda>h. h\<lparr>tc_type := type\<rparr>) (caches w p)),
                   next_memory_steal := (if thread_heaps w = [] then p else next_memory_steal w),
                   thread_heaps := p # thread_heaps w,
                   thread_heap_count := thread_heap_count w + 1\<rparr>
         in Inr (p, w)))"

primrec cleanup_classes :: "nat \<Rightarrow> nat list \<Rightarrow> tcache \<Rightarrow> central_world \<Rightarrow> (unit \<times> tcache \<times> central_world) res" where
  "cleanup_classes fuel [] h s = Inr ((), h, s)"
| "cleanup_classes fuel (cl # cls) h s =
     rbind (if fl_length (tc_lists h cl) > 0 then ReleaseToCentralCache fuel cl (fl_length (tc_lists h cl)) h s else Inr ((), h, s))
       (\<lambda>(_, h, s). cleanup_classes fuel cls h s)"

definition Cleanup :: "nat \<Rightarrow> ptr \<Rightarrow> thread_world \<Rightarrow> thread_world res" where
  "Cleanup fuel p w = rbind (on_cache p (cleanup_classes fuel [0..<nat kNumClasses]) w) (\<lambda>(_, w). Inr w)"

definition DeleteCache :: "nat \<Rightarrow> ptr \<Rightarrow> thread_world \<Rightarrow> thread_world res" where
  "DeleteCache fuel p w =
     rbind (Cleanup fuel p w) (\<lambda>w.
       case caches w p of
         None \<Rightarrow> Inl NullDeref
       | Some h \<Rightarrow>
           let nxt = next_in p (thread_heaps w);
               heaps = remove1 p (thread_heaps w);
               steal = (if next_memory_steal w = p then nxt else next_memory_steal w);
               steal = (if steal = NULL then (case heaps of [] \<Rightarrow> NULL | q # _ \<Rightarrow> q) else steal)
           in Inr (w\<lparr>caches := (caches w)(p := None), thread_heaps := heaps, thread_heap_count := thread_heap_count w - 1,
                     next_memory_steal := steal, unclaimed_cache_space := unclaimed_cache_space w + tc_max_size h,
                     threadcache_allocator := pa_Delete p (threadcache_allocator w)\<rparr>))"

end
