(* ===== verification/Thread_Cache_Life.thy ===== *)
theory Thread_Cache_Life
  imports Thread_Cache Central_Freelist Size_Map
begin

text \<open>
  The life of the thread caches (\<open>thread_cache.h\<close>, \<open>thread_cache.cc\<close>) and the static variables of tcmalloc (\<open>static_vars.cc\<close>):
  initialisation of the allocator, creation of the caches of a thread, their removal when the thread becomes idle or
  ends, the overall budget, and the locks taken around \<open>fork\<close>. Parameters: \<open>tcb\<close> is the value of
  \<open>TCMALLOC_MAX_TOTAL_THREAD_CACHE_BYTES\<close> as \<open>strtoll\<close> reads it, \<open>agg\<close> the text of \<open>TCMALLOC_AGGRESSIVE_DECOMMIT\<close>, \<open>meta\<close> tells
  which of the blocks for the two page heaps, the page map, its cache, the root of the page map and the allocators of stack
  traces and buckets \<open>MetaDataAlloc\<close> could give. A missing block of the first five is a null pointer that is written through.
\<close>

section \<open>Static variables\<close>

definition NR_HEAP_TYPE :: int where "NR_HEAP_TYPE = 2"

definition heap_types :: "int list" where "heap_types = [0, 1]"

text \<open>The characters that mean yes; \<open>memchr\<close> also finds the end of an empty string.\<close>

definition StringToBool :: "string option \<Rightarrow> bool \<Rightarrow> bool" where
  "StringToBool value dflt = (case value of None \<Rightarrow> dflt | Some v \<Rightarrow> v = [] \<or> hd v \<in> set ''tTyY1'')"

text \<open>\<open>Init\<close> of the lists of one heap type. The two lists of spans become empty as well.\<close>

primrec init_central :: "int \<Rightarrow> nat list \<Rightarrow> central_world \<Rightarrow> central_world res" where
  "init_central t [] s = Inr s"
| "init_central t (c # cs) s =
     rbind (CentralFreeList_Init (sizemap s) c) (\<lambda>l.
       init_central t cs ((upd_central t c (\<lambda>_. l) s)
         \<lparr>ph := (ph s)\<lparr>span_lists := (span_lists (ph s))(Empty_spans t c := [], Nonempty_spans t c := [])\<rparr>\<rparr>))"

definition new_page_heap :: "bool \<Rightarrow> int \<Rightarrow> page_world \<Rightarrow> page_world res" where
  "new_page_heap got i w =
     (if got
      then Inr (w\<lparr>page_heaps := (page_heaps w)(i := page_heap_init False),
                  span_lists := (\<lambda>l. case l of Freelist h n r \<Rightarrow> if h = i then [] else span_lists w l | _ \<Rightarrow> span_lists w l)\<rparr>)
      else Inl NullDeref)"

definition SetAggressiveDecommit :: "bool \<Rightarrow> int \<Rightarrow> page_world \<Rightarrow> page_world" where
  "SetAggressiveDecommit b i w = upd_heap i (\<lambda>h. h\<lparr>aggressive_decommit := b\<rparr>) w"

definition InitStaticVars :: "int \<Rightarrow> string option \<Rightarrow> (nat \<Rightarrow> bool) \<Rightarrow> central_world \<Rightarrow> central_world res" where
  "InitStaticVars transfer_num agg meta s =
     rbind (SizeMap_Init transfer_num) (\<lambda>m.
       rbind (pa_Init sizeof_Span (span_allocator (ph s))) (\<lambda>a.
         rbind (pa_New sizeof_Span a) (\<lambda>(_, a).
           rbind (pa_New sizeof_Span a) (\<lambda>(_, a).
             let s = s\<lparr>sizemap := m, ph := (ph s)\<lparr>span_allocator := a\<rparr>\<rparr>
             in if \<not> (meta 5 \<and> meta 6) then Inl AssertFail
                else
                  rbind (init_central 0 [0..<nat kNumClasses] s) (\<lambda>s.
                  rbind (init_central 1 [0..<nat kNumClasses] s) (\<lambda>s.
                    rbind (new_page_heap (meta 0) 0 (ph s)) (\<lambda>w.
                      rbind (new_page_heap (meta 1) 1 w) (\<lambda>w.
                        if \<not> (meta 2 \<and> meta 3 \<and> meta 4) then Inl NullDeref
                        else
                          let aggressive_decommit = StringToBool agg True;
                              w = w\<lparr>pagemap := (pagemap w)\<lparr>pm_root := (\<lambda>_. None)\<rparr>, pagemap_cache := pc_Clear 0\<rparr>;
                              w = fold (SetAggressiveDecommit aggressive_decommit) heap_types w
                          in Inr (s\<lparr>ph := w\<lparr>span_lists := (span_lists w)(Sampled_objects := [])\<rparr>\<rparr>)))))))))"

text \<open>
  The handlers of \<open>fork\<close>. \<open>central_cache()\<close> without an argument is the array of the default heap type. The page heap lock is not
  a field of the model.
\<close>

primrec lock_classes :: "nat list \<Rightarrow> central_world \<Rightarrow> central_world res" where
  "lock_classes [] s = Inr s"
| "lock_classes (c # cs) s = rbind (lock_central DEFAULT_HEAP_TYPE c s) (lock_classes cs)"

definition CentralCacheLockAll :: "central_world \<Rightarrow> central_world res" where
  "CentralCacheLockAll s = lock_classes [0..<nat kNumClasses] s"

definition CentralCacheUnlockAll :: "central_world \<Rightarrow> central_world" where
  "CentralCacheUnlockAll s = fold (unlock_central DEFAULT_HEAP_TYPE) [0..<nat kNumClasses] s"

section \<open>The budget\<close>

text \<open>A \<open>double\<close> is the rational number it stands for, rounded to 53 significant bits.\<close>

definition fl64 :: "rat \<Rightarrow> rat" where
  "fl64 x =
     (if x = 0 then 0
      else
        let u = pow2 (bin_exp \<bar>x\<bar> - 52)
        in sgn x * of_int (rhe (\<bar>x\<bar> / u)) * u)"

definition d_of_size :: "uint64 \<Rightarrow> rat" where
  "d_of_size w = fl64 (of_int (uint w))"

definition scale_max_size :: "rat \<Rightarrow> tcache \<Rightarrow> tcache" where
  "scale_max_size ratio h =
     (if ratio < 1 then h\<lparr>tc_max_size := word_of_int \<lfloor>fl64 (d_of_size (tc_max_size h) * ratio)\<rfloor>\<rparr> else h)"

primrec recompute_heaps :: "rat \<Rightarrow> ptr list \<Rightarrow> uint64 \<Rightarrow> (ptr \<Rightarrow> tcache option) \<Rightarrow> (uint64 \<times> (ptr \<Rightarrow> tcache option)) res" where
  "recompute_heaps ratio [] claimed C = Inr (claimed, C)"
| "recompute_heaps ratio (p # ps) claimed C =
     (case C p of
        None \<Rightarrow> Inl NullDeref
      | Some h \<Rightarrow>
          let h = scale_max_size ratio h
          in recompute_heaps ratio ps (claimed + tc_max_size h) (C(p \<mapsto> h)))"

definition RecomputePerThreadCacheSize :: "thread_world \<Rightarrow> thread_world res" where
  "RecomputePerThreadCacheSize w =
     (let n = (if thread_heap_count w > 0 then thread_heap_count w else 1);
          space = overall_thread_cache_size w div word_of_int n;
          space = (if space < kMinThreadCacheSize then kMinThreadCacheSize else space);
          space = (if space > kMaxThreadCacheSize then kMaxThreadCacheSize else space);
          ratio = fl64 (d_of_size space / max 1 (d_of_size (per_thread_cache_size w)))
      in rbind (recompute_heaps ratio (thread_heaps w) 0 (caches w)) (\<lambda>(claimed, C).
           Inr (w\<lparr>caches := C, unclaimed_cache_space := overall_thread_cache_size w - claimed, per_thread_cache_size := space\<rparr>)))"

definition set_overall_thread_cache_size :: "uint64 \<Rightarrow> thread_world \<Rightarrow> thread_world res" where
  "set_overall_thread_cache_size new_size w =
     (let new_size = (if new_size < kMinThreadCacheSize then kMinThreadCacheSize else new_size);
          new_size = (if new_size > 1073741824 then 1073741824 else new_size)
      in RecomputePerThreadCacheSize (w\<lparr>overall_thread_cache_size := new_size\<rparr>))"

text \<open>The totals of the caches are added to the counters of the caller.\<close>

primrec add_stats :: "ptr list \<Rightarrow> (ptr \<Rightarrow> tcache option) \<Rightarrow> uint64 \<times> (nat \<Rightarrow> uint64) option \<Rightarrow> (uint64 \<times> (nat \<Rightarrow> uint64) option) res" where
  "add_stats [] C acc = Inr acc"
| "add_stats (p # ps) C acc =
     (case C p of
        None \<Rightarrow> Inl NullDeref
      | Some h \<Rightarrow>
          add_stats ps C (fst acc + tc_size h,
            map_option (\<lambda>n cl. if cl < nat kNumClasses then n cl + word_of_nat (fl_length (tc_lists h cl)) else n cl) (snd acc)))"

definition GetThreadStats :: "uint64 \<Rightarrow> (nat \<Rightarrow> uint64) option \<Rightarrow> thread_world \<Rightarrow> (uint64 \<times> (nat \<Rightarrow> uint64) option) res" where
  "GetThreadStats total_bytes class_count w = add_stats (thread_heaps w) (caches w) (total_bytes, class_count)"

definition HeapsInUse :: "thread_world \<Rightarrow> int" where
  "HeapsInUse w = pa_inuse (threadcache_allocator w)"

section \<open>The caches of a thread\<close>

definition InitModule :: "int option \<Rightarrow> int \<Rightarrow> string option \<Rightarrow> (nat \<Rightarrow> bool) \<Rightarrow> thread_world \<Rightarrow> thread_world res" where
  "InitModule tcb transfer_num agg meta w =
     (if \<not> phinited w
      then
        rbind (case tcb of None \<Rightarrow> Inr w | Some v \<Rightarrow> set_overall_thread_cache_size (word_of_int v) w) (\<lambda>w.
          rbind (InitStaticVars transfer_num agg meta (cw w)) (\<lambda>s.
            rbind (pa_Init sizeof_ThreadCache (threadcache_allocator w)) (\<lambda>a.
              Inr (w\<lparr>cw := s, threadcache_allocator := a, phinited := True\<rparr>))))
      else Inr w)"

definition InitTSD :: "thread_world \<Rightarrow> thread_world" where
  "InitTSD w = w\<lparr>tsd_inited := True\<rparr>"

definition GetThreadHeap :: "nat \<Rightarrow> int \<Rightarrow> thread_world \<Rightarrow> ptr" where
  "GetThreadHeap me heap_type w = tls_heap w me heap_type"

definition GetCacheWhichMustBePresent :: "nat \<Rightarrow> int \<Rightarrow> thread_world \<Rightarrow> ptr" where
  "GetCacheWhichMustBePresent me heap_type w = tls_heap w me heap_type"

definition GetCacheIfPresent :: "nat \<Rightarrow> int \<Rightarrow> thread_world \<Rightarrow> ptr" where
  "GetCacheIfPresent me heap_type w = (if \<not> tsd_inited w then NULL else GetThreadHeap me heap_type w)"

definition MinSizeForSlowPath :: "nat \<Rightarrow> thread_world \<Rightarrow> uint64" where
  "MinSizeForSlowPath me w = tls_min_size w me"

definition SetMinSizeForSlowPath :: "nat \<Rightarrow> uint64 \<Rightarrow> thread_world \<Rightarrow> thread_world" where
  "SetMinSizeForSlowPath me sz w = w\<lparr>tls_min_size := (tls_min_size w)(me := sz)\<rparr>"

definition IsFastPathAllowed :: "nat \<Rightarrow> thread_world \<Rightarrow> bool" where
  "IsFastPathAllowed me w \<longleftrightarrow> MinSizeForSlowPath me w \<noteq> 0"

text \<open>The search of the list for a cache of the thread and the type.\<close>

definition is_cache_of :: "(ptr \<Rightarrow> tcache option) \<Rightarrow> nat \<Rightarrow> int \<Rightarrow> ptr \<Rightarrow> bool" where
  "is_cache_of C me i p \<longleftrightarrow> (case C p of None \<Rightarrow> False | Some h \<Rightarrow> tc_tid h = me \<and> tc_type h = i)"

definition find_or_new :: "nat \<Rightarrow> int \<Rightarrow> thread_world \<Rightarrow> (ptr \<times> thread_world) res" where
  "find_or_new me i w =
     (case find (is_cache_of (caches w) me i) (thread_heaps w) of
        Some p \<Rightarrow> Inr (p, w)
      | None \<Rightarrow> NewHeap me i w)"

definition set_in_setspecific :: "ptr \<Rightarrow> bool \<Rightarrow> thread_world \<Rightarrow> thread_world" where
  "set_in_setspecific p b w = w\<lparr>caches := (caches w)(p := map_option (\<lambda>h. h\<lparr>tc_in_setspecific := b\<rparr>) (caches w p))\<rparr>"

definition pthread_setspecific :: "nat \<Rightarrow> ptr \<Rightarrow> thread_world \<Rightarrow> thread_world" where
  "pthread_setspecific me p w = w\<lparr>tsd_value := (tsd_value w)(me := p)\<rparr>"

definition set_tls_heap :: "nat \<Rightarrow> int \<Rightarrow> ptr \<Rightarrow> thread_world \<Rightarrow> thread_world" where
  "set_tls_heap me i p w = w\<lparr>tls_heap := (tls_heap w)(me := (tls_heap w me)(i := p))\<rparr>"

definition publish :: "nat \<Rightarrow> int \<Rightarrow> ptr \<Rightarrow> thread_world \<Rightarrow> thread_world res" where
  "publish me i p w =
     (case caches w p of
        None \<Rightarrow> Inl NullDeref
      | Some h \<Rightarrow>
          if \<not> tc_in_setspecific h \<and> tsd_inited w
          then
            let w = set_in_setspecific p True w;
                w = pthread_setspecific me p w;
                w = set_tls_heap me i p w;
                w = SetMinSizeForSlowPath me (word_of_int (kMaxSizeInt + 1)) w
            in Inr (set_in_setspecific p False w)
          else Inr w)"

definition CreateCacheIfNecessary :: "nat \<Rightarrow> int \<Rightarrow> thread_world \<Rightarrow> (ptr \<times> thread_world) res" where
  "CreateCacheIfNecessary me heap_type w =
     rbind (find_or_new me 0 w) (\<lambda>(p0, w).
       rbind (find_or_new me 1 w) (\<lambda>(p1, w).
         rbind (publish me 0 p0 w) (\<lambda>w.
           rbind (publish me 1 p1 w) (\<lambda>w.
             if heap_type = 0 then Inr (p0, w) else if heap_type = 1 then Inr (p1, w) else Inl OutOfBounds))))"

definition GetCache :: "nat \<Rightarrow> int \<Rightarrow> int option \<Rightarrow> int \<Rightarrow> string option \<Rightarrow> (nat \<Rightarrow> bool) \<Rightarrow> thread_world \<Rightarrow> (ptr \<times> thread_world) res" where
  "GetCache me heap_type tcb transfer_num agg meta w =
     rbind (if \<not> tsd_inited w then rbind (InitModule tcb transfer_num agg meta w) (\<lambda>w. Inr (NULL, w))
            else Inr (GetThreadHeap me heap_type w, w)) (\<lambda>(p, w).
       if p = NULL then CreateCacheIfNecessary me heap_type w else Inr (p, w))"

section \<open>The end of a thread\<close>

definition clear_tls :: "nat \<Rightarrow> thread_world \<Rightarrow> thread_world" where
  "clear_tls me w = SetMinSizeForSlowPath me 0 (fold (\<lambda>i. set_tls_heap me i NULL) heap_types w)"

definition BecomeIdle :: "nat \<Rightarrow> nat \<Rightarrow> thread_world \<Rightarrow> thread_world res" where
  "BecomeIdle fuel me w =
     (if \<not> tsd_inited w then Inr w
      else
        let heap = GetThreadHeap me DEFAULT_HEAP_TYPE w
        in if heap = NULL then Inr w
           else case caches w heap of
             None \<Rightarrow> Inl NullDeref
           | Some h \<Rightarrow>
               if tc_in_setspecific h then Inr w
               else
                 let w = set_in_setspecific heap True w;
                     w = pthread_setspecific me NULL w;
                     w = clear_tls me w;
                     w = set_in_setspecific heap False w
                 in if GetThreadHeap me DEFAULT_HEAP_TYPE w = heap then Inr w
                    else DeleteCache fuel heap w)"

definition DestroyThreadCache :: "nat \<Rightarrow> nat \<Rightarrow> ptr \<Rightarrow> thread_world \<Rightarrow> thread_world res" where
  "DestroyThreadCache fuel me p w = (if p = NULL then Inr w else DeleteCache fuel p (clear_tls me w))"

end
