(* ===== verification/Page_Heap_Room.thy ===== *)
theory Page_Heap_Room
  imports Page_Heap
begin

text \<open>
  When the page heap can end the process: only when a span descriptor is allocated and there is neither a released
  descriptor nor a rest of a block nor a new block of metadata. \<open>room m a\<close> says that \<open>m\<close> more objects can be allocated; every
  operation of the page heap keeps that or needs a fixed number of descriptors, and fails with \<open>AssertFail\<close> only without them.
\<close>

section \<open>The allocator\<close>

definition room :: "nat \<Rightarrow> nat \<Rightarrow> object_allocator \<Rightarrow> bool" where
  "room m sz a \<longleftrightarrow> m \<le> length (pa_free a) + pa_avail a div sz \<or> pa_meta a (pa_cnt a) \<noteq> NULL"

text \<open>A result that is not the end of the process by a failed check, and whose value satisfies \<open>P\<close>.\<close>

definition calm :: "('a \<Rightarrow> bool) \<Rightarrow> 'a res \<Rightarrow> bool" where
  "calm P r \<longleftrightarrow> (case r of Inl f \<Rightarrow> f \<noteq> AssertFail | Inr x \<Rightarrow> P x)"

lemma calm_simps [simp]: "calm P (Inr x) = P x" "calm P (Inl f) = (f \<noteq> AssertFail)"
  by (simp_all add: calm_def)

lemma calm_rbind: "calm Q r \<Longrightarrow> (\<And>x. Q x \<Longrightarrow> calm P (f x)) \<Longrightarrow> calm P (rbind r f)"
  by (cases r) simp_all

lemma calm_mono: "calm Q r \<Longrightarrow> (\<And>x. Q x \<Longrightarrow> P x) \<Longrightarrow> calm P r"
  by (cases r) simp_all

lemma calm_no_crash: "calm P r \<Longrightarrow> r \<noteq> Inl AssertFail"
  by auto

lemma room_mono: "room n sz a \<Longrightarrow> m \<le> n \<Longrightarrow> room m sz a"
  by (auto simp: room_def)

lemma room_0 [simp]: "room 0 sz a"
  by (simp add: room_def)

lemma room_New:
  assumes sz: "0 < sz" and m: "Suc m * sz \<le> kAllocIncrement" and r: "room (Suc m) sz a"
  obtains p a' where "pa_New sz a = Inr (p, a')" "room m sz a'"
proof (cases "pa_free a")
  case (Cons p rest)
  then show thesis using r that by (auto simp: pa_New_def room_def)
next
  case Nil
  show thesis
  proof (cases "pa_avail a < sz")
    case True
    then have "pa_meta a (pa_cnt a) \<noteq> NULL" using r Nil by (simp add: room_def)
    moreover have "m \<le> (kAllocIncrement - sz) div sz" using m sz by (simp add: less_eq_div_iff_mult_less_eq)
    ultimately show thesis using Nil True that by (simp add: pa_New_def Let_def room_def)
  next
    case False
    then have "pa_avail a div sz = Suc ((pa_avail a - sz) div sz)" using sz by (simp add: le_div_geq)
    then show thesis using r Nil False that by (auto simp: pa_New_def room_def)
  qed
qed

lemma room_Delete: "room m sz a \<Longrightarrow> room m sz (pa_Delete p a)"
  by (auto simp: room_def pa_Delete_def)

section \<open>Operations that take no descriptor\<close>

definition span_room :: "nat \<Rightarrow> page_world \<Rightarrow> bool" where
  "span_room m s \<longleftrightarrow> room m sizeof_Span (span_allocator s)"

lemma span_room_0: "span_room 0 s"
  by (simp add: span_room_def)

lemma span_room_Suc: "span_room (Suc m) s \<Longrightarrow> span_room m s"
  by (simp add: span_room_def room_mono[of "Suc m"])

lemma span_room_mono: "span_room n s \<Longrightarrow> m \<le> n \<Longrightarrow> span_room m s"
  by (simp add: span_room_def room_mono)

text \<open>A step that does not touch the allocator of descriptors.\<close>

lemma span_room_same: "span_allocator s' = span_allocator s \<Longrightarrow> span_room m s' = span_room m s"
  by (simp add: span_room_def)

named_theorems calm_rules \<open>operations that keep the room\<close>

lemma calm_get_span [calm_rules]: "calm (\<lambda>_. True) (get_span p s)"
  by (simp add: get_span_def split: option.split)

lemma calm_upd_span [calm_rules]: "span_room m s \<Longrightarrow> calm (span_room m) (upd_span p f s)"
  by (simp add: upd_span_def get_span_def put_span_def span_room_def split: option.split)

lemma span_room_upd_heap [simp]: "span_room m (upd_heap h f s) = span_room m s"
  by (simp add: upd_heap_def span_room_def)

lemma span_room_fields [simp]:
  "span_room m (put_span p x s) = span_room m s" "span_room m (s\<lparr>span_lists := L\<rparr>) = span_room m s"
  "span_room m (s\<lparr>pagemap := t\<rparr>) = span_room m s" "span_room m (s\<lparr>sys_releases_done := k\<rparr>) = span_room m s"
  "span_room m (s\<lparr>sys_allocs_done := k\<rparr>) = span_room m s" "span_room m (s\<lparr>heap_taken := b\<rparr>) = span_room m s"
  "span_room m (s\<lparr>growth_stacks := g\<rparr>) = span_room m s" "span_room m (s\<lparr>pagemap_cache := c\<rparr>) = span_room m s"
  "span_room m (RecordGrowth n s) = span_room m s" "span_room m (set_scavenge_counter h c' s) = span_room m s"
  by (simp_all add: span_room_def put_span_def RecordGrowth_def set_scavenge_counter_def upd_heap_def)

lemma span_room_DeleteSpan: "span_room m s \<Longrightarrow> span_room m (DeleteSpan p s)"
  by (simp add: span_room_def DeleteSpan_def room_Delete)

lemma calm_DLL_Remove [calm_rules]: "span_room m s \<Longrightarrow> calm (span_room m) (DLL_Remove p s)"
  by (auto simp: DLL_Remove_def get_span_def split: option.split)

lemma calm_DLL_Prepend [calm_rules]: "span_room m s \<Longrightarrow> calm (span_room m) (DLL_Prepend l p s)"
  by (auto simp: DLL_Prepend_def get_span_def split: option.split)

lemma calm_map_set [calm_rules]: "span_room m s \<Longrightarrow> calm (span_room m) (map_set k v s)"
  by (auto simp: map_set_def pm_set_def split: option.split)

lemma calm_RecordSpan [calm_rules]: "span_room m s \<Longrightarrow> calm (span_room m) (RecordSpan p s)"
  unfolding RecordSpan_def
  by (intro calm_rbind[OF calm_get_span] calm_rbind[where Q = "span_room m"]) (auto intro: calm_rules)

lemma calm_PrependToFreeList [calm_rules]: "span_room m s \<Longrightarrow> calm (span_room m) (PrependToFreeList h p s)"
  unfolding PrependToFreeList_def by (intro calm_rbind[OF calm_get_span]) (auto intro: calm_rules)

lemma calm_RemoveFromFreeList [calm_rules]: "span_room m s \<Longrightarrow> calm (span_room m) (RemoveFromFreeList h p s)"
  unfolding RemoveFromFreeList_def by (intro calm_rbind[OF calm_get_span]) (auto intro: calm_rules)

lemma calm_CommitSpan [calm_rules]: "span_room m s \<Longrightarrow> calm (span_room m) (CommitSpan h p s)"
  unfolding CommitSpan_def by (intro calm_rbind[OF calm_get_span]) simp

lemma calm_DecommitSpan [calm_rules]: "span_room m s \<Longrightarrow> calm (\<lambda>r. span_room m (snd r)) (DecommitSpan h p s)"
  unfolding DecommitSpan_def Let_def by (intro calm_rbind[OF calm_get_span]) simp

text \<open>The steps after a first one.\<close>

lemma calm_then: "calm (span_room m) r \<Longrightarrow> (\<And>s. span_room m s \<Longrightarrow> calm P (f s)) \<Longrightarrow> calm P (rbind r f)"
  by (rule calm_rbind)

lemma calm_pair:
  "calm (\<lambda>r. span_room m (snd r)) r \<Longrightarrow> (\<And>x s. span_room m s \<Longrightarrow> calm P (f (x, s))) \<Longrightarrow> calm P (rbind r f)"
  by (cases r) auto

lemma calm_span: "(\<And>x. calm P (f x)) \<Longrightarrow> calm P (rbind (get_span p s) f)"
  by (rule calm_rbind[OF calm_get_span])

lemma calm_merge_prev [calm_rules]: "span_room m s \<Longrightarrow> calm (\<lambda>r. span_room m (snd r)) (merge_prev h p s)"
  unfolding merge_prev_def Let_def
  by (auto intro!: calm_span calm_then[where m = m] calm_rules span_room_DeleteSpan)

lemma calm_merge_next [calm_rules]: "span_room m s \<Longrightarrow> calm (\<lambda>r. span_room m (snd r)) (merge_next h p k s)"
  unfolding merge_next_def Let_def
  by (auto intro!: calm_span calm_then[where m = m] calm_rules span_room_DeleteSpan)

lemma calm_MergeIntoFreeList [calm_rules]: "span_room m s \<Longrightarrow> calm (span_room m) (MergeIntoFreeList h p s)"
  unfolding MergeIntoFreeList_def
  by (auto intro!: calm_span calm_pair[where m = m] calm_then[where m = m] calm_rules)

lemma calm_ReleaseLastNormalSpan [calm_rules]: "span_room m s \<Longrightarrow> calm (\<lambda>r. span_room m (snd r)) (ReleaseLastNormalSpan h i s)"
  unfolding ReleaseLastNormalSpan_def Let_def
  by (auto intro!: calm_span calm_pair[where m = m] calm_then[where m = m] calm_rules)

lemma calm_release_pass [calm_rules]: "span_room m s \<Longrightarrow> calm (\<lambda>r. span_room m (snd r)) (release_pass i h k n s)"
proof (induction i arbitrary: n s)
  case (Suc i)
  then show ?case by (auto simp: Let_def intro!: calm_pair[where m = m] calm_rules)
qed simp

lemma calm_release_loop [calm_rules]: "span_room m s \<Longrightarrow> calm (\<lambda>r. span_room m (snd r)) (release_loop fuel h k n s)"
proof (induction fuel arbitrary: n s)
  case (Suc fuel)
  then show ?case by (auto intro!: calm_pair[where m = m] calm_rules simp del: release_pass.simps)
qed simp

lemma calm_ReleaseAtLeastNPages [calm_rules]: "span_room m s \<Longrightarrow> calm (\<lambda>r. span_room m (snd r)) (ReleaseAtLeastNPages fuel h k s)"
  unfolding ReleaseAtLeastNPages_def by (rule calm_rules)

lemma calm_IncrementalScavenge [calm_rules]: "span_room m s \<Longrightarrow> calm (span_room m) (IncrementalScavenge fuel h n s)"
  unfolding IncrementalScavenge_def Let_def by (auto intro!: calm_pair[where m = m] calm_rules)

lemma calm_EnsureLimit [calm_rules]: "span_room m s \<Longrightarrow> calm (\<lambda>r. span_room m (snd r)) (EnsureLimit fuel h n b s)"
  unfolding EnsureLimit_def Let_def by (auto intro!: calm_pair[where m = m] calm_rules)

lemma calm_Delete [calm_rules]: "span_room m s \<Longrightarrow> calm (span_room m) (Delete fuel h p s)"
  unfolding Delete_def by (auto intro!: calm_span calm_then[where m = m] calm_rules)

section \<open>Operations that take descriptors\<close>

lemma calm_NewSpan:
  assumes "span_room (Suc m) s" and "Suc m \<le> 2000"
  shows "calm (\<lambda>r. span_room m (snd r)) (NewSpan p len s)"
proof -
  have "Suc m * sizeof_Span \<le> kAllocIncrement" "0 < sizeof_Span" using assms(2) by (simp_all add: sizeof_Span_def kAllocIncrement_def)
  then obtain q a where "pa_New sizeof_Span (span_allocator s) = Inr (q, a)" "room m sizeof_Span a"
    using assms(1) room_New unfolding span_room_def by metis
  then show ?thesis by (simp add: NewSpan_def span_room_def put_span_def)
qed

text \<open>\<open>Carve\<close> takes one descriptor at most; when it returns, the result is the span it was given.\<close>

lemma calm_Carve:
  assumes "span_room 1 s"
  shows "calm (\<lambda>r. fst r \<noteq> NULL) (Carve h p n s)"
proof (cases "p = NULL")
  case True
  then show ?thesis by (simp add: Carve_def get_span_def)
next
  case False
  have 0: "calm (\<lambda>r. fst r \<noteq> NULL) (rbind (if b then CommitSpan h p s else Inr s) (\<lambda>s. Inr (p, s)))" for b s
    using False by (auto intro!: calm_then[where m = 0] calm_CommitSpan simp: span_room_0)
  have 1: "calm (span_room 0) (rbind (NewSpan a b s) (\<lambda>(leftover, s).
                         rbind (upd_span leftover f s) (\<lambda>s.
                           rbind (RecordSpan leftover s) (\<lambda>s.
                             rbind (PrependToFreeList h leftover s) (\<lambda>s.
                               rbind (upd_span p g s) (\<lambda>s. map_set k p s))))))"
    if "span_room 1 s" for a b f g k s
    using that by (intro calm_pair[OF calm_NewSpan]) (auto intro!: calm_then[where m = 0] calm_rules)
  have 2: "calm (span_room 0) (if b then rbind (NewSpan a c s) (\<lambda>(leftover, s).
                         rbind (upd_span leftover f s) (\<lambda>s.
                           rbind (RecordSpan leftover s) (\<lambda>s.
                             rbind (PrependToFreeList h leftover s) (\<lambda>s.
                               rbind (upd_span p g s) (\<lambda>s. map_set k p s))))) else Inr s)"
    if "span_room 1 s" for a b c f g k s
    using 1[OF that] by (simp add: span_room_0)
  show ?thesis
    unfolding Carve_def Let_def
    by (rule calm_span, rule calm_then[OF calm_RemoveFromFreeList[OF assms]], erule calm_then[OF calm_upd_span],
      erule calm_then[OF 2], rule 0)
qed

definition taken_or_room :: "nat \<Rightarrow> ptr \<times> page_world \<Rightarrow> bool" where
  "taken_or_room m r \<longleftrightarrow> fst r \<noteq> NULL \<or> span_room m (snd r)"

lemma taken_or_room_null: "taken_or_room m (NULL, s) = span_room m s"
  by (simp add: taken_or_room_def)

lemma calm_Carve_taken: "span_room m s \<Longrightarrow> 0 < m \<Longrightarrow> calm (taken_or_room m) (Carve h p n s)"
  by (rule calm_mono[OF calm_Carve]) (auto simp: taken_or_room_def elim: span_room_mono)

lemma calm_best_fit: "calm (\<lambda>_. True) (best_fit n s ps b)"
  by (induction ps arbitrary: b) (auto intro: calm_span)

lemma calm_AllocLarge: "span_room m s \<Longrightarrow> 0 < m \<Longrightarrow> calm (taken_or_room m) (AllocLarge fuel rfuel h n s)"
proof (induction fuel arbitrary: s)
  case (Suc fuel)
  then show ?case
    by (auto intro!: calm_rbind[OF calm_best_fit] calm_pair[where m = m] calm_rules calm_Carve_taken split: option.split
        simp: taken_or_room_null)
qed simp

lemma calm_search_lists: "span_room m s \<Longrightarrow> 0 < m \<Longrightarrow> calm (taken_or_room m) (search_lists i fuel h n s)"
proof (induction i arbitrary: s)
  case (Suc i)
  then show ?case
    by (auto intro!: calm_pair[where m = m] calm_rules calm_Carve_taken simp: Let_def split: list.split)
qed (simp add: calm_AllocLarge)

lemma calm_Search: "span_room m s \<Longrightarrow> 0 < m \<Longrightarrow> calm (taken_or_room m) (SearchFreeAndLargeLists fuel h n s)"
  unfolding SearchFreeAndLargeLists_def by (rule calm_search_lists)

lemma calm_grow_ask: "span_room m s \<Longrightarrow> calm (\<lambda>r. span_room m (snd r)) (grow_ask fuel h ask s)"
  unfolding grow_ask_def SystemAlloc_call_def Let_def
  by (auto intro!: calm_pair[where m = m] calm_rules split: option.split)

lemma calm_grow_region:
  assumes "span_room (Suc m) s" and "Suc m \<le> 2000"
  shows "calm (\<lambda>r. span_room m (snd r)) (grow_region fuel h p sz s)"
  unfolding grow_region_def Let_def
  using assms by (auto intro!: calm_pair[where m = m] calm_then[where m = m] calm_rules calm_NewSpan
      elim: span_room_mono split: prod.split)

lemma calm_GrowHeap:
  assumes "span_room (Suc m) s" and "Suc m \<le> 2000"
  shows "calm (\<lambda>r. span_room m (snd r)) (GrowHeap fuel h n s)"
  unfolding GrowHeap_def Let_def
  using assms by (auto intro!: calm_pair[where m = "Suc m"] calm_grow_ask calm_grow_region dest: span_room_Suc split: option.split)

text \<open>With room for two descriptors a request for pages does not end the process: one is for the span over new pages, one
  for the rest when a span is cut.\<close>

lemma calm_New: "span_room 2 s \<Longrightarrow> calm (\<lambda>_. True) (New fuel h n s)"
proof -
  assume r: "span_room 2 s"
  have grow: "calm (\<lambda>_. True) (rbind (GrowHeap fuel h n s) (\<lambda>(ok, s). if ok then SearchFreeAndLargeLists fuel h n s else Inr (NULL, s)))"
    if "span_room 2 s" for s
    using that by (intro calm_pair[OF calm_GrowHeap[where m = 1]]) (auto simp: numeral_2_eq_2 intro: calm_mono[OF calm_Search])
  have "calm (taken_or_room 2) (if force_coalesce h n s
                then rbind (ReleaseAtLeastNPages fuel h 2147483647 s) (\<lambda>(_, s). SearchFreeAndLargeLists fuel h n s)
                else Inr (NULL, s))" if "span_room 2 s" for s
    using that by (auto intro!: calm_pair[OF calm_ReleaseAtLeastNPages] calm_Search simp: taken_or_room_null)
  note again = this
  define rest where "rest = (\<lambda>s. rbind (if force_coalesce h n s
                then rbind (ReleaseAtLeastNPages fuel h 2147483647 s) (\<lambda>(_, s). SearchFreeAndLargeLists fuel h n s)
                else Inr (NULL, s)) (\<lambda>(result, s). if result \<noteq> NULL then Inr (result, s)
                  else rbind (GrowHeap fuel h n s) (\<lambda>(ok, s). if ok then SearchFreeAndLargeLists fuel h n s else Inr (NULL, s))))"
  have "calm (\<lambda>_. True) (rest s)" if "span_room 2 s" for s
    unfolding rest_def by (rule calm_rbind[OF again[OF that]]) (auto simp: taken_or_room_null split: prod.split intro!: grow)
  then have "calm (\<lambda>_. True) (if fst r \<noteq> NULL then Inr (fst r, snd r) else rest (snd r))" if "taken_or_room 2 r" for r
    using that by (simp add: taken_or_room_def)
  moreover have "New fuel h n s = rbind (SearchFreeAndLargeLists fuel h n s) (\<lambda>r. if fst r \<noteq> NULL then Inr (fst r, snd r) else rest (snd r))"
    unfolding New_def rest_def by (rule arg_cong[where f = "rbind _"]) (rule ext, simp only: case_prod_beta)
  moreover have "calm (taken_or_room 2) (SearchFreeAndLargeLists fuel h n s)" using r by (rule calm_Search) simp
  ultimately show ?thesis by (simp only: calm_rbind)
qed

theorem New_crash: "New fuel h n s = Inl AssertFail \<Longrightarrow> \<not> span_room 2 s"
  using calm_no_crash[OF calm_New] by blast

end
