(* ===== verification/Page_Heap_Correct.thy ===== *)
theory Page_Heap_Correct
  imports Page_Heap_Alloc Page_Heap_Room
begin

text \<open>
  The page heap as its callers see it: \<open>New\<close> hands out pages that no one else has, \<open>Delete\<close> takes them back and
  coalesces, \<open>Split\<close> and \<open>RegisterSizeClass\<close> keep the invariant, releases end. The theorems on \<open>New\<close> are for the default
  configuration without a heap limit. The last section shows what happens when a span is deleted into the heap of the
  other type.
\<close>

section \<open>Growing the heap\<close>

definition in_use_same :: "ptr \<Rightarrow> page_world \<Rightarrow> page_world \<Rightarrow> bool" where
  "in_use_same p s s' \<longleftrightarrow> (\<forall>q y. q \<noteq> p \<and> sp_location y = IN_USE \<longrightarrow> (spans s' q = Some y \<longleftrightarrow> spans s q = Some y))"

lemma in_use_same_trans: "in_use_same p s s1 \<Longrightarrow> in_use_same p s1 s2 \<Longrightarrow> in_use_same p s s2"
  by (simp add: in_use_same_def)

lemma releases_in_use: "releases h s s' \<Longrightarrow> in_use_same p s s'"
  unfolding in_use_same_def using releasesD(4,5)[of h s s'] by blast

lemma layout_ensure:
  assumes "layout m t" and "\<And>j. pm_get t' j = pm_get t j" and "\<And>j. ensured t j \<Longrightarrow> ensured t' j"
  shows "layout m t'"
proof -
  have "classed t' p x" if "classed t p x" for p x using that by (rule classed_mono) (simp add: assms(2))
  then show ?thesis using assms unfolding layout_def span_ok_def by auto
qed

text \<open>\<open>Ensure\<close> fails only when one of the nodes it asked for was refused.\<close>

lemma ensure_node_allocs:
  "ensure_node k t = (b, t') \<Longrightarrow> pm_alloc t' = pm_alloc t \<and> pm_allocs t \<le> pm_allocs t' \<and> (b \<longrightarrow> pm_root t' (pm_i1 k) \<noteq> None) \<and>
    (\<not> b \<longrightarrow> (\<exists>j. pm_allocs t \<le> j \<and> j < pm_allocs t' \<and> \<not> pm_alloc t j))"
  by (auto simp: ensure_node_def pm_alloc_node_def split: option.splits if_splits)

lemma ensure_leaf_allocs:
  "ensure_leaf k t = (b, t') \<Longrightarrow> pm_root t (pm_i1 k) \<noteq> None \<Longrightarrow> pm_alloc t' = pm_alloc t \<and> pm_allocs t \<le> pm_allocs t' \<and>
    (\<not> b \<longrightarrow> (\<exists>j. pm_allocs t \<le> j \<and> j < pm_allocs t' \<and> \<not> pm_alloc t j))"
  by (auto simp: ensure_leaf_def pm_alloc_node_def split: option.splits if_splits)

lemma ensure_loop_allocs:
  assumes "ensure_loop key final t = (b, t')" and "final < 2 ^ BITS"
  shows "pm_alloc t' = pm_alloc t \<and> pm_allocs t \<le> pm_allocs t' \<and>
    (\<not> b \<longrightarrow> (\<exists>j. pm_allocs t \<le> j \<and> j < pm_allocs t' \<and> \<not> pm_alloc t j))"
  using assms
proof (induction key final t arbitrary: b t' rule: ensure_loop.induct)
  case (1 key final t)
  show ?case
  proof (cases "key \<le> final")
    case True
    have "pm_i1 key < 2 ^ INTERIOR_BITS"
      unfolding pm_i1_def using True 1(3) by (intro less_mult_imp_div_less) (simp add: radix_consts)
    then have i: "\<not> (pm_i1 key \<ge> 2 ^ INTERIOR_BITS \<or> pm_i2 key \<ge> 2 ^ INTERIOR_BITS)" by (simp add: pm_i2_def not_le)
    obtain b1 t1 where n: "ensure_node key t = (b1, t1)" by fastforce
    obtain b2 t2 where l: "ensure_leaf key t1 = (b2, t2)" by fastforce
    note nn = ensure_node_allocs[OF n] and ll = ensure_leaf_allocs[OF l]
    have r: "(if b1 then if b2 then ensure_loop (next_leaf key) final t2 else (False, t2) else (False, t1)) = (b, t')"
      using 1(2) True i n l by (subst (asm) ensure_loop.simps) (simp split: if_splits)
    show ?thesis
    proof (cases b1)
      case F: False
      then show ?thesis using r nn by auto
    next
      case b1: True
      then have t2: "pm_alloc t2 = pm_alloc t" "pm_allocs t1 \<le> pm_allocs t2" "pm_allocs t \<le> pm_allocs t1" using nn ll by simp_all
      show ?thesis
      proof (cases b2)
        case False
        then obtain j where "pm_allocs t1 \<le> j" "j < pm_allocs t2" "\<not> pm_alloc t1 j" using ll nn b1 by auto
        then show ?thesis using False b1 r t2 nn by (auto intro: order_trans)
      next
        case b2: True
        have e: "ensure_loop (next_leaf key) final t2 = (b, t')" using r b1 b2 by simp
        have IH: "pm_alloc t' = pm_alloc t2 \<and> pm_allocs t2 \<le> pm_allocs t' \<and>
            (\<not> b \<longrightarrow> (\<exists>j. pm_allocs t2 \<le> j \<and> j < pm_allocs t' \<and> \<not> pm_alloc t2 j))"
          using 1(1)[OF True i n[symmetric] refl _ l[symmetric] refl _ e 1(3)] b1 b2 by simp
        then show ?thesis using t2 by (metis order_trans)
      qed
    qed
  qed (use 1(2) in \<open>subst (asm) ensure_loop.simps, simp\<close>)
qed

text \<open>An answer of the system, and the state after it.\<close>

lemma grow_ask_step:
  assumes "heap_limit_mb s = 0"
  obtains r s' where "grow_ask fuel h ask s = Inr (r, s')" "r = sys_alloc s (sys_allocs_done s) (ask * 2 ^ kPageShift) h"
    "ph_ok {} s' = ph_ok {} s" "spans s' = spans s" "pagemap s' = pagemap s" "heap_limit_mb s' = 0" "sys_alloc s' = sys_alloc s"
    "sys_allocs_done s' = sys_allocs_done s + 1"
proof -
  let ?r = "sys_alloc s (sys_allocs_done s) (ask * 2 ^ kPageShift) h"
  obtain s' where s': "SystemAlloc_call (ask * 2 ^ kPageShift) h s = (?r, s')" "ph_ok {} s' = ph_ok {} s" "spans s' = spans s"
      "pagemap s' = pagemap s" "heap_limit_mb s' = heap_limit_mb s" "sys_alloc s' = sys_alloc s" "sys_allocs_done s' = sys_allocs_done s + 1"
    by (cases ?r) (auto simp: SystemAlloc_call_def ph_ok_def)
  have "grow_ask fuel h ask s = Inr (?r, s')" by (simp add: grow_ask_def no_limit[OF assms] s'(1))
  then show thesis using that s'(2-) assms by simp
qed

text \<open>
  Why the heap cannot grow by \<open>n\<close> pages: the number is out of range, the system refused this request (the calls with
  the numbers \<open>sys_allocs_done s\<close> and, when the first size was rounded up, the next one), or the page map asked for a node,
  between \<open>s\<close> and \<open>s'\<close>, and did not get it.
\<close>

definition sys_refuses :: "int \<Rightarrow> nat \<Rightarrow> page_world \<Rightarrow> bool" where
  "sys_refuses h n s \<longleftrightarrow>
     sys_alloc s (sys_allocs_done s) (max n kMinSystemAlloc * 2 ^ kPageShift) h = None \<and>
     (n < kMinSystemAlloc \<longrightarrow> sys_alloc s (sys_allocs_done s + 1) (n * 2 ^ kPageShift) h = None)"

definition node_refused :: "page_world \<Rightarrow> page_world \<Rightarrow> bool" where
  "node_refused s s' \<longleftrightarrow> (\<exists>j. pm_allocs (pagemap s) \<le> j \<and> j < pm_allocs (pagemap s') \<and> \<not> pm_alloc (pagemap s) j)"

definition grow_fails :: "int \<Rightarrow> nat \<Rightarrow> page_world \<Rightarrow> page_world \<Rightarrow> bool" where
  "grow_fails h n s s' \<longleftrightarrow> n > kMaxValidPages \<or> sys_refuses h n s \<or> node_refused s s'"

text \<open>A request for \<open>n\<close> pages is refused: no free span of the heap is long enough, and the heap cannot grow.\<close>

definition no_fit :: "int \<Rightarrow> nat \<Rightarrow> page_world \<Rightarrow> bool" where
  "no_fit h n s \<longleftrightarrow> (\<forall>q y. spans s q = Some y \<and> sp_location y \<noteq> IN_USE \<and> sp_heaptype y = h \<longrightarrow> sp_length y < n)"

definition grow_refused :: "int \<Rightarrow> nat \<Rightarrow> page_world \<Rightarrow> page_world \<Rightarrow> bool" where
  "grow_refused h n s s' \<longleftrightarrow> no_fit h n s \<and> grow_fails h n s s'"

text \<open>The outcome of an attempt to grow, which fails only for the reason \<open>why\<close>.\<close>

definition grown_unless :: "bool \<Rightarrow> int \<Rightarrow> nat \<Rightarrow> bool \<Rightarrow> page_world \<Rightarrow> page_world \<Rightarrow> bool" where
  "grown_unless why h n ok s s' \<longleftrightarrow> ph_ok {} s' \<and> heap_limit_mb s' = 0 \<and> covered (spans s) \<subseteq> covered (spans s') \<and> (\<forall>p. in_use_same p s s') \<and>
     (if ok then \<exists>q y. spans s' q = Some y \<and> sp_location y \<noteq> IN_USE \<and> sp_heaptype y = h \<and> n \<le> sp_length y
      else why)"

definition grown :: "int \<Rightarrow> nat \<Rightarrow> bool \<Rightarrow> page_world \<Rightarrow> page_world \<Rightarrow> bool" where
  "grown h n ok s s' \<longleftrightarrow> grown_unless (grow_fails h n s s') h n ok s s'"

lemma grow_region_step:
  assumes wf: "ph_ok {} s" and lim: "heap_limit_mb s = 0" and fuel: "card (dom (spans s)) + 1 < fuel" and n: "0 < n"
    and c: "n * 8192 \<le> actual" "8192 \<le> unat ptr" "unat ptr div 8192 + actual div 8192 < 2 ^ BITS"
      "region ptr actual \<inter> covered (spans s) = {}" "card (covered (spans s) \<union> region ptr actual) < 2 ^ 31"
  shows "grow_region fuel h ptr actual s = Inl AssertFail \<or>
    (\<exists>ok s'. grow_region fuel h ptr actual s = Inr (ok, s') \<and> grown_unless (node_refused s s') h n ok s s')"
proof -
  define P where "P = unat ptr div 8192"
  define A where "A = actual div 8192"
  have k: "(2 :: nat) ^ kPageShift = 8192" by (simp add: kPageShift_def)
  have PA: "0 < P" "P + A < 2 ^ BITS" "n \<le> A" using c(1-3) by (auto simp: P_def A_def less_eq_div_iff_mult_less_eq)
  define s1 where "s1 = RecordGrowth (A * 8192) s"
  define s2 where "s2 = upd_heap h (\<lambda>a. a\<lparr>system_bytes := system_bytes a + bytes64 A, committed_bytes := committed_bytes a + bytes64 A\<rparr>) s1"
  have w1: "ph_ok {} s1" using wf by (simp add: s1_def RecordGrowth_def ph_ok_def)
  have w2: "ph_ok {} s2" unfolding s2_def by (rule wf_heap[OF w1]) simp
  have f2: "spans s2 = spans s" "pagemap s2 = pagemap s" "heap_limit_mb s2 = 0" using lim by (simp_all add: s2_def s1_def upd_heap_def RecordGrowth_def)
  have dec: "dec64 P = P - 1" using PA by (intro dec64_pos) (simp_all add: BITS_def)
  obtain ok t where t: "pm_Ensure (P - 1) (A + 2) (pagemap s) = (ok, t)" by fastforce
  have stop: "P - 1 + (A + 2) \<le> 2 ^ BITS" using PA by simp
  have e: "(\<forall>j. pm_get t j = pm_get (pagemap s) j) \<and> (\<forall>j. ensured (pagemap s) j \<longrightarrow> ensured t j) \<and>
      (ok \<longrightarrow> (\<forall>j. P - 1 \<le> j \<and> j < P - 1 + (A + 2) \<longrightarrow> ensured t j))"
    using Ensure_ok[OF t _ stop] by simp
  define s3 where "s3 = s2\<lparr>pagemap := t\<rparr>"
  have w3: "ph_ok {} s3"
    using w2 layout_ensure[of "spans s2" "pagemap s2" t] e f2(2) by (simp add: ph_ok_def s3_def)
  have f3: "spans s3 = spans s" "heap_limit_mb s3 = 0" "pagemap s3 = t" using f2 by (simp_all add: s3_def)
  have d: "grow_region fuel h ptr actual s = (if ok
         then
           rbind (NewSpan P A s3) (\<lambda>(q, s).
             rbind (upd_span q (\<lambda>x. x\<lparr>sp_heaptype := h\<rparr>) s) (\<lambda>s.
               rbind (RecordSpan q s) (\<lambda>s.
                 rbind (Delete fuel h q s) (\<lambda>s. Inr (True, s)))))
         else Inr (False, s3))"
    unfolding grow_region_def k Let_def P_def[symmetric] A_def[symmetric] s1_def[symmetric] s2_def[symmetric] dec f2(2) t prod.case s3_def
    by (rule refl)
  show ?thesis
  proof (cases ok)
    case False
    have "ensure_loop (P - 1) (P - 1 + (A + 2) - 1) (pagemap s) = (ok, t)"
      using t Ensure_last[OF _ stop, of "pagemap s"] by simp
    moreover have "P - 1 + (A + 2) - 1 < 2 ^ BITS" using stop by simp
    ultimately have "node_refused s s3" using False f3(3) by (auto simp: node_refused_def dest: ensure_loop_allocs)
    then have "grown_unless (node_refused s s3) h n False s s3" using w3 f3 by (simp add: grown_unless_def in_use_same_def)
    then show ?thesis using d False by auto
  next
    case True
    show ?thesis
    proof (cases "pa_New sizeof_Span (span_allocator s3)")
      case (Inl f)
      then show ?thesis using pa_New_fault[OF Inl] d True by (simp add: NewSpan_def)
    next
      case (Inr r)
      obtain q a where r: "r = (q, a)" by fastforce
      note a = Inr[unfolded r]
      define y where "y = (new_span P A)\<lparr>sp_heaptype := h\<rparr>"
      have yf: "sp_start y = P" "sp_length y = A" "sp_link y = None" "sp_location y = IN_USE" "sp_heaptype y = h"
          "sp_sizeclass y = 0" by (simp_all add: y_def new_span_def)
      have ry: "rng y = region ptr actual" by (simp add: rng_def region_def yf P_def A_def)
      have y0: "0 < sp_start y" "0 < sp_length y" "sp_start y + sp_length y < 2 ^ BITS" using PA n by (simp_all add: yf)
      have en: "ensured (pagemap s3) j" if "sp_start y \<le> j + 1" "j \<le> sp_start y + sp_length y" for j
        using e True that PA by (simp add: yf f3(3))
      have dj: "rng y \<inter> covered (spans s3) = {}" "card (covered (spans s3) \<union> rng y) < 2 ^ 31" using c(4,5) f3(1) ry by simp_all
      obtain t' where g: "\<And>s'. pagemap s' = pagemap s3 \<Longrightarrow> get_span q s' = Inr y \<Longrightarrow> RecordSpan q s' = Inr (s'\<lparr>pagemap := t'\<rparr>)"
          "q \<noteq> NULL" "spans s3 q = None" "ph_ok {} (s3\<lparr>spans := (spans s3)(q \<mapsto> y), span_allocator := a, pagemap := t'\<rparr>)"
          "covered ((spans s3)(q \<mapsto> y)) = covered (spans s3) \<union> rng y"
        using grow_step[OF w3 dj y0 yf(3,4,6) en a] by metis
      define s4 where "s4 = s3\<lparr>spans := (spans s3)(q \<mapsto> y), span_allocator := a, pagemap := t'\<rparr>"
      have q4: "spans s4 q = Some y" by (simp add: s4_def)
      have "card (dom (spans s4)) = card (dom (spans s)) + 1"
        using wf_finite[OF w3] g(3) f3(1) by (simp add: s4_def card_insert_if domIff)
      then have "card (dom (spans s4)) < fuel" using fuel by simp
      then obtain s5 where s5: "Delete fuel h q s4 = Inr s5" "ph_ok {} s5" "deletes h q y s4 s5"
        using delete_step[OF g(4)[folded s4_def] q4 yf(4,3,5)] by metis
      have run: "NewSpan P A s3 = Inr (q, put_span q (new_span P A) (s3\<lparr>span_allocator := a\<rparr>))" by (simp add: NewSpan_def a)
      have run2: "upd_span q (\<lambda>x. x\<lparr>sp_heaptype := h\<rparr>) (put_span q (new_span P A) (s3\<lparr>span_allocator := a\<rparr>)) =
          Inr (s3\<lparr>spans := (spans s3)(q \<mapsto> y), span_allocator := a\<rparr>)"
        using g(2) by (simp add: upd_span_def get_span_def put_span_def y_def)
      have run3: "RecordSpan q (s3\<lparr>spans := (spans s3)(q \<mapsto> y), span_allocator := a\<rparr>) = Inr s4"
        using g(1)[of "s3\<lparr>spans := (spans s3)(q \<mapsto> y), span_allocator := a\<rparr>"] g(2) by (simp add: get_span_def s4_def)
      have res: "grow_region fuel h ptr actual s = Inr (True, s5)" using True s5(1) by (simp add: d run run2 run3)
      have "in_use_same p s s5" for p
        unfolding in_use_same_def
      proof (intro allI impI)
        fix z and w :: span
        assume z: "z \<noteq> p \<and> sp_location w = IN_USE"
        show "spans s5 z = Some w \<longleftrightarrow> spans s z = Some w"
        proof (cases "z = q")
          case True
          then show ?thesis using s5(3) z g(3) f3(1) by (auto simp: deletes_def)
        next
          case False
          then show ?thesis using s5(3) z f3(1) by (simp add: deletes_def s4_def)
        qed
      qed
      moreover have "\<exists>p x. spans s5 p = Some x \<and> sp_location x \<noteq> IN_USE \<and> sp_heaptype x = h \<and> n \<le> sp_length x"
      proof -
        obtain p x where x: "spans s5 p = Some x" "sp_location x \<noteq> IN_USE" "sp_heaptype x = h" "rng y \<subseteq> rng x"
          using s5(3) by (auto simp: deletes_def)
        have "card (rng y) \<le> card (rng x)" using x(4) by (intro card_mono) (simp_all add: rng_def)
        then have "n \<le> sp_length x" using PA(3) by (simp add: rng_def yf)
        then show ?thesis using x(1-3) by blast
      qed
      moreover have "covered (spans s) \<subseteq> covered (spans s5)" using s5(3) g(5) f3(1) by (simp add: deletes_def s4_def)
      moreover have "heap_limit_mb s5 = 0" using s5(3) f3(2) by (simp add: deletes_def same_env_def s4_def)
      ultimately show ?thesis using res s5(2) by (auto simp: grown_unless_def)
    qed
  qed
qed

lemma grow_heap_step:
  assumes wf: "ph_ok {} s" and lim: "heap_limit_mb s = 0" and con: "sys_contract s" and n: "0 < n"
    and fuel: "card (dom (spans s)) + 1 < fuel"
  shows "GrowHeap fuel h n s = Inl AssertFail \<or> (\<exists>ok s'. GrowHeap fuel h n s = Inr (ok, s') \<and> grown h n ok s s')"
proof (cases "n > kMaxValidPages")
  case True
  then have "grown h n False s s" using wf lim by (auto simp: grown_def grown_unless_def in_use_same_def grow_fails_def)
  then show ?thesis using True by (auto simp: GrowHeap_def)
next
  case False
  let ?ask = "if n > kMinSystemAlloc then n else kMinSystemAlloc"
  have region: "grow_region fuel h ptr actual s' = Inl AssertFail \<or> (\<exists>ok s''. grow_region fuel h ptr actual s' = Inr (ok, s'') \<and> grown h n ok s s'')"
    if s': "ph_ok {} s' = ph_ok {} s" "spans s' = spans s" "pagemap s' = pagemap s" "heap_limit_mb s' = 0" "sys_alloc s' = sys_alloc s"
      and r: "sys_alloc s k (ask * 2 ^ kPageShift) h = Some (ptr, actual)" "sys_allocs_done s \<le> k" "n \<le> ask" for s' ask k ptr actual
  proof -
    have "ask * 8192 \<le> actual" "8192 \<le> unat ptr" "unat ptr div 8192 + actual div 8192 < 2 ^ BITS" "region ptr actual \<inter> covered (spans s) = {}"
        "card (covered (spans s) \<union> region ptr actual) < 2 ^ 31"
      using con r(1,2) unfolding sys_contract_def by (auto simp: kPageShift_def)
    moreover have "n * 8192 \<le> ask * 8192" using r(3) by simp
    ultimately have R: "grow_region fuel h ptr actual s' = Inl AssertFail \<or>
        (\<exists>ok s''. grow_region fuel h ptr actual s' = Inr (ok, s'') \<and> grown_unless (node_refused s' s'') h n ok s' s'')"
      using grow_region_step[of s' fuel n actual ptr h] s' wf fuel n by simp
    have "grown h n ok s s''" if "grown_unless (node_refused s' s'') h n ok s' s''" for ok s''
      using that s'(2,3) by (auto simp: grown_def grown_unless_def in_use_same_def grow_fails_def node_refused_def)
    then show ?thesis using R by blast
  qed
  obtain r1 s1 where 1: "grow_ask fuel h ?ask s = Inr (r1, s1)" "r1 = sys_alloc s (sys_allocs_done s) (?ask * 2 ^ kPageShift) h"
      "ph_ok {} s1 = ph_ok {} s" "spans s1 = spans s" "pagemap s1 = pagemap s" "heap_limit_mb s1 = 0" "sys_alloc s1 = sys_alloc s"
      "sys_allocs_done s1 = sys_allocs_done s + 1"
    by (rule grow_ask_step[OF lim])
  have refused: "grown h n False s s'" if "ph_ok {} s' = ph_ok {} s" "spans s' = spans s" "heap_limit_mb s' = 0"
      "sys_refuses h n s" for s'
    using that wf by (auto simp: grown_def grown_unless_def in_use_same_def grow_fails_def)
  have ask: "?ask = max n kMinSystemAlloc" by simp
  have d: "GrowHeap fuel h n s =
      rbind (if r1 = None \<and> n < ?ask then grow_ask fuel h n s1 else Inr (r1, s1)) (\<lambda>(r, s).
        case r of None \<Rightarrow> Inr (False, s) | Some (ptr, actual) \<Rightarrow> grow_region fuel h ptr actual s)"
    unfolding GrowHeap_def Let_def if_not_P[OF False] 1(1) rbind_Inr prod.case by (rule refl)
  show ?thesis
  proof (cases r1)
    case (Some pa)
    obtain ptr actual where pa: "pa = (ptr, actual)" by fastforce
    have "sys_alloc s (sys_allocs_done s) (?ask * 2 ^ kPageShift) h = Some (ptr, actual)" using 1(2) Some pa by simp
    from region[OF 1(3-7) this] show ?thesis using d Some pa by simp
  next
    case None
    show ?thesis
    proof (cases "n < ?ask")
      case True
      obtain r2 s2 where 2: "grow_ask fuel h n s1 = Inr (r2, s2)" "r2 = sys_alloc s1 (sys_allocs_done s1) (n * 2 ^ kPageShift) h"
          "ph_ok {} s2 = ph_ok {} s1" "spans s2 = spans s1" "pagemap s2 = pagemap s1" "heap_limit_mb s2 = 0" "sys_alloc s2 = sys_alloc s1"
          "sys_allocs_done s2 = sys_allocs_done s1 + 1"
        by (rule grow_ask_step[OF 1(6)])
      show ?thesis
      proof (cases r2)
        case N2: None
        have "sys_alloc s (sys_allocs_done s + 1) (n * 2 ^ kPageShift) h = None" using 1(7,8) 2(2) N2 by simp
        then have "sys_refuses h n s" using 1(2) None by (simp add: sys_refuses_def ask[symmetric])
        then have "grown h n False s s2" using 1 2 by (intro refused) simp_all
        then show ?thesis using d None True 2(1) N2 by auto
      next
        case (Some pa)
        obtain ptr actual where pa: "pa = (ptr, actual)" by fastforce
        have "sys_alloc s (sys_allocs_done s + 1) (n * 2 ^ kPageShift) h = Some (ptr, actual)" using 1(7,8) 2(2) Some pa by simp
        from region[OF _ _ _ 2(6) _ this] have R: "grow_region fuel h ptr actual s2 = Inl AssertFail \<or>
            (\<exists>ok s''. grow_region fuel h ptr actual s2 = Inr (ok, s'') \<and> grown h n ok s s'')"
          using 1 2 by simp
        have "GrowHeap fuel h n s = grow_region fuel h ptr actual s2" unfolding d using None True 2(1) Some pa by simp
        then show ?thesis using R by simp
      qed
    next
      case F: False
      have "sys_refuses h n s" using 1(2) None F by (auto simp: sys_refuses_def ask[symmetric] split: if_splits)
      then have "grown h n False s s1" using 1(3-6) by (intro refused) simp_all
      then show ?thesis using d None F by auto
    qed
  qed
qed

section \<open>Allocation and deletion\<close>

definition allocated :: "int \<Rightarrow> nat \<Rightarrow> ptr \<Rightarrow> page_world \<Rightarrow> page_world \<Rightarrow> bool" where
  "allocated h n p s s' \<longleftrightarrow> ph_ok {} s' \<and> covered (spans s) \<subseteq> covered (spans s') \<and> in_use_same p s s' \<and>
     (if p = NULL then grow_refused h n s s'
      else (\<exists>x. spans s' p = Some x \<and> sp_location x = IN_USE \<and> sp_length x = n \<and> sp_link x = None \<and> sp_heaptype x = h) \<and>
           (\<forall>y. spans s p = Some y \<longrightarrow> sp_location y \<noteq> IN_USE))"

text \<open>A search after steps that changed no span in use.\<close>

lemma found_allocated:
  assumes f: "found h n s1 r" and s1: "covered (spans s) \<subseteq> covered (spans s1)" "\<And>p. in_use_same p s s1"
    and r: "r = Inr (p, s')" "p \<noteq> NULL"
  shows "allocated h n p s s'"
proof -
  have t: "ph_ok {} s'" "takes h n p s1 s'" using f r by (auto simp: found_def)
  have "in_use_same p s1 s'" using t(2) by (simp add: takes_def in_use_same_def)
  then have "in_use_same p s s'" using s1(2) in_use_same_trans by blast
  moreover have "sp_location y \<noteq> IN_USE" if y: "spans s p = Some y" for y
  proof
    assume l: "sp_location y = IN_USE"
    have "p + 1 \<noteq> p" by simp
    then have "spans s1 p = Some y" using s1(2)[of "p + 1"] y l unfolding in_use_same_def by metis
    then show False using t(2) l by (auto simp: takes_def)
  qed
  ultimately show ?thesis using t s1(1) r(2) by (auto simp: allocated_def takes_def)
qed

lemma found_null: "found h n s (Inr (NULL, s')) \<Longrightarrow> s' = s \<and> (\<forall>q y. spans s q = Some y \<and> sp_location y \<noteq> IN_USE \<and> sp_heaptype y = h \<longrightarrow> sp_length y < n)"
  by (auto simp: found_def)

lemma found_cases:
  assumes "found h n s r"
  obtains "r = Inl AssertFail" | p s' where "r = Inr (p, s')" "p \<noteq> NULL" | "r = Inr (NULL, s)"
  using assms by (auto simp: found_def)

lemma grown_search:
  assumes wf: "ph_ok {} s1" and lim: "heap_limit_mb s1 = 0" and con: "sys_contract s1" and n: "0 < n"
    and fuel: "card (dom (spans s1)) + 1 < fuel"
    and s1: "covered (spans s) \<subseteq> covered (spans s1)" "\<And>p. in_use_same p s s1" "\<And>s'. grow_fails h n s1 s' = grow_fails h n s s'" "no_fit h n s"
  defines "r \<equiv> rbind (GrowHeap fuel h n s1) (\<lambda>(ok, s). if ok then SearchFreeAndLargeLists fuel h n s else Inr (NULL, s))"
  shows "r = Inl AssertFail \<or> (\<exists>p s'. r = Inr (p, s') \<and> allocated h n p s s')"
proof (cases "GrowHeap fuel h n s1 = Inl AssertFail")
  case True
  then show ?thesis by (simp add: r_def)
next
  case False
  then obtain ok s2 where g: "GrowHeap fuel h n s1 = Inr (ok, s2)" "grown h n ok s1 s2"
    using grow_heap_step[OF wf lim con n fuel, of h] by auto
  have c2: "covered (spans s) \<subseteq> covered (spans s2)" "\<And>p. in_use_same p s s2"
    using g(2) s1 in_use_same_trans unfolding grown_def grown_unless_def by blast+
  show ?thesis
  proof (cases ok)
    case False
    have "grow_refused h n s s2" using g(2) False s1(3,4) by (simp add: grown_def grown_unless_def grow_refused_def)
    then have "allocated h n NULL s s2" using c2 g(2) by (simp add: allocated_def grown_def grown_unless_def)
    then show ?thesis using g(1) False by (auto simp: r_def)
  next
    case True
    have w2: "ph_ok {} s2" "heap_limit_mb s2 = 0" using g(2) by (simp_all add: grown_def grown_unless_def)
    have f: "found h n s2 (SearchFreeAndLargeLists fuel h n s2)" by (rule search_all_step[OF w2 n]) (use fuel in simp)
    have e: "r = SearchFreeAndLargeLists fuel h n s2" using g(1) True by (simp add: r_def)
    from f show ?thesis
    proof (cases rule: found_cases)
      case 1
      then show ?thesis using e by simp
    next
      case (2 p s')
      then show ?thesis using found_allocated[OF f c2 2] e by auto
    next
      case 3
      obtain q y where y: "spans s2 q = Some y" "sp_location y \<noteq> IN_USE" "sp_heaptype y = h" "n \<le> sp_length y"
        using g(2) True by (auto simp: grown_def grown_unless_def)
      have "found h n s2 (Inr (NULL, s2))" using f 3 by simp
      then have "sp_length y < n" using found_null y(1-3) by blast
      then show ?thesis using y(4) by simp
    qed
  qed
qed

lemma new_step:
  assumes wf: "ph_ok {} s" and lim: "heap_limit_mb s = 0" and con: "sys_contract s" and n: "0 < n"
    and fuel: "card (dom (spans s)) + 1 < fuel"
  shows "New fuel h n s = Inl AssertFail \<or> (\<exists>p s'. New fuel h n s = Inr (p, s') \<and> allocated h n p s s')"
proof -
  have f0: "0 < fuel" using fuel by simp
  have f: "found h n s (SearchFreeAndLargeLists fuel h n s)" by (rule search_all_step[OF wf lim n f0])
  have same: "in_use_same p s s" for p by (simp add: in_use_same_def)
  from f show ?thesis
  proof (cases rule: found_cases)
    case 1
    then show ?thesis by (simp add: New_def)
  next
    case (2 p s')
    then show ?thesis using found_allocated[OF f _ same 2] by (simp add: New_def)
  next
    case 3
    have nf: "no_fit h n s" using found_null[OF f[unfolded 3]] by (simp add: no_fit_def)
    define grow where "grow = (\<lambda>s. rbind (GrowHeap fuel h n s) (\<lambda>(ok, s). if ok then SearchFreeAndLargeLists fuel h n s else Inr (NULL, s)))"
    show ?thesis
    proof (cases "force_coalesce h n s")
      case False
      have "New fuel h n s = grow s" using 3 False by (simp add: New_def grow_def)
      then show ?thesis using grown_search[OF wf lim con n fuel _ same refl nf] by (simp add: grow_def)
    next
      case True
      obtain r1 s1 where 1: "ReleaseAtLeastNPages fuel h 2147483647 s = Inr (r1, s1)" "ph_ok {} s1" "releases h s s1"
        using release_loop_step[OF wf, of h fuel 2147483647 0] normals_dom[OF wf, of h] fuel by (auto simp: ReleaseAtLeastNPages_def)
      have c1: "covered (spans s) \<subseteq> covered (spans s1)" using releasesD(2)[OF 1(3)] by simp
      have i1: "in_use_same p s s1" for p using 1(3) by (rule releases_in_use)
      have l1: "heap_limit_mb s1 = 0" using releasesD(1)[OF 1(3)] lim by (simp add: same_env_def)
      have f1: "found h n s1 (SearchFreeAndLargeLists fuel h n s1)" by (rule search_all_step[OF 1(2) l1 n f0])
      from f1 show ?thesis
      proof (cases rule: found_cases)
        case a: 1
        then show ?thesis using 3 True 1(1) by (simp add: New_def)
      next
        case b: (2 p s')
        then show ?thesis using found_allocated[OF f1 c1 i1 b] 3 True 1(1) by (simp add: New_def)
      next
        case c: 3
        have "New fuel h n s = grow s1" using 3 True 1(1) c by (simp add: New_def grow_def)
        moreover have "sys_contract s1" using con releasesD(1,2)[OF 1(3)] by (simp add: sys_contract_def same_env_def)
        moreover have "card (dom (spans s1)) + 1 < fuel"
          using card_mono[OF wf_finite[OF wf] releasesD(3)[OF 1(3)]] fuel by simp
        moreover have "grow_fails h n s1 s' = grow_fails h n s s'" for s'
          using releasesD(1)[OF 1(3)] by (simp add: grow_fails_def sys_refuses_def node_refused_def same_env_def)
        ultimately show ?thesis using grown_search[OF 1(2) l1 _ n _ c1 i1 _ nf] by (simp add: grow_def)
      qed
    qed
  qed
qed


text \<open>C5: \<open>PageHeap::Delete\<close>. Deleting a span in use into the heap of its type returns, keeps the invariant, leaves
  every other span in use as it is and loses no page; the pages of the span are then part of one free span of the heap, and
  no two neighbouring free spans of a heap could still be merged (the part \<open>coal\<close> of the invariant).\<close>

theorem page_heap_Delete_correct:
  assumes "ph_ok {} s" and "spans s p = Some x" and "sp_location x = IN_USE" and "sp_link x = None" and "sp_heaptype x = h"
    and "card (dom (spans s)) < fuel"
  shows "\<exists>s'. Delete fuel h p s = Inr s' \<and> ph_ok {} s' \<and> deletes h p x s s'"
  using delete_step[OF assms] by blast

text \<open>C6: \<open>PageHeap::ReleaseAtLeastNPages\<close> ends. Its loop runs at most once more than the heap has spans in its normal
  lists; afterwards at least \<open>num\<close> pages were released, or the heap has no free bytes left, or the system refused a release.
  The invariant holds, the spans in use and those of the other heap are unchanged.\<close>

theorem page_heap_release_ends:
  assumes "ph_ok {} s" and "card (normals s h) < fuel"
  shows "\<exists>r s'. ReleaseAtLeastNPages fuel h num s = Inr (r, s') \<and> ph_ok {} s' \<and> releases h s s' \<and>
    (num \<le> r \<or> free_bytes (page_heaps s' h) = 0 \<or> (\<exists>k. \<not> sys_release s k))"
  using release_loop_step[OF assms] by (simp add: ReleaseAtLeastNPages_def)

section \<open>Splitting and size classes\<close>

text \<open>\<open>Split\<close> divides a span in use; both halves are in use and cover the old pages.\<close>

lemma split_span_step:
  assumes wf: "ph_ok {} s" and p: "spans s p = Some x" and x: "sp_location x = IN_USE" "sp_sizeclass x = 0" and n: "0 < n" "n < sp_length x"
  shows "Split h p n s = Inl AssertFail \<or> (\<exists>q s' y. Split h p n s = Inr (q, s') \<and> ph_ok {} s' \<and> q \<noteq> p \<and>
    spans s' = (spans s)(q \<mapsto> y, p \<mapsto> x\<lparr>sp_length := n\<rparr>) \<and> sp_start y = sp_start x + n \<and> sp_length y = sp_length x - n \<and>
    sp_location y = IN_USE \<and> sp_heaptype y = h \<and> spans s q = None)"
proof -
  have L: "layout (spans s) (pagemap s)" using wf by (rule wf_layout)
  have g: "get_span p s = Inr x" by (rule get_span_ok[OF L p])
  have p0: "p \<noteq> NULL" using L p by (simp add: layout_def span_ok_def)
  have ex: "i32 (int (sp_length x) - int n) = int (sp_length x - n)" using n by (intro extra_pages[OF L p]) simp
  have "int (sp_length x - n) mod 2 ^ 64 = int (sp_length x - n)" using span_length_bound[OF L p] by simp
  then have ex64: "nat (int (sp_length x - n) mod 2 ^ 64) = sp_length x - n" by (simp only: nat_int)
  have w: "ph_ok {p} s" using wf_in_use(2)[OF wf p x(1)] by simp
  have l: "\<forall>h i r. sp_link x \<noteq> Some (Freelist h i r)" using wf p x by (auto simp: ph_ok_def filed_def filed_span_def)
  show ?thesis
  proof (cases "pa_New sizeof_Span (span_allocator s)")
    case (Inl f)
    then show ?thesis using pa_New_fault[OF Inl] by (simp add: Split_def g NewSpan_def Let_def)
  next
    case (Inr r)
    obtain q a where r: "r = (q, a)" by fastforce
    note a = Inr[unfolded r]
    define y where "y = (new_span (sp_start x + n) (sp_length x - n))\<lparr>sp_heaptype := h\<rparr>"
    have yf: "sp_start y = sp_start x + n" "sp_length y = sp_length x - n" "sp_link y = None" "sp_location y = IN_USE" "sp_heaptype y = h"
        "sp_sizeclass y = 0" by (simp_all add: y_def new_span_def)
    obtain t1 t2 where t: "\<And>s'. pagemap s' = pagemap s \<Longrightarrow> get_span q s' = Inr y \<Longrightarrow> RecordSpan q s' = Inr (s'\<lparr>pagemap := t1\<rparr>)"
        "pm_set (sp_start x + n - 1) p t1 = Inr t2" "q \<noteq> NULL" "spans s q = None" "q \<noteq> p"
        "ph_ok (insert q {p}) (split_world p (x\<lparr>sp_length := n\<rparr>) q y a t2 s)"
        "covered (spans (split_world p (x\<lparr>sp_length := n\<rparr>) q y a t2 s)) = covered (spans s)"
        "same_env s (split_world p (x\<lparr>sp_length := n\<rparr>) q y a t2 s)"
      using split_step[OF w p _ n a yf(1-3) refl l x(2) yf(6)] by blast
    let ?s' = "split_world p (x\<lparr>sp_length := n\<rparr>) q y a t2 s"
    have sp: "spans ?s' = (spans s)(q \<mapsto> y, p \<mapsto> x\<lparr>sp_length := n\<rparr>)" by (simp add: split_world_def)
    have "ph_ok ({q, p} - {p}) ?s'" using wf_in_use(1)[OF t(6), of p "x\<lparr>sp_length := n\<rparr>"] x sp by simp
    then have "ph_ok ({q, p} - {p} - {q}) ?s'" using wf_in_use(1)[of "{q, p} - {p}" ?s' q y] t(5) yf(4) sp by simp
    moreover have "{q, p} - {p} - {q} = {}" by auto
    ultimately have ok: "ph_ok {} ?s'" by simp
    define A1 where "A1 = put_span q (new_span (sp_start x + n) (sp_length x - n)) (s\<lparr>span_allocator := a\<rparr>)"
    define A2 where "A2 = s\<lparr>span_allocator := a, spans := (spans s)(q \<mapsto> y)\<rparr>"
    have 1: "NewSpan (sp_start x + n) (sp_length x - n) s = Inr (q, A1)" by (simp add: NewSpan_def a A1_def)
    have 2: "upd_span q (\<lambda>y. y\<lparr>sp_heaptype := h\<rparr>) A1 = Inr A2"
      using t(3) by (simp add: upd_span_def get_span_def A1_def A2_def put_span_def y_def)
    have 3: "RecordSpan q A2 = Inr (A2\<lparr>pagemap := t1\<rparr>)" using t(3) by (intro t(1)) (simp_all add: A2_def get_span_def)
    have 4: "map_set (sp_start x + n - 1) p (A2\<lparr>pagemap := t1\<rparr>) = Inr (A2\<lparr>pagemap := t2\<rparr>)" using t(2) by (simp add: map_set_def)
    have 5: "upd_span p (\<lambda>x. x\<lparr>sp_length := n\<rparr>) (A2\<lparr>pagemap := t2\<rparr>) = Inr ?s'"
      using p t(5) p0 by (simp add: upd_span_def get_span_def A2_def put_span_def split_world_def)
    have "Split h p n s = Inr (q, ?s')"
      unfolding Split_def g rbind_Inr ex ex64 Let_def 1 prod.case 2 3 4 5 by (rule refl)
    then show ?thesis using ok t(4,5) sp yf by auto
  qed
qed

lemma set_range_step:
  assumes "ph_ok {} s" and "spans s p = Some x" and "set ks \<subseteq> rng x"
  shows "\<exists>s'. set_range ks p s = Inr s' \<and> ph_ok {} s' \<and> spans s' = spans s \<and> same_env s s' \<and> span_lists s' = span_lists s \<and>
    (\<forall>k. GetDescriptor k s' = (if k \<in> set ks then p else GetDescriptor k s))"
  using assms
proof (induction ks arbitrary: s)
  case (Cons k ks)
  have L: "layout (spans s) (pagemap s)" using Cons.prems(1) by (rule wf_layout)
  have ox: "span_ok (pagemap s) p x" using L Cons.prems(2) by (simp add: layout_def)
  have k: "k \<in> rng x" using Cons.prems(3) by simp
  then have "ensured (pagemap s) k" using ox by (auto simp: span_ok_def rng_def)
  then obtain t where t: "pm_set k p (pagemap s) = Inr t" "\<And>j. pm_get t j = (if j = k then p else pm_get (pagemap s) j)"
      "\<And>j. ensured t j = ensured (pagemap s) j"
    by (rule pm_set_ok[where v = p]) metis
  have "layout (spans s) t"
  proof (rule layout_patch[OF L, of "{p}" _ "rng x"])
    show "rng z \<inter> rng x = {}" if "w \<notin> {p}" "spans s w = Some z" for w z
      using L that Cons.prems(2) unfolding layout_def by (metis insertCI)
    show "card (covered (spans s)) < 2 ^ 31" using L by (simp add: layout_def)
    show "span_ok t z w \<and> rng w \<subseteq> rng x" if "z \<in> {p}" "spans s z = Some w" for z w
    proof -
      have "classed (pagemap s) p x" using ox by (simp add: span_ok_def)
      then have "classed t p x" by (rule classed_mono) (simp add: t(2))
      then show ?thesis using that Cons.prems(2) ox t(2,3) by (auto simp: span_ok_def)
    qed
    show "j \<in> covered (spans s)" if "j \<in> rng x" for j using that rng_covered[of "spans s" p x] Cons.prems(2) by auto
    show "pm_get t j = pm_get (pagemap s) j" if "j \<notin> rng x" for j using that t(2) k by auto
  qed (use Cons.prems(2) t(3) in auto)
  then have "ph_ok {} (s\<lparr>pagemap := t\<rparr>)" using Cons.prems(1) by (simp add: ph_ok_def)
  then obtain s' where "set_range ks p (s\<lparr>pagemap := t\<rparr>) = Inr s'" "ph_ok {} s'" "spans s' = spans s"
      "same_env (s\<lparr>pagemap := t\<rparr>) s'" "span_lists s' = span_lists s"
      "\<And>j. GetDescriptor j s' = (if j \<in> set ks then p else pm_get t j)"
    using Cons.IH[of "s\<lparr>pagemap := t\<rparr>"] Cons.prems(2,3) by (auto simp: GetDescriptor_def)
  then show ?case using t pm_set_alloc[OF t(1)] by (auto simp: map_set_def GetDescriptor_def same_env_def)
qed simp

lemma set_range_put: "set_range ks p s = Inr s' \<Longrightarrow> set_range ks p (put_span q y s) = Inr (put_span q y s')"
proof (induction ks arbitrary: s)
  case (Cons k ks)
  obtain t where t: "pm_set k p (pagemap s) = Inr t" "set_range ks p (s\<lparr>pagemap := t\<rparr>) = Inr s'"
    using Cons.prems by (auto simp: map_set_def rbind_eq_Inr)
  have "(put_span q y s)\<lparr>pagemap := t\<rparr> = put_span q y (s\<lparr>pagemap := t\<rparr>)" by (simp add: put_span_def)
  moreover have "pagemap (put_span q y s) = pagemap s" by (simp add: put_span_def)
  ultimately show ?case using Cons.IH[OF t(2)] t(1) by (simp add: map_set_def)
qed simp

lemma register_step:
  assumes wf: "ph_ok {} s" and p: "spans s p = Some x" and x: "sp_location x = IN_USE" and sc: "sc < 256"
  obtains s' where "RegisterSizeClass p sc s = Inr s'" "ph_ok {} s'" "spans s' = (spans s)(p \<mapsto> x\<lparr>sp_sizeclass := sc\<rparr>)"
    "\<And>k. GetDescriptor k s' = (if k \<in> rng x then p else GetDescriptor k s)" "same_env s s'" "span_lists s' = span_lists s"
proof -
  have L: "layout (spans s) (pagemap s)" using wf by (rule wf_layout)
  have ox: "span_ok (pagemap s) p x" using L p by (simp add: layout_def)
  have p0: "p \<noteq> NULL" using ox by (simp add: span_ok_def)
  let ?x = "x\<lparr>sp_sizeclass := sc\<rparr>" and ?s1 = "put_span p (x\<lparr>sp_sizeclass := sc\<rparr>) s"
  have g: "get_span p s = Inr x" by (rule get_span_ok[OF L p])
  have g1: "get_span p ?s1 = Inr ?x" using p0 by (simp add: get_span_def put_span_def)
  have len: "0 < sp_length x" "sp_length x < 2 ^ 64" using ox by (auto simp: span_ok_def BITS_def)
  let ?ks = "map (\<lambda>i. sp_start x + i) [1..<sp_length x - 1]"
  have ks: "set ?ks \<subseteq> rng x" by (auto simp: rng_def)
  obtain s0 where s0: "set_range ?ks p s = Inr s0" "ph_ok {} s0" "spans s0 = spans s" "same_env s s0" "span_lists s0 = span_lists s"
      "\<And>k. GetDescriptor k s0 = (if k \<in> set ?ks then p else GetDescriptor k s)"
    using set_range_step[OF wf p ks] by auto
  let ?s' = "put_span p ?x s0"
  have r: "RegisterSizeClass p sc s = Inr ?s'"
    using set_range_put[OF s0(1), of p ?x] sc by (simp add: RegisterSizeClass_def upd_span_def g g1 dec64_pos[OF len])
  have d: "GetDescriptor k s0 = (if k \<in> rng x then p else GetDescriptor k s)" for k
  proof -
    have "k = sp_start x \<or> k = sp_start x + sp_length x - 1" if "k \<in> rng x" "k \<notin> set ?ks"
    proof (rule ccontr)
      assume n: "\<not> (k = sp_start x \<or> k = sp_start x + sp_length x - 1)"
      then have "k = sp_start x + (k - sp_start x)" "k - sp_start x \<in> set [1..<sp_length x - 1]" using that(1) by (auto simp: rng_def)
      then have "k \<in> set ?ks" unfolding set_map by blast
      then show False using that(2) by simp
    qed
    then show ?thesis using s0(6) ks ox by (auto simp: GetDescriptor_def span_ok_def)
  qed
  have "classed (pagemap s0) p ?x" using d x unfolding GetDescriptor_def classed_def by (simp add: rng_def)
  then have "ph_ok {p} ?s'" using wf_in_use(2)[OF s0(2), of p x] p s0(3) x by (intro wf_put_classed[where x = x]) simp_all
  then have "ph_ok {} ?s'" using wf_in_use(1)[of "{p}" ?s' p ?x] x by (simp add: put_span_def)
  then show thesis
    using that[OF r] s0(3-5) d by (simp add: put_span_def GetDescriptor_def same_env_def)
qed

text \<open>\<open>RegisterSizeClass\<close> on a span in use keeps the invariant, stores the class, and makes every page of the span lead
  to it: after the call the descriptor of each of its pages is the span, and no other page changed.\<close>

theorem register_size_class_correct:
  assumes "ph_ok {} s" and "spans s p = Some x" and "sp_location x = IN_USE" and "sc < 256"
  shows "\<exists>s'. RegisterSizeClass p sc s = Inr s' \<and> ph_ok {} s' \<and> spans s' = (spans s)(p \<mapsto> x\<lparr>sp_sizeclass := sc\<rparr>) \<and>
    (\<forall>k. GetDescriptor k s' = (if k \<in> rng x then p else GetDescriptor k s))"
  by (rule register_step[OF assms]) blast

section \<open>The self-check\<close>

lemma check_list_step:
  assumes "layout (spans s) (pagemap s)"
    and "\<And>p. p \<in> set ps \<Longrightarrow> \<exists>x. spans s p = Some x \<and> sp_location x = loc \<and> lo \<le> sp_length x \<and> sp_length x \<le> hi"
  shows "CheckList s lo hi loc ps = Inr True"
  using assms(2)
proof (induction ps)
  case (Cons p ps)
  obtain x where x: "spans s p = Some x" "sp_location x = loc" "lo \<le> sp_length x" "sp_length x \<le> hi" using Cons.prems[of p] by auto
  have "span_ok (pagemap s) p x" using assms(1) x(1) by (simp add: layout_def)
  then show ?case using x Cons by (simp add: get_span_ok[OF assms(1) x(1)] GetDescriptor_def span_ok_def)
qed simp

text \<open>The check that \<open>CheckExpensive\<close> runs over all free lists passes in every state that satisfies the invariant, as long
  as the heap has at most a thousand million pages.\<close>

theorem check_expensive_passes:
  assumes wf: "ph_ok {} s" and size: "card (covered (spans s)) \<le> 1000000000"
  shows "CheckExpensive h s = Inr True"
proof -
  have L: "layout (spans s) (pagemap s)" using wf by (rule wf_layout)
  have small: "sp_length x \<le> 1000000000" if "spans s p = Some x" for p x
  proof -
    have "card (rng x) \<le> card (covered (spans s))" using that by (intro card_mono covered_finite[OF L] rng_covered)
    then show ?thesis using size by (simp add: rng_def)
  qed
  have member: "\<exists>x. spans s p = Some x \<and> sp_location x = (if r then ON_RETURNED_FREELIST else ON_NORMAL_FREELIST) \<and> i = list_index (sp_length x)"
    if "p \<in> set (span_lists s (Freelist h i r))" for p i r
    by (rule list_member[OF wf that]) blast
  have large: "CheckList s kMaxPages 1000000000 (if r then ON_RETURNED_FREELIST else ON_NORMAL_FREELIST) (span_lists s (Freelist h kMaxPages r)) = Inr True" for r
    using member[of _ kMaxPages r] small by (intro check_list_step[OF L]) (fastforce simp: list_index_def split: if_splits)
  have exact: "CheckList s n n (if r then ON_RETURNED_FREELIST else ON_NORMAL_FREELIST) (span_lists s (Freelist h n r)) = Inr True" if "n < kMaxPages" for n r
    using member[of _ n r] that by (intro check_list_step[OF L]) (fastforce simp: list_index_def split: if_splits)
  have "check_exact ns h s = Inr True" if "set ns \<subseteq> {..<kMaxPages}" for ns
    using that by (induction ns) (use exact[of _ True] exact[of _ False] in auto)
  then show ?thesis using large[of False] large[of True] by (simp add: CheckExpensive_def subset_eq)
qed

end
