(* ===== verification/Central_Invariant.thy ===== *)
theory Central_Invariant
  imports Central_Freelist Page_Heap_Correct
begin

text \<open>
  The invariant of the central free lists: every object of a span with a size class is in exactly one place, in the list of its
  span, in a transfer slot of its class, or outside, where \<open>Out t c\<close> is the set of objects that the clients of
  the list \<open>(t, c)\<close> hold. \<open>L\<close> is the set of locks that are held.
\<close>

section \<open>The tables of sizes\<close>

abbreviation csize :: "size_map \<Rightarrow> nat \<Rightarrow> nat" where "csize m c \<equiv> nat (class_to_size m ! c)"
abbreviation cpages :: "size_map \<Rightarrow> nat \<Rightarrow> nat" where "cpages m c \<equiv> nat (class_to_pages m ! c)"
abbreviation cmove :: "size_map \<Rightarrow> nat \<Rightarrow> nat" where "cmove m c \<equiv> nat (num_objects_to_move m ! c)"

definition sizemap_ok :: "size_map \<Rightarrow> bool" where
  "sizemap_ok m \<longleftrightarrow> length (class_to_size m) = 88 \<and> length (class_to_pages m) = 88 \<and> length (num_objects_to_move m) = 88 \<and>
     (\<forall>c. 0 < c \<and> c < 88 \<longrightarrow> 0 < csize m c \<and> 0 < cpages m c \<and> 0 < cmove m c \<and> cmove m c \<le> 8192 \<and>
       0 < cpages m c * 8192 div csize m c \<and> cpages m c * 8192 div csize m c \<le> 65535)"

lemma sizemap_rd:
  assumes "sizemap_ok m" and "0 < c" and "c < 88"
  shows "rd (class_to_size m) (int c) = Inr (int (csize m c))" "rd (class_to_pages m) (int c) = Inr (int (cpages m c))"
    "rd (num_objects_to_move m) (int c) = Inr (int (cmove m c))"
  using assms by (force simp: sizemap_ok_def)+

lemma sizemap_pos:
  assumes "sizemap_ok m" and "0 < c" and "c < 88"
  shows "0 < csize m c" "0 < cpages m c" "0 < cmove m c" "cmove m c \<le> 8192" "0 < cpages m c * 8192 div csize m c" "cpages m c * 8192 div csize m c \<le> 65535"
  using assms by (auto simp: sizemap_ok_def)

section \<open>The objects of a span\<close>

lemma carve_objects_map:
  assumes "0 < sz"
  shows "carve_objects p sz limit = map (\<lambda>i. p + i * sz) [0..<(limit - p) div sz]"
proof (induction "limit - p" arbitrary: p rule: less_induct)
  case less
  show ?case
  proof (cases "p + sz \<le> limit")
    case True
    have d: "(limit - p) div sz = Suc ((limit - (p + sz)) div sz)"
      using True assms le_div_geq[of sz "limit - p"] by (simp add: diff_diff_left)
    have "carve_objects p sz limit = p # carve_objects (p + sz) sz limit"
      using True assms by (subst carve_objects.simps) simp
    also have "carve_objects (p + sz) sz limit = map (\<lambda>i. p + sz + i * sz) [0..<(limit - (p + sz)) div sz]"
      using True assms by (intro less) simp
    also have "p # \<dots> = map (\<lambda>i. p + i * sz) (0 # map Suc [0..<(limit - (p + sz)) div sz])"
      by (simp add: comp_def add.assoc)
    also have "0 # map Suc [0..<(limit - (p + sz)) div sz] = [0..<(limit - p) div sz]"
      unfolding d by (simp only: map_Suc_upt upt_conv_Cons[OF zero_less_Suc])
    finally show ?thesis .
  next
    case False
    then have "(limit - p) div sz = 0" using assms by (simp add: div_eq_0_iff)
    then show ?thesis using False by (subst carve_objects.simps) simp
  qed
qed

definition objs_of :: "nat \<Rightarrow> span \<Rightarrow> ptr list" where
  "objs_of sz x = map word_of_nat (carve_objects (sp_start x * 8192) sz (sp_start x * 8192 + sp_length x * 8192))"

lemma length_objs_of: "0 < sz \<Longrightarrow> length (objs_of sz x) = sp_length x * 8192 div sz"
  by (simp add: objs_of_def carve_objects_map)

lemma objs_of_fields: "sp_start y = sp_start x \<Longrightarrow> sp_length y = sp_length x \<Longrightarrow> objs_of sz y = objs_of sz x"
  by (simp add: objs_of_def)

lemma objs_of_nth:
  assumes "0 < sz" and "i < length (objs_of sz x)" and "sp_start x + sp_length x < 2 ^ BITS"
  shows "unat (objs_of sz x ! i) = sp_start x * 8192 + i * sz" "sp_start x * 8192 + i * sz + sz \<le> (sp_start x + sp_length x) * 8192"
proof -
  have i: "i < sp_length x * 8192 div sz" using assms(1,2) by (simp add: length_objs_of)
  have "Suc i * sz \<le> sp_length x * 8192"
    using i assms(1) by (meson Suc_leI div_times_less_eq_dividend le_trans mult_le_mono1)
  then show b: "sp_start x * 8192 + i * sz + sz \<le> (sp_start x + sp_length x) * 8192" by (simp add: algebra_simps)
  have "(sp_start x + sp_length x) * 8192 < 2 ^ 64" using assms(3) by (simp add: BITS_def)
  then have "sp_start x * 8192 + i * sz < 2 ^ 64" using b by linarith
  then have "unat (word_of_nat (sp_start x * 8192 + i * sz) :: ptr) = sp_start x * 8192 + i * sz"
    by (simp only: unat_of_nat) simp
  then show "unat (objs_of sz x ! i) = sp_start x * 8192 + i * sz"
    using i assms(1) by (simp add: objs_of_def carve_objects_map)
qed

lemma objs_of_distinct:
  assumes "0 < sz" and "sp_start x + sp_length x < 2 ^ BITS"
  shows "distinct (objs_of sz x)"
  unfolding distinct_conv_nth
proof (intro allI impI notI)
  fix i j
  assume "i < length (objs_of sz x)" "j < length (objs_of sz x)" "i \<noteq> j" and e: "objs_of sz x ! i = objs_of sz x ! j"
  then show False using objs_of_nth(1)[OF assms(1) _ assms(2), of i] objs_of_nth(1)[OF assms(1) _ assms(2), of j] assms(1) by auto
qed

lemma objs_of_page:
  assumes "0 < sz" and "sp_start x + sp_length x < 2 ^ BITS" and "a \<in> set (objs_of sz x)"
  shows "unat a div 8192 \<in> rng x"
proof -
  obtain i where i: "i < length (objs_of sz x)" "a = objs_of sz x ! i" using assms(3) by (metis in_set_conv_nth)
  note n = objs_of_nth[OF assms(1) i(1) assms(2)]
  have "sp_start x \<le> unat a div 8192" using n(1) i(2) by (simp add: less_eq_div_iff_mult_less_eq)
  moreover have "unat a div 8192 < sp_start x + sp_length x"
    using n i(2) assms(1) by (simp add: div_less_iff_less_mult)
  ultimately show ?thesis by (simp add: rng_def)
qed

section \<open>Spans with a class\<close>

definition sp_class :: "span \<Rightarrow> (int \<times> nat) option" where
  "sp_class x = (case sp_link x of Some (Empty_spans t c) \<Rightarrow> Some (t, c) | Some (Nonempty_spans t c) \<Rightarrow> Some (t, c) | _ \<Rightarrow> None)"

definition class_span :: "size_map \<Rightarrow> int \<Rightarrow> nat \<Rightarrow> span \<Rightarrow> bool" where
  "class_span m t c x \<longleftrightarrow> 0 < c \<and> c < 88 \<and> sp_location x = IN_USE \<and> sp_sizeclass x = c \<and> sp_heaptype x = t \<and> sp_length x = cpages m c \<and>
     distinct (sp_objects x) \<and> set (sp_objects x) \<subseteq> set (objs_of (csize m c) x) \<and>
     sp_refcount x + length (sp_objects x) = length (objs_of (csize m c) x)"

definition class_ok :: "size_map \<Rightarrow> span \<Rightarrow> bool" where
  "class_ok m x \<longleftrightarrow> (\<forall>t c. sp_class x = Some (t, c) \<longrightarrow> class_span m t c x \<and>
     sp_link x = Some (if sp_objects x = [] then Empty_spans t c else Nonempty_spans t c))"

definition classes_ok :: "size_map \<Rightarrow> page_world \<Rightarrow> bool" where
  "classes_ok m w \<longleftrightarrow> (\<forall>p x. spans w p = Some x \<longrightarrow> class_ok m x)"

definition members :: "page_world \<Rightarrow> int \<Rightarrow> nat \<Rightarrow> ptr set" where
  "members w t c = {p. \<exists>x. spans w p = Some x \<and> sp_class x = Some (t, c)}"

definition span_at :: "page_world \<Rightarrow> ptr \<Rightarrow> span" where "span_at w p = the (spans w p)"

definition span_out :: "size_map \<Rightarrow> nat \<Rightarrow> span \<Rightarrow> ptr set" where
  "span_out m c x = set (objs_of (csize m c) x) - set (sp_objects x)"

definition out_objs :: "size_map \<Rightarrow> page_world \<Rightarrow> int \<Rightarrow> nat \<Rightarrow> ptr set" where
  "out_objs m w t c = (\<Union>p \<in> members w t c. span_out m c (span_at w p))"

definition free_objs :: "page_world \<Rightarrow> int \<Rightarrow> nat \<Rightarrow> nat" where
  "free_objs w t c = (\<Sum>p \<in> members w t c. length (sp_objects (span_at w p)))"

definition held :: "central_list \<Rightarrow> ptr list" where
  "held l = concat (take (nat (used_slots l)) (tc_slots l))"

definition list_ok :: "size_map \<Rightarrow> nat \<Rightarrow> central_list \<Rightarrow> bool" where
  "list_ok m c l \<longleftrightarrow> length (tc_slots l) = 64 \<and> 0 \<le> used_slots l \<and> used_slots l \<le> cache_size l \<and> cache_size l \<le> max_cache_size l \<and>
     max_cache_size l \<le> 64 \<and> (\<forall>i < nat (used_slots l). length (tc_slots l ! i) = cmove m c) \<and> distinct (held l)"

definition entry_ok :: "size_map \<Rightarrow> page_world \<Rightarrow> (int \<times> nat) set \<Rightarrow> (int \<Rightarrow> nat \<Rightarrow> ptr set) \<Rightarrow> int \<Rightarrow> nat \<Rightarrow> central_list \<Rightarrow> bool" where
  "entry_ok m w L Out t c l \<longleftrightarrow> list_ok m c l \<and> (cfl_lock l \<longleftrightarrow> (t, c) \<in> L) \<and>
     set (held l) \<inter> Out t c = {} \<and> out_objs m w t c = set (held l) \<union> Out t c \<and>
     cfl_counter l = word_of_nat (free_objs w t c) \<and> cfl_num_spans l = word_of_nat (card (members w t c))"

definition central_inv :: "(int \<times> nat) set \<Rightarrow> (int \<Rightarrow> nat \<Rightarrow> ptr set) \<Rightarrow> central_world \<Rightarrow> bool" where
  "central_inv L Out s \<longleftrightarrow> ph_ok {} (ph s) \<and> sizemap_ok (sizemap s) \<and> classes_ok (sizemap s) (ph s) \<and> 0 \<le> race_counter s \<and>
     (\<forall>t c. c < 88 \<longrightarrow> entry_ok (sizemap s) (ph s) L Out t c (central s t c))"

definition same_class :: "page_world \<Rightarrow> page_world \<Rightarrow> bool" where
  "same_class w w' \<longleftrightarrow> (\<forall>p x. sp_class x \<noteq> None \<longrightarrow> (spans w' p = Some x \<longleftrightarrow> spans w p = Some x))"

lemma same_class_members: "same_class w w' \<Longrightarrow> members w' t c = members w t c"
  unfolding same_class_def members_def by (metis option.distinct(1))

lemma same_class_at: "same_class w w' \<Longrightarrow> p \<in> members w t c \<Longrightarrow> span_at w' p = span_at w p"
  unfolding same_class_def members_def span_at_def by (auto, metis option.distinct(1) option.sel)

lemma same_class_objs:
  assumes "same_class w w'"
  shows "out_objs m w' t c = out_objs m w t c" "free_objs w' t c = free_objs w t c"
  using same_class_members[OF assms] same_class_at[OF assms] by (simp_all add: out_objs_def free_objs_def)

lemma same_class_ok: "same_class w w' \<Longrightarrow> classes_ok m w \<Longrightarrow> classes_ok m w'"
  unfolding classes_ok_def class_ok_def same_class_def by (metis option.distinct(1))

lemma same_class_trans: "same_class w w1 \<Longrightarrow> same_class w1 w2 \<Longrightarrow> same_class w w2"
  by (simp add: same_class_def)

text \<open>A step of the page heap that leaves the spans with a class alone keeps the invariant.\<close>

lemma inv_same_class: "central_inv L Out s \<Longrightarrow> ph_ok {} w \<Longrightarrow> same_class (ph s) w \<Longrightarrow> central_inv L Out (s\<lparr>ph := w\<rparr>)"
  unfolding central_inv_def entry_ok_def by (simp add: same_class_members same_class_objs same_class_ok)

text \<open>Spans with a class are in use.\<close>

lemma classed_in_use:
  assumes "ph_ok {} w" and "spans w p = Some x" and "sp_class x \<noteq> None"
  shows "sp_location x = IN_USE"
proof (rule ccontr)
  assume "sp_location x \<noteq> IN_USE"
  then have "sp_link x = Some (home x)" using assms(1,2) by (auto simp: ph_ok_def filed_def filed_span_def)
  then show False using assms(3) by (simp add: sp_class_def home_def)
qed

end
