(* ===== verification/Central_Steps.thy ===== *)
theory Central_Steps
  imports Central_Invariant
begin

text \<open>
  Steps of the central free lists: changing the fields and the list of a span in use, and giving an object back to its span.
\<close>

section \<open>Changing a span in use\<close>

lemma in_use_link: "ph_ok {} w \<Longrightarrow> spans w p = Some x \<Longrightarrow> sp_location x = IN_USE \<Longrightarrow> \<forall>h i r. sp_link x \<noteq> Some (Freelist h i r)"
  by (auto simp: ph_ok_def filed_def filed_span_def)

lemma wf_change:
  assumes wf: "ph_ok {} w" and p: "spans w p = Some x" and x: "sp_location x = IN_USE"
    and y: "sp_start y = sp_start x" "sp_length y = sp_length x" "sp_location y = IN_USE" "sp_sizeclass y = sp_sizeclass x"
      "\<forall>h i r. sp_link y \<noteq> Some (Freelist h i r)"
    and l: "links ((spans w)(p \<mapsto> y)) K"
  shows "ph_ok {} (w\<lparr>spans := (spans w)(p \<mapsto> y), span_lists := K\<rparr>)"
proof -
  let ?m = "(spans w)(p \<mapsto> y)" and ?w = "w\<lparr>spans := (spans w)(p \<mapsto> y), span_lists := K\<rparr>"
  have u: "ph_ok {p} w" using wf_in_use(2)[OF wf p x] by simp
  have "layout ?m (pagemap w)"
    using class_in_use[OF wf_layout[OF wf] p] y by (intro layout_relabel[OF wf_layout[OF wf] p y(1,2)] classed_relabel[OF wf_layout[OF wf] p y(1,2)]) auto
  moreover have "alloc_ok ?m (span_allocator w)" using wf p by (simp add: ph_ok_def alloc_ok_relabel)
  moreover have "filed {p} ?m"
    using u y(5) by (intro filed_put[of "{p}"]) (auto simp: ph_ok_def filed_span_def)
  moreover have "stats_ok ?m (page_heaps w)"
  proof -
    have "contrib h r (Some y) = contrib h r (spans w p)" for h r
      using contrib_unlinked[OF y(5)] contrib_unlinked[OF in_use_link[OF wf p x]] p by simp
    then show ?thesis using wf wf_finite[OF wf] by (intro stats_same) (simp_all add: ph_ok_def)
  qed
  moreover have "coal {p} ?m (page_heaps w)"
    using u by (intro coal_put[of "{p}" _ "page_heaps w"]) (simp_all add: ph_ok_def)
  ultimately have "ph_ok {p} ?w" using l by (simp add: ph_ok_def)
  then show ?thesis using wf_in_use(1)[of "{p}" ?w p y] y(3) by simp
qed

lemma wf_fields:
  assumes "ph_ok {} w" and "spans w p = Some x" and "sp_location x = IN_USE"
    and "sp_start y = sp_start x" "sp_length y = sp_length x" "sp_location y = IN_USE" "sp_sizeclass y = sp_sizeclass x" "sp_link y = sp_link x"
  shows "ph_ok {} (put_span p y w)"
proof -
  have "links ((spans w)(p \<mapsto> y)) (span_lists w)"
    using assms(1,2,8) by (intro links_put) (simp_all add: ph_ok_def link_of_def)
  then have "ph_ok {} (w\<lparr>spans := (spans w)(p \<mapsto> y), span_lists := span_lists w\<rparr>)"
    using assms in_use_link[OF assms(1-3)] by (intro wf_change[OF assms(1-3)]) simp_all
  then show ?thesis by (simp add: put_span_def)
qed

lemma wf_get: "ph_ok U w \<Longrightarrow> spans w p = Some x \<Longrightarrow> get_span p w = Inr x"
  by (rule get_span_ok[OF wf_layout])

text \<open>What moving a span between the lists of its class changes.\<close>

definition only_spans :: "page_world \<Rightarrow> page_world \<Rightarrow> bool" where
  "only_spans w w' \<longleftrightarrow> (\<exists>m K. w' = w\<lparr>spans := m, span_lists := K\<rparr>)"

lemma only_spans_put [simp]: "only_spans w (put_span p y w)"
proof -
  have "put_span p y w = w\<lparr>spans := (spans w)(p \<mapsto> y), span_lists := span_lists w\<rparr>" by (simp add: put_span_def)
  then show ?thesis unfolding only_spans_def by blast
qed

lemma only_spans_trans: "only_spans w w1 \<Longrightarrow> only_spans w1 w2 \<Longrightarrow> only_spans w w2"
  unfolding only_spans_def by (auto, blast)

lemma only_spans_refl [simp]: "only_spans w w"
proof -
  have "w = w\<lparr>spans := spans w, span_lists := span_lists w\<rparr>" by simp
  then show ?thesis unfolding only_spans_def by blast
qed

lemma only_spans_env: "only_spans w w' \<Longrightarrow> same_env w w'" "only_spans w w' \<Longrightarrow> pagemap w' = pagemap w"
  by (auto simp: only_spans_def same_env_def)

lemma dll_remove_step:
  assumes wf: "ph_ok {} w" and p: "spans w p = Some x" and x: "sp_location x = IN_USE" "sp_link x = Some l"
  obtains w' where "DLL_Remove p w = Inr w'" "ph_ok {} w'" "spans w' = (spans w)(p \<mapsto> x\<lparr>sp_link := None\<rparr>)" "only_spans w w'"
proof -
  let ?y = "x\<lparr>sp_link := None\<rparr>" and ?K = "(span_lists w)(l := remove1 p (span_lists w l))"
  have "links ((spans w)(p \<mapsto> ?y)) ?K" using wf p x(2) by (intro links_remove) (simp_all add: ph_ok_def)
  then have "ph_ok {} (w\<lparr>spans := (spans w)(p \<mapsto> ?y), span_lists := ?K\<rparr>)"
    using x(1) by (intro wf_change[OF wf p x(1)]) simp_all
  moreover have "DLL_Remove p w = Inr (w\<lparr>spans := (spans w)(p \<mapsto> ?y), span_lists := ?K\<rparr>)"
    using wf_get[OF wf p] x(2) by (simp add: DLL_Remove_def put_span_def)
  ultimately show thesis using that unfolding only_spans_def by force
qed

lemma dll_prepend_step:
  assumes wf: "ph_ok {} w" and p: "spans w p = Some x" and x: "sp_location x = IN_USE" "sp_link x = None"
    and l: "\<forall>h i r. l \<noteq> Freelist h i r"
  obtains w' where "DLL_Prepend l p w = Inr w'" "ph_ok {} w'" "spans w' = (spans w)(p \<mapsto> x\<lparr>sp_link := Some l\<rparr>)" "only_spans w w'"
    "span_lists w' = (span_lists w)(l := p # span_lists w l)"
proof -
  let ?y = "x\<lparr>sp_link := Some l\<rparr>" and ?K = "(span_lists w)(l := p # span_lists w l)"
  have "links ((spans w)(p \<mapsto> ?y)) ?K" using wf p x(2) by (intro links_prepend) (simp_all add: ph_ok_def)
  then have "ph_ok {} (w\<lparr>spans := (spans w)(p \<mapsto> ?y), span_lists := ?K\<rparr>)"
    using x(1) l by (intro wf_change[OF wf p x(1)]) simp_all
  moreover have "DLL_Prepend l p w = Inr (w\<lparr>spans := (spans w)(p \<mapsto> ?y), span_lists := ?K\<rparr>)"
    using wf_get[OF wf p] x(2) by (simp add: DLL_Prepend_def put_span_def)
  ultimately show thesis using that unfolding only_spans_def by force
qed

text \<open>Off one list and onto another.\<close>

lemma relink_step:
  assumes wf: "ph_ok {} w" and p: "spans w p = Some x" and x: "sp_location x = IN_USE" "sp_link x = Some k"
    and l: "\<forall>h i r. l \<noteq> Freelist h i r"
  obtains w' where "rbind (DLL_Remove p w) (DLL_Prepend l p) = Inr w'" "ph_ok {} w'"
    "spans w' = (spans w)(p \<mapsto> x\<lparr>sp_link := Some l\<rparr>)" "only_spans w w'"
proof -
  obtain w1 where 1: "DLL_Remove p w = Inr w1" "ph_ok {} w1" "spans w1 = (spans w)(p \<mapsto> x\<lparr>sp_link := None\<rparr>)" "only_spans w w1"
    by (rule dll_remove_step[OF wf p x])
  have p1: "spans w1 p = Some (x\<lparr>sp_link := None\<rparr>)" by (simp add: 1(3))
  obtain w2 where 2: "DLL_Prepend l p w1 = Inr w2" "ph_ok {} w2" "spans w2 = (spans w1)(p \<mapsto> x\<lparr>sp_link := None\<rparr>\<lparr>sp_link := Some l\<rparr>)"
      "only_spans w1 w2"
    by (rule dll_prepend_step[OF 1(2) p1 _ _ l]) (use x in simp_all)
  show thesis using that[of w2] 1 2 by (simp add: only_spans_trans[OF 1(4) 2(4)])
qed

section \<open>One span of a class changes\<close>

lemma members_finite: "ph_ok U w \<Longrightarrow> finite (members w t c)"
  using wf_finite[of U w] by (rule rev_finite_subset) (auto simp: members_def)

lemma span_at_Some: "spans w p = Some x \<Longrightarrow> span_at w p = x"
  by (simp add: span_at_def)

lemma class_bound:
  assumes "ph_ok {} w" and "spans w p = Some x"
  shows "sp_start x + sp_length x < 2 ^ BITS"
  using assms by (simp add: ph_ok_def layout_def span_ok_def)

text \<open>The objects of different spans are different.\<close>

lemma span_out_disjoint:
  assumes "ph_ok {} w" and "spans w p = Some x" "spans w q = Some y" "p \<noteq> q" and "0 < csize m c"
  shows "set (objs_of (csize m c) x) \<inter> set (objs_of (csize m c) y) = {}"
proof -
  have "rng x \<inter> rng y = {}" using assms(1-4) by (auto simp: ph_ok_def layout_def)
  then show ?thesis
    using objs_of_page[OF assms(5) class_bound[OF assms(1,2)]] objs_of_page[OF assms(5) class_bound[OF assms(1,3)]] by blast
qed

text \<open>The objects that are free in a span are not outside.\<close>

lemma free_not_out:
  assumes "ph_ok {} w" and "spans w p = Some x" and "set (sp_objects x) \<subseteq> set (objs_of (csize m c) x)" and "0 < csize m c"
  shows "out_objs m w t c \<inter> set (sp_objects x) = {}"
proof -
  have "span_out m c (span_at w q) \<inter> set (sp_objects x) = {}" if q: "q \<in> members w t c" for q
  proof -
    obtain z where z: "spans w q = Some z" using q by (auto simp: members_def)
    show ?thesis
    proof (cases "q = p")
      case True
      then show ?thesis using assms(2) by (simp add: span_at_def span_out_def) blast
    next
      case False
      then show ?thesis using span_out_disjoint[OF assms(1) z assms(2) False assms(4)] assms(3) z by (auto simp: span_out_def span_at_def)
    qed
  qed
  then show ?thesis by (auto simp: out_objs_def)
qed

text \<open>\<open>w'\<close> differs from \<open>w\<close> in the span \<open>p\<close> of the class \<open>(t, c)\<close>, which keeps its place and its class, or gives up its class
  when \<open>v\<close> is not set.\<close>

lemma class_change:
  assumes w': "spans w' = (spans w)(p \<mapsto> y)" and p: "spans w p = Some x" and x: "sp_class x = Some (t, c)"
    and y: "sp_class y = (if v then Some (t, c) else None)" and f: "finite (members w t c)"
  shows "members w' t c = (if v then members w t c else members w t c - {p})"
    and "(t', c') \<noteq> (t, c) \<Longrightarrow> members w' t' c' = members w t' c'"
    and "(t', c') \<noteq> (t, c) \<Longrightarrow> out_objs m w' t' c' = out_objs m w t' c' \<and> free_objs w' t' c' = free_objs w t' c'"
    and "out_objs m w t c = span_out m c x \<union> (\<Union>q \<in> members w t c - {p}. span_out m c (span_at w q))"
    and "out_objs m w' t c = (if v then span_out m c y else {}) \<union> (\<Union>q \<in> members w t c - {p}. span_out m c (span_at w q))"
    and "free_objs w' t c + length (sp_objects x) = free_objs w t c + (if v then length (sp_objects y) else 0)"
proof -
  let ?M = "members w t c"
  have pM: "p \<in> ?M" using p x by (auto simp: members_def)
  show m1: "members w' t c = (if v then ?M else ?M - {p})" using w' p x y by (auto simp: members_def)
  show m2: "members w' t' c' = members w t' c'" if "(t', c') \<noteq> (t, c)" for t' c' using that w' p x y by (auto simp: members_def)
  have at: "q \<noteq> p \<Longrightarrow> span_at w' q = span_at w q" for q using w' by (simp add: span_at_def)
  have np: "p \<notin> members w t' c'" if "(t', c') \<noteq> (t, c)" for t' c' using that p x by (auto simp: members_def)
  have "out_objs m w' t' c' = out_objs m w t' c'" if "(t', c') \<noteq> (t, c)" for t' c'
    unfolding out_objs_def m2[OF that] by (rule SUP_cong[OF refl]) (use np[OF that] at in metis)
  moreover have "free_objs w' t' c' = free_objs w t' c'" if "(t', c') \<noteq> (t, c)" for t' c'
    unfolding free_objs_def m2[OF that] by (rule sum.cong[OF refl]) (use np[OF that] at in metis)
  ultimately show "out_objs m w' t' c' = out_objs m w t' c' \<and> free_objs w' t' c' = free_objs w t' c'" if "(t', c') \<noteq> (t, c)"
    using that by simp
  have i: "?M = insert p (?M - {p})" using pM by auto
  show "out_objs m w t c = span_out m c x \<union> (\<Union>q \<in> ?M - {p}. span_out m c (span_at w q))"
  proof -
    have "out_objs m w t c = (\<Union>q \<in> insert p (?M - {p}). span_out m c (span_at w q))" unfolding out_objs_def using i by simp
    then show ?thesis unfolding UN_insert by (simp only: span_at_Some[of w p x, OF p])
  qed
  have y1: "span_at w' p = y" by (simp add: span_at_def w')
  have rest: "(\<Union>q \<in> ?M - {p}. span_out m c (span_at w' q)) = (\<Union>q \<in> ?M - {p}. span_out m c (span_at w q))"
    by (rule SUP_cong) (simp_all add: at)
  show "out_objs m w' t c = (if v then span_out m c y else {}) \<union> (\<Union>q \<in> ?M - {p}. span_out m c (span_at w q))"
  proof (cases v)
    case True
    have "out_objs m w' t c = (\<Union>q \<in> insert p (?M - {p}). span_out m c (span_at w' q))"
      unfolding out_objs_def m1 using True i by simp
    then show ?thesis unfolding UN_insert rest y1 if_P[OF True] .
  next
    case False
    then show ?thesis unfolding out_objs_def m1 using rest by simp
  qed
  have s: "(\<Sum>q \<in> ?M - {p}. length (sp_objects (span_at w' q))) = (\<Sum>q \<in> ?M - {p}. length (sp_objects (span_at w q)))"
    by (rule sum.cong) (simp_all add: at)
  have a: "free_objs w t c = length (sp_objects x) + (\<Sum>q \<in> ?M - {p}. length (sp_objects (span_at w q)))"
    unfolding free_objs_def using sum.remove[OF f pM, of "\<lambda>q. length (sp_objects (span_at w q))"] by (simp add: span_at_Some[of w p x, OF p])
  show "free_objs w' t c + length (sp_objects x) = free_objs w t c + (if v then length (sp_objects y) else 0)"
  proof (cases v)
    case True
    have "free_objs w' t c = length (sp_objects y) + (\<Sum>q \<in> ?M - {p}. length (sp_objects (span_at w' q)))"
      unfolding free_objs_def m1 using True sum.remove[OF f pM, of "\<lambda>q. length (sp_objects (span_at w' q))"] y1 by simp
    then show ?thesis using a s True by simp
  next
    case False
    then show ?thesis unfolding free_objs_def m1 using a[unfolded free_objs_def] s by simp
  qed
qed

section \<open>Locks\<close>

lemma inv_unlock: "central_inv L Out s \<Longrightarrow> central_inv (L - {(t, c)}) Out (unlock_central t c s)"
  by (auto simp: central_inv_def entry_ok_def unlock_central_def upd_central_def list_ok_def held_def)

lemma inv_lock:
  assumes "central_inv L Out s" and "(t, c) \<notin> L" and "c < 88"
  shows "lock_central t c s = Inr (upd_central t c (\<lambda>l. l\<lparr>cfl_lock := True\<rparr>) s)"
    and "central_inv (insert (t, c) L) Out (upd_central t c (\<lambda>l. l\<lparr>cfl_lock := True\<rparr>) s)"
  using assms by (auto simp: central_inv_def entry_ok_def lock_central_def upd_central_def list_ok_def held_def)

lemma unlock_fields [simp]:
  "ph (unlock_central t c s) = ph s" "sizemap (unlock_central t c s) = sizemap s" "race_counter (unlock_central t c s) = race_counter s"
  by (simp_all add: unlock_central_def upd_central_def)

lemma upd_central_fields [simp]:
  "ph (upd_central t c f s) = ph s" "sizemap (upd_central t c f s) = sizemap s" "race_counter (upd_central t c f s) = race_counter s"
  "central (upd_central t c f s) t' c' = (if t' = t \<and> c' = c then f (central s t c) else central s t' c')"
  by (simp_all add: upd_central_def)

section \<open>A change of one span in the invariant\<close>

definition set_out :: "int \<Rightarrow> nat \<Rightarrow> ptr set \<Rightarrow> (int \<Rightarrow> nat \<Rightarrow> ptr set) \<Rightarrow> int \<Rightarrow> nat \<Rightarrow> ptr set" where
  "set_out t c A Out = Out(t := (Out t)(c := A))"

lemma set_out_simps [simp]:
  "set_out t c A Out t c = A" "(t', c') \<noteq> (t, c) \<Longrightarrow> set_out t c A Out t' c' = Out t' c'"
  "set_out t c B (set_out t c A Out) = set_out t c B Out" "set_out t c (Out t c) Out = Out"
  by (auto simp: set_out_def)

lemma inv_span_change:
  assumes inv: "central_inv L Out s" and p: "spans (ph s) p = Some x" "sp_class x = Some (t, c)"
    and w': "ph_ok {} w'" "spans w' = (spans (ph s))(p \<mapsto> y)" "sp_class y = (if v then Some (t, c) else None)"
      "v \<Longrightarrow> class_ok (sizemap s) y"
    and l': "tc_slots l' = tc_slots (central s t c)" "used_slots l' = used_slots (central s t c)" "cache_size l' = cache_size (central s t c)"
      "max_cache_size l' = max_cache_size (central s t c)" "cfl_lock l' = cfl_lock (central s t c)"
      "cfl_counter l' + word_of_nat (length (sp_objects x)) = cfl_counter (central s t c) + word_of_nat (if v then length (sp_objects y) else 0)"
      "cfl_num_spans l' = (if v then cfl_num_spans (central s t c) else cfl_num_spans (central s t c) - 1)"
    and out: "A \<inter> set (held (central s t c)) = {}" "out_objs (sizemap s) w' t c = set (held (central s t c)) \<union> A"
  shows "central_inv L (set_out t c A Out) (s\<lparr>ph := w', central := (central s)(t := (central s t)(c := l'))\<rparr>)"
proof -
  let ?w = "ph s" and ?m = "sizemap s"
  have wf: "ph_ok {} ?w" using inv by (simp add: central_inv_def)
  note f = members_finite[OF wf, of t c]
  note ch = class_change[OF w'(2) p w'(3) f]
  have c: "c < 88" using inv p by (auto simp: central_inv_def classes_ok_def class_ok_def class_span_def)
  have "class_ok ?m y" using w'(3,4) by (cases v) (simp_all add: class_ok_def)
  then have ok: "classes_ok ?m w'" using inv w'(2) by (auto simp: central_inv_def classes_ok_def)
  have held: "held l' = held (central s t c)" using l'(1,2) by (simp add: held_def)
  have "cfl_counter (central s t c) = word_of_nat (free_objs ?w t c)" "cfl_num_spans (central s t c) = word_of_nat (card (members ?w t c))"
    using inv c by (simp_all add: central_inv_def entry_ok_def)
  note cn = this
  have "(word_of_nat (free_objs w' t c) :: uint64) + word_of_nat (length (sp_objects x)) =
      word_of_nat (free_objs ?w t c) + word_of_nat (if v then length (sp_objects y) else 0)"
    using arg_cong[OF ch(6), of "word_of_nat :: nat \<Rightarrow> uint64"] by (simp only: of_nat_add)
  then have cnt: "cfl_counter l' = word_of_nat (free_objs w' t c)" using l'(6) cn(1) by (metis add_right_cancel)
  have pM: "p \<in> members ?w t c" using p by (auto simp: members_def)
  have num: "cfl_num_spans l' = word_of_nat (card (members w' t c))"
  proof (cases v)
    case False
    have "card (members ?w t c) = Suc (card (members ?w t c - {p}))" using card_Suc_Diff1[OF f pM] by simp
    then show ?thesis using False l'(7) cn(2) ch(1) by simp
  qed (use l'(7) cn(2) ch(1) in simp)
  have lok: "list_ok ?m c l'" using inv c l'(1-4) held by (simp add: central_inv_def entry_ok_def list_ok_def)
  have l: "entry_ok ?m w' L (set_out t c A Out) t c l'"
    using lok l'(5) inv c held out cnt num by (auto simp: central_inv_def entry_ok_def)
  have "entry_ok ?m w' L (set_out t c A Out) u d (((central s)(t := (central s t)(c := l'))) u d)" if "d < 88" for u d
  proof (cases "(u, d) = (t, c)")
    case False
    then have "((central s)(t := (central s t)(c := l'))) u d = central s u d" by auto
    moreover have "entry_ok ?m ?w L Out u d (central s u d)" using inv that by (simp add: central_inv_def)
    ultimately show ?thesis using ch(2,3)[OF False] False by (simp add: entry_ok_def)
  qed (use l in simp)
  then show ?thesis using inv w'(1) ok by (simp add: central_inv_def)
qed

section \<open>Giving an object back to its span\<close>

text \<open>An object outside belongs to a span of its class, which the page map finds.\<close>

lemma object_span:
  assumes inv: "central_inv L Out s" and a: "a \<in> out_objs (sizemap s) (ph s) t c"
  obtains p x where "MapObjectToSpan a s = p" "spans (ph s) p = Some x" "sp_class x = Some (t, c)" "class_span (sizemap s) t c x"
    "sp_link x = Some (if sp_objects x = [] then Empty_spans t c else Nonempty_spans t c)"
    "a \<in> set (objs_of (csize (sizemap s) c) x)" "a \<notin> set (sp_objects x)" "0 < csize (sizemap s) c"
proof -
  obtain p x where x: "spans (ph s) p = Some x" "sp_class x = Some (t, c)" "a \<in> span_out (sizemap s) c x"
    using a by (auto simp: out_objs_def members_def span_at_def)
  have cs: "class_span (sizemap s) t c x" "sp_link x = Some (if sp_objects x = [] then Empty_spans t c else Nonempty_spans t c)"
    using inv x by (auto simp: central_inv_def classes_ok_def class_ok_def)
  have wf: "ph_ok {} (ph s)" using inv by (simp add: central_inv_def)
  have sz: "0 < csize (sizemap s) c" using inv cs(1) by (auto simp: central_inv_def sizemap_ok_def class_span_def)
  have "unat a div 8192 \<in> rng x" using objs_of_page[OF sz class_bound[OF wf x(1)]] x(3) by (simp add: span_out_def)
  moreover have "classed (pagemap (ph s)) p x" using wf x(1) by (simp add: ph_ok_def layout_def span_ok_def)
  ultimately have "MapObjectToSpan a s = p"
    using cs(1) by (simp add: classed_def class_span_def MapObjectToSpan_def GetDescriptor_def kPageShift_def)
  then show thesis using that x cs sz by (simp add: span_out_def)
qed

text \<open>The spans in use without a class (pages of large objects) and those with a class and without an object outside
  are the same: in particular there are no new ones.\<close>

definition settled :: "page_world \<Rightarrow> page_world \<Rightarrow> bool" where
  "settled w w' \<longleftrightarrow> (\<forall>p x. sp_location x = IN_USE \<and> (sp_class x = None \<or> sp_refcount x = 0) \<longrightarrow> (spans w' p = Some x \<longleftrightarrow> spans w p = Some x))"

lemma settled_refl [simp]: "settled w w"
  by (simp add: settled_def)

lemma settled_same: "spans w' = spans w \<Longrightarrow> settled w w'"
  by (simp add: settled_def)

lemma settled_trans: "settled w w1 \<Longrightarrow> settled w1 w2 \<Longrightarrow> settled w w2"
  by (simp add: settled_def)

definition frame :: "central_world \<Rightarrow> central_world \<Rightarrow> bool" where
  "frame s s' \<longleftrightarrow> sizemap s' = sizemap s \<and> dom (spans (ph s')) \<subseteq> dom (spans (ph s)) \<and> covered (spans (ph s')) = covered (spans (ph s)) \<and>
     settled (ph s) (ph s')"

lemma frame_trans: "frame s s1 \<Longrightarrow> frame s1 s2 \<Longrightarrow> frame s s2"
  using order_trans[of "dom (spans (ph s2))" "dom (spans (ph s1))" "dom (spans (ph s))"] settled_trans[of "ph s" "ph s1" "ph s2"]
  by (simp add: frame_def)

lemma frame_refl [simp]: "frame s s"
  by (simp add: frame_def)

lemma frame_fuel:
  assumes "frame s s'" and "central_inv L Out s" and "card (dom (spans (ph s))) < n"
  shows "card (dom (spans (ph s'))) < n"
proof -
  have "finite (dom (spans (ph s)))" using assms(2) wf_finite[of "{}" "ph s"] by (simp add: central_inv_def)
  then have "card (dom (spans (ph s'))) \<le> card (dom (spans (ph s)))" using assms(1) by (intro card_mono) (simp_all add: frame_def)
  then show ?thesis using assms(3) by (rule le_less_trans)
qed

lemma inv_ph: "central_inv L Out s \<Longrightarrow> ph_ok {} (ph s)"
  by (simp add: central_inv_def)

lemma inv_out: "central_inv L Out s \<Longrightarrow> c < 88 \<Longrightarrow> out_objs (sizemap s) (ph s) t c = set (held (central s t c)) \<union> Out t c"
  "central_inv L Out s \<Longrightarrow> c < 88 \<Longrightarrow> set (held (central s t c)) \<inter> Out t c = {}"
  by (simp_all add: central_inv_def entry_ok_def)

text \<open>What a change of the objects of one span does to the set of objects outside.\<close>

lemma out_change:
  assumes wf: "ph_ok {} w" and w': "spans w' = (spans w)(p \<mapsto> y)" "sp_class y = (if v then Some (t, c) else None)"
    and p: "spans w p = Some x" "sp_class x = Some (t, c)" and sz: "0 < csize m c"
    and out: "span_out m c x \<subseteq> set (objs_of (csize m c) x)" "(if v then span_out m c y else {}) = span_out m c x - B \<union> D"
      "B \<subseteq> set (objs_of (csize m c) x)"
  shows "out_objs m w' t c = out_objs m w t c - B \<union> D"
proof -
  let ?R = "\<Union>q \<in> members w t c - {p}. span_out m c (span_at w q)"
  note ch = class_change[OF w'(1) p w'(2) members_finite[OF wf]]
  have "span_out m c (span_at w q) \<inter> B = {}" if q: "q \<in> members w t c - {p}" for q
  proof -
    obtain z where z: "spans w q = Some z" "q \<noteq> p" using q by (auto simp: members_def)
    then show ?thesis
      using span_out_disjoint[OF wf z(1) p(1) z(2) sz] out(3) by (auto simp: span_out_def span_at_def)
  qed
  then have "?R \<inter> B = {}" by blast
  then show ?thesis using ch(4)[of m] ch(5)[of m] out(2) by auto
qed

lemma span_out_fields: "sp_start y = sp_start x \<Longrightarrow> sp_length y = sp_length x \<Longrightarrow> span_out m c y = set (objs_of (csize m c) x) - set (sp_objects y)"
  unfolding span_out_def by (subst objs_of_fields[of y x]) simp_all

lemma on_ph_Inr: "f (ph s) = Inr w \<Longrightarrow> on_ph f s = Inr (s\<lparr>ph := w\<rparr>)"
  by (simp add: on_ph_def)

text \<open>The first step: a span that had no free object moves to the list of the others.\<close>

lemma nonempty_step:
  assumes wf: "ph_ok {} w" and p: "spans w p = Some x" and x: "sp_location x = IN_USE"
    "sp_link x = Some (if sp_objects x = [] then Empty_spans t c else Nonempty_spans t c)"
  obtains w' where "(if sp_objects x = [] then rbind (DLL_Remove p w) (DLL_Prepend (Nonempty_spans t c) p) else Inr w) = Inr w'"
    "ph_ok {} w'" "spans w' = (spans w)(p \<mapsto> x\<lparr>sp_link := Some (Nonempty_spans t c)\<rparr>)" "only_spans w w'"
proof (cases "sp_objects x = []")
  case True
  then show thesis using relink_step[OF wf p x, of "Nonempty_spans t c"] that by force
next
  case False
  then have "x\<lparr>sp_link := Some (Nonempty_spans t c)\<rparr> = x" using x(2) by (cases x) simp
  then show thesis using that[of w] False wf p by (simp add: fun_upd_idem)
qed

lemma deletes_same_class:
  assumes wf: "ph_ok {} w" "ph_ok {} w'" and d: "deletes h p z w w'" and p: "spans w p = Some x" "sp_class x = None"
  shows "same_class w w'"
  unfolding same_class_def
proof (intro allI impI)
  fix q y
  assume y: "sp_class y \<noteq> None"
  have d1: "\<And>q y. q \<noteq> p \<Longrightarrow> sp_location y = IN_USE \<Longrightarrow> (spans w' q = Some y) = (spans w q = Some y)"
    and d2: "\<And>y. spans w' p = Some y \<Longrightarrow> sp_location y \<noteq> IN_USE"
    using d unfolding deletes_def by blast+
  have u: "sp_location y = IN_USE" if "spans w q = Some y \<or> spans w' q = Some y" using that classed_in_use[OF wf(1)] classed_in_use[OF wf(2)] y by blast
  show "spans w' q = Some y \<longleftrightarrow> spans w q = Some y"
  proof (cases "q = p")
    case True
    then have "spans w q \<noteq> Some y" using p y by auto
    moreover have "spans w' q \<noteq> Some y" using True d2 u by blast
    ultimately show ?thesis by simp
  next
    case False
    then show ?thesis using d1 u by blast
  qed
qed

lemma release_step:
  assumes inv: "central_inv L Out s" and c: "c < 88" and L: "(t, c) \<in> L" and t: "t = DEFAULT_HEAP_TYPE" and a: "a \<in> Out t c"
    and fuel: "card (dom (spans (ph s))) < fuel"
  obtains s' where "ReleaseToSpans fuel t c a s = Inr s'" "central_inv L (set_out t c (Out t c - {a}) Out) s'" "frame s s'"
proof -
  let ?m = "sizemap s" and ?w = "ph s" and ?l = "central s t c"
  have wf: "ph_ok {} ?w" using inv by (rule inv_ph)
  have ao: "a \<in> out_objs ?m ?w t c" using a inv_out(1)[OF inv c] by simp
  obtain p x where x: "MapObjectToSpan a s = p" "spans ?w p = Some x" "sp_class x = Some (t, c)" "class_span ?m t c x"
      "sp_link x = Some (if sp_objects x = [] then Empty_spans t c else Nonempty_spans t c)"
      "a \<in> set (objs_of (csize ?m c) x)" "a \<notin> set (sp_objects x)" "0 < csize ?m c"
    by (rule object_span[OF inv ao])
  have xs: "0 < c" "sp_location x = IN_USE" "sp_sizeclass x = c" "sp_heaptype x = t" "distinct (sp_objects x)"
      "set (sp_objects x) \<subseteq> set (objs_of (csize ?m c) x)" "sp_refcount x + length (sp_objects x) = length (objs_of (csize ?m c) x)"
      "sp_length x = cpages ?m c"
    using x(4) by (simp_all add: class_span_def)
  have d: "distinct (objs_of (csize ?m c) x)" by (rule objs_of_distinct[OF x(8) class_bound[OF wf x(2)]])
  have sm: "sizemap_ok ?m" using inv by (simp add: central_inv_def)
  have n: "length (objs_of (csize ?m c) x) = sp_length x * 8192 div csize ?m c" by (rule length_objs_of[OF x(8)])
  have n65: "length (objs_of (csize ?m c) x) \<le> 65535" using n xs(8) sizemap_pos(6)[OF sm xs(1) c] by simp
  have "card (insert a (set (sp_objects x))) \<le> card (set (objs_of (csize ?m c) x))" using xs(6) x(6) by (intro card_mono) auto
  then have lt: "length (sp_objects x) < length (objs_of (csize ?m c) x)" using x(7) d xs(5) by (simp add: distinct_card)
  then have r0: "0 < sp_refcount x" using xs(7) by simp
  have refs: "(sp_refcount x + 65535) mod 65536 = sp_refcount x - 1"
  proof -
    have "sp_refcount x + 65535 = (sp_refcount x - 1) + 65536" using r0 by simp
    moreover have "sp_refcount x - 1 < 65536" using xs(7) n65 by simp
    ultimately show ?thesis by (metis mod_add_self2 mod_less)
  qed
  have g: "get_span p ?w = Inr x" by (rule wf_get[OF wf x(2)])
  obtain w1 where 1: "(if sp_objects x = [] then rbind (DLL_Remove p ?w) (DLL_Prepend (Nonempty_spans t c) p) else Inr ?w) = Inr w1"
      "ph_ok {} w1" "spans w1 = (spans ?w)(p \<mapsto> x\<lparr>sp_link := Some (Nonempty_spans t c)\<rparr>)" "only_spans ?w w1"
    by (rule nonempty_step[OF wf x(2) xs(2) x(5)])
  have one: "(if sp_objects x = [] then on_ph (\<lambda>w. rbind (DLL_Remove p w) (DLL_Prepend (Nonempty_spans t c) p)) s else Inr s) = Inr (s\<lparr>ph := w1\<rparr>)"
    using 1(1) by (cases "sp_objects x = []") (simp_all add: on_ph_def)
  let ?x1 = "x\<lparr>sp_link := Some (Nonempty_spans t c)\<rparr>"
  let ?x2 = "?x1\<lparr>sp_refcount := sp_refcount x - 1\<rparr>"
  have p1: "spans w1 p = Some ?x1" by (simp add: 1(3))
  let ?w2 = "put_span p ?x2 w1"
  have 2: "upd_span p (\<lambda>x. x\<lparr>sp_refcount := q\<rparr>) w1 = Inr (put_span p (?x1\<lparr>sp_refcount := q\<rparr>) w1)" for q
    using wf_get[OF 1(2) p1] by (simp add: upd_span_def)
  have w2: "ph_ok {} ?w2" by (rule wf_fields[OF 1(2) p1]) (simp_all add: xs(2))
  have p2: "spans ?w2 p = Some ?x2" by (simp add: put_span_def)
  have out0: "span_out ?m c x \<subseteq> set (objs_of (csize ?m c) x)" by (auto simp: span_out_def)
  have hd0: "a \<notin> set (held ?l)" using inv_out(2)[OF inv c, of t] a by auto
  have rest: "(Out t c - {a}) \<inter> set (held ?l) = {}" using inv_out(2)[OF inv c, of t] by auto
  show thesis
  proof (cases "sp_refcount x - 1 = 0")
    case False
    let ?x3 = "?x2\<lparr>sp_objects := a # sp_objects x\<rparr>" and ?w3 = "put_span p (?x2\<lparr>sp_objects := a # sp_objects x\<rparr>) ?w2"
    have 3: "upd_span p (\<lambda>x. x\<lparr>sp_objects := a # sp_objects x\<rparr>) ?w2 = Inr ?w3"
      using wf_get[OF w2 p2] by (simp add: upd_span_def)
    have w3: "ph_ok {} ?w3" by (rule wf_fields[OF w2 p2]) (simp_all add: xs(2))
    have sp3: "spans ?w3 = (spans ?w)(p \<mapsto> ?x3)" by (simp add: put_span_def 1(3))
    have "ReleaseToSpans fuel t c a s = Inr (s\<lparr>ph := ?w3, central := (central s)(t := (central s t)(c := ?l\<lparr>cfl_counter := cfl_counter ?l + 1\<rparr>))\<rparr>)"
      using False 2 3 by (simp add: ReleaseToSpans_def x(1) g one refs Let_def on_ph_def upd_central_def)
    moreover have "central_inv L (set_out t c (Out t c - {a}) Out)
        (s\<lparr>ph := ?w3, central := (central s)(t := (central s t)(c := ?l\<lparr>cfl_counter := cfl_counter ?l + 1\<rparr>))\<rparr>)"
    proof (rule inv_span_change[OF inv x(2,3) w3 sp3, where v = True])
      have "objs_of (csize ?m c) ?x3 = objs_of (csize ?m c) x" by (rule objs_of_fields) simp_all
      then show "class_ok ?m ?x3"
        using x(4,6,7) False r0 xs(7) by (auto simp: class_ok_def sp_class_def class_span_def)
      have "span_out ?m c ?x3 = set (objs_of (csize ?m c) x) - set (a # sp_objects x)" by (subst span_out_fields[of _ x]) simp_all
      then have "span_out ?m c ?x3 = span_out ?m c x - {a} \<union> {}" by (auto simp: span_out_def)
      then have "out_objs ?m ?w3 t c = out_objs ?m ?w t c - {a} \<union> {}"
        using x(6) by (intro out_change[OF wf sp3 _ x(2,3,8) out0, where v = True]) (simp_all add: sp_class_def)
      then show "out_objs ?m ?w3 t c = set (held ?l) \<union> (Out t c - {a})" using inv_out(1)[OF inv c, of t] hd0 by auto
    qed (simp_all add: sp_class_def rest)
    moreover have "frame s (s\<lparr>ph := ?w3, central := (central s)(t := (central s t)(c := ?l\<lparr>cfl_counter := cfl_counter ?l + 1\<rparr>))\<rparr>)"
      using x(2,3) sp3 r0 False covered_relabel[of "spans ?w" p x ?x3] by (auto simp: frame_def settled_def sp_class_def)
    ultimately show thesis by (rule that)
  next
    case True
    have r1: "sp_refcount x = 1" using True r0 by simp
    then have len: "length (objs_of (csize ?m c) x) = Suc (length (sp_objects x))" using xs(7) by simp
    have "card (insert a (set (sp_objects x))) = card (set (objs_of (csize ?m c) x))"
      using x(7) xs(5) d len by (simp add: distinct_card)
    then have full: "insert a (set (sp_objects x)) = set (objs_of (csize ?m c) x)"
      using xs(6) x(6) by (intro card_subset_eq) auto
    obtain w3 where 3: "DLL_Remove p ?w2 = Inr w3" "ph_ok {} w3" "spans w3 = (spans ?w2)(p \<mapsto> ?x2\<lparr>sp_link := None\<rparr>)" "only_spans ?w2 w3"
      by (rule dll_remove_step[OF w2 p2]) (simp_all add: xs(2))
    let ?x3 = "?x2\<lparr>sp_link := None\<rparr>"
    have sp3: "spans w3 = (spans ?w)(p \<mapsto> ?x3)" by (simp add: 3(3) put_span_def 1(3))
    define l3 where "l3 = ?l\<lparr>cfl_counter := cfl_counter ?l + 1 - word_of_nat (length (objs_of (csize ?m c) x)), cfl_num_spans := cfl_num_spans ?l - 1\<rparr>"
    define s3 where "s3 = s\<lparr>ph := w3, central := (central s)(t := (central s t)(c := l3))\<rparr>"
    have inv3: "central_inv L (set_out t c (Out t c - {a}) Out) s3"
      unfolding s3_def
    proof (rule inv_span_change[OF inv x(2,3) 3(2) sp3, where v = False])
      have "out_objs ?m w3 t c = out_objs ?m ?w t c - set (objs_of (csize ?m c) x) \<union> {}"
        by (rule out_change[OF wf sp3 _ x(2,3,8) out0, where v = False]) (auto simp: sp_class_def span_out_def)
      moreover have "out_objs ?m ?w t c \<inter> set (objs_of (csize ?m c) x) = {a}"
      proof -
        have "out_objs ?m ?w t c \<inter> set (sp_objects x) = {}" by (rule free_not_out[OF wf x(2) xs(6) x(8)])
        then show ?thesis using ao full by auto
      qed
      ultimately show "out_objs ?m w3 t c = set (held ?l) \<union> (Out t c - {a})" using inv_out(1)[OF inv c, of t] hd0 by auto
    qed (simp_all add: sp_class_def l3_def len rest)
    have inv4: "central_inv (L - {(t, c)}) (set_out t c (Out t c - {a}) Out) (unlock_central t c s3)" by (rule inv_unlock[OF inv3])
    have p3: "spans w3 p = Some ?x3" by (simp add: sp3)
    have dom3: "dom (spans w3) = dom (spans ?w)" using x(2) sp3 by auto
    obtain w4 where 4: "Delete fuel DEFAULT_HEAP_TYPE p w3 = Inr w4" "ph_ok {} w4" "deletes DEFAULT_HEAP_TYPE p ?x3 w3 w4"
      by (rule delete_step[OF 3(2) p3]) (use xs(2,4) t fuel dom3 in simp_all)
    have sc: "same_class w3 w4" by (rule deletes_same_class[OF 3(2) 4(2,3) p3]) (simp add: sp_class_def)
    let ?s4 = "(unlock_central t c s3)\<lparr>ph := w4\<rparr>"
    have inv5: "central_inv (L - {(t, c)}) (set_out t c (Out t c - {a}) Out) ?s4"
      by (rule inv_same_class[OF inv4 4(2)]) (use sc in \<open>simp add: s3_def\<close>)
    note lk = inv_lock[OF inv5, of t c, simplified, OF c]
    have "insert (t, c) L = L" using L by auto
    then have inv6: "central_inv L (set_out t c (Out t c - {a}) Out) (upd_central t c (\<lambda>l. l\<lparr>cfl_lock := True\<rparr>) ?s4)" using lk(2) by simp
    have nn: "word_of_int (int (sp_length x * 8192) div int (csize ?m c)) = (word_of_nat (length (objs_of (csize ?m c) x)) :: uint64)"
      unfolding n zdiv_int[symmetric] by (rule of_int_of_nat_eq)
    have ci: "int (csize ?m c) = class_to_size ?m ! c" using x(8) by simp
    have nn: "word_of_int (int (sp_length x) * 8192 div class_to_size ?m ! c) = (word_of_nat (length (objs_of (csize ?m c) x)) :: uint64)"
      using nn unfolding ci by simp
    have cs0: "csize ?m c \<noteq> 0" using x(8) by simp
    have "ReleaseToSpans fuel t c a s = lock_central t c ?s4"
      using True 2 3(1) 4(1) r1 cs0
      by (simp add: ReleaseToSpans_def x(1) g one refs Let_def on_ph_def xs(3) sizemap_rd(1)[OF sm xs(1) c] kPageShift_def
          nn unlock_central_def s3_def l3_def upd_central_def)
    moreover have "settled ?w w4"
      unfolding settled_def
    proof (intro allI impI)
      fix q and y :: span
      assume y: "sp_location y = IN_USE \<and> (sp_class y = None \<or> sp_refcount y = 0)"
      show "spans w4 q = Some y \<longleftrightarrow> spans ?w q = Some y"
      proof (cases "q = p")
        case True
        then show ?thesis using y x(2,3) r0 4(3) by (auto simp: deletes_def)
      next
        case False
        then show ?thesis using y 4(3) sp3 by (simp add: deletes_def)
      qed
    qed
    then have "frame s (upd_central t c (\<lambda>l. l\<lparr>cfl_lock := True\<rparr>) ?s4)"
      using 4(3) dom3 covered_relabel[of "spans ?w" p x ?x3] x(2) sp3 by (auto simp: frame_def deletes_def s3_def)
    ultimately show thesis using that inv6 lk(1) by simp
  qed
qed

end
