(* ===== verification/Central_Correct.thy ===== *)
theory Central_Correct
  imports Central_Steps
begin

text \<open>
  The operations of the central free lists keep the invariant: \<open>InsertRange\<close> for the lists of the default heap type,
  \<open>RemoveRange\<close> for all.
\<close>

section \<open>Chains of objects\<close>

lemma release_list_step:
  assumes "central_inv L Out s" and "c < 88" and "(t, c) \<in> L" and "t = DEFAULT_HEAP_TYPE" and "distinct as" and "set as \<subseteq> Out t c"
    and "card (dom (spans (ph s))) < fuel"
  shows "\<exists>s'. ReleaseListToSpans fuel t c as s = Inr s' \<and> central_inv L (set_out t c (Out t c - set as) Out) s' \<and> frame s s'"
  using assms
proof (induction as arbitrary: s Out)
  case Nil
  then show ?case by simp
next
  case (Cons a as)
  have a: "a \<in> Out t c" using Cons.prems(6) by simp
  obtain s1 where 1: "ReleaseToSpans fuel t c a s = Inr s1" "central_inv L (set_out t c (Out t c - {a}) Out) s1" "frame s s1"
    by (rule release_step[OF Cons.prems(1-4) a Cons.prems(7)])
  have f: "card (dom (spans (ph s1))) < fuel" by (rule frame_fuel[OF 1(3) Cons.prems(1,7)])
  obtain s' where s': "ReleaseListToSpans fuel t c as s1 = Inr s'"
      "central_inv L (set_out t c (Out t c - {a} - set as) Out) s'" "frame s1 s'"
    using Cons.IH[OF 1(2) Cons.prems(2-4) _ _ f] Cons.prems(5,6) by auto
  moreover have "Out t c - {a} - set as = Out t c - set (a # as)" by auto
  ultimately show ?case using 1(1) frame_trans[OF 1(3) s'(3)] by auto
qed

section \<open>The transfer slots\<close>

lemma inv_slots:
  assumes inv: "central_inv L Out s" and c: "c < 88" and ok: "list_ok (sizemap s) c l"
    and l: "cfl_lock l = cfl_lock (central s t c)" "cfl_counter l = cfl_counter (central s t c)" "cfl_num_spans l = cfl_num_spans (central s t c)"
    and A: "set (held l) \<union> A = set (held (central s t c)) \<union> Out t c" "set (held l) \<inter> A = {}"
  shows "central_inv L (set_out t c A Out) (s\<lparr>central := (central s)(t := (central s t)(c := l))\<rparr>)"
proof -
  have e: "entry_ok (sizemap s) (ph s) L (set_out t c A Out) t c l"
    using inv c ok l A by (auto simp: central_inv_def entry_ok_def)
  have "entry_ok (sizemap s) (ph s) L (set_out t c A Out) u d (((central s)(t := (central s t)(c := l))) u d)" if "d < 88" for u d
  proof (cases "(u, d) = (t, c)")
    case False
    then have "((central s)(t := (central s t)(c := l))) u d = central s u d" by auto
    moreover have "entry_ok (sizemap s) (ph s) L Out u d (central s u d)" using inv that by (simp add: central_inv_def)
    ultimately show ?thesis using False by (simp add: entry_ok_def)
  qed (use e in simp)
  then show ?thesis using inv by (simp add: central_inv_def)
qed

lemma inv_slots_upd:
  assumes "central_inv L Out s" and "c < 88" and "list_ok (sizemap s) c (f (central s t c))"
    and "cfl_lock (f (central s t c)) = cfl_lock (central s t c)" "cfl_counter (f (central s t c)) = cfl_counter (central s t c)"
      "cfl_num_spans (f (central s t c)) = cfl_num_spans (central s t c)"
    and "set (held (f (central s t c))) \<union> A = set (held (central s t c)) \<union> Out t c" "set (held (f (central s t c))) \<inter> A = {}"
  shows "central_inv L (set_out t c A Out) (upd_central t c f s)"
  unfolding upd_central_def by (rule inv_slots[OF assms])

lemma inv_list_ok: "central_inv L Out s \<Longrightarrow> c < 88 \<Longrightarrow> list_ok (sizemap s) c (central s t c)"
  by (simp add: central_inv_def entry_ok_def)

text \<open>The last used slot.\<close>

lemma last_slot:
  assumes "list_ok m c l" and "0 < used_slots l"
  obtains chain where "rd (tc_slots l) (used_slots l - 1) = Inr chain" "length chain = cmove m c"
    "held l = held (l\<lparr>used_slots := used_slots l - 1\<rparr>) @ chain" "list_ok m c (l\<lparr>used_slots := used_slots l - 1\<rparr>)"
proof -
  define n where "n = nat (used_slots l - 1)"
  have n: "nat (used_slots l) = Suc n" "int n = used_slots l - 1" "n < length (tc_slots l)" using assms by (auto simp: n_def list_ok_def)
  let ?l = "l\<lparr>used_slots := used_slots l - 1\<rparr>"
  have h: "held l = held ?l @ tc_slots l ! n" using n by (simp add: held_def take_Suc_conv_app_nth n_def)
  have "rd (tc_slots l) (used_slots l - 1) = Inr (tc_slots l ! nat (used_slots l - 1))" using n(2,3) by (intro rd_ok) simp_all
  then have "rd (tc_slots l) (used_slots l - 1) = Inr (tc_slots l ! n)" by (simp only: n_def)
  moreover have "length (tc_slots l ! n) = cmove m c" using assms(1) n by (simp add: list_ok_def)
  moreover have "list_ok m c ?l" using assms h n by (auto simp: list_ok_def)
  ultimately show thesis using that h by blast
qed

lemma list_ok_smaller: "list_ok m c l \<Longrightarrow> used_slots l \<noteq> cache_size l \<Longrightarrow> list_ok m c (l\<lparr>cache_size := cache_size l - 1\<rparr>)"
  by (auto simp: list_ok_def held_def)

lemma list_ok_fields: "list_ok m c (l\<lparr>cfl_lock := b\<rparr>) = list_ok m c l" "held (l\<lparr>cfl_lock := b\<rparr>) = held l" "held (l\<lparr>cache_size := k\<rparr>) = held l"
  by (simp_all add: list_ok_def held_def)

text \<open>The body of \<open>ShrinkCache\<close> under the lock of the list.\<close>

lemma shrink_body:
  assumes inv: "central_inv L Out s" and c: "c < 88" and L: "(t, c) \<in> L" and t: "t = DEFAULT_HEAP_TYPE"
    and fuel: "card (dom (spans (ph s))) < fuel"
  obtains r s' where "(if cache_size (central s t c) = 0 then Inr (False, s)
                    else if used_slots (central s t c) = cache_size (central s t c)
                    then
                      if \<not> force then Inr (False, s)
                      else
                        let s = upd_central t c (\<lambda>l. l\<lparr>cache_size := cache_size l - 1, used_slots := used_slots l - 1\<rparr>) s
                        in rbind (rd (tc_slots (central s t c)) (used_slots (central s t c))) (\<lambda>chain.
                             rbind (ReleaseListToSpans fuel t c chain s) (\<lambda>s. Inr (True, s)))
                    else Inr (True, upd_central t c (\<lambda>l. l\<lparr>cache_size := cache_size l - 1\<rparr>) s)) = Inr (r, s')"
    "central_inv L Out s'" "frame s s'"
proof -
  let ?l = "central s t c"
  have ok: "list_ok (sizemap s) c ?l" by (rule inv_list_ok[OF inv c])
  consider "cache_size ?l = 0 \<or> used_slots ?l = cache_size ?l \<and> \<not> force" | "used_slots ?l = cache_size ?l" "force" "cache_size ?l \<noteq> 0"
    | "used_slots ?l \<noteq> cache_size ?l" "cache_size ?l \<noteq> 0" by blast
  then show thesis
  proof cases
    case 1
    then show thesis using that[of False s] inv by auto
  next
    case 2
    then have u: "0 < used_slots ?l" using ok by (auto simp: list_ok_def)
    obtain chain where ch: "rd (tc_slots ?l) (used_slots ?l - 1) = Inr chain" "held ?l = held (?l\<lparr>used_slots := used_slots ?l - 1\<rparr>) @ chain"
        "list_ok (sizemap s) c (?l\<lparr>used_slots := used_slots ?l - 1\<rparr>)"
      by (rule last_slot[OF ok u])
    let ?f = "\<lambda>l. l\<lparr>cache_size := cache_size l - 1, used_slots := used_slots l - 1\<rparr>"
    let ?s1 = "upd_central t c ?f s"
    have h: "held (?f ?l) = held (?l\<lparr>used_slots := used_slots ?l - 1\<rparr>)" by (simp add: held_def)
    have dist: "distinct (held ?l)" using ok by (simp add: list_ok_def)
    have dj: "set (held ?l) \<inter> Out t c = {}" by (rule inv_out(2)[OF inv c])
    have "central_inv L (set_out t c (Out t c \<union> set chain) Out) ?s1"
    proof (rule inv_slots_upd[OF inv c])
      show "list_ok (sizemap s) c (?f ?l)" using ch(3) 2 ok h by (auto simp: list_ok_def)
      show "set (held (?f ?l)) \<union> (Out t c \<union> set chain) = set (held ?l) \<union> Out t c" unfolding h ch(2) by auto
      show "set (held (?f ?l)) \<inter> (Out t c \<union> set chain) = {}" using dist dj unfolding h ch(2) by auto
    qed simp_all
    then obtain s' where s': "ReleaseListToSpans fuel t c chain ?s1 = Inr s'"
        "central_inv L (set_out t c (Out t c \<union> set chain - set chain) Out) s'" "frame ?s1 s'"
      using release_list_step[of L "set_out t c (Out t c \<union> set chain) Out" ?s1 c t chain fuel] c L t fuel dist ch(2) by auto
    have "Out t c \<union> set chain - set chain = Out t c" using dj unfolding ch(2) by auto
    then have "central_inv L Out s'" using s'(2) by simp
    moreover have "frame s s'" using s'(3) by (simp add: frame_def)
    ultimately show thesis using 2 u ch(1) s'(1) by (intro that[of True s']) (simp_all add: Let_def)
  next
    case 3
    let ?s1 = "upd_central t c (\<lambda>l. l\<lparr>cache_size := cache_size l - 1\<rparr>) s"
    have "central_inv L (set_out t c (Out t c) Out) ?s1"
      using list_ok_smaller[OF ok 3(1)] inv_out(2)[OF inv c, of t] by (intro inv_slots_upd[OF inv c]) (auto simp: held_def)
    then show thesis using 3 by (intro that[of True ?s1]) (simp_all add: frame_def)
  qed
qed

lemma shrink_step:
  assumes inv: "central_inv {(DEFAULT_HEAP_TYPE, k)} Out s" and c: "c < 88" "k < 88" "c \<noteq> k" and t: "t = DEFAULT_HEAP_TYPE"
    and fuel: "card (dom (spans (ph s))) < fuel"
  obtains r s' where "ShrinkCache fuel t c k force s = Inr (r, s')" "central_inv {(DEFAULT_HEAP_TYPE, k)} Out s'" "frame s s'"
proof (cases "cache_size (central s t c) = 0 \<or> \<not> force \<and> used_slots (central s t c) = cache_size (central s t c)")
  case True
  then show thesis using that[of False s] inv by (auto simp: ShrinkCache_def Let_def)
next
  case False
  then have n1: "\<not> cache_size (central s t c) = 0" and n2: "\<not> (\<not> force \<and> used_slots (central s t c) = cache_size (central s t c))" by simp_all
  have 1: "central_inv {} Out (unlock_central t k s)" using inv_unlock[OF inv, of t k] t by simp
  let ?s2 = "upd_central t c (\<lambda>l. l\<lparr>cfl_lock := True\<rparr>) (unlock_central t k s)"
  have 2: "lock_central t c (unlock_central t k s) = Inr ?s2" "central_inv {(t, c)} Out ?s2" using inv_lock[OF 1, of t c] c(1) by simp_all
  have f2: "card (dom (spans (ph ?s2))) < fuel" using fuel by simp
  obtain r s3 where 3: "(if cache_size (central ?s2 t c) = 0 then Inr (False, ?s2)
                    else if used_slots (central ?s2 t c) = cache_size (central ?s2 t c)
                    then
                      if \<not> force then Inr (False, ?s2)
                      else
                        let s = upd_central t c (\<lambda>l. l\<lparr>cache_size := cache_size l - 1, used_slots := used_slots l - 1\<rparr>) ?s2
                        in rbind (rd (tc_slots (central s t c)) (used_slots (central s t c))) (\<lambda>chain.
                             rbind (ReleaseListToSpans fuel t c chain s) (\<lambda>s. Inr (True, s)))
                    else Inr (True, upd_central t c (\<lambda>l. l\<lparr>cache_size := cache_size l - 1\<rparr>) ?s2)) = Inr (r, s3)"
      "central_inv {(t, c)} Out s3" "frame ?s2 s3"
    by (rule shrink_body[OF 2(2) c(1) singletonI t f2])
  have 4: "central_inv {} Out (unlock_central t c s3)" using inv_unlock[OF 3(2), of t c] by simp
  let ?s5 = "upd_central t k (\<lambda>l. l\<lparr>cfl_lock := True\<rparr>) (unlock_central t c s3)"
  have 5: "lock_central t k (unlock_central t c s3) = Inr ?s5" "central_inv {(t, k)} Out ?s5" using inv_lock[OF 4, of t k] c(2) by simp_all
  have "ShrinkCache fuel t c k force s = Inr (r, ?s5)"
    unfolding ShrinkCache_def Let_def t[symmetric] if_not_P[OF n1] if_not_P[OF n2] 2(1) rbind_Inr 3(1)[unfolded Let_def] prod.case 5(1) by (rule refl)
  moreover have "frame s ?s5" using 3(3) by (simp add: frame_def)
  ultimately show thesis using that 5(2) t by simp
qed

lemma evict_step:
  assumes inv: "central_inv {(DEFAULT_HEAP_TYPE, k)} Out s" and k: "k < 88" and fuel: "card (dom (spans (ph s))) < fuel"
  obtains r s' where "EvictRandomSizeClass fuel k force s = Inr (r, s')" "central_inv {(DEFAULT_HEAP_TYPE, k)} Out s'" "frame s s'"
proof -
  define n where "n = (if race_counter s \<ge> kNumClasses then race_counter s mod kNumClasses else race_counter s)"
  define s1 where "s1 = s\<lparr>race_counter := (if race_counter s \<ge> kNumClasses then n else race_counter s + 1)\<rparr>"
  have r0: "0 \<le> race_counter s" using inv by (simp add: central_inv_def)
  then have n: "0 \<le> n" "n < 88" by (auto simp: n_def kNumClasses_def)
  have 1: "central_inv {(DEFAULT_HEAP_TYPE, k)} Out s1" using inv r0 n(1) by (simp add: central_inv_def s1_def)
  have e: "EvictRandomSizeClass fuel k force s = (if n = int k then Inr (False, s1) else ShrinkCache fuel DEFAULT_HEAP_TYPE (nat n) k force s1)"
    by (simp add: EvictRandomSizeClass_def Let_def n_def s1_def)
  have f1: "frame s s1" by (simp add: frame_def s1_def)
  show thesis
  proof (cases "n = int k")
    case True
    then show thesis using that[of False s1] e 1 f1 by simp
  next
    case False
    have f: "card (dom (spans (ph s1))) < fuel" using fuel by (simp add: s1_def)
    have b: "nat n < 88" "nat n \<noteq> k" using n False by auto
    obtain r s' where "ShrinkCache fuel DEFAULT_HEAP_TYPE (nat n) k force s1 = Inr (r, s')" "central_inv {(DEFAULT_HEAP_TYPE, k)} Out s'" "frame s1 s'"
      by (rule shrink_step[OF 1 b(1) k b(2) refl f])
    then show thesis using that[of r s'] e False frame_trans[OF f1] by simp
  qed
qed

lemma make_space_step:
  assumes inv: "central_inv {(t, c)} Out s" and c: "c < 88" and t: "t = DEFAULT_HEAP_TYPE" and fuel: "card (dom (spans (ph s))) < fuel"
  obtains r s' where "MakeCacheSpace fuel t c s = Inr (r, s')" "central_inv {(t, c)} Out s'" "frame s s'"
    "r \<Longrightarrow> used_slots (central s' t c) < cache_size (central s' t c)"
proof -
  let ?l = "central s t c"
  consider "used_slots ?l < cache_size ?l" | "\<not> used_slots ?l < cache_size ?l" "cache_size ?l = max_cache_size ?l"
    | "\<not> used_slots ?l < cache_size ?l" "cache_size ?l \<noteq> max_cache_size ?l" by blast
  then show thesis
  proof cases
    case 1
    then show thesis using that[of True s] inv by (simp add: MakeCacheSpace_def)
  next
    case 2
    then show thesis using that[of False s] inv by (simp add: MakeCacheSpace_def)
  next
    case 3
    obtain r1 s1 where 1: "EvictRandomSizeClass fuel c False s = Inr (r1, s1)" "central_inv {(t, c)} Out s1" "frame s s1"
      using evict_step[OF inv[unfolded t] c fuel] t by metis
    have f1: "card (dom (spans (ph s1))) < fuel" by (rule frame_fuel[OF 1(3) inv fuel])
    obtain r2 s2 where 2: "(if r1 then Inr (True, s1) else EvictRandomSizeClass fuel c True s1) = Inr (r2, s2)" "central_inv {(t, c)} Out s2" "frame s1 s2"
    proof (cases r1)
      case True
      then show ?thesis using that[of True s1] 1 by simp
    next
      case False
      then show ?thesis using evict_step[OF 1(2)[unfolded t] c f1, of True] t that by (metis (full_types))
    qed
    have f2: "frame s s2" by (rule frame_trans[OF 1(3) 2(3)])
    have d: "MakeCacheSpace fuel t c s = (if r2 \<and> cache_size (central s2 t c) < max_cache_size (central s2 t c)
        then Inr (True, upd_central t c (\<lambda>l. l\<lparr>cache_size := cache_size l + 1\<rparr>) s2) else Inr (False, s2))"
      unfolding MakeCacheSpace_def if_not_P[OF 3(1)] if_not_P[OF 3(2)] 1(1) rbind_Inr prod.case 2(1) by (rule refl)
    show thesis
    proof (cases "r2 \<and> cache_size (central s2 t c) < max_cache_size (central s2 t c)")
      case False
      show thesis using that[of False s2] d 2(2) f2 unfolding if_not_P[OF False] by simp
    next
      case True
      let ?s3 = "upd_central t c (\<lambda>l. l\<lparr>cache_size := cache_size l + 1\<rparr>) s2"
      have ok: "list_ok (sizemap s2) c (central s2 t c)" by (rule inv_list_ok[OF 2(2) c])
      have "central_inv {(t, c)} (set_out t c (Out t c) Out) ?s3"
        using ok True inv_out(2)[OF 2(2) c, of t] by (intro inv_slots_upd[OF 2(2) c]) (auto simp: list_ok_def held_def)
      moreover have "used_slots (central ?s3 t c) < cache_size (central ?s3 t c)" using ok by (simp add: list_ok_def)
      moreover have "frame s ?s3" using f2 by (simp add: frame_def)
      ultimately show thesis using that[of True ?s3] d unfolding if_P[OF True] by simp
    qed
  qed
qed

section \<open>InsertRange\<close>

text \<open>A full chain goes into a free slot.\<close>

lemma slot_put:
  assumes inv: "central_inv L Out s" and c: "c < 88" and room: "used_slots (central s t c) < cache_size (central s t c)"
    and ch: "length chain = cmove (sizemap s) c" "distinct chain" "set chain \<subseteq> Out t c"
  obtains slots where "wr (tc_slots (central s t c)) (used_slots (central s t c)) chain = Inr slots"
    "central_inv L (set_out t c (Out t c - set chain) Out) (upd_central t c (\<lambda>l. l\<lparr>tc_slots := slots, used_slots := used_slots l + 1\<rparr>) s)"
proof -
  let ?l = "central s t c"
  define n where "n = nat (used_slots ?l)"
  have ok: "list_ok (sizemap s) c ?l" by (rule inv_list_ok[OF inv c])
  have n: "used_slots ?l = int n" "n < 64" "length (tc_slots ?l) = 64" using ok room by (auto simp: list_ok_def n_def)
  let ?S = "(tc_slots ?l)[n := chain]"
  let ?f = "\<lambda>l. l\<lparr>tc_slots := ?S, used_slots := used_slots l + 1\<rparr>"
  have nn: "nat (int n + 1) = Suc n" by simp
  have h: "held (?f ?l) = held ?l @ chain" using n by (simp add: held_def nn take_Suc_conv_app_nth)
  have dj: "set (held ?l) \<inter> Out t c = {}" by (rule inv_out(2)[OF inv c])
  have len: "\<forall>i < Suc n. length (?S ! i) = cmove (sizemap s) c" using ok n ch(1) by (auto simp: list_ok_def nth_list_update less_Suc_eq)
  have "distinct (held (?f ?l))" unfolding h using ok dj ch(2,3) by (auto simp: list_ok_def)
  then have "list_ok (sizemap s) c (?f ?l)" using ok room n len by (simp add: list_ok_def nn)
  moreover have "set (held (?f ?l)) \<union> (Out t c - set chain) = set (held ?l) \<union> Out t c" unfolding h using ch(3) by auto
  moreover have "set (held (?f ?l)) \<inter> (Out t c - set chain) = {}" unfolding h using dj by auto
  ultimately have "central_inv L (set_out t c (Out t c - set chain) Out) (upd_central t c ?f s)"
    by (intro inv_slots_upd[OF inv c]) simp_all
  moreover have "wr (tc_slots ?l) (used_slots ?l) chain = Inr ?S" using n by simp
  ultimately show thesis by (rule that[rotated])
qed

lemma insert_step:
  assumes inv: "central_inv {} Out s" and c: "0 < c" "c < 88" and t: "t = DEFAULT_HEAP_TYPE"
    and ch: "distinct chain" "set chain \<subseteq> Out t c" and fuel: "card (dom (spans (ph s))) < fuel"
  obtains s' where "InsertRange fuel t c chain (int (length chain)) s = Inr s'" "central_inv {} (set_out t c (Out t c - set chain) Out) s'" "frame s s'"
proof -
  let ?N = "int (length chain)"
  define s1 where "s1 = upd_central t c (\<lambda>l. l\<lparr>cfl_lock := True\<rparr>) s"
  have 1: "lock_central t c s = Inr s1" "central_inv {(t, c)} Out s1" using inv_lock[OF inv, of t c] c(2) by (simp_all add: s1_def)
  have fr1: "frame s s1" by (simp add: frame_def s1_def)
  have f1: "card (dom (spans (ph s1))) < fuel" by (rule frame_fuel[OF fr1 inv fuel])
  have sm: "sizemap_ok (sizemap s1)" using 1(2) by (simp add: central_inv_def)
  note num = sizemap_rd(3)[OF sm c]
  obtain room s2 where 2: "(if ?N = int (cmove (sizemap s1) c) then MakeCacheSpace fuel t c s1 else Inr (False, s1)) = Inr (room, s2)"
      "central_inv {(t, c)} Out s2" "frame s1 s2" "room \<Longrightarrow> used_slots (central s2 t c) < cache_size (central s2 t c) \<and> ?N = int (cmove (sizemap s1) c)"
  proof (cases "?N = int (cmove (sizemap s1) c)")
    case True
    then show ?thesis using make_space_step[OF 1(2) c(2) t f1] that by (metis (full_types))
  qed (use that[of False s1] 1(2) in simp)
  have f2: "card (dom (spans (ph s2))) < fuel" by (rule frame_fuel[OF 2(3) 1(2) f1])
  have fr2: "frame s s2" by (rule frame_trans[OF fr1 2(3)])
  have i: "InsertRange fuel t c chain ?N s = (if room
      then rbind (wr (tc_slots (central s2 t c)) (used_slots (central s2 t c)) chain) (\<lambda>slots.
        Inr (unlock_central t c (upd_central t c (\<lambda>l. l\<lparr>tc_slots := slots, used_slots := used_slots l + 1\<rparr>) s2)))
      else rbind (ReleaseListToSpans fuel t c chain s2) (\<lambda>s. Inr (unlock_central t c s)))"
    unfolding InsertRange_def 1(1) rbind_Inr num 2(1) prod.case by (rule refl)
  show thesis
  proof (cases room)
    case True
    have len: "length chain = cmove (sizemap s2) c" using 2(3) conjunct2[OF 2(4)[OF True]] by (simp only: frame_def of_nat_eq_iff)
    obtain slots where 3: "wr (tc_slots (central s2 t c)) (used_slots (central s2 t c)) chain = Inr slots"
        "central_inv {(t, c)} (set_out t c (Out t c - set chain) Out) (upd_central t c (\<lambda>l. l\<lparr>tc_slots := slots, used_slots := used_slots l + 1\<rparr>) s2)"
      using slot_put[OF 2(2) c(2) _ len ch] 2(4) True by blast
    have "central_inv {} (set_out t c (Out t c - set chain) Out)
        (unlock_central t c (upd_central t c (\<lambda>l. l\<lparr>tc_slots := slots, used_slots := used_slots l + 1\<rparr>) s2))"
      using inv_unlock[OF 3(2), of t c] by simp
    then show thesis using that i fr2 3(1) True by (simp add: frame_def)
  next
    case False
    obtain s3 where 3: "ReleaseListToSpans fuel t c chain s2 = Inr s3" "central_inv {(t, c)} (set_out t c (Out t c - set chain) Out) s3" "frame s2 s3"
      using release_list_step[OF 2(2) c(2) singletonI t ch f2] by blast
    have "central_inv {} (set_out t c (Out t c - set chain) Out) (unlock_central t c s3)" using inv_unlock[OF 3(2), of t c] by simp
    moreover have "frame s (unlock_central t c s3)" using frame_trans[OF fr2 3(3)] by (simp add: frame_def)
    ultimately show thesis using that i 3(1) False by simp
  qed
qed

end
