(* ===== verification/Central_Fetch.thy ===== *)
theory Central_Fetch
  imports Central_Correct
begin

text \<open>
  Objects are taken from the central free lists: from a span that has some, from a new span of the page heap, from
  a transfer slot. \<open>Populate\<close> and \<open>RemoveRange\<close> are proved for every heap type, without a heap limit.
\<close>

section \<open>FetchFromOneSpans\<close>

lemma first_nonempty:
  assumes inv: "central_inv L Out s" and l: "span_lists (ph s) (Nonempty_spans t c) \<noteq> []"
  obtains p x where "hd (span_lists (ph s) (Nonempty_spans t c)) = p" "spans (ph s) p = Some x" "sp_class x = Some (t, c)"
    "class_span (sizemap s) t c x" "sp_link x = Some (Nonempty_spans t c)" "sp_objects x \<noteq> []"
proof -
  let ?p = "hd (span_lists (ph s) (Nonempty_spans t c))"
  have "?p \<in> set (span_lists (ph s) (Nonempty_spans t c))" using l by (rule hd_in_set)
  then have "link_of (spans (ph s)) ?p = Some (Nonempty_spans t c)" using inv_ph[OF inv] by (simp add: ph_ok_def links_def)
  then obtain x where x: "spans (ph s) ?p = Some x" "sp_link x = Some (Nonempty_spans t c)" by (auto simp: link_of_def split: option.splits)
  then have k: "sp_class x = Some (t, c)" by (simp add: sp_class_def)
  then have "class_span (sizemap s) t c x \<and> sp_link x = Some (if sp_objects x = [] then Empty_spans t c else Nonempty_spans t c)"
    using inv x(1) by (auto simp: central_inv_def classes_ok_def class_ok_def)
  then show thesis using that[OF refl x(1) k] x(2) by (auto split: if_splits)
qed

lemma fetch_relink:
  assumes wf: "ph_ok {} w" and p: "spans w p = Some x" and x: "sp_location x = IN_USE" "sp_link x = Some (Nonempty_spans t c)"
  obtains w' where "(if e then rbind (DLL_Remove p w) (DLL_Prepend (Empty_spans t c) p) else Inr w) = Inr w'"
    "ph_ok {} w'" "spans w' = (spans w)(p \<mapsto> x\<lparr>sp_link := Some (if e then Empty_spans t c else Nonempty_spans t c)\<rparr>)"
proof (cases e)
  case True
  then show thesis using relink_step[OF wf p x, of "Empty_spans t c"] that by force
next
  case False
  have "x\<lparr>sp_link := Some (Nonempty_spans t c)\<rparr> = x" using x(2) by (cases x) simp
  then show thesis using that[of w] False wf p by (simp add: fun_upd_idem)
qed

lemma fetch_step:
  assumes inv: "central_inv L Out s" and c: "c < 88"
  obtains objs s' where "FetchFromOneSpans t c N s = Inr (objs, s')" "central_inv L (set_out t c (Out t c \<union> set objs) Out) s'"
    "distinct objs" "set objs \<inter> Out t c = {}" "sizemap s' = sizemap s" "length objs \<le> max 1 (nat N)"
    "objs = [] \<longrightarrow> s' = s" "objs = [] \<longleftrightarrow> span_lists (ph s) (Nonempty_spans t c) = []"
proof (cases "span_lists (ph s) (Nonempty_spans t c) = []")
  case True
  then have "FetchFromOneSpans t c N s = Inr ([], s)" by (simp add: FetchFromOneSpans_def DLL_IsEmpty_def)
  then show thesis using that[of "[]" s] inv True by simp
next
  case False
  let ?m = "sizemap s" and ?w = "ph s" and ?l = "central s t c"
  have wf: "ph_ok {} ?w" using inv by (rule inv_ph)
  obtain p x where x: "hd (span_lists ?w (Nonempty_spans t c)) = p" "spans ?w p = Some x" "sp_class x = Some (t, c)"
      "class_span ?m t c x" "sp_link x = Some (Nonempty_spans t c)" "sp_objects x \<noteq> []"
    by (rule first_nonempty[OF inv False])
  have xs: "0 < c" "sp_location x = IN_USE" "distinct (sp_objects x)" "set (sp_objects x) \<subseteq> set (objs_of (csize ?m c) x)"
      "sp_refcount x + length (sp_objects x) = length (objs_of (csize ?m c) x)" "sp_length x = cpages ?m c"
    using x(4) by (simp_all add: class_span_def)
  have sm: "sizemap_ok ?m" using inv by (simp add: central_inv_def)
  have sz: "0 < csize ?m c" by (rule sizemap_pos(1)[OF sm xs(1) c])
  have n65: "length (objs_of (csize ?m c) x) \<le> 65535" using sizemap_pos(6)[OF sm xs(1) c] xs(6) by (simp add: length_objs_of[OF sz])
  define n where "n = max 1 (nat N)"
  define taken where "taken = take n (sp_objects x)"
  define rest where "rest = drop n (sp_objects x)"
  have split: "sp_objects x = taken @ rest" by (simp add: taken_def rest_def)
  have tn: "taken \<noteq> []" "length taken \<le> n" using x(6) by (simp_all add: taken_def n_def)
  have rc: "(sp_refcount x + length taken) mod 65536 = sp_refcount x + length taken" using xs(5) n65 split by simp
  obtain w1 where 1: "(if rest = [] then rbind (DLL_Remove p ?w) (DLL_Prepend (Empty_spans t c) p) else Inr ?w) = Inr w1" "ph_ok {} w1"
      "spans w1 = (spans ?w)(p \<mapsto> x\<lparr>sp_link := Some (if rest = [] then Empty_spans t c else Nonempty_spans t c)\<rparr>)"
    by (rule fetch_relink[OF wf x(2) xs(2) x(5)])
  let ?x1 = "x\<lparr>sp_link := Some (if rest = [] then Empty_spans t c else Nonempty_spans t c)\<rparr>"
  have p1: "spans w1 p = Some ?x1" by (simp add: 1(3))
  let ?y = "?x1\<lparr>sp_objects := rest, sp_refcount := sp_refcount x + length taken\<rparr>"
  let ?w2 = "put_span p ?y w1"
  have w2: "ph_ok {} ?w2" by (rule wf_fields[OF 1(2) p1]) (simp_all add: xs(2))
  have sp2: "spans ?w2 = (spans ?w)(p \<mapsto> ?y)" by (simp add: put_span_def 1(3))
  have one: "(if rest = [] then on_ph (\<lambda>w. rbind (DLL_Remove p w) (DLL_Prepend (Empty_spans t c) p)) s else Inr s) = Inr (s\<lparr>ph := w1\<rparr>)"
    using 1(1) by (cases "rest = []") (simp_all add: on_ph_def)
  have u2: "upd_span p (\<lambda>x. x\<lparr>sp_objects := rest, sp_refcount := (sp_refcount x + length taken) mod 65536\<rparr>) w1 = Inr ?w2"
    using wf_get[OF 1(2) p1] rc by (simp add: upd_span_def)
  define l' where "l' = ?l\<lparr>cfl_counter := cfl_counter ?l - word_of_nat (length taken)\<rparr>"
  let ?s' = "s\<lparr>ph := ?w2, central := (central s)(t := (central s t)(c := l'))\<rparr>"
  have g: "get_span p ?w = Inr x" by (rule wf_get[OF wf x(2)])
  have n0: "\<not> DLL_IsEmpty (Nonempty_spans t c) ?w" using False by (simp add: DLL_IsEmpty_def)
  have two: "on_ph (upd_span p (\<lambda>x. x\<lparr>sp_objects := rest, sp_refcount := (sp_refcount x + length taken) mod 65536\<rparr>)) (s\<lparr>ph := w1\<rparr>) = Inr (s\<lparr>ph := ?w2\<rparr>)"
    using u2 by (simp add: on_ph_def)
  have res: "FetchFromOneSpans t c N s = Inr (taken, ?s')"
    unfolding FetchFromOneSpans_def if_not_P[OF n0] Let_def x(1) g rbind_Inr if_not_P[OF x(6)] n_def[symmetric] taken_def[symmetric]
      rest_def[symmetric] one two by (simp add: upd_central_def l'_def)
  have free: "set (sp_objects x) \<inter> (set (held ?l) \<union> Out t c) = {}"
    using free_not_out[OF wf x(2) xs(4) sz, of t] inv_out(1)[OF inv c, of t] by auto
  have "central_inv L (set_out t c (Out t c \<union> set taken) Out) ?s'"
  proof (rule inv_span_change[OF inv x(2,3) w2 sp2, where v = True])
    have "objs_of (csize ?m c) ?y = objs_of (csize ?m c) x" by (rule objs_of_fields) simp_all
    then show "class_ok ?m ?y" using x(4) split by (auto simp: class_ok_def sp_class_def class_span_def)
    have "span_out ?m c ?y = set (objs_of (csize ?m c) x) - set rest" by (subst span_out_fields[of _ x]) simp_all
    then have "span_out ?m c ?y = span_out ?m c x - {} \<union> set taken" using xs(3,4) split by (auto simp: span_out_def)
    then have "out_objs ?m ?w2 t c = out_objs ?m ?w t c - {} \<union> set taken"
      by (intro out_change[OF wf sp2 _ x(2,3) sz, where v = True]) (auto simp: sp_class_def span_out_def)
    then show "out_objs ?m ?w2 t c = set (held ?l) \<union> (Out t c \<union> set taken)" using inv_out(1)[OF inv c, of t] by auto
    show "(Out t c \<union> set taken) \<inter> set (held ?l) = {}" using inv_out(2)[OF inv c, of t] free split by auto
  qed (simp_all add: sp_class_def l'_def split)
  moreover have "sizemap ?s' = sizemap s" by simp
  ultimately show thesis using that[OF res] xs(3) split tn free False by (auto simp: n_def)
qed

section \<open>Populate\<close>

text \<open>A span gets a class; all its objects are free.\<close>

lemma inv_span_new:
  assumes inv: "central_inv L Out s" and p: "spans (ph s) p = Some x" "sp_class x = None"
    and w': "ph_ok {} w'" "spans w' = (spans (ph s))(p \<mapsto> y)" "sp_class y = Some (t, c)" "class_ok (sizemap s) y" "span_out (sizemap s) c y = {}"
  shows "central_inv L Out (upd_central t c (\<lambda>l. l\<lparr>cfl_num_spans := cfl_num_spans l + 1, cfl_counter := cfl_counter l + word_of_nat (length (sp_objects y))\<rparr>) (s\<lparr>ph := w'\<rparr>))"
proof -
  let ?w = "ph s" and ?m = "sizemap s" and ?f = "\<lambda>l. l\<lparr>cfl_num_spans := cfl_num_spans l + 1, cfl_counter := cfl_counter l + word_of_nat (length (sp_objects y))\<rparr>"
  let ?l = "central s t c"
  have bk: "spans ?w = (spans w')(p \<mapsto> x)" using w'(2) p(1) by auto
  have p': "spans w' p = Some y" by (simp add: w'(2))
  note f = members_finite[OF w'(1), of t c]
  note ch = class_change[OF bk p' w'(3) _ f, where v = False, simplified, OF p(2)]
  have c: "c < 88" using w'(3,4) by (auto simp: class_ok_def class_span_def)
  have ok: "classes_ok ?m w'" using inv w'(2,4) by (auto simp: central_inv_def classes_ok_def)
  have pM: "p \<in> members w' t c" using p' w'(3) by (auto simp: members_def)
  have num: "card (members w' t c) = card (members ?w t c) + 1" using card_Suc_Diff1[OF f pM] ch(1) by simp
  have cnt: "free_objs w' t c = free_objs ?w t c + length (sp_objects y)" using ch(6) by simp
  have out: "out_objs ?m w' t c = out_objs ?m ?w t c" using ch(4)[of ?m] ch(5)[of ?m] w'(5) by simp
  have e: "entry_ok ?m ?w L Out t c ?l" using inv c by (simp add: central_inv_def)
  have l: "entry_ok ?m w' L Out t c (?f ?l)" using e out num cnt by (simp add: entry_ok_def list_ok_def held_def)
  have "entry_ok ?m w' L Out u d (central (upd_central t c ?f (s\<lparr>ph := w'\<rparr>)) u d)" if "d < 88" for u d
  proof (cases "(u, d) = (t, c)")
    case False
    moreover have "entry_ok ?m ?w L Out u d (central s u d)" using inv that by (simp add: central_inv_def)
    ultimately show ?thesis using ch(2)[of u d] ch(3)[of u d ?m] by (auto simp: entry_ok_def)
  qed (use l in simp)
  then show ?thesis using inv w'(1) ok by (simp add: central_inv_def)
qed

lemma allocated_same_class:
  assumes wf: "ph_ok {} w" and a: "allocated h n p w w'"
  shows "same_class w w'"
  unfolding same_class_def
proof (intro allI impI)
  fix q y
  assume y: "sp_class y \<noteq> None"
  have wf': "ph_ok {} w'" and same: "in_use_same p w w'" using a by (simp_all add: allocated_def)
  have u: "sp_location y = IN_USE" if "spans w q = Some y \<or> spans w' q = Some y"
    using that classed_in_use[OF wf] classed_in_use[OF wf'] y by blast
  show "spans w' q = Some y \<longleftrightarrow> spans w q = Some y"
  proof (cases "q = p")
    case False
    then show ?thesis using same u unfolding in_use_same_def by blast
  next
    case True
    have "spans v NULL = None" if "ph_ok {} v" for v
      using wf_layout[OF that] by (cases "spans v NULL") (auto simp: layout_def span_ok_def)
    then show ?thesis using a wf wf' True y u by (cases "p = NULL") (auto simp: allocated_def sp_class_def)
  qed
qed

lemma cache_fold: "fold (\<lambda>i. CacheSizeClass (k i) c) is w = w\<lparr>pagemap_cache := fold (\<lambda>i. pc_Put (k i) c) is (pagemap_cache w)\<rparr>"
  by (induction "is" arbitrary: w) (simp_all add: CacheSizeClass_def)

lemma wf_cache: "ph_ok U (w\<lparr>pagemap_cache := h\<rparr>) = ph_ok U w"
  by (simp add: ph_ok_def)

lemma same_class_put: "spans w p = Some x \<Longrightarrow> sp_class x = None \<Longrightarrow> spans w' = (spans w)(p \<mapsto> y) \<Longrightarrow> sp_class y = None \<Longrightarrow> same_class w w'"
  by (auto simp: same_class_def)

text \<open>The new span is given its class and its objects, outside every list.\<close>

lemma register_carved_step:
  assumes wf: "ph_ok {} w" and p: "spans w p = Some x" and x: "sp_location x = IN_USE" "sp_link x = None" "sp_heaptype x = t"
    and c: "c < 88"
  obtains w' where "rbind (RegisterSizeClass p c w) (\<lambda>w. rbind (upd_span p (\<lambda>x. x\<lparr>sp_heaptype := t\<rparr>) w) (\<lambda>w. rbind (get_span p w) (\<lambda>x. f x w))) =
      f (x\<lparr>sp_sizeclass := c\<rparr>) w'"
    "ph_ok {} w'" "spans w' = (spans w)(p \<mapsto> x\<lparr>sp_sizeclass := c\<rparr>)"
proof -
  let ?x = "x\<lparr>sp_sizeclass := c\<rparr>"
  have c256: "c < 256" using c by simp
  obtain w1 where 1: "RegisterSizeClass p c w = Inr w1" "ph_ok {} w1" "spans w1 = (spans w)(p \<mapsto> ?x)"
    by (rule register_step[OF wf p x(1) c256])
  have p1: "spans w1 p = Some ?x" by (simp add: 1(3))
  have xt: "?x\<lparr>sp_heaptype := t\<rparr> = ?x" using x(3) by (cases x) simp
  have 2: "upd_span p (\<lambda>x. x\<lparr>sp_heaptype := t\<rparr>) w1 = Inr (put_span p ?x w1)" using wf_get[OF 1(2) p1] xt by (simp add: upd_span_def)
  have 3: "ph_ok {} (put_span p ?x w1)" by (rule wf_fields[OF 1(2) p1]) (simp_all add: x(1))
  have sp: "spans (put_span p ?x w1) = (spans w)(p \<mapsto> ?x)" by (simp add: put_span_def 1(3))
  have 4: "get_span p (put_span p ?x w1) = Inr ?x" by (rule wf_get[OF 3]) (simp add: sp)
  show thesis using that[OF _ 3 sp] 1(1) 2 4 by simp
qed

lemma init_step:
  assumes inv: "central_inv {} Out s" and sc: "same_class (ph s) w" and wf: "ph_ok {} w" and p: "spans w p = Some x"
    and x: "sp_location x = IN_USE" "sp_link x = None" "sp_heaptype x = t" "sp_sizeclass x = c" "sp_length x = cpages (sizemap s) c"
    and c: "0 < c" "c < 88"
  shows "\<exists>s'. init_span t c p (cpages (sizemap s) c) x w s = Inr s' \<and> central_inv {(t, c)} Out s' \<and> span_lists (ph s') (Nonempty_spans t c) \<noteq> [] \<and>
    sizemap s' = sizemap s"
proof -
  let ?m = "sizemap s" and ?n = "cpages (sizemap s) c"
  have sm: "sizemap_ok ?m" using inv by (simp add: central_inv_def)
  note pos = sizemap_pos[OF sm c]
  define w1 where "w1 = fold (\<lambda>i. CacheSizeClass (sp_start x + i) c) [0..<?n] w"
  have w1: "ph_ok {} w1" "spans w1 = spans w" using wf by (simp_all add: w1_def cache_fold wf_cache)
  have p1: "spans w1 p = Some x" by (simp add: w1(2) p)
  define objs where "objs = objs_of (csize ?m c) x"
  let ?y = "x\<lparr>sp_objects := objs, sp_refcount := 0\<rparr>" and ?w2 = "put_span p (x\<lparr>sp_objects := objs, sp_refcount := 0\<rparr>) w1"
  have u: "upd_span p (\<lambda>x. x\<lparr>sp_objects := objs, sp_refcount := 0\<rparr>) w1 = Inr ?w2" using wf_get[OF w1(1) p1] by (simp add: upd_span_def)
  have w2: "ph_ok {} ?w2" by (rule wf_fields[OF w1(1) p1]) (simp_all add: x(1))
  have sp2: "spans ?w2 = (spans w)(p \<mapsto> ?y)" by (simp add: put_span_def w1(2))
  have p2: "spans ?w2 p = Some ?y" by (simp add: sp2)
  have "same_class w ?w2" using x(2) by (intro same_class_put[OF p _ sp2]) (simp_all add: sp_class_def)
  then have inv2: "central_inv {} Out (s\<lparr>ph := ?w2\<rparr>)" by (intro inv_same_class[OF inv w2] same_class_trans[OF sc])
  let ?s3 = "upd_central t c (\<lambda>l. l\<lparr>cfl_lock := True\<rparr>) (s\<lparr>ph := ?w2\<rparr>)"
  have 3: "lock_central t c (s\<lparr>ph := ?w2\<rparr>) = Inr ?s3" "central_inv {(t, c)} Out ?s3" using inv_lock[OF inv2, of t c] c(2) by simp_all
  have y: "sp_location ?y = IN_USE" "sp_link ?y = None" using x(1,2) by simp_all
  have nf: "\<forall>h i r. Nonempty_spans t c \<noteq> Freelist h i r" by simp
  obtain w4 where 4: "DLL_Prepend (Nonempty_spans t c) p ?w2 = Inr w4" "ph_ok {} w4" "spans w4 = (spans ?w2)(p \<mapsto> ?y\<lparr>sp_link := Some (Nonempty_spans t c)\<rparr>)"
      "span_lists w4 = (span_lists ?w2)(Nonempty_spans t c := p # span_lists ?w2 (Nonempty_spans t c))"
    by (rule dll_prepend_step[OF w2 p2 y nf])
  let ?z = "?y\<lparr>sp_link := Some (Nonempty_spans t c)\<rparr>"
  have oz: "objs_of (csize ?m c) ?z = objs" unfolding objs_def by (rule objs_of_fields) simp_all
  have "0 < length objs" using pos(5) x(5) by (simp add: objs_def length_objs_of[OF pos(1)])
  moreover have "distinct objs" unfolding objs_def by (rule objs_of_distinct[OF pos(1) class_bound[OF wf p]])
  ultimately have zc: "class_ok ?m ?z" using x c oz by (auto simp: class_ok_def sp_class_def class_span_def)
  have zo: "span_out ?m c ?z = {}" by (simp add: span_out_def oz)
  let ?f = "\<lambda>l. l\<lparr>cfl_num_spans := cfl_num_spans l + 1, cfl_counter := cfl_counter l + word_of_nat (length objs)\<rparr>"
  have "central_inv {(t, c)} Out (upd_central t c ?f (?s3\<lparr>ph := w4\<rparr>))"
    using inv_span_new[OF 3(2) _ _ 4(2), of p ?y ?z t c] p2 4(3) zc zo x(2) by (simp add: sp_class_def)
  moreover have "init_span t c p ?n x w s = Inr (upd_central t c ?f (?s3\<lparr>ph := w4\<rparr>))"
  proof -
    have o: "map word_of_nat (carve_objects (sp_start x * 2 ^ kPageShift) (nat (int (csize ?m c))) (sp_start x * 2 ^ kPageShift + ?n * 2 ^ kPageShift)) = objs"
      by (simp add: objs_def objs_of_def kPageShift_def x(5))
    have nz: "\<not> int (csize ?m c) \<le> 0" using pos(1) by simp
    have pr: "on_ph (DLL_Prepend (Nonempty_spans t c) p) ?s3 = Inr (?s3\<lparr>ph := w4\<rparr>)" using 4(1) by (simp add: on_ph_def)
    show ?thesis
      unfolding init_span_def Let_def sizemap_rd(1)[OF sm c] rbind_Inr if_not_P[OF nz] o w1_def[symmetric] u 3(1) pr by (rule refl)
  qed
  ultimately show ?thesis using 4(4) by auto
qed

text \<open>\<open>dry\<close>: the spans of the list have no free object, and the page heap was asked for a new span and could not give it.\<close>

definition dry :: "nat \<Rightarrow> int \<Rightarrow> nat \<Rightarrow> central_world \<Rightarrow> central_world \<Rightarrow> bool" where
  "dry fuel t c s s' \<longleftrightarrow> span_lists (ph s) (Nonempty_spans t c) = [] \<and> New fuel t (cpages (sizemap s) c) (ph s) = Inr (NULL, ph s') \<and>
     grow_refused t (cpages (sizemap s) c) (ph s) (ph s')"

lemma populate_step:
  assumes inv: "central_inv {(t, c)} Out s" and c: "0 < c" "c < 88" and lim: "heap_limit_mb (ph s) = 0" and con: "sys_contract (ph s)"
    and fuel: "card (dom (spans (ph s))) + 1 < fuel"
  shows "Populate fuel t c s = Inl AssertFail \<and> \<not> span_room 2 (ph s) \<or>
    (\<exists>s'. Populate fuel t c s = Inr s' \<and> central_inv {(t, c)} Out s' \<and> sizemap s' = sizemap s \<and>
      (span_lists (ph s') (Nonempty_spans t c) \<noteq> [] \<or> New fuel t (cpages (sizemap s) c) (ph s) = Inr (NULL, ph s') \<and>
        grow_refused t (cpages (sizemap s) c) (ph s) (ph s')))"
proof -
  let ?m = "sizemap s" and ?w = "ph s" and ?s0 = "unlock_central t c s" and ?n = "cpages (sizemap s) c"
  have wf: "ph_ok {} ?w" using inv by (rule inv_ph)
  have sm: "sizemap_ok ?m" using inv by (simp add: central_inv_def)
  note pos = sizemap_pos[OF sm c]
  have inv0: "central_inv {} Out ?s0" using inv_unlock[OF inv, of t c] by simp
  have unfold: "Populate fuel t c s = rbind (New fuel t ?n ?w) (\<lambda>(p, w). if p = NULL then lock_central t c (?s0\<lparr>ph := w\<rparr>)
      else rbind (RegisterSizeClass p c w) (\<lambda>w. rbind (upd_span p (\<lambda>x. x\<lparr>sp_heaptype := t\<rparr>) w) (\<lambda>w. rbind (get_span p w) (\<lambda>x. init_span t c p ?n x w ?s0))))"
    unfolding Populate_def Let_def unlock_fields sizemap_rd(2)[OF sm c] rbind_Inr nat_int by (rule refl)
  from new_step[OF wf lim con pos(2) fuel, of t] consider "New fuel t ?n ?w = Inl AssertFail"
    | p w1 where "New fuel t ?n ?w = Inr (p, w1)" "allocated t ?n p ?w w1" by blast
  then show ?thesis
  proof cases
    case 1
    then show ?thesis using New_crash unfolding unfold by simp
  next
    case (2 p w1)
    have wf1: "ph_ok {} w1" using 2(2) by (simp add: allocated_def)
    have inv1: "central_inv {} Out (?s0\<lparr>ph := w1\<rparr>)"
      by (rule inv_same_class[OF inv0 wf1]) (simp add: allocated_same_class[OF wf 2(2)])
    note lk = inv_lock[OF inv1, of t c, simplified, OF c(2)]
    show ?thesis
    proof (cases "p = NULL")
      case True
      have "Populate fuel t c s = lock_central t c (?s0\<lparr>ph := w1\<rparr>)" unfolding unfold 2(1) rbind_Inr prod.case if_P[OF True] by (rule refl)
      moreover have "grow_refused t ?n ?w w1" using 2(2) True by (simp add: allocated_def)
      ultimately show ?thesis using lk 2(1) True by auto
    next
      case False
      obtain x where x: "spans w1 p = Some x" "sp_location x = IN_USE" "sp_length x = ?n" "sp_link x = None" "sp_heaptype x = t"
        using 2(2) False by (auto simp: allocated_def)
      obtain w2 where w2: "rbind (RegisterSizeClass p c w1) (\<lambda>w. rbind (upd_span p (\<lambda>x. x\<lparr>sp_heaptype := t\<rparr>) w) (\<lambda>w.
            rbind (get_span p w) (\<lambda>x. init_span t c p ?n x w ?s0))) = init_span t c p ?n (x\<lparr>sp_sizeclass := c\<rparr>) w2 ?s0"
          "ph_ok {} w2" "spans w2 = (spans w1)(p \<mapsto> x\<lparr>sp_sizeclass := c\<rparr>)"
        by (rule register_carved_step[OF wf1 x(1,2,4,5) c(2), of "\<lambda>x w. init_span t c p ?n x w ?s0"])
      have "same_class w1 w2" using x(4) by (intro same_class_put[OF x(1) _ w2(3)]) (simp_all add: sp_class_def)
      then have sc: "same_class (ph ?s0) w2" using same_class_trans[OF allocated_same_class[OF wf 2(2)]] by simp
      have "Populate fuel t c s = init_span t c p ?n (x\<lparr>sp_sizeclass := c\<rparr>) w2 ?s0"
        unfolding unfold 2(1) rbind_Inr prod.case if_not_P[OF False] w2(1) by (rule refl)
      then show ?thesis using init_step[OF inv0 sc w2(2), of p "x\<lparr>sp_sizeclass := c\<rparr>" t c] x c w2(3) by auto
    qed
  qed
qed

section \<open>RemoveRange\<close>

text \<open>The outcome of a fetch: the end of the process when there is no room for descriptors, or objects that nobody held and a
  state where the caller holds them; there are none only when the list is \<open>dry\<close>.\<close>

definition gives :: "nat \<Rightarrow> int \<Rightarrow> nat \<Rightarrow> nat \<Rightarrow> (int \<times> nat) set \<Rightarrow> (int \<Rightarrow> nat \<Rightarrow> ptr set) \<Rightarrow> central_world \<Rightarrow> (ptr list \<times> central_world) res \<Rightarrow> bool" where
  "gives fuel t c n L Out s r \<longleftrightarrow> r = Inl AssertFail \<and> \<not> span_room 2 (ph s) \<or>
     (\<exists>objs s'. r = Inr (objs, s') \<and> central_inv L (set_out t c (Out t c \<union> set objs) Out) s' \<and>
       sizemap s' = sizemap s \<and> distinct objs \<and> set objs \<inter> Out t c = {} \<and> length objs \<le> n \<and>
       (objs = [] \<longrightarrow> dry fuel t c s s' \<and> span_lists (ph s') (Nonempty_spans t c) = []))"

lemma fetch_safe_step:
  assumes inv: "central_inv {(t, c)} Out s" and c: "0 < c" "c < 88" and N: "1 \<le> N" and lim: "heap_limit_mb (ph s) = 0" and con: "sys_contract (ph s)"
    and fuel: "card (dom (spans (ph s))) + 1 < fuel"
  shows "gives fuel t c (nat N) {(t, c)} Out s (FetchFromOneSpansSafe fuel t c N s)"
proof -
  obtain objs s1 where 1: "FetchFromOneSpans t c N s = Inr (objs, s1)" "central_inv {(t, c)} (set_out t c (Out t c \<union> set objs) Out) s1"
      "distinct objs" "set objs \<inter> Out t c = {}" "sizemap s1 = sizemap s" "length objs \<le> max 1 (nat N)" "objs = [] \<longrightarrow> s1 = s"
      "objs = [] \<longleftrightarrow> span_lists (ph s) (Nonempty_spans t c) = []"
    by (rule fetch_step[OF inv c(2)])
  show ?thesis
  proof (cases "objs = []")
    case False
    then have "FetchFromOneSpansSafe fuel t c N s = Inr (objs, s1)" using 1(1) by (simp add: FetchFromOneSpansSafe_def)
    then show ?thesis using 1 False N by (auto simp: gives_def)
  next
    case True
    have e: "FetchFromOneSpansSafe fuel t c N s = rbind (Populate fuel t c s) (FetchFromOneSpans t c N)"
      using 1(1) 1(7) True by (simp add: FetchFromOneSpansSafe_def)
    from populate_step[OF inv c lim con fuel] consider "Populate fuel t c s = Inl AssertFail" "\<not> span_room 2 (ph s)"
      | s2 where "Populate fuel t c s = Inr s2" "central_inv {(t, c)} Out s2" "sizemap s2 = sizemap s"
          "span_lists (ph s2) (Nonempty_spans t c) \<noteq> [] \<or> New fuel t (cpages (sizemap s) c) (ph s) = Inr (NULL, ph s2) \<and>
            grow_refused t (cpages (sizemap s) c) (ph s) (ph s2)" by blast
    then show ?thesis
    proof cases
      case 1
      then show ?thesis unfolding e by (simp add: gives_def)
    next
      case (2 s2)
      obtain objs s3 where 3: "FetchFromOneSpans t c N s2 = Inr (objs, s3)" "central_inv {(t, c)} (set_out t c (Out t c \<union> set objs) Out) s3"
          "distinct objs" "set objs \<inter> Out t c = {}" "sizemap s3 = sizemap s2" "length objs \<le> max 1 (nat N)" "objs = [] \<longleftrightarrow> span_lists (ph s2) (Nonempty_spans t c) = []"
          "objs = [] \<longrightarrow> s3 = s2"
        by (rule fetch_step[OF 2(2) c(2)])
      have "objs = [] \<longrightarrow> dry fuel t c s s3 \<and> span_lists (ph s3) (Nonempty_spans t c) = []"
        using 3(7,8) 2(4) 1(8) True by (auto simp: dry_def)
      then show ?thesis unfolding e using 2(1,3) 3(1-6) N by (auto simp: gives_def)
    qed
  qed
qed

lemma fetch_loop_step:
  assumes "central_inv L Out s" and "c < 88"
  shows "\<exists>new s'. fetch_loop t c k objs s = Inr (new @ objs, s') \<and> central_inv L (set_out t c (Out t c \<union> set new) Out) s' \<and>
    sizemap s' = sizemap s \<and> distinct new \<and> set new \<inter> Out t c = {} \<and> length new \<le> k \<and>
    (length new < k \<longrightarrow> span_lists (ph s') (Nonempty_spans t c) = [])"
  using assms(1)
proof (induction k arbitrary: objs s Out rule: less_induct)
  case (less k)
  show ?case
  proof (cases "k = 0")
    case True
    then show ?thesis using less.prems by (subst fetch_loop.simps) simp
  next
    case False
    obtain new s1 where 1: "FetchFromOneSpans t c (int k) s = Inr (new, s1)" "central_inv L (set_out t c (Out t c \<union> set new) Out) s1"
        "distinct new" "set new \<inter> Out t c = {}" "sizemap s1 = sizemap s" "length new \<le> max 1 (nat (int k))"
        "new = [] \<longrightarrow> s1 = s" "new = [] \<longleftrightarrow> span_lists (ph s) (Nonempty_spans t c) = []"
      by (rule fetch_step[OF less.prems assms(2)])
    show ?thesis
    proof (cases "new = []")
      case True
      then show ?thesis using 1 False by (subst fetch_loop.simps) simp
    next
      case nn: False
      have e: "fetch_loop t c k objs s = fetch_loop t c (k - length new) (new @ objs) s1"
        using 1(1) False nn by (subst fetch_loop.simps) simp
      have "k - length new < k" using nn False by (cases new) simp_all
      from less.IH[OF this 1(2), of "new @ objs"] obtain new2 s2 where 2: "fetch_loop t c (k - length new) (new @ objs) s1 = Inr (new2 @ new @ objs, s2)"
          "central_inv L (set_out t c (Out t c \<union> set new \<union> set new2) Out) s2" "distinct new2" "set new2 \<inter> (Out t c \<union> set new) = {}"
          "length new2 \<le> k - length new" "sizemap s2 = sizemap s1"
          "length new2 < k - length new \<longrightarrow> span_lists (ph s2) (Nonempty_spans t c) = []"
        by auto
      have "Out t c \<union> set new \<union> set new2 = Out t c \<union> set (new2 @ new)" by auto
      then have "central_inv L (set_out t c (Out t c \<union> set (new2 @ new)) Out) s2" using 2(2) by simp
      moreover have "distinct (new2 @ new)" "set (new2 @ new) \<inter> Out t c = {}" "length (new2 @ new) \<le> k"
        using 1(3,4,6) 2(3-5) False by auto
      moreover have "sizemap s2 = sizemap s" using 2(6) 1(5) by simp
      moreover have "length (new2 @ new) < k \<longrightarrow> span_lists (ph s2) (Nonempty_spans t c) = []" using 2(7) by auto
      ultimately show ?thesis unfolding e 2(1) by (intro exI[of _ "new2 @ new"] exI[of _ s2]) simp
    qed
  qed
qed

lemma remove_step:
  assumes inv: "central_inv {} Out s" and c: "0 < c" "c < 88" and N: "1 \<le> N" and lim: "heap_limit_mb (ph s) = 0" and con: "sys_contract (ph s)"
    and fuel: "card (dom (spans (ph s))) + 1 < fuel"
  shows "RemoveRange fuel t c N s = Inl AssertFail \<and> \<not> span_room 2 (ph s) \<or>
    (\<exists>objs s'. RemoveRange fuel t c N s = Inr ((int (length objs), objs), s') \<and>
      central_inv {} (set_out t c (Out t c \<union> set objs) Out) s' \<and> sizemap s' = sizemap s \<and> distinct objs \<and> set objs \<inter> Out t c = {} \<and>
      int (length objs) \<le> N \<and> (int (length objs) < N \<longrightarrow> span_lists (ph s') (Nonempty_spans t c) = []) \<and>
      (objs = [] \<longrightarrow> dry fuel t c s s' \<and> \<not> (N = int (cmove (sizemap s) c) \<and> 0 < used_slots (central s t c))))"
proof -
  define s1 where "s1 = upd_central t c (\<lambda>l. l\<lparr>cfl_lock := True\<rparr>) s"
  have 1: "lock_central t c s = Inr s1" "central_inv {(t, c)} Out s1" using inv_lock[OF inv, of t c] c(2) by (simp_all add: s1_def)
  have s1: "ph s1 = ph s" "sizemap s1 = sizemap s" by (simp_all add: s1_def)
  have sm: "sizemap_ok (sizemap s1)" using 1(2) by (simp add: central_inv_def)
  note num = sizemap_rd(3)[OF sm c]
  let ?l = "central s1 t c"
  have r: "RemoveRange fuel t c N s = (if N = int (cmove (sizemap s1) c) \<and> used_slots ?l > 0
      then rbind (rd (tc_slots ?l) (used_slots ?l - 1)) (\<lambda>chain.
        Inr ((N, chain), unlock_central t c (upd_central t c (\<lambda>l. l\<lparr>used_slots := used_slots l - 1\<rparr>) s1)))
      else rbind (FetchFromOneSpansSafe fuel t c N s1) (\<lambda>(objs, s).
        rbind (if objs = [] then Inr ([], s) else fetch_loop t c (nat (N - int (length objs))) objs s) (\<lambda>(objs, s).
          Inr ((int (length objs), objs), unlock_central t c s))))"
    unfolding RemoveRange_def 1(1) rbind_Inr num by (rule refl)
  show ?thesis
  proof (cases "N = int (cmove (sizemap s1) c) \<and> used_slots ?l > 0")
    case True
    have ok: "list_ok (sizemap s1) c ?l" by (rule inv_list_ok[OF 1(2) c(2)])
    obtain chain where ch: "rd (tc_slots ?l) (used_slots ?l - 1) = Inr chain" "length chain = cmove (sizemap s1) c"
        "held ?l = held (?l\<lparr>used_slots := used_slots ?l - 1\<rparr>) @ chain" "list_ok (sizemap s1) c (?l\<lparr>used_slots := used_slots ?l - 1\<rparr>)"
      by (rule last_slot[OF ok conjunct2[OF True]])
    let ?s2 = "upd_central t c (\<lambda>l. l\<lparr>used_slots := used_slots l - 1\<rparr>) s1"
    have dist: "distinct (held ?l)" using ok by (simp add: list_ok_def)
    have dj: "set (held ?l) \<inter> Out t c = {}" by (rule inv_out(2)[OF 1(2) c(2)])
    have "central_inv {(t, c)} (set_out t c (Out t c \<union> set chain) Out) ?s2"
      using ch(4) dist dj unfolding ch(3) by (intro inv_slots_upd[OF 1(2) c(2)]) (auto simp: ch(3))
    then have "central_inv {} (set_out t c (Out t c \<union> set chain) Out) (unlock_central t c ?s2)" using inv_unlock[of "{(t, c)}" _ ?s2 t c] by simp
    moreover have "RemoveRange fuel t c N s = Inr ((int (length chain), chain), unlock_central t c ?s2)"
      unfolding r if_P[OF True] ch(1) rbind_Inr using conjunct1[OF True] ch(2) by (simp only:)
    moreover have "distinct chain" "set chain \<inter> Out t c = {}" using dist dj unfolding ch(3) by auto
    moreover have "chain \<noteq> []" "int (length chain) = N" using sizemap_pos(3)[OF sm c] ch(2) conjunct1[OF True] by auto
    moreover have "sizemap (unlock_central t c ?s2) = sizemap s" by (simp add: s1)
    ultimately show ?thesis
      by (intro disjI2 exI[of _ chain] exI[of _ "unlock_central t c ?s2"]) (intro conjI; simp)
  next
    case False
    have "gives fuel t c (nat N) {(t, c)} Out s1 (FetchFromOneSpansSafe fuel t c N s1)"
      using fuel lim con by (intro fetch_safe_step[OF 1(2) c N]) (simp_all add: s1)
    then consider "FetchFromOneSpansSafe fuel t c N s1 = Inl AssertFail" "\<not> span_room 2 (ph s)"
      | objs s2 where "FetchFromOneSpansSafe fuel t c N s1 = Inr (objs, s2)" "central_inv {(t, c)} (set_out t c (Out t c \<union> set objs) Out) s2"
          "distinct objs" "set objs \<inter> Out t c = {}" "length objs \<le> nat N"
          "objs = [] \<longrightarrow> dry fuel t c s s2 \<and> span_lists (ph s2) (Nonempty_spans t c) = []" "sizemap s2 = sizemap s"
      unfolding gives_def dry_def s1 by blast
    then show ?thesis
    proof cases
      case 1
      then show ?thesis unfolding r if_not_P[OF False] by simp
    next
      case (2 objs s2)
      obtain new s3 where 3: "(if objs = [] then Inr ([], s2) else fetch_loop t c (nat (N - int (length objs))) objs s2) = Inr (new @ objs, s3)"
          "central_inv {(t, c)} (set_out t c (Out t c \<union> set (new @ objs)) Out) s3" "distinct (new @ objs)" "set (new @ objs) \<inter> Out t c = {}"
          "int (length (new @ objs)) \<le> N" "objs = [] \<longrightarrow> new = [] \<and> s3 = s2" "sizemap s3 = sizemap s"
          "int (length (new @ objs)) < N \<longrightarrow> span_lists (ph s3) (Nonempty_spans t c) = []"
      proof (cases "objs = []")
        case True
        then show thesis using that[of "[]" s2] 2 N by simp
      next
        case False
        obtain new s3 where n: "fetch_loop t c (nat (N - int (length objs))) objs s2 = Inr (new @ objs, s3)"
            "central_inv {(t, c)} (set_out t c (Out t c \<union> set objs \<union> set new) Out) s3" "distinct new" "set new \<inter> (Out t c \<union> set objs) = {}"
            "length new \<le> nat (N - int (length objs))" "sizemap s3 = sizemap s2"
            "length new < nat (N - int (length objs)) \<longrightarrow> span_lists (ph s3) (Nonempty_spans t c) = []"
          using fetch_loop_step[OF 2(2) c(2), of t "nat (N - int (length objs))" objs] by auto
        have u: "Out t c \<union> set objs \<union> set new = Out t c \<union> set (new @ objs)" by auto
        have "distinct (new @ objs)" "set (new @ objs) \<inter> Out t c = {}" "int (length (new @ objs)) \<le> N" using n(3-5) 2(3-5) N by auto
        moreover have "int (length (new @ objs)) < N \<longrightarrow> span_lists (ph s3) (Nonempty_spans t c) = []" using n(7) by auto
        ultimately show thesis using that[of new s3] n(1,2,6) 2(7) False unfolding u by simp
      qed
      have "RemoveRange fuel t c N s = Inr ((int (length (new @ objs)), new @ objs), unlock_central t c s3)"
        unfolding r if_not_P[OF False] 2(1) rbind_Inr prod.case 3(1) by (rule refl)
      moreover have "central_inv {} (set_out t c (Out t c \<union> set (new @ objs)) Out) (unlock_central t c s3)" using inv_unlock[OF 3(2), of t c] by simp
      moreover have "\<not> (N = int (cmove (sizemap s) c) \<and> 0 < used_slots (central s t c))" using False by (simp add: s1_def)
      moreover have "new @ objs = [] \<longrightarrow> dry fuel t c s (unlock_central t c s3)" using 2(6) 3(6) by (auto simp: dry_def)
      moreover have "int (length (new @ objs)) < N \<longrightarrow> span_lists (ph (unlock_central t c s3)) (Nonempty_spans t c) = []" using 3(8) by simp
      moreover have "sizemap (unlock_central t c s3) = sizemap s" using 3(7) by simp
      ultimately show ?thesis using 3(3-5) by blast
    qed
  qed
qed

end
