(* ===== verification/Thread_Cache_Invariant.thy ===== *)
theory Thread_Cache_Invariant
  imports Thread_Cache Central_Fetch
begin

text \<open>
  The invariant of a thread cache: the counters of its free lists are right and within their bounds, its size is
  the number of bytes in its lists, and its objects are held by nobody else. \<open>App t c\<close> is the set of objects of the class that the
  rest of the process holds. The operations on one cache and the central lists keep it.
\<close>

section \<open>Free lists\<close>

definition fl_ok :: "nat \<Rightarrow> size_map \<Rightarrow> nat \<Rightarrow> free_list \<Rightarrow> bool" where
  "fl_ok B m c l \<longleftrightarrow> distinct (fl_list l) \<and> fl_length l = length (fl_list l) \<and> fl_length l \<le> B \<and> fl_lowater l \<le> fl_length l \<and>
     1 \<le> fl_max_length l \<and> fl_max_length l \<le> kMaxDynamicFreeListLength \<and> fl_overages l \<le> kMaxOverages \<and> (c = 0 \<longrightarrow> fl_list l = []) \<and>
     (0 < c \<longrightarrow> fl_max_length l < cmove m c \<or> cmove m c dvd fl_max_length l)"

lemmas fl_consts = kMaxDynamicFreeListLength_def kMaxOverages_def

definition popped :: "nat \<Rightarrow> free_list \<Rightarrow> free_list" where
  "popped n l = l\<lparr>fl_list := drop n (fl_list l), fl_length := fl_length l - n, fl_lowater := min (fl_lowater l) (fl_length l - n)\<rparr>"

lemma shorten_ok:
  assumes "n \<le> fl_length l" and "fl_length l < 2 ^ 32"
  shows "shorten n (l\<lparr>fl_list := xs\<rparr>) = l\<lparr>fl_list := xs, fl_length := fl_length l - n, fl_lowater := min (fl_lowater l) (fl_length l - n)\<rparr>"
proof -
  have "fl_length l + (2 ^ 32 - n mod 2 ^ 32) = (fl_length l - n) + 2 ^ 32" using assms by simp
  then have "(fl_length l + (2 ^ 32 - n mod 2 ^ 32)) mod 2 ^ 32 = fl_length l - n" using assms(2) by (simp only: mod_add_self2) simp
  then show ?thesis by (simp add: shorten_def Let_def min_def)
qed

lemma pop_range_ok:
  assumes "fl_ok B m c l" and "B < 2 ^ 32" and "n \<le> fl_length l"
  shows "fl_PopRange n l = Inr (take n (fl_list l), popped n l)" "fl_ok (B - (fl_length l - fl_length (popped n l))) m c (popped n l)"
proof -
  have "fl_length l < 2 ^ 32" using assms by (simp add: fl_ok_def)
  then show "fl_PopRange n l = Inr (take n (fl_list l), popped n l)"
    using assms(1,3) shorten_ok[OF assms(3)] by (simp add: fl_PopRange_def fl_ok_def popped_def)
  show "fl_ok (B - (fl_length l - fl_length (popped n l))) m c (popped n l)"
    using assms(1,3) by (auto simp: fl_ok_def popped_def)
qed

lemma fl_ok_class: "fl_ok B m c l \<Longrightarrow> 0 < fl_length l \<Longrightarrow> 0 < c"
  by (cases c) (simp_all add: fl_ok_def)

lemma fl_ok_mono: "fl_ok B m c l \<Longrightarrow> B \<le> B' \<Longrightarrow> fl_ok B' m c l"
  by (simp add: fl_ok_def)

section \<open>Batches\<close>

lemma popped_popped: "popped k (popped n l) = popped (n + k) l"
  by (simp add: popped_def add.commute)

lemma release_batches_step:
  assumes "central_inv {} Out s" and "0 < c" "c < 88" and "t = DEFAULT_HEAP_TYPE" and "fl_ok B m c l" and "B < 2 ^ 32" and "m = sizemap s"
    and "set (fl_list l) \<subseteq> Out t c" and "n \<le> fl_length l" and "card (dom (spans (ph s))) < fuel"
  shows "\<exists>s'. release_batches fuel t c (cmove m c) n l s = Inr (popped n l, s') \<and>
    central_inv {} (set_out t c (Out t c - set (take n (fl_list l))) Out) s' \<and> frame s s'"
  using assms
proof (induction n arbitrary: l s Out rule: less_induct)
  case (less n)
  let ?b = "cmove m c"
  have sm: "sizemap_ok m" using less.prems(1,7) by (simp add: central_inv_def)
  have b0: "0 < ?b" by (rule sizemap_pos(3)[OF sm less.prems(2,3)])
  have dl: "distinct (fl_list l)" "length (fl_list l) = fl_length l" using less.prems(5) by (simp_all add: fl_ok_def)
  have ins: "\<exists>s'. InsertRange fuel t c (take k (fl_list l)) (int k) s = Inr s' \<and>
      central_inv {} (set_out t c (Out t c - set (take k (fl_list l))) Out) s' \<and> frame s s'" if k: "k \<le> fl_length l" for k
  proof -
    have "distinct (take k (fl_list l))" "set (take k (fl_list l)) \<subseteq> Out t c" "int (length (take k (fl_list l))) = int k"
      using dl less.prems(8) set_take_subset[of k "fl_list l"] k by auto
    then show ?thesis using insert_step[OF less.prems(1-4) _ _ less.prems(10)] by metis
  qed
  show ?case
  proof (cases "n > ?b")
    case False
    have "\<not> (n > ?b \<and> ?b = 0)" using False by simp
    then show ?thesis
      using ins[OF less.prems(9)] pop_range_ok(1)[OF less.prems(5,6,9)] False by (subst release_batches.simps) auto
  next
    case True
    have bl: "?b \<le> fl_length l" using True less.prems(9) by simp
    obtain s1 where 1: "InsertRange fuel t c (take ?b (fl_list l)) (int ?b) s = Inr s1"
        "central_inv {} (set_out t c (Out t c - set (take ?b (fl_list l))) Out) s1" "frame s s1"
      using ins[OF bl] by blast
    have sub: "set (fl_list (popped ?b l)) \<subseteq> Out t c - set (take ?b (fl_list l))"
      using less.prems(8) dl(1) set_take_disj_set_drop_if_distinct[of "fl_list l" ?b ?b] set_drop_subset[of ?b "fl_list l"] by (auto simp: popped_def)
    have ok1: "fl_ok B m c (popped ?b l)" using pop_range_ok(2)[OF less.prems(5,6) bl] by (rule fl_ok_mono) simp
    have m1: "m = sizemap s1" using less.prems(7) 1(3) by (simp add: frame_def)
    have f1: "card (dom (spans (ph s1))) < fuel" by (rule frame_fuel[OF 1(3) less.prems(1,10)])
    have n1: "n - ?b < n" "n - ?b \<le> fl_length (popped ?b l)" using True b0 less.prems(9) by (simp_all add: popped_def)
    obtain s2 where 2: "release_batches fuel t c ?b (n - ?b) (popped ?b l) s1 = Inr (popped (n - ?b) (popped ?b l), s2)"
        "central_inv {} (set_out t c (Out t c - set (take ?b (fl_list l)) - set (take (n - ?b) (fl_list (popped ?b l)))) Out) s2" "frame s1 s2"
      using less.IH[OF n1(1) 1(2) less.prems(2-4) ok1 less.prems(6) m1 _ n1(2) f1] sub by auto
    have "take n (fl_list l) = take ?b (fl_list l) @ take (n - ?b) (fl_list (popped ?b l))"
      using True take_add[of ?b "n - ?b" "fl_list l"] by (simp add: popped_def)
    then have o: "Out t c - set (take ?b (fl_list l)) - set (take (n - ?b) (fl_list (popped ?b l))) = Out t c - set (take n (fl_list l))" by auto
    have pp: "popped (n - ?b) (popped ?b l) = popped n l" using True by (simp add: popped_popped)
    have "release_batches fuel t c ?b n l s = Inr (popped n l, s2)"
      using True b0 1(1) 2(1) pop_range_ok(1)[OF less.prems(5,6) bl] pp by (subst release_batches.simps) simp
    then show ?thesis using 2(2,3) frame_trans[OF 1(3)] unfolding o by blast
  qed
qed

section \<open>The invariant\<close>

definition cache_bytes :: "size_map \<Rightarrow> tcache \<Rightarrow> nat" where
  "cache_bytes m h = (\<Sum>c < 88. length (fl_list (tc_lists h c)) * csize m c)"

definition cache_ok :: "(nat \<Rightarrow> nat) \<Rightarrow> size_map \<Rightarrow> tcache \<Rightarrow> bool" where
  "cache_ok B m h \<longleftrightarrow> (\<forall>c < 88. fl_ok (B c) m c (tc_lists h c)) \<and> tc_size h = word_of_nat (cache_bytes m h)"

definition shared :: "tcache \<Rightarrow> (int \<Rightarrow> nat \<Rightarrow> ptr set) \<Rightarrow> int \<Rightarrow> nat \<Rightarrow> ptr set" where
  "shared h App t c = (if t = tc_type h \<and> c < 88 then App t c \<union> set (fl_list (tc_lists h c)) else App t c)"

definition cache_inv :: "(nat \<Rightarrow> nat) \<Rightarrow> (int \<Rightarrow> nat \<Rightarrow> ptr set) \<Rightarrow> tcache \<Rightarrow> central_world \<Rightarrow> bool" where
  "cache_inv B App h s \<longleftrightarrow> central_inv {} (shared h App) s \<and> cache_ok B (sizemap s) h \<and>
     (\<forall>c < 88. set (fl_list (tc_lists h c)) \<inter> App (tc_type h) c = {})"

lemma const_upd: "(\<lambda>_. b)(c := b) = (\<lambda>_. b)"
  by auto

lemma cache_bytes_upd:
  assumes "c < 88"
  shows "cache_bytes m (h\<lparr>tc_lists := (tc_lists h)(c := l)\<rparr>) + length (fl_list (tc_lists h c)) * csize m c =
    cache_bytes m h + length (fl_list l) * csize m c"
proof -
  have "cache_bytes m g = length (fl_list (tc_lists g c)) * csize m c + (\<Sum>d \<in> {..<88} - {c}. length (fl_list (tc_lists g d)) * csize m d)" for g
    unfolding cache_bytes_def using assms by (intro sum.remove) auto
  note this[of h] this[of "h\<lparr>tc_lists := (tc_lists h)(c := l)\<rparr>"]
  moreover have "(\<Sum>d \<in> {..<88} - {c}. length (fl_list (tc_lists (h\<lparr>tc_lists := (tc_lists h)(c := l)\<rparr>) d)) * csize m d) =
      (\<Sum>d \<in> {..<88} - {c}. length (fl_list (tc_lists h d)) * csize m d)"
    by (rule sum.cong) auto
  ultimately show ?thesis by simp
qed

text \<open>One list of the cache changes, and the objects that the others hold.\<close>

lemma cache_inv_change:
  assumes inv: "cache_inv B App h s" and c: "c < 88" and ok: "fl_ok b (sizemap s) c l" and s': "sizemap s' = sizemap s"
    and cen: "central_inv {} (set_out (tc_type h) c (A \<union> set (fl_list l)) (shared h App)) s'" and dj: "A \<inter> set (fl_list l) = {}"
    and sz: "sz + word_of_nat (length (fl_list (tc_lists h c)) * csize (sizemap s) c) = tc_size h + word_of_nat (length (fl_list l) * csize (sizemap s) c)"
  shows "cache_inv (B(c := b)) (set_out (tc_type h) c A App) (h\<lparr>tc_lists := (tc_lists h)(c := l), tc_size := sz\<rparr>) s'"
proof -
  let ?m = "sizemap s" and ?h = "h\<lparr>tc_lists := (tc_lists h)(c := l), tc_size := sz\<rparr>"
  have "shared ?h (set_out (tc_type h) c A App) = set_out (tc_type h) c (A \<union> set (fl_list l)) (shared h App)"
    using c by (auto simp: shared_def set_out_def fun_eq_iff)
  then have 1: "central_inv {} (shared ?h (set_out (tc_type h) c A App)) s'" using cen by simp
  have e: "cache_bytes ?m ?h = cache_bytes ?m (h\<lparr>tc_lists := (tc_lists h)(c := l)\<rparr>)" by (simp add: cache_bytes_def)
  have "tc_size h = word_of_nat (cache_bytes ?m h)" using inv by (simp add: cache_inv_def cache_ok_def)
  then have "sz + word_of_nat (length (fl_list (tc_lists h c)) * csize ?m c) =
      word_of_nat (cache_bytes ?m ?h) + word_of_nat (length (fl_list (tc_lists h c)) * csize ?m c)"
    unfolding e sz of_nat_add[symmetric] cache_bytes_upd[OF c] by simp
  then have "sz = word_of_nat (cache_bytes ?m ?h)" by (simp only: add_right_cancel)
  then have 2: "cache_ok (B(c := b)) (sizemap s') ?h" using inv ok s' by (auto simp: cache_inv_def cache_ok_def)
  have 3: "\<forall>d < 88. set (fl_list (tc_lists ?h d)) \<inter> set_out (tc_type h) c A App (tc_type h) d = {}"
    using inv dj by (auto simp: cache_inv_def set_out_def)
  show ?thesis using 1 2 3 by (simp add: cache_inv_def)
qed

text \<open>Only the limits of a list change.\<close>

lemma cache_inv_limits:
  assumes inv: "cache_inv B App h s" and c: "c < 88" and ok: "fl_ok (B c) (sizemap s) c l" and l: "fl_list l = fl_list (tc_lists h c)"
  shows "cache_inv B App (upd_list c (\<lambda>_. l) h) s"
proof -
  have "central_inv {} (set_out (tc_type h) c (App (tc_type h) c \<union> set (fl_list l)) (shared h App)) s"
  proof -
    have "set_out (tc_type h) c (App (tc_type h) c \<union> set (fl_list l)) (shared h App) = shared h App"
      using c l by (auto simp: shared_def set_out_def fun_eq_iff)
    then show ?thesis using inv by (simp add: cache_inv_def)
  qed
  moreover have "App (tc_type h) c \<inter> set (fl_list l) = {}" using inv c l by (auto simp: cache_inv_def)
  ultimately have "cache_inv (B(c := B c)) (set_out (tc_type h) c (App (tc_type h) c) App) (h\<lparr>tc_lists := (tc_lists h)(c := l), tc_size := tc_size h\<rparr>) s"
    using l by (intro cache_inv_change[OF inv c ok]) simp_all
  then show ?thesis by (simp add: upd_list_def)
qed

end
