(* ===== verification/Thread_Cache_Correct.thy ===== *)
theory Thread_Cache_Correct
  imports Thread_Cache_Invariant
begin

text \<open>
  The methods of a thread cache keep its invariant. What gives objects back to the central lists is proved for the
  default heap type, as \<open>InsertRange\<close> is; \<open>Allocate\<close> for both.
\<close>

section \<open>Releasing objects\<close>

lemma inv_sizemap: "central_inv L Out s \<Longrightarrow> sizemap_ok (sizemap s)"
  by (simp add: central_inv_def)

lemma cache_inv_list: "cache_inv B App h s \<Longrightarrow> c < 88 \<Longrightarrow> fl_ok (B c) (sizemap s) c (tc_lists h c)"
  by (simp add: cache_inv_def cache_ok_def)

lemma cache_inv_mono: "cache_inv B App h s \<Longrightarrow> (\<And>c. c < 88 \<Longrightarrow> B c \<le> B' c) \<Longrightarrow> cache_inv B' App h s"
  unfolding cache_inv_def cache_ok_def using fl_ok_mono by blast

definition release_n :: "nat \<Rightarrow> nat \<Rightarrow> size_map \<Rightarrow> tcache \<Rightarrow> tcache" where
  "release_n c n m h = h\<lparr>tc_lists := (tc_lists h)(c := popped n (tc_lists h c)), tc_size := tc_size h - word_of_nat n * word_of_nat (csize m c)\<rparr>"

lemma release_to_central_step:
  assumes inv: "cache_inv B App h s" and B: "B c < 2 ^ 32" and c: "0 < c" "c < 88" and t: "tc_type h = DEFAULT_HEAP_TYPE"
    and fuel: "card (dom (spans (ph s))) < fuel" and k_def: "k = min n (fl_length (tc_lists h c))"
  shows "\<exists>s'. ReleaseToCentralCache fuel c n h s = Inr ((), release_n c k (sizemap s) h, s') \<and>
    cache_inv (B(c := B c - k)) App (release_n c k (sizemap s) h) s' \<and> frame s s'"
proof -
  let ?m = "sizemap s" and ?l = "tc_lists h c" and ?t = "tc_type h"
  have cen: "central_inv {} (shared h App) s" using inv by (simp add: cache_inv_def)
  have sm: "sizemap_ok ?m" by (rule inv_sizemap[OF cen])
  have ok: "fl_ok (B c) ?m c ?l" by (rule cache_inv_list[OF inv c(2)])
  have sub: "set (fl_list ?l) \<subseteq> shared h App ?t c" using c(2) by (auto simp: shared_def)
  have k: "k \<le> fl_length ?l" by (simp add: k_def)
  have n: "(if n > fl_length ?l then fl_length ?l else n) = k" by (simp add: k_def min_def)
  obtain s' where s': "release_batches fuel ?t c (cmove ?m c) k ?l s = Inr (popped k ?l, s')"
      "central_inv {} (set_out ?t c (shared h App ?t c - set (take k (fl_list ?l))) (shared h App)) s'" "frame s s'"
    using release_batches_step[OF cen c t ok B refl sub k fuel] by blast
  have "ReleaseToCentralCache fuel c n h s = Inr ((), (upd_list c (\<lambda>_. popped k ?l) h)\<lparr>tc_size := tc_size h - word_of_nat k * word_of_int (int (csize ?m c))\<rparr>, s')"
    unfolding ReleaseToCentralCache_def Let_def n sizemap_rd(1,3)[OF sm c] rbind_Inr nat_int s'(1) prod.case by (rule refl)
  then have r: "ReleaseToCentralCache fuel c n h s = Inr ((), release_n c k ?m h, s')" by (simp add: release_n_def upd_list_def)
  have dl: "distinct (fl_list ?l)" "length (fl_list ?l) = fl_length ?l" using ok by (simp_all add: fl_ok_def)
  have dj: "App ?t c \<inter> set (fl_list ?l) = {}" using inv c(2) by (auto simp: cache_inv_def)
  have td: "set (take k (fl_list ?l)) \<inter> set (drop k (fl_list ?l)) = {}" by (rule set_take_disj_set_drop_if_distinct[OF dl(1)]) simp
  have tk: "set (fl_list ?l) = set (take k (fl_list ?l)) \<union> set (drop k (fl_list ?l))" by (metis append_take_drop_id set_append)
  have "shared h App ?t c - set (take k (fl_list ?l)) = App ?t c \<union> set (fl_list (popped k ?l))"
    using c(2) dj td tk by (auto simp: shared_def popped_def)
  then have cen': "central_inv {} (set_out ?t c (App ?t c \<union> set (fl_list (popped k ?l))) (shared h App)) s'" using s'(2) by simp
  have ok': "fl_ok (B c - k) ?m c (popped k ?l)" using pop_range_ok(2)[OF ok B k] k by (simp add: popped_def)
  have "cache_inv (B(c := B c - k)) (set_out ?t c (App ?t c) App) (release_n c k ?m h) s'"
    unfolding release_n_def
  proof (rule cache_inv_change[OF inv c(2) ok' _ cen'])
    show "sizemap s' = ?m" using s'(3) by (simp add: frame_def)
    show "App ?t c \<inter> set (fl_list (popped k ?l)) = {}" using dj tk by (auto simp: popped_def)
    have "length (fl_list ?l) = k + length (fl_list (popped k ?l))" using dl k by (simp add: popped_def)
    then show "tc_size h - word_of_nat k * word_of_nat (csize ?m c) + word_of_nat (length (fl_list ?l) * csize ?m c) =
        tc_size h + word_of_nat (length (fl_list (popped k ?l)) * csize ?m c)" by (simp add: algebra_simps)
  qed
  then show ?thesis using r s'(3) by auto
qed

lemma list_too_long_step:
  assumes inv: "cache_inv B App h s" and B: "B c < 2 ^ 32" and c: "0 < c" "c < 88" and t: "tc_type h = DEFAULT_HEAP_TYPE"
    and fuel: "card (dom (spans (ph s))) < fuel" and ne: "0 < fl_length (tc_lists h c)"
  shows "\<exists>h' s'. ListTooLong fuel c h s = Inr ((), h', s') \<and> cache_inv (B(c := B c - 1)) App h' s' \<and> frame s s' \<and>
    tc_type h' = tc_type h \<and> tc_max_size h' = tc_max_size h"
proof -
  let ?m = "sizemap s" and ?b = "cmove (sizemap s) c"
  define k where "k = min ?b (fl_length (tc_lists h c))"
  have cen: "central_inv {} (shared h App) s" using inv by (simp add: cache_inv_def)
  have sm: "sizemap_ok ?m" by (rule inv_sizemap[OF cen])
  have b: "0 < ?b" "?b \<le> 8192" using sizemap_pos(3,4)[OF sm c] by simp_all
  let ?h = "release_n c k ?m h"
  obtain s' where 1: "ReleaseToCentralCache fuel c ?b h s = Inr ((), ?h, s')" "cache_inv (B(c := B c - k)) App ?h s'" "frame s s'"
    using release_to_central_step[OF inv B c t fuel k_def] by blast
  have m': "sizemap s' = ?m" using 1(3) by (simp add: frame_def)
  have k1: "1 \<le> k" using b(1) ne by (simp add: k_def)
  have inv': "cache_inv (B(c := B c - 1)) App ?h s'" by (rule cache_inv_mono[OF 1(2)]) (use k1 in auto)
  let ?l = "tc_lists ?h c"
  have ok: "fl_ok (B c - 1) ?m c ?l" using cache_inv_list[OF inv' c(2)] m' by simp
  define l' where "l' = (if fl_max_length ?l < ?b then set_max_length (fl_max_length ?l + 1) ?l
                     else if fl_max_length ?l > ?b
                     then
                       let l = set_length_overages (fl_overages ?l + 1) ?l
                       in if fl_overages l > kMaxOverages
                          then set_length_overages 0 (set_max_length (fl_max_length l - ?b) l)
                          else l
                     else ?l)"
  have r: "ListTooLong fuel c h s = Inr ((), upd_list c (\<lambda>_. l') ?h, s')"
    unfolding ListTooLong_def sizemap_rd(3)[OF sm c] rbind_Inr Let_def nat_int 1(1) prod.case l'_def by (rule refl)
  have "fl_list l' = fl_list ?l" by (simp add: l'_def set_max_length_def set_length_overages_def Let_def)
  moreover have "fl_ok (B c - 1) ?m c l'"
  proof -
    have mx: "1 \<le> fl_max_length ?l" "fl_max_length ?l \<le> 8192" "fl_overages ?l \<le> 3" "fl_max_length ?l < ?b \<or> ?b dvd fl_max_length ?l"
      using ok c(1) by (simp_all add: fl_ok_def fl_consts)
    consider "fl_max_length ?l < ?b" | "fl_max_length ?l = ?b" | "fl_max_length ?l > ?b" by linarith
    then show ?thesis
    proof cases
      case 1
      then have "fl_max_length ?l + 1 < ?b \<or> fl_max_length ?l + 1 = ?b" by linarith
      then show ?thesis using 1 ok b mx unfolding l'_def if_P[OF 1] by (auto simp: fl_ok_def set_max_length_def fl_consts)
    next
      case 2
      then show ?thesis using ok by (simp add: l'_def)
    next
      case 3
      then have n: "\<not> fl_max_length ?l < ?b" by simp
      have d: "?b dvd fl_max_length ?l - ?b" "1 \<le> fl_max_length ?l - ?b" using mx(4) n 3 by auto
      show ?thesis
        unfolding l'_def if_not_P[OF n] if_P[OF 3] using ok d mx by (auto simp: fl_ok_def set_max_length_def set_length_overages_def fl_consts Let_def)
    qed
  qed
  ultimately have "cache_inv (B(c := B c - 1)) App (upd_list c (\<lambda>_. l') ?h) s'"
    using m' by (intro cache_inv_limits[OF inv' c(2)]) simp_all
  then show ?thesis using r 1(3) by (auto simp: upd_list_def release_n_def)
qed

section \<open>Scavenging and cleaning up\<close>

text \<open>\<open>cache_keeps\<close>: what the steps below say of the cache and the central lists.\<close>

definition cache_keeps :: "(nat \<Rightarrow> nat) \<Rightarrow> (int \<Rightarrow> nat \<Rightarrow> ptr set) \<Rightarrow> tcache \<Rightarrow> central_world \<Rightarrow> tcache \<Rightarrow> central_world \<Rightarrow> bool" where
  "cache_keeps B App h s h' s' \<longleftrightarrow> cache_inv B App h' s' \<and> frame s s' \<and> tc_type h' = tc_type h \<and> tc_max_size h' = tc_max_size h \<and>
     tc_tid h' = tc_tid h \<and> tc_in_setspecific h' = tc_in_setspecific h"

lemma cache_keeps_trans: "cache_keeps B App h s h1 s1 \<Longrightarrow> cache_keeps B App h1 s1 h2 s2 \<Longrightarrow> cache_keeps B App h s h2 s2"
  unfolding cache_keeps_def using frame_trans[of s s1 s2] by simp

lemma cache_keeps_refl: "cache_inv B App h s \<Longrightarrow> cache_keeps B App h s h s"
  by (simp add: cache_keeps_def)

lemma cache_keeps_fuel: "cache_keeps B App h s h' s' \<Longrightarrow> cache_inv B' App' h s \<Longrightarrow> card (dom (spans (ph s))) < n \<Longrightarrow> card (dom (spans (ph s'))) < n"
  unfolding cache_keeps_def cache_inv_def using frame_fuel by blast

lemma scavenge_class_step:
  assumes inv: "cache_inv B App h s" and B: "B c < 2 ^ 32" and c: "c < 88" and t: "tc_type h = DEFAULT_HEAP_TYPE"
    and fuel: "card (dom (spans (ph s))) < fuel"
  shows "\<exists>h' s'. scavenge_class fuel c h s = Inr ((), h', s') \<and> cache_keeps B App h s h' s'"
proof -
  let ?low = "fl_lowater (tc_lists h c)"
  have ok: "fl_ok (B c) (sizemap s) c (tc_lists h c)" by (rule cache_inv_list[OF inv c])
  have clear: "cache_inv B App (upd_list c clear_lowwatermark g) s1" if "cache_inv B App g s1" for g s1
  proof -
    have "fl_ok (B c) (sizemap s1) c (clear_lowwatermark (tc_lists g c))"
      using cache_inv_list[OF that c] by (auto simp: fl_ok_def clear_lowwatermark_def)
    then have "cache_inv B App (upd_list c (\<lambda>_. clear_lowwatermark (tc_lists g c)) g) s1"
      by (intro cache_inv_limits[OF that c]) (simp_all add: clear_lowwatermark_def)
    then show ?thesis by (simp add: upd_list_def)
  qed
  show ?thesis
  proof (cases "?low > 0")
    case False
    then have "scavenge_class fuel c h s = Inr ((), upd_list c clear_lowwatermark h, s)" by (simp add: scavenge_class_def)
    then show ?thesis using clear[OF inv] by (auto simp: cache_keeps_def upd_list_def)
  next
    case True
    have "fl_lowater (tc_lists h c) \<le> fl_length (tc_lists h c)" using ok by (simp add: fl_ok_def)
    then have c0: "0 < c" using fl_ok_class[OF ok] True by linarith
    let ?m = "sizemap s" and ?n = "if ?low > 1 then ?low div 2 else 1"
    have sm: "sizemap_ok ?m" using inv by (simp add: cache_inv_def central_inv_def)
    define k where "k = min ?n (fl_length (tc_lists h c))"
    let ?h = "release_n c k ?m h"
    obtain s1 where 1: "ReleaseToCentralCache fuel c ?n h s = Inr ((), ?h, s1)" "cache_inv (B(c := B c - k)) App ?h s1" "frame s s1"
      using release_to_central_step[OF inv B c0 c t fuel k_def] by blast
    have m1: "sizemap s1 = ?m" using 1(3) by (simp add: frame_def)
    have inv1: "cache_inv B App ?h s1" by (rule cache_inv_mono[OF 1(2)]) simp
    let ?l = "tc_lists ?h c" and ?b = "cmove (sizemap s) c"
    have ok1: "fl_ok (B c) ?m c ?l" using cache_inv_list[OF inv1 c] m1 by simp
    define h2 where "h2 = (if fl_max_length ?l > ?b then upd_list c (set_max_length (max (fl_max_length ?l - ?b) ?b)) ?h else ?h)"
    have "cache_inv B App h2 s1"
    proof (cases "fl_max_length ?l > ?b")
      case True
      let ?l2 = "set_max_length (max (fl_max_length ?l - ?b) ?b) ?l"
      have b: "0 < ?b" "?b \<le> 8192" using sizemap_pos(3,4)[OF sm c0 c] by simp_all
      have mx: "?b dvd fl_max_length ?l" "fl_max_length ?l \<le> 8192" using ok1 c0 True by (auto simp: fl_ok_def fl_consts)
      then have "?b dvd max (fl_max_length ?l - ?b) ?b" by (simp add: max_def)
      then have "fl_ok (B c) ?m c ?l2" using ok1 mx b True by (auto simp: fl_ok_def set_max_length_def fl_consts)
      then have "cache_inv B App (upd_list c (\<lambda>_. ?l2) ?h) s1" using m1 by (intro cache_inv_limits[OF inv1 c]) (simp_all add: set_max_length_def)
      then show ?thesis using True by (simp add: h2_def upd_list_def)
    qed (use inv1 in \<open>simp add: h2_def\<close>)
    note inv2 = clear[OF this]
    have "scavenge_class fuel c h s = Inr ((), upd_list c clear_lowwatermark h2, s1)"
      unfolding scavenge_class_def Let_def if_P[OF True] 1(1) rbind_Inr prod.case m1 sizemap_rd(3)[OF sm c0 c] nat_int h2_def by (rule refl)
    moreover have "tc_type h2 = tc_type h" "tc_max_size h2 = tc_max_size h" "tc_tid h2 = tc_tid h" "tc_in_setspecific h2 = tc_in_setspecific h"
      by (simp_all add: h2_def release_n_def upd_list_def)
    ultimately show ?thesis using inv2 1(3) by (auto simp: cache_keeps_def upd_list_def)
  qed
qed

lemma scavenge_classes_step:
  assumes "cache_inv B App h s" and "\<And>c. c < 88 \<Longrightarrow> B c < 2 ^ 32" and "set cls \<subseteq> {..<88}" and "tc_type h = DEFAULT_HEAP_TYPE"
    and "card (dom (spans (ph s))) < fuel"
  shows "\<exists>h' s'. scavenge_classes fuel cls h s = Inr ((), h', s') \<and> cache_keeps B App h s h' s'"
  using assms(1,3-5)
proof (induction cls arbitrary: h s)
  case Nil
  then show ?case using cache_keeps_refl by auto
next
  case (Cons c cls)
  have c: "c < 88" using Cons.prems(2) by simp
  obtain h1 s1 where 1: "scavenge_class fuel c h s = Inr ((), h1, s1)" "cache_keeps B App h s h1 s1"
    using scavenge_class_step[OF Cons.prems(1) assms(2)[OF c] c Cons.prems(3,4)] by blast
  have f1: "card (dom (spans (ph s1))) < fuel" by (rule cache_keeps_fuel[OF 1(2) Cons.prems(1,4)])
  obtain h2 s2 where 2: "scavenge_classes fuel cls h1 s1 = Inr ((), h2, s2)" "cache_keeps B App h1 s1 h2 s2"
    using Cons.IH[of h1 s1] 1(2) f1 Cons.prems by (auto simp: cache_keeps_def)
  show ?case using 1(1) 2(1) cache_keeps_trans[OF 1(2) 2(2)] by simp
qed

lemma cleanup_classes_step:
  assumes "cache_inv B App h s" and "\<And>c. c < 88 \<Longrightarrow> B c < 2 ^ 32" and "set cls \<subseteq> {..<88}" and "tc_type h = DEFAULT_HEAP_TYPE"
    and "card (dom (spans (ph s))) < fuel"
  shows "\<exists>h' s'. cleanup_classes fuel cls h s = Inr ((), h', s') \<and> cache_keeps B App h s h' s' \<and>
    (\<forall>c < 88. c \<in> set cls \<or> fl_list (tc_lists h c) = [] \<longrightarrow> fl_list (tc_lists h' c) = [])"
  using assms(1,3-5)
proof (induction cls arbitrary: h s)
  case Nil
  then show ?case using cache_keeps_refl by auto
next
  case (Cons c cls)
  have c: "c < 88" using Cons.prems(2) by simp
  let ?m = "sizemap s" and ?n = "fl_length (tc_lists h c)"
  have ok: "fl_ok (B c) ?m c (tc_lists h c)" by (rule cache_inv_list[OF Cons.prems(1) c])
  obtain h1 s1 where 1: "(if ?n > 0 then ReleaseToCentralCache fuel c ?n h s else Inr ((), h, s)) = Inr ((), h1, s1)" "cache_keeps B App h s h1 s1"
      "fl_list (tc_lists h1 c) = []" "\<And>d. d \<noteq> c \<Longrightarrow> tc_lists h1 d = tc_lists h d"
  proof (cases "?n > 0")
    case False
    then show thesis using that[of h s] cache_keeps_refl[OF Cons.prems(1)] ok by (auto simp: fl_ok_def)
  next
    case True
    then have c0: "0 < c" by (rule fl_ok_class[OF ok])
    have k: "?n = min ?n ?n" by simp
    obtain s1 where 1: "ReleaseToCentralCache fuel c ?n h s = Inr ((), release_n c ?n ?m h, s1)"
        "cache_inv (B(c := B c - ?n)) App (release_n c ?n ?m h) s1" "frame s s1"
      using release_to_central_step[OF Cons.prems(1) assms(2)[OF c] c0 c Cons.prems(3,4) k] by blast
    have "cache_inv B App (release_n c ?n ?m h) s1" by (rule cache_inv_mono[OF 1(2)]) simp
    then show thesis using that[of "release_n c ?n ?m h" s1] 1(1,3) True ok by (auto simp: cache_keeps_def release_n_def popped_def fl_ok_def)
  qed
  have f1: "card (dom (spans (ph s1))) < fuel" by (rule cache_keeps_fuel[OF 1(2) Cons.prems(1,4)])
  have p1: "cache_inv B App h1 s1" "set cls \<subseteq> {..<88}" "tc_type h1 = DEFAULT_HEAP_TYPE" using 1(2) Cons.prems by (simp_all add: cache_keeps_def)
  obtain h2 s2 where 2: "cleanup_classes fuel cls h1 s1 = Inr ((), h2, s2)" "cache_keeps B App h1 s1 h2 s2"
      "\<forall>d < 88. d \<in> set cls \<or> fl_list (tc_lists h1 d) = [] \<longrightarrow> fl_list (tc_lists h2 d) = []"
    using Cons.IH[OF p1 f1] by blast
  have "fl_list (tc_lists h2 d) = []" if "d < 88" "d \<in> set (c # cls) \<or> fl_list (tc_lists h d) = []" for d
    using 2(3) 1(3,4) that by (cases "d = c") auto
  then show ?case using 1(1) 2(1) cache_keeps_trans[OF 1(2) 2(2)] by auto
qed

section \<open>Allocation\<close>

text \<open>\<open>starved\<close>: the cache has no object of the class, the central list had no chain for it in a transfer slot, and is \<open>dry\<close>.
  \<open>handed\<close>: the cache handed out the object \<open>a\<close>, which nobody held, the first of its list when there is one; or null because it
  was starved.\<close>

definition starved :: "nat \<Rightarrow> nat \<Rightarrow> tcache \<Rightarrow> central_world \<Rightarrow> central_world \<Rightarrow> bool" where
  "starved fuel c h s s' \<longleftrightarrow> fl_list (tc_lists h c) = [] \<and> dry fuel (tc_type h) c s s' \<and>
     \<not> (cmove (sizemap s) c \<le> fl_max_length (tc_lists h c) \<and> 0 < used_slots (central s (tc_type h) c))"

definition handed :: "nat \<Rightarrow> (int \<Rightarrow> nat \<Rightarrow> ptr set) \<Rightarrow> nat \<Rightarrow> tcache \<Rightarrow> central_world \<Rightarrow> ptr \<Rightarrow> tcache \<Rightarrow> central_world \<Rightarrow> bool" where
  "handed fuel App c h s a h' s' \<longleftrightarrow> sizemap s' = sizemap s \<and> tc_type h' = tc_type h \<and> tc_max_size h' = tc_max_size h \<and>
     (fl_list (tc_lists h c) \<noteq> [] \<longrightarrow> a = hd (fl_list (tc_lists h c)) \<and> a \<noteq> NULL \<and> s' = s) \<and>
     (if a = NULL then cache_inv (\<lambda>_. 8192) App h' s' \<and> starved fuel c h s s'
      else a \<notin> App (tc_type h) c \<and> cache_inv (\<lambda>_. 8192) (set_out (tc_type h) c (insert a (App (tc_type h) c)) App) h' s')"

text \<open>Objects are not null.\<close>

lemma out_not_null:
  assumes inv: "central_inv L Out s" and c: "c < 88" and a: "a \<in> Out t c"
  shows "a \<noteq> NULL"
proof -
  have "a \<in> out_objs (sizemap s) (ph s) t c" using inv_out(1)[OF inv c] a by simp
  then obtain p x where x: "spans (ph s) p = Some x" "a \<in> set (objs_of (csize (sizemap s) c) x)" "0 < csize (sizemap s) c"
    by (rule object_span[OF inv]) blast
  have "unat a div 8192 \<in> rng x" by (rule objs_of_page[OF x(3) class_bound[OF inv_ph[OF inv] x(1)] x(2)])
  moreover have "0 < sp_start x" using inv_ph[OF inv] x(1) by (simp add: ph_ok_def layout_def span_ok_def)
  ultimately have "0 < unat a div 8192" by (simp add: rng_def)
  then show ?thesis by auto
qed

lemma pop_step:
  assumes inv: "cache_inv (\<lambda>_. 8192) App h s" and c: "c < 88" and ne: "fl_list (tc_lists h c) \<noteq> []"
    and sz: "sz = word_of_nat (csize (sizemap s) c)"
  shows "\<exists>a h'. Allocate fuel sz c h s = Inr (a, h', s) \<and> handed fuel App c h s a h' s"
proof -
  let ?l = "tc_lists h c" and ?t = "tc_type h"
  have ok: "fl_ok 8192 (sizemap s) c ?l" using cache_inv_list[OF inv c] by simp
  obtain a as where l: "fl_list ?l = a # as" using ne by (cases "fl_list ?l") auto
  have n: "1 \<le> fl_length ?l" using ok l by (simp add: fl_ok_def)
  have "fl_length ?l < 2 ^ 32" using ok by (simp add: fl_ok_def)
  then have p: "fl_Pop ?l = Inr (a, popped 1 ?l)" using shorten_ok[OF n] l by (simp add: fl_Pop_def popped_def)
  define h' where "h' = h\<lparr>tc_lists := (tc_lists h)(c := popped 1 ?l), tc_size := tc_size h - sz\<rparr>"
  have r: "Allocate fuel sz c h s = Inr (a, h', s)" using c ne p by (simp add: Allocate_def kNumClasses_def h'_def upd_list_def)
  have dj: "set (fl_list ?l) \<inter> App ?t c = {}" using inv c by (simp add: cache_inv_def)
  have d: "distinct (fl_list ?l)" using ok by (simp add: fl_ok_def)
  have ok': "fl_ok 8192 (sizemap s) c (popped 1 ?l)" by (rule fl_ok_mono[OF pop_range_ok(2)[OF ok _ n]]) simp_all
  have e: "set_out ?t c (insert a (App ?t c) \<union> set (fl_list (popped 1 ?l))) (shared h App) = shared h App"
    using c l by (auto simp: shared_def set_out_def popped_def fun_eq_iff)
  have "cache_inv ((\<lambda>_. 8192)(c := 8192)) (set_out ?t c (insert a (App ?t c)) App) h' s"
    unfolding h'_def
  proof (rule cache_inv_change[OF inv c ok' refl])
    show "central_inv {} (set_out ?t c (insert a (App ?t c) \<union> set (fl_list (popped 1 ?l))) (shared h App)) s"
      unfolding e using inv by (simp add: cache_inv_def)
    show "insert a (App ?t c) \<inter> set (fl_list (popped 1 ?l)) = {}" using dj d l by (auto simp: popped_def)
    show "tc_size h - sz + word_of_nat (length (fl_list ?l) * csize (sizemap s) c) =
        tc_size h + word_of_nat (length (fl_list (popped 1 ?l)) * csize (sizemap s) c)"
      using l sz by (simp add: popped_def algebra_simps)
  qed
  moreover have "a \<noteq> NULL" using inv c l by (intro out_not_null[of "{}" "shared h App" s c a ?t]) (auto simp: cache_inv_def shared_def)
  ultimately show ?thesis using r dj l unfolding const_upd by (auto simp: handed_def h'_def)
qed

lemma grow_max_length:
  assumes "1 \<le> (mx::nat)" "mx \<le> 8192" "0 < b" "b \<le> 8192" "mx < b \<or> b dvd mx"
  defines "x \<equiv> (if mx < b then mx + 1 else min (mx + b) 8192 - min (mx + b) 8192 mod b)"
  shows "1 \<le> x" "x \<le> 8192" "x < b \<or> b dvd x"
proof -
  let ?y = "min (mx + b) 8192"
  have y: "?y - ?y mod b = b * (?y div b)" by (simp add: minus_mod_eq_mult_div)
  have "0 < ?y div b" using assms(3,4) by (simp add: div_greater_zero_iff)
  then have "1 \<le> b * (?y div b)" using assms(3) by simp
  then show "1 \<le> x" using assms(1) y by (simp add: x_def)
  show "x \<le> 8192" using assms(2,4) by (auto simp: x_def)
  have "mx + 1 < b \<or> mx + 1 = b" if "mx < b" using that by linarith
  then show "x < b \<or> b dvd x" unfolding x_def y by auto
qed

lemma fetch_central_step:
  assumes inv: "cache_inv (\<lambda>_. 8192) App h s" and c: "0 < c" "c < 88" and e: "fl_list (tc_lists h c) = []"
    and sz: "sz = word_of_nat (csize (sizemap s) c)"
    and lim: "heap_limit_mb (ph s) = 0" and con: "sys_contract (ph s)" and fuel: "card (dom (spans (ph s))) + 1 < fuel"
  shows "FetchFromCentralCache fuel c sz h s = Inl AssertFail \<and> \<not> span_room 2 (ph s) \<or>
    (\<exists>a h' s'. FetchFromCentralCache fuel c sz h s = Inr (a, h', s') \<and> handed fuel App c h s a h' s')"
proof -
  let ?m = "sizemap s" and ?l = "tc_lists h c" and ?t = "tc_type h" and ?b = "cmove (sizemap s) c"
  have cen: "central_inv {} (shared h App) s" using inv by (simp add: cache_inv_def)
  have sm: "sizemap_ok ?m" by (rule inv_sizemap[OF cen])
  have b: "0 < ?b" "?b \<le> 8192" using sizemap_pos(3,4)[OF sm c] by simp_all
  have ok: "fl_ok 8192 ?m c ?l" using cache_inv_list[OF inv c(2)] by simp
  have l: "fl_length ?l = 0" "fl_lowater ?l = 0" "1 \<le> fl_max_length ?l" "fl_max_length ?l \<le> 8192" "fl_max_length ?l < ?b \<or> ?b dvd fl_max_length ?l"
    using ok e c(1) by (auto simp: fl_ok_def fl_consts)
  define N where "N = min (fl_max_length ?l) ?b"
  have N: "1 \<le> int N" "N \<le> 8192" using l b by (simp_all add: N_def)
  define M where "M = (if fl_max_length ?l < ?b then fl_max_length ?l + 1 else min (fl_max_length ?l + ?b) 8192 - min (fl_max_length ?l + ?b) 8192 mod ?b)"
  have M: "1 \<le> M" "M \<le> 8192" "M < ?b \<or> ?b dvd M" using grow_max_length[OF l(3,4) b l(5)] by (simp_all only: M_def)
  from remove_step[OF cen c N(1) lim con fuel, of ?t] consider "RemoveRange fuel ?t c (int N) s = Inl AssertFail" "\<not> span_room 2 (ph s)"
    | objs s' where "RemoveRange fuel ?t c (int N) s = Inr ((int (length objs), objs), s')"
        "central_inv {} (set_out ?t c (shared h App ?t c \<union> set objs) (shared h App)) s'" "sizemap s' = ?m" "distinct objs"
        "set objs \<inter> shared h App ?t c = {}" "int (length objs) \<le> int N" "objs = [] \<longrightarrow> dry fuel ?t c s s' \<and> \<not> (int N = int ?b \<and> 0 < used_slots (central s ?t c))" by blast
  then show ?thesis
  proof cases
    case 1
    have "FetchFromCentralCache fuel c sz h s = Inl AssertFail"
      using 1(1)
      unfolding FetchFromCentralCache_def sizemap_rd(3)[OF sm c] rbind_Inr Let_def nat_int N_def[symmetric] by simp
    then show ?thesis using 1(2) by blast
  next
    case (2 objs s')
    define l' where "l' = ?l\<lparr>fl_list := tl objs, fl_length := length (tl objs), fl_max_length := M\<rparr>"
    define h' where "h' = h\<lparr>tc_lists := (tc_lists h)(c := l'), tc_size := tc_size h + word_of_nat (length (tl objs) * csize ?m c)\<rparr>"
    have len: "length objs \<le> 8192" using 2(6) N(2) by simp
    have sh: "shared h App ?t c = App ?t c" using e c(2) by (simp add: shared_def)
    have r: "FetchFromCentralCache fuel c sz h s = Inr (if objs = [] then NULL else hd objs, h', s')"
    proof (cases "objs = []")
      case True
      then have "l' = set_max_length M ?l" using e l(1) M(2) by (simp add: l'_def set_max_length_def)
      then have h': "h' = upd_list c (set_max_length M) h" using True by (simp add: h'_def upd_list_def)
      show ?thesis
        unfolding FetchFromCentralCache_def sizemap_rd(3)[OF sm c] rbind_Inr Let_def nat_int N_def[symmetric] 2(1) prod.case h'
        using True b by (simp add: M_def kMaxDynamicFreeListLength_def)
    next
      case False
      then have nn: "int (length objs) - 1 \<ge> 0" "nat (int (length objs) - 1) = length (tl objs)" "int (length objs) - 1 = int (length (tl objs))"
        by (cases objs; simp)+
      have w: "(word_of_int (int (length objs) - 1) :: uint64) = word_of_nat (length (tl objs))" unfolding nn(3) by simp
      let ?h1 = "(upd_list c (fl_PushRange (length (tl objs)) (tl objs)) h)\<lparr>tc_size := tc_size h + sz * word_of_nat (length (tl objs))\<rparr>"
      have mx: "fl_max_length (tc_lists ?h1 c) = fl_max_length ?l" by (simp add: upd_list_def fl_PushRange_def)
      have h': "h' = upd_list c (set_max_length M) ?h1"
        using e l(1) M(2) len sz by (simp add: h'_def l'_def upd_list_def set_max_length_def fl_PushRange_def mult.commute)
      show ?thesis
        unfolding FetchFromCentralCache_def sizemap_rd(3)[OF sm c] rbind_Inr Let_def nat_int N_def[symmetric] 2(1) prod.case if_P[OF nn(1)] nn(2) w mx h'
        using False b by (simp add: M_def kMaxDynamicFreeListLength_def)
    qed
    have ok': "fl_ok 8192 ?m c l'"
      using ok M len 2(4) c(1) l(2) by (auto simp: fl_ok_def l'_def fl_consts distinct_tl)
    define A where "A = (if objs = [] then App ?t c else insert (hd objs) (App ?t c))"
    have "A \<union> set (fl_list l') = shared h App ?t c \<union> set objs" by (cases objs) (auto simp: A_def l'_def sh)
    then have cen': "central_inv {} (set_out ?t c (A \<union> set (fl_list l')) (shared h App)) s'" using 2(2) by simp
    have dj: "A \<inter> set (fl_list l') = {}" using 2(4,5) unfolding sh by (cases objs) (auto simp: A_def l'_def)
    have "cache_inv ((\<lambda>_. 8192)(c := 8192)) (set_out ?t c A App) h' s'"
      unfolding h'_def by (rule cache_inv_change[OF inv c(2) ok' 2(3) cen' dj]) (simp add: e l'_def)
    then have inv': "cache_inv (\<lambda>_. 8192) (set_out ?t c A App) h' s'" unfolding const_upd .
    have t': "tc_type h' = ?t" "tc_max_size h' = tc_max_size h" by (simp_all add: h'_def)
    have "handed fuel App c h s (if objs = [] then NULL else hd objs) h' s'"
    proof (cases objs)
      case Nil
      have "\<not> (?b \<le> fl_max_length ?l \<and> 0 < used_slots (central s ?t c))" using 2(7) Nil by (auto simp: N_def)
      then show ?thesis using inv' t' 2(3,7) Nil e by (simp add: handed_def starved_def A_def)
    next
      case (Cons a as)
      have "a \<noteq> NULL" using out_not_null[OF 2(2) c(2), of a ?t] Cons by simp
      moreover have "a \<notin> App ?t c" using 2(5) Cons unfolding sh by auto
      ultimately show ?thesis using inv' t' 2(3) Cons e by (simp add: handed_def A_def)
    qed
    then show ?thesis using r by blast
  qed
qed

lemma allocate_step:
  assumes inv: "cache_inv (\<lambda>_. 8192) App h s" and c: "0 < c" "c < 88" and sz: "sz = word_of_nat (csize (sizemap s) c)"
    and env: "heap_limit_mb (ph s) = 0" "sys_contract (ph s)" "card (dom (spans (ph s))) + 1 < fuel"
  shows "Allocate fuel sz c h s = Inl AssertFail \<and> fl_list (tc_lists h c) = [] \<and> \<not> span_room 2 (ph s) \<or>
    (\<exists>a h' s'. Allocate fuel sz c h s = Inr (a, h', s') \<and> handed fuel App c h s a h' s')"
proof (cases "fl_list (tc_lists h c) = []")
  case True
  have "Allocate fuel sz c h s = FetchFromCentralCache fuel c sz h s" using True c(2) by (simp add: Allocate_def kNumClasses_def)
  then show ?thesis using fetch_central_step[OF inv c True sz env] True by simp
next
  case False
  then show ?thesis using pop_step[OF inv c(2) False sz, of fuel] by blast
qed

section \<open>Deallocation\<close>

text \<open>The part of \<open>Deallocate\<close> before the test of the size of the cache.\<close>

lemma dealloc_push_step:
  assumes inv: "cache_inv (\<lambda>_. 8192) App h s" and c: "0 < c" "c < 88" and a: "a \<in> App (tc_type h) c"
  shows "\<exists>lh sh h'. dealloc_push a c h s = Inr ((lh, sh), h', s) \<and> lh = int (fl_max_length (tc_lists h' c)) - int (fl_length (tc_lists h' c)) \<and>
    0 < fl_length (tc_lists h' c) \<and> cache_keeps ((\<lambda>_. 8192)(c := 8193)) (set_out (tc_type h) c (App (tc_type h) c - {a}) App) h s h' s"
proof -
  let ?m = "sizemap s" and ?l = "tc_lists h c" and ?t = "tc_type h"
  have cen: "central_inv {} (shared h App) s" using inv by (simp add: cache_inv_def)
  have sm: "sizemap_ok ?m" by (rule inv_sizemap[OF cen])
  have ok: "fl_ok 8192 ?m c ?l" using cache_inv_list[OF inv c(2)] by simp
  have dj: "set (fl_list ?l) \<inter> App ?t c = {}" using inv c(2) by (simp add: cache_inv_def)
  have len: "fl_length ?l = length (fl_list ?l)" "fl_length ?l \<le> 8192" using ok by (simp_all add: fl_ok_def)
  define l' where "l' = fl_Push a ?l"
  have l': "l' = ?l\<lparr>fl_list := a # fl_list ?l, fl_length := fl_length ?l + 1\<rparr>" using len(2) by (simp add: l'_def fl_Push_def)
  define h' where "h' = h\<lparr>tc_lists := (tc_lists h)(c := l'), tc_size := tc_size h + word_of_nat (csize ?m c)\<rparr>"
  have ok': "fl_ok 8193 ?m c l'" using ok dj a c(1) by (auto simp: fl_ok_def l')
  have e: "set_out ?t c ((App ?t c - {a}) \<union> set (fl_list l')) (shared h App) = shared h App"
    using c(2) a by (auto simp: shared_def set_out_def l' fun_eq_iff)
  have "cache_inv ((\<lambda>_. 8192)(c := 8193)) (set_out ?t c (App ?t c - {a}) App) h' s"
    unfolding h'_def
  proof (rule cache_inv_change[OF inv c(2) ok' refl])
    show "central_inv {} (set_out ?t c ((App ?t c - {a}) \<union> set (fl_list l')) (shared h App)) s" unfolding e by (rule cen)
    show "(App ?t c - {a}) \<inter> set (fl_list l') = {}" using dj by (auto simp: l')
  qed (simp add: l' algebra_simps)
  moreover have "h' = (upd_list c (fl_Push a) h)\<lparr>tc_size := tc_size h + word_of_int (int (csize ?m c))\<rparr>"
    by (simp add: h'_def upd_list_def l'_def)
  then have "dealloc_push a c h s = Inr ((int (fl_max_length (tc_lists h' c)) - int (fl_length (tc_lists h' c)),
      sint (tc_max_size h - (tc_size h + word_of_int (int (csize ?m c))) - 1)), h', s)"
    unfolding dealloc_push_def sizemap_rd(1)[OF sm c] rbind_Inr Let_def by simp
  moreover have "0 < fl_length (tc_lists h' c)" by (simp add: h'_def l')
  ultimately show ?thesis by (auto simp: cache_keeps_def h'_def)
qed

lemma dealloc_step:
  assumes inv: "cache_inv ((\<lambda>_. 8192)(c := 8193)) App h s" and c: "0 < c" "c < 88" and t: "tc_type h = DEFAULT_HEAP_TYPE"
    and fuel: "card (dom (spans (ph s))) < fuel" and ne: "0 < fl_length (tc_lists h c)"
    and lh: "lh = int (fl_max_length (tc_lists h c)) - int (fl_length (tc_lists h c))"
  shows "\<exists>h' s'. (if lh < 0 then ListTooLong fuel c h s else Inr ((), h, s)) = Inr ((), h', s') \<and> cache_inv (\<lambda>_. 8192) App h' s' \<and> frame s s' \<and>
    tc_type h' = tc_type h \<and> tc_max_size h' = tc_max_size h"
proof (cases "lh < 0")
  case True
  have e: "((\<lambda>_. 8192)(c := 8193))(c := ((\<lambda>_. 8192)(c := 8193)) c - 1) = (\<lambda>_. 8192 :: nat)" by auto
  have B: "((\<lambda>_. 8192)(c := 8193)) c < (2 :: nat) ^ 32" by simp
  show ?thesis using list_too_long_step[OF inv B c t fuel ne] True unfolding e by simp
next
  case False
  have ok: "fl_ok 8193 (sizemap s) c (tc_lists h c)" using cache_inv_list[OF inv c(2)] by simp
  then have "fl_ok 8192 (sizemap s) c (tc_lists h c)" using False lh by (auto simp: fl_ok_def fl_consts)
  then have "fl_ok 8192 (sizemap s) d (tc_lists h d)" if "d < 88" for d
    using cache_inv_list[OF inv that] by (cases "d = c") auto
  then have "cache_inv (\<lambda>_. 8192) App h s" using inv by (simp add: cache_inv_def cache_ok_def)
  then show ?thesis using False by simp
qed

end
