(* ===== verification/Thread_Caches.thy ===== *)
theory Thread_Caches
  imports Thread_Cache_Correct
begin

text \<open>
  All thread caches of the process: no object is in two caches, or in a cache and with the application, and the
  limits of the caches add up to the overall budget.
\<close>

section \<open>Objects\<close>

definition lists_of :: "tcache \<Rightarrow> int \<Rightarrow> nat \<Rightarrow> ptr set" where
  "lists_of h t c = (if t = tc_type h \<and> c < 88 then set (fl_list (tc_lists h c)) else {})"

definition others :: "(ptr \<Rightarrow> tcache option) \<Rightarrow> ptr set \<Rightarrow> int \<Rightarrow> nat \<Rightarrow> ptr set" where
  "others C X t c = (\<Union>q \<in> dom C - X. lists_of (the (C q)) t c)"

definition threads_ok :: "(int \<Rightarrow> nat \<Rightarrow> ptr set) \<Rightarrow> thread_world \<Rightarrow> bool" where
  "threads_ok App w \<longleftrightarrow> central_inv {} (\<lambda>t c. App t c \<union> others (caches w) {} t c) (cw w) \<and>
     (\<forall>p h. caches w p = Some h \<longrightarrow> cache_ok (\<lambda>_. 8192) (sizemap (cw w)) h \<and>
        (\<forall>t c. lists_of h t c \<inter> (App t c \<union> others (caches w) {p} t c) = {}))"

text \<open>The process seen from one cache.\<close>

definition rest :: "thread_world \<Rightarrow> (int \<Rightarrow> nat \<Rightarrow> ptr set) \<Rightarrow> ptr \<Rightarrow> int \<Rightarrow> nat \<Rightarrow> ptr set" where
  "rest w App p t c = App t c \<union> others (caches w) {p} t c"

lemma shared_lists_of: "shared h App t c = App t c \<union> lists_of h t c"
  by (simp add: shared_def lists_of_def)

lemma others_split: "C p = Some h \<Longrightarrow> others C {} t c = lists_of h t c \<union> others C {p} t c"
  by (auto simp: others_def)

lemma others_upd: "others (C(p \<mapsto> h)) {p} = others C {p}"
  by (force simp: others_def fun_eq_iff)

lemma threads_view:
  assumes ok: "threads_ok App w" and p: "caches w p = Some h"
  shows "cache_inv (\<lambda>_. 8192) (rest w App p) h (cw w)"
proof -
  have "shared h (rest w App p) = (\<lambda>t c. App t c \<union> others (caches w) {} t c)"
    by (simp add: fun_eq_iff shared_lists_of rest_def others_split[of "caches w" p h, OF p] Un_ac)
  moreover have "set (fl_list (tc_lists h c)) \<inter> rest w App p (tc_type h) c = {}" if "c < 88" for c
  proof -
    have "lists_of h (tc_type h) c \<inter> (App (tc_type h) c \<union> others (caches w) {p} (tc_type h) c) = {}" using ok p by (simp add: threads_ok_def)
    then show ?thesis using that by (simp add: lists_of_def rest_def)
  qed
  ultimately show ?thesis using ok p by (simp add: cache_inv_def threads_ok_def)
qed

lemma threads_update:
  assumes ok: "threads_ok App w" and p: "caches w p = Some h" and t: "tc_type h' = tc_type h" and m: "sizemap s' = sizemap (cw w)"
    and inv: "cache_inv (\<lambda>_. 8192) (\<lambda>t c. App' t c \<union> others (caches w) {p} t c) h' s'"
    and dj: "\<And>t c. App' t c \<inter> others (caches w) {p} t c = {}"
  shows "threads_ok App' (w\<lparr>caches := (caches w)(p \<mapsto> h'), cw := s'\<rparr>)"
proof -
  let ?C = "(caches w)(p \<mapsto> h')"
  have o: "others ?C {} t c = lists_of h' t c \<union> others (caches w) {p} t c" for t c
    using others_split[of ?C p h' t c] by (simp add: others_upd)
  have "shared h' (\<lambda>t c. App' t c \<union> others (caches w) {p} t c) = (\<lambda>t c. App' t c \<union> others ?C {} t c)"
    by (simp add: fun_eq_iff shared_lists_of o Un_ac)
  then have 1: "central_inv {} (\<lambda>t c. App' t c \<union> others ?C {} t c) s'" using inv by (simp add: cache_inv_def)
  have h': "lists_of h' t c \<inter> (App' t c \<union> others (caches w) {p} t c) = {}" for t c
    using inv by (simp add: cache_inv_def lists_of_def)
  have "cache_ok (\<lambda>_. 8192) (sizemap s') g \<and> (\<forall>t c. lists_of g t c \<inter> (App' t c \<union> others ?C {q} t c) = {})" if q: "?C q = Some g" for q g
  proof (cases "q = p")
    case True
    then have g: "g = h'" using q by simp
    then show ?thesis using inv h' True by (simp add: others_upd cache_inv_def)
  next
    case False
    then have q: "caches w q = Some g" using q by simp
    have "lists_of g t c \<subseteq> others (caches w) {p} t c" for t c using q False by (force simp: others_def)
    moreover have "others ?C {q} t c \<subseteq> lists_of h' t c \<union> others (caches w) {q} t c" for t c
    proof
      fix a
      assume "a \<in> others ?C {q} t c"
      then obtain r where "r \<in> dom ?C" "r \<noteq> q" "a \<in> lists_of (the (?C r)) t c" unfolding others_def by blast
      then show "a \<in> lists_of h' t c \<union> others (caches w) {q} t c" by (cases "r = p") (auto simp: others_def)
    qed
    ultimately have "lists_of g t c \<inter> (App' t c \<union> others ?C {q} t c) = {}" for t c
      using h'[of t c] dj[of t c] ok q unfolding threads_ok_def by (fast | blast)
    moreover have "cache_ok (\<lambda>_. 8192) (sizemap s') g" using ok q m by (simp add: threads_ok_def)
    ultimately show ?thesis by blast
  qed
  then show ?thesis using 1 by (simp add: threads_ok_def)
qed

text \<open>Objects of different classes are different, so the application cannot hold an object twice.\<close>

lemma out_disjoint:
  assumes inv: "central_inv L Out s" and c: "c < 88" "d < 88" and a: "a \<in> Out t c" "a \<in> Out u d"
  shows "t = u \<and> c = d"
proof -
  have "a \<in> out_objs (sizemap s) (ph s) t c" "a \<in> out_objs (sizemap s) (ph s) u d" using inv_out(1)[OF inv] c a by auto
  from object_span[OF inv this(1)] object_span[OF inv this(2)] show ?thesis by (metis option.inject prod.inject)
qed

section \<open>The budget\<close>

definition claimed :: "(ptr \<Rightarrow> tcache option) \<Rightarrow> uint64" where
  "claimed C = (\<Sum>p \<in> dom C. tc_max_size (the (C p)))"

text \<open>\<open>limits X w\<close>: the caches of \<open>X\<close> are not in the list yet. \<open>unclaimed_cache_space_\<close> is the overall budget minus the limits of the caches.\<close>

definition limits :: "ptr set \<Rightarrow> thread_world \<Rightarrow> bool" where
  "limits X w \<longleftrightarrow> finite (dom (caches w)) \<and> distinct (thread_heaps w) \<and> set (thread_heaps w) = dom (caches w) - X \<and>
     thread_heap_count w = int (length (thread_heaps w)) \<and> (next_memory_steal w = NULL \<or> next_memory_steal w \<in> set (thread_heaps w)) \<and>
     caches w NULL = None \<and> unclaimed_cache_space w + claimed (caches w) = overall_thread_cache_size w \<and> 0 < sint (overall_thread_cache_size w) \<and>
     pa_ok sizeof_ThreadCache (dom (caches w)) (threadcache_allocator w)"

text \<open>Only the limits of caches and the place to steal from differ.\<close>

definition no_limit :: "tcache option \<Rightarrow> tcache option" where
  "no_limit = map_option (\<lambda>h. h\<lparr>tc_max_size := 0\<rparr>)"

definition only_limits :: "thread_world \<Rightarrow> thread_world \<Rightarrow> bool" where
  "only_limits w w' \<longleftrightarrow> (\<exists>C n u. w' = w\<lparr>caches := C, next_memory_steal := n, unclaimed_cache_space := u\<rparr> \<and> (\<forall>q. no_limit (C q) = no_limit (caches w q)))"

lemma only_limits_refl [simp]: "only_limits w w"
proof -
  have "w = w\<lparr>caches := caches w, next_memory_steal := next_memory_steal w, unclaimed_cache_space := unclaimed_cache_space w\<rparr>" by simp
  then show ?thesis unfolding only_limits_def by blast
qed

lemma only_limits_trans: "only_limits w w1 \<Longrightarrow> only_limits w1 w2 \<Longrightarrow> only_limits w w2"
  unfolding only_limits_def by (auto, blast)

lemma only_limits_steal [simp]: "only_limits w (w\<lparr>next_memory_steal := n\<rparr>)"
proof -
  have "w\<lparr>next_memory_steal := n\<rparr> = w\<lparr>caches := caches w, next_memory_steal := n, unclaimed_cache_space := unclaimed_cache_space w\<rparr>" by simp
  then show ?thesis unfolding only_limits_def by blast
qed

lemma only_limits_unclaimed [simp]: "only_limits w (w\<lparr>unclaimed_cache_space := u\<rparr>)"
proof -
  have "w\<lparr>unclaimed_cache_space := u\<rparr> = w\<lparr>caches := caches w, next_memory_steal := next_memory_steal w, unclaimed_cache_space := u\<rparr>" by simp
  then show ?thesis unfolding only_limits_def by blast
qed

lemma only_limits_add [simp]: "only_limits w (add_max_size p d w)"
proof -
  let ?C = "(caches w)(p := map_option (\<lambda>h. h\<lparr>tc_max_size := tc_max_size h + d\<rparr>) (caches w p))"
  have "add_max_size p d w = w\<lparr>caches := ?C, next_memory_steal := next_memory_steal w, unclaimed_cache_space := unclaimed_cache_space w\<rparr>"
    by (simp add: add_max_size_def)
  moreover have "\<forall>q. no_limit (?C q) = no_limit (caches w q)" by (simp add: no_limit_def option.map_comp comp_def)
  ultimately show ?thesis unfolding only_limits_def by blast
qed

lemma no_limit_same: "no_limit x = no_limit y \<Longrightarrow> x = Some h \<Longrightarrow> \<exists>m. y = Some (h\<lparr>tc_max_size := m\<rparr>)"
proof -
  assume a: "no_limit x = no_limit y" "x = Some h"
  then obtain g where g: "y = Some g" "h\<lparr>tc_max_size := 0\<rparr> = g\<lparr>tc_max_size := 0\<rparr>" by (cases y) (auto simp: no_limit_def)
  have "g = (g\<lparr>tc_max_size := 0\<rparr>)\<lparr>tc_max_size := tc_max_size g\<rparr>" by simp
  also have "\<dots> = h\<lparr>tc_max_size := tc_max_size g\<rparr>" unfolding g(2)[symmetric] by simp
  finally show ?thesis using g(1) by blast
qed

lemma lists_of_limit [simp]: "lists_of (h\<lparr>tc_max_size := m\<rparr>) = lists_of h" "cache_ok B k (h\<lparr>tc_max_size := m\<rparr>) = cache_ok B k h"
  by (simp_all add: lists_of_def cache_ok_def cache_bytes_def fun_eq_iff)

lemma only_limits_threads:
  assumes "only_limits w w'" and ok: "threads_ok App w"
  shows "threads_ok App w'"
proof -
  obtain C n u where w': "w' = w\<lparr>caches := C, next_memory_steal := n, unclaimed_cache_space := u\<rparr>" and C: "\<And>q. no_limit (C q) = no_limit (caches w q)"
    using assms(1) by (auto simp: only_limits_def)
  have d: "dom C = dom (caches w)"
  proof -
    have "C q = None \<longleftrightarrow> caches w q = None" for q using C[of q] by (cases "C q"; cases "caches w q") (auto simp: no_limit_def)
    then show ?thesis by (auto simp: dom_def)
  qed
  have "lists_of (the (C q)) = lists_of (the (caches w q))" if "q \<in> dom C" for q
  proof -
    obtain h where "C q = Some h" using \<open>q \<in> dom C\<close> by blast
    then show ?thesis using no_limit_same[OF C[of q]] by fastforce
  qed
  then have o: "others C X = others (caches w) X" for X by (simp add: others_def d fun_eq_iff)
  have "cache_ok (\<lambda>_. 8192) (sizemap (cw w)) h \<and> (\<forall>t c. lists_of h t c \<inter> (App t c \<union> others (caches w) {p} t c) = {})" if p: "C p = Some h" for p h
  proof -
    obtain m where "caches w p = Some (h\<lparr>tc_max_size := m\<rparr>)" using no_limit_same[OF C[of p] p] by blast
    then show ?thesis using ok by (fastforce simp: threads_ok_def)
  qed
  then show ?thesis using ok o by (simp add: threads_ok_def w')
qed

lemma next_in_set: "next_in p ps = NULL \<or> next_in p ps \<in> set ps"
proof -
  have "set (dropWhile (\<lambda>q. q \<noteq> p) ps) \<subseteq> set ps" by (meson set_dropWhileD subsetI)
  then show ?thesis by (auto simp: next_in_def split: list.splits)
qed

lemma claimed_upd:
  assumes "finite (dom C)" and "C p = Some h"
  shows "claimed (C(p \<mapsto> h\<lparr>tc_max_size := tc_max_size h + d\<rparr>)) = claimed C + d"
proof -
  define g where "g = h\<lparr>tc_max_size := tc_max_size h + d\<rparr>"
  let ?C = "C(p \<mapsto> g)"
  have p: "p \<in> dom C" using assms(2) by blast
  have d: "dom ?C = dom C" using p by auto
  have "claimed ?C = tc_max_size (the (?C p)) + (\<Sum>q \<in> dom C - {p}. tc_max_size (the (?C q)))"
    unfolding claimed_def d by (rule sum.remove[OF assms(1) p])
  also have "(\<Sum>q \<in> dom C - {p}. tc_max_size (the (?C q))) = (\<Sum>q \<in> dom C - {p}. tc_max_size (the (C q)))" by (rule sum.cong) auto
  also have "tc_max_size (the (?C p)) = tc_max_size h + d" by (simp add: g_def)
  finally have "claimed ?C = tc_max_size h + d + (\<Sum>q \<in> dom C - {p}. tc_max_size (the (C q)))" .
  moreover have "claimed C = tc_max_size h + (\<Sum>q \<in> dom C - {p}. tc_max_size (the (C q)))"
    unfolding claimed_def using sum.remove[OF assms(1) p, of "\<lambda>q. tc_max_size (the (C q))"] assms(2) by simp
  ultimately have "claimed ?C = claimed C + d" by (simp only: ac_simps)
  then show ?thesis by (simp only: g_def)
qed

lemma add_max_caches: "caches w p = Some h \<Longrightarrow> caches (add_max_size p d w) = (caches w)(p \<mapsto> h\<lparr>tc_max_size := tc_max_size h + d\<rparr>)"
  by (simp add: add_max_size_def)

lemma limits_move:
  assumes "limits X w" and "caches w p = Some h"
  shows "limits X ((add_max_size p d w)\<lparr>unclaimed_cache_space := unclaimed_cache_space w - d\<rparr>)"
proof -
  have d: "dom ((caches w)(p \<mapsto> h\<lparr>tc_max_size := tc_max_size h + d\<rparr>)) = dom (caches w)" using assms(2) by auto
  have f: "finite (dom (caches w))" using assms(1) by (simp add: limits_def)
  have "caches w NULL = None" using assms(1) by (simp add: limits_def)
  then have n: "((caches w)(p \<mapsto> h\<lparr>tc_max_size := tc_max_size h + d\<rparr>)) NULL = None" using assms(2) by auto
  note cl = claimed_upd[OF f assms(2), of d]
  define w' where "w' = (add_max_size p d w)\<lparr>unclaimed_cache_space := unclaimed_cache_space w - d\<rparr>"
  have o: "thread_heaps w' = thread_heaps w" "thread_heap_count w' = thread_heap_count w" "next_memory_steal w' = next_memory_steal w"
      "overall_thread_cache_size w' = overall_thread_cache_size w" "threadcache_allocator w' = threadcache_allocator w"
      "unclaimed_cache_space w' = unclaimed_cache_space w - d"
    by (simp_all add: w'_def add_max_size_def)
  have c: "caches w' = (caches w)(p \<mapsto> h\<lparr>tc_max_size := tc_max_size h + d\<rparr>)" using add_max_caches[OF assms(2)] by (simp add: w'_def)
  have b: "unclaimed_cache_space w - d + claimed ((caches w)(p \<mapsto> h\<lparr>tc_max_size := tc_max_size h + d\<rparr>)) = overall_thread_cache_size w"
    using assms(1) unfolding cl by (simp add: limits_def)
  have "limits X w'" using assms(1) n b unfolding limits_def o c d by (elim conjE, intro conjI) assumption+
  then show ?thesis by (simp only: w'_def)
qed

lemma limits_steal: "limits X w \<Longrightarrow> n = NULL \<or> n \<in> set (thread_heaps w) \<Longrightarrow> limits X (w\<lparr>next_memory_steal := n\<rparr>)"
  by (simp add: limits_def)

lemma limits_transfer:
  assumes "limits X w" and "caches w p = Some h" and "caches w q = Some g" and "p \<noteq> q"
  shows "limits X (add_max_size p d (add_max_size q (- d) w))"
proof -
  let ?w1 = "(add_max_size q (- d) w)\<lparr>unclaimed_cache_space := unclaimed_cache_space w - (- d)\<rparr>"
  have 1: "limits X ?w1" by (rule limits_move[OF assms(1,3)])
  have p: "caches ?w1 p = Some h" using assms(2,4) by (simp add: add_max_size_def)
  have "(add_max_size p d ?w1)\<lparr>unclaimed_cache_space := unclaimed_cache_space ?w1 - d\<rparr> = add_max_size p d (add_max_size q (- d) w)"
    by (simp add: add_max_size_def)
  then show ?thesis using limits_move[OF 1 p, of d] by simp
qed

lemma steal_step:
  assumes "limits X w" and "caches w p \<noteq> None" and "thread_heaps w \<noteq> []"
  shows "\<exists>w'. steal_loop i p w = Inr w' \<and> limits X w' \<and> only_limits w w'"
  using assms
proof (induction i arbitrary: w)
  case 0
  then show ?case by simp
next
  case (Suc i)
  define q where "q = (if next_memory_steal w = NULL then hd (thread_heaps w) else next_memory_steal w)"
  have e: "(if next_memory_steal w = NULL then (case thread_heaps w of [] \<Rightarrow> NULL | q # _ \<Rightarrow> q) else next_memory_steal w) = q"
    using Suc.prems(3) by (cases "thread_heaps w") (simp_all add: q_def)
  have "q \<in> set (thread_heaps w)" using Suc.prems(1,3) by (auto simp: q_def limits_def)
  then obtain g where g: "caches w q = Some g" using Suc.prems(1) by (auto simp: limits_def)
  obtain h where h: "caches w p = Some h" using Suc.prems(2) by blast
  let ?n = "next_in q (thread_heaps w)"
  show ?case
  proof (cases "q = p \<or> tc_max_size g \<le> kMinThreadCacheSize")
    case True
    let ?w = "w\<lparr>next_memory_steal := ?n\<rparr>"
    have "limits X ?w" by (rule limits_steal[OF Suc.prems(1) next_in_set])
    then obtain w' where w': "steal_loop i p ?w = Inr w'" "limits X w'" "only_limits ?w w'" using Suc.IH[of ?w] h Suc.prems(3) by auto
    have "steal_loop (Suc i) p w = steal_loop i p ?w" using True g by (simp add: e Let_def)
    then show ?thesis using w' only_limits_trans[OF only_limits_steal w'(3)] by simp
  next
    case False
    let ?w = "add_max_size p kStealAmount (add_max_size q (- kStealAmount) w)"
    have "limits X ?w" using False by (intro limits_transfer[OF Suc.prems(1) h g]) auto
    moreover have "thread_heaps ?w = thread_heaps w" by (simp add: add_max_size_def)
    ultimately have "limits X (?w\<lparr>next_memory_steal := ?n\<rparr>)" using next_in_set[of q "thread_heaps w"] by (intro limits_steal) simp_all
    moreover have "steal_loop (Suc i) p w = Inr (?w\<lparr>next_memory_steal := ?n\<rparr>)" using False g by (simp add: e Let_def add_max_size_def)
    moreover have "only_limits w (?w\<lparr>next_memory_steal := ?n\<rparr>)"
      by (rule only_limits_trans[OF only_limits_trans[OF only_limits_add[of w q "- kStealAmount"] only_limits_add[of _ p kStealAmount]] only_limits_steal])
    ultimately show ?thesis by blast
  qed
qed

text \<open>A cache may take more: from what is unclaimed, or from another cache.\<close>

lemma increase_step:
  assumes "limits X w" and "caches w p = Some h" and "thread_heaps w \<noteq> [] \<or> 0 < sint (unclaimed_cache_space w)"
  shows "\<exists>w'. IncreaseCacheLimitLocked p w = Inr w' \<and> limits X w' \<and> only_limits w w'"
proof (cases "0 < sint (unclaimed_cache_space w)")
  case True
  let ?w = "add_max_size p kStealAmount (w\<lparr>unclaimed_cache_space := unclaimed_cache_space w - kStealAmount\<rparr>)"
  have "?w = (add_max_size p kStealAmount w)\<lparr>unclaimed_cache_space := unclaimed_cache_space w - kStealAmount\<rparr>" by (simp add: add_max_size_def)
  then have "limits X ?w" using limits_move[OF assms(1,2)] by simp
  then show ?thesis using True only_limits_trans[OF only_limits_unclaimed only_limits_add] by (auto simp: IncreaseCacheLimitLocked_def)
next
  case False
  then show ?thesis using steal_step[OF assms(1), of p 10] assms(2,3) by (auto simp: IncreaseCacheLimitLocked_def)
qed

lemma limits_cache:
  assumes "limits X w" and "caches w p = Some h" and "tc_max_size h' = tc_max_size h"
  shows "limits X (w\<lparr>caches := (caches w)(p \<mapsto> h'), cw := s\<rparr>)"
proof -
  have d: "dom ((caches w)(p \<mapsto> h')) = dom (caches w)" using assms(2) by auto
  have "claimed ((caches w)(p \<mapsto> h')) = claimed (caches w)" unfolding claimed_def d by (rule sum.cong) (use assms(2,3) in auto)
  note cl = this
  have "caches w NULL = None" using assms(1) by (simp add: limits_def)
  then have n: "((caches w)(p \<mapsto> h')) NULL = None" using assms(2) by auto
  define w' where "w' = w\<lparr>caches := (caches w)(p \<mapsto> h'), cw := s\<rparr>"
  have o: "thread_heaps w' = thread_heaps w" "thread_heap_count w' = thread_heap_count w" "next_memory_steal w' = next_memory_steal w"
      "overall_thread_cache_size w' = overall_thread_cache_size w" "threadcache_allocator w' = threadcache_allocator w"
      "unclaimed_cache_space w' = unclaimed_cache_space w" "caches w' = (caches w)(p \<mapsto> h')"
    by (simp_all add: w'_def)
  have "limits X w'" using assms(1) n unfolding limits_def o d cl by (elim conjE, intro conjI) assumption+
  then show ?thesis by (simp only: w'_def)
qed

section \<open>Methods of a cache\<close>

lemma on_cache_step: "caches w p = Some h \<Longrightarrow> f h (cw w) = Inr (r, h', s') \<Longrightarrow> on_cache p f w = Inr (r, w\<lparr>caches := (caches w)(p \<mapsto> h'), cw := s'\<rparr>)"
  by (simp add: on_cache_def)

lemma app_others:
  assumes ok: "threads_ok App w"
  shows "App t c \<inter> others (caches w) X t c = {}"
proof -
  have "App t c \<inter> lists_of (the (caches w q)) t c = {}" if "q \<in> dom (caches w)" for q
    using ok that by (fastforce simp: threads_ok_def)
  then show ?thesis by (auto simp: others_def)
qed

text \<open>A method that cache_keeps the invariant of its cache cache_keeps that of all.\<close>

lemma threads_keep:
  assumes ok: "threads_ok App w" and p: "caches w p = Some h" and k: "cache_keeps (\<lambda>_. 8192) (rest w App p) h (cw w) h' s'"
  shows "threads_ok App (w\<lparr>caches := (caches w)(p \<mapsto> h'), cw := s'\<rparr>)"
proof (rule threads_update[OF ok p])
  show "tc_type h' = tc_type h" "sizemap s' = sizemap (cw w)" using k by (simp_all add: cache_keeps_def frame_def)
  show "cache_inv (\<lambda>_. 8192) (\<lambda>t c. App t c \<union> others (caches w) {p} t c) h' s'" using k by (simp add: cache_keeps_def rest_def[abs_def])
  show "App t c \<inter> others (caches w) {p} t c = {}" for t c by (rule app_others[OF ok])
qed

end
