(* ===== verification/Thread_Cache_Props.thy ===== *)
theory Thread_Cache_Props
  imports Thread_Caches
begin

text \<open>
  The properties of the thread caches: allocation hands out objects that nobody holds, deallocation takes them back, creating and
  deleting caches keeps the budget.
\<close>

section \<open>Allocation\<close>

lemma set_out_rest: "set_out t c (A \<union> others (caches w) {p} t c) (rest w App p) = (\<lambda>u d. set_out t c A App u d \<union> others (caches w) {p} u d)"
  by (auto simp: set_out_def rest_def fun_eq_iff)

lemma allocate_threads_step:
  assumes ok: "threads_ok App w" and p: "caches w p = Some h" and c: "0 < c" "c < 88" and sz: "sz = word_of_nat (csize (sizemap (cw w)) c)"
    and env: "heap_limit_mb (ph (cw w)) = 0" "sys_contract (ph (cw w))" "card (dom (spans (ph (cw w)))) + 1 < fuel"
  shows "on_cache p (Allocate fuel sz c) w = Inl AssertFail \<and> fl_list (tc_lists h c) = [] \<and> \<not> span_room 2 (ph (cw w)) \<or>
    (\<exists>a w'. on_cache p (Allocate fuel sz c) w = Inr (a, w') \<and>
      (fl_list (tc_lists h c) \<noteq> [] \<longrightarrow> a = hd (fl_list (tc_lists h c)) \<and> a \<noteq> NULL \<and> cw w' = cw w) \<and>
      (if a = NULL then threads_ok App w' \<and> starved fuel c h (cw w) (cw w')
       else (\<forall>t d. d < 88 \<longrightarrow> a \<notin> App t d) \<and> threads_ok (set_out (tc_type h) c (insert a (App (tc_type h) c)) App) w'))"
proof -
  let ?R = "rest w App p" and ?t = "tc_type h"
  note inv = threads_view[OF ok p]
  from allocate_step[OF inv c sz env] consider "Allocate fuel sz c h (cw w) = Inl AssertFail" "fl_list (tc_lists h c) = []" "\<not> span_room 2 (ph (cw w))"
    | a h' s' where "Allocate fuel sz c h (cw w) = Inr (a, h', s')" "handed fuel ?R c h (cw w) a h' s'" by blast
  then show ?thesis
  proof cases
    case 1
    then show ?thesis using p by (simp add: on_cache_def)
  next
    case (2 a h' s')
    let ?w = "w\<lparr>caches := (caches w)(p \<mapsto> h'), cw := s'\<rparr>"
    have r: "on_cache p (Allocate fuel sz c) w = Inr (a, ?w)" by (rule on_cache_step[where f = "Allocate fuel sz c", OF p 2(1)])
    have hd: "sizemap s' = sizemap (cw w)" "tc_type h' = ?t"
        "fl_list (tc_lists h c) \<noteq> [] \<longrightarrow> a = hd (fl_list (tc_lists h c)) \<and> a \<noteq> NULL \<and> cw ?w = cw w"
      using 2(2) unfolding handed_def by (elim conjE; simp)+
    show ?thesis
    proof (cases "a = NULL")
      case True
      then have "cache_inv (\<lambda>_. 8192) (\<lambda>t c. App t c \<union> others (caches w) {p} t c) h' s'" "starved fuel c h (cw w) s'"
        using 2(2) by (simp_all add: handed_def rest_def[abs_def])
      then have "threads_ok App ?w" by (intro threads_update[OF ok p hd(2,1)] app_others[OF ok])
      then show ?thesis using r True hd(3) \<open>starved _ _ _ _ _\<close> by auto
    next
      case False
      let ?A = "set_out ?t c (insert a (App ?t c)) App"
      have a: "a \<notin> ?R ?t c" and i: "cache_inv (\<lambda>_. 8192) (set_out ?t c (insert a (?R ?t c)) ?R) h' s'" using 2(2) False by (simp_all add: handed_def)
      have e: "insert a (?R ?t c) = insert a (App ?t c) \<union> others (caches w) {p} ?t c" by (simp add: rest_def)
      have i2: "cache_inv (\<lambda>_. 8192) (\<lambda>u d. ?A u d \<union> others (caches w) {p} u d) h' s'"
        using i unfolding e set_out_rest .
      have dj: "?A u d \<inter> others (caches w) {p} u d = {}" for u d
        using app_others[OF ok, of u d "{p}"] a by (auto simp: set_out_def rest_def)
      have ok': "threads_ok ?A ?w" by (rule threads_update[OF ok p hd(2,1) i2 dj])
      then have cen: "central_inv {} (\<lambda>t c. ?A t c \<union> others (caches ?w) {} t c) s'" by (simp add: threads_ok_def)
      have "a \<notin> App t d" if d: "d < 88" for t d
      proof
        assume ad: "a \<in> App t d"
        have 1: "a \<in> ?A t d \<union> others (caches ?w) {} t d" using ad by (cases "(t, d) = (?t, c)") auto
        have 2: "a \<in> ?A ?t c \<union> others (caches ?w) {} ?t c" by simp
        have "t = ?t \<and> d = c" by (rule out_disjoint[OF cen d c(2) 1 2])
        then show False using ad a by (simp add: rest_def)
      qed
      then show ?thesis using r ok' hd(3) False by auto
    qed
  qed
qed


section \<open>Deallocation\<close>

lemma classes_lt: "set [0..<nat kNumClasses] \<subseteq> {..<88}"
  by (auto simp: kNumClasses_def)

lemma scavenge_cache_step:
  assumes ok: "threads_ok App w" and lim: "limits {} w" and p: "caches w p = Some h" and t: "tc_type h = DEFAULT_HEAP_TYPE"
    and fuel: "card (dom (spans (ph (cw w)))) < fuel"
  shows "\<exists>w'. Scavenge fuel p w = Inr w' \<and> threads_ok App w' \<and> limits {} w' \<and> frame (cw w) (cw w')"
proof -
  obtain h1 s1 where 1: "scavenge_classes fuel [0..<nat kNumClasses] h (cw w) = Inr ((), h1, s1)" "cache_keeps (\<lambda>_. 8192) (rest w App p) h (cw w) h1 s1"
    using scavenge_classes_step[OF threads_view[OF ok p] _ classes_lt t fuel] by auto
  let ?w = "w\<lparr>caches := (caches w)(p \<mapsto> h1), cw := s1\<rparr>"
  have r: "on_cache p (scavenge_classes fuel [0..<nat kNumClasses]) w = Inr ((), ?w)" by (rule on_cache_step[where f = "scavenge_classes fuel [0..<nat kNumClasses]", OF p 1(1)])
  have ok1: "threads_ok App ?w" by (rule threads_keep[OF ok p 1(2)])
  have lim1: "limits {} ?w" by (rule limits_cache[OF lim p]) (use 1(2) in \<open>simp add: cache_keeps_def\<close>)
  have "p \<in> set (thread_heaps w)" using lim p by (auto simp: limits_def)
  then have ne: "thread_heaps ?w \<noteq> [] \<or> 0 < sint (unclaimed_cache_space ?w)" by auto
  have p1: "caches ?w p = Some h1" by simp
  obtain w' where w': "IncreaseCacheLimitLocked p ?w = Inr w'" "limits {} w'" "only_limits ?w w'"
    using increase_step[OF lim1 p1 ne] by blast
  have "cw w' = s1" using w'(3) by (auto simp: only_limits_def)
  then have "frame (cw w) (cw w')" using 1(2) by (simp add: cache_keeps_def)
  then show ?thesis using r w'(1,2) only_limits_threads[OF w'(3) ok1] by (auto simp: Scavenge_def)
qed

lemma deallocate_step:
  assumes ok: "threads_ok App w" and lim: "limits {} w" and p: "caches w p = Some h" and t: "tc_type h = DEFAULT_HEAP_TYPE"
    and c: "0 < c" "c < 88" and a: "a \<in> App (tc_type h) c" and fuel: "card (dom (spans (ph (cw w)))) < fuel"
  shows "\<exists>w'. Deallocate fuel p a c w = Inr w' \<and> threads_ok (set_out (tc_type h) c (App (tc_type h) c - {a}) App) w' \<and> limits {} w' \<and>
    frame (cw w) (cw w')"
proof -
  let ?t = "tc_type h" and ?A = "set_out (tc_type h) c (App (tc_type h) c - {a}) App" and ?s = "cw w" and ?R = "rest w App p"
  note inv = threads_view[OF ok p]
  have aR: "a \<in> ?R ?t c" using a by (simp add: rest_def)
  obtain lh sh h1 where 1: "dealloc_push a c h ?s = Inr ((lh, sh), h1, ?s)" "lh = int (fl_max_length (tc_lists h1 c)) - int (fl_length (tc_lists h1 c))"
      "0 < fl_length (tc_lists h1 c)" "cache_keeps ((\<lambda>_. 8192)(c := 8193)) (set_out ?t c (?R ?t c - {a}) ?R) h ?s h1 ?s"
    using dealloc_push_step[OF inv c aR] by blast
  have "a \<notin> others (caches w) {p} ?t c" using app_others[OF ok, of ?t c "{p}"] a by auto
  then have "?R ?t c - {a} = (App ?t c - {a}) \<union> others (caches w) {p} ?t c" by (auto simp: rest_def)
  then have R: "set_out ?t c (?R ?t c - {a}) ?R = (\<lambda>u d. ?A u d \<union> others (caches w) {p} u d)" by (simp add: set_out_rest)
  have inv1: "cache_inv ((\<lambda>_. 8192)(c := 8193)) (\<lambda>u d. ?A u d \<union> others (caches w) {p} u d) h1 ?s" using 1(4) unfolding R by (simp add: cache_keeps_def)
  have t1: "tc_type h1 = DEFAULT_HEAP_TYPE" using 1(4) t by (simp add: cache_keeps_def)
  obtain h2 s2 where 2: "(if lh < 0 then ListTooLong fuel c h1 ?s else Inr ((), h1, ?s)) = Inr ((), h2, s2)"
      "cache_inv (\<lambda>_. 8192) (\<lambda>u d. ?A u d \<union> others (caches w) {p} u d) h2 s2" "frame ?s s2" "tc_type h2 = tc_type h1" "tc_max_size h2 = tc_max_size h1"
    using dealloc_step[OF inv1 c t1 fuel 1(3,2)] by blast
  let ?w1 = "w\<lparr>caches := (caches w)(p \<mapsto> h1), cw := ?s\<rparr>" and ?w2 = "w\<lparr>caches := (caches w)(p \<mapsto> h2), cw := s2\<rparr>"
  have r1: "on_cache p (dealloc_push a c) w = Inr ((lh, sh), ?w1)" by (rule on_cache_step[where f = "dealloc_push a c", OF p 1(1)])
  have r2: "(if lh < 0 then on_cache p (ListTooLong fuel c) ?w1 else Inr ((), ?w1)) = Inr ((), ?w2)"
    using 2(1) by (cases "lh < 0") (simp_all add: on_cache_def)
  have dj: "?A u d \<inter> others (caches w) {p} u d = {}" for u d
    using app_others[OF ok, of u d "{p}"] by (auto simp: set_out_def)
  have ok2: "threads_ok ?A ?w2"
    by (rule threads_update[OF ok p _ _ 2(2) dj]) (use 2(3,4) t1 t in \<open>simp_all add: frame_def\<close>)
  have lim2: "limits {} ?w2" by (rule limits_cache[OF lim p]) (use 2(5) 1(4) in \<open>simp add: cache_keeps_def\<close>)
  have d: "Deallocate fuel p a c w = (if lh < 0 \<or> sh < 0 then if tc_size h2 \<ge> tc_max_size h2 then Scavenge fuel p ?w2 else Inr ?w2 else Inr ?w1)"
  proof -
    have k: "\<not> \<not> c < nat kNumClasses" using c(2) by (simp add: kNumClasses_def)
    have p2: "caches ?w2 p = Some h2" by simp
    show ?thesis unfolding Deallocate_def if_not_P[OF k] r1 rbind_Inr prod.case r2 p2 option.case by (rule refl)
  qed
  have same: "?w1 = ?w2" if "\<not> lh < 0" using that 2(1) by simp
  have f2: "card (dom (spans (ph (cw ?w2)))) < fuel" using frame_fuel[OF 2(3) _ fuel, of "{}" "shared h ?R"] inv by (simp add: cache_inv_def)
  have p2: "caches ?w2 p = Some h2" by simp
  have t2: "tc_type h2 = DEFAULT_HEAP_TYPE" using 2(4) t1 by simp
  show ?thesis
  proof (cases "(lh < 0 \<or> sh < 0) \<and> tc_size h2 \<ge> tc_max_size h2")
    case True
    obtain w' where w': "Scavenge fuel p ?w2 = Inr w'" "threads_ok ?A w'" "limits {} w'" "frame (cw ?w2) (cw w')"
      using scavenge_cache_step[OF ok2 lim2 p2 t2 f2] by blast
    have "frame (cw w) (cw w')" using frame_trans[OF 2(3)] w'(4) by simp
    then show ?thesis using d True w'(1-3) by auto
  next
    case False
    have "Deallocate fuel p a c w = Inr ?w2"
    proof (cases "lh < 0 \<or> sh < 0")
      case True
      then have n: "\<not> tc_size h2 \<ge> tc_max_size h2" using False by simp
      show ?thesis unfolding d if_P[OF True] if_not_P[OF n] by (rule refl)
    next
      case nf: False
      then have e: "?w1 = ?w2" using same by blast
      show ?thesis unfolding d if_not_P[OF nf] e by (rule refl)
    qed
    then show ?thesis using ok2 lim2 2(3) by auto
  qed
qed

text \<open>C10: \<open>ThreadCache::Deallocate\<close> of an object the application holds, into a cache of the default heap type: it returns,
  the object is no longer at the application but in exactly one place of the allocator, and the invariants and the budget hold,
  whether the list was too long, the cache was scavenged, or neither. In particular no free list is ever longer than
  8192 objects, its counters are its length and its low-water mark, and the size of a cache is the number of bytes in its lists.
  No page is lost, and the spans in use without a class or without an object outside are unchanged: a span whose last
  object came back is not in use any more.\<close>

theorem thread_cache_deallocate_correct:
  assumes "threads_ok App w" and "limits {} w" and "caches w p = Some h" and "tc_type h = DEFAULT_HEAP_TYPE"
    and "0 < c" and "c < 88" and "a \<in> App (tc_type h) c" and "card (dom (spans (ph (cw w)))) < fuel"
  shows "\<exists>w'. Deallocate fuel p a c w = Inr w' \<and> threads_ok (set_out (tc_type h) c (App (tc_type h) c - {a}) App) w' \<and> limits {} w' \<and>
    covered (spans (ph (cw w'))) = covered (spans (ph (cw w))) \<and> settled (ph (cw w)) (ph (cw w'))"
  using deallocate_step[OF assms] unfolding frame_def by blast

section \<open>Creation and deletion of caches\<close>

interpretation cache_source: object_source "pa_New sizeof_ThreadCache" pa_Delete "pa_ok sizeof_ThreadCache" "obj_extent sizeof_ThreadCache"
proof unfold_locales
  show "p \<noteq> NULL \<and> p \<notin> L \<and> pa_ok sizeof_ThreadCache (insert p L) a' \<and> (\<forall>q \<in> L. obj_extent sizeof_ThreadCache p \<inter> obj_extent sizeof_ThreadCache q = {})"
    if "pa_ok sizeof_ThreadCache L a" "pa_New sizeof_ThreadCache a = Inr (p, a')" for L a p a'
    using that by (intro pa_New_ok[of sizeof_ThreadCache L a]) (simp_all add: sizeof_ThreadCache_def kAllocIncrement_def)
qed (rule pa_New_fault pa_Delete_ok; assumption)+

definition empty_cache :: "tcache \<Rightarrow> bool" where
  "empty_cache h \<longleftrightarrow> tc_lists h = (\<lambda>_. FreeList_Init) \<and> tc_size h = 0 \<and> \<not> tc_in_setspecific h"

lemma empty_cache_ok: "empty_cache h \<Longrightarrow> sizemap_ok m \<Longrightarrow> cache_ok (\<lambda>_. 8192) m h" "empty_cache h \<Longrightarrow> lists_of h t c = {}"
proof -
  assume e: "empty_cache h" and m: "sizemap_ok m"
  have "fl_ok 8192 m c FreeList_Init" if "c < 88" for c
  proof (cases "c = 0")
    case False
    then have "0 < cmove m c" using sizemap_pos(3)[OF m, of c] that by simp
    then have "1 < cmove m c \<or> cmove m c dvd 1" by (cases "cmove m c = 1") auto
    then show ?thesis using False by (simp add: fl_ok_def FreeList_Init_def fl_consts)
  qed (simp add: fl_ok_def FreeList_Init_def fl_consts)
  then show "cache_ok (\<lambda>_. 8192) m h" using e by (simp add: cache_ok_def empty_cache_def cache_bytes_def FreeList_Init_def)
next
  assume "empty_cache h"
  then show "lists_of h t c = {}" by (simp add: lists_of_def empty_cache_def FreeList_Init_def)
qed

lemma no_limit_dom: "only_limits w w' \<Longrightarrow> dom (caches w') = dom (caches w)"
proof -
  assume "only_limits w w'"
  then have n: "no_limit (caches w' q) = no_limit (caches w q)" for q by (auto simp: only_limits_def)
  have "caches w' q = None \<longleftrightarrow> caches w q = None" for q using n[of q] by (cases "caches w' q"; cases "caches w q") (simp_all add: no_limit_def)
  then show ?thesis by (auto simp: dom_def)
qed

text \<open>\<open>Init\<close> gives the new cache a share of the budget.\<close>

lemma tcache_init_step:
  assumes lim: "limits {} w" and p: "caches w p = None" "p \<noteq> NULL" and a: "pa_ok sizeof_ThreadCache (insert p (dom (caches w))) a"
  shows "\<exists>h w'. tcache_Init tid p (w\<lparr>threadcache_allocator := a\<rparr>) = Inr w' \<and> limits {p} w' \<and> empty_cache h \<and> tc_tid h = tid \<and>
    only_limits (w\<lparr>threadcache_allocator := a, caches := (caches w)(p \<mapsto> h)\<rparr>) w'"
proof -
  define h where "h = \<lparr>tc_type = 0, tc_size = 0, tc_max_size = 0, tc_lists = (\<lambda>_. FreeList_Init), tc_tid = tid, tc_in_setspecific = False\<rparr>"
  define w1 where "w1 = w\<lparr>threadcache_allocator := a, caches := (caches w)(p \<mapsto> h)\<rparr>"
  have f: "finite (dom (caches w))" "p \<notin> dom (caches w)" using lim p(1) by (auto simp: limits_def)
  have "claimed ((caches w)(p \<mapsto> h)) = claimed (caches w)"
  proof -
    have d: "dom ((caches w)(p \<mapsto> h)) = insert p (dom (caches w))" by auto
    have "claimed ((caches w)(p \<mapsto> h)) = tc_max_size h + (\<Sum>q \<in> dom (caches w). tc_max_size (the (((caches w)(p \<mapsto> h)) q)))"
      unfolding claimed_def d using sum.insert[OF f, of "\<lambda>q. tc_max_size (the (((caches w)(p \<mapsto> h)) q))"] by simp
    also have "(\<Sum>q \<in> dom (caches w). tc_max_size (the (((caches w)(p \<mapsto> h)) q))) = claimed (caches w)"
      unfolding claimed_def by (rule sum.cong) (use f(2) in auto)
    also have "tc_max_size h = 0" by (simp add: h_def)
    finally show ?thesis by (simp only: add_0)
  qed
  then have lim1: "limits {p} w1" using lim p a f(2) by (auto simp: limits_def w1_def)
  have h1: "caches w1 p = Some h" by (simp add: w1_def)
  have "thread_heaps w1 \<noteq> [] \<or> 0 < sint (unclaimed_cache_space w1)"
  proof (cases "thread_heaps w1 = []")
    case True
    then have "dom (caches w) = {}" using lim by (simp add: limits_def w1_def)
    then have "claimed (caches w) = 0" by (simp add: claimed_def)
    then have "unclaimed_cache_space w = overall_thread_cache_size w" using lim by (simp add: limits_def)
    then show ?thesis using lim by (simp add: limits_def w1_def)
  qed simp
  then obtain w2 where 2: "IncreaseCacheLimitLocked p w1 = Inr w2" "limits {p} w2" "only_limits w1 w2" using increase_step[OF lim1 h1] by blast
  have "p \<in> dom (caches w2)" using no_limit_dom[OF 2(3)] h1 by auto
  then obtain h2 where h2: "caches w2 p = Some h2" by blast
  have i: "tcache_Init tid p (w\<lparr>threadcache_allocator := a\<rparr>) = Inr (if tc_max_size h2 = 0
      then (add_max_size p kMinThreadCacheSize w2)\<lparr>unclaimed_cache_space := unclaimed_cache_space w2 - kMinThreadCacheSize\<rparr> else w2)"
    using 2(1) h2 by (simp add: tcache_Init_def w1_def h_def)
  have e: "empty_cache h" "tc_tid h = tid" by (simp_all add: h_def empty_cache_def)
  show ?thesis
  proof (cases "tc_max_size h2 = 0")
    case False
    then show ?thesis using i e 2(2,3) unfolding w1_def by (intro exI[of _ h] exI[of _ w2]) simp
  next
    case True
    let ?w3 = "(add_max_size p kMinThreadCacheSize w2)\<lparr>unclaimed_cache_space := unclaimed_cache_space w2 - kMinThreadCacheSize\<rparr>"
    have "only_limits w1 ?w3"
      by (rule only_limits_trans[OF only_limits_trans[OF 2(3) only_limits_add[of w2 p kMinThreadCacheSize]] only_limits_unclaimed])
    then show ?thesis using i e limits_move[OF 2(2) h2] True unfolding w1_def by (intro exI[of _ h] exI[of _ ?w3]) simp
  qed
qed

lemma threads_cong: "caches w' = caches w \<Longrightarrow> cw w' = cw w \<Longrightarrow> threads_ok App w' = threads_ok App w"
  by (simp add: threads_ok_def)

text \<open>A cache without objects does not matter.\<close>

lemma others_empty:
  assumes "\<And>h. C p = Some h \<Longrightarrow> lists_of h = (\<lambda>_ _. {})" and "\<And>h. C' p = Some h \<Longrightarrow> lists_of h = (\<lambda>_ _. {})" and "\<And>q. q \<noteq> p \<Longrightarrow> C' q = C q"
  shows "others C' X = others C X"
proof -
  have "others D X = others D (insert p X)" if "\<And>h. D p = Some h \<Longrightarrow> lists_of h = (\<lambda>_ _. {})" for D
    using that by (fastforce simp: others_def fun_eq_iff)
  moreover have "others C' (insert p X) = others C (insert p X)"
  proof -
    have "dom C' - insert p X = dom C - insert p X" using assms(3) by (auto simp: dom_def)
    then show ?thesis using assms(3) by (simp add: others_def fun_eq_iff)
  qed
  ultimately show ?thesis using assms(1,2) by metis
qed

lemma threads_empty:
  assumes ok: "threads_ok App w" and e: "\<And>h. caches w p = Some h \<Longrightarrow> lists_of h = (\<lambda>_ _. {})"
    and C': "\<And>q. q \<noteq> p \<Longrightarrow> C' q = caches w q" "\<And>h. C' p = Some h \<Longrightarrow> empty_cache h"
  shows "threads_ok App (w\<lparr>caches := C'\<rparr>)"
proof -
  have l: "lists_of h = (\<lambda>_ _. {})" if "empty_cache h" for h using empty_cache_ok(2)[OF that] by (simp add: fun_eq_iff)
  have o: "others C' X = others (caches w) X" for X using e l C' by (intro others_empty[of _ p]) blast+
  have sm: "sizemap_ok (sizemap (cw w))" using ok by (simp add: threads_ok_def central_inv_def)
  have "cache_ok (\<lambda>_. 8192) (sizemap (cw w)) h \<and> (\<forall>t c. lists_of h t c \<inter> (App t c \<union> others (caches w) {q} t c) = {})" if q: "C' q = Some h" for q h
  proof (cases "q = p")
    case True
    then show ?thesis using C'(2) q empty_cache_ok(1)[OF _ sm] l by simp
  next
    case False
    then show ?thesis using C'(1)[OF False] q ok by (simp add: threads_ok_def)
  qed
  then show ?thesis using ok o by (simp add: threads_ok_def)
qed

text \<open>When there is room for a cache, \<open>NewHeap\<close> does not end the process.\<close>

definition cache_room :: "nat \<Rightarrow> thread_world \<Rightarrow> bool" where
  "cache_room m w \<longleftrightarrow> room m sizeof_ThreadCache (threadcache_allocator w)"

lemma calm_steal: "cache_room m w \<Longrightarrow> calm (cache_room m) (steal_loop i p w)"
  by (induction i arbitrary: w) (auto simp: Let_def cache_room_def add_max_size_def split: option.split)

lemma calm_increase: "cache_room m w \<Longrightarrow> calm (cache_room m) (IncreaseCacheLimitLocked p w)"
  unfolding IncreaseCacheLimitLocked_def using calm_steal by (simp add: cache_room_def add_max_size_def)

lemma calm_tcache_Init: "cache_room m w \<Longrightarrow> calm (cache_room m) (tcache_Init tid p w)"
  unfolding tcache_Init_def Let_def
  by (rule calm_rbind[OF calm_increase[of m]]) (auto simp: cache_room_def add_max_size_def split: option.split)

lemma calm_NewHeap:
  assumes "cache_room (Suc m) w" and "Suc m \<le> 50"
  shows "calm (\<lambda>r. cache_room m (snd r)) (NewHeap tid ty w)"
proof -
  have "0 < sizeof_ThreadCache" "Suc m * sizeof_ThreadCache \<le> kAllocIncrement" using assms(2) by (simp_all add: sizeof_ThreadCache_def kAllocIncrement_def)
  then obtain p a where a: "pa_New sizeof_ThreadCache (threadcache_allocator w) = Inr (p, a)" "room m sizeof_ThreadCache a"
    using assms(1) room_New unfolding cache_room_def by metis
  have "calm (cache_room m) (tcache_Init tid p (w\<lparr>threadcache_allocator := a\<rparr>))" by (rule calm_tcache_Init) (simp add: cache_room_def a(2))
  then show ?thesis unfolding NewHeap_def a(1) rbind_Inr prod.case by (rule calm_rbind) (simp add: cache_room_def Let_def)
qed

lemma NewHeap_crash: "NewHeap tid ty w = Inl AssertFail \<Longrightarrow> \<not> cache_room 1 w"
  using calm_no_crash[OF calm_NewHeap[of 0 w]] by auto

lemma new_heap_step:
  assumes ok: "threads_ok App w" and lim: "limits {} w"
  shows "NewHeap tid ty w = Inl AssertFail \<or> (\<exists>p h w'. NewHeap tid ty w = Inr (p, w') \<and> caches w p = None \<and> caches w' p = Some h \<and> empty_cache h \<and>
    tc_type h = ty \<and> tc_tid h = tid \<and> thread_heaps w' = p # thread_heaps w \<and> threads_ok App w' \<and> limits {} w' \<and>
    (\<forall>q. q \<noteq> p \<longrightarrow> no_limit (caches w' q) = no_limit (caches w q)) \<and> cw w' = cw w \<and> tsd_inited w' = tsd_inited w)"
proof -
  let ?L = "dom (caches w)"
  have a: "pa_ok sizeof_ThreadCache ?L (threadcache_allocator w)" using lim by (simp add: limits_def)
  show ?thesis
  proof (cases rule: cache_source.new_cases[OF a])
    case 1
    then show ?thesis by (simp add: NewHeap_def)
  next
    case (2 p a')
    have p: "caches w p = None" using 2(3) by auto
    obtain h w1 where 1: "tcache_Init tid p (w\<lparr>threadcache_allocator := a'\<rparr>) = Inr w1" "limits {p} w1" "empty_cache h" "tc_tid h = tid"
        "only_limits (w\<lparr>threadcache_allocator := a', caches := (caches w)(p \<mapsto> h)\<rparr>) w1"
      using tcache_init_step[OF lim p 2(2,4)] by blast
    let ?w0 = "w\<lparr>threadcache_allocator := a', caches := (caches w)(p \<mapsto> h)\<rparr>"
    have "threads_ok App (w\<lparr>caches := (caches w)(p \<mapsto> h)\<rparr>)" using p 1(3) by (intro threads_empty[OF ok, of p]) auto
    then have "threads_ok App ?w0" using threads_cong[of ?w0 "w\<lparr>caches := (caches w)(p \<mapsto> h)\<rparr>"] by simp
    then have ok1: "threads_ok App w1" by (rule only_limits_threads[OF 1(5)])
    have "no_limit (caches ?w0 p) = no_limit (caches w1 p)" using 1(5) by (auto simp: only_limits_def)
    then obtain m where m: "caches w1 p = Some (h\<lparr>tc_max_size := m\<rparr>)" using no_limit_same[of "caches ?w0 p" "caches w1 p" h] by auto
    define g where "g = h\<lparr>tc_max_size := m, tc_type := ty\<rparr>"
    define w2 where "w2 = w1\<lparr>caches := (caches w1)(p \<mapsto> g), next_memory_steal := (if thread_heaps w1 = [] then p else next_memory_steal w1),
      thread_heaps := p # thread_heaps w1, thread_heap_count := thread_heap_count w1 + 1\<rparr>"
    have r: "NewHeap tid ty w = Inr (p, w2)" using 2(1) 1(1) m by (simp add: NewHeap_def w2_def g_def)
    have g: "empty_cache g" "tc_type g = ty" "tc_tid g = tid" "tc_max_size g = m" using 1(3,4) by (simp_all add: g_def empty_cache_def)
    have "threads_ok App (w1\<lparr>caches := (caches w1)(p \<mapsto> g)\<rparr>)"
      using m g(1) empty_cache_ok(2)[of "h\<lparr>tc_max_size := m\<rparr>"] 1(3) by (intro threads_empty[OF ok1, of p]) (auto simp: empty_cache_def fun_eq_iff)
    then have ok2: "threads_ok App w2" using threads_cong[of w2 "w1\<lparr>caches := (caches w1)(p \<mapsto> g)\<rparr>"] by (simp add: w2_def)
    have lim1: "limits {p} (w1\<lparr>caches := (caches w1)(p \<mapsto> g), cw := cw w1\<rparr>)" by (rule limits_cache[OF 1(2) m]) (simp add: g(4))
    have "limits {} w2"
    proof -
      have d: "insert p (dom (caches w1) - {p}) = dom (caches w1)" "insert p (dom (caches w1)) = dom (caches w1)" using m by auto
      show ?thesis using lim1 2(2) m unfolding limits_def w2_def by (auto simp: d)
    qed
    moreover have "thread_heaps w2 = p # thread_heaps w" using 1(5) by (auto simp: only_limits_def w2_def)
    moreover have "no_limit (caches w2 q) = no_limit (caches w q)" if "q \<noteq> p" for q using 1(5) that by (auto simp: only_limits_def w2_def)
    moreover have "cw w2 = cw w" "tsd_inited w2 = tsd_inited w" "caches w2 p = Some g" using 1(5) by (auto simp: only_limits_def w2_def)
    ultimately show ?thesis using r p ok2 g by blast
  qed
qed

lemma next_in_other:
  assumes "distinct ps" and "p \<noteq> NULL"
  shows "next_in p ps = NULL \<or> next_in p ps \<in> set (remove1 p ps)"
proof -
  have d: "distinct (dropWhile (\<lambda>q. q \<noteq> p) ps)" using assms(1) by (rule distinct_dropWhile)
  have "next_in p ps \<noteq> p"
  proof (cases "dropWhile (\<lambda>q. q \<noteq> p) ps")
    case (Cons x xs)
    have "x = p" using Cons hd_dropWhile[of "\<lambda>q. q \<noteq> p" ps] by auto
    then show ?thesis using d Cons assms(2) by (cases xs) (auto simp: next_in_def)
  next
    case Nil
    show ?thesis unfolding next_in_def Nil using assms(2) by simp
  qed
  then show ?thesis using next_in_set[of p ps] assms(1) by (auto simp: set_remove1_eq)
qed

lemma claimed_remove:
  assumes "finite (dom C)" and "C p = Some h"
  shows "claimed (C(p := None)) = claimed C - tc_max_size h"
proof -
  have p: "p \<in> dom C" using assms(2) by blast
  have d: "dom (C(p := None)) = dom C - {p}" by auto
  have "claimed (C(p := None)) = (\<Sum>q \<in> dom C - {p}. tc_max_size (the (C q)))" unfolding claimed_def d by (rule sum.cong) auto
  moreover have "claimed C = tc_max_size h + (\<Sum>q \<in> dom C - {p}. tc_max_size (the (C q)))"
    unfolding claimed_def using sum.remove[OF assms(1) p, of "\<lambda>q. tc_max_size (the (C q))"] assms(2) by simp
  ultimately show ?thesis by (simp only: add_diff_cancel_left')
qed

lemma delete_cache_step:
  assumes ok: "threads_ok App w" and lim: "limits {} w" and p: "caches w p = Some h" and t: "tc_type h = DEFAULT_HEAP_TYPE"
    and fuel: "card (dom (spans (ph (cw w)))) < fuel"
  shows "\<exists>w'. DeleteCache fuel p w = Inr w' \<and> caches w' = (caches w)(p := None) \<and> threads_ok App w' \<and> limits {} w' \<and>
    tls_heap w' = tls_heap w"
proof -
  obtain h1 s1 where 1: "cleanup_classes fuel [0..<nat kNumClasses] h (cw w) = Inr ((), h1, s1)" "cache_keeps (\<lambda>_. 8192) (rest w App p) h (cw w) h1 s1"
      "\<forall>c < 88. c \<in> set [0..<nat kNumClasses] \<or> fl_list (tc_lists h c) = [] \<longrightarrow> fl_list (tc_lists h1 c) = []"
  proof -
    have "\<exists>h' s'. cleanup_classes fuel [0..<nat kNumClasses] h (cw w) = Inr ((), h', s') \<and> cache_keeps (\<lambda>_. 8192) (rest w App p) h (cw w) h' s' \<and>
        (\<forall>c < 88. c \<in> set [0..<nat kNumClasses] \<or> fl_list (tc_lists h c) = [] \<longrightarrow> fl_list (tc_lists h' c) = [])"
      by (rule cleanup_classes_step[OF threads_view[OF ok p] _ classes_lt t fuel]) simp
    then show thesis using that by blast
  qed
  define w1 where "w1 = w\<lparr>caches := (caches w)(p \<mapsto> h1), cw := s1\<rparr>"
  have r: "Cleanup fuel p w = Inr w1" using p 1(1) by (simp add: Cleanup_def on_cache_def w1_def)
  have ok1: "threads_ok App w1" unfolding w1_def by (rule threads_keep[OF ok p 1(2)])
  have lim1: "limits {} w1" unfolding w1_def by (rule limits_cache[OF lim p]) (use 1(2) in \<open>simp add: cache_keeps_def\<close>)
  have p1: "caches w1 p = Some h1" by (simp add: w1_def)
  have e: "lists_of h1 = (\<lambda>_ _. {})" using 1(3) by (auto simp: lists_of_def fun_eq_iff kNumClasses_def)
  define hs where "hs = remove1 p (thread_heaps w1)"
  define st where "st = (if next_memory_steal w1 = p then next_in p (thread_heaps w1) else next_memory_steal w1)"
  define st2 where "st2 = (if st = NULL then (case hs of [] \<Rightarrow> NULL | q # _ \<Rightarrow> q) else st)"
  define w2 where "w2 = w1\<lparr>caches := (caches w1)(p := None), thread_heaps := hs, thread_heap_count := thread_heap_count w1 - 1, next_memory_steal := st2,
    unclaimed_cache_space := unclaimed_cache_space w1 + tc_max_size h1, threadcache_allocator := pa_Delete p (threadcache_allocator w1)\<rparr>"
  have d: "DeleteCache fuel p w = Inr w2" using r p1 by (simp add: DeleteCache_def Let_def w2_def hs_def st_def st2_def)
  have "threads_ok App (w1\<lparr>caches := (caches w1)(p := None)\<rparr>)" using e p1 by (intro threads_empty[OF ok1, of p]) auto
  then have ok2: "threads_ok App w2" using threads_cong[of w2 "w1\<lparr>caches := (caches w1)(p := None)\<rparr>"] by (simp add: w2_def)
  have l: "finite (dom (caches w1))" "distinct (thread_heaps w1)" "set (thread_heaps w1) = dom (caches w1)"
      "thread_heap_count w1 = int (length (thread_heaps w1))" "next_memory_steal w1 = NULL \<or> next_memory_steal w1 \<in> set (thread_heaps w1)"
      "caches w1 NULL = None" "unclaimed_cache_space w1 + claimed (caches w1) = overall_thread_cache_size w1" "0 < sint (overall_thread_cache_size w1)"
      "pa_ok sizeof_ThreadCache (dom (caches w1)) (threadcache_allocator w1)"
    using lim1 by (auto simp: limits_def)
  have pm: "p \<in> set (thread_heaps w1)" using l(3) p1 by auto
  have p0: "p \<noteq> NULL" using l(6) p1 by (metis option.distinct(1))
  have "st = NULL \<or> st \<in> set hs" using l(5) next_in_other[OF l(2) p0] l(2) by (auto simp: st_def hs_def set_remove1_eq)
  then have "st2 = NULL \<or> st2 \<in> set hs" by (auto simp: st2_def split: list.splits)
  moreover have "distinct hs" "set hs = dom (caches w1) - {p}" using l(2,3) by (simp_all add: hs_def distinct_remove1 set_remove1_eq)
  moreover have "thread_heap_count w1 - 1 = int (length hs)" using l(4) pm length_pos_if_in_set[OF pm] by (simp add: hs_def length_remove1 of_nat_diff Suc_leI)
  moreover have "unclaimed_cache_space w1 + tc_max_size h1 + claimed ((caches w1)(p := None)) = overall_thread_cache_size w1"
    unfolding claimed_remove[OF l(1) p1] using l(7) by simp
  moreover have "pa_ok sizeof_ThreadCache (dom (caches w1) - {p}) (pa_Delete p (threadcache_allocator w1))"
    using l(3) pm by (intro cache_source.del_ok[OF l(9)]) simp
  ultimately have "limits {} w2" using l by (auto simp: limits_def w2_def)
  moreover have "caches w2 = (caches w)(p := None)" "tls_heap w2 = tls_heap w" by (simp_all add: w2_def w1_def)
  ultimately show ?thesis using d ok2 by blast
qed

text \<open>C11: creating and deleting thread caches keeps the budget. \<open>NewHeap\<close> ends the process only when there is no room for a cache: no released
  one, no rest of a block, and no metadata for a new block. Otherwise the new cache is
  empty and gets its limit from the unclaimed space, from another cache, or beyond the budget. \<open>DeleteCache\<close> of a cache of the default
  type gives all its objects to the central lists and its limit back. In every state the overall budget is the
  unclaimed space plus the limits of all caches, and the list, the count and the steal pointer agree with the caches that exist.\<close>

theorem thread_caches_keep_budget:
  assumes "threads_ok App w" and "limits {} w"
  shows "(NewHeap tid ty w = Inl AssertFail \<and> \<not> cache_room 1 w \<or> (\<exists>p h w'. NewHeap tid ty w = Inr (p, w') \<and> caches w p = None \<and> caches w' p = Some h \<and> empty_cache h \<and>
      tc_type h = ty \<and> tc_tid h = tid \<and> thread_heaps w' = p # thread_heaps w \<and> threads_ok App w' \<and> limits {} w')) \<and>
    (\<forall>p h fuel. caches w p = Some h \<and> tc_type h = DEFAULT_HEAP_TYPE \<and> card (dom (spans (ph (cw w)))) < fuel \<longrightarrow>
      (\<exists>w'. DeleteCache fuel p w = Inr w' \<and> caches w' = (caches w)(p := None) \<and> threads_ok App w' \<and> limits {} w'))"
  using new_heap_step[OF assms, of tid ty] NewHeap_crash[of tid ty w] delete_cache_step[OF assms] by blast

end
