(* ===== verification/Page_Heap_Types.thy ===== *)
theory Page_Heap_Types
  imports Page_Heap_Correct
begin

text \<open>
  What goes wrong when a span is deleted into the heap of the other type, as \<open>CentralFreeList::ReleaseToSpans\<close> does for the spans
  of the restricted heap, and concrete states of the page heap.
\<close>

section \<open>A heap whose lists are empty but whose byte count is not\<close>

definition hollow :: "int \<Rightarrow> page_world \<Rightarrow> bool" where
  "hollow t s \<longleftrightarrow> (\<forall>i \<le> kMaxPages. span_lists s (Freelist t i False) = []) \<and> free_bytes (page_heaps s t) > 0"

lemma hollow_pass: "hollow t s \<Longrightarrow> \<exists>s'. release_pass i t num r s = Inr ((False, r), s') \<and> hollow t s'"
proof (induction i arbitrary: s)
  case (Suc i)
  define s1 where "s1 = (if release_index (page_heaps s t) > kMaxPages then upd_heap t (\<lambda>a. a\<lparr>release_index := 0\<rparr>) s else s)"
  define s2 where "s2 = upd_heap t (\<lambda>a. a\<lparr>release_index := release_index a + 1\<rparr>) s1"
  have 1: "hollow t s1" "hollow t s2" using Suc.prems by (auto simp: hollow_def s1_def s2_def upd_heap_def)
  have "release_index (page_heaps s1 t) \<le> kMaxPages" by (simp add: s1_def upd_heap_def)
  then have "span_lists s1 (Freelist t (release_index (page_heaps s1 t)) False) = []" using 1(1) by (simp add: hollow_def)
  then have "release_pass (Suc i) t num r s = (if r < num then release_pass i t num r s2 else Inr ((False, r), s))"
    by (simp add: s1_def[symmetric] s2_def DLL_IsEmpty_def Let_def)
  then show ?case using Suc.IH[OF 1(2)] Suc.prems by auto
qed simp

lemma hollow_diverges:
  assumes "hollow t s" and "r < num"
  shows "release_loop fuel t num r s = Inl OutOfFuel"
  using assms(1)
proof (induction fuel arbitrary: s)
  case (Suc fuel)
  obtain s' where "release_pass (kMaxPages + 1) t num r s = Inr ((False, r), s')" "hollow t s'" using hollow_pass[OF Suc.prems] by blast
  then show ?case using Suc assms(2) by (simp add: hollow_def del: release_pass.simps)
qed simp

section \<open>Deleting into the wrong heap\<close>

lemma bytes64_pos: "0 < n \<Longrightarrow> n < 2 ^ 31 \<Longrightarrow> 0 < bytes64 n"
proof -
  assume n: "0 < n" "n < 2 ^ 31"
  have "unat (bytes64 n) = n * 8192"
  proof -
    have "bytes64 n = word_of_nat (n * 8192)" by (simp add: bytes64_def kPageShift_def push_bit_eq_mult)
    then show ?thesis using n by (simp only: unat_of_nat) simp
  qed
  then show ?thesis using n by (simp add: word_less_nat_alt)
qed

lemma remove_any_heap: "get_span q s = Inr y \<Longrightarrow> sp_link y = Some (home y) \<Longrightarrow> RemoveFromFreeList h q s = Inr (take_off h q y s)"
proof -
  assume a: "get_span q s = Inr y" "sp_link y = Some (home y)"
  have g: "get_span q s' = Inr y" if "spans s' = spans s" for s' using a(1) that by (auto simp: get_span_def split: if_splits)
  show ?thesis by (simp add: RemoveFromFreeList_def DLL_Remove_def g a(2) take_off_def world_simps)
qed

lemma only_normal_lists:
  assumes wf: "ph_ok {} s" and n: "normals s t = {q}" and y: "spans s q = Some y" "sp_location y = ON_NORMAL_FREELIST" "sp_heaptype y = t"
  shows "span_lists s (Freelist t i False) = (if i = list_index (sp_length y) then [q] else [])"
    and "pages_on (spans s) t False = sp_length y"
proof -
  have l: "sp_link y = Some (home y)" using wf y by (auto simp: ph_ok_def filed_def filed_span_def)
  have h: "home y = Freelist t (list_index (sp_length y)) False" using y by (simp add: home_def)
  have m: "p \<in> set (span_lists s (Freelist t i False)) \<longleftrightarrow> p = q \<and> i = list_index (sp_length y)" for p
  proof
    assume p: "p \<in> set (span_lists s (Freelist t i False))"
    then obtain x where x: "spans s p = Some x" "sp_location x = ON_NORMAL_FREELIST" "sp_heaptype x = t" "i = list_index (sp_length x)"
      by (rule list_member[OF wf]) auto
    then have "p \<in> normals s t" by (simp add: normals_def)
    then show "p = q \<and> i = list_index (sp_length y)" using n x y(1) by auto
  next
    assume "p = q \<and> i = list_index (sp_length y)"
    then show "p \<in> set (span_lists s (Freelist t i False))" using wf y(1) l h by (simp add: ph_ok_def links_def link_of_def)
  qed
  have "distinct (span_lists s (Freelist t i False))" using wf by (simp add: ph_ok_def links_def)
  moreover have "set (span_lists s (Freelist t i False)) = (if i = list_index (sp_length y) then {q} else {})"
    by (rule set_eqI) (simp add: m)
  ultimately show "span_lists s (Freelist t i False) = (if i = list_index (sp_length y) then [q] else [])"
    by (cases "i = list_index (sp_length y)") (auto intro: distinct_set_singleton)
  have "contrib t False (spans s p) = (if p = q then sp_length y else 0)" for p
  proof (cases "p = q")
    case True
    then show ?thesis using y contrib_home[OF l, of t False] by simp
  next
    case False
    have "contrib t False (spans s p) = 0"
    proof (rule ccontr)
      assume "contrib t False (spans s p) \<noteq> 0"
      then obtain x i where x: "spans s p = Some x" "sp_link x = Some (Freelist t i False)"
        by (auto simp: contrib_def split: option.splits list_id.splits if_splits)
      moreover have "filed_span {} p x" using wf x(1) by (simp add: ph_ok_def filed_def)
      ultimately have "p \<in> normals s t" by (cases "sp_location x") (auto simp: filed_span_def home_def normals_def)
      then show False using n False by simp
    qed
    then show ?thesis using False by simp
  qed
  moreover have "q \<in> dom (spans s)" using y(1) by auto
  ultimately show "pages_on (spans s) t False = sp_length y"
    using wf_finite[OF wf] by (simp add: pages_on_def sum.delta)
qed

text \<open>C36: a span of the restricted heap that is deleted into the default heap, next to a free span of its own type, takes that span
  off the list of its own heap while the byte counts of the other heap are changed. If it was the last normal span, the
  own heap then has free bytes and no span, and every later \<open>ReleaseAtLeastNPages\<close> on it runs forever.\<close>

theorem wrong_heap_delete_hangs:
  assumes wf: "ph_ok {} s" and p: "spans s p = Some x" "sp_location x = IN_USE" "sp_link x = None" "sp_heaptype x = t"
    and h: "h \<noteq> t" "\<not> aggressive_decommit (page_heaps s h)" "int (sp_length x) \<le> scavenge_counter (page_heaps s h)"
    and alone: "GetDescriptor (sp_start x - 1) s = NULL"
    and q: "spans s q = Some y" "sp_start y = sp_start x + sp_length x" "sp_location y = ON_NORMAL_FREELIST" "sp_heaptype y = t"
    and last: "normals s t = {q}"
  shows "\<exists>s'. Delete fuel h p s = Inr s' \<and> (0 < num \<longrightarrow> (\<forall>fuel'. ReleaseAtLeastNPages fuel' t num s' = Inl OutOfFuel))"
proof -
  have L: "layout (spans s) (pagemap s)" using wf by (rule wf_layout)
  have ox: "span_ok (pagemap s) p x" and oy: "span_ok (pagemap s) q y" using L p(1) q(1) by (simp_all add: layout_def)
  have n0: "p \<noteq> NULL" "q \<noteq> NULL" and pq: "p \<noteq> q" using ox oy p q by (auto simp: span_ok_def)
  have dec: "dec64 (sp_start x) = sp_start x - 1" using ox by (intro dec64_pos) (simp_all add: span_ok_def BITS_def)
  have ly: "sp_link y = Some (home y)" using wf q by (auto simp: ph_ok_def filed_def filed_span_def)
  have nxt: "pm_get (pagemap s) (sp_start x + sp_length x) = q" using oy q(2) by (simp add: span_ok_def)
  define x1 where "x1 = x\<lparr>sp_sizeclass := 0, sp_sample := False, sp_location := ON_NORMAL_FREELIST\<rparr>"
  define s1 where "s1 = put_span p x1 s"
  have s1: "spans s1 = (spans s)(p \<mapsto> x1)" "pagemap s1 = pagemap s" "page_heaps s1 = page_heaps s" "span_lists s1 = span_lists s"
    by (simp_all add: s1_def put_span_def)
  have gp: "get_span p s = Inr x" "get_span p s1 = Inr x1" "get_span q s1 = Inr y" using n0 pq p(1) q(1) by (simp_all add: get_span_def s1)
  have 1: "merge_prev h p s1 = Inr (0, s1)"
    using alone by (simp add: merge_prev_def gp GetDescriptor_def s1 x1_def dec)
  define k where "k = sp_start x + (sp_length x + sp_length y) - 1"
  have "ensured (pagemap s) k" using oy q(2) by (auto simp: span_ok_def k_def)
  then obtain t' where t': "pm_set k p (pagemap s) = Inr t'" by (rule pm_set_ok[where v = p]) metis
  define x2 where "x2 = x1\<lparr>sp_length := sp_length x1 + sp_length y\<rparr>"
  define s2 where "s2 = (put_span p x2 (DeleteSpan q (take_off h q y s1)))\<lparr>pagemap := t'\<rparr>"
  have rem: "RemoveFromFreeList h q s1 = Inr (take_off h q y s1)" by (rule remove_any_heap[OF gp(3) ly])
  have upd: "upd_span p (\<lambda>x. x\<lparr>sp_length := sp_length x + sp_length y\<rparr>) (DeleteSpan q (take_off h q y s1)) =
      Inr (put_span p x2 (DeleteSpan q (take_off h q y s1)))"
    using n0 pq by (simp add: upd_span_def get_span_def DeleteSpan_def s1 x2_def)
  have ms: "map_set k p (put_span p x2 (DeleteSpan q (take_off h q y s1))) = Inr s2"
    using t' by (simp add: map_set_def s2_def put_span_def DeleteSpan_def s1)
  have mm: "MayMergeSpans h x1 y s1" using h(2) p(4) q(3,4) by (simp add: MayMergeSpans_def s1 x1_def)
  have xs: "sp_start x1 = sp_start x" "sp_length x1 = sp_length x" by (simp_all add: x1_def)
  have ndq: "GetDescriptor (sp_start x1 + sp_length x1) s1 = q" using nxt by (simp add: GetDescriptor_def s1 xs)
  have 2: "\<exists>tmp. merge_next h p (sp_start x1 + sp_length x1) s1 = Inr (tmp, s2)"
    unfolding merge_next_def gp rbind_Inr Let_def ndq if_not_P[OF n0(2)] if_P[OF mm] rem upd
    unfolding xs k_def[symmetric] ms rbind_Inr by blast
  then obtain tmp where 2: "merge_next h p (sp_start x1 + sp_length x1) s1 = Inr (tmp, s2)" by blast
  have ag: "\<not> aggressive_decommit (page_heaps s2 h)"
    using h(2) by (simp add: s2_def put_span_def DeleteSpan_def take_off_def s1)
  have p2: "get_span p s2 = Inr x2" using n0 by (simp add: get_span_def s2_def put_span_def)
  have x2f: "x2\<lparr>sp_heaptype := sp_heaptype x1\<rparr> = x2" "sp_location x2 = ON_NORMAL_FREELIST" "sp_link x2 = None"
    using p(3) by (simp_all add: x2_def x1_def)
  have idem: "upd_span p (\<lambda>y. y\<lparr>sp_heaptype := sp_heaptype x1\<rparr>) s2 = Inr s2"
    using x2f(1) by (simp add: upd_span_def p2) (simp add: s2_def put_span_def)
  have g2: "get_span p s' = Inr x2" if "spans s' = spans s2" for s' using p2 that by (auto simp: get_span_def split: if_splits)
  obtain s3 where 3: "PrependToFreeList h p s2 = Inr s3" "\<And>i. span_lists s3 (Freelist t i False) = span_lists s2 (Freelist t i False)"
      "free_bytes (page_heaps s3 t) = free_bytes (page_heaps s2 t)" "scavenge_counter (page_heaps s3 h) = scavenge_counter (page_heaps s2 h)"
    using h(1) by (simp add: PrependToFreeList_def DLL_Prepend_def g2 x2f upd_heap_def put_span_def)
  have mg: "MergeIntoFreeList h p s1 = Inr s3"
    using 3(1) ag by (simp add: MergeIntoFreeList_def gp 1 2 idem)
  have sc: "scavenge_counter (page_heaps s2 h) = scavenge_counter (page_heaps s h)"
    by (simp add: s2_def put_span_def DeleteSpan_def take_off_def s1)
  define s4 where "s4 = set_scavenge_counter h (scavenge_counter (page_heaps s3 h) - int (sp_length x)) s3"
  have "IncrementalScavenge fuel h (sp_length x) s3 = Inr s4"
    using h(3) 3(4) sc by (simp add: IncrementalScavenge_def s4_def set_scavenge_counter_def upd_heap_def Let_def)
  then have del: "Delete fuel h p s = Inr s4"
    using mg by (simp add: Delete_def gp(1) upd_span_def s1_def x1_def)
  have lists: "span_lists s4 (Freelist t i False) = []" for i
    using 3(2) only_normal_lists(1)[OF wf last q(1,3,4), of i] q
    by (auto simp: s4_def set_scavenge_counter_def upd_heap_def s2_def put_span_def DeleteSpan_def take_off_def home_def s1)
  have "free_bytes (page_heaps s4 t) = bytes64 (sp_length y)"
    using 3(3) h(1) wf only_normal_lists(2)[OF wf last q(1,3,4)]
    by (simp add: s4_def set_scavenge_counter_def upd_heap_def s2_def put_span_def DeleteSpan_def take_off_def s1 ph_ok_def stats_ok_def)
  moreover have "0 < bytes64 (sp_length y)"
    using span_length_bound[OF L q(1)] oy by (intro bytes64_pos) (simp_all add: span_ok_def)
  ultimately have "hollow t s4" using lists by (simp add: hollow_def)
  then have "0 < num \<longrightarrow> (\<forall>fuel'. ReleaseAtLeastNPages fuel' t num s4 = Inl OutOfFuel)"
    by (simp add: ReleaseAtLeastNPages_def hollow_diverges)
  then show ?thesis using del by blast
qed

section \<open>A concrete state\<close>

text \<open>
  Two pages of the restricted heap: page 10 in use, page 11 free. The system has one more megabyte to give.
\<close>

definition span_P :: ptr where "span_P = 4294967296"
definition span_Q :: ptr where "span_Q = 4294967344"

definition two_pages :: page_world where
  "two_pages =
     \<lparr>spans = [span_P \<mapsto> new_span 10 1,
               span_Q \<mapsto> (new_span 11 1)\<lparr>sp_link := Some (Freelist 0 1 False), sp_location := ON_NORMAL_FREELIST\<rparr>],
      span_lists = (\<lambda>l. if l = Freelist 0 1 False then [span_Q] else []),
      pagemap = \<lparr>pm_root = [0 \<mapsto> [0 \<mapsto> (\<lambda>k. if k = 10 then span_P else if k = 11 then span_Q else NULL)]],
                 pm_alloc = (\<lambda>_. True), pm_allocs = 2\<rparr>,
      pagemap_cache = pc_Clear 0,
      page_heaps = (\<lambda>h. (page_heap_init False)\<lparr>free_bytes := (if h = 0 then 8192 else 0), scavenge_counter := 5\<rparr>),
      span_allocator = object_allocator0\<lparr>pa_cnt := 1, pa_area := 4294967392, pa_avail := 130976, pa_inuse := 2\<rparr>,
      sys_alloc = (\<lambda>k sz h. if k = 0 \<and> sz \<le> 1048576 then Some (8589934592, 1048576) else None), sys_allocs_done = 0,
      sys_release = (\<lambda>_. True), sys_releases_done = 0, heap_taken = 0, meta_taken = (\<lambda>_ _. 0), heap_limit_mb = 0,
      release_rate = 1, growth_stacks = []\<rparr>"

lemma two_pages_get: "pm_get (pagemap two_pages) k = (if k = 10 then span_P else if k = 11 then span_Q else NULL)"
proof (cases "k < 2048")
  case True
  then show ?thesis by (simp add: pm_get_def two_pages_def pm_i1_def pm_i2_def pm_i3_def radix_consts)
next
  case False
  have "\<not> (pm_i1 k = 0 \<and> pm_i2 k = 0)"
  proof
    assume "pm_i1 k = 0 \<and> pm_i2 k = 0"
    then have "k div 2 ^ LEAF_BITS = 0" using leaf_of_indexes[of k] by simp
    then show False using False by (simp add: LEAF_BITS_def div_eq_0_iff)
  qed
  then show ?thesis using False by (auto simp: pm_get_def two_pages_def)
qed

lemma two_pages_ensured: "k < 2048 \<Longrightarrow> ensured (pagemap two_pages) k"
  by (simp add: ensured_def two_pages_def pm_i1_def pm_i2_def radix_consts)

lemma two_pages_spans: "spans two_pages p = Some x \<longleftrightarrow> p = span_P \<and> x = new_span 10 1 \<or>
    p = span_Q \<and> x = (new_span 11 1)\<lparr>sp_link := Some (Freelist 0 1 False), sp_location := ON_NORMAL_FREELIST\<rparr>"
  by (auto simp: two_pages_def span_P_def span_Q_def)

lemma two_pages_P: "spans two_pages span_P = Some (new_span 10 1)"
  and two_pages_Q: "spans two_pages span_Q =
    Some ((new_span 11 1)\<lparr>sp_link := Some (Freelist 0 1 False), sp_location := ON_NORMAL_FREELIST\<rparr>)"
  by (auto simp: two_pages_def span_P_def span_Q_def)

lemma two_pages_covered: "covered (spans two_pages) = {10, 11}"
proof -
  have r: "rng (new_span 10 1) = {10}" "rng ((new_span 11 1)\<lparr>sp_link := l, sp_location := c\<rparr>) = {11}" for l c
    by (auto simp: rng_def new_span_def)
  have "covered (spans two_pages) \<subseteq> {10, 11}" unfolding covered_def two_pages_spans using r by auto
  moreover have "{10, 11} \<subseteq> covered (spans two_pages)"
    using rng_covered[of "spans two_pages" span_P, OF two_pages_P] rng_covered[of "spans two_pages" span_Q, OF two_pages_Q] unfolding r by simp
  ultimately show ?thesis by blast
qed

lemma two_pages_dom: "dom (spans two_pages) = {span_P, span_Q}"
  by (auto simp: two_pages_def)

lemma two_pages_ok: "ph_ok {} two_pages"
proof -
  have "layout (spans two_pages) (pagemap two_pages)"
    unfolding layout_def two_pages_covered two_pages_dom two_pages_spans
    by (auto simp: span_ok_def two_pages_get two_pages_ensured new_span_def rng_def span_P_def span_Q_def BITS_def split: if_splits)
  moreover have "alloc_ok (spans two_pages) (span_allocator two_pages)"
  proof -
    let ?a = "span_allocator two_pages"
    have m: "meta_contract ?a" using object_allocator0_meta by (simp add: two_pages_def meta_contract_def block_extent_def)
    have u: "used_extent ?a = {4294967296..<4295098368}"
      by (auto simp: used_extent_def block_extent_def two_pages_def object_allocator0_def kAllocIncrement_def lessThan_Suc)
    have "area_extent ?a = {4294967392..<4295098368}" by (simp add: area_extent_def two_pages_def)
    then have "pa_ok sizeof_Span {span_P, span_Q} ?a"
      using m u unfolding pa_ok_def
      by (auto simp: obj_extent_def sizeof_Span_def span_P_def span_Q_def two_pages_def object_allocator0_def)
    then show ?thesis unfolding alloc_ok_def two_pages_dom by blast
  qed
  moreover have "links (spans two_pages) (span_lists two_pages)"
    by (auto simp: links_def link_of_def two_pages_def new_span_def span_P_def span_Q_def split: if_splits option.splits)
  moreover have "filed {} (spans two_pages)"
    unfolding filed_def two_pages_spans by (auto simp: filed_span_def home_def new_span_def list_index_def kMaxPages_def)
  moreover have "stats_ok (spans two_pages) (page_heaps two_pages)"
    by (auto simp: stats_ok_def pages_on_def two_pages_dom contrib_def two_pages_def new_span_def span_P_def span_Q_def bytes64_def
        kPageShift_def page_heap_init_def)
  moreover have "coal {} (spans two_pages) (page_heaps two_pages)"
    unfolding coal_def two_pages_spans by (auto simp: mergeable_def new_span_def)
  ultimately show ?thesis by (simp add: ph_ok_def)
qed

lemma two_pages_contract: "sys_contract two_pages"
proof -
  have "region 8589934592 1048576 = {1048576..<1048704}" by (simp add: region_def)
  moreover have "card ({10, 11} \<union> {1048576..<1048704 :: nat}) \<le> card {10, 11 :: nat} + card {1048576..<1048704 :: nat}" by (rule card_Un_le)
  ultimately show ?thesis
    unfolding sys_contract_def two_pages_covered by (auto simp: two_pages_def BITS_def split: if_splits)
qed

lemma two_pages_card: "card (dom (spans two_pages)) = 2"
  by (simp add: two_pages_dom span_P_def span_Q_def)

lemma two_pages_heaps: "scavenge_counter (page_heaps two_pages h) = 5" "\<not> aggressive_decommit (page_heaps two_pages h)"
  by (simp_all add: two_pages_def page_heap_init_def)

lemma two_pages_normals: "normals two_pages 0 = {span_Q}"
proof -
  have "sp_location (new_span 10 1) \<noteq> ON_NORMAL_FREELIST" by (simp add: new_span_def)
  moreover have "sp_heaptype (new_span 11 1) = 0" by (simp add: new_span_def)
  ultimately show ?thesis unfolding normals_def two_pages_spans by auto
qed

section \<open>The properties at that state\<close>

lemma two_pages_room: "span_room 2 two_pages"
  by (simp add: span_room_def room_def two_pages_def sizeof_Span_def)

lemma two_pages_no_limit: "heap_limit_mb two_pages = 0"
  by (simp add: two_pages_def)

text \<open>A request of one page is served from the free list, one of 128 pages by the system.\<close>

lemma two_pages_grows: "n \<le> 128 \<Longrightarrow> \<not> grow_fails h n two_pages s'"
  by (simp add: grow_fails_def sys_refuses_def node_refused_def two_pages_def kMinSystemAlloc_def kMaxPages_def kMaxValidPages_def kPageShift_def max_def)

lemma two_pages_not_refused:
  assumes "n \<in> {1, 128}"
  shows "\<not> grow_refused 0 n two_pages s'"
proof -
  have "\<not> no_fit 0 1 two_pages" using two_pages_Q by (force simp: no_fit_def new_span_def)
  then show ?thesis using assms two_pages_grows[of 128] by (auto simp: grow_refused_def)
qed


theorem page_heap_Delete_correct_witness:
  "\<exists>s'. Delete 3 0 span_P two_pages = Inr s' \<and> ph_ok {} s' \<and> deletes 0 span_P (new_span 10 1) two_pages s'"
  by (rule page_heap_Delete_correct[OF two_pages_ok two_pages_P]) (simp_all add: two_pages_card new_span_def)

theorem page_heap_release_ends_witness:
  "\<exists>r s'. ReleaseAtLeastNPages 2 0 7 two_pages = Inr (r, s') \<and> ph_ok {} s' \<and> releases 0 two_pages s' \<and>
    (7 \<le> r \<or> free_bytes (page_heaps s' 0) = 0 \<or> (\<exists>k. \<not> sys_release two_pages k))"
  by (rule page_heap_release_ends[OF two_pages_ok]) (simp add: two_pages_normals)

theorem register_size_class_correct_witness:
  "\<exists>s'. RegisterSizeClass span_P 5 two_pages = Inr s' \<and> ph_ok {} s' \<and>
    spans s' = (spans two_pages)(span_P \<mapsto> (new_span 10 1)\<lparr>sp_sizeclass := 5\<rparr>) \<and>
    (\<forall>k. GetDescriptor k s' = (if k \<in> rng (new_span 10 1) then span_P else GetDescriptor k two_pages))"
  by (rule register_size_class_correct[OF two_pages_ok two_pages_P]) (simp_all add: new_span_def)

theorem check_expensive_passes_witness: "CheckExpensive 0 two_pages = Inr True"
  by (rule check_expensive_passes[OF two_pages_ok]) (simp add: two_pages_covered)

theorem wrong_heap_delete_hangs_witness:
  "\<exists>s'. Delete 1 1 span_P two_pages = Inr s' \<and> ReleaseAtLeastNPages 100 0 1 s' = Inl OutOfFuel"
proof -
  have "\<exists>s'. Delete 1 1 span_P two_pages = Inr s' \<and> ((0::nat) < 1 \<longrightarrow> (\<forall>fuel'. ReleaseAtLeastNPages fuel' 0 1 s' = Inl OutOfFuel))"
  proof (rule wrong_heap_delete_hangs[OF two_pages_ok two_pages_P _ _ _ _ _ _ _ two_pages_Q _ _ _ two_pages_normals])
    show "GetDescriptor (sp_start (new_span 10 1) - 1) two_pages = NULL" by (simp add: GetDescriptor_def two_pages_get new_span_def)
    show "int (sp_length (new_span 10 1)) \<le> scavenge_counter (page_heaps two_pages 1)" by (simp add: two_pages_heaps new_span_def)
    show "\<not> aggressive_decommit (page_heaps two_pages 1)" by (simp add: two_pages_heaps)
  qed (simp_all add: new_span_def)
  then show ?thesis by (elim exE conjE) (rule exI, rule conjI, assumption, simp)
qed

end
