(* ===== verification/Size_Map_Correct.thy ===== *)
theory Size_Map_Correct
  imports Size_Map
begin

text \<open>
  Correctness of the size classes: the tables are built without a failed check, and every request up
  to the largest small size is rounded to the smallest class that holds it. The class sizes are
  evaluated; the array that maps sizes to classes, with its 32768 writes, is treated by induction.
\<close>

section \<open>The table of classes\<close>

definition tcmalloc_sizes :: "int list" where
  "tcmalloc_sizes =
     [0, 8, 16, 32, 48, 64, 80, 96, 112, 128, 144, 160, 176, 192, 208, 224, 240, 256, 288, 320, 352, 384, 416, 448,
      480, 512, 576, 640, 704, 768, 832, 896, 960, 1024, 1152, 1280, 1408, 1536, 1792, 2048, 2304, 2560, 2816, 3072,
      3328, 4096, 4608, 5120, 6144, 6656, 8192, 9216, 10240, 12288, 13312, 16384, 20480, 24576, 26624, 32768, 40960,
      49152, 57344, 65536, 73728, 81920, 90112, 98304, 106496, 114688, 122880, 131072, 139264, 147456, 155648, 163840,
      172032, 180224, 188416, 196608, 204800, 212992, 221184, 229376, 237568, 245760, 253952, 262144]"

definition tcmalloc_pages :: "int list" where
  "tcmalloc_pages =
     [0, 2, 2, 2, 2, 2, 2, 2, 2, 2, 2, 2, 2, 2, 2, 2, 2, 2, 2, 2, 2, 2, 2, 2, 2, 2, 2, 2, 2, 2, 2, 2, 2, 2, 2, 2, 2, 2,
      2, 2, 2, 2, 3, 2, 3, 2, 3, 2, 3, 5, 2, 5, 4, 3, 5, 2, 5, 3, 7, 4, 5, 6, 7, 8, 9, 10, 11, 12, 13, 14, 15, 16, 17,
      18, 19, 20, 21, 22, 23, 24, 25, 26, 27, 28, 29, 30, 31, 32]"

lemma build_classes_result:
  "build_classes kDefaultTransferNumObjecs kAlignment 1 (replicate (nat kNumClasses) 0) (replicate (nat kNumClasses) 0) =
    Inr (kNumClasses, tcmalloc_sizes, tcmalloc_pages)"
  by code_simp

text \<open>What the array needs of the sizes: increasing multiples of 8, above 1024 of 128.\<close>

fun sizes_ok :: "int \<Rightarrow> int list \<Rightarrow> bool" where
  "sizes_ok prev [] \<longleftrightarrow> True"
| "sizes_ok prev (m # ms) \<longleftrightarrow>
     prev < m \<and> m mod 8 = 0 \<and> (1024 < m \<longrightarrow> m mod 128 = 0) \<and> m \<le> kMaxSizeInt \<and> sizes_ok m ms"

lemma tcmalloc_sizes_ok: "sizes_ok (- 8) (tl tcmalloc_sizes)"
  by code_simp

section \<open>The array\<close>

lemma mod8: "(x :: int) mod 8 = 0 \<Longrightarrow> \<exists>k. x = 8 * k"
  by (auto simp: mod_eq_0_iff_dvd dvd_def)

text \<open>The index as a function of the number of 8-byte units.\<close>

definition unit_index :: "int \<Rightarrow> int" where
  "unit_index j = (if j \<le> 127 then j + 1 else j div 16 + 121)"

lemma ClassIndex_units:
  assumes "0 \<le> s" and "s \<le> kMaxSizeInt"
  shows "ClassIndex s = unit_index ((s - 1) div 8)"
proof -
  have "(s + 7) div 8 = (s - 1) div 8 + 1" using div_add_self2[of 8 "s - 1"] by simp
  moreover have "(15487 + s) div 128 = (s - 1) div 128 + 121" using div_mult_self2[of 128 "s - 1" 121] by (simp add: add.commute)
  moreover have "(s - 1) div 128 = (s - 1) div 8 div 16" using zdiv_zmult2_eq[of 16 "s - 1" 8] by simp
  moreover have "s \<le> 1024 \<longleftrightarrow> (s - 1) div 8 \<le> 127" by linarith
  ultimately show ?thesis using assms by (simp add: ClassIndex_def unit_index_def size_consts)
qed

lemma ClassIndex_range:
  assumes "0 \<le> s" and "s \<le> kMaxSizeInt"
  shows "0 \<le> ClassIndex s" and "ClassIndex s < kClassArraySize"
  using assms by (auto simp: ClassIndex_def size_consts)

lemma ClassIndex_round:
  assumes "0 \<le> s" and "s \<le> kMaxSizeInt"
  shows "ClassIndex s = ClassIndex ((s + 7) div 8 * 8)" and "(s + 7) div 8 * 8 \<le> kMaxSizeInt"
proof -
  have k: "(s + 7) div 8 = (s - 1) div 8 + 1" using div_add_self2[of 8 "s - 1"] by simp
  show t: "(s + 7) div 8 * 8 \<le> kMaxSizeInt" using zdiv_mono1[of "s + 7" 262151 8] assms(2) by (simp add: kMaxSizeInt_def)
  have "((s + 7) div 8 * 8 - 1) div 8 = (s - 1) div 8" using k by simp
  then show "ClassIndex s = ClassIndex ((s + 7) div 8 * 8)"
    using ClassIndex_units[OF assms] ClassIndex_units[OF _ t] assms(1) by simp
qed

text \<open>Multiples of 8 on different sides of a class boundary have different indexes.\<close>

lemma ClassIndex_apart:
  assumes "0 \<le> t" "t \<le> m" "m < u" "u \<le> kMaxSizeInt" "t mod 8 = 0" "u mod 8 = 0" "m mod 8 = 0" "1024 < m \<longrightarrow> m mod 128 = 0"
  shows "ClassIndex t < ClassIndex u"
proof -
  obtain a b c where abc: "t = 8 * a" "m = 8 * b" "u = 8 * c" using assms(5-7) by (metis mult_div_mod_eq add_0_right)
  then have le: "0 \<le> a" "a \<le> b" "b < c" using assms(1-3) by simp_all
  have "unit_index (a - 1) < unit_index (c - 1)"
  proof (cases "b \<le> 128")
    case True
    then show ?thesis using le by (auto simp: unit_index_def)
  next
    case False
    then have "m mod 128 = 0" using assms(8) abc by simp
    then obtain e where "m = 128 * e" by auto
    then have e: "b = 16 * e" using abc by simp
    then have "(a - 1) div 16 < e" "e \<le> (c - 1) div 16" using le by linarith+
    then show ?thesis using le False e by (auto simp: unit_index_def)
  qed
  moreover have "(8 * x - 1) div 8 = x - 1" for x :: int by simp
  ultimately show ?thesis using ClassIndex_units assms abc by simp
qed

lemma fill_class_spec:
  assumes "0 \<le> s" and "s mod 8 = 0" and "mx \<le> kMaxSizeInt" and "length arr = nat kClassArraySize"
  shows "\<exists>arr'. fill_class c mx s arr = Inr arr' \<and> length arr' = nat kClassArraySize \<and>
    (\<forall>t. s \<le> t \<and> t \<le> mx \<and> t mod 8 = 0 \<longrightarrow> arr' ! nat (ClassIndex t) = c) \<and>
    (\<forall>i. (\<forall>t. s \<le> t \<and> t \<le> mx \<and> t mod 8 = 0 \<longrightarrow> i \<noteq> nat (ClassIndex t)) \<longrightarrow> arr' ! i = arr ! i)"
  using assms
proof (induction c mx s arr rule: fill_class.induct)
  case (1 c mx s arr)
  show ?case
  proof (cases "s \<le> mx")
    case False
    then show ?thesis using 1 by (subst fill_class.simps) auto
  next
    case True
    have i: "0 \<le> ClassIndex s" "ClassIndex s < kClassArraySize" using ClassIndex_range 1(2,4) True by simp_all
    let ?a = "arr[nat (ClassIndex s) := c]"
    have w: "wr arr (ClassIndex s) c = Inr ?a" using i 1(5) by simp
    have "(s + kAlignment) mod 8 = 0" "0 \<le> s + kAlignment" using 1(2,3) by (simp_all add: kAlignment_def)
    then obtain arr' where a: "fill_class c mx (s + kAlignment) ?a = Inr arr'" "length arr' = nat kClassArraySize"
        "\<forall>t. s + kAlignment \<le> t \<and> t \<le> mx \<and> t mod 8 = 0 \<longrightarrow> arr' ! nat (ClassIndex t) = c"
        "\<forall>i. (\<forall>t. s + kAlignment \<le> t \<and> t \<le> mx \<and> t mod 8 = 0 \<longrightarrow> i \<noteq> nat (ClassIndex t)) \<longrightarrow> arr' ! i = ?a ! i"
      using 1(1)[OF True w] 1(4,5) by auto
    have split: "s \<le> t \<and> t mod 8 = 0 \<longleftrightarrow> t = s \<or> s + kAlignment \<le> t \<and> t mod 8 = 0" for t
    proof -
      obtain k where "s = 8 * k" using 1(3) by auto
      then show ?thesis by (auto simp: kAlignment_def)
    qed
    have s: "arr' ! nat (ClassIndex s) = c"
    proof (cases "\<exists>t. s + kAlignment \<le> t \<and> t \<le> mx \<and> t mod 8 = 0 \<and> nat (ClassIndex s) = nat (ClassIndex t)")
      case True
      then show ?thesis using a(3) by metis
    next
      case False
      then have "\<forall>t. s + kAlignment \<le> t \<and> t \<le> mx \<and> t mod 8 = 0 \<longrightarrow> nat (ClassIndex s) \<noteq> nat (ClassIndex t)" by simp
      note a(4)[THEN spec, THEN mp, OF this]
      then show ?thesis using i 1(5) by simp
    qed
    have 2: "arr' ! nat (ClassIndex t) = c" if "s \<le> t" "t \<le> mx" "t mod 8 = 0" for t
      using that s a(3)[THEN spec, of t] split[of t] by (cases "t = s") simp_all
    have 3: "arr' ! i = arr ! i" if i: "\<forall>t. s \<le> t \<and> t \<le> mx \<and> t mod 8 = 0 \<longrightarrow> i \<noteq> nat (ClassIndex t)" for i
    proof -
      have "\<forall>t. s + kAlignment \<le> t \<and> t \<le> mx \<and> t mod 8 = 0 \<longrightarrow> i \<noteq> nat (ClassIndex t)"
        using i by (simp add: kAlignment_def)
      note a(4)[THEN spec, THEN mp, OF this]
      moreover have "i \<noteq> nat (ClassIndex s)" using i[THEN spec, of s] 1(3) True by simp
      ultimately show ?thesis by simp
    qed
    show ?thesis using True w a(1,2) 2 3 by (subst fill_class.simps) auto
  qed
qed

text \<open>The class of a size: the first one that holds it.\<close>

definition class_for :: "int list \<Rightarrow> int \<Rightarrow> int \<Rightarrow> bool" where
  "class_for szs c s \<longleftrightarrow> 0 < c \<and> c < int (length szs) \<and> s \<le> szs ! nat c \<and> (1 < c \<longrightarrow> szs ! nat (c - 1) < s)"

lemma fill_classes_spec:
  assumes "sizes_ok prev ms" and "prev mod 8 = 0" and "1024 < prev \<longrightarrow> prev mod 128 = 0" and "- 8 \<le> prev"
    and "length arr = nat kClassArraySize" and "length front = nat c" and "1 \<le> c" and "1 < c \<longrightarrow> last front = prev"
    and "c = 1 \<longrightarrow> prev = - 8"
    and "\<forall>t. 0 \<le> t \<and> t \<le> prev \<and> t mod 8 = 0 \<longrightarrow> class_for (front @ ms) (arr ! nat (ClassIndex t)) t"
  shows "\<exists>arr'. fill_classes ms c (prev + kAlignment) arr = Inr arr' \<and> length arr' = nat kClassArraySize \<and>
    (\<forall>t. 0 \<le> t \<and> t \<le> last (prev # ms) \<and> t mod 8 = 0 \<longrightarrow> class_for (front @ ms) (arr' ! nat (ClassIndex t)) t)"
  using assms
proof (induction ms arbitrary: prev c arr front)
  case Nil
  then show ?case by auto
next
  case (Cons m ms)
  have p: "0 \<le> prev + kAlignment" "(prev + kAlignment) mod 8 = 0" using Cons.prems(2,4) by (simp_all add: kAlignment_def)
  have m: "m mod 8 = 0" "1024 < m \<longrightarrow> m mod 128 = 0" "m \<le> kMaxSizeInt" "prev < m" "sizes_ok m ms" using Cons.prems(1) by auto
  obtain arr1 where a: "fill_class c m (prev + kAlignment) arr = Inr arr1" "length arr1 = nat kClassArraySize"
      "\<forall>t. prev + kAlignment \<le> t \<and> t \<le> m \<and> t mod 8 = 0 \<longrightarrow> arr1 ! nat (ClassIndex t) = c"
      "\<forall>i. (\<forall>t. prev + kAlignment \<le> t \<and> t \<le> m \<and> t mod 8 = 0 \<longrightarrow> i \<noteq> nat (ClassIndex t)) \<longrightarrow> arr1 ! i = arr ! i"
    using fill_class_spec[OF p m(3) Cons.prems(5), of c] by blast
  have old: "arr1 ! nat (ClassIndex t) = arr ! nat (ClassIndex t)" if t: "0 \<le> t" "t \<le> prev" "t mod 8 = 0" for t
  proof -
    have "nat (ClassIndex t) \<noteq> nat (ClassIndex u)" if u: "prev + kAlignment \<le> u" "u \<le> m" "u mod 8 = 0" for u
    proof -
      have "ClassIndex t < ClassIndex u"
        by (rule ClassIndex_apart[of t prev u]) (use t u m Cons.prems(2,3) in \<open>auto simp: kAlignment_def\<close>)
      moreover have "0 \<le> ClassIndex t" using ClassIndex_range(1)[of t] t m by simp
      ultimately show ?thesis by simp
    qed
    then have "\<forall>u. prev + kAlignment \<le> u \<and> u \<le> m \<and> u mod 8 = 0 \<longrightarrow> nat (ClassIndex t) \<noteq> nat (ClassIndex u)" by simp
    from a(4)[THEN spec, THEN mp, OF this] show ?thesis .
  qed
  have new: "class_for (front @ m # ms) c t" if t: "prev < t" "t \<le> m" for t
  proof -
    have "(front @ m # ms) ! nat c = m" using Cons.prems(6) by (metis nth_append_length)
    moreover have "(front @ m # ms) ! nat (c - 1) = prev" if "1 < c"
    proof -
      have "front \<noteq> []" using that Cons.prems(6) by auto
      then have "last front = front ! nat (c - 1)" using last_conv_nth[of front] Cons.prems(6) that by (simp add: nat_diff_distrib')
      then show ?thesis using Cons.prems(6,8) that by (simp add: nth_append)
    qed
    ultimately show ?thesis using t Cons.prems(6,7) by (auto simp: class_for_def)
  qed
  have 1: "\<forall>t. 0 \<le> t \<and> t \<le> m \<and> t mod 8 = 0 \<longrightarrow> class_for ((front @ [m]) @ ms) (arr1 ! nat (ClassIndex t)) t"
  proof (intro allI impI)
    fix t assume t: "0 \<le> t \<and> t \<le> m \<and> t mod 8 = 0"
    show "class_for ((front @ [m]) @ ms) (arr1 ! nat (ClassIndex t)) t"
    proof (cases "t \<le> prev")
      case True
      then show ?thesis using old t Cons.prems(10) by simp
    next
      case False
      then obtain j k where "prev = 8 * j" "t = 8 * k" using t Cons.prems(2) mod8 by blast
      then have "prev + kAlignment \<le> t" using False by (simp add: kAlignment_def)
      then show ?thesis using a(3) t new False by simp
    qed
  qed
  have "length (front @ [m]) = nat (c + 1)" using Cons.prems(6,7) by simp
  from Cons.IH[OF m(5,1,2) _ a(2) this _ _ _ 1] m(4) Cons.prems(4,7) obtain arr' where
    "fill_classes ms (c + 1) (m + kAlignment) arr1 = Inr arr'" "length arr' = nat kClassArraySize"
    "\<forall>t. 0 \<le> t \<and> t \<le> last (m # ms) \<and> t mod 8 = 0 \<longrightarrow> class_for (front @ m # ms) (arr' ! nat (ClassIndex t)) t"
    by auto
  then show ?case using a(1) by auto
qed

section \<open>The size map\<close>

lemma class_for_round:
  assumes "class_for tcmalloc_sizes c ((s + 7) div 8 * 8)" and "0 \<le> s"
  shows "class_for tcmalloc_sizes c s"
proof -
  have m8: "\<forall>x \<in> set tcmalloc_sizes. x mod 8 = 0" by code_simp
  have c: "0 < c" "nat c < length tcmalloc_sizes" "(s + 7) div 8 * 8 \<le> tcmalloc_sizes ! nat c"
    "1 < c \<longrightarrow> tcmalloc_sizes ! nat (c - 1) < (s + 7) div 8 * 8"
    using assms(1) by (auto simp: class_for_def)
  have r: "s \<le> (s + 7) div 8 * 8" "(s + 7) div 8 * 8 < s + 8" by linarith+
  have "tcmalloc_sizes ! nat (c - 1) < s" if "1 < c"
  proof -
    have "tcmalloc_sizes ! nat (c - 1) \<in> set tcmalloc_sizes" using c that by (intro nth_mem) simp
    then obtain j where "tcmalloc_sizes ! nat (c - 1) = 8 * j" using m8 mod8 by blast
    then show ?thesis using c(4) that r by simp
  qed
  then show ?thesis using c r(1) by (auto simp: class_for_def)
qed

lemma length_tcmalloc: "length tcmalloc_sizes = 88" "length tcmalloc_pages = 88" "last tcmalloc_sizes = kMaxSizeInt"
  by code_simp+

lemma class_array_filled:
  obtains arr where "fill_classes (tl tcmalloc_sizes) 1 0 (replicate (nat kClassArraySize) 0) = Inr arr"
    "length arr = nat kClassArraySize"
    "\<And>s. 0 \<le> s \<Longrightarrow> s \<le> kMaxSizeInt \<Longrightarrow> class_for tcmalloc_sizes (arr ! nat (ClassIndex s)) s"
proof -
  have split: "[0] @ tl tcmalloc_sizes = tcmalloc_sizes" by code_simp
  have last: "last (- 8 # tl tcmalloc_sizes) = kMaxSizeInt" by code_simp
  obtain arr where a: "fill_classes (tl tcmalloc_sizes) 1 (- 8 + kAlignment) (replicate (nat kClassArraySize) 0) = Inr arr"
      "length arr = nat kClassArraySize"
      "\<forall>t. 0 \<le> t \<and> t \<le> kMaxSizeInt \<and> t mod 8 = 0 \<longrightarrow> class_for tcmalloc_sizes (arr ! nat (ClassIndex t)) t"
  proof -
    have "\<forall>t. 0 \<le> t \<and> t \<le> - 8 \<and> t mod 8 = 0 \<longrightarrow> class_for ([0] @ tl tcmalloc_sizes) (replicate (nat kClassArraySize) 0 ! nat (ClassIndex t)) t"
      by linarith
    from fill_classes_spec[OF tcmalloc_sizes_ok _ _ _ _ _ _ _ _ this, unfolded split last] that show ?thesis by auto
  qed
  have "class_for tcmalloc_sizes (arr ! nat (ClassIndex s)) s" if "0 \<le> s" "s \<le> kMaxSizeInt" for s
    using a(3) class_for_round[OF _ that(1)] ClassIndex_round[OF that] that by (simp add: pos_imp_zdiv_nonneg_iff)
  then show thesis using that a(1,2) by (simp add: kAlignment_def)
qed

lemma check_sizes_ok:
  assumes "length (class_array m) = nat kClassArraySize" and "class_to_size m = tcmalloc_sizes"
    and "\<And>s. 0 \<le> s \<Longrightarrow> s \<le> kMaxSizeInt \<Longrightarrow> class_for tcmalloc_sizes (class_array m ! nat (ClassIndex s)) s"
  shows "0 \<le> sz \<Longrightarrow> check_sizes m sz = Inr ()"
proof (induction "nat (kMaxSizeInt + 1 - sz)" arbitrary: sz rule: less_induct)
  case less
  show ?case
  proof (cases "sz \<le> kMaxSizeInt")
    case False
    then show ?thesis by (subst check_sizes.simps) simp
  next
    case True
    let ?c = "class_array m ! nat (ClassIndex sz)"
    have c: "class_for tcmalloc_sizes ?c sz" using assms(3) less.prems True by simp
    have r: "SizeClass m sz = Inr ?c" using ClassIndex_range[OF less.prems True] assms(1) by (simp add: SizeClass_def)
    have bounds: "0 < ?c" "?c < 88" using c by (simp_all add: class_for_def length_tcmalloc)
    have "\<forall>i < 88. 0 < i \<longrightarrow> tcmalloc_sizes ! i \<noteq> 0" by code_simp
    then have nz: "tcmalloc_sizes ! nat ?c \<noteq> 0" using bounds by simp
    have "check_sizes m (if sz \<le> kMaxSmallSize then sz + 8 else sz + 128) = Inr ()"
      by (rule less.hyps) (use True less.prems in auto)
    then show ?thesis
      using True r bounds nz c assms(2)
      by (subst check_sizes.simps) (auto simp: class_for_def length_tcmalloc kNumClasses_def)
  qed
qed

text \<open>Waste and number of objects of a span, class by class.\<close>

definition class_good :: "int \<Rightarrow> int \<Rightarrow> int \<Rightarrow> bool" where
  "class_good sz pgs nm \<longleftrightarrow>
     (let bytes = pgs * kPageSize
      in bytes mod sz \<le> bytes div 8 \<and> nm div 4 \<le> bytes div sz \<and> 0 < bytes div sz \<and> bytes div sz \<le> 65535 \<and> 0 < nm)"

lemma class_quality:
  assumes "1 \<le> c" and "c \<le> 87"
  shows "class_good (tcmalloc_sizes ! c) (tcmalloc_pages ! c)
    ((0 # map (NumMoveSize kDefaultTransferNumObjecs) (tl tcmalloc_sizes)) ! c)"
proof -
  have "list_all (\<lambda>(sz, pgs). class_good sz pgs (NumMoveSize kDefaultTransferNumObjecs sz))
      (zip (tl tcmalloc_sizes) (tl tcmalloc_pages))"
    by code_simp
  moreover obtain i where i: "c = Suc i" "i < 87" using assms by (cases c) auto
  moreover have "tl tcmalloc_sizes ! i = tcmalloc_sizes ! c" "tl tcmalloc_pages ! i = tcmalloc_pages ! c"
    using i by (simp_all add: nth_tl length_tcmalloc)
  ultimately show ?thesis by (auto simp: list_all_length length_tcmalloc)
qed

text \<open>The tables that \<open>SizeMap_Init\<close> builds.\<close>

definition tcmalloc_map :: "int list \<Rightarrow> size_map" where
  "tcmalloc_map arr = \<lparr>class_array = arr, class_to_size = tcmalloc_sizes, class_to_pages = tcmalloc_pages,
     num_objects_to_move = 0 # map (NumMoveSize kDefaultTransferNumObjecs) (tl tcmalloc_sizes)\<rparr>"

lemma size_map_built:
  obtains arr where "SizeMap_Init kDefaultTransferNumObjecs = Inr (tcmalloc_map arr)" "length arr = nat kClassArraySize"
    "\<And>s. 0 \<le> s \<Longrightarrow> s \<le> kMaxSizeInt \<Longrightarrow> class_for tcmalloc_sizes (arr ! nat (ClassIndex s)) s"
proof -
  obtain arr where a: "fill_classes (tl tcmalloc_sizes) 1 0 (replicate (nat kClassArraySize) 0) = Inr arr"
    "length arr = nat kClassArraySize"
    "\<And>s. 0 \<le> s \<Longrightarrow> s \<le> kMaxSizeInt \<Longrightarrow> class_for tcmalloc_sizes (arr ! nat (ClassIndex s)) s"
    using class_array_filled by blast
  have i: "ClassIndex 0 = 0" "ClassIndex kMaxSizeInt < kClassArraySize" by code_simp+
  have "SizeMap_Init kDefaultTransferNumObjecs = Inr (tcmalloc_map arr)"
    unfolding SizeMap_Init_def build_classes_result using a i check_sizes_ok[of _ 0] by (simp add: Let_def tcmalloc_map_def)
  then show thesis using that a(2,3) by blast
qed

text \<open>C31: the size classes are right. With the default transfer limit the tables are built and pass their
  own checks; every request up to the largest small size gets a class that holds it, and no smaller class
  would; a span of the class wastes at most an eighth of its bytes and holds at least as many objects as
  a quarter of a transfer, and at most 65535, so the 16-bit count of a span does not overflow.\<close>

theorem size_classes_correct:
  "\<exists>m. SizeMap_Init kDefaultTransferNumObjecs = Inr m \<and>
     (\<forall>s \<in> {0..kMaxSizeInt}. \<exists>c. SizeClass m s = Inr c \<and> 0 < c \<and> c < kNumClasses \<and> s \<le> class_to_size m ! nat c \<and>
        (1 < c \<longrightarrow> class_to_size m ! nat (c - 1) < s)) \<and>
     (\<forall>c \<in> {1..87}. class_good (class_to_size m ! c) (class_to_pages m ! c) (num_objects_to_move m ! c))"
proof -
  obtain arr where a: "SizeMap_Init kDefaultTransferNumObjecs = Inr (tcmalloc_map arr)" "length arr = nat kClassArraySize"
    "\<And>s. 0 \<le> s \<Longrightarrow> s \<le> kMaxSizeInt \<Longrightarrow> class_for tcmalloc_sizes (arr ! nat (ClassIndex s)) s"
    using size_map_built by blast
  let ?m = "tcmalloc_map arr"
  have "\<exists>c. SizeClass ?m s = Inr c \<and> 0 < c \<and> c < kNumClasses \<and> s \<le> class_to_size ?m ! nat c \<and>
      (1 < c \<longrightarrow> class_to_size ?m ! nat (c - 1) < s)" if "s \<in> {0..kMaxSizeInt}" for s
    using a(2,3) that ClassIndex_range[of s]
    by (auto simp: SizeClass_def class_for_def length_tcmalloc kNumClasses_def tcmalloc_map_def)
  moreover have "class_good (class_to_size ?m ! c) (class_to_pages ?m ! c) (num_objects_to_move ?m ! c)" if "c \<in> {1..87}" for c
    using class_quality[of c] that by (simp add: tcmalloc_map_def)
  ultimately show ?thesis using a(1) by (intro exI[of _ ?m]) simp
qed

text \<open>A request for 1000 bytes is served from the class of 1024 bytes.\<close>

theorem size_classes_correct_witness:
  "\<exists>m c. SizeMap_Init kDefaultTransferNumObjecs = Inr m \<and> SizeClass m 1000 = Inr c \<and> 1000 \<le> class_to_size m ! nat c \<and>
     (1 < c \<longrightarrow> class_to_size m ! nat (c - 1) < 1000) \<and> class_good (class_to_size m ! 33) (class_to_pages m ! 33) (num_objects_to_move m ! 33)"
proof -
  obtain m where m: "SizeMap_Init kDefaultTransferNumObjecs = Inr m"
     "\<forall>s \<in> {0..kMaxSizeInt}. \<exists>c. SizeClass m s = Inr c \<and> 0 < c \<and> c < kNumClasses \<and> s \<le> class_to_size m ! nat c \<and>
        (1 < c \<longrightarrow> class_to_size m ! nat (c - 1) < s)"
     "\<forall>c \<in> {1..87}. class_good (class_to_size m ! c) (class_to_pages m ! c) (num_objects_to_move m ! c)"
    using size_classes_correct by blast
  have "1000 \<in> {0..kMaxSizeInt}" "33 \<in> {1..87 :: nat}" by (simp_all add: kMaxSizeInt_def)
  then show ?thesis using m by blast
qed

end
