(* ===== verification/Central_Props.thy ===== *)
theory Central_Props
  imports Central_Fetch Page_Heap_Types Size_Map_Correct
begin

text \<open>
  The properties of the central free lists, with the tables of sizes that \<open>SizeMap::Init\<close> builds, and states to apply them to.
\<close>

section \<open>The tables fit\<close>

lemma tcmalloc_class_ok:
  assumes "1 \<le> c" and "c \<le> 87"
  shows "0 < tcmalloc_pages ! c \<and> 0 < tcmalloc_sizes ! c \<and> (0 # map (NumMoveSize kDefaultTransferNumObjecs) (tl tcmalloc_sizes)) ! c \<le> 8192"
proof -
  have "list_all (\<lambda>(sz, pgs). 0 < pgs \<and> 0 < sz \<and> NumMoveSize kDefaultTransferNumObjecs sz \<le> 8192) (zip (tl tcmalloc_sizes) (tl tcmalloc_pages))"
    by code_simp
  moreover obtain i where i: "c = Suc i" "i < 87" using assms by (cases c) auto
  moreover have "tl tcmalloc_sizes ! i = tcmalloc_sizes ! c" "tl tcmalloc_pages ! i = tcmalloc_pages ! c"
    using i by (simp_all add: nth_tl length_tcmalloc)
  ultimately show ?thesis by (auto simp: list_all_length length_tcmalloc)
qed

lemma tcmalloc_map_ok: "sizemap_ok (tcmalloc_map arr)"
proof -
  have "0 < csize (tcmalloc_map arr) c \<and> 0 < cpages (tcmalloc_map arr) c \<and> 0 < cmove (tcmalloc_map arr) c \<and> cmove (tcmalloc_map arr) c \<le> 8192 \<and>
      0 < cpages (tcmalloc_map arr) c * 8192 div csize (tcmalloc_map arr) c \<and> cpages (tcmalloc_map arr) c * 8192 div csize (tcmalloc_map arr) c \<le> 65535"
    if "0 < c \<and> c < 88" for c
  proof -
    define pgs where "pgs = tcmalloc_pages ! c"
    define sz where "sz = tcmalloc_sizes ! c"
    define nm where "nm = (0 # map (NumMoveSize kDefaultTransferNumObjecs) (tl tcmalloc_sizes)) ! c"
    have c: "1 \<le> c" "c \<le> 87" using that by auto
    have 1: "0 < pgs" "0 < sz" "nm \<le> 8192" using tcmalloc_class_ok[OF c] by (simp_all add: pgs_def sz_def nm_def)
    have 2: "0 < pgs * 8192 div sz" "pgs * 8192 div sz \<le> 65535" "0 < nm"
      using class_quality[OF c] by (simp_all add: class_good_def pgs_def sz_def nm_def kPageSize_def Let_def)
    have "int (nat pgs * 8192 div nat sz) = pgs * 8192 div sz" using 1 by (simp add: zdiv_int)
    then have "0 < nat pgs * 8192 div nat sz \<and> nat pgs * 8192 div nat sz \<le> 65535" using 2 by linarith
    moreover have "csize (tcmalloc_map arr) c = nat sz" "cpages (tcmalloc_map arr) c = nat pgs" "cmove (tcmalloc_map arr) c = nat nm"
      by (simp_all add: tcmalloc_map_def sz_def pgs_def nm_def)
    ultimately show ?thesis using 1 2 by simp
  qed
  then show ?thesis by (simp add: sizemap_ok_def tcmalloc_map_def length_tcmalloc)
qed

section \<open>The lists at the start\<close>

lemma list_init_step:
  assumes m: "sizemap_ok m" and c: "c < 88"
  obtains l where "CentralFreeList_Init m c = Inr l" "list_ok m c l" "\<not> cfl_lock l" "held l = []" "cfl_counter l = 0" "cfl_num_spans l = 0"
proof (cases "c = 0")
  case True
  then show thesis using that by (simp add: CentralFreeList_Init_def list_ok_def held_def kMaxNumTransferEntries_def)
next
  case False
  then have c0: "0 < c" by simp
  note pos = sizemap_pos[OF m c0 c]
  define b where "b = int (csize m c) * int (cmove m c)"
  have b: "\<not> b = 0" using pos(1,3) by (simp add: b_def)
  define mx where "mx = min 64 (max 1 (1024 * 1024 div b))"
  have mx: "1 \<le> mx" "mx \<le> 64" by (simp_all add: mx_def)
  define l where "l = \<lparr>cfl_lock = False, cfl_num_spans = 0, cfl_counter = 0, tc_slots = replicate kMaxNumTransferEntries [], used_slots = 0, cache_size = min 16 mx, max_cache_size = mx\<rparr>"
  have "CentralFreeList_Init m c = Inr l"
    unfolding CentralFreeList_Init_def Let_def if_P[OF c0] sizemap_rd(1,3)[OF m c0 c] rbind_Inr b_def[symmetric] if_not_P[OF b]
    by (simp add: l_def mx_def kMaxNumTransferEntries_def)
  then show thesis using that mx by (simp add: l_def list_ok_def held_def kMaxNumTransferEntries_def)
qed

text \<open>Initialisation. With the tables of \<open>SizeMap::Init\<close>, \<open>CentralFreeList::Init\<close> succeeds for every class, and lists
  initialised by it over a sound page heap without spans of a class satisfy the invariant, with no object outside.\<close>

theorem central_init_correct:
  "\<exists>m. SizeMap_Init kDefaultTransferNumObjecs = Inr m \<and>
    (\<forall>c < 88. \<exists>l. CentralFreeList_Init m c = Inr l) \<and>
    (\<forall>s. ph_ok {} (ph s) \<and> sizemap s = m \<and> race_counter s = 0 \<and> (\<forall>p x. spans (ph s) p = Some x \<longrightarrow> sp_class x = None) \<and>
       (\<forall>t c. c < 88 \<longrightarrow> CentralFreeList_Init m c = Inr (central s t c)) \<longrightarrow> central_inv {} (\<lambda>_ _. {}) s)"
proof -
  obtain arr where m: "SizeMap_Init kDefaultTransferNumObjecs = Inr (tcmalloc_map arr)" using size_map_built by blast
  let ?m = "tcmalloc_map arr"
  have ok: "sizemap_ok ?m" by (rule tcmalloc_map_ok)
  have 1: "\<exists>l. CentralFreeList_Init ?m c = Inr l" if "c < 88" for c using list_init_step[OF ok that] by metis
  have 2: "central_inv {} (\<lambda>_ _. {}) s"
    if s: "ph_ok {} (ph s)" "sizemap s = ?m" "race_counter s = 0" "\<And>p x. spans (ph s) p = Some x \<Longrightarrow> sp_class x = None"
      and i: "\<And>t c. c < 88 \<Longrightarrow> CentralFreeList_Init ?m c = Inr (central s t c)" for s
  proof -
    have mem: "members (ph s) t c = {}" for t c using s(4) by (auto simp: members_def)
    have "entry_ok ?m (ph s) {} (\<lambda>_ _. {}) t c (central s t c)" if c: "c < 88" for t c
    proof -
      obtain l where l: "CentralFreeList_Init ?m c = Inr l" "list_ok ?m c l" "\<not> cfl_lock l" "held l = []" "cfl_counter l = 0" "cfl_num_spans l = 0"
        by (rule list_init_step[OF ok c])
      have "central s t c = l" using i[OF c, of t] l(1) by simp
      then show ?thesis using l by (simp add: entry_ok_def out_objs_def free_objs_def mem)
    qed
    moreover have "classes_ok ?m (ph s)" using s(4) by (auto simp: classes_ok_def class_ok_def)
    ultimately show ?thesis using s(1-3) ok by (simp add: central_inv_def)
  qed
  show ?thesis using m 1 2 by blast
qed

section \<open>Insertion and removal\<close>

text \<open>C8: \<open>CentralFreeList::InsertRange\<close> on a list of the default heap type, for a chain of objects that the
  clients hold: it returns with all locks free, the objects are no longer outside, every other object stays
  where it was, whether the chain went into a transfer slot, made room by shrinking the cache of another class, or
  went back object by object to their spans. Spans without an object outside go back to the page heap: no page is lost, and
  afterwards the spans in use that have no class, or have one but no object outside, are those from before, unchanged
  (\<open>settled\<close>), so a span whose last object came back is not in use any more.\<close>

theorem insert_range_correct:
  assumes "central_inv {} Out s" and "0 < c" and "c < 88" and "t = DEFAULT_HEAP_TYPE" and "distinct chain" and "set chain \<subseteq> Out t c"
    and "card (dom (spans (ph s))) < fuel"
  shows "\<exists>s'. InsertRange fuel t c chain (int (length chain)) s = Inr s' \<and> central_inv {} (set_out t c (Out t c - set chain) Out) s' \<and>
    covered (spans (ph s')) = covered (spans (ph s)) \<and> settled (ph s) (ph s')"
  using insert_step[OF assms] unfolding frame_def by metis


section \<open>The lock of the other heap type\<close>

lemma shrink_default:
  assumes "\<not> cfl_lock (central s DEFAULT_HEAP_TYPE n)" "n \<noteq> c" "0 \<le> used_slots (central s DEFAULT_HEAP_TYPE n)"
    and "used_slots (central s DEFAULT_HEAP_TYPE n) < cache_size (central s DEFAULT_HEAP_TYPE n)"
  shows "\<exists>s'. ShrinkCache fuel DEFAULT_HEAP_TYPE n c False s = Inr (True, s') \<and> cfl_lock (central s' DEFAULT_HEAP_TYPE c) \<and> sizemap s' = sizemap s \<and>
    (\<forall>u d. u \<noteq> DEFAULT_HEAP_TYPE \<longrightarrow> central s' u d = central s u d)"
proof -
  let ?D = DEFAULT_HEAP_TYPE
  define s1 where "s1 = upd_central ?D n (\<lambda>l. l\<lparr>cfl_lock := True\<rparr>) (unlock_central ?D c s)"
  define s2 where "s2 = upd_central ?D n (\<lambda>l. l\<lparr>cache_size := cache_size l - 1\<rparr>) s1"
  define s3 where "s3 = upd_central ?D c (\<lambda>l. l\<lparr>cfl_lock := True\<rparr>) (unlock_central ?D n s2)"
  have n: "\<not> cache_size (central s ?D n) = 0" "\<not> (\<not> False \<and> used_slots (central s ?D n) = cache_size (central s ?D n))" using assms(3,4) by auto
  have 1: "lock_central ?D n (unlock_central ?D c s) = Inr s1" using assms(1,2) by (simp add: lock_central_def s1_def unlock_central_def)
  have c1: "cache_size (central s1 ?D n) = cache_size (central s ?D n)" "used_slots (central s1 ?D n) = used_slots (central s ?D n)"
    using assms(2) by (simp_all add: s1_def unlock_central_def)
  have n1: "\<not> cache_size (central s1 ?D n) = 0" "\<not> used_slots (central s1 ?D n) = cache_size (central s1 ?D n)" using n c1 by auto
  have 3: "lock_central ?D c (unlock_central ?D n s2) = Inr s3"
    using assms(2) by (simp add: lock_central_def s3_def s2_def s1_def unlock_central_def)
  have "ShrinkCache fuel ?D n c False s = Inr (True, s3)"
    unfolding ShrinkCache_def Let_def if_not_P[OF n(1)] if_not_P[OF n(2)] 1 rbind_Inr if_not_P[OF n1(1)] if_not_P[OF n1(2)] prod.case
      s2_def[symmetric] 3 by (rule refl)
  moreover have "cfl_lock (central s3 ?D c)" by (simp add: s3_def)
  moreover have "sizemap s3 = sizemap s" "\<forall>u d. u \<noteq> ?D \<longrightarrow> central s3 u d = central s u d"
    by (simp_all add: s3_def s2_def s1_def unlock_central_def)
  ultimately show ?thesis by blast
qed

text \<open>C39: an insertion into a list of the other heap type can leave a lock of the default type behind. When the transfer cache of the
  list is full but may grow, and the class that is next to be evicted has room in the default type, \<open>InsertRange\<close> returns
  with the lock of its class in the default type held: \<open>LockInverter\<close> always exchanges the locks of the default type.
  Every later call for that class of the default type then waits for ever.\<close>

theorem restricted_insert_leaks_lock:
  assumes "t \<noteq> DEFAULT_HEAP_TYPE" and "\<not> cfl_lock (central s t c)" and "rd (num_objects_to_move (sizemap s)) (int c) = Inr N"
    and "used_slots (central s t c) = cache_size (central s t c)" and "cache_size (central s t c) < max_cache_size (central s t c)"
    and "0 \<le> used_slots (central s t c)" and "max_cache_size (central s t c) \<le> int (length (tc_slots (central s t c)))"
    and "race_counter s = int n" and "n < 88" and "n \<noteq> c" and "\<not> cfl_lock (central s DEFAULT_HEAP_TYPE n)"
    and "0 \<le> used_slots (central s DEFAULT_HEAP_TYPE n)"
    and "used_slots (central s DEFAULT_HEAP_TYPE n) < cache_size (central s DEFAULT_HEAP_TYPE n)"
  shows "\<exists>s'. InsertRange fuel t c chain N s = Inr s' \<and>
    (\<forall>f k. RemoveRange f DEFAULT_HEAP_TYPE c k s' = Inl Deadlock) \<and> (\<forall>f xs k. InsertRange f DEFAULT_HEAP_TYPE c xs k s' = Inl Deadlock)"
proof -
  let ?D = DEFAULT_HEAP_TYPE
  define s1 where "s1 = upd_central t c (\<lambda>l. l\<lparr>cfl_lock := True\<rparr>) s"
  define s2 where "s2 = s1\<lparr>race_counter := int n + 1\<rparr>"
  have 1: "lock_central t c s = Inr s1" using assms(2) by (simp add: lock_central_def s1_def)
  have e: "EvictRandomSizeClass fuel c False s1 = ShrinkCache fuel ?D n c False s2"
    using assms(8-10) by (simp add: EvictRandomSizeClass_def Let_def s1_def s2_def kNumClasses_def)
  have d2: "central s2 ?D n = central s ?D n" using assms(1) by (simp add: s2_def s1_def)
  obtain s3 where 3: "ShrinkCache fuel ?D n c False s2 = Inr (True, s3)" "cfl_lock (central s3 ?D c)" "sizemap s3 = sizemap s2"
      "\<forall>u d. u \<noteq> ?D \<longrightarrow> central s3 u d = central s2 u d"
    using shrink_default[of s2 n c fuel] assms(10-13) d2 by auto
  have l3: "central s3 t c = (central s t c)\<lparr>cfl_lock := True\<rparr>" using 3(4) assms(1) by (simp add: s2_def s1_def)
  define s4 where "s4 = upd_central t c (\<lambda>l. l\<lparr>cache_size := cache_size l + 1\<rparr>) s3"
  have 4: "MakeCacheSpace fuel t c s1 = Inr (True, s4)"
    using assms(4,5) e 3(1) l3 by (simp add: MakeCacheSpace_def s1_def s4_def)
  have u: "used_slots (central s4 t c) = used_slots (central s t c)" "tc_slots (central s4 t c) = tc_slots (central s t c)"
    by (simp_all add: s4_def l3)
  have "wr (tc_slots (central s4 t c)) (used_slots (central s4 t c)) chain = Inr ((tc_slots (central s t c))[nat (used_slots (central s t c)) := chain])"
    unfolding u using assms(4-7) by (intro wr_ok) simp_all
  then obtain s5 where 5: "InsertRange fuel t c chain N s = Inr s5" "central s5 ?D c = central s4 ?D c"
    using 1 4 assms(1,3) by (auto simp: InsertRange_def s1_def unlock_central_def)
  have "cfl_lock (central s5 ?D c)" using 5(2) 3(2) assms(1) by (simp add: s4_def)
  then have "lock_central ?D c s5 = Inl Deadlock" by (simp add: lock_central_def)
  then show ?thesis using 5(1) by (simp add: InsertRange_def RemoveRange_def)
qed

section \<open>Concrete states\<close>

text \<open>A table of sizes where every class has objects of one page, and lists without objects.\<close>

definition page_map :: size_map where
  "page_map = \<lparr>class_array = [], class_to_size = replicate 88 8192, class_to_pages = replicate 88 1, num_objects_to_move = replicate 88 2\<rparr>"

definition empty_list :: central_list where
  "empty_list = \<lparr>cfl_lock = False, cfl_num_spans = 0, cfl_counter = 0, tc_slots = replicate 64 [], used_slots = 0, cache_size = 16, max_cache_size = 64\<rparr>"

definition fresh_lists :: central_world where
  "fresh_lists = \<lparr>ph = two_pages, sizemap = page_map, central = (\<lambda>_ _. empty_list), race_counter = 0\<rparr>"

lemma page_map_ok: "sizemap_ok page_map"
  by (simp add: sizemap_ok_def page_map_def)

lemma empty_list_ok: "list_ok m c empty_list" "held empty_list = []"
  by (simp_all add: list_ok_def held_def empty_list_def)

lemma two_pages_no_class: "spans two_pages p = Some x \<Longrightarrow> sp_class x = None"
  by (auto simp: two_pages_spans sp_class_def new_span_def)

lemma fresh_lists_inv: "central_inv {} (\<lambda>_ _. {}) fresh_lists"
proof -
  have m: "members two_pages t c = {}" for t c using two_pages_no_class by (fastforce simp: members_def)
  have "entry_ok page_map two_pages {} (\<lambda>_ _. {}) t c empty_list" for t c
    using empty_list_ok by (simp add: entry_ok_def out_objs_def free_objs_def m empty_list_def)
  moreover have "classes_ok page_map two_pages" using two_pages_no_class by (fastforce simp: classes_ok_def class_ok_def)
  ultimately show ?thesis using two_pages_ok page_map_ok by (simp add: central_inv_def fresh_lists_def)
qed


text \<open>Page 10 is a span of class 5 of the default heap type whose only object, at address 81920, is outside.\<close>

definition page_object :: span where
  "page_object = (new_span 10 1)\<lparr>sp_link := Some (Empty_spans 1 5), sp_refcount := 1, sp_sizeclass := 5, sp_heaptype := 1\<rparr>"

definition one_object :: central_world where
  "one_object = fresh_lists\<lparr>ph := two_pages\<lparr>spans := (spans two_pages)(span_P \<mapsto> page_object),
       span_lists := (span_lists two_pages)(Empty_spans 1 5 := [span_P])\<rparr>,
     central := (\<lambda>t c. if t = 1 \<and> c = 5 then empty_list\<lparr>cfl_num_spans := 1\<rparr> else empty_list)\<rparr>"

lemma one_object_ph: "ph_ok {} (ph one_object)"
proof -
  let ?x = "(new_span 10 1)\<lparr>sp_sizeclass := 5\<rparr>" and ?w = "put_span span_P ((new_span 10 1)\<lparr>sp_sizeclass := 5\<rparr>) two_pages"
  have "ph_ok {span_P} two_pages" using wf_in_use(2)[OF two_pages_ok two_pages_P] by (simp add: new_span_def)
  moreover have "classed (pagemap two_pages) span_P ?x" by (simp add: classed_def two_pages_get new_span_def rng_def)
  ultimately have "ph_ok {span_P} ?w" by (intro wf_put_classed[OF _ two_pages_P]) simp_all
  then have w: "ph_ok {} ?w" using wf_in_use(1)[of "{span_P}" ?w span_P ?x] by (simp add: put_span_def new_span_def)
  have p: "spans ?w span_P = Some ?x" by (simp add: put_span_def)
  have e: "(spans ?w)(span_P \<mapsto> page_object) = (spans two_pages)(span_P \<mapsto> page_object)" by (simp add: put_span_def)
  let ?K = "(span_lists two_pages)(Empty_spans 1 5 := [span_P])"
  have "links ((spans ?w)(span_P \<mapsto> page_object)) ?K"
    unfolding e by (auto simp: links_def link_of_def two_pages_def new_span_def page_object_def span_P_def span_Q_def split: if_splits option.splits)
  then have "ph_ok {} (?w\<lparr>spans := (spans ?w)(span_P \<mapsto> page_object), span_lists := ?K\<rparr>)"
    by (intro wf_change[OF w p]) (simp_all add: new_span_def page_object_def)
  then show ?thesis unfolding e by (simp add: one_object_def fresh_lists_def put_span_def)
qed

lemma one_object_inv: "central_inv {} (\<lambda>t c. if t = 1 \<and> c = 5 then {81920} else {}) one_object"
proof -
  let ?w = "ph one_object" and ?O = "\<lambda>t c. if t = 1 \<and> c = 5 then {81920 :: ptr} else {}"
  have sp: "spans ?w = (spans two_pages)(span_P \<mapsto> page_object)" by (simp add: one_object_def)
  have k: "sp_class page_object = Some (1, 5)" by (simp add: sp_class_def page_object_def)
  have mem: "members ?w t c = (if t = 1 \<and> c = 5 then {span_P} else {})" for t c
    using two_pages_no_class k by (fastforce simp: members_def sp split: if_splits)
  have o: "objs_of 8192 page_object = [81920]"
    by (simp add: objs_of_def carve_objects_map page_object_def new_span_def)
  have cs: "csize page_map 5 = 8192" "cpages page_map 5 = 1" by (simp_all add: page_map_def)
  have at: "span_at ?w span_P = page_object" by (simp add: span_at_def sp)
  have c0: "sp_objects page_object = []" by (simp add: page_object_def new_span_def)
  have "class_span page_map 1 5 page_object" unfolding class_span_def cs o by (simp add: page_object_def new_span_def)
  then have "class_ok page_map page_object" using k by (simp add: class_ok_def c0) (simp add: page_object_def)
  moreover have "class_ok page_map x" if "spans two_pages p = Some x" for p x using two_pages_no_class[OF that] by (simp add: class_ok_def)
  ultimately have "classes_ok page_map ?w" unfolding classes_ok_def sp by auto
  moreover have "entry_ok page_map ?w {} ?O t c (central one_object t c)" for t c
  proof (cases "t = 1 \<and> c = 5")
    case True
    have "out_objs page_map ?w 1 5 = {81920}" by (simp add: out_objs_def mem at span_out_def cs(1) o c0)
    moreover have "free_objs ?w 1 5 = 0" by (simp add: free_objs_def mem at c0)
    moreover have "central one_object t c = empty_list\<lparr>cfl_num_spans := 1\<rparr>" using True by (simp add: one_object_def)
    moreover have "members ?w 1 5 = {span_P}" by (simp add: mem)
    ultimately show ?thesis using True by (simp add: entry_ok_def list_ok_def held_def empty_list_def)
  next
    case False
    then have e: "members ?w t c = {}" using mem by simp
    then have "out_objs page_map ?w t c = {}" "free_objs ?w t c = 0" by (simp_all add: out_objs_def free_objs_def)
    then show ?thesis using False e empty_list_ok by (auto simp: entry_ok_def one_object_def empty_list_def)
  qed
  ultimately show ?thesis using one_object_ph page_map_ok by (simp add: central_inv_def one_object_def fresh_lists_def)
qed

theorem insert_range_correct_witness:
  "\<exists>s'. InsertRange 3 1 5 [81920] 1 one_object = Inr s' \<and> central_inv {} (\<lambda>_ _. {}) s' \<and>
     covered (spans (ph s')) = covered (spans (ph one_object)) \<and> settled (ph one_object) (ph s')"
proof -
  have d: "dom (spans (ph one_object)) = {span_P, span_Q}" using two_pages_dom by (auto simp: one_object_def)
  have f: "card (dom (spans (ph one_object))) < 3" unfolding d by (simp add: span_P_def span_Q_def)
  have t: "1 = DEFAULT_HEAP_TYPE" by (simp add: DEFAULT_HEAP_TYPE_def OPEN_MAPPING_def)
  have a: "0 < (5::nat)" "5 < (88::nat)" "distinct [81920 :: ptr]" by simp_all
  have s: "set [81920 :: ptr] \<subseteq> (\<lambda>t c. if t = (1::int) \<and> c = (5::nat) then {81920 :: ptr} else {}) 1 5" by simp
  have o: "set_out 1 5 {} (\<lambda>t c. if t = (1::int) \<and> c = (5::nat) then {81920 :: ptr} else {}) = (\<lambda>_ _. {})" by (auto simp: set_out_def fun_eq_iff)
  show ?thesis using insert_range_correct[OF one_object_inv a(1,2) t a(3) s f] by (simp add: o)
qed

theorem restricted_insert_leaks_lock_witness:
  "\<exists>s s'. InsertRange 1 0 5 [8, 16] 2 s = Inr s' \<and> RemoveRange 1 DEFAULT_HEAP_TYPE 5 1 s' = Inl Deadlock"
proof -
  let ?s = "fresh_lists\<lparr>central := (\<lambda>t c. if t = 0 then empty_list\<lparr>used_slots := 16\<rparr> else empty_list)\<rparr>"
  have D: "DEFAULT_HEAP_TYPE = 1" by (simp add: DEFAULT_HEAP_TYPE_def OPEN_MAPPING_def)
  have "\<exists>s'. InsertRange 1 0 5 [8, 16] 2 ?s = Inr s' \<and> (\<forall>f k. RemoveRange f DEFAULT_HEAP_TYPE 5 k s' = Inl Deadlock) \<and>
      (\<forall>f xs k. InsertRange f DEFAULT_HEAP_TYPE 5 xs k s' = Inl Deadlock)"
    by (rule restricted_insert_leaks_lock[where n = 0]) (simp_all add: D fresh_lists_def empty_list_def page_map_def)
  then show ?thesis by blast
qed

theorem central_init_correct_witness:
  "\<exists>m. SizeMap_Init kDefaultTransferNumObjecs = Inr m \<and> (\<exists>l. CentralFreeList_Init m 57 = Inr l) \<and>
    (\<exists>s. ph s = two_pages \<and> central_inv {} (\<lambda>_ _. {}) s)"
proof -
  obtain m where m: "SizeMap_Init kDefaultTransferNumObjecs = Inr m" "\<forall>c < 88. \<exists>l. CentralFreeList_Init m c = Inr l"
     "\<forall>s. ph_ok {} (ph s) \<and> sizemap s = m \<and> race_counter s = 0 \<and> (\<forall>p x. spans (ph s) p = Some x \<longrightarrow> sp_class x = None) \<and>
       (\<forall>t c. c < 88 \<longrightarrow> CentralFreeList_Init m c = Inr (central s t c)) \<longrightarrow> central_inv {} (\<lambda>_ _. {}) s"
    using central_init_correct by blast
  let ?s = "\<lparr>ph = two_pages, sizemap = m, central = (\<lambda>_ c. case CentralFreeList_Init m c of Inr l \<Rightarrow> l | Inl _ \<Rightarrow> empty_list), race_counter = 0\<rparr>"
  have "CentralFreeList_Init m c = Inr (central ?s t c)" if "c < 88" for t c using m(2) that by auto
  then have "central_inv {} (\<lambda>_ _. {}) ?s" using m(3) two_pages_ok two_pages_no_class by auto
  moreover have "\<exists>l. CentralFreeList_Init m 57 = Inr l" using m(2) by simp
  ultimately show ?thesis using m(1) by (metis central_world.select_convs(1))
qed

end
