(* ===== verification/Thread_Cache_Life_Props.thy ===== *)
theory Thread_Cache_Life_Props
  imports Thread_Cache_Life Thread_Cache_Props Central_Props
begin

text \<open>
  The properties of the life of the thread caches: initialisation establishes the invariants, a thread gets one cache for each heap type,
  a new overall budget is shared out, and what is left behind when a thread ends.
\<close>

section \<open>Creation\<close>

lemma is_cache_limit: "no_limit (C q) = no_limit (D q) \<Longrightarrow> is_cache_of C me i q = is_cache_of D me i q"
proof -
  assume a: "no_limit (C q) = no_limit (D q)"
  show ?thesis
  proof (cases "C q")
    case None
    then show ?thesis using a by (cases "D q") (simp_all add: no_limit_def is_cache_of_def)
  next
    case (Some h)
    then show ?thesis using no_limit_same[OF a Some] by (auto simp: is_cache_of_def)
  qed
qed

definition first_cache :: "nat \<Rightarrow> int \<Rightarrow> thread_world \<Rightarrow> ptr option" where
  "first_cache me i w = find (is_cache_of (caches w) me i) (thread_heaps w)"

lemma first_cache_Some: "first_cache me i w = Some p \<Longrightarrow> \<exists>h. caches w p = Some h \<and> tc_tid h = me \<and> tc_type h = i"
  by (auto simp: first_cache_def find_Some_iff is_cache_of_def split: option.splits)

lemma first_cache_new:
  assumes h: "caches w' p = Some h" and hs: "thread_heaps w' = p # thread_heaps w" and p: "p \<notin> set (thread_heaps w)"
    and o: "\<And>q. q \<noteq> p \<Longrightarrow> no_limit (caches w' q) = no_limit (caches w q)"
  shows "first_cache me i w' = (if tc_tid h = me \<and> tc_type h = i then Some p else first_cache me i w)"
proof -
  have "is_cache_of (caches w') me i q = is_cache_of (caches w) me i q" if q: "q \<in> set (thread_heaps w)" for q
  proof (rule is_cache_limit)
    have "q \<noteq> p" using p q by auto
    then show "no_limit (caches w' q) = no_limit (caches w q)" by (rule o)
  qed
  then have "find (is_cache_of (caches w') me i) (thread_heaps w) = find (is_cache_of (caches w) me i) (thread_heaps w)"
    by (intro find_cong) simp_all
  then show ?thesis using h by (simp add: first_cache_def hs is_cache_of_def)
qed

lemma find_or_new_step:
  assumes ok: "threads_ok App w" and lim: "limits {} w"
  shows "find_or_new me i w = Inl AssertFail \<or> (\<exists>p h w'. find_or_new me i w = Inr (p, w') \<and> first_cache me i w' = Some p \<and>
    (\<forall>j. j \<noteq> i \<longrightarrow> first_cache me j w' = first_cache me j w) \<and> threads_ok App w' \<and> limits {} w' \<and>
    caches w' p = Some h \<and> tc_tid h = me \<and> tc_type h = i \<and> (first_cache me i w = None \<longrightarrow> empty_cache h) \<and>
    (\<forall>q. q \<noteq> p \<longrightarrow> no_limit (caches w' q) = no_limit (caches w q)) \<and> cw w' = cw w \<and> tsd_inited w' = tsd_inited w)"
proof (cases "first_cache me i w")
  case (Some p)
  then have f: "find_or_new me i w = Inr (p, w)" by (simp add: find_or_new_def first_cache_def)
  obtain h where "caches w p = Some h" "tc_tid h = me" "tc_type h = i" using first_cache_Some[OF Some] by blast
  then show ?thesis using f Some ok lim by auto
next
  case None
  then have f: "find_or_new me i w = NewHeap me i w" by (simp add: find_or_new_def first_cache_def)
  from new_heap_step[OF ok lim, of me i] show ?thesis
  proof (elim disjE exE conjE)
    fix p h w'
    assume n: "NewHeap me i w = Inr (p, w')" "caches w p = None" "caches w' p = Some h" "empty_cache h" "tc_type h = i" "tc_tid h = me"
      "thread_heaps w' = p # thread_heaps w" "threads_ok App w'" "limits {} w'"
      "\<forall>q. q \<noteq> p \<longrightarrow> no_limit (caches w' q) = no_limit (caches w q)" "cw w' = cw w" "tsd_inited w' = tsd_inited w"
    have p: "p \<notin> set (thread_heaps w)" using lim n(2) by (auto simp: limits_def)
    have fc: "first_cache me j w' = (if tc_tid h = me \<and> tc_type h = j then Some p else first_cache me j w)" for j
      using n(10) by (intro first_cache_new[OF n(3,7) p]) simp
    have "first_cache me i w' = Some p" "\<forall>j. j \<noteq> i \<longrightarrow> first_cache me j w' = first_cache me j w" using fc n(5,6) by auto
    then show ?thesis using f n by auto
  qed (use f in simp)
qed

text \<open>The thread-local copies of a cache; nothing else changes.\<close>

definition published :: "nat \<Rightarrow> int \<Rightarrow> ptr \<Rightarrow> thread_world \<Rightarrow> thread_world" where
  "published me i p w = w\<lparr>tsd_value := (tsd_value w)(me := p), tls_heap := (tls_heap w)(me := (tls_heap w me)(i := p)),
     tls_min_size := (tls_min_size w)(me := 262145)\<rparr>"

lemma set_flag_back:
  assumes "caches w p = Some h" and "\<not> tc_in_setspecific h"
  shows "set_in_setspecific p False (set_in_setspecific p True w) = w"
proof -
  have "(caches w)(p \<mapsto> h) = caches w" using assms(1) by auto
  moreover have "h\<lparr>tc_in_setspecific := False\<rparr> = h" using assms(2) by simp
  ultimately show ?thesis using assms(1) by (simp add: set_in_setspecific_def)
qed

lemma publish_step:
  assumes "caches w p = Some h"
  shows "publish me i p w = Inr (if \<not> tc_in_setspecific h \<and> tsd_inited w then published me i p w else w)"
proof (cases "\<not> tc_in_setspecific h \<and> tsd_inited w")
  case True
  let ?f = "\<lambda>w. SetMinSizeForSlowPath me (word_of_int (kMaxSizeInt + 1)) (set_tls_heap me i p (pthread_setspecific me p w))"
  have "set_in_setspecific p False (?f (set_in_setspecific p True w)) = ?f (set_in_setspecific p False (set_in_setspecific p True w))"
    by (simp add: set_in_setspecific_def SetMinSizeForSlowPath_def set_tls_heap_def pthread_setspecific_def)
  also have "\<dots> = ?f w" using set_flag_back[OF assms] True by simp
  also have "\<dots> = published me i p w" by (simp add: SetMinSizeForSlowPath_def set_tls_heap_def pthread_setspecific_def published_def kMaxSizeInt_def)
  finally show ?thesis using True assms by (simp add: publish_def)
qed (use assms in \<open>auto simp: publish_def\<close>)

lemma published_keeps [simp]:
  "threads_ok App (published me i p w) = threads_ok App w" "limits X (published me i p w) = limits X w"
  "caches (published me i p w) = caches w" "cw (published me i p w) = cw w" "tsd_inited (published me i p w) = tsd_inited w"
  "first_cache me j (published me i p w) = first_cache me j w"
  by (simp_all add: threads_ok_def limits_def published_def first_cache_def)

text \<open>The caches of a thread after \<open>CreateCacheIfNecessary\<close>.\<close>

definition has_caches :: "nat \<Rightarrow> ptr \<Rightarrow> tcache \<Rightarrow> ptr \<Rightarrow> tcache \<Rightarrow> thread_world \<Rightarrow> bool" where
  "has_caches me p0 h0 p1 h1 w \<longleftrightarrow> first_cache me 0 w = Some p0 \<and> first_cache me 1 w = Some p1 \<and> caches w p0 = Some h0 \<and> caches w p1 = Some h1 \<and>
     tc_tid h0 = me \<and> tc_type h0 = 0 \<and> tc_tid h1 = me \<and> tc_type h1 = 1"

lemma has_caches_create:
  assumes "has_caches me p0 h0 p1 h1 w" and "ty = 0 \<or> ty = 1"
  shows "\<exists>w'. CreateCacheIfNecessary me ty w = Inr (if ty = 0 then p0 else p1, w') \<and> has_caches me p0 h0 p1 h1 w' \<and> caches w' = caches w \<and>
    cw w' = cw w \<and> tsd_inited w' = tsd_inited w \<and> threads_ok App w' = threads_ok App w \<and> limits X w' = limits X w \<and>
    (tsd_inited w \<and> \<not> tc_in_setspecific h0 \<longrightarrow> tls_heap w' me 0 = p0) \<and>
    (tsd_inited w \<and> \<not> tc_in_setspecific h1 \<longrightarrow> tls_heap w' me 1 = p1 \<and> tsd_value w' me = p1)"
proof -
  define w1 where "w1 = (if \<not> tc_in_setspecific h0 \<and> tsd_inited w then published me 0 p0 w else w)"
  define w2 where "w2 = (if \<not> tc_in_setspecific h1 \<and> tsd_inited w1 then published me 1 p1 w1 else w1)"
  note d = assms(1)[unfolded has_caches_def]
  have f: "find_or_new me 0 w = Inr (p0, w)" "find_or_new me 1 w = Inr (p1, w)" using d by (simp_all add: find_or_new_def first_cache_def)
  have 1: "publish me 0 p0 w = Inr w1" using publish_step[of w p0 h0 me 0] d by (simp add: w1_def)
  have 2: "publish me 1 p1 w1 = Inr w2" using publish_step[of w1 p1 h1 me 1] d by (simp add: w2_def w1_def)
  have "CreateCacheIfNecessary me ty w = Inr (if ty = 0 then p0 else p1, w2)" using assms(2) by (auto simp: CreateCacheIfNecessary_def f 1 2)
  moreover have "has_caches me p0 h0 p1 h1 w2" using d by (simp add: has_caches_def w1_def w2_def)
  moreover have "caches w2 = caches w" "cw w2 = cw w" "tsd_inited w2 = tsd_inited w" "threads_ok App w2 = threads_ok App w" "limits X w2 = limits X w"
    by (simp_all add: w1_def w2_def)
  moreover have "tsd_inited w \<and> \<not> tc_in_setspecific h0 \<longrightarrow> tls_heap w2 me 0 = p0"
    "tsd_inited w \<and> \<not> tc_in_setspecific h1 \<longrightarrow> tls_heap w2 me 1 = p1 \<and> tsd_value w2 me = p1"
    by (simp_all add: w1_def w2_def published_def)
  ultimately show ?thesis by blast
qed

lemma find_both_step:
  assumes ok: "threads_ok App w" and lim: "limits {} w"
  shows "CreateCacheIfNecessary me ty w = Inl AssertFail \<or>
    (\<exists>w1 w2 p0 h0 p1 h1. find_or_new me 0 w = Inr (p0, w1) \<and> find_or_new me 1 w1 = Inr (p1, w2) \<and> has_caches me p0 h0 p1 h1 w2 \<and>
      threads_ok App w2 \<and> limits {} w2 \<and> cw w2 = cw w \<and> tsd_inited w2 = tsd_inited w \<and>
      (first_cache me 0 w = None \<longrightarrow> empty_cache h0) \<and> (first_cache me 1 w = None \<longrightarrow> empty_cache h1))"
  using find_or_new_step[OF ok lim, of me 0]
proof (elim disjE exE conjE)
  fix p0 h w1
  assume 1: "find_or_new me 0 w = Inr (p0, w1)" "first_cache me 0 w1 = Some p0" "\<forall>j. j \<noteq> 0 \<longrightarrow> first_cache me j w1 = first_cache me j w"
    "threads_ok App w1" "limits {} w1" "caches w1 p0 = Some h" "tc_tid h = me" "tc_type h = 0" "first_cache me 0 w = None \<longrightarrow> empty_cache h"
    "cw w1 = cw w" "tsd_inited w1 = tsd_inited w"
  show ?thesis using find_or_new_step[OF 1(4,5), of me 1]
  proof (elim disjE exE conjE)
    fix p1 h1 w2
    assume 2: "find_or_new me 1 w1 = Inr (p1, w2)" "first_cache me 1 w2 = Some p1" "\<forall>j. j \<noteq> 1 \<longrightarrow> first_cache me j w2 = first_cache me j w1"
      "threads_ok App w2" "limits {} w2" "caches w2 p1 = Some h1" "tc_tid h1 = me" "tc_type h1 = 1" "first_cache me 1 w1 = None \<longrightarrow> empty_cache h1"
      "\<forall>q. q \<noteq> p1 \<longrightarrow> no_limit (caches w2 q) = no_limit (caches w1 q)" "cw w2 = cw w1" "tsd_inited w2 = tsd_inited w1"
    have f0: "first_cache me 0 w2 = Some p0" using 2(3) 1(2) by simp
    then obtain h0 where h0: "caches w2 p0 = Some h0" "tc_tid h0 = me" "tc_type h0 = 0" using first_cache_Some by blast
    have "p0 \<noteq> p1" using h0 2(6,8) by auto
    then have "no_limit (caches w1 p0) = no_limit (caches w2 p0)" using 2(10) by simp
    then obtain m where "caches w2 p0 = Some (h\<lparr>tc_max_size := m\<rparr>)" using no_limit_same[OF _ 1(6)] by blast
    then have e: "empty_cache h \<longrightarrow> empty_cache h0" using h0(1) by (auto simp: empty_cache_def)
    have "has_caches me p0 h0 p1 h1 w2" using f0 h0 2(2,6-8) by (simp add: has_caches_def)
    moreover have "cw w2 = cw w" "tsd_inited w2 = tsd_inited w" using 1(10,11) 2(11,12) by simp_all
    moreover have "first_cache me 0 w = None \<longrightarrow> empty_cache h0" "first_cache me 1 w = None \<longrightarrow> empty_cache h1" using e 1(3,9) 2(9) by simp_all
    ultimately show ?thesis using 1(1) 2(1,4,5) by (intro disjI2 exI[of _ w1] exI[of _ w2] exI[of _ p0] exI[of _ h0] exI[of _ p1] exI[of _ h1] conjI)
  qed (use 1(1) in \<open>simp add: CreateCacheIfNecessary_def\<close>)
qed (simp add: CreateCacheIfNecessary_def)

lemma create_step:
  assumes ok: "threads_ok App w" and lim: "limits {} w" and ty: "ty = 0 \<or> ty = 1"
  shows "CreateCacheIfNecessary me ty w = Inl AssertFail \<or> (\<exists>p0 h0 p1 h1 w'.
    CreateCacheIfNecessary me ty w = Inr (if ty = 0 then p0 else p1, w') \<and> has_caches me p0 h0 p1 h1 w' \<and> threads_ok App w' \<and> limits {} w' \<and>
    cw w' = cw w \<and> tsd_inited w' = tsd_inited w \<and> (first_cache me 0 w = None \<longrightarrow> empty_cache h0) \<and> (first_cache me 1 w = None \<longrightarrow> empty_cache h1) \<and>
    (tsd_inited w \<and> \<not> tc_in_setspecific h0 \<longrightarrow> tls_heap w' me 0 = p0) \<and>
    (tsd_inited w \<and> \<not> tc_in_setspecific h1 \<longrightarrow> tls_heap w' me 1 = p1 \<and> tsd_value w' me = p1))"
  using find_both_step[OF ok lim, of me ty]
proof (elim disjE exE conjE)
  fix w1 w2 p0 h0 p1 h1
  assume 1: "find_or_new me 0 w = Inr (p0, w1)" "find_or_new me 1 w1 = Inr (p1, w2)" "has_caches me p0 h0 p1 h1 w2" "threads_ok App w2" "limits {} w2"
    "cw w2 = cw w" "tsd_inited w2 = tsd_inited w" "first_cache me 0 w = None \<longrightarrow> empty_cache h0" "first_cache me 1 w = None \<longrightarrow> empty_cache h1"
  have "find_or_new me 0 w2 = Inr (p0, w2)" "find_or_new me 1 w2 = Inr (p1, w2)"
    using 1(3) by (simp_all add: find_or_new_def first_cache_def has_caches_def)
  then have e: "CreateCacheIfNecessary me ty w = CreateCacheIfNecessary me ty w2" using 1(1,2) by (simp add: CreateCacheIfNecessary_def)
  from has_caches_create[OF 1(3) ty, of App "{}"] show ?thesis
    unfolding e using 1 by (elim exE conjE) (intro disjI2 exI conjI, assumption+, simp_all)
qed blast

lemma calm_find_or_new: "cache_room (Suc m) w \<Longrightarrow> Suc m \<le> 50 \<Longrightarrow> calm (\<lambda>r. cache_room m (snd r)) (find_or_new me i w)"
  using calm_NewHeap[of m w me i] room_mono[of "Suc m" sizeof_ThreadCache "threadcache_allocator w" m]
  by (simp add: find_or_new_def cache_room_def split: option.split)

lemma calm_publish: "calm (\<lambda>_. True) (publish me i p w)"
  by (auto simp: publish_def Let_def split: option.split)

lemma create_crash: "CreateCacheIfNecessary me ty w = Inl AssertFail \<Longrightarrow> \<not> cache_room 2 w"
proof
  assume c: "CreateCacheIfNecessary me ty w = Inl AssertFail" and "cache_room 2 w"
  then have r: "cache_room (Suc 1) w" by (simp add: numeral_2_eq_2)
  have "calm (\<lambda>_. True) (CreateCacheIfNecessary me ty w)"
    unfolding CreateCacheIfNecessary_def
  proof (rule calm_rbind[OF calm_find_or_new[OF r]])
    fix x :: "ptr \<times> thread_world"
    assume "cache_room 1 (snd x)"
    then have r1: "cache_room (Suc 0) (snd x)" by simp
    show "calm (\<lambda>_. True) (case x of (p0, w) \<Rightarrow> rbind (find_or_new me 1 w) (\<lambda>(p1, w). rbind (publish me 0 p0 w) (\<lambda>w.
        rbind (publish me 1 p1 w) (\<lambda>w. if ty = 0 then Inr (p0, w) else if ty = 1 then Inr (p1, w) else Inl OutOfBounds))))"
      using calm_find_or_new[OF r1, of me 1] by (cases x) (auto intro!: calm_rbind[where Q = "\<lambda>r. cache_room 0 (snd r)"] calm_rbind[OF calm_publish])
  qed simp
  then show False using c by simp
qed

text \<open>C13: \<open>CreateCacheIfNecessary\<close> ends the process only when there is no room for two more caches. Otherwise it returns the cache of the thread and the
  heap type asked for; the caches, the lists and the budget stay right; unless the cache is being published, and once thread-specific data is available, the
  thread finds it from then on without a search; and a second call returns the same cache and changes no cache.\<close>

theorem create_cache_correct:
  assumes "threads_ok App w" and "limits {} w" and "ty = 0 \<or> ty = 1"
  shows "CreateCacheIfNecessary me ty w = Inl AssertFail \<and> \<not> cache_room 2 w \<or> (\<exists>p h w'. CreateCacheIfNecessary me ty w = Inr (p, w') \<and>
    caches w' p = Some h \<and> tc_tid h = me \<and> tc_type h = ty \<and> threads_ok App w' \<and> limits {} w' \<and>
    (tsd_inited w \<and> \<not> tc_in_setspecific h \<longrightarrow> GetCacheIfPresent me ty w' = p) \<and>
    (\<exists>w''. CreateCacheIfNecessary me ty w' = Inr (p, w'') \<and> caches w'' = caches w'))"
  using create_step[OF assms, of me]
proof (elim disjE exE conjE)
  fix p0 h0 p1 h1 w'
  assume 1: "CreateCacheIfNecessary me ty w = Inr (if ty = 0 then p0 else p1, w')" "has_caches me p0 h0 p1 h1 w'" "threads_ok App w'" "limits {} w'"
    "tsd_inited w' = tsd_inited w" "tsd_inited w \<and> \<not> tc_in_setspecific h0 \<longrightarrow> tls_heap w' me 0 = p0"
    "tsd_inited w \<and> \<not> tc_in_setspecific h1 \<longrightarrow> tls_heap w' me 1 = p1 \<and> tsd_value w' me = p1"
  let ?p = "if ty = 0 then p0 else p1" and ?h = "if ty = 0 then h0 else h1"
  have a: "caches w' ?p = Some ?h \<and> tc_tid ?h = me \<and> tc_type ?h = ty" using 1(2) assms(3) by (auto simp: has_caches_def)
  have b: "tsd_inited w \<and> \<not> tc_in_setspecific ?h \<longrightarrow> GetCacheIfPresent me ty w' = ?p"
    using 1(5-7) assms(3) by (auto simp: GetCacheIfPresent_def GetThreadHeap_def)
  have c: "\<exists>w''. CreateCacheIfNecessary me ty w' = Inr (?p, w'') \<and> caches w'' = caches w'"
    using has_caches_create[OF 1(2) assms(3)] by blast
  show ?thesis using 1(1,3,4) a b c by blast
qed (use create_crash[of me ty w] in simp)

section \<open>The end of a thread\<close>

lemma clear_tls_eq: "clear_tls me w = w\<lparr>tls_heap := (tls_heap w)(me := (tls_heap w me)(0 := NULL, 1 := NULL)), tls_min_size := (tls_min_size w)(me := 0)\<rparr>"
  by (simp add: clear_tls_def heap_types_def set_tls_heap_def SetMinSizeForSlowPath_def)

lemma clear_tls_keeps [simp]: "threads_ok App (clear_tls me w) = threads_ok App w" "limits X (clear_tls me w) = limits X w"
    "caches (clear_tls me w) = caches w" "cw (clear_tls me w) = cw w"
  by (simp_all add: clear_tls_eq threads_ok_def limits_def)

lemma default_type: "DEFAULT_HEAP_TYPE = 1"
  by (simp add: DEFAULT_HEAP_TYPE_def OPEN_MAPPING_def)

text \<open>C40: when a thread ends, one of its two caches stays. \<open>CreateCacheIfNecessary\<close> stores both caches of a thread in the same
  thread-specific value, so the destructor is called for the second one, the cache of the default heap type, only. The
  cache of the other type remains in the list with its limit, and no thread-local value leads to it any more.\<close>

theorem thread_exit_leaks_cache:
  assumes "threads_ok App w" and "limits {} w" and "tsd_inited w" and "\<forall>q h. caches w q = Some h \<longrightarrow> tc_tid h \<noteq> me"
    and "CreateCacheIfNecessary me 1 w = Inr (p, w1)" and "card (dom (spans (ph (cw w)))) < fuel"
  shows "\<exists>w2 q h. DestroyThreadCache fuel me (tsd_value w1 me) w1 = Inr w2 \<and> threads_ok App w2 \<and> limits {} w2 \<and>
    caches w2 p = None \<and> caches w2 q = Some h \<and> tc_tid h = me \<and> tc_type h = 0 \<and> q \<in> set (thread_heaps w2) \<and>
    (\<forall>i \<in> set heap_types. GetThreadHeap me i w2 = NULL)"
proof -
  have n: "first_cache me i w = None" for i
    using assms(4) first_cache_Some[of me i w] by (metis option.exhaust)
  have "CreateCacheIfNecessary me 1 w \<noteq> Inl AssertFail" using assms(5) by simp
  then obtain p0 h0 h1 where c: "has_caches me p0 h0 p h1 w1" "threads_ok App w1" "limits {} w1" "cw w1 = cw w" "empty_cache h1" "tsd_value w1 me = p"
    using create_step[OF assms(1,2), of 1 me] n assms(3,5) by (auto simp: empty_cache_def)
  let ?w = "clear_tls me w1"
  have h: "caches ?w p = Some h1" "tc_type h1 = DEFAULT_HEAP_TYPE" "caches w1 p0 = Some h0" "tc_tid h0 = me" "tc_type h0 = 0" "p0 \<noteq> p"
    using c(1) by (auto simp: has_caches_def default_type)
  have f: "card (dom (spans (ph (cw ?w)))) < fuel" using assms(6) c(4) by simp
  have k: "threads_ok App ?w" "limits {} ?w" using c(2,3) by simp_all
  obtain w2 where w2: "DeleteCache fuel p ?w = Inr w2" "caches w2 = (caches ?w)(p := None)" "threads_ok App w2" "limits {} w2" "tls_heap w2 = tls_heap ?w"
    using delete_cache_step[OF k h(1,2) f] by blast
  have "caches w1 NULL = None" using c(3) by (simp add: limits_def)
  then have "p \<noteq> NULL" using h(1) by auto
  then have d: "DestroyThreadCache fuel me (tsd_value w1 me) w1 = Inr w2" using w2(1) c(6) by (simp add: DestroyThreadCache_def)
  have q: "caches w2 p = None" "caches w2 p0 = Some h0" using w2(2) h(3,6) by simp_all
  then have "p0 \<in> set (thread_heaps w2)" using w2(4) by (auto simp: limits_def)
  moreover have "\<forall>i \<in> set heap_types. GetThreadHeap me i w2 = NULL" using w2(5) by (simp add: GetThreadHeap_def clear_tls_eq heap_types_def)
  ultimately show ?thesis using d w2(3,4) q h(4,5) by blast
qed

end
