(* ===== verification/Thread_Cache_Start.thy ===== *)
theory Thread_Cache_Start
  imports Thread_Cache_Life_Props
begin

text \<open>
  The start of the allocator: from the static storage of a fresh process \<open>InitModule\<close> establishes the invariants that all other
  operations keep; and the budget is shared out anew when the overall size changes.
\<close>

section \<open>A new overall size\<close>

lemma no_limit_scale [simp]: "no_limit (Some (scale_max_size r h)) = no_limit (Some h)"
  by (simp add: scale_max_size_def no_limit_def)

lemma recompute_step:
  assumes "distinct ps" and "set ps \<subseteq> dom C"
  shows "\<exists>C'. recompute_heaps r ps n C = Inr (n + (\<Sum>p \<in> set ps. tc_max_size (the (C' p))), C') \<and>
    (\<forall>q. no_limit (C' q) = no_limit (C q)) \<and> (\<forall>q. q \<notin> set ps \<longrightarrow> C' q = C q)"
  using assms
proof (induction ps arbitrary: n C)
  case (Cons p ps)
  obtain h where h: "C p = Some h" using Cons.prems(2) by auto
  let ?h = "scale_max_size r h" and ?D = "C(p \<mapsto> scale_max_size r h)"
  have "set ps \<subseteq> dom ?D" using Cons.prems(2) by auto
  then obtain C' where C': "recompute_heaps r ps (n + tc_max_size ?h) ?D = Inr (n + tc_max_size ?h + (\<Sum>q \<in> set ps. tc_max_size (the (C' q))), C')"
      "\<forall>q. no_limit (C' q) = no_limit (?D q)" "\<forall>q. q \<notin> set ps \<longrightarrow> C' q = ?D q"
    using Cons.IH[OF distinct_tl[OF Cons.prems(1), simplified], of ?D "n + tc_max_size ?h"] by blast
  have p: "C' p = Some ?h" using C'(3) Cons.prems(1) by simp
  have "no_limit (C' q) = no_limit (C q)" for q
  proof (cases "q = p")
    case True
    show ?thesis unfolding True p h by (rule no_limit_scale)
  qed (use C'(2) in simp)
  moreover have "C' q = C q" if "q \<notin> set (p # ps)" for q using C'(3) that by auto
  moreover have "recompute_heaps r (p # ps) n C = Inr (n + (\<Sum>q \<in> set (p # ps). tc_max_size (the (C' q))), C')"
    using C'(1) h p Cons.prems(1) by (simp add: Let_def add.assoc)
  ultimately show ?case by blast
qed simp

lemma sint_small:
  fixes n :: uint64
  assumes "524288 \<le> n" and "n \<le> 1073741824"
  shows "0 < sint n"
proof -
  have u: "524288 \<le> uint n" "uint n \<le> 1073741824" using assms by (simp_all add: word_le_def)
  then have "sint n = uint n" by (simp add: sint_uint signed_take_bit_int_eq_self)
  then show ?thesis using u by simp
qed

lemma recompute_eq: "\<exists>r sp. RecomputePerThreadCacheSize w = rbind (recompute_heaps r (thread_heaps w) 0 (caches w)) (\<lambda>(claimed, C).
    Inr (w\<lparr>caches := C, unclaimed_cache_space := overall_thread_cache_size w - claimed, per_thread_cache_size := sp\<rparr>))"
  unfolding RecomputePerThreadCacheSize_def Let_def by (intro exI) (rule refl)

definition clip_overall :: "uint64 \<Rightarrow> uint64" where
  "clip_overall n = min 1073741824 (max kMinThreadCacheSize n)"

lemma no_limit_threads:
  assumes "\<And>q. no_limit (caches w' q) = no_limit (caches w q)" and "cw w' = cw w" and "threads_ok App w"
  shows "threads_ok App w'"
proof -
  have "only_limits w (w\<lparr>caches := caches w', next_memory_steal := next_memory_steal w, unclaimed_cache_space := unclaimed_cache_space w\<rparr>)"
    unfolding only_limits_def using assms(1) by blast
  from only_limits_threads[OF this assms(3)] show ?thesis using assms(2) by (simp add: threads_ok_def)
qed

lemma overall_size_step:
  assumes "limits {} w"
  shows "\<exists>w'. set_overall_thread_cache_size n w = Inr w' \<and> overall_thread_cache_size w' = clip_overall n \<and> limits {} w' \<and>
    (\<forall>q. no_limit (caches w' q) = no_limit (caches w q)) \<and> cw w' = cw w \<and> threadcache_allocator w' = threadcache_allocator w"
proof -
  note l = assms[unfolded limits_def]
  have d: "set (thread_heaps w) = dom (caches w)" using l by simp
  define w0 where "w0 = w\<lparr>overall_thread_cache_size := clip_overall n\<rparr>"
  obtain r sp where r: "RecomputePerThreadCacheSize w0 = rbind (recompute_heaps r (thread_heaps w0) 0 (caches w0)) (\<lambda>(claimed, C).
      Inr (w0\<lparr>caches := C, unclaimed_cache_space := overall_thread_cache_size w0 - claimed, per_thread_cache_size := sp\<rparr>))"
    using recompute_eq[of w0] by blast
  obtain C where C: "recompute_heaps r (thread_heaps w) 0 (caches w) = Inr (0 + (\<Sum>p \<in> set (thread_heaps w). tc_max_size (the (C p))), C)"
      "\<And>q. no_limit (C q) = no_limit (caches w q)"
    using recompute_step[of "thread_heaps w" "caches w" r 0] l by auto
  define w' where "w' = w\<lparr>overall_thread_cache_size := clip_overall n, caches := C, unclaimed_cache_space := clip_overall n - claimed C, per_thread_cache_size := sp\<rparr>"
  have dC: "dom C = dom (caches w)"
  proof -
    have "C q = None \<longleftrightarrow> caches w q = None" for q using C(2)[of q] by (cases "C q"; cases "caches w q") (simp_all add: no_limit_def)
    then show ?thesis by (auto simp: dom_def)
  qed
  have cl: "0 + (\<Sum>p \<in> set (thread_heaps w). tc_max_size (the (C p))) = claimed C" unfolding claimed_def dC d by simp
  have clip: "(if (if n < kMinThreadCacheSize then kMinThreadCacheSize else n) > 1073741824 then 1073741824
      else (if n < kMinThreadCacheSize then kMinThreadCacheSize else n)) = clip_overall n"
    by (auto simp: clip_overall_def min_def max_def not_less dest: antisym)
  have s: "set_overall_thread_cache_size n w = Inr w'"
    using C(1) r unfolding cl set_overall_thread_cache_size_def Let_def clip w0_def[symmetric] by (simp add: w0_def w'_def)
  have f: "overall_thread_cache_size w' = clip_overall n" "caches w' = C" "cw w' = cw w" "thread_heaps w' = thread_heaps w"
      "thread_heap_count w' = thread_heap_count w" "next_memory_steal w' = next_memory_steal w" "threadcache_allocator w' = threadcache_allocator w"
      "unclaimed_cache_space w' = clip_overall n - claimed C"
    by (simp_all add: w'_def)
  have "caches w NULL = None" using l by simp
  then have "C NULL = None" using C(2)[of NULL] by (cases "C NULL") (simp_all add: no_limit_def)
  moreover have "0 < sint (clip_overall n)"
  proof -
    have "kMinThreadCacheSize \<le> (1073741824 :: uint64)" by (simp add: kMinThreadCacheSize_def)
    then have "kMinThreadCacheSize \<le> clip_overall n" "clip_overall n \<le> 1073741824" by (simp_all add: clip_overall_def)
    then show ?thesis by (intro sint_small) (simp_all add: kMinThreadCacheSize_def)
  qed
  ultimately have "limits {} w'" using l unfolding limits_def f dC by auto
  then show ?thesis using s f(1-3,7) C(2) by auto
qed

text \<open>\<open>set_overall_thread_cache_size\<close> sets the budget to the given size, clipped to between 512 KiB and 1 GiB, and leaves the invariants:
  the unclaimed space is the new budget minus the limits of the caches, and nothing but the limits of caches changes.\<close>

theorem overall_size_keeps_budget:
  assumes "threads_ok App w" and "limits {} w"
  shows "\<exists>w'. set_overall_thread_cache_size n w = Inr w' \<and> overall_thread_cache_size w' = clip_overall n \<and> threads_ok App w' \<and> limits {} w' \<and>
    (\<forall>q. no_limit (caches w' q) = no_limit (caches w q)) \<and> cw w' = cw w"
  using overall_size_step[OF assms(2), of n] no_limit_threads[OF _ _ assms(1)] by metis

section \<open>Initialisation\<close>

text \<open>A page heap without spans.\<close>

lemma pages_on_empty [simp]: "pages_on Map.empty h r = 0"
  by (simp add: pages_on_def)

lemma empty_ph_ok:
  assumes "spans w = Map.empty" and "\<And>l. span_lists w l = []" and "pm_root (pagemap w) = (\<lambda>_. None)" and "pa_ok sizeof_Span L (span_allocator w)"
    and "\<And>h. free_bytes (page_heaps w h) = 0 \<and> unmapped_bytes (page_heaps w h) = 0"
  shows "ph_ok {} w"
proof -
  have "pm_get (pagemap w) k = NULL" for k by (simp add: pm_get_def assms(3))
  then have "layout (spans w) (pagemap w)" by (simp add: layout_def assms(1) covered_def)
  moreover have "alloc_ok (spans w) (span_allocator w)" using assms(1,4) by (auto simp: alloc_ok_def)
  moreover have "links (spans w) (span_lists w)" by (simp add: links_def assms(1,2) link_of_def)
  ultimately show ?thesis using assms(5) by (simp add: ph_ok_def filed_def stats_ok_def coal_def assms(1))
qed

text \<open>The lists of one heap type after their \<open>Init\<close>.\<close>

lemma init_central_step:
  assumes "sizemap_ok (sizemap s)" and "set cs \<subseteq> {..<88}" and "\<And>l. span_lists (ph s) l = []"
  shows "\<exists>s' K. init_central t cs s = Inr s' \<and> sizemap s' = sizemap s \<and> race_counter s' = race_counter s \<and>
    ph s' = (ph s)\<lparr>span_lists := K\<rparr> \<and> (\<forall>l. K l = []) \<and>
    (\<forall>u c. if u = t \<and> c \<in> set cs then CentralFreeList_Init (sizemap s) c = Inr (central s' u c) else central s' u c = central s u c)"
  using assms
proof (induction cs arbitrary: s)
  case Nil
  show ?case
  proof (intro exI[of _ s] exI[of _ "span_lists (ph s)"] conjI)
    show "\<forall>l. span_lists (ph s) l = []" using Nil(3) by blast
  qed simp_all
next
  case (Cons c cs)
  have c: "c < 88" using Cons.prems(2) by simp
  obtain l where l: "CentralFreeList_Init (sizemap s) c = Inr l" by (rule list_init_step[OF Cons.prems(1) c])
  let ?K = "(span_lists (ph s))(Empty_spans t c := [], Nonempty_spans t c := [])"
  define s1 where "s1 = (upd_central t c (\<lambda>_. l) s)\<lparr>ph := (ph s)\<lparr>span_lists := ?K\<rparr>\<rparr>"
  have f: "sizemap s1 = sizemap s" "race_counter s1 = race_counter s" "ph s1 = (ph s)\<lparr>span_lists := ?K\<rparr>"
    "central s1 = (central s)(t := (central s t)(c := l))" by (simp_all add: s1_def upd_central_def)
  have "sizemap_ok (sizemap s1)" "set cs \<subseteq> {..<88}" "\<And>l. span_lists (ph s1) l = []" using Cons.prems by (simp_all add: f)
  from Cons.IH[OF this] obtain s' K where s': "init_central t cs s1 = Inr s'" "sizemap s' = sizemap s1" "race_counter s' = race_counter s1"
      "ph s' = (ph s1)\<lparr>span_lists := K\<rparr>" "\<forall>l. K l = []"
      "\<forall>u c. if u = t \<and> c \<in> set cs then CentralFreeList_Init (sizemap s1) c = Inr (central s' u c) else central s' u c = central s1 u c"
    by blast
  have "init_central t (c # cs) s = Inr s'" using l s'(1) by (simp add: s1_def)
  moreover have "if u = t \<and> d \<in> set (c # cs) then CentralFreeList_Init (sizemap s) d = Inr (central s' u d) else central s' u d = central s u d" for u d
    using s'(6)[rule_format, of u d] l unfolding f by (auto split: if_splits)
  ultimately show ?case using s'(2-5) by (auto simp: f)
qed

text \<open>
  The static storage of a fresh process: counters and pointers are zero, lists empty, nothing was allocated. A central list that was not
  initialised has no room; there are such lists only for types that do not exist.
\<close>

definition zero_list :: central_list where
  "zero_list = \<lparr>cfl_lock = False, cfl_num_spans = 0, cfl_counter = 0, tc_slots = replicate 64 [], used_slots = 0, cache_size = 0, max_cache_size = 0\<rparr>"

definition static_central :: "central_world \<Rightarrow> bool" where
  "static_central s \<longleftrightarrow> spans (ph s) = Map.empty \<and> (\<forall>l. span_lists (ph s) l = []) \<and>
     (\<forall>h. free_bytes (page_heaps (ph s) h) = 0 \<and> unmapped_bytes (page_heaps (ph s) h) = 0) \<and>
     central s = (\<lambda>_ _. zero_list) \<and> race_counter s = 0 \<and> pa_cnt (span_allocator (ph s)) = 0 \<and> meta_contract (span_allocator (ph s))"

definition static_storage :: "thread_world \<Rightarrow> bool" where
  "static_storage w \<longleftrightarrow> static_central (cw w) \<and> caches w = Map.empty \<and> thread_heaps w = [] \<and> thread_heap_count w = 0 \<and>
     next_memory_steal w = NULL \<and> unclaimed_cache_space w = kDefaultOverallThreadCacheSize \<and> overall_thread_cache_size w = kDefaultOverallThreadCacheSize \<and>
     per_thread_cache_size w = kMaxThreadCacheSize \<and> \<not> phinited w \<and> \<not> tsd_inited w \<and>
     pa_cnt (threadcache_allocator w) = 0 \<and> pa_avail (threadcache_allocator w) = 0 \<and> pa_free (threadcache_allocator w) = [] \<and>
     meta_contract (threadcache_allocator w)"

lemma pa_Init_ok:
  assumes "0 < sz" and "sz \<le> kAllocIncrement" and "meta_contract a" and "pa_cnt a = 0" and "pa_Init sz a = Inr a'"
  shows "pa_ok sz {} a'"
proof -
  define b where "b = a\<lparr>pa_inuse := 0, pa_area := NULL, pa_avail := 0, pa_free := []\<rparr>"
  have "meta_contract b" using assms(3) by (simp add: b_def meta_contract_def block_extent_def)
  then have b: "pa_ok sz {} b" using assms(4) by (simp add: pa_ok_def b_def area_extent_def)
  obtain p a1 where p: "pa_New sz b = Inr (p, a1)" "a' = pa_Delete p a1" using assms(5) by (auto simp: pa_Init_def b_def rbind_eq_Inr)
  have "pa_ok sz {p} a1" using pa_New_ok[OF assms(1,2) b p(1)] by simp
  then show ?thesis using pa_Delete_ok[of sz "{p}" a1 p] p(2) by simp
qed

text \<open>\<open>Init\<close> starts with an empty area: it needs the next block.\<close>

lemma pa_Init_null: "pa_meta a (pa_cnt a) = NULL \<Longrightarrow> 0 < sz \<Longrightarrow> pa_Init sz a = Inl AssertFail"
  by (simp add: pa_Init_def pa_New_def)

lemma pa_Init_room:
  assumes "pa_meta a (pa_cnt a) \<noteq> NULL" and "0 < sz" and "Suc m * sz \<le> kAllocIncrement"
  obtains a' where "pa_Init sz a = Inr a'" "room m sz a'"
proof -
  define b where "b = a\<lparr>pa_inuse := 0, pa_area := NULL, pa_avail := 0, pa_free := []\<rparr>"
  have "room (Suc m) sz b" using assms(1) by (simp add: room_def b_def)
  then obtain p a1 where "pa_New sz b = Inr (p, a1)" "room m sz a1" using room_New[OF assms(2,3)] by metis
  then show thesis using that[of "pa_Delete p a1"] room_Delete by (simp add: pa_Init_def b_def)
qed

lemma span_start:
  assumes "meta_contract a" and "pa_cnt a = 0" and "pa_meta a 0 \<noteq> NULL"
  obtains a1 p a2 q a3 L where "pa_Init sizeof_Span a = Inr a1" "pa_New sizeof_Span a1 = Inr (p, a2)" "pa_New sizeof_Span a2 = Inr (q, a3)"
    "pa_ok sizeof_Span L a3"
proof -
  have sz: "0 < sizeof_Span" "Suc 2 * sizeof_Span \<le> kAllocIncrement" "Suc 1 * sizeof_Span \<le> kAllocIncrement" "Suc 0 * sizeof_Span \<le> kAllocIncrement"
    by (simp_all add: sizeof_Span_def kAllocIncrement_def)
  have "pa_meta a (pa_cnt a) \<noteq> NULL" using assms(2,3) by simp
  then obtain a1 where 1: "pa_Init sizeof_Span a = Inr a1" "room 2 sizeof_Span a1" using pa_Init_room[OF _ sz(1,2)] by metis
  obtain p a2 where 2: "pa_New sizeof_Span a1 = Inr (p, a2)" "room 1 sizeof_Span a2"
    using room_New[OF sz(1,3)] 1(2) by (metis Suc_1)
  obtain q a3 where 3: "pa_New sizeof_Span a2 = Inr (q, a3)"
    using room_New[OF sz(1,4)] 2(2) by (metis One_nat_def)
  have "pa_ok sizeof_Span {} a1"
    using 1(1) assms sz by (intro pa_Init_ok[of sizeof_Span a]) simp_all
  then have "pa_ok sizeof_Span {p} a2" using span_source.new_fresh[OF _ 2(1)] by blast
  then have "pa_ok sizeof_Span (insert q {p}) a3" using span_source.new_fresh[OF _ 3] by blast
  then show thesis by (rule that[OF 1(1) 2(1) 3])
qed

lemma start_entry:
  assumes "list_ok m c l" and "\<not> cfl_lock l" and "held l = []" and "cfl_counter l = 0" and "cfl_num_spans l = 0" and "spans w = Map.empty"
  shows "entry_ok m w {} (\<lambda>_ _. {}) t c l"
proof -
  have "members w t c = {}" by (simp add: members_def assms(6))
  then show ?thesis using assms by (simp add: entry_ok_def out_objs_def free_objs_def)
qed

lemma zero_list_entry: "spans w = Map.empty \<Longrightarrow> entry_ok m w {} (\<lambda>_ _. {}) t c zero_list"
  by (rule start_entry) (simp_all add: zero_list_def list_ok_def held_def)

lemma init_list_entry:
  assumes "sizemap_ok m" and "c < 88" and "CentralFreeList_Init m c = Inr l" and "spans w = Map.empty"
  shows "entry_ok m w {} (\<lambda>_ _. {}) t c l"
proof -
  obtain k where "CentralFreeList_Init m c = Inr k" "list_ok m c k" "\<not> cfl_lock k" "held k = []" "cfl_counter k = 0" "cfl_num_spans k = 0"
    by (rule list_init_step[OF assms(1,2)])
  then show ?thesis using assms(3,4) by (intro start_entry) simp_all
qed

lemma new_page_heap_empty:
  assumes "span_lists w = (\<lambda>_. [])"
  shows "new_page_heap True i w = Inr (w\<lparr>page_heaps := (page_heaps w)(i := page_heap_init False), span_lists := (\<lambda>_. [])\<rparr>)"
proof -
  have "(\<lambda>l. case l of Freelist h n r \<Rightarrow> if h = i then [] else span_lists w l | _ \<Rightarrow> span_lists w l) = (\<lambda>_. [])"
    by (rule ext) (simp add: assms split: list_id.splits)
  then show ?thesis by (simp add: new_page_heap_def)
qed

text \<open>The state that \<open>InitStaticVars\<close> builds.\<close>

definition initialised :: "bool \<Rightarrow> size_map \<Rightarrow> central_world \<Rightarrow> bool" where
  "initialised b m s \<longleftrightarrow> central_inv {} (\<lambda>_ _. {}) s \<and> sizemap s = m \<and> spans (ph s) = Map.empty \<and>
     (\<forall>t \<in> set heap_types. aggressive_decommit (page_heaps (ph s) t) = b \<and> (\<forall>c < 88. CentralFreeList_Init m c = Inr (central s t c)))"

lemma init_static_step:
  assumes s: "static_central s" and m: "SizeMap_Init n = Inr m" "sizemap_ok m" and meta: "\<forall>k < 7. meta k"
    and block: "pa_meta (span_allocator (ph s)) 0 \<noteq> NULL"
  shows "\<exists>s'. InitStaticVars n agg meta s = Inr s' \<and> initialised (StringToBool agg True) m s'"
proof -
  let ?ph = "ph s" and ?b = "StringToBool agg True"
  note z = s[unfolded static_central_def]
  have mt: "meta 0" "meta 1" "meta 2" "meta 3" "meta 4" "meta 5" "meta 6" using meta by simp_all
  have "meta_contract (span_allocator ?ph)" "pa_cnt (span_allocator ?ph) = 0" using z by simp_all
  from span_start[OF this block] show ?thesis
  proof cases
    fix a1 p a2 q a L
    assume a: "pa_Init sizeof_Span (span_allocator ?ph) = Inr a1" "pa_New sizeof_Span a1 = Inr (p, a2)" "pa_New sizeof_Span a2 = Inr (q, a)" "pa_ok sizeof_Span L a"
    define s0 where "s0 = s\<lparr>sizemap := m, ph := ?ph\<lparr>span_allocator := a\<rparr>\<rparr>"
    have c88: "set [0..<nat kNumClasses] = {..<88}" by (auto simp: kNumClasses_def)
    have f0: "sizemap s0 = m" "race_counter s0 = 0" "central s0 = (\<lambda>_ _. zero_list)" using z by (simp_all add: s0_def)
    have s0: "sizemap_ok (sizemap s0)" "\<And>l. span_lists (ph s0) l = []" using m(2) z by (simp_all add: s0_def)
    obtain s1 K1 where 1: "init_central 0 [0..<nat kNumClasses] s0 = Inr s1" "sizemap s1 = m" "race_counter s1 = 0" "ph s1 = (ph s0)\<lparr>span_lists := K1\<rparr>" "\<forall>l. K1 l = []"
        "\<forall>u c. if u = 0 \<and> c < 88 then CentralFreeList_Init m c = Inr (central s1 u c) else central s1 u c = zero_list"
      using init_central_step[of s0 "[0..<nat kNumClasses]" 0] s0 unfolding c88 f0 by auto
    have s1: "sizemap_ok (sizemap s1)" "\<And>l. span_lists (ph s1) l = []" using m(2) 1 by simp_all
    obtain s2 K2 where 2: "init_central 1 [0..<nat kNumClasses] s1 = Inr s2" "sizemap s2 = m" "race_counter s2 = 0" "ph s2 = (ph s1)\<lparr>span_lists := K2\<rparr>" "\<forall>l. K2 l = []"
        "\<forall>u c. if u = 1 \<and> c < 88 then CentralFreeList_Init m c = Inr (central s2 u c) else central s2 u c = central s1 u c"
      using init_central_step[of s1 "[0..<nat kNumClasses]" 1] s1 1(2,3) unfolding c88 by auto
    have e: "central s2 t c = zero_list \<or> CentralFreeList_Init m c = Inr (central s2 t c)" if "c < 88" for t c
      using 1(6)[rule_format, of t c] 2(6)[rule_format, of t c] that by (auto split: if_splits)
    define w where "w = (ph s2)\<lparr>page_heaps := (page_heaps (ph s2))(0 := (page_heap_init False)\<lparr>aggressive_decommit := ?b\<rparr>, 1 := (page_heap_init False)\<lparr>aggressive_decommit := ?b\<rparr>),
      span_lists := (\<lambda>_. []), pagemap := (pagemap (ph s2))\<lparr>pm_root := (\<lambda>_. None)\<rparr>, pagemap_cache := pc_Clear 0\<rparr>"
    have r: "InitStaticVars n agg meta s = Inr (s2\<lparr>ph := w\<rparr>)"
    proof -
      have K: "span_lists (ph s2) = (\<lambda>_. [])" using 2(5) by (auto simp: 2(4))
      define v where "v = (ph s2)\<lparr>page_heaps := (page_heaps (ph s2))(0 := page_heap_init False), span_lists := (\<lambda>_. [])\<rparr>"
      define v2 where "v2 = v\<lparr>page_heaps := (page_heaps v)(1 := page_heap_init False), span_lists := (\<lambda>_. [])\<rparr>"
      define v3 where "v3 = v2\<lparr>pagemap := (pagemap v2)\<lparr>pm_root := (\<lambda>_. None)\<rparr>, pagemap_cache := pc_Clear 0\<rparr>"
      have v: "new_page_heap True 0 (ph s2) = Inr v" "new_page_heap True 1 v = Inr v2"
        using new_page_heap_empty[OF K] new_page_heap_empty[of v] by (simp_all add: v_def v2_def)
      have f: "(fold (SetAggressiveDecommit ?b) heap_types v3)\<lparr>span_lists := (span_lists (fold (SetAggressiveDecommit ?b) heap_types v3))(Sampled_objects := [])\<rparr> = w"
        by (simp add: SetAggressiveDecommit_def upd_heap_def heap_types_def v3_def v2_def v_def w_def fun_eq_iff)
      show ?thesis
        unfolding InitStaticVars_def m(1) a(1-3) rbind_Inr prod.case Let_def s0_def[symmetric] 1(1) 2(1) using mt v f by (simp add: v3_def)
    qed
    have w: "spans w = Map.empty" "span_allocator w = a" using z by (simp_all add: w_def 2(4) 1(4) s0_def)
    have "ph_ok {} w"
    proof (rule empty_ph_ok[OF w(1)])
      show "pa_ok sizeof_Span L (span_allocator w)" using a(4) w(2) by simp
      show "free_bytes (page_heaps w h) = 0 \<and> unmapped_bytes (page_heaps w h) = 0" for h
        using z by (simp add: w_def page_heap_init_def 2(4) 1(4) s0_def)
    qed (simp_all add: w_def)
    moreover have "entry_ok m w {} (\<lambda>_ _. {}) t c (central s2 t c)" if "c < 88" for t c
      using e[OF that, of t] zero_list_entry[OF w(1)] init_list_entry[OF m(2) that _ w(1)] by metis
    moreover have "classes_ok m w" by (simp add: classes_ok_def w(1))
    ultimately have "central_inv {} (\<lambda>_ _. {}) (s2\<lparr>ph := w\<rparr>)" using m(2) 2(2,3) by (simp add: central_inv_def)
    moreover have "CentralFreeList_Init m c = Inr (central s2 t c)" if "c < 88" "t \<in> set heap_types" for t c
      using 1(6)[rule_format, of t c] 2(6)[rule_format, of t c] that by (auto simp: heap_types_def split: if_splits)
    ultimately have "initialised ?b m (s2\<lparr>ph := w\<rparr>)" using w(1) 2(2) by (auto simp: initialised_def w_def heap_types_def)
    then show ?thesis using r by blast
  qed
qed

lemma init_static_null:
  assumes "static_central s" and "SizeMap_Init n = Inr m" and "pa_meta (span_allocator (ph s)) 0 = NULL"
  shows "InitStaticVars n agg meta s = Inl AssertFail"
proof -
  have "pa_Init sizeof_Span (span_allocator (ph s)) = Inl AssertFail"
    using assms by (intro pa_Init_null) (simp_all add: static_central_def sizeof_Span_def)
  then show ?thesis using assms(2) by (simp add: InitStaticVars_def)
qed

lemma static_limits: "static_storage w \<Longrightarrow> limits {} w"
  by (simp add: static_storage_def limits_def claimed_def pa_ok_def area_extent_def kDefaultOverallThreadCacheSize_def kMaxThreadCacheSize_def sint_uint)

lemma limits_no_caches:
  assumes "limits {} w" and "caches w = Map.empty" and "pa_ok sizeof_ThreadCache {} a"
  shows "limits {} (w\<lparr>cw := s, threadcache_allocator := a, phinited := True\<rparr>)"
  using assms by (auto simp: limits_def)


end
