(* ===== verification/Thread_Cache_Examples.thy ===== *)
theory Thread_Cache_Examples
  imports Thread_Cache_Start
begin

text \<open>
  States to apply the properties of the thread caches to: a process with one cache of the default heap type, and the static
  storage of a fresh process.
\<close>

section \<open>One cache\<close>

definition cache_P :: ptr where "cache_P = 4294967296"

definition cache7 :: tcache where
  "cache7 = \<lparr>tc_type = 1, tc_size = 0, tc_max_size = 65536, tc_lists = (\<lambda>_. FreeList_Init), tc_tid = 7, tc_in_setspecific = False\<rparr>"

definition cache_blocks :: object_allocator where
  "cache_blocks = object_allocator0\<lparr>pa_cnt := 1, pa_area := 4294969536, pa_avail := 128832, pa_inuse := 1\<rparr>"

definition one_cache :: "central_world \<Rightarrow> thread_world" where
  "one_cache s = \<lparr>cw = s, caches = [cache_P \<mapsto> cache7], thread_heaps = [cache_P], thread_heap_count = 1, next_memory_steal = cache_P,
     unclaimed_cache_space = 33488896, per_thread_cache_size = 4194304, overall_thread_cache_size = 33554432, threadcache_allocator = cache_blocks,
     phinited = True, tsd_inited = True, tsd_value = (\<lambda>_. NULL)(7 := cache_P), tls_heap = (\<lambda>_ _. NULL)(7 := (\<lambda>_. NULL)(1 := cache_P)),
     tls_min_size = (\<lambda>_. 0)(7 := 262145)\<rparr>"

lemma cache_blocks_ok: "pa_ok sizeof_ThreadCache {cache_P} cache_blocks"
proof -
  have m: "meta_contract cache_blocks" using object_allocator0_meta by (simp add: cache_blocks_def meta_contract_def block_extent_def)
  have u: "used_extent cache_blocks = {4294967296..<4295098368}"
    by (auto simp: used_extent_def block_extent_def cache_blocks_def object_allocator0_def kAllocIncrement_def lessThan_Suc)
  have "area_extent cache_blocks = {4294969536..<4295098368}" by (simp add: area_extent_def cache_blocks_def)
  then show ?thesis using m u unfolding pa_ok_def
    by (auto simp: obj_extent_def sizeof_ThreadCache_def cache_P_def cache_blocks_def object_allocator0_def)
qed

lemma cache7_empty: "empty_cache cache7"
  by (simp add: empty_cache_def cache7_def)

lemma one_cache_limits: "limits {} (one_cache s)"
proof -
  have "claimed [cache_P \<mapsto> cache7] = 65536" by (simp add: claimed_def cache7_def)
  then show ?thesis using cache_blocks_ok by (simp add: limits_def one_cache_def cache_P_def sint_uint)
qed

lemma one_cache_threads:
  assumes "central_inv {} App s" and "sizemap s = page_map"
  shows "threads_ok App (one_cache s)"
proof -
  have l: "lists_of cache7 t c = {}" for t c by (rule empty_cache_ok(2)[OF cache7_empty])
  have "others [cache_P \<mapsto> cache7] X t c = {}" for X t c by (auto simp: others_def l)
  then show ?thesis using assms empty_cache_ok(1)[OF cache7_empty page_map_ok] l by (auto simp: threads_ok_def one_cache_def split: if_splits)
qed

lemma one_cache_fields: "caches (one_cache s) cache_P = Some cache7" "cw (one_cache s) = s" "tc_type cache7 = 1" "tsd_inited (one_cache s)"
    "caches (one_cache s) q = Some h \<Longrightarrow> tc_tid h = 7"
  by (auto simp: one_cache_def cache7_def split: if_splits)

lemma fresh_cache_threads: "threads_ok (\<lambda>_ _. {}) (one_cache fresh_lists)"
  by (rule one_cache_threads[OF fresh_lists_inv]) (simp add: fresh_lists_def)

lemma fresh_lists_ph: "ph fresh_lists = two_pages" "sizemap fresh_lists = page_map"
  by (simp_all add: fresh_lists_def)

section \<open>The properties at that state\<close>


theorem thread_cache_deallocate_correct_witness:
  "\<exists>w'. Deallocate 3 cache_P 81920 5 (one_cache one_object) = Inr w' \<and> threads_ok (\<lambda>_ _. {}) w' \<and> limits {} w'"
proof -
  let ?O = "\<lambda>t c. if t = (1::int) \<and> c = (5::nat) then {81920 :: ptr} else {}"
  have t: "threads_ok ?O (one_cache one_object)" by (rule one_cache_threads[OF one_object_inv]) (simp add: one_object_def fresh_lists_def)
  have d: "dom (spans (ph one_object)) = {span_P, span_Q}" using two_pages_dom by (auto simp: one_object_def)
  have f: "card (dom (spans (ph (cw (one_cache one_object))))) < 3" unfolding one_cache_fields d by (simp add: span_P_def span_Q_def)
  have a: "tc_type cache7 = DEFAULT_HEAP_TYPE" "0 < (5::nat)" "5 < (88::nat)" "81920 \<in> ?O (tc_type cache7) 5" by (simp_all add: one_cache_fields(3) default_type)
  have o: "set_out 1 5 (?O 1 5 - {81920}) ?O = (\<lambda>_ _. {})" by (auto simp: set_out_def fun_eq_iff)
  show ?thesis using thread_cache_deallocate_correct[OF t one_cache_limits one_cache_fields(1) a f] unfolding one_cache_fields(3) o by blast
qed

lemma one_cache_room: "cache_room 2 (one_cache s)"
  by (simp add: cache_room_def room_def one_cache_def cache_blocks_def sizeof_ThreadCache_def)

theorem thread_caches_keep_budget_witness:
  "(\<exists>p w'. NewHeap 9 0 (one_cache fresh_lists) = Inr (p, w') \<and> thread_heaps w' = [p, cache_P] \<and> limits {} w') \<and>
   (\<exists>w'. DeleteCache 3 cache_P (one_cache fresh_lists) = Inr w' \<and> caches w' = Map.empty \<and> limits {} w')"
proof -
  let ?w = "one_cache fresh_lists"
  have f: "card (dom (spans (ph (cw ?w)))) < 3" "tc_type cache7 = DEFAULT_HEAP_TYPE"
    by (simp_all add: one_cache_fields fresh_lists_ph two_pages_card default_type)
  have e: "(caches ?w)(cache_P := None) = Map.empty" by (simp add: one_cache_def)
  have r: "cache_room 1 ?w" using one_cache_room[of fresh_lists] room_mono[of 2 _ _ 1] by (simp add: cache_room_def)
  have "\<exists>w'. DeleteCache 3 cache_P ?w = Inr w' \<and> caches w' = (caches ?w)(cache_P := None) \<and> threads_ok (\<lambda>_ _. {}) w' \<and> limits {} w'"
    using thread_caches_keep_budget[OF fresh_cache_threads one_cache_limits] one_cache_fields(1) f by blast
  moreover have "\<exists>p w'. NewHeap 9 0 ?w = Inr (p, w') \<and> thread_heaps w' = p # thread_heaps ?w \<and> limits {} w'"
    using thread_caches_keep_budget[OF fresh_cache_threads one_cache_limits, of 9 0] r by blast
  moreover have "thread_heaps ?w = [cache_P]" by (simp add: one_cache_def)
  ultimately show ?thesis unfolding e by metis
qed

theorem create_cache_correct_witness:
  "\<exists>p h w'. CreateCacheIfNecessary 9 1 (one_cache fresh_lists) = Inr (p, w') \<and>
     caches w' p = Some h \<and> tc_tid h = 9 \<and> tc_type h = 1 \<and> limits {} w'"
  using create_cache_correct[OF fresh_cache_threads one_cache_limits, of 1 9] one_cache_room[of fresh_lists] by blast

theorem overall_size_keeps_budget_witness:
  "\<exists>w'. set_overall_thread_cache_size 5 (one_cache fresh_lists) = Inr w' \<and> overall_thread_cache_size w' = clip_overall 5 \<and> limits {} w'"
  using overall_size_keeps_budget[OF fresh_cache_threads one_cache_limits, of 5] by blast

lemma create_succeeds: "\<exists>p w1. CreateCacheIfNecessary 9 1 (one_cache fresh_lists) = Inr (p, w1)"
proof -
  have s: "0 < sint (33488896 :: uint64)" "0 < sint (33423360 :: uint64)" by (simp_all add: sint_uint)
  show ?thesis
    using s by (simp add: CreateCacheIfNecessary_def find_or_new_def is_cache_of_def one_cache_def cache7_def NewHeap_def tcache_Init_def
        IncreaseCacheLimitLocked_def add_max_size_def pa_New_def cache_blocks_def object_allocator0_def sizeof_ThreadCache_def kStealAmount_def
        cache_P_def publish_def set_in_setspecific_def pthread_setspecific_def set_tls_heap_def SetMinSizeForSlowPath_def Let_def)
qed

theorem thread_exit_leaks_cache_witness:
  "\<exists>p w1 w2 q h. CreateCacheIfNecessary 9 1 (one_cache fresh_lists) = Inr (p, w1) \<and> DestroyThreadCache 3 9 (tsd_value w1 9) w1 = Inr w2 \<and>
    caches w2 q = Some h \<and> tc_tid h = 9 \<and> tc_type h = 0 \<and> q \<in> set (thread_heaps w2)"
proof -
  obtain p w1 where c: "CreateCacheIfNecessary 9 1 (one_cache fresh_lists) = Inr (p, w1)" using create_succeeds by blast
  have n: "\<forall>q h. caches (one_cache fresh_lists) q = Some h \<longrightarrow> tc_tid h \<noteq> 9" using one_cache_fields(5)[of fresh_lists] by fastforce
  have f: "card (dom (spans (ph (cw (one_cache fresh_lists))))) < 3" by (simp add: one_cache_fields fresh_lists_ph two_pages_card)
  show ?thesis using thread_exit_leaks_cache[OF fresh_cache_threads one_cache_limits one_cache_fields(4) n c f] c by blast
qed

section \<open>The static storage of a fresh process\<close>

definition boot_world :: thread_world where
  "boot_world = (one_cache (fresh_lists\<lparr>ph := two_pages\<lparr>spans := Map.empty, span_lists := (\<lambda>_. []), page_heaps := (\<lambda>_. page_heap_init False),
      span_allocator := object_allocator0\<rparr>, central := (\<lambda>_ _. zero_list)\<rparr>))
     \<lparr>caches := Map.empty, thread_heaps := [], thread_heap_count := 0, next_memory_steal := NULL, unclaimed_cache_space := 33554432,
      threadcache_allocator := object_allocator0, phinited := False, tsd_inited := False\<rparr>"

lemma boot_world_static: "static_storage boot_world"
  using object_allocator0_meta by (simp add: static_storage_def static_central_def boot_world_def one_cache_def fresh_lists_def page_heap_init_def
      object_allocator0_def kDefaultOverallThreadCacheSize_def kMaxThreadCacheSize_def)


end
