(* ===== verification/Spec2Isabelle.thy ===== *)
theory Spec2Isabelle
  imports HashMap_Threads Utl_List Utl_Bitmap Event_Queue_Props Page_Map_Correct Monitor_Correct Serial_Invariant
    TCMalloc_Props System_Pages Linked_List Thread_Cache_Examples
begin

text \<open>
  Verification of NightWatch (PC-Malloc), a library that gives a memory allocator control over the CPU
  cache.

  \<^bold>\<open>The program.\<close> NightWatch exists in a parallel version (\<open>src/nightwatch_beta_v2.0_parallel\<close>) and an
  older serial one (\<open>src/nightwatch_v1.01_serial\<close>), and as an extension of tcmalloc
  (\<open>src/gperftools-2.4_NW_externed_v2.0\<close>). An allocation asks the locality profile for the context of its
  call stack and the predictor for a heap type; the block gets a head in front of it; some blocks become
  chunks whose locality is monitored. The chunk monitor protects sample pages of a chunk; an access to one
  is a page fault, which records whether the cache line would survive (a victim) or not (a pollutor)
  by the cache misses the hardware counters saw since the last access, and puts an event in the time event
  queue that re-arms the page. The timer signal runs the due events. When a chunk has converged, its
  miss ratio is recorded in its context and in the table of sizes, which later allocations read. The
  wrappers of the C library touch and unprotect the pages of a buffer before the kernel sees it. Under the
  entry points lies the allocator itself, extended to two heap types: a thread takes objects from its
  cache for the type; the cache exchanges batches of objects with the central list of the type and size
  class; a central list carves spans of pages, which the page heap of the type cuts out of larger
  spans, merges again and obtains from the system.

  \<^bold>\<open>Theories and sources.\<close> Definitions keep the names of the source; those of the parallel version end in
  \<open>_mt\<close>, those of the serial version have the plain name, and code that is the same in both is modelled
  once.
  \<^item> \<open>NW_Prelude\<close>, \<open>NW_Config\<close>, \<open>NW_Memory\<close>, \<open>Float32\<close>: machine types, faults, the result monad
    (\<open>rbind\<close>, \<open>res_all\<close>), constants of \<open>config.h\<close>, \<open>internal_malloc\<close> of \<open>allocator.h\<close>, and single precision
    division and comparison as exact rationals with rounding.
  \<^item> \<open>Utl_List\<close> (\<open>utl_list.h\<close>), \<open>Utl_Bitmap\<close> (\<open>utl_bitmap.c\<close>): definitions and theorems.
  \<^item> \<open>Utl_HashMap\<close>, \<open>HashMap_Correct\<close> (serial \<open>utl_hash_map.c\<close>), \<open>Utl_HashMap_MT\<close> (parallel, one thread),
    \<open>HashMap_Threads\<close> (its locking protocol as a step relation over any number of threads). The locale
    \<open>key_index\<close> of \<open>Key_Index\<close> is what a map promises; both versions interpret it (\<open>hm\<close>, \<open>mt\<close>).
  \<^item> \<open>Event_Time\<close>, \<open>Event_Queue\<close>, \<open>Event_Queue_Correct\<close>, \<open>Event_Queue_Props\<close> (\<open>utl_event_queue.c\<close>,
    \<open>event_queue.c\<close>). The locale \<open>queue_map\<close> holds the proofs for both indexes (\<open>sq\<close>, \<open>mq\<close>).
  \<^item> \<open>Locality_Profile\<close>, \<open>Locality_Correct\<close> (\<open>locality_profile.c\<close>, \<open>context_key.h\<close>), \<open>Chunk_Predictor\<close>,
    \<open>Predictor_Correct\<close> (\<open>chunk_predictor.c\<close>).
  \<^item> \<open>Page_Sample_Map\<close>, \<open>Page_Map_Correct\<close> (\<open>page_sample_map.c\<close>); the locale \<open>page_store\<close> with its
    interpretation \<open>pm\<close> is the contract of the map of samples.
  \<^item> \<open>LLC_Event_Cntr\<close> (\<open>llc_event_cntr.c\<close>, \<open>perf_event.c\<close>).
  \<^item> \<open>Chunk_Head\<close>, \<open>TCMalloc_Entry\<close>, \<open>TCMalloc_Correct\<close>, \<open>TCMalloc_Props\<close> (\<open>tcmalloc.cc\<close>, \<open>cacheex.h\<close>): the entry
    points, over a heap that is a parameter.
  \<^item> \<open>Size_Map\<close>, \<open>Size_Map_Correct\<close> (\<open>common.h\<close>, \<open>common.cc\<close>): size classes. \<open>Linked_List\<close> (\<open>linked_list.h\<close>): chains of free
    objects and the lists they stand for.
  \<^item> \<open>System_Alloc\<close>, \<open>System_Alloc_Correct\<close> (\<open>system-alloc.cc\<close>, \<open>MetaDataAlloc\<close> of \<open>common.cc\<close>): regions from the kernel.
  \<^item> \<open>Page_Map3\<close> (\<open>pagemap.h\<close>, \<open>packed-cache-inl.h\<close>): the radix tree of pages and the packed cache.
    \<open>Object_Allocator\<close> (\<open>page_heap_allocator.h\<close>): the pool of descriptors. The locale \<open>object_source\<close> is what its clients
    rely on, interpreted for span descriptors (\<open>span_source\<close>) and for thread caches (\<open>cache_source\<close>).
  \<^item> \<open>Page_Heap\<close> (\<open>span.h\<close>, \<open>span.cc\<close>, \<open>page_heap.h\<close>, \<open>page_heap.cc\<close>) with its invariant \<open>ph_ok\<close> in \<open>Page_Heap_Invariant\<close>, the
    steps that keep it in \<open>Page_Heap_Steps\<close>, \<open>Page_Heap_Alloc\<close> and \<open>Page_Heap_Release\<close>, when it can end the process in
    \<open>Page_Heap_Room\<close>, the contract of \<open>New\<close>, \<open>Delete\<close> and the release loop in \<open>Page_Heap_Correct\<close>, and the two heap types
    in \<open>Page_Heap_Types\<close>. \<open>System_Pages\<close> puts the system allocator under it.
  \<^item> \<open>Central_Freelist\<close> (\<open>central_freelist.h\<close>, \<open>central_freelist.cc\<close>) with its invariant \<open>central_inv\<close> in \<open>Central_Invariant\<close>, and
    \<open>Central_Steps\<close>, \<open>Central_Correct\<close>, \<open>Central_Fetch\<close>, \<open>Central_Props\<close>.
  \<^item> \<open>Thread_Cache\<close>, \<open>Thread_Cache_Life\<close> (\<open>thread_cache.h\<close>, \<open>thread_cache.cc\<close>, \<open>static_vars.cc\<close>): the caches, their creation,
    publication and end, the overall budget, and the start of the allocator. The invariants are \<open>cache_inv\<close> of one cache
    (\<open>Thread_Cache_Invariant\<close>, \<open>Thread_Cache_Correct\<close>), \<open>threads_ok\<close> and \<open>limits\<close> of all of them (\<open>Thread_Caches\<close>,
    \<open>Thread_Cache_Props\<close>); \<open>Thread_Cache_Start\<close> shows that \<open>InitModule\<close> establishes them, \<open>Thread_Cache_Life_Props\<close> treats
    threads, \<open>Thread_Cache_Examples\<close> holds concrete processes.
  \<^item> \<open>Chunk_Monitor\<close>, \<open>Chunk_Monitor_API\<close> (\<open>chunk_monitor.c\<close> and the sampling calls of
    \<open>chunk_predictor.c\<close>, parallel), \<open>Chunk_Monitor_Serial\<close> (serial), \<open>NightWatch\<close>, \<open>NightWatch_Serial\<close>
    (\<open>nightwatch.c\<close>, \<open>stdlib_hook.c\<close>, \<open>utl_cpuaffi.c\<close>), \<open>NightWatch_Correct\<close>.
  \<^item> \<open>Queue_Client\<close>, \<open>Monitor_Invariant\<close>, \<open>Monitor_Correct\<close>, \<open>Serial_Invariant\<close>: invariants of the
    monitor. The locale \<open>queue_client\<close> says what the queue needs from its handlers to keep an invariant,
    and is interpreted on the handlers of both versions at every nesting depth (\<open>mc\<close>, \<open>sc\<close>).
  \<^item> \<open>Boot_State\<close>: the state of a process that was just loaded, at which the properties are applied.

  \<^bold>\<open>State and effects.\<close> The globals of a component are a record that extends the record of the components
  it uses, so the state of the whole library is one record and an operation is a function on it; an
  operation that can fault returns \<open>fault + result\<close>. Pointers are 64-bit words; objects reached through them
  live in stores (\<open>ck_cell\<close>, \<open>ctx_cell\<close>, \<open>ps_cell\<close>, \<open>ev_cell\<close>, \<open>chk_cell\<close> and others). Intrusive lists are HOL lists of
  pointers; \<open>Utl_List\<close> shows for the link operations themselves that they implement insertion, removal
  and iteration. A C \<open>int\<close> is an integer with the wrap-around written out where it can leave its range;
  counters and sizes of type \<open>unsigned long\<close> are words.

  \<^bold>\<open>What is shown.\<close>
  \<^item> Containers: the hash maps refine finite maps, also across table doubling; the bitmap refines sets; the
    link operations refine lists; in every interleaving of the parallel hash map a chain is worked on by
    one thread; the places where the code departs from this (a head taken for a member, deletion of an
    absent key, a slot from a stale mask) are exhibited.
  \<^item> Event queue: the queue stays sorted and indexed, exactly the due events run and in order, the signal
    handler ends and re-arms the timer.
  \<^item> Profile and predictor: the size table stays well formed, a stack keeps its context, decisions made in
    floating point are the rational ones, hints need two restricted chunks.
  \<^item> Page map and monitor: lookup after attach and detach, samples on distinct pages, convergence of a
    chunk in its base number of cycles, and invariants over all reachable states of both versions.
  \<^item> Entry points: the head leads back to its block, \<open>free\<close> returns the very block the heap answered to
    \<open>malloc\<close>, the nesting depth and the pending context are balanced over every run of the process; and
    the errors of the extension (failed allocation, truncation, overflow, stale heads, blocks that are switched to the other
    heap, failed start).
  \<^item> Sizes and system memory: every size gets the smallest class that holds it; the radix tree and the packed cache are
    maps; regions have their alignment and size, and the bytes that stay mapped are those that are handed out; the
    heap type of a request never reaches the kernel.
  \<^item> Page heap: spans partition the pages, the page map finds them, the byte counts are right and neighbours are
    merged. \<open>New\<close> hands out pages nobody has, \<open>Delete\<close> takes them back, the release loop ends. Null comes out only
    when no free span fits and the calls made for this request were refused; the process ends only when there is no
    memory for descriptors.
  \<^item> Central lists: every object of a span is in exactly one place; objects that are handed out are new to the
    clients; objects that come back are taken in, and a span whose last object came back goes to the page heap.
  \<^item> Thread caches: an object that is handed out is held by nobody else; lengths, low-water marks and byte counts
    are right; the budget is the unclaimed space plus the limits of all caches, from \<open>InitModule\<close> on.
  \<^item> The other heap type: a span deleted into the wrong heap makes the release loop run forever, eviction leaves a lock
    of the default type held, the cache of the other type is never freed when a thread ends. For this reason
    \<open>InsertRange\<close>, \<open>Deallocate\<close> and \<open>DeleteCache\<close> are proved for the default type, \<open>New\<close>, \<open>RemoveRange\<close> and \<open>Allocate\<close> for both.

  \<^bold>\<open>Bounds and fuel.\<close> Handlers that add events are called by the queue and call it again; \<open>run_handler\<close> and
  \<open>run_handler_mt\<close> take the depth of such calls as fuel, and \<open>trigger_loop\<close> the number of events it may
  run. The queue theorems prove that fuel above the number of queued events is enough when handlers do not
  queue new due events; the invariants hold for every fuel. The loops over pages (\<open>range_addrs\<close>,
  \<open>pre_walk\<close>) take fuel because they do not end at the top of the address space, which is a
  theorem; \<open>remove_samples_loop\<close> takes the length of the list; \<open>cpp_alloc\<close> and \<open>cpp_memalign\<close> as many turns as the new
  handler returns. In the page heap the release loop takes fuel, since it does not end when the counts and the lists
  disagree; one more than the number of spans is enough for \<open>Delete\<close> and what calls it, two more for \<open>New\<close>, which
  may add a span first. \<open>SLL_Size\<close> takes fuel because a chain may be circular.

  \<^bold>\<open>Parameters.\<close> Code outside the sources is part of the state or an argument: the addresses
  \<open>internal_malloc\<close> returns (\<open>malloc_seq\<close>) and the words in front of them, the clock, \<open>sigaction\<close> and PAPI results, random
  numbers, the function \<open>pow\<close> inside the sampling density, return addresses, the wrapped functions of the C
  library. The heap of gperftools below the entry points is the record \<open>tc_heap\<close>: the entry points are
  called with any pointer, while thread caches, central lists and page heap are verified for objects that their
  clients hold, so the properties of the entry points are stated for every heap. The hypothesis
  \<open>heap_laws\<close> says that it changes only its own data and memory, that blocks lie in the lower half of the
  address space and that no new handler is installed. The kernel under the system allocators is \<open>k_mmap\<close>, \<open>k_sbrk\<close> and
  \<open>k_madvise\<close> with \<open>mmap_contract\<close> and \<open>sbrk_contract\<close>. The page heap sees the system as the answers
  \<open>sys_alloc\<close> and \<open>sys_release\<close>, one per call, so that a theorem can name the call that was refused; \<open>sys_contract\<close> is what it relies
  on, and \<open>System_Pages\<close> derives it from the system allocators up to two promises of the kernel, that regions are new and
  that the process has fewer than \<open>2 ^ 31\<close> pages. Blocks of metadata are a sequence with \<open>meta_contract\<close>. Heap limits
  (\<open>TCMALLOC_HEAP_LIMIT_MB\<close>) are modelled; the theorems on \<open>New\<close> and its callers are for processes without one, which is the default.

  \<^bold>\<open>Not modelled.\<close> Concurrency other than that of the hash map: the remaining operations are run by one
  thread at a time, with locks as state that a second acquisition by the holder deadlocks on. The content
  of user memory. Of gperftools: \<open>DevMemSysAllocator\<close> (never installed), the one- and two-level page maps (32-bit builds), the sampler and
  the stack traces (sampling is off by default), debug assertions, \<open>MallocExtension\<close> and other statistics, the profilers,
  checkers and hooks, and the ports to other systems. PAPI headers (declarations only) and the kernel patch.
  \<open>delete_bitmap\<close>: two calls of \<open>free\<close> on objects that the value model of the bitmap does not have.
\<close>

end
